(* ===== verification/OC_Prelude.thy ===== *)
theory OC_Prelude
  imports Main "HOL-Library.Word" "HOL-Library.Multiset"
begin

unbundle bit_operations_syntax

text \<open>
  Shared vocabulary of the development: the C integer types, the outcome of a C call
  (a value, an \<^verbatim>\<open>abort()\<close>, an access outside an object, a loop that never ends), bounded
  reads from a byte buffer, little-endian byte strings, the C library's \<^verbatim>\<open>qsort\<close>, and the
  lemma collections the component theories extend.
\<close>

section \<open>C integers\<close>

type_synonym u8 = "8 word"
type_synonym u16 = "16 word"
type_synonym u32 = "32 word"
type_synonym u64 = "64 word"

named_theorems outcome_simps \<open>unfolding of outcome-valued operations\<close>
named_theorems wire_simps \<open>lengths and contents of serialised byte strings\<close>

section \<open>Outcomes of C calls\<close>

text \<open>
  \<open>Ok\<close> is a normal return. \<open>Abort\<close> is a call of \<^verbatim>\<open>abort()\<close>, \<open>Fault\<close> an access outside the
  object a pointer points into (undefined behaviour in C), \<open>Hang\<close> a loop that does not end.
\<close>

datatype 'a outcome = Ok 'a | Abort | Fault | Hang

fun obind :: "'a outcome \<Rightarrow> ('a \<Rightarrow> 'b outcome) \<Rightarrow> 'b outcome" where
  "obind (Ok x) f = f x"
| "obind Abort f = Abort"
| "obind Fault f = Fault"
| "obind Hang f = Hang"

lemma obind_eq_Ok_iff [simp]: "obind r f = Ok y \<longleftrightarrow> (\<exists>x. r = Ok x \<and> f x = Ok y)"
  by (cases r) auto

lemma obind_Ok_right [simp]: "obind r Ok = r"
  by (cases r) auto

lemma obind_assoc: "obind (obind r f) g = obind r (\<lambda>x. obind (f x) g)"
  by (cases r) auto

text \<open>What holds of the value of a call that returns; the rules follow the structure of the code.\<close>

definition yields :: "'a outcome \<Rightarrow> ('a \<Rightarrow> bool) \<Rightarrow> bool" where
  "yields r P \<longleftrightarrow> (\<forall>x. r = Ok x \<longrightarrow> P x)"

named_theorems yields_intro \<open>rules for what a call yields\<close>

lemma yieldsD: "yields r P \<Longrightarrow> r = Ok x \<Longrightarrow> P x"
  by (simp add: yields_def)

lemma yields_Ok [simp]: "yields (Ok x) P \<longleftrightarrow> P x"
  by (simp add: yields_def)

lemma yields_failed [simp]: "yields Abort P" "yields Fault P" "yields Hang P"
  by (simp_all add: yields_def)

lemma yields_bind: "yields r P \<Longrightarrow> (\<And>x. P x \<Longrightarrow> yields (f x) Q) \<Longrightarrow> yields (obind r f) Q"
  by (auto simp: yields_def)

lemma yields_bind_any: "(\<And>x. r = Ok x \<Longrightarrow> yields (f x) Q) \<Longrightarrow> yields (obind r f) Q"
  by (auto simp: yields_def)

lemma yields_mono: "yields r P \<Longrightarrow> (\<And>x. P x \<Longrightarrow> Q x) \<Longrightarrow> yields r Q"
  by (auto simp: yields_def)

section \<open>MAPI status codes\<close>

text \<open>The codes of \<^verbatim>\<open>enum MAPISTATUS\<close> the modelled functions return themselves; \<open>MAPI_code\<close> stands
  for the others, which only callbacks and backends return.\<close>

datatype MAPISTATUS =
    MAPI_E_SUCCESS
  | MAPI_E_NOT_INITIALIZED
  | MAPI_E_INVALID_PARAMETER
  | MAPI_E_NOT_FOUND
  | MAPI_E_NOT_ENOUGH_RESOURCES
  | MAPI_E_UNABLE_TO_COMPLETE
  | MAPI_E_CORRUPT_STORE
  | MAPI_E_CORRUPT_DATA
  | ecRpcFormat
  | MAPI_code u32

section \<open>Bounded reads\<close>

definition rd :: "'a list \<Rightarrow> nat \<Rightarrow> 'a outcome" where
  "rd buf i = (if i < length buf then Ok (buf ! i) else Fault)"

definition rd_bytes :: "'a list \<Rightarrow> nat \<Rightarrow> nat \<Rightarrow> 'a list outcome" where
  "rd_bytes buf pos n = (if pos + n \<le> length buf then Ok (take n (drop pos buf)) else Fault)"

lemma rd_append [simp]: "i < length xs \<Longrightarrow> rd (xs @ ys) i = rd xs i"
  by (simp add: rd_def nth_append)

lemma rd_at [simp]: "length xs = i \<Longrightarrow> rd (xs @ y # ys) i = Ok y"
  by (auto simp: rd_def)

lemma rd_bytes_at [simp]:
  "length xs = pos \<Longrightarrow> length ys = n \<Longrightarrow> rd_bytes (xs @ ys @ zs) pos n = Ok ys"
  by (auto simp: rd_bytes_def)

lemma rd_bytes_length: "rd_bytes buf pos n = Ok xs \<Longrightarrow> length xs = n"
  by (auto simp: rd_bytes_def split: if_splits)

section \<open>Little-endian byte strings\<close>

text \<open>\<open>le_bytes n v\<close> is the list of the low \<open>n\<close> bytes of \<open>v\<close>, least significant first;
  \<open>le_value\<close> reads such a list back, at the width of the result type.\<close>

fun le_bytes :: "nat \<Rightarrow> 'a::len word \<Rightarrow> u8 list" where
  "le_bytes 0 v = []"
| "le_bytes (Suc n) v = ucast v # le_bytes n (drop_bit 8 v)"

fun le_value :: "u8 list \<Rightarrow> 'a::len word" where
  "le_value [] = 0"
| "le_value (b # bs) = ucast b OR push_bit 8 (le_value bs)"

lemma length_le_bytes [simp, wire_simps]: "length (le_bytes n v) = n"
  by (induction n arbitrary: v) auto

lemma nth_le_bytes: "i < n \<Longrightarrow> le_bytes n v ! i = ucast (drop_bit (8 * i) v)"
proof (induction n arbitrary: v i)
  case 0
  then show ?case by simp
next
  case (Suc n)
  then show ?case by (cases i) (simp_all add: algebra_simps drop_bit_drop_bit)
qed

lemma bit_le_value:
  "bit (le_value bs :: 'a::len word) k \<longleftrightarrow>
     k < LENGTH('a) \<and> k div 8 < length bs \<and> bit (bs ! (k div 8)) (k mod 8)"
proof (induction bs arbitrary: k)
  case Nil
  then show ?case by simp
next
  case (Cons b bs)
  show ?case
  proof (cases "k < 8")
    case True
    then show ?thesis by (auto simp: bit_simps)
  next
    case False
    then have k: "k div 8 = Suc ((k - 8) div 8)" "k mod 8 = (k - 8) mod 8"
      by (simp_all add: div_if mod_if)
    from False have b: "\<not> bit b k"
      using bit_imp_le_length [of b k] by auto
    show ?thesis using False b Cons.IH [of "k - 8"] k by (auto simp: bit_simps)
  qed
qed

lemma le_value_le_bytes:
  "le_value (le_bytes n v) = (take_bit (8 * n) v :: 'a::len word)"
proof (rule bit_word_eqI)
  fix k assume "k < LENGTH('a)"
  then show "bit (le_value (le_bytes n v) :: 'a word) k = bit (take_bit (8 * n) v) k"
    by (cases "k div 8 < n") (auto simp: bit_le_value nth_le_bytes bit_simps)
qed

lemma take_bit_eq_self_iff_less:
  fixes w :: "'a::len word"
  assumes "n < LENGTH('a)"
  shows "take_bit n w = w \<longleftrightarrow> w < 2 ^ n"
proof -
  have "unat (of_nat (2 ^ n) :: 'a word) = 2 ^ n mod 2 ^ LENGTH('a)"
    by (rule unat_of_nat)
  also have "\<dots> = (2 ^ n :: nat)" using assms by (intro mod_less power_strict_increasing) simp_all
  finally have "unat (2 ^ n :: 'a word) = 2 ^ n" by simp
  then have "w < 2 ^ n \<longleftrightarrow> unat w < 2 ^ n" by (simp add: word_less_nat_alt)
  moreover have "take_bit n w = w \<longleftrightarrow> take_bit n (unat w) = unat w"
    by (metis unsigned_take_bit_eq unsigned_word_eqI)
  ultimately show ?thesis by (simp add: take_bit_nat_eq_self_iff)
qed

section \<open>qsort\<close>

text \<open>
  The C library sorts by a comparison function. The C standard leaves the order of elements
  that compare equal open; the model keeps their original order.
\<close>

fun qsort_insert :: "('a \<Rightarrow> 'a \<Rightarrow> int) \<Rightarrow> 'a \<Rightarrow> 'a list \<Rightarrow> 'a list" where
  "qsort_insert cmp x [] = [x]"
| "qsort_insert cmp x (y # ys) = (if cmp x y \<le> 0 then x # y # ys else y # qsort_insert cmp x ys)"

definition qsort :: "('a \<Rightarrow> 'a \<Rightarrow> int) \<Rightarrow> 'a list \<Rightarrow> 'a list" where
  "qsort cmp xs = foldr (qsort_insert cmp) xs []"

lemma mset_qsort_insert [simp]: "mset (qsort_insert cmp x xs) = add_mset x (mset xs)"
  by (induction xs) auto

lemma mset_qsort [simp]: "mset (qsort cmp xs) = mset xs"
  by (induction xs) (auto simp: qsort_def)

lemma set_qsort [simp]: "set (qsort cmp xs) = set xs"
  using mset_qsort [of cmp xs] by (metis set_mset_mset)

lemma length_qsort [simp]: "length (qsort cmp xs) = length xs"
  using mset_qsort [of cmp xs] by (metis size_mset)

lemma qsort_Nil_iff [simp]: "qsort cmp xs = [] \<longleftrightarrow> xs = []"
  using length_qsort [of cmp xs] by (metis length_0_conv)

text \<open>The contract of a comparison function: what \<^verbatim>\<open>qsort\<close> requires of its callers.\<close>

locale compar =
  fixes cmp :: "'a \<Rightarrow> 'a \<Rightarrow> int"
  assumes total: "cmp x y \<le> 0 \<or> cmp y x \<le> 0"
    and trans: "cmp x y \<le> 0 \<Longrightarrow> cmp y z \<le> 0 \<Longrightarrow> cmp x z \<le> 0"
begin

lemma sorted_insert:
  "sorted_wrt (\<lambda>x y. cmp x y \<le> 0) xs \<Longrightarrow> sorted_wrt (\<lambda>x y. cmp x y \<le> 0) (qsort_insert cmp a xs)"
proof (induction xs)
  case Nil
  then show ?case by simp
next
  case (Cons y ys)
  have "set (qsort_insert cmp a ys) = insert a (set ys)"
    using mset_qsort_insert [of cmp a ys] by (metis set_mset_add_mset_insert set_mset_mset)
  then show ?case using Cons total [of a y] by (auto intro: trans)
qed

lemma sorted_qsort: "sorted_wrt (\<lambda>x y. cmp x y \<le> 0) (qsort cmp xs)"
  by (induction xs) (auto simp: qsort_def intro: sorted_insert)

end

end
