(* ===== verification/Globset.thy ===== *)
theory Globset
  imports OC_Prelude
begin

unbundle bit_operations_syntax

text \<open>
  GLOBSET encoding of \<^verbatim>\<open>src/libmapi/idset.c\<close>: the byte order of GLOBCNT values, the stack
  machine that decodes a GLOBSET (push, pop, range, bitmask, end) and the encoder of a range.
  The main results are that the encoder is inverted by the decoder, byte count included, and
  that the decoder always stops.
\<close>

section \<open>GLOBCNT byte order\<close>

definition exchange_globcnt :: "u64 \<Rightarrow> u64" where
  "exchange_globcnt globcnt =
     push_bit 40 (globcnt AND 0x00000000000000ff)
     OR push_bit 24 (globcnt AND 0x000000000000ff00)
     OR push_bit 8 (globcnt AND 0x0000000000ff0000)
     OR drop_bit 8 (globcnt AND 0x00000000ff000000)
     OR drop_bit 24 (globcnt AND 0x000000ff00000000)
     OR drop_bit 40 (globcnt AND 0x0000ff0000000000)"

section \<open>Data\<close>

record globset_range =
  low :: u64
  high :: u64

text \<open>
  The parser's state. A stack entry is a pointer into the buffer and a length, so it is an
  (offset, length) pair; the bytes are read only when the stack is combined. The C array
  \<open>stack\<close> holds its first \<open>next_stack_item\<close> entries here. \<open>parser_ranges\<close> is the DLIST the
  parser appends to; \<open>next_stack_item\<close> is the length of the list.
\<close>

record GLOBSET_parser =
  parser_buffer :: "u8 list"
  buffer_position :: nat
  parser_stack :: "(nat \<times> nat) list"
  total_stack_size :: u8
  parser_range_count :: u32
  parser_ranges :: "globset_range list"

section \<open>Parser operations\<close>

fun read_stack :: "u8 list \<Rightarrow> (nat \<times> nat) list \<Rightarrow> u8 list outcome" where
  "read_stack buf [] = Ok []"
| "read_stack buf ((off, len) # st) =
     obind (rd_bytes buf off len) (\<lambda>bs. obind (read_stack buf st) (\<lambda>rest. Ok (bs @ rest)))"

definition GLOBSET_parser_stack_combine :: "GLOBSET_parser \<Rightarrow> u8 list \<Rightarrow> u8 list outcome" where
  "GLOBSET_parser_stack_combine parser additional =
     obind (read_stack (parser_buffer parser) (parser_stack parser)) (\<lambda>bs. Ok (bs @ additional))"

fun range_value_loop :: "u8 list \<Rightarrow> u64 \<Rightarrow> u64 \<Rightarrow> u64" where
  "range_value_loop [] val base = val"
| "range_value_loop (b # bs) val base = range_value_loop bs (val + ucast b * base) (base * 256)"

text \<open>The loop counter is a \<^verbatim>\<open>uint8_t\<close>: it never reaches a length of 256 or more.\<close>

definition GLOBSET_parser_range_value :: "u8 list \<Rightarrow> u64 outcome" where
  "GLOBSET_parser_range_value combined =
     (if length combined \<ge> 256 then Hang else Ok (range_value_loop combined 0 1))"

definition add_range :: "GLOBSET_parser \<Rightarrow> u64 \<Rightarrow> u64 \<Rightarrow> GLOBSET_parser" where
  "add_range parser l h =
     parser\<lparr>parser_ranges := parser_ranges parser @ [\<lparr>low = l, high = h\<rparr>],
            parser_range_count := parser_range_count parser + 1\<rparr>"

definition GLOBSET_parser_do_range :: "GLOBSET_parser \<Rightarrow> GLOBSET_parser outcome" where
  "GLOBSET_parser_do_range parser =
     (let cnt = unat (6 - total_stack_size parser) in
      obind (rd_bytes (parser_buffer parser) (buffer_position parser) cnt) (\<lambda>additional.
      let parser1 = parser\<lparr>buffer_position := buffer_position parser + cnt\<rparr> in
      obind (GLOBSET_parser_stack_combine parser1 additional) (\<lambda>combined.
      obind (GLOBSET_parser_range_value combined) (\<lambda>l.
      if cnt = 0 then Ok (add_range parser1 l l)
      else
        obind (rd_bytes (parser_buffer parser1) (buffer_position parser1) cnt) (\<lambda>additional2.
        let parser2 = parser1\<lparr>buffer_position := buffer_position parser1 + cnt\<rparr> in
        obind (GLOBSET_parser_stack_combine parser2 additional2) (\<lambda>combined2.
        obind (GLOBSET_parser_range_value combined2) (\<lambda>h.
        Ok (add_range parser2 l h))))))))"

text \<open>A pop on the empty stack wraps \<open>next_stack_item\<close> to 255 and reads outside the parser.\<close>

definition GLOBSET_parser_do_pop :: "GLOBSET_parser \<Rightarrow> GLOBSET_parser outcome" where
  "GLOBSET_parser_do_pop parser =
     (if parser_stack parser = [] then Fault
      else Ok (parser\<lparr>parser_stack := butlast (parser_stack parser),
                      total_stack_size := total_stack_size parser
                                          - of_nat (snd (last (parser_stack parser)))\<rparr>))"

definition GLOBSET_parser_do_push :: "GLOBSET_parser \<Rightarrow> u8 \<Rightarrow> GLOBSET_parser outcome" where
  "GLOBSET_parser_do_push parser cnt =
     (if cnt = 0 \<or> cnt > 6 \<or> length (parser_stack parser) > 5 \<or> total_stack_size parser > 6
      then Abort
      else
        let parser1 = parser\<lparr>parser_stack := parser_stack parser @ [(buffer_position parser, unat cnt)],
                             buffer_position := buffer_position parser + unat cnt,
                             total_stack_size := total_stack_size parser + cnt\<rparr> in
        if total_stack_size parser1 = 6
        then obind (GLOBSET_parser_do_range parser1) GLOBSET_parser_do_pop
        else Ok parser1)"

text \<open>One round of the bitmask loop: \<open>i\<close> is the bit's index.\<close>

record bitmask_state =
  bm_parser :: GLOBSET_parser
  bm_blank :: bool
  bm_low :: u64
  bm_high :: u64

definition bitmask_step :: "u8 \<Rightarrow> u64 \<Rightarrow> nat \<Rightarrow> bitmask_state \<Rightarrow> bitmask_state" where
  "bitmask_step msk baseValue i s =
     (let b = (push_bit i 1 :: u8); v = baseValue + push_bit 40 (ucast b + 1) in
      if bm_blank s then
        (if msk AND b \<noteq> 0 then s\<lparr>bm_blank := False, bm_low := v, bm_high := v\<rparr> else s)
      else if msk AND b = 0 then
        s\<lparr>bm_parser := add_range (bm_parser s) (bm_low s) (bm_high s), bm_blank := True\<rparr>
      else s\<lparr>bm_high := v\<rparr>)"

definition GLOBSET_parser_do_bitmask :: "GLOBSET_parser \<Rightarrow> GLOBSET_parser outcome" where
  "GLOBSET_parser_do_bitmask parser =
     obind (rd (parser_buffer parser) (buffer_position parser + 1)) (\<lambda>msk.
     let parser1 = parser\<lparr>buffer_position := buffer_position parser + 2\<rparr> in
     obind (rd_bytes (parser_buffer parser1) (buffer_position parser1) 1) (\<lambda>additional.
     obind (GLOBSET_parser_stack_combine parser1 additional) (\<lambda>combined.
     obind (GLOBSET_parser_range_value combined) (\<lambda>baseValue.
     let s = fold (bitmask_step msk baseValue) [0..<8]
               \<lparr>bm_parser = parser1, bm_blank = False, bm_low = baseValue, bm_high = baseValue\<rparr> in
     Ok (if bm_blank s then bm_parser s
         else add_range (bm_parser s) (bm_low s) (bm_high s))))))"

section \<open>GLOBSET_parse\<close>

text \<open>What one command does: \<open>None\<close> for the end command, \<open>Some\<close> of the new state otherwise.\<close>

definition GLOBSET_command :: "GLOBSET_parser \<Rightarrow> u8 \<Rightarrow> GLOBSET_parser option outcome" where
  "GLOBSET_command parser command =
     (if command = 0 then Ok None
      else if 1 \<le> command \<and> command \<le> 6 then obind (GLOBSET_parser_do_push parser command) (\<lambda>p. Ok (Some p))
      else if command = 0x42 then obind (GLOBSET_parser_do_bitmask parser) (\<lambda>p. Ok (Some p))
      else if command = 0x50 then obind (GLOBSET_parser_do_pop parser) (\<lambda>p. Ok (Some p))
      else if command = 0x52 then obind (GLOBSET_parser_do_range parser) (\<lambda>p. Ok (Some p))
      else Abort)"

lemma buffer_position_mono_range:
  "GLOBSET_parser_do_range p = Ok p' \<Longrightarrow>
     buffer_position p \<le> buffer_position p' \<and> parser_buffer p' = parser_buffer p"
  by (auto simp: GLOBSET_parser_do_range_def Let_def add_range_def split: if_splits)

lemma buffer_position_mono_pop:
  "GLOBSET_parser_do_pop p = Ok p' \<Longrightarrow>
     buffer_position p' = buffer_position p \<and> parser_buffer p' = parser_buffer p"
  by (auto simp: GLOBSET_parser_do_pop_def split: if_splits)

lemma buffer_position_mono_push:
  "GLOBSET_parser_do_push p c = Ok p' \<Longrightarrow>
     buffer_position p \<le> buffer_position p' \<and> parser_buffer p' = parser_buffer p"
  by (fastforce simp: GLOBSET_parser_do_push_def Let_def split: if_splits
      dest!: buffer_position_mono_range buffer_position_mono_pop)

lemma bitmask_step_position:
  "buffer_position (bm_parser (bitmask_step msk v i s)) = buffer_position (bm_parser s) \<and>
   parser_buffer (bm_parser (bitmask_step msk v i s)) = parser_buffer (bm_parser s)"
  by (auto simp: bitmask_step_def Let_def add_range_def)

lemma bitmask_fold_position:
  "buffer_position (bm_parser (fold (bitmask_step msk v) is s)) = buffer_position (bm_parser s) \<and>
   parser_buffer (bm_parser (fold (bitmask_step msk v) is s)) = parser_buffer (bm_parser s)"
  by (induction "is" arbitrary: s) (simp_all add: bitmask_step_position)

lemma buffer_position_mono_bitmask:
  "GLOBSET_parser_do_bitmask p = Ok p' \<Longrightarrow>
     buffer_position p \<le> buffer_position p' \<and> parser_buffer p' = parser_buffer p"
  using bitmask_fold_position
  by (auto simp: GLOBSET_parser_do_bitmask_def Let_def add_range_def)

lemma buffer_position_mono_command:
  assumes "GLOBSET_command p c = Ok (Some p')"
  shows "buffer_position p \<le> buffer_position p' \<and> parser_buffer p' = parser_buffer p"
  using assms
  by (auto simp: GLOBSET_command_def split: if_splits
      dest: buffer_position_mono_push buffer_position_mono_bitmask
        buffer_position_mono_pop buffer_position_mono_range)

text \<open>
  The decoding loop. \<open>Ok None\<close> is the error exit (the buffer ended before the end command).
  Every round consumes at least the command byte, so the loop stops.
\<close>

function GLOBSET_loop :: "GLOBSET_parser \<Rightarrow> GLOBSET_parser option outcome" where
  "GLOBSET_loop parser =
     (if buffer_position parser \<ge> length (parser_buffer parser) then Ok None
      else
        let command = parser_buffer parser ! buffer_position parser;
            parser1 = parser\<lparr>buffer_position := Suc (buffer_position parser)\<rparr> in
        (case GLOBSET_command parser1 command of
           Ok None \<Rightarrow> Ok (Some parser1)
         | Ok (Some parser2) \<Rightarrow> GLOBSET_loop parser2
         | Abort \<Rightarrow> Abort | Fault \<Rightarrow> Fault | Hang \<Rightarrow> Hang))"
  by pat_completeness auto
termination
  by (relation "measure (\<lambda>p. length (parser_buffer p) - buffer_position p)")
    (auto dest: buffer_position_mono_command)

declare GLOBSET_loop.simps [simp del]

definition init_parser :: "u8 list \<Rightarrow> GLOBSET_parser" where
  "init_parser buffer =
     \<lparr>parser_buffer = buffer, buffer_position = 0, parser_stack = [], total_stack_size = 0,
      parser_range_count = 0, parser_ranges = []\<rparr>"

text \<open>
  The result: the range list (empty for \<^verbatim>\<open>NULL\<close>), what is stored through \<open>countP\<close> and what is
  stored through \<open>byte_countP\<close>; \<open>None\<close> where the code leaves the caller's variable as it was.
\<close>

definition GLOBSET_parse :: "u8 list \<Rightarrow> (globset_range list \<times> u32 option \<times> u32 option) outcome" where
  "GLOBSET_parse buffer =
     (if buffer = [] then Ok ([], None, Some 0)
      else obind (GLOBSET_loop (init_parser buffer)) (\<lambda>r.
        case r of
          None \<Rightarrow> Ok ([], None, None)
        | Some parser \<Rightarrow> Ok (parser_ranges parser, Some (parser_range_count parser),
                              Some (of_nat (buffer_position parser)))))"

section \<open>Encoder\<close>

definition GLOBSET_ndr_push_shifted_id :: "u64 \<Rightarrow> nat \<Rightarrow> nat \<Rightarrow> u8 list" where
  "GLOBSET_ndr_push_shifted_id range_id start cnt =
     map (\<lambda>i. ucast (drop_bit (8 * (start + i)) range_id AND 0xff)) [0..<cnt]"

function common_prefix :: "u64 \<Rightarrow> u64 \<Rightarrow> u64 \<Rightarrow> nat \<Rightarrow> nat" where
  "common_prefix l h msk i =
     (if i < 6 \<and> l AND msk = h AND msk then common_prefix l h (push_bit 8 msk) (Suc i) else i)"
  by pat_completeness auto
termination by (relation "measure (\<lambda>(l, h, msk, i). 6 - i)") auto

declare common_prefix.simps [simp del]

definition GLOBSET_ndr_push_globset_range :: "globset_range \<Rightarrow> u8 list" where
  "GLOBSET_ndr_push_globset_range rng =
     (if low rng = high rng then 0x06 # GLOBSET_ndr_push_shifted_id (low rng) 0 6
      else
        let i = common_prefix (low rng) (high rng) 0xff 0 in
        (if i > 0 \<and> i < 6 then of_nat i # GLOBSET_ndr_push_shifted_id (low rng) 0 i else [])
        @ 0x52 # GLOBSET_ndr_push_shifted_id (low rng) i (6 - i)
        @ GLOBSET_ndr_push_shifted_id (high rng) i (6 - i)
        @ (if i > 0 \<and> i < 6 then [0x50] else []))"

text \<open>The part of \<open>IDSET_serialize\<close> that writes the ranges of one idset and the end command.\<close>

definition GLOBSET_serialize :: "globset_range list \<Rightarrow> u8 list" where
  "GLOBSET_serialize rs = concat (map GLOBSET_ndr_push_globset_range rs) @ [0x00]"


section \<open>Byte order\<close>

text \<open>Bit-level facts on \<open>exchange_globcnt\<close>: byte \<open>j\<close> of the result is byte \<open>5 - j\<close> of the argument.\<close>

lemma byte_masks:
  "(0xff :: u64) = push_bit 0 (mask 8)" "(0xff00 :: u64) = push_bit 8 (mask 8)"
  "(0xff0000 :: u64) = push_bit 16 (mask 8)" "(0xff000000 :: u64) = push_bit 24 (mask 8)"
  "(0xff00000000 :: u64) = push_bit 32 (mask 8)" "(0xff0000000000 :: u64) = push_bit 40 (mask 8)"
  by (simp_all add: mask_eq_exp_minus_1 push_bit_eq_mult)

lemma bit_push_byte:
  "bit (push_bit n (x AND push_bit m (mask 8)) :: u64) k \<longleftrightarrow>
     n + m \<le> k \<and> k < n + m + 8 \<and> k < 64 \<and> bit x (k - n)"
  by (auto simp: bit_simps)

lemma bit_drop_byte:
  "bit (drop_bit n (x AND push_bit m (mask 8)) :: u64) k \<longleftrightarrow>
     m \<le> n + k \<and> n + k < m + 8 \<and> bit x (n + k)"
  by (auto simp: bit_simps dest: bit_imp_le_length)

lemmas bit_exchange_unfold =
  exchange_globcnt_def [unfolded byte_masks] bit_or_iff bit_push_byte bit_drop_byte

lemma bit_exchange_globcnt_byte:
  assumes "r < 8"
  shows "bit (exchange_globcnt x) (0 + r) \<longleftrightarrow> bit x (40 + r)"
    "bit (exchange_globcnt x) (8 + r) \<longleftrightarrow> bit x (32 + r)"
    "bit (exchange_globcnt x) (16 + r) \<longleftrightarrow> bit x (24 + r)"
    "bit (exchange_globcnt x) (24 + r) \<longleftrightarrow> bit x (16 + r)"
    "bit (exchange_globcnt x) (32 + r) \<longleftrightarrow> bit x (8 + r)"
    "bit (exchange_globcnt x) (40 + r) \<longleftrightarrow> bit x (0 + r)"
  using assms unfolding bit_exchange_unfold
  by simp_all

lemma bit_exchange_globcnt_high: "48 \<le> k \<Longrightarrow> \<not> bit (exchange_globcnt x) k"
  unfolding bit_exchange_unfold by simp

lemma bit_exchange_globcnt:
  assumes "j < 6" and "r < 8"
  shows "bit (exchange_globcnt x) (8 * j + r) \<longleftrightarrow> bit x (8 * (5 - j) + r)"
proof -
  have "j = 0 \<or> j = 1 \<or> j = 2 \<or> j = 3 \<or> j = 4 \<or> j = 5" using assms(1) by arith
  then show ?thesis
    by (elim disjE) (use bit_exchange_globcnt_byte [OF assms(2), of x] in simp_all)
qed

lemma exchange_globcnt_twice: "exchange_globcnt (exchange_globcnt x) = take_bit 48 x"
proof (rule bit_word_eqI)
  fix k assume "k < LENGTH(64)"
  show "bit (exchange_globcnt (exchange_globcnt x)) k = bit (take_bit 48 x) k"
  proof (cases "k < 48")
    case True
    define j r where "j = k div 8" and "r = k mod 8"
    then have k: "k = 8 * j + r" and r: "r < 8" by simp_all
    with True have j: "j < 6" by simp
    then have "bit (exchange_globcnt (exchange_globcnt x)) k = bit x k"
      using bit_exchange_globcnt [OF j r, of "exchange_globcnt x"]
        bit_exchange_globcnt [of "5 - j" r x] r unfolding k by simp
    with True show ?thesis by (simp add: bit_take_bit_iff)
  next
    case False
    then show ?thesis by (simp add: bit_exchange_globcnt_high bit_take_bit_iff)
  qed
qed

section \<open>Values and byte strings\<close>

lemma le_value_Cons_add: "(le_value (b # bs) :: u64) = ucast b + 256 * le_value bs"
proof -
  have "(ucast b :: u64) AND push_bit 8 (le_value bs) = 0"
    by (rule bit_word_eqI) (auto simp: bit_simps dest: bit_imp_le_length)
  then have "(ucast b :: u64) OR push_bit 8 (le_value bs) = ucast b + push_bit 8 (le_value bs)"
    by (rule disjunctive_add_eq_or [symmetric])
  then show ?thesis by (simp add: push_bit_eq_mult mult.commute)
qed

lemma range_value_loop_eq: "range_value_loop bs v b = v + b * le_value bs"
proof (induction bs arbitrary: v b)
  case Nil
  then show ?case by simp
next
  case (Cons x xs)
  show ?case unfolding range_value_loop.simps Cons.IH le_value_Cons_add
    by (simp add: algebra_simps del: le_value.simps)
qed

lemma range_value_small [simp]:
  "length bs < 256 \<Longrightarrow> GLOBSET_parser_range_value bs = Ok (le_value bs)"
  by (simp add: GLOBSET_parser_range_value_def range_value_loop_eq)

lemma push_shifted_id_eq [wire_simps]:
  "GLOBSET_ndr_push_shifted_id v start n = le_bytes n (drop_bit (8 * start) v)"
proof (rule nth_equalityI)
  show "length (GLOBSET_ndr_push_shifted_id v start n) = length (le_bytes n (drop_bit (8 * start) v))"
    by (simp add: GLOBSET_ndr_push_shifted_id_def)
  fix i assume "i < length (GLOBSET_ndr_push_shifted_id v start n)"
  then have i: "i < n" by (simp add: GLOBSET_ndr_push_shifted_id_def)
  have "ucast (drop_bit (8 * (start + i)) v AND 0xff) = (ucast (drop_bit (8 * (start + i)) v) :: u8)"
    unfolding byte_masks by (rule bit_word_eqI) (auto simp: bit_simps)
  with i show "GLOBSET_ndr_push_shifted_id v start n ! i = le_bytes n (drop_bit (8 * start) v) ! i"
    by (simp add: GLOBSET_ndr_push_shifted_id_def nth_le_bytes drop_bit_drop_bit algebra_simps)
qed

lemma le_bytes_append:
  "le_bytes (m + n) v = le_bytes m v @ le_bytes n (drop_bit (8 * m) v)"
  by (induction m arbitrary: v) (simp_all add: drop_bit_drop_bit algebra_simps)

lemma take_bit_add_byte:
  fixes l h :: u64
  assumes "take_bit (8 * i) l = take_bit (8 * i) h"
    and "l AND push_bit (8 * i) 0xff = h AND push_bit (8 * i) 0xff"
  shows "take_bit (8 * Suc i) l = take_bit (8 * Suc i) h"
proof (rule bit_word_eqI)
  fix k assume k: "k < LENGTH(64)"
  show "bit (take_bit (8 * Suc i) l) k = bit (take_bit (8 * Suc i) h) k"
  proof (cases "k < 8 * i")
    case True
    with arg_cong [OF assms(1), of "\<lambda>w. bit w k"] show ?thesis by (simp add: bit_take_bit_iff)
  next
    case False
    with k arg_cong [OF assms(2), of "\<lambda>w. bit w k"] show ?thesis
      by (auto simp: bit_take_bit_iff bit_and_iff byte_masks bit_push_bit_iff bit_mask_iff)
  qed
qed

lemma common_prefix_spec:
  assumes "take_bit (8 * i) l = take_bit (8 * i) h" and "i \<le> 6"
  shows "common_prefix l h (push_bit (8 * i) 0xff) i \<le> 6 \<and>
    take_bit (8 * common_prefix l h (push_bit (8 * i) 0xff) i) l
    = take_bit (8 * common_prefix l h (push_bit (8 * i) 0xff) i) h"
  using assms
proof (induction "6 - i" arbitrary: i)
  case 0
  then show ?case by (simp add: common_prefix.simps)
next
  case (Suc n)
  show ?case
  proof (cases "l AND push_bit (8 * i) 0xff = h AND push_bit (8 * i) 0xff")
    case True
    have p: "push_bit 8 (push_bit (8 * i) 0xff) = (push_bit (8 * Suc i) 0xff :: u64)"
      by (simp add: push_bit_push_bit algebra_simps del: push_bit_numeral)
    have i: "i < 6" using Suc.hyps(2) by simp
    have eq: "common_prefix l h (push_bit (8 * i) 0xff) i = common_prefix l h (push_bit (8 * Suc i) 0xff) (Suc i)"
      using True i unfolding p [symmetric] by (subst common_prefix.simps) simp
    show ?thesis unfolding eq
      by (rule Suc.hyps(1)) (use Suc.hyps(2) take_bit_add_byte [OF Suc.prems(1) True] in simp_all)
  next
    case False
    then show ?thesis using Suc.prems by (simp add: common_prefix.simps)
  qed
qed

section \<open>Decoding what the encoder wrote\<close>

text \<open>\<open>parser_at\<close> is the parser's state at a position of the buffer, with the range counter in
  step with the range list; \<open>wf_range\<close> says both ends of a range fit the 48 bits of a GLOBCNT.\<close>

definition parser_at :: "u8 list \<Rightarrow> nat \<Rightarrow> (nat \<times> nat) list \<Rightarrow> u8 \<Rightarrow> globset_range list \<Rightarrow> GLOBSET_parser" where
  "parser_at buf pos st tot rs =
     \<lparr>parser_buffer = buf, buffer_position = pos, parser_stack = st, total_stack_size = tot,
      parser_range_count = of_nat (length rs), parser_ranges = rs\<rparr>"

lemma parser_at_simps [simp]:
  "parser_buffer (parser_at buf pos st tot rs) = buf"
  "buffer_position (parser_at buf pos st tot rs) = pos"
  "parser_stack (parser_at buf pos st tot rs) = st"
  "total_stack_size (parser_at buf pos st tot rs) = tot"
  "(parser_at buf pos st tot rs)\<lparr>buffer_position := pos'\<rparr> = parser_at buf pos' st tot rs"
  "add_range (parser_at buf pos st tot rs) l h = parser_at buf pos st tot (rs @ [\<lparr>low = l, high = h\<rparr>])"
  by (simp_all add: parser_at_def add_range_def)

text \<open>One command byte at the parser's position.\<close>

lemma GLOBSET_loop_step:
  assumes "buf = pre @ c # post" and "length pre = pos"
    and "GLOBSET_command (parser_at buf (Suc pos) st tot rs) c = Ok (Some p)"
  shows "GLOBSET_loop (parser_at buf pos st tot rs) = GLOBSET_loop p"
  using assms by (subst GLOBSET_loop.simps) (auto simp: Let_def)

lemma GLOBSET_loop_end:
  assumes "buf = pre @ 0 # post" and "length pre = pos"
  shows "GLOBSET_loop (parser_at buf pos st tot rs) = Ok (Some (parser_at buf (Suc pos) st tot rs))"
  using assms by (subst GLOBSET_loop.simps) (auto simp: Let_def GLOBSET_command_def)

lemma do_range_at:
  assumes "buf = pre @ l @ h @ post" and "length pre = pos"
    and "length l = n" and "length h = n" and "n = unat (6 - tot)" and "0 < n" and "n \<le> 6"
    and "read_stack buf st = Ok bs" and "length bs < 200"
    and "le_value (bs @ l) = low r" and "le_value (bs @ h) = high r"
  shows "GLOBSET_command (parser_at buf pos st tot rs) 0x52 =
    Ok (Some (parser_at buf (pos + n + n) st tot (rs @ [r])))"
proof -
  have l: "rd_bytes buf pos n = Ok l"
    using assms(1-3) rd_bytes_at [of pre pos l n "h @ post"] by simp
  have h: "rd_bytes buf (pos + n) n = Ok h"
    using assms(1-4) rd_bytes_at [of "pre @ l" "pos + n" h n post] by simp
  have "GLOBSET_parser_do_range (parser_at buf pos st tot rs) =
      Ok (parser_at buf (pos + n + n) st tot (rs @ [\<lparr>low = low r, high = high r\<rparr>]))"
    using assms(3-) l h
    by (simp add: GLOBSET_parser_do_range_def Let_def GLOBSET_parser_stack_combine_def)
  then show ?thesis by (cases r) (simp add: GLOBSET_command_def)
qed

lemma do_push_at:
  assumes "0 < n" and "n < 6"
  shows "GLOBSET_command (parser_at buf pos [] 0 rs) (of_nat n) =
    Ok (Some (parser_at buf (pos + n) [(pos, n)] (of_nat n) rs))"
proof -
  have "n \<in> {1, 2, 3, 4, 5}" using assms by auto
  then show ?thesis
    by (auto simp: GLOBSET_command_def GLOBSET_parser_do_push_def Let_def parser_at_def)
qed

lemma do_pop_at:
  "GLOBSET_command (parser_at buf pos [(q, n)] (of_nat n) rs) 0x50 =
    Ok (Some (parser_at buf pos [] 0 rs))"
  by (simp add: GLOBSET_command_def GLOBSET_parser_do_pop_def parser_at_def)

lemma do_push_six_at:
  assumes "buf = pre @ v @ post" and "length pre = pos" and "length v = 6"
  shows "GLOBSET_command (parser_at buf pos [] 0 rs) 6 =
    Ok (Some (parser_at buf (pos + 6) [] 0 (rs @ [\<lparr>low = le_value v, high = le_value v\<rparr>])))"
proof -
  have v: "rd_bytes buf pos 6 = Ok v"
    using assms rd_bytes_at [of pre pos v 6 post] by simp
  have z: "rd_bytes buf (pos + 6) 0 = Ok []" using assms by (simp add: rd_bytes_def)
  have p: "(parser_at buf pos [] 0 rs)\<lparr>parser_stack := [(pos, 6)], buffer_position := pos + 6,
        total_stack_size := 6\<rparr> = parser_at buf (pos + 6) [(pos, 6)] 6 rs"
    by (simp add: parser_at_def)
  have "GLOBSET_parser_do_range (parser_at buf (pos + 6) [(pos, 6)] 6 rs)
      = Ok (parser_at buf (pos + 6) [(pos, 6)] 6 (rs @ [\<lparr>low = le_value v, high = le_value v\<rparr>]))"
    using v z assms(3)
    by (simp add: GLOBSET_parser_do_range_def GLOBSET_parser_stack_combine_def)
  then show ?thesis
    by (simp add: GLOBSET_command_def GLOBSET_parser_do_push_def Let_def p
        GLOBSET_parser_do_pop_def) (simp add: parser_at_def)
qed

definition wf_range :: "globset_range \<Rightarrow> bool" where
  "wf_range r \<longleftrightarrow> take_bit 48 (low r) = low r \<and> take_bit 48 (high r) = high r"

lemma le_value_split:
  fixes v :: u64
  assumes "i \<le> 6" and "take_bit 48 v = v" and "take_bit (8 * i) u = take_bit (8 * i) v"
  shows "le_value (le_bytes i u @ le_bytes (6 - i) (drop_bit (8 * i) v)) = v"
proof -
  have "le_bytes i u = le_bytes i v"
  proof (rule nth_equalityI)
    fix j assume "j < length (le_bytes i u)"
    then have j: "j < i" by simp
    have "ucast (drop_bit (8 * j) u) = (ucast (drop_bit (8 * j) v) :: u8)"
    proof (rule bit_word_eqI)
      fix k assume k: "k < LENGTH(8)"
      then have "8 * j + k < 8 * i" using j by auto
      with k arg_cong [OF assms(3), of "\<lambda>w. bit w (8 * j + k)"]
      show "bit (ucast (drop_bit (8 * j) u) :: u8) k = bit (ucast (drop_bit (8 * j) v) :: u8) k"
        by (simp add: bit_simps)
    qed
    with j show "le_bytes i u ! j = le_bytes i v ! j" by (simp add: nth_le_bytes)
  qed simp
  then have "le_bytes i u @ le_bytes (6 - i) (drop_bit (8 * i) v) = le_bytes 6 v"
    using le_bytes_append [of i "6 - i" v] assms(1) by simp
  then show ?thesis using assms(2) by (simp add: le_value_le_bytes)
qed

lemma GLOBSET_loop_range:
  assumes "wf_range r" and buf: "buf = pre @ GLOBSET_ndr_push_globset_range r @ post"
    and pos: "length pre = pos"
  shows "GLOBSET_loop (parser_at buf pos [] 0 rs) =
    GLOBSET_loop (parser_at buf (pos + length (GLOBSET_ndr_push_globset_range r)) [] 0 (rs @ [r]))"
proof (cases "low r = high r")
  case True
  have v: "le_value (le_bytes 6 (low r)) = low r"
    using assms(1) by (simp add: wf_range_def le_value_le_bytes)
  have "GLOBSET_loop (parser_at buf pos [] 0 rs) =
      GLOBSET_loop (parser_at buf (Suc pos + 6) [] 0 (rs @ [\<lparr>low = low r, high = low r\<rparr>]))"
    by (rule GLOBSET_loop_step [where pre = pre and c = "6", OF _ pos])
      (use True buf pos v in \<open>simp_all add: GLOBSET_ndr_push_globset_range_def wire_simps
         do_push_six_at [where pre = "pre @ [6]" and post = post and v = "le_bytes 6 (low r)"]\<close>)
  with True show ?thesis
    by (cases r) (simp add: GLOBSET_ndr_push_globset_range_def wire_simps add.commute)
next
  case False
  define i where "i = common_prefix (low r) (high r) 0xff 0"
  have pre_i: "i \<le> 6" "take_bit (8 * i) (low r) = take_bit (8 * i) (high r)"
    using common_prefix_spec [of 0 "low r" "high r"] by (simp_all add: i_def)
  have "i \<noteq> 6" using pre_i(2) assms(1) False by (auto simp: wf_range_def)
  with pre_i have i: "i < 6" by simp
  let ?p = "le_bytes i (low r)"
  let ?l = "le_bytes (6 - i) (drop_bit (8 * i) (low r))"
  let ?h = "le_bytes (6 - i) (drop_bit (8 * i) (high r))"
  have vals: "le_value (?p @ ?l) = low r" "le_value (?p @ ?h) = high r"
    using assms(1) pre_i by (auto simp: wf_range_def intro: le_value_split)
  have six: "unat (6 - (of_nat i :: u8)) = 6 - i"
  proof -
    have "i = 0 \<or> i = 1 \<or> i = 2 \<or> i = 3 \<or> i = 4 \<or> i = 5" using i by arith
    then show ?thesis by (elim disjE) simp_all
  qed
  note push = GLOBSET_ndr_push_globset_range_def [of r, folded i_def] wire_simps
  show ?thesis
  proof (cases "i = 0")
    case True
    have b: "buf = (pre @ [0x52]) @ ?l @ ?h @ post"
      using buf False True by (simp add: push i_def [symmetric])
    have "GLOBSET_loop (parser_at buf pos [] 0 rs) =
        GLOBSET_loop (parser_at buf (Suc pos + 6 + 6) [] 0 (rs @ [r]))"
    proof (rule GLOBSET_loop_step [where pre = pre and c = "0x52", OF _ pos])
      show "buf = pre @ 0x52 # ?l @ ?h @ post" using b by simp
      show "GLOBSET_command (parser_at buf (Suc pos) [] 0 rs) 0x52 =
          Ok (Some (parser_at buf (Suc pos + 6 + 6) [] 0 (rs @ [r])))"
        by (rule do_range_at [OF b, where bs = "[]"]) (use vals pos True in simp_all)
    qed
    then show ?thesis using False True by (simp add: push i_def [symmetric] add.commute)
  next
    case F: False
    have b: "buf = pre @ of_nat i # ?p @ 0x52 # ?l @ ?h @ 0x50 # post"
      using buf False F i by (simp add: push i_def [symmetric])
    let ?q1 = "Suc pos + i"
    let ?q2 = "Suc ?q1 + (6 - i) + (6 - i)"
    have st: "read_stack buf [(Suc pos, i)] = Ok ?p"
      using b pos rd_bytes_at [of "pre @ [of_nat i]" "Suc pos" ?p i] by simp
    have b2: "buf = (pre @ of_nat i # ?p @ [0x52]) @ ?l @ ?h @ 0x50 # post" using b by simp
    have "GLOBSET_loop (parser_at buf pos [] 0 rs)
        = GLOBSET_loop (parser_at buf ?q1 [(Suc pos, i)] (of_nat i) rs)"
      by (rule GLOBSET_loop_step [OF b pos]) (use do_push_at F i in auto)
    also have "\<dots> = GLOBSET_loop (parser_at buf ?q2 [(Suc pos, i)] (of_nat i) (rs @ [r]))"
    proof (rule GLOBSET_loop_step [where pre = "pre @ of_nat i # ?p" and c = "0x52"])
      show "GLOBSET_command (parser_at buf (Suc ?q1) [(Suc pos, i)] (of_nat i) rs) 0x52
          = Ok (Some (parser_at buf ?q2 [(Suc pos, i)] (of_nat i) (rs @ [r])))"
        by (rule do_range_at [OF b2, where bs = ?p]) (use vals pos i six st in simp_all)
    qed (use b pos in simp_all)
    also have "\<dots> = GLOBSET_loop (parser_at buf (Suc ?q2) [] 0 (rs @ [r]))"
      by (rule GLOBSET_loop_step [where pre = "pre @ of_nat i # ?p @ 0x52 # ?l @ ?h" and post = post
            and c = "0x50"])
        (use b pos do_pop_at in simp_all)
    also have "Suc ?q2 = pos + length (GLOBSET_ndr_push_globset_range r)"
      using False F i by (simp add: push i_def [symmetric])
    finally show ?thesis .
  qed
qed

lemma GLOBSET_loop_ranges:
  assumes "\<forall>r \<in> set rs. wf_range r" and "buf = pre @ GLOBSET_serialize rs @ post"
  shows "GLOBSET_loop (parser_at buf (length pre) [] 0 acc) =
    Ok (Some (parser_at buf (length pre + length (GLOBSET_serialize rs)) [] 0 (acc @ rs)))"
  using assms
proof (induction rs arbitrary: pre acc)
  case Nil
  then show ?case
    using GLOBSET_loop_end [of buf pre post "length pre"] by (simp add: GLOBSET_serialize_def)
next
  case (Cons r rs)
  let ?b = "GLOBSET_ndr_push_globset_range r"
  have buf: "buf = pre @ ?b @ (GLOBSET_serialize rs @ post)"
    and buf': "buf = (pre @ ?b) @ GLOBSET_serialize rs @ post"
    using Cons.prems(2) by (simp_all add: GLOBSET_serialize_def)
  have "GLOBSET_loop (parser_at buf (length pre) [] 0 acc) =
      GLOBSET_loop (parser_at buf (length (pre @ ?b)) [] 0 (acc @ [r]))"
    using GLOBSET_loop_range [OF _ buf refl] Cons.prems(1) by simp
  also have "\<dots> = Ok (Some (parser_at buf (length (pre @ ?b) + length (GLOBSET_serialize rs)) []
      0 ((acc @ [r]) @ rs)))"
    using Cons.prems(1) by (intro Cons.IH buf') simp
  finally show ?case by (simp add: GLOBSET_serialize_def algebra_simps)
qed


lemma GLOBSET_parse_serialized:
  assumes "\<forall>r \<in> set rs. wf_range r"
  shows "GLOBSET_parse (GLOBSET_serialize rs @ post) =
    Ok (rs, Some (of_nat (length rs)), Some (of_nat (length (GLOBSET_serialize rs))))"
proof -
  have "init_parser (GLOBSET_serialize rs @ post) = parser_at (GLOBSET_serialize rs @ post) 0 [] 0 []"
    by (simp add: init_parser_def parser_at_def)
  with GLOBSET_loop_ranges [OF assms, where pre = "[]" and acc = "[]", OF refl]
  show ?thesis
    by (simp add: GLOBSET_parse_def GLOBSET_serialize_def parser_at_def)
qed

section \<open>Parser invariant\<close>

text \<open>The range counter follows the range list and the stack size follows the stack entries.\<close>

definition parser_inv :: "GLOBSET_parser \<Rightarrow> bool" where
  "parser_inv p \<longleftrightarrow> parser_range_count p = of_nat (length (parser_ranges p)) \<and>
     total_stack_size p = of_nat (sum_list (map snd (parser_stack p))) \<and>
     length (parser_stack p) \<le> 6 \<and> (\<forall>e \<in> set (parser_stack p). 1 \<le> snd e \<and> snd e \<le> 6)"

lemma parser_inv_add_range: "parser_inv p \<Longrightarrow> parser_inv (add_range p l h)"
  by (simp add: parser_inv_def add_range_def)

lemma parser_inv_position [simp]: "parser_inv (p\<lparr>buffer_position := n\<rparr>) = parser_inv p"
  by (simp add: parser_inv_def)

lemma parser_inv_range:
  assumes "parser_inv p" and "GLOBSET_parser_do_range p = Ok p'"
  shows "parser_inv p'"
  using assms by (auto simp: GLOBSET_parser_do_range_def Let_def intro: parser_inv_add_range split: if_splits)

lemma parser_inv_pop:
  assumes "parser_inv p" and "GLOBSET_parser_do_pop p = Ok p'"
  shows "parser_inv p'"
proof -
  from assms(2) have ne: "parser_stack p \<noteq> []" by (auto simp: GLOBSET_parser_do_pop_def split: if_splits)
  have "sum_list (map snd (parser_stack p)) =
      sum_list (map snd (butlast (parser_stack p))) + snd (last (parser_stack p))"
    using arg_cong [OF append_butlast_last_id [OF ne], of "\<lambda>xs. sum_list (map snd xs)"] by simp
  moreover have "set (butlast (parser_stack p)) \<subseteq> set (parser_stack p)"
    by (auto dest: in_set_butlastD)
  ultimately show ?thesis using assms ne
    by (auto simp: GLOBSET_parser_do_pop_def parser_inv_def subset_iff)
qed

lemma parser_inv_push:
  assumes "parser_inv p" and "GLOBSET_parser_do_push p c = Ok p'"
  shows "parser_inv p'"
proof -
  let ?p1 = "p\<lparr>parser_stack := parser_stack p @ [(buffer_position p, unat c)],
       buffer_position := buffer_position p + unat c, total_stack_size := total_stack_size p + c\<rparr>"
  from assms(2) have c: "c \<noteq> 0" "c \<le> 6" "length (parser_stack p) \<le> 5"
    by (auto simp: GLOBSET_parser_do_push_def not_less split: if_splits)
  then have "1 \<le> unat c" "unat c \<le> 6"
    by (auto simp: word_le_nat_alt Suc_le_eq unat_gt_0)
  with assms(1) c have "parser_inv ?p1" by (auto simp: parser_inv_def)
  then show ?thesis using assms(2)
    by (auto simp: GLOBSET_parser_do_push_def Let_def split: if_splits
        intro: parser_inv_pop parser_inv_range)
qed

lemma parser_inv_bitmask_step:
  "parser_inv (bm_parser s) \<Longrightarrow> parser_inv (bm_parser (bitmask_step msk v i s))"
  by (simp add: bitmask_step_def Let_def parser_inv_add_range)

lemma parser_inv_bitmask_fold:
  "parser_inv (bm_parser s) \<Longrightarrow> parser_inv (bm_parser (fold (bitmask_step msk v) is s))"
  by (induction "is" arbitrary: s) (simp_all add: parser_inv_bitmask_step)

lemma parser_inv_bitmask:
  assumes "parser_inv p" and "GLOBSET_parser_do_bitmask p = Ok p'"
  shows "parser_inv p'"
  using assms
  by (auto simp: GLOBSET_parser_do_bitmask_def Let_def
      intro!: parser_inv_add_range parser_inv_bitmask_fold)

lemma parser_inv_command:
  "parser_inv p \<Longrightarrow> GLOBSET_command p c = Ok (Some p') \<Longrightarrow> parser_inv p'"
  by (auto simp: GLOBSET_command_def split: if_splits
      intro: parser_inv_push parser_inv_bitmask parser_inv_pop parser_inv_range)

lemma GLOBSET_loop_inv:
  assumes "parser_inv p" and "GLOBSET_loop p = Ok (Some q)"
  shows "parser_inv q \<and> parser_buffer q = parser_buffer p \<and> 0 < buffer_position q
    \<and> buffer_position q \<le> length (parser_buffer p)"
  using assms
proof (induction p rule: GLOBSET_loop.induct)
  case (1 p)
  let ?c = "parser_buffer p ! buffer_position p"
  let ?p1 = "p\<lparr>buffer_position := Suc (buffer_position p)\<rparr>"
  from "1.prems"(2) have lt: "buffer_position p < length (parser_buffer p)"
    by (subst (asm) GLOBSET_loop.simps) (auto split: if_splits)
  show ?case
  proof (cases "GLOBSET_command ?p1 ?c")
    case (Ok r)
    show ?thesis
    proof (cases r)
      case None
      with Ok lt "1.prems" show ?thesis by (subst (asm) GLOBSET_loop.simps) (auto simp: Let_def)
    next
      case (Some p2)
      with Ok lt have eq: "GLOBSET_loop p = GLOBSET_loop p2"
        by (subst GLOBSET_loop.simps) (auto simp: Let_def)
      have "parser_inv p2" using parser_inv_command [of ?p1 ?c p2] Ok Some "1.prems"(1) by simp
      moreover have "parser_buffer p2 = parser_buffer p"
        using buffer_position_mono_command [of ?p1 ?c p2] Ok Some by simp
      ultimately show ?thesis
        using "1.IH" [OF _ refl refl Ok Some] lt "1.prems"(2) eq by auto
    qed
  qed (use "1.prems" lt in \<open>(subst (asm) GLOBSET_loop.simps, auto simp: Let_def)+\<close>)
qed


section \<open>Properties\<close>

text \<open>C4 The decoder inverts the encoder. For every list of ranges whose ends fit 48 bits and
  whatever bytes follow, \<open>GLOBSET_parse\<close> of the serialised ranges returns the same ranges, stores
  their number through \<open>countP\<close> and the length of the serialised form through \<open>byte_countP\<close>.\<close>

theorem GLOBSET_roundtrip:
  assumes "\<forall>r \<in> set rs. wf_range r"
  shows "GLOBSET_parse (GLOBSET_serialize rs @ post) =
    Ok (rs, Some (of_nat (length rs)), Some (of_nat (length (GLOBSET_serialize rs))))"
  by (rule GLOBSET_parse_serialized [OF assms])

text \<open>The hypothesis holds at a single value, a range with a common prefix and one without.\<close>

theorem GLOBSET_roundtrip_witness:
  "GLOBSET_parse (GLOBSET_serialize [\<lparr>low = 0x180401000000, high = 0x180401000000\<rparr>,
      \<lparr>low = 0x190401000000, high = 0x1b0401000000\<rparr>, \<lparr>low = 1, high = 0x530401000002\<rparr>] @ [7]) =
   Ok ([\<lparr>low = 0x180401000000, high = 0x180401000000\<rparr>,
      \<lparr>low = 0x190401000000, high = 0x1b0401000000\<rparr>, \<lparr>low = 1, high = 0x530401000002\<rparr>],
      Some 3, Some (of_nat (length (GLOBSET_serialize [\<lparr>low = 0x180401000000, high = 0x180401000000\<rparr>,
      \<lparr>low = 0x190401000000, high = 0x1b0401000000\<rparr>, \<lparr>low = 1, high = 0x530401000002\<rparr>]))))"
  using GLOBSET_roundtrip [of "[\<lparr>low = 0x180401000000, high = 0x180401000000\<rparr>,
      \<lparr>low = 0x190401000000, high = 0x1b0401000000\<rparr>, \<lparr>low = 1, high = 0x530401000002\<rparr>]" "[7]"]
  by (simp add: wf_range_def)

text \<open>\<open>exchange_globcnt\<close> reverses the six bytes of a GLOBCNT: applied twice it gives back the
  low 48 bits of its argument, and it is the identity on every value that fits 48 bits.\<close>

theorem exchange_globcnt_involution:
  "exchange_globcnt (exchange_globcnt x) = take_bit 48 x \<and>
   (x < 2 ^ 48 \<longrightarrow> exchange_globcnt (exchange_globcnt x) = x)"
  using take_bit_eq_self_iff_less [of 48 x] by (simp add: exchange_globcnt_twice)

theorem exchange_globcnt_involution_witness:
  "exchange_globcnt (exchange_globcnt 0x180401000002) = 0x180401000002"
  using exchange_globcnt_involution [of "0x180401000002"] by simp

text \<open>C34 When \<open>GLOBSET_parse\<close> reports a byte count, it lies within the buffer, so a caller that
  advances by it stays inside; the reported range count is the length of the returned list.\<close>

theorem GLOBSET_parse_bounds:
  assumes "GLOBSET_parse buffer = Ok (rs, cnt, Some n)" and "length buffer < 2 ^ 32"
  shows "unat n \<le> length buffer \<and> (cnt = None \<and> rs = [] \<or> cnt = Some (of_nat (length rs)))"
proof (cases "buffer = []")
  case True
  with assms show ?thesis by (simp add: GLOBSET_parse_def)
next
  case False
  with assms(1) obtain q where q: "GLOBSET_loop (init_parser buffer) = Ok (Some q)"
    and rs: "rs = parser_ranges q" and cnt: "cnt = Some (parser_range_count q)"
    and n: "n = of_nat (buffer_position q)"
    by (auto simp: GLOBSET_parse_def split: option.splits)
  have "parser_inv (init_parser buffer)" by (simp add: parser_inv_def init_parser_def)
  from GLOBSET_loop_inv [OF this q] have "parser_inv q" and p: "buffer_position q \<le> length buffer"
    by (simp_all add: init_parser_def)
  moreover have "unat n = buffer_position q"
    using p assms(2) n by (simp add: unat_of_nat)
  ultimately show ?thesis using rs cnt by (simp add: parser_inv_def)
qed

theorem GLOBSET_parse_bounds_witness:
  "GLOBSET_parse [6, 1, 2, 3, 4, 5, 6, 0, 9] = Ok ([\<lparr>low = 0x060504030201, high = 0x060504030201\<rparr>], Some 1, Some 8)
   \<and> unat (8 :: u32) \<le> length [6, 1, 2, 3, 4, 5, 6, 0, 9 :: u8]"
proof -
  have "GLOBSET_parse [6, 1, 2, 3, 4, 5, 6, 0, 9] =
      Ok ([\<lparr>low = 0x060504030201, high = 0x060504030201\<rparr>], Some 1, Some 8)"
    by code_simp
  then show ?thesis using GLOBSET_parse_bounds by fastforce
qed

text \<open>C40 A GLOBSET whose pushes overrun the six bytes of a GLOBCNT makes the decoder run
  forever: after two pushes of four bytes a range command asks for \<open>(uint8_t)(6 - 8) = 254\<close> more
  bytes, and \<open>GLOBSET_parser_range_value\<close> counts up to 262 with a \<^verbatim>\<open>uint8_t\<close>. A pop on the
  empty stack and a truncated range read outside the parser and the buffer.\<close>

theorem GLOBSET_parse_hostile:
  assumes "length xs = 4" and "length ys = 4" and "254 \<le> length zs"
  shows "GLOBSET_parse (4 # xs @ 4 # ys @ 0x52 # zs) = Hang \<and>
    GLOBSET_parse [0x50] = Fault \<and> GLOBSET_parse [0x52] = Fault"
proof -
  let ?b = "4 # xs @ 4 # ys @ 0x52 # zs"
  have s: "rd_bytes ?b (Suc 0) 4 = Ok xs" "rd_bytes ?b 6 4 = Ok ys"
    using assms rd_bytes_at [of "[4]" 1 xs 4 "4 # ys @ 0x52 # zs"]
      rd_bytes_at [of "4 # xs @ [4]" 6 ys 4 "0x52 # zs"] by simp_all
  have z: "rd_bytes ?b 11 254 = Ok (take 254 zs)"
    using assms rd_bytes_at [of "4 # xs @ 4 # ys @ [0x52]" 11 "take 254 zs" 254 "drop 254 zs"] by simp
  have "GLOBSET_loop (parser_at ?b 0 [] 0 []) = GLOBSET_loop (parser_at ?b 5 [(1, 4)] 4 [])"
    using GLOBSET_loop_step [of ?b "[]" 4 _ 0 "[]" 0 "[]"] do_push_at [of 4 ?b 1 "[]"] by simp
  also have "\<dots> = GLOBSET_loop (parser_at ?b 10 [(1, 4), (6, 4)] 8 [])"
    by (rule GLOBSET_loop_step [where pre = "4 # xs" and c = "4" and post = "ys @ 0x52 # zs"])
      (use assms in \<open>simp_all add: GLOBSET_command_def GLOBSET_parser_do_push_def parser_at_def\<close>)
  also have "\<dots> = Hang"
    using assms s z by (subst GLOBSET_loop.simps) (simp add: GLOBSET_command_def nth_append nth_Cons'
      GLOBSET_parser_do_range_def GLOBSET_parser_stack_combine_def GLOBSET_parser_range_value_def)
  finally have "GLOBSET_parse ?b = Hang"
    by (simp add: GLOBSET_parse_def init_parser_def parser_at_def)
  then show ?thesis
    by (simp add: GLOBSET_parse_def init_parser_def GLOBSET_loop.simps GLOBSET_command_def
      GLOBSET_parser_do_pop_def GLOBSET_parser_do_range_def rd_bytes_def)
qed

theorem GLOBSET_parse_hostile_witness:
  "GLOBSET_parse (4 # [1, 2, 3, 4] @ 4 # [5, 6, 7, 8] @ 0x52 # replicate 254 0) = Hang"
  using GLOBSET_parse_hostile [of "[1, 2, 3, 4]" "[5, 6, 7, 8]" "replicate 254 0"] by simp

end
