(* ===== verification/Idset.thy ===== *)
theory Idset
  imports Globset "HOL-Library.While_Combinator"
begin

unbundle bit_operations_syntax

text \<open>
  IDSET structures of \<^verbatim>\<open>src/libmapi/idset.c\<close>: parsing and serialising, building an idset from
  raw identifiers, sorting, compacting, merging, membership and removal. A chain linked by
  \<^verbatim>\<open>next\<close> is a list (\<^verbatim>\<open>NULL\<close> the empty one), and so is the DLIST of ranges (its
  pointers are the subject of \<open>Dlinklist\<close>). The GUID and NDR
  routines of Samba are not part of the repository: they are the fields of \<open>samba_lib\<close>, an
  argument of every definition that calls them, and \<open>samba_laws\<close> states what is relied on.
\<close>

section \<open>Library routines the code calls\<close>

record 'g samba_lib =
  GUID_from_data_blob :: "u8 list \<Rightarrow> 'g"
  ndr_push_GUID :: "'g \<Rightarrow> u8 list"
  ndr_push_uint16 :: "u16 \<Rightarrow> u8 list"
  GUID_compare :: "'g \<Rightarrow> 'g \<Rightarrow> int"
  GUID_equal :: "'g \<Rightarrow> 'g \<Rightarrow> bool"
  GUID_all_zero :: "'g \<Rightarrow> bool"
  GUID_zero :: 'g

text \<open>Documented behaviour: a GUID is 16 bytes on the wire and reads back, scalars are little
  endian, comparison is a total order whose zero is equality, \<open>GUID_zero\<close> is the zeroed struct.\<close>

definition samba_laws :: "'g samba_lib \<Rightarrow> bool" where
  "samba_laws G \<longleftrightarrow>
     (\<forall>g. length (ndr_push_GUID G g) = 16 \<and> GUID_from_data_blob G (ndr_push_GUID G g) = g) \<and>
     (\<forall>v. ndr_push_uint16 G v = le_bytes 2 v) \<and>
     (\<forall>a b. GUID_equal G a b \<longleftrightarrow> a = b) \<and>
     (\<forall>a b. GUID_compare G a b \<le> 0 \<or> GUID_compare G b a \<le> 0) \<and>
     (\<forall>a b c. GUID_compare G a b \<le> 0 \<longrightarrow> GUID_compare G b c \<le> 0 \<longrightarrow> GUID_compare G a c \<le> 0) \<and>
     (\<forall>a b. GUID_compare G a b \<le> 0 \<longrightarrow> GUID_compare G b a \<le> 0 \<longrightarrow> a = b) \<and>
     (\<forall>g. GUID_all_zero G g \<longleftrightarrow> g = GUID_zero G)"

section \<open>Data\<close>

text \<open>The flag \<open>idbased\<close> and the union \<open>repl\<close> together are a tagged union.\<close>

datatype 'g repl = ReplId u16 | ReplGuid 'g

fun idbased :: "'g repl \<Rightarrow> bool" where
  "idbased (ReplId i) = True"
| "idbased (ReplGuid g) = False"

record 'g idset =
  repl :: "'g repl"
  single :: bool
  range_count :: u32
  ranges :: "globset_range list"

text \<open>\<open>globcnts\<close> holds the first \<open>count\<close> entries of the C array; \<open>max_count\<close> is its size.\<close>

record 'g rawidset =
  raw_repl :: "'g repl"
  raw_single :: bool
  globcnts :: "u64 list"
  max_count :: nat

section \<open>IDSET_parse\<close>

record 'g parse_state =
  total_bytes :: u32
  byte_count :: u32
  current_idset :: "'g idset list"

definition IDSET_parse_repl :: "'g samba_lib \<Rightarrow> u8 list \<Rightarrow> bool \<Rightarrow> u32 \<Rightarrow> 'g repl outcome" where
  "IDSET_parse_repl G buffer idb tot =
     (if idb then
        obind (rd buffer (unat tot)) (\<lambda>b0.
        obind (rd buffer (unat (tot + 1))) (\<lambda>b1.
        Ok (ReplId (ucast b0 OR push_bit 8 (ucast b1)))))
      else Ok (ReplGuid (GUID_from_data_blob G (take 16 buffer))))"

text \<open>One round of the loop. The GUID and the GLOBSET are always read at the start of the
  buffer; a failed \<open>GLOBSET_parse\<close> leaves \<open>byte_count\<close> as it was.\<close>

definition IDSET_parse_step ::
  "'g samba_lib \<Rightarrow> u8 list \<Rightarrow> bool \<Rightarrow> 'g parse_state \<Rightarrow> 'g parse_state outcome" where
  "IDSET_parse_step G buffer idb s =
     (let id_length = (if idb then 2 else 16) in
      obind (IDSET_parse_repl G buffer idb (total_bytes s)) (\<lambda>rp.
      obind (GLOBSET_parse (drop id_length buffer)) (\<lambda>(rs, cnt, bc).
      let n = (case bc of None \<Rightarrow> byte_count s | Some n \<Rightarrow> n) in
      Ok \<lparr>total_bytes = total_bytes s + of_nat id_length + n, byte_count = n,
          current_idset = [\<lparr>repl = rp, single = False,
            range_count = (case cnt of None \<Rightarrow> 0 | Some c \<Rightarrow> c), ranges = rs\<rparr>]\<rparr>)))"

text \<open>\<open>junk\<close> is the value the uninitialised local \<open>byte_count\<close> starts with.\<close>

definition IDSET_parse :: "'g samba_lib \<Rightarrow> u32 \<Rightarrow> u8 list \<Rightarrow> bool \<Rightarrow> 'g idset list outcome" where
  "IDSET_parse G junk buffer idb =
     (if length buffer < (if idb then 2 else 16) then Ok []
      else
        (case while_option
                (\<lambda>r. case r of Ok s \<Rightarrow> unat (total_bytes s) < length buffer | _ \<Rightarrow> False)
                (\<lambda>r. obind r (IDSET_parse_step G buffer idb))
                (Ok \<lparr>total_bytes = 0, byte_count = junk, current_idset = []\<rparr>) of
           None \<Rightarrow> Hang
         | Some r \<Rightarrow> obind r (\<lambda>s. Ok (current_idset s))))"

section \<open>Comparison functions\<close>

text \<open>The functions are used on chains of one kind only; the other case is never read.\<close>

fun repl_id :: "'g repl \<Rightarrow> u16" where
  "repl_id (ReplId i) = i"
| "repl_id (ReplGuid g) = 0"

fun repl_guid :: "'g samba_lib \<Rightarrow> 'g repl \<Rightarrow> 'g" where
  "repl_guid G (ReplGuid g) = g"
| "repl_guid G (ReplId i) = GUID_zero G"

definition IDSET_ID_compar :: "'g idset \<Rightarrow> 'g idset \<Rightarrow> int" where
  "IDSET_ID_compar a b =
     (if repl_id (repl a) = repl_id (repl b) then 0
      else if repl_id (repl a) < repl_id (repl b) then 1 else -1)"

definition IDSET_GUID_compar :: "'g samba_lib \<Rightarrow> 'g idset \<Rightarrow> 'g idset \<Rightarrow> int" where
  "IDSET_GUID_compar G a b = GUID_compare G (repl_guid G (repl a)) (repl_guid G (repl b))"

definition IDSET_globcnt_compar :: "u64 \<Rightarrow> u64 \<Rightarrow> int" where
  "IDSET_globcnt_compar va vb =
     (let a = exchange_globcnt va; b = exchange_globcnt vb in
      if a < b then -1 else if a = b then 0 else 1)"

definition IDSET_range_compar :: "globset_range \<Rightarrow> globset_range \<Rightarrow> int" where
  "IDSET_range_compar a b = IDSET_globcnt_compar (low a) (low b)"

section \<open>IDSET_make\<close>

text \<open>The loop over the sorted array: the open range starts at \<open>lo\<close>, \<open>last_consequent\<close> is the
  last identifier seen, in value order. The result is the remaining list of ranges.\<close>

fun IDSET_make_loop :: "u64 \<Rightarrow> u64 \<Rightarrow> u64 list \<Rightarrow> globset_range list" where
  "IDSET_make_loop lo last_consequent [] = [\<lparr>low = lo, high = exchange_globcnt last_consequent\<rparr>]"
| "IDSET_make_loop lo last_consequent (w # ws) =
     (if exchange_globcnt w \<noteq> last_consequent \<and> exchange_globcnt w \<noteq> last_consequent + 1
      then \<lparr>low = lo, high = exchange_globcnt last_consequent\<rparr>
             # IDSET_make_loop w (exchange_globcnt w) ws
      else IDSET_make_loop lo (exchange_globcnt w) ws)"

definition IDSET_make :: "'g repl \<Rightarrow> u64 list \<Rightarrow> bool \<Rightarrow> 'g idset" where
  "IDSET_make rp array sgl =
     (if array = [] then \<lparr>repl = rp, single = sgl, range_count = 1, ranges = [\<lparr>low = 0, high = 0\<rparr>]\<rparr>
      else
        let work_array = qsort IDSET_globcnt_compar array;
            rs = (if sgl \<or> length array < 3
                  then [\<lparr>low = hd work_array, high = last work_array\<rparr>]
                  else IDSET_make_loop (hd work_array) (exchange_globcnt (hd work_array)) (tl work_array))
        in \<lparr>repl = rp, single = sgl, range_count = of_nat (length rs), ranges = rs\<rparr>)"

section \<open>Sorting, compacting, cloning\<close>

definition IDSET_reorder_idset :: "'g samba_lib \<Rightarrow> 'g idset list \<Rightarrow> 'g idset list" where
  "IDSET_reorder_idset G idsets =
     (if length idsets < 2 then idsets
      else qsort (if idbased (repl (hd idsets)) then IDSET_ID_compar else IDSET_GUID_compar G) idsets)"

text \<open>The array of \<open>range_count\<close> pointers is filled by following \<^verbatim>\<open>next\<close>: a shorter list makes
  the code follow a null pointer, the rest of a longer one is cut off.\<close>

definition IDSET_reorder_ranges :: "'g idset \<Rightarrow> 'g idset outcome" where
  "IDSET_reorder_ranges s =
     (if range_count s < 2 then Ok s
      else if length (ranges s) < unat (range_count s) then Fault
      else Ok (s\<lparr>ranges := qsort IDSET_range_compar (take (unat (range_count s)) (ranges s))\<rparr>))"

fun compact_single :: "globset_range \<Rightarrow> globset_range list \<Rightarrow> globset_range" where
  "compact_single r [] = r"
| "compact_single r (n # rest) =
     (let r1 = (if exchange_globcnt (low n) < exchange_globcnt (low r) then r\<lparr>low := low n\<rparr> else r);
          r2 = (if exchange_globcnt (high n) > exchange_globcnt (high r1) then r1\<lparr>high := high n\<rparr> else r1)
      in compact_single r2 rest)"

fun compact_ranges :: "globset_range list \<Rightarrow> globset_range list" where
  "compact_ranges [] = []"
| "compact_ranges [r] = [r]"
| "compact_ranges (r # n # rest) =
     (if exchange_globcnt (low n) \<ge> exchange_globcnt (low r)
         \<and> exchange_globcnt (low n) \<le> exchange_globcnt (high r)
      then compact_ranges ((if exchange_globcnt (high n) > exchange_globcnt (high r)
                            then r\<lparr>high := high n\<rparr> else r) # rest)
      else r # compact_ranges (n # rest))"

definition IDSET_compact_ranges :: "'g idset \<Rightarrow> 'g idset outcome" where
  "IDSET_compact_ranges s =
     (if range_count s < 2 then Ok s
      else if single s then
        (case ranges s of
           [] \<Rightarrow> Fault
         | r # rest \<Rightarrow> Ok (s\<lparr>ranges := [compact_single r rest], range_count := 1\<rparr>))
      else
        let rs = compact_ranges (ranges s) in
        Ok (s\<lparr>ranges := rs,
              range_count := range_count s - of_nat (length (ranges s) - length rs)\<rparr>))"

definition IDSET_clone :: "'g idset list \<Rightarrow> 'g idset list" where
  "IDSET_clone source =
     map (\<lambda>s. \<lparr>repl = repl s, single = single s, range_count = range_count s,
               ranges = map (\<lambda>r. \<lparr>low = low r, high = high r\<rparr>) (ranges s)\<rparr>) source"

section \<open>IDSET_merge_idsets\<close>

definition same_id :: "'g samba_lib \<Rightarrow> bool \<Rightarrow> 'g repl \<Rightarrow> 'g repl \<Rightarrow> bool" where
  "same_id G idb a b =
     (if idb then repl_id a = repl_id b else GUID_equal G (repl_guid G a) (repl_guid G b))"

text \<open>
  The loop over the sorted chain. \<open>key\<close> is the identifier of the head, which the code reads once
  before the loop. \<open>tl_len\<close> is the position that the head range's \<^verbatim>\<open>prev\<close> pointer points behind:
  the appended ranges do not move it.
\<close>

fun merge_loop :: "'g samba_lib \<Rightarrow> bool \<Rightarrow> 'g repl \<Rightarrow> 'g idset list \<Rightarrow> 'g idset \<Rightarrow> nat \<Rightarrow>
    'g idset list \<Rightarrow> bool \<Rightarrow> ('g idset list \<times> bool) outcome" where
  "merge_loop G idb key before current tl_len [] added = Ok (before @ [current], added)"
| "merge_loop G idb key before current tl_len (n # rest) added =
     (if same_id G idb key (repl n) then
        (if ranges current = [] then Fault
         else merge_loop G idb key before
                (current\<lparr>range_count := range_count current + range_count n,
                         ranges := take tl_len (ranges current) @ ranges n\<rparr>)
                tl_len rest True)
      else merge_loop G idb key (before @ [current]) n (length (ranges n)) rest added)"

fun reorder_and_compact :: "'g idset list \<Rightarrow> 'g idset list outcome" where
  "reorder_and_compact [] = Ok []"
| "reorder_and_compact (s # rest) =
     obind (IDSET_reorder_ranges s) (\<lambda>s1.
     obind (IDSET_compact_ranges s1) (\<lambda>s2.
     obind (reorder_and_compact rest) (\<lambda>rest'. Ok (s2 # rest'))))"

definition IDSET_merge_idsets ::
  "'g samba_lib \<Rightarrow> 'g idset list \<Rightarrow> 'g idset list \<Rightarrow> 'g idset list outcome" where
  "IDSET_merge_idsets G left right =
     (if left = [] \<or> range_count (hd left) = 0 then Ok (IDSET_clone right)
      else if right = [] \<or> range_count (hd right) = 0 then Ok (IDSET_clone left)
      else
        let merged = IDSET_reorder_idset G (IDSET_clone left @ IDSET_clone right);
            current = hd merged in
        obind (merge_loop G (idbased (repl current)) (repl current) [] current
                 (length (ranges current)) (tl merged) False) (\<lambda>(merged', added).
        if added then reorder_and_compact merged' else Ok merged'))"

section \<open>Serialisation\<close>

fun push_repl :: "'g samba_lib \<Rightarrow> 'g repl \<Rightarrow> u8 list" where
  "push_repl G (ReplId i) = ndr_push_uint16 G i"
| "push_repl G (ReplGuid g) = ndr_push_GUID G g"

definition IDSET_serialize :: "'g samba_lib \<Rightarrow> 'g idset list \<Rightarrow> u8 list" where
  "IDSET_serialize G idsets =
     concat (map (\<lambda>s. push_repl G (repl s) @ GLOBSET_serialize (ranges s)) idsets)"

section \<open>Membership\<close>

fun ranges_include :: "globset_range list \<Rightarrow> u64 \<Rightarrow> bool" where
  "ranges_include [] x = False"
| "ranges_include (r # rs) x =
     (if exchange_globcnt (low r) \<le> exchange_globcnt x \<and> exchange_globcnt (high r) \<ge> exchange_globcnt x
      then True else ranges_include rs x)"

fun includes_eid_loop :: "'g idset list \<Rightarrow> u16 \<Rightarrow> u64 \<Rightarrow> bool" where
  "includes_eid_loop [] eid_id x = False"
| "includes_eid_loop (s # rest) eid_id x =
     (if repl_id (repl s) = eid_id \<and> ranges_include (ranges s) x then True
      else includes_eid_loop rest eid_id x)"

definition IDSET_includes_eid :: "'g idset list \<Rightarrow> u64 \<Rightarrow> bool" where
  "IDSET_includes_eid idset eid =
     (if idset = [] \<or> \<not> idbased (repl (hd idset)) then False
      else includes_eid_loop idset (ucast (eid AND 0xffff)) (drop_bit 16 eid))"

fun includes_guid_loop :: "'g samba_lib \<Rightarrow> 'g idset list \<Rightarrow> 'g \<Rightarrow> u64 \<Rightarrow> bool" where
  "includes_guid_loop G [] g x = False"
| "includes_guid_loop G (s # rest) g x =
     (if GUID_equal G (repl_guid G (repl s)) g \<and> ranges_include (ranges s) x then True
      else includes_guid_loop G rest g x)"

definition IDSET_includes_guid_glob :: "'g samba_lib \<Rightarrow> 'g idset list \<Rightarrow> 'g option \<Rightarrow> u64 \<Rightarrow> bool" where
  "IDSET_includes_guid_glob G idset replica_guid x =
     (if idset = [] \<or> idbased (repl (hd idset)) then False
      else case replica_guid of None \<Rightarrow> False | Some g \<Rightarrow> includes_guid_loop G idset g x)"

section \<open>Removal\<close>

fun ranges_remove_globcnt :: "u64 \<Rightarrow> globset_range list \<Rightarrow> u32 \<Rightarrow> globset_range list \<times> u32" where
  "ranges_remove_globcnt eid [] n = ([], n)"
| "ranges_remove_globcnt eid (r # rs) n =
     (let work_eid = exchange_globcnt eid in
      if low r = eid then
        (if high r = eid then (rs, n - 1)
         else (r\<lparr>low := exchange_globcnt (work_eid + 1)\<rparr> # rs, n))
      else if high r = eid then (r\<lparr>high := exchange_globcnt (work_eid - 1)\<rparr> # rs, n)
      else if exchange_globcnt (low r) < work_eid \<and> exchange_globcnt (high r) > work_eid then
        (r\<lparr>high := exchange_globcnt (work_eid - 1)\<rparr>
         # \<lparr>low = exchange_globcnt (work_eid + 1), high = high r\<rparr> # rs, n + 1)
      else (let (rs', n') = ranges_remove_globcnt eid rs n in (r # rs', n')))"

definition IDSET_ranges_remove_globcnt :: "'g idset \<Rightarrow> u64 \<Rightarrow> 'g idset" where
  "IDSET_ranges_remove_globcnt s eid =
     (let (rs, n) = ranges_remove_globcnt eid (ranges s) (range_count s)
      in s\<lparr>ranges := rs, range_count := n\<rparr>)"

fun remove_from_first :: "'g samba_lib \<Rightarrow> bool \<Rightarrow> 'g repl \<Rightarrow> u64 list \<Rightarrow> 'g idset list \<Rightarrow> 'g idset list" where
  "remove_from_first G idb key xs [] = []"
| "remove_from_first G idb key xs (s # rest) =
     (if same_id G idb (repl s) key
      then fold (\<lambda>x t. IDSET_ranges_remove_globcnt t x) xs s # rest
      else s # remove_from_first G idb key xs rest)"

definition IDSET_remove_rawidset :: "'g samba_lib \<Rightarrow> 'g idset list \<Rightarrow> 'g rawidset list \<Rightarrow> 'g idset list" where
  "IDSET_remove_rawidset G idsets raw =
     (if idsets = [] \<or> raw = [] then idsets
      else if single (hd idsets) then idsets
      else if idbased (repl (hd idsets)) \<noteq> idbased (raw_repl (hd raw)) then idsets
      else remove_from_first G (idbased (repl (hd idsets))) (raw_repl (hd raw)) (globcnts (hd raw)) idsets)"

section \<open>Checking\<close>

fun check_ranges :: "nat \<Rightarrow> globset_range list \<Rightarrow> bool" where
  "check_ranges 0 rs = True"
| "check_ranges (Suc n) [] = False"
| "check_ranges (Suc n) (r # rs) =
     (if exchange_globcnt (low r) > exchange_globcnt (high r) then False else check_ranges n rs)"

fun IDSET_check_ranges :: "'g idset list \<Rightarrow> MAPISTATUS" where
  "IDSET_check_ranges [] = MAPI_E_SUCCESS"
| "IDSET_check_ranges (s # rest) =
     (if check_ranges (unat (range_count s)) (ranges s) then IDSET_check_ranges rest else ecRpcFormat)"

section \<open>RAWIDSET\<close>

definition RAWIDSET_make :: "'g samba_lib \<Rightarrow> bool \<Rightarrow> bool \<Rightarrow> 'g rawidset" where
  "RAWIDSET_make G idb sgl =
     \<lparr>raw_repl = (if idb then ReplId 0 else ReplGuid (GUID_zero G)), raw_single = sgl,
      globcnts = [], max_count = 0\<rparr>"

text \<open>The index of the first element with the identifier, and the element the out parameter
  \<open>rawidset_last\<close> points to (\<open>None\<close> where it is left alone).\<close>

fun find_index :: "('a \<Rightarrow> bool) \<Rightarrow> 'a list \<Rightarrow> nat option" where
  "find_index P [] = None"
| "find_index P (x # xs) = (if P x then Some 0 else map_option Suc (find_index P xs))"

definition RAWIDSET_find_by_ID :: "'g rawidset list \<Rightarrow> u16 \<Rightarrow> nat option \<times> nat option" where
  "RAWIDSET_find_by_ID raw replid =
     (if \<not> idbased (raw_repl (hd raw)) then (None, None)
      else case find_index (\<lambda>r. repl_id (raw_repl r) = replid) raw of
             Some i \<Rightarrow> (Some i, Some i)
           | None \<Rightarrow> (None, Some (length raw - 1)))"

definition RAWIDSET_find_by_GUID :: "'g samba_lib \<Rightarrow> 'g rawidset list \<Rightarrow> 'g \<Rightarrow> nat option \<times> nat option" where
  "RAWIDSET_find_by_GUID G raw guid =
     (if idbased (raw_repl (hd raw)) then (None, None)
      else case find_index (\<lambda>r. GUID_equal G (repl_guid G (raw_repl r)) guid) raw of
             Some i \<Rightarrow> (Some i, Some i)
           | None \<Rightarrow> (None, Some (length raw - 1)))"

text \<open>Appending a value: grow the array by 256 when it is full, then store at index \<open>count\<close>.\<close>

definition raw_append :: "'g rawidset \<Rightarrow> u64 \<Rightarrow> 'g rawidset outcome" where
  "raw_append r x =
     (let m = (if length (globcnts r) + 1 > max_count r then max_count r + 256 else max_count r) in
      if length (globcnts r) < m then Ok (r\<lparr>globcnts := globcnts r @ [x], max_count := m\<rparr>) else Fault)"

definition raw_append_at :: "'g rawidset list \<Rightarrow> nat \<Rightarrow> u64 \<Rightarrow> 'g rawidset list outcome" where
  "raw_append_at raw i x = obind (raw_append (raw ! i) x) (\<lambda>r. Ok (raw[i := r]))"

definition RAWIDSET_push_eid :: "'g samba_lib \<Rightarrow> 'g rawidset list \<Rightarrow> u64 \<Rightarrow> 'g rawidset list outcome" where
  "RAWIDSET_push_eid G raw eid =
     (if raw = [] then Ok raw
      else
        let eid_id = (ucast (eid AND 0xffff) :: u16); eid_globcnt = drop_bit 16 eid in
        (case RAWIDSET_find_by_ID raw eid_id of
           (Some i, _) \<Rightarrow> raw_append_at raw i eid_globcnt
         | (None, None) \<Rightarrow> Fault
         | (None, Some lst) \<Rightarrow>
             (if lst = 0 \<and> repl_id (raw_repl (hd raw)) = 0
              then raw_append_at (raw[0 := (raw ! 0)\<lparr>raw_repl := ReplId eid_id\<rparr>]) 0 eid_globcnt
              else raw_append_at
                     (raw @ [(RAWIDSET_make G True (raw_single (hd raw)))\<lparr>raw_repl := ReplId eid_id\<rparr>])
                     (length raw) eid_globcnt)))"

text \<open>A new element that nothing links to (the chain's head is ID based) is lost.\<close>

definition RAWIDSET_push_guid_glob ::
  "'g samba_lib \<Rightarrow> 'g rawidset list \<Rightarrow> 'g \<Rightarrow> u64 \<Rightarrow> 'g rawidset list outcome" where
  "RAWIDSET_push_guid_glob G raw guid globcnt =
     (if raw = [] then Ok raw
      else if globcnt = 0 then Abort
      else if globcnt AND 0xffff000000000000 \<noteq> 0 then Abort
      else
        (case RAWIDSET_find_by_GUID G raw guid of
           (Some i, _) \<Rightarrow> raw_append_at raw i globcnt
         | (None, lst) \<Rightarrow>
             (case fst (RAWIDSET_find_by_GUID G raw (GUID_zero G)) of
                Some i \<Rightarrow> raw_append_at (raw[i := (raw ! i)\<lparr>raw_repl := ReplGuid guid\<rparr>]) i globcnt
              | None \<Rightarrow>
                  (case lst of
                     None \<Rightarrow> Ok raw
                   | Some _ \<Rightarrow> raw_append_at
                       (raw @ [(RAWIDSET_make G False (raw_single (hd raw)))\<lparr>raw_repl := ReplGuid guid\<rparr>])
                       (length raw) globcnt))))"

fun valid_repl :: "'g samba_lib \<Rightarrow> 'g repl \<Rightarrow> bool" where
  "valid_repl G (ReplId i) = (i \<noteq> 0)"
| "valid_repl G (ReplGuid g) = (\<not> GUID_all_zero G g)"

definition RAWIDSET_convert_to_idset :: "'g samba_lib \<Rightarrow> 'g rawidset list \<Rightarrow> 'g idset list" where
  "RAWIDSET_convert_to_idset G raw =
     map (\<lambda>r. IDSET_make (raw_repl r) (globcnts r) (raw_single r))
       (filter (\<lambda>r. globcnts r \<noteq> [] \<and> valid_repl G (raw_repl r)) raw)"

section \<open>An instance of the library routines\<close>

text \<open>A concrete library with 128-bit numbers as GUIDs satisfies the laws.\<close>

definition lib128 :: "128 word samba_lib" where
  "lib128 = \<lparr>GUID_from_data_blob = le_value, ndr_push_GUID = le_bytes 16, ndr_push_uint16 = le_bytes 2,
     GUID_compare = (\<lambda>a b. if a < b then -1 else if a = b then 0 else 1),
     GUID_equal = (=), GUID_all_zero = (\<lambda>g. g = 0), GUID_zero = 0\<rparr>"

lemma samba_laws_lib128: "samba_laws lib128"
  by (auto simp: samba_laws_def lib128_def le_value_le_bytes take_bit_word_eq_self)

end
