(* ===== verification/Idset_Sets.thy ===== *)
theory Idset_Sets
  imports Idset
begin

unbundle bit_operations_syntax

text \<open>
  What the range operations of \<^verbatim>\<open>src/libmapi/idset.c\<close> mean: the identifiers a list of ranges or a
  chain of idsets holds, and how building, compacting and removing change them. The order of the
  code is the order of the numbers \<open>exchange_globcnt\<close> gives.
\<close>

section \<open>Membership as sets\<close>

definition in_range :: "globset_range \<Rightarrow> u64 \<Rightarrow> bool" where
  "in_range r x \<longleftrightarrow> exchange_globcnt (low r) \<le> exchange_globcnt x \<and> exchange_globcnt x \<le> exchange_globcnt (high r)"

lemma ranges_include_iff: "ranges_include rs x \<longleftrightarrow> (\<exists>r \<in> set rs. in_range r x)"
  by (induction rs) (auto simp: in_range_def)

lemma includes_eid_loop_iff:
  "includes_eid_loop ss i x \<longleftrightarrow> (\<exists>s \<in> set ss. repl_id (repl s) = i \<and> ranges_include (ranges s) x)"
  by (induction ss) auto

lemma includes_guid_loop_iff:
  "includes_guid_loop G ss g x \<longleftrightarrow>
     (\<exists>s \<in> set ss. GUID_equal G (repl_guid G (repl s)) g \<and> ranges_include (ranges s) x)"
  by (induction ss) auto

section \<open>GLOBCNT order\<close>

lemma exchange_globcnt_lt: "exchange_globcnt x < 2 ^ 48"
proof -
  have "take_bit 48 (exchange_globcnt x) = exchange_globcnt x"
    by (rule bit_word_eqI) (metis bit_take_bit_iff bit_exchange_globcnt_high not_le)
  then show ?thesis by (simp add: take_bit_eq_self_iff_less)
qed

lemma exchange_exchange [simp]: "x < 2 ^ 48 \<Longrightarrow> exchange_globcnt (exchange_globcnt x) = x"
  using take_bit_eq_self_iff_less [of 48 x] by (simp add: exchange_globcnt_twice)

lemma exchange_exchange_exchange [simp]:
  "exchange_globcnt (exchange_globcnt (exchange_globcnt x)) = exchange_globcnt x"
  by (rule exchange_exchange [OF exchange_globcnt_lt])

lemma exchange_inject:
  "x < 2 ^ 48 \<Longrightarrow> y < 2 ^ 48 \<Longrightarrow> exchange_globcnt x = exchange_globcnt y \<longleftrightarrow> x = y"
  by (metis exchange_exchange)

section \<open>Comparison functions\<close>

interpretation id_cmp: compar IDSET_ID_compar
  by unfold_locales (auto simp: IDSET_ID_compar_def split: if_splits)

interpretation globcnt_cmp: compar IDSET_globcnt_compar
  by unfold_locales (auto simp: IDSET_globcnt_compar_def Let_def split: if_splits)

interpretation range_cmp: compar IDSET_range_compar
  using globcnt_cmp.total globcnt_cmp.trans
  by unfold_locales (auto simp: IDSET_range_compar_def)

lemma globcnt_compar_le: "IDSET_globcnt_compar a b \<le> 0 \<longleftrightarrow> exchange_globcnt a \<le> exchange_globcnt b"
  by (auto simp: IDSET_globcnt_compar_def Let_def)

lemma range_compar_le: "IDSET_range_compar a b \<le> 0 \<longleftrightarrow> exchange_globcnt (low a) \<le> exchange_globcnt (low b)"
  by (simp add: IDSET_range_compar_def globcnt_compar_le)

abbreviation low_sorted :: "globset_range list \<Rightarrow> bool" where
  "low_sorted \<equiv> sorted_wrt (\<lambda>a b. exchange_globcnt (low a) \<le> exchange_globcnt (low b))"

abbreviation separated :: "globset_range list \<Rightarrow> bool" where
  "separated \<equiv> sorted_wrt (\<lambda>a b. exchange_globcnt (high a) < exchange_globcnt (low b))"

abbreviation ordered :: "globset_range \<Rightarrow> bool" where
  "ordered r \<equiv> exchange_globcnt (low r) \<le> exchange_globcnt (high r)"

lemma low_sorted_qsort: "low_sorted (qsort IDSET_range_compar rs)"
  using range_cmp.sorted_qsort [of rs] by (simp add: range_compar_le)

section \<open>Compaction\<close>

lemma compact_ranges_include:
  "low_sorted rs \<Longrightarrow> ranges_include (compact_ranges rs) x = ranges_include rs x"
proof (induction rs rule: compact_ranges.induct)
  case (3 r n rest)
  let ?r = "if exchange_globcnt (high n) > exchange_globcnt (high r) then r\<lparr>high := high n\<rparr> else r"
  show ?case
  proof (cases "exchange_globcnt (low n) \<ge> exchange_globcnt (low r) \<and> exchange_globcnt (low n) \<le> exchange_globcnt (high r)")
    case True
    have s: "low_sorted (?r # rest)" using "3.prems" by auto
    have "in_range ?r x \<longleftrightarrow> in_range r x \<or> in_range n x"
      using True by (auto simp: in_range_def)
    with "3.IH"(1) [OF True s] True show ?thesis
      by (simp add: ranges_include_iff del: ranges_include.simps)
  next
    case False
    with "3.IH"(2) "3.prems" show ?thesis by simp
  qed
qed simp_all

lemma compact_ranges_low:
  "low_sorted rs \<Longrightarrow> r \<in> set (compact_ranges rs) \<Longrightarrow> exchange_globcnt (low (hd rs)) \<le> exchange_globcnt (low r)"
proof (induction rs arbitrary: r rule: compact_ranges.induct)
  case (3 a n rest)
  then show ?case by (fastforce split: if_splits)
qed simp_all

lemma compact_ranges_ordered:
  "\<forall>r \<in> set rs. ordered r \<Longrightarrow> r \<in> set (compact_ranges rs) \<Longrightarrow> ordered r"
proof (induction rs arbitrary: r rule: compact_ranges.induct)
  case (3 a n rest)
  then show ?case by (auto split: if_splits)
qed auto

lemma compact_ranges_separated:
  "low_sorted rs \<Longrightarrow> separated (compact_ranges rs)"
proof (induction rs rule: compact_ranges.induct)
  case (3 r n rest)
  let ?r = "if exchange_globcnt (high n) > exchange_globcnt (high r) then r\<lparr>high := high n\<rparr> else r"
  show ?case
  proof (cases "exchange_globcnt (low n) \<ge> exchange_globcnt (low r) \<and> exchange_globcnt (low n) \<le> exchange_globcnt (high r)")
    case True
    have "low_sorted (?r # rest)" using "3.prems" by auto
    with "3.IH"(1) [OF True] True show ?thesis by simp
  next
    case False
    with "3.prems" have h: "exchange_globcnt (high r) < exchange_globcnt (low n)"
      and s: "low_sorted (n # rest)" by auto
    have "exchange_globcnt (high r) < exchange_globcnt (low b)" if "b \<in> set (compact_ranges (n # rest))" for b
      using compact_ranges_low [OF s that] h by simp
    moreover have "compact_ranges (r # n # rest) = r # compact_ranges (n # rest)"
      unfolding compact_ranges.simps(3) by (rule if_not_P [OF False])
    ultimately show ?thesis using "3.IH"(2) [OF False s] by simp
  qed
qed simp_all

lemma compact_ranges_length: "length (compact_ranges rs) \<le> length rs"
  by (induction rs rule: compact_ranges.induct) auto

lemma compact_single_include:
  "ranges_include (r # rest) x \<Longrightarrow> in_range (compact_single r rest) x"
proof (induction rest arbitrary: r)
  case Nil
  then show ?case by (simp add: in_range_def split: if_splits)
next
  case (Cons n rest)
  let ?r1 = "if exchange_globcnt (low n) < exchange_globcnt (low r) then r\<lparr>low := low n\<rparr> else r"
  let ?r2 = "if exchange_globcnt (high n) > exchange_globcnt (high ?r1) then ?r1\<lparr>high := high n\<rparr> else ?r1"
  have "ranges_include (?r2 # rest) x"
    using Cons.prems unfolding ranges_include_iff by (auto simp: in_range_def)
  with Cons.IH [of ?r2] show ?case by (simp add: Let_def)
qed

section \<open>Building from an array\<close>

lemma unat_succ: "(w :: u64) < 2 ^ 48 \<Longrightarrow> unat (w + 1) = Suc (unat w)"
  by (simp add: word_less_nat_alt unat_word_ariths)

lemma le_succ_iff: "(w :: u64) < 2 ^ 48 \<Longrightarrow> v \<le> w + 1 \<longleftrightarrow> v \<le> w \<or> v = w + 1"
  by (auto simp: word_le_nat_alt unat_succ le_Suc_eq word_unat_eq_iff)

lemma make_loop_include:
  assumes "sorted_wrt (\<lambda>a b. exchange_globcnt a \<le> exchange_globcnt b) ws"
    and "\<forall>w \<in> set ws. lst \<le> exchange_globcnt w" and "exchange_globcnt lo \<le> lst" and "lst < 2 ^ 48"
  shows "ranges_include (IDSET_make_loop lo lst ws) y \<longleftrightarrow>
    (exchange_globcnt lo \<le> exchange_globcnt y \<and> exchange_globcnt y \<le> lst)
    \<or> exchange_globcnt y \<in> exchange_globcnt ` set ws"
  using assms
proof (induction ws arbitrary: lo lst)
  case Nil
  then show ?case by simp
next
  case (Cons w ws)
  let ?e = "exchange_globcnt w"
  have IH: "ranges_include (IDSET_make_loop lo' ?e ws) y \<longleftrightarrow>
      (exchange_globcnt lo' \<le> exchange_globcnt y \<and> exchange_globcnt y \<le> ?e)
      \<or> exchange_globcnt y \<in> exchange_globcnt ` set ws" if "exchange_globcnt lo' \<le> ?e" for lo'
    using Cons.prems that exchange_globcnt_lt [of w] by (intro Cons.IH) auto
  have lst: "lst \<le> ?e" using Cons.prems(2) by simp
  show ?case
  proof (cases "?e \<noteq> lst \<and> ?e \<noteq> lst + 1")
    case True
    then show ?thesis using Cons.prems(4) IH [of w] by auto
  next
    case False
    have "exchange_globcnt y \<le> ?e \<longleftrightarrow> exchange_globcnt y \<le> lst \<or> exchange_globcnt y = ?e"
      using False le_succ_iff [OF Cons.prems(4)] by auto
    then show ?thesis using False Cons.prems(3) lst IH [of lo] by auto
  qed
qed

lemma make_loop_length: "IDSET_make_loop lo lst ws \<noteq> []"
  by (induction ws arbitrary: lo lst) auto

lemma sorted_work_array:
  "sorted_wrt (\<lambda>a b. exchange_globcnt a \<le> exchange_globcnt b) (qsort IDSET_globcnt_compar xs)"
  using globcnt_cmp.sorted_qsort [of xs] by (simp add: globcnt_compar_le)

lemma IDSET_make_include_span:
  assumes "xs \<noteq> []" and "sgl \<or> length xs < 3"
  shows "ranges_include (ranges (IDSET_make rp xs sgl)) y \<longleftrightarrow>
    (\<exists>a \<in> set xs. \<exists>b \<in> set xs. exchange_globcnt a \<le> exchange_globcnt y \<and> exchange_globcnt y \<le> exchange_globcnt b)"
proof -
  define w where "w = qsort IDSET_globcnt_compar xs"
  have w: "w \<noteq> []" "set w = set xs" using assms(1) by (simp_all add: w_def)
  have s: "sorted_wrt (\<lambda>a b. exchange_globcnt a \<le> exchange_globcnt b) w"
    by (simp add: w_def sorted_work_array)
  have hd: "exchange_globcnt (hd w) \<le> exchange_globcnt a" if "a \<in> set w" for a
    using s that w(1) by (cases w) auto
  have lst: "exchange_globcnt a \<le> exchange_globcnt (last w)" if "a \<in> set w" for a
    using s that w(1) by (induction w) auto
  have "ranges (IDSET_make rp xs sgl) = [\<lparr>low = hd w, high = last w\<rparr>]"
    using assms by (simp add: IDSET_make_def Let_def w_def)
  then show ?thesis using hd lst w hd_in_set [OF w(1)] last_in_set [OF w(1)]
    by (auto intro: order.trans)
qed

lemma IDSET_make_include_exact:
  assumes "\<not> sgl" and "3 \<le> length xs"
  shows "ranges_include (ranges (IDSET_make rp xs sgl)) y \<longleftrightarrow> exchange_globcnt y \<in> exchange_globcnt ` set xs"
proof -
  define w where "w = qsort IDSET_globcnt_compar xs"
  have ne: "xs \<noteq> []" using assms(2) by auto
  then obtain a ws where w: "w = a # ws" by (cases w) (auto simp: w_def)
  have sw: "set xs = insert a (set ws)" using w w_def by (metis list.simps(15) set_qsort)
  have s: "sorted_wrt (\<lambda>a b. exchange_globcnt a \<le> exchange_globcnt b) (a # ws)"
    using w sorted_work_array [of xs] by (simp add: w_def)
  have "ranges (IDSET_make rp xs sgl) = IDSET_make_loop a (exchange_globcnt a) ws"
    using assms ne w by (simp add: IDSET_make_def Let_def w_def [symmetric])
  moreover have "ranges_include (IDSET_make_loop a (exchange_globcnt a) ws) y \<longleftrightarrow>
      (exchange_globcnt a \<le> exchange_globcnt y \<and> exchange_globcnt y \<le> exchange_globcnt a)
      \<or> exchange_globcnt y \<in> exchange_globcnt ` set ws"
    using s exchange_globcnt_lt [of a] by (intro make_loop_include) simp_all
  ultimately show ?thesis by (auto simp: sw)
qed

lemma IDSET_make_covers:
  assumes "x \<in> set xs"
  shows "ranges_include (ranges (IDSET_make rp xs sgl)) x"
proof (cases "sgl \<or> length xs < 3")
  case True
  with assms IDSET_make_include_span [of xs sgl] show ?thesis by fastforce
next
  case False
  with assms show ?thesis by (simp add: IDSET_make_include_exact)
qed

section \<open>Removal\<close>

lemma range_cases_split:
  assumes "wf_range r" and "ordered r" and "eid < 2 ^ 48" and "in_range r eid"
  obtains (one) "low r = eid" "high r = eid"
  | (at_low) "low r = eid" "exchange_globcnt eid < exchange_globcnt (high r)" "high r \<noteq> eid"
  | (at_high) "high r = eid" "exchange_globcnt (low r) < exchange_globcnt eid" "low r \<noteq> eid"
  | (inside) "exchange_globcnt (low r) < exchange_globcnt eid" "exchange_globcnt eid < exchange_globcnt (high r)"
      "low r \<noteq> eid" "high r \<noteq> eid"
proof -
  have "low r < 2 ^ 48" "high r < 2 ^ 48" using assms(1) by (simp_all add: wf_range_def take_bit_eq_self_iff_less)
  with assms(3) have "low r = eid \<longleftrightarrow> exchange_globcnt (low r) = exchange_globcnt eid"
    "high r = eid \<longleftrightarrow> exchange_globcnt (high r) = exchange_globcnt eid"
    by (simp_all add: exchange_inject)
  with assms(4) that show thesis unfolding in_range_def by fastforce
qed

lemma unat_succ_less:
  fixes w v :: "'a::len word"
  assumes "w < v" shows "unat (w + 1) = Suc (unat w)"
proof -
  have "Suc (unat w) < 2 ^ LENGTH('a)"
    using assms unsigned_less [of v] unfolding word_less_nat_alt by (metis Suc_lessI less_trans not_less_eq)
  then show ?thesis by (simp add: unat_word_ariths)
qed

lemma unat_pred_less: "(v :: 'a::len word) < w \<Longrightarrow> unat (w - 1) = unat w - 1"
  by (rule unat_minus_one) auto

text \<open>\<open>gv\<close> is the number a GLOBCNT stands for; the order of the code is the order of these numbers.\<close>

definition gv :: "u64 \<Rightarrow> nat" where
  "gv x = unat (exchange_globcnt x)"

lemma to_gv:
  "exchange_globcnt a \<le> exchange_globcnt b \<longleftrightarrow> gv a \<le> gv b"
  "exchange_globcnt a < exchange_globcnt b \<longleftrightarrow> gv a < gv b"
  "exchange_globcnt a = exchange_globcnt b \<longleftrightarrow> gv a = gv b"
  by (simp_all add: gv_def word_le_nat_alt word_less_nat_alt word_unat_eq_iff)

lemma gv_exchange_succ:
  assumes "gv a < gv b" shows "gv (exchange_globcnt (exchange_globcnt a + 1)) = Suc (gv a)"
proof -
  have u: "unat (exchange_globcnt a + 1) = Suc (gv a)"
    using assms unat_succ_less [of "exchange_globcnt a" "exchange_globcnt b"]
    by (simp add: gv_def word_less_nat_alt)
  then have "exchange_globcnt a + 1 < 2 ^ 48"
    using assms exchange_globcnt_lt [of b] by (simp add: word_less_nat_alt gv_def)
  with u show ?thesis by (simp add: gv_def)
qed

lemma gv_exchange_pred:
  assumes "gv b < gv a" shows "gv (exchange_globcnt (exchange_globcnt a - 1)) = gv a - 1"
proof -
  have u: "unat (exchange_globcnt a - 1) = gv a - 1"
    using assms unat_pred_less [of "exchange_globcnt b" "exchange_globcnt a"]
    by (simp add: gv_def word_less_nat_alt)
  then have "exchange_globcnt a - 1 < 2 ^ 48"
    using exchange_globcnt_lt [of a] by (simp add: word_less_nat_alt gv_def)
  with u show ?thesis by (simp add: gv_def)
qed

lemma wf_range_exchange [simp]: "take_bit 48 (exchange_globcnt x) = exchange_globcnt x"
  using exchange_globcnt_lt [of x] by (simp add: take_bit_eq_self_iff_less)

lemma remove_globcnt_range:
  assumes "wf_range r" and "ordered r" and "eid < 2 ^ 48" and "in_range r eid"
  shows "\<exists>rs'. (\<forall>rs n. ranges_remove_globcnt eid (r # rs) n = (rs' @ rs, n + of_nat (length rs') - 1)) \<and>
    (\<forall>r' \<in> set rs'. wf_range r' \<and> ordered r' \<and> exchange_globcnt (low r) \<le> exchange_globcnt (low r')
       \<and> exchange_globcnt (high r') \<le> exchange_globcnt (high r)) \<and> separated rs' \<and>
    (\<forall>y. ranges_include rs' y \<longleftrightarrow> in_range r y \<and> exchange_globcnt y \<noteq> exchange_globcnt eid)"
  using assms
proof (cases rule: range_cases_split)
  case one
  then show ?thesis
    by (intro exI [of _ "[]"]) (auto simp: in_range_def)
next
  case at_low
  let ?r = "r\<lparr>low := exchange_globcnt (exchange_globcnt eid + 1)\<rparr>"
  have "gv (exchange_globcnt (exchange_globcnt eid + 1)) = Suc (gv eid)"
    using at_low(2) by (intro gv_exchange_succ) (simp add: to_gv)
  then show ?thesis
    using at_low assms(1) by (intro exI [of _ "[?r]"]) (auto simp: in_range_def to_gv wf_range_def)
next
  case at_high
  let ?r = "r\<lparr>high := exchange_globcnt (exchange_globcnt eid - 1)\<rparr>"
  have "gv (exchange_globcnt (exchange_globcnt eid - 1)) = gv eid - 1"
    using at_high(2) by (intro gv_exchange_pred) (simp add: to_gv)
  then show ?thesis
    using at_high assms(1) by (intro exI [of _ "[?r]"]) (auto simp: in_range_def to_gv wf_range_def)
next
  case inside
  let ?l = "r\<lparr>high := exchange_globcnt (exchange_globcnt eid - 1)\<rparr>"
  let ?h = "\<lparr>low = exchange_globcnt (exchange_globcnt eid + 1), high = high r\<rparr>"
  have "gv (exchange_globcnt (exchange_globcnt eid - 1)) = gv eid - 1"
    using inside(1) by (intro gv_exchange_pred) (simp add: to_gv)
  moreover have "gv (exchange_globcnt (exchange_globcnt eid + 1)) = Suc (gv eid)"
    using inside(2) by (intro gv_exchange_succ) (simp add: to_gv)
  ultimately show ?thesis
    using inside assms(1)
    by (intro exI [of _ "[?l, ?h]"]) (auto simp: in_range_def to_gv wf_range_def Let_def)
qed

lemma remove_globcnt_skip:
  assumes "wf_range r" and "ordered r" and "eid < 2 ^ 48" and "\<not> in_range r eid"
  shows "ranges_remove_globcnt eid (r # rs) n =
    (let (rs', n') = ranges_remove_globcnt eid rs n in (r # rs', n'))"
proof -
  have "low r \<noteq> eid" "high r \<noteq> eid" using assms(2,4) by (auto simp: in_range_def)
  with assms(4) show ?thesis by (auto simp: in_range_def Let_def)
qed

definition ranges_ok :: "globset_range list \<Rightarrow> bool" where
  "ranges_ok rs \<longleftrightarrow> separated rs \<and> (\<forall>r \<in> set rs. wf_range r \<and> ordered r)"

lemma ranges_remove_globcnt_spec:
  assumes "ranges_ok rs" and "eid < 2 ^ 48" and "ranges_remove_globcnt eid rs n = (rs', n')"
  shows "ranges_ok rs' \<and> n' - of_nat (length rs') = n - of_nat (length rs) \<and>
    (\<forall>y. ranges_include rs' y \<longleftrightarrow> ranges_include rs y \<and> exchange_globcnt y \<noteq> exchange_globcnt eid) \<and>
    (\<forall>v. (\<forall>r \<in> set rs. v < exchange_globcnt (low r)) \<longrightarrow> (\<forall>r \<in> set rs'. v < exchange_globcnt (low r)))"
  using assms
proof (induction rs arbitrary: rs')
  case Nil
  then show ?case by simp
next
  case (Cons r rs)
  have r: "wf_range r" "ordered r" and ok: "ranges_ok rs"
    and sep: "\<forall>s \<in> set rs. exchange_globcnt (high r) < exchange_globcnt (low s)"
    using Cons.prems(1) by (auto simp: ranges_ok_def)
  show ?case
  proof (cases "in_range r eid")
    case True
    obtain qs where q: "\<And>rs n. ranges_remove_globcnt eid (r # rs) n = (qs @ rs, n + of_nat (length qs) - 1)"
      and qr: "\<forall>r' \<in> set qs. wf_range r' \<and> ordered r' \<and> exchange_globcnt (low r) \<le> exchange_globcnt (low r')
         \<and> exchange_globcnt (high r') \<le> exchange_globcnt (high r)" and qsep: "separated qs"
      and qi: "\<And>y. ranges_include qs y \<longleftrightarrow> in_range r y \<and> exchange_globcnt y \<noteq> exchange_globcnt eid"
      using remove_globcnt_range [OF r Cons.prems(2) True] by blast
    have rs': "rs' = qs @ rs" "n' = n + of_nat (length qs) - 1" using Cons.prems(3) q by simp_all
    have "\<not> ranges_include rs eid"
      using sep True unfolding ranges_include_iff in_range_def by (meson leD order.strict_trans1)
    then have "exchange_globcnt y \<noteq> exchange_globcnt eid" if "ranges_include rs y" for y
      using that unfolding ranges_include_iff in_range_def by auto
    then have "ranges_include rs' y \<longleftrightarrow> ranges_include (r # rs) y \<and> exchange_globcnt y \<noteq> exchange_globcnt eid" for y
      using qi [of y] unfolding rs' ranges_include_iff by auto
    moreover have "ranges_ok rs'"
      using qr qsep ok sep unfolding rs' ranges_ok_def by (auto simp: sorted_wrt_append intro: order.strict_trans1)
    ultimately show ?thesis using qr rs' by (auto intro: order.strict_trans2)
  next
    case False
    obtain qs where q: "ranges_remove_globcnt eid rs n = (qs, n')" and rs': "rs' = r # qs"
      using Cons.prems(3) remove_globcnt_skip [OF r Cons.prems(2) False, of rs n]
      by (auto simp: Let_def split: prod.splits)
    have IH: "ranges_ok qs" "n' - of_nat (length qs) = n - of_nat (length rs)"
      "\<And>y. ranges_include qs y \<longleftrightarrow> ranges_include rs y \<and> exchange_globcnt y \<noteq> exchange_globcnt eid"
      "\<And>v. \<forall>r \<in> set rs. v < exchange_globcnt (low r) \<Longrightarrow> \<forall>r \<in> set qs. v < exchange_globcnt (low r)"
      using Cons.IH [OF ok Cons.prems(2) q] by blast+
    have "exchange_globcnt y \<noteq> exchange_globcnt eid" if "in_range r y" for y
      using that False by (auto simp: in_range_def)
    then have "ranges_include rs' y \<longleftrightarrow> ranges_include (r # rs) y \<and> exchange_globcnt y \<noteq> exchange_globcnt eid" for y
      using IH(3) [of y] unfolding rs' ranges_include_iff by auto
    moreover have "ranges_ok rs'" using IH(1) IH(4) [OF sep] r unfolding rs' by (auto simp: ranges_ok_def)
    moreover have "n' - of_nat (length rs') = n - of_nat (length (r # rs))"
      using IH(2) unfolding rs' by (simp add: algebra_simps)
    ultimately show ?thesis using IH(4) unfolding rs' by auto
  qed
qed

section \<open>Chains\<close>

text \<open>\<open>chain_mem ss rp x\<close>: the chain holds the GLOBCNT \<open>x\<close> for the replica \<open>rp\<close>. \<open>chain_ok b ss\<close>: all
  elements are of kind \<open>b\<close>, no replica occurs twice, every element's counter is the length of its
  range list and its ranges are separated.\<close>

definition chain_mem :: "'g idset list \<Rightarrow> 'g repl \<Rightarrow> u64 \<Rightarrow> bool" where
  "chain_mem ss rp x \<longleftrightarrow> (\<exists>s \<in> set ss. repl s = rp \<and> ranges_include (ranges s) x)"

definition counted :: "'g idset \<Rightarrow> bool" where
  "counted s \<longleftrightarrow> range_count s = of_nat (length (ranges s))"

definition chain_ok :: "bool \<Rightarrow> 'g idset list \<Rightarrow> bool" where
  "chain_ok b ss \<longleftrightarrow> distinct (map repl ss) \<and>
     (\<forall>s \<in> set ss. idbased (repl s) = b \<and> counted s \<and> ranges_ok (ranges s))"

lemma idbased_ReplId [simp]: "idbased rp \<Longrightarrow> rp = ReplId i \<longleftrightarrow> repl_id rp = i"
  by (cases rp) auto

lemma includes_eid_chain:
  assumes "\<forall>s \<in> set ss. idbased (repl s)"
  shows "IDSET_includes_eid ss eid \<longleftrightarrow> chain_mem ss (ReplId (ucast (eid AND 0xffff))) (drop_bit 16 eid)"
  using assms by (cases ss) (auto simp: IDSET_includes_eid_def chain_mem_def includes_eid_loop_iff)

lemma includes_guid_chain:
  assumes "samba_laws G" and "\<forall>s \<in> set ss. \<not> idbased (repl s)"
  shows "IDSET_includes_guid_glob G ss (Some g) x \<longleftrightarrow> chain_mem ss (ReplGuid g) x"
proof -
  have "GUID_equal G (repl_guid G rp) g \<longleftrightarrow> rp = ReplGuid g" if "\<not> idbased rp" for rp
    using assms(1) that by (cases rp) (auto simp: samba_laws_def)
  with assms(2) show ?thesis
    by (cases ss) (auto simp: IDSET_includes_guid_glob_def chain_mem_def includes_guid_loop_iff)
qed

lemma same_id_iff:
  assumes "samba_laws G" and "idbased a = b" and "idbased c = b"
  shows "same_id G b a c \<longleftrightarrow> a = c"
  using assms by (cases a; cases c) (auto simp: same_id_def samba_laws_def)

abbreviation remove_all :: "u64 list \<Rightarrow> 'g idset \<Rightarrow> 'g idset" where
  "remove_all xs s \<equiv> fold (\<lambda>x t. IDSET_ranges_remove_globcnt t x) xs s"

lemma remove_fold_spec:
  assumes "counted s" and "ranges_ok (ranges s)" and "\<forall>x \<in> set xs. x < 2 ^ 48"
  shows "counted (remove_all xs s) \<and> ranges_ok (ranges (remove_all xs s)) \<and>
    repl (remove_all xs s) = repl s \<and> single (remove_all xs s) = single s \<and>
    (\<forall>y. ranges_include (ranges (remove_all xs s)) y \<longleftrightarrow>
       ranges_include (ranges s) y \<and> exchange_globcnt y \<notin> exchange_globcnt ` set xs)"
  using assms
proof (induction xs arbitrary: s)
  case Nil
  then show ?case by simp
next
  case (Cons x xs)
  obtain rs n where r: "ranges_remove_globcnt x (ranges s) (range_count s) = (rs, n)" by fastforce
  let ?u = "IDSET_ranges_remove_globcnt s x"
  have u: "?u = s\<lparr>ranges := rs, range_count := n\<rparr>"
    by (simp add: IDSET_ranges_remove_globcnt_def r)
  have x: "x < 2 ^ 48" using Cons.prems(3) by simp
  note sp = ranges_remove_globcnt_spec [OF Cons.prems(2) x r]
  from sp Cons.prems(1) have c: "counted ?u" by (simp add: u counted_def)
  have ok: "ranges_ok (ranges ?u)" using sp by (simp add: u)
  have inc: "ranges_include (ranges ?u) y \<longleftrightarrow> ranges_include (ranges s) y \<and> exchange_globcnt y \<noteq> exchange_globcnt x" for y
    using sp by (simp add: u)
  have "\<forall>x \<in> set xs. x < 2 ^ 48" using Cons.prems(3) by simp
  from Cons.IH [OF c ok this] show ?case using inc by (auto simp: u)
qed

lemma remove_from_first_spec:
  assumes "samba_laws G" and "chain_ok b ss" and "idbased key = b" and "\<forall>x \<in> set xs. x < 2 ^ 48"
  shows "chain_ok b (remove_from_first G b key xs ss) \<and>
    map repl (remove_from_first G b key xs ss) = map repl ss \<and>
    (\<forall>rp y. chain_mem (remove_from_first G b key xs ss) rp y \<longleftrightarrow>
       chain_mem ss rp y \<and> \<not> (rp = key \<and> exchange_globcnt y \<in> exchange_globcnt ` set xs))"
  using assms(2)
proof (induction ss)
  case Nil
  then show ?case by (simp add: chain_mem_def)
next
  case (Cons s ss)
  have s: "idbased (repl s) = b" "counted s" "ranges_ok (ranges s)" and d: "repl s \<notin> repl ` set ss"
    and d': "\<forall>u \<in> set ss. repl u \<noteq> repl s" and ok: "chain_ok b ss"
    using Cons.prems by (auto simp: chain_ok_def image_iff)
  show ?case
  proof (cases "repl s = key")
    case True
    let ?t = "remove_all xs s"
    note t = remove_fold_spec [OF s(2,3) assms(4)]
    have eq: "remove_from_first G b key xs (s # ss) = ?t # ss"
      using True s(1) assms by (simp add: same_id_iff)
    have "chain_ok b (?t # ss)" using Cons.prems t by (auto simp: chain_ok_def)
    moreover have "chain_mem (?t # ss) rp y \<longleftrightarrow>
        chain_mem (s # ss) rp y \<and> \<not> (rp = key \<and> exchange_globcnt y \<in> exchange_globcnt ` set xs)" for rp y
      using t d' True unfolding chain_mem_def by auto
    ultimately show ?thesis unfolding eq using t by simp
  next
    case False
    have eq: "remove_from_first G b key xs (s # ss) = s # remove_from_first G b key xs ss"
      using False s(1) assms by (simp add: same_id_iff)
    have m: "repl ` set (remove_from_first G b key xs ss) = repl ` set ss"
      using Cons.IH [OF ok] by (metis list.set_map)
    have "chain_ok b (s # remove_from_first G b key xs ss)"
      using Cons.IH [OF ok] s d m by (auto simp: chain_ok_def)
    with Cons.IH [OF ok] False show ?thesis unfolding eq by (auto simp: chain_mem_def)
  qed
qed

section \<open>Properties of building and removing\<close>

lemma drop_bit_16_less [simp]:
  "drop_bit 16 (eid :: u64) < 0x1000000000000" "drop_bit 16 (eid :: u64) < 2 ^ 48"
  using unsigned_less [of eid, where 'a = nat] by (simp_all add: word_less_nat_alt drop_bit_eq_div unat_div less_mult_imp_div_less)

lemma includes_eid_one:
  assumes "xs \<noteq> []"
  shows "IDSET_includes_eid [IDSET_make (ReplId i) xs sgl :: 'g idset] eid \<longleftrightarrow> ucast (eid AND 0xffff) = i \<and>
    ranges_include (ranges (IDSET_make (ReplId i) xs sgl :: 'g idset)) (drop_bit 16 eid)"
  using assms by (auto simp: IDSET_includes_eid_def IDSET_make_def Let_def)

text \<open>An idset built from three or more identifiers of one replica holds exactly these: the
  ranges made of the sorted array contain no other identifier and miss none.\<close>

theorem IDSET_make_exact:
  assumes "3 \<le> length xs" and "\<forall>x \<in> set xs. x < 2 ^ 48"
  shows "IDSET_includes_eid [IDSET_make (ReplId i) xs False :: 'g idset] eid \<longleftrightarrow>
    ucast (eid AND 0xffff) = i \<and> drop_bit 16 eid \<in> set xs"
proof -
  have "xs \<noteq> []" using assms(1) by auto
  moreover have "exchange_globcnt (drop_bit 16 eid) \<in> exchange_globcnt ` set xs \<longleftrightarrow> drop_bit 16 eid \<in> set xs"
    using assms(2) exchange_inject [OF drop_bit_16_less(2) [of eid]]
    by (auto simp del: drop_bit_16_less)
  ultimately show ?thesis
    by (simp add: includes_eid_one IDSET_make_include_exact [OF _ assms(1)])
qed

theorem IDSET_make_exact_witness:
  "IDSET_includes_eid [IDSET_make (ReplId 1) [0x020000000000, 0x050000000000, 0x010000000000] False :: unit idset]
     0x0500000000000001"
  using IDSET_make_exact [of "[0x020000000000, 0x050000000000, 0x010000000000]" 1 "0x0500000000000001"]
  by (simp add: drop_bit_eq_div)

text \<open>An idset built from two identifiers holds every identifier between them as well: the
  branch for fewer than three elements makes one range of the two, adjacent or not.\<close>

theorem IDSET_make_pair:
  assumes "exchange_globcnt a \<le> exchange_globcnt b"
  shows "IDSET_includes_eid [IDSET_make (ReplId i) [b, a] False :: 'g idset] eid \<longleftrightarrow>
    ucast (eid AND 0xffff) = i \<and> exchange_globcnt a \<le> exchange_globcnt (drop_bit 16 eid) \<and>
    exchange_globcnt (drop_bit 16 eid) \<le> exchange_globcnt b"
  using assms by (auto simp: includes_eid_one IDSET_make_include_span)

theorem IDSET_make_pair_witness:
  "IDSET_includes_eid [IDSET_make (ReplId 1) [0x090000000000, 0x010000000000] False :: unit idset]
     0x0500000000000001"
proof -
  have "exchange_globcnt 0x010000000000 \<le> exchange_globcnt 0x090000000000" by code_simp
  moreover have "ucast (0x0500000000000001 AND 0xffff :: u64) = (1 :: u16)"
    "exchange_globcnt 0x010000000000 \<le> exchange_globcnt (drop_bit 16 0x0500000000000001)"
    "exchange_globcnt (drop_bit 16 0x0500000000000001) \<le> exchange_globcnt 0x090000000000" by code_simp+
  ultimately show ?thesis using IDSET_make_pair [of "0x010000000000" "0x090000000000" 1 "0x0500000000000001"] by blast
qed

text \<open>\<open>IDSET_remove_rawidset\<close> removes exactly the identifiers of the first rawidset from the
  replica it names: every other identifier of every replica stays, the ranges stay ordered and
  disjoint, and every \<open>range_count\<close> still is the number of ranges.\<close>

theorem IDSET_remove_rawidset_exact:
  assumes "samba_laws G" and "chain_ok b ss" and "ss \<noteq> []" and "\<not> single (hd ss)"
    and "idbased (raw_repl r) = b" and "\<forall>x \<in> set (globcnts r). x < 2 ^ 48" and "y < 2 ^ 48"
  shows "chain_ok b (IDSET_remove_rawidset G ss (r # rs)) \<and>
    (chain_mem (IDSET_remove_rawidset G ss (r # rs)) rp y \<longleftrightarrow>
     chain_mem ss rp y \<and> \<not> (rp = raw_repl r \<and> y \<in> set (globcnts r)))"
proof -
  have hd: "idbased (repl (hd ss)) = b" using assms(2,3) by (auto simp: chain_ok_def)
  have "IDSET_remove_rawidset G ss (r # rs) = remove_from_first G b (raw_repl r) (globcnts r) ss"
    using assms(3-5) hd by (simp add: IDSET_remove_rawidset_def)
  moreover have "exchange_globcnt y \<in> exchange_globcnt ` set (globcnts r) \<longleftrightarrow> y \<in> set (globcnts r)"
    using assms(6,7) by (auto simp: exchange_inject)
  ultimately show ?thesis using remove_from_first_spec [OF assms(1,2,5,6)] by simp
qed

theorem IDSET_remove_rawidset_exact_witness:
  "chain_mem (IDSET_remove_rawidset lib128
      [\<lparr>repl = ReplId 1, single = False, range_count = 1, ranges = [\<lparr>low = 0x010000000000, high = 0x090000000000\<rparr>]\<rparr>]
      [\<lparr>raw_repl = ReplId 1, raw_single = False, globcnts = [0x040000000000], max_count = 256\<rparr>])
    (ReplId 1) 0x050000000000"
proof -
  let ?s = "[\<lparr>repl = ReplId 1, single = False, range_count = 1,
      ranges = [\<lparr>low = 0x010000000000, high = 0x090000000000\<rparr>]\<rparr>] :: 128 word idset list"
  let ?r = "\<lparr>raw_repl = ReplId 1, raw_single = False, globcnts = [0x040000000000], max_count = 256\<rparr>
      :: 128 word rawidset"
  have e: "exchange_globcnt 0x010000000000 = 1" "exchange_globcnt 0x090000000000 = 9"
    "exchange_globcnt 0x050000000000 = 5" by code_simp+
  have w: "take_bit 48 (0x010000000000 :: u64) = 0x010000000000" "take_bit 48 (0x090000000000 :: u64) = 0x090000000000"
    by code_simp+
  have ok: "chain_ok True ?s" by (simp add: chain_ok_def counted_def ranges_ok_def wf_range_def e w)
  have mem: "chain_mem ?s (ReplId 1) 0x050000000000" by (simp add: chain_mem_def e)
  show ?thesis
    using IDSET_remove_rawidset_exact [OF samba_laws_lib128 ok, of ?r "0x050000000000" "[]" "ReplId 1"] mem by simp
qed

lemma check_ranges_iff:
  "check_ranges n rs \<longleftrightarrow> n \<le> length rs \<and> (\<forall>r \<in> set (take n rs). ordered r)"
  by (induction n rs rule: check_ranges.induct) auto

lemma IDSET_check_ranges_cases: "IDSET_check_ranges ss = MAPI_E_SUCCESS \<or> IDSET_check_ranges ss = ecRpcFormat"
  by (induction ss) auto

text \<open>\<open>IDSET_check_ranges\<close> accepts a chain whose counters match the range lists exactly when
  no range is reversed, and otherwise reports a malformed request; a counter larger than the list is
  reported as well.\<close>

theorem IDSET_check_ranges_correct:
  "IDSET_check_ranges ss = (if list_all (\<lambda>s. unat (range_count s) \<le> length (ranges s) \<and>
       list_all ordered (take (unat (range_count s)) (ranges s))) ss
     then MAPI_E_SUCCESS else ecRpcFormat)"
  by (induction ss) (auto simp: check_ranges_iff list_all_iff)

end
