(* ===== verification/Idset_Merge.thy ===== *)
theory Idset_Merge
  imports Idset_Sets
begin

unbundle bit_operations_syntax

text \<open>
  Merging two chains of idsets: the result holds the union of the identifiers, but only the
  replica at the head of the sorted chain is really merged.
\<close>

section \<open>Merging\<close>

lemma IDSET_clone_id [simp]: "IDSET_clone ss = ss"
proof -
  have r: "(\<lambda>r. \<lparr>low = low r, high = high r\<rparr>) = id" by (rule ext) simp
  show ?thesis unfolding IDSET_clone_def r by (induction ss) simp_all
qed

lemma counted_unat: "counted s \<Longrightarrow> length (ranges s) < 2 ^ 32 \<Longrightarrow> unat (range_count s) = length (ranges s)"
  by (simp add: counted_def unat_of_nat)

text \<open>Sorting and compacting one element: same members, separated ranges, counter in step.\<close>

lemma reorder_compact_one:
  assumes "counted s" and "length (ranges s) < 2 ^ 32" and "\<not> single s"
  obtains s' where "obind (IDSET_reorder_ranges s) IDSET_compact_ranges = Ok s'"
    and "repl s' = repl s" and "single s' = single s" and "counted s'"
    and "\<And>x. ranges_include (ranges s') x = ranges_include (ranges s) x"
    and "separated (ranges s')"
proof (cases "range_count s < 2")
  case True
  have "unat (range_count s) < 2" using True by (simp add: word_less_nat_alt)
  then have "length (ranges s) < 2" using counted_unat [OF assms(1,2)] by simp
  then have "separated (ranges s)" by (cases "ranges s" rule: list.exhaust; cases "tl (ranges s)") auto
  with True assms show ?thesis
    by (intro that [of s]) (simp_all add: IDSET_reorder_ranges_def IDSET_compact_ranges_def)
next
  case False
  let ?q = "qsort IDSET_range_compar (ranges s)"
  let ?c = "compact_ranges ?q"
  let ?s = "s\<lparr>ranges := ?c, range_count := range_count s - of_nat (length (ranges s) - length ?c)\<rparr>"
  have u: "unat (range_count s) = length (ranges s)" by (rule counted_unat [OF assms(1,2)])
  have le: "length ?c \<le> length (ranges s)" using compact_ranges_length [of ?q] by simp
  have eq: "obind (IDSET_reorder_ranges s) IDSET_compact_ranges = Ok ?s"
    using False u assms(3)
    by (simp add: IDSET_reorder_ranges_def IDSET_compact_ranges_def Let_def)
  have "range_count ?s = of_nat (length ?c)"
    using assms(1) le by (simp add: counted_def of_nat_diff)
  moreover have "ranges_include ?c x = ranges_include (ranges s) x" for x
    by (simp only: compact_ranges_include [OF low_sorted_qsort]) (simp add: ranges_include_iff)
  moreover have "separated ?c" by (rule compact_ranges_separated [OF low_sorted_qsort])
  ultimately show ?thesis using eq by (intro that [of ?s]) (simp_all add: counted_def)
qed

lemma reorder_and_compact_spec:
  assumes "\<forall>s \<in> set ss. counted s \<and> length (ranges s) < 2 ^ 32 \<and> \<not> single s"
  shows "\<exists>ss'. reorder_and_compact ss = Ok ss' \<and> map repl ss' = map repl ss \<and>
    (\<forall>s \<in> set ss'. counted s \<and> \<not> single s \<and> separated (ranges s)) \<and>
    (\<forall>rp x. chain_mem ss' rp x = chain_mem ss rp x)"
  using assms
proof (induction ss)
  case Nil
  then show ?case by (simp add: chain_mem_def)
next
  case (Cons s ss)
  then obtain ss' where IH: "reorder_and_compact ss = Ok ss'" "map repl ss' = map repl ss"
    "\<forall>s \<in> set ss'. counted s \<and> \<not> single s \<and> separated (ranges s)"
    "\<And>rp x. chain_mem ss' rp x = chain_mem ss rp x" by auto
  have s: "counted s" "length (ranges s) < 2 ^ 32" "\<not> single s" using Cons.prems by simp_all
  from reorder_compact_one [OF s] obtain s' where s':
    "obind (IDSET_reorder_ranges s) IDSET_compact_ranges = Ok s'" "repl s' = repl s" "single s' = single s"
    "counted s'" "\<And>x. ranges_include (ranges s') x = ranges_include (ranges s) x" "separated (ranges s')"
    by blast
  have "reorder_and_compact (s # ss) = Ok (s' # ss')" using s'(1) IH(1) by auto
  moreover have "chain_mem (s' # ss') rp x = chain_mem (s # ss) rp x" for rp x
    using IH(4) [of rp x] s'(2,5) unfolding chain_mem_def by auto
  ultimately show ?case using s' IH s(3) by (intro exI [of _ "s' # ss'"]) auto
qed

lemma merge_loop_distinct:
  assumes "\<forall>n \<in> set rest. \<not> same_id G b key (repl n)"
  shows "merge_loop G b key before current tl_len rest added = Ok (before @ current # rest, added)"
  using assms by (induction rest arbitrary: before current tl_len) auto

text \<open>The comparison function chosen by \<open>IDSET_reorder_idset\<close> orders by replica.\<close>

definition chain_cmp :: "'g samba_lib \<Rightarrow> bool \<Rightarrow> 'g idset \<Rightarrow> 'g idset \<Rightarrow> int" where
  "chain_cmp G b = (if b then IDSET_ID_compar else IDSET_GUID_compar G)"

lemma samba_compare:
  assumes "samba_laws G"
  shows "GUID_compare G a b \<le> 0 \<or> GUID_compare G b a \<le> 0"
    and "GUID_compare G a b \<le> 0 \<Longrightarrow> GUID_compare G b c \<le> 0 \<Longrightarrow> GUID_compare G a c \<le> 0"
    and "GUID_compare G a b \<le> 0 \<Longrightarrow> GUID_compare G b a \<le> 0 \<Longrightarrow> a = b"
  using assms unfolding samba_laws_def by blast+

lemma chain_cmp_compar:
  assumes "samba_laws G" shows "compar (chain_cmp G b)"
proof (cases b)
  case True
  then show ?thesis using id_cmp.compar_axioms by (simp add: chain_cmp_def)
next
  case False
  have "compar (IDSET_GUID_compar G)"
    unfolding compar_def IDSET_GUID_compar_def using samba_compare(1,2) [OF assms] by blast
  with False show ?thesis by (simp add: chain_cmp_def)
qed

lemma chain_cmp_antisym:
  assumes "samba_laws G" and "chain_cmp G b s t \<le> 0" and "chain_cmp G b t s \<le> 0"
    and "idbased (repl s) = b" and "idbased (repl t) = b"
  shows "repl s = repl t"
proof (cases b)
  case True
  with assms(2-) show ?thesis
    by (cases "repl s"; cases "repl t") (auto simp: chain_cmp_def IDSET_ID_compar_def split: if_splits)
next
  case False
  with assms(2,3) have "repl_guid G (repl s) = repl_guid G (repl t)"
    by (intro samba_compare(3) [OF assms(1)]) (simp_all add: chain_cmp_def IDSET_GUID_compar_def)
  with False assms(4,5) show ?thesis by (cases "repl s"; cases "repl t") auto
qed

lemma reorder_idset_eq:
  "2 \<le> length ss \<Longrightarrow> IDSET_reorder_idset G ss = qsort (chain_cmp G (idbased (repl (hd ss)))) ss"
  by (simp add: IDSET_reorder_idset_def chain_cmp_def)

lemma replicas_twice:
  assumes "distinct (map repl l)" and "distinct (map repl r)"
    and "mset m = mset (l @ r)" and "m = xs @ [a] @ ys @ [b] @ zs" and "repl a = repl b"
  shows "\<forall>c \<in> set (xs @ ys @ zs). repl c \<noteq> repl a"
proof
  fix c assume c: "c \<in> set (xs @ ys @ zs)"
  have cnt: "count (mset (map repl l)) rp \<le> 1" "count (mset (map repl r)) rp \<le> 1" for rp
    using assms(1,2) by (simp_all add: distinct_count_atmost_1)
  have "mset (map repl m) = mset (map repl l) + mset (map repl r)"
    using assms(3) by (metis map_append mset_append mset_map)
  then have "count (mset (map repl m)) (repl a) \<le> 2" using cnt [of "repl a"] by simp
  moreover have "count (mset (map repl (xs @ ys @ zs))) (repl a) > 0" if "repl c = repl a"
    using c that by (metis count_greater_zero_iff image_eqI list.set_map set_mset_mset)
  ultimately show "repl c \<noteq> repl a" using assms(4,5) by auto
qed

lemma chain_cmp_cong:
  "repl s = repl t \<Longrightarrow> chain_cmp G b s u = chain_cmp G b t u"
  by (simp add: chain_cmp_def IDSET_ID_compar_def IDSET_GUID_compar_def)

text \<open>In a sorted chain in which a replica occurs at most twice, the head's twin comes second.\<close>

lemma sorted_chain_twin:
  assumes "samba_laws G" and "sorted_wrt (\<lambda>s t. chain_cmp G b s t \<le> 0) (h # rest)"
    and "\<forall>s \<in> set (h # rest). idbased (repl s) = b" and "n \<in> set rest" and "repl n = repl h"
    and "distinct (map repl l)" and "distinct (map repl r)" and "mset (h # rest) = mset (l @ r)"
  obtains n' zs where "rest = n' # zs" and "repl n' = repl h" and "\<forall>z \<in> set zs. repl z \<noteq> repl h"
proof -
  obtain ys zs where rest: "rest = ys @ n # zs" using assms(4) by (auto simp: in_set_conv_decomp)
  have tw: "\<forall>c \<in> set ([] @ ys @ zs). repl c \<noteq> repl h"
    by (rule replicas_twice [OF assms(6-8), where b = n]) (use rest assms(5) in simp_all)
  have "ys = []"
  proof (rule ccontr)
    assume "ys \<noteq> []"
    then obtain y where y: "y \<in> set ys" by (cases ys) auto
    have "chain_cmp G b n y \<le> 0" "chain_cmp G b y n \<le> 0"
      using assms(2,5) y chain_cmp_cong [of n h G b y] by (auto simp: rest sorted_wrt_append)
    then have "repl n = repl y"
      using assms(3) y by (intro chain_cmp_antisym [OF assms(1)]) (auto simp: rest)
    with tw y assms(5) show False by auto
  qed
  with rest assms(5) tw show thesis by (intro that [of n zs]) auto
qed

definition mergeable :: "bool \<Rightarrow> 'g idset list \<Rightarrow> bool" where
  "mergeable b ss \<longleftrightarrow> ss \<noteq> [] \<and> distinct (map repl ss) \<and>
     (\<forall>s \<in> set ss. idbased (repl s) = b \<and> counted s \<and> ranges s \<noteq> [] \<and> length (ranges s) < 2 ^ 31 \<and> \<not> single s)"

lemma mergeable_all:
  assumes "mergeable b l" and "mergeable b r" and "s \<in> set (l @ r)"
  shows "idbased (repl s) = b" "counted s" "ranges s \<noteq> []" "length (ranges s) < 2 ^ 31" "\<not> single s"
    "range_count s \<noteq> 0"
proof -
  show *: "idbased (repl s) = b" "counted s" "ranges s \<noteq> []" "length (ranges s) < 2 ^ 31" "\<not> single s"
    using assms by (auto simp: mergeable_def)
  then have "unat (range_count s) = length (ranges s)" by (intro counted_unat) auto
  with * show "range_count s \<noteq> 0" by auto
qed

text \<open>Up to the loop: the code sorts both chains together and starts at the head.\<close>

lemma merge_unfold:
  assumes "samba_laws G" and l: "mergeable b l" and r: "mergeable b r"
  obtains h rest where "mset (h # rest) = mset (l @ r)"
    and "sorted_wrt (\<lambda>s t. chain_cmp G b s t \<le> 0) (h # rest)"
    and "IDSET_merge_idsets G l r = obind (merge_loop G b (repl h) [] h (length (ranges h)) rest False)
      (\<lambda>(merged', added). if added then reorder_and_compact merged' else Ok merged')"
proof -
  let ?m = "qsort (chain_cmp G b) (l @ r)"
  have ne: "l \<noteq> []" "r \<noteq> []" using l r by (simp_all add: mergeable_def)
  note all = mergeable_all [OF l r]
  obtain h rest where m: "?m = h # rest" using ne by (cases ?m) auto
  have hd_b: "idbased (repl (hd (l @ r))) = b"
    using all(1) ne by (metis append_is_Nil_conv hd_in_set)
  have b: "idbased (repl (hd ?m)) = b"
    using all(1) ne by (metis append_is_Nil_conv hd_in_set qsort_Nil_iff set_qsort)
  have len: "2 \<le> length (l @ r)" using ne by (cases l; cases r) auto
  have reord: "IDSET_reorder_idset G (l @ r) = ?m" using reorder_idset_eq [OF len, of G] hd_b by simp
  show thesis
  proof (rule that)
    show "mset (h # rest) = mset (l @ r)" using m by (metis mset_qsort)
    show "sorted_wrt (\<lambda>s t. chain_cmp G b s t \<le> 0) (h # rest)"
      using compar.sorted_qsort [OF chain_cmp_compar [OF assms(1)], of b "l @ r"] m by simp
    show "IDSET_merge_idsets G l r = obind (merge_loop G b (repl h) [] h (length (ranges h)) rest False)
        (\<lambda>(merged', added). if added then reorder_and_compact merged' else Ok merged')"
      using ne all(6) [of "hd l"] all(6) [of "hd r"] b m
      by (simp add: IDSET_merge_idsets_def Let_def reord)
  qed
qed

text \<open>The head takes over its twin's ranges; then every element is sorted and compacted.\<close>

lemma merge_twin:
  assumes h: "counted h" "length (ranges h) < 2 ^ 31" "\<not> single h"
    and n: "counted n" "length (ranges n) < 2 ^ 31" "repl n = repl h"
    and zs: "\<forall>s \<in> set zs. counted s \<and> length (ranges s) < 2 ^ 31 \<and> \<not> single s"
  defines "h' \<equiv> h\<lparr>range_count := range_count h + range_count n, ranges := ranges h @ ranges n\<rparr>"
  shows "\<exists>m. reorder_and_compact (h' # zs) = Ok m \<and> map repl m = map repl (h # zs) \<and>
    (\<forall>s \<in> set m. counted s \<and> \<not> single s) \<and> (\<forall>rp x. chain_mem m rp x = chain_mem (h # n # zs) rp x)"
proof -
  have "\<forall>s \<in> set (h' # zs). counted s \<and> length (ranges s) < 2 ^ 32 \<and> \<not> single s"
    using h n zs by (auto simp: counted_def h'_def)
  from reorder_and_compact_spec [OF this] obtain m where m:
    "reorder_and_compact (h' # zs) = Ok m" "map repl m = map repl (h' # zs)"
    "\<forall>s \<in> set m. counted s \<and> \<not> single s" "\<And>rp x. chain_mem m rp x = chain_mem (h' # zs) rp x"
    by blast
  have "chain_mem (h' # zs) rp x = chain_mem (h # n # zs) rp x" for rp x
    using n(3) by (auto simp: chain_mem_def ranges_include_iff h'_def)
  with m show ?thesis by (intro exI [of _ m]) (auto simp: h'_def)
qed

lemma merge_idsets_spec:
  assumes "samba_laws G" and l: "mergeable b l" and r: "mergeable b r"
  shows "\<exists>m. IDSET_merge_idsets G l r = Ok m \<and> m \<noteq> [] \<and>
    (\<forall>s \<in> set m. idbased (repl s) = b \<and> counted s \<and> \<not> single s) \<and>
    (\<forall>rp x. chain_mem m rp x \<longleftrightarrow> chain_mem l rp x \<or> chain_mem r rp x)"
proof -
  obtain h rest where ms: "mset (h # rest) = mset (l @ r)"
    and sorted: "sorted_wrt (\<lambda>s t. chain_cmp G b s t \<le> 0) (h # rest)"
    and red: "IDSET_merge_idsets G l r = obind (merge_loop G b (repl h) [] h (length (ranges h)) rest False)
      (\<lambda>(merged', added). if added then reorder_and_compact merged' else Ok merged')"
    using merge_unfold [OF assms] .
  have set_m: "set (h # rest) = set (l @ r)" using ms by (metis set_mset_mset)
  have all: "idbased (repl s) = b \<and> counted s \<and> ranges s \<noteq> [] \<and> length (ranges s) < 2 ^ 31 \<and> \<not> single s"
    if "s \<in> set (h # rest)" for s
    using mergeable_all [OF l r] that unfolding set_m by blast
  have mem: "chain_mem (h # rest) rp x \<longleftrightarrow> chain_mem l rp x \<or> chain_mem r rp x" for rp x
    unfolding chain_mem_def set_m by auto
  have sid: "same_id G b (repl h) (repl s) \<longleftrightarrow> repl s = repl h" if "s \<in> set (h # rest)" for s
    using same_id_iff [OF assms(1), of "repl h" b "repl s"] all that by (metis list.set_intros(1))
  show ?thesis
  proof (cases "\<exists>n \<in> set rest. repl n = repl h")
    case False
    then have "merge_loop G b (repl h) [] h (length (ranges h)) rest False = Ok (h # rest, False)"
      using sid by (subst merge_loop_distinct) auto
    then show ?thesis using red mem all by (intro exI [of _ "h # rest"]) auto
  next
    case True
    then obtain n0 where "n0 \<in> set rest" "repl n0 = repl h" by blast
    with sorted_chain_twin [OF assms(1) sorted, of n0 l r] all ms l r
    obtain n zs where z: "rest = n # zs" "repl n = repl h" "\<forall>z \<in> set zs. repl z \<noteq> repl h"
      by (metis mergeable_def)
    let ?h = "h\<lparr>range_count := range_count h + range_count n, ranges := ranges h @ ranges n\<rparr>"
    have "merge_loop G b (repl h) [] h (length (ranges h)) rest False = Ok (?h # zs, True)"
      using sid all [of h] z by (simp add: merge_loop_distinct)
    then have red': "IDSET_merge_idsets G l r = reorder_and_compact (?h # zs)" using red by simp
    obtain m where m: "reorder_and_compact (?h # zs) = Ok m" "map repl m = map repl (h # zs)"
      "\<forall>s \<in> set m. counted s \<and> \<not> single s" "\<And>rp x. chain_mem m rp x = chain_mem (h # n # zs) rp x"
    proof -
      have h: "counted h" "length (ranges h) < 2 ^ 31" "\<not> single h"
        using all [of h] by simp_all
      have n: "counted n" "length (ranges n) < 2 ^ 31"
        using all [of n] unfolding z(1) by simp_all
      have "\<forall>s \<in> set zs. counted s \<and> length (ranges s) < 2 ^ 31 \<and> \<not> single s"
        using all unfolding z(1) by (meson list.set_intros(2))
      from merge_twin [OF h n z(2) this] that show thesis by blast
    qed
    have "repl ` set m = repl ` set (h # zs)" using m(2) by (metis list.set_map)
    then have "idbased (repl s) = b" if "s \<in> set m" for s
    proof -
      have "repl s \<in> repl ` set (h # zs)" using that \<open>repl ` set m = repl ` set (h # zs)\<close> by blast
      with all z(1) show ?thesis by auto
    qed
    moreover have "m \<noteq> []" using m(2) by auto
    ultimately show ?thesis using red' m mem z(1) by (intro exI [of _ m]) auto
  qed
qed

section \<open>Properties of compacting and merging\<close>

text \<open>Sorting and compacting the ranges of an idset always succeeds, keeps its members, leaves
  ranges that do not overlap and are in order, and keeps the counter in step.\<close>

theorem IDSET_compaction:
  assumes "counted s" and "length (ranges s) < 2 ^ 32" and "\<not> single s"
  shows "\<exists>s'. obind (IDSET_reorder_ranges s) IDSET_compact_ranges = Ok s' \<and> repl s' = repl s \<and>
    counted s' \<and> separated (ranges s') \<and> (\<forall>x. ranges_include (ranges s') x = ranges_include (ranges s) x)"
  using reorder_compact_one [OF assms] by metis

theorem IDSET_compaction_witness:
  "\<exists>s'. obind (IDSET_reorder_ranges \<lparr>repl = ReplId 1, single = False, range_count = 2,
       ranges = [\<lparr>low = 5, high = 9\<rparr>, \<lparr>low = 1, high = 7\<rparr>]\<rparr>) IDSET_compact_ranges = Ok (s' :: unit idset) \<and>
    separated (ranges s')"
  using IDSET_compaction [of "\<lparr>repl = ReplId 1, single = False, range_count = 2,
       ranges = [\<lparr>low = 5, high = 9\<rparr>, \<lparr>low = 1, high = 7\<rparr>]\<rparr> :: unit idset"]
  by (auto simp: counted_def)

text \<open>C15 Merging two idset chains keyed by replica id returns a chain that includes an identifier
  exactly when one of the two does, whatever the order of the arguments' elements.\<close>

theorem IDSET_merge_eid_union:
  assumes "samba_laws G" and "mergeable True l" and "mergeable True r"
  shows "\<exists>m. IDSET_merge_idsets G l r = Ok m \<and>
    (\<forall>eid. IDSET_includes_eid m eid \<longleftrightarrow> IDSET_includes_eid l eid \<or> IDSET_includes_eid r eid)"
proof -
  obtain m where m: "IDSET_merge_idsets G l r = Ok m" "\<forall>s \<in> set m. idbased (repl s) = True \<and> counted s \<and> \<not> single s"
    "\<forall>rp x. chain_mem m rp x \<longleftrightarrow> chain_mem l rp x \<or> chain_mem r rp x"
    using merge_idsets_spec [OF assms] by blast
  moreover have "\<forall>s \<in> set l. idbased (repl s)" "\<forall>s \<in> set r. idbased (repl s)"
    using assms(2,3) by (auto simp: mergeable_def)
  ultimately show ?thesis by (auto simp: includes_eid_chain)
qed

theorem IDSET_merge_eid_union_witness:
  "\<exists>m. IDSET_merge_idsets lib128
      [\<lparr>repl = ReplId 1, single = False, range_count = 1, ranges = [\<lparr>low = 0x010000000000, high = 0x050000000000\<rparr>]\<rparr>]
      [\<lparr>repl = ReplId 1, single = False, range_count = 1, ranges = [\<lparr>low = 0x030000000000, high = 0x090000000000\<rparr>]\<rparr>]
      = Ok m \<and> IDSET_includes_eid m 0x0800000000000001"
proof -
  let ?l = "[\<lparr>repl = ReplId 1, single = False, range_count = 1,
      ranges = [\<lparr>low = 0x010000000000, high = 0x050000000000\<rparr>]\<rparr>] :: 128 word idset list"
  let ?r = "[\<lparr>repl = ReplId 1, single = False, range_count = 1,
      ranges = [\<lparr>low = 0x030000000000, high = 0x090000000000\<rparr>]\<rparr>] :: 128 word idset list"
  have "mergeable True ?l" "mergeable True ?r" by (simp_all add: mergeable_def counted_def)
  moreover have "IDSET_includes_eid ?r 0x0800000000000001" by code_simp
  ultimately show ?thesis using IDSET_merge_eid_union [OF samba_laws_lib128, of ?l ?r] by blast
qed

text \<open>The same for chains keyed by replica GUID.\<close>

theorem IDSET_merge_guid_union:
  assumes "samba_laws G" and "mergeable False l" and "mergeable False r"
  shows "\<exists>m. IDSET_merge_idsets G l r = Ok m \<and>
    (\<forall>g x. IDSET_includes_guid_glob G m (Some g) x \<longleftrightarrow>
       IDSET_includes_guid_glob G l (Some g) x \<or> IDSET_includes_guid_glob G r (Some g) x)"
proof -
  obtain m where m: "IDSET_merge_idsets G l r = Ok m" "\<forall>s \<in> set m. idbased (repl s) = False \<and> counted s \<and> \<not> single s"
    "\<forall>rp x. chain_mem m rp x \<longleftrightarrow> chain_mem l rp x \<or> chain_mem r rp x"
    using merge_idsets_spec [OF assms] by blast
  moreover have "\<forall>s \<in> set l. \<not> idbased (repl s)" "\<forall>s \<in> set r. \<not> idbased (repl s)"
    using assms(2,3) by (auto simp: mergeable_def)
  ultimately show ?thesis by (auto simp: includes_guid_chain [OF assms(1)])
qed

theorem IDSET_merge_guid_union_witness:
  "\<exists>m. IDSET_merge_idsets lib128
      [\<lparr>repl = ReplGuid 7, single = False, range_count = 1, ranges = [\<lparr>low = 0x010000000000, high = 0x050000000000\<rparr>]\<rparr>]
      [\<lparr>repl = ReplGuid 5, single = False, range_count = 1, ranges = [\<lparr>low = 0x030000000000, high = 0x090000000000\<rparr>]\<rparr>]
      = Ok m \<and> IDSET_includes_guid_glob lib128 m (Some 5) 0x080000000000"
proof -
  let ?l = "[\<lparr>repl = ReplGuid 7, single = False, range_count = 1,
      ranges = [\<lparr>low = 0x010000000000, high = 0x050000000000\<rparr>]\<rparr>] :: 128 word idset list"
  let ?r = "[\<lparr>repl = ReplGuid 5, single = False, range_count = 1,
      ranges = [\<lparr>low = 0x030000000000, high = 0x090000000000\<rparr>]\<rparr>] :: 128 word idset list"
  have "mergeable False ?l" "mergeable False ?r" by (simp_all add: mergeable_def counted_def)
  moreover have "IDSET_includes_guid_glob lib128 ?r (Some 5) 0x080000000000" by code_simp
  ultimately show ?thesis using IDSET_merge_guid_union [OF samba_laws_lib128, of ?l ?r] by blast
qed

lemma merge_idsets_repls:
  assumes "samba_laws G" and l: "mergeable b l" and r: "mergeable b r"
  shows "\<exists>m. IDSET_merge_idsets G l r = Ok m \<and>
    (\<forall>rp. rp \<noteq> repl (hd m) \<longrightarrow> count (mset (map repl m)) rp = count (mset (map repl (l @ r))) rp)"
proof -
  obtain h rest where ms: "mset (h # rest) = mset (l @ r)"
    and sorted: "sorted_wrt (\<lambda>s t. chain_cmp G b s t \<le> 0) (h # rest)"
    and red: "IDSET_merge_idsets G l r = obind (merge_loop G b (repl h) [] h (length (ranges h)) rest False)
      (\<lambda>(merged', added). if added then reorder_and_compact merged' else Ok merged')"
    using merge_unfold [OF assms] .
  have mr: "mset (map repl (h # rest)) = mset (map repl (l @ r))" using ms by (metis mset_map)
  have set_m: "set (h # rest) = set (l @ r)" using ms by (metis set_mset_mset)
  have all: "idbased (repl s) = b \<and> counted s \<and> ranges s \<noteq> [] \<and> length (ranges s) < 2 ^ 31 \<and> \<not> single s"
    if "s \<in> set (h # rest)" for s
    using mergeable_all [OF l r] that unfolding set_m by blast
  have sid: "same_id G b (repl h) (repl s) \<longleftrightarrow> repl s = repl h" if "s \<in> set (h # rest)" for s
    using same_id_iff [OF assms(1), of "repl h" b "repl s"] all that by (metis list.set_intros(1))
  show ?thesis
  proof (cases "\<exists>n \<in> set rest. repl n = repl h")
    case False
    then have "merge_loop G b (repl h) [] h (length (ranges h)) rest False = Ok (h # rest, False)"
      using sid by (subst merge_loop_distinct) auto
    then show ?thesis using red mr by (intro exI [of _ "h # rest"]) simp
  next
    case True
    then obtain n0 where "n0 \<in> set rest" "repl n0 = repl h" by blast
    with sorted_chain_twin [OF assms(1) sorted, of n0 l r] all ms l r
    obtain n zs where z: "rest = n # zs" "repl n = repl h" "\<forall>z \<in> set zs. repl z \<noteq> repl h"
      by (metis mergeable_def)
    let ?h = "h\<lparr>range_count := range_count h + range_count n, ranges := ranges h @ ranges n\<rparr>"
    have "merge_loop G b (repl h) [] h (length (ranges h)) rest False = Ok (?h # zs, True)"
      using sid all [of h] z by (simp add: merge_loop_distinct)
    then have red': "IDSET_merge_idsets G l r = reorder_and_compact (?h # zs)" using red by simp
    have h: "counted h" "length (ranges h) < 2 ^ 31" "\<not> single h" "counted n" "length (ranges n) < 2 ^ 31"
      using all [of h] all [of n] unfolding z(1) by simp_all
    have "\<forall>s \<in> set zs. counted s \<and> length (ranges s) < 2 ^ 31 \<and> \<not> single s"
      using all unfolding z(1) by (meson list.set_intros(2))
    with merge_twin [OF h(1-5) z(2)] obtain m where m: "reorder_and_compact (?h # zs) = Ok m"
      "map repl m = map repl (h # zs)" by blast
    have "m \<noteq> []" using m(2) by auto
    then have "repl (hd m) = repl h" using m(2) by (metis hd_map list.simps(9) list.sel(1))
    moreover have "mset (map repl (l @ r)) = add_mset (repl h) (mset (map repl m))"
      using mr z(1,2) m(2) by simp
    ultimately show ?thesis using red' m(1) by (intro exI [of _ m]) simp
  qed
qed

text \<open>Only the replica at the head of the result is merged into one element: the loop compares
  every element with the first replica it read, so each other replica that both arguments hold is
  still there twice.\<close>

theorem IDSET_merge_duplicates:
  assumes "samba_laws G" and "mergeable b l" and "mergeable b r"
  shows "\<exists>m. IDSET_merge_idsets G l r = Ok m \<and>
    (\<forall>rp \<in> repl ` set l \<inter> repl ` set r. rp \<noteq> repl (hd m) \<longrightarrow> count (mset (map repl m)) rp = 2)"
proof -
  have one: "count (mset (map repl ss)) rp = 1" if "mergeable b ss" "rp \<in> repl ` set ss" for ss rp
    using that distinct_count_atmost_1 [of "map repl ss"] by (simp add: mergeable_def)
  obtain m where m: "IDSET_merge_idsets G l r = Ok m"
    "\<And>rp. rp \<noteq> repl (hd m) \<Longrightarrow> count (mset (map repl m)) rp = count (mset (map repl (l @ r))) rp"
    using merge_idsets_repls [OF assms] by blast
  have "count (mset (map repl m)) rp = 2" if "rp \<in> repl ` set l \<inter> repl ` set r" "rp \<noteq> repl (hd m)" for rp
    using m(2) [OF that(2)] one [OF assms(2)] one [OF assms(3)] that(1) by simp
  with m(1) show ?thesis by blast
qed

theorem IDSET_merge_duplicates_witness:
  "\<exists>m. IDSET_merge_idsets lib128
      [\<lparr>repl = ReplId 1, single = False, range_count = 1, ranges = [\<lparr>low = 1, high = 1\<rparr>]\<rparr>,
       \<lparr>repl = ReplId 2, single = False, range_count = 1, ranges = [\<lparr>low = 1, high = 1\<rparr>]\<rparr>]
      [\<lparr>repl = ReplId 1, single = False, range_count = 1, ranges = [\<lparr>low = 1, high = 1\<rparr>]\<rparr>,
       \<lparr>repl = ReplId 2, single = False, range_count = 1, ranges = [\<lparr>low = 1, high = 1\<rparr>]\<rparr>] = Ok m \<and>
    (count (mset (map repl m)) (ReplId 1) = 2 \<or> count (mset (map repl m)) (ReplId 2) = 2)"
proof -
  let ?l = "[\<lparr>repl = ReplId 1, single = False, range_count = 1, ranges = [\<lparr>low = 1, high = 1\<rparr>]\<rparr>,
       \<lparr>repl = ReplId 2, single = False, range_count = 1, ranges = [\<lparr>low = 1, high = 1\<rparr>]\<rparr>] :: 128 word idset list"
  have "mergeable True ?l" by (simp add: mergeable_def counted_def)
  then obtain m where m: "IDSET_merge_idsets lib128 ?l ?l = Ok m"
    "\<forall>rp \<in> repl ` set ?l \<inter> repl ` set ?l. rp \<noteq> repl (hd m) \<longrightarrow> count (mset (map repl m)) rp = 2"
    using IDSET_merge_duplicates [OF samba_laws_lib128, of True ?l ?l] by blast
  show ?thesis using m by (intro exI [of _ m]) (cases "repl (hd m) = ReplId 1", auto)
qed

end
