(* ===== verification/Idset_Wire.thy ===== *)
theory Idset_Wire
  imports Idset_Merge
begin

unbundle bit_operations_syntax

text \<open>
  Round trips through the wire format of an IDSET: a chain of one idset reads back, a chain of two
  does not.
\<close>

section \<open>Parsing what was serialised\<close>

lemma samba_wire:
  assumes "samba_laws G"
  shows "length (ndr_push_GUID G g) = 16" "GUID_from_data_blob G (ndr_push_GUID G g) = g"
    "ndr_push_uint16 G v = le_bytes 2 v"
  using assms unfolding samba_laws_def by blast+

lemma length_push_repl:
  assumes "samba_laws G" shows "length (push_repl G rp) = (if idbased rp then 2 else 16)"
  by (cases rp) (simp_all add: samba_wire [OF assms])

lemma parse_repl_push:
  assumes "samba_laws G" and "unat t = 0 \<or> idbased rp" and "pre = [] \<or> idbased rp"
    and "length pre = unat t" and "unat t + 1 < 2 ^ 32"
  shows "IDSET_parse_repl G (pre @ push_repl G rp @ post) (idbased rp) t = Ok rp"
proof (cases rp)
  case (ReplId i)
  have t: "unat (t + 1) = Suc (unat t)" using assms(5) by (simp add: unat_word_ariths)
  have b: "le_bytes 2 i = [ucast i, ucast (drop_bit 8 i)]" by (simp add: numeral_2_eq_2)
  have "rd (pre @ le_bytes 2 i @ post) (unat t) = Ok (ucast i)"
    "rd (pre @ le_bytes 2 i @ post) (unat (t + 1)) = Ok (ucast (drop_bit 8 i))"
    using assms(4) t by (simp_all add: b rd_def nth_append)
  moreover have "(ucast (ucast i :: u8) :: u16) OR push_bit 8 (ucast (ucast (drop_bit 8 i) :: u8)) = i"
    by (rule bit_word_eqI) (auto simp: bit_simps)
  ultimately show ?thesis using ReplId by (simp add: IDSET_parse_repl_def samba_wire [OF assms(1)])
next
  case (ReplGuid g)
  with assms(3) show ?thesis by (simp add: IDSET_parse_repl_def samba_wire [OF assms(1)])
qed

lemma parse_step_first:
  assumes "samba_laws G" and "\<forall>r \<in> set (ranges s). wf_range r" and "counted s"
    and "buffer = push_repl G (repl s) @ GLOBSET_serialize (ranges s) @ post"
  shows "IDSET_parse_step G buffer (idbased (repl s)) \<lparr>total_bytes = 0, byte_count = junk, current_idset = []\<rparr> =
    Ok \<lparr>total_bytes = of_nat (length (push_repl G (repl s)) + length (GLOBSET_serialize (ranges s))),
        byte_count = of_nat (length (GLOBSET_serialize (ranges s))),
        current_idset = [s\<lparr>single := False\<rparr>]\<rparr>"
proof -
  have "IDSET_parse_repl G buffer (idbased (repl s)) 0 = Ok (repl s)"
    using parse_repl_push [OF assms(1), of 0 "repl s" "[]"] assms(4) by simp
  moreover have "drop (if idbased (repl s) then 2 else 16) buffer = GLOBSET_serialize (ranges s) @ post"
    using length_push_repl [OF assms(1), of "repl s"] by (simp add: assms(4))
  moreover have "GLOBSET_parse (GLOBSET_serialize (ranges s) @ post) =
      Ok (ranges s, Some (of_nat (length (ranges s))), Some (of_nat (length (GLOBSET_serialize (ranges s)))))"
    by (rule GLOBSET_parse_serialized [OF assms(2)])
  ultimately show ?thesis using assms(3) length_push_repl [OF assms(1), of "repl s"]
    by (cases s) (simp add: IDSET_parse_step_def Let_def counted_def)
qed

abbreviation parse_guard :: "u8 list \<Rightarrow> 'g parse_state outcome \<Rightarrow> bool" where
  "parse_guard buffer r \<equiv> (case r of Ok s \<Rightarrow> unat (total_bytes s) < length buffer | _ \<Rightarrow> False)"

lemma IDSET_parse_serialize_one:
  assumes "samba_laws G" and "\<forall>r \<in> set (ranges s). wf_range r" and "counted s"
    and "length (IDSET_serialize G [s]) < 2 ^ 32"
  shows "IDSET_parse G junk (IDSET_serialize G [s]) (idbased (repl s)) = Ok [s\<lparr>single := False\<rparr>]"
proof -
  let ?buf = "IDSET_serialize G [s]"
  let ?init = "\<lparr>total_bytes = 0, byte_count = junk, current_idset = []\<rparr> :: 'a parse_state"
  have buf: "?buf = push_repl G (repl s) @ GLOBSET_serialize (ranges s) @ []"
    by (simp add: IDSET_serialize_def)
  obtain st where st: "IDSET_parse_step G ?buf (idbased (repl s)) ?init = Ok st"
    "unat (total_bytes st) = length ?buf" "current_idset st = [s\<lparr>single := False\<rparr>]"
  proof -
    have "unat (of_nat (length ?buf) :: u32) = length ?buf"
      using assms(4) by (simp only: unat_of_nat) simp
    with parse_step_first [OF assms(1-3) buf, of junk] that show thesis by (simp add: buf)
  qed
  have "0 < length ?buf" by (simp add: buf GLOBSET_serialize_def)
  then have "while_option (parse_guard ?buf) (\<lambda>r. obind r (IDSET_parse_step G ?buf (idbased (repl s)))) (Ok ?init)
      = Some (Ok st)"
    using st by (subst while_option_unfold, simp, subst while_option_unfold, simp)
  moreover have "\<not> length ?buf < (if idbased (repl s) then 2 else 16)"
    using length_push_repl [OF assms(1), of "repl s"] by (simp add: buf)
  ultimately show ?thesis using st(3) by (simp add: IDSET_parse_def)
qed

text \<open>Two elements: the second round reads the identifier of the second element, but the GLOBSET
  of the first one again.\<close>

lemma IDSET_parse_serialize_two:
  assumes "samba_laws G" and "\<forall>r \<in> set (ranges s). wf_range r" and "counted s"
    and "repl s = ReplId i" and "repl t = ReplId j"
    and "length (GLOBSET_serialize (ranges t)) = length (GLOBSET_serialize (ranges s))"
    and "length (IDSET_serialize G [s, t]) < 2 ^ 32"
  shows "IDSET_parse G junk (IDSET_serialize G [s, t]) True =
    Ok [s\<lparr>repl := ReplId j, single := False\<rparr>]"
proof -
  let ?buf = "IDSET_serialize G [s, t]"
  let ?g = "length (GLOBSET_serialize (ranges s))"
  let ?init = "\<lparr>total_bytes = 0, byte_count = junk, current_idset = []\<rparr> :: 'a parse_state"
  let ?s1 = "\<lparr>total_bytes = of_nat (2 + ?g), byte_count = of_nat ?g, current_idset = [s\<lparr>single := False\<rparr>]\<rparr>"
  let ?s2 = "\<lparr>total_bytes = of_nat (2 + ?g) + 2 + of_nat ?g, byte_count = of_nat ?g,
      current_idset = [s\<lparr>repl := ReplId j, single := False\<rparr>]\<rparr>"
  have buf: "?buf = push_repl G (repl s) @ GLOBSET_serialize (ranges s) @
      push_repl G (ReplId j) @ GLOBSET_serialize (ranges t)"
    using assms(5) by (simp add: IDSET_serialize_def)
  have len: "length ?buf = 2 + ?g + (2 + ?g)"
    using samba_wire(3) [OF assms(1)] assms(4-6) by (simp add: buf)
  have 1: "IDSET_parse_step G ?buf True ?init = Ok ?s1"
    using parse_step_first [OF assms(1-3) buf, of junk] assms(4) length_push_repl [OF assms(1), of "repl s"]
    by simp
  have t1: "unat (of_nat (2 + ?g) :: u32) = 2 + ?g" using assms(7) len by (simp only: unat_of_nat) simp
  have "IDSET_parse_repl G ?buf (idbased (ReplId j)) (of_nat (2 + ?g)) = Ok (ReplId j)"
    unfolding buf using parse_repl_push [OF assms(1), where rp = "ReplId j" and t = "of_nat (2 + ?g)" and
        pre = "push_repl G (repl s) @ GLOBSET_serialize (ranges s)" and post = "GLOBSET_serialize (ranges t)"]
      t1 assms(4,7) len length_push_repl [OF assms(1), of "repl s"] by simp
  moreover have "drop 2 ?buf = GLOBSET_serialize (ranges s) @ push_repl G (ReplId j) @ GLOBSET_serialize (ranges t)"
    using length_push_repl [OF assms(1), of "repl s"] assms(4) by (simp add: buf)
  ultimately have 2: "IDSET_parse_step G ?buf True ?s1 = Ok ?s2"
    using assms(3) GLOBSET_parse_serialized [OF assms(2)]
    by (cases s) (simp add: IDSET_parse_step_def Let_def counted_def)
  have t2: "unat (of_nat (2 + ?g) + 2 + of_nat ?g :: u32) = length ?buf"
  proof -
    have "(of_nat (2 + ?g) + 2 + of_nat ?g :: u32) = of_nat (2 + ?g + (2 + ?g))" by simp
    then show ?thesis using assms(7) len by (simp only: unat_of_nat) simp
  qed
  have "while_option (parse_guard ?buf) (\<lambda>r. obind r (IDSET_parse_step G ?buf True)) (Ok ?init) = Some (Ok ?s2)"
    using 1 2 t1 t2 len
    by (subst while_option_unfold, simp, subst while_option_unfold, simp, subst while_option_unfold, simp)
  moreover have "\<not> length ?buf < 2" using len by simp
  ultimately show ?thesis by (simp add: IDSET_parse_def)
qed

section \<open>Properties of the wire format\<close>

text \<open>An idset reads back from its serialised form: the replica and the ranges are the same,
  and the flag \<open>single\<close>, which the wire format has no room for, is cleared.\<close>

theorem IDSET_roundtrip:
  assumes "samba_laws G" and "\<forall>r \<in> set (ranges s). wf_range r" and "counted s"
    and "length (IDSET_serialize G [s]) < 2 ^ 32"
  shows "IDSET_parse G junk (IDSET_serialize G [s]) (idbased (repl s)) = Ok [s\<lparr>single := False\<rparr>]"
  by (rule IDSET_parse_serialize_one [OF assms])

theorem IDSET_roundtrip_witness:
  "IDSET_parse lib128 99 (IDSET_serialize lib128
      [\<lparr>repl = ReplGuid 5, single = False, range_count = 1, ranges = [\<lparr>low = 0x010000000000, high = 0x050000000000\<rparr>]\<rparr>])
     False =
   Ok [\<lparr>repl = ReplGuid 5, single = False, range_count = 1, ranges = [\<lparr>low = 0x010000000000, high = 0x050000000000\<rparr>]\<rparr>]"
proof -
  let ?s = "\<lparr>repl = ReplGuid 5, single = False, range_count = 1,
      ranges = [\<lparr>low = 0x010000000000, high = 0x050000000000\<rparr>]\<rparr> :: 128 word idset"
  have "wf_range \<lparr>low = 0x010000000000, high = 0x050000000000\<rparr>" by code_simp
  moreover have "length (IDSET_serialize lib128 [?s]) < 99" by code_simp
  then have "length (IDSET_serialize lib128 [?s]) < 2 ^ 32" by simp
  ultimately show ?thesis using IDSET_roundtrip [OF samba_laws_lib128, of ?s 99] by (simp add: counted_def)
qed

text \<open>A chain of two idsets does not read back: the parser reads the GLOBSET at the start of
  the buffer again and returns the last element only, so the second replica comes back with the
  ranges of the first and the first replica is gone.\<close>

theorem IDSET_parse_two_loses_first:
  assumes "samba_laws G" and "\<forall>r \<in> set (ranges s). wf_range r" and "counted s"
    and "repl s = ReplId i" and "repl t = ReplId j"
    and "length (GLOBSET_serialize (ranges t)) = length (GLOBSET_serialize (ranges s))"
    and "length (IDSET_serialize G [s, t]) < 2 ^ 32"
  shows "IDSET_parse G junk (IDSET_serialize G [s, t]) True = Ok [s\<lparr>repl := ReplId j, single := False\<rparr>]"
  by (rule IDSET_parse_serialize_two [OF assms])

theorem IDSET_parse_two_loses_first_witness:
  "IDSET_parse lib128 99 (IDSET_serialize lib128
      [\<lparr>repl = ReplId 1, single = False, range_count = 1, ranges = [\<lparr>low = 1, high = 2\<rparr>]\<rparr>,
       \<lparr>repl = ReplId 2, single = False, range_count = 1, ranges = [\<lparr>low = 3, high = 4\<rparr>]\<rparr>]) True =
   Ok [\<lparr>repl = ReplId 2, single = False, range_count = 1, ranges = [\<lparr>low = 1, high = 2\<rparr>]\<rparr>]"
proof -
  let ?s = "\<lparr>repl = ReplId 1, single = False, range_count = 1, ranges = [\<lparr>low = 1, high = 2\<rparr>]\<rparr> :: 128 word idset"
  let ?t = "\<lparr>repl = ReplId 2, single = False, range_count = 1, ranges = [\<lparr>low = 3, high = 4\<rparr>]\<rparr> :: 128 word idset"
  have "wf_range \<lparr>low = 1, high = 2\<rparr>" by code_simp
  moreover have "length (GLOBSET_serialize (ranges ?t)) = length (GLOBSET_serialize (ranges ?s))" by code_simp
  moreover have "length (IDSET_serialize lib128 [?s, ?t]) < 99" by code_simp
  then have "length (IDSET_serialize lib128 [?s, ?t]) < 2 ^ 32" by simp
  ultimately show ?thesis
    using IDSET_parse_two_loses_first [OF samba_laws_lib128, of ?s 1 ?t 2 99] by (simp add: counted_def)
qed

end
