(* ===== verification/Idset_Raw.thy ===== *)
theory Idset_Raw
  imports Idset_Wire
begin

unbundle bit_operations_syntax

text \<open>
  Collecting identifiers in a RAWIDSET one at a time, converting it to idsets and asking for
  membership.
\<close>

section \<open>Collecting raw identifiers\<close>

text \<open>Pushing a list of identifiers one after the other, as the synchronisation code does.\<close>

fun push_eids :: "'g samba_lib \<Rightarrow> 'g rawidset list \<Rightarrow> u64 list \<Rightarrow> 'g rawidset list outcome" where
  "push_eids G raw [] = Ok raw"
| "push_eids G raw (e # es) = obind (RAWIDSET_push_eid G raw e) (\<lambda>raw'. push_eids G raw' es)"

abbreviation eid_replid :: "u64 \<Rightarrow> u16" where
  "eid_replid e \<equiv> ucast (e AND 0xffff)"

text \<open>After pushing \<open>es\<close>: the elements have different identifiers, and each holds the GLOBCNTs
  of the pushed values with its identifier, in order.\<close>

definition raw_elem_ok :: "u64 list \<Rightarrow> 'g rawidset \<Rightarrow> bool" where
  "raw_elem_ok es r \<longleftrightarrow> idbased (raw_repl r) \<and> length (globcnts r) \<le> max_count r \<and>
     globcnts r = map (drop_bit 16) (filter (\<lambda>e. eid_replid e = repl_id (raw_repl r)) es)"

definition raw_inv :: "bool \<Rightarrow> u64 list \<Rightarrow> 'g rawidset list \<Rightarrow> bool" where
  "raw_inv sgl es raw \<longleftrightarrow> raw \<noteq> [] \<and> distinct (map (\<lambda>r. repl_id (raw_repl r)) raw) \<and>
     (\<forall>r \<in> set raw. raw_elem_ok es r \<and> raw_single r = sgl) \<and>
     (\<forall>e \<in> set es. \<exists>r \<in> set raw. repl_id (raw_repl r) = eid_replid e)"

lemma find_index_Some: "find_index P xs = Some i \<Longrightarrow> i < length xs \<and> P (xs ! i)"
  by (induction xs arbitrary: i) (auto split: if_splits)

lemma find_index_None: "find_index P xs = None \<longleftrightarrow> (\<forall>x \<in> set xs. \<not> P x)"
  by (induction xs) auto

lemma raw_elem_append:
  assumes "raw_elem_ok es r" and "repl_id (raw_repl r) = eid_replid e"
  obtains r' where "raw_append r (drop_bit 16 e) = Ok r'" and "raw_elem_ok (es @ [e]) r'"
    and "raw_repl r' = raw_repl r" and "raw_single r' = raw_single r"
proof -
  let ?m = "if length (globcnts r) + 1 > max_count r then max_count r + 256 else max_count r"
  let ?r = "r\<lparr>globcnts := globcnts r @ [drop_bit 16 e], max_count := ?m\<rparr>"
  have lt: "length (globcnts r) < ?m" using assms(1) by (auto simp: raw_elem_ok_def)
  have "raw_elem_ok (es @ [e]) ?r"
    using assms lt by (auto simp: raw_elem_ok_def)
  moreover have "raw_append r (drop_bit 16 e) = Ok ?r" using lt by (simp add: raw_append_def)
  ultimately show thesis by (intro that [of ?r]) simp_all
qed

lemma raw_elem_other:
  assumes "raw_elem_ok es r" and "repl_id (raw_repl r) \<noteq> eid_replid e"
  shows "raw_elem_ok (es @ [e]) r"
proof -
  have "filter (\<lambda>e. eid_replid e = repl_id (raw_repl r)) (es @ [e])
      = filter (\<lambda>e. eid_replid e = repl_id (raw_repl r)) es" using assms(2) by simp
  then show ?thesis using assms(1) unfolding raw_elem_ok_def by metis
qed

text \<open>Appending to the element at index \<open>i\<close> of a chain whose other elements have other identifiers.\<close>

lemma raw_append_at_inv:
  assumes "i < length raw" and "distinct (map (\<lambda>r. repl_id (raw_repl r)) raw)"
    and "\<forall>r \<in> set raw. raw_elem_ok es r \<and> raw_single r = sgl" and "repl_id (raw_repl (raw ! i)) = eid_replid e"
    and "\<forall>e \<in> set es. \<exists>r \<in> set raw. repl_id (raw_repl r) = eid_replid e"
  shows "\<exists>raw'. raw_append_at raw i (drop_bit 16 e) = Ok raw' \<and> raw_inv sgl (es @ [e]) raw'"
proof -
  have ri: "raw_elem_ok es (raw ! i)" "raw_single (raw ! i) = sgl" using assms(1,3) by simp_all
  obtain r' where r': "raw_append (raw ! i) (drop_bit 16 e) = Ok r'" "raw_elem_ok (es @ [e]) r'"
    "raw_repl r' = raw_repl (raw ! i)" "raw_single r' = raw_single (raw ! i)"
    using raw_elem_append [OF ri(1) assms(4)] by blast
  have m: "map (\<lambda>r. repl_id (raw_repl r)) (raw[i := r']) = map (\<lambda>r. repl_id (raw_repl r)) raw"
    using assms(1) r'(3) by (simp add: map_update) (metis length_map list_update_id nth_map)
  have "raw_elem_ok (es @ [e]) r \<and> raw_single r = sgl" if "r \<in> set (raw[i := r'])" for r
  proof -
    from that obtain j where j: "j < length raw" "r = (raw[i := r']) ! j" by (auto simp: in_set_conv_nth)
    show ?thesis
    proof (cases "j = i")
      case True
      with j r' ri show ?thesis by simp
    next
      case False
      have "map (\<lambda>r. repl_id (raw_repl r)) raw ! j \<noteq> map (\<lambda>r. repl_id (raw_repl r)) raw ! i"
        using assms(1,2) j(1) False by (subst nth_eq_iff_index_eq) simp_all
      with False j assms(1,3,4) show ?thesis by (auto intro: raw_elem_other)
    qed
  qed
  moreover have "\<exists>r \<in> set (raw[i := r']). repl_id (raw_repl r) = eid_replid d" if "d \<in> set (es @ [e])" for d
  proof -
    have "eid_replid d \<in> set (map (\<lambda>r. repl_id (raw_repl r)) raw)"
    proof (cases "d \<in> set es")
      case True
      with assms(5) obtain r where "r \<in> set raw" "eid_replid d = repl_id (raw_repl r)" by metis
      then show ?thesis by simp
    next
      case False
      with that have "d = e" by simp
      with assms(1,4) show ?thesis by (metis length_map nth_map nth_mem)
    qed
    then have "eid_replid d \<in> set (map (\<lambda>r. repl_id (raw_repl r)) (raw[i := r']))" using m by simp
    then show ?thesis by auto
  qed
  ultimately show ?thesis using r'(1) m assms(1,2)
    by (auto simp: raw_append_at_def raw_inv_def)
qed

lemma push_eid_inv:
  assumes "raw_inv sgl es raw" and "\<forall>d \<in> set es. eid_replid d \<noteq> 0" and "eid_replid e \<noteq> 0"
  shows "\<exists>raw'. RAWIDSET_push_eid G raw e = Ok raw' \<and> raw_inv sgl (es @ [e]) raw'"
proof -
  have inv: "raw \<noteq> []" "distinct (map (\<lambda>r. repl_id (raw_repl r)) raw)"
    "\<forall>r \<in> set raw. raw_elem_ok es r \<and> raw_single r = sgl"
    "\<forall>e \<in> set es. \<exists>r \<in> set raw. repl_id (raw_repl r) = eid_replid e"
    using assms(1) by (simp_all add: raw_inv_def)
  have hd: "idbased (raw_repl (hd raw))" "raw_single (hd raw) = sgl"
    using inv(1,3) by (auto simp: raw_elem_ok_def)
  show ?thesis
  proof (cases "find_index (\<lambda>r. repl_id (raw_repl r) = eid_replid e) raw")
    case (Some i)
    with find_index_Some [OF Some] raw_append_at_inv [of i raw es sgl e] inv hd show ?thesis
      by (simp add: RAWIDSET_push_eid_def RAWIDSET_find_by_ID_def)
  next
    case None
    then have fresh: "\<forall>r \<in> set raw. repl_id (raw_repl r) \<noteq> eid_replid e" by (simp add: find_index_None)
    then have none: "filter (\<lambda>d. eid_replid d = eid_replid e) es = []"
      using inv(4) by (auto simp: filter_empty_conv)
    show ?thesis
    proof (cases "length raw - 1 = 0 \<and> repl_id (raw_repl (hd raw)) = 0")
      case True
      then obtain r where r: "raw = [r]" using inv(1) by (cases raw) auto
      with True assms(2) inv(4) have es: "es = []" by (cases es) auto
      let ?r = "r\<lparr>raw_repl := ReplId (eid_replid e)\<rparr>"
      have "raw_elem_ok [] ?r" using inv(3) by (simp add: r es raw_elem_ok_def)
      moreover have "RAWIDSET_push_eid G raw e = raw_append_at [?r] 0 (drop_bit 16 e)"
        using None True hd r by (simp add: RAWIDSET_push_eid_def RAWIDSET_find_by_ID_def Let_def)
      ultimately show ?thesis
        using raw_append_at_inv [of 0 "[?r]" "[]" sgl e] inv(3) by (simp add: r es)
    next
      case False
      let ?n = "(RAWIDSET_make G True sgl)\<lparr>raw_repl := ReplId (eid_replid e)\<rparr>"
      have n: "raw_elem_ok es ?n" "raw_single ?n = sgl"
        using none by (simp_all add: raw_elem_ok_def RAWIDSET_make_def)
      have "RAWIDSET_push_eid G raw e = raw_append_at (raw @ [?n]) (length raw) (drop_bit 16 e)"
        using None hd inv(1) by (simp add: RAWIDSET_push_eid_def RAWIDSET_find_by_ID_def Let_def
            if_not_P [OF False] del: One_nat_def diff_is_0_eq)
      moreover have "eid_replid e \<notin> (\<lambda>r. repl_id (raw_repl r)) ` set raw" using fresh by fastforce
      ultimately show ?thesis
        using raw_append_at_inv [of "length raw" "raw @ [?n]" es sgl e] inv n by auto
    qed
  qed
qed

lemma push_eids_inv:
  assumes "raw_inv sgl es raw" and "\<forall>d \<in> set es. eid_replid d \<noteq> 0" and "\<forall>e \<in> set fs. eid_replid e \<noteq> 0"
  shows "\<exists>raw'. push_eids G raw fs = Ok raw' \<and> raw_inv sgl (es @ fs) raw'"
  using assms
proof (induction fs arbitrary: es raw)
  case Nil
  then show ?case by simp
next
  case (Cons f fs)
  obtain raw1 where r1: "RAWIDSET_push_eid G raw f = Ok raw1" "raw_inv sgl (es @ [f]) raw1"
    using push_eid_inv [OF Cons.prems(1,2)] Cons.prems(3) by fastforce
  have "\<forall>d \<in> set (es @ [f]). eid_replid d \<noteq> 0" "\<forall>e \<in> set fs. eid_replid e \<noteq> 0"
    using Cons.prems(2,3) by auto
  from Cons.IH [OF r1(2) this] r1(1) show ?case by simp
qed

lemma raw_inv_init: "raw_inv sgl [] [RAWIDSET_make G True sgl]"
  by (simp add: raw_inv_def raw_elem_ok_def RAWIDSET_make_def)

text \<open>Converting: the elements with entries become idsets.\<close>

lemma convert_mem:
  fixes raw :: "'g rawidset list"
  assumes "raw_inv sgl es raw" and "\<forall>d \<in> set es. eid_replid d \<noteq> 0"
  shows "chain_mem (RAWIDSET_convert_to_idset G raw) (ReplId i) x \<longleftrightarrow> i \<in> eid_replid ` set es \<and>
    ranges_include (ranges (IDSET_make (ReplId i) (map (drop_bit 16) (filter (\<lambda>e. eid_replid e = i) es)) sgl :: 'g idset)) x"
    (is "?l \<longleftrightarrow> ?r")
proof -
  have el: "idbased (raw_repl r) \<and> raw_single r = sgl \<and>
      globcnts r = map (drop_bit 16) (filter (\<lambda>e. eid_replid e = repl_id (raw_repl r)) es)" if "r \<in> set raw" for r
    using assms(1) that by (simp add: raw_inv_def raw_elem_ok_def)
  have mem: "?l \<longleftrightarrow> (\<exists>r \<in> set raw. globcnts r \<noteq> [] \<and> i \<noteq> 0 \<and> raw_repl r = ReplId i \<and>
      ranges_include (ranges (IDSET_make (ReplId i) (globcnts r) (raw_single r) :: 'g idset)) x)"
  proof -
    have rp: "repl (IDSET_make rp xs b :: 'g idset) = rp" if "xs \<noteq> []" for rp xs b
      using that by (simp add: IDSET_make_def Let_def)
    show ?thesis unfolding chain_mem_def RAWIDSET_convert_to_idset_def
      by (auto simp: rp)
  qed
  show ?thesis unfolding mem
  proof
    assume "\<exists>r \<in> set raw. globcnts r \<noteq> [] \<and> i \<noteq> 0 \<and> raw_repl r = ReplId i \<and>
      ranges_include (ranges (IDSET_make (ReplId i) (globcnts r) (raw_single r) :: 'g idset)) x"
    then obtain r where r: "r \<in> set raw" "globcnts r \<noteq> []" "raw_repl r = ReplId i"
      "ranges_include (ranges (IDSET_make (ReplId i) (globcnts r) (raw_single r) :: 'g idset)) x" by blast
    have g: "globcnts r = map (drop_bit 16) (filter (\<lambda>e. eid_replid e = i) es)" "raw_single r = sgl"
      using el [OF r(1)] r(3) by simp_all
    have "filter (\<lambda>e. eid_replid e = i) es \<noteq> []" using r(2) g(1) by simp
    then have "i \<in> eid_replid ` set es" by (auto simp: filter_empty_conv)
    with r(4) g show ?r by simp
  next
    assume r: ?r
    then obtain e where e: "e \<in> set es" "i = eid_replid e" by auto
    then obtain w where w: "w \<in> set raw" "repl_id (raw_repl w) = i"
      using assms(1) by (auto simp: raw_inv_def)
    have g: "globcnts w = map (drop_bit 16) (filter (\<lambda>e. eid_replid e = i) es)" "raw_single w = sgl"
      using el [OF w(1)] w(2) by simp_all
    have "i \<noteq> 0" using e assms(2) by simp
    moreover have "globcnts w \<noteq> []" using g(1) e by (auto simp: filter_empty_conv)
    moreover have "raw_repl w = ReplId i" using el [OF w(1)] w(2) by (cases "raw_repl w") simp_all
    ultimately show "\<exists>r \<in> set raw. globcnts r \<noteq> [] \<and> i \<noteq> 0 \<and> raw_repl r = ReplId i \<and>
      ranges_include (ranges (IDSET_make (ReplId i) (globcnts r) (raw_single r) :: 'g idset)) x"
      using w(1) g r by (intro bexI [of _ w]) simp_all
  qed
qed

section \<open>Properties of collecting identifiers\<close>

lemma convert_idbased:
  assumes "raw_inv sgl es raw" shows "\<forall>s \<in> set (RAWIDSET_convert_to_idset G raw). idbased (repl s)"
  using assms by (auto simp: RAWIDSET_convert_to_idset_def raw_inv_def raw_elem_ok_def IDSET_make_def Let_def)

lemma eid_split:
  assumes "drop_bit 16 d = drop_bit 16 e" and "eid_replid e = eid_replid d"
  shows "d = e"
proof (rule bit_word_eqI)
  fix n assume n: "n < LENGTH(64)"
  have lo: "bit d k = bit e k" if "k < 16" for k
  proof -
    have "bit (eid_replid d) k = bit (eid_replid e) k" using assms(2) by simp
    moreover have "(0xffff :: u64) = mask 16" by (simp add: mask_eq_exp_minus_1)
    then have "bit (0xffff :: u64) k" using that by (simp only: bit_mask_iff) simp
    ultimately show ?thesis using that by (simp add: bit_simps)
  qed
  have hi: "bit d (16 + k) = bit e (16 + k)" for k using assms(1) by (metis bit_drop_bit_eq comp_apply)
  show "bit d n = bit e n" using lo [of n] hi [of "n - 16"] by (cases "n < 16") simp_all
qed

text \<open>C16 The path the synchronisation code takes: push message and folder identifiers one by one
  into an empty RAWIDSET, convert it, ask for membership. Nothing pushed is lost, and where every
  replica got at least three identifiers nothing else is included.\<close>

theorem RAWIDSET_collect:
  assumes "\<forall>e \<in> set es. eid_replid e \<noteq> 0"
  shows "\<exists>raw. push_eids G [RAWIDSET_make G True False] es = Ok raw \<and>
    (\<forall>e \<in> set es. IDSET_includes_eid (RAWIDSET_convert_to_idset G raw) e) \<and>
    ((\<forall>e \<in> set es. 3 \<le> length (filter (\<lambda>d. eid_replid d = eid_replid e) es)) \<longrightarrow>
     (\<forall>d. IDSET_includes_eid (RAWIDSET_convert_to_idset G raw) d \<longleftrightarrow> d \<in> set es))"
proof -
  obtain raw where raw: "push_eids G [RAWIDSET_make G True False] es = Ok raw" "raw_inv False es raw"
    using push_eids_inv [OF raw_inv_init [of False G], of es G] assms by auto
  let ?c = "RAWIDSET_convert_to_idset G raw"
  have mem: "IDSET_includes_eid ?c e \<longleftrightarrow> eid_replid e \<in> eid_replid ` set es \<and>
      ranges_include (ranges (IDSET_make (ReplId (eid_replid e))
        (map (drop_bit 16) (filter (\<lambda>d. eid_replid d = eid_replid e) es)) False :: 'a idset)) (drop_bit 16 e)" for e
    using includes_eid_chain [OF convert_idbased [OF raw(2)]] convert_mem [OF raw(2) assms] by metis
  have cover: "IDSET_includes_eid ?c e" if "e \<in> set es" for e
    using that unfolding mem by (intro conjI imageI IDSET_make_covers) auto
  have "d \<in> set es" if three: "\<forall>e \<in> set es. 3 \<le> length (filter (\<lambda>d. eid_replid d = eid_replid e) es)"
    and d: "IDSET_includes_eid ?c d" for d
  proof -
    let ?ds = "filter (\<lambda>e. eid_replid e = eid_replid d) es"
    from d have "3 \<le> length (map (drop_bit 16) ?ds)" using three unfolding mem by auto
    from IDSET_make_include_exact [OF _ this, of False] d
    obtain e where e: "e \<in> set ?ds" "exchange_globcnt (drop_bit 16 d) = exchange_globcnt (drop_bit 16 e)"
      unfolding mem by auto
    then have "drop_bit 16 d = drop_bit 16 e" by (simp only: exchange_inject [OF drop_bit_16_less(2) drop_bit_16_less(2)])
    moreover have "eid_replid e = eid_replid d" using e by simp
    ultimately have "d = e" by (rule eid_split)
    then show ?thesis using e by simp
  qed
  with cover raw(1) show ?thesis by blast
qed

theorem RAWIDSET_collect_witness:
  "\<exists>raw. push_eids lib128 [RAWIDSET_make lib128 True False]
      [0x0100000000000001, 0x0500000000000001, 0x0900000000000001] = Ok raw \<and>
    IDSET_includes_eid (RAWIDSET_convert_to_idset lib128 raw) 0x0500000000000001 \<and>
    \<not> IDSET_includes_eid (RAWIDSET_convert_to_idset lib128 raw) 0x0600000000000001"
proof -
  let ?es = "[0x0100000000000001, 0x0500000000000001, 0x0900000000000001] :: u64 list"
  have id: "eid_replid 0x0100000000000001 = 1" "eid_replid 0x0500000000000001 = 1"
    "eid_replid 0x0900000000000001 = 1" by code_simp+
  have nz: "\<forall>e \<in> set ?es. eid_replid e \<noteq> 0" unfolding list.set using id by simp
  have "\<forall>e \<in> set ?es. 3 \<le> length (filter (\<lambda>d. eid_replid d = eid_replid e) ?es)"
    unfolding list.set using id by simp
  with RAWIDSET_collect [OF nz, of lib128] obtain raw
    where "push_eids lib128 [RAWIDSET_make lib128 True False] ?es = Ok raw"
      "\<forall>d. IDSET_includes_eid (RAWIDSET_convert_to_idset lib128 raw) d \<longleftrightarrow> d \<in> set ?es" by blast
  then show ?thesis by (intro exI [of _ raw]) simp
qed

end
