(* ===== verification/Dlinklist.thy ===== *)
theory Dlinklist
  imports OC_Prelude "HOL-Library.While_Combinator"
begin

text \<open>
  The doubly linked lists of \<^verbatim>\<open>src/utils/dlinklist.h\<close> at the level of their pointers: a heap of nodes
  with \<^verbatim>\<open>prev\<close> and \<^verbatim>\<open>next\<close>, every macro as the sequence of its assignments, and the proof that on a
  well-formed list each is the list operation its comment names. The other theories then use lists.
\<close>

section \<open>Nodes and the heap\<close>

text \<open>A node has the two pointers and the other members of the structure, \<open>payload\<close>.\<close>

record 'x dnode =
  nprev :: "nat option"
  nnext :: "nat option"
  payload :: 'x

type_synonym 'x dheap = "nat \<Rightarrow> 'x dnode option"

definition node_at :: "'x dheap \<Rightarrow> nat option \<Rightarrow> 'x dnode outcome" where
  "node_at h p = (case p of None \<Rightarrow> Fault | Some a \<Rightarrow> (case h a of None \<Rightarrow> Fault | Some n \<Rightarrow> Ok n))"

definition set_prev :: "'x dheap \<Rightarrow> nat option \<Rightarrow> nat option \<Rightarrow> 'x dheap outcome" where
  "set_prev h p v = obind (node_at h p) (\<lambda>n. Ok (h(the p \<mapsto> n\<lparr>nprev := v\<rparr>)))"

definition set_next :: "'x dheap \<Rightarrow> nat option \<Rightarrow> nat option \<Rightarrow> 'x dheap outcome" where
  "set_next h p v = obind (node_at h p) (\<lambda>n. Ok (h(the p \<mapsto> n\<lparr>nnext := v\<rparr>)))"

section \<open>The macros\<close>

definition DLIST_ADD :: "'x dheap \<Rightarrow> nat option \<Rightarrow> nat option \<Rightarrow> ('x dheap \<times> nat option) outcome" where
  "DLIST_ADD h l p =
     (if l = None then
        obind (set_prev h p p) (\<lambda>h1. obind (set_next h1 p None) (\<lambda>h2. Ok (h2, p)))
      else
        obind (node_at h l) (\<lambda>ln.
        obind (set_prev h p (nprev ln)) (\<lambda>h1.
        obind (set_prev h1 l p) (\<lambda>h2.
        obind (set_next h2 p l) (\<lambda>h3. Ok (h3, p))))))"

definition DLIST_REMOVE :: "'x dheap \<Rightarrow> nat option \<Rightarrow> nat option \<Rightarrow> ('x dheap \<times> nat option) outcome" where
  "DLIST_REMOVE h l p =
     obind
       (if p = l then
          obind (node_at h p) (\<lambda>n.
          obind (if nnext n \<noteq> None then set_prev h (nnext n) (nprev n) else Ok h) (\<lambda>h1.
          obind (node_at h1 p) (\<lambda>n1. Ok (h1, nnext n1))))
        else
          obind (if l \<noteq> None then obind (node_at h l) (\<lambda>ln. Ok (p = nprev ln)) else Ok False) (\<lambda>tail.
          if tail then
            obind (node_at h p) (\<lambda>n.
            obind (set_next h (nprev n) None) (\<lambda>h1.
            obind (node_at h1 p) (\<lambda>n1.
            obind (set_prev h1 l (nprev n1)) (\<lambda>h2. Ok (h2, l)))))
          else
            obind (node_at h p) (\<lambda>n.
            obind (if nprev n \<noteq> None then set_next h (nprev n) (nnext n) else Ok h) (\<lambda>h1.
            obind (node_at h1 p) (\<lambda>n1.
            obind (if nnext n1 \<noteq> None then set_prev h1 (nnext n1) (nprev n1) else Ok h1) (\<lambda>h2.
            Ok (h2, l)))))))
       (\<lambda>(h2, l2).
          if p \<noteq> l2
          then obind (set_prev h2 p None) (\<lambda>h3. obind (set_next h3 p None) (\<lambda>h4. Ok (h4, l2)))
          else Ok (h2, l2))"

definition DLIST_TAIL :: "'x dheap \<Rightarrow> nat option \<Rightarrow> nat option outcome" where
  "DLIST_TAIL h l = (if l \<noteq> None then obind (node_at h l) (\<lambda>n. Ok (nprev n)) else Ok None)"

definition DLIST_PREV :: "'x dheap \<Rightarrow> nat option \<Rightarrow> nat option outcome" where
  "DLIST_PREV h p =
     obind (node_at h p) (\<lambda>n.
     if nprev n = None then Ok None
     else obind (node_at h (nprev n)) (\<lambda>q. Ok (if nnext q \<noteq> None then nprev n else None)))"

definition DLIST_ADD_AFTER :: "'x dheap \<Rightarrow> nat option \<Rightarrow> nat option \<Rightarrow> nat option \<Rightarrow> ('x dheap \<times> nat option) outcome" where
  "DLIST_ADD_AFTER h l p el =
     (if l = None \<or> el = None then DLIST_ADD h l p
      else
        obind (set_prev h p el) (\<lambda>h1.
        obind (node_at h1 el) (\<lambda>e1.
        obind (set_next h1 p (nnext e1)) (\<lambda>h2.
        obind (set_next h2 el p) (\<lambda>h3.
        obind (node_at h3 p) (\<lambda>pn.
        obind (if nnext pn \<noteq> None then set_prev h3 (nnext pn) p else Ok h3) (\<lambda>h4.
        obind (node_at h4 l) (\<lambda>ln.
        if nprev ln = el then obind (set_prev h4 l p) (\<lambda>h5. Ok (h5, l)) else Ok (h4, l)))))))))"

definition DLIST_ADD_END :: "'x dheap \<Rightarrow> nat option \<Rightarrow> nat option \<Rightarrow> ('x dheap \<times> nat option) outcome" where
  "DLIST_ADD_END h l p =
     (if l = None then DLIST_ADD h l p
      else obind (node_at h l) (\<lambda>ln. DLIST_ADD_AFTER h l p (nprev ln)))"

definition DLIST_PROMOTE :: "'x dheap \<Rightarrow> nat option \<Rightarrow> nat option \<Rightarrow> ('x dheap \<times> nat option) outcome" where
  "DLIST_PROMOTE h l p = obind (DLIST_REMOVE h l p) (\<lambda>(h1, l1). DLIST_ADD h1 l1 p)"

definition DLIST_DEMOTE :: "'x dheap \<Rightarrow> nat option \<Rightarrow> nat option \<Rightarrow> ('x dheap \<times> nat option) outcome" where
  "DLIST_DEMOTE h l p = obind (DLIST_REMOVE h l p) (\<lambda>(h1, l1). DLIST_ADD_END h1 l1 p)"

definition DLIST_CONCATENATE :: "'x dheap \<Rightarrow> nat option \<Rightarrow> nat option \<Rightarrow> ('x dheap \<times> nat option) outcome" where
  "DLIST_CONCATENATE h list1 list2 =
     (if list1 = None then Ok (h, list2)
      else
        obind (node_at h list1) (\<lambda>n1.
        obind (set_next h (nprev n1) list2) (\<lambda>h1.
        if list2 = None then Ok (h1, list1)
        else
          obind (node_at h1 list1) (\<lambda>m1.
          obind (node_at h1 list2) (\<lambda>m2.
          obind (set_prev h1 list1 (nprev m2)) (\<lambda>h2.
          obind (set_prev h2 list2 (nprev m1)) (\<lambda>h3. Ok (h3, list1))))))))"

text \<open>\<open>DLIST_HEAD\<close> walks towards the head; a cycle would keep it walking.\<close>

definition DLIST_HEAD :: "'x dheap \<Rightarrow> nat option \<Rightarrow> nat option outcome" where
  "DLIST_HEAD h p =
     (case while_option (\<lambda>r. case r of Ok (q, stop) \<Rightarrow> \<not> stop | _ \<Rightarrow> False)
             (\<lambda>r. obind r (\<lambda>(q, stop). obind (DLIST_PREV h q) (\<lambda>v.
                 if v = None then Ok (q, True) else obind (node_at h q) (\<lambda>n. Ok (nprev n, False)))))
             (Ok (p, False)) of
        None \<Rightarrow> Hang
      | Some r \<Rightarrow> obind r (\<lambda>(q, stop). Ok q))"

text \<open>The loop \<^verbatim>\<open>while (element) { if (P) return element; element = element->next; }\<close> of the
  clients.\<close>

definition dl_find :: "('x \<Rightarrow> bool) \<Rightarrow> 'x dheap \<Rightarrow> nat option \<Rightarrow> nat option outcome" where
  "dl_find P h l =
     (case while_option (\<lambda>r. case r of Ok (el, found) \<Rightarrow> el \<noteq> None \<and> \<not> found | _ \<Rightarrow> False)
             (\<lambda>r. obind r (\<lambda>(el, found). obind (node_at h el) (\<lambda>n.
                 Ok (if P (payload n) then (el, True) else (nnext n, False)))))
             (Ok (l, False)) of
        None \<Rightarrow> Hang
      | Some r \<Rightarrow> obind r (\<lambda>(el, found). Ok el))"

text \<open>The loop that copies a member of every element into an array of \<open>cap\<close> elements.\<close>

definition dl_collect :: "('x \<Rightarrow> 'y) \<Rightarrow> nat \<Rightarrow> 'x dheap \<Rightarrow> nat option \<Rightarrow> 'y list outcome" where
  "dl_collect f cap h l =
     (case while_option (\<lambda>r. case r of Ok (el, arr) \<Rightarrow> el \<noteq> None | _ \<Rightarrow> False)
             (\<lambda>r. obind r (\<lambda>(el, arr). obind (node_at h el) (\<lambda>n.
                 if length arr < cap then Ok (nnext n, arr @ [f (payload n)]) else Fault)))
             (Ok (l, [])) of
        None \<Rightarrow> Hang
      | Some r \<Rightarrow> obind r (\<lambda>(el, arr). Ok arr))"

text \<open>How \<^verbatim>\<open>IDSET_ranges_remove_globcnt\<close> in \<^verbatim>\<open>src/libmapi/idset.c\<close> unlinks a range: after the
  macro it moves the tail pointer once more.\<close>

definition IDSET_unlink_range :: "'x dheap \<Rightarrow> nat option \<Rightarrow> nat option \<Rightarrow> ('x dheap \<times> nat option) outcome" where
  "IDSET_unlink_range h l p =
     obind (DLIST_REMOVE h l p) (\<lambda>(h1, l1).
     obind (node_at h1 p) (\<lambda>n.
     if nnext n = None \<and> l1 \<noteq> None
     then obind (set_prev h1 l1 (nprev n)) (\<lambda>h2. Ok (h2, l1))
     else Ok (h1, l1)))"

section \<open>Well-formed lists\<close>

text \<open>
  \<open>seg h pv xs nx\<close>: the nodes \<open>xs\<close> are linked in order, the first one's \<^verbatim>\<open>prev\<close> is \<open>pv\<close> and the last
  one's \<^verbatim>\<open>next\<close> is \<open>nx\<close>. A list made with the macros is \<open>tailed\<close>: its head's \<^verbatim>\<open>prev\<close> is the last
  node. A list whose first node was not added with a macro has \<^verbatim>\<open>NULL\<close> there.
\<close>

definition head_of :: "nat list \<Rightarrow> nat option \<Rightarrow> nat option" where
  "head_of xs nx = (if xs = [] then nx else Some (hd xs))"

fun seg :: "'x dheap \<Rightarrow> nat option \<Rightarrow> nat list \<Rightarrow> nat option \<Rightarrow> bool" where
  "seg h pv [] nx = True"
| "seg h pv (x # xs) nx \<longleftrightarrow> (\<exists>v. h x = Some \<lparr>nprev = pv, nnext = head_of xs nx, payload = v\<rparr>) \<and> seg h (Some x) xs nx"

definition head_prev :: "bool \<Rightarrow> nat list \<Rightarrow> nat option" where
  "head_prev tailed xs = (if tailed then Some (last xs) else None)"

definition dlist_rep :: "bool \<Rightarrow> 'x dheap \<Rightarrow> nat option \<Rightarrow> nat list \<Rightarrow> bool" where
  "dlist_rep tailed h l xs \<longleftrightarrow> distinct xs \<and> l = head_of xs None \<and> seg h (head_prev tailed xs) xs None"

definition unlinked :: "'x dheap \<Rightarrow> nat \<Rightarrow> bool" where
  "unlinked h a \<longleftrightarrow> (\<exists>n. h a = Some n \<and> nprev n = None \<and> nnext n = None)"

definition same_payload :: "'x dheap \<Rightarrow> 'x dheap \<Rightarrow> bool" where
  "same_payload h h' \<longleftrightarrow> (\<forall>c. map_option payload (h' c) = map_option payload (h c))"

lemma head_of_simps [simp]: "head_of [] nx = nx" "head_of (x # xs) nx = Some x"
  by (simp_all add: head_of_def)

lemma head_of_append [simp]: "head_of (xs @ ys) nx = head_of xs (head_of ys nx)"
  by (simp add: head_of_def)

lemma seg_append [simp]:
  "seg h pv (xs @ ys) nx \<longleftrightarrow> seg h pv xs (head_of ys nx) \<and> seg h (if xs = [] then pv else Some (last xs)) ys nx"
  by (induction xs arbitrary: pv) auto

lemma seg_frame [simp]: "a \<notin> set xs \<Longrightarrow> seg (h(a := v)) pv xs nx = seg h pv xs nx"
  by (induction xs arbitrary: pv) auto

lemma head_prev_simps [simp]:
  "head_prev False xs = None" "head_prev True xs = Some (last xs)" "xs \<noteq> [] \<Longrightarrow> head_prev b (x # xs) = head_prev b xs"
  by (auto simp: head_prev_def)

lemma node_eq [simp]: "y\<lparr>nprev := p, nnext := n\<rparr> = \<lparr>nprev = p, nnext = n, payload = payload y\<rparr>"
  by (cases y) simp

lemmas ptr_defs = node_at_def set_prev_def set_next_def unlinked_def same_payload_def

section \<open>Refinement of list operations\<close>

lemma DLIST_ADD_rep:
  assumes "dlist_rep b h l xs" and "a \<notin> set xs" and "h a \<noteq> None" and "xs \<noteq> [] \<or> b"
  shows "\<exists>h'. DLIST_ADD h l (Some a) = Ok (h', Some a) \<and> dlist_rep b h' (Some a) (a # xs) \<and>
    (\<forall>c. c \<notin> set (a # xs) \<longrightarrow> h' c = h c) \<and> same_payload h h'"
proof (cases xs)
  case Nil
  with assms show ?thesis by (auto simp: DLIST_ADD_def dlist_rep_def ptr_defs simp del: obind_eq_Ok_iff)
next
  case (Cons x ys)
  with assms show ?thesis by (cases "ys = []") (auto simp: DLIST_ADD_def dlist_rep_def ptr_defs head_prev_def simp del: obind_eq_Ok_iff)
qed

lemma DLIST_REMOVE_rep:
  assumes "dlist_rep b h l xs" and "a \<in> set xs"
  shows "\<exists>h' l'. DLIST_REMOVE h l (Some a) = Ok (h', l') \<and> dlist_rep b h' l' (remove1 a xs) \<and>
    unlinked h' a \<and> (\<forall>c. c \<notin> set xs \<longrightarrow> h' c = h c) \<and> same_payload h h'"
proof -
  obtain as bs where xs: "xs = as @ a # bs" using assms(2) by (meson split_list)
  have d: "distinct (as @ a # bs)" using assms(1) by (simp add: dlist_rep_def xs)
  then have r: "remove1 a xs = as @ bs" by (simp add: xs remove1_append)
  have "\<exists>h' l'. DLIST_REMOVE h l (Some a) = Ok (h', l') \<and> dlist_rep b h' l' (as @ bs) \<and>
    unlinked h' a \<and> (\<forall>c. c \<notin> set xs \<longrightarrow> h' c = h c) \<and> same_payload h h'"
  proof (cases as)
    case Nil
    with assms(1) d show ?thesis
      by (cases bs) (auto simp: xs DLIST_REMOVE_def dlist_rep_def ptr_defs head_prev_def simp del: obind_eq_Ok_iff)
  next
    case (Cons x as')
    with assms(1) d show ?thesis
      by (cases as' rule: rev_cases; cases bs)
        (auto simp: xs DLIST_REMOVE_def dlist_rep_def ptr_defs head_prev_def simp del: obind_eq_Ok_iff)
  qed
  then show ?thesis unfolding r .
qed

lemma DLIST_ADD_AFTER_rep:
  assumes "dlist_rep b h l (as @ e # bs)" and "a \<notin> set (as @ e # bs)" and "h a \<noteq> None" and "b \<or> bs \<noteq> []"
  shows "\<exists>h'. DLIST_ADD_AFTER h l (Some a) (Some e) = Ok (h', l) \<and> dlist_rep b h' l (as @ e # a # bs) \<and>
    (\<forall>c. c \<notin> set (a # as @ e # bs) \<longrightarrow> h' c = h c) \<and> same_payload h h'"
proof (cases as)
  case Nil
  with assms show ?thesis
    by (cases bs) (auto simp: DLIST_ADD_AFTER_def dlist_rep_def ptr_defs head_prev_def simp del: obind_eq_Ok_iff)
next
  case (Cons x as')
  with assms show ?thesis
    by (cases as' rule: rev_cases; cases bs) (auto simp: DLIST_ADD_AFTER_def dlist_rep_def ptr_defs head_prev_def simp del: obind_eq_Ok_iff)
qed

lemma DLIST_ADD_END_rep:
  assumes "dlist_rep True h l xs" and "a \<notin> set xs" and "h a \<noteq> None"
  shows "\<exists>h' l'. DLIST_ADD_END h l (Some a) = Ok (h', l') \<and> dlist_rep True h' l' (xs @ [a]) \<and>
    (\<forall>c. c \<notin> set (a # xs) \<longrightarrow> h' c = h c) \<and> same_payload h h'"
proof (cases xs rule: rev_cases)
  case Nil
  with DLIST_ADD_rep [OF assms] assms(1) show ?thesis by (auto simp: DLIST_ADD_END_def dlist_rep_def)
next
  case (snoc ys y)
  have "obind (node_at h l) (\<lambda>ln. DLIST_ADD_AFTER h l (Some a) (nprev ln)) = DLIST_ADD_AFTER h l (Some a) (Some y)"
    and "l \<noteq> None"
    using assms(1) by (cases ys; auto simp: snoc dlist_rep_def ptr_defs simp del: obind_eq_Ok_iff)+
  with DLIST_ADD_AFTER_rep [of True h l ys y "[]" a] assms show ?thesis
    by (auto simp: DLIST_ADD_END_def snoc)
qed

lemma DLIST_CONCATENATE_rep:
  assumes "dlist_rep True h l xs" and "dlist_rep True h m ys" and "set xs \<inter> set ys = {}"
  shows "\<exists>h' l'. DLIST_CONCATENATE h l m = Ok (h', l') \<and> dlist_rep True h' l' (xs @ ys)"
proof (cases xs rule: rev_cases)
  case Nil
  with assms show ?thesis by (auto simp: DLIST_CONCATENATE_def dlist_rep_def)
next
  case (snoc xs' x)
  with assms show ?thesis
    by (cases xs'; cases ys) (auto simp: DLIST_CONCATENATE_def dlist_rep_def ptr_defs simp del: obind_eq_Ok_iff)
qed

lemma DLIST_PREV_rep:
  assumes "dlist_rep True h l (as @ a # bs)"
  shows "DLIST_PREV h (Some a) = Ok (if as = [] then None else Some (last as))"
proof (cases as rule: rev_cases)
  case Nil
  with assms show ?thesis
    by (cases bs rule: rev_cases) (auto simp: DLIST_PREV_def dlist_rep_def ptr_defs simp del: obind_eq_Ok_iff)
next
  case (snoc as' x)
  with assms show ?thesis
    by (auto simp: DLIST_PREV_def dlist_rep_def ptr_defs simp del: obind_eq_Ok_iff)
qed

lemma DLIST_TAIL_rep:
  assumes "dlist_rep True h l xs"
  shows "DLIST_TAIL h l = Ok (if xs = [] then None else Some (last xs))"
  using assms by (cases xs) (auto simp: DLIST_TAIL_def dlist_rep_def ptr_defs simp del: obind_eq_Ok_iff)

lemma DLIST_PROMOTE_rep:
  assumes "dlist_rep True h l xs" and "a \<in> set xs"
  shows "\<exists>h'. DLIST_PROMOTE h l (Some a) = Ok (h', Some a) \<and> dlist_rep True h' (Some a) (a # remove1 a xs)"
proof -
  obtain h1 l1 where r: "DLIST_REMOVE h l (Some a) = Ok (h1, l1)" "dlist_rep True h1 l1 (remove1 a xs)" "unlinked h1 a"
    using DLIST_REMOVE_rep [OF assms] by blast
  have "a \<notin> set (remove1 a xs)" using assms by (simp add: dlist_rep_def)
  with DLIST_ADD_rep [OF r(2), of a] r(1,3) show ?thesis by (auto simp: DLIST_PROMOTE_def unlinked_def)
qed

lemma DLIST_DEMOTE_rep:
  assumes "dlist_rep True h l xs" and "a \<in> set xs"
  shows "\<exists>h' l'. DLIST_DEMOTE h l (Some a) = Ok (h', l') \<and> dlist_rep True h' l' (remove1 a xs @ [a])"
proof -
  obtain h1 l1 where r: "DLIST_REMOVE h l (Some a) = Ok (h1, l1)" "dlist_rep True h1 l1 (remove1 a xs)" "unlinked h1 a"
    using DLIST_REMOVE_rep [OF assms] by blast
  have "a \<notin> set (remove1 a xs)" using assms by (simp add: dlist_rep_def)
  with DLIST_ADD_END_rep [OF r(2), of a] r(1,3) show ?thesis by (auto simp: DLIST_DEMOTE_def unlinked_def)
qed

lemma DLIST_HEAD_loop:
  assumes "dlist_rep True h l (as @ a # bs)"
  shows "while_option (\<lambda>r. case r of Ok (q, stop) \<Rightarrow> \<not> stop | _ \<Rightarrow> False)
      (\<lambda>r. obind r (\<lambda>(q, stop). obind (DLIST_PREV h q) (\<lambda>v.
          if v = None then Ok (q, True) else obind (node_at h q) (\<lambda>n. Ok (nprev n, False)))))
      (Ok (Some a, False)) = Some (Ok (head_of (as @ [a]) None, True))"
  using assms
proof (induction as arbitrary: a bs rule: rev_induct)
  case Nil
  from DLIST_PREV_rep [OF Nil.prems] show ?case
    by (subst while_option_unfold, simp, subst while_option_unfold, simp)
next
  case (snoc x as)
  have n: "node_at h (Some a) = Ok n \<Longrightarrow> nprev n = Some x" "\<exists>n. node_at h (Some a) = Ok n" for n
    using snoc.prems by (auto simp: dlist_rep_def node_at_def)
  then obtain n where n: "node_at h (Some a) = Ok n" "nprev n = Some x" by blast
  have "dlist_rep True h l (as @ x # a # bs)" using snoc.prems by simp
  from snoc.IH [OF this] DLIST_PREV_rep [OF snoc.prems] n show ?case
    by (subst while_option_unfold) simp
qed

lemma DLIST_HEAD_rep:
  assumes "dlist_rep True h l xs" and "a \<in> set xs"
  shows "DLIST_HEAD h (Some a) = Ok l"
proof -
  obtain as bs where xs: "xs = as @ a # bs" using assms(2) by (meson split_list)
  from DLIST_HEAD_loop [of h l as a bs] assms(1) show ?thesis
    by (simp add: DLIST_HEAD_def xs) (simp add: dlist_rep_def)
qed

section \<open>The interface of a list\<close>

text \<open>What the clients of the macros rely on: where the list starts and how it is walked, what adding
  in front of a list that is not empty does and what removing a member does.\<close>

locale dlist_iface =
  fixes rep :: "'x dheap \<Rightarrow> nat option \<Rightarrow> nat list \<Rightarrow> bool"
  assumes rep_head: "rep h l xs \<Longrightarrow> l = head_of xs None"
    and rep_distinct: "rep h l xs \<Longrightarrow> distinct xs"
    and rep_next: "rep h l (as @ a # bs) \<Longrightarrow> \<exists>n. h a = Some n \<and> nnext n = head_of bs None"
    and rep_add: "rep h l xs \<Longrightarrow> xs \<noteq> [] \<Longrightarrow> a \<notin> set xs \<Longrightarrow> h a \<noteq> None \<Longrightarrow>
      \<exists>h'. DLIST_ADD h l (Some a) = Ok (h', Some a) \<and> rep h' (Some a) (a # xs) \<and> same_payload h h'"
    and rep_remove: "rep h l xs \<Longrightarrow> a \<in> set xs \<Longrightarrow>
      \<exists>h' l'. DLIST_REMOVE h l (Some a) = Ok (h', l') \<and> rep h' l' (remove1 a xs) \<and> same_payload h h'"
begin

lemma rep_allocated: "rep h l xs \<Longrightarrow> a \<in> set xs \<Longrightarrow> h a \<noteq> None"
  using rep_next by (metis option.simps(3) split_list)

lemma find_loop:
  assumes "rep h l (as @ bs)"
  shows "while_option (\<lambda>r. case r of Ok (el, found) \<Rightarrow> el \<noteq> None \<and> \<not> found | _ \<Rightarrow> False)
      (\<lambda>r. obind r (\<lambda>(el, found). obind (node_at h el) (\<lambda>n.
          Ok (if P (payload n) then (el, True) else (nnext n, False)))))
      (Ok (head_of bs None, False)) =
    Some (Ok (find (\<lambda>a. P (payload (the (h a)))) bs, find (\<lambda>a. P (payload (the (h a)))) bs \<noteq> None))"
  using assms
proof (induction bs arbitrary: as)
  case Nil
  then show ?case by (subst while_option_unfold) simp
next
  case (Cons b bs)
  obtain n where n: "h b = Some n" "nnext n = head_of bs None" using rep_next [OF Cons.prems] by blast
  have "rep h l ((as @ [b]) @ bs)" using Cons.prems by simp
  note IH = Cons.IH [OF this]
  show ?case
  proof (cases "P (payload n)")
    case True
    with n show ?thesis
      by (subst while_option_unfold, simp add: node_at_def, subst while_option_unfold, simp)
  next
    case False
    with n IH show ?thesis by (subst while_option_unfold) (simp add: node_at_def del: not_None_eq)
  qed
qed

lemma find_spec: "rep h l xs \<Longrightarrow> dl_find P h l = Ok (find (\<lambda>a. P (payload (the (h a)))) xs)"
  unfolding dl_find_def using find_loop [of h l "[]" xs P] rep_head [of h l xs]
  by (simp only: append_Nil option.case obind.simps prod.case)

lemma collect_loop:
  assumes "rep h l (as @ bs)" and "length arr + length bs \<le> cap"
  shows "while_option (\<lambda>r. case r of Ok (el, arr) \<Rightarrow> el \<noteq> None | _ \<Rightarrow> False)
      (\<lambda>r. obind r (\<lambda>(el, arr). obind (node_at h el) (\<lambda>n.
          if length arr < cap then Ok (nnext n, arr @ [f (payload n)]) else Fault)))
      (Ok (head_of bs None, arr)) = Some (Ok (None, arr @ map (\<lambda>a. f (payload (the (h a)))) bs))"
  using assms
proof (induction bs arbitrary: as arr)
  case Nil
  then show ?case by (subst while_option_unfold) simp
next
  case (Cons b bs)
  obtain n where n: "h b = Some n" "nnext n = head_of bs None" using rep_next [OF Cons.prems(1)] by blast
  have "rep h l ((as @ [b]) @ bs)" using Cons.prems by simp
  from Cons.IH [OF this, of "arr @ [f (payload n)]"] Cons.prems(2) n show ?case
    by (subst while_option_unfold) (simp add: node_at_def)
qed

lemma collect_spec:
  "rep h l xs \<Longrightarrow> length xs \<le> cap \<Longrightarrow> dl_collect f cap h l = Ok (map (\<lambda>a. f (payload (the (h a)))) xs)"
  unfolding dl_collect_def using collect_loop [of h l "[]" xs "[]" cap f] rep_head [of h l xs]
  by (simp only: append_Nil option.case obind.simps prod.case list.size add_0)

lemma collect_overflow_loop:
  assumes "rep h l (as @ bs)" and "length arr + length bs > cap" and "length arr \<le> cap"
  shows "while_option (\<lambda>r. case r of Ok (el, arr) \<Rightarrow> el \<noteq> None | _ \<Rightarrow> False)
      (\<lambda>r. obind r (\<lambda>(el, arr). obind (node_at h el) (\<lambda>n.
          if length arr < cap then Ok (nnext n, arr @ [f (payload n)]) else Fault)))
      (Ok (head_of bs None, arr)) = Some Fault"
  using assms
proof (induction bs arbitrary: as arr)
  case Nil
  then show ?case by simp
next
  case (Cons b bs)
  obtain n where n: "h b = Some n" "nnext n = head_of bs None" using rep_next [OF Cons.prems(1)] by blast
  have "rep h l ((as @ [b]) @ bs)" using Cons.prems by simp
  note IH = Cons.IH [OF this, of "arr @ [f (payload n)]"]
  show ?case
  proof (cases "length arr < cap")
    case True
    with n IH Cons.prems(2) show ?thesis by (subst while_option_unfold) (simp add: node_at_def)
  next
    case False
    with n show ?thesis
      by (subst while_option_unfold, simp add: node_at_def, subst while_option_unfold, simp)
  qed
qed

lemma collect_overflow: "rep h l xs \<Longrightarrow> cap < length xs \<Longrightarrow> dl_collect f cap h l = Fault"
  unfolding dl_collect_def using collect_overflow_loop [of h l "[]" xs cap "[]" f] rep_head [of h l xs]
  by (simp only: append_Nil option.case obind.simps prod.case list.size add_0 le0)

end

lemma seg_at: "seg h pv (as @ a # bs) nx \<Longrightarrow> \<exists>n. h a = Some n \<and> nnext n = head_of bs nx"
  by auto

interpretation tailed: dlist_iface "dlist_rep True"
proof unfold_locales
  fix h :: "'x dheap" and l as a bs
  assume "dlist_rep True h l (as @ a # bs)"
  then show "\<exists>n. h a = Some n \<and> nnext n = head_of bs None" by (auto simp: dlist_rep_def dest: seg_at)
next
  fix h :: "'x dheap" and l xs a
  assume "dlist_rep True h l xs" "a \<in> set xs"
  from DLIST_REMOVE_rep [OF this] show "\<exists>h' l'. DLIST_REMOVE h l (Some a) = Ok (h', l') \<and>
    dlist_rep True h' l' (remove1 a xs) \<and> same_payload h h'" by blast
next
  fix h :: "'x dheap" and l xs a
  assume "dlist_rep True h l xs" "xs \<noteq> []" "a \<notin> set xs" "h a \<noteq> None"
  with DLIST_ADD_rep [of True h l xs a] show "\<exists>h'. DLIST_ADD h l (Some a) = Ok (h', Some a) \<and>
    dlist_rep True h' (Some a) (a # xs) \<and> same_payload h h'" by blast
qed (auto simp: dlist_rep_def)

interpretation plain: dlist_iface "dlist_rep False"
proof unfold_locales
  fix h :: "'x dheap" and l as a bs
  assume "dlist_rep False h l (as @ a # bs)"
  then show "\<exists>n. h a = Some n \<and> nnext n = head_of bs None" by (auto simp: dlist_rep_def dest: seg_at)
next
  fix h :: "'x dheap" and l xs a
  assume "dlist_rep False h l xs" "a \<in> set xs"
  from DLIST_REMOVE_rep [OF this] show "\<exists>h' l'. DLIST_REMOVE h l (Some a) = Ok (h', l') \<and>
    dlist_rep False h' l' (remove1 a xs) \<and> same_payload h h'" by blast
next
  fix h :: "'x dheap" and l xs a
  assume "dlist_rep False h l xs" "xs \<noteq> []" "a \<notin> set xs" "h a \<noteq> None"
  with DLIST_ADD_rep [of False h l xs a] show "\<exists>h'. DLIST_ADD h l (Some a) = Ok (h', Some a) \<and>
    dlist_rep False h' (Some a) (a # xs) \<and> same_payload h h'" by blast
qed (auto simp: dlist_rep_def)

section \<open>Properties\<close>

text \<open>The two-element list used below.\<close>

definition two_nodes :: "unit dheap" where
  "two_nodes = [1 \<mapsto> \<lparr>nprev = Some 2, nnext = Some 2, payload = ()\<rparr>, 2 \<mapsto> \<lparr>nprev = Some 1, nnext = None, payload = ()\<rparr>,
     3 \<mapsto> \<lparr>nprev = None, nnext = None, payload = ()\<rparr>]"

lemma two_nodes_rep: "dlist_rep True two_nodes (Some 1) [1, 2]"
  by (simp add: dlist_rep_def two_nodes_def)

text \<open>C21 Removing a member of a list made with the macros removes exactly this node, whatever its
  position, keeps the order of the others and the pointer from the head to the last node, clears the
  removed node's pointers and touches nothing outside the list.\<close>

theorem DLIST_REMOVE_refines:
  assumes "dlist_rep True h l xs" and "a \<in> set xs"
  shows "\<exists>h' l'. DLIST_REMOVE h l (Some a) = Ok (h', l') \<and> dlist_rep True h' l' (remove1 a xs) \<and>
    unlinked h' a \<and> (\<forall>c. c \<notin> set xs \<longrightarrow> h' c = h c) \<and> same_payload h h'"
  by (rule DLIST_REMOVE_rep [OF assms])

theorem DLIST_REMOVE_refines_witness:
  "\<exists>h' l'. DLIST_REMOVE two_nodes (Some 1) (Some 2) = Ok (h', l') \<and> dlist_rep True h' l' [1]"
  using DLIST_REMOVE_refines [OF two_nodes_rep, of 2] by auto

text \<open>Adding: in front, after an element and at the end, on a list made with the macros, the
  empty list included; the last is done without walking the list.\<close>

theorem DLIST_add_refines:
  assumes "dlist_rep True h l (as @ bs)" and "a \<notin> set (as @ bs)" and "h a \<noteq> None"
  shows "(\<exists>h'. DLIST_ADD h l (Some a) = Ok (h', Some a) \<and> dlist_rep True h' (Some a) (a # as @ bs)) \<and>
    (\<exists>h' l'. DLIST_ADD_AFTER h l (Some a) (if as = [] then None else Some (last as)) = Ok (h', l') \<and>
       dlist_rep True h' l' (as @ a # bs)) \<and>
    (\<exists>h' l'. DLIST_ADD_END h l (Some a) = Ok (h', l') \<and> dlist_rep True h' l' (as @ bs @ [a]))"
proof -
  have add: "\<exists>h'. DLIST_ADD h l (Some a) = Ok (h', Some a) \<and> dlist_rep True h' (Some a) (a # as @ bs)"
    using DLIST_ADD_rep [OF assms] by blast
  have "\<exists>h' l'. DLIST_ADD_AFTER h l (Some a) (if as = [] then None else Some (last as)) = Ok (h', l') \<and>
       dlist_rep True h' l' (as @ a # bs)"
  proof (cases as rule: rev_cases)
    case Nil
    with add show ?thesis by (auto simp: DLIST_ADD_AFTER_def)
  next
    case (snoc cs e)
    with DLIST_ADD_AFTER_rep [of True h l cs e bs a] assms show ?thesis by auto
  qed
  with add DLIST_ADD_END_rep [OF assms] show ?thesis by auto
qed

theorem DLIST_add_refines_witness:
  "\<exists>h' l'. DLIST_ADD_AFTER two_nodes (Some 1) (Some 3) (Some 1) = Ok (h', l') \<and> dlist_rep True h' l' [1, 3, 2]"
proof -
  have "dlist_rep True two_nodes (Some 1) ([1] @ [2])" "two_nodes 3 \<noteq> None"
    using two_nodes_rep by (simp_all add: two_nodes_def)
  from DLIST_add_refines [OF this(1) _ this(2)] show ?thesis by simp
qed

text \<open>The walk of \<open>DLIST_HEAD\<close> ends at the head from every member of the list, because the last
  node's \<^verbatim>\<open>next\<close> is \<^verbatim>\<open>NULL\<close> and nothing else's is.\<close>

theorem DLIST_HEAD_total:
  assumes "dlist_rep True h l xs" and "a \<in> set xs"
  shows "DLIST_HEAD h (Some a) = Ok l"
  by (rule DLIST_HEAD_rep [OF assms])

theorem DLIST_HEAD_total_witness: "DLIST_HEAD two_nodes (Some 2) = Ok (Some 1)"
  using DLIST_HEAD_total [OF two_nodes_rep, of 2] by simp

text \<open>Unlinking a range of an idset that has others loses the pointer from the head to the last
  node: the macro has already cleared the pointers of the removed node when the code copies its
  \<^verbatim>\<open>prev\<close> into the head. A later \<open>DLIST_ADD_END\<close> on this list adds in front.\<close>

theorem IDSET_unlink_loses_tail:
  assumes "dlist_rep True h l xs" and "a \<in> set xs" and "remove1 a xs \<noteq> []"
  shows "\<exists>h' l'. IDSET_unlink_range h l (Some a) = Ok (h', l') \<and> dlist_rep False h' l' (remove1 a xs) \<and>
    (\<exists>h''. DLIST_ADD_END h' l' (Some a) = Ok (h'', Some a) \<and> dlist_rep False h'' (Some a) (a # remove1 a xs))"
proof -
  let ?ys = "remove1 a xs"
  obtain h1 l1 where r: "DLIST_REMOVE h l (Some a) = Ok (h1, l1)" "dlist_rep True h1 l1 ?ys" "unlinked h1 a"
    using DLIST_REMOVE_rep [OF assms(1,2)] by blast
  have na: "a \<notin> set ?ys" using assms(1) by (simp add: dlist_rep_def)
  obtain y ys where y: "?ys = y # ys" using assms(3) by (cases ?ys) auto
  obtain v where hy: "l1 = Some y" "h1 y = Some \<lparr>nprev = Some (last (y # ys)), nnext = head_of ys None, payload = v\<rparr>"
    using r(2) unfolding y by (auto simp: dlist_rep_def)
  obtain n where n: "h1 a = Some n" "nprev n = None" "nnext n = None" using r(3) by (auto simp: unlinked_def)
  let ?h2 = "h1(y \<mapsto> \<lparr>nprev = None, nnext = head_of ys None, payload = v\<rparr>)"
  have u: "IDSET_unlink_range h l (Some a) = Ok (?h2, Some y)"
    using r(1) hy n by (simp add: IDSET_unlink_range_def ptr_defs)
  have f: "dlist_rep False ?h2 (Some y) ?ys" using r(2) unfolding y by (auto simp: dlist_rep_def)
  have "DLIST_ADD_END ?h2 (Some y) (Some a) = DLIST_ADD ?h2 (Some y) (Some a)"
    by (simp add: DLIST_ADD_END_def DLIST_ADD_AFTER_def ptr_defs)
  moreover have "?h2 a \<noteq> None" using n na by simp
  ultimately show ?thesis using u f DLIST_ADD_rep [OF f na] assms(3) by auto
qed

theorem IDSET_unlink_loses_tail_witness:
  "\<exists>h' l'. IDSET_unlink_range two_nodes (Some 1) (Some 2) = Ok (h', l') \<and> dlist_rep False h' l' [1]"
  using IDSET_unlink_loses_tail [OF two_nodes_rep, of 2] by auto

end
