(* ===== verification/Mapi_Id_Array.thy ===== *)
theory Mapi_Id_Array
  imports Dlinklist
begin

text \<open>
  Arrays of folder identifiers, \<^verbatim>\<open>src/libmapi/mapi_id_array.c\<close>, over the pointer model of
  \<^verbatim>\<open>src/utils/dlinklist.h\<close>. The first node is allocated by \<open>mapi_id_array_init\<close> without the list
  macros, so the list is not \<open>tailed\<close>: the lemmas come from the interpretation \<open>plain\<close>. Its
  operations are shown to be those of a list of identifiers.
\<close>

section \<open>State\<close>

text \<open>A node carries its identifier and its talloc parent. Addresses are handed out in order:
  \<open>fresh\<close> is the next one. A pointer argument that may be \<^verbatim>\<open>NULL\<close> is an option.\<close>

record container =
  cid :: u64
  cparent :: "nat option"

record mapi_id_array =
  id_count :: u16
  lpContainerList :: "nat option"
  cheap :: "container dheap"
  fresh :: nat

definition talloc_zero_container :: "mapi_id_array \<Rightarrow> nat option \<Rightarrow> mapi_id_array \<times> nat" where
  "talloc_zero_container s ctx =
     (s\<lparr>cheap := (cheap s)(fresh s \<mapsto> \<lparr>nprev = None, nnext = None, payload = \<lparr>cid = 0, cparent = ctx\<rparr>\<rparr>),
        fresh := Suc (fresh s)\<rparr>, fresh s)"

text \<open>\<open>talloc_free\<close> releases a chunk with its descendants; a parent is older than its children.\<close>

fun descends :: "nat \<Rightarrow> container dheap \<Rightarrow> nat \<Rightarrow> nat \<Rightarrow> bool" where
  "descends 0 h root a = (a = root)"
| "descends (Suc n) h root a =
     (a = root \<or> (case h a of None \<Rightarrow> False
        | Some nd \<Rightarrow> (case cparent (payload nd) of None \<Rightarrow> False | Some p \<Rightarrow> descends n h root p)))"

definition talloc_free_container :: "container dheap \<Rightarrow> nat \<Rightarrow> container dheap" where
  "talloc_free_container h root = (\<lambda>a. if descends (Suc a) h root a then None else h a)"

section \<open>Operations\<close>

type_synonym 'a call = "(MAPISTATUS \<times> 'a) outcome"

definition mapi_id_array_init :: "bool \<Rightarrow> mapi_id_array option \<Rightarrow> mapi_id_array option call" where
  "mapi_id_array_init mem_ctx arr =
     (if \<not> mem_ctx then Ok (MAPI_E_NOT_INITIALIZED, arr)
      else case arr of
        None \<Rightarrow> Ok (MAPI_E_INVALID_PARAMETER, None)
      | Some s \<Rightarrow>
          (let (s1, a) = talloc_zero_container (s\<lparr>id_count := 0\<rparr>) None in
           Ok (MAPI_E_SUCCESS, Some (s1\<lparr>lpContainerList := Some a\<rparr>))))"

definition mapi_id_array_release :: "mapi_id_array option \<Rightarrow> mapi_id_array option call" where
  "mapi_id_array_release arr =
     (case arr of
        None \<Rightarrow> Ok (MAPI_E_INVALID_PARAMETER, None)
      | Some s \<Rightarrow>
          (case lpContainerList s of
             None \<Rightarrow> Ok (MAPI_E_INVALID_PARAMETER, Some s)
           | Some a \<Rightarrow> Ok (MAPI_E_SUCCESS,
               Some (s\<lparr>id_count := 0, cheap := talloc_free_container (cheap s) a\<rparr>))))"

text \<open>The array has \<open>count + 1\<close> elements; the identifiers written are returned.\<close>

definition mapi_id_array_get :: "mapi_id_array option \<Rightarrow> bool \<Rightarrow> u64 list option call" where
  "mapi_id_array_get arr ContainerList =
     (case arr of
        None \<Rightarrow> Ok (MAPI_E_INVALID_PARAMETER, None)
      | Some s \<Rightarrow>
          (if lpContainerList s = None then Ok (MAPI_E_INVALID_PARAMETER, None)
           else if \<not> ContainerList then Ok (MAPI_E_INVALID_PARAMETER, None)
           else obind (dl_collect cid (unat (id_count s) + 1) (cheap s) (lpContainerList s))
                  (\<lambda>xs. Ok (MAPI_E_SUCCESS, Some xs))))"

text \<open>The common part of the two functions that add: allocate under the head, set, link, count.\<close>

definition id_array_push :: "mapi_id_array \<Rightarrow> u64 \<Rightarrow> mapi_id_array option call" where
  "id_array_push s fid =
     (let (s1, a) = talloc_zero_container s (lpContainerList s) in
      obind (node_at (cheap s1) (Some a)) (\<lambda>n.
      obind (DLIST_ADD ((cheap s1)(a \<mapsto> n\<lparr>payload := (payload n)\<lparr>cid := fid\<rparr>\<rparr>)) (lpContainerList s1) (Some a))
        (\<lambda>(h, l). Ok (MAPI_E_SUCCESS,
           Some (s1\<lparr>cheap := h, lpContainerList := l, id_count := id_count s1 + 1\<rparr>)))))"

definition mapi_id_array_add_obj :: "mapi_id_array option \<Rightarrow> u64 option \<Rightarrow> mapi_id_array option call" where
  "mapi_id_array_add_obj arr obj =
     (case arr of
        None \<Rightarrow> Ok (MAPI_E_INVALID_PARAMETER, None)
      | Some s \<Rightarrow>
          (if lpContainerList s = None then Ok (MAPI_E_INVALID_PARAMETER, Some s)
           else case obj of
             None \<Rightarrow> Ok (MAPI_E_INVALID_PARAMETER, Some s)
           | Some oid \<Rightarrow> id_array_push s oid))"

definition mapi_id_array_add_id :: "mapi_id_array option \<Rightarrow> u64 \<Rightarrow> mapi_id_array option call" where
  "mapi_id_array_add_id arr fid =
     (case arr of
        None \<Rightarrow> Ok (MAPI_E_INVALID_PARAMETER, None)
      | Some s \<Rightarrow>
          (if lpContainerList s = None then Ok (MAPI_E_NOT_INITIALIZED, Some s)
           else if fid = 0 then Ok (MAPI_E_INVALID_PARAMETER, Some s)
           else id_array_push s fid))"

definition id_array_drop :: "mapi_id_array \<Rightarrow> u64 \<Rightarrow> mapi_id_array option call" where
  "id_array_drop s fid =
     obind (dl_find (\<lambda>c. cid c = fid) (cheap s) (lpContainerList s)) (\<lambda>el.
     if el = None then Ok (MAPI_E_NOT_FOUND, Some s)
     else obind (DLIST_REMOVE (cheap s) (lpContainerList s) el) (\<lambda>(h, l).
       Ok (MAPI_E_SUCCESS, Some (s\<lparr>cheap := h, lpContainerList := l\<rparr>))))"

definition mapi_id_array_del_id :: "mapi_id_array option \<Rightarrow> u64 \<Rightarrow> mapi_id_array option call" where
  "mapi_id_array_del_id arr fid =
     (case arr of
        None \<Rightarrow> Ok (MAPI_E_INVALID_PARAMETER, None)
      | Some s \<Rightarrow>
          (if id_count s = 0 then Ok (MAPI_E_NOT_INITIALIZED, Some s)
           else if lpContainerList s = None then Ok (MAPI_E_NOT_INITIALIZED, Some s)
           else id_array_drop s fid))"

definition mapi_id_array_del_obj :: "mapi_id_array option \<Rightarrow> u64 option \<Rightarrow> mapi_id_array option call" where
  "mapi_id_array_del_obj arr obj =
     (case (arr, obj) of
        (None, _) \<Rightarrow> Ok (MAPI_E_INVALID_PARAMETER, None)
      | (Some s, None) \<Rightarrow> Ok (MAPI_E_INVALID_PARAMETER, Some s)
      | (Some s, Some oid) \<Rightarrow>
          (if id_count s = 0 then Ok (MAPI_E_NOT_INITIALIZED, Some s)
           else if lpContainerList s = None then Ok (MAPI_E_NOT_INITIALIZED, Some s)
           else if oid = 0 then Ok (MAPI_E_NOT_INITIALIZED, Some s)
           else id_array_drop s oid))"

section \<open>Abstraction\<close>

text \<open>The array stands for the identifiers in list order; the last one, 0, is the node of
  \<open>mapi_id_array_init\<close>.\<close>

definition node_cid :: "mapi_id_array \<Rightarrow> nat \<Rightarrow> u64" where
  "node_cid s a = cid (payload (the (cheap s a)))"

definition holds :: "mapi_id_array \<Rightarrow> nat list \<Rightarrow> u64 list \<Rightarrow> bool" where
  "holds s xs ids \<longleftrightarrow> dlist_rep False (cheap s) (lpContainerList s) xs \<and> ids = map (node_cid s) xs \<and>
     (\<forall>a. cheap s a \<noteq> None \<longrightarrow> a < fresh s)"

lemma same_payload_the: "same_payload h h' \<Longrightarrow> h a \<noteq> None \<Longrightarrow> payload (the (h' a)) = payload (the (h a))"
  by (cases "h a"; cases "h' a") (auto simp: same_payload_def dest!: spec [of _ a])

lemma same_payload_dom: "same_payload h h' \<Longrightarrow> h' a \<noteq> None \<longleftrightarrow> h a \<noteq> None"
  by (cases "h a"; cases "h' a") (auto simp: same_payload_def dest!: spec [of _ a])

lemma find_split:
  "find P xs = Some a \<Longrightarrow> \<exists>as bs. xs = as @ a # bs \<and> P a \<and> (\<forall>b \<in> set as. \<not> P b)"
proof (induction xs)
  case Nil
  then show ?case by simp
next
  case (Cons x xs)
  show ?case
  proof (cases "P x")
    case True
    with Cons.prems show ?thesis by (intro exI [of _ "[]"] exI [of _ xs]) simp
  next
    case False
    with Cons obtain as bs where "xs = as @ a # bs" "P a" "\<forall>b \<in> set as. \<not> P b" by auto
    with False show ?thesis by (intro exI [of _ "x # as"] exI [of _ bs]) simp
  qed
qed

lemma push_holds:
  assumes "holds s xs ids" and "xs \<noteq> []"
  shows "\<exists>s'. id_array_push s fid = Ok (MAPI_E_SUCCESS, Some s') \<and> holds s' (fresh s # xs) (fid # ids) \<and>
    id_count s' = id_count s + 1 \<and> fresh s < fresh s' \<and> lpContainerList s' = Some (fresh s) \<and>
    (\<forall>a < fresh s. map_option payload (cheap s' a) = map_option payload (cheap s a))"
proof -
  let ?a = "fresh s"
  let ?n = "\<lparr>nprev = None, nnext = None, payload = \<lparr>cid = fid, cparent = lpContainerList s\<rparr>\<rparr>"
  let ?h = "(cheap s)(?a \<mapsto> ?n)"
  have rep: "dlist_rep False (cheap s) (lpContainerList s) xs" and lt: "\<forall>a. cheap s a \<noteq> None \<longrightarrow> a < fresh s"
    and ids: "ids = map (node_cid s) xs" using assms(1) by (simp_all add: holds_def)
  have na: "?a \<notin> set xs" using plain.rep_allocated [OF rep, of ?a] lt by blast
  have "dlist_rep False ?h (lpContainerList s) xs" using rep na by (simp add: dlist_rep_def)
  then obtain h' where h': "DLIST_ADD ?h (lpContainerList s) (Some ?a) = Ok (h', Some ?a)"
    "dlist_rep False h' (Some ?a) (?a # xs)" "same_payload ?h h'"
    using plain.rep_add [of ?h "lpContainerList s" xs ?a] assms(2) na by auto
  let ?s = "s\<lparr>cheap := h', fresh := Suc ?a, lpContainerList := Some ?a, id_count := id_count s + 1\<rparr>"
  have "id_array_push s fid = Ok (MAPI_E_SUCCESS, Some ?s)"
    using h'(1) by (simp add: id_array_push_def talloc_zero_container_def node_at_def)
  moreover have "node_cid ?s ?a = fid"
    using same_payload_the [OF h'(3), of ?a] by (simp add: node_cid_def)
  moreover have "node_cid ?s b = node_cid s b" if "b \<in> set xs" for b
  proof -
    have "b \<noteq> ?a" "?h b \<noteq> None" using that na plain.rep_allocated [OF rep that] by auto
    then show ?thesis using same_payload_the [OF h'(3), of b] by (simp add: node_cid_def)
  qed
  moreover have "\<forall>b. h' b \<noteq> None \<longrightarrow> b < Suc ?a"
    using same_payload_dom [OF h'(3)] lt by (auto simp: less_Suc_eq)
  moreover have "\<forall>b < ?a. map_option payload (h' b) = map_option payload (cheap s b)"
    using h'(3) by (simp add: same_payload_def)
  ultimately show ?thesis using h'(2) ids by (auto simp: holds_def)
qed

lemma drop_holds:
  assumes "holds s xs ids"
  shows "if fid \<in> set ids
    then \<exists>s' xs'. id_array_drop s fid = Ok (MAPI_E_SUCCESS, Some s') \<and> holds s' xs' (remove1 fid ids) \<and>
      id_count s' = id_count s
    else id_array_drop s fid = Ok (MAPI_E_NOT_FOUND, Some s)"
proof -
  have rep: "dlist_rep False (cheap s) (lpContainerList s) xs" and lt: "\<forall>a. cheap s a \<noteq> None \<longrightarrow> a < fresh s"
    and ids: "ids = map (node_cid s) xs" using assms by (simp_all add: holds_def)
  have f: "dl_find (\<lambda>c. cid c = fid) (cheap s) (lpContainerList s) = Ok (find (\<lambda>a. node_cid s a = fid) xs)"
    using plain.find_spec [OF rep] by (simp add: node_cid_def)
  show ?thesis
  proof (cases "find (\<lambda>a. node_cid s a = fid) xs")
    case None
    then have "fid \<notin> set ids" by (auto simp: ids find_None_iff)
    with f None show ?thesis by (simp add: id_array_drop_def)
  next
    case (Some a)
    then obtain as bs where ab: "xs = as @ a # bs" "node_cid s a = fid" "\<forall>b \<in> set as. node_cid s b \<noteq> fid"
      using find_split by fastforce
    have a: "a \<in> set xs" using ab(1) by simp
    have d: "distinct xs" using rep by (simp add: dlist_rep_def)
    obtain h' l' where h': "DLIST_REMOVE (cheap s) (lpContainerList s) (Some a) = Ok (h', l')"
      "dlist_rep False h' l' (remove1 a xs)" "same_payload (cheap s) h'"
      using plain.rep_remove [OF rep a] by blast
    let ?s = "s\<lparr>cheap := h', lpContainerList := l'\<rparr>"
    have r: "remove1 a xs = as @ bs" using ab(1) d by (simp add: remove1_append)
    have "fid \<notin> set (map (node_cid s) as)" using ab(3) by auto
    then have "remove1 fid ids = map (node_cid s) (as @ bs)"
      using ab(1,2) by (simp only: ids map_append list.map remove1_append) simp
    moreover have "node_cid ?s b = node_cid s b" if "b \<in> set (as @ bs)" for b
      using that plain.rep_allocated [OF rep, of b] same_payload_the [OF h'(3), of b] by (auto simp: ab(1) node_cid_def)
    ultimately have "holds ?s (as @ bs) (remove1 fid ids)"
      using h'(2) same_payload_dom [OF h'(3)] lt by (auto simp: holds_def r)
    moreover have "fid \<in> set ids" using ab by (simp add: ids)
    moreover have "id_array_drop s fid = Ok (MAPI_E_SUCCESS, Some ?s)"
      using f Some h'(1) by (simp add: id_array_drop_def)
    ultimately show ?thesis by auto
  qed
qed

lemma get_holds:
  assumes "holds s xs ids" and "xs \<noteq> []"
  shows "mapi_id_array_get (Some s) True =
    (if length ids \<le> unat (id_count s) + 1 then Ok (MAPI_E_SUCCESS, Some ids) else Fault)"
proof -
  have rep: "dlist_rep False (cheap s) (lpContainerList s) xs" and ids: "ids = map (node_cid s) xs"
    using assms(1) by (simp_all add: holds_def)
  have "lpContainerList s \<noteq> None" using plain.rep_head [OF rep] assms(2) by (simp add: head_of_def)
  then show ?thesis
    using plain.collect_spec [OF rep, of "unat (id_count s) + 1" cid]
      plain.collect_overflow [OF rep, of "unat (id_count s) + 1" cid]
    by (auto simp: mapi_id_array_get_def ids node_cid_def)
qed

section \<open>Sequences of calls\<close>

datatype id_op = AddId u64 | DelId u64

fun id_op_call :: "id_op \<Rightarrow> mapi_id_array option \<Rightarrow> mapi_id_array option call" where
  "id_op_call (AddId x) arr = mapi_id_array_add_id arr x"
| "id_op_call (DelId x) arr = mapi_id_array_del_id arr x"

fun id_ops_run :: "id_op list \<Rightarrow> mapi_id_array option \<Rightarrow> mapi_id_array option outcome" where
  "id_ops_run [] arr = Ok arr"
| "id_ops_run (c # cs) arr = obind (id_op_call c arr) (\<lambda>(st, arr'). id_ops_run cs arr')"

text \<open>The specification: a list of identifiers, newest first.\<close>

fun id_op_spec :: "id_op \<Rightarrow> u64 list \<Rightarrow> u64 list" where
  "id_op_spec (AddId x) ids = x # ids"
| "id_op_spec (DelId x) ids = remove1 x ids"

fun op_arg :: "id_op \<Rightarrow> u64" where
  "op_arg (AddId x) = x"
| "op_arg (DelId x) = x"

fun is_add :: "id_op \<Rightarrow> bool" where
  "is_add (AddId x) = True"
| "is_add (DelId x) = False"

definition id_inv :: "mapi_id_array \<Rightarrow> nat \<Rightarrow> u64 list \<Rightarrow> bool" where
  "id_inv s n ids \<longleftrightarrow> (\<exists>xs. holds s xs ids) \<and> 0 \<in> set ids \<and> id_count s = of_nat n \<and>
     length ids \<le> n + 1 \<and> n < 65536"

lemma id_inv_nonempty: "holds s xs ids \<Longrightarrow> ids \<noteq> [] \<Longrightarrow> xs \<noteq> [] \<and> lpContainerList s \<noteq> None"
  by (auto simp: holds_def dlist_rep_def head_of_def)

lemma id_op_step:
  assumes "id_inv s n ids" and "op_arg c \<noteq> 0" and "is_add c \<Longrightarrow> n + 1 < 65536"
  shows "\<exists>st s'. id_op_call c (Some s) = Ok (st, Some s') \<and>
    id_inv s' (if is_add c then n + 1 else n) (id_op_spec c ids)"
proof -
  obtain xs where h: "holds s xs ids" using assms(1) by (auto simp: id_inv_def)
  have z: "0 \<in> set ids" and cnt: "id_count s = of_nat n" and n: "length ids \<le> n + 1" "n < 65536"
    using assms(1) by (simp_all add: id_inv_def)
  have "ids \<noteq> []" using z by auto
  then have ne: "xs \<noteq> []" "lpContainerList s \<noteq> None" using id_inv_nonempty [OF h] by auto
  show ?thesis
  proof (cases c)
    case (AddId x)
    from push_holds [OF h ne(1), of x] obtain s' where
      s': "id_array_push s x = Ok (MAPI_E_SUCCESS, Some s')" "holds s' (fresh s # xs) (x # ids)"
      "id_count s' = id_count s + 1" by blast
    with AddId assms(2,3) ne z cnt n show ?thesis
      by (auto simp: mapi_id_array_add_id_def id_inv_def)
  next
    case (DelId x)
    have x: "x \<noteq> 0" using assms(2) DelId by simp
    have z': "0 \<in> set (remove1 x ids)" using z x by simp
    have len: "length (remove1 x ids) \<le> n + 1" using n(1) length_remove1 [of x ids] by (auto split: if_splits)
    show ?thesis
    proof (cases "id_count s = 0")
      case True
      have "unat (id_count s) = n" using n(2) by (simp add: cnt unat_of_nat)
      with True have "n = 0" by simp
      then have "length ids \<le> 1" using n(1) by simp
      with z have "ids = [0]" by (cases ids) (auto simp: le_Suc_eq)
      with True DelId x assms(1) show ?thesis by (simp add: mapi_id_array_del_id_def)
    next
      case False
      then have "mapi_id_array_del_id (Some s) x = id_array_drop s x" using ne by (auto simp: mapi_id_array_del_id_def)
      with drop_holds [OF h, of x] DelId z' len cnt n(2) h show ?thesis
        by (cases "x \<in> set ids") (auto simp: id_inv_def remove1_idem)
    qed
  qed
qed

lemma id_ops_inv:
  assumes "id_inv s n ids" and "\<forall>c \<in> set cs. op_arg c \<noteq> 0" and "n + length (filter is_add cs) < 65536"
  shows "\<exists>s'. id_ops_run cs (Some s) = Ok (Some s') \<and>
    id_inv s' (n + length (filter is_add cs)) (fold id_op_spec cs ids)"
  using assms
proof (induction cs arbitrary: s n ids)
  case Nil
  then show ?case by simp
next
  case (Cons c cs)
  obtain st s' where s': "id_op_call c (Some s) = Ok (st, Some s')"
    "id_inv s' (if is_add c then n + 1 else n) (id_op_spec c ids)"
    using id_op_step [OF Cons.prems(1), of c] Cons.prems(2,3) by (auto split: if_splits)
  from Cons.IH [OF s'(2)] Cons.prems(2,3) s'(1) show ?case by (auto split: if_splits)
qed

lemma init_inv:
  assumes "\<forall>a. cheap s a \<noteq> None \<longrightarrow> a < fresh s"
  shows "\<exists>s'. mapi_id_array_init True (Some s) = Ok (MAPI_E_SUCCESS, Some s') \<and> id_inv s' 0 [0] \<and>
    holds s' [fresh s] [0]"
proof -
  obtain s' where s': "mapi_id_array_init True (Some s) = Ok (MAPI_E_SUCCESS, Some s')"
    "holds s' [fresh s] [0]" "id_count s' = 0"
    using assms
    by (simp add: mapi_id_array_init_def talloc_zero_container_def holds_def dlist_rep_def node_cid_def less_Suc_eq)
  then show ?thesis by (auto simp: id_inv_def)
qed

lemma release_keeps_root:
  assumes "lpContainerList s = Some b" and "b \<noteq> z" and "cheap s z = Some n" and "cparent (payload n) = None"
  shows "\<exists>s'. mapi_id_array_release (Some s) = Ok (MAPI_E_SUCCESS, Some s') \<and> cheap s' z \<noteq> None"
  using assms by (simp add: mapi_id_array_release_def talloc_free_container_def)

lemma adds_keep_root:
  assumes "id_inv s n ids" and "\<forall>c \<in> set cs. is_add c \<and> op_arg c \<noteq> 0" and "n + length cs < 65536"
    and "z < fresh s" and "map_option (cparent \<circ> payload) (cheap s z) = Some None" and "cs \<noteq> []"
  shows "\<exists>s' b. id_ops_run cs (Some s) = Ok (Some s') \<and> lpContainerList s' = Some b \<and> b \<noteq> z \<and>
    map_option (cparent \<circ> payload) (cheap s' z) = Some None"
  using assms
proof (induction cs arbitrary: s n ids)
  case Nil
  then show ?case by simp
next
  case (Cons c cs)
  obtain x where c: "c = AddId x" "x \<noteq> 0" using Cons.prems(2) by (cases c) auto
  obtain xs where h: "holds s xs ids" and "0 \<in> set ids" using Cons.prems(1) by (auto simp: id_inv_def)
  then have "ids \<noteq> []" by auto
  then have ne: "xs \<noteq> []" "lpContainerList s \<noteq> None" using id_inv_nonempty [OF h] by auto
  obtain s1 where s1: "id_array_push s x = Ok (MAPI_E_SUCCESS, Some s1)" "fresh s < fresh s1"
    "lpContainerList s1 = Some (fresh s)"
    "\<forall>a < fresh s. map_option payload (cheap s1 a) = map_option payload (cheap s a)"
    using push_holds [OF h ne(1), of x] by blast
  have call: "id_op_call c (Some s) = Ok (MAPI_E_SUCCESS, Some s1)"
    using c ne s1(1) by (auto simp: mapi_id_array_add_id_def)
  have inv: "id_inv s1 (n + 1) (x # ids)"
    using id_op_step [OF Cons.prems(1), of c] call c Cons.prems(3) by simp
  have root: "map_option (cparent \<circ> payload) (cheap s1 z) = Some None"
    using s1(4) Cons.prems(4,5) by (metis option.map_comp)
  show ?case
  proof (cases "cs = []")
    case True
    with call s1(3) root Cons.prems(4) show ?thesis by simp
  next
    case False
    with Cons.IH [OF inv] Cons.prems(2-4) s1(2) root call show ?thesis by auto
  qed
qed

section \<open>Properties\<close>

text \<open>C17 For every sequence of calls that add and delete non-null identifiers, with fewer than 65536
  additions, the array behaves as a list: \<open>mapi_id_array_get\<close> succeeds and returns the identifiers
  newest first, followed by the identifier 0 of the node \<open>mapi_id_array_init\<close> made.\<close>

theorem mapi_id_array_refines:
  assumes "\<forall>a. cheap s a \<noteq> None \<longrightarrow> a < fresh s" and "\<forall>c \<in> set cs. op_arg c \<noteq> 0"
    and "length (filter is_add cs) < 65536"
  shows "\<exists>s1 s2. mapi_id_array_init True (Some s) = Ok (MAPI_E_SUCCESS, Some s1) \<and>
    id_ops_run cs (Some s1) = Ok (Some s2) \<and>
    mapi_id_array_get (Some s2) True = Ok (MAPI_E_SUCCESS, Some (fold id_op_spec cs [0]))"
proof -
  obtain s1 where s1: "mapi_id_array_init True (Some s) = Ok (MAPI_E_SUCCESS, Some s1)" "id_inv s1 0 [0]"
    using init_inv [OF assms(1)] by blast
  obtain s2 where s2: "id_ops_run cs (Some s1) = Ok (Some s2)"
    "id_inv s2 (length (filter is_add cs)) (fold id_op_spec cs [0])"
    using id_ops_inv [OF s1(2) assms(2)] assms(3) by auto
  then obtain xs where h: "holds s2 xs (fold id_op_spec cs [0])" and z: "0 \<in> set (fold id_op_spec cs [0])"
    and len: "length (fold id_op_spec cs [0]) \<le> unat (id_count s2) + 1"
    using assms(3) by (auto simp: id_inv_def unat_of_nat)
  have "xs \<noteq> []" using id_inv_nonempty [OF h] z by (metis empty_iff empty_set)
  with get_holds [OF h] len s1(1) s2(1) show ?thesis by auto
qed

definition empty_arrays :: mapi_id_array where
  "empty_arrays = \<lparr>id_count = 0, lpContainerList = None, cheap = (\<lambda>a. None), fresh = 0\<rparr>"

theorem mapi_id_array_refines_witness:
  "\<exists>s1 s2. mapi_id_array_init True (Some empty_arrays) = Ok (MAPI_E_SUCCESS, Some s1) \<and>
    id_ops_run [AddId 5, AddId 7, DelId 5, DelId 9] (Some s1) = Ok (Some s2) \<and>
    mapi_id_array_get (Some s2) True = Ok (MAPI_E_SUCCESS, Some [7, 0])"
  using mapi_id_array_refines [of empty_arrays "[AddId 5, AddId 7, DelId 5, DelId 9]"]
  by (simp add: empty_arrays_def)

text \<open>The counter has 16 bits: after 65536 additions it is 0 again and \<open>mapi_id_array_get\<close> writes
  65537 identifiers into an array of one element.\<close>

theorem mapi_id_array_get_overflow:
  assumes "\<forall>a. cheap s a \<noteq> None \<longrightarrow> a < fresh s" and "\<forall>c \<in> set cs. op_arg c \<noteq> 0 \<and> is_add c"
    and "length cs = 65535" and "x \<noteq> 0"
  shows "\<exists>s1 s2 s3. mapi_id_array_init True (Some s) = Ok (MAPI_E_SUCCESS, Some s1) \<and>
    id_ops_run cs (Some s1) = Ok (Some s2) \<and>
    mapi_id_array_add_id (Some s2) x = Ok (MAPI_E_SUCCESS, Some s3) \<and>
    mapi_id_array_get (Some s3) True = Fault"
proof -
  obtain s1 where s1: "mapi_id_array_init True (Some s) = Ok (MAPI_E_SUCCESS, Some s1)" "id_inv s1 0 [0]"
    using init_inv [OF assms(1)] by blast
  have all: "filter is_add cs = cs" using assms(2) by (simp add: filter_id_conv)
  let ?ids = "fold id_op_spec cs [0]"
  have len: "length (fold id_op_spec ds ids) = length ds + length ids" if "\<forall>c \<in> set ds. is_add c" for ds ids
    using that
  proof (induction ds arbitrary: ids)
    case (Cons d ds)
    then show ?case by (cases d) auto
  qed simp
  obtain s2 where s2: "id_ops_run cs (Some s1) = Ok (Some s2)" "id_inv s2 65535 ?ids"
    using id_ops_inv [OF s1(2), of cs] assms(2,3) all by auto
  then obtain xs where h: "holds s2 xs ?ids" and z0: "0 \<in> set ?ids" and cnt: "id_count s2 = 65535"
    by (auto simp: id_inv_def)
  have z: "?ids \<noteq> []" using z0 by (metis empty_iff empty_set)
  have ne: "xs \<noteq> []" "lpContainerList s2 \<noteq> None" using id_inv_nonempty [OF h z] by auto
  obtain s3 where s3: "id_array_push s2 x = Ok (MAPI_E_SUCCESS, Some s3)" "holds s3 (fresh s2 # xs) (x # ?ids)"
    "id_count s3 = id_count s2 + 1" using push_holds [OF h ne(1), of x] by blast
  have "id_count s3 = 0" using s3(3) cnt by simp
  moreover have "length ?ids = 65536" using len [of cs "[0]"] assms(2,3) by simp
  ultimately have "mapi_id_array_get (Some s3) True = Fault" using get_holds [OF s3(2)] by simp
  moreover have "mapi_id_array_add_id (Some s2) x = Ok (MAPI_E_SUCCESS, Some s3)"
    using s3(1) ne(2) assms(4) by (auto simp: mapi_id_array_add_id_def)
  ultimately show ?thesis using s1(1) s2(1) by blast
qed

theorem mapi_id_array_get_overflow_witness:
  "\<exists>s1 s2 s3. mapi_id_array_init True (Some empty_arrays) = Ok (MAPI_E_SUCCESS, Some s1) \<and>
    id_ops_run (replicate 65535 (AddId 1)) (Some s1) = Ok (Some s2) \<and>
    mapi_id_array_add_id (Some s2) 2 = Ok (MAPI_E_SUCCESS, Some s3) \<and> mapi_id_array_get (Some s3) True = Fault"
proof -
  define cs where "cs = replicate 65535 (AddId 1)"
  have "op_arg c \<noteq> 0 \<and> is_add c" if "c \<in> set cs" for c
  proof -
    have "c = AddId 1" using that unfolding cs_def by (simp only: in_set_replicate)
    then show ?thesis by simp
  qed
  then have "\<forall>c \<in> set cs. op_arg c \<noteq> 0 \<and> is_add c" by blast
  moreover have "length cs = 65535" unfolding cs_def by (rule length_replicate)
  moreover have "\<forall>a. cheap empty_arrays a \<noteq> None \<longrightarrow> a < fresh empty_arrays" by (simp add: empty_arrays_def)
  ultimately show ?thesis
    using mapi_id_array_get_overflow [of empty_arrays cs 2] unfolding cs_def [symmetric] by simp
qed

text \<open>\<open>mapi_id_array_release\<close> does not release the array: every node is a talloc child of the node
  that was the head when it was added, and only the newest node is freed. The node of
  \<open>mapi_id_array_init\<close> stays allocated whenever something was added.\<close>

theorem mapi_id_array_release_leaks:
  assumes "\<forall>a. cheap s a \<noteq> None \<longrightarrow> a < fresh s" and "\<forall>c \<in> set cs. is_add c \<and> op_arg c \<noteq> 0"
    and "cs \<noteq> []" and "length cs < 65536"
  shows "\<exists>s1 s2 s3. mapi_id_array_init True (Some s) = Ok (MAPI_E_SUCCESS, Some s1) \<and>
    id_ops_run cs (Some s1) = Ok (Some s2) \<and>
    mapi_id_array_release (Some s2) = Ok (MAPI_E_SUCCESS, Some s3) \<and> cheap s3 (fresh s) \<noteq> None"
proof -
  obtain s1 where s1: "mapi_id_array_init True (Some s) = Ok (MAPI_E_SUCCESS, Some s1)" "id_inv s1 0 [0]"
    using init_inv [OF assms(1)] by blast
  have r: "fresh s < fresh s1" "map_option (cparent \<circ> payload) (cheap s1 (fresh s)) = Some None"
    using s1(1) by (auto simp: mapi_id_array_init_def talloc_zero_container_def)
  obtain s2 b where s2: "id_ops_run cs (Some s1) = Ok (Some s2)" "lpContainerList s2 = Some b" "b \<noteq> fresh s"
    "map_option (cparent \<circ> payload) (cheap s2 (fresh s)) = Some None"
    using adds_keep_root [OF s1(2) assms(2) _ r assms(3)] assms(4) by auto
  from s2(4) obtain n where "cheap s2 (fresh s) = Some n" "cparent (payload n) = None" by auto
  from release_keeps_root [OF s2(2,3) this] s1(1) s2(1) show ?thesis by blast
qed

theorem mapi_id_array_release_leaks_witness:
  "\<exists>s1 s2 s3. mapi_id_array_init True (Some empty_arrays) = Ok (MAPI_E_SUCCESS, Some s1) \<and>
    id_ops_run [AddId 5] (Some s1) = Ok (Some s2) \<and>
    mapi_id_array_release (Some s2) = Ok (MAPI_E_SUCCESS, Some s3) \<and> cheap s3 0 \<noteq> None"
  using mapi_id_array_release_leaks [of empty_arrays "[AddId 5]"] by (simp add: empty_arrays_def)

end
