(* ===== verification/Lzfu.thy ===== *)
theory Lzfu
  imports OC_Prelude "HOL-Library.While_Combinator"
begin

unbundle bit_operations_syntax

text \<open>
  Compressed RTF, \<^verbatim>\<open>src/libmapi/lzfu.c\<close>: the decompressor, the compressor and the checksum. A buffer is
  a list of bytes, a read or write outside it is \<open>Fault\<close>. Plain \<^verbatim>\<open>char\<close> is signed, as it is where
  the library is built. Positions in buffers are natural numbers (\<^verbatim>\<open>size_t\<close>, and \<^verbatim>\<open>uint32_t\<close> offsets
  into buffers of less than 4 GiB); the values read from or written to a header have their width.
\<close>

section \<open>Constants\<close>

definition LZFU_COMPRESSED :: u32 where "LZFU_COMPRESSED = 0x75465a4c"

definition LZFU_UNCOMPRESSED :: u32 where "LZFU_UNCOMPRESSED = 0x414c454d"

definition LZFU_INITDICT :: "u8 list" where
  "LZFU_INITDICT =
    [0x7b, 0x5c, 0x72, 0x74, 0x66, 0x31, 0x5c, 0x61, 0x6e, 0x73, 0x69, 0x5c, 0x6d, 0x61, 0x63, 0x5c,
     0x64, 0x65, 0x66, 0x66, 0x30, 0x5c, 0x64, 0x65, 0x66, 0x74, 0x61, 0x62, 0x37, 0x32, 0x30, 0x7b,
     0x5c, 0x66, 0x6f, 0x6e, 0x74, 0x74, 0x62, 0x6c, 0x3b, 0x7d, 0x7b, 0x5c, 0x66, 0x30, 0x5c, 0x66,
     0x6e, 0x69, 0x6c, 0x20, 0x5c, 0x66, 0x72, 0x6f, 0x6d, 0x61, 0x6e, 0x20, 0x5c, 0x66, 0x73, 0x77,
     0x69, 0x73, 0x73, 0x20, 0x5c, 0x66, 0x6d, 0x6f, 0x64, 0x65, 0x72, 0x6e, 0x20, 0x5c, 0x66, 0x73,
     0x63, 0x72, 0x69, 0x70, 0x74, 0x20, 0x5c, 0x66, 0x64, 0x65, 0x63, 0x6f, 0x72, 0x20, 0x4d, 0x53,
     0x20, 0x53, 0x61, 0x6e, 0x73, 0x20, 0x53, 0x65, 0x72, 0x69, 0x66, 0x53, 0x79, 0x6d, 0x62, 0x6f,
     0x6c, 0x41, 0x72, 0x69, 0x61, 0x6c, 0x54, 0x69, 0x6d, 0x65, 0x73, 0x20, 0x4e, 0x65, 0x77, 0x20,
     0x52, 0x6f, 0x6d, 0x61, 0x6e, 0x43, 0x6f, 0x75, 0x72, 0x69, 0x65, 0x72, 0x7b, 0x5c, 0x63, 0x6f,
     0x6c, 0x6f, 0x72, 0x74, 0x62, 0x6c, 0x5c, 0x72, 0x65, 0x64, 0x30, 0x5c, 0x67, 0x72, 0x65, 0x65,
     0x6e, 0x30, 0x5c, 0x62, 0x6c, 0x75, 0x65, 0x30, 0x0d, 0x0a, 0x5c, 0x70, 0x61, 0x72, 0x20, 0x5c,
     0x70, 0x61, 0x72, 0x64, 0x5c, 0x70, 0x6c, 0x61, 0x69, 0x6e, 0x5c, 0x66, 0x30, 0x5c, 0x66, 0x73,
     0x32, 0x30, 0x5c, 0x62, 0x5c, 0x69, 0x5c, 0x75, 0x5c, 0x74, 0x61, 0x62, 0x5c, 0x74, 0x78]"

definition LZFU_INITLENGTH :: nat where "LZFU_INITLENGTH = 207"

definition LZFU_DICTLENGTH :: nat where "LZFU_DICTLENGTH = 0x1000"

definition LZFU_HEADERLENGTH :: nat where "LZFU_HEADERLENGTH = 0x10"

section \<open>Header\<close>

record lzfuheader =
  cbSize :: u32
  cbRawSize :: u32
  dwMagic :: u32
  dwCRC :: u32

definition parse_header :: "u8 list \<Rightarrow> lzfuheader outcome" where
  "parse_header header_data =
     obind (rd_bytes header_data 0 4) (\<lambda>a. obind (rd_bytes header_data 4 4) (\<lambda>b.
     obind (rd_bytes header_data 8 4) (\<lambda>c. obind (rd_bytes header_data 12 4) (\<lambda>d.
     Ok \<lparr>cbSize = le_value a, cbRawSize = le_value b, dwMagic = le_value c, dwCRC = le_value d\<rparr>))))"

definition verify_header :: "u8 list \<Rightarrow> u32 \<Rightarrow> (MAPISTATUS \<times> lzfuheader) outcome" where
  "verify_header header_data in_size =
     obind (parse_header header_data) (\<lambda>header.
     if cbSize header \<noteq> in_size - 4 then Ok (MAPI_E_CORRUPT_DATA, header)
     else if dwMagic header \<noteq> LZFU_COMPRESSED \<and> dwMagic header \<noteq> LZFU_UNCOMPRESSED
     then Ok (MAPI_E_CORRUPT_DATA, header)
     else Ok (MAPI_E_SUCCESS, header))"

section \<open>Decompression\<close>

text \<open>The decompression state and the output, of which \<open>out_pos\<close> is the length.\<close>

record lz_state =
  dict :: "u8 list"
  dict_writeoffset :: nat
  in_pos :: nat
  out_data :: "u8 list"

text \<open>\<open>junk\<close> is what the allocated dictionary holds behind the initial text.\<close>

definition initialise_decompression_state :: "u8 list \<Rightarrow> lz_state" where
  "initialise_decompression_state junk =
     \<lparr>dict = LZFU_INITDICT @ take (LZFU_DICTLENGTH - LZFU_INITLENGTH) junk,
      dict_writeoffset = LZFU_INITLENGTH, in_pos = LZFU_HEADERLENGTH, out_data = []\<rparr>"

definition initialise_output_state :: "u32 \<Rightarrow> u32" where
  "initialise_output_state rawSize = rawSize + of_nat LZFU_HEADERLENGTH + 4"

definition get_next_byte :: "u8 list \<Rightarrow> lz_state \<Rightarrow> (u8 \<times> lz_state) outcome" where
  "get_next_byte cdata s =
     (if in_pos s > length cdata then Ok (0, s)
      else obind (rd cdata (in_pos s)) (\<lambda>b. Ok (b, s\<lparr>in_pos := in_pos s + 1\<rparr>)))"

definition get_next_control :: "u8 list \<Rightarrow> lz_state \<Rightarrow> (u8 \<times> lz_state) outcome" where
  "get_next_control cdata s = get_next_byte cdata s"

definition get_next_literal :: "u8 list \<Rightarrow> lz_state \<Rightarrow> (u8 \<times> lz_state) outcome" where
  "get_next_literal cdata s = get_next_byte cdata s"

record dictionaryref =
  ref_length :: u8
  ref_offset :: u16

definition make_reference :: "u8 \<Rightarrow> u8 \<Rightarrow> dictionaryref" where
  "make_reference highbyte lowbyte =
     \<lparr>ref_length = (lowbyte AND 0x0F) + 2,
      ref_offset = drop_bit 4 ((push_bit 8 (ucast highbyte) + ucast lowbyte) AND 0xFFF0)\<rparr>"

definition get_next_dictionary_reference :: "u8 list \<Rightarrow> lz_state \<Rightarrow> (dictionaryref \<times> lz_state) outcome" where
  "get_next_dictionary_reference cdata s =
     obind (get_next_byte cdata s) (\<lambda>(highbyte, s1).
     obind (get_next_byte cdata s1) (\<lambda>(lowbyte, s2).
     Ok (make_reference highbyte lowbyte, s2)))"

definition append_to_dictionary :: "lz_state \<Rightarrow> u8 \<Rightarrow> lz_state" where
  "append_to_dictionary s c =
     s\<lparr>dict := (dict s)[dict_writeoffset s := c],
       dict_writeoffset := (dict_writeoffset s + 1) mod LZFU_DICTLENGTH\<rparr>"

definition append_to_output :: "u32 \<Rightarrow> lz_state \<Rightarrow> u8 \<Rightarrow> lz_state outcome" where
  "append_to_output out_size s c =
     (if length (out_data s) < unat out_size then Ok (s\<lparr>out_data := out_data s @ [c]\<rparr>) else Fault)"

definition get_latest_literal_in_output :: "lz_state \<Rightarrow> u8" where
  "get_latest_literal_in_output s = (if out_data s = [] then 0 else last (out_data s))"

definition get_dictionary_entry :: "lz_state \<Rightarrow> nat \<Rightarrow> u8 outcome" where
  "get_dictionary_entry s index = rd (dict s) (index mod LZFU_DICTLENGTH)"

definition output_would_overflow :: "u32 \<Rightarrow> lz_state \<Rightarrow> bool" where
  "output_would_overflow out_size s = (length (out_data s) > unat out_size)"

definition input_would_overflow :: "u8 list \<Rightarrow> lz_state \<Rightarrow> bool" where
  "input_would_overflow cdata s = (in_pos s > length cdata)"

text \<open>A statement of the loop either goes on or returns from \<open>uncompress_rtf\<close>: the status and what
  \<^verbatim>\<open>rtf\<close> holds, \<open>None\<close> where its data was freed.\<close>

datatype lz_flow = Continue lz_state | Return MAPISTATUS "u8 list option"

fun copy_reference :: "u32 \<Rightarrow> nat \<Rightarrow> nat \<Rightarrow> nat \<Rightarrow> lz_state \<Rightarrow> lz_flow outcome" where
  "copy_reference out_size offset i 0 s = Ok (Continue s)"
| "copy_reference out_size offset i (Suc n) s =
     (if output_would_overflow out_size s then Ok (Return MAPI_E_CORRUPT_DATA (Some (out_data s)))
      else
        obind (get_dictionary_entry s (offset + i)) (\<lambda>c.
        obind (append_to_output out_size s c) (\<lambda>s1.
        copy_reference out_size offset (Suc i) n (append_to_dictionary s1 c))))"

definition uncompress_item :: "u8 list \<Rightarrow> u32 \<Rightarrow> bool \<Rightarrow> lz_state \<Rightarrow> lz_flow outcome" where
  "uncompress_item cdata out_size is_ref s =
     (if is_ref then
        obind (get_next_dictionary_reference cdata s) (\<lambda>(dictref, s1).
        if unat (ref_offset dictref) = dict_writeoffset s1 then
          (if get_latest_literal_in_output s1 \<noteq> 0
           then obind (append_to_output out_size s1 0) (\<lambda>s2. Ok (Return MAPI_E_SUCCESS (Some (out_data s2))))
           else Ok (Return MAPI_E_SUCCESS (Some (out_data s1))))
        else copy_reference out_size (unat (ref_offset dictref)) 0 (unat (ref_length dictref)) s1)
      else if output_would_overflow out_size s \<or> input_would_overflow cdata s
      then Ok (Return MAPI_E_CORRUPT_DATA None)
      else
        obind (get_next_literal cdata s) (\<lambda>(c, s1).
        obind (append_to_output out_size s1 c) (\<lambda>s2. Ok (Continue (append_to_dictionary s2 c)))))"

text \<open>The \<^verbatim>\<open>for\<close> loop over the bits of a control byte.\<close>

fun uncompress_bits :: "u8 list \<Rightarrow> u32 \<Rightarrow> u8 \<Rightarrow> nat list \<Rightarrow> lz_state \<Rightarrow> lz_flow outcome" where
  "uncompress_bits cdata out_size control [] s = Ok (Continue s)"
| "uncompress_bits cdata out_size control (k # ks) s =
     obind (uncompress_item cdata out_size (control AND push_bit k 1 \<noteq> 0) s) (\<lambda>f.
     case f of
       Return st r \<Rightarrow> Ok (Return st r)
     | Continue s1 \<Rightarrow> uncompress_bits cdata out_size control ks s1)"

lemma get_next_byte_pos: "get_next_byte cdata s = Ok (b, s1) \<Longrightarrow> in_pos s \<le> in_pos s1"
  by (auto simp: get_next_byte_def split: if_splits)

lemma append_to_output_pos: "append_to_output n s c = Ok s1 \<Longrightarrow> in_pos s1 = in_pos s"
  by (auto simp: append_to_output_def split: if_splits)

lemma append_to_dictionary_pos [simp]: "in_pos (append_to_dictionary s c) = in_pos s"
  by (simp add: append_to_dictionary_def)

lemma copy_reference_pos: "copy_reference n off i k s = Ok (Continue s1) \<Longrightarrow> in_pos s1 = in_pos s"
  by (induction n off i k s rule: copy_reference.induct)
    (auto split: if_splits dest: append_to_output_pos)

lemma uncompress_item_pos: "uncompress_item cdata n r s = Ok (Continue s1) \<Longrightarrow> in_pos s \<le> in_pos s1"
  by (fastforce simp: uncompress_item_def get_next_dictionary_reference_def get_next_literal_def split: if_splits
      dest!: get_next_byte_pos copy_reference_pos append_to_output_pos)

lemma uncompress_bits_pos: "uncompress_bits cdata n ctl ks s = Ok (Continue s1) \<Longrightarrow> in_pos s \<le> in_pos s1"
proof (induction ks arbitrary: s)
  case Nil
  then show ?case by simp
next
  case (Cons k ks)
  then obtain f where f: "uncompress_item cdata n (ctl AND push_bit k 1 \<noteq> 0) s = Ok f"
    "(case f of Return st r \<Rightarrow> Ok (Return st r) | Continue s2 \<Rightarrow> uncompress_bits cdata n ctl ks s2) = Ok (Continue s1)"
    by auto
  then obtain s2 where "f = Continue s2" by (cases f) auto
  with f Cons.IH [of s2] uncompress_item_pos [of cdata n _ s s2] show ?case by force
qed

text \<open>The \<^verbatim>\<open>while\<close> loop; every round reads its control byte, so it stops.\<close>

function uncompress_loop :: "u8 list \<Rightarrow> u32 \<Rightarrow> lz_state \<Rightarrow> (MAPISTATUS \<times> u8 list option) outcome" where
  "uncompress_loop cdata out_size s =
     (if in_pos s + 1 < length cdata then
        (case get_next_control cdata s of
           Ok (control, s1) \<Rightarrow>
             (case uncompress_bits cdata out_size control [0..<8] s1 of
                Ok (Continue s2) \<Rightarrow> uncompress_loop cdata out_size s2
              | Ok (Return st r) \<Rightarrow> Ok (st, r)
              | Abort \<Rightarrow> Abort | Fault \<Rightarrow> Fault | Hang \<Rightarrow> Hang)
         | Abort \<Rightarrow> Abort | Fault \<Rightarrow> Fault | Hang \<Rightarrow> Hang)
      else Ok (MAPI_E_SUCCESS, Some (out_data s)))"
  by pat_completeness auto
termination
  by (relation "measure (\<lambda>(cdata, n, s). length cdata - in_pos s)")
    (auto simp: get_next_control_def get_next_byte_def dest!: uncompress_bits_pos split: if_splits)

declare uncompress_loop.simps [simp del]

text \<open>\<open>uncompress_rtf\<close>: \<open>None\<close> in the second component where \<^verbatim>\<open>rtf\<close> is left alone or freed.\<close>

definition uncompress_rtf :: "u8 list \<Rightarrow> u8 list \<Rightarrow> (MAPISTATUS \<times> u8 list option) outcome" where
  "uncompress_rtf junk rtfcomp =
     (if length rtfcomp < LZFU_HEADERLENGTH + 1 then Ok (MAPI_E_CORRUPT_DATA, None)
      else
        obind (verify_header rtfcomp (of_nat (length rtfcomp))) (\<lambda>(retval, lzfuhdr).
        if retval \<noteq> MAPI_E_SUCCESS then Ok (retval, None)
        else uncompress_loop rtfcomp (initialise_output_state (cbRawSize lzfuhdr))
               (initialise_decompression_state junk)))"

section \<open>Reading the stream\<close>

text \<open>\<open>ReadStream\<close> is a remote call: \<open>reads k\<close> is the status and the data of the \<open>k\<close>-th one. The first
  three arguments say which pointers are not \<^verbatim>\<open>NULL\<close>. The loop may never see an empty read.\<close>

definition WrapCompressedRTFStream ::
  "bool \<Rightarrow> bool \<Rightarrow> bool \<Rightarrow> (nat \<Rightarrow> MAPISTATUS \<times> u8 list) \<Rightarrow> u8 list \<Rightarrow> (MAPISTATUS \<times> u8 list option) outcome" where
  "WrapCompressedRTFStream obj_stream session mapi_ctx reads junk =
     (if \<not> obj_stream then Ok (MAPI_E_INVALID_PARAMETER, None)
      else if \<not> session then Ok (MAPI_E_NOT_INITIALIZED, None)
      else if \<not> mapi_ctx then Ok (MAPI_E_NOT_INITIALIZED, None)
      else
        (case while_option (\<lambda>(k, data, retval, going). going)
                (\<lambda>(k, data, retval, going).
                   if fst (reads k) \<noteq> MAPI_E_SUCCESS then (k, data, fst (reads k), False)
                   else (Suc k, data @ snd (reads k), retval, snd (reads k) \<noteq> []))
                (0, [], MAPI_E_SUCCESS, True) of
           None \<Rightarrow> Hang
         | Some (k, data, retval, going) \<Rightarrow>
             (if retval \<noteq> MAPI_E_SUCCESS then Ok (retval, None) else uncompress_rtf junk data)))"

section \<open>Checksum\<close>

definition CRCTable :: "u32 list" where
  "CRCTable =
    [0x00000000, 0x77073096, 0xee0e612c, 0x990951ba, 0x076dc419, 0x706af48f,
     0xe963a535, 0x9e6495a3, 0x0edb8832, 0x79dcb8a4, 0xe0d5e91e, 0x97d2d988,
     0x09b64c2b, 0x7eb17cbd, 0xe7b82d07, 0x90bf1d91, 0x1db71064, 0x6ab020f2,
     0xf3b97148, 0x84be41de, 0x1adad47d, 0x6ddde4eb, 0xf4d4b551, 0x83d385c7,
     0x136c9856, 0x646ba8c0, 0xfd62f97a, 0x8a65c9ec, 0x14015c4f, 0x63066cd9,
     0xfa0f3d63, 0x8d080df5, 0x3b6e20c8, 0x4c69105e, 0xd56041e4, 0xa2677172,
     0x3c03e4d1, 0x4b04d447, 0xd20d85fd, 0xa50ab56b, 0x35b5a8fa, 0x42b2986c,
     0xdbbbc9d6, 0xacbcf940, 0x32d86ce3, 0x45df5c75, 0xdcd60dcf, 0xabd13d59,
     0x26d930ac, 0x51de003a, 0xc8d75180, 0xbfd06116, 0x21b4f4b5, 0x56b3c423,
     0xcfba9599, 0xb8bda50f, 0x2802b89e, 0x5f058808, 0xc60cd9b2, 0xb10be924,
     0x2f6f7c87, 0x58684c11, 0xc1611dab, 0xb6662d3d, 0x76dc4190, 0x01db7106,
     0x98d220bc, 0xefd5102a, 0x71b18589, 0x06b6b51f, 0x9fbfe4a5, 0xe8b8d433,
     0x7807c9a2, 0x0f00f934, 0x9609a88e, 0xe10e9818, 0x7f6a0dbb, 0x086d3d2d,
     0x91646c97, 0xe6635c01, 0x6b6b51f4, 0x1c6c6162, 0x856530d8, 0xf262004e,
     0x6c0695ed, 0x1b01a57b, 0x8208f4c1, 0xf50fc457, 0x65b0d9c6, 0x12b7e950,
     0x8bbeb8ea, 0xfcb9887c, 0x62dd1ddf, 0x15da2d49, 0x8cd37cf3, 0xfbd44c65,
     0x4db26158, 0x3ab551ce, 0xa3bc0074, 0xd4bb30e2, 0x4adfa541, 0x3dd895d7,
     0xa4d1c46d, 0xd3d6f4fb, 0x4369e96a, 0x346ed9fc, 0xad678846, 0xda60b8d0,
     0x44042d73, 0x33031de5, 0xaa0a4c5f, 0xdd0d7cc9, 0x5005713c, 0x270241aa,
     0xbe0b1010, 0xc90c2086, 0x5768b525, 0x206f85b3, 0xb966d409, 0xce61e49f,
     0x5edef90e, 0x29d9c998, 0xb0d09822, 0xc7d7a8b4, 0x59b33d17, 0x2eb40d81,
     0xb7bd5c3b, 0xc0ba6cad, 0xedb88320, 0x9abfb3b6, 0x03b6e20c, 0x74b1d29a,
     0xead54739, 0x9dd277af, 0x04db2615, 0x73dc1683, 0xe3630b12, 0x94643b84,
     0x0d6d6a3e, 0x7a6a5aa8, 0xe40ecf0b, 0x9309ff9d, 0x0a00ae27, 0x7d079eb1,
     0xf00f9344, 0x8708a3d2, 0x1e01f268, 0x6906c2fe, 0xf762575d, 0x806567cb,
     0x196c3671, 0x6e6b06e7, 0xfed41b76, 0x89d32be0, 0x10da7a5a, 0x67dd4acc,
     0xf9b9df6f, 0x8ebeeff9, 0x17b7be43, 0x60b08ed5, 0xd6d6a3e8, 0xa1d1937e,
     0x38d8c2c4, 0x4fdff252, 0xd1bb67f1, 0xa6bc5767, 0x3fb506dd, 0x48b2364b,
     0xd80d2bda, 0xaf0a1b4c, 0x36034af6, 0x41047a60, 0xdf60efc3, 0xa867df55,
     0x316e8eef, 0x4669be79, 0xcb61b38c, 0xbc66831a, 0x256fd2a0, 0x5268e236,
     0xcc0c7795, 0xbb0b4703, 0x220216b9, 0x5505262f, 0xc5ba3bbe, 0xb2bd0b28,
     0x2bb45a92, 0x5cb36a04, 0xc2d7ffa7, 0xb5d0cf31, 0x2cd99e8b, 0x5bdeae1d,
     0x9b64c2b0, 0xec63f226, 0x756aa39c, 0x026d930a, 0x9c0906a9, 0xeb0e363f,
     0x72076785, 0x05005713, 0x95bf4a82, 0xe2b87a14, 0x7bb12bae, 0x0cb61b38,
     0x92d28e9b, 0xe5d5be0d, 0x7cdcefb7, 0x0bdbdf21, 0x86d3d2d4, 0xf1d4e242,
     0x68ddb3f8, 0x1fda836e, 0x81be16cd, 0xf6b9265b, 0x6fb077e1, 0x18b74777,
     0x88085ae6, 0xff0f6a70, 0x66063bca, 0x11010b5c, 0x8f659eff, 0xf862ae69,
     0x616bffd3, 0x166ccf45, 0xa00ae278, 0xd70dd2ee, 0x4e048354, 0x3903b3c2,
     0xa7672661, 0xd06016f7, 0x4969474d, 0x3e6e77db, 0xaed16a4a, 0xd9d65adc,
     0x40df0b66, 0x37d83bf0, 0xa9bcae53, 0xdebb9ec5, 0x47b2cf7f, 0x30b5ffe9,
     0xbdbdf21c, 0xcabac28a, 0x53b39330, 0x24b4a3a6, 0xbad03605, 0xcdd70693,
     0x54de5729, 0x23d967bf, 0xb3667a2e, 0xc4614ab8, 0x5d681b02, 0x2a6f2b94,
     0xb40bbe37, 0xc30c8ea1, 0x5a05df1b, 0x2d02ef8d]"

definition crc_byte :: "u32 \<Rightarrow> u8 \<Rightarrow> u32" where
  "crc_byte crc b =
     (let table_position = (ucast ((crc XOR ucast b) AND 0xFF) :: u8);
          intermediateValue = drop_bit 8 crc
      in (CRCTable ! unat table_position) XOR intermediateValue)"

fun crc_loop :: "u8 list \<Rightarrow> nat list \<Rightarrow> u32 \<Rightarrow> u32 outcome" where
  "crc_loop input [] crc = Ok crc"
| "crc_loop input (i # is) crc = obind (rd input i) (\<lambda>b. crc_loop input is (crc_byte crc b))"

definition calculateCRC :: "u8 list \<Rightarrow> u32 \<Rightarrow> u32 \<Rightarrow> u32 outcome" where
  "calculateCRC inp offset len = crc_loop inp [unat offset..<unat (offset + len)] 0"

section \<open>Compression\<close>

text \<open>The dictionary, the write index, the best match so far and where it starts.\<close>

record match_state =
  mdict :: "u8 list"
  dict_write_idx :: nat
  best_match_length :: nat
  dict_match_offset :: nat

text \<open>The comparison is between a \<^verbatim>\<open>char\<close> and a \<^verbatim>\<open>uint8_t\<close>, both promoted to \<^verbatim>\<open>int\<close>. The text and the
  dictionary are read before the indices are checked.\<close>

function match_loop :: "u8 list \<Rightarrow> nat \<Rightarrow> nat \<Rightarrow> nat \<Rightarrow> nat \<Rightarrow> match_state \<Rightarrow> match_state outcome" where
  "match_loop rtf rtf_size input_idx dict_iterator m st =
     obind (rd rtf (input_idx + m)) (\<lambda>c.
     obind (rd (mdict st) (dict_iterator + m)) (\<lambda>d.
     if sint c = uint d \<and> dict_iterator + m < dict_write_idx st mod LZFU_DICTLENGTH
        \<and> input_idx + m < rtf_size \<and> m < 17
     then match_loop rtf rtf_size input_idx dict_iterator (m + 1)
            (if m + 1 > best_match_length st
             then st\<lparr>best_match_length := m + 1,
                     mdict := (mdict st)[dict_write_idx st mod LZFU_DICTLENGTH := c],
                     dict_write_idx := dict_write_idx st + 1,
                     dict_match_offset := dict_iterator\<rparr>
             else st)
     else Ok st))"
  by pat_completeness auto
termination by (relation "measure (\<lambda>(rtf, n, i, it, m, st). 17 - m)") auto

declare match_loop.simps [simp del]

function longest_match_loop :: "u8 list \<Rightarrow> nat \<Rightarrow> nat \<Rightarrow> nat \<Rightarrow> match_state \<Rightarrow> match_state outcome" where
  "longest_match_loop rtf rtf_size input_idx dict_iterator st =
     (if dict_iterator < min (dict_write_idx st) LZFU_DICTLENGTH then
        obind (match_loop rtf rtf_size input_idx dict_iterator 0 st) (\<lambda>st1.
        longest_match_loop rtf rtf_size input_idx (dict_iterator + 1) st1)
      else Ok st)"
  by pat_completeness auto
termination by (relation "measure (\<lambda>(rtf, n, i, it, st). LZFU_DICTLENGTH - it)") auto

declare longest_match_loop.simps [simp del]

definition longest_match :: "u8 list \<Rightarrow> nat \<Rightarrow> nat \<Rightarrow> u8 list \<Rightarrow> nat \<Rightarrow> match_state outcome" where
  "longest_match rtf rtf_size input_idx d w =
     longest_match_loop rtf rtf_size input_idx 0
       \<lparr>mdict = d, dict_write_idx = w, best_match_length = 0, dict_match_offset = 0\<rparr>"

text \<open>The output written so far (\<open>output_idx\<close> is its length) with the position of the open control
  byte and its next bit.\<close>

record emit_state =
  rtfcomp :: "u8 list"
  control_byte_idx :: nat
  control_bit :: u8

definition set_control :: "emit_state \<Rightarrow> emit_state" where
  "set_control e = e\<lparr>rtfcomp := (rtfcomp e)[control_byte_idx e := (rtfcomp e ! control_byte_idx e) OR control_bit e]\<rparr>"

definition emit_reference :: "emit_state \<Rightarrow> u16 \<Rightarrow> emit_state" where
  "emit_reference e dict_ref =
     (let e1 = set_control e in
      e1\<lparr>rtfcomp := rtfcomp e1 @ [ucast (drop_bit 8 (dict_ref AND 0xFF00)), ucast (dict_ref AND 0xFF)]\<rparr>)"

definition emit_literal :: "emit_state \<Rightarrow> u8 \<Rightarrow> emit_state" where
  "emit_literal e c = e\<lparr>rtfcomp := rtfcomp e @ [c]\<rparr>"

definition next_control :: "emit_state \<Rightarrow> emit_state" where
  "next_control e =
     (if control_bit e = 0x80
      then e\<lparr>control_bit := 0x01, control_byte_idx := length (rtfcomp e), rtfcomp := rtfcomp e @ [0x00]\<rparr>
      else e\<lparr>control_bit := push_bit 1 (control_bit e)\<rparr>)"

function compress_loop :: "u8 list \<Rightarrow> nat \<Rightarrow> nat \<Rightarrow> u8 list \<Rightarrow> nat \<Rightarrow> emit_state \<Rightarrow> (nat \<times> emit_state) outcome" where
  "compress_loop rtf rtf_size input_idx d w e =
     (if input_idx < rtf_size then
        (case longest_match rtf rtf_size input_idx d w of
           Ok st \<Rightarrow>
             (if best_match_length st > 1 then
                compress_loop rtf rtf_size (input_idx + best_match_length st) (mdict st) (dict_write_idx st)
                  (next_control (emit_reference e
                     (push_bit 4 (of_nat (dict_match_offset st)) + of_nat (best_match_length st - 2))))
              else if input_idx < length rtf then
                compress_loop rtf rtf_size (input_idx + 1)
                  (if best_match_length st = 0
                   then (mdict st)[dict_write_idx st mod LZFU_DICTLENGTH := rtf ! input_idx] else mdict st)
                  (if best_match_length st = 0 then dict_write_idx st + 1 else dict_write_idx st)
                  (next_control (emit_literal e (rtf ! input_idx)))
              else Fault)
         | Abort \<Rightarrow> Abort | Fault \<Rightarrow> Fault | Hang \<Rightarrow> Hang)
      else Ok (w, e))"
  by pat_completeness auto
termination by (relation "measure (\<lambda>(rtf, n, i, d, w, e). n - i)") auto

declare compress_loop.simps [simp del]

text \<open>What the code writes, given room for it: the header is written last, over the first 16 bytes.\<close>

definition compress_bytes :: "u8 list \<Rightarrow> nat \<Rightarrow> u8 list outcome" where
  "compress_bytes rtf rtf_size =
     obind (compress_loop rtf rtf_size 0
              (LZFU_INITDICT @ replicate (LZFU_DICTLENGTH - LZFU_INITLENGTH) 0) LZFU_INITLENGTH
              \<lparr>rtfcomp = replicate LZFU_HEADERLENGTH 0 @ [0x00], control_byte_idx = LZFU_HEADERLENGTH,
               control_bit = 0x01\<rparr>) (\<lambda>(w, e).
     let out = rtfcomp (emit_reference e (push_bit 4 (of_nat (w mod LZFU_DICTLENGTH)))) in
     obind (calculateCRC out (of_nat LZFU_HEADERLENGTH) (of_nat (length out - LZFU_HEADERLENGTH))) (\<lambda>crc.
     Ok (le_bytes 4 (of_nat (length out - LZFU_HEADERLENGTH + 12) :: u32)
         @ le_bytes 4 (of_nat rtf_size :: u32) @ le_bytes 4 LZFU_COMPRESSED @ le_bytes 4 crc
         @ drop LZFU_HEADERLENGTH out)))"

text \<open>\<open>compress_rtf\<close>: the buffer has \<^verbatim>\<open>9 * rtf_size / 8 + sizeof(lzfuheader)\<close> bytes and every index below
  the final length is written.\<close>

definition compress_rtf :: "u8 list \<Rightarrow> nat \<Rightarrow> u8 list outcome" where
  "compress_rtf rtf rtf_size =
     obind (compress_bytes rtf rtf_size) (\<lambda>out.
     if length out \<le> 9 * rtf_size div 8 + LZFU_HEADERLENGTH then Ok out else Fault)"

end
