(* ===== verification/Lzfu_Crc.thy ===== *)
theory Lzfu_Crc
  imports Lzfu
begin

unbundle bit_operations_syntax

text \<open>
  The checksum of \<^verbatim>\<open>src/libmapi/lzfu.c\<close>: the table is the bit-by-bit CRC of its index, and the
  look-up loop is the bit-by-bit CRC of the buffer.
\<close>

section \<open>The checksum\<close>

text \<open>The reference: one bit at a time, reflected polynomial \<open>0xEDB88320\<close>.\<close>

definition crc_bit :: "u32 \<Rightarrow> u32" where
  "crc_bit c = (if bit c 0 then drop_bit 1 c XOR 0xEDB88320 else drop_bit 1 c)"

definition crc_ref :: "u8 list \<Rightarrow> u32" where
  "crc_ref bs = fold (\<lambda>b c. (crc_bit ^^ 8) (c XOR ucast b)) bs 0"

lemma crc_bit_xor: "crc_bit (a XOR b) = crc_bit a XOR crc_bit b"
  by (simp add: crc_bit_def bit_xor_iff drop_bit_xor ac_simps)

lemma crc_bit_pow_xor: "(crc_bit ^^ n) (a XOR b) = (crc_bit ^^ n) a XOR (crc_bit ^^ n) b"
  by (induction n) (simp_all add: crc_bit_xor)

text \<open>The table doubles: the entries from \<open>2 ^ k\<close> on are the earlier ones with one more bit.\<close>

lemma of_nat_add_pow:
  assumes "i < 2 ^ k" and "k < 32"
  shows "(of_nat (i + 2 ^ k) :: u32) = of_nat i XOR 2 ^ k"
proof -
  have nb: "\<not> bit (of_nat i :: u32) k"
  proof -
    have "\<not> bit i k" using assms(1) by (simp add: bit_iff_odd)
    then show ?thesis by (simp add: bit_of_nat_iff)
  qed
  have d: "\<not> bit (of_nat i :: u32) n \<or> \<not> bit (2 ^ k :: u32) n" for n
    using nb by (auto simp: bit_exp_iff)
  have "(of_nat i :: u32) + 2 ^ k = of_nat i OR 2 ^ k"
    by (rule disjunctive_add_eq_or) (rule bit_eqI, use d in \<open>auto simp: bit_simps\<close>)
  moreover have "of_nat i OR 2 ^ k = of_nat i XOR (2 ^ k :: u32)"
    by (rule bit_eqI) (use d in \<open>auto simp: bit_or_iff bit_xor_iff\<close>)
  ultimately show ?thesis by simp
qed

lemma table_doubles:
  assumes "\<And>a b. F (a XOR b) = F a XOR F b" and "k < 32"
  shows "map (\<lambda>i. F (of_nat i :: u32)) [0..<2 ^ Suc k] =
    (let t = map (\<lambda>i. F (of_nat i)) [0..<2 ^ k] in t @ map (\<lambda>x. x XOR F (2 ^ k)) t)"
proof -
  have "[0..<2 ^ Suc k] = [0..<2 ^ k] @ map (\<lambda>i. i + 2 ^ k) [0..<2 ^ k]"
    by (simp add: map_add_upt upt_add_eq_append [of 0 "2 ^ k" "2 ^ k", simplified] mult_2)
  moreover have "F (of_nat (i + 2 ^ k)) = F (of_nat i) XOR F (2 ^ k)" if "i \<in> set [0..<2 ^ k]" for i
    using that assms by (simp only: of_nat_add_pow set_upt atLeastLessThan_iff)
  ultimately show ?thesis by (simp add: Let_def del: of_nat_add)
qed

lemma crc_powers:
  "(crc_bit ^^ 8) 0 = 0"
  "(crc_bit ^^ 8) 1 = 0x77073096" "(crc_bit ^^ 8) 2 = 0xee0e612c" "(crc_bit ^^ 8) 4 = 0x076dc419"
  "(crc_bit ^^ 8) 8 = 0x0edb8832" "(crc_bit ^^ 8) 16 = 0x1db71064" "(crc_bit ^^ 8) 32 = 0x3b6e20c8"
  "(crc_bit ^^ 8) 64 = 0x76dc4190" "(crc_bit ^^ 8) 128 = 0xedb88320"
  by code_simp+

lemma CRCTable_ref: "CRCTable = map (\<lambda>i. (crc_bit ^^ 8) (of_nat i)) [0..<256]"
proof -
  let ?t = "\<lambda>k. map (\<lambda>i. (crc_bit ^^ 8) (of_nat i)) [0..<2 ^ k]"
  note T = table_doubles [of "crc_bit ^^ 8", OF crc_bit_pow_xor]
  have "?t 0 = take 1 CRCTable" by (simp add: crc_powers CRCTable_def)
  from T [of 0, unfolded this] have "?t 1 = take 2 CRCTable" by (simp add: crc_powers CRCTable_def)
  from T [of 1, unfolded this] have "?t 2 = take 4 CRCTable" by (simp add: crc_powers CRCTable_def Suc_1)
  from T [of 2, unfolded this] have "?t 3 = take 8 CRCTable" by (simp add: crc_powers CRCTable_def)
  from T [of 3, unfolded this] have "?t 4 = take 16 CRCTable" by (simp add: crc_powers CRCTable_def)
  from T [of 4, unfolded this] have "?t 5 = take 32 CRCTable" by (simp add: crc_powers CRCTable_def)
  from T [of 5, unfolded this] have "?t 6 = take 64 CRCTable" by (simp add: crc_powers CRCTable_def)
  from T [of 6, unfolded this] have "?t 7 = take 128 CRCTable" by (simp add: crc_powers CRCTable_def)
  from T [of 7, unfolded this] have "?t 8 = CRCTable" by (simp add: crc_powers CRCTable_def)
  then show ?thesis by simp
qed

lemma crc_bit_pow_low_zero: "take_bit n z = 0 \<Longrightarrow> (crc_bit ^^ n) z = drop_bit n z"
proof (induction n arbitrary: z)
  case 0
  then show ?case by simp
next
  case (Suc n)
  have z: "\<not> bit z k" if "k < Suc n" for k
    using Suc.prems that by (metis bit_0_eq bit_take_bit_iff bot_apply bot_bool_def)
  have "take_bit n (drop_bit 1 z) = 0"
    by (rule bit_eqI) (use z in \<open>auto simp: bit_take_bit_iff bit_drop_bit_eq\<close>)
  moreover have "crc_bit z = drop_bit 1 z" using z [of 0] by (simp add: crc_bit_def)
  ultimately show ?case using Suc.IH [of "drop_bit 1 z"]
    by (simp add: funpow_swap1 drop_bit_drop_bit del: funpow.simps) (simp add: funpow_Suc_right del: funpow.simps)
qed

lemma mask_8: "(0xFF :: 'a::len word) = mask 8"
  by (simp add: mask_eq_exp_minus_1)

lemma crc_byte_ref: "crc_byte crc b = (crc_bit ^^ 8) (crc XOR ucast b)"
proof -
  define x where "x = crc XOR ucast b"
  let ?lo = "take_bit 8 x" and ?hi = "x AND NOT (mask 8)"
  have split: "x = ?lo XOR ?hi"
    by (rule bit_eqI) (auto simp: bit_take_bit_iff bit_and_iff bit_not_iff bit_mask_iff bit_xor_iff dest: bit_imp_le_length)
  have "take_bit 8 ?hi = 0"
    by (rule bit_eqI) (auto simp: bit_take_bit_iff bit_and_iff bit_not_iff bit_mask_iff)
  then have hi: "(crc_bit ^^ 8) ?hi = drop_bit 8 ?hi" by (rule crc_bit_pow_low_zero)
  have "drop_bit 8 ?hi = drop_bit 8 crc"
    by (rule bit_eqI) (auto simp: x_def bit_drop_bit_eq bit_and_iff bit_not_iff bit_mask_iff bit_xor_iff bit_ucast_iff
        dest: bit_imp_le_length)
  moreover have "CRCTable ! unat (ucast ?lo :: u8) = (crc_bit ^^ 8) ?lo"
  proof -
    have "unat (ucast ?lo :: u8) < 256" using unsigned_less [of "ucast ?lo :: u8", where 'a = nat] by simp
    moreover have "of_nat (unat (ucast ?lo :: u8)) = ?lo"
    proof -
      have "(of_nat (unat (ucast ?lo :: u8)) :: u32) = ucast (ucast ?lo :: u8)" by simp
      also have "\<dots> = ?lo" by (rule bit_eqI) (auto simp: bit_ucast_iff bit_take_bit_iff)
      finally show ?thesis .
    qed
    ultimately show ?thesis by (simp add: CRCTable_ref)
  qed
  ultimately have "crc_byte crc b = (crc_bit ^^ 8) ?lo XOR (crc_bit ^^ 8) ?hi"
    by (simp add: crc_byte_def Let_def x_def [symmetric] hi mask_8 take_bit_eq_mask [symmetric])
  also have "\<dots> = (crc_bit ^^ 8) x" using split crc_bit_pow_xor [of 8 ?lo ?hi] by simp
  finally show ?thesis by (simp only: x_def)
qed

lemma crc_loop_fold:
  "b \<le> length inp \<Longrightarrow> crc_loop inp [a..<b] crc = Ok (fold (\<lambda>x c. crc_byte c x) (take (b - a) (drop a inp)) crc)"
proof (induction "b - a" arbitrary: a crc)
  case 0
  then show ?case by simp
next
  case (Suc n)
  then have ab: "a < b" "a < length inp" by auto
  then have "take (b - a) (drop a inp) = inp ! a # take (b - Suc a) (drop (Suc a) inp)"
    by (simp add: Cons_nth_drop_Suc [symmetric] take_Cons' )
  with Suc.hyps(1) [of "Suc a"] Suc.hyps(2) Suc.prems ab show ?case
    by (simp add: upt_conv_Cons rd_def)
qed

lemma calculateCRC_correct:
  assumes "unat off + unat len \<le> length inp" and "unat off + unat len < 2 ^ 32"
  shows "calculateCRC inp off len = Ok (crc_ref (take (unat len) (drop (unat off) inp)))"
proof -
  have e: "unat (off + len) = unat off + unat len" using assms(2) by (simp add: unat_word_ariths)
  show ?thesis
    using crc_loop_fold [of "unat off + unat len" inp "unat off" 0] assms(1)
    by (simp add: calculateCRC_def e crc_ref_def crc_byte_ref)
qed

end
