(* ===== verification/Lzfu_Match.thy ===== *)
theory Lzfu_Match
  imports Lzfu_Crc
begin

unbundle bit_operations_syntax

text \<open>
  What \<open>longest_match\<close> finds, and the items \<open>compress_rtf\<close> emits: executing them on a dictionary that
  agrees with the compressor's reproduces the text.
\<close>

section \<open>What a match is\<close>

lemmas lz_consts = LZFU_DICTLENGTH_def LZFU_INITLENGTH_def LZFU_HEADERLENGTH_def

definition dwrite :: "'a list \<Rightarrow> nat \<Rightarrow> 'a list \<Rightarrow> 'a list" where
  "dwrite d p cs = take p d @ cs @ drop (p + length cs) d"

lemma length_dwrite [simp]: "p + length cs \<le> length d \<Longrightarrow> length (dwrite d p cs) = length d"
  by (simp add: dwrite_def)

lemma nth_dwrite:
  "p + length cs \<le> length d \<Longrightarrow> q < length d \<Longrightarrow>
   dwrite d p cs ! q = (if q < p then d ! q else if q < p + length cs then cs ! (q - p) else d ! q)"
  by (auto simp: dwrite_def nth_append min_def)

lemma dwrite_Nil [simp]: "dwrite d p [] = d"
  by (simp add: dwrite_def)

lemma dwrite_snoc:
  "p + length cs < length d \<Longrightarrow> (dwrite d p cs)[p + length cs := c] = dwrite d p (cs @ [c])"
  by (rule nth_equalityI) (auto simp: nth_dwrite nth_list_update nth_append less_Suc_eq)

lemma char_eq_byte:
  assumes "sint (c :: u8) = uint (d :: u8)" shows "c = d"
proof -
  have "c = of_int (sint c)" by simp
  also have "\<dots> = of_int (uint d)" by (simp only: assms)
  also have "\<dots> = d" by simp
  finally show ?thesis .
qed

text \<open>
  The part of the text that starts at \<open>idx\<close> is matched against the dictionary \<open>d\<close>, whose write
  position is \<open>p\<close>. \<open>source_byte\<close> is the byte that copying \<open>j\<close> bytes from \<open>it\<close> reads last: one of the old
  dictionary, or one the copy has written itself.
\<close>

definition source_byte :: "u8 list \<Rightarrow> nat \<Rightarrow> u8 list \<Rightarrow> nat \<Rightarrow> nat \<Rightarrow> nat \<Rightarrow> u8" where
  "source_byte rtf idx d p it j = (if it + j < p then d ! (it + j) else rtf ! (idx + (it + j - p)))"

definition match_inv :: "u8 list \<Rightarrow> nat \<Rightarrow> nat \<Rightarrow> u8 list \<Rightarrow> nat \<Rightarrow> match_state \<Rightarrow> bool" where
  "match_inv rtf n idx d w st \<longleftrightarrow>
     (let p = w mod LZFU_DICTLENGTH; b = best_match_length st in
      b \<le> 17 \<and> idx + b \<le> n \<and> p + b \<le> LZFU_DICTLENGTH \<and> dict_write_idx st = w + b \<and>
      mdict st = dwrite d p (take b (drop idx rtf)) \<and>
      (0 < b \<longrightarrow> dict_match_offset st < p \<and>
        (\<forall>j < b. source_byte rtf idx d p (dict_match_offset st) j = rtf ! (idx + j))))"

lemma match_inv_mod:
  assumes "match_inv rtf n idx d w st"
  shows "dict_write_idx st mod LZFU_DICTLENGTH =
    (if w mod LZFU_DICTLENGTH + best_match_length st = LZFU_DICTLENGTH then 0
     else w mod LZFU_DICTLENGTH + best_match_length st)"
proof -
  have "dict_write_idx st = w + best_match_length st"
    "w mod LZFU_DICTLENGTH + best_match_length st \<le> LZFU_DICTLENGTH"
    using assms by (simp_all add: match_inv_def Let_def)
  then show ?thesis by (metis le_neq_implies_less mod_add_left_eq mod_less mod_self)
qed

lemma match_loop_inv:
  assumes "length d = LZFU_DICTLENGTH" and "n < length rtf"
    and "match_inv rtf n idx d w st" and "m \<le> best_match_length st" and "it + m < LZFU_DICTLENGTH" and "idx + m \<le> n"
    and "it < w mod LZFU_DICTLENGTH \<Longrightarrow> \<forall>j < m. source_byte rtf idx d (w mod LZFU_DICTLENGTH) it j = rtf ! (idx + j)"
  shows "\<exists>st'. match_loop rtf n idx it m st = Ok st' \<and> match_inv rtf n idx d w st'"
  using assms
proof (induction rtf n idx it m st rule: match_loop.induct)
  case (1 rtf n idx it m st)
  define p where "p = w mod LZFU_DICTLENGTH"
  define b where "b = best_match_length st"
  have plt: "p < LZFU_DICTLENGTH" by (simp add: p_def LZFU_DICTLENGTH_def)
  have inv: "b \<le> 17" "idx + b \<le> n" "p + b \<le> LZFU_DICTLENGTH" "dict_write_idx st = w + b"
    "mdict st = dwrite d p (take b (drop idx rtf))"
    "0 < b \<Longrightarrow> dict_match_offset st < p \<and> (\<forall>j < b. source_byte rtf idx d p (dict_match_offset st) j = rtf ! (idx + j))"
    using "1.prems"(3) by (simp_all add: match_inv_def Let_def p_def b_def)
  have lb: "length (take b (drop idx rtf)) = b" using inv(2) "1.prems"(2) by simp
  have lm: "length (mdict st) = LZFU_DICTLENGTH" using inv(3,5) lb "1.prems"(1) by simp
  have rc: "rd rtf (idx + m) = Ok (rtf ! (idx + m))" using "1.prems"(2,6) by (simp add: rd_def)
  have rd: "rd (mdict st) (it + m) = Ok (mdict st ! (it + m))" using "1.prems"(5) lm by (simp add: rd_def)
  let ?go = "sint (rtf ! (idx + m)) = uint (mdict st ! (it + m)) \<and> it + m < dict_write_idx st mod LZFU_DICTLENGTH
        \<and> idx + m < n \<and> m < 17"
  show ?case
  proof (cases ?go)
    case False
    with rc rd "1.prems"(3) show ?thesis by (subst match_loop.simps) auto
  next
    case True
    have wm: "dict_write_idx st mod LZFU_DICTLENGTH = p + b" and pb: "p + b < LZFU_DICTLENGTH"
      using match_inv_mod [OF "1.prems"(3)] True inv(3) by (auto simp: p_def b_def split: if_splits)
    have itm: "it + m < p + b" using True wm by simp
    have "mdict st ! (it + m) = source_byte rtf idx d p it m"
      using "1.prems"(1,2,5) inv(2) lb pb itm unfolding inv(5)
      by (subst nth_dwrite) (auto simp: source_byte_def)
    then have src: "source_byte rtf idx d p it m = rtf ! (idx + m)" using True char_eq_byte by metis
    let ?st = "if m + 1 > best_match_length st
             then st\<lparr>best_match_length := m + 1,
                     mdict := (mdict st)[dict_write_idx st mod LZFU_DICTLENGTH := rtf ! (idx + m)],
                     dict_write_idx := dict_write_idx st + 1,
                     dict_match_offset := it\<rparr>
             else st"
    have all: "it < p \<Longrightarrow> \<forall>j < m + 1. source_byte rtf idx d p it j = rtf ! (idx + j)"
      using "1.prems"(7) src by (auto simp: p_def less_Suc_eq)
    have inv': "match_inv rtf n idx d w ?st"
    proof (cases "m + 1 > b")
      case True2: True
      then have mb: "m = b" using "1.prems"(4) by (simp add: b_def)
      have it: "it < p" using itm mb by simp
      have "idx + b < length rtf" using True mb "1.prems"(2) by simp
      then have tk: "take (Suc b) (drop idx rtf) = take b (drop idx rtf) @ [rtf ! (idx + b)]"
        by (simp add: take_Suc_conv_app_nth)
      have "(mdict st)[p + b := rtf ! (idx + b)] = dwrite d p (take (Suc b) (drop idx rtf))"
        using dwrite_snoc [of p "take b (drop idx rtf)" d "rtf ! (idx + b)"] lb pb "1.prems"(1)
        unfolding inv(5) tk by simp
      with True True2 inv mb it all pb wm show ?thesis
        by (auto simp: match_inv_def Let_def p_def [symmetric] b_def [symmetric])
    next
      case False
      with "1.prems"(3) show ?thesis by (simp add: b_def)
    qed
    have best: "m + 1 \<le> best_match_length ?st" by simp
    have "it + (m + 1) < LZFU_DICTLENGTH" using itm pb by simp
    moreover have "idx + (m + 1) \<le> n" using True by simp
    ultimately have "\<exists>st'. match_loop rtf n idx it (m + 1) ?st = Ok st' \<and> match_inv rtf n idx d w st'"
      using all by (intro "1.IH" [OF True] "1.prems"(1,2) inv' best) (auto simp: p_def)
    then show ?thesis using rc rd True by (subst match_loop.simps) auto
  qed
qed

lemma longest_match_loop_inv:
  assumes "length d = LZFU_DICTLENGTH" and "n < length rtf" and "idx \<le> n" and "match_inv rtf n idx d w st"
  shows "\<exists>st'. longest_match_loop rtf n idx it st = Ok st' \<and> match_inv rtf n idx d w st'"
  using assms
proof (induction rtf n idx it st rule: longest_match_loop.induct)
  case (1 rtf n idx it st)
  show ?case
  proof (cases "it < min (dict_write_idx st) LZFU_DICTLENGTH")
    case True
    then obtain st1 where st1: "match_loop rtf n idx it 0 st = Ok st1" "match_inv rtf n idx d w st1"
      using match_loop_inv [OF "1.prems"(1,2,4), of 0 it] "1.prems"(3) by auto
    from "1.IH" [OF True "1.prems"(1-3) st1(2)] st1(1) True show ?thesis
      by (subst longest_match_loop.simps) simp
  next
    case False
    with "1.prems"(4) show ?thesis by (subst longest_match_loop.simps) auto
  qed
qed

lemma longest_match_inv:
  assumes "length d = LZFU_DICTLENGTH" and "n < length rtf" and "idx \<le> n"
  shows "\<exists>st. longest_match rtf n idx d w = Ok st \<and> match_inv rtf n idx d w st"
proof -
  have "match_inv rtf n idx d w \<lparr>mdict = d, dict_write_idx = w, best_match_length = 0, dict_match_offset = 0\<rparr>"
    using assms by (simp add: match_inv_def Let_def LZFU_DICTLENGTH_def order_less_imp_le)
  with longest_match_loop_inv [OF assms] show ?thesis by (simp add: longest_match_def)
qed

section \<open>Items\<close>

text \<open>The compressed text is a sequence of literals and references; \<open>exec_item\<close> is what an item does to
  the dictionary, its write offset and the output.\<close>

datatype lz_item = Lit u8 | Ref nat nat

type_synonym lz_abs = "u8 list \<times> nat \<times> u8 list"

fun put_byte :: "u8 \<Rightarrow> lz_abs \<Rightarrow> lz_abs" where
  "put_byte c (d, p, out) = (d[p := c], (p + 1) mod LZFU_DICTLENGTH, out @ [c])"

fun copy_bytes :: "nat \<Rightarrow> nat \<Rightarrow> nat \<Rightarrow> lz_abs \<Rightarrow> lz_abs" where
  "copy_bytes off i 0 t = t"
| "copy_bytes off i (Suc k) t = copy_bytes off (Suc i) k (put_byte (fst t ! ((off + i) mod LZFU_DICTLENGTH)) t)"

fun exec_item :: "lz_item \<Rightarrow> lz_abs \<Rightarrow> lz_abs" where
  "exec_item (Lit c) t = put_byte c t"
| "exec_item (Ref off len) t = copy_bytes off 0 len t"

fun valid_item :: "lz_item \<Rightarrow> lz_abs \<Rightarrow> bool" where
  "valid_item (Lit c) t = True"
| "valid_item (Ref off len) t = (off \<noteq> fst (snd t) \<and> off < LZFU_DICTLENGTH \<and> 2 \<le> len \<and> len \<le> 17)"

fun valid_items :: "lz_item list \<Rightarrow> lz_abs \<Rightarrow> bool" where
  "valid_items [] t = True"
| "valid_items (x # xs) t = (valid_item x t \<and> valid_items xs (exec_item x t))"

definition ref_word :: "nat \<Rightarrow> nat \<Rightarrow> u16" where
  "ref_word off len = push_bit 4 (of_nat off) + of_nat (len - 2)"

fun emit_item :: "lz_item \<Rightarrow> emit_state \<Rightarrow> emit_state" where
  "emit_item (Lit c) e = next_control (emit_literal e c)"
| "emit_item (Ref off len) e = next_control (emit_reference e (ref_word off len))"

fun item_bytes :: "lz_item \<Rightarrow> u8 list" where
  "item_bytes (Lit c) = [c]"
| "item_bytes (Ref off len) =
     [ucast (drop_bit 8 (ref_word off len AND 0xFF00)), ucast (ref_word off len AND 0xFF)]"

lemma copy_bytes_spec:
  assumes "length dd = LZFU_DICTLENGTH" and "off < p" and "p + L \<le> LZFU_DICTLENGTH" and "idx + L \<le> length rtf"
    and "\<forall>j < L. source_byte rtf idx dd p off j = rtf ! (idx + j)" and "i \<le> L"
  shows "copy_bytes off i (L - i) (dwrite dd p (take i (drop idx rtf)), (p + i) mod LZFU_DICTLENGTH, out @ take i (drop idx rtf))
    = (dwrite dd p (take L (drop idx rtf)), (p + L) mod LZFU_DICTLENGTH, out @ take L (drop idx rtf))"
  using assms(6)
proof (induction "L - i" arbitrary: i)
  case 0
  then show ?case by simp
next
  case (Suc k)
  then have i: "i < L" by simp
  let ?cs = "take i (drop idx rtf)"
  have lc: "length ?cs = i" using i assms(4) by simp
  have pi: "p + i < LZFU_DICTLENGTH" using i assms(3) by simp
  have "dwrite dd p ?cs ! (off + i) = source_byte rtf idx dd p off i"
    using assms(1,2) pi lc i assms(4) by (subst nth_dwrite) (auto simp: source_byte_def)
  then have c: "dwrite dd p ?cs ! ((off + i) mod LZFU_DICTLENGTH) = rtf ! (idx + i)"
    using assms(2,5) i pi by simp
  have tk: "take (Suc i) (drop idx rtf) = ?cs @ [rtf ! (idx + i)]"
    using i assms(4) by (simp add: take_Suc_conv_app_nth)
  have "(dwrite dd p ?cs)[p + i := rtf ! (idx + i)] = dwrite dd p (take (Suc i) (drop idx rtf))"
    using dwrite_snoc [of p ?cs dd "rtf ! (idx + i)"] lc pi assms(1) by (simp add: tk)
  moreover have "L - i = Suc (L - Suc i)" using i by simp
  ultimately show ?case using Suc.hyps(1) [of "Suc i"] Suc.hyps(2) i c pi
    by (simp add: tk mod_Suc_eq)
qed

definition agree :: "u8 list \<Rightarrow> u8 list \<Rightarrow> nat \<Rightarrow> bool" where
  "agree d dd w \<longleftrightarrow> length d = LZFU_DICTLENGTH \<and> length dd = LZFU_DICTLENGTH \<and>
     (\<forall>q < min w LZFU_DICTLENGTH. dd ! q = d ! q)"

lemma agree_dwrite:
  assumes "agree d dd w" and "w mod LZFU_DICTLENGTH + length cs \<le> LZFU_DICTLENGTH"
  shows "agree (dwrite d (w mod LZFU_DICTLENGTH) cs) (dwrite dd (w mod LZFU_DICTLENGTH) cs) (w + length cs)"
proof -
  have "q < min w LZFU_DICTLENGTH" if "q < w + length cs" "q < LZFU_DICTLENGTH"
    "\<not> (w mod LZFU_DICTLENGTH \<le> q \<and> q < w mod LZFU_DICTLENGTH + length cs)" for q
    using that by (cases "w < LZFU_DICTLENGTH") auto
  with assms show ?thesis by (auto simp: agree_def nth_dwrite)
qed

lemma agree_source:
  assumes "agree d dd w"
  shows "source_byte rtf idx dd (w mod LZFU_DICTLENGTH) it j = source_byte rtf idx d (w mod LZFU_DICTLENGTH) it j"
proof -
  have "dd ! (it + j) = d ! (it + j)" if "it + j < w mod LZFU_DICTLENGTH"
  proof -
    have "it + j < w" using that mod_less_eq_dividend [of w LZFU_DICTLENGTH] by (rule less_le_trans)
    moreover have "w mod LZFU_DICTLENGTH < LZFU_DICTLENGTH" by (simp add: LZFU_DICTLENGTH_def)
    ultimately show ?thesis using assms that by (simp add: agree_def)
  qed
  then show ?thesis by (simp add: source_byte_def)
qed

lemma dwrite_one: "p < length d \<Longrightarrow> d[p := c] = dwrite d p [c]"
  using dwrite_snoc [of p "[]" d c] by simp

section \<open>The compressor emits items\<close>

text \<open>One round of the compressor: the item it emits, and the state it leaves.\<close>

lemma compress_round:
  assumes "agree d dd w" and "n < length rtf" and "idx < n"
  obtains item k where "compress_loop rtf n idx d w e =
      compress_loop rtf n (idx + k) (dwrite d (w mod LZFU_DICTLENGTH) (take k (drop idx rtf))) (w + k) (emit_item item e)"
    and "0 < k" and "idx + k \<le> n" and "w mod LZFU_DICTLENGTH + k \<le> LZFU_DICTLENGTH"
    and "valid_item item (dd, w mod LZFU_DICTLENGTH, out)"
    and "exec_item item (dd, w mod LZFU_DICTLENGTH, out) =
      (dwrite dd (w mod LZFU_DICTLENGTH) (take k (drop idx rtf)), (w + k) mod LZFU_DICTLENGTH, out @ take k (drop idx rtf))"
    and "length (item_bytes item) \<le> k"
proof -
  define p where "p = w mod LZFU_DICTLENGTH"
  have D: "length d = LZFU_DICTLENGTH" "length dd = LZFU_DICTLENGTH" using assms(1) by (simp_all add: agree_def)
  have p: "p < LZFU_DICTLENGTH" by (simp add: p_def LZFU_DICTLENGTH_def)
  obtain st where st: "longest_match rtf n idx d w = Ok st" "match_inv rtf n idx d w st"
    using longest_match_inv [OF D(1) assms(2)] assms(3) by (meson less_imp_le)
  define b where "b = best_match_length st"
  have inv: "b \<le> 17" "idx + b \<le> n" "p + b \<le> LZFU_DICTLENGTH" "dict_write_idx st = w + b"
    "mdict st = dwrite d p (take b (drop idx rtf))"
    "0 < b \<Longrightarrow> dict_match_offset st < p \<and> (\<forall>j < b. source_byte rtf idx d p (dict_match_offset st) j = rtf ! (idx + j))"
    using st(2) by (simp_all add: match_inv_def Let_def p_def b_def)
  have modk: "(p + k) mod LZFU_DICTLENGTH = (w + k) mod LZFU_DICTLENGTH" for k
    by (simp add: p_def mod_add_left_eq)
  show thesis
  proof (cases "b > 1")
    case True
    let ?off = "dict_match_offset st"
    have off: "?off < p" "\<forall>j < b. source_byte rtf idx dd p ?off j = rtf ! (idx + j)"
      using inv(6) True agree_source [OF assms(1)] by (simp_all add: p_def)
    have "exec_item (Ref ?off b) (dd, p, out) =
        (dwrite dd p (take b (drop idx rtf)), (w + b) mod LZFU_DICTLENGTH, out @ take b (drop idx rtf))"
      using copy_bytes_spec [OF D(2) off(1) inv(3) _ off(2), of 0 out] inv(2) assms(2) p by (simp add: modk)
    moreover have "compress_loop rtf n idx d w e =
      compress_loop rtf n (idx + b) (dwrite d p (take b (drop idx rtf))) (w + b) (emit_item (Ref ?off b) e)"
      using st(1) True inv(4,5) assms(3)
      by (subst compress_loop.simps) (simp add: b_def [symmetric] ref_word_def)
    ultimately show thesis
      using True inv(1-3) off(1) p by (intro that [of b "Ref ?off b"]) (auto simp: p_def)
  next
    case False
    have lt: "idx < length rtf" using assms(2,3) by simp
    have tk: "take 1 (drop idx rtf) = [rtf ! idx]" using lt by (simp add: take_Suc_conv_app_nth)
    have b01: "b = 0 \<or> b = 1" using False by auto
    have d1: "(if b = 0 then (mdict st)[dict_write_idx st mod LZFU_DICTLENGTH := rtf ! idx] else mdict st) =
        dwrite d p (take 1 (drop idx rtf))"
      and w1: "(if b = 0 then dict_write_idx st + 1 else dict_write_idx st) = w + 1"
      using b01 inv(4,5) D p tk dwrite_one [of p d "rtf ! idx"] by (auto simp: p_def)
    have "compress_loop rtf n idx d w e =
      compress_loop rtf n (idx + 1) (dwrite d p (take 1 (drop idx rtf))) (w + 1) (emit_item (Lit (rtf ! idx)) e)"
      using st(1) False assms(3) lt d1 w1
      by (subst compress_loop.simps) (simp add: b_def [symmetric])
    moreover have "exec_item (Lit (rtf ! idx)) (dd, p, out) =
        (dwrite dd p (take 1 (drop idx rtf)), (w + 1) mod LZFU_DICTLENGTH, out @ take 1 (drop idx rtf))"
      using tk p D dwrite_one [of p dd "rtf ! idx"] modk [of 1] by simp
    ultimately show thesis
      using assms(3) p by (intro that [of 1 "Lit (rtf ! idx)"]) (auto simp: p_def)
  qed
qed

lemma compress_loop_items:
  assumes "agree d dd w" and "n < length rtf" and "idx \<le> n"
  shows "\<exists>items w' dd'. compress_loop rtf n idx d w e = Ok (w', fold emit_item items e) \<and>
    valid_items items (dd, w mod LZFU_DICTLENGTH, out) \<and>
    fold exec_item items (dd, w mod LZFU_DICTLENGTH, out) =
      (dd', w' mod LZFU_DICTLENGTH, out @ take (n - idx) (drop idx rtf)) \<and>
    length (concat (map item_bytes items)) \<le> n - idx \<and> length items \<le> n - idx"
  using assms
proof (induction "n - idx" arbitrary: idx d dd w e out rule: less_induct)
  case less
  show ?case
  proof (cases "idx < n")
    case False
    then have "compress_loop rtf n idx d w e = Ok (w, e)" by (subst compress_loop.simps) simp
    then show ?thesis using False less.prems(3) by (intro exI [of _ "[]"]) auto
  next
    case True
    define p where "p = w mod LZFU_DICTLENGTH"
    from compress_round [OF less.prems(1,2) True, where e = e and out = out]
    obtain item k where r: "compress_loop rtf n idx d w e =
        compress_loop rtf n (idx + k) (dwrite d p (take k (drop idx rtf))) (w + k) (emit_item item e)"
      "0 < k" "idx + k \<le> n" "p + k \<le> LZFU_DICTLENGTH" "valid_item item (dd, p, out)"
      "exec_item item (dd, p, out) =
        (dwrite dd p (take k (drop idx rtf)), (w + k) mod LZFU_DICTLENGTH, out @ take k (drop idx rtf))"
      "length (item_bytes item) \<le> k"
      unfolding p_def by blast
    have lk: "length (take k (drop idx rtf)) = k" using r(3) less.prems(2) by simp
    have ag: "agree (dwrite d p (take k (drop idx rtf))) (dwrite dd p (take k (drop idx rtf))) (w + k)"
      using agree_dwrite [OF less.prems(1), of "take k (drop idx rtf)"] r(4) lk by (simp add: p_def)
    have dec: "n - (idx + k) < n - idx" using r(2) True by simp
    obtain items w' dd' where it: "compress_loop rtf n (idx + k) (dwrite d p (take k (drop idx rtf))) (w + k) (emit_item item e)
        = Ok (w', fold emit_item items (emit_item item e))"
      "valid_items items (exec_item item (dd, p, out))"
      "fold exec_item items (exec_item item (dd, p, out)) = (dd', w' mod LZFU_DICTLENGTH,
        (out @ take k (drop idx rtf)) @ take (n - (idx + k)) (drop (idx + k) rtf))"
      "length (concat (map item_bytes items)) \<le> n - (idx + k)" "length items \<le> n - (idx + k)"
      using less.hyps [OF dec ag less.prems(2) r(3), where e = "emit_item item e" and out = "out @ take k (drop idx rtf)"]
      unfolding r(6) by blast
    have "take (n - idx) (drop idx rtf) = take k (drop idx rtf) @ take (n - (idx + k)) (drop (idx + k) rtf)"
      using r(3) take_add [of k "n - (idx + k)" "drop idx rtf"] by (simp add: add.commute)
    with r(1,2,5,7) it(1,2,3,4,5) True r(3) show ?thesis unfolding p_def [symmetric]
      by (intro exI [of _ "item # items"] exI [of _ w'] exI [of _ dd']) auto
  qed
qed

end
