(* ===== verification/Lzfu_Roundtrip.thy ===== *)
theory Lzfu_Roundtrip
  imports Lzfu_Match
begin

unbundle bit_operations_syntax

text \<open>
  The byte stream of the items, group by group, the decompressor's run over it, and the properties of
  \<^verbatim>\<open>src/libmapi/lzfu.c\<close>.
\<close>

section \<open>Groups of eight items\<close>

fun is_ref :: "lz_item \<Rightarrow> bool" where
  "is_ref (Lit c) = False"
| "is_ref (Ref off len) = True"

fun ctl_from :: "nat \<Rightarrow> lz_item list \<Rightarrow> u8" where
  "ctl_from k [] = 0"
| "ctl_from k (x # xs) = (if is_ref x then push_bit k 1 else 0) OR ctl_from (Suc k) xs"

definition enc_group :: "lz_item list \<Rightarrow> u8 list" where
  "enc_group xs = ctl_from 0 xs # concat (map item_bytes xs)"

lemma ctl_from_append: "ctl_from k (xs @ ys) = ctl_from k xs OR ctl_from (k + length xs) ys"
  by (induction xs arbitrary: k) (simp_all add: or.assoc)

lemma bit_ctl_from:
  "bit (ctl_from k xs) j \<longleftrightarrow> k \<le> j \<and> j < 8 \<and> j - k < length xs \<and> is_ref (xs ! (j - k))"
proof (induction xs arbitrary: k)
  case Nil
  then show ?case by simp
next
  case (Cons x xs)
  show ?case
  proof (cases "j = k")
    case True
    have "\<not> bit (ctl_from (Suc j) xs) j" by (simp add: Cons.IH)
    then show ?thesis unfolding True [symmetric] by (auto simp: bit_or_iff bit_exp_iff)
  next
    case False
    then have "j - k = Suc (j - Suc k)" if "k \<le> j" using that by simp
    with False show ?thesis by (auto simp: Cons.IH bit_or_iff bit_exp_iff)
  qed
qed

definition emitted :: "u8 list \<Rightarrow> lz_item list list \<Rightarrow> lz_item list \<Rightarrow> emit_state \<Rightarrow> bool" where
  "emitted pre full r e \<longleftrightarrow> rtfcomp e = pre @ concat (map enc_group full) @ enc_group r \<and>
     control_byte_idx e = length (pre @ concat (map enc_group full)) \<and> control_bit e = push_bit (length r) 1 \<and>
     length r < 8 \<and> (\<forall>g \<in> set full. length g = 8)"

lemma bit_is_last:
  assumes "k < 8" shows "(2 ^ k :: u8) = 0x80 \<longleftrightarrow> k = 7"
proof
  assume "(2 ^ k :: u8) = 0x80"
  then have "bit (2 ^ 7 :: u8) k" using assms bit_exp_iff [of k k, where 'a = u8] by simp
  then show "k = 7" by (simp only: bit_exp_iff)
qed simp

lemma emit_step_bytes:
  assumes "emitted pre full r e"
  shows "rtfcomp (emit_literal e c) = pre @ concat (map enc_group full) @ enc_group (r @ [Lit c])"
    and "rtfcomp (emit_reference e (ref_word off len)) = pre @ concat (map enc_group full) @ enc_group (r @ [Ref off len])"
    and "control_byte_idx (emit_reference e (ref_word off len)) = control_byte_idx e"
    and "control_bit (emit_reference e (ref_word off len)) = control_bit e"
    and "control_byte_idx (emit_literal e c) = control_byte_idx e" and "control_bit (emit_literal e c) = control_bit e"
  using assms
  by (simp_all add: emitted_def emit_literal_def emit_reference_def set_control_def enc_group_def ctl_from_append
      nth_append list_update_append Let_def)

lemma emitted_next:
  assumes "emitted pre full r e" and "rtfcomp e' = pre @ concat (map enc_group full) @ enc_group (r @ [x])"
    and "control_byte_idx e' = control_byte_idx e" and "control_bit e' = control_bit e"
  shows "\<exists>full' r'. emitted pre full' r' (next_control e') \<and> concat full' @ r' = concat full @ r @ [x]"
proof (cases "length r = 7")
  case True
  with assms have "emitted pre (full @ [r @ [x]]) [] (next_control e')"
    by (simp add: emitted_def next_control_def bit_is_last enc_group_def)
  then show ?thesis by (intro exI [of _ "full @ [r @ [x]]"] exI [of _ "[]"]) simp
next
  case False
  with assms have "emitted pre full (r @ [x]) (next_control e')"
    by (simp add: emitted_def next_control_def bit_is_last push_bit_push_bit)
  then show ?thesis by (intro exI [of _ full] exI [of _ "r @ [x]"]) simp
qed

lemma emit_item_emitted:
  assumes "emitted pre full r e"
  shows "\<exists>full' r'. emitted pre full' r' (emit_item x e) \<and> concat full' @ r' = concat full @ r @ [x]"
proof (cases x)
  case (Lit c)
  from emitted_next [OF assms, of "emit_literal e c" x] emit_step_bytes [OF assms] Lit show ?thesis by simp
next
  case (Ref off len)
  from emitted_next [OF assms, of "emit_reference e (ref_word off len)" x] emit_step_bytes [OF assms] Ref
  show ?thesis by simp
qed

lemma fold_emit_emitted:
  assumes "emitted pre full r e"
  shows "\<exists>full' r'. emitted pre full' r' (fold emit_item xs e) \<and> concat full' @ r' = concat full @ r @ xs"
  using assms
proof (induction xs arbitrary: full r e)
  case Nil
  then show ?case by auto
next
  case (Cons x xs)
  obtain full1 r1 where 1: "emitted pre full1 r1 (emit_item x e)" "concat full1 @ r1 = concat full @ r @ [x]"
    using emit_item_emitted [OF Cons.prems] by blast
  obtain full2 r2 where 2: "emitted pre full2 r2 (fold emit_item xs (emit_item x e))"
    "concat full2 @ r2 = concat full1 @ r1 @ xs" using Cons.IH [OF 1(1)] by blast
  have "concat full2 @ r2 = concat full @ r @ x # xs" using 1(2) 2(2) by (metis append.assoc append_Cons append_Nil)
  with 2(1) show ?case by auto
qed

section \<open>References\<close>

lemma ref_masks:
  "(0xFF00 :: u16) = push_bit 8 (mask 8)" "(0xFFF0 :: u16) = push_bit 4 (mask 12)" "(0x0F :: u8) = mask 4"
  by code_simp+

lemma make_reference_bytes:
  fixes a b :: u16
  assumes "\<And>k. bit a k \<Longrightarrow> k < 12" and "\<And>k. bit b k \<Longrightarrow> k < 4"
  defines "w \<equiv> push_bit 4 a + b"
  shows "make_reference (ucast (drop_bit 8 (w AND 0xFF00))) (ucast (w AND 0xFF)) =
    \<lparr>ref_length = ucast b + 2, ref_offset = a\<rparr>"
proof -
  have w: "w = push_bit 4 a OR b" unfolding w_def
    by (rule disjunctive_add_eq_or) (rule bit_eqI, use assms(2) in \<open>fastforce simp: bit_simps\<close>)
  let ?hi = "ucast (drop_bit 8 (w AND 0xFF00)) :: u8" and ?lo = "ucast (w AND 0xFF) :: u8"
  have "push_bit 8 (ucast ?hi) + ucast ?lo = push_bit 8 (ucast ?hi) OR (ucast ?lo :: u16)"
    by (rule disjunctive_add_eq_or) (rule bit_eqI, auto simp: bit_simps ref_masks mask_8)
  also have "\<dots> = w"
    by (rule bit_word_eqI) (auto simp: bit_simps ref_masks mask_8)
  finally have 1: "push_bit 8 (ucast ?hi) + ucast ?lo = w" .
  have 2: "drop_bit 4 (w AND 0xFFF0) = a"
    by (rule bit_word_eqI) (use assms(1,2) in \<open>fastforce simp: w bit_simps ref_masks\<close>)
  have 3: "?lo AND 0x0F = ucast b"
    by (rule bit_word_eqI) (use assms(2) in \<open>fastforce simp: w bit_simps ref_masks mask_8\<close>)
  show ?thesis using 1 2 3 by (simp add: make_reference_def)
qed

lemma bit_of_nat_bound: "n < 2 ^ m \<Longrightarrow> bit (of_nat n :: 'a::len word) k \<Longrightarrow> k < m"
proof (rule ccontr)
  assume n: "n < 2 ^ m" and b: "bit (of_nat n :: 'a word) k" and "\<not> k < m"
  then have "n < 2 ^ k" by (meson less_le_trans not_less one_le_numeral power_increasing)
  then have "\<not> bit n k" by (simp add: bit_iff_odd)
  with b show False by (simp add: bit_of_nat_iff)
qed

lemma make_reference_ref_word:
  assumes "off < LZFU_DICTLENGTH" and "2 \<le> len" and "len \<le> 17"
  shows "make_reference (ucast (drop_bit 8 (ref_word off len AND 0xFF00))) (ucast (ref_word off len AND 0xFF)) =
    \<lparr>ref_length = of_nat len, ref_offset = of_nat off\<rparr>"
proof -
  have "bit (of_nat off :: u16) k \<Longrightarrow> k < 12" for k
    by (rule bit_of_nat_bound) (use assms(1) in \<open>simp_all add: LZFU_DICTLENGTH_def\<close>)
  moreover have "bit (of_nat (len - 2) :: u16) k \<Longrightarrow> k < 4" for k
    by (rule bit_of_nat_bound) (use assms(3) in simp_all)
  moreover have "ucast (of_nat (len - 2) :: u16) + 2 = (of_nat len :: u8)"
  proof -
    have "ucast (of_nat (len - 2) :: u16) = (of_nat (len - 2) :: u8)" using assms(3) by (simp add: unsigned_of_nat take_bit_nat_eq_self)
    then show ?thesis using assms(2) by (simp add: of_nat_diff)
  qed
  ultimately show ?thesis
    using make_reference_bytes [of "of_nat off" "of_nat (len - 2)"] by (simp add: ref_word_def)
qed

section \<open>The decompressor executes items\<close>

definition lz_abs_of :: "lz_state \<Rightarrow> lz_abs" where
  "lz_abs_of s = (dict s, dict_writeoffset s, out_data s)"

definition lz_wf :: "lz_state \<Rightarrow> bool" where
  "lz_wf s \<longleftrightarrow> length (dict s) = LZFU_DICTLENGTH \<and> dict_writeoffset s < LZFU_DICTLENGTH"

fun item_len :: "lz_item \<Rightarrow> nat" where
  "item_len (Lit c) = 1"
| "item_len (Ref off len) = len"

lemma put_byte_step:
  assumes "lz_wf s" and "length (out_data s) < unat cap"
  shows "\<exists>s'. obind (append_to_output cap s c) (\<lambda>s1. Ok (append_to_dictionary s1 c)) = Ok s' \<and>
    lz_abs_of s' = put_byte c (lz_abs_of s) \<and> lz_wf s' \<and> in_pos s' = in_pos s"
  using assms
  by (auto simp: append_to_output_def append_to_dictionary_def lz_abs_of_def lz_wf_def LZFU_DICTLENGTH_def)

lemma length_copy_bytes: "length (snd (snd (copy_bytes off i k t))) = length (snd (snd t)) + k"
  by (induction off i k t rule: copy_bytes.induct) (auto simp: split_beta elim: put_byte.elims)

lemma length_exec_item: "length (snd (snd (exec_item x t))) = length (snd (snd t)) + item_len x"
  by (cases x; cases t) (auto simp: length_copy_bytes)

lemma copy_reference_exec:
  assumes "lz_wf s" and "length (out_data s) + k \<le> unat cap"
  shows "\<exists>s'. copy_reference cap off i k s = Ok (Continue s') \<and> lz_abs_of s' = copy_bytes off i k (lz_abs_of s) \<and>
    lz_wf s' \<and> in_pos s' = in_pos s"
  using assms
proof (induction k arbitrary: i s)
  case 0
  then show ?case by simp
next
  case (Suc k)
  let ?c = "dict s ! ((off + i) mod LZFU_DICTLENGTH)"
  have "(off + i) mod LZFU_DICTLENGTH < length (dict s)" using Suc.prems(1) by (simp add: lz_wf_def LZFU_DICTLENGTH_def)
  then have c: "get_dictionary_entry s (off + i) = Ok ?c" by (simp add: get_dictionary_entry_def rd_def)
  have len: "length (out_data s) < unat cap" using Suc.prems(2) by simp
  obtain s1 where s1: "append_to_output cap s ?c = Ok s1" "lz_abs_of (append_to_dictionary s1 ?c) = put_byte ?c (lz_abs_of s)"
    "lz_wf (append_to_dictionary s1 ?c)" "in_pos (append_to_dictionary s1 ?c) = in_pos s"
    using put_byte_step [OF Suc.prems(1) len, of ?c] by auto
  have "length (out_data (append_to_dictionary s1 ?c)) = length (out_data s) + 1"
    using s1(2) by (simp add: lz_abs_of_def)
  with Suc.IH [OF s1(3), of "Suc i"] Suc.prems(2) s1 c len show ?case
    by (simp add: output_would_overflow_def lz_abs_of_def)
qed

lemma get_next_byte_at:
  assumes "cdata = pre @ b # post" and "in_pos s = length pre"
  shows "get_next_byte cdata s = Ok (b, s\<lparr>in_pos := in_pos s + 1\<rparr>)"
  using assms by (simp add: get_next_byte_def)

lemma reference_at:
  assumes "cdata = pre @ item_bytes (Ref off len) @ post" and "in_pos s = length pre"
    and "off < LZFU_DICTLENGTH" and "2 \<le> len" and "len \<le> 17"
  shows "get_next_dictionary_reference cdata s =
    Ok (\<lparr>ref_length = of_nat len, ref_offset = of_nat off\<rparr>, s\<lparr>in_pos := in_pos s + 2\<rparr>)"
proof -
  obtain hi lo where hl: "item_bytes (Ref off len) = [hi, lo]" by simp
  have r: "make_reference hi lo = \<lparr>ref_length = of_nat len, ref_offset = of_nat off\<rparr>"
    using make_reference_ref_word [OF assms(3-5)] hl by simp
  have "get_next_byte cdata s = Ok (hi, s\<lparr>in_pos := in_pos s + 1\<rparr>)"
    by (rule get_next_byte_at [of _ pre _ "lo # post"]) (use assms(1,2) hl in simp_all)
  moreover have "get_next_byte cdata (s\<lparr>in_pos := in_pos s + 1\<rparr>) = Ok (lo, s\<lparr>in_pos := in_pos s + 2\<rparr>)"
    using get_next_byte_at [of cdata "pre @ [hi]" lo post "s\<lparr>in_pos := in_pos s + 1\<rparr>"] assms(1,2) hl by simp
  ultimately show ?thesis using r by (simp add: get_next_dictionary_reference_def)
qed

lemma unat_ref:
  "off < LZFU_DICTLENGTH \<Longrightarrow> unat (of_nat off :: u16) = off"
  "len \<le> 17 \<Longrightarrow> unat (of_nat len :: u8) = len"
  by (simp_all add: unat_of_nat LZFU_DICTLENGTH_def)

lemma uncompress_item_exec:
  assumes "lz_wf s" and "valid_item x (lz_abs_of s)" and "length (out_data s) + item_len x \<le> unat cap"
    and "cdata = pre @ item_bytes x @ post" and "in_pos s = length pre"
  shows "\<exists>s'. uncompress_item cdata cap (is_ref x) s = Ok (Continue s') \<and> lz_abs_of s' = exec_item x (lz_abs_of s) \<and>
    lz_wf s' \<and> in_pos s' = in_pos s + length (item_bytes x)"
proof (cases x)
  case (Lit c)
  let ?s = "s\<lparr>in_pos := in_pos s + 1\<rparr>"
  have b: "get_next_literal cdata s = Ok (c, ?s)"
    using get_next_byte_at [of cdata pre c post s] assms(4,5) Lit by (simp add: get_next_literal_def)
  have wf: "lz_wf ?s" and len: "length (out_data ?s) < unat cap" and ab: "lz_abs_of ?s = lz_abs_of s"
    using assms(1,3) Lit by (simp_all add: lz_wf_def lz_abs_of_def)
  obtain s1 where "append_to_output cap ?s c = Ok s1" "lz_abs_of (append_to_dictionary s1 c) = put_byte c (lz_abs_of s)"
    "lz_wf (append_to_dictionary s1 c)" "in_pos (append_to_dictionary s1 c) = in_pos s + 1"
    using put_byte_step [OF wf len, of c] ab by auto
  then show ?thesis using b len assms(4,5) Lit
    by (simp add: uncompress_item_def output_would_overflow_def input_would_overflow_def)
next
  case (Ref off len)
  have v: "off \<noteq> dict_writeoffset s" "off < LZFU_DICTLENGTH" "2 \<le> len" "len \<le> 17"
    using assms(2) Ref by (simp_all add: lz_abs_of_def)
  let ?s = "s\<lparr>in_pos := in_pos s + 2\<rparr>"
  have wf: "lz_wf ?s" and l: "length (out_data ?s) + len \<le> unat cap" and ab: "lz_abs_of ?s = lz_abs_of s"
    using assms(1,3) Ref by (simp_all add: lz_wf_def lz_abs_of_def)
  from copy_reference_exec [OF wf l, of off 0] reference_at [of cdata pre off len post s] assms(4,5) v Ref ab
  show ?thesis by (auto simp: uncompress_item_def unat_ref)
qed

lemma uncompress_item_end:
  assumes "lz_wf s" and "cdata = pre @ item_bytes (Ref (dict_writeoffset s) 2) @ post" and "in_pos s = length pre"
    and "length (out_data s) < unat cap"
  shows "uncompress_item cdata cap True s = Ok (Return MAPI_E_SUCCESS
    (Some (if out_data s = [] \<or> last (out_data s) = 0 then out_data s else out_data s @ [0])))"
proof -
  have off: "dict_writeoffset s < LZFU_DICTLENGTH" using assms(1) by (simp add: lz_wf_def)
  from reference_at [OF assms(2,3) off] assms(4) off show ?thesis
    by (auto simp: uncompress_item_def unat_ref get_latest_literal_in_output_def append_to_output_def)
qed

lemma control_bit_iff: "(ctl :: u8) AND push_bit k 1 \<noteq> 0 \<longleftrightarrow> bit ctl k"
  by (simp add: and_exp_eq_0_iff_not_bit)

lemma uncompress_bits_exec:
  assumes "lz_wf s" and "valid_items xs (lz_abs_of s)" and "length (out_data s) + sum_list (map item_len xs) \<le> unat cap"
    and "cdata = pre @ concat (map item_bytes xs) @ post" and "in_pos s = length pre"
    and "\<forall>i < length xs. bit ctl (k + i) = is_ref (xs ! i)"
  shows "\<exists>s'. uncompress_bits cdata cap ctl ([k..<k + length xs] @ ks) s = uncompress_bits cdata cap ctl ks s' \<and>
    lz_abs_of s' = fold exec_item xs (lz_abs_of s) \<and> lz_wf s' \<and> in_pos s' = length (pre @ concat (map item_bytes xs))"
  using assms
proof (induction xs arbitrary: s pre k)
  case Nil
  then show ?case by auto
next
  case (Cons x xs)
  have up: "[k..<k + length (x # xs)] = k # [Suc k..<Suc k + length xs]" by (subst upt_rec) simp
  obtain s1 where s1: "uncompress_item cdata cap (is_ref x) s = Ok (Continue s1)"
    "lz_abs_of s1 = exec_item x (lz_abs_of s)" "lz_wf s1" "in_pos s1 = in_pos s + length (item_bytes x)"
    using uncompress_item_exec [OF Cons.prems(1), of x cap cdata pre "concat (map item_bytes xs) @ post"]
      Cons.prems(2-5) by auto
  have "bit ctl k = is_ref x" using Cons.prems(6) by (metis add_0_right length_greater_0_conv list.distinct(1) nth_Cons_0)
  then have go: "uncompress_bits cdata cap ctl ([k..<k + length (x # xs)] @ ks) s =
      uncompress_bits cdata cap ctl ([Suc k..<Suc k + length xs] @ ks) s1"
    unfolding up using s1(1) by (simp only: append_Cons uncompress_bits.simps control_bit_iff) simp
  have len: "length (out_data s1) = length (out_data s) + item_len x"
    using length_exec_item [of x "lz_abs_of s"] s1(2) by (metis lz_abs_of_def snd_conv)
  have "\<forall>i < length xs. bit ctl (Suc k + i) = is_ref (xs ! i)"
  proof (intro allI impI)
    fix i assume "i < length xs"
    with Cons.prems(6) [rule_format, of "Suc i"] show "bit ctl (Suc k + i) = is_ref (xs ! i)" by simp
  qed
  from Cons.IH [OF s1(3), of "pre @ item_bytes x" "Suc k"] Cons.prems(2-5) s1 len this go show ?case by simp
qed

section \<open>The decompressor on groups\<close>

lemma group_bits: "i < length xs \<Longrightarrow> length xs \<le> 8 \<Longrightarrow> bit (ctl_from 0 xs) (0 + i) = is_ref (xs ! i)"
  by (simp add: bit_ctl_from)

lemma uncompress_last_group:
  assumes "lz_wf s" and "valid_items r (lz_abs_of s)" and "length r < 8"
    and "length (out_data s) + sum_list (map item_len r) < unat cap"
    and "fold exec_item r (lz_abs_of s) = (dd, off, out)"
    and "cdata = pre @ enc_group (r @ [Ref off 2])" and "in_pos s = length pre"
  shows "uncompress_loop cdata cap s =
    Ok (MAPI_E_SUCCESS, Some (if out = [] \<or> last out = 0 then out else out @ [0]))"
proof -
  let ?ctl = "ctl_from 0 (r @ [Ref off 2])"
  let ?s = "s\<lparr>in_pos := in_pos s + 1\<rparr>"
  have cd: "cdata = (pre @ [?ctl]) @ concat (map item_bytes r) @ item_bytes (Ref off 2)"
    using assms(6) by (simp add: enc_group_def)
  have wf: "lz_wf ?s" and ab: "lz_abs_of ?s = lz_abs_of s" using assms(1) by (simp_all add: lz_wf_def lz_abs_of_def)
  have ctl: "get_next_control cdata s = Ok (?ctl, ?s)"
    using get_next_byte_at [of cdata pre ?ctl _ s] assms(7) cd by (simp add: get_next_control_def)
  have more: "in_pos s + 1 < length cdata" using assms(7) by (simp add: cd)
  have bits: "\<forall>i < length r. bit ?ctl (0 + i) = is_ref (r ! i)"
    using group_bits [of _ "r @ [Ref off 2]"] assms(3) by (auto simp: nth_append)
  have split8: "[0..<8] = [0..<0 + length r] @ length r # [Suc (length r)..<8]"
    using assms(3) upt_add_eq_append [of 0 "length r" "8 - length r"] by (simp add: upt_conv_Cons)
  obtain s1 where s1: "uncompress_bits cdata cap ?ctl [0..<8] ?s =
      uncompress_bits cdata cap ?ctl (length r # [Suc (length r)..<8]) s1"
    "lz_abs_of s1 = (dd, off, out)" "lz_wf s1" "in_pos s1 = length ((pre @ [?ctl]) @ concat (map item_bytes r))"
    unfolding split8
    using uncompress_bits_exec [OF wf, of r cap cdata "pre @ [?ctl]" "item_bytes (Ref off 2)" ?ctl 0
        "length r # [Suc (length r)..<8]"] assms(2,4,5,7) bits cd ab
    by (auto simp: lz_abs_of_def)
  have "length (snd (snd (fold exec_item r t))) = length (snd (snd t)) + sum_list (map item_len r)" for t
    by (induction r arbitrary: t) (simp_all add: length_exec_item)
  from this [of "lz_abs_of s"] have lout: "length out < unat cap"
    using assms(4,5) by (simp add: lz_abs_of_def)
  have off: "dict_writeoffset s1 = off" "out_data s1 = out" using s1(2) by (simp_all add: lz_abs_of_def)
  have "bit ?ctl (length r)" using assms(3) by (simp add: bit_ctl_from)
  moreover have "uncompress_item cdata cap True s1 = Ok (Return MAPI_E_SUCCESS
      (Some (if out = [] \<or> last out = 0 then out else out @ [0])))"
    using uncompress_item_end [OF s1(3), of cdata "(pre @ [?ctl]) @ concat (map item_bytes r)" "[]" cap] s1(4) off cd lout
    by simp
  ultimately have "uncompress_bits cdata cap ?ctl [0..<8] ?s = Ok (Return MAPI_E_SUCCESS
      (Some (if out = [] \<or> last out = 0 then out else out @ [0])))"
    unfolding s1(1) by (simp only: uncompress_bits.simps control_bit_iff) simp
  with ctl more show ?thesis by (subst uncompress_loop.simps) simp
qed

lemma uncompress_groups:
  assumes "lz_wf s" and "valid_items (concat full @ r) (lz_abs_of s)" and "length r < 8" and "\<forall>g \<in> set full. length g = 8"
    and "length (out_data s) + sum_list (map item_len (concat full @ r)) < unat cap"
    and "fold exec_item (concat full @ r) (lz_abs_of s) = (dd, off, out)"
    and "cdata = pre @ concat (map enc_group full) @ enc_group (r @ [Ref off 2])" and "in_pos s = length pre"
  shows "uncompress_loop cdata cap s =
    Ok (MAPI_E_SUCCESS, Some (if out = [] \<or> last out = 0 then out else out @ [0]))"
  using assms
proof (induction full arbitrary: s pre)
  case Nil
  from uncompress_last_group [OF Nil.prems(1), of r cap dd off out cdata pre] Nil.prems show ?case by simp
next
  case (Cons g full)
  let ?ctl = "ctl_from 0 g"
  let ?post = "concat (map enc_group full) @ enc_group (r @ [Ref off 2])"
  let ?s = "s\<lparr>in_pos := in_pos s + 1\<rparr>"
  have lg: "length g = 8" using Cons.prems(4) by simp
  have cd: "cdata = (pre @ [?ctl]) @ concat (map item_bytes g) @ ?post"
    using Cons.prems(7) by (simp add: enc_group_def [of g])
  have wf: "lz_wf ?s" and ab: "lz_abs_of ?s = lz_abs_of s"
    using Cons.prems(1) by (simp_all add: lz_wf_def lz_abs_of_def)
  have ctl: "get_next_control cdata s = Ok (?ctl, ?s)"
    using get_next_byte_at [of cdata pre ?ctl _ s] Cons.prems(8) cd by (simp add: get_next_control_def)
  have more: "in_pos s + 1 < length cdata"
    using Cons.prems(8) by (simp add: cd enc_group_def [of "r @ [Ref off 2]"])
  have v: "valid_items (xs @ ys) t \<longleftrightarrow> valid_items xs t \<and> valid_items ys (fold exec_item xs t)" for xs ys t
    by (induction xs arbitrary: t) simp_all
  have bits: "\<forall>i < length g. bit ?ctl (0 + i) = is_ref (g ! i)" using group_bits [of _ g] lg by simp
  obtain s1 where s1: "uncompress_bits cdata cap ?ctl ([0..<0 + length g] @ []) ?s = uncompress_bits cdata cap ?ctl [] s1"
    "lz_abs_of s1 = fold exec_item g (lz_abs_of s)" "lz_wf s1" "in_pos s1 = length ((pre @ [?ctl]) @ concat (map item_bytes g))"
    using uncompress_bits_exec [OF wf, of g cap cdata "pre @ [?ctl]" ?post ?ctl 0 "[]"] Cons.prems(2,5,8) bits cd ab
    by (auto simp: v)
  have len: "length (out_data s1) = length (out_data s) + sum_list (map item_len g)"
  proof -
    have "length (snd (snd (fold exec_item g t))) = length (snd (snd t)) + sum_list (map item_len g)" for t
      by (induction g arbitrary: t) (simp_all add: length_exec_item)
    from this [of "lz_abs_of s"] s1(2) show ?thesis by (metis lz_abs_of_def snd_conv)
  qed
  have go: "uncompress_loop cdata cap s = uncompress_loop cdata cap s1"
    using ctl more s1(1) lg by (subst uncompress_loop.simps) simp
  have "uncompress_loop cdata cap s1 =
      Ok (MAPI_E_SUCCESS, Some (if out = [] \<or> last out = 0 then out else out @ [0]))"
    by (rule Cons.IH [OF s1(3), of "(pre @ [?ctl]) @ concat (map item_bytes g)"])
      (use Cons.prems s1 len cd in \<open>simp_all add: v\<close>)
  with go show ?case by simp
qed

section \<open>Round trip\<close>

lemma length_INITDICT [simp]: "length LZFU_INITDICT = 207"
  by (simp add: LZFU_INITDICT_def)

definition terminated :: "u8 list \<Rightarrow> u8 list" where
  "terminated out = (if out = [] \<or> last out = 0 then out else out @ [0])"

lemma group_lengths:
  assumes "\<forall>g \<in> set full. length g = 8"
  shows "length (concat (map enc_group full)) = length full + length (concat (map item_bytes (concat full)))"
    and "length (concat full) = 8 * length full"
  using assms by (induction full) (auto simp: enc_group_def)

text \<open>What the compressor has written when its loop ends.\<close>

lemma compress_stream:
  assumes "n < length rtf" and "3889 \<le> length junk"
  obtains w items full r where
    "let off = w mod LZFU_DICTLENGTH;
         body = concat (map enc_group full) @ enc_group (r @ [Ref off 2]) in
     compress_bytes rtf n = obind (calculateCRC (replicate 16 0 @ body) 16 (of_nat (length body))) (\<lambda>crc.
       Ok (le_bytes 4 (of_nat (length body + 12) :: u32) @ le_bytes 4 (of_nat n :: u32) @ le_bytes 4 LZFU_COMPRESSED @
         le_bytes 4 crc @ body))"
    and "items = concat full @ r" and "length r < 8" and "\<forall>g \<in> set full. length g = 8"
    and "valid_items items (lz_abs_of (initialise_decompression_state junk))"
    and "\<exists>dd. fold exec_item items (lz_abs_of (initialise_decompression_state junk)) = (dd, w mod LZFU_DICTLENGTH, take n rtf)"
    and "length (concat (map item_bytes items)) \<le> n" and "length items \<le> n"
proof -
  let ?d = "LZFU_INITDICT @ replicate (LZFU_DICTLENGTH - LZFU_INITLENGTH) 0"
  let ?dd = "LZFU_INITDICT @ take (LZFU_DICTLENGTH - LZFU_INITLENGTH) junk"
  let ?e = "\<lparr>rtfcomp = replicate LZFU_HEADERLENGTH 0 @ [0x00], control_byte_idx = LZFU_HEADERLENGTH, control_bit = 0x01\<rparr>"
  have ag: "agree ?d ?dd LZFU_INITLENGTH"
    using assms(2) by (simp add: agree_def lz_consts nth_append)
  have ab: "lz_abs_of (initialise_decompression_state junk) = (?dd, LZFU_INITLENGTH mod LZFU_DICTLENGTH, [])"
    by (simp add: lz_abs_of_def initialise_decompression_state_def lz_consts)
  obtain items w dd where it: "compress_loop rtf n 0 ?d LZFU_INITLENGTH ?e = Ok (w, fold emit_item items ?e)"
    "valid_items items (?dd, LZFU_INITLENGTH mod LZFU_DICTLENGTH, [])"
    "fold exec_item items (?dd, LZFU_INITLENGTH mod LZFU_DICTLENGTH, []) = (dd, w mod LZFU_DICTLENGTH, take n rtf)"
    "length (concat (map item_bytes items)) \<le> n" "length items \<le> n"
    using compress_loop_items [OF ag assms(1), of 0 ?e "[]"] by auto
  have e0: "emitted (replicate LZFU_HEADERLENGTH 0) [] [] ?e" by (simp add: emitted_def enc_group_def)
  obtain full r where fr: "emitted (replicate LZFU_HEADERLENGTH 0) full r (fold emit_item items ?e)" "concat full @ r = items"
    using fold_emit_emitted [OF e0, of items] by auto
  let ?off = "w mod LZFU_DICTLENGTH"
  let ?body = "concat (map enc_group full) @ enc_group (r @ [Ref ?off 2])"
  have "push_bit 4 (of_nat ?off) = ref_word ?off 2" by (simp add: ref_word_def)
  then have "rtfcomp (emit_reference (fold emit_item items ?e) (push_bit 4 (of_nat ?off))) = replicate 16 0 @ ?body"
    using emit_step_bytes(2) [OF fr(1), of ?off 2] by (simp add: LZFU_HEADERLENGTH_def)
  then have "compress_bytes rtf n = obind (calculateCRC (replicate 16 0 @ ?body) 16 (of_nat (length ?body))) (\<lambda>crc.
       Ok (le_bytes 4 (of_nat (length ?body + 12) :: u32) @ le_bytes 4 (of_nat n :: u32) @ le_bytes 4 LZFU_COMPRESSED @
         le_bytes 4 crc @ ?body))"
    using it(1) unfolding compress_bytes_def by (simp add: LZFU_HEADERLENGTH_def Let_def)
  then show thesis
    using it(2-5) fr ab
    by (intro that [where w = w and items = items and full = full and r = r]) (auto simp: emitted_def Let_def)
qed

lemma header_fields:
  assumes "cdata = le_bytes 4 a @ le_bytes 4 b @ le_bytes 4 c @ le_bytes 4 d @ body"
  shows "parse_header cdata = Ok \<lparr>cbSize = a, cbRawSize = b, dwMagic = c, dwCRC = d\<rparr>"
proof -
  have t: "take_bit 32 (x :: u32) = x" for x by (simp add: take_bit_word_eq_self)
  have "rd_bytes cdata 0 4 = Ok (le_bytes 4 a)" "rd_bytes cdata 4 4 = Ok (le_bytes 4 b)"
    "rd_bytes cdata 8 4 = Ok (le_bytes 4 c)" "rd_bytes cdata 12 4 = Ok (le_bytes 4 d)"
    using assms rd_bytes_at [of "[]" 0 "le_bytes 4 a" 4] rd_bytes_at [of "le_bytes 4 a" 4 "le_bytes 4 b" 4]
      rd_bytes_at [of "le_bytes 4 a @ le_bytes 4 b" 8 "le_bytes 4 c" 4]
      rd_bytes_at [of "le_bytes 4 a @ le_bytes 4 b @ le_bytes 4 c" 12 "le_bytes 4 d" 4] by simp_all
  then show ?thesis by (simp add: parse_header_def le_value_le_bytes t)
qed

lemma compress_uncompress:
  assumes "n < length rtf" and "n < 2 ^ 31" and "3889 \<le> length junk"
  shows "\<exists>cdata. compress_bytes rtf n = Ok cdata \<and> length cdata \<le> n + n div 8 + 19 \<and>
    uncompress_rtf junk cdata = Ok (MAPI_E_SUCCESS, Some (terminated (take n rtf)))"
proof -
  obtain w items full r where
    cb: "let off = w mod LZFU_DICTLENGTH;
         body = concat (map enc_group full) @ enc_group (r @ [Ref off 2]) in
     compress_bytes rtf n = obind (calculateCRC (replicate 16 0 @ body) 16 (of_nat (length body))) (\<lambda>crc.
       Ok (le_bytes 4 (of_nat (length body + 12) :: u32) @ le_bytes 4 (of_nat n :: u32) @ le_bytes 4 LZFU_COMPRESSED @
         le_bytes 4 crc @ body))"
    and items: "items = concat full @ r" and r8: "length r < 8" and full8: "\<forall>g \<in> set full. length g = 8"
    and valid: "valid_items items (lz_abs_of (initialise_decompression_state junk))"
    and ex: "\<exists>dd. fold exec_item items (lz_abs_of (initialise_decompression_state junk)) = (dd, w mod LZFU_DICTLENGTH, take n rtf)"
    and bytes: "length (concat (map item_bytes items)) \<le> n" and li: "length items \<le> n"
    using compress_stream [OF assms(1,3)] .
  define off where "off = w mod LZFU_DICTLENGTH"
  define body where "body = concat (map enc_group full) @ enc_group (r @ [Ref off 2])"
  let ?s = "initialise_decompression_state junk"
  have lb: "length body = length full + length (concat (map item_bytes items)) + 3"
    using group_lengths(1) [OF full8] by (simp add: body_def enc_group_def items)
  have "8 * length full \<le> n" using group_lengths(2) [OF full8] li items by simp
  then have lb': "length body \<le> n + n div 8 + 3" using lb bytes by linarith
  have small: "length body + 16 < 2 ^ 32" using lb' assms(2) by simp
  have "unat (of_nat (length body) :: u32) = length body" using small by (simp add: unat_of_nat)
  then obtain crc where crc: "calculateCRC (replicate 16 0 @ body) 16 (of_nat (length body)) = Ok crc"
    using calculateCRC_correct [of 16 "of_nat (length body)" "replicate 16 0 @ body"] small by auto
  define cdata where "cdata = le_bytes 4 (of_nat (length body + 12) :: u32) @ le_bytes 4 (of_nat n :: u32) @
    le_bytes 4 LZFU_COMPRESSED @ le_bytes 4 crc @ body"
  have cbd: "compress_bytes rtf n = Ok cdata"
    using cb unfolding Let_def off_def [symmetric] body_def [symmetric] crc by (simp add: cdata_def)
  have lc: "length cdata = length body + 16" by (simp add: cdata_def)
  have "verify_header cdata (of_nat (length cdata)) = Ok (MAPI_E_SUCCESS,
      \<lparr>cbSize = of_nat (length body + 12), cbRawSize = of_nat n, dwMagic = LZFU_COMPRESSED, dwCRC = crc\<rparr>)"
    using header_fields [OF cdata_def] by (simp add: verify_header_def lc)
  then have un: "uncompress_rtf junk cdata = uncompress_loop cdata (initialise_output_state (of_nat n)) ?s"
    using lb lc by (simp add: uncompress_rtf_def LZFU_HEADERLENGTH_def)
  have cap: "unat (initialise_output_state (of_nat n)) = n + 20"
  proof -
    have "initialise_output_state (of_nat n) = of_nat (n + 20)" by (simp add: initialise_output_state_def LZFU_HEADERLENGTH_def)
    then show ?thesis using assms(2) by (simp only: unat_of_nat) simp
  qed
  obtain dd where dd: "fold exec_item items (lz_abs_of ?s) = (dd, off, take n rtf)" using ex by (auto simp: off_def)
  have "length (snd (snd (fold exec_item xs t))) = length (snd (snd t)) + sum_list (map item_len xs)" for xs t
    by (induction xs arbitrary: t) (simp_all add: length_exec_item)
  from this [of items "lz_abs_of ?s"] have tot: "sum_list (map item_len items) = n"
    using dd assms(1) by (simp add: lz_abs_of_def initialise_decompression_state_def)
  have "uncompress_loop cdata (initialise_output_state (of_nat n)) ?s =
      Ok (MAPI_E_SUCCESS, Some (if take n rtf = [] \<or> last (take n rtf) = 0 then take n rtf else take n rtf @ [0]))"
  proof (rule uncompress_groups [OF _ _ r8 full8])
    show "lz_wf ?s" using assms(3) by (simp add: lz_wf_def initialise_decompression_state_def lz_consts)
    show "valid_items (concat full @ r) (lz_abs_of ?s)" using valid items by simp
    show "length (out_data ?s) + sum_list (map item_len (concat full @ r)) < unat (initialise_output_state (of_nat n))"
      using tot items cap by (simp add: initialise_decompression_state_def)
    show "fold exec_item (concat full @ r) (lz_abs_of ?s) = (dd, off, take n rtf)" using dd items by simp
    show "cdata = (le_bytes 4 (of_nat (length body + 12) :: u32) @ le_bytes 4 (of_nat n :: u32) @
      le_bytes 4 LZFU_COMPRESSED @ le_bytes 4 crc) @ concat (map enc_group full) @ enc_group (r @ [Ref off 2])"
      by (simp add: cdata_def body_def)
    show "in_pos ?s = length (le_bytes 4 (of_nat (length body + 12) :: u32) @ le_bytes 4 (of_nat n :: u32) @
      le_bytes 4 LZFU_COMPRESSED @ le_bytes 4 crc)"
      by (simp add: initialise_decompression_state_def LZFU_HEADERLENGTH_def)
  qed
  then show ?thesis using cbd un lc lb' by (auto simp: terminated_def)
qed

section \<open>Incompressible text\<close>

text \<open>A negative \<^verbatim>\<open>char\<close> never equals a byte of the dictionary.\<close>

lemma longest_match_negative:
  assumes "sint (rtf ! idx) < 0" and "idx < length rtf" and "length d = LZFU_DICTLENGTH"
  shows "longest_match_loop rtf n idx it \<lparr>mdict = d, dict_write_idx = w, best_match_length = b, dict_match_offset = off\<rparr>
    = Ok \<lparr>mdict = d, dict_write_idx = w, best_match_length = b, dict_match_offset = off\<rparr>"
proof (induction "LZFU_DICTLENGTH - it" arbitrary: it)
  case 0
  then show ?case by (subst longest_match_loop.simps) simp
next
  case (Suc k)
  let ?st = "\<lparr>mdict = d, dict_write_idx = w, best_match_length = b, dict_match_offset = off\<rparr>"
  have "match_loop rtf n idx it 0 ?st = Ok ?st" if "it < LZFU_DICTLENGTH"
  proof -
    have "sint (rtf ! idx) \<noteq> uint (d ! it)" using assms(1) uint_ge_0 [of "d ! it"] by linarith
    with that assms(2,3) show ?thesis by (subst match_loop.simps) (simp add: rd_def)
  qed
  with Suc.hyps(1) [of "it + 1"] Suc.hyps(2) show ?case by (subst longest_match_loop.simps) auto
qed

lemma compress_negative:
  assumes "\<forall>i. idx \<le> i \<and> i < n \<longrightarrow> sint (rtf ! i) < 0" and "n \<le> length rtf" and "length d = LZFU_DICTLENGTH" and "idx \<le> n"
  shows "\<exists>w'. compress_loop rtf n idx d w e = Ok (w', fold emit_item (map Lit (take (n - idx) (drop idx rtf))) e)"
  using assms
proof (induction "n - idx" arbitrary: idx d w e)
  case 0
  then show ?case by (subst compress_loop.simps) simp
next
  case (Suc k)
  then have idx: "idx < n" "idx < length rtf" by auto
  have neg: "sint (rtf ! idx) < 0" using Suc.prems(1) idx by simp
  have lm: "longest_match rtf n idx d w = Ok \<lparr>mdict = d, dict_write_idx = w, best_match_length = 0, dict_match_offset = 0\<rparr>"
    using longest_match_negative [OF neg idx(2) Suc.prems(3)] by (simp add: longest_match_def)
  have tk: "take (n - idx) (drop idx rtf) = rtf ! idx # take (n - Suc idx) (drop (Suc idx) rtf)"
    using idx by (simp add: Cons_nth_drop_Suc [symmetric] Suc_diff_Suc [symmetric])
  have "compress_loop rtf n idx d w e =
      compress_loop rtf n (Suc idx) (d[w mod LZFU_DICTLENGTH := rtf ! idx]) (w + 1) (emit_item (Lit (rtf ! idx)) e)"
    using lm idx by (subst compress_loop.simps) simp
  with Suc.hyps(1) [of "Suc idx" "d[w mod LZFU_DICTLENGTH := rtf ! idx]" "w + 1" "emit_item (Lit (rtf ! idx)) e"]
    Suc.hyps(2) Suc.prems idx tk show ?case by simp
qed

lemma compress_negative_length:
  assumes "\<forall>i < n. sint (rtf ! i) < 0" and "n \<le> length rtf" and "compress_bytes rtf n = Ok cdata"
  shows "length cdata = n + n div 8 + 19"
proof -
  let ?d = "LZFU_INITDICT @ replicate (LZFU_DICTLENGTH - LZFU_INITLENGTH) 0"
  let ?e = "\<lparr>rtfcomp = replicate LZFU_HEADERLENGTH 0 @ [0x00], control_byte_idx = LZFU_HEADERLENGTH, control_bit = 0x01\<rparr>"
  let ?items = "map Lit (take n rtf)"
  obtain w where w: "compress_loop rtf n 0 ?d LZFU_INITLENGTH ?e = Ok (w, fold emit_item ?items ?e)"
    using compress_negative [of 0 n rtf ?d LZFU_INITLENGTH ?e] assms(1,2) by (auto simp: lz_consts)
  have e0: "emitted (replicate LZFU_HEADERLENGTH 0) [] [] ?e" by (simp add: emitted_def enc_group_def)
  obtain full r where fr: "emitted (replicate LZFU_HEADERLENGTH 0) full r (fold emit_item ?items ?e)" "concat full @ r = ?items"
    using fold_emit_emitted [OF e0, of ?items] by auto
  let ?off = "w mod LZFU_DICTLENGTH"
  have full8: "\<forall>g \<in> set full. length g = 8" and r8: "length r < 8" using fr(1) by (simp_all add: emitted_def)
  have "push_bit 4 (of_nat ?off) = ref_word ?off 2" by (simp add: ref_word_def)
  then have out: "rtfcomp (emit_reference (fold emit_item ?items ?e) (push_bit 4 (of_nat ?off))) =
      replicate 16 0 @ concat (map enc_group full) @ enc_group (r @ [Ref ?off 2])"
    using emit_step_bytes(2) [OF fr(1), of ?off 2] by (simp add: LZFU_HEADERLENGTH_def)
  then have "length cdata = 16 + length (concat (map enc_group full)) + length (enc_group (r @ [Ref ?off 2]))"
    using w assms(3) unfolding compress_bytes_def by (auto simp: LZFU_HEADERLENGTH_def Let_def)
  moreover have "length (concat (map item_bytes (concat full @ r))) = n"
    unfolding fr(2) using assms(2) by (simp add: comp_def length_concat sum_list_triv)
  moreover have "n = 8 * length full + length r"
    using arg_cong [OF fr(2), of length] group_lengths(2) [OF full8] assms(2) by simp
  moreover have "length (enc_group (r @ [Ref ?off 2])) = length (concat (map item_bytes r)) + 3" by (simp add: enc_group_def)
  ultimately show ?thesis using group_lengths(1) [OF full8] r8 by simp
qed

section \<open>Reading in pieces\<close>

lemma wrap_loop:
  assumes "\<forall>i < m. fst (reads (k + i)) = MAPI_E_SUCCESS \<and> snd (reads (k + i)) \<noteq> []"
    and "reads (k + m) = (MAPI_E_SUCCESS, [])"
  shows "while_option (\<lambda>(k, data, retval, going). going)
      (\<lambda>(k, data, retval, going).
         if fst (reads k) \<noteq> MAPI_E_SUCCESS then (k, data, fst (reads k), False)
         else (Suc k, data @ snd (reads k), retval, snd (reads k) \<noteq> []))
      (k, acc, MAPI_E_SUCCESS, True) =
    Some (Suc (k + m), acc @ concat (map (\<lambda>i. snd (reads (k + i))) [0..<m]), MAPI_E_SUCCESS, False)"
  using assms
proof (induction m arbitrary: k acc)
  case 0
  then show ?case by (subst while_option_unfold, simp, subst while_option_unfold, simp)
next
  case (Suc m)
  have 1: "\<forall>i < m. fst (reads (Suc k + i)) = MAPI_E_SUCCESS \<and> snd (reads (Suc k + i)) \<noteq> []"
    using Suc.prems(1) by (metis add_Suc_shift not_less_eq)
  have 0: "fst (reads k) = MAPI_E_SUCCESS" "snd (reads k) \<noteq> []" using Suc.prems(1) [rule_format, of 0] by simp_all
  have "map (\<lambda>i. snd (reads (k + i))) [0..<Suc m] = snd (reads k) # map (\<lambda>i. snd (reads (Suc k + i))) [0..<m]"
  proof -
    have "[0..<Suc m] = 0 # map Suc [0..<m]" by (simp add: upt_conv_Cons map_Suc_upt del: upt_Suc)
    then show ?thesis by (simp del: upt_Suc)
  qed
  with Suc.IH [OF 1, of "acc @ snd (reads k)"] Suc.prems(2) 0 show ?case
    by (subst while_option_unfold) simp
qed

section \<open>Properties\<close>

text \<open>C13 Decompressing what \<open>compress_rtf\<close> writes gives back the text, followed by one NUL byte when the
  text does not end in one. The text has \<open>n\<close> bytes and one more readable byte behind it; the
  decompressor's dictionary may start with any contents behind the initial text. The last part
  says when the buffer that \<open>compress_rtf\<close> allocates is large enough for what it writes.\<close>

theorem lzfu_roundtrip:
  assumes "n < length rtf" and "n < 2 ^ 31" and "3889 \<le> length junk"
  shows "\<exists>cdata. compress_bytes rtf n = Ok cdata \<and>
    uncompress_rtf junk cdata = Ok (MAPI_E_SUCCESS, Some (terminated (take n rtf))) \<and>
    length cdata \<le> n + n div 8 + 19 \<and>
    compress_rtf rtf n = (if length cdata \<le> 9 * n div 8 + 16 then Ok cdata else Fault)"
  using compress_uncompress [OF assms] by (auto simp: compress_rtf_def LZFU_HEADERLENGTH_def)

theorem lzfu_roundtrip_witness:
  "\<exists>cdata. compress_bytes [0x7b, 0x5c, 0x72, 0x74, 0x66, 0x31, 0x7d, 0] 7 = Ok cdata \<and>
    uncompress_rtf (replicate 3889 0) cdata =
      Ok (MAPI_E_SUCCESS, Some [0x7b, 0x5c, 0x72, 0x74, 0x66, 0x31, 0x7d, 0])"
proof -
  have "(3889 :: nat) \<le> length (replicate 3889 (0 :: u8))" by (simp only: length_replicate)
  from lzfu_roundtrip [of 7 "[0x7b, 0x5c, 0x72, 0x74, 0x66, 0x31, 0x7d, 0]", OF _ _ this]
  show ?thesis by (auto simp: terminated_def)
qed

text \<open>C23 The checksum by table look-up is the bit-by-bit CRC with the reflected polynomial
  \<open>0xEDB88320\<close>, start value 0 and no final inversion, of the part of the buffer it is given.\<close>

theorem calculateCRC_is_crc32:
  assumes "unat off + unat len \<le> length inp" and "unat off + unat len < 2 ^ 32"
  shows "calculateCRC inp off len = Ok (crc_ref (take (unat len) (drop (unat off) inp)))"
  by (rule calculateCRC_correct [OF assms])

theorem calculateCRC_is_crc32_witness: "calculateCRC [9, 1, 2, 3] 1 2 = Ok (crc_ref [1, 2])"
  using calculateCRC_is_crc32 [of 1 2 "[9, 1, 2, 3]"] by simp

text \<open>A text without any match does not fit: for a text of bytes from 0x80 on, which as negative
  \<^verbatim>\<open>char\<close> values never equal a dictionary byte, \<open>compress_rtf\<close> writes three bytes behind its buffer.
  The empty text is a case of this.\<close>

theorem compress_rtf_overflow:
  assumes "\<forall>i < n. sint (rtf ! i) < 0" and "n < length rtf" and "n < 2 ^ 31"
  shows "compress_rtf rtf n = Fault"
proof -
  obtain cdata where c: "compress_bytes rtf n = Ok cdata"
    using compress_uncompress [OF assms(2,3), of "replicate 3889 0"] by auto
  have "length cdata = n + n div 8 + 19" using compress_negative_length [OF assms(1) _ c] assms(2) by simp
  moreover have "9 * n div 8 = n + n div 8" by simp
  ultimately show ?thesis using c by (simp add: compress_rtf_def LZFU_HEADERLENGTH_def)
qed

theorem compress_rtf_overflow_witness: "compress_rtf [0xe9, 0xe8, 0] 2 = Fault \<and> compress_rtf [0] 0 = Fault"
proof -
  have "\<forall>i < 2. sint (([0xe9, 0xe8, 0] :: u8 list) ! i) < 0" by (simp add: numeral_2_eq_2 All_less_Suc)
  then show ?thesis using compress_rtf_overflow [of 2 "[0xe9, 0xe8, 0]"] compress_rtf_overflow [of 0 "[0]"] by simp
qed

text \<open>Malformed input is refused before anything is decompressed: input that is too short, whose
  size field does not match or whose magic is neither of the two known ones gives
  \<open>MAPI_E_CORRUPT_DATA\<close>.\<close>

theorem uncompress_rtf_rejects:
  assumes "length cdata < 17 \<or> (\<exists>h. parse_header cdata = Ok h \<and>
     (cbSize h \<noteq> of_nat (length cdata) - 4 \<or> dwMagic h \<noteq> LZFU_COMPRESSED \<and> dwMagic h \<noteq> LZFU_UNCOMPRESSED))"
  shows "uncompress_rtf junk cdata = Ok (MAPI_E_CORRUPT_DATA, None)"
  using assms by (auto simp: uncompress_rtf_def verify_header_def LZFU_HEADERLENGTH_def)

theorem uncompress_rtf_rejects_witness: "uncompress_rtf [] [1, 2, 3] = Ok (MAPI_E_CORRUPT_DATA, None)"
  using uncompress_rtf_rejects [of "[1, 2, 3]" "[]"] by simp

text \<open>The bounds checks of the decompressor are off by one and its buffer size wraps. With a raw
  size of \<open>2 ^ 32 - 20\<close> the buffer is empty and the first literal is written outside it. A stream
  that ends inside a group of literals makes it read the byte behind the input.\<close>

theorem uncompress_rtf_unsafe:
  assumes "parse_header (hdr @ body) = Ok h" and "length hdr = 16" and "dwMagic h = LZFU_COMPRESSED"
    and "cbSize h = of_nat (length (hdr @ body)) - 4"
  shows "(cbRawSize h = 0xFFFFFFEC \<and> body = 0 # b # rest \<longrightarrow> uncompress_rtf junk (hdr @ body) = Fault) \<and>
    (cbRawSize h = 1 \<and> body = [0, b] \<longrightarrow> uncompress_rtf junk (hdr @ body) = Fault)"
proof (intro conjI impI)
  let ?s = "initialise_decompression_state junk"
  have vh: "verify_header (hdr @ body) (of_nat (length (hdr @ body))) = Ok (MAPI_E_SUCCESS, h)"
    using assms(1,3,4) by (simp add: verify_header_def)
  have un: "uncompress_rtf junk (hdr @ body) =
      uncompress_loop (hdr @ body) (initialise_output_state (cbRawSize h)) ?s" if "body \<noteq> []"
    using vh assms(2) that by (simp add: uncompress_rtf_def LZFU_HEADERLENGTH_def Suc_le_eq not_less_eq_eq)
  have up: "[0..<8] = 0 # 1 # [2..<8]" by (simp add: upt_rec)
  have pos: "in_pos ?s = 16" "out_data ?s = []"
    by (simp_all add: initialise_decompression_state_def LZFU_HEADERLENGTH_def)
  note defs = get_next_control_def get_next_literal_def get_next_byte_def uncompress_item_def output_would_overflow_def
    input_would_overflow_def append_to_output_def append_to_dictionary_def rd_def nth_append
  {
    assume "cbRawSize h = 0xFFFFFFEC \<and> body = 0 # b # rest"
    then have b: "body = 0 # b # rest" and cap: "unat (initialise_output_state (cbRawSize h)) = 0"
      by (simp_all add: initialise_output_state_def LZFU_HEADERLENGTH_def)
    have c: "get_next_control (hdr @ body) ?s = Ok (0, ?s\<lparr>in_pos := 17\<rparr>)"
      using assms(2) pos b by (simp add: defs)
    have "uncompress_item (hdr @ body) (initialise_output_state (cbRawSize h)) False (?s\<lparr>in_pos := 17\<rparr>) = Fault"
      using assms(2) pos b cap by (simp add: defs)
    then have "uncompress_bits (hdr @ body) (initialise_output_state (cbRawSize h)) 0 [0..<8] (?s\<lparr>in_pos := 17\<rparr>) = Fault"
      unfolding up by simp
    with c un b assms(2) pos show "uncompress_rtf junk (hdr @ body) = Fault"
      by (subst un) (simp_all add: uncompress_loop.simps)
  next
    assume "cbRawSize h = 1 \<and> body = [0, b]"
    then have b: "body = [0, b]" and cap: "unat (initialise_output_state (cbRawSize h)) = 21"
      by (simp_all add: initialise_output_state_def LZFU_HEADERLENGTH_def)
    have c: "get_next_control (hdr @ body) ?s = Ok (0, ?s\<lparr>in_pos := 17\<rparr>)"
      using assms(2) pos b by (simp add: defs)
    obtain s1 where s1: "uncompress_item (hdr @ body) (initialise_output_state (cbRawSize h)) False (?s\<lparr>in_pos := 17\<rparr>) =
        Ok (Continue s1)" "in_pos s1 = 18" "length (out_data s1) = 1"
      using assms(2) pos b cap by (simp add: defs)
    have "uncompress_item (hdr @ body) (initialise_output_state (cbRawSize h)) False s1 = Fault"
      using assms(2) s1(2,3) b cap by (simp add: defs)
    then have "uncompress_bits (hdr @ body) (initialise_output_state (cbRawSize h)) 0 [0..<8] (?s\<lparr>in_pos := 17\<rparr>) = Fault"
      unfolding up using s1(1) by simp
    with c un b assms(2) pos show "uncompress_rtf junk (hdr @ body) = Fault"
      by (subst un) (simp_all add: uncompress_loop.simps)
  }
qed

theorem uncompress_rtf_unsafe_witness:
  "uncompress_rtf [] (le_bytes 4 (14 :: u32) @ le_bytes 4 (1 :: u32) @ le_bytes 4 LZFU_COMPRESSED @ le_bytes 4 (0 :: u32)
     @ [0, 65]) = Fault"
proof -
  let ?hdr = "le_bytes 4 (14 :: u32) @ le_bytes 4 (1 :: u32) @ le_bytes 4 LZFU_COMPRESSED @ le_bytes 4 (0 :: u32)"
  have "parse_header (?hdr @ [0, 65]) = Ok \<lparr>cbSize = 14, cbRawSize = 1, dwMagic = LZFU_COMPRESSED, dwCRC = 0\<rparr>"
    by (rule header_fields [of _ _ _ _ _ "[0, 65]"]) simp
  from uncompress_rtf_unsafe [OF this, of 65 "[]" "[]"] show ?thesis by simp
qed

text \<open>A stream that is read in pieces is decompressed as a whole: after any number of non-empty
  reads and an empty one, \<open>WrapCompressedRTFStream\<close> returns what decompressing their concatenation
  gives.\<close>

theorem WrapCompressedRTFStream_whole:
  assumes "\<forall>i < m. fst (reads i) = MAPI_E_SUCCESS \<and> snd (reads i) \<noteq> []" and "reads m = (MAPI_E_SUCCESS, [])"
  shows "WrapCompressedRTFStream True True True reads junk = uncompress_rtf junk (concat (map (snd \<circ> reads) [0..<m]))"
  using wrap_loop [of m reads 0 "[]"] assms by (simp add: WrapCompressedRTFStream_def comp_def)

theorem WrapCompressedRTFStream_whole_witness:
  "WrapCompressedRTFStream True True True
     (\<lambda>k. if k = 0 then (MAPI_E_SUCCESS, [1, 2]) else if k = 1 then (MAPI_E_SUCCESS, [3]) else (MAPI_E_SUCCESS, [])) []
   = uncompress_rtf [] [1, 2, 3]"
  using WrapCompressedRTFStream_whole [of 2 "\<lambda>k. if k = 0 then (MAPI_E_SUCCESS, [1, 2])
     else if k = 1 then (MAPI_E_SUCCESS, [3]) else (MAPI_E_SUCCESS, [])" "[]"]
  by (simp add: upt_rec)

end
