(* ===== verification/Mapi_Prop.thy ===== *)
theory Mapi_Prop
  imports OC_Prelude
begin

unbundle bit_operations_syntax

text \<open>
  Property types and values, shared by the theories on properties: the type codes of
  \<^verbatim>\<open>src/libmapi/mapidefs.h\<close> and the union of \<^verbatim>\<open>struct SPropValue\<close> as a datatype. Strings are the bytes in front of the
  terminating zero, a double is its 64 bits, a FILETIME its low and high words, a FlatUID its 16
  bytes; \<open>VNullPtr\<close> is a null string or GUID pointer, \<open>VDangling\<close> one into a stack frame that has gone.
\<close>

abbreviation PT_NULL :: u32 where "PT_NULL \<equiv> 0x1"
abbreviation PT_SHORT :: u32 where "PT_SHORT \<equiv> 0x2"
abbreviation PT_LONG :: u32 where "PT_LONG \<equiv> 0x3"
abbreviation PT_DOUBLE :: u32 where "PT_DOUBLE \<equiv> 0x5"
abbreviation PT_ERROR :: u32 where "PT_ERROR \<equiv> 0xa"
abbreviation PT_BOOLEAN :: u32 where "PT_BOOLEAN \<equiv> 0xb"
abbreviation PT_OBJECT :: u32 where "PT_OBJECT \<equiv> 0xd"
abbreviation PT_I8 :: u32 where "PT_I8 \<equiv> 0x14"
abbreviation PT_STRING8 :: u32 where "PT_STRING8 \<equiv> 0x1e"
abbreviation PT_UNICODE :: u32 where "PT_UNICODE \<equiv> 0x1f"
abbreviation PT_SYSTIME :: u32 where "PT_SYSTIME \<equiv> 0x40"
abbreviation PT_CLSID :: u32 where "PT_CLSID \<equiv> 0x48"
abbreviation PT_SVREID :: u32 where "PT_SVREID \<equiv> 0xFB"
abbreviation PT_BINARY :: u32 where "PT_BINARY \<equiv> 0x102"
abbreviation PT_MV_SHORT :: u32 where "PT_MV_SHORT \<equiv> 0x1002"
abbreviation PT_MV_LONG :: u32 where "PT_MV_LONG \<equiv> 0x1003"
abbreviation PT_MV_STRING8 :: u32 where "PT_MV_STRING8 \<equiv> 0x101e"
abbreviation PT_MV_UNICODE :: u32 where "PT_MV_UNICODE \<equiv> 0x101f"
abbreviation PT_MV_SYSTIME :: u32 where "PT_MV_SYSTIME \<equiv> 0x1040"
abbreviation PT_MV_CLSID :: u32 where "PT_MV_CLSID \<equiv> 0x1048"
abbreviation PT_MV_BINARY :: u32 where "PT_MV_BINARY \<equiv> 0x1102"
abbreviation MV_FLAG :: u32 where "MV_FLAG \<equiv> 0x1000"

datatype prop_value =
    VNull u32 | VShort u16 | VLong u32 | VDouble u64 | VBoolean u8 | VI8 u64
  | VString8 "u8 list" | VUnicode "u8 list" | VSysTime "u32 \<times> u32" | VClsid "u8 list"
  | VBinary "u8 list" | VError u32 | VObject u32
  | VMVBinary "u8 list list" | VMVShort "u16 list" | VMVLong "u32 list" | VMVString8 "u8 list list"
  | VMVClsid "u8 list list" | VMVUnicode "u8 list list" | VMVSysTime "(u32 \<times> u32) list"
  | VNullPtr | VDangling

definition prop_type :: "u32 \<Rightarrow> u32" where
  "prop_type tag = tag AND 0xFFFF"

definition prop_id :: "u32 \<Rightarrow> u32" where
  "prop_id tag = tag AND 0xFFFF0000"

text \<open>The types whose member of the union a value is.\<close>

fun fits :: "u32 \<Rightarrow> prop_value \<Rightarrow> bool" where
  "fits t (VNull _) = (t = PT_NULL)"
| "fits t (VShort _) = (t = PT_SHORT)"
| "fits t (VLong _) = (t = PT_LONG)"
| "fits t (VDouble _) = (t = PT_DOUBLE)"
| "fits t (VBoolean _) = (t = PT_BOOLEAN)"
| "fits t (VI8 _) = (t = PT_I8)"
| "fits t (VString8 _) = (t = PT_STRING8)"
| "fits t (VUnicode _) = (t = PT_UNICODE)"
| "fits t (VSysTime _) = (t = PT_SYSTIME)"
| "fits t (VClsid bs) = (t = PT_CLSID \<and> length bs = 16)"
| "fits t (VBinary _) = (t = PT_BINARY \<or> t = PT_SVREID)"
| "fits t (VError _) = (t = PT_ERROR)"
| "fits t (VObject _) = (t = PT_OBJECT)"
| "fits t (VMVBinary _) = (t = PT_MV_BINARY)"
| "fits t (VMVShort _) = (t = PT_MV_SHORT)"
| "fits t (VMVLong _) = (t = PT_MV_LONG)"
| "fits t (VMVString8 _) = (t = PT_MV_STRING8)"
| "fits t (VMVClsid gs) = (t = PT_MV_CLSID \<and> list_all (\<lambda>bs. length bs = 16) gs)"
| "fits t (VMVUnicode _) = (t = PT_MV_UNICODE)"
| "fits t (VMVSysTime _) = (t = PT_MV_SYSTIME)"
| "fits t VNullPtr = (t = PT_STRING8 \<or> t = PT_UNICODE \<or> t = PT_CLSID)"
| "fits t VDangling = (t = PT_STRING8 \<or> t = PT_UNICODE \<or> t = PT_CLSID)"

end
