(* ===== verification/Fxparser.thy ===== *)
theory Fxparser
  imports Mapi_Prop
begin

unbundle bit_operations_syntax

text \<open>
  The fast transfer stream parser, \<^verbatim>\<open>src/libmapi/fxparser.c\<close>. The parser is fed a stream in pieces and
  calls back for markers, deleted properties, named properties and property values. The callbacks
  and the conversion of UTF-16 strings (\<^verbatim>\<open>pull_ucs2_talloc\<close> of Samba) are arguments. An assertion that
  fails is \<open>Abort\<close>, as in development builds.
\<close>

section \<open>Pulling values\<close>

text \<open>
  A puller reads at an index of the data: a value and the new index, or \<open>None\<close> where the C function
  returns \<^verbatim>\<open>false\<close> because there is not enough data. The index is a \<^verbatim>\<open>uint32_t\<close>, so the sums in the
  checks wrap.
\<close>

type_synonym 'a puller = "u8 list \<Rightarrow> nat \<Rightarrow> ('a \<times> nat) option outcome"

definition pull_return :: "'a \<Rightarrow> 'a puller" where
  "pull_return v data idx = Ok (Some (v, idx))"

definition pull_bind :: "'a puller \<Rightarrow> ('a \<Rightarrow> 'b puller) \<Rightarrow> 'b puller" where
  "pull_bind f g data idx =
     obind (f data idx) (\<lambda>r. case r of None \<Rightarrow> Ok None | Some (v, idx') \<Rightarrow> g v data idx')"

definition pull_assert :: "'a puller" where
  "pull_assert data idx = Abort"

definition idx_plus :: "nat \<Rightarrow> nat \<Rightarrow> nat" where
  "idx_plus idx n = (idx + n) mod 2 ^ 32"

definition pull_need :: "nat \<Rightarrow> unit puller" where
  "pull_need n data idx = (if idx_plus idx n > length data then Ok None else Ok (Some ((), idx)))"

text \<open>The check of a length that comes from the stream. Where the sum wraps the check passes, although
  the bytes are not there: the copy that follows writes through the pointer of an array that talloc
  refused to allocate (it has a limit of 256 MB) or reads behind the data.\<close>

definition pull_room :: "u32 \<Rightarrow> unit puller" where
  "pull_room len data idx =
     (if idx_plus idx (unat len) > length data then Ok None
      else if idx + unat len > length data then Fault
      else Ok (Some ((), idx)))"

definition pull_raw :: "nat \<Rightarrow> u8 list puller" where
  "pull_raw n data idx = obind (rd_bytes data idx n) (\<lambda>bs. Ok (Some (bs, idx + n)))"

definition pull_uint8_t :: "u8 puller" where
  "pull_uint8_t = pull_bind (pull_need 1) (\<lambda>_. pull_bind (pull_raw 1) (\<lambda>bs. pull_return (bs ! 0)))"

definition pull_uint16_t :: "u16 puller" where
  "pull_uint16_t = pull_bind (pull_need 2) (\<lambda>_. pull_bind (pull_raw 2) (\<lambda>bs.
     pull_return (ucast (bs ! 0) + push_bit 8 (ucast (bs ! 1)))))"

definition pull_uint32_t :: "u32 puller" where
  "pull_uint32_t = pull_bind (pull_need 4) (\<lambda>_. pull_bind (pull_raw 4) (\<lambda>bs.
     pull_return (ucast (bs ! 0) + push_bit 8 (ucast (bs ! 1)) + push_bit 16 (ucast (bs ! 2))
                  + push_bit 24 (ucast (bs ! 3)))))"

definition pull_tag :: "u32 puller" where
  "pull_tag = pull_uint32_t"

fun pull_repeat :: "nat \<Rightarrow> 'a puller \<Rightarrow> 'a list puller" where
  "pull_repeat 0 f = pull_return []"
| "pull_repeat (Suc n) f = pull_bind f (\<lambda>v. pull_bind (pull_repeat n f) (\<lambda>vs. pull_return (v # vs)))"

definition pull_uint8_data :: "u32 \<Rightarrow> u8 list puller" where
  "pull_uint8_data read_len = pull_repeat (unat read_len) pull_uint8_t"

definition pull_int64_t :: "u64 puller" where
  "pull_int64_t = pull_bind (pull_need 8) (\<lambda>_. pull_bind (pull_raw 8) (\<lambda>bs.
     pull_return (ucast (bs ! 0) + push_bit 8 (ucast (bs ! 1)) + push_bit 16 (ucast (bs ! 2))
                  + push_bit 24 (ucast (bs ! 3)) + push_bit 32 (ucast (bs ! 4)) + push_bit 40 (ucast (bs ! 5))
                  + push_bit 48 (ucast (bs ! 6)) + push_bit 56 (ucast (bs ! 7)))))"

text \<open>A double is kept as its 64 bits.\<close>

definition pull_double :: "u64 puller" where
  "pull_double = pull_int64_t"

record fx_guid =
  time_low :: u32
  time_mid :: u16
  time_hi_and_version :: u16
  clock_seq :: "u8 list"
  node :: "u8 list"

definition pull_guid :: "fx_guid puller" where
  "pull_guid =
     pull_bind (pull_need 16) (\<lambda>_.
     pull_bind pull_uint32_t (\<lambda>tl.
     pull_bind pull_uint16_t (\<lambda>tm.
     pull_bind pull_uint16_t (\<lambda>th.
     pull_bind pull_uint8_t (\<lambda>c0.
     pull_bind pull_uint8_t (\<lambda>c1.
     pull_bind (pull_repeat 6 pull_uint8_t) (\<lambda>nd.
     pull_return \<lparr>time_low = tl, time_mid = tm, time_hi_and_version = th, clock_seq = [c0, c1], node = nd\<rparr>)))))))"

definition pull_systime :: "(u32 \<times> u32) puller" where
  "pull_systime =
     pull_bind (pull_need 8) (\<lambda>_.
     pull_bind pull_uint32_t (\<lambda>lo. pull_bind pull_uint32_t (\<lambda>hi. pull_return (lo, hi))))"

definition pull_clsid :: "u8 list puller" where
  "pull_clsid = pull_bind (pull_need 16) (\<lambda>_. pull_repeat 16 pull_uint8_t)"

definition pull_string8 :: "u8 list puller" where
  "pull_string8 =
     pull_bind pull_uint32_t (\<lambda>len.
     pull_bind (pull_room len) (\<lambda>_. pull_repeat (unat len) pull_uint8_t))"

definition fetch_ucs2_data :: "u32 \<Rightarrow> u8 list puller" where
  "fetch_ucs2_data numbytes = pull_bind (pull_room numbytes) (\<lambda>_. pull_raw (unat numbytes))"

text \<open>The index behind the first zero code unit. The data is not empty here (a GUID was read from it), so
  \<^verbatim>\<open>data.length - 1\<close> does not wrap. An array with an odd number of bytes has no terminating code unit; what
  \<^verbatim>\<open>pull_ucs2_talloc\<close> makes of it is left to the argument that stands for it.\<close>

function find_ucs2_null :: "u8 list \<Rightarrow> nat \<Rightarrow> nat option" where
  "find_ucs2_null data idx_local =
     (if idx_local + 1 < length data then
        (if data ! idx_local = 0 \<and> data ! (idx_local + 1) = 0 then Some (idx_local + 2)
         else find_ucs2_null data (idx_local + 2))
      else None)"
  by pat_completeness auto
termination by (relation "measure (\<lambda>(data, i). length data - i)") auto

declare find_ucs2_null.simps [simp del]

definition fetch_ucs2_nullterminated :: "u8 list puller" where
  "fetch_ucs2_nullterminated data idx =
     (case find_ucs2_null data idx of
        None \<Rightarrow> Ok None
      | Some idx_local \<Rightarrow> fetch_ucs2_data (of_nat (idx_local - idx)) data idx)"

definition pull_unicode :: "(u8 list \<Rightarrow> u8 list) \<Rightarrow> u8 list puller" where
  "pull_unicode pull_ucs2 =
     pull_bind pull_uint32_t (\<lambda>len.
     pull_bind (pull_room len) (\<lambda>_.
     pull_bind (fetch_ucs2_data len) (\<lambda>bs. pull_return (pull_ucs2 bs))))"

definition pull_binary :: "u8 list puller" where
  "pull_binary =
     pull_bind pull_uint32_t (\<lambda>cb. pull_bind (pull_room cb) (\<lambda>_. pull_uint8_data cb))"

section \<open>Property values\<close>

text \<open>The loops over multi-valued properties. Where the check of the count wraps, talloc refuses the
  array and its elements are written through a null pointer: at once for the pullers that write
  their result even when they fail (\<open>early\<close>), after the first element for the others.\<close>

definition pull_room_mv :: "bool \<Rightarrow> u32 \<Rightarrow> u32 \<Rightarrow> 'a puller \<Rightarrow> unit puller" where
  "pull_room_mv early cValues elem f data idx =
     (if idx_plus idx (unat (cValues * elem)) > length data then Ok None
      else if idx + unat cValues * unat elem > length data then
        (if early then Fault
         else obind (f data idx) (\<lambda>r. case r of None \<Rightarrow> Ok None | Some _ \<Rightarrow> Fault))
      else Ok (Some ((), idx)))"

definition pull_multi :: "bool \<Rightarrow> u32 \<Rightarrow> 'a puller \<Rightarrow> 'a list puller" where
  "pull_multi early elem f =
     pull_bind pull_uint32_t (\<lambda>cValues.
     pull_bind (pull_room_mv early cValues elem f) (\<lambda>_. pull_repeat (unat cValues) f))"

definition pull_map :: "('a \<Rightarrow> 'b) \<Rightarrow> 'a puller \<Rightarrow> 'b puller" where
  "pull_map g f = pull_bind f (\<lambda>v. pull_return (g v))"

definition pull_boolean :: "u8 puller" where
  "pull_boolean = pull_bind (pull_need 2) (\<lambda>_. pull_bind (pull_raw 2) (\<lambda>bs. pull_return (bs ! 0)))"

definition fetch_property_value :: "(u8 list \<Rightarrow> u8 list) \<Rightarrow> u32 \<Rightarrow> prop_value puller" where
  "fetch_property_value pull_ucs2 ulPropTag =
     (let ptype = ulPropTag AND 0xFFFF in
      if ptype = PT_NULL then pull_map VNull pull_uint32_t
      else if ptype = PT_SHORT then pull_map VShort pull_uint16_t
      else if ptype = PT_LONG then pull_map VLong pull_uint32_t
      else if ptype = PT_DOUBLE then pull_map VDouble pull_double
      else if ptype = PT_BOOLEAN then pull_map VBoolean pull_boolean
      else if ptype = PT_I8 then pull_map VI8 pull_int64_t
      else if ptype = PT_STRING8 then pull_map VString8 pull_string8
      else if ptype = PT_UNICODE then pull_map VUnicode (pull_unicode pull_ucs2)
      else if ptype = PT_SYSTIME then pull_map VSysTime pull_systime
      else if ptype = PT_CLSID then pull_map VClsid pull_clsid
      else if ptype = PT_SVREID \<or> ptype = PT_BINARY then pull_map VBinary pull_binary
      else if ptype = PT_OBJECT then pull_map VBinary pull_binary
      else if ptype = PT_ERROR then pull_map VError pull_uint32_t
      else if ptype = PT_MV_BINARY then pull_map VMVBinary (pull_multi True 4 pull_binary)
      else if ptype = PT_MV_SHORT then pull_map VMVShort (pull_multi True 2 pull_uint16_t)
      else if ptype = PT_MV_LONG then pull_map VMVLong (pull_multi True 4 pull_uint32_t)
      else if ptype = PT_MV_STRING8 then pull_map VMVString8 (pull_multi False 4 pull_string8)
      else if ptype = PT_MV_CLSID then pull_map VMVClsid (pull_multi False 16 pull_clsid)
      else if ptype = PT_MV_UNICODE then pull_map VMVUnicode (pull_multi False 4 (pull_unicode pull_ucs2))
      else if ptype = PT_MV_SYSTIME then pull_map VMVSysTime (pull_multi False 8 pull_systime)
      else pull_assert)"

datatype name_kind = MNID_ID u32 | MNID_STRING "u8 list"

definition pull_named_property :: "(u8 list \<Rightarrow> u8 list) \<Rightarrow> (fx_guid \<times> name_kind) puller" where
  "pull_named_property pull_ucs2 =
     pull_bind pull_guid (\<lambda>lpguid.
     pull_bind pull_uint8_t (\<lambda>kind.
     if kind = 0 then pull_bind pull_uint32_t (\<lambda>lid. pull_return (lpguid, MNID_ID lid))
     else if kind = 1 then
       pull_bind fetch_ucs2_nullterminated (\<lambda>bs. pull_return (lpguid, MNID_STRING (pull_ucs2 bs)))
     else pull_assert))"

section \<open>The parser\<close>

datatype fx_parser_state = ParserState_Entry | ParserState_HaveTag | ParserState_HavePropTag

text \<open>The callbacks work on the caller's data \<open>priv\<close>. The members \<open>lpProp\<close> and \<open>namedprop\<close> of the C
  structure are only read right after they were written, except for the tag of \<open>lpProp\<close>, which is
  \<open>tag\<close> when it is used.\<close>

record 'p fx_parser_context =
  fx_data :: "u8 list"
  idx :: nat
  fx_state :: fx_parser_state
  enough_data :: bool
  tag :: u32
  priv :: 'p
  op_marker :: "(u32 \<Rightarrow> 'p \<Rightarrow> MAPISTATUS \<times> 'p) option"
  op_delprop :: "(u32 \<Rightarrow> 'p \<Rightarrow> MAPISTATUS \<times> 'p) option"
  op_namedprop :: "(u32 \<Rightarrow> fx_guid \<times> name_kind \<Rightarrow> 'p \<Rightarrow> MAPISTATUS \<times> 'p) option"
  op_property :: "(u32 \<Rightarrow> prop_value \<Rightarrow> 'p \<Rightarrow> MAPISTATUS \<times> 'p) option"

definition callback :: "('p \<Rightarrow> MAPISTATUS \<times> 'p) option \<Rightarrow> 'p fx_parser_context \<Rightarrow> MAPISTATUS \<times> 'p fx_parser_context" where
  "callback op parser =
     (case op of
        None \<Rightarrow> (MAPI_E_SUCCESS, parser)
      | Some f \<Rightarrow> (let (ms, q) = f (priv parser) in (ms, parser\<lparr>priv := q\<rparr>)))"

definition fx_markers :: "u32 list" where
  "fx_markers = [0x40090003, 0x400A0003, 0x400B0003, 0x400C0003, 0x40100003, 0x400D0003,
                 0x40030003, 0x40040003, 0x40000003, 0x400E0003, 0x40010003, 0x40020003]"

definition MetaTagFXDelProp :: u32 where "MetaTagFXDelProp = 0x40160003"

text \<open>One round of the loop. A round that runs out of data resets the index and clears \<open>enough_data\<close>;
  a failed \<open>pull_tag\<close> has already cleared the tag.\<close>

definition fxparser_round ::
  "(u8 list \<Rightarrow> u8 list) \<Rightarrow> 'p fx_parser_context \<Rightarrow> (MAPISTATUS \<times> 'p fx_parser_context) outcome" where
  "fxparser_round ucs2 parser =
     (case fx_state parser of
        ParserState_Entry \<Rightarrow>
          obind (pull_tag (fx_data parser) (idx parser)) (\<lambda>r. Ok (MAPI_E_SUCCESS,
            case r of
              Some (t, i) \<Rightarrow> parser\<lparr>tag := t, idx := i, fx_state := ParserState_HaveTag\<rparr>
            | None \<Rightarrow> parser\<lparr>tag := 0, enough_data := False\<rparr>))
      | ParserState_HaveTag \<Rightarrow>
          (if tag parser \<in> set fx_markers then
             Ok (callback (map_option (\<lambda>f. f (tag parser)) (op_marker parser)) (parser\<lparr>fx_state := ParserState_Entry\<rparr>))
           else if tag parser = MetaTagFXDelProp then
             obind (pull_uint32_t (fx_data parser) (idx parser)) (\<lambda>r. Ok
               (case r of
                  Some (t, i) \<Rightarrow>
                    callback (map_option (\<lambda>f. f t) (op_delprop parser))
                      (parser\<lparr>idx := i, fx_state := ParserState_Entry\<rparr>)
                | None \<Rightarrow> (MAPI_E_SUCCESS, parser\<lparr>enough_data := False\<rparr>)))
           else if drop_bit 16 (tag parser) AND 0x8000 \<noteq> 0 then
             obind (pull_named_property ucs2 (fx_data parser) (idx parser)) (\<lambda>r. Ok
               (case r of
                  Some (nm, i) \<Rightarrow>
                    callback (map_option (\<lambda>f. f (tag parser) nm) (op_namedprop parser))
                      (parser\<lparr>idx := i, fx_state := ParserState_HavePropTag\<rparr>)
                | None \<Rightarrow> (MAPI_E_SUCCESS, parser\<lparr>enough_data := False\<rparr>)))
           else Ok (MAPI_E_SUCCESS, parser\<lparr>fx_state := ParserState_HavePropTag\<rparr>))
      | ParserState_HavePropTag \<Rightarrow>
          obind (fetch_property_value ucs2 (tag parser) (fx_data parser) (idx parser)) (\<lambda>r. Ok
            (case r of
               Some (v, i) \<Rightarrow>
                 callback (map_option (\<lambda>f. f (tag parser) v) (op_property parser))
                   (parser\<lparr>idx := i, fx_state := ParserState_Entry\<rparr>)
             | None \<Rightarrow> (MAPI_E_SUCCESS, parser\<lparr>enough_data := False\<rparr>))))"

definition fxparser_init :: "'p \<Rightarrow> 'p fx_parser_context" where
  "fxparser_init p =
     \<lparr>fx_data = [], idx = 0, fx_state = ParserState_Entry, enough_data = False, tag = 0, priv = p,
      op_marker = None, op_delprop = None, op_namedprop = None, op_property = None\<rparr>"

definition fxparser_set_marker_callback where
  "fxparser_set_marker_callback parser cb = parser\<lparr>op_marker := cb\<rparr>"

definition fxparser_set_delprop_callback where
  "fxparser_set_delprop_callback parser cb = parser\<lparr>op_delprop := cb\<rparr>"

definition fxparser_set_namedprop_callback where
  "fxparser_set_namedprop_callback parser cb = parser\<lparr>op_namedprop := cb\<rparr>"

definition fxparser_set_property_callback where
  "fxparser_set_property_callback parser cb = parser\<lparr>op_property := cb\<rparr>"

end
