(* ===== verification/Fxparser_Pull.thy ===== *)
theory Fxparser_Pull
  imports Fxparser
begin

unbundle bit_operations_syntax

text \<open>
  The contract of the pulling functions of \<^verbatim>\<open>src/libmapi/fxparser.c\<close>, as a locale that every puller of
  the parser is an instance of.
\<close>

section \<open>The contract of a puller\<close>

text \<open>
  What the parser relies on: the index moves forward and stays in the data, more data behind does not
  change a result that was there already, and data that was consumed may be dropped in front. The
  data is small enough for the constant-size checks not to wrap.
\<close>

definition small :: "u8 list \<Rightarrow> bool" where
  "small d \<longleftrightarrow> length d + 16 < 2 ^ 32"

definition unshift :: "nat \<Rightarrow> ('a \<times> nat) option \<Rightarrow> ('a \<times> nat) option" where
  "unshift n r = map_option (\<lambda>(v, j). (v, j - n)) r"

lemma unshift_simps [simp]: "unshift n None = None" "unshift n (Some (v, j)) = Some (v, j - n)"
  by (simp_all add: unshift_def)

locale puller =
  fixes f :: "'a puller"
  assumes bounds: "i \<le> length d \<Longrightarrow> f d i = Ok (Some (v, j)) \<Longrightarrow> i \<le> j \<and> j \<le> length d"
    and extend: "i \<le> length d \<Longrightarrow> small (d @ e) \<Longrightarrow> f d i \<noteq> Ok None \<Longrightarrow> f (d @ e) i = f d i"
    and shift: "i \<le> length d \<Longrightarrow> small (p @ d) \<Longrightarrow> f (p @ d) (length p + i) = Ok r \<Longrightarrow> f d i = Ok (unshift (length p) r)"
begin

lemma bounds': "i \<le> length d \<Longrightarrow> f d i = Ok (Some r) \<Longrightarrow> i \<le> snd r \<and> snd r \<le> length d"
  using bounds [of i d "fst r" "snd r"] by simp

end

lemma puller_return: "puller (pull_return v)"
  by unfold_locales (auto simp: pull_return_def unshift_def)

lemma puller_bind:
  assumes "puller f" and "\<And>v. puller (g v)"
  shows "puller (pull_bind f g)"
proof
  note f = puller.bounds [OF assms(1)] puller.extend [OF assms(1)] puller.shift [OF assms(1)]
  note g = puller.bounds [OF assms(2)] puller.extend [OF assms(2)] puller.shift [OF assms(2)]
  {
    fix i d v j assume i: "i \<le> length d" and r: "pull_bind f g d i = Ok (Some (v, j))"
    then obtain w k where fk: "f d i = Ok (Some (w, k))" "g w d k = Ok (Some (v, j))"
      by (auto simp: pull_bind_def split: option.splits)
    with f(1) [OF i fk(1)] g(1) [of k d w v j] show "i \<le> j \<and> j \<le> length d" by auto
  next
    fix i d and e :: "u8 list" assume i: "i \<le> length d" and s: "small (d @ e)" and r: "pull_bind f g d i \<noteq> Ok None"
    then have fn: "f d i \<noteq> Ok None" by (auto simp: pull_bind_def)
    show "pull_bind f g (d @ e) i = pull_bind f g d i"
    proof (cases "f d i")
      case (Ok r1)
      then obtain w k where wk: "f d i = Ok (Some (w, k))" using fn by (cases r1) auto
      then have "g w d k \<noteq> Ok None" using r by (auto simp: pull_bind_def)
      with f(1) [OF i wk] g(2) [of k d e w] f(2) [OF i s fn] wk s show ?thesis by (simp add: pull_bind_def)
    qed (use f(2) [OF i s fn] in \<open>simp_all add: pull_bind_def\<close>)
  next
    fix i and d p :: "u8 list" and r
    assume i: "i \<le> length d" and s: "small (p @ d)" and r: "pull_bind f g (p @ d) (length p + i) = Ok r"
    then obtain r1 where r1: "f (p @ d) (length p + i) = Ok r1" by (auto simp: pull_bind_def)
    show "pull_bind f g d i = Ok (unshift (length p) r)"
    proof (cases r1)
      case None
      with r r1 f(3) [OF i s r1] show ?thesis by (simp add: pull_bind_def)
    next
      case (Some wk)
      obtain w k where wk: "wk = (w, k)" by (cases wk)
      have k: "length p + i \<le> k" "k \<le> length (p @ d)" using f(1) [of "length p + i" "p @ d" w k] r1 Some wk i by auto
      then have k': "k = length p + (k - length p)" "k - length p \<le> length d" by auto
      have "g w (p @ d) k = Ok r" using r r1 Some wk by (simp add: pull_bind_def)
      with g(3) [OF k'(2) s, of w r] k'(1) have "g w d (k - length p) = Ok (unshift (length p) r)" by simp
      with f(3) [OF i s r1] Some wk show ?thesis by (simp add: pull_bind_def)
    qed
  }
qed

lemma puller_assert: "puller pull_assert"
  by unfold_locales (simp_all add: pull_assert_def)

lemma idx_plus_small: "i \<le> length d \<Longrightarrow> small d \<Longrightarrow> n \<le> 16 \<Longrightarrow> idx_plus i n = i + n"
  by (simp add: idx_plus_def small_def)

text \<open>A check of a constant size and the read it guards.\<close>

definition pull_fixed :: "nat \<Rightarrow> u8 list puller" where
  "pull_fixed n = pull_bind (pull_need n) (\<lambda>_. pull_raw n)"

lemma small_appendD: "small (p @ d) \<Longrightarrow> small d" "small (d @ e) \<Longrightarrow> small d"
  by (simp_all add: small_def)

lemma pull_bind_assoc: "pull_bind (pull_bind f g) h = pull_bind f (\<lambda>v. pull_bind (g v) h)"
proof (intro ext)
  fix d i
  show "pull_bind (pull_bind f g) h d i = pull_bind f (\<lambda>v. pull_bind (g v) h) d i"
    by (cases "f d i") (auto simp: pull_bind_def split: option.splits)
qed

lemma pull_need_eq:
  assumes "i \<le> length d" and "small d" and "n \<le> 16"
  shows "pull_need n d i = (if i + n \<le> length d then Ok (Some ((), i)) else Ok None)"
  using idx_plus_small [OF assms] by (simp add: pull_need_def)

lemma puller_need:
  assumes "n \<le> 16" shows "puller (pull_need n)"
proof
  fix i d v j assume "i \<le> length d" "pull_need n d i = Ok (Some (v, j))"
  then show "i \<le> j \<and> j \<le> length d" by (simp add: pull_need_def split: if_splits)
next
  fix i and d e :: "u8 list" assume "i \<le> length d" "small (d @ e)" "pull_need n d i \<noteq> Ok None"
  with assms show "pull_need n (d @ e) i = pull_need n d i"
    using pull_need_eq [of i d n] pull_need_eq [of i "d @ e" n] by (auto simp: small_def split: if_splits)
next
  fix i and d p :: "u8 list" and r
  assume "i \<le> length d" "small (p @ d)" "pull_need n (p @ d) (length p + i) = Ok r"
  with assms show "pull_need n d i = Ok (unshift (length p) r)"
    using pull_need_eq [of i d n] pull_need_eq [of "length p + i" "p @ d" n]
    by (auto simp: small_def split: if_splits)
qed

lemma pull_fixed_eq:
  assumes "i \<le> length d" and "small d" and "n \<le> 16"
  shows "pull_fixed n d i = (if i + n \<le> length d then Ok (Some (take n (drop i d), i + n)) else Ok None)"
  using assms by (simp add: pull_fixed_def pull_bind_def pull_need_def pull_raw_def rd_bytes_def idx_plus_small)

lemma pull_raw_Some: "pull_raw n d i = Ok (Some (v, j)) \<Longrightarrow> j = i + n \<and> j \<le> length d"
  by (cases "i + n \<le> length d") (simp_all add: pull_raw_def rd_bytes_def)

lemma pull_fixed_Some:
  assumes "pull_fixed n d i = Ok (Some (v, j))" shows "j = i + n \<and> j \<le> length d"
proof (rule pull_raw_Some)
  show "pull_raw n d i = Ok (Some (v, j))"
    using assms by (cases "idx_plus i n > length d") (simp_all add: pull_fixed_def pull_bind_def pull_need_def)
qed

lemma puller_fixed:
  assumes "n \<le> 16" shows "puller (pull_fixed n)"
proof
  fix i d v j assume "i \<le> length d" "pull_fixed n d i = Ok (Some (v, j))"
  from pull_fixed_Some [OF this(2)] show "i \<le> j \<and> j \<le> length d" by simp
next
  fix i and d e :: "u8 list" assume "i \<le> length d" "small (d @ e)" "pull_fixed n d i \<noteq> Ok None"
  with assms show "pull_fixed n (d @ e) i = pull_fixed n d i"
    using pull_fixed_eq [of i d n] pull_fixed_eq [of i "d @ e" n] by (auto simp: small_def split: if_splits)
next
  fix i and d p :: "u8 list" and r
  assume "i \<le> length d" "small (p @ d)" "pull_fixed n (p @ d) (length p + i) = Ok r"
  with assms show "pull_fixed n d i = Ok (unshift (length p) r)"
    using pull_fixed_eq [of i d n] pull_fixed_eq [of "length p + i" "p @ d" n]
    by (auto simp: small_def split: if_splits)
qed

lemmas fixed_unfold = pull_fixed_def [symmetric] pull_bind_assoc [symmetric]

lemma puller_uint8: "puller pull_uint8_t"
  unfolding pull_uint8_t_def fixed_unfold by (intro puller_bind puller_fixed puller_return) simp

lemma puller_uint16: "puller pull_uint16_t"
  unfolding pull_uint16_t_def fixed_unfold by (intro puller_bind puller_fixed puller_return) simp

lemma puller_uint32: "puller pull_uint32_t"
  unfolding pull_uint32_t_def fixed_unfold by (intro puller_bind puller_fixed puller_return) simp

lemma puller_int64: "puller pull_int64_t"
  unfolding pull_int64_t_def fixed_unfold by (intro puller_bind puller_fixed puller_return) simp

lemma puller_boolean: "puller pull_boolean"
  unfolding pull_boolean_def fixed_unfold by (intro puller_bind puller_fixed puller_return) simp

lemma puller_repeat: "puller f \<Longrightarrow> puller (pull_repeat n f)"
  by (induction n) (auto intro: puller_return puller_bind)

lemma idx_plus_wrap:
  assumes "i \<le> L" and "L < 2 ^ 32" and "m < 2 ^ 32"
  shows "idx_plus i m > L \<longleftrightarrow> L < i + m \<and> i + m < 2 ^ 32"
    and "idx_plus i m \<le> L \<longleftrightarrow> i + m \<le> L \<or> 2 ^ 32 \<le> i + m"
proof -
  have *: "idx_plus i m = (if i + m < 2 ^ 32 then i + m else i + m - 2 ^ 32)"
    using assms by (auto simp: idx_plus_def mod_if)
  show "idx_plus i m > L \<longleftrightarrow> L < i + m \<and> i + m < 2 ^ 32" using assms unfolding * by auto
  show "idx_plus i m \<le> L \<longleftrightarrow> i + m \<le> L \<or> 2 ^ 32 \<le> i + m" using assms unfolding * by auto
qed

lemma u32_less: "unat (x :: u32) < 2 ^ 32"
  using unsigned_less [of x, where 'a = nat] by simp

lemma pull_room_eq:
  assumes "i \<le> length d" and "small d"
  shows "pull_room len d i = (if i + unat len \<le> length d then Ok (Some ((), i))
    else if i + unat len < 2 ^ 32 then Ok None else Fault)"
  using assms idx_plus_wrap(1) [of i "length d" "unat len"] u32_less [of len]
  by (auto simp: pull_room_def small_def)

lemma puller_room: "puller (pull_room len)"
proof
  fix i d v j assume "i \<le> length d" "pull_room len d i = Ok (Some (v, j))"
  then show "i \<le> j \<and> j \<le> length d" by (auto simp: pull_room_def split: if_splits)
next
  fix i and d e :: "u8 list" assume "i \<le> length d" "small (d @ e)" "pull_room len d i \<noteq> Ok None"
  then show "pull_room len (d @ e) i = pull_room len d i"
    using pull_room_eq [of i d len] pull_room_eq [of i "d @ e" len] by (auto simp: small_def split: if_splits)
next
  fix i and d p :: "u8 list" and r
  assume "i \<le> length d" "small (p @ d)" "pull_room len (p @ d) (length p + i) = Ok r"
  then show "pull_room len d i = Ok (unshift (length p) r)"
    using pull_room_eq [of i d len] pull_room_eq [of "length p + i" "p @ d" len]
    by (auto simp: small_def split: if_splits)
qed

lemma mv_product: "unat c * unat k < 2 ^ 32 \<Longrightarrow> unat (c * k :: u32) = unat c * unat k"
  by (simp add: unat_word_ariths)

lemma mv_wraps:
  assumes "\<not> i + unat c * unat k \<le> L" and "i + unat (c * k) \<le> L \<or> 2 ^ 32 \<le> i + unat (c * k :: u32)"
  shows "2 ^ 32 \<le> i + unat c * unat k"
  using assms mv_product [of c k] by (cases "unat c * unat k < 2 ^ 32") auto

text \<open>The check of a count passes exactly when the elements fit or the 32-bit sum wraps.\<close>

lemma mv_check:
  assumes "i \<le> length d" and "small d"
  shows "idx_plus i (unat (c * k :: u32)) > length d \<longleftrightarrow>
           \<not> i + unat c * unat k \<le> length d \<and> \<not> i + unat (c * k) \<le> length d \<and> i + unat (c * k) < 2 ^ 32"
proof -
  have "unat (c * k) = unat c * unat k" if "i + unat c * unat k \<le> length d"
    using that assms(2) by (intro mv_product) (simp add: small_def)
  then show ?thesis
    using assms idx_plus_wrap(1) [of i "length d" "unat (c * k)"] u32_less [of "c * k"]
    by (auto simp: small_def)
qed

lemma puller_room_mv:
  assumes "puller f" shows "puller (pull_room_mv early c k f)"
proof
  fix i d v j assume "i \<le> length d" "pull_room_mv early c k f d i = Ok (Some (v, j))"
  then show "i \<le> j \<and> j \<le> length d" by (auto simp: pull_room_mv_def split: if_splits option.splits)
next
  fix i and d e :: "u8 list" assume a: "i \<le> length d" "small (d @ e)" "pull_room_mv early c k f d i \<noteq> Ok None"
  have sd: "small d" "length (d @ e) < 2 ^ 32" using a(2) by (simp_all add: small_def)
  have nchk: "\<not> idx_plus i (unat (c * k)) > length d" using a(3) by (auto simp: pull_room_mv_def)
  show "pull_room_mv early c k f (d @ e) i = pull_room_mv early c k f d i"
  proof (cases "i + unat c * unat k \<le> length d")
    case True
    then have "\<not> idx_plus i (unat (c * k)) > length (d @ e)" using mv_check [of i "d @ e" c k] a(1,2) by auto
    with True nchk show ?thesis by (simp add: pull_room_mv_def)
  next
    case False
    then have w: "i + unat (c * k) \<le> length d \<or> 2 ^ 32 \<le> i + unat (c * k)"
      using nchk mv_check [OF a(1) sd(1), of c k] by auto
    with mv_wraps [OF False] sd(2) have big: "\<not> i + unat c * unat k \<le> length (d @ e)" by simp
    then have "\<not> idx_plus i (unat (c * k)) > length (d @ e)" using mv_check [of i "d @ e" c k] a(1,2) w by auto
    moreover have "early \<or> f d i \<noteq> Ok None"
      using a(3) False nchk by (auto simp: pull_room_mv_def)
    ultimately show ?thesis
      using False big nchk puller.extend [OF assms a(1,2)] by (auto simp: pull_room_mv_def)
  qed
next
  fix i and d p :: "u8 list" and r
  assume a: "i \<le> length d" "small (p @ d)" "pull_room_mv early c k f (p @ d) (length p + i) = Ok r"
  have sd: "small d" using a(2) by (simp add: small_def)
  have li: "length p + i \<le> length (p @ d)" using a(1) by simp
  note chk = mv_check [OF a(1) sd, of c k] mv_check [OF li a(2), of c k]
  show "pull_room_mv early c k f d i = Ok (unshift (length p) r)"
  proof (cases "i + unat c * unat k \<le> length d")
    case True
    with a(3) chk show ?thesis by (auto simp: pull_room_mv_def)
  next
    case False
    show ?thesis
    proof (cases "idx_plus (length p + i) (unat (c * k)) > length (p @ d)")
      case True
      then have "idx_plus i (unat (c * k)) > length d" using chk False by auto
      with True a(3) show ?thesis by (simp add: pull_room_mv_def)
    next
      case wraps: False
      with False a(3) have "\<not> early" "f (p @ d) (length p + i) = Ok None" "r = None"
        by (auto simp: pull_room_mv_def split: if_splits option.splits intro: ccontr)
      with puller.shift [OF assms a(1,2), of None] False show ?thesis by (simp add: pull_room_mv_def)
    qed
  qed
qed

lemma fetch_ucs2_eq:
  assumes "i \<le> length d" and "small d"
  shows "fetch_ucs2_data n d i = (if i + unat n \<le> length d then Ok (Some (take (unat n) (drop i d), i + unat n))
    else if i + unat n < 2 ^ 32 then Ok None else Fault)"
  using pull_room_eq [OF assms, of n] by (auto simp: fetch_ucs2_data_def pull_bind_def pull_raw_def rd_bytes_def)

lemma puller_ucs2_data: "puller (fetch_ucs2_data n)"
proof
  fix i d v j assume "i \<le> length d" "fetch_ucs2_data n d i = Ok (Some (v, j))"
  then show "i \<le> j \<and> j \<le> length d"
    by (auto simp: fetch_ucs2_data_def pull_bind_def pull_raw_def rd_bytes_def pull_room_def split: if_splits)
next
  fix i and d e :: "u8 list" assume "i \<le> length d" "small (d @ e)" "fetch_ucs2_data n d i \<noteq> Ok None"
  then show "fetch_ucs2_data n (d @ e) i = fetch_ucs2_data n d i"
    using fetch_ucs2_eq [of i d n] fetch_ucs2_eq [of i "d @ e" n] by (auto simp: small_def split: if_splits)
next
  fix i and d p :: "u8 list" and r
  assume "i \<le> length d" "small (p @ d)" "fetch_ucs2_data n (p @ d) (length p + i) = Ok r"
  then show "fetch_ucs2_data n d i = Ok (unshift (length p) r)"
    using fetch_ucs2_eq [of i d n] fetch_ucs2_eq [of "length p + i" "p @ d" n]
    by (auto simp: small_def split: if_splits)
qed


lemma find_null_bounds: "find_ucs2_null d i = Some j \<Longrightarrow> i + 2 \<le> j \<and> j \<le> length d"
proof (induction d i rule: find_ucs2_null.induct)
  case (1 d i)
  from 1(2) show ?case
    using 1(1) by (subst (asm) find_ucs2_null.simps) (auto split: if_splits)
qed

lemma find_null_extend: "find_ucs2_null d i = Some j \<Longrightarrow> find_ucs2_null (d @ e) i = Some j"
proof (induction d i rule: find_ucs2_null.induct)
  case (1 d i)
  from 1(2) have i: "i + 1 < length d" by (subst (asm) find_ucs2_null.simps) (simp split: if_splits)
  with 1 show ?case
    by (subst find_ucs2_null.simps, subst (asm) (2) find_ucs2_null.simps)
      (auto simp: nth_append split: if_splits)
qed

lemma find_null_shift: "find_ucs2_null (p @ d) (length p + i) = map_option (\<lambda>j. length p + j) (find_ucs2_null d i)"
proof (induction d i rule: find_ucs2_null.induct)
  case (1 d i)
  have i: "Suc (length p + i) < length p + length d \<longleftrightarrow> Suc i < length d" by arith
  have n: "(p @ d) ! (length p + i) = d ! i" "(p @ d) ! Suc (length p + i) = d ! Suc i"
    using nth_append_length_plus [of p d i] nth_append_length_plus [of p d "Suc i"] by simp_all
  show ?case
    by (subst find_ucs2_null.simps, subst (2) find_ucs2_null.simps)
      (use 1 i n in \<open>auto simp: add.assoc\<close>)
qed

lemma puller_ucs2_nullterminated: "puller fetch_ucs2_nullterminated"
proof
  fix i d v j assume a: "i \<le> length d" "fetch_ucs2_nullterminated d i = Ok (Some (v, j))"
  then obtain n where "fetch_ucs2_data n d i = Ok (Some (v, j))"
    by (cases "find_ucs2_null d i") (simp_all add: fetch_ucs2_nullterminated_def)
  then show "i \<le> j \<and> j \<le> length d" by (rule puller.bounds [OF puller_ucs2_data a(1)])
next
  fix i and d e :: "u8 list" assume a: "i \<le> length d" "small (d @ e)" "fetch_ucs2_nullterminated d i \<noteq> Ok None"
  then obtain k where k: "find_ucs2_null d i = Some k"
    by (cases "find_ucs2_null d i") (simp_all add: fetch_ucs2_nullterminated_def)
  with a(3) show "fetch_ucs2_nullterminated (d @ e) i = fetch_ucs2_nullterminated d i"
    using puller.extend [OF puller_ucs2_data a(1,2), of "of_nat (k - i)"] find_null_extend [OF k, of e]
    by (simp add: fetch_ucs2_nullterminated_def)
next
  fix i and d p :: "u8 list" and r
  assume a: "i \<le> length d" "small (p @ d)" "fetch_ucs2_nullterminated (p @ d) (length p + i) = Ok r"
  show "fetch_ucs2_nullterminated d i = Ok (unshift (length p) r)"
  proof (cases "find_ucs2_null d i")
    case None
    with a(3) show ?thesis by (simp add: fetch_ucs2_nullterminated_def find_null_shift)
  next
    case (Some k)
    with a(3) have "fetch_ucs2_data (of_nat (k - i)) (p @ d) (length p + i) = Ok r"
      by (simp add: fetch_ucs2_nullterminated_def find_null_shift)
    from puller.shift [OF puller_ucs2_data a(1,2) this] Some show ?thesis
      by (simp add: fetch_ucs2_nullterminated_def)
  qed
qed

lemma puller_if: "puller f \<Longrightarrow> puller g \<Longrightarrow> puller (if b then f else g)"
  by simp

lemma puller_map: "puller f \<Longrightarrow> puller (pull_map g f)"
  unfolding pull_map_def by (intro puller_bind puller_return)

lemmas puller_basic = puller_bind puller_return puller_map puller_repeat puller_need [simplified]
  puller_uint8 puller_uint16 puller_uint32 puller_int64 puller_boolean puller_room puller_room_mv
  puller_ucs2_data puller_ucs2_nullterminated puller_assert

lemma puller_guid: "puller pull_guid"
  unfolding pull_guid_def by (intro puller_basic) simp

lemma puller_systime: "puller pull_systime"
  unfolding pull_systime_def by (intro puller_basic) simp

lemma puller_clsid: "puller pull_clsid"
  unfolding pull_clsid_def by (intro puller_basic) simp

lemma puller_string8: "puller pull_string8"
  unfolding pull_string8_def by (intro puller_basic)

lemma puller_unicode: "puller (pull_unicode ucs2)"
  unfolding pull_unicode_def by (intro puller_basic)

lemma puller_binary: "puller pull_binary"
  unfolding pull_binary_def pull_uint8_data_def by (intro puller_basic)

lemma puller_multi: "puller f \<Longrightarrow> puller (pull_multi early k f)"
  unfolding pull_multi_def by (intro puller_basic)

lemmas puller_values = puller_guid puller_systime puller_clsid puller_string8 puller_unicode puller_binary

lemma puller_property_value: "puller (fetch_property_value ucs2 t)"
  unfolding fetch_property_value_def Let_def pull_double_def
  by (intro puller_if puller_map puller_multi puller_values puller_uint8 puller_uint16
      puller_uint32 puller_int64 puller_boolean puller_assert)

lemma puller_named_property: "puller (pull_named_property ucs2)"
  unfolding pull_named_property_def
  by (intro puller_bind puller_guid puller_if puller_basic)

interpretation tag_puller: puller pull_tag
  unfolding pull_tag_def by (rule puller_uint32)

interpretation value_puller: puller "fetch_property_value ucs2 t" for ucs2 t
  by (rule puller_property_value)

interpretation name_puller: puller "pull_named_property ucs2" for ucs2
  by (rule puller_named_property)

interpretation word_puller: puller pull_uint32_t
  by (rule puller_uint32)

lemma pull_map_fixed:
  "pull_bind (pull_fixed n) (\<lambda>bs. pull_return (g bs)) d i = Ok (Some (v, j)) \<Longrightarrow> j = i + n \<and> j \<le> length d"
  by (auto simp: pull_bind_def [of "pull_fixed n"] pull_return_def split: option.splits dest: pull_fixed_Some)

lemma pull_uint32_Some: "pull_uint32_t d i = Ok (Some (v, j)) \<Longrightarrow> j = i + 4 \<and> j \<le> length d"
  unfolding pull_uint32_t_def fixed_unfold by (rule pull_map_fixed)


end
