(* ===== verification/Fxparser_Parse.thy ===== *)
theory Fxparser_Parse
  imports Fxparser_Pull
begin

unbundle bit_operations_syntax

text \<open>
  The loop of \<^verbatim>\<open>fxparser_parse\<close>, its termination, and that the result does not depend on how the stream
  is cut into buffers.
\<close>

section \<open>The loop\<close>

text \<open>The stages a round passes through at one index.\<close>

fun fx_rank :: "fx_parser_state \<Rightarrow> nat" where
  "fx_rank ParserState_Entry = 0"
| "fx_rank ParserState_HavePropTag = 1"
| "fx_rank ParserState_HaveTag = 2"

lemma callback_same [simp]:
  "fx_data (snd (callback op q)) = fx_data q" "idx (snd (callback op q)) = idx q"
  "fx_state (snd (callback op q)) = fx_state q" "enough_data (snd (callback op q)) = enough_data q"
  "tag (snd (callback op q)) = tag q"
  by (auto simp: callback_def Let_def split: option.splits prod.splits)

text \<open>A round of the loop, in short: the data stays, the index stays in the data, and either the
  parser runs out of data or it comes closer to the end.\<close>

lemma callback_eqD: "callback op q = (ms, q') \<Longrightarrow> q' = snd (callback op q)"
  by simp

lemma fxparser_round_progress:
  assumes "fxparser_round ucs2 q = Ok (ms, q')" and i: "idx q < length (fx_data q)"
  shows "fx_data q' = fx_data q \<and> idx q \<le> idx q' \<and> idx q' \<le> length (fx_data q) \<and>
    (enough_data q' \<longrightarrow> 3 * (length (fx_data q) - idx q') + fx_rank (fx_state q') < 3 * (length (fx_data q) - idx q) + fx_rank (fx_state q))"
proof (cases "fx_state q")
  case ParserState_Entry
  with assms show ?thesis
    by (auto simp: fxparser_round_def pull_tag_def split: option.splits dest!: pull_uint32_Some)
next
  case ParserState_HaveTag
  note nb = name_puller.bounds [OF less_imp_le [OF i]]
  from ParserState_HaveTag assms show ?thesis
    by (auto simp: fxparser_round_def split: option.splits if_splits dest!: pull_uint32_Some callback_eqD nb)
next
  case ParserState_HavePropTag
  note nb = value_puller.bounds [OF less_imp_le [OF i]]
  from ParserState_HavePropTag assms show ?thesis
    by (auto simp: fxparser_round_def split: option.splits if_splits dest!: callback_eqD nb)
qed

text \<open>The loop of \<open>fxparser_parse\<close>.\<close>

function fxparser_loop ::
  "(u8 list \<Rightarrow> u8 list) \<Rightarrow> 'p fx_parser_context \<Rightarrow> (MAPISTATUS \<times> 'p fx_parser_context) outcome" where
  "fxparser_loop ucs2 parser =
     (if idx parser < length (fx_data parser) \<and> enough_data parser then
        (case fxparser_round ucs2 parser of
           Ok (ms, parser') \<Rightarrow>
             (if ms = MAPI_E_SUCCESS then fxparser_loop ucs2 parser' else Ok (ms, parser'))
         | Abort \<Rightarrow> Abort
         | Fault \<Rightarrow> Fault
         | Hang \<Rightarrow> Hang)
      else Ok (MAPI_E_SUCCESS, parser))"
  by pat_completeness auto
termination
proof (relation "measure (\<lambda>(u, q). if enough_data q then Suc (3 * (length (fx_data q) - idx q) + fx_rank (fx_state q)) else 0)", goal_cases)
  case 1
  show ?case by simp
next
  case (2 ucs2 q r ms q')
  then show ?case using fxparser_round_progress [of ucs2 q ms q'] by auto
qed

declare fxparser_loop.simps [simp del]

definition fxparser_parse ::
  "(u8 list \<Rightarrow> u8 list) \<Rightarrow> 'p fx_parser_context \<Rightarrow> u8 list \<Rightarrow> (MAPISTATUS \<times> 'p fx_parser_context) outcome" where
  "fxparser_parse ucs2 parser fxbuf =
     obind (fxparser_loop ucs2 (parser\<lparr>fx_data := fx_data parser @ fxbuf, enough_data := True\<rparr>))
       (\<lambda>(ms, q). Ok (ms, q\<lparr>fx_data := drop (idx q) (fx_data q), idx := 0\<rparr>))"

text \<open>A client that feeds a stream in pieces and stops at the first error.\<close>

fun fxparser_feed ::
  "(u8 list \<Rightarrow> u8 list) \<Rightarrow> 'p fx_parser_context \<Rightarrow> u8 list list \<Rightarrow> (MAPISTATUS \<times> 'p fx_parser_context) outcome" where
  "fxparser_feed ucs2 parser [] = Ok (MAPI_E_SUCCESS, parser)"
| "fxparser_feed ucs2 parser (c # cs) =
     obind (fxparser_parse ucs2 parser c)
       (\<lambda>(ms, q). if ms = MAPI_E_SUCCESS then fxparser_feed ucs2 q cs else Ok (ms, q))"

section \<open>Chunks\<close>

text \<open>A round asks one puller for the next event and then acts on it.\<close>

datatype fx_event = EvTag u32 | EvMarker | EvDel u32 | EvNamed "fx_guid \<times> name_kind" | EvPlain | EvProp prop_value

definition fx_ask :: "(u8 list \<Rightarrow> u8 list) \<Rightarrow> fx_parser_state \<Rightarrow> u32 \<Rightarrow> fx_event puller" where
  "fx_ask ucs2 st t =
     (case st of
        ParserState_Entry \<Rightarrow> pull_map EvTag pull_tag
      | ParserState_HaveTag \<Rightarrow>
          (if t \<in> set fx_markers then pull_return EvMarker
           else if t = MetaTagFXDelProp then pull_map EvDel pull_uint32_t
           else if drop_bit 16 t AND 0x8000 \<noteq> 0 then pull_map EvNamed (pull_named_property ucs2)
           else pull_return EvPlain)
      | ParserState_HavePropTag \<Rightarrow> pull_map EvProp (fetch_property_value ucs2 t))"

fun fx_apply :: "fx_event \<Rightarrow> 'p fx_parser_context \<Rightarrow> MAPISTATUS \<times> 'p fx_parser_context" where
  "fx_apply (EvTag t) q = (MAPI_E_SUCCESS, q\<lparr>tag := t, fx_state := ParserState_HaveTag\<rparr>)"
| "fx_apply EvMarker q = callback (map_option (\<lambda>f. f (tag q)) (op_marker q)) (q\<lparr>fx_state := ParserState_Entry\<rparr>)"
| "fx_apply (EvDel t) q = callback (map_option (\<lambda>f. f t) (op_delprop q)) (q\<lparr>fx_state := ParserState_Entry\<rparr>)"
| "fx_apply (EvNamed nm) q =
     callback (map_option (\<lambda>f. f (tag q) nm) (op_namedprop q)) (q\<lparr>fx_state := ParserState_HavePropTag\<rparr>)"
| "fx_apply EvPlain q = (MAPI_E_SUCCESS, q\<lparr>fx_state := ParserState_HavePropTag\<rparr>)"
| "fx_apply (EvProp v) q =
     callback (map_option (\<lambda>f. f (tag q) v) (op_property q)) (q\<lparr>fx_state := ParserState_Entry\<rparr>)"

definition fx_starve :: "'p fx_parser_context \<Rightarrow> 'p fx_parser_context" where
  "fx_starve q = (if fx_state q = ParserState_Entry then q\<lparr>tag := 0, enough_data := False\<rparr> else q\<lparr>enough_data := False\<rparr>)"

lemma obind_pull_map:
  "obind (pull_map h f d i) g = obind (f d i) (\<lambda>r. g (map_option (map_prod h id) r))"
  by (cases "f d i") (auto simp: pull_map_def pull_bind_def pull_return_def split: option.splits)

lemma fxparser_round_ask:
  "fxparser_round ucs2 q = obind (fx_ask ucs2 (fx_state q) (tag q) (fx_data q) (idx q))
     (\<lambda>r. Ok (case r of None \<Rightarrow> (MAPI_E_SUCCESS, fx_starve q) | Some (ev, i) \<Rightarrow> fx_apply ev (q\<lparr>idx := i\<rparr>)))"
  by (cases "fx_state q")
    (auto simp: fxparser_round_def fx_ask_def fx_starve_def obind_pull_map pull_return_def
      intro!: arg_cong [where f = "obind _"] split: option.splits)

interpretation ask_puller: puller "fx_ask ucs2 st t" for ucs2 st t
  unfolding fx_ask_def pull_tag_def
  by (cases st) (simp_all only: fx_parser_state.case puller_if puller_map puller_return puller_uint32
      puller_named_property puller_property_value)

lemma callback_upd:
  "callback op (q\<lparr>fx_data := d\<rparr>) = map_prod id (\<lambda>q. q\<lparr>fx_data := d\<rparr>) (callback op q)"
  "callback op (q\<lparr>idx := i\<rparr>) = map_prod id (\<lambda>q. q\<lparr>idx := i\<rparr>) (callback op q)"
  by (auto simp: callback_def Let_def split: option.splits prod.splits)

lemma fx_apply_upd:
  "fx_apply ev (q\<lparr>fx_data := d\<rparr>) = map_prod id (\<lambda>q. q\<lparr>fx_data := d\<rparr>) (fx_apply ev q)"
  "fx_apply ev (q\<lparr>idx := i\<rparr>) = map_prod id (\<lambda>q. q\<lparr>idx := i\<rparr>) (fx_apply ev q)"
  by (cases ev; auto simp: callback_def Let_def split: option.splits prod.splits)+

lemma fx_apply_same:
  "fx_data (snd (fx_apply ev q)) = fx_data q" "idx (snd (fx_apply ev q)) = idx q"
  "enough_data (snd (fx_apply ev q)) = enough_data q"
  by (cases ev; simp)+

lemma fx_starve_upd:
  "fx_starve (q\<lparr>fx_data := d\<rparr>) = (fx_starve q)\<lparr>fx_data := d\<rparr>" "fx_starve (q\<lparr>idx := i\<rparr>) = (fx_starve q)\<lparr>idx := i\<rparr>"
  by (simp_all add: fx_starve_def)

text \<open>More data behind: the loop over the longer data passes through the point where the loop over the
  shorter data stops.\<close>

lemma round_Entry:
  "fx_state q = ParserState_Entry \<Longrightarrow> fxparser_round ucs2 (q\<lparr>tag := t\<rparr>) = fxparser_round ucs2 q"
  by (simp add: fxparser_round_def split: option.splits cong: option.case_cong)

lemma loop_Entry:
  "fx_state q = ParserState_Entry \<Longrightarrow> idx q < length (fx_data q) \<Longrightarrow> enough_data q \<Longrightarrow>
    fxparser_loop ucs2 (q\<lparr>tag := t\<rparr>) = fxparser_loop ucs2 q"
  by (subst (1 2) fxparser_loop.simps) (simp add: round_Entry)

lemma loop_starved:
  assumes "idx q < length d"
  shows "fxparser_loop ucs2 ((fx_starve q)\<lparr>fx_data := d, enough_data := True\<rparr>) =
    fxparser_loop ucs2 (q\<lparr>fx_data := d, enough_data := True\<rparr>)"
proof (cases "fx_state q = ParserState_Entry")
  case True
  then have "(fx_starve q)\<lparr>fx_data := d, enough_data := True\<rparr> = (q\<lparr>fx_data := d, enough_data := True\<rparr>)\<lparr>tag := 0\<rparr>"
    by (simp add: fx_starve_def)
  with True assms loop_Entry [of "q\<lparr>fx_data := d, enough_data := True\<rparr>" ucs2 0] show ?thesis by simp
qed (simp add: fx_starve_def)

text \<open>One round on more data.\<close>

lemma round_extend:
  assumes i: "idx q \<le> length (fx_data q)" and s: "small (fx_data q @ e)"
    and a: "fx_ask ucs2 (fx_state q) (tag q) (fx_data q) (idx q) \<noteq> Ok None"
  shows "fxparser_round ucs2 (q\<lparr>fx_data := fx_data q @ e\<rparr>) =
    obind (fxparser_round ucs2 q) (\<lambda>(ms, r). Ok (ms, r\<lparr>fx_data := fx_data q @ e\<rparr>))"
proof (cases "fx_ask ucs2 (fx_state q) (tag q) (fx_data q) (idx q)")
  case (Ok r)
  with a obtain ev k where r: "r = Some (ev, k)" by (cases r) auto
  have comm: "q\<lparr>fx_data := fx_data q @ e, idx := k\<rparr> = q\<lparr>idx := k, fx_data := fx_data q @ e\<rparr>" by simp
  have "fx_apply ev (q\<lparr>fx_data := fx_data q @ e, idx := k\<rparr>) =
      (case fx_apply ev (q\<lparr>idx := k\<rparr>) of (ms, r) \<Rightarrow> (ms, r\<lparr>fx_data := fx_data q @ e\<rparr>))"
    unfolding comm using fx_apply_upd(1) [where q = "q\<lparr>idx := k\<rparr>" and d = "fx_data q @ e" and ev = ev] by (simp add: map_prod_def split: prod.splits)
  with Ok r ask_puller.extend [OF i s a] show ?thesis
    by (simp add: fxparser_round_ask split: prod.splits)
qed (use ask_puller.extend [OF i s a] in \<open>simp_all add: fxparser_round_ask\<close>)

lemma round_enough:
  assumes "fxparser_round ucs2 q = Ok (ms, r)" and "fx_ask ucs2 (fx_state q) (tag q) (fx_data q) (idx q) \<noteq> Ok None"
  shows "enough_data r = enough_data q"
proof -
  from assms obtain ev k where "fx_apply ev (q\<lparr>idx := k\<rparr>) = (ms, r)"
    by (auto simp: fxparser_round_ask split: option.splits)
  then have "r = snd (fx_apply ev (q\<lparr>idx := k\<rparr>))" by simp
  then show ?thesis by (simp add: fx_apply_same)
qed

lemma loop_step:
  "idx q < length (fx_data q) \<Longrightarrow> enough_data q \<Longrightarrow> fxparser_round ucs2 q = Ok (ms, q') \<Longrightarrow>
    fxparser_loop ucs2 q = (if ms = MAPI_E_SUCCESS then fxparser_loop ucs2 q' else Ok (ms, q'))"
  by (subst fxparser_loop.simps) simp

lemma loop_stop: "\<not> (idx q < length (fx_data q) \<and> enough_data q) \<Longrightarrow> fxparser_loop ucs2 q = Ok (MAPI_E_SUCCESS, q)"
  by (subst fxparser_loop.simps) (simp only: if_False)

lemma enough_upd: "enough_data q \<Longrightarrow> q\<lparr>fx_data := d, enough_data := True\<rparr> = q\<lparr>fx_data := d\<rparr>"
  by (cases q) simp

lemma loop_round_Ok:
  assumes "fxparser_loop ucs2 q = Ok r" and "idx q < length (fx_data q)" and "enough_data q"
  obtains ms q' where "fxparser_round ucs2 q = Ok (ms, q')"
  using assms by (subst (asm) fxparser_loop.simps) (auto split: outcome.splits)

lemma loop_extend:
  assumes "idx q \<le> length (fx_data q)" and "enough_data q" and "small (fx_data q @ e)"
    and "fxparser_loop ucs2 (q\<lparr>fx_data := fx_data q @ e\<rparr>) = Ok (MAPI_E_SUCCESS, q2)"
  shows "\<exists>r. fxparser_loop ucs2 q = Ok (MAPI_E_SUCCESS, r) \<and> fx_data r = fx_data q \<and> idx r \<le> length (fx_data q) \<and>
    fxparser_loop ucs2 (r\<lparr>fx_data := fx_data q @ e, enough_data := True\<rparr>) = Ok (MAPI_E_SUCCESS, q2)"
  using assms
proof (induction ucs2 q rule: fxparser_loop.induct)
  case (1 ucs2 q)
  let ?e = "fx_data q @ e"
  show ?case
  proof (cases "idx q < length (fx_data q)")
    case False
    with 1(2,3,5) loop_stop [of q ucs2] show ?thesis by (intro exI [of _ q]) (simp add: enough_upd)
  next
    case True
    let ?ask = "fx_ask ucs2 (fx_state q) (tag q) (fx_data q) (idx q)"
    have te: "idx (q\<lparr>fx_data := ?e\<rparr>) < length (fx_data (q\<lparr>fx_data := ?e\<rparr>))" using True by simp
    show ?thesis
    proof (cases "?ask = Ok None")
      case starved: True
      then have rd: "fxparser_round ucs2 q = Ok (MAPI_E_SUCCESS, fx_starve q)" by (simp add: fxparser_round_ask)
      have "fxparser_loop ucs2 q = Ok (MAPI_E_SUCCESS, fx_starve q)"
        using loop_step [OF True 1(3) rd] loop_stop [of "fx_starve q"] by (simp add: fx_starve_def)
      then show ?thesis
        using 1(3,5) loop_starved [of q ?e ucs2] True by (intro exI [of _ "fx_starve q"]) (simp add: enough_upd fx_starve_def)
    next
      case False
      note ext = round_extend [OF 1(2,4) False]
      from loop_round_Ok [OF 1(5) te] 1(3) obtain ms q' where e: "fxparser_round ucs2 (q\<lparr>fx_data := ?e\<rparr>) = Ok (ms, q')"
        by auto
      with ext have "obind (fxparser_round ucs2 q) (\<lambda>(ms, r). Ok (ms, r\<lparr>fx_data := ?e\<rparr>)) = Ok (ms, q')" by simp
      then obtain q1 where rd: "fxparser_round ucs2 q = Ok (ms, q1)" and q': "q' = q1\<lparr>fx_data := ?e\<rparr>" by auto
      from loop_step [OF te _ e] 1(3,5) have ms: "ms = MAPI_E_SUCCESS" by (auto split: if_splits)
      with loop_step [OF te _ e] 1(3,5) q' have l: "fxparser_loop ucs2 (q1\<lparr>fx_data := ?e\<rparr>) = Ok (MAPI_E_SUCCESS, q2)" by simp
      note pr = fxparser_round_progress [OF rd True]
      have en: "enough_data q1" using round_enough [OF rd False] 1(3) by simp
      from 1(1) [OF _ rd refl ms] True 1(3,4) pr en l have
        "\<exists>r. fxparser_loop ucs2 q1 = Ok (MAPI_E_SUCCESS, r) \<and> fx_data r = fx_data q1 \<and> idx r \<le> length (fx_data q1) \<and>
    fxparser_loop ucs2 (r\<lparr>fx_data := fx_data q1 @ e, enough_data := True\<rparr>) = Ok (MAPI_E_SUCCESS, q2)" by simp
      with loop_step [OF True 1(3) rd] ms pr show ?thesis by simp
    qed
  qed
qed

text \<open>Consumed data in front: it may be dropped.\<close>

definition fx_up :: "u8 list \<Rightarrow> 'p fx_parser_context \<Rightarrow> 'p fx_parser_context" where
  "fx_up p q = q\<lparr>fx_data := p @ fx_data q, idx := length p + idx q\<rparr>"

lemma fx_up_simps [simp]:
  "fx_data (fx_up p q) = p @ fx_data q" "idx (fx_up p q) = length p + idx q" "fx_state (fx_up p q) = fx_state q"
  "tag (fx_up p q) = tag q" "enough_data (fx_up p q) = enough_data q"
  by (simp_all add: fx_up_def)

lemma fx_apply_up: "fx_apply ev (fx_up p q) = map_prod id (fx_up p) (fx_apply ev q)"
  by (cases ev) (auto simp: fx_up_def callback_def Let_def split: option.splits prod.splits)

lemma fx_starve_up: "fx_starve (fx_up p q) = fx_up p (fx_starve q)"
  by (simp add: fx_starve_def fx_up_def)

lemma round_shift:
  assumes i: "idx q \<le> length (fx_data q)" and s: "small (p @ fx_data q)"
    and r: "fxparser_round ucs2 (fx_up p q) = Ok (ms, r)"
  shows "\<exists>r'. fxparser_round ucs2 q = Ok (ms, r') \<and> r = fx_up p r'"
proof -
  from r obtain x where x: "fx_ask ucs2 (fx_state q) (tag q) (p @ fx_data q) (length p + idx q) = Ok x"
    by (auto simp: fxparser_round_ask)
  from ask_puller.shift [OF i s x] have y: "fx_ask ucs2 (fx_state q) (tag q) (fx_data q) (idx q) = Ok (unshift (length p) x)" .
  show ?thesis
  proof (cases x)
    case None
    with r x y show ?thesis by (auto simp: fxparser_round_ask fx_starve_up)
  next
    case (Some e)
    then obtain ev k where e: "x = Some (ev, k)" by (cases e) auto
    have "length p + idx q \<le> k" using ask_puller.bounds [OF _ x [unfolded e]] i by simp
    then have up: "(fx_up p q)\<lparr>idx := k\<rparr> = fx_up p (q\<lparr>idx := k - length p\<rparr>)" by (simp add: fx_up_def)
    with r x y e show ?thesis
      by (cases "fx_apply ev (q\<lparr>idx := k - length p\<rparr>)") (simp add: fxparser_round_ask fx_apply_up)
  qed
qed

lemma loop_shift:
  assumes "idx q \<le> length (fx_data q)" and "small (p @ fx_data q)"
    and "fxparser_loop ucs2 (fx_up p q) = Ok (ms, r)"
  shows "\<exists>r'. fxparser_loop ucs2 q = Ok (ms, r') \<and> r = fx_up p r'"
  using assms
proof (induction ucs2 q rule: fxparser_loop.induct)
  case (1 ucs2 q)
  show ?case
  proof (cases "idx q < length (fx_data q) \<and> enough_data q")
    case False
    with 1(4) loop_stop [of q ucs2] loop_stop [of "fx_up p q" ucs2] show ?thesis by simp
  next
    case True
    then have c: "idx (fx_up p q) < length (fx_data (fx_up p q))" "enough_data (fx_up p q)" by simp_all
    from loop_round_Ok [OF 1(4) c] obtain ms1 q1 where rd: "fxparser_round ucs2 (fx_up p q) = Ok (ms1, q1)" .
    from round_shift [OF 1(2,3) rd] obtain q2 where rd2: "fxparser_round ucs2 q = Ok (ms1, q2)" and q1: "q1 = fx_up p q2" by auto
    note ls = loop_step [OF c rd] loop_step [OF _ _ rd2]
    note pr = fxparser_round_progress [OF rd2]
    show ?thesis
    proof (cases "ms1 = MAPI_E_SUCCESS")
      case ok: True
      with ls(1) 1(4) q1 have l: "fxparser_loop ucs2 (fx_up p q2) = Ok (ms, r)" by simp
      from 1(1) [OF True rd2 refl ok _ _ l] pr True 1(3) have "\<exists>r'. fxparser_loop ucs2 q2 = Ok (ms, r') \<and> r = fx_up p r'" by simp
      with ls(2) True ok show ?thesis by simp
    next
      case False
      with ls True 1(4) q1 show ?thesis by simp
    qed
  qed
qed

lemma fxparser_parse_two:
  assumes "idx p \<le> length (fx_data p)" and "small (fx_data p @ c1 @ c2)"
    and "fxparser_parse ucs2 p (c1 @ c2) = Ok (MAPI_E_SUCCESS, p')"
  shows "\<exists>p1. fxparser_parse ucs2 p c1 = Ok (MAPI_E_SUCCESS, p1) \<and> idx p1 = 0 \<and> small (fx_data p1 @ c2) \<and>
    fxparser_parse ucs2 p1 c2 = Ok (MAPI_E_SUCCESS, p')"
proof -
  let ?q = "p\<lparr>fx_data := fx_data p @ c1, enough_data := True\<rparr>"
  have q1: "?q\<lparr>fx_data := fx_data ?q @ c2\<rparr> = p\<lparr>fx_data := fx_data p @ c1 @ c2, enough_data := True\<rparr>" by simp
  let ?D = "fx_data p @ c1"
  from assms(3) obtain q2 where l: "fxparser_loop ucs2 (?q\<lparr>fx_data := fx_data ?q @ c2\<rparr>) = Ok (MAPI_E_SUCCESS, q2)"
    and p': "p' = q2\<lparr>fx_data := drop (idx q2) (fx_data q2), idx := 0\<rparr>"
    unfolding q1 by (auto simp: fxparser_parse_def)
  have q: "idx ?q \<le> length (fx_data ?q)" "enough_data ?q" "small (fx_data ?q @ c2)" using assms(1,2) by simp_all
  from loop_extend [OF q l] obtain r where r: "fxparser_loop ucs2 ?q = Ok (MAPI_E_SUCCESS, r)" "fx_data r = ?D"
    "idx r \<le> length ?D" "fxparser_loop ucs2 (r\<lparr>fx_data := ?D @ c2, enough_data := True\<rparr>) = Ok (MAPI_E_SUCCESS, q2)"
    by auto
  let ?p1 = "r\<lparr>fx_data := drop (idx r) ?D, idx := 0\<rparr>"
  let ?q3 = "?p1\<lparr>fx_data := fx_data ?p1 @ c2, enough_data := True\<rparr>"
  let ?pre = "take (idx r) ?D"
  have pre: "?pre @ drop (idx r) ?D = ?D" by (rule append_take_drop_id)
  then have D: "?pre @ drop (idx r) ?D @ c2 = ?D @ c2" by (metis append_assoc)
  have "length ?pre = idx r" using r(3) by simp
  with D have "fx_up ?pre ?q3 = r\<lparr>fx_data := ?D @ c2, enough_data := True\<rparr>" by (simp add: fx_up_def)
  with r(4) have up: "fxparser_loop ucs2 (fx_up ?pre ?q3) = Ok (MAPI_E_SUCCESS, q2)" by simp
  have s3: "small (?pre @ fx_data ?q3)" using assms(2) by (simp add: small_def)
  from loop_shift [OF _ s3 up] obtain r' where r': "fxparser_loop ucs2 ?q3 = Ok (MAPI_E_SUCCESS, r')" "q2 = fx_up ?pre r'" by auto
  have "fxparser_parse ucs2 p c1 = Ok (MAPI_E_SUCCESS, ?p1)" using r by (simp add: fxparser_parse_def)
  moreover have "fxparser_parse ucs2 ?p1 c2 = Ok (MAPI_E_SUCCESS, p')"
    using r' p' by (simp add: fxparser_parse_def fx_up_def)
  moreover have "small (fx_data ?p1 @ c2)" using s3 by (simp add: small_def)
  ultimately show ?thesis by (intro exI [of _ ?p1]) simp
qed

lemma fxparser_feed_parse:
  "idx p \<le> length (fx_data p) \<Longrightarrow> small (fx_data p @ concat cs) \<Longrightarrow> cs \<noteq> [] \<Longrightarrow>
    fxparser_parse ucs2 p (concat cs) = Ok (MAPI_E_SUCCESS, p') \<Longrightarrow> fxparser_feed ucs2 p cs = Ok (MAPI_E_SUCCESS, p')"
proof (induction cs arbitrary: p)
  case (Cons c cs)
  show ?case
  proof (cases "cs = []")
    case True
    with Cons.prems(4) show ?thesis by simp
  next
    case False
    from fxparser_parse_two [of p c "concat cs" ucs2 p'] Cons.prems obtain p1 where
      "fxparser_parse ucs2 p c = Ok (MAPI_E_SUCCESS, p1)" "idx p1 = 0" "small (fx_data p1 @ concat cs)"
      "fxparser_parse ucs2 p1 (concat cs) = Ok (MAPI_E_SUCCESS, p')" by auto
    with Cons.IH [of p1] False show ?thesis by simp
  qed
qed simp

end
