(* ===== verification/Fxparser_Stream.thy ===== *)
theory Fxparser_Stream
  imports Fxparser_Parse
begin

unbundle bit_operations_syntax

text \<open>
  Streams of well-formed elements and what the parser delivers for them.
\<close>

section \<open>Well-formed streams\<close>

text \<open>The elements of a stream and their encoding ([MS-OXCFXICS] 2.2.4): a marker is its tag, a deleted property
  the marker \<open>MetaTagFXDelProp\<close> and the tag, a property its tag and its value, a named property its tag, its name and its value.
  Strings in UTF-16 stand in an element as the bytes of the stream. \<open>Name\<close> is what the parser
  reports in front of the value of a named property; it is no element of a stream by itself.\<close>

datatype fx_element = Marker u32 | DelProp u32 | Prop u32 prop_value | NamedProp u32 "fx_guid \<times> name_kind" prop_value
  | Name u32 "fx_guid \<times> name_kind"

definition counted :: "u8 list \<Rightarrow> u8 list" where
  "counted bs = le_bytes 4 (of_nat (length bs) :: u32) @ bs"

definition enc_multi :: "('a \<Rightarrow> u8 list) \<Rightarrow> 'a list \<Rightarrow> u8 list" where
  "enc_multi e vs = le_bytes 4 (of_nat (length vs) :: u32) @ concat (map e vs)"

definition enc_time :: "u32 \<times> u32 \<Rightarrow> u8 list" where
  "enc_time ft = le_bytes 4 (fst ft) @ le_bytes 4 (snd ft)"

fun enc_value :: "prop_value \<Rightarrow> u8 list" where
  "enc_value (VNull x) = le_bytes 4 x"
| "enc_value (VShort x) = le_bytes 2 x"
| "enc_value (VLong x) = le_bytes 4 x"
| "enc_value (VDouble x) = le_bytes 8 x"
| "enc_value (VBoolean x) = [x, 0]"
| "enc_value (VI8 x) = le_bytes 8 x"
| "enc_value (VString8 bs) = counted bs"
| "enc_value (VUnicode w) = counted w"
| "enc_value (VSysTime ft) = enc_time ft"
| "enc_value (VClsid bs) = bs"
| "enc_value (VBinary bs) = counted bs"
| "enc_value (VError x) = le_bytes 4 x"
| "enc_value (VMVShort xs) = enc_multi (le_bytes 2) xs"
| "enc_value (VMVLong xs) = enc_multi (le_bytes 4) xs"
| "enc_value (VMVString8 bss) = enc_multi counted bss"
| "enc_value (VMVUnicode ws) = enc_multi counted ws"
| "enc_value (VMVBinary bss) = enc_multi counted bss"
| "enc_value (VMVClsid gs) = enc_multi (\<lambda>bs. bs) gs"
| "enc_value (VMVSysTime fts) = enc_multi enc_time fts"
| "enc_value _ = []"

text \<open>The property types that a value can have in a stream: every type that the parser knows.\<close>

fun value_types :: "prop_value \<Rightarrow> u32 list" where
  "value_types (VNull x) = [PT_NULL]"
| "value_types (VShort x) = [PT_SHORT]"
| "value_types (VLong x) = [PT_LONG]"
| "value_types (VDouble x) = [PT_DOUBLE]"
| "value_types (VBoolean x) = [PT_BOOLEAN]"
| "value_types (VI8 x) = [PT_I8]"
| "value_types (VString8 bs) = [PT_STRING8]"
| "value_types (VUnicode w) = [PT_UNICODE]"
| "value_types (VSysTime ft) = [PT_SYSTIME]"
| "value_types (VClsid bs) = (if length bs = 16 then [PT_CLSID] else [])"
| "value_types (VBinary bs) = [PT_BINARY, PT_SVREID, PT_OBJECT]"
| "value_types (VError x) = [PT_ERROR]"
| "value_types (VMVShort xs) = [PT_MV_SHORT]"
| "value_types (VMVLong xs) = [PT_MV_LONG]"
| "value_types (VMVString8 bss) = [PT_MV_STRING8]"
| "value_types (VMVUnicode ws) = [PT_MV_UNICODE]"
| "value_types (VMVBinary bss) = [PT_MV_BINARY]"
| "value_types (VMVClsid gs) = (if list_all (\<lambda>bs. length bs = 16) gs then [PT_MV_CLSID] else [])"
| "value_types (VMVSysTime fts) = [PT_MV_SYSTIME]"
| "value_types _ = []"

text \<open>A string of UTF-16 code units that ends with its first zero.\<close>

fun ucs2_string :: "u8 list \<Rightarrow> bool" where
  "ucs2_string (a # b # w) = (if a = 0 \<and> b = 0 then w = [] else ucs2_string w)"
| "ucs2_string _ = False"

definition enc_guid :: "fx_guid \<Rightarrow> u8 list" where
  "enc_guid g = le_bytes 4 (time_low g) @ le_bytes 2 (time_mid g) @ le_bytes 2 (time_hi_and_version g) @ clock_seq g @ node g"

fun enc_kind :: "name_kind \<Rightarrow> u8 list" where
  "enc_kind (MNID_ID lid) = 0 # le_bytes 4 lid"
| "enc_kind (MNID_STRING w) = 1 # w"

fun wf_name :: "fx_guid \<times> name_kind \<Rightarrow> bool" where
  "wf_name (g, k) = (length (clock_seq g) = 2 \<and> length (node g) = 6 \<and> (case k of MNID_STRING w \<Rightarrow> ucs2_string w | _ \<Rightarrow> True))"

fun enc_element :: "fx_element \<Rightarrow> u8 list" where
  "enc_element (Marker m) = le_bytes 4 m"
| "enc_element (DelProp t) = le_bytes 4 MetaTagFXDelProp @ le_bytes 4 t"
| "enc_element (Prop t v) = le_bytes 4 t @ enc_value v"
| "enc_element (NamedProp t nm v) = le_bytes 4 t @ enc_guid (fst nm) @ enc_kind (snd nm) @ enc_value v"
| "enc_element (Name t nm) = []"

fun wf_element :: "fx_element \<Rightarrow> bool" where
  "wf_element (Marker m) = (m \<in> set fx_markers)"
| "wf_element (DelProp t) = True"
| "wf_element (Prop t v) =
     (t \<notin> set fx_markers \<and> t \<noteq> MetaTagFXDelProp \<and> drop_bit 16 t AND 0x8000 = 0 \<and> t AND 0xFFFF \<in> set (value_types v))"
| "wf_element (NamedProp t nm v) =
     (t \<notin> set fx_markers \<and> t \<noteq> MetaTagFXDelProp \<and> drop_bit 16 t AND 0x8000 \<noteq> 0 \<and> wf_name nm \<and> t AND 0xFFFF \<in> set (value_types v))"
| "wf_element (Name t nm) = False"

text \<open>What the client gets: the strings are converted, and a named property comes in two parts.\<close>

fun text_value :: "(u8 list \<Rightarrow> u8 list) \<Rightarrow> prop_value \<Rightarrow> prop_value" where
  "text_value ucs2 (VUnicode w) = VUnicode (ucs2 w)"
| "text_value ucs2 (VMVUnicode ws) = VMVUnicode (map ucs2 ws)"
| "text_value ucs2 v = v"

fun text_name :: "(u8 list \<Rightarrow> u8 list) \<Rightarrow> fx_guid \<times> name_kind \<Rightarrow> fx_guid \<times> name_kind" where
  "text_name ucs2 (g, MNID_STRING w) = (g, MNID_STRING (ucs2 w))"
| "text_name ucs2 nm = nm"

fun delivered :: "(u8 list \<Rightarrow> u8 list) \<Rightarrow> fx_element \<Rightarrow> fx_element list" where
  "delivered ucs2 (Prop t v) = [Prop t (text_value ucs2 v)]"
| "delivered ucs2 (NamedProp t nm v) = [Name t (text_name ucs2 nm), Prop t (text_value ucs2 v)]"
| "delivered ucs2 el = [el]"

section \<open>Reading encoded values\<close>

lemma le_value_Cons_sum: "(le_value (b # bs) :: 'a::len word) = ucast b + push_bit 8 (le_value bs)"
proof -
  have "(ucast b :: 'a word) AND push_bit 8 (le_value bs) = 0"
  proof (rule bit_word_eqI)
    fix n show "bit ((ucast b :: 'a word) AND push_bit 8 (le_value bs)) n \<longleftrightarrow> bit (0 :: 'a word) n"
      using bit_imp_le_length [of b n] by (auto simp: bit_simps)
  qed
  then show ?thesis by (simp add: disjunctive_add_eq_or)
qed

lemmas le_value_sum = le_value_Cons_sum push_bit_add push_bit_push_bit

lemma pull_fixed_at:
  assumes "small (pre @ bs @ rest)" and "length bs = n" and "n \<le> 16"
  shows "pull_fixed n (pre @ bs @ rest) (length pre) = Ok (Some (bs, length pre + n))"
  using assms pull_fixed_eq [of "length pre" "pre @ bs @ rest" n] by simp

lemma pull_fixed_ret:
  assumes "small (pre @ bs @ rest)" and "length bs = n" and "n \<le> 16"
  shows "pull_bind (pull_fixed n) (\<lambda>bs. pull_return (g bs)) (pre @ bs @ rest) (length pre) = Ok (Some (g bs, length pre + n))"
  using pull_fixed_at [OF assms] by (simp add: pull_bind_def [of "pull_fixed n"] pull_return_def)

lemma four_bytes: "length bs = 4 \<Longrightarrow> (le_value bs :: 'a::len word) = ucast (bs ! 0) + push_bit 8 (ucast (bs ! 1)) + push_bit 16 (ucast (bs ! 2))
                  + push_bit 24 (ucast (bs ! 3))"
  by (auto simp: length_Suc_conv eval_nat_numeral le_value_sum simp del: le_value.simps(2))

lemma pull_uint32_at:
  assumes "small (pre @ le_bytes 4 x @ rest)"
  shows "pull_uint32_t (pre @ le_bytes 4 x @ rest) (length pre) = Ok (Some (x, length pre + 4))"
proof -
  have "(le_value (le_bytes 4 x) :: u32) = x" by (simp add: le_value_le_bytes take_bit_word_eq_self)
  then show ?thesis unfolding pull_uint32_t_def fixed_unfold using assms by (simp add: pull_fixed_ret four_bytes)
qed

lemma pull_uint16_at:
  assumes "small (pre @ le_bytes 2 x @ rest)"
  shows "pull_uint16_t (pre @ le_bytes 2 x @ rest) (length pre) = Ok (Some (x, length pre + 2))"
proof -
  have "(le_value (le_bytes 2 x) :: u16) = x" by (simp add: le_value_le_bytes take_bit_word_eq_self)
  then have "ucast (le_bytes 2 x ! 0) + push_bit 8 (ucast (le_bytes 2 x ! 1)) = x"
    by (simp add: eval_nat_numeral le_value_sum del: le_value.simps(2))
  then show ?thesis unfolding pull_uint16_t_def fixed_unfold using assms by (simp add: pull_fixed_ret)
qed

lemma eight_bytes: "length bs = 8 \<Longrightarrow> (le_value bs :: 'a::len word) = ucast (bs ! 0) + push_bit 8 (ucast (bs ! 1)) + push_bit 16 (ucast (bs ! 2))
   + push_bit 24 (ucast (bs ! 3)) + push_bit 32 (ucast (bs ! 4)) + push_bit 40 (ucast (bs ! 5)) + push_bit 48 (ucast (bs ! 6)) + push_bit 56 (ucast (bs ! 7))"
  by (auto simp: length_Suc_conv eval_nat_numeral le_value_sum simp del: le_value.simps(2))

lemma pull_int64_at:
  assumes "small (pre @ le_bytes 8 x @ rest)"
  shows "pull_int64_t (pre @ le_bytes 8 x @ rest) (length pre) = Ok (Some (x, length pre + 8))"
proof -
  have "(le_value (le_bytes 8 x) :: u64) = x" by (simp add: le_value_le_bytes take_bit_word_eq_self)
  then show ?thesis unfolding pull_int64_t_def fixed_unfold using assms by (simp add: pull_fixed_ret eight_bytes)
qed

lemma pull_uint8_at:
  "small (pre @ b # rest) \<Longrightarrow> pull_uint8_t (pre @ b # rest) (length pre) = Ok (Some (b, length pre + 1))"
  using pull_fixed_ret [of pre "[b]" rest 1 "\<lambda>bs. bs ! 0"] unfolding pull_uint8_t_def fixed_unfold by simp

text \<open>A puller reads one encoding and stops behind it.\<close>

definition reads :: "'a puller \<Rightarrow> u8 list \<Rightarrow> 'a \<Rightarrow> bool" where
  "reads f bs v \<longleftrightarrow> (\<forall>pre rest. small (pre @ bs @ rest) \<longrightarrow> f (pre @ bs @ rest) (length pre) = Ok (Some (v, length pre + length bs)))"

lemma reads_bind:
  assumes "reads f bs v" and "reads (g v) cs w"
  shows "reads (pull_bind f g) (bs @ cs) w"
  unfolding reads_def
proof (intro allI impI)
  fix pre rest assume s: "small (pre @ (bs @ cs) @ rest)"
  have "f (pre @ bs @ cs @ rest) (length pre) = Ok (Some (v, length pre + length bs))"
    using assms(1) s by (simp add: reads_def)
  moreover have "g v (pre @ bs @ cs @ rest) (length pre + length bs) = Ok (Some (w, length pre + length bs + length cs))"
    using assms(2) [unfolded reads_def, rule_format, of "pre @ bs" rest] s by simp
  ultimately show "pull_bind f g (pre @ (bs @ cs) @ rest) (length pre) = Ok (Some (w, length pre + length (bs @ cs)))"
    by (simp add: pull_bind_def add.assoc)
qed

lemma reads_return: "reads (pull_return v) [] v"
  by (simp add: reads_def pull_return_def)

lemma reads_map: "reads f bs v \<Longrightarrow> reads (pull_map g f) bs (g v)"
  using reads_bind [of f bs v "\<lambda>v. pull_return (g v)" "[]"] by (simp add: pull_map_def reads_return)

lemma reads_basic:
  "reads pull_uint32_t (le_bytes 4 x) x" "reads pull_uint16_t (le_bytes 2 y) y"
  "reads pull_int64_t (le_bytes 8 z) z" "reads pull_uint8_t [b] b"
  by (simp_all add: reads_def pull_uint32_at pull_uint16_at pull_int64_at pull_uint8_at)

lemma reads_repeat: "(\<And>v. v \<in> set vs \<Longrightarrow> reads f (e v) (g v)) \<Longrightarrow> reads (pull_repeat (length vs) f) (concat (map e vs)) (map g vs)"
proof (induction vs)
  case (Cons v vs)
  have "reads (pull_bind (pull_repeat (length vs) f) (\<lambda>vs. pull_return (g v # vs))) (concat (map e vs) @ []) (g v # map g vs)"
    using Cons by (intro reads_bind [OF _ reads_return]) auto
  then show ?case using reads_bind [of f "e v" "g v" "\<lambda>v. pull_bind (pull_repeat (length vs) f) (\<lambda>vs. pull_return (v # vs))"] Cons.prems
    by simp
qed (simp add: reads_return)

lemma reads_bytes: "reads (pull_repeat (length bs) pull_uint8_t) bs bs"
  using reads_repeat [of bs pull_uint8_t "\<lambda>b. [b]" "\<lambda>b. b"] reads_basic(4) by simp

text \<open>A check in front of a read that is known to succeed.\<close>

lemma reads_guard:
  assumes "reads f bs v" and "\<And>pre rest. small (pre @ bs @ rest) \<Longrightarrow> chk (pre @ bs @ rest) (length pre) = Ok (Some ((), length pre))"
  shows "reads (pull_bind chk (\<lambda>_. f)) bs v"
  using assms by (simp add: reads_def pull_bind_def)

lemma reads_need: "reads f bs v \<Longrightarrow> length bs = n \<Longrightarrow> n \<le> 16 \<Longrightarrow> reads (pull_bind (pull_need n) (\<lambda>_. f)) bs v"
  by (rule reads_guard) (simp_all add: pull_need_eq)

lemma unat_of_length: "length xs < 2 ^ 32 \<Longrightarrow> unat (of_nat (length xs) :: u32) = length xs"
  by (simp add: unat_of_nat)

lemma small_middle: "small (pre @ bs @ rest) \<Longrightarrow> length bs < 2 ^ 32"
  by (simp add: small_def)

text \<open>A counted block: the count is read, checked and used.\<close>

lemma reads_counted:
  assumes "length bs < 2 ^ 32 \<Longrightarrow> reads (pull_bind (chk (of_nat k)) (\<lambda>_. f (of_nat k))) bs v"
  shows "reads (pull_bind pull_uint32_t (\<lambda>n. pull_bind (chk n) (\<lambda>_. f n))) (le_bytes 4 (of_nat k :: u32) @ bs) v"
proof (cases "length bs < 2 ^ 32")
  case True
  then show ?thesis using assms by (intro reads_bind [of pull_uint32_t _ "of_nat k"] reads_basic) simp
next
  case False
  then have "\<not> small (pre @ (le_bytes 4 (of_nat k :: u32) @ bs) @ rest)" for pre rest by (simp add: small_def)
  then show ?thesis unfolding reads_def by blast
qed

lemma reads_room:
  assumes "reads f bs v" and "length bs < 2 ^ 32"
  shows "reads (pull_bind (pull_room (of_nat (length bs))) (\<lambda>_. f)) bs v"
  using assms by (intro reads_guard) (simp_all add: pull_room_eq unat_of_length)

lemma reads_binary: "reads pull_binary (counted bs) bs"
  unfolding counted_def pull_binary_def pull_uint8_data_def
  by (rule reads_counted, rule reads_room) (simp_all add: unat_of_length reads_bytes)

lemma reads_string8: "reads pull_string8 (counted bs) bs"
  unfolding counted_def pull_string8_def
  by (rule reads_counted, rule reads_room) (simp_all add: unat_of_length reads_bytes)

lemma reads_raw: "reads (pull_raw (length bs)) bs bs"
  by (simp add: reads_def pull_raw_def rd_bytes_def)

lemma reads_ucs2_data: "length bs < 2 ^ 32 \<Longrightarrow> reads (fetch_ucs2_data (of_nat (length bs))) bs bs"
  unfolding fetch_ucs2_data_def by (rule reads_room) (simp_all add: unat_of_length reads_raw)

lemma reads_unicode: "reads (pull_unicode ucs2) (counted w) (ucs2 w)"
  unfolding counted_def pull_unicode_def
proof (rule reads_counted, rule reads_room)
  assume "length w < 2 ^ 32"
  from reads_bind [OF reads_ucs2_data [OF this], of "\<lambda>bs. pull_return (ucs2 bs)" "[]"]
  show "reads (pull_bind (fetch_ucs2_data (of_nat (length w))) (\<lambda>bs. pull_return (ucs2 bs))) w (ucs2 w)" by (simp add: reads_return)
qed

lemma reads_multi:
  assumes "\<And>v. v \<in> set vs \<Longrightarrow> reads f (e v) (g v)" and "\<And>v. v \<in> set vs \<Longrightarrow> unat k \<le> length (e v)" and "1 \<le> unat k"
  shows "reads (pull_multi early k f) (enc_multi e vs) (map g vs)"
  unfolding enc_multi_def pull_multi_def
proof (rule reads_counted)
  assume len: "length (concat (map e vs)) < 2 ^ 32"
  have fits: "length vs * unat k \<le> length (concat (map e vs))"
    using assms(2)
  proof (induction vs)
    case (Cons v vs)
    then have "unat k \<le> length (e v)" "length vs * unat k \<le> length (concat (map e vs))" by auto
    then show ?case by simp
  qed simp
  have "length vs * 1 \<le> length vs * unat k" using assms(3) by (rule mult_le_mono2)
  with fits len have n: "unat (of_nat (length vs) :: u32) = length vs" by (intro unat_of_length) linarith
  have "pull_room_mv early (of_nat (length vs)) k f (pre @ concat (map e vs) @ rest) (length pre) = Ok (Some ((), length pre))"
    if "small (pre @ concat (map e vs) @ rest)" for pre rest
    using mv_check [OF _ that, of "length pre" "of_nat (length vs)" k] fits n by (simp add: pull_room_mv_def)
  moreover have "reads (pull_repeat (length vs) f) (concat (map e vs)) (map g vs)" using assms(1) by (rule reads_repeat)
  ultimately show
    "reads (pull_bind (pull_room_mv early (of_nat (length vs)) k f) (\<lambda>_. pull_repeat (unat (of_nat (length vs) :: u32)) f)) (concat (map e vs)) (map g vs)"
    unfolding n by (intro reads_guard)
qed

lemma reads_boolean: "reads pull_boolean [b, c] b"
  using pull_fixed_ret [of _ "[b, c]" _ 2 "\<lambda>bs. bs ! 0"] unfolding pull_boolean_def fixed_unfold
  by (simp add: reads_def numeral_2_eq_2)

lemma reads_systime: "reads pull_systime (enc_time ft) ft"
proof -
  have "reads (pull_bind pull_uint32_t (\<lambda>lo. pull_bind pull_uint32_t (\<lambda>hi. pull_return (lo, hi))))
      (le_bytes 4 (fst ft) @ le_bytes 4 (snd ft) @ []) (fst ft, snd ft)"
    by (intro reads_bind [OF reads_basic(1)] reads_return)
  then show ?thesis unfolding pull_systime_def enc_time_def by (intro reads_need) simp_all
qed

lemma reads_clsid: "length bs = 16 \<Longrightarrow> reads pull_clsid bs bs"
  using reads_bytes [of bs] unfolding pull_clsid_def by (intro reads_need) simp_all

lemma enc_lengths: "length (counted bs) = 4 + length bs" "length (enc_time ft) = 8"
  by (simp_all add: counted_def enc_time_def)

lemma reads_multis:
  "reads (pull_multi True 2 pull_uint16_t) (enc_multi (le_bytes 2) xs) xs"
  "reads (pull_multi True 4 pull_uint32_t) (enc_multi (le_bytes 4) ys) ys"
  "reads (pull_multi True 4 pull_binary) (enc_multi counted bss) bss"
  "reads (pull_multi False 4 pull_string8) (enc_multi counted bss) bss"
  "reads (pull_multi False 4 (pull_unicode ucs2)) (enc_multi counted ws) (map ucs2 ws)"
  "list_all (\<lambda>bs. length bs = 16) gs \<Longrightarrow> reads (pull_multi False 16 pull_clsid) (enc_multi (\<lambda>bs. bs) gs) gs"
  "reads (pull_multi False 8 pull_systime) (enc_multi enc_time fts) fts"
  using reads_multi [of xs pull_uint16_t "le_bytes 2" "\<lambda>x. x" 2 True] reads_multi [of ys pull_uint32_t "le_bytes 4" "\<lambda>x. x" 4 True]
    reads_multi [of bss pull_binary counted "\<lambda>x. x" 4 True] reads_multi [of bss pull_string8 counted "\<lambda>x. x" 4 False]
    reads_multi [of ws "pull_unicode ucs2" counted ucs2 4 False] reads_multi [of gs pull_clsid "\<lambda>bs. bs" "\<lambda>x. x" 16 False]
    reads_multi [of fts pull_systime enc_time "\<lambda>x. x" 8 False]
  by (simp_all add: reads_basic reads_binary reads_string8 reads_unicode reads_clsid reads_systime enc_lengths list_all_iff)

lemma reads_value:
  assumes "t AND 0xFFFF \<in> set (value_types v)"
  shows "reads (fetch_property_value ucs2 t) (enc_value v) (text_value ucs2 v)"
proof -
  note r = reads_basic reads_boolean reads_string8 reads_unicode reads_systime reads_clsid reads_binary reads_multis
  show ?thesis
    using assms by (cases v) (auto simp: fetch_property_value_def pull_double_def r [THEN reads_map] split: if_splits)
qed

lemma enc_value_nonempty: "t \<in> set (value_types v) \<Longrightarrow> enc_value v \<noteq> []"
  by (cases v) (auto simp: eval_nat_numeral counted_def enc_multi_def enc_time_def split: if_splits)

subsection \<open>Names\<close>

lemma find_ucs2_null_at: "ucs2_string w \<Longrightarrow> find_ucs2_null (pre @ w @ rest) (length pre) = Some (length pre + length w)"
proof (induction w arbitrary: pre rule: ucs2_string.induct)
  case (1 a b w)
  show ?case
  proof (cases "a = 0 \<and> b = 0")
    case True
    with 1 show ?thesis by (subst find_ucs2_null.simps) (simp add: nth_append)
  next
    case False
    then have "find_ucs2_null ((pre @ [a, b]) @ w @ rest) (length (pre @ [a, b])) = Some (length (pre @ [a, b]) + length w)"
      using 1 by (intro "1.IH") auto
    with False show ?thesis by (subst find_ucs2_null.simps) (auto simp: nth_append)
  qed
qed simp_all

lemma reads_ucs2_nullterminated:
  assumes "ucs2_string w" shows "reads fetch_ucs2_nullterminated w w"
  unfolding reads_def
proof (intro allI impI)
  fix pre rest assume s: "small (pre @ w @ rest)"
  with reads_ucs2_data [OF small_middle [OF s]] find_ucs2_null_at [OF assms, of pre rest]
  show "fetch_ucs2_nullterminated (pre @ w @ rest) (length pre) = Ok (Some (w, length pre + length w))"
    by (simp add: reads_def fetch_ucs2_nullterminated_def)
qed

lemma reads_guid:
  assumes "length (clock_seq g) = 2" and "length (node g) = 6" shows "reads pull_guid (enc_guid g) g"
proof -
  obtain c0 c1 where c: "clock_seq g = [c0, c1]" using assms(1) by (auto simp: length_Suc_conv eval_nat_numeral)
  have n: "reads (pull_repeat 6 pull_uint8_t) (node g) (node g)" using reads_bytes [of "node g"] assms(2) by simp
  have "reads (pull_bind pull_uint32_t (\<lambda>tl. pull_bind pull_uint16_t (\<lambda>tm. pull_bind pull_uint16_t (\<lambda>th.
      pull_bind pull_uint8_t (\<lambda>c0. pull_bind pull_uint8_t (\<lambda>c1. pull_bind (pull_repeat 6 pull_uint8_t) (\<lambda>nd.
      pull_return \<lparr>time_low = tl, time_mid = tm, time_hi_and_version = th, clock_seq = [c0, c1], node = nd\<rparr>)))))))
    (le_bytes 4 (time_low g) @ le_bytes 2 (time_mid g) @ le_bytes 2 (time_hi_and_version g) @ [c0] @ [c1] @ node g @ [])
    \<lparr>time_low = time_low g, time_mid = time_mid g, time_hi_and_version = time_hi_and_version g, clock_seq = [c0, c1], node = node g\<rparr>"
    by (intro reads_bind [OF reads_basic(1)] reads_bind [OF reads_basic(2)] reads_bind [OF reads_basic(4)] reads_bind [OF n] reads_return)
  then have "reads (pull_bind pull_uint32_t (\<lambda>tl. pull_bind pull_uint16_t (\<lambda>tm. pull_bind pull_uint16_t (\<lambda>th.
      pull_bind pull_uint8_t (\<lambda>c0. pull_bind pull_uint8_t (\<lambda>c1. pull_bind (pull_repeat 6 pull_uint8_t) (\<lambda>nd.
      pull_return \<lparr>time_low = tl, time_mid = tm, time_hi_and_version = th, clock_seq = [c0, c1], node = nd\<rparr>))))))) (enc_guid g) g"
    using c by (cases g) (simp add: enc_guid_def)
  then show ?thesis unfolding pull_guid_def using assms by (intro reads_need) (simp_all add: enc_guid_def)
qed

lemma reads_name:
  assumes "wf_name nm" shows "reads (pull_named_property ucs2) (enc_guid (fst nm) @ enc_kind (snd nm)) (text_name ucs2 nm)"
proof -
  obtain g k where nm: "nm = (g, k)" by (cases nm)
  have g: "reads pull_guid (enc_guid g) g" using assms nm by (intro reads_guid) simp_all
  show ?thesis
  proof (cases k)
    case (MNID_ID lid)
    have "reads (pull_bind pull_uint32_t (\<lambda>lid. pull_return (g, MNID_ID lid))) (le_bytes 4 lid @ []) (g, MNID_ID lid)"
      by (intro reads_bind [OF reads_basic(1)] reads_return)
    then show ?thesis unfolding pull_named_property_def nm MNID_ID using g
      by (auto intro!: reads_bind [of pull_guid] reads_bind [of pull_uint8_t "[0]" 0 _ "le_bytes 4 lid", simplified] simp: reads_basic)
  next
    case (MNID_STRING w)
    have "reads (pull_bind fetch_ucs2_nullterminated (\<lambda>bs. pull_return (g, MNID_STRING (ucs2 bs)))) (w @ []) (g, MNID_STRING (ucs2 w))"
      using assms nm MNID_STRING by (intro reads_bind [OF reads_ucs2_nullterminated] reads_return) simp
    then show ?thesis unfolding pull_named_property_def nm MNID_STRING using g
      by (auto intro!: reads_bind [of pull_guid] reads_bind [of pull_uint8_t "[1]" 1 _ w, simplified] simp: reads_basic)
  qed
qed

section \<open>A recording client\<close>

definition fx_recorder :: "fx_element list \<Rightarrow> fx_element list fx_parser_context" where
  "fx_recorder es =
     fxparser_set_marker_callback
       (fxparser_set_delprop_callback
         (fxparser_set_namedprop_callback
           (fxparser_set_property_callback (fxparser_init es)
             (Some (\<lambda>t v es. (MAPI_E_SUCCESS, es @ [Prop t v]))))
           (Some (\<lambda>t nm es. (MAPI_E_SUCCESS, es @ [Name t nm]))))
         (Some (\<lambda>t es. (MAPI_E_SUCCESS, es @ [DelProp t]))))
       (Some (\<lambda>t es. (MAPI_E_SUCCESS, es @ [Marker t])))"

lemmas recorder_defs = fx_recorder_def fxparser_init_def fxparser_set_marker_callback_def
  fxparser_set_delprop_callback_def fxparser_set_property_callback_def fxparser_set_namedprop_callback_def

definition fx_at :: "fx_element list \<Rightarrow> u8 list \<Rightarrow> u8 list \<Rightarrow> fx_parser_state \<Rightarrow> u32 \<Rightarrow> fx_element list fx_parser_context" where
  "fx_at es pre rest st t =
     (fx_recorder es)\<lparr>fx_data := pre @ rest, idx := length pre, fx_state := st, enough_data := True, tag := t\<rparr>"

lemma fx_at_fields:
  "fx_data (fx_at es pre rest st t) = pre @ rest" "idx (fx_at es pre rest st t) = length pre"
  "fx_state (fx_at es pre rest st t) = st" "tag (fx_at es pre rest st t) = t" "enough_data (fx_at es pre rest st t)"
  by (simp_all add: fx_at_def)

lemma at_tag:
  assumes "small (pre @ le_bytes 4 t @ rest)"
  shows "fxparser_loop ucs2 (fx_at es pre (le_bytes 4 t @ rest) ParserState_Entry t0) =
    fxparser_loop ucs2 (fx_at es (pre @ le_bytes 4 t) rest ParserState_HaveTag t)"
proof -
  have "fxparser_round ucs2 (fx_at es pre (le_bytes 4 t @ rest) ParserState_Entry t0) =
      Ok (MAPI_E_SUCCESS, fx_at es (pre @ le_bytes 4 t) rest ParserState_HaveTag t)"
    using pull_uint32_at [OF assms]
    by (simp add: fxparser_round_def fx_at_fields pull_tag_def) (simp add: fx_at_def)
  from loop_step [OF _ _ this] show ?thesis by (simp add: fx_at_fields)
qed

lemma at_marker:
  assumes "rest \<noteq> []" and "t \<in> set fx_markers"
  shows "fxparser_loop ucs2 (fx_at es pre rest ParserState_HaveTag t) =
    fxparser_loop ucs2 (fx_at (es @ [Marker t]) pre rest ParserState_Entry t)"
proof -
  have "fxparser_round ucs2 (fx_at es pre rest ParserState_HaveTag t) =
      Ok (MAPI_E_SUCCESS, fx_at (es @ [Marker t]) pre rest ParserState_Entry t)"
    using assms(2) by (simp add: fxparser_round_def fx_at_fields) (simp add: fx_at_def recorder_defs callback_def)
  from loop_step [OF _ _ this] assms(1) show ?thesis by (simp add: fx_at_fields)
qed

lemma at_delprop:
  assumes "small (pre @ le_bytes 4 t @ rest)"
  shows "fxparser_loop ucs2 (fx_at es pre (le_bytes 4 t @ rest) ParserState_HaveTag MetaTagFXDelProp) =
    fxparser_loop ucs2 (fx_at (es @ [DelProp t]) (pre @ le_bytes 4 t) rest ParserState_Entry MetaTagFXDelProp)"
proof -
  have "MetaTagFXDelProp \<notin> set fx_markers" by (simp add: MetaTagFXDelProp_def fx_markers_def)
  then have "fxparser_round ucs2 (fx_at es pre (le_bytes 4 t @ rest) ParserState_HaveTag MetaTagFXDelProp) =
      Ok (MAPI_E_SUCCESS, fx_at (es @ [DelProp t]) (pre @ le_bytes 4 t) rest ParserState_Entry MetaTagFXDelProp)"
    using pull_uint32_at [OF assms]
    by (simp add: fxparser_round_def fx_at_fields) (simp add: fx_at_def recorder_defs callback_def)
  from loop_step [OF _ _ this] show ?thesis by (simp add: fx_at_fields)
qed

lemma at_value:
  assumes v: "t AND 0xFFFF \<in> set (value_types v)" and s: "small (pre @ enc_value v @ rest)"
  shows "fxparser_loop ucs2 (fx_at es pre (enc_value v @ rest) ParserState_HavePropTag t) =
    fxparser_loop ucs2 (fx_at (es @ [Prop t (text_value ucs2 v)]) (pre @ enc_value v) rest ParserState_Entry t)"
proof -
  have ne: "enc_value v \<noteq> []" by (rule enc_value_nonempty [OF v])
  have "fxparser_round ucs2 (fx_at es pre (enc_value v @ rest) ParserState_HavePropTag t) =
      Ok (MAPI_E_SUCCESS, fx_at (es @ [Prop t (text_value ucs2 v)]) (pre @ enc_value v) rest ParserState_Entry t)"
    using reads_value [OF v, of ucs2] s unfolding reads_def
    by (simp add: fxparser_round_def fx_at_fields) (simp add: fx_at_def recorder_defs callback_def)
  from loop_step [OF _ _ this] ne show ?thesis by (simp add: fx_at_fields)
qed

lemma at_property:
  assumes wf: "wf_element (Prop t v)" and s: "small (pre @ enc_value v @ rest)"
  shows "fxparser_loop ucs2 (fx_at es pre (enc_value v @ rest) ParserState_HaveTag t) =
    fxparser_loop ucs2 (fx_at (es @ [Prop t (text_value ucs2 v)]) (pre @ enc_value v) rest ParserState_Entry t)"
proof -
  have ne: "enc_value v \<noteq> []" using wf by (auto dest: enc_value_nonempty)
  have "fxparser_round ucs2 (fx_at es pre (enc_value v @ rest) ParserState_HaveTag t) =
      Ok (MAPI_E_SUCCESS, fx_at es pre (enc_value v @ rest) ParserState_HavePropTag t)"
    using wf by (simp add: fxparser_round_def fx_at_fields) (simp add: fx_at_def)
  from loop_step [OF _ _ this] ne at_value [of t v pre rest ucs2 es] wf s show ?thesis by (simp add: fx_at_fields)
qed

lemma at_named:
  assumes wf: "wf_element (NamedProp t nm v)" and s: "small (pre @ enc_guid (fst nm) @ enc_kind (snd nm) @ enc_value v @ rest)"
  shows "fxparser_loop ucs2 (fx_at es pre (enc_guid (fst nm) @ enc_kind (snd nm) @ enc_value v @ rest) ParserState_HaveTag t) =
    fxparser_loop ucs2 (fx_at (es @ delivered ucs2 (NamedProp t nm v)) (pre @ enc_guid (fst nm) @ enc_kind (snd nm) @ enc_value v) rest ParserState_Entry t)"
proof -
  let ?n = "enc_guid (fst nm) @ enc_kind (snd nm)"
  have n: "enc_guid (fst nm) \<noteq> []" by (simp add: enc_guid_def eval_nat_numeral)
  have "reads (pull_named_property ucs2) ?n (text_name ucs2 nm)" using wf by (intro reads_name) simp
  from this [unfolded reads_def, rule_format, of pre "enc_value v @ rest"] s
  have "pull_named_property ucs2 (pre @ ?n @ enc_value v @ rest) (length pre) = Ok (Some (text_name ucs2 nm, length pre + length ?n))" by simp
  then have "fxparser_round ucs2 (fx_at es pre (?n @ enc_value v @ rest) ParserState_HaveTag t) =
      Ok (MAPI_E_SUCCESS, fx_at (es @ [Name t (text_name ucs2 nm)]) (pre @ ?n) (enc_value v @ rest) ParserState_HavePropTag t)"
    using wf by (simp add: fxparser_round_def fx_at_fields) (simp add: fx_at_def recorder_defs callback_def)
  from loop_step [OF _ _ this] n at_value [of t v "pre @ ?n" rest ucs2 "es @ [Name t (text_name ucs2 nm)]"] wf s
  show ?thesis by (simp add: fx_at_fields)
qed

fun is_marker :: "fx_element \<Rightarrow> bool" where
  "is_marker (Marker m) = True"
| "is_marker _ = False"

lemma at_element:
  assumes "wf_element el" and "small (pre @ enc_element el @ rest)" and "is_marker el \<Longrightarrow> rest \<noteq> []"
  shows "\<exists>t. fxparser_loop ucs2 (fx_at es pre (enc_element el @ rest) ParserState_Entry t0) =
    fxparser_loop ucs2 (fx_at (es @ delivered ucs2 el) (pre @ enc_element el) rest ParserState_Entry t)"
proof (cases el)
  case (Marker m)
  with assms at_tag [of pre m rest ucs2 es t0] at_marker [of rest m ucs2 es "pre @ le_bytes 4 m"] show ?thesis
    by auto
next
  case (DelProp t)
  with assms at_tag [of pre MetaTagFXDelProp "le_bytes 4 t @ rest" ucs2 es t0]
    at_delprop [of "pre @ le_bytes 4 MetaTagFXDelProp" t rest ucs2 es] show ?thesis
    by (intro exI [of _ MetaTagFXDelProp]) simp
next
  case (Prop t v)
  with assms at_tag [of pre t "enc_value v @ rest" ucs2 es t0] at_property [of t v "pre @ le_bytes 4 t" rest ucs2 es] show ?thesis
    by (intro exI [of _ t]) (simp del: wf_element.simps(3))
next
  case (NamedProp t nm v)
  with assms at_tag [of pre t "enc_guid (fst nm) @ enc_kind (snd nm) @ enc_value v @ rest" ucs2 es t0]
    at_named [of t nm v "pre @ le_bytes 4 t" rest ucs2 es] show ?thesis
    by (intro exI [of _ t]) (simp del: wf_element.simps(4))
qed (use assms in simp)

definition fx_stream :: "fx_element list \<Rightarrow> u8 list" where
  "fx_stream els = concat (map enc_element els)"

definition all_delivered :: "(u8 list \<Rightarrow> u8 list) \<Rightarrow> fx_element list \<Rightarrow> fx_element list" where
  "all_delivered ucs2 els = concat (map (delivered ucs2) els)"

lemma enc_element_nonempty: "wf_element el \<Longrightarrow> enc_element el \<noteq> []"
  by (cases el) (auto simp: eval_nat_numeral)

lemma at_stream:
  "list_all wf_element els \<Longrightarrow> small (pre @ fx_stream els @ rest) \<Longrightarrow> rest \<noteq> [] \<or> els = [] \<or> \<not> is_marker (last els) \<Longrightarrow>
    \<exists>t. fxparser_loop ucs2 (fx_at es pre (fx_stream els @ rest) ParserState_Entry t0) =
      fxparser_loop ucs2 (fx_at (es @ all_delivered ucs2 els) (pre @ fx_stream els) rest ParserState_Entry t)"
proof (induction els arbitrary: pre es t0)
  case Nil
  then show ?case by (auto simp: fx_stream_def all_delivered_def)
next
  case (Cons el els)
  have m: "is_marker el \<Longrightarrow> fx_stream els @ rest \<noteq> []" using Cons.prems(1,3) enc_element_nonempty by (cases els) (auto simp: fx_stream_def)
  from at_element [of el pre "fx_stream els @ rest" ucs2 es t0, OF _ _ m] Cons.prems obtain t1 where
    1: "fxparser_loop ucs2 (fx_at es pre (enc_element el @ fx_stream els @ rest) ParserState_Entry t0) =
      fxparser_loop ucs2 (fx_at (es @ delivered ucs2 el) (pre @ enc_element el) (fx_stream els @ rest) ParserState_Entry t1)"
    by (auto simp: fx_stream_def)
  from Cons.IH [of "pre @ enc_element el" "es @ delivered ucs2 el" t1] Cons.prems obtain t2 where
    "fxparser_loop ucs2 (fx_at (es @ delivered ucs2 el) (pre @ enc_element el) (fx_stream els @ rest) ParserState_Entry t1) =
      fxparser_loop ucs2 (fx_at (es @ delivered ucs2 el @ all_delivered ucs2 els) (pre @ enc_element el @ fx_stream els) rest ParserState_Entry t2)"
    by (auto simp: fx_stream_def split: if_splits)
  with 1 show ?case by (auto simp: fx_stream_def all_delivered_def)
qed

lemma le_bytes_numeral:
  "le_bytes 2 v = [ucast v, ucast (drop_bit 8 v)]"
  "le_bytes 4 v = [ucast v, ucast (drop_bit 8 v), ucast (drop_bit 8 (drop_bit 8 v)), ucast (drop_bit 8 (drop_bit 8 (drop_bit 8 v)))]"
  by (simp_all add: numeral_eq_Suc)

lemma loop_end: "fxparser_loop ucs2 (fx_at es pre [] st t) = Ok (MAPI_E_SUCCESS, fx_at es pre [] st t)"
  by (rule loop_stop) (simp add: fx_at_fields)

lemma recorder_parse:
  "fxparser_parse ucs2 (fx_recorder es) d =
     obind (fxparser_loop ucs2 (fx_at es [] d ParserState_Entry 0))
       (\<lambda>(ms, q). Ok (ms, q\<lparr>fx_data := drop (idx q) (fx_data q), idx := 0\<rparr>))"
proof -
  have "(fx_recorder es)\<lparr>fx_data := fx_data (fx_recorder es) @ d, enough_data := True\<rparr> = fx_at es [] d ParserState_Entry 0"
    by (simp add: fx_at_def recorder_defs)
  then show ?thesis by (simp add: fxparser_parse_def)
qed

lemma fx_at_consumed:
  "(fx_at es pre [] st t)\<lparr>fx_data := drop (idx (fx_at es pre [] st t)) (fx_data (fx_at es pre [] st t)), idx := 0\<rparr> =
     (fx_recorder es)\<lparr>fx_state := st, enough_data := True, tag := t\<rparr>"
  by (simp add: fx_at_def recorder_defs)

definition sample_name :: fx_guid where
  "sample_name = \<lparr>time_low = 0x20329, time_mid = 0, time_hi_and_version = 0, clock_seq = [0xC0, 0], node = [0, 0, 0, 0, 0, 0x46]\<rparr>"

lemma stream_parse:
  assumes "list_all wf_element els" and "els = [] \<or> \<not> is_marker (last els)" and "small (fx_stream els)"
  shows "\<exists>t. fxparser_parse ucs2 (fx_recorder []) (fx_stream els) =
    Ok (MAPI_E_SUCCESS, (fx_recorder (all_delivered ucs2 els))\<lparr>enough_data := True, tag := t\<rparr>)"
proof -
  from at_stream [OF assms(1), of "[]" "[]" ucs2 "[]" 0] assms(2,3) obtain t where
    "fxparser_loop ucs2 (fx_at [] [] (fx_stream els) ParserState_Entry 0) =
      fxparser_loop ucs2 (fx_at (all_delivered ucs2 els) (fx_stream els) [] ParserState_Entry t)" by auto
  then have "fxparser_parse ucs2 (fx_recorder []) (fx_stream els) =
      Ok (MAPI_E_SUCCESS, (fx_recorder (all_delivered ucs2 els))\<lparr>fx_state := ParserState_Entry, enough_data := True, tag := t\<rparr>)"
    by (simp add: recorder_parse loop_end fx_at_consumed)
  then show ?thesis by (simp add: recorder_defs)
qed

text \<open>A marker that ends the stream is read but not delivered: the parser is left between reading the
  tag and calling back, and the callback is only made when more data arrives. A stream that ends with
  \<^verbatim>\<open>EndMessage\<close> or \<^verbatim>\<open>EndFolder\<close> never reports it.\<close>

lemma last_marker_pending:
  assumes "list_all wf_element els" and "small (fx_stream (els @ [Marker m]))"
  shows "fxparser_parse ucs2 (fx_recorder []) (fx_stream (els @ [Marker m])) =
    Ok (MAPI_E_SUCCESS, (fx_recorder (all_delivered ucs2 els))\<lparr>fx_state := ParserState_HaveTag, enough_data := True, tag := m\<rparr>)"
proof -
  have ne: "le_bytes 4 m \<noteq> []" by (simp add: eval_nat_numeral)
  have st: "fx_stream (els @ [Marker m]) = fx_stream els @ le_bytes 4 m" by (simp add: fx_stream_def)
  from at_stream [OF assms(1), of "[]" "le_bytes 4 m" ucs2 "[]" 0] assms(2) ne st obtain t where
    "fxparser_loop ucs2 (fx_at [] [] (fx_stream els @ le_bytes 4 m) ParserState_Entry 0) =
      fxparser_loop ucs2 (fx_at (all_delivered ucs2 els) (fx_stream els) (le_bytes 4 m) ParserState_Entry t)" by auto
  with at_tag [of "fx_stream els" m "[]" ucs2 "all_delivered ucs2 els" t] assms(2) st show ?thesis
    by (simp add: recorder_parse loop_end fx_at_consumed)
qed

text \<open>C19 What the callbacks get for a fast transfer stream of well-formed markers, deleted properties, properties and named properties of
  every type the parser knows, of any length below 4 GB: each element, in order, with the value that was encoded, where
  strings in UTF-16 went through the conversion of Samba; a named property comes as its name and its value. Nothing stays in the
  buffer. Only a marker at the very end is held back: the parser has read its tag and waits for more data before it calls back.\<close>

theorem fxparser_delivers:
  assumes "list_all wf_element els" and "small (fx_stream els)"
  shows "if els \<noteq> [] \<and> is_marker (last els)
    then \<exists>m. last els = Marker m \<and> fxparser_parse ucs2 (fx_recorder []) (fx_stream els) =
      Ok (MAPI_E_SUCCESS, (fx_recorder (all_delivered ucs2 (butlast els)))\<lparr>fx_state := ParserState_HaveTag, enough_data := True, tag := m\<rparr>)
    else \<exists>t. fxparser_parse ucs2 (fx_recorder []) (fx_stream els) =
      Ok (MAPI_E_SUCCESS, (fx_recorder (all_delivered ucs2 els))\<lparr>enough_data := True, tag := t\<rparr>)"
proof (cases "els \<noteq> [] \<and> is_marker (last els)")
  case True
  then obtain m where m: "last els = Marker m" by (cases "last els") auto
  with True have els: "els = butlast els @ [Marker m]" by (metis append_butlast_last_id)
  then have "list_all wf_element (butlast els)" using assms(1) by (metis list_all_append)
  from last_marker_pending [OF this, of m ucs2] assms(2) els True m show ?thesis by metis
next
  case False
  then show ?thesis using stream_parse [OF assms(1) _ assms(2)] by auto
qed

theorem fxparser_delivers_witness:
  "\<exists>m. fxparser_parse id (fx_recorder [])
      (fx_stream [Prop 0x1001F (VUnicode [65, 0]), NamedProp 0x80001002 (sample_name, MNID_STRING [66, 0, 0, 0]) (VMVShort [5]), Marker 0x400D0003]) =
    Ok (MAPI_E_SUCCESS, (fx_recorder [Prop 0x1001F (VUnicode [65, 0]), Name 0x80001002 (sample_name, MNID_STRING [66, 0, 0, 0]),
      Prop 0x80001002 (VMVShort [5])])\<lparr>fx_state := ParserState_HaveTag, enough_data := True, tag := m\<rparr>)"
proof -
  let ?els = "[Prop 0x1001F (VUnicode [65, 0]), NamedProp 0x80001002 (sample_name, MNID_STRING [66, 0, 0, 0]) (VMVShort [5]), Marker 0x400D0003]"
  have "list_all wf_element ?els" by (simp add: sample_name_def fx_markers_def MetaTagFXDelProp_def)
  moreover have "small (fx_stream ?els)" by (simp add: small_def fx_stream_def counted_def enc_multi_def enc_guid_def sample_name_def)
  ultimately show ?thesis using fxparser_delivers [of ?els id] by (auto simp: all_delivered_def)
qed

text \<open>C12 Parsing does not depend on how the stream was cut: a stream that parses without error in one call
  gives the same final parser (callback data, remaining bytes and state) when it is fed in any
  non-empty sequence of pieces, empty ones included.\<close>

theorem fxparser_chunks:
  assumes "idx p \<le> length (fx_data p)" and "small (fx_data p @ concat cs)" and "cs \<noteq> []"
    and "fxparser_parse ucs2 p (concat cs) = Ok (MAPI_E_SUCCESS, p')"
  shows "fxparser_feed ucs2 p cs = Ok (MAPI_E_SUCCESS, p')"
  using assms by (rule fxparser_feed_parse)

theorem fxparser_chunks_witness:
  "\<exists>p'. fxparser_feed id (fx_recorder []) [[2, 0, 1], [], [0, 5, 0]] = Ok (MAPI_E_SUCCESS, p') \<and>
    priv p' = [Prop 0x10002 (VShort 5)]"
proof -
  have s: "fx_stream [Prop 0x10002 (VShort 5)] = concat [[2, 0, 1], [], [0, 5, 0]]"
    by (simp add: fx_stream_def le_bytes_numeral)
  obtain t where "fxparser_parse id (fx_recorder []) (concat [[2, 0, 1], [], [0, 5, 0]]) =
      Ok (MAPI_E_SUCCESS, (fx_recorder [Prop 0x10002 (VShort 5)])\<lparr>enough_data := True, tag := t\<rparr>)"
    using stream_parse [of "[Prop 0x10002 (VShort 5)]" id]
    by (auto simp: s fx_markers_def MetaTagFXDelProp_def small_def all_delivered_def)
  from fxparser_chunks [OF _ _ _ this]
  have "fxparser_feed id (fx_recorder []) [[2, 0, 1], [], [0, 5, 0]] =
      Ok (MAPI_E_SUCCESS, (fx_recorder [Prop 0x10002 (VShort 5)])\<lparr>enough_data := True, tag := t\<rparr>)"
    by (simp add: recorder_defs small_def del: fxparser_feed.simps)
  then show ?thesis
    by (intro exI conjI) (assumption, simp add: recorder_defs)
qed

text \<open>A counted value whose length makes the 32-bit sum of index and length wrap passes the check for
  enough data, and the copy runs outside the buffer; a length that does not wrap is either read
  completely or reported as not yet there, without a fault.\<close>

theorem pull_binary_wrap:
  assumes "i \<le> length d" and "small d" and "pull_uint32_t d i = Ok (Some (len, j))"
  shows "pull_binary d i =
    (if j + unat len \<le> length d then Ok (Some (take (unat len) (drop j d), j + unat len))
     else if j + unat len < 2 ^ 32 then Ok None else Fault)"
proof -
  from pull_uint32_Some [OF assms(3)] have j: "j \<le> length d" by simp
  show ?thesis
  proof (cases "j + unat len \<le> length d")
    case True
    let ?bs = "take (unat len) (drop j d)"
    have "d = take j d @ ?bs @ drop (j + unat len) d"
      by (metis append_take_drop_id drop_drop add.commute)
    moreover have "length ?bs = unat len" "length (take j d) = j" using True j by simp_all
    ultimately have "pull_repeat (unat len) pull_uint8_t d j = Ok (Some (?bs, j + unat len))"
      using reads_bytes [of ?bs, unfolded reads_def, rule_format, of "take j d" "drop (j + unat len) d"] assms(2) by simp
    with True assms(3) pull_room_eq [OF j assms(2), of len] show ?thesis
      by (simp add: pull_binary_def pull_bind_def pull_uint8_data_def)
  next
    case False
    with assms(3) pull_room_eq [OF j assms(2), of len] show ?thesis
      by (simp add: pull_binary_def pull_bind_def)
  qed
qed

theorem pull_binary_wrap_witness: "pull_binary [0xFC, 0xFF, 0xFF, 0xFF, 1] 0 = Fault"
proof -
  have b: "le_bytes 4 (0xFFFFFFFC :: u32) = [0xFC, 0xFF, 0xFF, 0xFF]" by (simp add: le_bytes_numeral)
  have "pull_uint32_t [0xFC, 0xFF, 0xFF, 0xFF, 1] 0 = Ok (Some (0xFFFFFFFC, 4))"
    using pull_uint32_at [of "[]" "0xFFFFFFFC" "[1]"] by (simp add: b small_def)
  from pull_binary_wrap [OF _ _ this] show ?thesis by (simp add: small_def)
qed

end
