(* ===== verification/Mapi_Handles.thy ===== *)
theory Mapi_Handles
  imports OC_Prelude
begin

text \<open>
  The handles of an EMSMDB session, \<^verbatim>\<open>src/mapiproxy/libmapiproxy/mapi_handles.c\<close>: a list of handle
  records and a TDB database that maps the key of every handle ever handed out to its container, to
  \<^verbatim>\<open>root\<close>, or to \<^verbatim>\<open>null\<close> when the handle is free to be reused. TDB is not part of the repository: its
  calls are the fields of \<open>tdb_lib\<close>, and \<open>tdb_laws\<close> says what is relied on. The DLIST of records is a
  list (\<^verbatim>\<open>dlinklist.h\<close> is the subject of the theory of that name). Calls with a null context return
  an error before they do anything; memory allocation succeeds.
\<close>

section \<open>TDB\<close>

datatype tdb_flag = TDB_REPLACE | TDB_INSERT | TDB_MODIFY

record 'db tdb_lib =
  tdb_open :: 'db
  tdb_fetch :: "'db \<Rightarrow> string \<Rightarrow> string option"
  tdb_exists :: "'db \<Rightarrow> string \<Rightarrow> bool"
  tdb_store :: "'db \<Rightarrow> string \<Rightarrow> string \<Rightarrow> tdb_flag \<Rightarrow> 'db option"
  tdb_delete :: "'db \<Rightarrow> string \<Rightarrow> 'db option"
  tdb_keys :: "'db \<Rightarrow> string list"

text \<open>\<open>tdb_store\<close> and \<open>tdb_delete\<close> are \<open>None\<close> where TDB returns -1. A traversal visits the keys that are there when it
  starts, in an order of TDB's own, and reads every record when it comes to it.\<close>

definition tdb_laws :: "'db tdb_lib \<Rightarrow> bool" where
  "tdb_laws T \<longleftrightarrow>
     (\<forall>k. tdb_fetch T (tdb_open T) k = None) \<and>
     (\<forall>db k. tdb_exists T db k \<longleftrightarrow> tdb_fetch T db k \<noteq> None) \<and>
     (\<forall>db k v. tdb_fetch T db k = None \<longrightarrow>
        (\<exists>db'. tdb_store T db k v TDB_INSERT = Some db' \<and> tdb_fetch T db' = (tdb_fetch T db)(k \<mapsto> v))) \<and>
     (\<forall>db k v. tdb_fetch T db k \<noteq> None \<longrightarrow>
        (\<exists>db'. tdb_store T db k v TDB_MODIFY = Some db' \<and> tdb_fetch T db' = (tdb_fetch T db)(k \<mapsto> v))) \<and>
     (\<forall>db k v. tdb_fetch T db k \<noteq> None \<longrightarrow> tdb_store T db k v TDB_INSERT = None) \<and>
     (\<forall>db k v. tdb_fetch T db k = None \<longrightarrow> tdb_store T db k v TDB_MODIFY = None) \<and>
     (\<forall>db k v. \<exists>db'. tdb_store T db k v TDB_REPLACE = Some db' \<and> tdb_fetch T db' = (tdb_fetch T db)(k \<mapsto> v)) \<and>
     (\<forall>db k. tdb_fetch T db k \<noteq> None \<longrightarrow>
        (\<exists>db'. tdb_delete T db k = Some db' \<and> tdb_fetch T db' = (tdb_fetch T db)(k := None))) \<and>
     (\<forall>db. set (tdb_keys T db) = dom (tdb_fetch T db))"

section \<open>Keys\<close>

text \<open>The conversion \<^verbatim>\<open>"0x%x"\<close> of \<^verbatim>\<open>talloc_asprintf\<close> and \<^verbatim>\<open>strtol(s, NULL, 16)\<close> on such strings.\<close>

definition hex_alphabet :: string where
  "hex_alphabet = ''0123456789abcdef''"

fun hex_digits :: "nat \<Rightarrow> string" where
  "hex_digits n = (if n < 16 then [hex_alphabet ! n] else hex_digits (n div 16) @ [hex_alphabet ! (n mod 16)])"

declare hex_digits.simps [simp del]

definition fmt_handle :: "u32 \<Rightarrow> string" where
  "fmt_handle h = ''0x'' @ hex_digits (unat h)"

definition hex_value :: "char \<Rightarrow> nat option" where
  "hex_value c = map_of (zip (hex_alphabet @ ''ABCDEF'') ([0..<16] @ [10..<16])) c"

definition strtol16 :: "string \<Rightarrow> nat" where
  "strtol16 s =
     (let digits = (if take 2 s = ''0x'' then drop 2 s else s)
      in foldl (\<lambda>n c. 16 * n + the (hex_value c)) 0 (takeWhile (\<lambda>c. hex_value c \<noteq> None) digits))"

section \<open>Data and operations\<close>

record 'p mapi_handles =
  handle :: u32
  parent_handle :: u32
  private_data :: "'p option"

record ('db, 'p) mapi_handles_context =
  tdb_ctx :: 'db
  last_handle :: u32
  handles :: "'p mapi_handles list"

definition MAPI_HANDLES_RESERVED :: u32 where "MAPI_HANDLES_RESERVED = 0xFFFFFFFF"
definition MAPI_HANDLES_ROOT :: string where "MAPI_HANDLES_ROOT = ''root''"
definition MAPI_HANDLES_NULL :: string where "MAPI_HANDLES_NULL = ''null''"

definition mapi_handles_init :: "'db tdb_lib \<Rightarrow> ('db, 'p) mapi_handles_context" where
  "mapi_handles_init T = \<lparr>tdb_ctx = tdb_open T, last_handle = 1, handles = []\<rparr>"

definition find_handle :: "'p mapi_handles list \<Rightarrow> u32 \<Rightarrow> 'p mapi_handles option" where
  "find_handle els h = find (\<lambda>el. handle el = h) els"

definition mapi_handles_search ::
  "'db tdb_lib \<Rightarrow> ('db, 'p) mapi_handles_context \<Rightarrow> u32 \<Rightarrow> MAPISTATUS \<times> 'p mapi_handles option" where
  "mapi_handles_search T ctx h =
     (if h = MAPI_HANDLES_RESERVED then (MAPI_E_INVALID_PARAMETER, None)
      else case tdb_fetch T (tdb_ctx ctx) (fmt_handle h) of
        None \<Rightarrow> (MAPI_E_NOT_FOUND, None)
      | Some dbuf \<Rightarrow>
          (if dbuf = [] then (MAPI_E_NOT_FOUND, None)
           else if dbuf = MAPI_HANDLES_NULL then (MAPI_E_NOT_FOUND, None)
           else case find_handle (handles ctx) h of
             Some el \<Rightarrow> (MAPI_E_SUCCESS, Some el)
           | None \<Rightarrow> (MAPI_E_CORRUPT_STORE, None)))"

definition mapi_handles_tdb_free ::
  "'db tdb_lib \<Rightarrow> ('db, 'p) mapi_handles_context \<Rightarrow> u32 \<Rightarrow> MAPISTATUS \<times> ('db, 'p) mapi_handles_context" where
  "mapi_handles_tdb_free T ctx h =
     (if h = MAPI_HANDLES_RESERVED then (MAPI_E_INVALID_PARAMETER, ctx)
      else if \<not> tdb_exists T (tdb_ctx ctx) (fmt_handle h) then (MAPI_E_NOT_FOUND, ctx)
      else case tdb_store T (tdb_ctx ctx) (fmt_handle h) MAPI_HANDLES_NULL TDB_MODIFY of
        None \<Rightarrow> (MAPI_E_CORRUPT_STORE, ctx)
      | Some db \<Rightarrow> (MAPI_E_SUCCESS, ctx\<lparr>tdb_ctx := db\<rparr>))"

definition mapi_handles_tdb_update ::
  "'db tdb_lib \<Rightarrow> ('db, 'p) mapi_handles_context \<Rightarrow> u32 \<Rightarrow> u32 \<Rightarrow> MAPISTATUS \<times> ('db, 'p) mapi_handles_context" where
  "mapi_handles_tdb_update T ctx h container =
     (if h = 0 then (MAPI_E_INVALID_PARAMETER, ctx)
      else if \<not> tdb_exists T (tdb_ctx ctx) (fmt_handle h) then (MAPI_E_NOT_FOUND, ctx)
      else case tdb_store T (tdb_ctx ctx) (fmt_handle h) (fmt_handle container) TDB_MODIFY of
        None \<Rightarrow> (MAPI_E_CORRUPT_STORE, ctx)
      | Some db \<Rightarrow> (MAPI_E_SUCCESS, ctx\<lparr>tdb_ctx := db\<rparr>))"

text \<open>The traversal of \<open>mapi_handles_add\<close> stops at the first free record and leaves its handle behind;
  the variable is 0 when there is none.\<close>

definition mapi_handles_traverse_null :: "string \<Rightarrow> string \<Rightarrow> u32 option" where
  "mapi_handles_traverse_null key dbuf =
     (if dbuf = MAPI_HANDLES_NULL then Some (of_nat (strtol16 key)) else None)"

fun traverse_null :: "'db tdb_lib \<Rightarrow> 'db \<Rightarrow> string list \<Rightarrow> u32" where
  "traverse_null T db [] = 0"
| "traverse_null T db (k # ks) =
     (case tdb_fetch T db k of
        None \<Rightarrow> traverse_null T db ks
      | Some dbuf \<Rightarrow>
          (case mapi_handles_traverse_null k dbuf of
             Some h \<Rightarrow> h
           | None \<Rightarrow> traverse_null T db ks))"

definition mapi_handles_add ::
  "'db tdb_lib \<Rightarrow> ('db, 'p) mapi_handles_context \<Rightarrow> u32 \<Rightarrow>
     MAPISTATUS \<times> ('db, 'p) mapi_handles_context \<times> 'p mapi_handles option" where
  "mapi_handles_add T ctx container =
     (let h = traverse_null T (tdb_ctx ctx) (tdb_keys T (tdb_ctx ctx)) in
      if h > 0 then
        (case mapi_handles_tdb_update T ctx h container of (retval, ctx1) \<Rightarrow>
           if retval \<noteq> MAPI_E_SUCCESS then (retval, ctx1, None)
           else let el = \<lparr>handle = h, parent_handle = container, private_data = None\<rparr>
                in (MAPI_E_SUCCESS, ctx1\<lparr>handles := handles ctx1 @ [el]\<rparr>, Some el))
      else
        (let dbuf = (if container \<noteq> 0 then fmt_handle container else MAPI_HANDLES_ROOT) in
         case tdb_store T (tdb_ctx ctx) (fmt_handle (last_handle ctx)) dbuf TDB_INSERT of
           None \<Rightarrow> (MAPI_E_CORRUPT_STORE, ctx, None)
         | Some db \<Rightarrow>
             let el = \<lparr>handle = last_handle ctx, parent_handle = container, private_data = None\<rparr>
             in (MAPI_E_SUCCESS, ctx\<lparr>tdb_ctx := db, handles := handles ctx @ [el], last_handle := last_handle ctx + 1\<rparr>,
                 Some el)))"

definition mapi_handles_get_private_data :: "'p mapi_handles \<Rightarrow> MAPISTATUS \<times> 'p option" where
  "mapi_handles_get_private_data el =
     (case private_data el of None \<Rightarrow> (MAPI_E_NOT_FOUND, None) | Some d \<Rightarrow> (MAPI_E_SUCCESS, Some d))"

definition mapi_handles_set_private_data :: "'p mapi_handles \<Rightarrow> 'p option \<Rightarrow> MAPISTATUS \<times> 'p mapi_handles" where
  "mapi_handles_set_private_data el d =
     (if private_data el \<noteq> None then (MAPI_E_UNABLE_TO_COMPLETE, el) else (MAPI_E_SUCCESS, el\<lparr>private_data := d\<rparr>))"

fun drop_handle :: "'p mapi_handles list \<Rightarrow> u32 \<Rightarrow> 'p mapi_handles list" where
  "drop_handle [] h = []"
| "drop_handle (el # els) h = (if handle el = h then els else el # drop_handle els h)"

text \<open>The deletion of a handle deletes its children from a callback of the traversal. \<open>del\<close> is the
  recursive call; its result is ignored.\<close>

definition mapi_handles_traverse_delete ::
  "(('db, 'p) mapi_handles_context \<Rightarrow> u32 \<Rightarrow> (MAPISTATUS \<times> ('db, 'p) mapi_handles_context) option) \<Rightarrow> u32 \<Rightarrow>
     string \<Rightarrow> string \<Rightarrow> ('db, 'p) mapi_handles_context \<Rightarrow> ('db, 'p) mapi_handles_context option" where
  "mapi_handles_traverse_delete del container key dbuf ctx =
     (if dbuf = fmt_handle container then map_option snd (del ctx (of_nat (strtol16 key))) else Some ctx)"

fun traverse_delete ::
  "'db tdb_lib \<Rightarrow> (('db, 'p) mapi_handles_context \<Rightarrow> u32 \<Rightarrow> (MAPISTATUS \<times> ('db, 'p) mapi_handles_context) option) \<Rightarrow>
     u32 \<Rightarrow> string list \<Rightarrow> ('db, 'p) mapi_handles_context \<Rightarrow> ('db, 'p) mapi_handles_context option" where
  "traverse_delete T del container [] ctx = Some ctx"
| "traverse_delete T del container (k # ks) ctx =
     (case tdb_fetch T (tdb_ctx ctx) k of
        None \<Rightarrow> traverse_delete T del container ks ctx
      | Some dbuf \<Rightarrow>
          (case mapi_handles_traverse_delete del container k dbuf ctx of
             None \<Rightarrow> None
           | Some ctx1 \<Rightarrow> traverse_delete T del container ks ctx1))"

text \<open>The recursion depth is bounded by fuel; \<open>None\<close> when it is used up.\<close>

primrec delete_fuel ::
  "nat \<Rightarrow> 'db tdb_lib \<Rightarrow> ('db, 'p) mapi_handles_context \<Rightarrow> u32 \<Rightarrow> (MAPISTATUS \<times> ('db, 'p) mapi_handles_context) option" where
  "delete_fuel 0 T ctx h = None"
| "delete_fuel (Suc n) T ctx h =
     (if h = MAPI_HANDLES_RESERVED then Some (MAPI_E_INVALID_PARAMETER, ctx)
      else if \<not> tdb_exists T (tdb_ctx ctx) (fmt_handle h) then Some (MAPI_E_NOT_FOUND, ctx)
      else if find_handle (handles ctx) h = None then Some (MAPI_E_CORRUPT_STORE, ctx)
      else (case mapi_handles_tdb_free T (ctx\<lparr>handles := drop_handle (handles ctx) h\<rparr>) h of (retval, ctx1) \<Rightarrow>
        if retval \<noteq> MAPI_E_SUCCESS then Some (retval, ctx1)
        else map_option (\<lambda>ctx2. (MAPI_E_SUCCESS, ctx2))
               (traverse_delete T (delete_fuel n T) h (tdb_keys T (tdb_ctx ctx1)) ctx1)))"

definition mapi_handles_delete ::
  "'db tdb_lib \<Rightarrow> ('db, 'p) mapi_handles_context \<Rightarrow> u32 \<Rightarrow> (MAPISTATUS \<times> ('db, 'p) mapi_handles_context) outcome" where
  "mapi_handles_delete T ctx h =
     (case delete_fuel (Suc (length (handles ctx))) T ctx h of Some r \<Rightarrow> Ok r | None \<Rightarrow> Hang)"

section \<open>Keys read back\<close>

lemma hex_value_alphabet: "n < 16 \<Longrightarrow> hex_value (hex_alphabet ! n) = Some n"
proof -
  have "list_all (\<lambda>n. hex_value (hex_alphabet ! n) = Some n) [0..<16]" by code_simp
  then show "n < 16 \<Longrightarrow> hex_value (hex_alphabet ! n) = Some n" by (simp add: list_all_iff)
qed

definition hex_fold :: "string \<Rightarrow> nat" where
  "hex_fold = foldl (\<lambda>n c. 16 * n + the (hex_value c)) 0"

lemma hex_digits_read: "hex_fold (hex_digits n) = n \<and> list_all (\<lambda>c. hex_value c \<noteq> None) (hex_digits n)"
proof (induction n rule: hex_digits.induct)
  case (1 n)
  then show ?case
    by (subst hex_digits.simps, subst (2) hex_digits.simps) (auto simp: hex_fold_def hex_value_alphabet)
qed

lemma strtol16_fmt [simp]: "strtol16 (fmt_handle h) = unat h"
proof -
  have tw: "takeWhile (\<lambda>c. hex_value c \<noteq> None) (hex_digits (unat h)) = hex_digits (unat h)"
    using hex_digits_read [of "unat h"] by (simp add: takeWhile_eq_all_conv list_all_iff del: not_None_eq)
  show ?thesis using hex_digits_read [of "unat h"]
    by (simp add: strtol16_def fmt_handle_def hex_fold_def tw del: not_None_eq)
qed

lemma fmt_handle_inj [simp]: "fmt_handle a = fmt_handle b \<longleftrightarrow> a = b"
  by (metis strtol16_fmt unsigned_word_eqI)

lemma fmt_handle_special [simp]:
  "fmt_handle h \<noteq> MAPI_HANDLES_NULL" "fmt_handle h \<noteq> MAPI_HANDLES_ROOT" "fmt_handle h \<noteq> []"
  "MAPI_HANDLES_ROOT \<noteq> MAPI_HANDLES_NULL" "MAPI_HANDLES_ROOT \<noteq> []"
  by (simp_all add: fmt_handle_def MAPI_HANDLES_NULL_def MAPI_HANDLES_ROOT_def)

end
