(* ===== verification/Mapi_Handles_Table.thy ===== *)
theory Mapi_Handles_Table
  imports Mapi_Handles
begin

unbundle bit_operations_syntax

text \<open>
  The handle table of \<^verbatim>\<open>src/mapiproxy/libmapiproxy/mapi_handles.c\<close>: the invariant that ties the list of records to
  the database, and what searching, adding and deleting do to the table of live handles.
\<close>

section \<open>The table\<close>

text \<open>The live handles with their containers, and the invariant that ties the list to the database.\<close>

definition htab :: "('db, 'p) mapi_handles_context \<Rightarrow> u32 \<rightharpoonup> u32" where
  "htab ctx = map_of (map (\<lambda>el. (handle el, parent_handle el)) (handles ctx))"

definition record_of :: "u32 \<Rightarrow> string \<Rightarrow> bool" where
  "record_of p v \<longleftrightarrow> v = fmt_handle p \<or> p = 0 \<and> v = MAPI_HANDLES_ROOT"

definition handles_inv :: "'db tdb_lib \<Rightarrow> ('db, 'p) mapi_handles_context \<Rightarrow> bool" where
  "handles_inv T ctx \<longleftrightarrow>
     distinct (map handle (handles ctx)) \<and>
     (\<forall>k v. tdb_fetch T (tdb_ctx ctx) k = Some v \<longrightarrow>
        (\<exists>h. k = fmt_handle h \<and> 0 < h \<and> h < last_handle ctx \<and>
           (case htab ctx h of None \<Rightarrow> v = MAPI_HANDLES_NULL | Some p \<Rightarrow> record_of p v))) \<and>
     (\<forall>h\<in>dom (htab ctx). tdb_fetch T (tdb_ctx ctx) (fmt_handle h) \<noteq> None) \<and>
     0 < last_handle ctx"

text \<open>The handles below a handle.\<close>

inductive hdesc :: "(u32 \<rightharpoonup> u32) \<Rightarrow> u32 \<Rightarrow> u32 \<Rightarrow> bool" for m h where
  here: "hdesc m h h"
| child: "m x = Some p \<Longrightarrow> hdesc m h p \<Longrightarrow> hdesc m h x"

lemma hdesc_mono: "hdesc m h x \<Longrightarrow> m \<subseteq>\<^sub>m m' \<Longrightarrow> hdesc m' h x"
  by (induction rule: hdesc.induct) (auto intro: hdesc.intros simp: map_le_def dom_def)

lemma hdesc_trans: "hdesc m k x \<Longrightarrow> hdesc m h k \<Longrightarrow> hdesc m h x"
  by (induction rule: hdesc.induct) (auto intro: hdesc.intros)

lemma dom_htab: "dom (htab ctx) = handle ` set (handles ctx)"
  by (simp add: htab_def dom_map_of_conv_image_fst image_image)

lemma find_handle_None: "find_handle els h = None \<longleftrightarrow> h \<notin> handle ` set els"
  by (auto simp: find_handle_def find_None_iff)

lemma find_handle_Some: "find_handle els h = Some el \<Longrightarrow> el \<in> set els \<and> handle el = h"
  by (auto simp: find_handle_def find_Some_iff)

lemma htab_find: "htab ctx h = map_option parent_handle (find_handle (handles ctx) h)"
proof -
  have "map_of (map (\<lambda>el. (handle el, parent_handle el)) els) h = map_option parent_handle (find_handle els h)" for els :: "'b mapi_handles list"
    by (induction els) (auto simp: find_handle_def)
  then show ?thesis by (simp add: htab_def)
qed

lemma drop_handle_map:
  "distinct (map handle els) \<Longrightarrow>
     map_of (map (\<lambda>el. (handle el, parent_handle el)) (drop_handle els h)) =
     (map_of (map (\<lambda>el. (handle el, parent_handle el)) els))(h := None)"
proof (induction els)
  case (Cons el els)
  then show ?case
    by (auto simp: fun_upd_twist map_of_eq_None_iff image_image intro!: ext)
qed (simp add: fun_eq_iff)

lemma drop_handle_set: "set (drop_handle els h) \<subseteq> set els"
  by (induction els) auto

lemma drop_handle_distinct: "distinct (map handle els) \<Longrightarrow> distinct (map handle (drop_handle els h))"
  using drop_handle_set by (induction els) fastforce+

lemma drop_handle_length: "h \<in> handle ` set els \<Longrightarrow> length els = Suc (length (drop_handle els h))"
  by (induction els) auto

section \<open>Laws of TDB in use\<close>

lemma tdb_fetch_open: "tdb_laws T \<Longrightarrow> tdb_fetch T (tdb_open T) k = None"
  by (simp add: tdb_laws_def)

lemma tdb_exists_iff: "tdb_laws T \<Longrightarrow> tdb_exists T db k \<longleftrightarrow> tdb_fetch T db k \<noteq> None"
  by (simp add: tdb_laws_def)

lemma tdb_insert:
  assumes "tdb_laws T" and "tdb_fetch T db k = None"
  obtains db' where "tdb_store T db k v TDB_INSERT = Some db'" "tdb_fetch T db' = (tdb_fetch T db)(k \<mapsto> v)"
  using assms unfolding tdb_laws_def by metis

lemma tdb_modify:
  assumes "tdb_laws T" and "tdb_fetch T db k \<noteq> None"
  obtains db' where "tdb_store T db k v TDB_MODIFY = Some db'" "tdb_fetch T db' = (tdb_fetch T db)(k \<mapsto> v)"
  using assms unfolding tdb_laws_def by metis

lemma tdb_replace:
  assumes "tdb_laws T"
  obtains db' where "tdb_store T db k v TDB_REPLACE = Some db'" "tdb_fetch T db' = (tdb_fetch T db)(k \<mapsto> v)"
  using assms unfolding tdb_laws_def by metis

lemma tdb_remove:
  assumes "tdb_laws T" and "tdb_fetch T db k \<noteq> None"
  obtains db' where "tdb_delete T db k = Some db'" "tdb_fetch T db' = (tdb_fetch T db)(k := None)"
  using assms unfolding tdb_laws_def by metis

lemma tdb_keys_dom: "tdb_laws T \<Longrightarrow> set (tdb_keys T db) = dom (tdb_fetch T db)"
  by (simp add: tdb_laws_def)

section \<open>Search\<close>

lemma inv_fetch:
  assumes "handles_inv T ctx"
  shows "tdb_fetch T (tdb_ctx ctx) (fmt_handle h) = Some v \<Longrightarrow>
      0 < h \<and> h < last_handle ctx \<and> (case htab ctx h of None \<Rightarrow> v = MAPI_HANDLES_NULL | Some p \<Rightarrow> record_of p v)"
    and "htab ctx h = Some p \<Longrightarrow> \<exists>v. tdb_fetch T (tdb_ctx ctx) (fmt_handle h) = Some v \<and> record_of p v"
    and "htab ctx h = Some p \<Longrightarrow> 0 < h"
proof -
  show 1: "0 < h \<and> h < last_handle ctx \<and> (case htab ctx h of None \<Rightarrow> v = MAPI_HANDLES_NULL | Some p \<Rightarrow> record_of p v)"
    if "tdb_fetch T (tdb_ctx ctx) (fmt_handle h) = Some v" for v
    using assms that unfolding handles_inv_def by fastforce
  show 2: "\<exists>v. tdb_fetch T (tdb_ctx ctx) (fmt_handle h) = Some v \<and> record_of p v" if "htab ctx h = Some p"
  proof -
    from assms that obtain v where "tdb_fetch T (tdb_ctx ctx) (fmt_handle h) = Some v"
      unfolding handles_inv_def by blast
    with 1 [OF this] that show ?thesis by simp
  qed
  show "0 < h" if "htab ctx h = Some p" using 1 2 [OF that] by blast
qed

lemma record_not_null: "record_of p v \<Longrightarrow> v \<noteq> MAPI_HANDLES_NULL \<and> v \<noteq> []"
  by (auto simp: record_of_def)

lemma record_of_container: "record_of p v \<Longrightarrow> 0 < c \<Longrightarrow> v = fmt_handle c \<longleftrightarrow> p = c"
  by (auto simp: record_of_def) (metis fmt_handle_special(2))

lemma search_eq:
  assumes "handles_inv T ctx" and "h \<noteq> MAPI_HANDLES_RESERVED"
  shows "mapi_handles_search T ctx h =
    (case find_handle (handles ctx) h of Some el \<Rightarrow> (MAPI_E_SUCCESS, Some el) | None \<Rightarrow> (MAPI_E_NOT_FOUND, None))"
proof (cases "find_handle (handles ctx) h")
  case None
  then have "htab ctx h = None" by (simp add: htab_find)
  with None assms show ?thesis
    by (auto simp: mapi_handles_search_def split: option.splits dest: inv_fetch(1) [OF assms(1)])
next
  case (Some el)
  then have "htab ctx h = Some (parent_handle el)" by (simp add: htab_find)
  from inv_fetch(2) [OF assms(1) this] obtain v where "tdb_fetch T (tdb_ctx ctx) (fmt_handle h) = Some v" "record_of (parent_handle el) v"
    by blast
  with Some assms(2) record_not_null show ?thesis by (auto simp: mapi_handles_search_def)
qed

section \<open>Add\<close>

lemma inv_init: "tdb_laws T \<Longrightarrow> handles_inv T (mapi_handles_init T)"
  by (simp add: handles_inv_def mapi_handles_init_def tdb_fetch_open htab_def)

lemma traverse_null_free:
  assumes inv: "handles_inv T ctx" and ks: "set ks \<subseteq> dom (tdb_fetch T (tdb_ctx ctx))"
  shows "(traverse_null T (tdb_ctx ctx) ks = 0 \<and> (\<forall>k\<in>set ks. tdb_fetch T (tdb_ctx ctx) k \<noteq> Some MAPI_HANDLES_NULL)) \<or>
    (\<exists>h. traverse_null T (tdb_ctx ctx) ks = h \<and> 0 < h \<and> fmt_handle h \<in> set ks \<and>
      tdb_fetch T (tdb_ctx ctx) (fmt_handle h) = Some MAPI_HANDLES_NULL)"
  using ks
proof (induction ks)
  case (Cons k ks)
  from Cons.prems obtain v where v: "tdb_fetch T (tdb_ctx ctx) k = Some v" by auto
  with inv obtain h where h: "k = fmt_handle h" "0 < h" unfolding handles_inv_def by blast
  show ?case
  proof (cases "v = MAPI_HANDLES_NULL")
    case True
    with v h show ?thesis by (simp add: mapi_handles_traverse_null_def)
  next
    case False
    with v Cons show ?thesis by (auto simp: mapi_handles_traverse_null_def)
  qed
qed simp

lemma inv_add:
  assumes inv: "handles_inv T ctx" and h: "htab ctx h = None" "0 < h" "h < l" and l: "last_handle ctx \<le> l"
    and f: "tdb_fetch T db = (tdb_fetch T (tdb_ctx ctx))(fmt_handle h \<mapsto> v)" and v: "record_of p v"
  shows "handles_inv T \<lparr>tdb_ctx = db, last_handle = l, handles = handles ctx @ [\<lparr>handle = h, parent_handle = p, private_data = d\<rparr>]\<rparr>"
    (is "handles_inv T ?ctx")
    and "htab \<lparr>tdb_ctx = db, last_handle = l, handles = handles ctx @ [\<lparr>handle = h, parent_handle = p, private_data = d\<rparr>]\<rparr> = (htab ctx)(h \<mapsto> p)"
proof -
  have fresh: "h \<notin> handle ` set (handles ctx)" using h(1) dom_htab [of ctx] by auto
  then show t: "htab ?ctx = (htab ctx)(h \<mapsto> p)"
    using h(1) by (auto simp: htab_def map_add_def fun_eq_iff split: option.splits)
  have "\<exists>h. k = fmt_handle h \<and> 0 < h \<and> h < l \<and> (case htab ?ctx h of None \<Rightarrow> w = MAPI_HANDLES_NULL | Some p \<Rightarrow> record_of p w)"
    if k: "tdb_fetch T db k = Some w" for k w
  proof (cases "k = fmt_handle h")
    case True
    with k f h v t show ?thesis by (intro exI [of _ h]) simp
  next
    case False
    with k f have "tdb_fetch T (tdb_ctx ctx) k = Some w" by simp
    with inv obtain h' where "k = fmt_handle h'" "0 < h'" "h' < last_handle ctx"
      "case htab ctx h' of None \<Rightarrow> w = MAPI_HANDLES_NULL | Some p \<Rightarrow> record_of p w"
      unfolding handles_inv_def by blast
    with False l t show ?thesis by (intro exI [of _ h']) auto
  qed
  moreover have "distinct (map handle (handles ?ctx))" using inv fresh by (auto simp: handles_inv_def)
  moreover have "\<forall>h\<in>dom (htab ?ctx). tdb_fetch T db (fmt_handle h) \<noteq> None"
    using inv unfolding t f handles_inv_def by auto
  moreover have "0 < l" using inv l by (auto simp: handles_inv_def)
  ultimately show "handles_inv T ?ctx" unfolding handles_inv_def by simp
qed

lemma less_not_reserved: "h < l \<Longrightarrow> h \<noteq> MAPI_HANDLES_RESERVED"
  using unsigned_less [of l, where 'a = nat] by (auto simp: MAPI_HANDLES_RESERVED_def word_less_nat_alt)

lemma handle_succ: "l \<noteq> MAPI_HANDLES_RESERVED \<Longrightarrow> l < l + 1"
proof -
  assume "l \<noteq> MAPI_HANDLES_RESERVED"
  then have "unat l \<noteq> unat MAPI_HANDLES_RESERVED" using unsigned_word_eqI by blast
  then have "unat l \<noteq> 4294967295" by (simp add: MAPI_HANDLES_RESERVED_def)
  then show "l < l + 1" using unsigned_less [of l, where 'a = nat] by (simp add: word_less_nat_alt unat_word_ariths)
qed

lemma add_eq:
  assumes T: "tdb_laws T" and inv: "handles_inv T ctx" and l: "last_handle ctx \<noteq> MAPI_HANDLES_RESERVED"
  shows "\<exists>ctx' el. mapi_handles_add T ctx p = (MAPI_E_SUCCESS, ctx', Some el) \<and> handles_inv T ctx' \<and>
    htab ctx (handle el) = None \<and> handle el \<noteq> MAPI_HANDLES_RESERVED \<and> parent_handle el = p \<and> private_data el = None \<and>
    handles ctx' = handles ctx @ [el] \<and> htab ctx' = (htab ctx)(handle el \<mapsto> p)"
proof -
  let ?h = "traverse_null T (tdb_ctx ctx) (tdb_keys T (tdb_ctx ctx))"
  have ks: "set (tdb_keys T (tdb_ctx ctx)) \<subseteq> dom (tdb_fetch T (tdb_ctx ctx))" by (simp add: tdb_keys_dom [OF T])
  from traverse_null_free [OF inv ks] consider (new) "?h = 0" |
    (reuse) "0 < ?h" "tdb_fetch T (tdb_ctx ctx) (fmt_handle ?h) = Some MAPI_HANDLES_NULL" by blast
  then show ?thesis
  proof cases
    case reuse
    from inv_fetch(1) [OF inv reuse(2)] have h: "?h < last_handle ctx" "htab ctx ?h = None"
      by (auto split: option.splits dest: record_not_null)
    obtain db where db: "tdb_store T (tdb_ctx ctx) (fmt_handle ?h) (fmt_handle p) TDB_MODIFY = Some db"
      "tdb_fetch T db = (tdb_fetch T (tdb_ctx ctx))(fmt_handle ?h \<mapsto> fmt_handle p)"
      using tdb_modify [OF T] reuse(2) by (metis option.distinct(1))
    have v: "record_of p (fmt_handle p)" by (simp add: record_of_def)
    note i = inv_add [OF inv h(2) reuse(1) h(1) order.refl db(2) v, of None]
    have "mapi_handles_add T ctx p = (MAPI_E_SUCCESS,
        \<lparr>tdb_ctx = db, last_handle = last_handle ctx, handles = handles ctx @ [\<lparr>handle = ?h, parent_handle = p, private_data = None\<rparr>]\<rparr>,
        Some \<lparr>handle = ?h, parent_handle = p, private_data = None\<rparr>)"
      using reuse db(1) by (simp add: mapi_handles_add_def mapi_handles_tdb_update_def tdb_exists_iff [OF T] Let_def)
    with i h less_not_reserved show ?thesis by simp
  next
    case new
    let ?l = "last_handle ctx"
    have fr: "tdb_fetch T (tdb_ctx ctx) (fmt_handle ?l) = None"
      using inv_fetch(1) [OF inv, of ?l] by (cases "tdb_fetch T (tdb_ctx ctx) (fmt_handle ?l)") auto
    then have h: "htab ctx ?l = None" using inv_fetch(2) [OF inv, of ?l] by (cases "htab ctx ?l") auto
    have l0: "0 < ?l" using inv by (simp add: handles_inv_def)
    let ?v = "if p \<noteq> 0 then fmt_handle p else MAPI_HANDLES_ROOT"
    from tdb_insert [OF T fr] obtain db where db: "tdb_store T (tdb_ctx ctx) (fmt_handle ?l) ?v TDB_INSERT = Some db"
      "tdb_fetch T db = (tdb_fetch T (tdb_ctx ctx))(fmt_handle ?l \<mapsto> ?v)" by metis
    have v: "record_of p ?v" by (simp add: record_of_def)
    have ll: "?l < ?l + 1" "?l \<le> ?l + 1" using handle_succ [OF l] by simp_all
    note i = inv_add [OF inv h l0 ll(1) ll(2) db(2) v, of None]
    have "mapi_handles_add T ctx p = (MAPI_E_SUCCESS,
        \<lparr>tdb_ctx = db, last_handle = ?l + 1, handles = handles ctx @ [\<lparr>handle = ?l, parent_handle = p, private_data = None\<rparr>]\<rparr>,
        Some \<lparr>handle = ?l, parent_handle = p, private_data = None\<rparr>)"
      using new db(1) by (simp add: mapi_handles_add_def Let_def)
    with i h l show ?thesis by simp
  qed
qed


section \<open>Delete\<close>

text \<open>What a deletion leaves: the table without the handles of \<open>R\<close>, none of which is still a container.\<close>

definition deleted :: "'db tdb_lib \<Rightarrow> ('db, 'p) mapi_handles_context \<Rightarrow> u32 set \<Rightarrow> ('db, 'p) mapi_handles_context \<Rightarrow> bool" where
  "deleted T ctx R ctx' \<longleftrightarrow>
     handles_inv T ctx' \<and> htab ctx' = htab ctx |` (- R) \<and> (\<forall>x p. htab ctx' x = Some p \<longrightarrow> p \<notin> R) \<and>
     handles ctx' = filter (\<lambda>el. handle el \<notin> R) (handles ctx) \<and> last_handle ctx' = last_handle ctx \<and>
     dom (tdb_fetch T (tdb_ctx ctx')) = dom (tdb_fetch T (tdb_ctx ctx))"

lemma deletedD:
  assumes "deleted T ctx R ctx'"
  shows "handles_inv T ctx'" "htab ctx' = htab ctx |` (- R)" "\<forall>x p. htab ctx' x = Some p \<longrightarrow> p \<notin> R"
    "handles ctx' = filter (\<lambda>el. handle el \<notin> R) (handles ctx)" "last_handle ctx' = last_handle ctx"
    "dom (tdb_fetch T (tdb_ctx ctx')) = dom (tdb_fetch T (tdb_ctx ctx))"
  using assms unfolding deleted_def by blast+

lemma deletedI:
  assumes "handles_inv T ctx'" "htab ctx' = htab ctx |` (- R)" "\<And>x p. htab ctx' x = Some p \<Longrightarrow> p \<notin> R"
    "handles ctx' = filter (\<lambda>el. handle el \<notin> R) (handles ctx)" "last_handle ctx' = last_handle ctx"
    "dom (tdb_fetch T (tdb_ctx ctx')) = dom (tdb_fetch T (tdb_ctx ctx))"
  shows "deleted T ctx R ctx'"
  unfolding deleted_def using assms by blast

lemma deleted_refl: "handles_inv T ctx \<Longrightarrow> deleted T ctx {} ctx"
  by (simp add: deleted_def restrict_map_def)

lemma deleted_le: "deleted T ctx R ctx' \<Longrightarrow> htab ctx' \<subseteq>\<^sub>m htab ctx"
  using deletedD(2) by (fastforce simp: map_le_def restrict_map_def)

lemma deleted_trans:
  assumes "deleted T ctx R ctx1" and "deleted T ctx1 S ctx2"
  shows "deleted T ctx (R \<union> S) ctx2"
proof (rule deletedI)
  note 1 = deletedD [OF assms(1)] and 2 = deletedD [OF assms(2)]
  show "handles_inv T ctx2" by (rule 2)
  show "p \<notin> R \<union> S" if "htab ctx2 x = Some p" for x p
  proof -
    from that deleted_le [OF assms(2)] have "htab ctx1 x = Some p" by (force simp: map_le_def dom_def)
    with 1(3) 2(3) that show ?thesis by blast
  qed
  show "htab ctx2 = htab ctx |` (- (R \<union> S))" unfolding 2(2) 1(2) by (simp add: Int_commute)
  show "handles ctx2 = filter (\<lambda>el. handle el \<notin> R \<union> S) (handles ctx)"
    unfolding 2(4) 1(4) by (simp add: conj_commute)
  show "last_handle ctx2 = last_handle ctx" unfolding 2(5) by (rule 1)
  show "dom (tdb_fetch T (tdb_ctx ctx2)) = dom (tdb_fetch T (tdb_ctx ctx))" unfolding 2(6) by (rule 1)
qed

lemma deleted_length: "deleted T ctx R ctx' \<Longrightarrow> length (handles ctx') \<le> length (handles ctx)"
  using deletedD(4) [of T ctx R ctx'] by simp

text \<open>The first two steps of a deletion: the record leaves the list and its database entry becomes free.\<close>

lemma drop_handle_filter: "distinct (map handle els) \<Longrightarrow> drop_handle els h = filter (\<lambda>el. handle el \<noteq> h) els"
proof (induction els)
  case (Cons el els)
  have "filter (\<lambda>e. handle e \<noteq> handle el) els = els"
    using Cons.prems by (auto simp: filter_id_conv) (metis imageI)
  with Cons show ?case by auto
qed simp

lemma tdb_free_eq:
  assumes T: "tdb_laws T" and inv: "handles_inv T ctx" and live: "htab ctx h \<noteq> None" and r: "h \<noteq> MAPI_HANDLES_RESERVED"
  obtains ctx1 where "mapi_handles_tdb_free T (ctx\<lparr>handles := drop_handle (handles ctx) h\<rparr>) h = (MAPI_E_SUCCESS, ctx1)"
    "handles_inv T ctx1" "htab ctx1 = (htab ctx)(h := None)" "handles ctx1 = filter (\<lambda>el. handle el \<noteq> h) (handles ctx)"
    "last_handle ctx1 = last_handle ctx" "dom (tdb_fetch T (tdb_ctx ctx1)) = dom (tdb_fetch T (tdb_ctx ctx))"
proof -
  let ?f = "tdb_fetch T (tdb_ctx ctx)"
  from live inv have e: "?f (fmt_handle h) \<noteq> None" unfolding handles_inv_def by blast
  obtain db where db: "tdb_store T (tdb_ctx ctx) (fmt_handle h) MAPI_HANDLES_NULL TDB_MODIFY = Some db"
    "tdb_fetch T db = ?f(fmt_handle h \<mapsto> MAPI_HANDLES_NULL)" using tdb_modify [OF T e] by metis
  let ?ctx1 = "ctx\<lparr>handles := drop_handle (handles ctx) h, tdb_ctx := db\<rparr>"
  have d: "distinct (map handle (handles ctx))" using inv by (simp add: handles_inv_def)
  have t: "htab ?ctx1 = (htab ctx)(h := None)" using drop_handle_map [OF d, of h] by (simp add: htab_def)
  have "\<exists>h. k = fmt_handle h \<and> 0 < h \<and> h < last_handle ctx \<and> (case htab ?ctx1 h of None \<Rightarrow> w = MAPI_HANDLES_NULL | Some p \<Rightarrow> record_of p w)"
    if k: "tdb_fetch T db k = Some w" for k w
  proof -
    from k db(2) e have "?f k \<noteq> None" by (auto split: if_splits)
    then obtain w' where w': "?f k = Some w'" by auto
    with inv obtain h' where h': "k = fmt_handle h'" "0 < h'" "h' < last_handle ctx"
      "case htab ctx h' of None \<Rightarrow> w' = MAPI_HANDLES_NULL | Some p \<Rightarrow> record_of p w'"
      unfolding handles_inv_def by blast
    with k w' db(2) t show ?thesis by (intro exI [of _ h']) (auto split: if_splits)
  qed
  moreover have "\<forall>x\<in>dom (htab ?ctx1). tdb_fetch T db (fmt_handle x) \<noteq> None"
    using inv unfolding t db(2) handles_inv_def by (auto split: if_splits)
  ultimately have "handles_inv T ?ctx1"
    using inv drop_handle_distinct [OF d] unfolding handles_inv_def by simp
  moreover have "mapi_handles_tdb_free T (ctx\<lparr>handles := drop_handle (handles ctx) h\<rparr>) h = (MAPI_E_SUCCESS, ?ctx1)"
    using e r db(1) by (simp add: mapi_handles_tdb_free_def tdb_exists_iff [OF T])
  moreover have "dom (tdb_fetch T (tdb_ctx ?ctx1)) = dom ?f" using db(2) e by auto
  ultimately show ?thesis using that [of ?ctx1] t drop_handle_filter [OF d] by simp
qed

text \<open>The traversal, for a recursive call that deletes hierarchies.\<close>

definition deletes :: "'db tdb_lib \<Rightarrow> nat \<Rightarrow> (('db, 'p) mapi_handles_context \<Rightarrow> u32 \<Rightarrow> (MAPISTATUS \<times> ('db, 'p) mapi_handles_context) option) \<Rightarrow> bool" where
  "deletes T n del \<longleftrightarrow> (\<forall>ctx h. handles_inv T ctx \<longrightarrow> length (handles ctx) \<le> n \<longrightarrow> htab ctx h \<noteq> None \<longrightarrow> h \<noteq> MAPI_HANDLES_RESERVED \<longrightarrow>
     (\<exists>ctx' R. del ctx h = Some (MAPI_E_SUCCESS, ctx') \<and> deleted T ctx R ctx' \<and> h \<in> R \<and> (\<forall>x\<in>R. hdesc (htab ctx) h x)))"

lemma inv_not_reserved: "handles_inv T ctx \<Longrightarrow> htab ctx h \<noteq> None \<Longrightarrow> h \<noteq> MAPI_HANDLES_RESERVED"
  using inv_fetch(2) [of T ctx h] inv_fetch(1) [of T ctx h] less_not_reserved by (cases "htab ctx h") blast+

lemma traverse_deletes:
  assumes del: "deletes T n del" and c: "0 < c"
  shows "handles_inv T ctx \<Longrightarrow> length (handles ctx) \<le> n \<Longrightarrow> set ks \<subseteq> dom (tdb_fetch T (tdb_ctx ctx)) \<Longrightarrow>
    \<exists>ctx' R. traverse_delete T del c ks ctx = Some ctx' \<and> deleted T ctx R ctx' \<and> (\<forall>x\<in>R. hdesc (htab ctx) c x) \<and>
      (\<forall>x. fmt_handle x \<in> set ks \<longrightarrow> htab ctx' x \<noteq> Some c)"
proof (induction ks arbitrary: ctx)
  case Nil
  then show ?case by (intro exI [of _ ctx] exI [of _ "{}"]) (simp add: deleted_refl)
next
  case (Cons k ks)
  from Cons.prems(3) obtain v where v: "tdb_fetch T (tdb_ctx ctx) k = Some v" by auto
  with Cons.prems(1) obtain h where k: "k = fmt_handle h" unfolding handles_inv_def by blast
  note fk = inv_fetch(1) [OF Cons.prems(1), of h v]
  have "\<exists>ctx1 R. mapi_handles_traverse_delete del c k v ctx = Some ctx1 \<and> deleted T ctx R ctx1 \<and>
      (\<forall>x\<in>R. hdesc (htab ctx) c x) \<and> htab ctx1 h \<noteq> Some c"
  proof (cases "v = fmt_handle c")
    case True
    with fk v k c have p: "htab ctx h = Some c" by (auto split: option.splits simp: record_of_def) (metis fmt_handle_special(1))
    with del Cons.prems(1,2) inv_not_reserved [OF Cons.prems(1), of h] obtain ctx' R where
      r: "del ctx h = Some (MAPI_E_SUCCESS, ctx')" "deleted T ctx R ctx'" "h \<in> R" "\<forall>x\<in>R. hdesc (htab ctx) h x"
      unfolding deletes_def by blast
    have ch: "hdesc (htab ctx) c h" using p by (auto intro: hdesc.intros)
    have "\<forall>x\<in>R. hdesc (htab ctx) c x" using r(4) hdesc_trans [OF _ ch] by blast
    moreover have "htab ctx' h \<noteq> Some c" unfolding deletedD(2) [OF r(2)] using r(3) by simp
    moreover have "mapi_handles_traverse_delete del c k v ctx = Some ctx'"
      using r(1) True k by (simp add: mapi_handles_traverse_delete_def)
    ultimately show ?thesis using r(2) by blast
  next
    case False
    with fk v k c have "htab ctx h \<noteq> Some c" by (auto simp: record_of_container)
    with False Cons.prems(1) show ?thesis
      by (intro exI [of _ ctx] exI [of _ "{}"]) (simp add: mapi_handles_traverse_delete_def deleted_refl)
  qed
  then obtain ctx1 R1 where 1: "mapi_handles_traverse_delete del c k v ctx = Some ctx1" "deleted T ctx R1 ctx1"
    "\<forall>x\<in>R1. hdesc (htab ctx) c x" "htab ctx1 h \<noteq> Some c" by blast
  from Cons.IH [of ctx1] 1(2) Cons.prems(2,3) deleted_length [OF 1(2)] obtain ctx2 R2 where
    2: "traverse_delete T del c ks ctx1 = Some ctx2" "deleted T ctx1 R2 ctx2" "\<forall>x\<in>R2. hdesc (htab ctx1) c x"
    "\<forall>x. fmt_handle x \<in> set ks \<longrightarrow> htab ctx2 x \<noteq> Some c"
    using deletedD(1,6) [OF 1(2)] by auto
  have "htab ctx2 h \<noteq> Some c" using 1(4) deleted_le [OF 2(2)] by (auto simp: map_le_def dom_def)
  moreover have "\<forall>x\<in>R2. hdesc (htab ctx) c x" using 2(3) deleted_le [OF 1(2)] hdesc_mono by blast
  moreover have "traverse_delete T del c (k # ks) ctx = Some ctx2" using v 1(1) 2(1) by simp
  ultimately show ?case
    using 1(3) 2(4) k deleted_trans [OF 1(2) 2(2)] by (intro exI [of _ ctx2] exI [of _ "R1 \<union> R2"]) (simp add: ball_Un)
qed

declare delete_fuel.simps(2) [simp del]

lemma delete_fuel_deletes: "tdb_laws T \<Longrightarrow> deletes T n (delete_fuel (Suc n) T)"
proof (induction n)
  case 0
  show ?case by (auto simp: deletes_def htab_def)
next
  case (Suc n)
  show ?case unfolding deletes_def
  proof (intro allI impI)
    fix ctx :: "('a, 'b) mapi_handles_context" and h
    assume inv: "handles_inv T ctx" and len: "length (handles ctx) \<le> Suc n" and live: "htab ctx h \<noteq> None" and r: "h \<noteq> MAPI_HANDLES_RESERVED"
    from tdb_free_eq [OF Suc.prems inv live r] obtain ctx1 where
      1: "mapi_handles_tdb_free T (ctx\<lparr>handles := drop_handle (handles ctx) h\<rparr>) h = (MAPI_E_SUCCESS, ctx1)"
        "handles_inv T ctx1" "htab ctx1 = (htab ctx)(h := None)" "handles ctx1 = filter (\<lambda>el. handle el \<noteq> h) (handles ctx)"
        "last_handle ctx1 = last_handle ctx" "dom (tdb_fetch T (tdb_ctx ctx1)) = dom (tdb_fetch T (tdb_ctx ctx))" .
    have hin: "h \<in> handle ` set (handles ctx)" using live dom_htab [of ctx] by auto
    then have "length (handles ctx1) < length (handles ctx)" unfolding 1(4) by (auto intro: length_filter_less)
    with len have len1: "length (handles ctx1) \<le> n" by simp
    obtain p where "htab ctx h = Some p" using live by auto
    from inv_fetch(3) [OF inv this] have h0: "0 < h" .
    have ks: "set (tdb_keys T (tdb_ctx ctx1)) = dom (tdb_fetch T (tdb_ctx ctx1))" by (rule tdb_keys_dom [OF Suc.prems])
    from traverse_deletes [OF Suc.IH [OF Suc.prems] h0 1(2) len1, of "tdb_keys T (tdb_ctx ctx1)"] ks obtain ctx2 R where
      2: "traverse_delete T (delete_fuel (Suc n) T) h (tdb_keys T (tdb_ctx ctx1)) ctx1 = Some ctx2" "deleted T ctx1 R ctx2"
        "\<forall>x\<in>R. hdesc (htab ctx1) h x" "\<forall>x. fmt_handle x \<in> dom (tdb_fetch T (tdb_ctx ctx1)) \<longrightarrow> htab ctx2 x \<noteq> Some h" by auto
    note dd = deletedD [OF 2(2)]
    have d: "deleted T ctx (insert h R) ctx2"
    proof (rule deletedI)
      show "handles_inv T ctx2" by (rule dd)
      show "p \<notin> insert h R" if x: "htab ctx2 x = Some p" for x p
      proof -
        from x deleted_le [OF 2(2)] have "htab ctx1 x = Some p" by (force simp: map_le_def dom_def)
        with inv_fetch(2) [OF 1(2)] have "fmt_handle x \<in> dom (tdb_fetch T (tdb_ctx ctx1))" by blast
        with 2(4) x dd(3) show ?thesis by blast
      qed
      show "htab ctx2 = htab ctx |` (- insert h R)" unfolding dd(2) 1(3) by (auto simp: restrict_map_def fun_eq_iff)
      show "handles ctx2 = filter (\<lambda>el. handle el \<notin> insert h R) (handles ctx)"
        unfolding dd(4) 1(4) by (simp add: conj_commute)
      show "last_handle ctx2 = last_handle ctx" unfolding dd(5) by (rule 1)
      show "dom (tdb_fetch T (tdb_ctx ctx2)) = dom (tdb_fetch T (tdb_ctx ctx))" unfolding dd(6) by (rule 1)
    qed
    have "htab ctx1 \<subseteq>\<^sub>m htab ctx" unfolding 1(3) by (auto simp: map_le_def)
    then have "\<forall>x\<in>insert h R. hdesc (htab ctx) h x" using 2(3) hdesc_mono [of "htab ctx1"] by (auto intro: hdesc.here)
    moreover have "delete_fuel (Suc (Suc n)) T ctx h = Some (MAPI_E_SUCCESS, ctx2)"
    proof -
      have "tdb_exists T (tdb_ctx ctx) (fmt_handle h)" using inv live unfolding tdb_exists_iff [OF Suc.prems] handles_inv_def by blast
      moreover have "find_handle (handles ctx) h \<noteq> None" using hin by (simp add: find_handle_None)
      ultimately show ?thesis using r 1(1) 2(1) by (simp only: delete_fuel.simps(2) [of "Suc n"] if_False not_True_eq_False split_conv option.map simp_thms)
    qed
    ultimately show "\<exists>ctx' R. delete_fuel (Suc (Suc n)) T ctx h = Some (MAPI_E_SUCCESS, ctx') \<and> deleted T ctx R ctx' \<and> h \<in> R \<and>
        (\<forall>x\<in>R. hdesc (htab ctx) h x)" using d by blast
  qed
qed

lemma deleted_closed:
  assumes "deleted T ctx R ctx'" and "h \<in> R" and "\<forall>x\<in>R. hdesc (htab ctx) h x" and "htab ctx x = Some p"
  shows "htab ctx' x = (if hdesc (htab ctx) h x then None else Some p)"
proof -
  have "x \<in> R" if "hdesc (htab ctx) h x" for x
    using that
  proof (induction rule: hdesc.induct)
    case here
    show ?case by (rule assms(2))
  next
    case (child x p)
    then show ?case using deletedD(2,3) [OF assms(1)] by (metis ComplI restrict_in)
  qed
  then have "hdesc (htab ctx) h x \<longleftrightarrow> x \<in> R" using assms(3) by blast
  then show ?thesis using assms(4) unfolding deletedD(2) [OF assms(1)] by (simp add: restrict_map_def)
qed

lemma delete_eq:
  assumes "tdb_laws T" and "handles_inv T ctx" and "htab ctx h \<noteq> None"
  shows "\<exists>ctx'. mapi_handles_delete T ctx h = Ok (MAPI_E_SUCCESS, ctx') \<and> handles_inv T ctx' \<and>
    (\<forall>x. htab ctx' x = (if hdesc (htab ctx) h x then None else htab ctx x)) \<and> last_handle ctx' = last_handle ctx \<and>
    tdb_fetch T (tdb_ctx ctx') (fmt_handle h) = Some MAPI_HANDLES_NULL"
proof -
  from delete_fuel_deletes [OF assms(1), of "length (handles ctx)"] assms(2,3) inv_not_reserved [OF assms(2,3)] obtain ctx' R where
    r: "delete_fuel (Suc (length (handles ctx))) T ctx h = Some (MAPI_E_SUCCESS, ctx')" "deleted T ctx R ctx'" "h \<in> R"
      "\<forall>x\<in>R. hdesc (htab ctx) h x" unfolding deletes_def by blast
  have "htab ctx' x = (if hdesc (htab ctx) h x then None else htab ctx x)" for x
  proof (cases "htab ctx x")
    case None
    then show ?thesis using deleted_le [OF r(2)] by (cases "htab ctx' x") (auto simp: map_le_def dom_def)
  next
    case (Some p)
    then show ?thesis using deleted_closed [OF r(2,3,4)] by simp
  qed
  moreover from this [of h] have "htab ctx' h = None" by (simp add: hdesc.here)
  moreover have "fmt_handle h \<in> dom (tdb_fetch T (tdb_ctx ctx'))"
    unfolding deletedD(6) [OF r(2)] using assms(2,3) unfolding handles_inv_def by blast
  ultimately show ?thesis
    using r(1) inv_fetch(1) [OF deletedD(1) [OF r(2)], of h] deletedD(1,5) [OF r(2)]
    by (auto simp: mapi_handles_delete_def)
qed


section \<open>Sessions\<close>

text \<open>The states a session can reach: handles are added, as long as the counter has not come to the
  reserved value, deleted, and given private data.\<close>

inductive handles_reachable :: "'db tdb_lib \<Rightarrow> ('db, 'p) mapi_handles_context \<Rightarrow> bool" for T where
  init: "handles_reachable T (mapi_handles_init T)"
| add: "handles_reachable T ctx \<Longrightarrow> last_handle ctx \<noteq> MAPI_HANDLES_RESERVED \<Longrightarrow>
    mapi_handles_add T ctx p = (ms, ctx', el) \<Longrightarrow> handles_reachable T ctx'"
| delete: "handles_reachable T ctx \<Longrightarrow> mapi_handles_delete T ctx h = Ok (ms, ctx') \<Longrightarrow> handles_reachable T ctx'"
| set_private_data: "handles_reachable T ctx \<Longrightarrow> find_handle (handles ctx) h = Some el \<Longrightarrow>
    mapi_handles_set_private_data el d = (ms, el') \<Longrightarrow>
    handles_reachable T (ctx\<lparr>handles := map (\<lambda>e. if handle e = h then el' else e) (handles ctx)\<rparr>)"

lemma delete_dead:
  assumes T: "tdb_laws T" and inv: "handles_inv T ctx" and dead: "htab ctx h = None"
  shows "mapi_handles_delete T ctx h =
    Ok (if h = MAPI_HANDLES_RESERVED then MAPI_E_INVALID_PARAMETER
        else if tdb_fetch T (tdb_ctx ctx) (fmt_handle h) = None then MAPI_E_NOT_FOUND
        else MAPI_E_CORRUPT_STORE, ctx)"
proof -
  have "find_handle (handles ctx) h = None" using dead by (simp add: htab_find)
  then show ?thesis by (simp add: mapi_handles_delete_def delete_fuel.simps tdb_exists_iff [OF T])
qed

lemma set_private_same: "mapi_handles_set_private_data el d = (ms, el') \<Longrightarrow> handle el' = handle el \<and> parent_handle el' = parent_handle el"
  by (auto simp: mapi_handles_set_private_data_def split: if_splits)

lemma inv_set_private:
  assumes inv: "handles_inv T ctx" and el: "find_handle (handles ctx) h = Some el" and s: "mapi_handles_set_private_data el d = (ms, el')"
  shows "handles_inv T (ctx\<lparr>handles := map (\<lambda>e. if handle e = h then el' else e) (handles ctx)\<rparr>)"
proof -
  let ?g = "\<lambda>e. if handle e = h then el' else e"
  have d: "distinct (map handle (handles ctx))" using inv by (simp add: handles_inv_def)
  from find_handle_Some [OF el] have e: "el \<in> set (handles ctx)" "handle el = h" by simp_all
  have same: "handle (?g e) = handle e \<and> parent_handle (?g e) = parent_handle e" if "e \<in> set (handles ctx)" for e
    using that e set_private_same [OF s] d by (auto simp: distinct_map dest: inj_onD)
  let ?c = "ctx\<lparr>handles := map ?g (handles ctx)\<rparr>"
  have 1: "map handle (handles ?c) = map handle (handles ctx)" using same by simp
  have "map (\<lambda>el. (handle el, parent_handle el)) (handles ?c) = map (\<lambda>el. (handle el, parent_handle el)) (handles ctx)"
    using same by simp
  then have 2: "htab ?c = htab ctx" unfolding htab_def by (rule arg_cong)
  show ?thesis using inv unfolding handles_inv_def 1 2 by simp
qed

lemma reachable_inv:
  assumes "tdb_laws T" shows "handles_reachable T ctx \<Longrightarrow> handles_inv T ctx"
proof (induction rule: handles_reachable.induct)
  case init
  show ?case by (rule inv_init [OF assms])
next
  case (add ctx p ms ctx' el)
  from add_eq [OF assms add.IH add.hyps(2), of p] add.hyps(3) show ?case by auto
next
  case (delete ctx h ms ctx')
  show ?case
  proof (cases "htab ctx h = None")
    case True
    with delete.hyps(2) delete.IH delete_dead [OF assms delete.IH True] show ?thesis by simp
  next
    case False
    with delete_eq [OF assms delete.IH False] delete.hyps(2) show ?thesis by auto
  qed
next
  case (set_private_data ctx h el d ms el')
  from inv_set_private [OF set_private_data.IH set_private_data.hyps(2,3)] show ?case .
qed

section \<open>A store for examples\<close>

definition assoc_tdb :: "(string \<times> string) list tdb_lib" where
  "assoc_tdb =
     \<lparr>tdb_open = [], tdb_fetch = map_of, tdb_exists = (\<lambda>db k. map_of db k \<noteq> None),
      tdb_store = (\<lambda>db k v fl. case fl of
        TDB_REPLACE \<Rightarrow> Some ((k, v) # db)
      | TDB_INSERT \<Rightarrow> if map_of db k = None then Some ((k, v) # db) else None
      | TDB_MODIFY \<Rightarrow> if map_of db k = None then None else Some ((k, v) # db)),
      tdb_delete = (\<lambda>db k. if map_of db k = None then None else Some (filter (\<lambda>x. fst x \<noteq> k) db)),
      tdb_keys = (\<lambda>db. remdups (map fst db))\<rparr>"

lemma map_of_filter_other: "map_of (filter (\<lambda>x. fst x \<noteq> k) db) = (map_of db)(k := None)"
  by (induction db) auto

lemma assoc_tdb_laws: "tdb_laws assoc_tdb"
  by (simp add: tdb_laws_def assoc_tdb_def dom_map_of_conv_image_fst map_of_filter_other)

definition add_run :: "u32 list \<Rightarrow> ((string \<times> string) list, nat) mapi_handles_context" where
  "add_run = foldl (\<lambda>ctx p. fst (snd (mapi_handles_add assoc_tdb ctx p))) (mapi_handles_init assoc_tdb)"

lemma reach_add:
  "handles_reachable T ctx \<Longrightarrow> last_handle ctx \<noteq> MAPI_HANDLES_RESERVED \<Longrightarrow> handles_reachable T (fst (snd (mapi_handles_add T ctx p)))"
  by (cases "mapi_handles_add T ctx p") (auto intro: handles_reachable.add)

lemma add_run_reachable:
  "list_all (\<lambda>n. last_handle (add_run (take n ps)) \<noteq> MAPI_HANDLES_RESERVED) [0..<length ps] \<Longrightarrow> handles_reachable assoc_tdb (add_run ps)"
proof (induction ps rule: rev_induct)
  case Nil
  then show ?case by (simp add: add_run_def handles_reachable.init)
next
  case (snoc p ps)
  have "list_all (\<lambda>n. last_handle (add_run (take n ps)) \<noteq> MAPI_HANDLES_RESERVED) [0..<length ps]"
    using snoc.prems by (auto simp: list_all_iff)
  with snoc.IH have "handles_reachable assoc_tdb (add_run ps)" by simp
  moreover have "last_handle (add_run ps) \<noteq> MAPI_HANDLES_RESERVED" using snoc.prems by (auto simp: list_all_iff)
  ultimately show ?case using reach_add by (simp add: add_run_def)
qed

lemma demo_facts:
  "list_all (\<lambda>n. last_handle (add_run (take n [0, 1, 2, 0])) \<noteq> MAPI_HANDLES_RESERVED) [0..<length [0, 1, 2, 0 :: u32]]"
  "htab (add_run [0, 1, 2, 0]) 1 = Some 0" "htab (add_run [0, 1, 2, 0]) 3 = Some 2"
  "last_handle (add_run [0, 1, 2, 0]) = 5"
  by code_simp+

lemma demo_reachable: "handles_reachable assoc_tdb (add_run [0, 1, 2, 0])"
  using demo_facts(1) by (rule add_run_reachable)

section \<open>Properties\<close>

text \<open>C20 In every state a session can reach, the list and the database agree: the handles of the list are
  distinct, every database key is a handle below the counter, a handle of the list has a record that
  names its container, and every other record is marked free.\<close>

theorem mapi_handles_invariant:
  assumes "tdb_laws T" and "handles_reachable T ctx"
  shows "handles_inv T ctx"
  using assms by (rule reachable_inv)

theorem mapi_handles_invariant_witness: "handles_inv assoc_tdb (add_run [0, 1, 2, 0])"
  by (rule mapi_handles_invariant [OF assoc_tdb_laws demo_reachable])

text \<open>Searching finds exactly the records of the list: a handle that is not live, freed ones included, is
  reported as not found, and the store is never reported as corrupt.\<close>

theorem mapi_handles_search_correct:
  assumes "tdb_laws T" and "handles_reachable T ctx"
  shows "mapi_handles_search T ctx h =
    (if h = MAPI_HANDLES_RESERVED then (MAPI_E_INVALID_PARAMETER, None)
     else case find_handle (handles ctx) h of
       Some el \<Rightarrow> (MAPI_E_SUCCESS, Some el)
     | None \<Rightarrow> (MAPI_E_NOT_FOUND, None))"
  using search_eq [OF reachable_inv [OF assms], of h] by (simp add: mapi_handles_search_def)

theorem mapi_handles_search_correct_witness:
  "mapi_handles_search assoc_tdb (add_run [0, 1, 2, 0]) 3 =
     (MAPI_E_SUCCESS, Some \<lparr>handle = 3, parent_handle = 2, private_data = None\<rparr>)"
proof -
  have "find_handle (handles (add_run [0, 1, 2, 0])) 3 = Some \<lparr>handle = 3, parent_handle = 2, private_data = None\<rparr>"
    by code_simp
  then show ?thesis
    using mapi_handles_search_correct [OF assoc_tdb_laws demo_reachable, of 3] by (simp add: MAPI_HANDLES_RESERVED_def)
qed

text \<open>Adding a handle succeeds and returns one that is not in use and not the reserved value, whether it
  is new or a freed one is reused; it becomes the last record of the list, under the given container,
  and no other handle changes.\<close>

theorem mapi_handles_add_fresh:
  assumes "tdb_laws T" and "handles_reachable T ctx" and "last_handle ctx \<noteq> MAPI_HANDLES_RESERVED"
  shows "\<exists>ctx' el. mapi_handles_add T ctx p = (MAPI_E_SUCCESS, ctx', Some el) \<and>
    htab ctx (handle el) = None \<and> handle el \<noteq> MAPI_HANDLES_RESERVED \<and> parent_handle el = p \<and> private_data el = None \<and>
    handles ctx' = handles ctx @ [el] \<and> htab ctx' = (htab ctx)(handle el \<mapsto> p)"
  using add_eq [OF assms(1) reachable_inv [OF assms(1,2)] assms(3)] by blast

theorem mapi_handles_add_fresh_witness:
  "\<exists>ctx' el. mapi_handles_add assoc_tdb (add_run [0, 1, 2, 0]) 4 = (MAPI_E_SUCCESS, ctx', Some el) \<and>
    htab ctx' = (htab (add_run [0, 1, 2, 0]))(handle el \<mapsto> 4)"
  using mapi_handles_add_fresh [OF assoc_tdb_laws demo_reachable, of 4] demo_facts(4)
  by (auto simp: MAPI_HANDLES_RESERVED_def)

text \<open>C14 Deleting a live handle ends, succeeds, and removes exactly that handle and the handles below it,
  through any number of levels; the others keep their containers, and the record of the deleted
  handle is free for reuse.\<close>

theorem mapi_handles_delete_hierarchy:
  assumes "tdb_laws T" and "handles_reachable T ctx" and "htab ctx h \<noteq> None"
  shows "\<exists>ctx'. mapi_handles_delete T ctx h = Ok (MAPI_E_SUCCESS, ctx') \<and>
    htab ctx' = (\<lambda>x. if hdesc (htab ctx) h x then None else htab ctx x) \<and>
    tdb_fetch T (tdb_ctx ctx') (fmt_handle h) = Some MAPI_HANDLES_NULL"
  using delete_eq [OF assms(1) reachable_inv [OF assms(1,2)] assms(3)] by (auto simp: fun_eq_iff)

theorem mapi_handles_delete_hierarchy_witness:
  "\<exists>ctx'. mapi_handles_delete assoc_tdb (add_run [0, 1, 2, 0]) 1 = Ok (MAPI_E_SUCCESS, ctx') \<and> htab ctx' 3 = None"
proof -
  have h: "htab (add_run [0, 1, 2, 0]) 2 = Some 1" by code_simp
  have "hdesc (htab (add_run [0, 1, 2, 0])) 1 3"
    using hdesc.child [where m = "htab (add_run [0, 1, 2, 0])"] demo_facts(3) h hdesc.here by metis
  then show ?thesis
    using mapi_handles_delete_hierarchy [OF assoc_tdb_laws demo_reachable, of 1] demo_facts(2) by auto
qed

text \<open>Deleting a handle twice reports a corrupt store, in the branch that the code comments as one that
  should never occur, although the store is intact and a search reports the handle as not found.\<close>

theorem mapi_handles_delete_twice:
  assumes "tdb_laws T" and "handles_reachable T ctx" and "htab ctx h \<noteq> None"
  shows "\<exists>ctx'. mapi_handles_delete T ctx h = Ok (MAPI_E_SUCCESS, ctx') \<and>
    mapi_handles_search T ctx' h = (MAPI_E_NOT_FOUND, None) \<and>
    mapi_handles_delete T ctx' h = Ok (MAPI_E_CORRUPT_STORE, ctx')"
proof -
  note inv = reachable_inv [OF assms(1,2)]
  from delete_eq [OF assms(1) inv assms(3)] obtain ctx' where
    c: "mapi_handles_delete T ctx h = Ok (MAPI_E_SUCCESS, ctx')" "handles_inv T ctx'" "htab ctx' h = None"
      "tdb_fetch T (tdb_ctx ctx') (fmt_handle h) = Some MAPI_HANDLES_NULL"
    by (auto simp: hdesc.here)
  have r: "h \<noteq> MAPI_HANDLES_RESERVED" using inv_not_reserved [OF inv assms(3)] .
  have "find_handle (handles ctx') h = None" using c(3) by (simp add: htab_find)
  with c r search_eq [OF c(2) r] delete_dead [OF assms(1) c(2,3)] show ?thesis by auto
qed

theorem mapi_handles_delete_twice_witness:
  "\<exists>ctx'. mapi_handles_delete assoc_tdb (add_run [0, 1, 2, 0]) 1 = Ok (MAPI_E_SUCCESS, ctx') \<and>
    mapi_handles_delete assoc_tdb ctx' 1 = Ok (MAPI_E_CORRUPT_STORE, ctx')"
  using mapi_handles_delete_twice [OF assoc_tdb_laws demo_reachable, of 1] demo_facts(2) by auto

end
