(* ===== verification/Property_Tags.thy ===== *)
theory Property_Tags
  imports Mapi_Prop
begin

unbundle bit_operations_syntax

text \<open>
  Arrays of property tags in \<^verbatim>\<open>src/libmapi/property.c\<close>: the counted \<^verbatim>\<open>struct SPropTagArray\<close> and the zero-terminated
  arrays of \<^verbatim>\<open>enum MAPITAGS\<close>. Accesses outside the allocated elements are \<open>Fault\<close>; elements that
  \<^verbatim>\<open>talloc_realloc\<close> adds are 0 until they are written. The memory context is not null.
\<close>

section \<open>Counted arrays\<close>

record SPropTagArray =
  cValues :: u32
  aulPropTag :: "u32 list option"

definition wr :: "'a list \<Rightarrow> nat \<Rightarrow> 'a \<Rightarrow> 'a list outcome" where
  "wr buf i v = (if i < length buf then Ok (buf[i := v]) else Fault)"

definition realloc_tags :: "u32 \<Rightarrow> u32 list \<Rightarrow> u32 list" where
  "realloc_tags n buf = take (unat n) buf @ replicate (unat n - length buf) 0"

definition set_SPropTagArray :: "u32 list \<Rightarrow> SPropTagArray" where
  "set_SPropTagArray ts = \<lparr>cValues = of_nat (length ts), aulPropTag = Some ts\<rparr>"

definition SPropTagArray_add :: "SPropTagArray \<Rightarrow> u32 \<Rightarrow> (MAPISTATUS \<times> SPropTagArray) outcome" where
  "SPropTagArray_add a t =
     (case aulPropTag a of
        None \<Rightarrow> Ok (MAPI_E_INVALID_PARAMETER, a)
      | Some buf \<Rightarrow>
          let n = cValues a + 1
          in obind (wr (realloc_tags (n + 1) buf) (unat (n - 1)) t) (\<lambda>buf1.
             obind (wr buf1 (unat n) 0) (\<lambda>buf2.
             Ok (MAPI_E_SUCCESS, \<lparr>cValues = n, aulPropTag = Some buf2\<rparr>))))"

text \<open>The loop of \<open>SPropTagArray_delete\<close>, with the number of elements left.\<close>

fun tag_delete_loop :: "u32 \<Rightarrow> nat \<Rightarrow> nat \<Rightarrow> nat \<Rightarrow> u32 list \<Rightarrow> (nat \<times> u32 list) outcome" where
  "tag_delete_loop t 0 i removed buf = Ok (removed, buf)"
| "tag_delete_loop t (Suc k) i removed buf =
     obind (rd buf i) (\<lambda>x.
     if x = t then tag_delete_loop t k (i + 1) (removed + 1) buf
     else if removed > 0 then obind (wr buf (i - removed) x) (tag_delete_loop t k (i + 1) removed)
     else tag_delete_loop t k (i + 1) removed buf)"

definition SPropTagArray_delete :: "SPropTagArray \<Rightarrow> u32 \<Rightarrow> (MAPISTATUS \<times> SPropTagArray) outcome" where
  "SPropTagArray_delete a t =
     (if cValues a = 0 then Ok (MAPI_E_INVALID_PARAMETER, a)
      else case aulPropTag a of
        None \<Rightarrow> Fault
      | Some buf \<Rightarrow>
          obind (tag_delete_loop t (unat (cValues a)) 0 0 buf) (\<lambda>(removed, buf1).
          let n = cValues a - of_nat removed
          in obind (wr (realloc_tags (n + 1) buf1) (unat n) 0) (\<lambda>buf2.
             Ok (MAPI_E_SUCCESS, \<lparr>cValues = n, aulPropTag = Some buf2\<rparr>))))"

fun tag_find_loop :: "u32 \<Rightarrow> nat \<Rightarrow> nat \<Rightarrow> u32 list \<Rightarrow> nat option outcome" where
  "tag_find_loop t 0 i buf = Ok None"
| "tag_find_loop t (Suc k) i buf =
     obind (rd buf i) (\<lambda>x. if x = t then Ok (Some i) else tag_find_loop t k (i + 1) buf)"

definition SPropTagArray_find :: "SPropTagArray \<Rightarrow> u32 \<Rightarrow> (MAPISTATUS \<times> nat option) outcome" where
  "SPropTagArray_find a t =
     obind (if cValues a = 0 then Ok None
            else case aulPropTag a of None \<Rightarrow> Fault | Some buf \<Rightarrow> tag_find_loop t (unat (cValues a)) 0 buf) (\<lambda>r.
     Ok (case r of Some i \<Rightarrow> (MAPI_E_SUCCESS, Some i) | None \<Rightarrow> (MAPI_E_NOT_FOUND, None)))"

text \<open>The index of the first of some alternative tags, -1 when there is none.\<close>

fun find_first_tag :: "SPropTagArray \<Rightarrow> u32 list \<Rightarrow> int outcome" where
  "find_first_tag a [] = Ok (-1)"
| "find_first_tag a (t # ts) =
     obind (SPropTagArray_find a t) (\<lambda>r. case snd r of Some i \<Rightarrow> Ok (int i) | None \<Rightarrow> find_first_tag a ts)"

definition get_email_address_index_SPropTagArray :: "SPropTagArray option \<Rightarrow> int outcome" where
  "get_email_address_index_SPropTagArray p =
     (case p of None \<Rightarrow> Ok (-1) | Some a \<Rightarrow> find_first_tag a [0x3003001f, 0x39FE001f])"

definition get_display_name_index_SPropTagArray :: "SPropTagArray option \<Rightarrow> int outcome" where
  "get_display_name_index_SPropTagArray p =
     (case p of None \<Rightarrow> Ok (-1) | Some a \<Rightarrow> find_first_tag a [0x3001001f, 0x39FF001f, 0x5FF6001f])"

section \<open>Zero-terminated arrays\<close>

text \<open>One deletion shifts the rest of the array down by one.\<close>

lemma obind_cong [fundef_cong]: "r = r' \<Longrightarrow> (\<And>x. r' = Ok x \<Longrightarrow> f x = g x) \<Longrightarrow> obind r f = obind r' g"
  by (cases r') auto

function shift_tags :: "nat \<Rightarrow> u32 list \<Rightarrow> u32 list outcome" where
  "shift_tags j buf =
     obind (rd buf j) (\<lambda>x.
     if x = 0 then Ok buf
     else obind (rd buf (j + 1)) (\<lambda>y. shift_tags (j + 1) (buf[j := y])))"
  by pat_completeness auto
termination by (relation "measure (\<lambda>(j, buf). length buf - j)") (auto simp: rd_def split: if_splits)

declare shift_tags.simps [simp del]

lemma shift_tags_length: "shift_tags j buf = Ok buf' \<Longrightarrow> length buf' = length buf"
proof (induction j buf rule: shift_tags.induct)
  case (1 j buf)
  from 1(2) show ?case
    by (subst (asm) shift_tags.simps) (auto split: if_splits dest!: 1(1))
qed

function delete_entry :: "u32 \<Rightarrow> nat \<Rightarrow> u32 \<Rightarrow> u32 list \<Rightarrow> (u32 \<times> u32 list) outcome" where
  "delete_entry t i final_count buf =
     obind (rd buf i) (\<lambda>x.
     if x = 0 then Ok (final_count, buf)
     else if t = x then
       (case shift_tags i buf of
          Ok buf1 \<Rightarrow> delete_entry t (i + 1) (final_count - 1) buf1
        | Abort \<Rightarrow> Abort | Fault \<Rightarrow> Fault | Hang \<Rightarrow> Hang)
     else delete_entry t (i + 1) final_count buf)"
  by pat_completeness auto
termination
  by (relation "measure (\<lambda>(t, i, n, buf). length buf - i)") (auto simp: rd_def split: if_splits dest: shift_tags_length)

declare delete_entry.simps [simp del]

fun MAPITAGS_delete_entries :: "u32 list \<Rightarrow> u32 \<Rightarrow> u32 list \<Rightarrow> (u32 \<times> u32 list) outcome" where
  "MAPITAGS_delete_entries mapitags final_count [] = Ok (final_count, mapitags)"
| "MAPITAGS_delete_entries mapitags final_count (t # ts) =
     obind (delete_entry t 0 final_count mapitags) (\<lambda>(n, buf). MAPITAGS_delete_entries buf n ts)"


section \<open>Counted arrays are lists\<close>

definition tags :: "SPropTagArray \<Rightarrow> u32 list" where
  "tags a = (case aulPropTag a of None \<Rightarrow> [] | Some buf \<Rightarrow> take (unat (cValues a)) buf)"

definition tags_ok :: "SPropTagArray \<Rightarrow> bool" where
  "tags_ok a \<longleftrightarrow> (\<exists>buf. aulPropTag a = Some buf \<and> unat (cValues a) \<le> length buf)"

lemma tags_ok_set: "length ts < 2 ^ 32 \<Longrightarrow> tags_ok (set_SPropTagArray ts) \<and> tags (set_SPropTagArray ts) = ts"
  by (simp add: tags_ok_def tags_def set_SPropTagArray_def unat_of_nat)

lemma realloc_tags_at: "unat n \<le> length buf \<Longrightarrow> realloc_tags n buf = take (unat n) buf"
  by (simp add: realloc_tags_def)

lemma SPropTagArray_add_tags:
  assumes "tags_ok a" and "unat (cValues a) < 2 ^ 32 - 2"
  shows "\<exists>a'. SPropTagArray_add a t = Ok (MAPI_E_SUCCESS, a') \<and> tags_ok a' \<and> tags a' = tags a @ [t]"
proof -
  obtain buf where buf: "aulPropTag a = Some buf" "unat (cValues a) \<le> length buf" using assms(1) by (auto simp: tags_ok_def)
  let ?n = "unat (cValues a)"
  have n: "unat (cValues a + 1) = ?n + 1" "unat (cValues a + 1 + 1) = ?n + 2" using assms(2) by (simp_all add: unat_word_ariths)
  let ?r = "realloc_tags (cValues a + 1 + 1) buf"
  have len: "length ?r = ?n + 2" using n by (simp add: realloc_tags_def)
  have tk: "take ?n ?r = take ?n buf" using n buf(2) by (simp add: realloc_tags_def)
  have "SPropTagArray_add a t = Ok (MAPI_E_SUCCESS, \<lparr>cValues = cValues a + 1, aulPropTag = Some (?r[?n := t, Suc ?n := 0])\<rparr>)"
    using buf(1) n len by (simp add: SPropTagArray_add_def wr_def)
  moreover have "take (Suc ?n) (?r[?n := t, Suc ?n := 0]) = take ?n buf @ [t]"
    using len tk by (simp add: take_Suc_conv_app_nth)
  ultimately show ?thesis using n len buf by (simp add: tags_ok_def tags_def)
qed

text \<open>The state of the deletion loop: the elements kept so far, the gap, the elements to come.\<close>

lemma tag_delete_loop_eq:
  "\<exists>rest. tag_delete_loop t (length ys) (length kept + length gap) (length gap) (kept @ gap @ ys @ zs) =
     Ok (length gap + length (filter (\<lambda>y. y = t) ys), kept @ filter (\<lambda>y. y \<noteq> t) ys @ rest @ zs) \<and>
       length rest = length gap + length (filter (\<lambda>y. y = t) ys)"
proof (induction ys arbitrary: kept gap)
  case Nil
  then show ?case by auto
next
  case (Cons y ys)
  have r: "rd (kept @ gap @ (y # ys) @ zs) (length kept + length gap) = Ok y" by (simp add: rd_def nth_append)
  show ?case
  proof (cases "y = t")
    case True
    with r Cons.IH [of kept "gap @ [y]"] show ?thesis by simp
  next
    case y: False
    show ?thesis
    proof (cases gap)
      case Nil
      with r y Cons.IH [of "kept @ [y]" "[]"] show ?thesis by simp
    next
      case (Cons g gs)
      with r y Cons.IH [of "kept @ [y]" "gs @ [y]"] show ?thesis by (simp add: wr_def list_update_append)
    qed
  qed
qed

lemma length_filter_split: "length (filter P xs) + length (filter (\<lambda>x. \<not> P x) xs) = length xs"
  by (rule sum_length_filter_compl)

lemma SPropTagArray_delete_tags:
  assumes "tags_ok a" and "tags a \<noteq> []" and "unat (cValues a) < 2 ^ 32 - 1"
  shows "\<exists>a'. SPropTagArray_delete a t = Ok (MAPI_E_SUCCESS, a') \<and> tags_ok a' \<and> tags a' = filter (\<lambda>x. x \<noteq> t) (tags a)"
proof -
  obtain buf where buf: "aulPropTag a = Some buf" "unat (cValues a) \<le> length buf" using assms(1) by (auto simp: tags_ok_def)
  let ?ys = "take (unat (cValues a)) buf" and ?zs = "drop (unat (cValues a)) buf"
  let ?eq = "filter (\<lambda>y. y = t) ?ys" and ?ne = "filter (\<lambda>y. y \<noteq> t) ?ys"
  have len: "length ?ys = unat (cValues a)" using buf(2) by simp
  have t: "tags a = ?ys" using buf(1) by (simp add: tags_def)
  have c0: "cValues a \<noteq> 0" using assms(2) t by auto
  obtain rest where lp: "tag_delete_loop t (unat (cValues a)) 0 0 buf = Ok (length ?eq, ?ne @ rest @ ?zs)" "length rest = length ?eq"
    using tag_delete_loop_eq [of t ?ys "[]" "[]" ?zs] len by auto
  have sum: "length ?eq + length ?ne = unat (cValues a)" using sum_length_filter_compl [of "\<lambda>y. y = t" ?ys] len by simp
  have lt: "unat (cValues a) < 2 ^ 32" using unsigned_less [of "cValues a", where 'a = nat] by simp
  let ?n = "cValues a - of_nat (length ?eq)"
  have n: "unat ?n = length ?ne"
  proof -
    have "(of_nat (length ?eq) :: u32) \<le> cValues a" using sum lt by (simp add: word_le_nat_alt unat_of_nat)
    then show ?thesis using sum lt by (simp add: unat_sub unat_of_nat)
  qed
  let ?r = "realloc_tags (?n + 1) (?ne @ rest @ ?zs)"
  have n1: "unat (?n + 1) = length ?ne + 1" using n sum assms(3) by (simp add: unat_word_ariths)
  have lr: "length ?ne < length ?r" unfolding realloc_tags_def n1 by auto
  have tk: "take (length ?ne) ?r = ?ne" unfolding realloc_tags_def n1 by simp
  have "SPropTagArray_delete a t = Ok (MAPI_E_SUCCESS, \<lparr>cValues = ?n, aulPropTag = Some (?r[length ?ne := 0])\<rparr>)"
    using c0 buf(1) lp(1) n lr by (simp add: SPropTagArray_delete_def wr_def Let_def)
  then show ?thesis using n t lr tk by (simp add: tags_ok_def tags_def)
qed

text \<open>The first position of a tag.\<close>

lemma tag_find_loop_eq:
  "tag_find_loop t (length ys) (length xs) (xs @ ys @ zs) =
     Ok (if t \<in> set ys then Some (length xs + length (takeWhile (\<lambda>y. y \<noteq> t) ys)) else None)"
proof (induction ys arbitrary: xs)
  case (Cons y ys)
  have r: "rd (xs @ (y # ys) @ zs) (length xs) = Ok y" by (simp add: rd_def nth_append)
  with Cons.IH [of "xs @ [y]"] show ?case by auto
qed simp

lemma SPropTagArray_find_tags:
  assumes "tags_ok a"
  shows "SPropTagArray_find a t =
    Ok (if t \<in> set (tags a) then (MAPI_E_SUCCESS, Some (length (takeWhile (\<lambda>y. y \<noteq> t) (tags a)))) else (MAPI_E_NOT_FOUND, None))"
proof -
  obtain buf where buf: "aulPropTag a = Some buf" "unat (cValues a) \<le> length buf" using assms(1) by (auto simp: tags_ok_def)
  let ?ys = "take (unat (cValues a)) buf" and ?zs = "drop (unat (cValues a)) buf"
  have t: "tags a = ?ys" using buf(1) by (simp add: tags_def)
  have "tag_find_loop t (unat (cValues a)) 0 buf = Ok (if t \<in> set ?ys then Some (length (takeWhile (\<lambda>y. y \<noteq> t) ?ys)) else None)"
    using tag_find_loop_eq [of t ?ys "[]" ?zs] buf(2) by (simp add: min_absorb2)
  then show ?thesis using buf(1) t by (simp add: SPropTagArray_find_def)
qed

section \<open>The contract of a tag array\<close>

text \<open>What the callers rely on, for any representation with these operations.\<close>

locale tag_array =
  fixes view :: "'a \<Rightarrow> u32 list" and ok :: "'a \<Rightarrow> bool" and room :: "'a \<Rightarrow> bool"
    and add_tag :: "'a \<Rightarrow> u32 \<Rightarrow> (MAPISTATUS \<times> 'a) outcome"
    and delete_tag :: "'a \<Rightarrow> u32 \<Rightarrow> (MAPISTATUS \<times> 'a) outcome"
    and find_tag :: "'a \<Rightarrow> u32 \<Rightarrow> (MAPISTATUS \<times> nat option) outcome"
  assumes add_law: "ok a \<Longrightarrow> room a \<Longrightarrow> \<exists>a'. add_tag a t = Ok (MAPI_E_SUCCESS, a') \<and> ok a' \<and> view a' = view a @ [t]"
    and delete_law: "ok a \<Longrightarrow> room a \<Longrightarrow> view a \<noteq> [] \<Longrightarrow>
      \<exists>a'. delete_tag a t = Ok (MAPI_E_SUCCESS, a') \<and> ok a' \<and> view a' = filter (\<lambda>x. x \<noteq> t) (view a)"
    and find_law: "ok a \<Longrightarrow> find_tag a t =
      Ok (if t \<in> set (view a) then (MAPI_E_SUCCESS, Some (length (takeWhile (\<lambda>y. y \<noteq> t) (view a)))) else (MAPI_E_NOT_FOUND, None))"
begin

lemma add_found:
  assumes "ok a" and "room a"
  shows "\<exists>a' i. add_tag a t = Ok (MAPI_E_SUCCESS, a') \<and> ok a' \<and> view a' = view a @ [t] \<and>
    find_tag a' t = Ok (MAPI_E_SUCCESS, Some i) \<and> i \<le> length (view a)"
proof -
  from add_law [OF assms, of t] obtain a' where a': "add_tag a t = Ok (MAPI_E_SUCCESS, a')" "ok a'" "view a' = view a @ [t]" by blast
  have "length (takeWhile (\<lambda>y. y \<noteq> t) (view a @ [t])) \<le> length (view a)"
    by (cases "t \<in> set (view a)") (auto simp: takeWhile_append length_takeWhile_le)
  with a' find_law [OF a'(2), of t] show ?thesis by auto
qed

lemma delete_gone:
  assumes "ok a" and "room a" and "view a \<noteq> []"
  shows "\<exists>a'. delete_tag a t = Ok (MAPI_E_SUCCESS, a') \<and> ok a' \<and> view a' = filter (\<lambda>x. x \<noteq> t) (view a) \<and>
    find_tag a' t = Ok (MAPI_E_NOT_FOUND, None)"
proof -
  from delete_law [OF assms, of t] obtain a' where
    a': "delete_tag a t = Ok (MAPI_E_SUCCESS, a')" "ok a'" "view a' = filter (\<lambda>x. x \<noteq> t) (view a)" by blast
  with find_law [OF a'(2), of t] show ?thesis by auto
qed

end

interpretation prop_tags: tag_array tags tags_ok "\<lambda>a. unat (cValues a) < 2 ^ 32 - 2" SPropTagArray_add SPropTagArray_delete SPropTagArray_find
  using SPropTagArray_add_tags SPropTagArray_delete_tags SPropTagArray_find_tags by unfold_locales auto

text \<open>A counted tag array behaves as a list: adding appends the tag, and it is then found; deleting from a
  non-empty array removes every occurrence and nothing else, and the tag is then not found.\<close>

theorem SPropTagArray_refines:
  assumes "tags_ok a" and "unat (cValues a) < 2 ^ 32 - 2"
  shows "(\<exists>a' i. SPropTagArray_add a t = Ok (MAPI_E_SUCCESS, a') \<and> tags_ok a' \<and> tags a' = tags a @ [t] \<and>
      SPropTagArray_find a' t = Ok (MAPI_E_SUCCESS, Some i) \<and> i \<le> length (tags a)) \<and>
    (tags a \<noteq> [] \<longrightarrow> (\<exists>a'. SPropTagArray_delete a t = Ok (MAPI_E_SUCCESS, a') \<and> tags_ok a' \<and>
      tags a' = filter (\<lambda>x. x \<noteq> t) (tags a) \<and> SPropTagArray_find a' t = Ok (MAPI_E_NOT_FOUND, None)))"
  using prop_tags.add_found [OF assms] prop_tags.delete_gone [OF assms] by blast

theorem SPropTagArray_refines_witness:
  "\<exists>a'. SPropTagArray_delete (set_SPropTagArray [5, 7, 5]) 5 = Ok (MAPI_E_SUCCESS, a') \<and> tags a' = [7]"
proof -
  have s: "tags_ok (set_SPropTagArray [5, 7, 5])" "tags (set_SPropTagArray [5, 7, 5]) = [5, 7, 5]"
    using tags_ok_set [of "[5, 7, 5]"] by simp_all
  have c: "unat (cValues (set_SPropTagArray [5, 7, 5])) < 2 ^ 32 - 2" by (simp add: set_SPropTagArray_def)
  from SPropTagArray_refines [OF s(1) c, of 5] s(2) show ?thesis by auto
qed


section \<open>Deletion from zero-terminated arrays\<close>

lemma shift_tags_eq:
  "x \<noteq> 0 \<Longrightarrow> 0 \<notin> set xs \<Longrightarrow> shift_tags (length pre) (pre @ x # xs @ 0 # junk) = Ok (pre @ xs @ 0 # 0 # junk)"
proof (induction xs arbitrary: pre x)
  case Nil
  have "shift_tags (length pre + 1) (pre @ 0 # 0 # junk) = Ok (pre @ 0 # 0 # junk)"
    by (subst shift_tags.simps) (simp add: rd_def nth_append)
  with Nil show ?case by (subst shift_tags.simps) (simp add: rd_def nth_append list_update_append)
next
  case (Cons y ys)
  from Cons.IH [of y "pre @ [y]"] Cons.prems
  have "shift_tags (length pre + 1) (pre @ y # y # ys @ 0 # junk) = Ok (pre @ y # ys @ 0 # 0 # junk)" by simp
  with Cons.prems show ?case by (subst shift_tags.simps) (simp add: rd_def nth_append list_update_append)
qed

text \<open>What the scan keeps: the element behind a deleted one is not looked at.\<close>

fun mt_skip :: "u32 \<Rightarrow> u32 list \<Rightarrow> u32 list" where
  "mt_skip t [] = []"
| "mt_skip t [x] = (if t = x then [] else [x])"
| "mt_skip t (x # y # ys) = (if t = x then y # mt_skip t ys else x # mt_skip t (y # ys))"

lemma mt_skip_length: "length (mt_skip t xs) \<le> length xs"
  by (induction t xs rule: mt_skip.induct) auto

lemma mt_skip_set: "set (mt_skip t xs) \<subseteq> set xs"
  by (induction t xs rule: mt_skip.induct) auto

lemma mt_skip_distinct: "distinct xs \<Longrightarrow> mt_skip t xs = filter (\<lambda>x. x \<noteq> t) xs"
proof (induction t xs rule: mt_skip.induct)
  case (3 t x y ys)
  show ?case
  proof (cases "t = x")
    case True
    with "3.prems" have "filter (\<lambda>x. x \<noteq> t) ys = ys" by (auto simp: filter_id_conv)
    with True 3 show ?thesis by auto
  qed (use 3 in auto)
qed auto

lemma rd_terminator: "rd (pre @ 0 # junk) (length pre) = Ok 0"
  by (simp add: rd_def)

lemma delete_entry_eq:
  "0 \<notin> set xs \<Longrightarrow> \<exists>junk'. delete_entry t (length pre) n (pre @ xs @ 0 # junk) =
     Ok (n - of_nat (length xs - length (mt_skip t xs)), pre @ mt_skip t xs @ 0 # junk')"
proof (induction t xs arbitrary: pre n junk rule: mt_skip.induct)
  case (1 t)
  show ?case by (subst delete_entry.simps) (simp add: rd_terminator)
next
  case (2 t x)
  have stop: "delete_entry t (Suc (length pre)) m (pre @ y # 0 # junk) = Ok (m, pre @ y # 0 # junk)" for m y
    using rd_terminator [of "pre @ [y]" junk] by (subst delete_entry.simps) simp
  have r: "rd (pre @ x # 0 # junk) (length pre) = Ok x" by simp
  show ?case
  proof (cases "t = x")
    case True
    with 2 shift_tags_eq [of x "[]" pre junk] r stop [of "n - 1" 0] show ?thesis
      by (subst delete_entry.simps) simp
  next
    case False
    with 2 r stop [of n x] show ?thesis by (subst delete_entry.simps) auto
  qed
next
  case (3 t x y ys)
  have r: "rd (pre @ x # y # ys @ 0 # junk) (length pre) = Ok x" by simp
  show ?case
  proof (cases "t = x")
    case True
    from "3.IH"(1) [OF True, of "pre @ [y]" "n - 1" "0 # junk"] "3.prems" obtain junk' where
      "delete_entry t (Suc (length pre)) (n - 1) (pre @ y # ys @ 0 # 0 # junk) =
        Ok (n - 1 - of_nat (length ys - length (mt_skip t ys)), pre @ y # mt_skip t ys @ 0 # junk')" by auto
    moreover have "n - 1 - of_nat (length ys - length (mt_skip t ys)) = n - of_nat (Suc (length ys) - length (mt_skip t ys))"
      using mt_skip_length [of t ys] by (simp add: Suc_diff_le)
    ultimately show ?thesis
      using True "3.prems" shift_tags_eq [of x "y # ys" pre junk] r by (subst delete_entry.simps) simp
  next
    case False
    from "3.IH"(2) [OF False, of "pre @ [x]" n junk] "3.prems" r False show ?thesis
      by (subst delete_entry.simps) simp
  qed
qed

lemma MAPITAGS_delete_eq:
  "0 \<notin> set xs \<Longrightarrow> \<exists>junk'. MAPITAGS_delete_entries (xs @ 0 # junk) n ts =
     Ok (n - of_nat (length xs - length (fold mt_skip ts xs)), fold mt_skip ts xs @ 0 # junk')"
proof (induction ts arbitrary: xs n junk)
  case Nil
  then show ?case by simp
next
  case (Cons t ts)
  let ?ys = "mt_skip t xs"
  from delete_entry_eq [OF Cons.prems, of t "[]" n junk] obtain j1 where
    1: "delete_entry t 0 n (xs @ 0 # junk) = Ok (n - of_nat (length xs - length ?ys), ?ys @ 0 # j1)" by auto
  have "0 \<notin> set ?ys" using Cons.prems mt_skip_set [of t xs] by auto
  from Cons.IH [OF this, of j1 "n - of_nat (length xs - length ?ys)"] obtain j2 where
    2: "MAPITAGS_delete_entries (?ys @ 0 # j1) (n - of_nat (length xs - length ?ys)) ts =
      Ok (n - of_nat (length xs - length ?ys) - of_nat (length ?ys - length (fold mt_skip ts ?ys)), fold mt_skip ts ?ys @ 0 # j2)" by auto
  have l: "length (fold mt_skip ts zs) \<le> length zs" for zs
    by (induction ts arbitrary: zs) (auto intro: order.trans mt_skip_length)
  have "length xs - length ?ys + (length ?ys - length (fold mt_skip ts ?ys)) = length xs - length (fold mt_skip ts ?ys)"
    using mt_skip_length [of t xs] l [of ?ys] by simp
  then have "n - of_nat (length xs - length ?ys) - of_nat (length ?ys - length (fold mt_skip ts ?ys)) =
      n - of_nat (length xs - length (fold mt_skip ts ?ys))" by (simp only: diff_diff_eq of_nat_add [symmetric])
  with 1 2 show ?case by auto
qed

lemma fold_mt_skip_distinct: "distinct xs \<Longrightarrow> fold mt_skip ts xs = filter (\<lambda>x. x \<notin> set ts) xs"
proof (induction ts arbitrary: xs)
  case (Cons t ts)
  then show ?case by (simp add: mt_skip_distinct conj_commute)
qed simp

text \<open>Deleting tags from a zero-terminated array ends, stays inside the array and takes the number of
  deleted entries from the count. The entry behind a deleted one is never looked at: the result is
  right for arrays without repeated tags, but of two adjacent entries with the same tag one is left.\<close>

theorem MAPITAGS_delete_entries_result:
  assumes "0 \<notin> set xs"
  shows "(\<exists>junk'. MAPITAGS_delete_entries (xs @ 0 # junk) n ts =
      Ok (n - of_nat (length xs - length (fold mt_skip ts xs)), fold mt_skip ts xs @ 0 # junk')) \<and>
    (distinct xs \<longrightarrow> fold mt_skip ts xs = filter (\<lambda>x. x \<notin> set ts) xs) \<and>
    mt_skip t (t # t # ys) = t # mt_skip t ys"
  using MAPITAGS_delete_eq [OF assms] fold_mt_skip_distinct by simp

theorem MAPITAGS_delete_entries_result_witness:
  "\<exists>junk'. MAPITAGS_delete_entries ([3, 3, 4] @ 0 # []) 3 [3] = Ok (2, [3, 4] @ 0 # junk')"
proof -
  have "0 \<notin> set [3, 3, 4 :: u32]" by simp
  from MAPITAGS_delete_entries_result [OF this, of "[]" 3 "[3]"] show ?thesis by simp
qed

end
