(* ===== verification/Property_Values.thy ===== *)
theory Property_Values
  imports Mapi_Prop
begin

unbundle bit_operations_syntax

text \<open>
  Property values in \<^verbatim>\<open>src/libmapi/property.c\<close>: reading and setting the value of a \<^verbatim>\<open>struct SPropValue\<close> or
  \<^verbatim>\<open>struct PropertyValue_r\<close> through untyped pointers, rows of properties, the conversions between the two forms
  of a property and their sizes. A property is well typed when the union holds the member that its
  type selects. A read of another member is \<open>Fault\<close>. Allocation succeeds.
\<close>

section \<open>Values through untyped pointers\<close>

record SPropValue =
  ulPropTag :: u32
  pvalue :: prop_value

type_synonym SRow = "SPropValue list"
type_synonym SRowSet = "SRow list"

definition well_typed :: "SPropValue \<Rightarrow> bool" where
  "well_typed p \<longleftrightarrow> fits (prop_type (ulPropTag p)) (pvalue p)"

text \<open>A \<^verbatim>\<open>const void *\<close>: null, the member of a union (the string or GUID pointer itself for these types),
  or the address of the union itself.\<close>

datatype prop_ptr = PNull | PMember prop_value | PUnion prop_value

definition value_ptr :: "prop_value \<Rightarrow> prop_ptr" where
  "value_ptr v = (if v = VNullPtr then PNull else PMember v)"

text \<open>The types the switches of the getters and setters have a case for.\<close>

definition SPropValue_get_types :: "u32 list" where
  "SPropValue_get_types = [PT_SHORT, PT_BOOLEAN, PT_I8, PT_STRING8, PT_UNICODE, PT_SYSTIME, PT_ERROR, PT_LONG,
     PT_DOUBLE, PT_CLSID, PT_BINARY, PT_SVREID, PT_OBJECT, PT_MV_SHORT, PT_MV_LONG, PT_MV_STRING8,
     PT_MV_UNICODE, PT_MV_BINARY, PT_MV_SYSTIME, PT_NULL]"

definition SPropValue_set_types :: "u32 list" where
  "SPropValue_set_types = [PT_SHORT, PT_LONG, PT_DOUBLE, PT_I8, PT_BOOLEAN, PT_STRING8, PT_BINARY, PT_SVREID,
     PT_UNICODE, PT_CLSID, PT_SYSTIME, PT_ERROR, PT_MV_SHORT, PT_MV_LONG, PT_MV_STRING8, PT_MV_BINARY,
     PT_MV_CLSID, PT_MV_UNICODE, PT_MV_SYSTIME, PT_NULL, PT_OBJECT]"

definition PropertyValue_get_types :: "u32 list" where
  "PropertyValue_get_types = [PT_SHORT, PT_BOOLEAN, PT_STRING8, PT_UNICODE, PT_SYSTIME, PT_ERROR, PT_LONG,
     PT_CLSID, PT_BINARY, PT_SVREID, PT_MV_SHORT, PT_MV_LONG, PT_MV_STRING8, PT_MV_UNICODE, PT_MV_BINARY,
     PT_MV_SYSTIME, PT_NULL]"

definition PropertyValue_set_types :: "u32 list" where
  "PropertyValue_set_types = [PT_SHORT, PT_BOOLEAN, PT_LONG, PT_STRING8, PT_BINARY, PT_SVREID, PT_UNICODE,
     PT_CLSID, PT_SYSTIME, PT_ERROR, PT_MV_SHORT, PT_MV_LONG, PT_MV_STRING8, PT_MV_BINARY, PT_MV_CLSID,
     PT_MV_UNICODE, PT_MV_SYSTIME, PT_NULL]"

definition get_data :: "u32 list \<Rightarrow> SPropValue \<Rightarrow> prop_ptr" where
  "get_data types p =
     (if ulPropTag p = 0 then PNull
      else if prop_type (ulPropTag p) \<in> set types then value_ptr (pvalue p)
      else PNull)"

definition get_SPropValue_data :: "SPropValue \<Rightarrow> prop_ptr" where
  "get_SPropValue_data = get_data SPropValue_get_types"

definition get_PropertyValue_data :: "SPropValue \<Rightarrow> prop_ptr" where
  "get_PropertyValue_data = get_data PropertyValue_get_types"

definition error_prop :: "u32 \<Rightarrow> SPropValue" where
  "error_prop tag = \<lparr>ulPropTag = prop_id tag OR PT_ERROR, pvalue = VError 0x8004010F\<rparr>"

text \<open>The setters copy what the pointer leads to as the member that the tag names. They cannot check that it is one: where the caller
  passes a pointer to something else, an object of another type is read, which is \<open>Fault\<close> here. Callers are shown to pass the
  member. Strings and GUIDs are stored as pointers: the address of the union of a parameter becomes a
  pointer into the stack of a call that ends.\<close>

definition set_data :: "u32 list \<Rightarrow> u32 \<Rightarrow> prop_ptr \<Rightarrow> (bool \<times> SPropValue) outcome" where
  "set_data types tag d =
     (case d of
        PNull \<Rightarrow> Ok (False, error_prop tag)
      | PMember v \<Rightarrow>
          (if prop_type tag \<notin> set types then Ok (False, error_prop tag)
           else if fits (prop_type tag) v then Ok (True, \<lparr>ulPropTag = tag, pvalue = v\<rparr>) else Fault)
      | PUnion v \<Rightarrow>
          (if prop_type tag \<notin> set types then Ok (False, error_prop tag)
           else if prop_type tag \<in> {PT_STRING8, PT_UNICODE, PT_CLSID} then
             Ok (True, \<lparr>ulPropTag = tag, pvalue = VDangling\<rparr>)
           else if fits (prop_type tag) v then Ok (True, \<lparr>ulPropTag = tag, pvalue = v\<rparr>) else Fault))"

definition set_SPropValue :: "u32 \<Rightarrow> prop_ptr \<Rightarrow> (bool \<times> SPropValue) outcome" where
  "set_SPropValue = set_data SPropValue_set_types"

definition set_PropertyValue :: "u32 \<Rightarrow> prop_ptr \<Rightarrow> (bool \<times> SPropValue) outcome" where
  "set_PropertyValue = set_data PropertyValue_set_types"

definition add_SPropValue :: "SRow \<Rightarrow> u32 \<Rightarrow> prop_ptr \<Rightarrow> SRow outcome" where
  "add_SPropValue props tag d = obind (set_SPropValue tag d) (\<lambda>(_, p). Ok (props @ [p]))"

section \<open>Rows\<close>

text \<open>\<open>get_SPropValue\<close> reads an array that ends with a zero tag.\<close>

fun get_value_scan :: "(SPropValue \<Rightarrow> prop_ptr) \<Rightarrow> SPropValue list \<Rightarrow> u32 \<Rightarrow> prop_ptr outcome" where
  "get_value_scan get [] tag = Fault"
| "get_value_scan get (p # ps) tag =
     (if ulPropTag p = 0 then Ok PNull
      else if tag = ulPropTag p then Ok (get p)
      else get_value_scan get ps tag)"

definition get_SPropValue :: "SPropValue list option \<Rightarrow> u32 \<Rightarrow> prop_ptr outcome" where
  "get_SPropValue lpProps tag =
     (case lpProps of None \<Rightarrow> Ok PNull | Some ps \<Rightarrow> get_value_scan get_SPropValue_data ps tag)"

definition get_PropertyValue :: "SPropValue list option \<Rightarrow> u32 \<Rightarrow> prop_ptr outcome" where
  "get_PropertyValue lpProps tag =
     (case lpProps of None \<Rightarrow> Ok PNull | Some ps \<Rightarrow> get_value_scan get_PropertyValue_data ps tag)"

text \<open>A pointer to an element of a row is the part of the row that starts with it.\<close>

definition get_SPropValue_SRow :: "SRow \<Rightarrow> u32 \<Rightarrow> SPropValue list option" where
  "get_SPropValue_SRow aRow tag =
     (case dropWhile (\<lambda>p. ulPropTag p \<noteq> tag) aRow of [] \<Rightarrow> None | p # ps \<Rightarrow> Some (p # ps))"

definition get_SPropValue_SRow_data :: "SRow \<Rightarrow> u32 \<Rightarrow> prop_ptr outcome" where
  "get_SPropValue_SRow_data aRow tag = get_SPropValue (get_SPropValue_SRow aRow tag) tag"

fun get_SPropValue_SRowSet :: "SRowSet \<Rightarrow> u32 \<Rightarrow> SPropValue list option" where
  "get_SPropValue_SRowSet [] tag = None"
| "get_SPropValue_SRowSet (r # rs) tag =
     (case get_SPropValue_SRow r tag of Some ps \<Rightarrow> Some ps | None \<Rightarrow> get_SPropValue_SRowSet rs tag)"

definition get_SPropValue_SRowSet_data :: "SRowSet \<Rightarrow> u32 \<Rightarrow> prop_ptr outcome" where
  "get_SPropValue_SRowSet_data rows tag = get_SPropValue (get_SPropValue_SRowSet rows tag) tag"

definition find_data :: "(SPropValue \<Rightarrow> prop_ptr) \<Rightarrow> SRow \<Rightarrow> u32 \<Rightarrow> prop_ptr" where
  "find_data get aRow tag =
     (case find (\<lambda>p. ulPropTag p = tag) aRow of Some p \<Rightarrow> get p | None \<Rightarrow> PNull)"

definition find_SPropValue_data :: "SRow \<Rightarrow> u32 \<Rightarrow> prop_ptr" where
  "find_SPropValue_data = find_data get_SPropValue_data"

definition find_PropertyValue_data :: "SRow \<Rightarrow> u32 \<Rightarrow> prop_ptr" where
  "find_PropertyValue_data = find_data get_PropertyValue_data"

fun set_default_error_SPropValue_SRow :: "SRow \<Rightarrow> u32 \<Rightarrow> prop_ptr \<Rightarrow> (MAPISTATUS \<times> SRow) outcome" where
  "set_default_error_SPropValue_SRow [] tag d = Ok (MAPI_E_NOT_FOUND, [])"
| "set_default_error_SPropValue_SRow (p # ps) tag d =
     (if prop_id tag = prop_id (ulPropTag p) \<and> prop_type (ulPropTag p) = PT_ERROR then
        obind (set_SPropValue tag d) (\<lambda>(_, q). Ok (MAPI_E_SUCCESS, q # ps))
      else obind (set_default_error_SPropValue_SRow ps tag d) (\<lambda>(ms, qs). Ok (ms, p # qs)))"

definition get_MAPITAGS_SRow :: "SRow \<Rightarrow> u32 list \<times> u32" where
  "get_MAPITAGS_SRow aRow =
     (let ts = filter (\<lambda>t. prop_type t \<noteq> PT_ERROR) (map ulPropTag aRow) in (ts @ [0], of_nat (length ts)))"

fun overwrite :: "SRow \<Rightarrow> SPropValue \<Rightarrow> SRow" where
  "overwrite [] p = []"
| "overwrite (q # qs) p = (if ulPropTag q = ulPropTag p then p # qs else q # overwrite qs p)"

definition addprop ::
  "(u32 \<Rightarrow> prop_ptr \<Rightarrow> (bool \<times> SPropValue) outcome) \<Rightarrow> (SPropValue \<Rightarrow> prop_ptr) \<Rightarrow> SRow \<Rightarrow> SPropValue \<Rightarrow> (MAPISTATUS \<times> SRow) outcome" where
  "addprop setv getv aRow p =
     (if list_ex (\<lambda>q. ulPropTag q = ulPropTag p) aRow then Ok (MAPI_E_SUCCESS, overwrite aRow p)
      else obind (setv (ulPropTag p) (getv p)) (\<lambda>(_, q). Ok (MAPI_E_SUCCESS, aRow @ [q])))"

definition SRow_addprop :: "SRow \<Rightarrow> SPropValue \<Rightarrow> (MAPISTATUS \<times> SRow) outcome" where
  "SRow_addprop = addprop set_SPropValue get_SPropValue_data"

definition PropertyRow_addprop :: "SRow \<Rightarrow> SPropValue \<Rightarrow> (MAPISTATUS \<times> SRow) outcome" where
  "PropertyRow_addprop = addprop set_PropertyValue get_PropertyValue_data"

fun propcpy :: "(u32 \<Rightarrow> prop_ptr \<Rightarrow> (bool \<times> SPropValue) outcome) \<Rightarrow> SRowSet \<Rightarrow> SPropValue \<Rightarrow> SRowSet outcome" where
  "propcpy setv [] p = Ok []"
| "propcpy setv (r # rs) p =
     obind (setv (ulPropTag p) (PUnion (pvalue p))) (\<lambda>(_, q).
     obind (propcpy setv rs p) (\<lambda>rs'. Ok ((r @ [q]) # rs')))"

definition SRowSet_propcpy :: "SRowSet \<Rightarrow> SPropValue \<Rightarrow> SRowSet outcome" where
  "SRowSet_propcpy = propcpy set_SPropValue"

definition PropertyRowSet_propcpy :: "SRowSet \<Rightarrow> SPropValue \<Rightarrow> SRowSet outcome" where
  "PropertyRowSet_propcpy = propcpy set_PropertyValue"

text \<open>Copying duplicates what a value points to; a multi-value type without a case panics.\<close>

fun mapi_copy_spropvalues :: "SPropValue list \<Rightarrow> SPropValue list outcome" where
  "mapi_copy_spropvalues [] = Ok []"
| "mapi_copy_spropvalues (p # ps) =
     (let t = prop_type (ulPropTag p) in
      if t \<notin> {PT_STRING8, PT_UNICODE, PT_CLSID, PT_SVREID, PT_BINARY, PT_MV_LONG, PT_MV_STRING8, PT_MV_UNICODE, PT_MV_BINARY}
         \<and> t AND MV_FLAG \<noteq> 0 then Abort
      else obind (mapi_copy_spropvalues ps) (\<lambda>qs. Ok (p # qs)))"

text \<open>The conversion of NSPI properties shares pointers; a type without a case aborts.\<close>

definition cast_PropertyValue_to_SPropValue :: "SPropValue \<Rightarrow> SPropValue outcome" where
  "cast_PropertyValue_to_SPropValue p =
     (if prop_type (ulPropTag p) \<in> {PT_BOOLEAN, PT_SHORT, PT_LONG, PT_STRING8, PT_UNICODE, PT_SYSTIME, PT_CLSID,
        PT_SVREID, PT_BINARY, PT_ERROR, PT_MV_LONG, PT_MV_STRING8, PT_MV_UNICODE, PT_MV_CLSID, PT_MV_BINARY}
      then Ok p else Abort)"

fun cast_PropertyRow_to_SRow :: "SRow \<Rightarrow> SRow outcome" where
  "cast_PropertyRow_to_SRow [] = Ok []"
| "cast_PropertyRow_to_SRow (p # ps) =
     obind (cast_PropertyValue_to_SPropValue p) (\<lambda>q. obind (cast_PropertyRow_to_SRow ps) (\<lambda>qs. Ok (q # qs)))"

fun cast_PropertyRowSet_to_SRowSet :: "SRowSet \<Rightarrow> SRowSet outcome" where
  "cast_PropertyRowSet_to_SRowSet [] = Ok []"
| "cast_PropertyRowSet_to_SRowSet (r # rs) =
     obind (cast_PropertyRow_to_SRow r) (\<lambda>q. obind (cast_PropertyRowSet_to_SRowSet rs) (\<lambda>qs. Ok (q # qs)))"

section \<open>The length of a converted string\<close>

text \<open>\<open>None\<close> is the error result -1. The string is given without its terminating zero.\<close>

definition cont_byte :: "u8 \<Rightarrow> bool" where
  "cont_byte c \<longleftrightarrow> c AND 0xc0 = 0x80"

definition codepoint4 :: "u8 \<Rightarrow> u8 \<Rightarrow> u8 \<Rightarrow> u8 \<Rightarrow> u32" where
  "codepoint4 c0 c1 c2 c3 =
     ucast (c3 AND 0x3f) OR push_bit 6 (ucast (c2 AND 0x3f)) OR push_bit 12 (ucast (c1 AND 0x3f))
       OR push_bit 18 (ucast (c0 AND 0x7))"

function conv_loop :: "u8 list \<Rightarrow> nat \<Rightarrow> nat option" where
  "conv_loop cs out_left =
     (if 1 \<le> length cs \<and> 2 \<le> out_left then
        (if cs ! 0 AND 0x80 = 0 then conv_loop (drop 1 cs) (out_left - 2)
         else if cs ! 0 AND 0xe0 = 0xc0 then
           (if length cs < 2 \<or> \<not> cont_byte (cs ! 1) then None else conv_loop (drop 2 cs) (out_left - 2))
         else if cs ! 0 AND 0xf0 = 0xe0 then
           (if length cs < 3 \<or> \<not> cont_byte (cs ! 1) \<or> \<not> cont_byte (cs ! 2) then None
            else conv_loop (drop 3 cs) (out_left - 2))
         else if cs ! 0 AND 0xf8 = 0xf0 then
           (if length cs < 4 \<or> \<not> cont_byte (cs ! 1) \<or> \<not> cont_byte (cs ! 2) \<or> \<not> cont_byte (cs ! 3) then None
            else if codepoint4 (cs ! 0) (cs ! 1) (cs ! 2) (cs ! 3) < 0x10000 then conv_loop (drop 4 cs) (out_left - 2)
            else if out_left < 4 then None
            else conv_loop (drop 4 cs) (out_left - 4))
         else None)
      else if length cs > 0 then None
      else Some out_left)"
  by pat_completeness auto
termination by (relation "measure (\<lambda>(cs, n). length cs)") auto

declare conv_loop.simps [simp del]

definition get_utf8_utf16_conv_length :: "u8 list \<Rightarrow> nat option" where
  "get_utf8_utf16_conv_length s =
     map_option (\<lambda>out_left. 3 * length s + 2 - out_left) (conv_loop s (3 * length s))"

section \<open>The two forms of a property\<close>

text \<open>\<^verbatim>\<open>struct mapi_SPropValue\<close> counts the bytes of a binary with 16 bits and holds GUIDs as structures.\<close>

datatype 'g mapi_value =
    MBoolean u8 | MShort u16 | MLong u32 | MDouble u64 | MI8 u64 | MString8 "u8 list" | MUnicode "u8 list"
  | MSysTime "u32 \<times> u32" | MBinary "u16 \<times> u8 list" | MError u32 | MGuid 'g
  | MMVString8 "u8 list list" | MMVUnicode "u8 list list" | MMVBinary "(u16 \<times> u8 list) list"
  | MMVLong "u32 list" | MMVGuid "'g list" | MNullPtr

record 'g guid_lib =
  GUID_from_ndr_blob :: "u8 list \<Rightarrow> 'g"
  GUID_to_ndr_blob :: "'g \<Rightarrow> u8 list"

definition utf16_size :: "u8 list \<Rightarrow> u32" where
  "utf16_size s = (case get_utf8_utf16_conv_length s of Some n \<Rightarrow> of_nat n | None \<Rightarrow> -1)"

definition short_binary :: "u8 list \<Rightarrow> u16 \<times> u8 list" where
  "short_binary bs = (of_nat (length bs), bs)"

text \<open>The result is the size and the converted property; types without a case abort.\<close>

definition cast_mapi_SPropValue :: "'g guid_lib \<Rightarrow> SPropValue \<Rightarrow> (u32 \<times> u32 \<times> 'g mapi_value) outcome" where
  "cast_mapi_SPropValue G p =
     (let tag = ulPropTag p; t = prop_type tag; ret = (\<lambda>n v. Ok (n, tag, v)) in
      case pvalue p of
        VBoolean b \<Rightarrow> if t = PT_BOOLEAN then ret 1 (MBoolean b) else Fault
      | VShort i \<Rightarrow> if t = PT_SHORT then ret 2 (MShort i) else Fault
      | VLong l \<Rightarrow> if t = PT_LONG then ret 4 (MLong l) else Fault
      | VDouble x \<Rightarrow> if t = PT_DOUBLE then ret 8 (MDouble x) else Fault
      | VI8 d \<Rightarrow> if t = PT_I8 then ret 8 (MI8 d) else Fault
      | VString8 s \<Rightarrow> if t = PT_STRING8 then ret (of_nat (length s) + 1) (MString8 s) else Fault
      | VUnicode s \<Rightarrow> if t = PT_UNICODE then ret (utf16_size s) (MUnicode s) else Fault
      | VSysTime ft \<Rightarrow> if t = PT_SYSTIME then ret 8 (MSysTime ft) else Fault
      | VBinary bs \<Rightarrow>
          if t = PT_BINARY \<or> t = PT_SVREID then
            ret (ucast (fst (short_binary bs)) + 2) (MBinary (short_binary bs)) else Fault
      | VError e \<Rightarrow> if t = PT_ERROR then ret 4 (MError e) else Fault
      | VClsid bs \<Rightarrow> if t = PT_CLSID then ret 16 (MGuid (GUID_from_ndr_blob G bs)) else Fault
      | VMVString8 ss \<Rightarrow>
          if t = PT_MV_STRING8 then ret (4 + sum_list (map (\<lambda>s. of_nat (length s) + 1) ss)) (MMVString8 ss) else Fault
      | VMVUnicode ss \<Rightarrow>
          if t = PT_MV_UNICODE then ret (4 + sum_list (map utf16_size ss)) (MMVUnicode ss) else Fault
      | VMVBinary bss \<Rightarrow>
          if t = PT_MV_BINARY then
            ret (4 + sum_list (map (\<lambda>bs. of_nat (length bs) + 2) bss)) (MMVBinary (map short_binary bss)) else Fault
      | VMVLong ls \<Rightarrow> if t = PT_MV_LONG then ret (4 + of_nat (length ls) * 4) (MMVLong ls) else Fault
      | VMVClsid gs \<Rightarrow>
          if t = PT_MV_CLSID then ret (4 + of_nat (length gs) * 16) (MMVGuid (map (GUID_from_ndr_blob G) gs)) else Fault
      | VNullPtr \<Rightarrow> if t = PT_STRING8 \<or> t = PT_UNICODE then ret 0 MNullPtr else Fault
      | VDangling \<Rightarrow> Fault
      | _ \<Rightarrow> Abort)"

definition cast_SPropValue :: "'g guid_lib \<Rightarrow> u32 \<times> 'g mapi_value \<Rightarrow> (u32 \<times> SPropValue) outcome" where
  "cast_SPropValue G m =
     (let tag = fst m; t = prop_type tag; ret = (\<lambda>n v. Ok (n, \<lparr>ulPropTag = tag, pvalue = v\<rparr>)) in
      case snd m of
        MBoolean b \<Rightarrow> if t = PT_BOOLEAN then ret 1 (VBoolean b) else Fault
      | MShort i \<Rightarrow> if t = PT_SHORT then ret 2 (VShort i) else Fault
      | MLong l \<Rightarrow> if t = PT_LONG then ret 4 (VLong l) else Fault
      | MDouble x \<Rightarrow> if t = PT_DOUBLE then ret 8 (VDouble x) else Fault
      | MI8 d \<Rightarrow> if t = PT_I8 then ret 8 (VI8 d) else Fault
      | MString8 s \<Rightarrow> if t = PT_STRING8 then ret (of_nat (length s) + 1) (VString8 s) else Fault
      | MUnicode s \<Rightarrow> if t = PT_UNICODE then ret (utf16_size s) (VUnicode s) else Fault
      | MSysTime ft \<Rightarrow> if t = PT_SYSTIME then ret 8 (VSysTime ft) else Fault
      | MBinary (cb, bs) \<Rightarrow>
          if t = PT_BINARY \<or> t = PT_SVREID then ret (ucast cb + 2) (VBinary (take (unat cb) bs)) else Fault
      | MError e \<Rightarrow> if t = PT_ERROR then ret 4 (VError e) else Fault
      | MGuid g \<Rightarrow> if t = PT_CLSID then ret 16 (VClsid (take 16 (GUID_to_ndr_blob G g))) else Fault
      | MMVString8 ss \<Rightarrow>
          if t = PT_MV_STRING8 then ret (4 + sum_list (map (\<lambda>s. of_nat (length s) + 1) ss)) (VMVString8 ss) else Fault
      | MMVUnicode ss \<Rightarrow>
          if t = PT_MV_UNICODE then ret (4 + sum_list (map utf16_size ss)) (VMVUnicode ss) else Fault
      | MMVBinary bs \<Rightarrow>
          if t = PT_MV_BINARY then
            ret (4 + sum_list (map (\<lambda>(cb, _). 4 + ucast cb) bs)) (VMVBinary (map (\<lambda>(cb, lpb). take (unat cb) lpb) bs)) else Fault
      | MMVLong ls \<Rightarrow> if t = PT_MV_LONG then ret (4 + sum_list (map (\<lambda>_. 4) ls)) (VMVLong ls) else Fault
      | MMVGuid gs \<Rightarrow>
          if t = PT_MV_CLSID then
            ret (4 + sum_list (map (\<lambda>_. 16) gs)) (VMVClsid (map (\<lambda>g. take 16 (GUID_to_ndr_blob G g)) gs)) else Fault
      | MNullPtr \<Rightarrow> if t = PT_STRING8 \<or> t = PT_UNICODE then ret 0 VNullPtr else Fault)"

text \<open>The size of the wire form of a property, by type.\<close>

definition get_mapi_property_size :: "u32 \<times> 'g mapi_value \<Rightarrow> u32 outcome" where
  "get_mapi_property_size m =
     (case snd m of
        MBoolean _ \<Rightarrow> Ok 1 | MShort _ \<Rightarrow> Ok 2 | MLong _ \<Rightarrow> Ok 4 | MError _ \<Rightarrow> Ok 4 | MDouble _ \<Rightarrow> Ok 8 | MI8 _ \<Rightarrow> Ok 8
      | MString8 s \<Rightarrow> Ok (of_nat (length s) + 1) | MUnicode s \<Rightarrow> Ok (utf16_size s) | MSysTime _ \<Rightarrow> Ok 8
      | MBinary (cb, _) \<Rightarrow> Ok (if prop_type (fst m) = PT_BINARY then ucast cb + 2 else 0)
      | MNullPtr \<Rightarrow> if prop_type (fst m) = PT_STRING8 then Fault else Ok 0
      | _ \<Rightarrow> Ok 0)"

end
