(* ===== verification/Property_Casts.thy ===== *)
theory Property_Casts
  imports Property_Values
begin

unbundle bit_operations_syntax

text \<open>
  Rows of properties as maps from tags to values, the conversions between the two forms of a property, and the
  length of converted strings.
\<close>

section \<open>Rows as finite maps\<close>

lemma find_overwrite:
  "find (\<lambda>q. ulPropTag q = t) (overwrite row p) =
     (if t = ulPropTag p \<and> list_ex (\<lambda>q. ulPropTag q = ulPropTag p) row then Some p else find (\<lambda>q. ulPropTag q = t) row)"
  by (induction row) auto

lemma length_overwrite: "length (overwrite row p) = length row"
  by (induction row) auto

lemma find_append: "find P (xs @ ys) = (case find P xs of Some x \<Rightarrow> Some x | None \<Rightarrow> find P ys)"
  by (induction xs) auto

lemma find_none: "\<not> list_ex P xs \<Longrightarrow> find P xs = None"
  by (induction xs) auto

text \<open>A value goes through an untyped pointer unchanged when both switches have a case for its type.\<close>

lemma set_get_data:
  assumes "well_typed p" and "ulPropTag p \<noteq> 0" and "pvalue p \<noteq> VNullPtr"
    and "prop_type (ulPropTag p) \<in> set gts" and "prop_type (ulPropTag p) \<in> set sts"
  shows "set_data sts (ulPropTag p) (get_data gts p) = Ok (True, p)"
  using assms by (simp add: set_data_def get_data_def value_ptr_def well_typed_def)

lemma get_set_types:
  "set SPropValue_set_types = insert PT_MV_CLSID (set SPropValue_get_types)"
  "set PropertyValue_set_types = insert PT_MV_CLSID (set PropertyValue_get_types)"
  by (auto simp: SPropValue_set_types_def SPropValue_get_types_def PropertyValue_set_types_def PropertyValue_get_types_def)

lemma get_types_MV_CLSID: "PT_MV_CLSID \<notin> set SPropValue_get_types" "PT_MV_CLSID \<notin> set PropertyValue_get_types"
  by (simp_all add: SPropValue_get_types_def PropertyValue_get_types_def)

lemma addprop_lookup:
  assumes "well_typed p" and "ulPropTag p \<noteq> 0" and "pvalue p \<noteq> VNullPtr"
    and g: "prop_type (ulPropTag p) \<in> set gts" and s: "prop_type (ulPropTag p) \<in> set sts"
  shows "\<exists>row'. addprop (set_data sts) (get_data gts) row p = Ok (MAPI_E_SUCCESS, row') \<and>
    find_data (get_data gts) row' (ulPropTag p) = PMember (pvalue p) \<and>
    (\<forall>t. t \<noteq> ulPropTag p \<longrightarrow> find_data (get_data gts) row' t = find_data (get_data gts) row t) \<and>
    length row' = (if list_ex (\<lambda>q. ulPropTag q = ulPropTag p) row then length row else Suc (length row))"
proof (cases "list_ex (\<lambda>q. ulPropTag q = ulPropTag p) row")
  case True
  then show ?thesis
    using assms(2,3) g by (simp add: addprop_def find_data_def find_overwrite length_overwrite get_data_def value_ptr_def)
next
  case False
  from set_get_data [OF assms] False have "addprop (set_data sts) (get_data gts) row p = Ok (MAPI_E_SUCCESS, row @ [p])"
    by (simp add: addprop_def)
  then show ?thesis
    using False assms(2,3) g find_none [OF False]
    by (auto simp: find_data_def find_append get_data_def value_ptr_def split: option.splits)
qed

text \<open>Adding a property to a row makes its value the one that is found for its tag, replaces a value the
  row had for that tag, and leaves every other tag alone; for every type that the getter knows.\<close>

theorem SRow_addprop_lookup:
  assumes "well_typed p" and "ulPropTag p \<noteq> 0" and "pvalue p \<noteq> VNullPtr" and "prop_type (ulPropTag p) \<noteq> PT_MV_CLSID"
    and "prop_type (ulPropTag p) \<in> set SPropValue_set_types"
  shows "\<exists>row'. SRow_addprop row p = Ok (MAPI_E_SUCCESS, row') \<and>
    find_SPropValue_data row' (ulPropTag p) = PMember (pvalue p) \<and>
    (\<forall>t. t \<noteq> ulPropTag p \<longrightarrow> find_SPropValue_data row' t = find_SPropValue_data row t) \<and>
    length row' = (if list_ex (\<lambda>q. ulPropTag q = ulPropTag p) row then length row else Suc (length row))"
  unfolding SRow_addprop_def find_SPropValue_data_def set_SPropValue_def get_SPropValue_data_def
  using assms(4,5) by (intro addprop_lookup assms(1-3)) (auto simp: get_set_types)

theorem SRow_addprop_lookup_witness:
  "\<exists>row'. SRow_addprop [\<lparr>ulPropTag = 0x10003, pvalue = VLong 1\<rparr>] \<lparr>ulPropTag = 0x2001f, pvalue = VUnicode [65]\<rparr> = Ok (MAPI_E_SUCCESS, row') \<and>
    find_SPropValue_data row' 0x2001f = PMember (VUnicode [65])"
  using SRow_addprop_lookup [of "\<lparr>ulPropTag = 0x2001f, pvalue = VUnicode [65]\<rparr>" "[\<lparr>ulPropTag = 0x10003, pvalue = VLong 1\<rparr>]"]
  by (auto simp: well_typed_def prop_type_def SPropValue_set_types_def)

text \<open>A \<^verbatim>\<open>PT_MV_CLSID\<close> property is lost when it is added to a row that does not have its tag: the getter has no case
  for the type, so an error property is appended in its place, in both kinds of rows.\<close>

theorem addprop_loses_mv_clsid:
  assumes "prop_type (ulPropTag p) = PT_MV_CLSID" and "\<not> list_ex (\<lambda>q. ulPropTag q = ulPropTag p) row"
  shows "SRow_addprop row p = Ok (MAPI_E_SUCCESS, row @ [error_prop (ulPropTag p)]) \<and>
    PropertyRow_addprop row p = Ok (MAPI_E_SUCCESS, row @ [error_prop (ulPropTag p)])"
  using assms get_types_MV_CLSID
  by (simp add: SRow_addprop_def PropertyRow_addprop_def addprop_def get_SPropValue_data_def get_PropertyValue_data_def
      set_SPropValue_def set_PropertyValue_def get_data_def set_data_def del: obind_eq_Ok_iff)

theorem addprop_loses_mv_clsid_witness:
  "SRow_addprop [] \<lparr>ulPropTag = 0x11048, pvalue = VMVClsid []\<rparr> =
     Ok (MAPI_E_SUCCESS, [\<lparr>ulPropTag = 0x1000A, pvalue = VError 0x8004010F\<rparr>])"
  using addprop_loses_mv_clsid [of "\<lparr>ulPropTag = 0x11048, pvalue = VMVClsid []\<rparr>" "[]"]
  by (simp add: prop_type_def error_prop_def prop_id_def)

lemma propcpy_all:
  "setv (ulPropTag p) (PUnion (pvalue p)) = Ok (b, q) \<Longrightarrow> propcpy setv rows p = Ok (map (\<lambda>r. r @ [q]) rows)"
  by (induction rows) auto

text \<open>\<^verbatim>\<open>SRowSet_propcpy\<close> hands the setter the address of the union of its own parameter. Scalars and arrays
  are appended to every row, but for strings and GUIDs every row gets a pointer into the stack frame
  of the call that has ended.\<close>

theorem SRowSet_propcpy_dangles:
  assumes "well_typed p" and "prop_type (ulPropTag p) \<in> set SPropValue_set_types"
  shows "SRowSet_propcpy rows p =
    Ok (map (\<lambda>r. r @ [\<lparr>ulPropTag = ulPropTag p,
      pvalue = (if prop_type (ulPropTag p) \<in> {PT_STRING8, PT_UNICODE, PT_CLSID} then VDangling else pvalue p)\<rparr>]) rows)"
  unfolding SRowSet_propcpy_def
  using assms by (intro propcpy_all [of _ _ True]) (simp add: set_SPropValue_def set_data_def well_typed_def)

theorem SRowSet_propcpy_dangles_witness:
  "SRowSet_propcpy [[]] \<lparr>ulPropTag = 0x1001e, pvalue = VString8 [65]\<rparr> = Ok [[\<lparr>ulPropTag = 0x1001e, pvalue = VDangling\<rparr>]]"
  using SRowSet_propcpy_dangles [of "\<lparr>ulPropTag = 0x1001e, pvalue = VString8 [65]\<rparr>" "[[]]"]
  by (simp add: well_typed_def prop_type_def SPropValue_set_types_def)

section \<open>Conversions\<close>

text \<open>What the 16-bit counts leave of the binaries of a property.\<close>

definition cut16 :: "u8 list \<Rightarrow> u8 list" where
  "cut16 bs = take (length bs mod 65536) bs"

definition cut_binaries :: "prop_value \<Rightarrow> prop_value" where
  "cut_binaries v = (case v of VBinary bs \<Rightarrow> VBinary (cut16 bs) | VMVBinary bss \<Rightarrow> VMVBinary (map cut16 bss) | _ \<Rightarrow> v)"

definition guid_laws :: "'g guid_lib \<Rightarrow> bool" where
  "guid_laws G \<longleftrightarrow> (\<forall>bs. length bs = 16 \<longrightarrow> GUID_to_ndr_blob G (GUID_from_ndr_blob G bs) = bs)"

lemma take_count: "take (unat (of_nat (length bs) :: u16)) bs = cut16 bs"
  by (simp add: cut16_def unat_of_nat)

lemma map_take_count: "map (\<lambda>(cb, lpb). take (unat cb) lpb) (map short_binary bss) = map cut16 bss"
  by (simp add: short_binary_def take_count)

lemma map_guid: "guid_laws G \<Longrightarrow> list_all (\<lambda>bs. length bs = 16) gs \<Longrightarrow>
    map (\<lambda>g. take 16 (GUID_to_ndr_blob G g)) (map (GUID_from_ndr_blob G) gs) = gs"
  by (induction gs) (auto simp: guid_laws_def)

text \<open>\<^verbatim>\<open>uint16_t\<close> counts.\<close>

lemma count16: "(ucast (of_nat n :: u16) :: u32) = of_nat (n mod 65536)"
proof -
  have "unat (of_nat n :: u16) = n mod 65536" by (simp add: unat_of_nat)
  then show ?thesis by (metis of_nat_unat)
qed

lemma length_cut: "length (cut16 bs) = length bs mod 65536"
  by (simp add: cut16_def min_def)

text \<open>C22 The conversion of a property to the wire form and back, for every property whose value is of its type. The types without a case
  in the conversion abort, and a null GUID or a string that is gone is followed. Every other property comes back with its tag and its
  value, but its binaries are cut to their length modulo 64 KB. Both directions report the same size, except for arrays of binaries:
  there one counts 2 bytes and the full length for each binary, the other 4 bytes and the cut length.\<close>

theorem cast_roundtrip:
  assumes "guid_laws G" and "well_typed p"
  shows "if prop_type (ulPropTag p) \<in> {PT_NULL, PT_OBJECT, PT_MV_SHORT, PT_MV_SYSTIME} then cast_mapi_SPropValue G p = Abort
    else if prop_type (ulPropTag p) = PT_CLSID \<and> pvalue p = VNullPtr \<or> pvalue p = VDangling then cast_mapi_SPropValue G p = Fault
    else \<exists>n m n'. cast_mapi_SPropValue G p = Ok (n, m) \<and> cast_SPropValue G m = Ok (n', p\<lparr>pvalue := cut_binaries (pvalue p)\<rparr>) \<and>
      (case pvalue p of
         VMVBinary bss \<Rightarrow> n = of_nat (4 + sum_list (map (\<lambda>bs. length bs + 2) bss)) \<and> n' = of_nat (4 + sum_list (map (\<lambda>bs. 4 + length (cut16 bs)) bss))
       | VBinary bs \<Rightarrow> n = of_nat (length (cut16 bs) + 2) \<and> n' = n
       | _ \<Rightarrow> n' = n)"
proof -
  obtain tag v where p: "p = \<lparr>ulPropTag = tag, pvalue = v\<rparr>" by (cases p)
  have g: "length bs = 16 \<Longrightarrow> GUID_to_ndr_blob G (GUID_from_ndr_blob G bs) = bs" for bs
    using assms(1) by (simp add: guid_laws_def)
  show ?thesis
  proof (cases v)
    case (VMVBinary bss)
    then have t: "prop_type tag = PT_MV_BINARY" using assms(2) p by (simp add: well_typed_def)
    have "sum_list (map (\<lambda>(cb, _). 4 + ucast cb) (map short_binary bss)) = (of_nat (sum_list (map (\<lambda>bs. 4 + length (cut16 bs)) bss)) :: u32)"
      by (induction bss) (simp_all add: short_binary_def count16 length_cut)
    moreover have "sum_list (map (\<lambda>bs. of_nat (length bs) + 2) bss) = (of_nat (sum_list (map (\<lambda>bs. length bs + 2) bss)) :: u32)"
      by (induction bss) simp_all
    ultimately show ?thesis using VMVBinary p t map_take_count [of bss]
      by (simp add: cast_mapi_SPropValue_def cast_SPropValue_def cut_binaries_def)
  next
    case (VMVClsid gs)
    with assms(2) p map_guid [OF assms(1), of gs] show ?thesis
      by (simp add: well_typed_def cast_mapi_SPropValue_def cast_SPropValue_def cut_binaries_def sum_list_triv comp_def)
  next
    case (VBinary bs)
    with assms(2) p show ?thesis
      by (auto simp: well_typed_def cast_mapi_SPropValue_def cast_SPropValue_def cut_binaries_def short_binary_def take_count count16 length_cut)
  qed (use assms(2) p g in \<open>auto simp: well_typed_def cut_binaries_def cast_mapi_SPropValue_def cast_SPropValue_def sum_list_triv\<close>)
qed

definition flat_guids :: "u8 list guid_lib" where
  "flat_guids = \<lparr>GUID_from_ndr_blob = id, GUID_to_ndr_blob = id\<rparr>"

text \<open>A binary of 65538 bytes comes back with 2.\<close>

theorem cast_roundtrip_witness:
  "\<exists>n m. cast_mapi_SPropValue flat_guids \<lparr>ulPropTag = 0x10102, pvalue = VBinary (replicate 65538 7)\<rparr> = Ok (n, m) \<and>
    cast_SPropValue flat_guids m = Ok (n, \<lparr>ulPropTag = 0x10102, pvalue = VBinary [7, 7]\<rparr>) \<and> n = 4"
proof -
  have "guid_laws flat_guids" "well_typed \<lparr>ulPropTag = 0x10102, pvalue = VBinary (replicate 65538 7)\<rparr>"
    by (simp_all add: guid_laws_def flat_guids_def well_typed_def prop_type_def)
  moreover have "cut16 (replicate 65538 7) = [7, 7]" by (simp add: cut16_def numeral_2_eq_2)
  ultimately show ?thesis using cast_roundtrip [of flat_guids "\<lparr>ulPropTag = 0x10102, pvalue = VBinary (replicate 65538 7)\<rparr>"]
    by (simp add: prop_type_def cut_binaries_def)
qed

section \<open>The length of a converted string, against the encodings\<close>

definition utf8_encode :: "nat \<Rightarrow> u8 list" where
  "utf8_encode cp =
     (if cp < 0x80 then [of_nat cp]
      else if cp < 0x800 then [of_nat (0xC0 + cp div 64), of_nat (0x80 + cp mod 64)]
      else if cp < 0x10000 then [of_nat (0xE0 + cp div 4096), of_nat (0x80 + cp div 64 mod 64), of_nat (0x80 + cp mod 64)]
      else [of_nat (0xF0 + cp div 262144), of_nat (0x80 + cp div 4096 mod 64), of_nat (0x80 + cp div 64 mod 64), of_nat (0x80 + cp mod 64)])"

definition utf16_units :: "nat \<Rightarrow> nat" where
  "utf16_units cp = (if cp < 0x10000 then 1 else 2)"

lemma cont_bytes: "n < 64 \<Longrightarrow> cont_byte (of_nat (0x80 + n)) \<and> of_nat (0x80 + n) AND (0x3f :: u8) = of_nat n"
proof -
  have "list_all (\<lambda>n. cont_byte (of_nat (0x80 + n)) \<and> of_nat (0x80 + n) AND (0x3f :: u8) = of_nat n) [0..<64]" by code_simp
  then show "n < 64 \<Longrightarrow> ?thesis" by (simp add: list_all_iff)
qed

lemma lead1: "n < 128 \<Longrightarrow> of_nat n AND (0x80 :: u8) = 0"
proof -
  have "list_all (\<lambda>n. of_nat n AND (0x80 :: u8) = 0) [0..<128]" by code_simp
  then show "n < 128 \<Longrightarrow> ?thesis" by (simp add: list_all_iff)
qed

lemma lead2: "n < 32 \<Longrightarrow> of_nat (0xC0 + n) AND (0x80 :: u8) \<noteq> 0 \<and> of_nat (0xC0 + n) AND (0xe0 :: u8) = 0xc0"
proof -
  have "list_all (\<lambda>n. of_nat (0xC0 + n) AND (0x80 :: u8) \<noteq> 0 \<and> of_nat (0xC0 + n) AND (0xe0 :: u8) = 0xc0) [0..<32]" by code_simp
  then show "n < 32 \<Longrightarrow> ?thesis" by (simp add: list_all_iff)
qed

lemma lead3: "n < 16 \<Longrightarrow> of_nat (0xE0 + n) AND (0x80 :: u8) \<noteq> 0 \<and> of_nat (0xE0 + n) AND (0xe0 :: u8) \<noteq> 0xc0 \<and>
    of_nat (0xE0 + n) AND (0xf0 :: u8) = 0xe0"
proof -
  have "list_all (\<lambda>n. of_nat (0xE0 + n) AND (0x80 :: u8) \<noteq> 0 \<and> of_nat (0xE0 + n) AND (0xe0 :: u8) \<noteq> 0xc0 \<and>
    of_nat (0xE0 + n) AND (0xf0 :: u8) = 0xe0) [0..<16]" by code_simp
  then show "n < 16 \<Longrightarrow> ?thesis" by (simp add: list_all_iff)
qed

lemma lead4: "n < 8 \<Longrightarrow> of_nat (0xF0 + n) AND (0x80 :: u8) \<noteq> 0 \<and> of_nat (0xF0 + n) AND (0xe0 :: u8) \<noteq> 0xc0 \<and>
    of_nat (0xF0 + n) AND (0xf0 :: u8) \<noteq> 0xe0 \<and> of_nat (0xF0 + n) AND (0xf8 :: u8) = 0xf0 \<and> of_nat (0xF0 + n) AND (0x7 :: u8) = of_nat n"
proof -
  have "list_all (\<lambda>n. of_nat (0xF0 + n) AND (0x80 :: u8) \<noteq> 0 \<and> of_nat (0xF0 + n) AND (0xe0 :: u8) \<noteq> 0xc0 \<and>
    of_nat (0xF0 + n) AND (0xf0 :: u8) \<noteq> 0xe0 \<and> of_nat (0xF0 + n) AND (0xf8 :: u8) = 0xf0 \<and> of_nat (0xF0 + n) AND (0x7 :: u8) = of_nat n) [0..<8]" by code_simp
  then show "n < 8 \<Longrightarrow> ?thesis" by (simp add: list_all_iff)
qed

lemma nat_or_push: "a < 2 ^ n \<Longrightarrow> a OR push_bit n m = a + 2 ^ n * (m :: nat)"
proof -
  assume "a < 2 ^ n"
  then have t: "take_bit n a = a" by (simp add: take_bit_nat_eq_self_iff)
  have "a AND push_bit n m = 0"
  proof (rule bit_eqI)
    fix k show "bit (a AND push_bit n m) k \<longleftrightarrow> bit (0 :: nat) k"
      using t bit_take_bit_iff [of n a k] by (auto simp: bit_simps)
  qed
  then have "a OR push_bit n m = a + push_bit n m" by (simp add: disjunctive_add_eq_or)
  then show ?thesis by (simp add: push_bit_eq_mult)
qed

lemma codepoint4_value:
  assumes "d < 8" and "c < 64" and "b < 64" and "a < 64"
  shows "codepoint4 (of_nat (0xF0 + d)) (of_nat (0x80 + c)) (of_nat (0x80 + b)) (of_nat (0x80 + a)) = of_nat (a + 64 * b + 4096 * c + 262144 * d)"
proof -
  have u: "(ucast (of_nat n :: u8) :: u32) = of_nat n" if "n < 64" for n
  proof -
    have "unat (of_nat n :: u8) = n" using that by (simp add: unat_of_nat)
    then show ?thesis by (metis of_nat_unat)
  qed
  have "codepoint4 (of_nat (0xF0 + d)) (of_nat (0x80 + c)) (of_nat (0x80 + b)) (of_nat (0x80 + a)) =
      of_nat a OR push_bit 6 (of_nat b) OR push_bit 12 (of_nat c) OR push_bit 18 (of_nat d)"
    unfolding codepoint4_def using cont_bytes [OF assms(2)] cont_bytes [OF assms(3)] cont_bytes [OF assms(4)] lead4 [OF assms(1)] assms
    by (simp add: u)
  also have "\<dots> = of_nat (a OR push_bit 6 b OR push_bit 12 c OR push_bit 18 d)"
    by (simp only: push_bit_of_nat of_nat_or_eq)
  also have "a OR push_bit 6 b OR push_bit 12 c OR push_bit 18 d = a + 64 * b + 4096 * c + 262144 * d"
  proof -
    have 1: "a OR push_bit 6 b = a + 64 * b" using nat_or_push [of a 6 b] assms by simp
    have 2: "(a + 64 * b) OR push_bit 12 c = a + 64 * b + 4096 * c" using nat_or_push [of "a + 64 * b" 12 c] assms by simp
    have 3: "(a + 64 * b + 4096 * c) OR push_bit 18 d = a + 64 * b + 4096 * c + 262144 * d"
      using nat_or_push [of "a + 64 * b + 4096 * c" 18 d] assms by simp
    have "a OR push_bit 6 b OR push_bit 12 c OR push_bit 18 d = ((a OR push_bit 6 b) OR push_bit 12 c) OR push_bit 18 d"
      by (simp add: or.assoc)
    then show ?thesis unfolding 1 2 3 .
  qed
  finally show ?thesis .
qed

lemma four_digits: "cp = cp mod 64 + 64 * (cp div 64 mod 64) + 4096 * (cp div 4096 mod 64) + 262144 * (cp div 262144)" for cp :: nat
proof -
  have "cp = cp mod 64 + 64 * (cp div 64)" by simp
  moreover have "cp div 64 = cp div 64 mod 64 + 64 * (cp div 64 div 64)" by simp
  moreover have "cp div 4096 = cp div 4096 mod 64 + 64 * (cp div 4096 div 64)" by simp
  moreover have "cp div 64 div 64 = cp div 4096" "cp div 4096 div 64 = cp div 262144" by (simp_all add: div_mult2_eq [symmetric])
  ultimately show ?thesis by linarith
qed

lemma conv_loop_encode:
  assumes "cp \<le> 0x10FFFF" and "3 * length (utf8_encode cp) \<le> n"
  shows "conv_loop (utf8_encode cp @ rest) n = conv_loop rest (n - 2 * utf16_units cp)"
proof -
  consider "cp < 0x80" | "0x80 \<le> cp" "cp < 0x800" | "0x800 \<le> cp" "cp < 0x10000" | "0x10000 \<le> cp" by linarith
  then show ?thesis
  proof cases
    case 1
    with assms show ?thesis
      by (subst conv_loop.simps) (simp add: utf8_encode_def utf16_units_def lead1)
  next
    case 2
    then have "cp div 64 < 32" by simp
    from lead2 [OF this] cont_bytes [of "cp mod 64"] 2 assms show ?thesis
      by (subst conv_loop.simps) (simp add: utf8_encode_def utf16_units_def)
  next
    case 3
    then have "cp div 4096 < 16" by simp
    from lead3 [OF this] cont_bytes [of "cp mod 64"] cont_bytes [of "cp div 64 mod 64"] 3 assms show ?thesis
      by (subst conv_loop.simps) (simp add: utf8_encode_def utf16_units_def)
  next
    case 4
    then have d: "cp div 262144 < 8" using assms(1) by simp
    let ?c = "codepoint4 (of_nat (0xF0 + cp div 262144)) (of_nat (0x80 + cp div 4096 mod 64)) (of_nat (0x80 + cp div 64 mod 64)) (of_nat (0x80 + cp mod 64))"
    have "?c = of_nat cp"
      using codepoint4_value [OF d, of "cp div 4096 mod 64" "cp div 64 mod 64" "cp mod 64"] four_digits [of cp] by simp
    moreover have "unat (of_nat cp :: u32) = cp" using assms(1) by (simp add: unat_of_nat)
    ultimately have c: "\<not> ?c < 0x10000" using 4 by (simp add: word_less_nat_alt)
    from lead4 [OF d] cont_bytes [of "cp mod 64"] cont_bytes [of "cp div 64 mod 64"] cont_bytes [of "cp div 4096 mod 64"] c 4 assms show ?thesis
      by (subst conv_loop.simps) (simp add: utf8_encode_def utf16_units_def)
  qed
qed

lemma conv_loop_text:
  "list_all (\<lambda>cp. cp \<le> 0x10FFFF) cps \<Longrightarrow> 3 * length (concat (map utf8_encode cps)) \<le> n \<Longrightarrow>
    conv_loop (concat (map utf8_encode cps)) n = Some (n - 2 * sum_list (map utf16_units cps)) \<and> 2 * sum_list (map utf16_units cps) \<le> n"
proof (induction cps arbitrary: n)
  case Nil
  then show ?case by (subst conv_loop.simps) simp
next
  case (Cons cp cps)
  have l: "2 * utf16_units cp \<le> 3 * length (utf8_encode cp)" by (simp add: utf16_units_def utf8_encode_def)
  have "3 * length (concat (map utf8_encode cps)) \<le> n - 2 * utf16_units cp" using Cons.prems(2) l by simp
  with Cons.IH [of "n - 2 * utf16_units cp"] Cons.prems l
    conv_loop_encode [of cp n "concat (map utf8_encode cps)"] show ?case by auto
qed

text \<open>C24 For the UTF-8 encoding of any sequence of Unicode code points, the computed length is the number of
  bytes of its UTF-16 encoding, surrogate pairs counted twice, with two bytes for the terminator.\<close>

theorem get_utf8_utf16_conv_length_correct:
  assumes "list_all (\<lambda>cp. cp \<le> 0x10FFFF) cps"
  shows "get_utf8_utf16_conv_length (concat (map utf8_encode cps)) = Some (2 * sum_list (map utf16_units cps) + 2)"
  using conv_loop_text [OF assms order.refl] by (simp add: get_utf8_utf16_conv_length_def)

theorem get_utf8_utf16_conv_length_correct_witness:
  "get_utf8_utf16_conv_length (concat (map utf8_encode [0x41, 0xE9, 0x20AC, 0x1F600])) = Some 12"
  using get_utf8_utf16_conv_length_correct [of "[0x41, 0xE9, 0x20AC, 0x1F600]"] by (simp add: utf16_units_def)

end
