(* ===== verification/Oxcfxics.thy ===== *)
theory Oxcfxics
  imports Idset Fxparser
begin

unbundle bit_operations_syntax

text \<open>
  The producing side of fast transfer streams, from \<^verbatim>\<open>src/mapiproxy/servers/default/emsmdb/oxcfxics.c\<close>: property
  values, properties with their names, recipients, and the cutmarks that say where the
  stream may be cut; then the buffers a client is sent. The NDR routines of Samba and
  the ones generated from the IDL files are fields of \<open>fx_lib\<close>; \<open>fx_laws\<close> states what is relied on.
\<close>

section \<open>Library routines the code calls\<close>

text \<open>\<open>ndr_push_ascii\<close> and \<open>ndr_push_utf16\<close> are \<^verbatim>\<open>ndr_push_string\<close> with the flags \<^verbatim>\<open>STR_NULLTERM|STR_ASCII\<close> and
  \<^verbatim>\<open>STR_NULLTERM\<close>; \<open>ndr_push_Binary_r\<close> is called with \<^verbatim>\<open>NDR_BUFFERS\<close>. A pushed byte is that byte.\<close>

record 'g fx_lib = "'g samba_lib" +
  ndr_push_uint32 :: "u32 \<Rightarrow> u8 list"
  ndr_push_dlong :: "u64 \<Rightarrow> u8 list"
  ndr_push_double :: "u64 \<Rightarrow> u8 list"
  ndr_push_ascii :: "u8 list \<Rightarrow> u8 list"
  ndr_push_utf16 :: "u8 list \<Rightarrow> u8 list"
  strlen_m_ext :: "u8 list \<Rightarrow> nat"
  ndr_push_Binary_r :: "u8 list \<Rightarrow> u8 list"
  ndr_push_FILETIME :: "u32 \<times> u32 \<Rightarrow> u8 list"

text \<open>Documented behaviour without alignment: little-endian scalars, a terminated string, a GUID of 16
  bytes, and a conformant array as its length and its bytes.\<close>

definition fx_laws :: "'g fx_lib \<Rightarrow> bool" where
  "fx_laws G \<longleftrightarrow>
     (\<forall>v. ndr_push_uint16 G v = le_bytes 2 v) \<and>
     (\<forall>v. ndr_push_uint32 G v = le_bytes 4 v) \<and>
     (\<forall>v. ndr_push_dlong G v = le_bytes 8 v) \<and>
     (\<forall>v. ndr_push_double G v = le_bytes 8 v) \<and>
     (\<forall>s. ndr_push_ascii G s = s @ [0]) \<and>
     (\<forall>bs. ndr_push_Binary_r G bs = le_bytes 4 (of_nat (length bs) :: u32) @ bs) \<and>
     (\<forall>lo hi. ndr_push_FILETIME G (lo, hi) = le_bytes 4 lo @ le_bytes 4 hi) \<and>
     (\<forall>g. length (ndr_push_GUID G g) = 16)"

section \<open>Property values\<close>

text \<open>What a data pointer points to. The type of the tag decides how it is read: reading it as
  something else is \<open>Fault\<close>.\<close>

datatype 'g fx_data =
    FxShort u16 | FxLong u32 | FxDouble u64 | FxI8 u64 | FxBoolean u8 | FxString "u8 list"
  | FxBinary "u8 list" | FxClsid 'g | FxSysTime "u32 \<times> u32"
  | FxShortArray "u16 list" | FxLongArray "u32 list" | FxUI8Array "u64 list"
  | FxBinaryArray "u8 list list" | FxStringArrayW "u8 list list" | FxNullPtr

abbreviation PT_FLOAT :: u32 where "PT_FLOAT \<equiv> 0x4"

definition oxcfxics_ndr_push_simple_data :: "'g fx_lib \<Rightarrow> u32 \<Rightarrow> 'g fx_data \<Rightarrow> u8 list outcome" where
  "oxcfxics_ndr_push_simple_data G ptype v =
     (if ptype = PT_SHORT then (case v of FxShort x \<Rightarrow> Ok (ndr_push_uint16 G x) | _ \<Rightarrow> Fault)
      else if ptype = PT_LONG \<or> ptype = PT_ERROR \<or> ptype = PT_OBJECT then
        (case v of FxLong x \<Rightarrow> Ok (ndr_push_uint32 G x) | _ \<Rightarrow> Fault)
      else if ptype = PT_DOUBLE then (case v of FxDouble x \<Rightarrow> Ok (ndr_push_double G x) | _ \<Rightarrow> Fault)
      else if ptype = PT_I8 then (case v of FxI8 x \<Rightarrow> Ok (ndr_push_dlong G x) | _ \<Rightarrow> Fault)
      else if ptype = PT_BOOLEAN then
        (case v of FxBoolean x \<Rightarrow> Ok (ndr_push_uint16 G (if x \<noteq> 0 then 1 else 0)) | _ \<Rightarrow> Fault)
      else if ptype = PT_STRING8 then
        (case v of FxString s \<Rightarrow> Ok (ndr_push_uint32 G (of_nat (length s + 1)) @ ndr_push_ascii G s) | _ \<Rightarrow> Fault)
      else if ptype = PT_UNICODE then
        (case v of FxString s \<Rightarrow> Ok (ndr_push_uint32 G (of_nat (strlen_m_ext G s * 2 + 2)) @ ndr_push_utf16 G s)
         | _ \<Rightarrow> Fault)
      else if ptype = PT_SVREID \<or> ptype = PT_BINARY then
        (case v of FxBinary bs \<Rightarrow> Ok (if length bs > 0 then ndr_push_Binary_r G bs else ndr_push_uint32 G 0) | _ \<Rightarrow> Fault)
      else if ptype = PT_CLSID then (case v of FxClsid g \<Rightarrow> Ok (ndr_push_GUID G g) | _ \<Rightarrow> Fault)
      else if ptype = PT_SYSTIME then (case v of FxSysTime ft \<Rightarrow> Ok (ndr_push_FILETIME G ft) | _ \<Rightarrow> Fault)
      else if ptype = PT_NULL then Ok []
      else Abort)"

definition oxcfxics_compute_cutmark_min_value_buffer :: "u32 \<Rightarrow> u32 outcome" where
  "oxcfxics_compute_cutmark_min_value_buffer ptype =
     (if ptype AND MV_FLAG \<noteq> 0 then Ok 8
      else if ptype \<in> {PT_SHORT, PT_LONG, PT_ERROR, PT_OBJECT, PT_FLOAT, PT_DOUBLE, PT_I8, PT_BOOLEAN, PT_SYSTIME, PT_CLSID}
      then Ok 0
      else if ptype \<in> {PT_STRING8, PT_UNICODE, PT_SVREID, PT_BINARY} then Ok 8
      else Abort)"

fun push_each :: "'g fx_lib \<Rightarrow> u32 \<Rightarrow> 'g fx_data list \<Rightarrow> u8 list outcome" where
  "push_each G ptype [] = Ok []"
| "push_each G ptype (v # vs) =
     obind (oxcfxics_ndr_push_simple_data G ptype v) (\<lambda>bs. obind (push_each G ptype vs) (\<lambda>rest. Ok (bs @ rest)))"

definition push_array :: "'g fx_lib \<Rightarrow> u32 \<Rightarrow> 'g fx_data list \<Rightarrow> u8 list outcome" where
  "push_array G ptype vs = obind (push_each G ptype vs) (\<lambda>bs. Ok (ndr_push_uint32 G (of_nat (length vs)) @ bs))"

text \<open>The multi-valued types; \<open>ptype\<close> has lost its flag.\<close>

definition push_multi_value :: "'g fx_lib \<Rightarrow> u32 \<Rightarrow> 'g fx_data \<Rightarrow> u8 list outcome" where
  "push_multi_value G ptype v =
     (if ptype = PT_SHORT then (case v of FxShortArray xs \<Rightarrow> push_array G ptype (map FxShort xs) | _ \<Rightarrow> Fault)
      else if ptype = PT_LONG then (case v of FxLongArray xs \<Rightarrow> push_array G ptype (map FxLong xs) | _ \<Rightarrow> Fault)
      else if ptype = PT_I8 then (case v of FxUI8Array xs \<Rightarrow> push_array G ptype (map FxI8 xs) | _ \<Rightarrow> Fault)
      else if ptype = PT_BINARY then (case v of FxBinaryArray xs \<Rightarrow> push_array G ptype (map FxBinary xs) | _ \<Rightarrow> Fault)
      else if ptype = PT_UNICODE then (case v of FxStringArrayW xs \<Rightarrow> push_array G ptype (map FxString xs) | _ \<Rightarrow> Fault)
      else Abort)"

section \<open>Properties\<close>

text \<open>The two NDR buffers that are written together: the stream, and the cutmarks as pairs of a minimal
  size and an offset of the stream.\<close>

record fx_out =
  fx_bytes :: "u8 list"
  fx_marks :: "u32 list"

definition push_bytes :: "u8 list \<Rightarrow> fx_out \<Rightarrow> fx_out" where
  "push_bytes bs out = out\<lparr>fx_bytes := fx_bytes out @ bs\<rparr>"

definition push_mark :: "u32 \<Rightarrow> fx_out \<Rightarrow> fx_out" where
  "push_mark min_value out = out\<lparr>fx_marks := fx_marks out @ [min_value, of_nat (length (fx_bytes out))]\<rparr>"

text \<open>The bytes of a value and the minimal size of its cutmark.\<close>

definition push_data :: "'g fx_lib \<Rightarrow> u32 \<Rightarrow> 'g fx_data \<Rightarrow> (u8 list \<times> u32) outcome" where
  "push_data G property v =
     (let ptype = prop_type property;
          is_mv = (ptype AND MV_FLAG \<noteq> 0);
          btype = (if is_mv then ptype AND 0x0fff else ptype)
      in obind (if is_mv then push_multi_value G btype v else oxcfxics_ndr_push_simple_data G btype v) (\<lambda>bs.
         obind (oxcfxics_compute_cutmark_min_value_buffer btype) (\<lambda>min_value_buffer. Ok (bs, min_value_buffer))))"

definition push_value :: "'g fx_lib \<Rightarrow> u32 \<Rightarrow> 'g fx_data \<Rightarrow> fx_out \<Rightarrow> fx_out outcome" where
  "push_value G property v out =
     obind (push_data G property v) (\<lambda>(bs, min_value_buffer).
     Ok (push_mark min_value_buffer (push_bytes bs (push_mark 0 out))))"

definition push_name :: "'g fx_lib \<Rightarrow> 'g \<times> name_kind \<Rightarrow> u8 list" where
  "push_name G nameid =
     ndr_push_GUID G (fst nameid) @
     (case snd nameid of
        MNID_ID lid \<Rightarrow> [0] @ ndr_push_uint32 G lid
      | MNID_STRING nm \<Rightarrow> [1] @ ndr_push_utf16 G nm)"

text \<open>One property. A named property whose name is not found is left by \<^verbatim>\<open>continue\<close>, after its tag was
  pushed. \<open>nprops\<close> is \<^verbatim>\<open>mapistore_namedprops_get_nameid\<close>.\<close>

definition push_property ::
  "'g fx_lib \<Rightarrow> (u16 \<Rightarrow> ('g \<times> name_kind) option) \<Rightarrow> u32 \<times> MAPISTATUS \<times> 'g fx_data \<Rightarrow> fx_out \<Rightarrow> fx_out outcome" where
  "push_property G nprops p out =
     (case p of (property, retval, v) \<Rightarrow>
        if retval \<noteq> MAPI_E_SUCCESS then Ok out
        else
          let out1 = push_bytes (ndr_push_uint32 G property) out in
          if property > 0x80000000 then
            (case nprops (ucast (drop_bit 16 property)) of
               None \<Rightarrow> Ok out1
             | Some nameid \<Rightarrow> push_value G property v (push_bytes (push_name G nameid) out1))
          else push_value G property v out1)"

text \<open>The three arrays are walked together.\<close>

fun oxcfxics_ndr_push_properties ::
  "'g fx_lib \<Rightarrow> (u16 \<Rightarrow> ('g \<times> name_kind) option) \<Rightarrow> (u32 \<times> MAPISTATUS \<times> 'g fx_data) list \<Rightarrow> fx_out \<Rightarrow> fx_out outcome" where
  "oxcfxics_ndr_push_properties G nprops [] out = Ok out"
| "oxcfxics_ndr_push_properties G nprops (p # ps) out =
     obind (push_property G nprops p out) (oxcfxics_ndr_push_properties G nprops ps)"

section \<open>Buffers\<close>

record emsmdbp_stream =
  spos :: nat
  sbuf :: "u8 list"

text \<open>The lengths are 32-bit, the position is a \<^verbatim>\<open>size_t\<close>.\<close>

definition emsmdbp_stream_read_buffer :: "emsmdbp_stream \<Rightarrow> u32 \<Rightarrow> (u8 list \<times> emsmdbp_stream) outcome" where
  "emsmdbp_stream_read_buffer s len =
     (let real_length =
            (if unat len + spos s > length (sbuf s)
             then (ucast (of_nat (length (sbuf s)) - of_nat (spos s) :: u64) :: u32) else len)
      in obind (rd_bytes (sbuf s) (spos s) (unat real_length)) (\<lambda>bs.
         Ok (bs, s\<lparr>spos := spos s + unat real_length\<rparr>)))"

text \<open>The search for the last cutmark in front of \<open>max_cutmark\<close>: the index where it stops and the size so far.\<close>

function cutmark_loop :: "u32 list \<Rightarrow> nat \<Rightarrow> u32 \<Rightarrow> nat \<Rightarrow> u32 \<Rightarrow> (nat \<times> u32) outcome" where
  "cutmark_loop cutmarks position max_cutmark mark_idx buffer_size =
     (if mark_idx < length cutmarks then
        (if cutmarks ! mark_idx \<noteq> 0xffffffff \<and> cutmarks ! mark_idx < max_cutmark
         then cutmark_loop cutmarks position max_cutmark (mark_idx + 2) (cutmarks ! mark_idx - of_nat position)
         else Ok (mark_idx, buffer_size))
      else Fault)"
  by pat_completeness auto
termination by (relation "measure (\<lambda>(c, p, m, i, b). length c - i)") auto

declare cutmark_loop.simps [simp del]

text \<open>The size of the next buffer, and where the next search starts. A cutmark with a minimal size lets the
  value behind it be cut when more than that many bytes of it fit.\<close>

definition cut_buffer :: "u32 list \<Rightarrow> nat \<Rightarrow> nat \<Rightarrow> u32 \<Rightarrow> (u32 \<times> nat) outcome" where
  "cut_buffer cutmarks next_cutmark_idx position request_buffer_size =
     obind (cutmark_loop cutmarks position (of_nat position + request_buffer_size) next_cutmark_idx request_buffer_size)
       (\<lambda>(mark_idx, buffer_size).
          if buffer_size < request_buffer_size \<and> cutmarks ! mark_idx \<noteq> 0xffffffff then
            (if mark_idx = 0 then Fault
             else
               let min_value_buffer = cutmarks ! (mark_idx - 1) in
               Ok (if min_value_buffer \<noteq> 0 \<and> request_buffer_size - buffer_size > min_value_buffer
                   then request_buffer_size else buffer_size, mark_idx))
          else Ok (buffer_size, mark_idx))"

datatype TransferStatus = TransferStatus_Partial | TransferStatus_Done

record FastTransferSourceGetBuffer_repl =
  TransferStatus :: TransferStatus
  InProgressCount :: u16
  TotalStepCount :: u16
  TransferBuffer :: "u8 list"

record emsmdbp_object_ftcontext =
  ft_steps :: u16
  ft_total_steps :: u16
  ft_stream :: emsmdbp_stream
  ft_cutmarks :: "u32 list"
  ft_next_cutmark_idx :: nat

text \<open>The first buffer of a stream divides by the size that was asked for.\<close>

definition ft_start :: "u32 \<Rightarrow> emsmdbp_object_ftcontext \<Rightarrow> emsmdbp_object_ftcontext outcome" where
  "ft_start request_buffer_size ft =
     (if spos (ft_stream ft) = 0 then
        (if request_buffer_size = 0 then Fault
         else Ok (ft\<lparr>ft_steps := 0,
                     ft_total_steps := of_nat (length (sbuf (ft_stream ft)) div unat request_buffer_size + 1),
                     ft_next_cutmark_idx := 1\<rparr>))
      else Ok ft)"

definition oxcfxics_fill_ftcontext_fasttransfer_response ::
  "u32 \<Rightarrow> emsmdbp_object_ftcontext \<Rightarrow> (FastTransferSourceGetBuffer_repl \<times> emsmdbp_object_ftcontext) outcome" where
  "oxcfxics_fill_ftcontext_fasttransfer_response request_buffer_size ft0 =
     obind (ft_start request_buffer_size ft0) (\<lambda>ft1.
     let ft = ft1\<lparr>ft_steps := ft_steps ft1 + 1\<rparr>;
         s = ft_stream ft in
     obind (if spos s + unat request_buffer_size < length (sbuf s)
            then cut_buffer (ft_cutmarks ft) (ft_next_cutmark_idx ft) (spos s) request_buffer_size
            else Ok (request_buffer_size, ft_next_cutmark_idx ft)) (\<lambda>(buffer_size, mark_idx).
     obind (emsmdbp_stream_read_buffer s buffer_size) (\<lambda>(bs, s').
     let fin = (spos s' = length (sbuf s')) in
     Ok (\<lparr>TransferStatus = (if fin then TransferStatus_Done else TransferStatus_Partial),
          InProgressCount = (if fin then ft_total_steps ft else ft_steps ft),
          TotalStepCount = ft_total_steps ft,
          TransferBuffer = bs\<rparr>,
         ft\<lparr>ft_stream := s', ft_next_cutmark_idx := mark_idx\<rparr>))))"

text \<open>The context that \<open>RopFastTransferSourceCopyTo\<close> leaves behind for what it has pushed.\<close>

definition ft_open :: "fx_out \<Rightarrow> emsmdbp_object_ftcontext" where
  "ft_open out =
     \<lparr>ft_steps = 0, ft_total_steps = 0, ft_stream = \<lparr>spos = 0, sbuf = fx_bytes out\<rparr>,
      ft_cutmarks = fx_marks out @ [0, 0xffffffff], ft_next_cutmark_idx = 0\<rparr>"

text \<open>A client asks for buffers of the given sizes until it is told that the transfer is done.\<close>

fun ft_download ::
  "emsmdbp_object_ftcontext \<Rightarrow> u32 list \<Rightarrow> (FastTransferSourceGetBuffer_repl list \<times> emsmdbp_object_ftcontext) outcome" where
  "ft_download ft [] = Ok ([], ft)"
| "ft_download ft (n # ns) =
     obind (oxcfxics_fill_ftcontext_fasttransfer_response n ft) (\<lambda>(r, ft').
     if TransferStatus r = TransferStatus_Done then Ok ([r], ft')
     else obind (ft_download ft' ns) (\<lambda>(rs, ft''). Ok (r # rs, ft'')))"

end
