(* ===== verification/Oxcfxics_Transfer.thy ===== *)
theory Oxcfxics_Transfer
  imports Oxcfxics
begin

unbundle bit_operations_syntax

text \<open>
  The buffers of a fast transfer: wherever the cutmarks make the server cut the stream, the buffers
  are its pieces in order, none is longer than asked for, and the transfer ends.
\<close>

section \<open>Cutmarks\<close>

text \<open>The array as the code builds it: pairs of a minimal size and an offset, then the end mark.\<close>

definition mark_array :: "(u32 \<times> nat) list \<Rightarrow> u32 list" where
  "mark_array ms = concat (map (\<lambda>(m, p). [m, of_nat p]) ms) @ [0, 0xffffffff]"

lemma length_mark_array [simp]: "length (mark_array ms) = 2 * length ms + 2"
  by (induction ms) (auto simp: mark_array_def)

lemma mark_array_nth: "k < length ms \<Longrightarrow> mark_array ms ! (2 * k + 1) = of_nat (snd (ms ! k))"
proof (induction ms arbitrary: k)
  case (Cons m ms)
  then show ?case by (cases k) (auto simp: mark_array_def split: prod.splits)
qed simp

lemma mark_array_end: "mark_array ms ! (2 * length ms + 1) = 0xffffffff"
  by (induction ms) (auto simp: mark_array_def)

text \<open>The offsets from the \<open>k\<close>-th on are not in front of a position.\<close>

definition ahead :: "(u32 \<times> nat) list \<Rightarrow> nat \<Rightarrow> nat \<Rightarrow> bool" where
  "ahead ms k pos \<longleftrightarrow> (\<forall>j. k \<le> j \<longrightarrow> j < length ms \<longrightarrow> pos \<le> snd (ms ! j))"

definition marks_ok :: "(u32 \<times> nat) list \<Rightarrow> nat \<Rightarrow> bool" where
  "marks_ok ms n \<longleftrightarrow> sorted (map snd ms) \<and> (\<forall>m \<in> set ms. 0 < snd m \<and> snd m \<le> n)"

lemma marks_ok_nth: "marks_ok ms n \<Longrightarrow> k < length ms \<Longrightarrow> 0 < snd (ms ! k) \<and> snd (ms ! k) \<le> n"
  by (simp add: marks_ok_def)

lemma marks_ok_ahead:
  assumes "marks_ok ms n" and "k < length ms" shows "ahead ms k (snd (ms ! k))"
proof -
  have "map snd ms ! k \<le> map snd ms ! j" if "k \<le> j" "j < length ms" for j
    using sorted_nth_mono [of "map snd ms" k j] that assms(1) by (simp add: marks_ok_def)
  then show ?thesis using assms(2) by (auto simp: ahead_def)
qed

lemma ahead_mono: "ahead ms k pos \<Longrightarrow> k \<le> k' \<Longrightarrow> pos' \<le> pos \<Longrightarrow> ahead ms k' pos'"
  unfolding ahead_def by (meson order_trans)

text \<open>The search, in terms of the offsets.\<close>

definition searched :: "(u32 \<times> nat) list \<Rightarrow> nat \<Rightarrow> nat \<Rightarrow> nat \<Rightarrow> nat \<Rightarrow> nat \<Rightarrow> nat \<Rightarrow> bool" where
  "searched ms pos lim k b k' b' \<longleftrightarrow>
     k' \<le> length ms \<and> (k' < length ms \<longrightarrow> lim \<le> snd (ms ! k')) \<and>
     (k' = k \<and> b' = b \<or> k < k' \<and> pos + b' = snd (ms ! (k' - 1)) \<and> pos + b' < lim)"

lemma cutmark_loop_searched:
  assumes "marks_ok ms n" and "n < 2 ^ 32 - 1" and "lim < 2 ^ 32" and "k \<le> length ms" and "ahead ms k pos" and "b < 2 ^ 32"
  shows "\<exists>k' b'. cutmark_loop (mark_array ms) pos (of_nat lim) (2 * k + 1) (of_nat b) = Ok (2 * k' + 1, of_nat b') \<and>
    b' < 2 ^ 32 \<and> searched ms pos lim k b k' b'"
  using assms(4-6)
proof (induction "length ms - k" arbitrary: k b)
  case 0
  then have k: "k = length ms" by simp
  have "cutmark_loop (mark_array ms) pos (of_nat lim) (2 * k + 1) (of_nat b) = Ok (2 * k + 1, of_nat b)"
    by (subst cutmark_loop.simps) (use mark_array_end [of ms] k in simp)
  with 0 k show ?case by (auto simp: searched_def)
next
  case (Suc m)
  then have k: "k < length ms" by simp
  let ?p = "snd (ms ! k)"
  have p: "?p \<le> n" "pos \<le> ?p" using marks_ok_nth [OF assms(1) k] Suc.prems(2) k by (auto simp: ahead_def)
  have p32: "?p < 2 ^ 32 - 1" using p(1) assms(2) by simp
  have at: "mark_array ms ! Suc (2 * k) = of_nat ?p" using mark_array_nth [OF k] by simp
  have u: "unat (of_nat ?p :: u32) = ?p" "unat (of_nat lim :: u32) = lim"
    using p32 assms(3) by (simp_all add: unat_of_nat)
  have ne: "(of_nat ?p :: u32) \<noteq> 0xffffffff"
  proof
    assume "(of_nat ?p :: u32) = 0xffffffff"
    then have "unat (of_nat ?p :: u32) = 2 ^ 32 - 1" by simp
    with u(1) p32 show False by simp
  qed
  have lt: "(of_nat ?p :: u32) < of_nat lim \<longleftrightarrow> ?p < lim" by (simp add: word_less_nat_alt u)
  show ?case
  proof (cases "?p < lim")
    case True
    have b: "(of_nat ?p :: u32) - of_nat pos = of_nat (?p - pos)" using p(2) by (simp add: of_nat_diff)
    have "cutmark_loop (mark_array ms) pos (of_nat lim) (2 * k + 1) (of_nat b) =
        cutmark_loop (mark_array ms) pos (of_nat lim) (2 * (k + 1) + 1) (of_nat (?p - pos))"
      by (subst cutmark_loop.simps) (use at ne lt True k b in simp)
    moreover have "m = length ms - (k + 1)" "k + 1 \<le> length ms" "?p - pos < 2 ^ 32" using Suc.hyps(2) k p32 by simp_all
    moreover have "ahead ms (k + 1) pos" using Suc.prems(2) by (rule ahead_mono) simp_all
    moreover note Suc.hyps(1) [of "k + 1" "?p - pos"]
    ultimately obtain k' b' where "cutmark_loop (mark_array ms) pos (of_nat lim) (2 * k + 1) (of_nat b) = Ok (2 * k' + 1, of_nat b')"
      "b' < 2 ^ 32" and sd: "searched ms pos lim (k + 1) (?p - pos) k' b'" by auto
    moreover from sd True p(2) have "searched ms pos lim k b k' b'"
      by (cases "k' = k + 1") (auto simp: searched_def)
    ultimately show ?thesis by auto
  next
    case False
    then have "cutmark_loop (mark_array ms) pos (of_nat lim) (2 * k + 1) (of_nat b) = Ok (2 * k + 1, of_nat b)"
      by (subst cutmark_loop.simps) (use at ne lt k in simp)
    with False k Suc.prems show ?thesis by (intro exI [of _ k] exI [of _ b]) (auto simp: searched_def)
  qed
qed

section \<open>One buffer\<close>

text \<open>The size of the next buffer: all that was asked for, or up to a cutmark that was passed.\<close>

lemma cut_buffer_size:
  assumes "marks_ok ms n" and "n < 2 ^ 32 - 1" and "pos + unat req < 2 ^ 32" and "k \<le> length ms" and "ahead ms k pos"
  shows "\<exists>k' b. cut_buffer (mark_array ms) (2 * k + 1) pos req = Ok (b, 2 * k' + 1) \<and> k' \<le> length ms \<and> unat b \<le> unat req \<and>
    ahead ms k' (pos + unat b) \<and> (k' = k \<and> b = req \<or> k < k' \<and> snd (ms ! (k' - 1)) \<le> pos + unat b)"
proof -
  have lim: "(of_nat pos + req :: u32) = of_nat (pos + unat req)" by simp
  have req: "unat req < 2 ^ 32" using unsigned_less [of req, where 'a = nat] by simp
  from cutmark_loop_searched [OF assms(1,2,3,4,5) req] obtain k' b where
    l: "cutmark_loop (mark_array ms) pos (of_nat (pos + unat req)) (2 * k + 1) req = Ok (2 * k' + 1, of_nat b)"
    and b: "b < 2 ^ 32" and sd: "searched ms pos (pos + unat req) k (unat req) k' b"
    by auto
  have ub: "unat (of_nat b :: u32) = b" using b by (simp add: unat_of_nat)
  have fr: "ahead ms k' (pos + unat req)"
  proof (cases "k' < length ms")
    case True
    with sd show ?thesis using marks_ok_ahead [OF assms(1) True] by (auto simp: searched_def intro: ahead_mono)
  qed (simp add: ahead_def)
  have "b \<le> unat req" using sd by (auto simp: searched_def)
  then have fb: "ahead ms k' (pos + b)" using fr by (auto intro: ahead_mono)
  let ?c = "cut_buffer (mark_array ms) (2 * k + 1) pos req"
  have "?c = Ok (of_nat b, 2 * k' + 1) \<or> ?c = Ok (req, 2 * k' + 1) \<and> k < k'"
    using l sd unfolding cut_buffer_def lim by (auto simp: searched_def Let_def)
  then show ?thesis
  proof
    assume "?c = Ok (of_nat b, 2 * k' + 1)"
    with sd fb ub show ?thesis by (intro exI [of _ k'] exI [of _ "of_nat b"]) (auto simp: searched_def)
  next
    assume "?c = Ok (req, 2 * k' + 1) \<and> k < k'"
    with sd fr show ?thesis by (intro exI [of _ k'] exI [of _ req]) (auto simp: searched_def)
  qed
qed

text \<open>Reading from the stream.\<close>

lemma stream_read:
  assumes "spos s \<le> length (sbuf s)" and "length (sbuf s) < 2 ^ 32"
  shows "emsmdbp_stream_read_buffer s len =
    Ok (take (unat len) (drop (spos s) (sbuf s)), s\<lparr>spos := min (length (sbuf s)) (spos s + unat len)\<rparr>)"
proof (cases "unat len + spos s > length (sbuf s)")
  case True
  let ?d = "length (sbuf s) - spos s"
  have "(of_nat (length (sbuf s)) - of_nat (spos s) :: u64) = of_nat ?d" using assms(1) by (simp add: of_nat_diff)
  moreover have "unat (ucast (of_nat ?d :: u64) :: u32) = ?d"
    using assms(2) by (simp add: unsigned_ucast_eq unsigned_take_bit_eq unat_of_nat take_bit_nat_eq_self)
  ultimately show ?thesis using True assms(1)
    by (simp add: emsmdbp_stream_read_buffer_def rd_bytes_def)
next
  case False
  then show ?thesis by (simp add: emsmdbp_stream_read_buffer_def rd_bytes_def)
qed

section \<open>The transfer\<close>

abbreviation ft_pos :: "emsmdbp_object_ftcontext \<Rightarrow> nat" where "ft_pos ft \<equiv> spos (ft_stream ft)"
abbreviation ft_buf :: "emsmdbp_object_ftcontext \<Rightarrow> u8 list" where "ft_buf ft \<equiv> sbuf (ft_stream ft)"

text \<open>The cutmarks that are still to come are ahead of the position; at the start the index is set anew, and at the end
  it does not matter.\<close>

definition ft_inv :: "(u32 \<times> nat) list \<Rightarrow> emsmdbp_object_ftcontext \<Rightarrow> bool" where
  "ft_inv ms ft \<longleftrightarrow>
     ft_cutmarks ft = mark_array ms \<and> marks_ok ms (length (ft_buf ft)) \<and> length (ft_buf ft) < 2 ^ 32 - 2 ^ 16 \<and>
     ft_pos ft \<le> length (ft_buf ft) \<and>
     (ft_pos ft = 0 \<or> ft_pos ft = length (ft_buf ft) \<or> (\<exists>k. ft_next_cutmark_idx ft = 2 * k + 1 \<and> k \<le> length ms \<and> ahead ms k (ft_pos ft)))"

definition ft_measure :: "emsmdbp_object_ftcontext \<Rightarrow> nat" where
  "ft_measure ft = (length (ft_buf ft) - ft_pos ft) + (length (ft_cutmarks ft) - (if ft_pos ft = 0 then 1 else ft_next_cutmark_idx ft))"

text \<open>A request size that the 16-bit fields of the request can hold.\<close>

definition req_ok :: "u32 \<Rightarrow> bool" where
  "req_ok req \<longleftrightarrow> 0 < req \<and> req < 0x10000"

lemma req_okD: "req_ok req \<Longrightarrow> 0 < unat req \<and> unat req < 2 ^ 16 \<and> req \<noteq> 0"
  by (auto simp: req_ok_def word_less_nat_alt unat_gt_0)

text \<open>What one response does: the buffer is the next piece, and either the transfer is done or the rest
  has become smaller.\<close>

definition ft_stepped :: "(u32 \<times> nat) list \<Rightarrow> u32 \<Rightarrow> emsmdbp_object_ftcontext \<Rightarrow>
    FastTransferSourceGetBuffer_repl \<Rightarrow> emsmdbp_object_ftcontext \<Rightarrow> bool" where
  "ft_stepped ms req ft r ft' \<longleftrightarrow>
     ft_inv ms ft' \<and> ft_buf ft' = ft_buf ft \<and> ft_pos ft \<le> ft_pos ft' \<and> ft_pos ft' \<le> ft_pos ft + unat req \<and>
     TransferBuffer r = take (ft_pos ft' - ft_pos ft) (drop (ft_pos ft) (ft_buf ft)) \<and>
     (TransferStatus r = TransferStatus_Done \<longleftrightarrow> ft_pos ft' = length (ft_buf ft)) \<and>
     (ft_pos ft' = length (ft_buf ft) \<or> ft_measure ft' < ft_measure ft)"

lemma ft_start_inv:
  assumes "ft_inv ms ft" and "req_ok req"
  shows "\<exists>ft1. ft_start req ft = Ok ft1 \<and> ft_stream ft1 = ft_stream ft \<and> ft_cutmarks ft1 = mark_array ms \<and>
    (ft_pos ft < length (ft_buf ft) \<longrightarrow>
      (\<exists>k. ft_next_cutmark_idx ft1 = 2 * k + 1 \<and> k \<le> length ms \<and> ahead ms k (ft_pos ft) \<and>
        (if ft_pos ft = 0 then k = 0 else ft_next_cutmark_idx ft = 2 * k + 1)))"
proof (cases "ft_pos ft = 0")
  case True
  with assms req_okD [OF assms(2)] show ?thesis
    by (auto simp: ft_start_def ft_inv_def ahead_def intro!: exI [of _ 0])
next
  case False
  with assms show ?thesis by (auto simp: ft_start_def ft_inv_def)
qed

lemma fill_response:
  assumes inv: "ft_inv ms ft" and req: "req_ok req"
  shows "\<exists>r ft'. oxcfxics_fill_ftcontext_fasttransfer_response req ft = Ok (r, ft') \<and> ft_stepped ms req ft r ft'"
proof -
  obtain ft1 where st: "ft_start req ft = Ok ft1" "ft_stream ft1 = ft_stream ft" "ft_cutmarks ft1 = mark_array ms"
    and cut: "ft_pos ft < length (ft_buf ft) \<Longrightarrow>
      \<exists>k. ft_next_cutmark_idx ft1 = 2 * k + 1 \<and> k \<le> length ms \<and> ahead ms k (ft_pos ft) \<and>
        (if ft_pos ft = 0 then k = 0 else ft_next_cutmark_idx ft = 2 * k + 1)"
    using ft_start_inv [OF assms] by auto
  let ?n = "length (ft_buf ft)" and ?pos = "ft_pos ft"
  have n: "?n < 2 ^ 32 - 2 ^ 16" "?pos \<le> ?n" "marks_ok ms ?n" "ft_cutmarks ft = mark_array ms" using inv by (simp_all add: ft_inv_def)
  note rq = req_okD [OF req]
  have rd: "emsmdbp_stream_read_buffer (ft_stream ft) b =
      Ok (take (unat b) (drop ?pos (ft_buf ft)), (ft_stream ft)\<lparr>spos := min ?n (?pos + unat b)\<rparr>)" for b
    using n by (intro stream_read) simp_all
  show ?thesis
  proof (cases "?pos + unat req < ?n")
    case False
    then show ?thesis using st n rd [of req] rq
      by (auto simp: oxcfxics_fill_ftcontext_fasttransfer_response_def ft_stepped_def ft_inv_def Let_def)
  next
    case True
    then obtain k where idx: "ft_next_cutmark_idx ft1 = 2 * k + 1" "k \<le> length ms" "ahead ms k (ft_pos ft)"
      and k0: "if ft_pos ft = 0 then k = 0 else ft_next_cutmark_idx ft = 2 * k + 1" using cut by auto
    have "marks_ok ms ?n" "?n < 2 ^ 32 - 1" "?pos + unat req < 2 ^ 32" using n True by simp_all
    from cut_buffer_size [OF this idx(2,3)] obtain k' b where
      c: "cut_buffer (mark_array ms) (2 * k + 1) ?pos req = Ok (b, 2 * k' + 1)" "k' \<le> length ms" "unat b \<le> unat req"
        "ahead ms k' (?pos + unat b)"
      and sz: "k' = k \<and> b = req \<or> k < k' \<and> snd (ms ! (k' - 1)) \<le> ?pos + unat b" by auto
    have m: "min ?n (?pos + unat b) = ?pos + unat b" "?pos + unat b < ?n" using True c(3) by simp_all
    have "k < k' \<Longrightarrow> 0 < snd (ms ! (k' - 1))" using marks_ok_nth [OF n(3), of "k' - 1"] c(2) by simp
    then have z: "?pos = 0 \<Longrightarrow> 0 < unat b" using sz rq by auto
    show ?thesis using st idx n(3,4) n(1,2) rd [of b] rq c m sz k0 z True
      by (auto simp: oxcfxics_fill_ftcontext_fasttransfer_response_def ft_stepped_def ft_inv_def ft_measure_def Let_def
          split: if_splits intro!: exI [of _ k'])
  qed
qed

text \<open>Enough requests finish the transfer.\<close>

lemma ft_download_pieces:
  assumes "ft_inv ms ft" and "list_all req_ok ns" and "ft_measure ft < length ns"
  shows "\<exists>rs ft'. ft_download ft ns = Ok (rs, ft') \<and> rs \<noteq> [] \<and> TransferStatus (last rs) = TransferStatus_Done \<and>
    concat (map TransferBuffer rs) = drop (ft_pos ft) (ft_buf ft) \<and>
    list_all2 (\<lambda>r n. length (TransferBuffer r) \<le> unat n) rs (take (length rs) ns)"
  using assms
proof (induction ns arbitrary: ft)
  case (Cons n ns)
  then obtain r ft' where f: "oxcfxics_fill_ftcontext_fasttransfer_response n ft = Ok (r, ft')" and st: "ft_stepped ms n ft r ft'"
    using fill_response [of ms ft n] by auto
  have len: "length (TransferBuffer r) \<le> unat n" using st by (auto simp: ft_stepped_def)
  show ?case
  proof (cases "TransferStatus r = TransferStatus_Done")
    case True
    with st have "TransferBuffer r = drop (ft_pos ft) (ft_buf ft)" by (simp add: ft_stepped_def)
    with True f len show ?thesis by simp
  next
    case False
    with st have "ft_inv ms ft'" "ft_measure ft' < ft_measure ft" by (auto simp: ft_stepped_def)
    with Cons.IH [of ft'] Cons.prems obtain rs ft'' where
      ih: "ft_download ft' ns = Ok (rs, ft'')" "rs \<noteq> []" "TransferStatus (last rs) = TransferStatus_Done"
        "concat (map TransferBuffer rs) = drop (ft_pos ft') (ft_buf ft')"
        "list_all2 (\<lambda>r n. length (TransferBuffer r) \<le> unat n) rs (take (length rs) ns)" by auto
    let ?d = "drop (ft_pos ft) (ft_buf ft)" and ?k = "ft_pos ft' - ft_pos ft"
    have "TransferBuffer r = take ?k ?d" "drop (ft_pos ft') (ft_buf ft') = drop ?k ?d" using st by (simp_all add: ft_stepped_def)
    then have "concat (map TransferBuffer (r # rs)) = take ?k ?d @ drop ?k ?d" using ih(4) by simp
    then have "concat (map TransferBuffer (r # rs)) = ?d" by (simp only: append_take_drop_id)
    with f False ih len show ?thesis by simp
  qed
qed simp

section \<open>The marks of the producer\<close>

text \<open>What the producer keeps true of its two buffers.\<close>

definition out_ok :: "fx_out \<Rightarrow> bool" where
  "out_ok out \<longleftrightarrow> (\<exists>ms. fx_marks out = concat (map (\<lambda>(m, p). [m, of_nat p]) ms) \<and> marks_ok ms (length (fx_bytes out)))"

definition out_empty :: fx_out where
  "out_empty = \<lparr>fx_bytes = [], fx_marks = []\<rparr>"

lemma out_ok_empty: "out_ok out_empty"
  by (auto simp: out_ok_def out_empty_def marks_ok_def intro!: exI [of _ "[]"])

lemma out_ok_bytes: "out_ok out \<Longrightarrow> out_ok (push_bytes bs out)"
  by (fastforce simp: out_ok_def push_bytes_def marks_ok_def)

lemma out_ok_mark:
  assumes "out_ok out" and "fx_bytes out \<noteq> []" shows "out_ok (push_mark m out)"
proof -
  from assms(1) obtain ms where ms: "fx_marks out = concat (map (\<lambda>(m, p). [m, of_nat p]) ms)" "marks_ok ms (length (fx_bytes out))"
    by (auto simp: out_ok_def)
  with assms(2) have "marks_ok (ms @ [(m, length (fx_bytes out))]) (length (fx_bytes out))"
    by (auto simp: marks_ok_def sorted_append)
  with ms(1) show ?thesis unfolding out_ok_def push_mark_def
    by (intro exI [of _ "ms @ [(m, length (fx_bytes out))]"]) simp
qed

lemma push_fields [simp]:
  "fx_bytes (push_bytes bs out) = fx_bytes out @ bs" "fx_marks (push_bytes bs out) = fx_marks out"
  "fx_bytes (push_mark m out) = fx_bytes out"
  by (simp_all add: push_bytes_def push_mark_def)

lemma push_value_ok:
  assumes "push_value G t v out = Ok out'" and "out_ok out" and "fx_bytes out \<noteq> []"
  shows "out_ok out'"
  using assms by (auto simp: push_value_def intro!: out_ok_mark out_ok_bytes)

lemma push_property_ok:
  assumes "fx_laws G" and "push_property G nprops p out = Ok out'" and "out_ok out"
  shows "out_ok out'"
proof -
  have "ndr_push_uint32 G t \<noteq> []" for t using assms(1) by (auto simp: fx_laws_def eval_nat_numeral)
  with assms(2,3) show ?thesis
    by (auto simp: push_property_def Let_def split: prod.splits if_splits option.splits
        intro: out_ok_bytes elim!: push_value_ok)
qed

lemma push_properties_ok:
  assumes "fx_laws G" and "oxcfxics_ndr_push_properties G nprops ps out = Ok out'" and "out_ok out"
  shows "out_ok out'"
  using assms(2,3) by (induction ps arbitrary: out) (auto dest: push_property_ok [OF assms(1)])

lemma ft_open_inv:
  assumes "out_ok out" and "length (fx_bytes out) < 2 ^ 32 - 2 ^ 16"
  shows "\<exists>ms. ft_inv ms (ft_open out)"
  using assms by (auto simp: out_ok_def ft_inv_def ft_open_def mark_array_def)

lemma ft_open_measure: "ft_measure (ft_open out) = length (fx_bytes out) + length (fx_marks out) + 1"
  by (simp add: ft_measure_def ft_open_def)

text \<open>What was pushed arrives, whatever sizes the client asks for.\<close>

lemma ft_download_all:
  assumes "out_ok out" and "length (fx_bytes out) < 2 ^ 32 - 2 ^ 16" and "list_all req_ok ns"
    and "length (fx_bytes out) + length (fx_marks out) + 1 < length ns"
  shows "\<exists>rs ft'. ft_download (ft_open out) ns = Ok (rs, ft') \<and> rs \<noteq> [] \<and> TransferStatus (last rs) = TransferStatus_Done \<and>
    concat (map TransferBuffer rs) = fx_bytes out \<and>
    list_all2 (\<lambda>r n. length (TransferBuffer r) \<le> unat n) rs (take (length rs) ns)"
proof -
  from ft_open_inv [OF assms(1,2)] obtain ms where "ft_inv ms (ft_open out)" ..
  from ft_download_pieces [OF this assms(3)] assms(4) show ?thesis
    by (simp add: ft_open_measure) (simp add: ft_open_def)
qed

end
