(* ===== verification/Oxcfxics_Download.thy ===== *)
theory Oxcfxics_Download
  imports Oxcfxics_Transfer Fxparser_Stream
begin

unbundle bit_operations_syntax

text \<open>
  From the server to the client: properties that the server pushes and cuts into buffers, and what the
  parser of the client delivers for them.
\<close>

section \<open>What is delivered\<close>

text \<open>The value a client gets for a value of the server. An 8-bit string keeps its terminating zero, a
  boolean becomes 0 or 1, a GUID its bytes on the wire. The other combinations are not read back.\<close>

definition delivered :: "'g fx_lib \<Rightarrow> u32 \<Rightarrow> 'g fx_data \<Rightarrow> prop_value option" where
  "delivered G property v =
     (let t = prop_type property; give = (\<lambda>ts w. if t \<in> set ts then Some w else None) in
      case v of
        FxShort x \<Rightarrow> give [PT_SHORT] (VShort x)
      | FxLong x \<Rightarrow> if t = PT_ERROR then Some (VError x) else give [PT_LONG] (VLong x)
      | FxDouble x \<Rightarrow> give [PT_DOUBLE] (VDouble x)
      | FxI8 x \<Rightarrow> give [PT_I8] (VI8 x)
      | FxBoolean x \<Rightarrow> give [PT_BOOLEAN] (VBoolean (if x \<noteq> 0 then 1 else 0))
      | FxString s \<Rightarrow> if t = PT_STRING8 then Some (VString8 (s @ [0])) else give [PT_UNICODE] (VUnicode s)
      | FxBinary bs \<Rightarrow> give [PT_BINARY, PT_SVREID] (VBinary bs)
      | FxClsid g \<Rightarrow> give [PT_CLSID] (VClsid (ndr_push_GUID G g))
      | FxSysTime ft \<Rightarrow> give [PT_SYSTIME] (VSysTime ft)
      | FxShortArray xs \<Rightarrow> give [PT_MV_SHORT] (VMVShort xs)
      | FxLongArray xs \<Rightarrow> give [PT_MV_LONG] (VMVLong xs)
      | FxBinaryArray xs \<Rightarrow> give [PT_MV_BINARY] (VMVBinary xs)
      | FxStringArrayW xs \<Rightarrow> give [PT_MV_UNICODE] (VMVUnicode xs)
      | _ \<Rightarrow> None)"

text \<open>What is relied on for a string in UTF-16: its announced length is right, the client's conversion takes
  it back, and, for a name, the first zero code unit ends it.\<close>

definition string_ok :: "'g fx_lib \<Rightarrow> (u8 list \<Rightarrow> u8 list) \<Rightarrow> u8 list \<Rightarrow> bool" where
  "string_ok G ucs2 s \<longleftrightarrow>
     length (ndr_push_utf16 G s) = strlen_m_ext G s * 2 + 2 \<and> ucs2 (ndr_push_utf16 G s) = s \<and>
     find_ucs2_null (ndr_push_utf16 G s) 0 = Some (length (ndr_push_utf16 G s))"

fun strings_ok :: "'g fx_lib \<Rightarrow> (u8 list \<Rightarrow> u8 list) \<Rightarrow> 'g fx_data \<Rightarrow> bool" where
  "strings_ok G ucs2 (FxString s) = string_ok G ucs2 s"
| "strings_ok G ucs2 (FxStringArrayW ss) = list_all (string_ok G ucs2) ss"
| "strings_ok G ucs2 v = True"

fun name_ok :: "'g fx_lib \<Rightarrow> (u8 list \<Rightarrow> u8 list) \<Rightarrow> name_kind \<Rightarrow> bool" where
  "name_ok G ucs2 (MNID_ID lid) = True"
| "name_ok G ucs2 (MNID_STRING nm) = string_ok G ucs2 nm"

section \<open>Values\<close>

lemma fx_laws_eqs:
  assumes "fx_laws G"
  shows "ndr_push_uint16 G a = le_bytes 2 a" "ndr_push_uint32 G b = le_bytes 4 b" "ndr_push_dlong G c = le_bytes 8 c"
    "ndr_push_double G c = le_bytes 8 c" "ndr_push_ascii G s = s @ [0]"
    "ndr_push_Binary_r G bs = le_bytes 4 (of_nat (length bs) :: u32) @ bs"
    "ndr_push_FILETIME G ft = le_bytes 4 (fst ft) @ le_bytes 4 (snd ft)" "length (ndr_push_GUID G g) = 16"
  using assms by (cases ft; simp add: fx_laws_def)+

lemmas reads_unicode_bytes = reads_unicode [unfolded counted_def]

text \<open>The pieces of an array, one after the other.\<close>

lemma push_each_map:
  assumes "\<And>x. x \<in> set xs \<Longrightarrow> oxcfxics_ndr_push_simple_data G t (f x) = Ok (e x)"
  shows "push_each G t (map f xs) = Ok (concat (map e xs))"
  using assms by (induction xs) auto

lemma push_array_map:
  assumes "fx_laws G" and "\<And>x. x \<in> set xs \<Longrightarrow> oxcfxics_ndr_push_simple_data G t (f x) = Ok (e x)"
  shows "push_array G t (map f xs) = Ok (le_bytes 4 (of_nat (length xs) :: u32) @ concat (map e xs))"
  using push_each_map [of xs G t f e] assms by (simp add: push_array_def fx_laws_eqs)

lemma mv_types:
  "(0x1002 :: u32) AND 0xfff = 0x2" "(0x1003 :: u32) AND 0xfff = 0x3" "(0x1102 :: u32) AND 0xfff = 0x102"
  "(0x101f :: u32) AND 0xfff = 0x1f"
  by simp_all

lemmas push_simps = push_data_def push_multi_value_def oxcfxics_ndr_push_simple_data_def
  oxcfxics_compute_cutmark_min_value_buffer_def fetch_property_value_def pull_double_def

text \<open>A value is pushed as bytes that the client's puller for its type reads back.\<close>

definition carried :: "'g fx_lib \<Rightarrow> (u8 list \<Rightarrow> u8 list) \<Rightarrow> u32 \<Rightarrow> 'g fx_data \<Rightarrow> prop_value \<Rightarrow> bool" where
  "carried G ucs2 property v w \<longleftrightarrow>
     (\<exists>bs m. push_data G property v = Ok (bs, m) \<and> bs \<noteq> [] \<and> reads (fetch_property_value ucs2 property) bs w)"

lemma carriedI:
  assumes "push_data G property v = Ok (bs, m)" and "fetch_property_value ucs2 property = pull_map c f"
    and "reads f bs x" and "bs \<noteq> []" and "w = c x"
  shows "carried G ucs2 property v w"
  using assms reads_map [OF assms(3), of c] by (auto simp: carried_def)

lemma le_bytes_ne: "le_bytes 2 a \<noteq> []" "le_bytes 4 a \<noteq> []" "le_bytes 8 a \<noteq> []"
  by (simp_all add: eval_nat_numeral)

lemma carried_scalars:
  assumes G: "fx_laws G" and t: "prop_type property = t"
  shows
    "t = PT_SHORT \<Longrightarrow> carried G ucs2 property (FxShort a) (VShort a)"
    "t = PT_LONG \<Longrightarrow> carried G ucs2 property (FxLong b) (VLong b)"
    "t = PT_ERROR \<Longrightarrow> carried G ucs2 property (FxLong b) (VError b)"
    "t = PT_DOUBLE \<Longrightarrow> carried G ucs2 property (FxDouble c) (VDouble c)"
    "t = PT_I8 \<Longrightarrow> carried G ucs2 property (FxI8 c) (VI8 c)"
  using t [unfolded prop_type_def]
  by (auto simp: push_simps prop_type_def fx_laws_eqs [OF G] le_bytes_ne intro!: carriedI reads_basic)

lemma carried_bytes:
  assumes G: "fx_laws G" and t: "prop_type property = t"
  shows
    "t = PT_STRING8 \<Longrightarrow> carried G ucs2 property (FxString s) (VString8 (s @ [0]))"
    "t = PT_BINARY \<or> t = PT_SVREID \<Longrightarrow> carried G ucs2 property (FxBinary bs) (VBinary bs)"
    "t = PT_CLSID \<Longrightarrow> carried G ucs2 property (FxClsid g) (VClsid (ndr_push_GUID G g))"
    "t = PT_SYSTIME \<Longrightarrow> carried G ucs2 property (FxSysTime ft) (VSysTime ft)"
    "t = PT_BOOLEAN \<Longrightarrow> carried G ucs2 property (FxBoolean b) (VBoolean (if b \<noteq> 0 then 1 else 0))"
proof -
  note t' = t [unfolded prop_type_def]
  show "t = PT_STRING8 \<Longrightarrow> carried G ucs2 property (FxString s) (VString8 (s @ [0]))"
    using t' reads_string8 [of "s @ [0]", unfolded counted_def]
    by (intro carriedI [where c = VString8 and f = pull_string8 and bs = "le_bytes 4 (of_nat (length (s @ [0])) :: u32) @ s @ [0]"]) (simp_all add: push_simps prop_type_def fx_laws_eqs [OF G] le_bytes_ne)
  show "t = PT_BINARY \<or> t = PT_SVREID \<Longrightarrow> carried G ucs2 property (FxBinary bs) (VBinary bs)"
    using t' reads_binary [of bs, unfolded counted_def]
    by (intro carriedI [where c = VBinary and f = pull_binary and bs = "le_bytes 4 (of_nat (length bs) :: u32) @ bs"])
      (auto simp: push_simps prop_type_def fx_laws_eqs [OF G] le_bytes_ne)
  have "ndr_push_GUID G g \<noteq> []" using fx_laws_eqs(8) [OF G, of g] by auto
  then show "t = PT_CLSID \<Longrightarrow> carried G ucs2 property (FxClsid g) (VClsid (ndr_push_GUID G g))"
    using t' reads_clsid [OF fx_laws_eqs(8) [OF G, of g]]
    by (intro carriedI [where c = VClsid and f = pull_clsid and bs = "ndr_push_GUID G g"]) (simp_all add: push_simps prop_type_def)
  show "t = PT_SYSTIME \<Longrightarrow> carried G ucs2 property (FxSysTime ft) (VSysTime ft)"
    using t' reads_systime [of ft, unfolded enc_time_def]
    by (intro carriedI [where c = VSysTime and f = pull_systime and bs = "le_bytes 4 (fst ft) @ le_bytes 4 (snd ft)"]) (simp_all add: push_simps prop_type_def fx_laws_eqs [OF G] le_bytes_ne)
  have "le_bytes 2 (if b \<noteq> 0 then 1 else 0 :: u16) = [if b \<noteq> 0 then 1 else 0, 0]" by (simp add: le_bytes_numeral)
  then show "t = PT_BOOLEAN \<Longrightarrow> carried G ucs2 property (FxBoolean b) (VBoolean (if b \<noteq> 0 then 1 else 0))"
    using t' reads_boolean
    by (intro carriedI [where c = VBoolean and f = pull_boolean and bs = "[if b \<noteq> 0 then 1 else 0, 0]"]) (simp_all add: push_simps prop_type_def fx_laws_eqs [OF G])
qed

lemma push_unicode:
  assumes "fx_laws G" and "string_ok G ucs2 s"
  shows "oxcfxics_ndr_push_simple_data G PT_UNICODE (FxString s) =
    Ok (le_bytes 4 (of_nat (length (ndr_push_utf16 G s)) :: u32) @ ndr_push_utf16 G s)"
  using assms(2) by (simp add: oxcfxics_ndr_push_simple_data_def fx_laws_eqs [OF assms(1)] string_ok_def)

lemma carried_unicode:
  assumes G: "fx_laws G" and "prop_type property = PT_UNICODE" and ok: "string_ok G ucs2 s"
  shows "carried G ucs2 property (FxString s) (VUnicode s)"
proof (rule carriedI)
  show "push_data G property (FxString s) = Ok (le_bytes 4 (of_nat (length (ndr_push_utf16 G s)) :: u32) @ ndr_push_utf16 G s, 8)"
    using assms(2) by (simp add: push_data_def push_unicode [OF G ok] oxcfxics_compute_cutmark_min_value_buffer_def)
  show "fetch_property_value ucs2 property = pull_map VUnicode (pull_unicode ucs2)"
    using assms(2) by (simp add: fetch_property_value_def prop_type_def)
  show "VUnicode s = VUnicode (ucs2 (ndr_push_utf16 G s))" using ok by (simp add: string_ok_def)
qed (simp_all add: reads_unicode_bytes le_bytes_ne)

text \<open>An array is carried when its elements are.\<close>

lemma carried_array:
  assumes "fx_laws G" and "push_data G property v = obind (push_array G t (map f xs)) (\<lambda>bs. Ok (bs, m))"
    and "\<And>x. x \<in> set xs \<Longrightarrow> oxcfxics_ndr_push_simple_data G t (f x) = Ok (e x)"
    and "fetch_property_value ucs2 property = pull_map c (pull_multi early k g)"
    and "\<And>x. x \<in> set xs \<Longrightarrow> reads g (e x) x" and "\<And>x. x \<in> set xs \<Longrightarrow> unat k \<le> length (e x)" and "1 \<le> unat k"
  shows "carried G ucs2 property v (c xs)"
  using assms(2,4) reads_multi [of xs g e "\<lambda>x. x" k early, OF assms(5-7), unfolded enc_multi_def] push_array_map [OF assms(1), of xs t f e, OF assms(3)]
  by (intro carriedI [where c = c and x = xs and m = m and bs = "le_bytes 4 (of_nat (length xs) :: u32) @ concat (map e xs)"])
    (simp_all add: le_bytes_ne)

lemma carried_arrays:
  assumes G: "fx_laws G" and t: "prop_type property = t"
  shows
    "t = PT_MV_SHORT \<Longrightarrow> carried G ucs2 property (FxShortArray xs) (VMVShort xs)"
    "t = PT_MV_LONG \<Longrightarrow> carried G ucs2 property (FxLongArray ys) (VMVLong ys)"
    "t = PT_MV_BINARY \<Longrightarrow> carried G ucs2 property (FxBinaryArray zs) (VMVBinary zs)"
    "t = PT_MV_UNICODE \<Longrightarrow> list_all (string_ok G ucs2) ss \<Longrightarrow> carried G ucs2 property (FxStringArrayW ss) (VMVUnicode ss)"
proof -
  note t' = t [unfolded prop_type_def]
  note simps = push_simps prop_type_def fx_laws_eqs [OF G] mv_types
  show "t = PT_MV_SHORT \<Longrightarrow> carried G ucs2 property (FxShortArray xs) (VMVShort xs)"
    using t' reads_basic(2)
    by (intro carried_array [OF G, where f = FxShort and t = PT_SHORT and e = "le_bytes 2"]) (auto simp: simps)
  show "t = PT_MV_LONG \<Longrightarrow> carried G ucs2 property (FxLongArray ys) (VMVLong ys)"
    using t' reads_basic(1)
    by (intro carried_array [OF G, where f = FxLong and t = PT_LONG and e = "le_bytes 4"]) (auto simp: simps)
  show "t = PT_MV_BINARY \<Longrightarrow> carried G ucs2 property (FxBinaryArray zs) (VMVBinary zs)"
    using t' reads_binary [unfolded counted_def]
    by (intro carried_array [OF G, where f = FxBinary and t = PT_BINARY and e = "\<lambda>bs. le_bytes 4 (of_nat (length bs) :: u32) @ bs"])
      (auto simp: simps)
  have u: "string_ok G ucs2 s \<Longrightarrow> reads (pull_unicode ucs2) (le_bytes 4 (of_nat (length (ndr_push_utf16 G s)) :: u32) @ ndr_push_utf16 G s) s" for s
    using reads_unicode_bytes [of ucs2 "ndr_push_utf16 G s"] by (simp add: string_ok_def)
  show "t = PT_MV_UNICODE \<Longrightarrow> list_all (string_ok G ucs2) ss \<Longrightarrow> carried G ucs2 property (FxStringArrayW ss) (VMVUnicode ss)"
    using t' u push_unicode [OF G]
    by (intro carried_array [OF G, where f = FxString and t = PT_UNICODE
          and e = "\<lambda>s. le_bytes 4 (of_nat (length (ndr_push_utf16 G s)) :: u32) @ ndr_push_utf16 G s"])
      (auto simp: push_data_def push_multi_value_def oxcfxics_compute_cutmark_min_value_buffer_def fetch_property_value_def
        prop_type_def mv_types list_all_iff)
qed

lemma carried_delivered:
  assumes "fx_laws G" and "delivered G property v = Some w" and "strings_ok G ucs2 v"
  shows "carried G ucs2 property v w"
proof (cases v)
  case (FxBoolean b)
  with assms(2) have "prop_type property = PT_BOOLEAN" "w = VBoolean (if b \<noteq> 0 then 1 else 0)"
    by (simp_all add: delivered_def split: if_split_asm)
  with FxBoolean carried_bytes(5) [OF assms(1) refl] show ?thesis by (simp only:)
qed (use assms(2,3) in \<open>auto simp: delivered_def Let_def carried_scalars [OF assms(1) refl] carried_bytes(1-4) [OF assms(1) refl]
    carried_unicode [OF assms(1)] carried_arrays [OF assms(1) refl] split: if_splits\<close>)

section \<open>Names\<close>

text \<open>The fields of a GUID, from its bytes on the wire.\<close>

definition fx_guid_of :: "u8 list \<Rightarrow> fx_guid" where
  "fx_guid_of bs =
     \<lparr>time_low = le_value (take 4 bs), time_mid = le_value (take 2 (drop 4 bs)),
      time_hi_and_version = le_value (take 2 (drop 6 bs)), clock_seq = take 2 (drop 8 bs), node = drop 10 bs\<rparr>"

lemma le_bytes_le_value:
  assumes "length bs = n" and "8 * n \<le> LENGTH('a::len)" shows "le_bytes n (le_value bs :: 'a word) = bs"
proof (rule nth_equalityI)
  fix i assume "i < length (le_bytes n (le_value bs :: 'a word))"
  then have i: "i < n" by simp
  show "le_bytes n (le_value bs :: 'a word) ! i = bs ! i"
  proof (rule bit_word_eqI)
    fix k assume "k < LENGTH(8)"
    then have k: "k < 8" by simp
    have "(8 * i + k) div 8 = i" "(8 * i + k) mod 8 = k" using k by simp_all
    moreover have "8 * i + k < LENGTH('a)" using i k assms(2) by linarith
    ultimately show "bit (le_bytes n (le_value bs :: 'a word) ! i) k = bit (bs ! i) k"
      using i k assms(1) by (simp add: nth_le_bytes bit_simps bit_le_value)
  qed
qed (use assms in simp)

lemma reads_word32: "length bs = 4 \<Longrightarrow> reads pull_uint32_t bs (le_value bs)"
  using reads_basic(1) [of "le_value bs"] by (simp add: le_bytes_le_value)

lemma reads_word16: "length bs = 2 \<Longrightarrow> reads pull_uint16_t bs (le_value bs)"
  using reads_basic(2) [of "le_value bs"] by (simp add: le_bytes_le_value)

lemma reads_guid_bytes:
  assumes "length bs = 16" shows "reads pull_guid bs (fx_guid_of bs)"
proof -
  let ?a = "take 4 bs" and ?b = "take 2 (drop 4 bs)" and ?c = "take 2 (drop 6 bs)" and ?n = "drop 10 bs"
  let ?x = "bs ! 8" and ?y = "bs ! 9"
  have "drop 8 bs = ?x # drop 9 bs" "drop 9 bs = ?y # ?n" using assms Cons_nth_drop_Suc [of 8 bs] Cons_nth_drop_Suc [of 9 bs] by simp_all
  then have d: "drop 8 bs = ?x # ?y # ?n" by simp
  have "?a @ drop 4 bs = bs" "?b @ drop 6 bs = drop 4 bs" "?c @ drop 8 bs = drop 6 bs"
    using append_take_drop_id [of 4 bs] append_take_drop_id [of 2 "drop 4 bs"] append_take_drop_id [of 2 "drop 6 bs"] by simp_all
  then have bs: "bs = ?a @ ?b @ ?c @ [?x] @ [?y] @ ?n @ []" using d by simp
  have n6: "reads (pull_repeat 6 pull_uint8_t) ?n ?n" using reads_bytes [of ?n] assms by simp
  have g: "fx_guid_of bs = \<lparr>time_low = le_value ?a, time_mid = le_value ?b, time_hi_and_version = le_value ?c,
      clock_seq = [?x, ?y], node = ?n\<rparr>" by (simp add: fx_guid_of_def d)
  have la: "length ?a = 4" "length ?b = 2" "length ?c = 2" using assms by simp_all
  have "reads pull_guid (?a @ ?b @ ?c @ [?x] @ [?y] @ ?n @ []) (fx_guid_of bs)"
    unfolding pull_guid_def g using assms
    by (intro reads_need reads_bind [OF reads_word32 [OF la(1)]] reads_bind [OF reads_word16 [OF la(2)]]
        reads_bind [OF reads_word16 [OF la(3)]] reads_bind [OF reads_basic(4)] reads_bind [OF n6] reads_return) simp_all
  then show ?thesis using bs by simp
qed

lemma reads_nullterminated:
  assumes "find_ucs2_null bs 0 = Some (length bs)"
  shows "reads fetch_ucs2_nullterminated bs bs"
  unfolding reads_def
proof (intro allI impI)
  fix pre rest :: "u8 list" assume s: "small (pre @ bs @ rest)"
  have "find_ucs2_null (pre @ bs @ rest) (length pre) = Some (length pre + length bs)"
    using find_null_shift [of pre "bs @ rest" 0] find_null_extend [OF assms, of rest] by simp
  moreover have "reads (fetch_ucs2_data (of_nat (length bs))) bs bs" using s by (intro reads_ucs2_data small_middle)
  ultimately show "fetch_ucs2_nullterminated (pre @ bs @ rest) (length pre) = Ok (Some (bs, length pre + length bs))"
    using s by (simp add: fetch_ucs2_nullterminated_def reads_def)
qed

lemma reads_pushed_name:
  assumes G: "fx_laws G" and ok: "name_ok G ucs2 (snd nameid)"
  shows "reads (pull_named_property ucs2) (push_name G nameid) (fx_guid_of (ndr_push_GUID G (fst nameid)), snd nameid)"
proof -
  let ?g = "fx_guid_of (ndr_push_GUID G (fst nameid))"
  note g = reads_guid_bytes [OF fx_laws_eqs(8) [OF G, of "fst nameid"]]
  show ?thesis
  proof (cases "snd nameid")
    case (MNID_ID lid)
    have "reads (pull_bind pull_uint32_t (\<lambda>lid. pull_return (?g, MNID_ID lid))) (le_bytes 4 lid) (?g, MNID_ID lid)"
      using reads_map [OF reads_basic(1), of "\<lambda>lid. (?g, MNID_ID lid)"] by (simp add: pull_map_def)
    then have "reads (pull_named_property ucs2) (ndr_push_GUID G (fst nameid) @ [0] @ le_bytes 4 lid @ [])
        (fx_guid_of (ndr_push_GUID G (fst nameid)), MNID_ID lid)"
      unfolding pull_named_property_def
      by (intro reads_bind [OF g] reads_bind [OF reads_basic(4)]) simp
    then show ?thesis using MNID_ID by (simp add: push_name_def fx_laws_eqs [OF G])
  next
    case (MNID_STRING nm)
    let ?u = "ndr_push_utf16 G nm"
    have u: "reads fetch_ucs2_nullterminated ?u ?u" "ucs2 ?u = nm"
      using ok MNID_STRING by (auto simp: string_ok_def intro: reads_nullterminated)
    have "reads (pull_bind fetch_ucs2_nullterminated (\<lambda>bs. pull_return (?g, MNID_STRING (ucs2 bs)))) ?u (?g, MNID_STRING nm)"
      using reads_map [OF u(1), of "\<lambda>bs. (?g, MNID_STRING (ucs2 bs))"] u(2) by (simp add: pull_map_def)
    then have "reads (pull_named_property ucs2) (ndr_push_GUID G (fst nameid) @ [1] @ ?u @ [])
        (fx_guid_of (ndr_push_GUID G (fst nameid)), MNID_STRING nm)"
      unfolding pull_named_property_def
      by (intro reads_bind [OF g] reads_bind [OF reads_basic(4)]) simp
    then show ?thesis using MNID_STRING by (simp add: push_name_def)
  qed
qed

lemma push_name_ne: "fx_laws G \<Longrightarrow> push_name G nameid \<noteq> []"
  using fx_laws_eqs(8) [of G "fst nameid"] by (auto simp: push_name_def)

section \<open>Properties\<close>

text \<open>What the callbacks of the client see of a property; a property that could not be fetched is left out.\<close>

definition is_named :: "u32 \<Rightarrow> bool" where
  "is_named property \<longleftrightarrow> drop_bit 16 property AND 0x8000 \<noteq> 0"

lemma is_named_iff: "is_named property \<longleftrightarrow> property \<ge> 0x80000000"
proof -
  have "drop_bit 16 property AND 0x8000 \<noteq> 0 \<longleftrightarrow> bit (drop_bit 16 property) 15"
    using and_exp_eq_0_iff_not_bit [of "drop_bit 16 property" 15] by simp
  also have "\<dots> \<longleftrightarrow> bit property 31" by (simp add: bit_simps)
  also have "\<dots> \<longleftrightarrow> bit (unat property) 31" by (simp add: bit_unsigned_iff)
  also have "\<dots> \<longleftrightarrow> odd (unat property div 2 ^ 31)" by (simp add: bit_nat_def)
  also have "\<dots> \<longleftrightarrow> 2 ^ 31 \<le> unat property"
  proof -
    have "unat property < 2 * 2 ^ 31" using u32_less [of property] by simp
    then have "unat property div 2 ^ 31 < 2" by (simp add: less_mult_imp_div_less)
    moreover have "unat property div 2 ^ 31 = 0 \<longleftrightarrow> unat property < 2 ^ 31" by (simp add: div_eq_0_iff)
    ultimately show ?thesis by (cases "unat property div 2 ^ 31") auto
  qed
  finally show ?thesis by (simp add: is_named_def word_le_nat_alt)
qed

text \<open>A property as the server holds it: tag, status, value. It is well-formed when its tag is not one of the
  stream's own, its value fits its type and, for a named one, its name is known.\<close>

fun property_ok :: "'g fx_lib \<Rightarrow> (u8 list \<Rightarrow> u8 list) \<Rightarrow> (u16 \<Rightarrow> ('g \<times> name_kind) option) \<Rightarrow> u32 \<times> MAPISTATUS \<times> 'g fx_data \<Rightarrow> bool" where
  "property_ok G ucs2 nprops (property, retval, v) =
     (retval \<noteq> MAPI_E_SUCCESS \<or>
      property \<notin> set fx_markers \<and> property \<noteq> MetaTagFXDelProp \<and> delivered G property v \<noteq> None \<and> strings_ok G ucs2 v \<and>
      (is_named property \<longrightarrow>
         (case nprops (ucast (drop_bit 16 property)) of None \<Rightarrow> False | Some nameid \<Rightarrow> name_ok G ucs2 (snd nameid))))"

fun property_seen :: "'g fx_lib \<Rightarrow> (u16 \<Rightarrow> ('g \<times> name_kind) option) \<Rightarrow> u32 \<times> MAPISTATUS \<times> 'g fx_data \<Rightarrow> fx_element list" where
  "property_seen G nprops (property, retval, v) =
     (if retval \<noteq> MAPI_E_SUCCESS then []
      else
        (if is_named property then
           (case nprops (ucast (drop_bit 16 property)) of
              None \<Rightarrow> []
            | Some nameid \<Rightarrow> [Name property (fx_guid_of (ndr_push_GUID G (fst nameid)), snd nameid)])
         else []) @
        [Prop property (the (delivered G property v))])"

text \<open>Bytes that take the parser from the start of an element to the start of the next.\<close>

definition transfers :: "(u8 list \<Rightarrow> u8 list) \<Rightarrow> u8 list \<Rightarrow> fx_element list \<Rightarrow> bool" where
  "transfers ucs2 bs els \<longleftrightarrow>
     (\<forall>es pre rest t0. small (pre @ bs @ rest) \<longrightarrow>
        (\<exists>t. fxparser_loop ucs2 (fx_at es pre (bs @ rest) ParserState_Entry t0) =
           fxparser_loop ucs2 (fx_at (es @ els) (pre @ bs) rest ParserState_Entry t)))"

lemma transfers_Nil: "transfers ucs2 [] []"
  by (auto simp: transfers_def)

lemma transfers_append:
  assumes "transfers ucs2 as els" and "transfers ucs2 bs els'"
  shows "transfers ucs2 (as @ bs) (els @ els')"
  unfolding transfers_def
proof (intro allI impI)
  fix es pre rest t0 assume s: "small (pre @ (as @ bs) @ rest)"
  obtain t1 where "fxparser_loop ucs2 (fx_at es pre (as @ bs @ rest) ParserState_Entry t0) =
      fxparser_loop ucs2 (fx_at (es @ els) (pre @ as) (bs @ rest) ParserState_Entry t1)"
    using assms(1) s unfolding transfers_def by (metis append_assoc)
  moreover obtain t2 where "fxparser_loop ucs2 (fx_at (es @ els) (pre @ as) (bs @ rest) ParserState_Entry t1) =
      fxparser_loop ucs2 (fx_at ((es @ els) @ els') ((pre @ as) @ bs) rest ParserState_Entry t2)"
    using assms(2) s unfolding transfers_def by (metis append_assoc)
  ultimately show "\<exists>t. fxparser_loop ucs2 (fx_at es pre ((as @ bs) @ rest) ParserState_Entry t0) =
      fxparser_loop ucs2 (fx_at (es @ els @ els') (pre @ as @ bs) rest ParserState_Entry t)" by auto
qed

text \<open>The two ways from a tag to the value, and the value.\<close>

lemma at_plain:
  assumes "t \<notin> set fx_markers" and "t \<noteq> MetaTagFXDelProp" and "\<not> is_named t" and "rest \<noteq> []"
  shows "fxparser_loop ucs2 (fx_at es pre rest ParserState_HaveTag t) = fxparser_loop ucs2 (fx_at es pre rest ParserState_HavePropTag t)"
proof -
  have "fxparser_round ucs2 (fx_at es pre rest ParserState_HaveTag t) = Ok (MAPI_E_SUCCESS, fx_at es pre rest ParserState_HavePropTag t)"
    using assms by (simp add: fxparser_round_def fx_at_fields is_named_def) (simp add: fx_at_def)
  from loop_step [OF _ _ this] assms(4) show ?thesis by (simp add: fx_at_fields)
qed

lemma at_name:
  assumes "t \<notin> set fx_markers" and "t \<noteq> MetaTagFXDelProp" and "is_named t" and "reads (pull_named_property ucs2) nb nm"
    and "nb \<noteq> []" and "small (pre @ nb @ rest)"
  shows "fxparser_loop ucs2 (fx_at es pre (nb @ rest) ParserState_HaveTag t) =
    fxparser_loop ucs2 (fx_at (es @ [Name t nm]) (pre @ nb) rest ParserState_HavePropTag t)"
proof -
  have "fxparser_round ucs2 (fx_at es pre (nb @ rest) ParserState_HaveTag t) =
      Ok (MAPI_E_SUCCESS, fx_at (es @ [Name t nm]) (pre @ nb) rest ParserState_HavePropTag t)"
    using assms unfolding reads_def
    by (simp add: fxparser_round_def fx_at_fields is_named_def) (simp add: fx_at_def recorder_defs callback_def)
  from loop_step [OF _ _ this] assms(5) show ?thesis by (simp add: fx_at_fields)
qed

lemma at_pushed_value:
  assumes "reads (fetch_property_value ucs2 t) vb v" and "vb \<noteq> []" and "small (pre @ vb @ rest)"
  shows "fxparser_loop ucs2 (fx_at es pre (vb @ rest) ParserState_HavePropTag t) =
    fxparser_loop ucs2 (fx_at (es @ [Prop t v]) (pre @ vb) rest ParserState_Entry t)"
proof -
  have "fxparser_round ucs2 (fx_at es pre (vb @ rest) ParserState_HavePropTag t) =
      Ok (MAPI_E_SUCCESS, fx_at (es @ [Prop t v]) (pre @ vb) rest ParserState_Entry t)"
    using assms unfolding reads_def
    by (simp add: fxparser_round_def fx_at_fields) (simp add: fx_at_def recorder_defs callback_def)
  from loop_step [OF _ _ this] assms(2) show ?thesis by (simp add: fx_at_fields)
qed

lemma transfers_plain:
  assumes "t \<notin> set fx_markers" and "t \<noteq> MetaTagFXDelProp" and "\<not> is_named t" and "reads (fetch_property_value ucs2 t) vb v"
    and "vb \<noteq> []"
  shows "transfers ucs2 (le_bytes 4 t @ vb) [Prop t v]"
  unfolding transfers_def
proof (intro allI impI exI)
  fix es pre rest t0 assume s: "small (pre @ (le_bytes 4 t @ vb) @ rest)"
  show "fxparser_loop ucs2 (fx_at es pre ((le_bytes 4 t @ vb) @ rest) ParserState_Entry t0) =
      fxparser_loop ucs2 (fx_at (es @ [Prop t v]) (pre @ le_bytes 4 t @ vb) rest ParserState_Entry t)"
    using at_tag [of pre t "vb @ rest" ucs2 es t0] at_plain [OF assms(1-3), of "vb @ rest" ucs2 es "pre @ le_bytes 4 t"]
      at_pushed_value [OF assms(4,5), of "pre @ le_bytes 4 t" rest es] s assms(5) by simp
qed

lemma transfers_named:
  assumes "t \<notin> set fx_markers" and "t \<noteq> MetaTagFXDelProp" and "is_named t" and "reads (pull_named_property ucs2) nb nm" and "nb \<noteq> []"
    and "reads (fetch_property_value ucs2 t) vb v" and "vb \<noteq> []"
  shows "transfers ucs2 (le_bytes 4 t @ nb @ vb) [Name t nm, Prop t v]"
  unfolding transfers_def
proof (intro allI impI exI)
  fix es pre rest t0 assume s: "small (pre @ (le_bytes 4 t @ nb @ vb) @ rest)"
  show "fxparser_loop ucs2 (fx_at es pre ((le_bytes 4 t @ nb @ vb) @ rest) ParserState_Entry t0) =
      fxparser_loop ucs2 (fx_at (es @ [Name t nm, Prop t v]) (pre @ le_bytes 4 t @ nb @ vb) rest ParserState_Entry t)"
    using at_tag [of pre t "nb @ vb @ rest" ucs2 es t0] at_name [OF assms(1-5), of "pre @ le_bytes 4 t" "vb @ rest" es]
      at_pushed_value [OF assms(6,7), of "pre @ le_bytes 4 t @ nb" rest "es @ [Name t nm]"] s assms(5,7) by simp
qed

lemma delivered_named: "delivered G t v \<noteq> None \<Longrightarrow> is_named t \<longleftrightarrow> t > 0x80000000"
proof -
  have "delivered G 0x80000000 v = None" by (simp add: delivered_def prop_type_def split: fx_data.split)
  then show "delivered G t v \<noteq> None \<Longrightarrow> is_named t \<longleftrightarrow> t > 0x80000000" by (auto simp: is_named_iff order.strict_iff_order)
qed

lemma push_property_transfers:
  assumes G: "fx_laws G" and ok: "property_ok G ucs2 nprops p"
  shows "\<exists>out' bs. push_property G nprops p out = Ok out' \<and> fx_bytes out' = fx_bytes out @ bs \<and> transfers ucs2 bs (property_seen G nprops p)"
proof -
  obtain t rv v where p: "p = (t, rv, v)" by (cases p) auto
  show ?thesis
  proof (cases "rv = MAPI_E_SUCCESS")
    case False
    with p transfers_Nil show ?thesis by (auto simp: push_property_def)
  next
    case True
    with ok p have t: "t \<notin> set fx_markers" "t \<noteq> MetaTagFXDelProp" and d: "delivered G t v \<noteq> None" and st: "strings_ok G ucs2 v" by auto
    from d obtain w where w: "delivered G t v = Some w" by auto
    from carried_delivered [OF G w st] obtain vb m where
      vb: "push_data G t v = Ok (vb, m)" "vb \<noteq> []" "reads (fetch_property_value ucs2 t) vb w" by (auto simp: carried_def)
    note named = delivered_named [OF d]
    show ?thesis
    proof (cases "is_named t")
      case False
      with True p vb w named transfers_plain [OF t False vb(3,2)] show ?thesis
        by (simp add: push_property_def push_value_def fx_laws_eqs [OF G])
    next
      case nm: True
      with True ok p obtain nameid where n: "nprops (ucast (drop_bit 16 t)) = Some nameid" "name_ok G ucs2 (snd nameid)"
        by (auto split: option.splits)
      from nm True p vb w named n transfers_named [OF t nm reads_pushed_name [OF G n(2)] push_name_ne [OF G] vb(3,2)] show ?thesis
        by (simp add: push_property_def push_value_def fx_laws_eqs [OF G])
    qed
  qed
qed

lemma push_properties_transfers:
  assumes "fx_laws G" and "list_all (property_ok G ucs2 nprops) ps"
  shows "\<exists>out' bs. oxcfxics_ndr_push_properties G nprops ps out = Ok out' \<and> fx_bytes out' = fx_bytes out @ bs \<and>
    transfers ucs2 bs (concat (map (property_seen G nprops) ps))"
  using assms(2)
proof (induction ps arbitrary: out)
  case Nil
  then show ?case by (auto simp: transfers_Nil)
next
  case (Cons p ps)
  then obtain out1 bs1 where 1: "push_property G nprops p out = Ok out1" "fx_bytes out1 = fx_bytes out @ bs1"
      "transfers ucs2 bs1 (property_seen G nprops p)" using push_property_transfers [OF assms(1), of ucs2 nprops p out] by auto
  from Cons.IH [of out1] Cons.prems obtain out2 bs2 where 2: "oxcfxics_ndr_push_properties G nprops ps out1 = Ok out2"
      "fx_bytes out2 = fx_bytes out1 @ bs2" "transfers ucs2 bs2 (concat (map (property_seen G nprops) ps))" by auto
  from 1 2 transfers_append [OF 1(3) 2(3)] show ?case by auto
qed

text \<open>Bytes that transfer elements, parsed from the start.\<close>

lemma transfers_parse:
  assumes "transfers ucs2 bs els" and "small bs"
  shows "\<exists>t. fxparser_parse ucs2 (fx_recorder []) bs = Ok (MAPI_E_SUCCESS, (fx_recorder els)\<lparr>enough_data := True, tag := t\<rparr>)"
proof -
  from assms obtain t where "fxparser_loop ucs2 (fx_at [] [] bs ParserState_Entry 0) =
      fxparser_loop ucs2 (fx_at els bs [] ParserState_Entry t)"
    unfolding transfers_def by (metis append_Nil append_Nil2)
  then have "fxparser_parse ucs2 (fx_recorder []) bs =
      Ok (MAPI_E_SUCCESS, (fx_recorder els)\<lparr>fx_state := ParserState_Entry, enough_data := True, tag := t\<rparr>)"
    by (simp add: recorder_parse loop_end fx_at_consumed)
  then show ?thesis by (simp add: recorder_defs)
qed

lemma transfers_feed:
  assumes "transfers ucs2 (concat cs) els" and "small (concat cs)" and "cs \<noteq> []"
  shows "\<exists>q. fxparser_feed ucs2 (fx_recorder []) cs = Ok (MAPI_E_SUCCESS, q) \<and> priv q = els \<and> fx_data q = []"
proof -
  from transfers_parse [OF assms(1,2)] obtain t where
    "fxparser_parse ucs2 (fx_recorder []) (concat cs) = Ok (MAPI_E_SUCCESS, (fx_recorder els)\<lparr>enough_data := True, tag := t\<rparr>)" ..
  from fxparser_feed_parse [OF _ _ _ this] assms(2,3) show ?thesis by (simp add: recorder_defs)
qed

section \<open>The transfer as a whole\<close>

text \<open>A concrete library: GUIDs are 128-bit numbers, strings are ASCII.\<close>

definition fxlib128 :: "128 word fx_lib" where
  "fxlib128 =
     \<lparr>GUID_from_data_blob = le_value, ndr_push_GUID = le_bytes 16, ndr_push_uint16 = le_bytes 2,
      GUID_compare = (\<lambda>a b. if a < b then -1 else if a = b then 0 else 1),
      GUID_equal = (=), GUID_all_zero = (\<lambda>g. g = 0), GUID_zero = 0,
      ndr_push_uint32 = le_bytes 4, ndr_push_dlong = le_bytes 8, ndr_push_double = le_bytes 8,
      ndr_push_ascii = (\<lambda>s. s @ [0]), ndr_push_utf16 = (\<lambda>s. concat (map (\<lambda>b. [b, 0]) s) @ [0, 0]), strlen_m_ext = length,
      ndr_push_Binary_r = (\<lambda>bs. le_bytes 4 (of_nat (length bs) :: u32) @ bs),
      ndr_push_FILETIME = (\<lambda>ft. le_bytes 4 (fst ft) @ le_bytes 4 (snd ft))\<rparr>"

lemma fx_laws_fxlib128: "fx_laws fxlib128"
  by (simp add: fx_laws_def fxlib128_def)

lemma fxlib128_GUID: "ndr_push_GUID fxlib128 = le_bytes 16"
  by (simp add: fxlib128_def)

lemmas fxlib128_simps = fx_laws_fxlib128 fx_laws_eqs(1-7) [OF fx_laws_fxlib128] fxlib128_GUID

text \<open>C1 Fast transfer from end to end. Properties that the server pushes into a stream (plain, multi-valued and
  named, those without a value left out) arrive at the client: whatever sizes it asks for, the transfer
  ends, and feeding the buffers one by one to the parser calls back for each name and each value, in order
  and with the values that were pushed, and leaves nothing unread.\<close>

theorem fast_transfer_delivers:
  assumes "fx_laws G" and "list_all (property_ok G ucs2 nprops) ps"
    and "oxcfxics_ndr_push_properties G nprops ps out_empty = Ok out"
    and "length (fx_bytes out) < 2 ^ 32 - 2 ^ 16" and "list_all req_ok ns"
    and "length (fx_bytes out) + length (fx_marks out) + 1 < length ns"
  shows "\<exists>rs ft' q. ft_download (ft_open out) ns = Ok (rs, ft') \<and> TransferStatus (last rs) = TransferStatus_Done \<and>
    fxparser_feed ucs2 (fx_recorder []) (map TransferBuffer rs) = Ok (MAPI_E_SUCCESS, q) \<and>
    priv q = concat (map (property_seen G nprops) ps) \<and> fx_data q = []"
proof -
  from push_properties_transfers [OF assms(1,2), of out_empty] assms(3)
  have tr: "transfers ucs2 (fx_bytes out) (concat (map (property_seen G nprops) ps))" by (auto simp: out_empty_def)
  have "out_ok out" using push_properties_ok [OF assms(1,3) out_ok_empty] .
  from ft_download_all [OF this assms(4-6)] obtain rs ft' where
    rs: "ft_download (ft_open out) ns = Ok (rs, ft')" "rs \<noteq> []" "TransferStatus (last rs) = TransferStatus_Done"
      "concat (map TransferBuffer rs) = fx_bytes out" by auto
  have "small (fx_bytes out)" using assms(4) by (simp add: small_def)
  with transfers_feed [of ucs2 "map TransferBuffer rs"] tr rs show ?thesis by auto
qed

theorem fast_transfer_delivers_witness:
  "\<exists>rs ft' q. ft_download (ft_open \<lparr>fx_bytes = le_bytes 4 (0x80010003 :: u32) @ le_bytes 16 (7 :: 128 word) @ [0] @
        le_bytes 4 (0x8205 :: u32) @ le_bytes 4 (5 :: u32), fx_marks = [0, 25, 0, 29]\<rparr>) (replicate 100 3) = Ok (rs, ft') \<and>
    TransferStatus (last rs) = TransferStatus_Done \<and>
    fxparser_feed id (fx_recorder []) (map TransferBuffer rs) = Ok (MAPI_E_SUCCESS, q) \<and>
    priv q = [Name 0x80010003 (fx_guid_of (le_bytes 16 (7 :: 128 word)), MNID_ID 0x8205), Prop 0x80010003 (VLong 5)] \<and> fx_data q = []"
  using fast_transfer_delivers [of fxlib128 id "\<lambda>_. Some (7, MNID_ID 0x8205)"
      "[(0x80010003, MAPI_E_SUCCESS, FxLong 5), (0x30070040, MAPI_E_NOT_FOUND, FxNullPtr)]"
      "\<lparr>fx_bytes = le_bytes 4 (0x80010003 :: u32) @ le_bytes 16 (7 :: 128 word) @ [0] @ le_bytes 4 (0x8205 :: u32) @
        le_bytes 4 (5 :: u32), fx_marks = [0, 25, 0, 29]\<rparr>" "replicate 100 3"]
  by (simp add: fxlib128_simps delivered_def prop_type_def is_named_def fx_markers_def MetaTagFXDelProp_def out_empty_def
      push_property_def push_value_def push_simps push_name_def push_bytes_def push_mark_def req_ok_def list_all_iff)

text \<open>C25 Every transfer ends: for any pushed properties, well-formed or not, and any sequence of request sizes that
  is long enough, the buffers are the stream cut in order, none longer than was asked for, and the last
  one is marked as the end.\<close>

theorem fast_transfer_ends:
  assumes "fx_laws G" and "oxcfxics_ndr_push_properties G nprops ps out_empty = Ok out"
    and "length (fx_bytes out) < 2 ^ 32 - 2 ^ 16" and "list_all req_ok ns"
    and "length (fx_bytes out) + length (fx_marks out) + 1 < length ns"
  shows "\<exists>rs ft'. ft_download (ft_open out) ns = Ok (rs, ft') \<and> rs \<noteq> [] \<and> TransferStatus (last rs) = TransferStatus_Done \<and>
    concat (map TransferBuffer rs) = fx_bytes out \<and>
    list_all2 (\<lambda>r n. length (TransferBuffer r) \<le> unat n) rs (take (length rs) ns)"
  using ft_download_all [OF push_properties_ok [OF assms(1,2) out_ok_empty] assms(3-5)] .

theorem fast_transfer_ends_witness:
  "\<exists>rs ft'. ft_download (ft_open \<lparr>fx_bytes = le_bytes 4 (0x10002 :: u32) @ le_bytes 2 (5 :: u16), fx_marks = [0, 4, 0, 6]\<rparr>)
      (replicate 20 4) = Ok (rs, ft') \<and> rs \<noteq> [] \<and> TransferStatus (last rs) = TransferStatus_Done \<and>
    concat (map TransferBuffer rs) = le_bytes 4 (0x10002 :: u32) @ le_bytes 2 (5 :: u16) \<and>
    list_all2 (\<lambda>r n. length (TransferBuffer r) \<le> unat n) rs (take (length rs) (replicate 20 (4 :: u32)))"
  using fast_transfer_ends [of fxlib128 "\<lambda>_. None" "[(0x10002, MAPI_E_SUCCESS, FxShort 5)]"
      "\<lparr>fx_bytes = le_bytes 4 (0x10002 :: u32) @ le_bytes 2 (5 :: u16), fx_marks = [0, 4, 0, 6]\<rparr>" "replicate 20 4"]
  by (simp add: fxlib128_simps prop_type_def out_empty_def push_property_def push_value_def push_simps push_bytes_def
      push_mark_def req_ok_def list_all_iff)

section \<open>Where it fails\<close>

lemma fill_zero:
  assumes inv: "ft_inv ms ft" and pos: "ft_pos ft \<noteq> 0"
  shows "\<exists>x. oxcfxics_fill_ftcontext_fasttransfer_response 0 ft = Ok x"
proof (cases "ft_pos ft = length (ft_buf ft)")
  case True
  with assms show ?thesis
    by (auto simp: oxcfxics_fill_ftcontext_fasttransfer_response_def ft_start_def emsmdbp_stream_read_buffer_def rd_bytes_def Let_def)
next
  case False
  with assms obtain k where k: "ft_next_cutmark_idx ft = 2 * k + 1" "k \<le> length ms" "ahead ms k (ft_pos ft)"
    and n: "marks_ok ms (length (ft_buf ft))" "length (ft_buf ft) < 2 ^ 32 - 1" "ft_pos ft + unat (0 :: u32) < 2 ^ 32"
      "ft_cutmarks ft = mark_array ms" "ft_pos ft \<le> length (ft_buf ft)" by (auto simp: ft_inv_def)
  from cut_buffer_size [OF n(1,2,3) k(2,3)] obtain k' where
    "cut_buffer (mark_array ms) (2 * k + 1) (ft_pos ft) 0 = Ok (0, 2 * k' + 1)" by (auto simp: unat_eq_0)
  moreover have "emsmdbp_stream_read_buffer (ft_stream ft) 0 = Ok ([], ft_stream ft)"
    using n(5) by (simp add: emsmdbp_stream_read_buffer_def rd_bytes_def)
  ultimately show ?thesis using pos False n(4,5) k(1)
    by (auto simp: oxcfxics_fill_ftcontext_fasttransfer_response_def ft_start_def Let_def)
qed

text \<open>The server answers every request for a buffer whose size fits the 16-bit field, at any point of a
  transfer, with one exception: a request of size 0 at the start divides by zero.\<close>

theorem fast_transfer_zero_size:
  assumes "ft_inv ms ft" and "req < 0x10000"
  shows "(\<exists>x. oxcfxics_fill_ftcontext_fasttransfer_response req ft = Ok x) \<longleftrightarrow> \<not> (req = 0 \<and> ft_pos ft = 0)"
proof (cases "req = 0")
  case True
  then show ?thesis using fill_zero [OF assms(1)]
    by (auto simp: oxcfxics_fill_ftcontext_fasttransfer_response_def ft_start_def)
next
  case False
  then have "req_ok req" using assms(2) by (simp add: req_ok_def word_neq_0_conv)
  from fill_response [OF assms(1) this] False show ?thesis by auto
qed

theorem fast_transfer_zero_size_witness:
  "\<not> (\<exists>x. oxcfxics_fill_ftcontext_fasttransfer_response 0 (ft_open \<lparr>fx_bytes = [1, 2, 3, 4], fx_marks = []\<rparr>) = Ok x)"
proof -
  have "ft_inv [] (ft_open \<lparr>fx_bytes = [1, 2, 3, 4], fx_marks = []\<rparr>)"
    by (simp add: ft_inv_def ft_open_def mark_array_def marks_ok_def)
  from fast_transfer_zero_size [OF this, of 0] show ?thesis by (simp add: ft_open_def)
qed

lemma named_starved:
  assumes "t \<notin> set fx_markers" and "t \<noteq> MetaTagFXDelProp" and "is_named t" and "small (pre @ rest)" and "0 < length rest" and "length rest < 16"
  shows "fxparser_loop ucs2 (fx_at es pre rest ParserState_HaveTag t) =
    Ok (MAPI_E_SUCCESS, (fx_at es pre rest ParserState_HaveTag t)\<lparr>enough_data := False\<rparr>)"
proof -
  have "pull_need 16 (pre @ rest) (length pre) = Ok None" using assms(4,6) by (simp add: pull_need_eq)
  then have "pull_named_property ucs2 (pre @ rest) (length pre) = Ok None"
    by (simp add: pull_named_property_def pull_guid_def pull_bind_def)
  then have "fxparser_round ucs2 (fx_at es pre rest ParserState_HaveTag t) =
      Ok (MAPI_E_SUCCESS, (fx_at es pre rest ParserState_HaveTag t)\<lparr>enough_data := False\<rparr>)"
    using assms(1-3) by (simp add: fxparser_round_def fx_at_fields is_named_def)
  from loop_step [OF _ _ this] assms(5) show ?thesis by (simp add: fx_at_fields loop_stop)
qed

text \<open>A named property whose name is not found leaves its tag in the stream, without a value. The client takes
  what follows for the name: a property behind it is never delivered, although the server reports
  success.\<close>

theorem unknown_name_swallows:
  assumes "fx_laws G" and "nprops (ucast (drop_bit 16 t)) = None" and "t > 0x80000000"
    and "t \<notin> set fx_markers" and "t \<noteq> MetaTagFXDelProp" and "prop_type t2 = PT_LONG" and "t2 \<le> 0x80000000"
  shows "\<exists>out q. oxcfxics_ndr_push_properties G nprops [(t, MAPI_E_SUCCESS, v), (t2, MAPI_E_SUCCESS, FxLong x)] out_empty = Ok out \<and>
    fxparser_parse ucs2 (fx_recorder []) (fx_bytes out) = Ok (MAPI_E_SUCCESS, q) \<and> priv q = [] \<and> length (fx_data q) = 8"
proof -
  let ?rest = "le_bytes 4 t2 @ le_bytes 4 x"
  have nm: "is_named t" using assms(3) by (simp add: is_named_iff)
  have n2: "\<not> t2 > 0x80000000" using assms(7) by simp
  obtain out where out: "oxcfxics_ndr_push_properties G nprops [(t, MAPI_E_SUCCESS, v), (t2, MAPI_E_SUCCESS, FxLong x)] out_empty = Ok out"
    "fx_bytes out = le_bytes 4 t @ ?rest"
    using assms(2,3,6) n2
    by (simp add: push_property_def push_value_def push_data_def oxcfxics_ndr_push_simple_data_def
        oxcfxics_compute_cutmark_min_value_buffer_def fx_laws_eqs [OF assms(1)] out_empty_def)
  have "fxparser_loop ucs2 (fx_at [] [] (le_bytes 4 t @ ?rest) ParserState_Entry 0) =
      Ok (MAPI_E_SUCCESS, (fx_at [] (le_bytes 4 t) ?rest ParserState_HaveTag t)\<lparr>enough_data := False\<rparr>)"
    using at_tag [of "[]" t ?rest ucs2 "[]" 0] named_starved [OF assms(4,5) nm, of "le_bytes 4 t" ?rest ucs2 "[]"]
    by (simp add: small_def)
  then have "\<exists>q. fxparser_parse ucs2 (fx_recorder []) (fx_bytes out) = Ok (MAPI_E_SUCCESS, q) \<and> priv q = [] \<and> length (fx_data q) = 8"
    unfolding out(2) recorder_parse by (simp add: fx_at_fields) (simp add: fx_at_def recorder_defs)
  with out(1) show ?thesis by blast
qed

theorem unknown_name_swallows_witness:
  "\<exists>out q. oxcfxics_ndr_push_properties fxlib128 (\<lambda>_. None)
      [(0x80010003, MAPI_E_SUCCESS, FxLong 1), (0x10003, MAPI_E_SUCCESS, FxLong 2)] out_empty = Ok out \<and>
    fxparser_parse id (fx_recorder []) (fx_bytes out) = Ok (MAPI_E_SUCCESS, q) \<and> priv q = [] \<and> length (fx_data q) = 8"
  by (rule unknown_name_swallows) (simp_all add: fx_laws_fxlib128 fx_markers_def MetaTagFXDelProp_def prop_type_def)

text \<open>Multi-valued 64-bit integers are pushed, and the parser of the client has no case for them.\<close>

theorem mv_i8_unreadable:
  assumes "fx_laws G" and "prop_type t = 0x1014"
  shows "push_data G t (FxUI8Array [x]) = Ok (le_bytes 4 (1 :: u32) @ le_bytes 8 x, 0)"
    and "fetch_property_value ucs2 t d i = Abort"
  using assms(2) [unfolded prop_type_def]
  by (simp_all add: push_simps prop_type_def push_array_def fx_laws_eqs [OF assms(1)] pull_assert_def)

end
