(* ===== verification/Replica.thy ===== *)
theory Replica
  imports Mapi_Handles
begin

unbundle bit_operations_syntax

text \<open>
  Replica identifiers and source keys. The 16-bit replica identifiers of a user stand for GUIDs:
  \<^verbatim>\<open>src/mapiproxy/libmapistore/mapistore_replica_mapping.c\<close> keeps the two directions in one TDB
  database per user, \<^verbatim>\<open>emsmdbp.c\<close> adds the mailbox and a fixed GUID, and \<^verbatim>\<open>oxcfxics.c\<close> turns the 64-bit
  identifiers of folders and messages into source keys and back. The GUID routines of Samba and the
  mailbox replica of \<^verbatim>\<open>openchangedb\<close> are arguments.
\<close>

section \<open>Data\<close>

datatype mapistore_error =
    MAPISTORE_SUCCESS
  | MAPISTORE_ERROR
  | MAPISTORE_ERR_NO_MEMORY
  | MAPISTORE_ERR_ALREADY_INITIALIZED
  | MAPISTORE_ERR_NOT_INITIALIZED
  | MAPISTORE_ERR_CORRUPTED
  | MAPISTORE_ERR_INVALID_PARAMETER
  | MAPISTORE_ERR_NO_DIRECTORY
  | MAPISTORE_ERR_DATABASE_INIT
  | MAPISTORE_ERR_DATABASE_OPS
  | MAPISTORE_ERR_BACKEND_REGISTER
  | MAPISTORE_ERR_BACKEND_INIT
  | MAPISTORE_ERR_CONTEXT_FAILED
  | MAPISTORE_ERR_INVALID_NAMESPACE
  | MAPISTORE_ERR_INVALID_URI
  | MAPISTORE_ERR_NOT_FOUND
  | MAPISTORE_ERR_REF_COUNT
  | MAPISTORE_ERR_EXIST
  | MAPISTORE_ERR_INVALID_DATA
  | MAPISTORE_ERR_MSG_SEND
  | MAPISTORE_ERR_MSG_RCV
  | MAPISTORE_ERR_DENIED
  | MAPISTORE_ERR_CONN_REFUSED
  | MAPISTORE_ERR_NOT_AVAILABLE
  | MAPISTORE_ERR_NOT_IMPLEMENTED

text \<open>\<open>guid_mem\<close> is the 16 bytes of \<^verbatim>\<open>struct GUID\<close> in memory, which source keys are copied from and read as.\<close>

record 'g guid_text =
  GUID_string :: "'g \<Rightarrow> string"
  GUID_from_string :: "string \<Rightarrow> 'g"
  guid_mem :: "'g \<Rightarrow> u8 list"
  guid_of_mem :: "u8 list \<Rightarrow> 'g"

text \<open>Documented behaviour: the text of a GUID has 36 characters and reads back, and so do its bytes.\<close>

definition guid_text_laws :: "'g guid_text \<Rightarrow> bool" where
  "guid_text_laws U \<longleftrightarrow>
     (\<forall>g. length (GUID_string U g) = 36 \<and> GUID_from_string U (GUID_string U g) = g) \<and>
     (\<forall>g. length (guid_mem U g) = 16 \<and> guid_of_mem U (guid_mem U g) = g)"

text \<open>The conversion \<^verbatim>\<open>"0x%.4x"\<close>.\<close>

definition fmt_replid :: "u16 \<Rightarrow> string" where
  "fmt_replid r = (let ds = hex_digits (unat r) in ''0x'' @ replicate (4 - length ds) (CHR ''0'') @ ds)"

definition next_replid_key :: string where
  "next_replid_key = ''next_replid''"

section \<open>The database of a user\<close>

definition mapistore_replica_mapping_set_next_replid :: "'db tdb_lib \<Rightarrow> 'db \<Rightarrow> u16 \<Rightarrow> 'db" where
  "mapistore_replica_mapping_set_next_replid T db replid =
     (let op = (if tdb_exists T db next_replid_key then TDB_MODIFY else TDB_INSERT)
      in case tdb_store T db next_replid_key (fmt_replid replid) op of Some db' \<Rightarrow> db' | None \<Rightarrow> db)"

definition mapistore_replica_mapping_get_next_replid :: "'db tdb_lib \<Rightarrow> 'db \<Rightarrow> u16" where
  "mapistore_replica_mapping_get_next_replid T db =
     (case tdb_fetch T db next_replid_key of None \<Rightarrow> 0xffff | Some v \<Rightarrow> of_nat (strtol16 v))"

text \<open>The results of the two stores are not looked at.\<close>

definition store_ignoring :: "'db tdb_lib \<Rightarrow> string \<Rightarrow> string \<Rightarrow> 'db \<Rightarrow> 'db" where
  "store_ignoring T k v db = (case tdb_store T db k v TDB_INSERT of Some db' \<Rightarrow> db' | None \<Rightarrow> db)"

definition mapistore_replica_mapping_add_pair :: "'db tdb_lib \<Rightarrow> 'g guid_text \<Rightarrow> 'db \<Rightarrow> 'g \<Rightarrow> u16 \<Rightarrow> 'db" where
  "mapistore_replica_mapping_add_pair T U db guid replid =
     store_ignoring T (fmt_replid replid) (GUID_string U guid)
       (store_ignoring T (GUID_string U guid) (fmt_replid replid) db)"

text \<open>The records are stored without a terminating zero, and a fetched record is read as a C string: the
  conversion goes on into the memory behind it. \<open>beyond db\<close> is what is there, up to the first zero byte, when a record of \<open>db\<close> is
  read: any bytes.\<close>

definition mapistore_replica_mapping_search_guid ::
  "'db tdb_lib \<Rightarrow> 'g guid_text \<Rightarrow> ('db \<Rightarrow> string) \<Rightarrow> 'db \<Rightarrow> 'g \<Rightarrow> u16 option" where
  "mapistore_replica_mapping_search_guid T U beyond db guid =
     map_option (\<lambda>v. of_nat (strtol16 (drop 2 (v @ beyond db)))) (tdb_fetch T db (GUID_string U guid))"

section \<open>The list of databases\<close>

type_synonym 'db replica_list = "(string \<times> 'db) list"

fun put_db :: "'db replica_list \<Rightarrow> string \<Rightarrow> 'db \<Rightarrow> 'db replica_list" where
  "put_db [] u db = []"
| "put_db ((v, d) # l) u db = (if v = u then (v, db) # l else (v, d) # put_db l u db)"

text \<open>\<open>disk\<close> is \<^verbatim>\<open>tdb_open\<close> on the file of a user.\<close>

definition mapistore_replica_mapping_add ::
  "'db tdb_lib \<Rightarrow> (string \<Rightarrow> 'db option) \<Rightarrow> 'db replica_list \<Rightarrow> string \<Rightarrow> mapistore_error \<times> 'db replica_list \<times> 'db option" where
  "mapistore_replica_mapping_add T disk l username =
     (case map_of l username of
        Some db \<Rightarrow> (MAPISTORE_SUCCESS, l, Some db)
      | None \<Rightarrow>
          (case disk username of
             None \<Rightarrow> (MAPISTORE_ERR_DATABASE_INIT, l, None)
           | Some db0 \<Rightarrow>
               let db = (if mapistore_replica_mapping_get_next_replid T db0 = 0xffff
                         then mapistore_replica_mapping_set_next_replid T db0 0x3 else db0)
               in (MAPISTORE_SUCCESS, l @ [(username, db)], Some db)))"

definition mapistore_replica_mapping_guid_to_replid ::
  "'db tdb_lib \<Rightarrow> 'g guid_text \<Rightarrow> (string \<Rightarrow> 'db option) \<Rightarrow> ('db \<Rightarrow> string) \<Rightarrow> 'db replica_list \<Rightarrow> string \<Rightarrow> 'g \<Rightarrow>
     mapistore_error \<times> 'db replica_list \<times> u16 option" where
  "mapistore_replica_mapping_guid_to_replid T U disk beyond l0 username guid =
     (case mapistore_replica_mapping_add T disk l0 username of
        (_, l, None) \<Rightarrow> (MAPISTORE_ERROR, l, None)
      | (_, l, Some db) \<Rightarrow>
          (case mapistore_replica_mapping_search_guid T U beyond db guid of
             Some replid \<Rightarrow> (MAPISTORE_SUCCESS, l, Some replid)
           | None \<Rightarrow>
               let new_replid = mapistore_replica_mapping_get_next_replid T db in
               if new_replid = 0xffff then (MAPISTORE_ERROR, l, None)
               else
                 let db1 = mapistore_replica_mapping_add_pair T U db guid new_replid;
                     db2 = mapistore_replica_mapping_set_next_replid T db1 (new_replid + 1)
                 in (MAPISTORE_SUCCESS, put_db l username db2, Some new_replid)))"

definition mapistore_replica_mapping_replid_to_guid ::
  "'db tdb_lib \<Rightarrow> 'g guid_text \<Rightarrow> (string \<Rightarrow> 'db option) \<Rightarrow> ('db \<Rightarrow> string) \<Rightarrow> 'db replica_list \<Rightarrow> string \<Rightarrow> u16 \<Rightarrow>
     mapistore_error \<times> 'db replica_list \<times> 'g option" where
  "mapistore_replica_mapping_replid_to_guid T U disk beyond l0 username replid =
     (case mapistore_replica_mapping_add T disk l0 username of
        (_, l, None) \<Rightarrow> (MAPISTORE_ERROR, l, None)
      | (_, l, Some db) \<Rightarrow>
          (case tdb_fetch T db (fmt_replid replid) of
             None \<Rightarrow> (MAPISTORE_ERROR, l, None)
           | Some v \<Rightarrow> (MAPISTORE_SUCCESS, l, Some (GUID_from_string U (v @ beyond db)))))"

section \<open>Replicas of a mailbox\<close>

text \<open>What the provider is given: the libraries, the databases on disk, \<^verbatim>\<open>MagicGUID\<close>, and the replica of the
  mailbox of each user.\<close>

record ('db, 'g) replica_env =
  env_tdb :: "'db tdb_lib"
  env_guid :: "'g guid_text"
  env_disk :: "string \<Rightarrow> 'db option"
  env_beyond :: "'db \<Rightarrow> string"
  MagicGUID :: 'g
  MailboxReplica :: "string \<Rightarrow> u16 \<times> 'g"

definition emsmdbp_guid_to_replid ::
  "('db, 'g) replica_env \<Rightarrow> 'db replica_list \<Rightarrow> string \<Rightarrow> 'g \<Rightarrow> MAPISTATUS \<times> 'db replica_list \<times> u16 option" where
  "emsmdbp_guid_to_replid E l username guid =
     (if guid = MagicGUID E then (MAPI_E_SUCCESS, l, Some 2)
      else if guid = snd (MailboxReplica E username) then (MAPI_E_SUCCESS, l, Some (fst (MailboxReplica E username)))
      else case mapistore_replica_mapping_guid_to_replid (env_tdb E) (env_guid E) (env_disk E) (env_beyond E) l username guid of
        (ret, l', replid) \<Rightarrow>
          if ret = MAPISTORE_SUCCESS then (MAPI_E_SUCCESS, l', replid) else (MAPI_E_NOT_FOUND, l', None))"

definition emsmdbp_replid_to_guid ::
  "('db, 'g) replica_env \<Rightarrow> 'db replica_list \<Rightarrow> string \<Rightarrow> u16 \<Rightarrow> MAPISTATUS \<times> 'db replica_list \<times> 'g option" where
  "emsmdbp_replid_to_guid E l username replid =
     (if replid = 2 then (MAPI_E_SUCCESS, l, Some (MagicGUID E))
      else if replid = fst (MailboxReplica E username) then (MAPI_E_SUCCESS, l, Some (snd (MailboxReplica E username)))
      else case mapistore_replica_mapping_replid_to_guid (env_tdb E) (env_guid E) (env_disk E) (env_beyond E) l username replid of
        (ret, l', guid) \<Rightarrow>
          if ret = MAPISTORE_SUCCESS then (MAPI_E_SUCCESS, l', guid) else (MAPI_E_NOT_FOUND, l', None))"

section \<open>Source keys\<close>

fun counter_bytes :: "nat \<Rightarrow> u64 \<Rightarrow> u8 list" where
  "counter_bytes 0 gc = []"
| "counter_bytes (Suc n) gc = ucast (gc AND 0xff) # counter_bytes n (drop_bit 8 gc)"

definition emsmdbp_source_key_from_fmid ::
  "('db, 'g) replica_env \<Rightarrow> 'db replica_list \<Rightarrow> string \<Rightarrow> u64 \<Rightarrow> mapistore_error \<times> 'db replica_list \<times> u8 list option" where
  "emsmdbp_source_key_from_fmid E l username fmid =
     (case emsmdbp_replid_to_guid E l username (ucast (fmid AND 0xffff)) of
        (_, l', None) \<Rightarrow> (MAPISTORE_ERROR, l', None)
      | (_, l', Some guid) \<Rightarrow>
          (MAPISTORE_SUCCESS, l', Some (guid_mem (env_guid E) guid @ counter_bytes 6 (drop_bit 16 fmid))))"

fun counter_value :: "u8 list \<Rightarrow> nat \<Rightarrow> u64 \<Rightarrow> u64" where
  "counter_value [] i fmid = fmid"
| "counter_value (b # bs) i fmid = counter_value bs (Suc i) (fmid OR ucast b * push_bit (8 * i) 1)"

text \<open>The key is read without a look at its length.\<close>

definition oxcfxics_fmid_from_source_key ::
  "('db, 'g) replica_env \<Rightarrow> 'db replica_list \<Rightarrow> string \<Rightarrow> u8 list \<Rightarrow> (mapistore_error \<times> 'db replica_list \<times> u64 option) outcome" where
  "oxcfxics_fmid_from_source_key E l username source_key =
     obind (rd_bytes source_key 0 16) (\<lambda>mem.
     case emsmdbp_guid_to_replid E l username (guid_of_mem (env_guid E) mem) of
       (_, l', None) \<Rightarrow> Ok (MAPISTORE_ERROR, l', None)
     | (_, l', Some replid) \<Rightarrow>
         obind (rd_bytes source_key 16 6) (\<lambda>bytes.
         Ok (MAPISTORE_SUCCESS, l', Some (push_bit 16 (counter_value bytes 0 0) OR ucast replid))))"

end
