(* ===== verification/Replica_Map.thy ===== *)
theory Replica_Map
  imports Replica Mapi_Handles_Table
begin

unbundle bit_operations_syntax

text \<open>
  The replica database as a finite bijection between GUIDs and identifiers, its refinement by the
  operations on TDB, and source keys read back.
\<close>

section \<open>Keys\<close>

lemma hex_fold_append: "hex_fold (xs @ ys) = foldl (\<lambda>n c. 16 * n + the (hex_value c)) (hex_fold xs) ys"
  by (simp add: hex_fold_def)

lemma hex_value_0: "hex_value (CHR ''0'') = Some 0"
  using hex_value_alphabet [of 0] by (simp add: hex_alphabet_def)

lemma hex_fold_zeros: "hex_fold (replicate k (CHR ''0'') @ ds) = hex_fold ds"
proof -
  have "hex_fold (replicate k (CHR ''0'')) = 0"
    by (induction k) (simp_all add: hex_fold_def hex_value_0 flip: replicate_append_same)
  then show ?thesis by (simp add: hex_fold_append) (simp add: hex_fold_def)
qed

definition replid_digits :: "u16 \<Rightarrow> string" where
  "replid_digits r = replicate (4 - length (hex_digits (unat r))) (CHR ''0'') @ hex_digits (unat r)"

lemma fmt_replid_digits: "fmt_replid r = ''0x'' @ replid_digits r"
  by (simp add: fmt_replid_def replid_digits_def Let_def)

lemma replid_digits_read:
  "hex_fold (replid_digits r) = unat r" "list_all (\<lambda>c. hex_value c \<noteq> None) (replid_digits r)"
  using hex_digits_read [of "unat r"]
  by (auto simp: replid_digits_def hex_fold_zeros hex_value_0 list_all_iff)

lemma hex_digits_length: "n < 16 ^ Suc k \<Longrightarrow> length (hex_digits n) \<le> Suc k"
proof (induction k arbitrary: n)
  case 0
  then show ?case by (simp add: hex_digits.simps)
next
  case (Suc k)
  then have "n div 16 < 16 ^ Suc k" by (simp add: less_mult_imp_div_less)
  with Suc.IH show ?case by (subst hex_digits.simps) auto
qed

lemma replid_digits_length: "length (replid_digits r) = 4"
proof -
  have "unat r < 16 ^ Suc 3" using unsigned_less [of r, where 'a = nat] by simp
  then have "length (hex_digits (unat r)) \<le> 4" using hex_digits_length [of "unat r" 3] by simp
  then show ?thesis by (simp add: replid_digits_def)
qed

text \<open>A byte behind a record that no number goes on with.\<close>

definition stops :: "string \<Rightarrow> bool" where
  "stops beyond \<longleftrightarrow> beyond = [] \<or> hex_value (hd beyond) = None"

lemma takeWhile_stops: "stops b \<Longrightarrow> takeWhile (\<lambda>c. hex_value c \<noteq> None) b = []"
  by (cases b) (auto simp: stops_def)

lemma digits_read:
  assumes "stops b"
  shows "strtol16 (replid_digits r @ b) = unat r"
proof -
  obtain c d e where ds: "replid_digits r = c # d # e" using replid_digits_length [of r] by (auto simp: eval_nat_numeral length_Suc_conv)
  have "hex_value d \<noteq> None" using replid_digits_read(2) [of r] ds by simp
  then have "d \<noteq> CHR ''x''" by (auto simp: hex_value_def hex_alphabet_def upt_rec)
  then have np: "take 2 (replid_digits r @ b) \<noteq> ''0x''" using ds by (simp add: numeral_2_eq_2)
  have "takeWhile (\<lambda>c. hex_value c \<noteq> None) (replid_digits r @ b) = replid_digits r"
    using replid_digits_read(2) [of r] takeWhile_stops [OF assms] by (simp add: takeWhile_append2 list_all_iff)
  then show ?thesis using replid_digits_read(1) [of r] np by (simp only: strtol16_def if_False Let_def hex_fold_def)
qed

lemma replid_read [simp]:
  "strtol16 (fmt_replid r) = unat r" "stops b \<Longrightarrow> strtol16 (drop 2 (fmt_replid r @ b)) = unat r"
proof -
  show "stops b \<Longrightarrow> strtol16 (drop 2 (fmt_replid r @ b)) = unat r" by (simp add: fmt_replid_digits digits_read)
  have "strtol16 (fmt_replid r) = hex_fold (takeWhile (\<lambda>c. hex_value c \<noteq> None) (replid_digits r))"
    by (simp add: strtol16_def fmt_replid_digits hex_fold_def)
  also have "takeWhile (\<lambda>c. hex_value c \<noteq> None) (replid_digits r) = replid_digits r"
    using replid_digits_read(2) [of r] by (simp add: takeWhile_eq_all_conv list_all_iff del: not_None_eq)
  also have "hex_fold (replid_digits r) = unat r" by (rule replid_digits_read(1))
  finally show "strtol16 (fmt_replid r) = unat r" .
qed

lemma fmt_replid_inj [simp]: "fmt_replid r = fmt_replid q \<longleftrightarrow> r = q"
  by (metis replid_read(1) unsigned_word_eqI)

lemma key_kinds:
  assumes "guid_text_laws U"
  shows "GUID_string U g \<noteq> fmt_replid r" "fmt_replid r \<noteq> GUID_string U g" "GUID_string U g \<noteq> next_replid_key"
    "next_replid_key \<noteq> GUID_string U g" "fmt_replid r \<noteq> next_replid_key" "next_replid_key \<noteq> fmt_replid r"
    "GUID_string U g = GUID_string U g' \<longleftrightarrow> g = g'"
proof -
  have "length (GUID_string U g) = 36" using assms by (simp add: guid_text_laws_def)
  moreover have "length (fmt_replid r) = 6" by (simp add: fmt_replid_digits replid_digits_length)
  moreover have "length next_replid_key = 11" by (simp add: next_replid_key_def)
  ultimately have "length (GUID_string U g) \<noteq> length (fmt_replid r)" "length (GUID_string U g) \<noteq> length next_replid_key"
    "length (fmt_replid r) \<noteq> length next_replid_key" by simp_all
  then show "GUID_string U g \<noteq> fmt_replid r" "fmt_replid r \<noteq> GUID_string U g" "GUID_string U g \<noteq> next_replid_key"
    "next_replid_key \<noteq> GUID_string U g" "fmt_replid r \<noteq> next_replid_key" "next_replid_key \<noteq> fmt_replid r" by metis+
  show "GUID_string U g = GUID_string U g' \<longleftrightarrow> g = g'" using assms by (metis guid_text_laws_def)
qed

section \<open>The database\<close>

text \<open>The two directions \<open>m\<close> and \<open>w\<close> of the mapping and the next identifier. Identifiers 1 and 2 are never given out.\<close>

definition replica_db :: "'db tdb_lib \<Rightarrow> 'g guid_text \<Rightarrow> 'db \<Rightarrow> ('g \<rightharpoonup> u16) \<Rightarrow> (u16 \<rightharpoonup> 'g) \<Rightarrow> u16 \<Rightarrow> bool" where
  "replica_db T U db m w n \<longleftrightarrow>
     tdb_fetch T db next_replid_key = Some (fmt_replid n) \<and>
     (\<forall>g. tdb_fetch T db (GUID_string U g) = map_option fmt_replid (m g)) \<and>
     (\<forall>r. tdb_fetch T db (fmt_replid r) = map_option (GUID_string U) (w r)) \<and>
     (\<forall>g r. m g = Some r \<longleftrightarrow> w r = Some g) \<and>
     (\<forall>r g. w r = Some g \<longrightarrow> 3 \<le> r \<and> r < n) \<and> 3 \<le> n"

lemma replica_dbD:
  assumes "replica_db T U db m w n"
  shows "tdb_fetch T db next_replid_key = Some (fmt_replid n)" "tdb_fetch T db (GUID_string U g) = map_option fmt_replid (m g)"
    "tdb_fetch T db (fmt_replid r) = map_option (GUID_string U) (w r)" "m g = Some r \<longleftrightarrow> w r = Some g"
    "w r = Some g \<Longrightarrow> 3 \<le> r \<and> r < n" "3 \<le> n"
  using assms by (auto simp: replica_db_def)

text \<open>The identifier that is read where the digits of a record stand in front of \<open>b\<close> in memory.\<close>

definition read_replid :: "string \<Rightarrow> u16 \<Rightarrow> u16" where
  "read_replid b q = of_nat (strtol16 (drop 2 (fmt_replid q @ b)))"

lemma read_replid_stops: "stops b \<Longrightarrow> read_replid b q = q"
  by (simp add: read_replid_def del: drop_append)

lemma search_guid:
  assumes "replica_db T U db m w n"
  shows "mapistore_replica_mapping_search_guid T U b db g = map_option (read_replid (b db)) (m g)"
  using replica_dbD(2) [OF assms, of g]
  by (cases "m g") (simp_all add: mapistore_replica_mapping_search_guid_def read_replid_def del: drop_append)

lemma get_next:
  assumes "replica_db T U db m w n"
  shows "mapistore_replica_mapping_get_next_replid T db = n"
  using replica_dbD(1) [OF assms] by (simp add: mapistore_replica_mapping_get_next_replid_def)

lemma store_new:
  "tdb_laws T \<Longrightarrow> tdb_fetch T db k = None \<Longrightarrow> tdb_fetch T (store_ignoring T k v db) = (tdb_fetch T db)(k \<mapsto> v)"
  by (elim tdb_insert [of T db k v]) (auto simp: store_ignoring_def)

lemma set_next:
  assumes "tdb_laws T"
  shows "tdb_fetch T (mapistore_replica_mapping_set_next_replid T db r) = (tdb_fetch T db)(next_replid_key \<mapsto> fmt_replid r)"
proof (cases "tdb_fetch T db next_replid_key = None")
  case True
  with assms show ?thesis
    by (elim tdb_insert [of T db next_replid_key "fmt_replid r"])
      (auto simp: mapistore_replica_mapping_set_next_replid_def tdb_exists_iff [OF assms])
next
  case False
  with assms show ?thesis
    by (elim tdb_modify [of T db next_replid_key "fmt_replid r"])
      (auto simp: mapistore_replica_mapping_set_next_replid_def tdb_exists_iff [OF assms])
qed

lemma next_greater: "n \<noteq> 0xffff \<Longrightarrow> n < n + 1 \<and> r < n + 1 = (r \<le> (n :: u16))"
proof -
  assume "n \<noteq> 0xffff"
  then have "unat n \<noteq> unat (0xffff :: u16)" by (metis unsigned_word_eqI)
  then have "unat (n + 1) = unat n + 1" using unsigned_less [of n, where 'a = nat] by (simp add: unat_word_ariths)
  then show ?thesis by (auto simp: word_less_nat_alt word_le_nat_alt)
qed

lemma allocate:
  assumes T: "tdb_laws T" and U: "guid_text_laws U" and db: "replica_db T U db m w n" and new: "m g = None" and n: "n \<noteq> 0xffff"
  shows "replica_db T U (mapistore_replica_mapping_set_next_replid T (mapistore_replica_mapping_add_pair T U db g n) (n + 1))
    (m(g \<mapsto> n)) (w(n \<mapsto> g)) (n + 1)"
proof -
  note k = key_kinds [OF U]
  have wn: "w n = None" using replica_dbD(5) [OF db, of n] by (cases "w n") auto
  let ?f = "tdb_fetch T db"
  have f1: "tdb_fetch T (store_ignoring T (GUID_string U g) (fmt_replid n) db) = ?f(GUID_string U g \<mapsto> fmt_replid n)"
    using replica_dbD(2) [OF db, of g] new by (intro store_new T) simp
  have "tdb_fetch T (mapistore_replica_mapping_add_pair T U db g n) =
      ?f(GUID_string U g \<mapsto> fmt_replid n, fmt_replid n \<mapsto> GUID_string U g)"
    unfolding mapistore_replica_mapping_add_pair_def using replica_dbD(3) [OF db, of n] wn k
    by (subst store_new [OF T]) (simp_all add: f1)
  then have f: "tdb_fetch T (mapistore_replica_mapping_set_next_replid T (mapistore_replica_mapping_add_pair T U db g n) (n + 1)) =
      ?f(GUID_string U g \<mapsto> fmt_replid n, fmt_replid n \<mapsto> GUID_string U g, next_replid_key \<mapsto> fmt_replid (n + 1))"
    by (simp add: set_next [OF T])
  have gr: "(m(g \<mapsto> n)) g' = Some q \<longleftrightarrow> (w(n \<mapsto> g)) q = Some g'" for g' q
    using replica_dbD(4) [OF db, of g' q] replica_dbD(4) [OF db, of g q] new wn by (cases "g' = g"; cases "q = n") auto
  have "(w(n \<mapsto> g)) q = Some g' \<Longrightarrow> 3 \<le> q \<and> q < n + 1" for q g'
    using replica_dbD(5,6) [OF db] next_greater [OF n] by (auto split: if_splits intro: less_imp_le)
  moreover have "3 \<le> n + 1" using replica_dbD(6) [OF db] next_greater [OF n, of 0] by auto
  ultimately show ?thesis unfolding replica_db_def f using replica_dbD(2,3) [OF db] gr k by auto
qed

text \<open>The lookup of a GUID reads behind the record that TDB returned, which has no terminating zero: when the byte there happens to be a
  hexadecimal digit, the identifier that is read is another one.\<close>

lemma digit_behind:
  assumes "hex_value c = Some d" and "stops b"
  shows "read_replid (c # b) q = of_nat (16 * unat q + d)"
proof -
  obtain x y e where ds: "replid_digits q = x # y # e" using replid_digits_length [of q] by (auto simp: eval_nat_numeral length_Suc_conv)
  have "hex_value y \<noteq> None" using replid_digits_read(2) [of q] ds by simp
  then have "y \<noteq> CHR ''x''" by (auto simp: hex_value_def hex_alphabet_def upt_rec)
  then have np: "take 2 (replid_digits q @ c # b) \<noteq> ''0x''" using ds by (simp add: numeral_2_eq_2)
  have "takeWhile (\<lambda>c. hex_value c \<noteq> None) (replid_digits q @ c # b) = replid_digits q @ [c]"
    using replid_digits_read(2) [of q] takeWhile_stops [OF assms(2)] assms(1) by (simp add: takeWhile_append2 list_all_iff)
  then have "strtol16 (replid_digits q @ c # b) = 16 * unat q + d"
    using replid_digits_read(1) [of q] np assms(1) by (simp only: strtol16_def if_False Let_def) (simp add: hex_fold_def)
  then show ?thesis by (simp add: read_replid_def fmt_replid_digits)
qed

section \<open>The interface\<close>

text \<open>What the clients of a translation between identifiers and GUIDs rely on. Both directions may change the
  state: a GUID that is not known is given an identifier. \<open>holds s m\<close> says that \<open>m\<close> is recorded in \<open>s\<close>; what is recorded may be read
  as something else, \<open>past_id\<close> and \<open>past_guid\<close>.\<close>

locale replica_ids =
  fixes holds :: "'s \<Rightarrow> ('g \<rightharpoonup> 'i) \<Rightarrow> bool"
    and to_id :: "'s \<Rightarrow> 'g \<Rightarrow> 's \<times> 'i option"
    and to_guid :: "'s \<Rightarrow> 'i \<Rightarrow> 's \<times> 'g option"
    and past_id :: "'s \<Rightarrow> 'i \<Rightarrow> 'i"
    and past_guid :: "'s \<Rightarrow> 'g \<Rightarrow> 'g"
  assumes holds_inj: "holds s m \<Longrightarrow> m g = Some q \<Longrightarrow> m g' = Some q \<Longrightarrow> g' = g"
    and to_id_known: "holds s m \<Longrightarrow> m g = Some q \<Longrightarrow> \<exists>s'. to_id s g = (s', Some (past_id s' q)) \<and> holds s' m"
    and to_id_new: "holds s m \<Longrightarrow> m g = None \<Longrightarrow>
      \<exists>s'. to_id s g = (s', None) \<and> holds s' m \<or> (\<exists>q. to_id s g = (s', Some q) \<and> holds s' (m(g \<mapsto> q)))"
    and to_guid_known: "holds s m \<Longrightarrow> m g = Some q \<Longrightarrow> \<exists>s'. to_guid s q = (s', Some (past_guid s' g)) \<and> holds s' m"
    and to_guid_other: "holds s m \<Longrightarrow> q \<notin> ran m \<Longrightarrow> \<exists>s'. to_guid s q = (s', None) \<and> holds s' m"
begin

text \<open>The states that a state can develop into.\<close>

inductive later :: "'s \<Rightarrow> 's \<Rightarrow> bool" where
  here: "later s s"
| by_guid: "later s s' \<Longrightarrow> later s (fst (to_id s' g))"
| by_id: "later s s' \<Longrightarrow> later s (fst (to_guid s' r))"

lemma to_id_extends:
  assumes "holds s m" shows "\<exists>m'. holds (fst (to_id s g)) m' \<and> m \<subseteq>\<^sub>m m'"
proof (cases "m g")
  case None
  have "m \<subseteq>\<^sub>m m(g \<mapsto> q)" for q using None by (auto simp: map_le_def)
  with to_id_new [OF assms None] show ?thesis by (metis fst_conv map_le_refl)
next
  case (Some q)
  with to_id_known [OF assms] show ?thesis by (metis fst_conv map_le_refl)
qed

lemma to_guid_keeps: "holds s m \<Longrightarrow> holds (fst (to_guid s q)) m"
  using to_guid_known [of s m _ q] to_guid_other [of s m q] by (cases "q \<in> ran m") (fastforce simp: ran_def)+

lemma later_holds:
  assumes "later s s'" and "holds s m" shows "\<exists>m'. holds s' m' \<and> m \<subseteq>\<^sub>m m'"
  using assms by (induction rule: later.induct) (metis map_le_refl, metis to_id_extends map_le_trans, metis to_guid_keeps)

lemma later_foldl: "later s (foldl (\<lambda>s x. case x of Inl g \<Rightarrow> fst (to_id s g) | Inr q \<Rightarrow> fst (to_guid s q)) s xs)"
  by (induction xs rule: rev_induct) (auto intro: later.intros split: sum.split)

lemma stable:
  assumes "holds s m" and "m g = None" and "to_id s g = (s1, Some q)" and "later s1 s2"
  shows "\<exists>m2. holds s2 m2 \<and> m \<subseteq>\<^sub>m m2 \<and> (\<forall>g'. m2 g' = Some q \<longleftrightarrow> g' = g) \<and>
    (\<exists>s3. to_id s2 g = (s3, Some (past_id s3 q))) \<and> (\<exists>s3. to_guid s2 q = (s3, Some (past_guid s3 g)))"
proof -
  have h: "holds s1 (m(g \<mapsto> q))" using to_id_new [OF assms(1,2)] assms(3) by auto
  from later_holds [OF assms(4) this] obtain m2 where m2: "holds s2 m2" "m(g \<mapsto> q) \<subseteq>\<^sub>m m2" by blast
  then have g: "m2 g = Some q" by (auto simp: map_le_def)
  have "m \<subseteq>\<^sub>m m2" using m2(2) assms(2) by (auto simp: map_le_def) (metis domI option.distinct(1))
  then show ?thesis using m2(1) g holds_inj [OF m2(1) g] to_id_known [OF m2(1) g] to_guid_known [OF m2(1) g] by blast
qed

end

section \<open>The databases of the users\<close>

lemma map_of_put: "map_of l u \<noteq> None \<Longrightarrow> map_of (put_db l u db) u = Some db"
  by (induction l u db rule: put_db.induct) auto

text \<open>The replicas of a user: TDB and the conversion of GUIDs behave as documented, the mailbox has identifier 1 and a GUID of its own,
  and the user's database holds \<open>m\<close>, \<open>w\<close> and \<open>n\<close>. Nothing is said about the memory behind a record.\<close>

definition env_ok :: "('db, 'g) replica_env \<Rightarrow> string \<Rightarrow> bool" where
  "env_ok E u \<longleftrightarrow> tdb_laws (env_tdb E) \<and> guid_text_laws (env_guid E) \<and>
     fst (MailboxReplica E u) = 1 \<and> snd (MailboxReplica E u) \<noteq> MagicGUID E"

definition replicas ::
  "('db, 'g) replica_env \<Rightarrow> string \<Rightarrow> 'db replica_list \<Rightarrow> ('g \<rightharpoonup> u16) \<Rightarrow> (u16 \<rightharpoonup> 'g) \<Rightarrow> u16 \<Rightarrow> bool" where
  "replicas E u l m w n \<longleftrightarrow>
     env_ok E u \<and> m (MagicGUID E) = None \<and> m (snd (MailboxReplica E u)) = None \<and>
     (\<exists>l' db. mapistore_replica_mapping_add (env_tdb E) (env_disk E) l u = (MAPISTORE_SUCCESS, l', Some db) \<and>
        replica_db (env_tdb E) (env_guid E) db m w n)"

text \<open>What is behind the records of the user's database in memory.\<close>

definition behind :: "('db, 'g) replica_env \<Rightarrow> string \<Rightarrow> 'db replica_list \<Rightarrow> string" where
  "behind E u l =
     (case mapistore_replica_mapping_add (env_tdb E) (env_disk E) l u of (_, _, None) \<Rightarrow> [] | (_, _, Some db) \<Rightarrow> env_beyond E db)"

lemma behind_open: "map_of l u = Some db \<Longrightarrow> behind E u l = env_beyond E db"
  by (simp add: behind_def mapistore_replica_mapping_add_def)

lemma replica_add_found: "map_of l u = Some db \<Longrightarrow> mapistore_replica_mapping_add T disk l u = (MAPISTORE_SUCCESS, l, Some db)"
  by (simp add: mapistore_replica_mapping_add_def)

lemma replica_add_adds:
  "mapistore_replica_mapping_add T disk l u = (MAPISTORE_SUCCESS, l', Some db) \<Longrightarrow> map_of l' u = Some db"
  by (auto simp: mapistore_replica_mapping_add_def map_add_def Let_def split: option.splits)

lemma replicasI:
  assumes "env_ok E u" and "m (MagicGUID E) = None" and "m (snd (MailboxReplica E u)) = None" and "map_of l u = Some db"
    and "replica_db (env_tdb E) (env_guid E) db m w n"
  shows "replicas E u l m w n"
  unfolding replicas_def using assms replica_add_found [OF assms(4), of "env_tdb E" "env_disk E"] by blast

lemma replicas_open:
  assumes "replicas E u l m w n"
  obtains l' db where "mapistore_replica_mapping_add (env_tdb E) (env_disk E) l u = (MAPISTORE_SUCCESS, l', Some db)"
    "replica_db (env_tdb E) (env_guid E) db m w n" "env_ok E u" "replicas E u l' m w n" "map_of l' u = Some db"
  using assms replicasI [of E u m] replica_add_adds unfolding replicas_def by metis

lemma guid_to_replid_mapped:
  assumes r: "replicas E u l m w n" and g: "g \<noteq> MagicGUID E" "g \<noteq> snd (MailboxReplica E u)"
  shows "case m g of
      Some q \<Rightarrow> \<exists>l'. emsmdbp_guid_to_replid E l u g = (MAPI_E_SUCCESS, l', Some (read_replid (behind E u l') q)) \<and> replicas E u l' m w n \<and>
        (map_of l u \<noteq> None \<longrightarrow> l' = l)
    | None \<Rightarrow> if n = 0xffff then \<exists>l'. emsmdbp_guid_to_replid E l u g = (MAPI_E_NOT_FOUND, l', None) \<and> replicas E u l' m w n
        else \<exists>l'. emsmdbp_guid_to_replid E l u g = (MAPI_E_SUCCESS, l', Some n) \<and> replicas E u l' (m(g \<mapsto> n)) (w(n \<mapsto> g)) (n + 1)"
proof -
  obtain l' db where a: "mapistore_replica_mapping_add (env_tdb E) (env_disk E) l u = (MAPISTORE_SUCCESS, l', Some db)"
    and d: "replica_db (env_tdb E) (env_guid E) db m w n" and e: "env_ok E u" and again: "replicas E u l' m w n"
    and l': "map_of l' u = Some db" using replicas_open [OF r] .
  have mm: "m (MagicGUID E) = None" "m (snd (MailboxReplica E u)) = None" using r by (simp_all add: replicas_def)
  have laws: "tdb_laws (env_tdb E)" "guid_text_laws (env_guid E)" using e by (simp_all add: env_ok_def)
  note sg = search_guid [OF d, of "env_beyond E" g] and gn = get_next [OF d]
  show ?thesis
  proof (cases "m g")
    case (Some q)
    moreover have "map_of l u \<noteq> None \<longrightarrow> l' = l" using a by (auto simp: mapistore_replica_mapping_add_def)
    ultimately show ?thesis using a sg g again l'
      by (simp add: emsmdbp_guid_to_replid_def mapistore_replica_mapping_guid_to_replid_def behind_open)
  next
    case None
    show ?thesis
    proof (cases "n = 0xffff")
      case True
      with None a sg gn g again show ?thesis
        by (simp add: emsmdbp_guid_to_replid_def mapistore_replica_mapping_guid_to_replid_def)
    next
      case False
      note al = allocate [OF laws(1,2) d None False]
      let ?db = "mapistore_replica_mapping_set_next_replid (env_tdb E) (mapistore_replica_mapping_add_pair (env_tdb E) (env_guid E) db g n) (n + 1)"
      have "map_of (put_db l' u ?db) u = Some ?db" using l' by (intro map_of_put) simp
      then have "replicas E u (put_db l' u ?db) (m(g \<mapsto> n)) (w(n \<mapsto> g)) (n + 1)"
        using e mm g al by (intro replicasI [of E u _ "put_db l' u ?db" ?db]) simp_all
      with None False a sg gn g show ?thesis
        by (simp add: emsmdbp_guid_to_replid_def mapistore_replica_mapping_guid_to_replid_def)
    qed
  qed
qed

definition read_guid :: "('db, 'g) replica_env \<Rightarrow> string \<Rightarrow> 'g \<Rightarrow> 'g" where
  "read_guid E b g = GUID_from_string (env_guid E) (GUID_string (env_guid E) g @ b)"

lemma replid_to_guid_mapped:
  assumes r: "replicas E u l m w n" and q: "q \<noteq> 2" "q \<noteq> 1"
  shows "\<exists>l'. emsmdbp_replid_to_guid E l u q =
      (if w q = None then MAPI_E_NOT_FOUND else MAPI_E_SUCCESS, l', map_option (read_guid E (behind E u l')) (w q)) \<and> replicas E u l' m w n \<and>
      map_of l' u \<noteq> None"
proof -
  obtain l' db where a: "mapistore_replica_mapping_add (env_tdb E) (env_disk E) l u = (MAPISTORE_SUCCESS, l', Some db)"
    and d: "replica_db (env_tdb E) (env_guid E) db m w n" and e: "env_ok E u" and again: "replicas E u l' m w n"
    and l': "map_of l' u = Some db" using replicas_open [OF r] .
  then show ?thesis using q replica_dbD(3) [OF d, of q]
    by (auto simp: emsmdbp_replid_to_guid_def mapistore_replica_mapping_replid_to_guid_def env_ok_def behind_open read_guid_def split: option.splits)
qed

text \<open>The translations as one map each, with the two fixed pairs.\<close>

definition id_map :: "('db, 'g) replica_env \<Rightarrow> string \<Rightarrow> ('g \<rightharpoonup> u16) \<Rightarrow> ('g \<rightharpoonup> u16)" where
  "id_map E u m = m(snd (MailboxReplica E u) \<mapsto> 1, MagicGUID E \<mapsto> 2)"

definition guid_map :: "('db, 'g) replica_env \<Rightarrow> string \<Rightarrow> (u16 \<rightharpoonup> 'g) \<Rightarrow> (u16 \<rightharpoonup> 'g)" where
  "guid_map E u w = w(1 \<mapsto> snd (MailboxReplica E u), 2 \<mapsto> MagicGUID E)"

lemma maps_inverse:
  assumes "replicas E u l m w n"
  shows "id_map E u m g = Some q \<longleftrightarrow> guid_map E u w q = Some g"
proof -
  from assms obtain l' db where d: "replica_db (env_tdb E) (env_guid E) db m w n" and e: "env_ok E u"
    and mm: "m (MagicGUID E) = None" "m (snd (MailboxReplica E u)) = None" by (auto simp: replicas_def)
  have "w 1 = None" using replica_dbD(5) [OF d, of 1] by (cases "w 1") (auto simp: word_le_nat_alt)
  moreover have "w 2 = None" using replica_dbD(5) [OF d, of 2] by (cases "w 2") (auto simp: word_le_nat_alt)
  ultimately show ?thesis using mm e replica_dbD(4) [OF d, of g q] replica_dbD(4) [OF d, of "MagicGUID E" q]
      replica_dbD(4) [OF d, of "snd (MailboxReplica E u)" q] replica_dbD(4) [OF d, of g 1] replica_dbD(4) [OF d, of g 2]
    by (auto simp: id_map_def guid_map_def env_ok_def)
qed

definition to_replid :: "('db, 'g) replica_env \<Rightarrow> string \<Rightarrow> 'db replica_list \<Rightarrow> 'g \<Rightarrow> 'db replica_list \<times> u16 option" where
  "to_replid E u l g = snd (emsmdbp_guid_to_replid E l u g)"

definition to_guid :: "('db, 'g) replica_env \<Rightarrow> string \<Rightarrow> 'db replica_list \<Rightarrow> u16 \<Rightarrow> 'db replica_list \<times> 'g option" where
  "to_guid E u l q = snd (emsmdbp_replid_to_guid E l u q)"

text \<open>The two fixed pairs are not read from the database.\<close>

definition past_replid :: "('db, 'g) replica_env \<Rightarrow> string \<Rightarrow> 'db replica_list \<Rightarrow> u16 \<Rightarrow> u16" where
  "past_replid E u l q = (if q = 1 \<or> q = 2 then q else read_replid (behind E u l) q)"

definition past_guid :: "('db, 'g) replica_env \<Rightarrow> string \<Rightarrow> 'db replica_list \<Rightarrow> 'g \<Rightarrow> 'g" where
  "past_guid E u l g = (if g = MagicGUID E \<or> g = snd (MailboxReplica E u) then g else read_guid E (behind E u l) g)"

definition replicas_hold :: "('db, 'g) replica_env \<Rightarrow> string \<Rightarrow> 'db replica_list \<Rightarrow> ('g \<rightharpoonup> u16) \<Rightarrow> bool" where
  "replicas_hold E u l M \<longleftrightarrow> (\<exists>m w n. replicas E u l m w n \<and> M = id_map E u m)"

lemma replicas_holdI: "replicas E u l m w n \<Longrightarrow> replicas_hold E u l (id_map E u m)"
  by (auto simp: replicas_hold_def)

lemma fixed_pairs:
  assumes "replicas E u l m w n"
  shows "fst (MailboxReplica E u) = 1" "snd (MailboxReplica E u) \<noteq> MagicGUID E" "m g = Some q \<Longrightarrow> q \<noteq> 1 \<and> q \<noteq> 2"
    "m g = Some q \<Longrightarrow> g \<noteq> MagicGUID E \<and> g \<noteq> snd (MailboxReplica E u)"
proof -
  from assms obtain l' db where d: "replica_db (env_tdb E) (env_guid E) db m w n" by (auto simp: replicas_def)
  show "m g = Some q \<Longrightarrow> q \<noteq> 1 \<and> q \<noteq> 2" using replica_dbD(4,5) [OF d] by (force simp: word_le_nat_alt)
qed (use assms in \<open>auto simp: replicas_def env_ok_def\<close>)

text \<open>\<^bold>\<open>To identifiers.\<close>\<close>

lemma to_replid_known:
  assumes "replicas_hold E u l M" and "M g = Some q"
  shows "\<exists>l'. to_replid E u l g = (l', Some (past_replid E u l' q)) \<and> replicas_hold E u l' M"
proof -
  from assms(1) obtain m w n where r: "replicas E u l m w n" and M: "M = id_map E u m" by (auto simp: replicas_hold_def)
  note f = fixed_pairs [OF r]
  show ?thesis
  proof (cases "g = MagicGUID E \<or> g = snd (MailboxReplica E u)")
    case True
    with assms M f(1,2) show ?thesis by (auto simp: to_replid_def emsmdbp_guid_to_replid_def id_map_def past_replid_def split: if_splits)
  next
    case False
    then have q: "m g = Some q" using assms(2) by (simp add: M id_map_def)
    with guid_to_replid_mapped [OF r, of g] False M f(3) show ?thesis by (auto simp: to_replid_def past_replid_def intro: replicas_holdI)
  qed
qed

lemma to_replid_new:
  assumes "replicas_hold E u l M" and "M g = None"
  shows "\<exists>l'. to_replid E u l g = (l', None) \<and> replicas_hold E u l' M \<or> (\<exists>q. to_replid E u l g = (l', Some q) \<and> replicas_hold E u l' (M(g \<mapsto> q)))"
proof -
  from assms(1) obtain m w n where r: "replicas E u l m w n" and M: "M = id_map E u m" by (auto simp: replicas_hold_def)
  have g: "g \<noteq> MagicGUID E" "g \<noteq> snd (MailboxReplica E u)" "m g = None" using assms(2) by (auto simp: M id_map_def split: if_splits)
  have up: "M(g \<mapsto> q) = id_map E u (m(g \<mapsto> q))" for q using g by (auto simp: M id_map_def)
  show ?thesis
  proof (cases "n = 0xffff")
    case True
    with guid_to_replid_mapped [OF r g(1,2)] g(3) show ?thesis by (auto simp: to_replid_def M intro: replicas_holdI)
  next
    case False
    with guid_to_replid_mapped [OF r g(1,2)] g(3) obtain l' where "emsmdbp_guid_to_replid E l u g = (MAPI_E_SUCCESS, l', Some n)"
      "replicas E u l' (m(g \<mapsto> n)) (w(n \<mapsto> g)) (n + 1)" by auto
    then show ?thesis by (auto simp: to_replid_def replicas_hold_def up)
  qed
qed

text \<open>\<^bold>\<open>To GUIDs.\<close>\<close>

lemma to_guid_mapped:
  assumes r: "replicas E u l m w n"
  shows "\<exists>l'. to_guid E u l q = (l', map_option (past_guid E u l') (guid_map E u w q)) \<and> replicas E u l' m w n"
proof (cases "q = 1 \<or> q = 2")
  case True
  with r fixed_pairs(1) [OF r] show ?thesis by (auto simp: to_guid_def emsmdbp_replid_to_guid_def guid_map_def past_guid_def)
next
  case False
  from r obtain db where d: "replica_db (env_tdb E) (env_guid E) db m w n" by (auto simp: replicas_def)
  have "past_guid E u l' g = read_guid E (behind E u l') g" if "w q = Some g" for g l'
    using fixed_pairs(4) [OF r, of g q] that replica_dbD(4) [OF d] by (simp add: past_guid_def)
  then have "map_option (past_guid E u l') (w q) = map_option (read_guid E (behind E u l')) (w q)" for l' by (cases "w q") auto
  with replid_to_guid_mapped [OF r, of q] False show ?thesis by (auto simp: to_guid_def guid_map_def)
qed

interpretation mailbox: replica_ids "replicas_hold E u" "to_replid E u" "to_guid E u" "past_replid E u" "past_guid E u" for E u
proof
  fix l M g q g'
  assume h: "replicas_hold E u l M"
  then obtain m w n where r: "replicas E u l m w n" and M: "M = id_map E u m" by (auto simp: replicas_hold_def)
  note inverse = maps_inverse [OF r] and guid = to_guid_mapped [OF r, of q]
  show "g' = g" if "M g = Some q" "M g' = Some q" using that inverse by (simp add: M)
  show "\<exists>s'. to_guid E u l q = (s', Some (past_guid E u s' g)) \<and> replicas_hold E u s' M" if "M g = Some q"
    using that inverse [of g q] guid by (auto simp: M replicas_hold_def)
  show "\<exists>s'. to_guid E u l q = (s', None) \<and> replicas_hold E u s' M" if "q \<notin> ran M"
  proof -
    have "guid_map E u w q = None" using that inverse [of _ q] by (cases "guid_map E u w q") (auto simp: M ran_def)
    with guid show ?thesis by (auto simp: M replicas_hold_def)
  qed
qed (rule to_replid_known to_replid_new; assumption)+

lemma read_guid_end: "guid_text_laws (env_guid E) \<Longrightarrow> read_guid E [] g = g"
  by (simp add: read_guid_def guid_text_laws_def)

lemma past_exact:
  assumes "replicas E u l m w n" and "behind E u l' = []"
  shows "past_replid E u l' q = q" "past_guid E u l' g = g"
proof -
  have "guid_text_laws (env_guid E)" using assms(1) by (auto simp: replicas_def env_ok_def)
  then show "past_replid E u l' q = q" "past_guid E u l' g = g"
    using assms(2) by (simp_all add: past_replid_def past_guid_def read_replid_stops stops_def read_guid_end)
qed

lemma guid_read_back:
  assumes r: "replicas E u l m w n" and g: "to_guid E u l q = (l', Some g)" and c: "q = 1 \<or> q = 2 \<or> behind E u l' = []"
  shows "snd (to_replid E u l' g) = Some q"
proof (cases "q = 1 \<or> q = 2")
  case True
  with g fixed_pairs(1,2) [OF r] show ?thesis by (auto simp: to_guid_def to_replid_def emsmdbp_replid_to_guid_def emsmdbp_guid_to_replid_def)
next
  case False
  with c have b: "behind E u l' = []" by blast
  from replid_to_guid_mapped [OF r, of q] False g have 1: "replicas E u l' m w n" "map_of l' u \<noteq> None" "\<exists>g0. w q = Some g0 \<and> g = read_guid E (behind E u l') g0"
    by (auto simp: to_guid_def split: option.splits)
  then have w: "w q = Some g" using b r read_guid_end [of E] by (auto simp: replicas_def env_ok_def)
  from r obtain db where d: "replica_db (env_tdb E) (env_guid E) db m w n" by (auto simp: replicas_def)
  have m: "m g = Some q" using w replica_dbD(4) [OF d] by simp
  from guid_to_replid_mapped [OF 1(1), of g] m fixed_pairs(4) [OF r m] 1(2) have
    "emsmdbp_guid_to_replid E l' u g = (MAPI_E_SUCCESS, l', Some (read_replid (behind E u l') q))" by auto
  then show ?thesis using b by (simp add: to_replid_def read_replid_stops stops_def)
qed

lemma id_map_le: "id_map E u m \<subseteq>\<^sub>m id_map E u m' \<Longrightarrow> (\<And>g q. m g = Some q \<Longrightarrow> g \<noteq> MagicGUID E \<and> g \<noteq> snd (MailboxReplica E u)) \<Longrightarrow> m \<subseteq>\<^sub>m m'"
  by (fastforce simp: map_le_def id_map_def dom_def split: if_splits)

section \<open>Source keys\<close>

lemma and_ffff: "fmid AND 0xffff = take_bit 16 (fmid :: u64)"
  by (simp add: take_bit_eq_mask mask_eq_exp_minus_1)

lemma counter_bytes_le: "counter_bytes n gc = le_bytes n gc"
proof (induction n arbitrary: gc)
  case (Suc n)
  have "gc AND 0xff = take_bit 8 gc" by (simp add: take_bit_eq_mask mask_eq_exp_minus_1)
  then have "(ucast (gc AND 0xff) :: u8) = ucast gc" by (intro bit_word_eqI) (auto simp: bit_simps)
  with Suc show ?case by simp
qed simp

lemma counter_value_le: "counter_value bs i fmid = fmid OR push_bit (8 * i) (le_value bs)"
proof (induction bs arbitrary: i fmid)
  case (Cons b bs)
  have "ucast b * push_bit (8 * i) (1 :: u64) = push_bit (8 * i) (ucast b)" by (simp add: push_bit_eq_mult)
  then show ?case by (simp add: Cons.IH push_bit_or or.assoc push_bit_push_bit add.commute)
qed simp

lemma counter_roundtrip: "push_bit 16 (counter_value (counter_bytes 6 (drop_bit 16 fmid)) 0 0) OR ucast (ucast (fmid AND 0xffff) :: u16) = (fmid :: u64)"
proof -
  have "push_bit 16 (counter_value (counter_bytes 6 (drop_bit 16 fmid)) 0 0) = push_bit 16 (take_bit 48 (drop_bit 16 fmid))"
    by (simp add: counter_value_le counter_bytes_le le_value_le_bytes)
  moreover have "fmid AND 0xffff = take_bit 16 fmid" by (simp add: take_bit_eq_mask mask_eq_exp_minus_1)
  moreover have "push_bit 16 (take_bit 48 (drop_bit 16 fmid)) OR ucast (ucast (take_bit 16 fmid) :: u16) = fmid"
    by (rule bit_word_eqI) (auto simp: bit_simps)
  ultimately show ?thesis by simp
qed

lemma counter_kept: "drop_bit 16 (push_bit 16 (counter_value (counter_bytes 6 (drop_bit 16 fmid)) 0 0) OR ucast (q :: u16)) = drop_bit 16 (fmid :: u64)"
proof -
  have "counter_value (counter_bytes 6 (drop_bit 16 fmid)) 0 0 = take_bit 48 (drop_bit 16 fmid)"
    by (simp add: counter_value_le counter_bytes_le le_value_le_bytes)
  moreover have "drop_bit 16 (push_bit 16 (take_bit 48 (drop_bit 16 fmid)) OR ucast q) = drop_bit 16 fmid"
    by (rule bit_word_eqI) (auto simp: bit_simps dest: bit_imp_le_length)
  ultimately show ?thesis by simp
qed

section \<open>An environment\<close>

text \<open>GUIDs are 128-bit numbers, written as their bytes and padded.\<close>

definition guid128 :: "128 word guid_text" where
  "guid128 =
     \<lparr>GUID_string = (\<lambda>g. map (\<lambda>b. char_of (unat b)) (le_bytes 16 g) @ replicate 20 (CHR ''-'')),
      GUID_from_string = (\<lambda>s. le_value (map (\<lambda>c. of_nat (of_char c)) (take 16 s))),
      guid_mem = le_bytes 16, guid_of_mem = le_value\<rparr>"

lemma guid128_laws: "guid_text_laws guid128"
proof -
  have b: "of_nat (unat b mod 256) = (b :: u8)" for b using unsigned_less [of b, where 'a = nat] by simp
  show ?thesis by (simp add: guid_text_laws_def guid128_def b comp_def le_value_le_bytes take_bit_word_eq_self)
qed

definition env128 :: "((string \<times> string) list, 128 word) replica_env" where
  "env128 = \<lparr>env_tdb = assoc_tdb, env_guid = guid128, env_disk = (\<lambda>_. Some []), env_beyond = (\<lambda>_. []), MagicGUID = 99,
     MailboxReplica = (\<lambda>_. (1, 7))\<rparr>"

text \<open>The same with a byte behind each record that is a digit.\<close>

definition env_digit :: "((string \<times> string) list, 128 word) replica_env" where
  "env_digit = env128\<lparr>env_beyond := \<lambda>_. ''1''\<rparr>"

lemma env_digit_replicas: "replicas env_digit u [] Map.empty Map.empty 3"
proof -
  let ?db = "[(next_replid_key, fmt_replid 3)]"
  have "replica_db assoc_tdb guid128 ?db Map.empty Map.empty 3"
    using key_kinds [OF guid128_laws] by (simp add: replica_db_def assoc_tdb_def)
  moreover have "mapistore_replica_mapping_add assoc_tdb (\<lambda>_. Some []) [] u = (MAPISTORE_SUCCESS, [(u, ?db)], Some ?db)"
    by (simp add: mapistore_replica_mapping_add_def mapistore_replica_mapping_get_next_replid_def
        mapistore_replica_mapping_set_next_replid_def assoc_tdb_def Let_def)
  moreover have "env_ok env_digit u" by (simp add: env_ok_def env_digit_def env128_def assoc_tdb_laws guid128_laws)
  ultimately show ?thesis unfolding replicas_def by (auto simp: env_digit_def env128_def)
qed

section \<open>Properties\<close>

text \<open>C26 A source key that the server made for a folder or message identifier leads back to the identifier. The 48 bits of the counter
  are kept for every replica. For the mailbox's own replica, whose identifiers the server gives out, and for the fixed replica 2, the
  key leads back to the identifier itself. For another replica it does when the memory behind the records of the database starts with a
  zero byte; TDB does not promise that, and the GUID and the identifier are read as C strings.\<close>

theorem source_key_roundtrip:
  assumes r: "replicas E u l m w n" and k: "emsmdbp_source_key_from_fmid E l u fmid = (MAPISTORE_SUCCESS, l', Some key)"
  shows "\<exists>ret l'' res. oxcfxics_fmid_from_source_key E l' u key = Ok (ret, l'', res) \<and>
    (\<forall>f. res = Some f \<longrightarrow> drop_bit 16 f = drop_bit 16 fmid) \<and>
    (take_bit 16 fmid = 1 \<or> take_bit 16 fmid = 2 \<or> behind E u l' = [] \<longrightarrow> ret = MAPISTORE_SUCCESS \<and> res = Some fmid)"
proof -
  let ?q = "ucast (fmid AND 0xffff) :: u16"
  from k obtain ms g where g: "emsmdbp_replid_to_guid E l u ?q = (ms, l', Some g)"
    and key: "key = guid_mem (env_guid E) g @ counter_bytes 6 (drop_bit 16 fmid)"
    by (auto simp: emsmdbp_source_key_from_fmid_def split: prod.splits option.splits)
  have U: "guid_text_laws (env_guid E)" using r by (auto simp: replicas_def env_ok_def)
  have len: "length (guid_mem (env_guid E) g) = 16" "guid_of_mem (env_guid E) (guid_mem (env_guid E) g) = g"
    "length (counter_bytes 6 (drop_bit 16 fmid)) = 6" using U by (simp_all add: guid_text_laws_def counter_bytes_le)
  have rd: "rd_bytes key 0 16 = Ok (guid_mem (env_guid E) g)" "rd_bytes key 16 6 = Ok (counter_bytes 6 (drop_bit 16 fmid))"
    using key len by (simp_all add: rd_bytes_def)
  have exact: "snd (to_replid E u l' g) = Some ?q" if "take_bit 16 fmid = 1 \<or> take_bit 16 fmid = 2 \<or> behind E u l' = []"
    using that guid_read_back [OF r, of ?q l' g] g by (auto simp: to_guid_def and_ffff)
  obtain ms' l'' res where b: "emsmdbp_guid_to_replid E l' u g = (ms', l'', res)" by (metis prod_cases3)
  show ?thesis
  proof (cases res)
    case None
    then show ?thesis using b rd len(2) exact by (auto simp: oxcfxics_fmid_from_source_key_def to_replid_def)
  next
    case (Some q)
    then show ?thesis using b rd len(2) exact counter_roundtrip [of fmid] counter_kept [of fmid q]
      by (auto simp: oxcfxics_fmid_from_source_key_def to_replid_def)
  qed
qed

theorem source_key_roundtrip_witness:
  "\<exists>l''. oxcfxics_fmid_from_source_key env_digit [] ''u'' (le_bytes 16 (7 :: 128 word) @ [2, 1, 0, 0, 0, 0]) =
     Ok (MAPISTORE_SUCCESS, l'', Some 0x1020001)"
proof -
  have "counter_bytes 6 (0x102 :: u64) = [2, 1, 0, 0, 0, 0]" by code_simp
  then have "emsmdbp_source_key_from_fmid env_digit [] ''u'' 0x1020001 =
      (MAPISTORE_SUCCESS, [], Some (le_bytes 16 (7 :: 128 word) @ [2, 1, 0, 0, 0, 0]))"
    by (simp add: emsmdbp_source_key_from_fmid_def emsmdbp_replid_to_guid_def env_digit_def env128_def guid128_def)
  moreover have "take_bit 16 (0x1020001 :: u64) = 1" by simp
  ultimately show ?thesis using source_key_roundtrip [OF env_digit_replicas, of "''u''" "0x1020001" "[]"] by blast
qed

text \<open>A translation in either direction, for its effect on the databases.\<close>

definition translate :: "('db, 'g) replica_env \<Rightarrow> string \<Rightarrow> 'db replica_list \<Rightarrow> 'g + u16 \<Rightarrow> 'db replica_list" where
  "translate E u l x =
     (case x of Inl g \<Rightarrow> fst (snd (emsmdbp_guid_to_replid E l u g)) | Inr q \<Rightarrow> fst (snd (emsmdbp_replid_to_guid E l u q)))"

text \<open>C27 The records of replicas are stable: once a new GUID has been given an identifier, then after any further translations, in
  either direction, the database still holds this GUID with this identifier and with no other, and no other GUID with it. What a
  translation returns is the recorded identifier, continued by the hexadecimal digits that follow it in memory, and the recorded GUID,
  read with what follows it: the recorded values themselves when a zero byte follows.\<close>

theorem replica_ids_stable:
  assumes r: "replicas E u l m w n" and "id_map E u m g = None" and "emsmdbp_guid_to_replid E l u g = (ms, l1, Some q)"
    and l2: "l2 = foldl (translate E u) l1 ts"
  shows "\<exists>m2 w2 n2 l3 l4. replicas E u l2 m2 w2 n2 \<and> m \<subseteq>\<^sub>m m2 \<and>
    (\<forall>g'. id_map E u m2 g' = Some q \<longleftrightarrow> g' = g) \<and> (\<forall>q'. guid_map E u w2 q' = Some g \<longleftrightarrow> q' = q) \<and>
    snd (emsmdbp_guid_to_replid E l2 u g) = (l3, Some (past_replid E u l3 q)) \<and> (behind E u l3 = [] \<longrightarrow> past_replid E u l3 q = q) \<and>
    snd (emsmdbp_replid_to_guid E l2 u q) = (l4, Some (past_guid E u l4 g)) \<and> (behind E u l4 = [] \<longrightarrow> past_guid E u l4 g = g)"
proof -
  have h: "replicas_hold E u l (id_map E u m)" using r by (auto simp: replicas_hold_def)
  have 1: "to_replid E u l g = (l1, Some q)" using assms(3) by (simp add: to_replid_def)
  have "l2 = foldl (\<lambda>s x. case x of Inl g \<Rightarrow> fst (to_replid E u s g) | Inr q \<Rightarrow> fst (to_guid E u s q)) l1 ts"
    unfolding l2 translate_def [abs_def] to_replid_def to_guid_def ..
  note later = mailbox.later_foldl [of E u l1 ts, folded this]
  from mailbox.stable [OF h assms(2) 1 later] obtain M l3 l4 where M: "replicas_hold E u l2 M" "id_map E u m \<subseteq>\<^sub>m M" "\<forall>g'. M g' = Some q \<longleftrightarrow> g' = g"
    "to_replid E u l2 g = (l3, Some (past_replid E u l3 q))" "to_guid E u l2 q = (l4, Some (past_guid E u l4 g))" by blast
  then obtain m2 w2 n2 where 2: "replicas E u l2 m2 w2 n2" "M = id_map E u m2" by (auto simp: replicas_hold_def)
  have "m \<subseteq>\<^sub>m m2" using M(2) fixed_pairs(4) [OF r] unfolding 2(2) by (rule id_map_le)
  moreover have "\<forall>q'. guid_map E u w2 q' = Some g \<longleftrightarrow> q' = q" using M(3) maps_inverse [OF 2(1), of g] unfolding 2(2) by (metis option.inject)
  moreover have "behind E u l3 = [] \<longrightarrow> past_replid E u l3 q = q" "behind E u l4 = [] \<longrightarrow> past_guid E u l4 g = g"
    using r by (simp_all add: past_exact [OF r])
  ultimately show ?thesis using M(3-5) 2 unfolding to_replid_def to_guid_def by blast
qed

text \<open>The identifier 3 that is recorded is read, with the digit behind it, as 0x31.\<close>

theorem replica_ids_stable_witness:
  "\<exists>l1 l2. emsmdbp_guid_to_replid env_digit [] ''u'' 5 = (MAPI_E_SUCCESS, l1, Some 3) \<and>
    l2 = foldl (translate env_digit ''u'') l1 [Inl 6, Inr 3, Inl 7] \<and>
    snd (snd (emsmdbp_guid_to_replid env_digit l2 ''u'' 5)) = Some 0x31"
proof -
  have n: "id_map env_digit ''u'' Map.empty 5 = None" by (simp add: id_map_def env_digit_def env128_def)
  have "(5 :: 128 word) \<noteq> MagicGUID env_digit" "5 \<noteq> snd (MailboxReplica env_digit ''u'')" by (simp_all add: env_digit_def env128_def)
  from guid_to_replid_mapped [OF env_digit_replicas this] obtain l1 where 1: "emsmdbp_guid_to_replid env_digit [] ''u'' 5 = (MAPI_E_SUCCESS, l1, Some 3)"
    by auto
  from replica_ids_stable [OF env_digit_replicas n 1 refl, of "[Inl 6, Inr 3, Inl 7]"]
  obtain m2 w2 n2 l3 where 3: "snd (emsmdbp_guid_to_replid env_digit (foldl (translate env_digit ''u'') l1 [Inl 6, Inr 3, Inl 7]) ''u'' 5) =
      (l3, Some (past_replid env_digit ''u'' l3 3))"
    by blast
  have "behind env_digit ''u'' l3 = ''1''"
    by (simp add: behind_def env_digit_def env128_def mapistore_replica_mapping_add_def Let_def split: option.split)
  then have "past_replid env_digit ''u'' l3 3 = 0x31"
    using digit_behind [of "CHR ''1''" 1 "[]" 3] by (simp add: past_replid_def stops_def hex_value_def hex_alphabet_def upt_rec)
  with 1 3 show ?thesis by auto
qed

end
