(* ===== verification/Oxcfxics_Sync.thy ===== *)
theory Oxcfxics_Sync
  imports Oxcfxics_Transfer Replica Property_Tags
begin

unbundle bit_operations_syntax

text \<open>
  Downloading the changes of a folder's contents, from \<^verbatim>\<open>src/mapiproxy/servers/default/emsmdb/oxcfxics.c\<close>: the
  messages that the client has not seen are pushed into a stream in chunks, followed by the
  deletions and the new state, and the stream is handed out in buffers. The tables and messages
  of the folder, which the object layer and the backends provide, are fields of \<open>sync_env\<close>.
\<close>

section \<open>Tags and markers\<close>

abbreviation "PidTagMid \<equiv> (0x674A0014 :: u32)"
abbreviation "PidTagChangeNumber \<equiv> (0x67A40014 :: u32)"
abbreviation "PidTagChangeKey \<equiv> (0x65E20102 :: u32)"
abbreviation "PidTagPredecessorChangeList \<equiv> (0x65E30102 :: u32)"
abbreviation "PidTagLastModificationTime \<equiv> (0x30080040 :: u32)"
abbreviation "PidTagAssociated \<equiv> (0x67AA000B :: u32)"
abbreviation "PidTagMessageSize \<equiv> (0x0E080003 :: u32)"
abbreviation "PidTagSourceKey \<equiv> (0x65E00102 :: u32)"
abbreviation "PidTagMessageClass \<equiv> (0x001A001F :: u32)"
abbreviation "PidTagMessageRecipients \<equiv> (0x0E12000D :: u32)"
abbreviation "PidTagMessageAttachments \<equiv> (0x0E13000D :: u32)"
abbreviation "PidTagRowid \<equiv> (0x30000003 :: u32)"
abbreviation "PidTagAddressType \<equiv> (0x3002001F :: u32)"
abbreviation "PidTagEmailAddress \<equiv> (0x3003001F :: u32)"
abbreviation "PidTagSmtpAddress \<equiv> (0x39FE001F :: u32)"
abbreviation "PidTagDisplayName \<equiv> (0x3001001F :: u32)"
abbreviation "PidTagAddressBookDisplayNamePrintable \<equiv> (0x39FF001F :: u32)"
abbreviation "PidTagRecipientDisplayName \<equiv> (0x5FF6001F :: u32)"
abbreviation "PidTagRecipientType \<equiv> (0x0C150003 :: u32)"
abbreviation "PidTagAttachNumber \<equiv> (0x0E210003 :: u32)"

abbreviation "NewAttach \<equiv> (0x40000003 :: u32)"
abbreviation "EndAttach \<equiv> (0x400E0003 :: u32)"
abbreviation "StartEmbed \<equiv> (0x40010003 :: u32)"
abbreviation "EndEmbed \<equiv> (0x40020003 :: u32)"
abbreviation "StartRecip \<equiv> (0x40030003 :: u32)"
abbreviation "EndToRecip \<equiv> (0x40040003 :: u32)"
abbreviation "IncrSyncChg \<equiv> (0x40120003 :: u32)"
abbreviation "IncrSyncDel \<equiv> (0x40130003 :: u32)"
abbreviation "IncrSyncEnd \<equiv> (0x40140003 :: u32)"
abbreviation "IncrSyncMessage \<equiv> (0x40150003 :: u32)"
abbreviation "IncrSyncStateBegin \<equiv> (0x403A0003 :: u32)"
abbreviation "IncrSyncStateEnd \<equiv> (0x403B0003 :: u32)"
abbreviation "MetaTagIdsetGiven \<equiv> (0x40170003 :: u32)"
abbreviation "MetaTagIdsetDeleted \<equiv> (0x67E50102 :: u32)"
abbreviation "MetaTagCnsetSeen \<equiv> (0x67960102 :: u32)"
abbreviation "MetaTagCnsetSeenFAI \<equiv> (0x67DA0102 :: u32)"
abbreviation "MetaTagCnsetRead \<equiv> (0x67D20102 :: u32)"

definition max_message_sync_size :: nat where
  "max_message_sync_size = 262144"

definition oc_version_time :: u32 where
  "oc_version_time = 0x4dbb2dbe"

section \<open>What the object layer provides\<close>

datatype mapistore_table_type = MAPISTORE_MESSAGE_TABLE | MAPISTORE_FAI_TABLE

type_synonym 'g row_values = "(MAPISTATUS \<times> 'g fx_data) list"

record 'g mapistore_message_recipient =
  recip_type :: u32
  recip_data :: "'g fx_data list"

record 'g mapistore_message =
  msg_columns :: "u32 list"
  msg_recipients :: "'g mapistore_message_recipient list"

text \<open>\<open>table_rows\<close> is a table of the folder with the columns \<^verbatim>\<open>PidTagMid\<close> and \<^verbatim>\<open>PidTagChangeNumber\<close>, restricted to change
  numbers above the given one, and sorted by delivery time if asked for; a missing row is one whose values could
  not be fetched. \<open>attachment_rows\<close> is the attachment table, with the result of setting its columns;
  \<open>embedded_message\<close> opens the message inside the attachment with the given number and fetches properties of it
  (\<open>None\<close> for an error or a null pointer). \<open>deleted_fmids\<close> is \<^verbatim>\<open>mapistore_folder_get_deleted_fmids\<close>.\<close>

record ('g, 'db, 'm) sync_env =
  sy_lib :: "'g fx_lib"
  sy_nprops :: "u16 \<Rightarrow> ('g \<times> name_kind) option"
  sy_replicas :: "('db, 'g) replica_env"
  sy_owner :: string
  unix_to_nt_time :: "u32 \<Rightarrow> u64"
  folder_is_mapistore :: bool
  table_is_mapistore :: bool
  table_opens :: "mapistore_table_type \<Rightarrow> bool"
  table_rows :: "mapistore_table_type \<Rightarrow> u64 option \<Rightarrow> bool \<Rightarrow> (u64 option \<times> u64 option) option list"
  message_open :: "u64 \<Rightarrow> ('m \<times> 'g mapistore_message option) option"
  get_properties :: "'m \<Rightarrow> u32 list \<Rightarrow> 'g row_values option"
  get_available_properties :: "'m \<Rightarrow> u32 list option"
  attachment_rows :: "'m \<Rightarrow> u32 list \<Rightarrow> (bool \<times> 'g row_values option list) option"
  embedded_message :: "'m \<Rightarrow> nat \<Rightarrow> u32 list \<Rightarrow> (u64 \<times> 'g fx_data option list) option"
  deleted_fmids :: "mapistore_table_type \<Rightarrow> u64 \<Rightarrow> (u64 list \<times> u64) option"

section \<open>State of a synchronization\<close>

record emsmdbp_syncconfigure_request =
  contents_mode :: bool
  req_normal :: bool
  req_fai :: bool
  read_state :: bool
  no_deletions :: bool
  request_eid :: bool
  request_message_size :: bool
  request_cn :: bool
  no_foreign_identifiers :: bool
  order_by_delivery_time :: bool

record oxcfxics_prop_index =
  ix_parent_fid :: nat
  ix_eid :: nat
  ix_change_number :: nat
  ix_change_key :: nat
  ix_predecessor_change_list :: nat
  ix_last_modification_time :: nat
  ix_display_name :: nat
  ix_associated :: nat
  ix_message_size :: nat

text \<open>\<open>sd_rows\<close> are the rows of \<open>message_sync_data\<close> from its \<open>count\<close> on, as identifiers and change numbers;
  \<open>None\<close> is the null pointer. \<open>sd_out\<close> is the pair \<^verbatim>\<open>ndr\<close> and \<^verbatim>\<open>cutmarks_ndr\<close>. A set that was not made is \<open>[]\<close>.\<close>

record 'g oxcfxics_sync_data =
  sd_guid :: 'g
  sd_table_type :: mapistore_table_type
  sd_prop_index :: oxcfxics_prop_index
  sd_out :: fx_out
  sd_eid_set :: "'g rawidset list"
  sd_cnset_seen :: "'g rawidset list"
  sd_deleted_eid_set :: "'g rawidset list"
  sd_rows :: "(u64 \<times> u64) list option"

text \<open>The fields of a synchronization context that a download uses, in two records: what the chunks are made from,
  and the chunk that is being sent. \<open>sc_replicas\<close> are the opened replica databases, which belong to the emsmdbp context.\<close>

record ('g, 'db) synccontext =
  sc_request :: emsmdbp_syncconfigure_request
  sent_objects :: u32
  skipped_objects :: u32
  total_objects :: u32
  idset_given :: "'g idset list"
  cnset_seen :: "'g idset list"
  cnset_seen_fai :: "'g idset list"
  cnset_read :: "'g idset list"
  sc_properties :: "u32 list"
  sc_fai_properties :: "u32 list"
  sync_stage :: nat
  sc_sync_data :: "'g oxcfxics_sync_data option"
  sc_steps :: u16
  sc_total_steps :: u16
  sc_replicas :: "'db replica_list"

record ('g, 'db) emsmdbp_object_synccontext =
  sync_context :: "('g, 'db) synccontext"
  sc_stream :: emsmdbp_stream
  sc_cutmarks :: "u32 list"
  sc_next_cutmark_idx :: nat

text \<open>A finished chunk becomes the one that is sent.\<close>

definition send_chunk :: "('g, 'db) synccontext \<Rightarrow> fx_out \<Rightarrow> ('g, 'db) emsmdbp_object_synccontext" where
  "send_chunk sc out =
     \<lparr>sync_context = sc, sc_stream = \<lparr>spos = 0, sbuf = fx_bytes out\<rparr>,
      sc_cutmarks = fx_marks out @ [0, 0xffffffff], sc_next_cutmark_idx = 1\<rparr>"

section \<open>Children of a message\<close>

definition push_marker :: "'g fx_lib \<Rightarrow> u32 \<Rightarrow> fx_out \<Rightarrow> fx_out" where
  "push_marker G v out = push_mark 0 (push_bytes (ndr_push_uint32 G v) out)"

text \<open>A tag and a 32-bit value behind it, with a cutmark.\<close>

definition push_tagged :: "'g fx_lib \<Rightarrow> u32 \<Rightarrow> u32 \<Rightarrow> fx_out \<Rightarrow> fx_out" where
  "push_tagged G t v out = push_mark 0 (push_bytes (ndr_push_uint32 G t @ ndr_push_uint32 G v) out)"

text \<open>A string property of a recipient; \<open>min_string_value_buffer\<close> is computed from \<^verbatim>\<open>PT_UNICODE\<close>.\<close>

definition push_string_prop :: "'g fx_lib \<Rightarrow> u32 \<Rightarrow> 'g fx_data \<Rightarrow> fx_out \<Rightarrow> fx_out outcome" where
  "push_string_prop G t v out =
     obind (oxcfxics_compute_cutmark_min_value_buffer PT_UNICODE) (\<lambda>min_string_value_buffer.
     obind (oxcfxics_ndr_push_simple_data G 0x1f v) (\<lambda>bs.
     Ok (push_mark min_string_value_buffer (push_bytes (ndr_push_uint32 G t @ bs) out))))"

text \<open>The first of some tags that is a column.\<close>

fun first_column :: "u32 list \<Rightarrow> u32 list \<Rightarrow> nat option" where
  "first_column cols [] = None"
| "first_column cols (t # ts) =
     (case find_index (\<lambda>c. c = t) cols of Some i \<Rightarrow> Some i | None \<Rightarrow> first_column cols ts)"

text \<open>The value in a column, unless the column is missing or the pointer is null.\<close>

definition recip_value :: "nat option \<Rightarrow> 'g fx_data list \<Rightarrow> 'g fx_data option outcome" where
  "recip_value column vals =
     (case column of None \<Rightarrow> Ok None
      | Some i \<Rightarrow> obind (rd vals i) (\<lambda>v. Ok (if v = FxNullPtr then None else Some v)))"

definition push_recipient ::
  "'g fx_lib \<Rightarrow> (u16 \<Rightarrow> ('g \<times> name_kind) option) \<Rightarrow> u32 list \<Rightarrow> nat \<Rightarrow> 'g mapistore_message_recipient \<Rightarrow> fx_out \<Rightarrow> fx_out outcome" where
  "push_recipient G nprops columns i recipient out =
     (let cn_idx = first_column columns [PidTagDisplayName, PidTagAddressBookDisplayNamePrintable, PidTagRecipientDisplayName];
          email_idx = first_column columns [PidTagEmailAddress, PidTagSmtpAddress];
          out1 = push_tagged G PidTagRowid (of_nat i) (push_marker G StartRecip out)
      in
      obind (recip_value email_idx (recip_data recipient)) (\<lambda>email.
      obind (case email of None \<Rightarrow> Ok out1
             | Some e \<Rightarrow>
                 obind (push_string_prop G PidTagAddressType (FxString [83, 77, 84, 80]) out1) (push_string_prop G PidTagEmailAddress e)) (\<lambda>out2.
      obind (recip_value cn_idx (recip_data recipient)) (\<lambda>cn.
      obind (case cn of None \<Rightarrow> Ok out2 | Some c \<Rightarrow> push_string_prop G PidTagDisplayName c out2) (\<lambda>out3.
      let out4 = push_tagged G PidTagRecipientType (recip_type recipient) out3 in
      if length (recip_data recipient) < length columns then Fault
      else
        obind (oxcfxics_ndr_push_properties G nprops
                 (zip columns (map (\<lambda>v. (if v = FxNullPtr then MAPI_E_NOT_FOUND else MAPI_E_SUCCESS, v)) (recip_data recipient))) out4)
          (\<lambda>out5. Ok (push_marker G EndToRecip out5)))))))"

fun push_recipients ::
  "'g fx_lib \<Rightarrow> (u16 \<Rightarrow> ('g \<times> name_kind) option) \<Rightarrow> u32 list \<Rightarrow> nat \<Rightarrow> 'g mapistore_message_recipient list \<Rightarrow> fx_out \<Rightarrow> fx_out outcome" where
  "push_recipients G nprops columns i [] out = Ok out"
| "push_recipients G nprops columns i (r # rs) out =
     obind (push_recipient G nprops columns i r out) (push_recipients G nprops columns (Suc i) rs)"

definition oxcfxics_push_messageChange_recipients ::
  "('g, 'db, 'm) sync_env \<Rightarrow> 'g mapistore_message option \<Rightarrow> fx_out \<Rightarrow> fx_out outcome" where
  "oxcfxics_push_messageChange_recipients V msg out =
     (let out1 = push_tagged (sy_lib V) MetaTagFXDelProp PidTagMessageRecipients out in
      case msg of
        None \<Rightarrow> Ok out1
      | Some m \<Rightarrow> push_recipients (sy_lib V) (sy_nprops V) (msg_columns m) 0 (msg_recipients m) out1)"

text \<open>The identifier counter of a 64-bit identifier.\<close>

definition globcnt_of :: "u64 \<Rightarrow> u64" where
  "globcnt_of x = drop_bit 16 x AND 0x0000ffffffffffff"

abbreviation sy_samba :: "('g, 'db, 'm) sync_env \<Rightarrow> 'g samba_lib" where
  "sy_samba V \<equiv> samba_lib.truncate (sy_lib V)"

text \<open>A message in an attachment: its properties, without recipients and attachments of its own.\<close>

definition oxcfxics_push_messageChange_attachment_embedded_message ::
  "('g, 'db, 'm) sync_env \<Rightarrow> u32 list \<Rightarrow> 'm \<Rightarrow> nat \<Rightarrow> 'g oxcfxics_sync_data \<Rightarrow> 'g oxcfxics_sync_data outcome" where
  "oxcfxics_push_messageChange_attachment_embedded_message V properties message i sd =
     (case embedded_message V message i properties of
        None \<Rightarrow> Ok sd
      | Some (messageID, vals) \<Rightarrow>
          let G = sy_lib V;
              ps = map (\<lambda>v. case v of Some d \<Rightarrow> (MAPI_E_SUCCESS, d) | None \<Rightarrow> (MAPI_E_NOT_FOUND, FxNullPtr)) vals
          in
          obind (oxcfxics_ndr_push_properties G (sy_nprops V) (zip properties ps) (push_marker G StartEmbed (sd_out sd))) (\<lambda>out1.
          obind (RAWIDSET_push_guid_glob (sy_samba V) (sd_eid_set sd) (sd_guid sd) (globcnt_of messageID)) (\<lambda>eids.
          Ok (sd\<lparr>sd_out := push_marker G EndEmbed (push_tagged G MetaTagFXDelProp PidTagMessageAttachments
                             (push_tagged G MetaTagFXDelProp PidTagMessageRecipients out1)),
                 sd_eid_set := eids\<rparr>))))"

text \<open>The columns of the attachment table, from \<^verbatim>\<open>PidTagAttachMethod\<close> to \<^verbatim>\<open>PidTagExceptionReplaceTime\<close>.\<close>

definition attach_prop_tags :: "u32 list" where
  "attach_prop_tags =
     [0x37050003, 0x370A0102, 0x0E200003, 0x37020102, 0x37140003, 0x7FFD0003, 0x7FFE000B, 0x7FFA0003, 0x3703001F,
      0x3704001F, 0x3707001F, 0x3712001F, 0x370E001F, 0x3001001F, 0x30070040, 0x30080040, 0x37010102, 0x7FFF000B,
      0x370B0003, 0x0FF90102, 0x7FFB0040, 0x7FFC0040, 0x7FF90040]"

definition push_attachment ::
  "('g, 'db, 'm) sync_env \<Rightarrow> u32 list \<Rightarrow> 'm \<Rightarrow> nat \<Rightarrow> 'g row_values option \<Rightarrow> 'g oxcfxics_sync_data \<Rightarrow> 'g oxcfxics_sync_data outcome" where
  "push_attachment V properties message i row sd =
     (case row of
        None \<Rightarrow> Abort
      | Some vals \<Rightarrow>
          let G = sy_lib V in
          obind (oxcfxics_ndr_push_properties G (sy_nprops V) (zip attach_prop_tags vals)
                   (push_tagged G PidTagAttachNumber (of_nat i) (push_marker G NewAttach (sd_out sd)))) (\<lambda>out1.
          obind (rd vals 0) (\<lambda>(retval, attach_method).
          obind (if retval = MAPI_E_SUCCESS then
                   (case attach_method of
                      FxLong m \<Rightarrow>
                        (if m = 5 then oxcfxics_push_messageChange_attachment_embedded_message V properties message i (sd\<lparr>sd_out := out1\<rparr>)
                         else Ok (sd\<lparr>sd_out := out1\<rparr>))
                    | _ \<Rightarrow> Fault)
                 else Ok (sd\<lparr>sd_out := out1\<rparr>)) (\<lambda>sd'.
          Ok (sd'\<lparr>sd_out := push_marker G EndAttach (sd_out sd')\<rparr>)))))"

fun push_attachments ::
  "('g, 'db, 'm) sync_env \<Rightarrow> u32 list \<Rightarrow> 'm \<Rightarrow> nat \<Rightarrow> 'g row_values option list \<Rightarrow> 'g oxcfxics_sync_data \<Rightarrow> 'g oxcfxics_sync_data outcome" where
  "push_attachments V properties message i [] sd = Ok sd"
| "push_attachments V properties message i (r # rs) sd =
     obind (push_attachment V properties message i r sd) (push_attachments V properties message (Suc i) rs)"

text \<open>There is no cutmark behind the first tags.\<close>

definition oxcfxics_push_messageChange_attachments ::
  "('g, 'db, 'm) sync_env \<Rightarrow> u32 list \<Rightarrow> 'm \<Rightarrow> 'g oxcfxics_sync_data \<Rightarrow> 'g oxcfxics_sync_data outcome" where
  "oxcfxics_push_messageChange_attachments V properties message sd =
     (let G = sy_lib V;
          sd1 = sd\<lparr>sd_out := push_bytes (ndr_push_uint32 G MetaTagFXDelProp @ ndr_push_uint32 G PidTagMessageAttachments) (sd_out sd)\<rparr>
      in case attachment_rows V message attach_prop_tags of
           None \<Rightarrow> Ok sd1
         | Some (columns_set, rows) \<Rightarrow>
             if rows = [] \<or> \<not> columns_set then Ok sd1 else push_attachments V properties message 0 rows sd1)"

section \<open>The tables\<close>

text \<open>The first element of the set that belongs to the replica with identifier 1.\<close>

fun local_cnset ::
  "('g, 'db, 'm) sync_env \<Rightarrow> 'db replica_list \<Rightarrow> 'g idset list \<Rightarrow> 'db replica_list \<times> ('g idset \<times> u16) option" where
  "local_cnset V l [] = (l, None)"
| "local_cnset V l (s # ss) =
     (case emsmdbp_guid_to_replid (sy_replicas V) l (sy_owner V) (repl_guid (sy_samba V) (repl s)) of
        (MAPI_E_SUCCESS, l', Some rid) \<Rightarrow> if rid \<noteq> 1 then local_cnset V l' ss else (l', Some (s, rid))
      | (_, l', _) \<Rightarrow> local_cnset V l' ss)"

text \<open>The change number that the rows have to be above. It is taken from the first element of the set, not from the
  one that was found.\<close>

definition oxcfxics_table_set_cn_restriction ::
  "('g, 'db, 'm) sync_env \<Rightarrow> bool \<Rightarrow> 'db replica_list \<Rightarrow> 'g idset list \<Rightarrow> ('db replica_list \<times> u64 option) outcome" where
  "oxcfxics_table_set_cn_restriction V is_mapistore l cnset =
     (if \<not> is_mapistore then Ok (l, None)
      else case local_cnset V l cnset of
        (l', None) \<Rightarrow> Ok (l', None)
      | (l', Some (s, rid)) \<Rightarrow>
          if range_count s \<noteq> 1 then Ok (l', None)
          else case ranges (hd cnset) of
            [] \<Rightarrow> Fault
          | r # _ \<Rightarrow> Ok (l', Some (push_bit 16 (high r) OR ucast rid)))"

text \<open>The identifiers and change numbers of the rows; a missing change number is 0.\<close>

fun fetch_mids :: "(u64 option \<times> u64 option) option list \<Rightarrow> (u64 \<times> u64) list" where
  "fetch_mids [] = []"
| "fetch_mids (Some (Some mid, cn) # rows) = (mid, case cn of Some c \<Rightarrow> c | None \<Rightarrow> 0) # fetch_mids rows"
| "fetch_mids (_ # rows) = fetch_mids rows"

definition original_cnset_seen :: "('g, 'db) synccontext \<Rightarrow> mapistore_table_type \<Rightarrow> 'g idset list" where
  "original_cnset_seen sc tt = (case tt of MAPISTORE_FAI_TABLE \<Rightarrow> cnset_seen_fai sc | MAPISTORE_MESSAGE_TABLE \<Rightarrow> cnset_seen sc)"

definition table_properties :: "('g, 'db) synccontext \<Rightarrow> mapistore_table_type \<Rightarrow> u32 list" where
  "table_properties sc tt = (case tt of MAPISTORE_FAI_TABLE \<Rightarrow> sc_fai_properties sc | MAPISTORE_MESSAGE_TABLE \<Rightarrow> sc_properties sc)"

definition open_message_table ::
  "('g, 'db, 'm) sync_env \<Rightarrow> ('g, 'db) synccontext \<Rightarrow> mapistore_table_type \<Rightarrow> ((u64 \<times> u64) list \<times> ('g, 'db) synccontext) outcome" where
  "open_message_table V sc tt =
     (if \<not> table_opens V tt then Abort else
     obind (oxcfxics_table_set_cn_restriction V (table_is_mapistore V) (sc_replicas sc) (original_cnset_seen sc tt)) (\<lambda>(l, cn).
     if table_is_mapistore V then
       let rows = table_rows V tt cn (order_by_delivery_time (sc_request sc)) in
       Ok (fetch_mids rows, sc\<lparr>total_objects := total_objects sc + of_nat (length rows), sc_replicas := l\<rparr>)
     else Ok ([], sc\<lparr>sc_replicas := l\<rparr>)))"

section \<open>One message\<close>

text \<open>The variables of the loop: \<open>rw_index\<close> is \<open>msg_prop_index\<close>, \<open>rw_changed\<close> is \<open>changed_prop_index\<close>; \<open>rw_guid\<close> is the local
  \<open>replica_guid\<close>, which a failed lookup leaves as it is (\<open>None\<close> before the first one).\<close>

record ('g, 'db) row_state =
  rw_sc :: "('g, 'db) synccontext"
  rw_sd :: "'g oxcfxics_sync_data"
  rw_index :: oxcfxics_prop_index
  rw_changed :: bool
  rw_guid :: "'g option"

definition skip_object :: "('g, 'db) row_state \<Rightarrow> ('g, 'db) row_state" where
  "skip_object w = w\<lparr>rw_sc := (rw_sc w)\<lparr>skipped_objects := skipped_objects (rw_sc w) + 1\<rparr>\<rparr>"

text \<open>The identifier is noted as given to the client, whether or not the message is sent.\<close>

definition note_eid :: "('g, 'db, 'm) sync_env \<Rightarrow> u64 \<Rightarrow> ('g, 'db) row_state \<Rightarrow> ('g, 'db) row_state outcome" where
  "note_eid V eid w =
     (case emsmdbp_replid_to_guid (sy_replicas V) (sc_replicas (rw_sc w)) (sy_owner V) (ucast (eid AND 0xffff)) of
        (_, l, found) \<Rightarrow>
          (case (case found of Some g \<Rightarrow> Some g | None \<Rightarrow> rw_guid w) of
             None \<Rightarrow> Fault
           | Some g \<Rightarrow>
               obind (RAWIDSET_push_guid_glob (sy_samba V) (sd_eid_set (rw_sd w)) g (globcnt_of eid)) (\<lambda>eids.
               Ok (w\<lparr>rw_sc := (rw_sc w)\<lparr>sc_replicas := l\<rparr>, rw_sd := (rw_sd w)\<lparr>sd_eid_set := eids\<rparr>, rw_guid := Some g\<rparr>))))"

text \<open>\<^verbatim>\<open>SPropTagArray_find\<close>, which leaves the index as it is when the tag is not there.\<close>

definition find_or :: "u32 list \<Rightarrow> u32 \<Rightarrow> nat \<Rightarrow> nat" where
  "find_or ts t i = (case find_index (\<lambda>x. x = t) ts of Some k \<Rightarrow> k | None \<Rightarrow> i)"

definition message_index :: "u32 list \<Rightarrow> oxcfxics_prop_index \<Rightarrow> oxcfxics_prop_index" where
  "message_index ts ix = ix\<lparr>
     ix_eid := find_or ts PidTagMid (ix_eid ix),
     ix_change_number := find_or ts PidTagChangeNumber (ix_change_number ix),
     ix_change_key := find_or ts PidTagChangeKey (ix_change_key ix),
     ix_predecessor_change_list := find_or ts PidTagPredecessorChangeList (ix_predecessor_change_list ix),
     ix_last_modification_time := find_or ts PidTagLastModificationTime (ix_last_modification_time ix),
     ix_associated := find_or ts PidTagAssociated (ix_associated ix),
     ix_message_size := find_or ts PidTagMessageSize (ix_message_size ix)\<rparr>"

text \<open>Whether the message class starts with \<^verbatim>\<open>IPM.Sharing\<close>; only looked at for normal messages.\<close>

definition is_sharing :: "mapistore_table_type \<Rightarrow> u32 list \<Rightarrow> 'g row_values \<Rightarrow> bool outcome" where
  "is_sharing tt properties vals =
     (case (if tt = MAPISTORE_MESSAGE_TABLE then find_index (\<lambda>t. t = PidTagMessageClass) properties else None) of
        None \<Rightarrow> Ok False
      | Some i \<Rightarrow>
          obind (rd vals i) (\<lambda>(retval, v).
          if retval \<noteq> MAPI_E_SUCCESS then Ok False
          else case v of FxString s \<Rightarrow> Ok (take 11 s = [73, 80, 77, 46, 83, 104, 97, 114, 105, 110, 103]) | _ \<Rightarrow> Fault))"

text \<open>The properties of a message and their values; \<open>None\<close> skips it. A sharing message has its own property list, and
  the indexes are looked up again.\<close>

definition message_values ::
  "('g, 'db, 'm) sync_env \<Rightarrow> 'm \<Rightarrow> ('g, 'db) row_state \<Rightarrow> ((u32 list \<times> 'g row_values) option \<times> ('g, 'db) row_state) outcome" where
  "message_values V message w =
     (let tt = sd_table_type (rw_sd w); properties = table_properties (rw_sc w) tt in
      case get_properties V message properties of
        None \<Rightarrow> Ok (None, w)
      | Some vals \<Rightarrow>
          obind (is_sharing tt properties vals) (\<lambda>sharing.
          if sharing then
            (case get_available_properties V message of
               None \<Rightarrow> Ok (Some (properties, vals), w)
             | Some sharing_properties \<Rightarrow>
                 (case get_properties V message sharing_properties of
                    None \<Rightarrow> Ok (None, w)
                  | Some vals' \<Rightarrow>
                      Ok (Some (sharing_properties, vals'),
                          w\<lparr>rw_changed := True, rw_index := message_index sharing_properties (rw_index w)\<rparr>)))
          else Ok (Some (properties, vals), w)))"

definition header_time :: "('g, 'db, 'm) sync_env \<Rightarrow> oxcfxics_prop_index \<Rightarrow> 'g row_values \<Rightarrow> 'g fx_data outcome" where
  "header_time V ix vals =
     obind (rd vals (ix_last_modification_time ix)) (\<lambda>(retval, v).
     if retval \<noteq> MAPI_E_SUCCESS then
       (let nt_time = unix_to_nt_time V oc_version_time in Ok (FxSysTime (ucast nt_time, ucast (drop_bit 32 nt_time))))
     else case v of FxSysTime ft \<Rightarrow> Ok v | _ \<Rightarrow> Fault)"

definition header_cn :: "oxcfxics_prop_index \<Rightarrow> 'g row_values \<Rightarrow> u64 outcome" where
  "header_cn ix vals =
     obind (rd vals (ix_change_number ix)) (\<lambda>(retval, v).
     if retval \<noteq> MAPI_E_SUCCESS then Abort
     else case v of FxI8 x \<Rightarrow> Ok (globcnt_of x) | _ \<Rightarrow> Fault)"

text \<open>The change key, and the predecessor change list, which is made of it when it is missing.\<close>

definition header_keys :: "oxcfxics_prop_index \<Rightarrow> 'g row_values \<Rightarrow> ('g fx_data \<times> 'g fx_data) outcome" where
  "header_keys ix vals =
     obind (rd vals (ix_change_key ix)) (\<lambda>(retval, key).
     if retval \<noteq> MAPI_E_SUCCESS then Abort
     else
       obind (rd vals (ix_predecessor_change_list ix)) (\<lambda>(retval', pcl).
       if retval' \<noteq> MAPI_E_SUCCESS then
         (case key of FxBinary bs \<Rightarrow> Ok (key, FxBinary (of_nat (length bs) # bs)) | _ \<Rightarrow> Fault)
       else Ok (key, pcl)))"

text \<open>Whether the size is there is decided by the entry for \<open>parent_fid\<close>, which contents synchronization leaves at 0.\<close>

definition header_size :: "oxcfxics_prop_index \<Rightarrow> 'g row_values \<Rightarrow> 'g fx_data outcome" where
  "header_size ix vals =
     obind (rd vals (ix_message_size ix)) (\<lambda>(_, message_size).
     obind (rd vals (ix_parent_fid ix)) (\<lambda>(retval, _).
     Ok (if retval \<noteq> MAPI_E_SUCCESS then FxLong 0 else message_size)))"

definition message_header ::
  "emsmdbp_syncconfigure_request \<Rightarrow> oxcfxics_prop_index \<Rightarrow> u64 \<Rightarrow> u64 \<Rightarrow> u8 list \<Rightarrow> 'g fx_data \<Rightarrow> 'g row_values \<Rightarrow>
     (u32 \<times> MAPISTATUS \<times> 'g fx_data) list outcome" where
  "message_header req ix eid cn source_key lm_time vals =
     obind (header_keys ix vals) (\<lambda>(change_key, predecessors).
     obind (rd vals (ix_associated ix)) (\<lambda>(retval, assoc).
     obind (if request_message_size req then obind (header_size ix vals) (\<lambda>v. Ok [(PidTagMessageSize, v)]) else Ok []) (\<lambda>msize.
     Ok (map (\<lambda>(t, v). (t, MAPI_E_SUCCESS, v))
          ([(PidTagSourceKey, FxBinary source_key), (PidTagLastModificationTime, lm_time), (PidTagChangeKey, change_key),
            (PidTagPredecessorChangeList, predecessors),
            (PidTagAssociated, if retval \<noteq> MAPI_E_SUCCESS then FxBoolean 0 else assoc)] @
           (if request_eid req then [(PidTagMid, FxI8 eid)] else []) @ msize @
           (if request_cn req then [(PidTagChangeNumber, FxI8 (push_bit 16 cn OR (eid AND 0xffff)))] else []))))))"

text \<open>The message itself: header, the properties behind the first seven, recipients and attachments.\<close>

definition message_properties_shift :: nat where
  "message_properties_shift = 7"

definition push_message ::
  "('g, 'db, 'm) sync_env \<Rightarrow> (u32 \<times> MAPISTATUS \<times> 'g fx_data) list \<Rightarrow> u32 list \<Rightarrow> 'g row_values \<Rightarrow> u32 list \<Rightarrow> 'm \<Rightarrow>
     'g mapistore_message option \<Rightarrow> 'g oxcfxics_sync_data \<Rightarrow> 'g oxcfxics_sync_data outcome" where
  "push_message V header ptags vals properties message msg sd =
     (let G = sy_lib V in
      obind (oxcfxics_ndr_push_properties G (sy_nprops V) header (push_marker G IncrSyncChg (sd_out sd))) (\<lambda>out1.
      obind (oxcfxics_ndr_push_properties G (sy_nprops V) (drop message_properties_shift (zip ptags vals))
               (push_marker G IncrSyncMessage out1)) (\<lambda>out2.
      obind (oxcfxics_push_messageChange_recipients V msg out2) (\<lambda>out3.
      oxcfxics_push_messageChange_attachments V properties message (sd\<lparr>sd_out := out3\<rparr>)))))"

text \<open>From the values of a message to its place in the stream. Only a message that is sent sets the indexes back.\<close>

definition message_change ::
  "('g, 'db, 'm) sync_env \<Rightarrow> u64 \<Rightarrow> 'm \<Rightarrow> 'g mapistore_message option \<Rightarrow> u32 list \<Rightarrow> 'g row_values \<Rightarrow>
     ('g, 'db) row_state \<Rightarrow> ('g, 'db) row_state outcome" where
  "message_change V eid message msg ptags vals w =
     (case emsmdbp_source_key_from_fmid (sy_replicas V) (sc_replicas (rw_sc w)) (sy_owner V) eid of
        (_, l, None) \<Rightarrow> Ok (skip_object (w\<lparr>rw_sc := (rw_sc w)\<lparr>sc_replicas := l\<rparr>\<rparr>))
      | (_, l, Some source_key) \<Rightarrow>
          let w1 = w\<lparr>rw_sc := (rw_sc w)\<lparr>sc_replicas := l\<rparr>\<rparr>; sc = rw_sc w1; sd = rw_sd w1; ix = rw_index w1 in
          obind (header_time V ix vals) (\<lambda>lm_time.
          obind (header_cn ix vals) (\<lambda>cn.
          if IDSET_includes_guid_glob (sy_samba V) (original_cnset_seen sc (sd_table_type sd)) (Some (sd_guid sd)) cn
          then Ok (skip_object w1)
          else
            obind (RAWIDSET_push_guid_glob (sy_samba V) (sd_cnset_seen sd) (sd_guid sd) cn) (\<lambda>cns.
            obind (message_header (sc_request sc) ix eid cn source_key lm_time vals) (\<lambda>header.
            obind (push_message V header ptags vals (sc_properties sc) message msg (sd\<lparr>sd_cnset_seen := cns\<rparr>)) (\<lambda>sd'.
            Ok (w1\<lparr>rw_sc := sc\<lparr>sent_objects := sent_objects sc + 1\<rparr>, rw_sd := sd',
                   rw_index := (if rw_changed w1 then sd_prop_index sd' else ix), rw_changed := False\<rparr>)))))))"

definition message_row ::
  "('g, 'db, 'm) sync_env \<Rightarrow> u64 \<times> u64 \<Rightarrow> ('g, 'db) row_state \<Rightarrow> ('g, 'db) row_state outcome" where
  "message_row V row w =
     (case row of (eid, row_cn) \<Rightarrow>
        if eid = 0x7fffffffffffffff then Ok w
        else
          obind (note_eid V eid w) (\<lambda>w1.
          let sc = rw_sc w1; sd = rw_sd w1 in
          if folder_is_mapistore V \<and> row_cn \<noteq> 0 \<and>
             IDSET_includes_guid_glob (sy_samba V) (original_cnset_seen sc (sd_table_type sd)) (Some (sd_guid sd)) (globcnt_of row_cn)
          then Ok (skip_object w1)
          else case message_open V eid of
            None \<Rightarrow> Ok w1
          | Some (message, msg) \<Rightarrow>
              obind (message_values V message w1) (\<lambda>(r, w2).
              case r of None \<Rightarrow> Ok w2
              | Some (ptags, vals) \<Rightarrow> message_change V eid message msg ptags vals w2)))"

text \<open>The loop ends with the table or when the chunk is large enough; the rows that are left come with the result. The call
  that asks a backend to load message bodies ahead changes nothing here.\<close>

fun message_rows ::
  "('g, 'db, 'm) sync_env \<Rightarrow> (u64 \<times> u64) list \<Rightarrow> ('g, 'db) row_state \<Rightarrow> ((u64 \<times> u64) list \<times> ('g, 'db) row_state) outcome" where
  "message_rows V [] w = Ok ([], w)"
| "message_rows V (row # rows) w =
     (if length (fx_bytes (sd_out (rw_sd w))) < max_message_sync_size
      then obind (message_row V row w) (message_rows V rows)
      else Ok (row # rows, w))"

section \<open>Deletions\<close>

fun note_deleted :: "('g, 'db, 'm) sync_env \<Rightarrow> 'g idset list \<Rightarrow> 'g \<Rightarrow> u64 list \<Rightarrow> 'g rawidset list \<Rightarrow> 'g rawidset list outcome" where
  "note_deleted V given g [] dels = Ok dels"
| "note_deleted V given g (e # es) dels =
     (if IDSET_includes_guid_glob (sy_samba V) given (Some g) (globcnt_of e)
      then obind (RAWIDSET_push_guid_glob (sy_samba V) dels g (globcnt_of e)) (note_deleted V given g es)
      else note_deleted V given g es dels)"

definition raw_count_positive :: "'g rawidset list \<Rightarrow> bool outcome" where
  "raw_count_positive raw = (case raw of [] \<Rightarrow> Fault | r # _ \<Rightarrow> Ok (globcnts r \<noteq> []))"

definition fetch_deleted ::
  "('g, 'db, 'm) sync_env \<Rightarrow> ('g, 'db) synccontext \<Rightarrow> 'g oxcfxics_sync_data \<Rightarrow> 'g oxcfxics_sync_data outcome" where
  "fetch_deleted V sc sd =
     (let orig = original_cnset_seen sc (sd_table_type sd) in
      obind (if orig \<noteq> [] \<and> range_count (hd orig) > 0
             then (case ranges (hd orig) of [] \<Rightarrow> Fault | r # _ \<Rightarrow> Ok (push_bit 16 (high r) OR 1)) else Ok 0) (\<lambda>cn.
      case deleted_fmids V (sd_table_type sd) cn of
        None \<Rightarrow> Ok sd
      | Some (eids, cn') \<Rightarrow>
          obind (note_deleted V (idset_given sc) (sd_guid sd) eids (sd_deleted_eid_set sd)) (\<lambda>dels.
          obind (raw_count_positive dels) (\<lambda>some_deleted.
          obind (if some_deleted then RAWIDSET_push_guid_glob (sy_samba V) (sd_cnset_seen sd) (sd_guid sd) (globcnt_of cn')
                 else Ok (sd_cnset_seen sd)) (\<lambda>cns.
          Ok (sd\<lparr>sd_deleted_eid_set := dels, sd_cnset_seen := cns\<rparr>))))))"

section \<open>One chunk\<close>

text \<open>The result says whether the end of the table was reached.\<close>

definition oxcfxics_push_messageChange ::
  "('g, 'db, 'm) sync_env \<Rightarrow> ('g, 'db) synccontext \<Rightarrow> 'g oxcfxics_sync_data \<Rightarrow>
     (bool \<times> ('g, 'db) synccontext \<times> 'g oxcfxics_sync_data) outcome" where
  "oxcfxics_push_messageChange V sc sd =
     obind (case sd_rows sd of Some rows \<Rightarrow> Ok (rows, sc) | None \<Rightarrow> open_message_table V sc (sd_table_type sd)) (\<lambda>(rows, sc1).
     obind (message_rows V rows
              \<lparr>rw_sc = sc1, rw_sd = sd, rw_index = sd_prop_index sd, rw_changed = False, rw_guid = None\<rparr>) (\<lambda>(rest, w).
     if rest \<noteq> [] then Ok (False, rw_sc w, (rw_sd w)\<lparr>sd_rows := Some rest\<rparr>)
     else
       obind (if folder_is_mapistore V then fetch_deleted V (rw_sc w) (rw_sd w) else Ok (rw_sd w)) (\<lambda>sd2.
       Ok (True, rw_sc w, sd2\<lparr>sd_rows := None\<rparr>))))"

definition no_index :: oxcfxics_prop_index where
  "no_index =
     \<lparr>ix_parent_fid = 0, ix_eid = 0, ix_change_number = 0, ix_change_key = 0, ix_predecessor_change_list = 0,
      ix_last_modification_time = 0, ix_display_name = 0, ix_associated = 0, ix_message_size = 0\<rparr>"

definition sync_start :: "('g, 'db, 'm) sync_env \<Rightarrow> ('g, 'db) synccontext \<Rightarrow> 'g oxcfxics_sync_data" where
  "sync_start V sc =
     \<lparr>sd_guid = snd (MailboxReplica (sy_replicas V) (sy_owner V)), sd_table_type = MAPISTORE_MESSAGE_TABLE,
      sd_prop_index = message_index (sc_properties sc) no_index,
      sd_out = out_empty,
      sd_eid_set = [RAWIDSET_make (sy_samba V) False False], sd_cnset_seen = [],
      sd_deleted_eid_set = [RAWIDSET_make (sy_samba V) False False], sd_rows = None\<rparr>"

text \<open>The messages of one table, and at its end their change numbers joined to the set the client has seen.\<close>

definition push_table ::
  "('g, 'db, 'm) sync_env \<Rightarrow> mapistore_table_type \<Rightarrow> ('g, 'db) synccontext \<Rightarrow> 'g oxcfxics_sync_data \<Rightarrow>
     (('g, 'db) synccontext \<times> 'g oxcfxics_sync_data) outcome" where
  "push_table V tt sc sd =
     (let sd1 = (if sd_rows sd = None then sd\<lparr>sd_cnset_seen := [RAWIDSET_make (sy_samba V) False True], sd_table_type := tt\<rparr> else sd) in
      obind (oxcfxics_push_messageChange V sc sd1) (\<lambda>(end_of_table, sc2, sd2).
      if end_of_table then
        (let new_idset = RAWIDSET_convert_to_idset (sy_samba V) (sd_cnset_seen sd2) in
         case tt of
           MAPISTORE_MESSAGE_TABLE \<Rightarrow>
             obind (IDSET_merge_idsets (sy_samba V) (cnset_seen sc2) new_idset) (\<lambda>m.
             Ok (sc2\<lparr>cnset_seen := m, sync_stage := 2\<rparr>, sd2))
         | MAPISTORE_FAI_TABLE \<Rightarrow>
             obind (IDSET_merge_idsets (sy_samba V) (cnset_seen_fai sc2) new_idset) (\<lambda>m.
             Ok (sc2\<lparr>cnset_seen_fai := m, sync_stage := 3\<rparr>, sd2)))
      else Ok (sc2, sd2)))"

definition ndr_push_idset :: "('g, 'db, 'm) sync_env \<Rightarrow> 'g idset list \<Rightarrow> u8 list" where
  "ndr_push_idset V ss = ndr_push_Binary_r (sy_lib V) (IDSET_serialize (sy_samba V) ss)"

definition push_marked_idset :: "('g, 'db, 'm) sync_env \<Rightarrow> u32 \<Rightarrow> 'g idset list \<Rightarrow> fx_out \<Rightarrow> fx_out" where
  "push_marked_idset V t ss out = push_mark 0 (push_bytes (ndr_push_idset V ss) (push_marker (sy_lib V) t out))"

text \<open>The set of deleted identifiers is sent with the identifier 1 in place of the replica's GUID.\<close>

definition push_deletions ::
  "('g, 'db, 'm) sync_env \<Rightarrow> ('g, 'db) synccontext \<Rightarrow> 'g oxcfxics_sync_data \<Rightarrow> (('g, 'db) synccontext \<times> 'g oxcfxics_sync_data) outcome" where
  "push_deletions V sc sd =
     obind (raw_count_positive (sd_deleted_eid_set sd)) (\<lambda>some_deleted.
     if some_deleted \<and> \<not> no_deletions (sc_request sc) then
       (case RAWIDSET_convert_to_idset (sy_samba V) (sd_deleted_eid_set sd) of
          [] \<Rightarrow> Fault
        | s # ss \<Rightarrow>
            Ok (sc\<lparr>idset_given := IDSET_remove_rawidset (sy_samba V) (idset_given sc) (sd_deleted_eid_set sd)\<rparr>,
                sd\<lparr>sd_out := push_marked_idset V MetaTagIdsetDeleted (s\<lparr>repl := ReplId 1\<rparr> # ss)
                              (push_marker (sy_lib V) IncrSyncDel (sd_out sd))\<rparr>))
     else Ok (sc, sd))"

text \<open>The state that the client is to keep, without cutmarks around the last two sets.\<close>

definition push_state ::
  "('g, 'db, 'm) sync_env \<Rightarrow> ('g, 'db) synccontext \<Rightarrow> 'g oxcfxics_sync_data \<Rightarrow> (('g, 'db) synccontext \<times> 'g oxcfxics_sync_data) outcome" where
  "push_state V sc sd =
     obind (IDSET_merge_idsets (sy_samba V) (idset_given sc) (RAWIDSET_convert_to_idset (sy_samba V) (sd_eid_set sd))) (\<lambda>given.
     let G = sy_lib V; sc' = sc\<lparr>idset_given := given\<rparr>;
         out1 = push_marked_idset V MetaTagCnsetSeen (cnset_seen sc') (push_marker G IncrSyncStateBegin (sd_out sd));
         out2 = (if req_fai (sc_request sc') then push_marked_idset V MetaTagCnsetSeenFAI (cnset_seen_fai sc') out1 else out1);
         out3 = push_bytes (ndr_push_uint32 G MetaTagIdsetGiven @ ndr_push_idset V given) out2;
         out4 = (if read_state (sc_request sc')
                 then push_bytes (ndr_push_uint32 G MetaTagCnsetRead @ ndr_push_idset V (cnset_read sc')) out3 else out3)
     in Ok (sc', sd\<lparr>sd_out := push_marker G IncrSyncEnd (push_marker G IncrSyncStateEnd out4)\<rparr>))"

text \<open>The stages: normal messages, associated messages, deletions and state, done.\<close>

definition sync_normal where
  "sync_normal V = (\<lambda>(sc, sd).
     if sync_stage sc \<noteq> 1 then Ok (sc, sd)
     else if req_normal (sc_request sc) then push_table V MAPISTORE_MESSAGE_TABLE sc sd
     else Ok (sc\<lparr>sync_stage := 2\<rparr>, sd))"

definition sync_fai where
  "sync_fai V = (\<lambda>(sc, sd).
     if sync_stage sc \<noteq> 2 then Ok (sc, sd)
     else if req_fai (sc_request sc) then push_table V MAPISTORE_FAI_TABLE sc sd
     else Ok (sc\<lparr>sync_stage := 3\<rparr>, sd))"

definition sync_finish where
  "sync_finish V = (\<lambda>(sc, sd).
     if sync_stage sc \<noteq> 3 then Ok (sc, sd)
     else obind (push_deletions V sc sd) (\<lambda>(sc', sd'). obind (push_state V sc' sd') (\<lambda>(sc'', sd'').
       Ok (sc''\<lparr>sync_stage := 4\<rparr>, sd''))))"

definition make_chunk :: "('g, 'db, 'm) sync_env \<Rightarrow> ('g, 'db) synccontext \<Rightarrow> (('g, 'db) synccontext \<times> fx_out) outcome" where
  "make_chunk V sc0 =
     obind (if sync_stage sc0 = 0 then Ok (sc0\<lparr>sync_stage := 1\<rparr>, sync_start V sc0)
            else case sc_sync_data sc0 of None \<Rightarrow> Fault | Some sd \<Rightarrow> Ok (sc0, sd\<lparr>sd_out := out_empty\<rparr>)) (\<lambda>s1.
     obind (sync_normal V s1) (\<lambda>s2.
     obind (sync_fai V s2) (\<lambda>s3.
     obind (sync_finish V s3) (\<lambda>(sc, sd).
     Ok (sc\<lparr>sc_sync_data := (if sync_stage sc = 4 then None else Some sd)\<rparr>, sd_out sd)))))"

definition oxcfxics_fill_synccontext_with_messageChange ::
  "('g, 'db, 'm) sync_env \<Rightarrow> ('g, 'db) emsmdbp_object_synccontext \<Rightarrow> ('g, 'db) emsmdbp_object_synccontext outcome" where
  "oxcfxics_fill_synccontext_with_messageChange V x =
     obind (make_chunk V (sync_context x)) (\<lambda>(sc, out). Ok (send_chunk sc out))"

end
