(* ===== verification/Oxcfxics_Emit.thy ===== *)
theory Oxcfxics_Emit
  imports Oxcfxics_Sync
begin

unbundle bit_operations_syntax

text \<open>
  Code that only appends to a stream: it adds the same bytes, and cutmarks at the same distances, whatever
  was in the stream before. Everything that writes a message is of this kind.
\<close>

section \<open>What is appended\<close>

type_synonym delta = "u8 list \<times> (u32 \<times> nat) list"

definition append_delta :: "fx_out \<Rightarrow> delta \<Rightarrow> fx_out" where
  "append_delta out d =
     \<lparr>fx_bytes = fx_bytes out @ fst d,
      fx_marks = fx_marks out @ concat (map (\<lambda>(m, p). [m, of_nat (length (fx_bytes out) + p)]) (snd d))\<rparr>"

definition join_delta :: "delta \<Rightarrow> delta \<Rightarrow> delta" where
  "join_delta d e = (fst d @ fst e, snd d @ map (\<lambda>(m, p). (m, length (fst d) + p)) (snd e))"

text \<open>The cutmarks are in order, and inside or at the end of what is appended.\<close>

definition delta_ok :: "delta \<Rightarrow> bool" where
  "delta_ok d \<longleftrightarrow> sorted (map snd (snd d)) \<and> (\<forall>p \<in> snd ` set (snd d). 0 < p \<and> p \<le> length (fst d))"

lemma append_nothing [simp]: "append_delta out ([], []) = out"
  by (simp add: append_delta_def)

lemma append_append [simp]: "append_delta (append_delta out d) e = append_delta out (join_delta d e)"
  by (simp add: append_delta_def join_delta_def comp_def case_prod_unfold add.assoc)

lemma bytes_append [simp]: "fx_bytes (append_delta out d) = fx_bytes out @ fst d"
  by (simp add: append_delta_def)

lemma fst_join [simp]: "fst (join_delta d e) = fst d @ fst e"
  by (simp add: join_delta_def)

lemma delta_ok_nothing [simp]: "delta_ok ([], [])"
  by (simp add: delta_ok_def)

lemma delta_ok_join [intro]:
  assumes "delta_ok d" and "delta_ok e" shows "delta_ok (join_delta d e)"
proof -
  let ?n = "length (fst d)"
  have s: "map snd (snd (join_delta d e)) = map snd (snd d) @ map ((+) ?n) (map snd (snd e))"
    by (simp add: join_delta_def case_prod_unfold comp_def)
  have d: "sorted (map snd (snd d))" "\<And>p. p \<in> snd ` set (snd d) \<Longrightarrow> 0 < p \<and> p \<le> ?n"
    and e: "sorted (map snd (snd e))" "\<And>p. p \<in> snd ` set (snd e) \<Longrightarrow> 0 < p \<and> p \<le> length (fst e)"
    using assms by (auto simp: delta_ok_def)
  have "sorted (map ((+) ?n) (map snd (snd e)))" using e(1) by (simp only: sorted_map) (simp add: sorted_map)
  moreover have "p \<le> q" if "p \<in> snd ` set (snd d)" "q \<in> (+) ?n ` snd ` set (snd e)" for p q
    using d(2) [OF that(1)] that(2) by auto
  ultimately have "sorted (map snd (snd (join_delta d e)))" unfolding s sorted_append using d(1) by simp
  moreover have "0 < p \<and> p \<le> length (fst (join_delta d e))" if "p \<in> snd ` set (snd (join_delta d e))" for p
  proof -
    have "p \<in> set (map snd (snd d) @ map ((+) ?n) (map snd (snd e)))" using that unfolding s [symmetric] by simp
    then consider "p \<in> snd ` set (snd d)" | q where "q \<in> snd ` set (snd e)" "p = ?n + q" by auto
    then show ?thesis
    proof cases
      case 1
      with d(2) [OF this] show ?thesis by simp
    next
      case 2
      with e(2) [OF 2(1)] show ?thesis by simp
    qed
  qed
  ultimately show ?thesis by (simp add: delta_ok_def)
qed

lemma out_ok_append:
  assumes "out_ok out" and "delta_ok d" shows "out_ok (append_delta out d)"
proof -
  from assms(1) obtain ms where ms: "fx_marks out = concat (map (\<lambda>(m, p). [m, of_nat p]) ms)" "marks_ok ms (length (fx_bytes out))"
    by (auto simp: out_ok_def)
  let ?e = "(fx_bytes out, ms)"
  have "delta_ok ?e" using ms(2) by (auto simp: delta_ok_def marks_ok_def)
  with assms(2) have "delta_ok (join_delta ?e d)" by blast
  then have "marks_ok (snd (join_delta ?e d)) (length (fx_bytes (append_delta out d)))"
    by (auto simp: delta_ok_def marks_ok_def)
  moreover have "fx_marks (append_delta out d) = concat (map (\<lambda>(m, p). [m, of_nat p]) (snd (join_delta ?e d)))"
    using ms(1) by (simp add: append_delta_def join_delta_def comp_def case_prod_unfold)
  ultimately show ?thesis by (auto simp: out_ok_def)
qed

section \<open>Code that appends\<close>

text \<open>\<open>put\<close> puts a stream into a state. What \<open>f\<close> does to the rest of the state does not depend on the stream.\<close>

definition emits :: "(fx_out \<Rightarrow> 's \<Rightarrow> 's) \<Rightarrow> ('s \<Rightarrow> 's outcome) \<Rightarrow> bool" where
  "emits put f \<longleftrightarrow> (\<forall>s. \<exists>r. yields r (\<lambda>(t, d). delta_ok d) \<and>
     (\<forall>out. f (put out s) = obind r (\<lambda>(t, d). Ok (put (append_delta out d) t))))"

definition only :: "fx_out \<Rightarrow> fx_out \<Rightarrow> fx_out" where
  "only out s = out"

lemma emitsI:
  assumes "\<And>s. yields (r s) (\<lambda>(t, d). delta_ok d)"
    and "\<And>s out. f (put out s) = obind (r s) (\<lambda>(t, d). Ok (put (append_delta out d) t))"
  shows "emits put f"
  using assms unfolding emits_def by metis

lemma emits_Ok [yields_intro]: "emits put Ok"
  by (rule emitsI [of "\<lambda>s. Ok (s, ([], []))"]) simp_all

lemma emits_failed [yields_intro]: "emits put (\<lambda>s. Abort)" "emits put (\<lambda>s. Fault)" "emits put (\<lambda>s. Hang)"
  by (rule emitsI [of "\<lambda>s. Abort"] emitsI [of "\<lambda>s. Fault"] emitsI [of "\<lambda>s. Hang"], simp_all)+

lemma emits_then [yields_intro]:
  assumes "emits put f" and "emits put g" shows "emits put (\<lambda>s. obind (f s) g)"
proof -
  from assms obtain r q where r: "\<And>s. yields (r s) (\<lambda>(t, d). delta_ok d)"
      "\<And>s out. f (put out s) = obind (r s) (\<lambda>(t, d). Ok (put (append_delta out d) t))"
    and q: "\<And>s. yields (q s) (\<lambda>(t, d). delta_ok d)"
      "\<And>s out. g (put out s) = obind (q s) (\<lambda>(t, d). Ok (put (append_delta out d) t))"
    unfolding emits_def by metis
  show ?thesis
  proof (rule emitsI)
    fix s out
    show "yields (obind (r s) (\<lambda>(t, d). obind (q t) (\<lambda>(u, e). Ok (u, join_delta d e)))) (\<lambda>(t, d). delta_ok d)"
      by (rule yields_bind [OF r(1)], clarify, rule yields_bind [OF q(1)]) (auto split: prod.splits)
    show "obind (f (put out s)) g = obind (obind (r s) (\<lambda>(t, d). obind (q t) (\<lambda>(u, e). Ok (u, join_delta d e))))
        (\<lambda>(t, d). Ok (put (append_delta out d) t))"
      by (simp add: r(2) q(2) obind_assoc case_prod_unfold)
  qed
qed

lemma emits_bind: "(\<And>x. r = Ok x \<Longrightarrow> emits put (f x)) \<Longrightarrow> emits put (\<lambda>s. obind r (\<lambda>x. f x s))"
  by (cases r) (auto intro: yields_intro)

text \<open>A look at a part of the state that is not the stream.\<close>

lemma emits_view:
  assumes "\<And>x. emits put (\<lambda>s. f x s)" and "\<And>out s. v (put out s) = v s"
  shows "emits put (\<lambda>s. f (v s) s)"
proof -
  from assms(1) obtain r where r: "\<And>x s. yields (r x s) (\<lambda>(t, d). delta_ok d)"
    "\<And>x s out. f x (put out s) = obind (r x s) (\<lambda>(t, d). Ok (put (append_delta out d) t))"
    unfolding emits_def by metis
  show ?thesis by (rule emitsI [of "\<lambda>s. r (v s) s"]) (simp_all add: r assms(2))
qed

lemma emits_only:
  assumes "emits only f" shows "\<exists>r. yields r delta_ok \<and> (\<forall>out. f out = obind r (\<lambda>d. Ok (append_delta out d)))"
proof -
  from assms obtain r :: "(fx_out \<times> delta) outcome" where
    r: "yields r (\<lambda>(t, d). delta_ok d)" "\<And>out. f out = obind r (\<lambda>(t, d). Ok (append_delta out d))"
    unfolding emits_def only_def by blast
  show ?thesis
    by (rule exI [of _ "obind r (\<lambda>(t, d). Ok d)"]) (use r in \<open>auto simp: yields_def obind_assoc case_prod_unfold\<close>)
qed

lemma emits_onlyI:
  "yields r delta_ok \<Longrightarrow> (\<And>out. f out = obind r (\<lambda>d. Ok (append_delta out d))) \<Longrightarrow> emits only f"
  by (rule emitsI [of "\<lambda>s. obind r (\<lambda>d. Ok (undefined, d))"]) (auto simp: yields_def only_def obind_assoc)

section \<open>Properties\<close>

lemma push_uint32_nonempty: "fx_laws G \<Longrightarrow> ndr_push_uint32 G v \<noteq> []"
  by (simp add: fx_laws_def eval_nat_numeral)

lemma push_bytes_delta: "push_bytes bs out = append_delta out (bs, [])"
  by (simp add: push_bytes_def append_delta_def)

lemma push_mark_delta: "push_mark m (append_delta out d) = append_delta out (join_delta d ([], [(m, 0)]))"
  by (simp add: push_mark_def append_delta_def join_delta_def)

lemma push_marker_delta: "push_marker G v out = append_delta out (ndr_push_uint32 G v, [(0, length (ndr_push_uint32 G v))])"
  by (simp add: push_marker_def push_bytes_delta push_mark_delta join_delta_def)

lemma push_tagged_delta:
  "push_tagged G t v out = append_delta out (ndr_push_uint32 G t @ ndr_push_uint32 G v, [(0, length (ndr_push_uint32 G t @ ndr_push_uint32 G v))])"
  by (simp add: push_tagged_def push_bytes_delta push_mark_delta join_delta_def)

lemma emits_delta: "delta_ok d \<Longrightarrow> (\<And>out. f out = append_delta out d) \<Longrightarrow> emits only (\<lambda>out. Ok (f out))"
  by (rule emits_onlyI [of "Ok d"]) simp_all

lemma emits_bytes [yields_intro]: "emits only (\<lambda>out. Ok (push_bytes bs out))"
  by (rule emits_delta [OF _ push_bytes_delta]) (simp add: delta_ok_def)

lemma emits_marker [yields_intro]: "fx_laws G \<Longrightarrow> emits only (\<lambda>out. Ok (push_marker G v out))"
  by (rule emits_delta [OF _ push_marker_delta]) (simp add: delta_ok_def push_uint32_nonempty)

lemma emits_tagged [yields_intro]: "fx_laws G \<Longrightarrow> emits only (\<lambda>out. Ok (push_tagged G t v out))"
  by (rule emits_delta [OF _ push_tagged_delta]) (simp add: delta_ok_def push_uint32_nonempty)

text \<open>A value behind the bytes \<open>bs\<close> of its tag and name.\<close>

lemma emits_value:
  assumes "bs \<noteq> []" shows "emits only (\<lambda>out. push_value G t v (push_bytes bs out))"
proof (rule emits_onlyI)
  let ?r = "obind (push_data G t v) (\<lambda>(vs, m). Ok (bs @ vs, [(0, length bs), (m, length (bs @ vs))]))"
  show "yields ?r delta_ok" using assms by (auto simp: yields_def delta_ok_def)
  show "push_value G t v (push_bytes bs out) = obind ?r (\<lambda>d. Ok (append_delta out d))" for out
    by (simp add: push_value_def push_bytes_delta push_mark_delta join_delta_def obind_assoc case_prod_unfold)
qed

lemma push_bytes_push_bytes: "push_bytes bs (push_bytes as out) = push_bytes (as @ bs) out"
  by (simp add: push_bytes_def)

lemma emits_property [yields_intro]:
  assumes "fx_laws G" shows "emits only (push_property G nprops p)"
proof (cases p)
  case (fields t retval v)
  show ?thesis
  proof (cases "retval \<noteq> MAPI_E_SUCCESS")
    case True
    then have "push_property G nprops p = Ok" by (auto simp: push_property_def fields)
    then show ?thesis by (simp add: emits_Ok)
  next
    case False
    show ?thesis
    proof (cases "t > 0x80000000")
      case True
      with False fields show ?thesis
        by (cases "nprops (ucast (drop_bit 16 t))")
          (auto simp: push_property_def [abs_def] Let_def push_bytes_push_bytes push_uint32_nonempty [OF assms] intro!: emits_value emits_bytes)
    next
      case False
      with \<open>\<not> retval \<noteq> MAPI_E_SUCCESS\<close> fields show ?thesis
        by (simp add: push_property_def [abs_def] Let_def emits_value push_uint32_nonempty [OF assms])
    qed
  qed
qed

lemma emits_properties [yields_intro]: "fx_laws G \<Longrightarrow> emits only (oxcfxics_ndr_push_properties G nprops ps)"
proof (induction ps)
  case (Cons p ps)
  then have "emits only (\<lambda>out. obind (push_property G nprops p out) (oxcfxics_ndr_push_properties G nprops ps))"
    by (intro yields_intro) simp_all
  moreover have "oxcfxics_ndr_push_properties G nprops (p # ps) =
      (\<lambda>out. obind (push_property G nprops p out) (oxcfxics_ndr_push_properties G nprops ps))" by (rule ext) simp
  ultimately show ?case by simp
next
  case Nil
  have "oxcfxics_ndr_push_properties G nprops [] = Ok" by (rule ext) simp
  then show ?case by (simp add: emits_Ok)
qed

section \<open>Recipients\<close>

lemma emits_string_prop:
  assumes "fx_laws G" shows "emits only (push_string_prop G t v)"
proof (rule emits_onlyI)
  let ?r = "obind (oxcfxics_compute_cutmark_min_value_buffer PT_UNICODE) (\<lambda>m.
     obind (oxcfxics_ndr_push_simple_data G 0x1f v) (\<lambda>bs.
     Ok (ndr_push_uint32 G t @ bs, [(m, length (ndr_push_uint32 G t @ bs))])))"
  show "yields ?r delta_ok" by (auto simp: yields_def delta_ok_def push_uint32_nonempty [OF assms])
  show "push_string_prop G t v out = obind ?r (\<lambda>d. Ok (append_delta out d))" for out
    by (simp add: push_string_prop_def push_bytes_delta push_mark_delta join_delta_def obind_assoc)
qed

text \<open>Code that goes on with a stream that was appended to.\<close>

lemma emits_after:
  assumes "emits only (\<lambda>out. Ok (h out))" and "emits only f" shows "emits only (\<lambda>out. f (h out))"
  using emits_then [OF assms] by simp

lemma emits_case_option:
  "emits put f \<Longrightarrow> (\<And>x. emits put (g x)) \<Longrightarrow> emits put (\<lambda>s. case y of None \<Rightarrow> f s | Some x \<Rightarrow> g x s)"
  by (cases y) simp_all

lemma emits_if: "(c \<Longrightarrow> emits put f) \<Longrightarrow> (\<not> c \<Longrightarrow> emits put g) \<Longrightarrow> emits put (\<lambda>s. if c then f s else g s)"
  by (cases c) simp_all

lemma emits_recipient [yields_intro]:
  assumes G: "fx_laws G" shows "emits only (push_recipient G nprops columns i recipient)"
proof -
  let ?cn = "first_column columns [PidTagDisplayName, PidTagAddressBookDisplayNamePrintable, PidTagRecipientDisplayName]"
  let ?em = "first_column columns [PidTagEmailAddress, PidTagSmtpAddress]"
  let ?d = "recip_data recipient"
  let ?ps = "zip columns (map (\<lambda>v. (if v = FxNullPtr then MAPI_E_NOT_FOUND else MAPI_E_SUCCESS, v)) ?d)"
  let ?tail = "\<lambda>out. if length ?d < length columns then Fault else
     obind (oxcfxics_ndr_push_properties G nprops ?ps (push_tagged G PidTagRecipientType (recip_type recipient) out))
       (\<lambda>out. Ok (push_marker G EndToRecip out))"
  let ?name = "\<lambda>cn out. case cn of None \<Rightarrow> Ok out | Some c \<Rightarrow> push_string_prop G PidTagDisplayName c out"
  let ?mail = "\<lambda>email out. case email of None \<Rightarrow> Ok out | Some e \<Rightarrow>
     obind (push_string_prop G PidTagAddressType (FxString [83, 77, 84, 80]) out) (push_string_prop G PidTagEmailAddress e)"
  have tail: "emits only ?tail"
    by (rule emits_if, rule emits_failed,
        rule emits_then [OF emits_after [OF emits_tagged [OF G] emits_properties [OF G]] emits_marker [OF G]])
  have name: "emits only (?name cn)" for cn 
    by (rule emits_case_option [OF emits_Ok emits_string_prop [OF G]])
  have mail: "emits only (?mail email)" for email 
    by (rule emits_case_option [OF emits_Ok emits_then [OF emits_string_prop [OF G] emits_string_prop [OF G]]])
  have "emits only (\<lambda>out. obind (recip_value ?em ?d) (\<lambda>email. obind (?mail email out)
      (\<lambda>out. obind (recip_value ?cn ?d) (\<lambda>cn. obind (?name cn out) ?tail))))"
    by (rule emits_bind, rule emits_then [OF mail], rule emits_bind, rule emits_then [OF name tail])
  from emits_after [OF emits_marker [OF G] emits_after [OF emits_tagged [OF G] this]]
  show ?thesis unfolding push_recipient_def [abs_def] Let_def by (simp add: if_distrib)
qed

lemma emits_recipients: "fx_laws G \<Longrightarrow> emits only (push_recipients G nprops columns i rs)"
proof (induction rs arbitrary: i)
  case Nil
  have "push_recipients G nprops columns i [] = Ok" by (rule ext) simp
  then show ?case by (simp add: emits_Ok)
next
  case (Cons r rs)
  have "push_recipients G nprops columns i (r # rs) =
      (\<lambda>out. obind (push_recipient G nprops columns i r out) (push_recipients G nprops columns (Suc i) rs))" by (rule ext) simp
  with Cons show ?case by (simp add: emits_then emits_recipient)
qed

lemma emits_message_recipients [yields_intro]:
  assumes "fx_laws (sy_lib V)" shows "emits only (oxcfxics_push_messageChange_recipients V msg)"
  unfolding oxcfxics_push_messageChange_recipients_def [abs_def] Let_def
  by (rule emits_case_option [OF emits_tagged [OF assms] emits_after [OF emits_tagged [OF assms] emits_recipients [OF assms]]])

section \<open>Attachments\<close>

definition put_sd :: "fx_out \<Rightarrow> 'g oxcfxics_sync_data \<Rightarrow> 'g oxcfxics_sync_data" where
  "put_sd out sd = sd\<lparr>sd_out := out\<rparr>"

text \<open>Code on the stream alone, and code that leaves the stream alone.\<close>

lemma emits_lift:
  assumes "emits only f" shows "emits put_sd (\<lambda>sd. obind (f (sd_out sd)) (\<lambda>out. Ok (sd\<lparr>sd_out := out\<rparr>)))"
proof -
  from emits_only [OF assms] obtain r where r: "yields r delta_ok" "\<And>out. f out = obind r (\<lambda>d. Ok (append_delta out d))" by blast
  show ?thesis
    by (rule emitsI [of "\<lambda>sd. obind r (\<lambda>d. Ok (sd, d))"])
      (use r in \<open>auto simp: yields_def put_sd_def obind_assoc\<close>)
qed

lemma emits_quiet:
  assumes "\<And>out s. f (put out s) = obind (f s) (\<lambda>t. Ok (put out t))" shows "emits put f"
  by (rule emitsI [of "\<lambda>s. obind (f s) (\<lambda>t. Ok (t, ([], [])))"]) (auto simp: yields_def assms obind_assoc)

lemma sd_updates: "sd\<lparr>sd_eid_set := e, sd_out := out\<rparr> = sd\<lparr>sd_out := out, sd_eid_set := e\<rparr>"
  by (cases sd) simp

lemma emits_embedded:
  assumes G: "fx_laws (sy_lib V)"
  shows "emits put_sd (oxcfxics_push_messageChange_attachment_embedded_message V properties message i)"
proof (cases "embedded_message V message i properties")
  case None
  then have "oxcfxics_push_messageChange_attachment_embedded_message V properties message i = Ok"
    by (auto simp: oxcfxics_push_messageChange_attachment_embedded_message_def)
  then show ?thesis by (simp add: emits_Ok)
next
  case (Some e)
  obtain messageID vals where e: "e = (messageID, vals)" by (cases e)
  let ?ps = "zip properties (map (\<lambda>v. case v of Some d \<Rightarrow> (MAPI_E_SUCCESS, d) | None \<Rightarrow> (MAPI_E_NOT_FOUND, FxNullPtr)) vals)"
  let ?G = "sy_lib V"
  let ?a = "\<lambda>out. oxcfxics_ndr_push_properties ?G (sy_nprops V) ?ps (push_marker ?G StartEmbed out)"
  let ?q = "\<lambda>sd. obind (RAWIDSET_push_guid_glob (sy_samba V) (sd_eid_set sd) (sd_guid sd) (globcnt_of messageID))
    (\<lambda>eids. Ok (sd\<lparr>sd_eid_set := eids\<rparr>))"
  let ?b = "\<lambda>out. Ok (push_marker ?G EndEmbed (push_tagged ?G MetaTagFXDelProp PidTagMessageAttachments
    (push_tagged ?G MetaTagFXDelProp PidTagMessageRecipients out)))"
  have a: "emits only ?a" by (rule emits_after [OF emits_marker [OF G] emits_properties [OF G]])
  have b: "emits only ?b" by (rule emits_after [OF emits_tagged [OF G] emits_after [OF emits_tagged [OF G] emits_marker [OF G]]])
  have "?q (put_sd out sd) = obind (?q sd) (\<lambda>sd. Ok (put_sd out sd))" for out sd
    by (cases sd) (simp add: put_sd_def obind_assoc)
  then have q: "emits put_sd ?q" by (rule emits_quiet)
  from emits_then [OF emits_lift [OF a] emits_then [OF q emits_lift [OF b]]] show ?thesis
    unfolding oxcfxics_push_messageChange_attachment_embedded_message_def [abs_def]
    by (simp add: Some e Let_def obind_assoc sd_updates)
qed

lemma emits_attachment:
  assumes G: "fx_laws (sy_lib V)" shows "emits put_sd (push_attachment V properties message i row)"
proof (cases row)
  case None
  then have "push_attachment V properties message i row = (\<lambda>sd. Abort)" by (auto simp: push_attachment_def)
  then show ?thesis by (simp add: emits_failed)
next
  case (Some vals)
  let ?G = "sy_lib V"
  let ?a = "\<lambda>out. oxcfxics_ndr_push_properties ?G (sy_nprops V) (zip attach_prop_tags vals)
    (push_tagged ?G PidTagAttachNumber (of_nat i) (push_marker ?G NewAttach out))"
  let ?e = "\<lambda>(retval, attach_method) sd. if retval = MAPI_E_SUCCESS then
      (case attach_method of
         FxLong m \<Rightarrow> (if m = 5 then oxcfxics_push_messageChange_attachment_embedded_message V properties message i sd else Ok sd)
       | _ \<Rightarrow> Fault) else Ok sd"
  have a: "emits only ?a"
    by (rule emits_after [OF emits_marker [OF G] emits_after [OF emits_tagged [OF G] emits_properties [OF G]]])
  have e: "emits put_sd (?e x)" for x
    by (cases x; cases "snd x") (auto intro!: emits_if emits_Ok emits_failed emits_embedded [OF G])
  have eb: "emits put_sd (\<lambda>sd. obind (rd vals 0) (\<lambda>x. ?e x sd))" by (rule emits_bind [OF e])
  from emits_then [OF emits_lift [OF a] emits_then [OF eb emits_lift [OF emits_marker [OF G, of EndAttach]]]] show ?thesis
    unfolding push_attachment_def [abs_def] by (simp add: Some Let_def obind_assoc case_prod_unfold)
qed

lemma emits_attachments: "fx_laws (sy_lib V) \<Longrightarrow> emits put_sd (push_attachments V properties message i rows)"
proof (induction rows arbitrary: i)
  case Nil
  have "push_attachments V properties message i [] = Ok" by (rule ext) simp
  then show ?case by (simp add: emits_Ok)
next
  case (Cons r rows)
  have "push_attachments V properties message i (r # rows) =
      (\<lambda>sd. obind (push_attachment V properties message i r sd) (push_attachments V properties message (Suc i) rows))" by (rule ext) simp
  with Cons show ?case by (simp add: emits_then emits_attachment)
qed

lemma emits_message_attachments:
  assumes G: "fx_laws (sy_lib V)" shows "emits put_sd (oxcfxics_push_messageChange_attachments V properties message)"
proof -
  let ?b = "ndr_push_uint32 (sy_lib V) MetaTagFXDelProp @ ndr_push_uint32 (sy_lib V) PidTagMessageAttachments"
  let ?t = "\<lambda>sd. case attachment_rows V message attach_prop_tags of None \<Rightarrow> Ok sd
    | Some (columns_set, rows) \<Rightarrow> if rows = [] \<or> \<not> columns_set then Ok sd else push_attachments V properties message 0 rows sd"
  have t: "emits put_sd ?t"
    by (cases "attachment_rows V message attach_prop_tags")
      (auto intro!: emits_if emits_Ok emits_attachments [OF G])
  from emits_then [OF emits_lift [OF emits_bytes [of ?b]] t] show ?thesis
    unfolding oxcfxics_push_messageChange_attachments_def [abs_def] Let_def by simp
qed

lemma emits_message:
  assumes G: "fx_laws (sy_lib V)" shows "emits put_sd (push_message V header ptags vals properties message msg)"
proof -
  let ?G = "sy_lib V"
  let ?a = "\<lambda>out. obind (oxcfxics_ndr_push_properties ?G (sy_nprops V) header (push_marker ?G IncrSyncChg out)) (\<lambda>out.
    obind (oxcfxics_ndr_push_properties ?G (sy_nprops V) (drop message_properties_shift (zip ptags vals)) (push_marker ?G IncrSyncMessage out))
      (oxcfxics_push_messageChange_recipients V msg))"
  have a: "emits only ?a"
    by (rule emits_then [OF emits_after [OF emits_marker [OF G] emits_properties [OF G]]
        emits_then [OF emits_after [OF emits_marker [OF G] emits_properties [OF G]] emits_message_recipients [OF G]]])
  from emits_then [OF emits_lift [OF a] emits_message_attachments [OF G]] show ?thesis
    unfolding push_message_def [abs_def] Let_def by (simp add: obind_assoc)
qed

end
