(* ===== verification/Oxcfxics_Folders.thy ===== *)
theory Oxcfxics_Folders
  imports Oxcfxics_Sync
begin

unbundle bit_operations_syntax

text \<open>
  Downloading the changes of a folder hierarchy, from \<^verbatim>\<open>src/mapiproxy/servers/default/emsmdb/oxcfxics.c\<close>: the folders that
  the client has not seen, found by walking down from the synchronized folder, and the new state. The
  walk takes the depth it may go to; a hierarchy that is deeper, such as one with a cycle, is \<open>Hang\<close>.
\<close>

section \<open>What the object layer provides\<close>

text \<open>The hierarchy table of a folder, with the restriction as for messages; \<open>None\<close> for a folder without one. \<open>open_folder\<close> is
  \<^verbatim>\<open>emsmdbp_object_open_folder\<close>.\<close>

record ('g, 'f) folder_env =
  folder_table :: "'f \<Rightarrow> u64 option \<Rightarrow> u32 list \<Rightarrow> 'g row_values option list option"
  folder_table_is_mapistore :: "'f \<Rightarrow> bool"
  open_folder :: "'f \<Rightarrow> u64 \<Rightarrow> 'f option"

abbreviation "PidTagFolderId \<equiv> (0x67480014 :: u32)"
abbreviation "PidTagParentFolderId \<equiv> (0x67490014 :: u32)"
abbreviation "PidTagParentSourceKey \<equiv> (0x65E10102 :: u32)"

section \<open>One folder\<close>

definition oxcfxics_make_xid :: "'g fx_lib \<Rightarrow> 'g \<Rightarrow> u64 \<Rightarrow> nat \<Rightarrow> u8 list option" where
  "oxcfxics_make_xid G replica_guid i idlength =
     (if idlength > 8 then None else Some (ndr_push_GUID G replica_guid @ counter_bytes idlength i))"

definition oxcfxics_make_gid :: "'g fx_lib \<Rightarrow> 'g \<Rightarrow> u64 \<Rightarrow> u8 list option" where
  "oxcfxics_make_gid G replica_guid i = oxcfxics_make_xid G replica_guid i 6"

text \<open>The value of a column, whatever its status: a null pointer is not followed.\<close>

definition column_i8 :: "'g row_values \<Rightarrow> nat \<Rightarrow> u64 outcome" where
  "column_i8 vals i = obind (rd vals i) (\<lambda>(_, v). case v of FxI8 x \<Rightarrow> Ok x | _ \<Rightarrow> Fault)"

text \<open>The key of the folder that the rows are children of, and nothing at the first level. When the key cannot be made, an unset
  pointer is used.\<close>

definition parent_source_key ::
  "('g, 'db, 'm) sync_env \<Rightarrow> bool \<Rightarrow> 'db replica_list \<Rightarrow> oxcfxics_prop_index \<Rightarrow> 'g row_values \<Rightarrow> (u8 list \<times> 'db replica_list) outcome" where
  "parent_source_key V topmost l ix vals =
     (if topmost then Ok ([], l)
      else
        obind (column_i8 vals (ix_parent_fid ix)) (\<lambda>parent.
        case emsmdbp_source_key_from_fmid (sy_replicas V) l (sy_owner V) parent of
          (_, l', Some key) \<Rightarrow> Ok (key, l')
        | (_, l', None) \<Rightarrow> Fault))"

text \<open>A change key that came without a predecessor change list is replaced.\<close>

definition folder_keys :: "('g, 'db, 'm) sync_env \<Rightarrow> 'g \<Rightarrow> oxcfxics_prop_index \<Rightarrow> u64 \<Rightarrow> 'g row_values \<Rightarrow> ('g fx_data \<times> 'g fx_data) outcome" where
  "folder_keys V guid ix cn vals =
     obind (rd vals (ix_change_key ix)) (\<lambda>(retval, key).
     obind (rd vals (ix_predecessor_change_list ix)) (\<lambda>(retval', pcl).
     obind (if retval \<noteq> MAPI_E_SUCCESS \<or> retval' \<noteq> MAPI_E_SUCCESS
            then (case oxcfxics_make_gid (sy_lib V) guid cn of None \<Rightarrow> Fault | Some bs \<Rightarrow> Ok (FxBinary bs)) else Ok key) (\<lambda>key'.
     if retval' \<noteq> MAPI_E_SUCCESS then
       (case key' of FxBinary bs \<Rightarrow> Ok (key', FxBinary (of_nat (length bs) # bs)) | _ \<Rightarrow> Fault)
     else Ok (key', pcl))))"

definition folder_header ::
  "('g, 'db, 'm) sync_env \<Rightarrow> emsmdbp_syncconfigure_request \<Rightarrow> 'g \<Rightarrow> oxcfxics_prop_index \<Rightarrow> u64 \<Rightarrow> u8 list \<Rightarrow> u8 list \<Rightarrow> 'g fx_data \<Rightarrow>
     'g row_values \<Rightarrow> (u32 \<times> MAPISTATUS \<times> 'g fx_data) list outcome" where
  "folder_header V req guid ix cn parent_key source_key lm_time vals =
     obind (folder_keys V guid ix cn vals) (\<lambda>(change_key, predecessors).
     obind (rd vals (ix_display_name ix)) (\<lambda>(r_name, display_name).
     obind (rd vals (ix_eid ix)) (\<lambda>(_, fid).
     obind (if no_foreign_identifiers req then
              obind (rd vals (ix_parent_fid ix)) (\<lambda>(r_parent, parent_fid).
              Ok [(PidTagParentFolderId, if r_parent \<noteq> MAPI_E_SUCCESS then FxI8 0 else parent_fid)])
            else Ok []) (\<lambda>parent.
     Ok (map (\<lambda>(t, v). (t, MAPI_E_SUCCESS, v))
          ([(PidTagParentSourceKey, FxBinary parent_key), (PidTagSourceKey, FxBinary source_key),
            (PidTagLastModificationTime, lm_time), (PidTagChangeKey, change_key), (PidTagPredecessorChangeList, predecessors),
            (PidTagDisplayName, if r_name \<noteq> MAPI_E_SUCCESS then FxString [] else display_name)] @
           (if request_eid req then [(PidTagFolderId, fid)] else []) @ parent))))))"

definition folder_properties_shift :: nat where
  "folder_properties_shift = 7"

definition push_folder ::
  "('g, 'db, 'm) sync_env \<Rightarrow> (u32 \<times> MAPISTATUS \<times> 'g fx_data) list \<Rightarrow> u32 list \<Rightarrow> 'g row_values \<Rightarrow> fx_out \<Rightarrow> fx_out outcome" where
  "push_folder V header properties vals out =
     obind (oxcfxics_ndr_push_properties (sy_lib V) (sy_nprops V) header (push_marker (sy_lib V) IncrSyncChg out))
       (oxcfxics_ndr_push_properties (sy_lib V) (sy_nprops V) (drop folder_properties_shift (zip properties vals)))"

text \<open>A folder that was seen is sent all the same when it has no change key.\<close>

definition folder_change ::
  "('g, 'db, 'm) sync_env \<Rightarrow> u8 list \<Rightarrow> u8 list \<Rightarrow> 'g row_values \<Rightarrow> ('g, 'db) row_state \<Rightarrow> ('g, 'db) row_state outcome" where
  "folder_change V parent_key source_key vals w =
     (let sc = rw_sc w; sd = rw_sd w; ix = rw_index w in
      obind (header_time V ix vals) (\<lambda>lm_time.
      obind (header_cn ix vals) (\<lambda>cn.
      obind (rd vals (ix_change_key ix)) (\<lambda>(r_key, _).
      let seen = IDSET_includes_guid_glob (sy_samba V) (cnset_seen sc) (Some (sd_guid sd)) cn;
          w1 = (if seen then skip_object w else w)
      in
      if seen \<and> r_key = MAPI_E_SUCCESS then Ok w1
      else
        obind (RAWIDSET_push_guid_glob (sy_samba V) (sd_cnset_seen sd) (sd_guid sd) cn) (\<lambda>cns.
        obind (folder_header V (sc_request sc) (sd_guid sd) ix cn parent_key source_key lm_time vals) (\<lambda>header.
        obind (push_folder V header (sc_properties sc) vals (sd_out sd)) (\<lambda>out.
        Ok (w1\<lparr>rw_sc := (rw_sc w1)\<lparr>sent_objects := sent_objects (rw_sc w1) + 1\<rparr>,
               rw_sd := sd\<lparr>sd_cnset_seen := cns, sd_out := out\<rparr>\<rparr>))))))))"

text \<open>One row; the identifier in the result is that of a folder to walk into.\<close>

definition folder_row ::
  "('g, 'db, 'm) sync_env \<Rightarrow> bool \<Rightarrow> 'g row_values \<Rightarrow> ('g, 'db) row_state \<Rightarrow> (u64 option \<times> ('g, 'db) row_state) outcome" where
  "folder_row V topmost vals w =
     obind (parent_source_key V topmost (sc_replicas (rw_sc w)) (rw_index w) vals) (\<lambda>(parent_key, l).
     obind (column_i8 vals (ix_eid (rw_index w))) (\<lambda>eid.
     let w1 = w\<lparr>rw_sc := (rw_sc w)\<lparr>sc_replicas := l\<rparr>\<rparr> in
     if eid = 0x7fffffffffffffff then Ok (None, w1)
     else
       obind (note_eid V eid w1) (\<lambda>w2.
       case emsmdbp_source_key_from_fmid (sy_replicas V) (sc_replicas (rw_sc w2)) (sy_owner V) eid of
         (_, l', None) \<Rightarrow> Fault
       | (_, l', Some source_key) \<Rightarrow>
           obind (folder_change V parent_key source_key vals (w2\<lparr>rw_sc := (rw_sc w2)\<lparr>sc_replicas := l'\<rparr>\<rparr>)) (\<lambda>w3.
           Ok (Some eid, w3)))))"

section \<open>The walk\<close>

text \<open>The rows of a table, with \<open>down\<close> for the walk into a subfolder. Every call has its own \<open>replica_guid\<close>.\<close>

fun folder_rows ::
  "('g, 'db, 'm) sync_env \<Rightarrow> ('g, 'f) folder_env \<Rightarrow> ('f \<Rightarrow> ('g, 'db) row_state \<Rightarrow> ('g, 'db) row_state outcome) \<Rightarrow> bool \<Rightarrow> 'f \<Rightarrow>
     'g row_values option list \<Rightarrow> ('g, 'db) row_state \<Rightarrow> ('g, 'db) row_state outcome" where
  "folder_rows V F down topmost f [] w = Ok w"
| "folder_rows V F down topmost f (None # rows) w = folder_rows V F down topmost f rows w"
| "folder_rows V F down topmost f (Some vals # rows) w =
     obind (folder_row V topmost vals w) (\<lambda>(eid, w1).
     obind (case Option.bind eid (open_folder F f) of
              None \<Rightarrow> Ok w1
            | Some sub \<Rightarrow> obind (down sub (w1\<lparr>rw_guid := None\<rparr>)) (\<lambda>w2. Ok (w2\<lparr>rw_guid := rw_guid w1\<rparr>)))
       (folder_rows V F down topmost f rows))"

fun oxcfxics_push_folderChange ::
  "('g, 'db, 'm) sync_env \<Rightarrow> ('g, 'f) folder_env \<Rightarrow> nat \<Rightarrow> bool \<Rightarrow> 'f \<Rightarrow> ('g, 'db) row_state \<Rightarrow> ('g, 'db) row_state outcome" where
  "oxcfxics_push_folderChange V F 0 topmost f w = Hang"
| "oxcfxics_push_folderChange V F (Suc depth) topmost f w =
     (let sc = rw_sc w; is_mapistore = folder_table_is_mapistore F f in
      if folder_table F f None (sc_properties sc) = None then Ok w
      else
        obind (oxcfxics_table_set_cn_restriction V is_mapistore (sc_replicas sc) (cnset_seen sc)) (\<lambda>(l, cn).
        case folder_table F f cn (sc_properties sc) of
          None \<Rightarrow> Ok w
        | Some rows \<Rightarrow>
            folder_rows V F (oxcfxics_push_folderChange V F depth False) topmost f rows
              (w\<lparr>rw_sc := sc\<lparr>sc_replicas := l,
                 total_objects := (if is_mapistore then total_objects sc + of_nat (length rows) else total_objects sc)\<rparr>\<rparr>)))"

section \<open>The stream\<close>

definition folder_index :: "u32 list \<Rightarrow> oxcfxics_prop_index" where
  "folder_index ts = no_index\<lparr>
     ix_parent_fid := find_or ts PidTagParentFolderId 0,
     ix_eid := find_or ts PidTagFolderId 0,
     ix_change_number := find_or ts PidTagChangeNumber 0,
     ix_change_key := find_or ts PidTagChangeKey 0,
     ix_predecessor_change_list := find_or ts PidTagPredecessorChangeList 0,
     ix_last_modification_time := find_or ts PidTagLastModificationTime 0,
     ix_display_name := find_or ts PidTagDisplayName 0\<rparr>"

definition folder_start :: "('g, 'db, 'm) sync_env \<Rightarrow> ('g, 'db) synccontext \<Rightarrow> 'g oxcfxics_sync_data" where
  "folder_start V sc = (sync_start V sc)\<lparr>sd_prop_index := folder_index (sc_properties sc),
     sd_cnset_seen := [RAWIDSET_make (sy_samba V) False True], sd_deleted_eid_set := []\<rparr>"

text \<open>The state behind the folders; there is no cutmark behind its first marker.\<close>

definition push_folder_state ::
  "('g, 'db, 'm) sync_env \<Rightarrow> ('g, 'db) synccontext \<Rightarrow> 'g oxcfxics_sync_data \<Rightarrow> (('g, 'db) synccontext \<times> fx_out) outcome" where
  "push_folder_state V sc sd =
     obind (IDSET_merge_idsets (sy_samba V) (cnset_seen sc) (RAWIDSET_convert_to_idset (sy_samba V) (sd_cnset_seen sd))) (\<lambda>seen.
     obind (IDSET_merge_idsets (sy_samba V) (idset_given sc) (RAWIDSET_convert_to_idset (sy_samba V) (sd_eid_set sd))) (\<lambda>given.
     let G = sy_lib V;
         out1 = push_marked_idset V MetaTagCnsetSeen seen (push_bytes (ndr_push_uint32 G IncrSyncStateBegin) (sd_out sd));
         out2 = push_marked_idset V MetaTagIdsetGiven given out1
     in Ok (sc\<lparr>cnset_seen := seen, idset_given := given\<rparr>, push_marker G IncrSyncEnd (push_marker G IncrSyncStateEnd out2))))"

definition oxcfxics_prepare_synccontext_with_folderChange ::
  "('g, 'db, 'm) sync_env \<Rightarrow> ('g, 'f) folder_env \<Rightarrow> nat \<Rightarrow> 'f \<Rightarrow> ('g, 'db) emsmdbp_object_synccontext \<Rightarrow>
     ('g, 'db) emsmdbp_object_synccontext outcome" where
  "oxcfxics_prepare_synccontext_with_folderChange V F depth f x =
     (let sc = sync_context x; sd = folder_start V sc in
      obind (oxcfxics_push_folderChange V F depth True f
               \<lparr>rw_sc = sc, rw_sd = sd, rw_index = sd_prop_index sd, rw_changed = False, rw_guid = None\<rparr>) (\<lambda>w.
      obind (push_folder_state V (rw_sc w) (rw_sd w)) (\<lambda>(sc', out). Ok (send_chunk sc' out))))"

end
