(* ===== verification/Oxcfxics_Buffers.thy ===== *)
theory Oxcfxics_Buffers
  imports Oxcfxics_Folders
begin

unbundle bit_operations_syntax

text \<open>
  The buffers of a synchronization, from \<^verbatim>\<open>src/mapiproxy/servers/default/emsmdb/oxcfxics.c\<close>: what is left of a chunk is
  joined with the start of the next one. The buffers that a client receives are the chunks in
  order, cut at other places; the calls of \<^verbatim>\<open>abort()\<close> in this code are not reached by a request
  that fits in 16 bits; and the download ends.
\<close>

section \<open>The responses\<close>

definition oxcfxics_advance_cutmarks ::
  "('g, 'db) emsmdbp_object_synccontext \<Rightarrow> u32 \<Rightarrow> (u32 \<times> ('g, 'db) emsmdbp_object_synccontext) outcome" where
  "oxcfxics_advance_cutmarks x request_buffer_size =
     obind (cut_buffer (sc_cutmarks x) (sc_next_cutmark_idx x) (spos (sc_stream x)) request_buffer_size) (\<lambda>(buffer_size, mark_idx).
     Ok (buffer_size, x\<lparr>sc_next_cutmark_idx := mark_idx\<rparr>))"

definition sc_read :: "('g, 'db) emsmdbp_object_synccontext \<Rightarrow> u32 \<Rightarrow> (u8 list \<times> ('g, 'db) emsmdbp_object_synccontext) outcome" where
  "sc_read x n = obind (emsmdbp_stream_read_buffer (sc_stream x) n) (\<lambda>(bs, s). Ok (bs, x\<lparr>sc_stream := s\<rparr>))"

abbreviation sc_pos :: "('g, 'db) emsmdbp_object_synccontext \<Rightarrow> nat" where "sc_pos x \<equiv> spos (sc_stream x)"
abbreviation sc_buf :: "('g, 'db) emsmdbp_object_synccontext \<Rightarrow> u8 list" where "sc_buf x \<equiv> sbuf (sc_stream x)"

text \<open>The three places a buffer comes from: the chunk at hand, the first chunk, and the end of a chunk with the start of the
  next one. The flag is \<open>end_of_buffer\<close>; \<open>fill\<close> is the code that makes a chunk.\<close>

definition response_within :: "u32 \<Rightarrow> ('g, 'db) emsmdbp_object_synccontext \<Rightarrow> (bool \<times> u8 list \<times> ('g, 'db) emsmdbp_object_synccontext) outcome" where
  "response_within req x =
     obind (oxcfxics_advance_cutmarks x req) (\<lambda>(n, x1). obind (sc_read x1 n) (\<lambda>(bs, x2). Ok (False, bs, x2)))"

definition response_first ::
  "(('g, 'db) emsmdbp_object_synccontext \<Rightarrow> ('g, 'db) emsmdbp_object_synccontext outcome) \<Rightarrow> u32 \<Rightarrow> ('g, 'db) emsmdbp_object_synccontext \<Rightarrow>
     (bool \<times> u8 list \<times> ('g, 'db) emsmdbp_object_synccontext) outcome" where
  "response_first fill req x =
     obind (fill x) (\<lambda>x1.
     obind (if unat req < length (sc_buf x1) then obind (oxcfxics_advance_cutmarks x1 req) (\<lambda>(n, x2). Ok (False, n, x2))
            else if sync_stage (sync_context x1) = 4 then Ok (True, req, x1) else Abort) (\<lambda>(fin, n, x2).
     obind (sc_read x2 n) (\<lambda>(bs, x3). Ok (fin, bs, x3))))"

definition response_joint ::
  "(('g, 'db) emsmdbp_object_synccontext \<Rightarrow> ('g, 'db) emsmdbp_object_synccontext outcome) \<Rightarrow> u32 \<Rightarrow> ('g, 'db) emsmdbp_object_synccontext \<Rightarrow>
     (bool \<times> u8 list \<times> ('g, 'db) emsmdbp_object_synccontext) outcome" where
  "response_joint fill req x =
     (let old = drop (sc_pos x) (sc_buf x) in
      obind (fill x) (\<lambda>x1.
      let new_size = (req - of_nat (length old) :: u32) in
      obind (if length (sc_buf x1) < unat new_size
             then (if sync_stage (sync_context x1) = 4 then Ok (True, of_nat (length (sc_buf x1)), x1) else Abort)
             else obind (oxcfxics_advance_cutmarks x1 new_size) (\<lambda>(n, x2). Ok (False, n, x2))) (\<lambda>(fin, n, x2).
      if old = [] then
        (if n = 0 then Fault else obind (sc_read x2 n) (\<lambda>(bs, x3). Ok (fin, bs, x3)))
      else if n = 0 then Ok (fin, old, x2)
      else
        obind (rd_bytes (sc_buf x2) 0 (unat n)) (\<lambda>bs.
        Ok (fin, old @ bs, x2\<lparr>sc_stream := (sc_stream x2)\<lparr>spos := sc_pos x2 + unat n\<rparr>\<rparr>)))))"

text \<open>The hierarchy is put into the stream at once, and the first buffer is cut without a look at the cutmarks.\<close>

definition response_hierarchy ::
  "(('g, 'db) emsmdbp_object_synccontext \<Rightarrow> ('g, 'db) emsmdbp_object_synccontext outcome) \<Rightarrow> u32 \<Rightarrow> ('g, 'db) emsmdbp_object_synccontext \<Rightarrow>
     (bool \<times> u8 list \<times> ('g, 'db) emsmdbp_object_synccontext) outcome" where
  "response_hierarchy prepare req x =
     obind (if sc_buf x \<noteq> [] then Ok (True, x) else obind (prepare x) (\<lambda>x1. Ok (False, x1))) (\<lambda>(fin, x1).
     obind (sc_read x1 req) (\<lambda>(bs, x2). Ok (fin \<or> sc_pos x2 = length (sc_buf x2), bs, x2)))"

definition sync_buffer ::
  "(('g, 'db) emsmdbp_object_synccontext \<Rightarrow> ('g, 'db) emsmdbp_object_synccontext outcome) \<Rightarrow>
     (('g, 'db) emsmdbp_object_synccontext \<Rightarrow> ('g, 'db) emsmdbp_object_synccontext outcome) \<Rightarrow> u32 \<Rightarrow> ('g, 'db) emsmdbp_object_synccontext \<Rightarrow>
     (bool \<times> u8 list \<times> ('g, 'db) emsmdbp_object_synccontext) outcome" where
  "sync_buffer fill prepare req x =
     (if sc_pos x + unat req < length (sc_buf x) then response_within req x
      else if contents_mode (sc_request (sync_context x)) then
        (if sync_stage (sync_context x) = 4 then obind (sc_read x req) (\<lambda>(bs, x1). Ok (True, bs, x1))
         else if sync_stage (sync_context x) = 0 then response_first fill req x
         else response_joint fill req x)
      else response_hierarchy prepare req x)"

definition oxcfxics_fill_synccontext_fasttransfer_response ::
  "('g, 'db, 'm) sync_env \<Rightarrow> ('g, 'f) folder_env \<Rightarrow> nat \<Rightarrow> 'f \<Rightarrow> u32 \<Rightarrow> ('g, 'db) emsmdbp_object_synccontext \<Rightarrow>
     (FastTransferSourceGetBuffer_repl \<times> ('g, 'db) emsmdbp_object_synccontext) outcome" where
  "oxcfxics_fill_synccontext_fasttransfer_response V F depth folder request_buffer_size x =
     obind (sync_buffer (oxcfxics_fill_synccontext_with_messageChange V) (oxcfxics_prepare_synccontext_with_folderChange V F depth folder)
              request_buffer_size x)
       (\<lambda>(end_of_buffer, bs, x').
     Ok (\<lparr>TransferStatus = (if end_of_buffer then TransferStatus_Done else TransferStatus_Partial),
          InProgressCount = (if end_of_buffer then sc_total_steps (sync_context x') else sc_steps (sync_context x')),
          TotalStepCount = sc_total_steps (sync_context x'),
          TransferBuffer = bs\<rparr>, x'))"

text \<open>A client that asks for buffers until it is told that the transfer is done.\<close>

fun sync_download ::
  "('g, 'db, 'm) sync_env \<Rightarrow> ('g, 'f) folder_env \<Rightarrow> nat \<Rightarrow> 'f \<Rightarrow> ('g, 'db) emsmdbp_object_synccontext \<Rightarrow> u32 list \<Rightarrow>
     (FastTransferSourceGetBuffer_repl list \<times> ('g, 'db) emsmdbp_object_synccontext) outcome" where
  "sync_download V F depth f x [] = Ok ([], x)"
| "sync_download V F depth f x (n # ns) =
     obind (oxcfxics_fill_synccontext_fasttransfer_response V F depth f n x) (\<lambda>(r, x').
     if TransferStatus r = TransferStatus_Done then Ok ([r], x')
     else obind (sync_download V F depth f x' ns) (\<lambda>(rs, x''). Ok (r # rs, x'')))"

section \<open>The chunks that are to come\<close>

text \<open>The chunks of a synchronization, with fuel: \<open>None\<close> means that there are more than it allows.\<close>

fun sync_chunks ::
  "(('g, 'db) synccontext \<Rightarrow> (('g, 'db) synccontext \<times> fx_out) outcome) \<Rightarrow> nat \<Rightarrow> ('g, 'db) synccontext \<Rightarrow> fx_out list outcome option" where
  "sync_chunks mk n sc =
     (if sync_stage sc = 4 then Some (Ok [])
      else case n of
        0 \<Rightarrow> None
      | Suc m \<Rightarrow>
          (case mk sc of
             Ok (sc', out) \<Rightarrow> map_option (\<lambda>r. obind r (\<lambda>outs. Ok (out # outs))) (sync_chunks mk m sc')
           | Abort \<Rightarrow> Some Abort | Fault \<Rightarrow> Some Fault | Hang \<Rightarrow> Some Hang))"

declare sync_chunks.simps [simp del]

definition chunk_small :: "fx_out \<Rightarrow> bool" where
  "chunk_small out \<longleftrightarrow> length (fx_bytes out) < 2 ^ 32 - 2 ^ 16"

inductive rest_of ::
  "(('g, 'db) synccontext \<Rightarrow> (('g, 'db) synccontext \<times> fx_out) outcome) \<Rightarrow> ('g, 'db) synccontext \<Rightarrow> fx_out list \<Rightarrow> bool" for mk where
  finished: "sync_stage sc = 4 \<Longrightarrow> rest_of mk sc []"
| chunk: "sync_stage sc \<noteq> 4 \<Longrightarrow> mk sc = Ok (sc', out) \<Longrightarrow> chunk_small out \<Longrightarrow> rest_of mk sc' outs \<Longrightarrow> rest_of mk sc (out # outs)"

inductive_cases rest_of_Nil: "rest_of mk sc []"
inductive_cases rest_of_Cons: "rest_of mk sc (out # outs)"

lemma rest_of_finished: "rest_of mk sc outs \<Longrightarrow> sync_stage sc = 4 \<longleftrightarrow> outs = []"
  by (auto elim: rest_of.cases)

lemma sync_chunks_rest_of:
  "sync_chunks mk n sc = Some (Ok outs) \<Longrightarrow> list_all chunk_small outs \<Longrightarrow> rest_of mk sc outs"
proof (induction n arbitrary: sc outs)
  case 0
  then show ?case by (subst (asm) sync_chunks.simps) (auto intro: rest_of.finished split: if_splits)
next
  case (Suc n)
  show ?case
  proof (cases "sync_stage sc = 4")
    case True
    with Suc.prems show ?thesis by (subst (asm) sync_chunks.simps) (simp add: rest_of.finished)
  next
    case False
    with Suc.prems obtain sc' out outs' where m: "mk sc = Ok (sc', out)" and o: "outs = out # outs'"
      and r: "sync_chunks mk n sc' = Some (Ok outs')"
      by (subst (asm) sync_chunks.simps) (auto split: outcome.splits)
    from Suc.prems(2) o have "rest_of mk sc' outs'" by (intro Suc.IH [OF r]) simp
    with False m o Suc.prems(2) show ?thesis by (simp add: rest_of.chunk)
  qed
qed

section \<open>One buffer\<close>

text \<open>The cutmarks of the chunk at hand that are still to come are ahead of the position.\<close>

definition marks_ahead :: "('g, 'db) emsmdbp_object_synccontext \<Rightarrow> bool" where
  "marks_ahead x \<longleftrightarrow> (\<exists>ms k. sc_cutmarks x = mark_array ms \<and> marks_ok ms (length (sc_buf x)) \<and>
     sc_next_cutmark_idx x = 2 * k + 1 \<and> k \<le> length ms \<and> ahead ms k (sc_pos x))"

definition sync_inv :: "('g, 'db) emsmdbp_object_synccontext \<Rightarrow> bool" where
  "sync_inv x \<longleftrightarrow> sc_pos x \<le> length (sc_buf x) \<and> length (sc_buf x) < 2 ^ 32 - 2 ^ 16 \<and>
     contents_mode (sc_request (sync_context x)) \<and> sync_stage (sync_context x) \<le> 4 \<and>
     (sync_stage (sync_context x) = 0 \<longrightarrow> sc_buf x = []) \<and>
     (sc_pos x = length (sc_buf x) \<or> marks_ahead x)"

definition pending :: "('g, 'db) emsmdbp_object_synccontext \<Rightarrow> fx_out list \<Rightarrow> u8 list" where
  "pending x outs = drop (sc_pos x) (sc_buf x) @ concat (map fx_bytes outs)"

definition chunk_weight :: "fx_out \<Rightarrow> nat" where
  "chunk_weight out = length (fx_bytes out) + length (fx_marks out) + 2"

definition sync_measure :: "('g, 'db) emsmdbp_object_synccontext \<Rightarrow> fx_out list \<Rightarrow> nat" where
  "sync_measure x outs = (length (sc_buf x) - sc_pos x) +
     (if sc_pos x = length (sc_buf x) then 0 else length (sc_cutmarks x) - sc_next_cutmark_idx x) +
     sum_list (map chunk_weight outs)"

lemma advance_cutmarks:
  assumes "marks_ahead x" and "length (sc_buf x) < 2 ^ 32 - 2 ^ 16" and "sc_pos x + unat req < 2 ^ 32"
  shows "\<exists>n i. oxcfxics_advance_cutmarks x req = Ok (n, x\<lparr>sc_next_cutmark_idx := i\<rparr>) \<and> unat n \<le> unat req \<and>
    (\<forall>s. spos s = sc_pos x + unat n \<longrightarrow> sbuf s = sc_buf x \<longrightarrow> marks_ahead (x\<lparr>sc_next_cutmark_idx := i, sc_stream := s\<rparr>)) \<and>
    sc_next_cutmark_idx x \<le> i \<and> i < length (sc_cutmarks x) \<and> (n = req \<or> sc_next_cutmark_idx x < i) \<and>
    (n = 0 \<longrightarrow> req = 0 \<or> 0 < sc_pos x)"
proof -
  from assms(1) obtain ms k where ms: "sc_cutmarks x = mark_array ms" "marks_ok ms (length (sc_buf x))"
    "sc_next_cutmark_idx x = 2 * k + 1" "k \<le> length ms" "ahead ms k (sc_pos x)" by (auto simp: marks_ahead_def)
  have "length (sc_buf x) < 2 ^ 32 - 1" using assms(2) by simp
  from cut_buffer_size [OF ms(2) this assms(3) ms(4,5)] obtain k' b where
    c: "cut_buffer (mark_array ms) (2 * k + 1) (sc_pos x) req = Ok (b, 2 * k' + 1)" "k' \<le> length ms" "unat b \<le> unat req"
      "ahead ms k' (sc_pos x + unat b)" "k' = k \<and> b = req \<or> k < k' \<and> snd (ms ! (k' - 1)) \<le> sc_pos x + unat b" by auto
  have pos: "0 < sc_pos x + unat b" if "k < k'"
  proof -
    have "k' - 1 < length ms" using that c(2) by simp
    from marks_ok_nth [OF ms(2) this] c(5) that show ?thesis by linarith
  qed
  show ?thesis
  proof (intro exI conjI)
    show "oxcfxics_advance_cutmarks x req = Ok (b, x\<lparr>sc_next_cutmark_idx := 2 * k' + 1\<rparr>)"
      using c(1) ms by (simp add: oxcfxics_advance_cutmarks_def)
    show "\<forall>s. spos s = sc_pos x + unat b \<longrightarrow> sbuf s = sc_buf x \<longrightarrow>
        marks_ahead (x\<lparr>sc_next_cutmark_idx := 2 * k' + 1, sc_stream := s\<rparr>)"
      using ms(1,2) c(2,4) by (auto simp: marks_ahead_def)
    show "b = 0 \<longrightarrow> req = 0 \<or> 0 < sc_pos x" using c(5) pos by auto
  qed (use c ms in auto)
qed

lemma sc_read:
  assumes "sc_pos x \<le> length (sc_buf x)" and "length (sc_buf x) < 2 ^ 32"
  shows "sc_read x n = Ok (take (unat n) (drop (sc_pos x) (sc_buf x)),
    x\<lparr>sc_stream := (sc_stream x)\<lparr>spos := min (length (sc_buf x)) (sc_pos x + unat n)\<rparr>\<rparr>)"
  using stream_read [OF assms] by (simp add: sc_read_def)

text \<open>What a response has to do: the next piece of what is pending, with either nothing left behind it or less to do.\<close>

definition responded ::
  "(('g, 'db) synccontext \<Rightarrow> (('g, 'db) synccontext \<times> fx_out) outcome) \<Rightarrow> u32 \<Rightarrow> ('g, 'db) emsmdbp_object_synccontext \<Rightarrow> fx_out list \<Rightarrow>
     (bool \<times> u8 list \<times> ('g, 'db) emsmdbp_object_synccontext) outcome \<Rightarrow> bool" where
  "responded mk req x outs r \<longleftrightarrow> (\<exists>fin bs x' outs'. r = Ok (fin, bs, x') \<and> sync_inv x' \<and> rest_of mk (sync_context x') outs' \<and>
     length bs \<le> unat req \<and> bs @ pending x' outs' = pending x outs \<and>
     (fin \<longrightarrow> pending x' outs' = []) \<and> (\<not> fin \<longrightarrow> sync_measure x' outs' < sync_measure x outs))"

lemma respondedI:
  "r = Ok (fin, bs, x') \<Longrightarrow> sync_inv x' \<Longrightarrow> rest_of mk (sync_context x') outs' \<Longrightarrow> length bs \<le> unat req \<Longrightarrow>
   bs @ pending x' outs' = pending x outs \<Longrightarrow> (fin \<Longrightarrow> pending x' outs' = []) \<Longrightarrow>
   (\<not> fin \<Longrightarrow> sync_measure x' outs' < sync_measure x outs) \<Longrightarrow> responded mk req x outs r"
  unfolding responded_def by blast

lemma responded_from:
  assumes "responded mk req y outs' r" and "pending y outs' = pending x outs" and "sync_measure y outs' < sync_measure x outs"
  shows "responded mk req x outs r"
proof -
  from assms(1) obtain fin bs x' os where "r = Ok (fin, bs, x')" "sync_inv x'" "rest_of mk (sync_context x') os" "length bs \<le> unat req"
    "bs @ pending x' os = pending y outs'" "fin \<longrightarrow> pending x' os = []" "\<not> fin \<longrightarrow> sync_measure x' os < sync_measure y outs'"
    unfolding responded_def by blast
  with assms(2,3) show ?thesis by (intro respondedI [of r fin bs x' mk os]) auto
qed

lemma take_drop_append: "take n xs @ drop n xs @ ys = xs @ ys"
  by (simp flip: append_assoc)

lemma take_pending:
  "sc_pos x' = sc_pos x + n \<Longrightarrow> sc_buf x' = sc_buf x \<Longrightarrow>
   take n (drop (sc_pos x) (sc_buf x)) @ pending x' outs = pending x outs"
  by (simp add: pending_def add.commute flip: append_assoc drop_drop)

lemma response_within:
  assumes inv: "sync_inv x" and rest: "rest_of mk (sync_context x) outs" and req: "req_ok req"
    and lt: "sc_pos x + unat req < length (sc_buf x)"
  shows "responded mk req x outs (response_within req x)"
proof -
  have pos: "sc_pos x \<noteq> length (sc_buf x)" and ma: "marks_ahead x" and len: "length (sc_buf x) < 2 ^ 32 - 2 ^ 16"
    using inv lt by (auto simp: sync_inv_def)
  have "sc_pos x + unat req < 2 ^ 32" using lt len by simp
  from advance_cutmarks [OF ma len this] obtain n i where
    a: "oxcfxics_advance_cutmarks x req = Ok (n, x\<lparr>sc_next_cutmark_idx := i\<rparr>)" "unat n \<le> unat req"
      "\<And>s. spos s = sc_pos x + unat n \<Longrightarrow> sbuf s = sc_buf x \<Longrightarrow> marks_ahead (x\<lparr>sc_next_cutmark_idx := i, sc_stream := s\<rparr>)"
      "sc_next_cutmark_idx x \<le> i" "i < length (sc_cutmarks x)" "n = req \<or> sc_next_cutmark_idx x < i" by auto
  let ?x = "x\<lparr>sc_next_cutmark_idx := i, sc_stream := (sc_stream x)\<lparr>spos := sc_pos x + unat n\<rparr>\<rparr>"
  let ?bs = "take (unat n) (drop (sc_pos x) (sc_buf x))"
  show ?thesis
  proof (rule respondedI)
    have "sc_read (x\<lparr>sc_next_cutmark_idx := i\<rparr>) n = Ok (?bs, ?x)"
      using a(2) lt len by (subst sc_read) simp_all
    then show "response_within req x = Ok (False, ?bs, ?x)" using a(1) by (simp add: response_within_def)
    show "sync_inv ?x" using inv a(2) a(3) [of "sc_stream ?x"] lt by (simp add: sync_inv_def)
    show "?bs @ pending ?x outs = pending x outs" by (rule take_pending) simp_all
    show "sync_measure ?x outs < sync_measure x outs"
      using a(2,4,5,6) lt req_okD [OF req] by (auto simp: sync_measure_def)
    show "length ?bs \<le> unat req" using a(2) by simp
  qed (use rest in simp_all)
qed

lemma response_last:
  assumes inv: "sync_inv x" and fin: "sync_stage (sync_context x) = 4" and "\<not> sc_pos x + unat req < length (sc_buf x)"
  shows "responded mk req x [] (obind (sc_read x req) (\<lambda>(bs, x1). Ok (True, bs, x1)))"
proof -
  let ?x = "x\<lparr>sc_stream := (sc_stream x)\<lparr>spos := length (sc_buf x)\<rparr>\<rparr>"
  have "sc_read x req = Ok (drop (sc_pos x) (sc_buf x), ?x)"
    using assms by (subst sc_read) (auto simp: sync_inv_def)
  then show ?thesis
  proof (intro respondedI)
    show "rest_of mk (sync_context ?x) []" using fin by (simp add: rest_of.finished)
    show "sync_inv ?x" using inv by (simp add: sync_inv_def)
    show "length (drop (sc_pos x) (sc_buf x)) \<le> unat req" using assms(3) by simp
  qed (auto simp: pending_def)
qed

lemma send_chunk_fields [simp]:
  "sync_context (send_chunk sc out) = sc" "sc_pos (send_chunk sc out) = 0" "sc_buf (send_chunk sc out) = fx_bytes out"
  "sc_cutmarks (send_chunk sc out) = fx_marks out @ [0, 0xffffffff]" "sc_next_cutmark_idx (send_chunk sc out) = 1"
  by (simp_all add: send_chunk_def)

lemma send_chunk_ahead: "out_ok out \<Longrightarrow> marks_ahead (send_chunk sc out)"
  unfolding out_ok_def marks_ahead_def
  by (elim exE, rule_tac x = ms in exI, rule_tac x = 0 in exI) (auto simp: mark_array_def ahead_def)

section \<open>A source of chunks\<close>

definition chunk_fill ::
  "(('g, 'db) synccontext \<Rightarrow> (('g, 'db) synccontext \<times> fx_out) outcome) \<Rightarrow> ('g, 'db) emsmdbp_object_synccontext \<Rightarrow>
     ('g, 'db) emsmdbp_object_synccontext outcome" where
  "chunk_fill mk x = obind (mk (sync_context x)) (\<lambda>(sc, out). Ok (send_chunk sc out))"

text \<open>What the buffers rely on: a chunk has sound cutmarks, is not empty, and is larger than any request unless it is the
  last one. \<open>trusted\<close> says that the library routines that write the chunk do as documented.\<close>

locale chunk_source =
  fixes mk :: "('g, 'db) synccontext \<Rightarrow> (('g, 'db) synccontext \<times> fx_out) outcome"
    and trusted :: bool
  assumes mk_sound: "trusted \<Longrightarrow> mk sc = Ok (sc', out) \<Longrightarrow> out_ok out"
    and mk_nonempty: "trusted \<Longrightarrow> mk sc = Ok (sc', out) \<Longrightarrow> sync_stage sc < 4 \<Longrightarrow> sync_stage sc' = 4 \<Longrightarrow> fx_bytes out \<noteq> []"
    and mk_large: "mk sc = Ok (sc', out) \<Longrightarrow> sync_stage sc < 4 \<Longrightarrow> sync_stage sc' \<noteq> 4 \<Longrightarrow> 2 ^ 16 \<le> length (fx_bytes out)"
    and mk_stage: "mk sc = Ok (sc', out) \<Longrightarrow> sync_stage sc < 4 \<Longrightarrow> 0 < sync_stage sc' \<and> sync_stage sc' \<le> 4"
    and mk_request: "mk sc = Ok (sc', out) \<Longrightarrow> sc_request sc' = sc_request sc"
begin

lemma next_chunk:
  assumes trusted and inv: "sync_inv x" and rest: "rest_of mk (sync_context x) outs" and "sync_stage (sync_context x) \<noteq> 4"
  obtains sc out outs' where "outs = out # outs'" and "chunk_fill mk x = Ok (send_chunk sc out)" and "rest_of mk sc outs'"
    and "fx_bytes out \<noteq> []" and "length (fx_bytes out) < 2 ^ 32 - 2 ^ 16" and "marks_ahead (send_chunk sc out)"
    and "sync_stage sc = 4 \<or> 2 ^ 16 \<le> length (fx_bytes out)" and "0 < sync_stage sc \<and> sync_stage sc \<le> 4" and "contents_mode (sc_request sc)"
  using rest
proof (cases rule: rest_of.cases)
  case (chunk sc out outs')
  then have m: "mk (sync_context x) = Ok (sc, out)" by simp
  have lt: "sync_stage (sync_context x) < 4" using inv assms(4) by (simp add: sync_inv_def)
  have ne: "fx_bytes out \<noteq> []"
    using mk_nonempty [OF assms(1) m lt] mk_large [OF m lt] by (cases "sync_stage sc = 4") auto
  show thesis
  proof (rule that)
    show "marks_ahead (send_chunk sc out)" using mk_sound [OF assms(1) m] by (rule send_chunk_ahead)
    show "contents_mode (sc_request sc)" using mk_request [OF m] inv by (simp add: sync_inv_def)
  qed (use chunk m ne mk_large [OF m lt] mk_stage [OF m lt] in \<open>auto simp: chunk_fill_def chunk_small_def\<close>)
qed (use assms in simp)

lemma response_first:
  assumes trusted and inv: "sync_inv x" and rest: "rest_of mk (sync_context x) outs" and st: "sync_stage (sync_context x) = 0"
    and req: "req_ok req"
  shows "responded mk req x outs (response_first (chunk_fill mk) req x)"
proof -
  have "sync_stage (sync_context x) \<noteq> 4" using st by simp
  from next_chunk [OF assms(1) inv rest this] obtain sc out outs' where
    c: "outs = out # outs'" "chunk_fill mk x = Ok (send_chunk sc out)" "rest_of mk sc outs'" "fx_bytes out \<noteq> []"
      "length (fx_bytes out) < 2 ^ 32 - 2 ^ 16" "marks_ahead (send_chunk sc out)"
      "sync_stage sc = 4 \<or> 2 ^ 16 \<le> length (fx_bytes out)" "0 < sync_stage sc \<and> sync_stage sc \<le> 4" "contents_mode (sc_request sc)" by blast
  let ?y = "send_chunk sc out"
  have inv': "sync_inv ?y" using c by (simp add: sync_inv_def)
  have p: "pending ?y outs' = pending x outs" using c(1) inv st by (simp add: pending_def sync_inv_def)
  have m: "sync_measure ?y outs' < sync_measure x outs" using c(1) by (simp add: sync_measure_def chunk_weight_def)
  show ?thesis
  proof (cases "unat req < length (fx_bytes out)")
    case True
    have "responded mk req ?y outs' (response_within req ?y)"
      using inv' c(3) req True by (intro response_within) simp_all
    moreover have "response_first (chunk_fill mk) req x = response_within req ?y"
      using c(2) True by (cases "oxcfxics_advance_cutmarks ?y req")
        (simp_all add: response_first_def response_within_def split: prod.splits)
    ultimately show ?thesis using p m by (auto intro: responded_from)
  next
    case False
    then have f: "sync_stage sc = 4" using c(7) req_okD [OF req] by auto
    have "responded mk req ?y [] (obind (sc_read ?y req) (\<lambda>(bs, x1). Ok (True, bs, x1)))"
      using inv' f False by (intro response_last) simp_all
    moreover have "response_first (chunk_fill mk) req x = obind (sc_read ?y req) (\<lambda>(bs, x1). Ok (True, bs, x1))"
      using c(2) False f by (simp add: response_first_def)
    moreover have "outs' = []" using rest_of_finished [OF c(3)] f by simp
    ultimately show ?thesis using p m by (auto intro: responded_from)
  qed
qed

lemma response_joint:
  assumes trusted and inv: "sync_inv x" and rest: "rest_of mk (sync_context x) outs" and st: "sync_stage (sync_context x) \<noteq> 4"
    and req: "req_ok req" and ge: "\<not> sc_pos x + unat req < length (sc_buf x)"
  shows "responded mk req x outs (response_joint (chunk_fill mk) req x)"
proof -
  from next_chunk [OF assms(1) inv rest st] obtain sc out outs' where
    c: "outs = out # outs'" "chunk_fill mk x = Ok (send_chunk sc out)" "rest_of mk sc outs'" "fx_bytes out \<noteq> []"
      "length (fx_bytes out) < 2 ^ 32 - 2 ^ 16" "marks_ahead (send_chunk sc out)"
      "sync_stage sc = 4 \<or> 2 ^ 16 \<le> length (fx_bytes out)" "0 < sync_stage sc \<and> sync_stage sc \<le> 4" "contents_mode (sc_request sc)" by blast
  let ?y = "send_chunk sc out" and ?old = "drop (sc_pos x) (sc_buf x)"
  let ?new = "req - of_nat (length ?old) :: u32"
  have old: "length ?old \<le> unat req" "unat req < 2 ^ 16" using ge req_okD [OF req] by simp_all
  then have "unat (of_nat (length ?old) :: u32) = length ?old" by (simp add: unat_of_nat)
  then have new: "unat ?new = unat req - length ?old" using old by (simp add: unat_sub word_le_nat_alt)
  let ?z = "\<lambda>i n. ?y\<lparr>sc_next_cutmark_idx := i, sc_stream := (sc_stream ?y)\<lparr>spos := n\<rparr>\<rparr>"
  have joint: "responded mk req x outs (Ok (fin, ?old @ take n (fx_bytes out), ?z i n))"
    if "n \<le> length (fx_bytes out)" "n \<le> unat ?new" "n = length (fx_bytes out) \<or> marks_ahead (?z i n)" "1 \<le> i"
      "fin \<Longrightarrow> n = length (fx_bytes out) \<and> outs' = []" for n i fin
  proof (rule respondedI [OF refl])
    show "sync_inv (?z i n)" using c that by (auto simp: sync_inv_def)
    show "length (?old @ take n (fx_bytes out)) \<le> unat req" using that(2) new old by simp
    show "(?old @ take n (fx_bytes out)) @ pending (?z i n) outs' = pending x outs"
      using c(1) by (simp add: pending_def take_drop_append)
    show "sync_measure (?z i n) outs' < sync_measure x outs" using c(1) that(4) by (auto simp: sync_measure_def chunk_weight_def)
  qed (use c(3) that(5) in \<open>auto simp: pending_def\<close>)
  show ?thesis
  proof (cases "length (fx_bytes out) < unat ?new")
    case True
    then have f: "sync_stage sc = 4" "outs' = []" using c(7) new old rest_of_finished [OF c(3)] by auto
    have u: "unat (of_nat (length (fx_bytes out)) :: u32) = length (fx_bytes out)" using c(5) by (simp add: unat_of_nat)
    then have "(of_nat (length (fx_bytes out)) :: u32) \<noteq> 0" using c(4) by (metis length_0_conv unsigned_0)
    then have "response_joint (chunk_fill mk) req x = Ok (True, ?old @ take (length (fx_bytes out)) (fx_bytes out), ?z 1 (length (fx_bytes out)))"
      using c(2,5) True f(1) u by (simp add: response_joint_def Let_def sc_read rd_bytes_def)
    then show ?thesis using True f(2) by (simp only:) (intro joint, simp_all)
  next
    case False
    then have "sc_pos ?y + unat ?new < 2 ^ 32" using c(5) by simp
    from advance_cutmarks [OF c(6) _ this] c(5) obtain n i where
      a: "oxcfxics_advance_cutmarks ?y ?new = Ok (n, ?y\<lparr>sc_next_cutmark_idx := i\<rparr>)" "unat n \<le> unat ?new"
        "marks_ahead (?z i (unat n))" "1 \<le> i" "n = 0 \<longrightarrow> ?new = 0" by auto
    have n: "unat n \<le> length (fx_bytes out)" using a(2) False by simp
    have z: "?old = [] \<Longrightarrow> n \<noteq> 0" using a(5) new req_okD [OF req] by (metis diff_zero length_0_conv list.size(3) unsigned_0 order_less_irrefl)
    have "response_joint (chunk_fill mk) req x = Ok (False, ?old @ take (unat n) (fx_bytes out), ?z i (unat n))"
      using c(2,5) False a(1) n z by (simp add: response_joint_def Let_def sc_read rd_bytes_def)
    then show ?thesis using a n by (simp only:) (intro joint, simp_all)
  qed
qed

lemma sync_buffer:
  assumes trusted and "sync_inv x" and "rest_of mk (sync_context x) outs" and "req_ok req"
  shows "responded mk req x outs (sync_buffer (chunk_fill mk) prepare req x)"
proof (cases "sc_pos x + unat req < length (sc_buf x)")
  case True
  with assms show ?thesis by (simp add: sync_buffer_def response_within)
next
  case False
  have m: "contents_mode (sc_request (sync_context x))" using assms(2) by (simp add: sync_inv_def)
  consider (last) "sync_stage (sync_context x) = 4" | (first) "sync_stage (sync_context x) = 0"
    | (joint) "sync_stage (sync_context x) \<noteq> 4" "sync_stage (sync_context x) \<noteq> 0" by blast
  then show ?thesis
  proof cases
    case last
    then have "outs = []" using rest_of_finished [OF assms(3)] by simp
    with response_last [OF assms(2) last False] last False m show ?thesis by (simp add: sync_buffer_def)
  next
    case first
    with response_first [OF assms(1,2,3) first assms(4)] False m show ?thesis by (simp add: sync_buffer_def)
  next
    case joint
    with response_joint [OF assms(1,2,3) joint(1) assms(4) False] False m show ?thesis by (simp add: sync_buffer_def)
  qed
qed

end

end
