(* ===== verification/Oxcfxics_Chunks.thy ===== *)
theory Oxcfxics_Chunks
  imports Oxcfxics_Emit Oxcfxics_Buffers
begin

unbundle bit_operations_syntax

text \<open>
  The chunks of a synchronization of contents are a source as the buffers need it; from this follow that
  there are finitely many, and that a client receives them whole and in order.
\<close>

section \<open>Rows append to the stream\<close>

definition put_row :: "fx_out \<Rightarrow> ('g, 'db) row_state \<Rightarrow> ('g, 'db) row_state" where
  "put_row out w = w\<lparr>rw_sd := (rw_sd w)\<lparr>sd_out := out\<rparr>\<rparr>"

lemma put_row_fields [simp]:
  "rw_sc (put_row out w) = rw_sc w" "rw_index (put_row out w) = rw_index w" "rw_changed (put_row out w) = rw_changed w"
  "rw_guid (put_row out w) = rw_guid w" "rw_sd (put_row out w) = (rw_sd w)\<lparr>sd_out := out\<rparr>"
  by (simp_all add: put_row_def)

lemma put_row_updates:
  "(put_row out w)\<lparr>rw_sc := sc\<rparr> = put_row out (w\<lparr>rw_sc := sc\<rparr>)" "(put_row out w)\<lparr>rw_index := ix\<rparr> = put_row out (w\<lparr>rw_index := ix\<rparr>)"
  "(put_row out w)\<lparr>rw_changed := c\<rparr> = put_row out (w\<lparr>rw_changed := c\<rparr>)" "(put_row out w)\<lparr>rw_guid := g\<rparr> = put_row out (w\<lparr>rw_guid := g\<rparr>)"
  by (simp_all add: put_row_def)

lemma emits_row_lift:
  assumes "emits put_sd f" shows "emits put_row (\<lambda>w. obind (f (rw_sd w)) (\<lambda>sd. Ok (w\<lparr>rw_sd := sd\<rparr>)))"
proof -
  from assms obtain r where r: "\<And>s. yields (r s) (\<lambda>(t, d). delta_ok d)"
    "\<And>s out. f (put_sd out s) = obind (r s) (\<lambda>(t, d). Ok (put_sd (append_delta out d) t))"
    unfolding emits_def by metis
  have f: "f (s\<lparr>sd_out := out\<rparr>) = obind (r s) (\<lambda>(t, d). Ok (t\<lparr>sd_out := append_delta out d\<rparr>))" for s out
    using r(2) by (simp add: put_sd_def)
  show ?thesis
  proof (rule emitsI)
    fix w :: "('a, 'b) row_state" and out
    show "yields (obind (r (rw_sd w)) (\<lambda>(t, d). Ok (w\<lparr>rw_sd := t\<rparr>, d))) (\<lambda>(t, d). delta_ok d)"
      by (rule yields_bind [OF r(1)]) auto
    show "obind (f (rw_sd (put_row out w))) (\<lambda>sd. Ok ((put_row out w)\<lparr>rw_sd := sd\<rparr>)) =
        obind (obind (r (rw_sd w)) (\<lambda>(t, d). Ok (w\<lparr>rw_sd := t\<rparr>, d))) (\<lambda>(t, d). Ok (put_row (append_delta out d) t))"
      by (simp add: f obind_assoc case_prod_unfold) (simp add: put_row_def)
  qed
qed

lemma emits_note_eid: "emits put_row (note_eid V eid)"
proof (rule emits_quiet)
  show "note_eid V eid (put_row out w) = obind (note_eid V eid w) (\<lambda>t. Ok (put_row out t))" for out and w :: "('a, 'b) row_state"
    by (cases w; cases "rw_sd w")
      (simp add: note_eid_def put_row_def obind_assoc split: prod.splits option.splits)
qed

lemma skip_put_row: "skip_object (put_row out w) = put_row out (skip_object w)"
  by (simp add: skip_object_def put_row_updates)

lemma emits_step: "(\<And>out w. f (put out w) = put out (f w)) \<Longrightarrow> emits put (\<lambda>w. Ok (f w))"
  by (rule emits_quiet) simp

text \<open>What a message change looks at besides the stream, and what it does then.\<close>

definition row_view where
  "row_view w = (rw_sc w, rw_index w, sd_table_type (rw_sd w), sd_guid (rw_sd w), sd_cnset_seen (rw_sd w))"

definition send_row where
  "send_row V header ptags vals message msg sc ix cns w =
     obind (Ok (w\<lparr>rw_sc := sc, rw_sd := (rw_sd w)\<lparr>sd_cnset_seen := cns\<rparr>\<rparr>)) (\<lambda>w.
     obind (obind (push_message V header ptags vals (sc_properties sc) message msg (rw_sd w)) (\<lambda>sd. Ok (w\<lparr>rw_sd := sd\<rparr>))) (\<lambda>w.
     Ok (w\<lparr>rw_sc := sc\<lparr>sent_objects := sent_objects sc + 1\<rparr>,
           rw_index := (if rw_changed w then sd_prop_index (rw_sd w) else ix), rw_changed := False\<rparr>)))"

definition change_row where
  "change_row V eid message msg ptags vals = (\<lambda>(sc0, ix, tt, guid, cns0) w.
     case emsmdbp_source_key_from_fmid (sy_replicas V) (sc_replicas sc0) (sy_owner V) eid of
       (_, l, None) \<Rightarrow> Ok (skip_object (w\<lparr>rw_sc := sc0\<lparr>sc_replicas := l\<rparr>\<rparr>))
     | (_, l, Some source_key) \<Rightarrow>
         obind (header_time V ix vals) (\<lambda>lm_time.
         obind (header_cn ix vals) (\<lambda>cn.
         if IDSET_includes_guid_glob (sy_samba V) (original_cnset_seen (sc0\<lparr>sc_replicas := l\<rparr>) tt) (Some guid) cn
         then Ok (skip_object (w\<lparr>rw_sc := sc0\<lparr>sc_replicas := l\<rparr>\<rparr>))
         else
           obind (RAWIDSET_push_guid_glob (sy_samba V) cns0 guid cn) (\<lambda>cns.
           obind (message_header (sc_request sc0) ix eid cn source_key lm_time vals) (\<lambda>header.
           send_row V header ptags vals message msg (sc0\<lparr>sc_replicas := l\<rparr>) ix cns w)))))"

lemma message_change_row: "message_change V eid message msg ptags vals w = change_row V eid message msg ptags vals (row_view w) w"
  by (auto simp: message_change_def change_row_def row_view_def send_row_def Let_def obind_assoc
      split: prod.splits option.splits intro!: arg_cong [of _ _ "obind _"] ext)

lemma emits_send_row:
  assumes "fx_laws (sy_lib V)" shows "emits put_row (send_row V header ptags vals message msg sc ix cns)"
  unfolding send_row_def [abs_def]
proof (rule emits_then)
  show "emits put_row (\<lambda>w. Ok (w\<lparr>rw_sc := sc, rw_sd := (rw_sd w)\<lparr>sd_cnset_seen := cns\<rparr>\<rparr>))"
    by (rule emits_step) (simp add: put_row_def)
  show "emits put_row (\<lambda>w.
     obind (obind (push_message V header ptags vals (sc_properties sc) message msg (rw_sd w)) (\<lambda>sd. Ok (w\<lparr>rw_sd := sd\<rparr>))) (\<lambda>w.
     Ok (w\<lparr>rw_sc := sc\<lparr>sent_objects := sent_objects sc + 1\<rparr>,
           rw_index := (if rw_changed w then sd_prop_index (rw_sd w) else ix), rw_changed := False\<rparr>)))"
    by (rule emits_then [OF emits_row_lift [OF emits_message [OF assms]] emits_step]) (simp add: put_row_def)
qed

lemma emits_message_change:
  assumes G: "fx_laws (sy_lib V)" shows "emits put_row (message_change V eid message msg ptags vals)"
proof -
  have skip: "emits put_row (\<lambda>w. Ok (skip_object (w\<lparr>rw_sc := sc\<rparr>)))" for sc :: "('a, 'b) synccontext"
    by (rule emits_step) (simp add: put_row_updates skip_put_row)
  have "emits put_row (change_row V eid message msg ptags vals x)" for x
  proof -
    obtain sc0 ix tt guid cns0 where x: "x = (sc0, ix, tt, guid, cns0)" by (cases x)
    obtain st l key where k: "emsmdbp_source_key_from_fmid (sy_replicas V) (sc_replicas sc0) (sy_owner V) eid = (st, l, key)"
      by (cases "emsmdbp_source_key_from_fmid (sy_replicas V) (sc_replicas sc0) (sy_owner V) eid")
    show ?thesis unfolding change_row_def x
      by (cases key) (auto simp: k intro!: skip emits_bind emits_if emits_send_row [OF G])
  qed
  from emits_view [OF this, of row_view] show ?thesis
    by (simp add: row_view_def message_change_row [abs_def])
qed

text \<open>The values of a message do not depend on the stream, and leave it alone.\<close>

lemma message_values_put_row:
  "message_values V message (put_row out w) = obind (message_values V message w) (\<lambda>(r, t). Ok (r, put_row out t))"
  by (auto simp: message_values_def Let_def put_row_updates obind_assoc split: option.splits intro!: arg_cong [of _ _ "obind _"] ext)

lemma emits_with_values:
  assumes "\<And>r. emits put_row (f r)"
  shows "emits put_row (\<lambda>w. obind (message_values V message w) (\<lambda>(r, w). f r w))"
proof -
  from assms obtain q where q: "\<And>r s. yields (q r s) (\<lambda>(t, d). delta_ok d)"
    "\<And>r s out. f r (put_row out s) = obind (q r s) (\<lambda>(t, d). Ok (put_row (append_delta out d) t))"
    unfolding emits_def by metis
  show ?thesis
    by (rule emitsI [of "\<lambda>w. obind (message_values V message w) (\<lambda>(r, t). q r t)"])
      (auto simp: message_values_put_row obind_assoc q(2) case_prod_unfold intro!: yields_bind_any q(1) [unfolded case_prod_unfold])
qed

lemma emits_message_row:
  assumes G: "fx_laws (sy_lib V)" shows "emits put_row (message_row V row)"
proof -
  obtain eid cn where row: "row = (eid, cn)" by (cases row)
  let ?seen = "\<lambda>w. folder_is_mapistore V \<and> cn \<noteq> 0 \<and> IDSET_includes_guid_glob (sy_samba V)
    (original_cnset_seen (rw_sc w) (sd_table_type (rw_sd w))) (Some (sd_guid (rw_sd w))) (globcnt_of cn)"
  let ?open = "\<lambda>w. case message_open V eid of None \<Rightarrow> Ok w | Some (message, msg) \<Rightarrow>
    obind (message_values V message w) (\<lambda>(r, w).
      case r of None \<Rightarrow> Ok w | Some (ptags, vals) \<Rightarrow> message_change V eid message msg ptags vals w)"
  have change: "emits put_row (\<lambda>w. case r of None \<Rightarrow> Ok w | Some (ptags, vals) \<Rightarrow> message_change V eid message msg ptags vals w)" for r message msg
    by (cases r) (auto intro: emits_Ok emits_message_change [OF G])
  have op: "emits put_row ?open"
    by (cases "message_open V eid") (auto intro!: emits_Ok emits_with_values [OF change])
  have skip: "emits put_row (\<lambda>w. Ok (skip_object w))" by (rule emits_step) (simp add: skip_put_row)
  have rest: "emits put_row (\<lambda>w. if ?seen w then Ok (skip_object w) else ?open w)"
    by (rule emits_view [of put_row "\<lambda>b w. if b then Ok (skip_object w) else ?open w" ?seen])
      (rule emits_if [OF skip op], simp)
  show ?thesis
  proof (cases "eid = 0x7fffffffffffffff")
    case True
    then have "message_row V row = Ok" by (auto simp: message_row_def row)
    then show ?thesis by (simp add: emits_Ok)
  next
    case False
    from emits_then [OF emits_note_eid rest] show ?thesis
      unfolding message_row_def [abs_def] row Let_def using False by simp
  qed
qed

section \<open>What rows leave as it is\<close>

definition sc_core :: "('g, 'db) synccontext \<Rightarrow> ('g, 'db) synccontext" where
  "sc_core sc = sc\<lparr>sent_objects := 0, skipped_objects := 0, total_objects := 0, sc_replicas := []\<rparr>"

definition sd_core :: "'g oxcfxics_sync_data \<Rightarrow> 'g oxcfxics_sync_data" where
  "sd_core sd = sd\<lparr>sd_out := out_empty, sd_eid_set := [], sd_cnset_seen := []\<rparr>"

lemma sc_core_updates [simp]:
  "sc_core (sc\<lparr>sent_objects := n\<rparr>) = sc_core sc" "sc_core (sc\<lparr>skipped_objects := n\<rparr>) = sc_core sc"
  "sc_core (sc\<lparr>total_objects := n\<rparr>) = sc_core sc" "sc_core (sc\<lparr>sc_replicas := l\<rparr>) = sc_core sc"
  by (simp_all add: sc_core_def)

lemma sd_core_updates [simp]:
  "sd_core (sd\<lparr>sd_out := out\<rparr>) = sd_core sd" "sd_core (sd\<lparr>sd_eid_set := e\<rparr>) = sd_core sd" "sd_core (sd\<lparr>sd_cnset_seen := c\<rparr>) = sd_core sd"
  by (simp_all add: sd_core_def)

lemma sc_core_fields:
  assumes "sc_core sc = sc_core sc'"
  shows "sc_request sc = sc_request sc'" "sync_stage sc = sync_stage sc'" "cnset_seen sc = cnset_seen sc'"
    "cnset_seen_fai sc = cnset_seen_fai sc'" "idset_given sc = idset_given sc'" "cnset_read sc = cnset_read sc'"
    "sc_properties sc = sc_properties sc'" "sc_fai_properties sc = sc_fai_properties sc'"
  using assms by (cases sc; cases sc'; simp add: sc_core_def)+

lemma sd_core_fields:
  assumes "sd_core sd = sd_core sd'"
  shows "sd_guid sd = sd_guid sd'" "sd_table_type sd = sd_table_type sd'" "sd_prop_index sd = sd_prop_index sd'"
    "sd_deleted_eid_set sd = sd_deleted_eid_set sd'" "sd_rows sd = sd_rows sd'"
  using assms by (cases sd; cases sd'; simp add: sd_core_def)+

definition row_core :: "('g, 'db) row_state \<Rightarrow> ('g, 'db) synccontext \<times> 'g oxcfxics_sync_data" where
  "row_core w = (sc_core (rw_sc w), sd_core (rw_sd w))"

text \<open>A message leaves even the change numbers as they are.\<close>

definition sd_kept :: "'g oxcfxics_sync_data \<Rightarrow> 'g oxcfxics_sync_data" where
  "sd_kept sd = sd\<lparr>sd_out := out_empty, sd_eid_set := []\<rparr>"

lemma sd_kept_updates [simp]: "sd_kept (sd\<lparr>sd_out := out\<rparr>) = sd_kept sd" "sd_kept (sd\<lparr>sd_eid_set := e\<rparr>) = sd_kept sd"
  by (simp_all add: sd_kept_def)

lemma sd_kept_core:
  assumes "sd_kept sd = sd_kept sd'" shows "sd_core sd = sd_core sd'" "sd_cnset_seen sd = sd_cnset_seen sd'"
  using assms by (cases sd; cases sd'; simp add: sd_core_def sd_kept_def)+

lemma embedded_kept: "yields (oxcfxics_push_messageChange_attachment_embedded_message V properties message i sd) (\<lambda>sd'. sd_kept sd' = sd_kept sd)"
  by (auto simp: yields_def oxcfxics_push_messageChange_attachment_embedded_message_def Let_def split: option.splits prod.splits)

lemma attachment_kept: "yields (push_attachment V properties message i row sd) (\<lambda>sd'. sd_kept sd' = sd_kept sd)"
proof (cases row)
  case (Some vals)
  show ?thesis unfolding push_attachment_def Let_def Some
  proof (simp, intro yields_bind_any, clarify)
    fix out1 retval attach_method
    let ?sd = "sd\<lparr>sd_out := out1\<rparr>"
    have "yields (if retval = MAPI_E_SUCCESS then (case attach_method of FxLong m \<Rightarrow>
        (if m = 5 then oxcfxics_push_messageChange_attachment_embedded_message V properties message i ?sd else Ok ?sd) | _ \<Rightarrow> Fault)
      else Ok ?sd) (\<lambda>sd'. sd_kept sd' = sd_kept sd)"
      by (cases attach_method) (auto intro!: yields_mono [OF embedded_kept])
    then show "yields (obind (if retval = MAPI_E_SUCCESS then (case attach_method of FxLong m \<Rightarrow>
        (if m = 5 then oxcfxics_push_messageChange_attachment_embedded_message V properties message i ?sd else Ok ?sd) | _ \<Rightarrow> Fault)
      else Ok ?sd) (\<lambda>sd'. Ok (sd'\<lparr>sd_out := push_marker (sy_lib V) EndAttach (sd_out sd')\<rparr>))) (\<lambda>sd'. sd_kept sd' = sd_kept sd)"
      by (rule yields_bind) simp
  qed
qed (simp add: push_attachment_def)

lemma attachments_kept: "yields (push_attachments V properties message i rows sd) (\<lambda>sd'. sd_kept sd' = sd_kept sd)"
proof (induction rows arbitrary: i sd)
  case (Cons r rows)
  show ?case by (simp, rule yields_bind [OF attachment_kept], rule yields_mono [OF Cons]) simp
qed simp

lemma message_attachments_kept: "yields (oxcfxics_push_messageChange_attachments V properties message sd) (\<lambda>sd'. sd_kept sd' = sd_kept sd)"
  unfolding oxcfxics_push_messageChange_attachments_def Let_def
  by (auto split: option.splits prod.splits intro!: yields_mono [OF attachments_kept])

lemma message_kept: "yields (push_message V header ptags vals properties message msg sd) (\<lambda>sd'. sd_kept sd' = sd_kept sd)"
  unfolding push_message_def Let_def by (intro yields_bind_any yields_mono [OF message_attachments_kept]) simp

lemma message_core: "yields (push_message V header ptags vals properties message msg sd) (\<lambda>sd'. sd_core sd' = sd_core sd)"
  by (rule yields_mono [OF message_kept]) (rule sd_kept_core)

lemma skip_core [simp]: "row_core (skip_object w) = row_core w"
  by (simp add: skip_object_def row_core_def)

lemma note_eid_core: "yields (note_eid V eid w) (\<lambda>w'. row_core w' = row_core w)"
  by (auto simp: yields_def note_eid_def row_core_def split: prod.splits option.splits)

lemma values_core: "yields (message_values V message w) (\<lambda>(r, w'). row_core w' = row_core w)"
  by (auto simp: yields_def message_values_def row_core_def Let_def split: option.splits if_splits)

lemma change_core: "yields (message_change V eid message msg ptags vals w) (\<lambda>w'. row_core w' = row_core w)"
  unfolding message_change_def Let_def
  by (auto simp: row_core_def skip_object_def split: prod.splits option.splits
      intro!: yields_bind_any dest!: yieldsD [OF message_core])

lemma row_core: "yields (message_row V row w) (\<lambda>w'. row_core w' = row_core w)"
proof -
  have *: "yields (obind (message_values V message w1) (\<lambda>(r, w2). case r of None \<Rightarrow> Ok w2
      | Some (ptags, vals) \<Rightarrow> message_change V eid message msg ptags vals w2)) (\<lambda>w'. row_core w' = row_core w1)" for message w1 eid msg
    by (rule yields_bind [OF values_core]) (auto split: option.splits intro!: yields_mono [OF change_core])
  show ?thesis unfolding message_row_def Let_def
    by (auto split: prod.splits option.splits intro!: yields_bind [OF note_eid_core] yields_mono [OF *])
qed

lemma rows_core: "yields (message_rows V rows w) (\<lambda>(rest, w'). row_core w' = row_core w)"
proof (induction rows arbitrary: w)
  case (Cons row rows)
  show ?case by (auto intro!: yields_bind [OF row_core] yields_mono [OF Cons])
qed simp

section \<open>The loop over the rows\<close>

abbreviation row_out :: "('g, 'db) row_state \<Rightarrow> fx_out" where
  "row_out w \<equiv> sd_out (rw_sd w)"

lemma emits_row_result:
  assumes "emits put_row f" and "f w = Ok w'" shows "\<exists>d. delta_ok d \<and> row_out w' = append_delta (row_out w) d"
proof -
  from assms(1) obtain r where r: "yields r (\<lambda>(t, d). delta_ok d)"
    "\<And>out. f (put_row out w) = obind r (\<lambda>(t, d). Ok (put_row (append_delta out d) t))" unfolding emits_def by blast
  have "put_row (row_out w) w = w" by (simp add: put_row_def)
  with r(2) [of "row_out w"] assms(2) have "obind r (\<lambda>(t, d). Ok (put_row (append_delta (row_out w) d) t)) = Ok w'" by simp
  then obtain t d where "r = Ok (t, d)" "w' = put_row (append_delta (row_out w) d) t" by auto
  with r(1) show ?thesis by (intro exI [of _ d]) simp
qed

lemma message_rows_out:
  assumes "fx_laws (sy_lib V)" and "out_ok (row_out w)"
  shows "yields (message_rows V rows w) (\<lambda>(rest, w'). out_ok (row_out w'))"
  using assms(2)
proof (induction rows arbitrary: w)
  case (Cons row rows)
  have "yields (message_row V row w) (\<lambda>w'. out_ok (row_out w'))"
    unfolding yields_def using emits_row_result [OF emits_message_row [OF assms(1)]] Cons.prems
    by (metis out_ok_append)
  with Cons show ?case by (auto intro: yields_bind)
qed simp

lemma message_rows_left:
  "yields (message_rows V rows w) (\<lambda>(rest, w'). length rest \<le> length rows \<and>
     (length (fx_bytes (row_out w)) < max_message_sync_size \<longrightarrow> rest = [] \<or> length rest < length rows) \<and>
     (rest \<noteq> [] \<longrightarrow> max_message_sync_size \<le> length (fx_bytes (row_out w'))))"
proof (induction rows arbitrary: w)
  case (Cons row rows)
  show ?case
  proof (cases "length (fx_bytes (row_out w)) < max_message_sync_size")
    case True
    have "yields (obind (message_row V row w) (message_rows V rows)) (\<lambda>(rest, w'). length rest \<le> length rows \<and>
        (rest \<noteq> [] \<longrightarrow> max_message_sync_size \<le> length (fx_bytes (row_out w'))))"
      by (rule yields_bind_any, rule yields_mono [OF Cons]) auto
    then show ?thesis using True by (simp, elim yields_mono) auto
  qed simp
qed simp

section \<open>One table\<close>

lemma fetch_deleted_kept:
  "yields (fetch_deleted V sc sd) (\<lambda>sd'. sd_out sd' = sd_out sd \<and> sd_guid sd' = sd_guid sd \<and> sd_table_type sd' = sd_table_type sd \<and>
     sd_prop_index sd' = sd_prop_index sd \<and> sd_eid_set sd' = sd_eid_set sd)"
  by (auto simp: yields_def fetch_deleted_def Let_def split: option.splits)

lemma open_table_core: "yields (open_message_table V sc tt) (\<lambda>(rows, sc'). sc_core sc' = sc_core sc)"
  by (auto simp: yields_def open_message_table_def Let_def split: if_splits prod.splits)

text \<open>What a call leaves: the end of the table, or a chunk of full size and fewer rows.\<close>

definition table_pushed where
  "table_pushed sc sd = (\<lambda>(end_of_table, sc', sd'). sc_core sc' = sc_core sc \<and> sd_guid sd' = sd_guid sd \<and>
     (if end_of_table then sd_rows sd' = None
      else (\<exists>rest. sd_rows sd' = Some rest \<and> rest \<noteq> [] \<and> max_message_sync_size \<le> length (fx_bytes (sd_out sd')) \<and>
        (\<forall>rows. sd_rows sd = Some rows \<longrightarrow> length (fx_bytes (sd_out sd)) < max_message_sync_size \<longrightarrow> length rest < length rows))))"

lemma push_messageChange_pushed: "yields (oxcfxics_push_messageChange V sc sd) (table_pushed sc sd)"
proof -
  let ?w = "\<lambda>sc. \<lparr>rw_sc = sc, rw_sd = sd, rw_index = sd_prop_index sd, rw_changed = False, rw_guid = None\<rparr>"
  have rows: "yields (case sd_rows sd of Some rows \<Rightarrow> Ok (rows, sc) | None \<Rightarrow> open_message_table V sc (sd_table_type sd))
      (\<lambda>(rows, sc1). sc_core sc1 = sc_core sc \<and> (\<forall>rs. sd_rows sd = Some rs \<longrightarrow> rows = rs))"
    using open_table_core [of V sc] by (auto split: option.splits intro: yields_mono)
  show ?thesis unfolding oxcfxics_push_messageChange_def
  proof (rule yields_bind [OF rows], clarify)
    fix rows sc1
    assume sc1: "sc_core sc1 = sc_core sc" and rs: "\<forall>rs. sd_rows sd = Some rs \<longrightarrow> rows = rs"
    show "yields (obind (message_rows V rows (?w sc1)) (\<lambda>(rest, w).
        if rest \<noteq> [] then Ok (False, rw_sc w, (rw_sd w)\<lparr>sd_rows := Some rest\<rparr>)
        else obind (if folder_is_mapistore V then fetch_deleted V (rw_sc w) (rw_sd w) else Ok (rw_sd w)) (\<lambda>sd2.
          Ok (True, rw_sc w, sd2\<lparr>sd_rows := None\<rparr>)))) (table_pushed sc sd)"
    proof (rule yields_bind_any, clarify)
      fix rest w assume r: "message_rows V rows (?w sc1) = Ok (rest, w)"
      have "row_core w = row_core (?w sc1)" using yieldsD [OF rows_core r] by simp
      then have core: "sc_core (rw_sc w) = sc_core sc" "sd_guid (rw_sd w) = sd_guid sd"
        using sc1 sd_core_fields [of "rw_sd w" sd] by (simp_all add: row_core_def)
      have left: "rest \<noteq> [] \<longrightarrow> max_message_sync_size \<le> length (fx_bytes (row_out w))"
        "length (fx_bytes (sd_out sd)) < max_message_sync_size \<longrightarrow> rest = [] \<or> length rest < length rows"
        using yieldsD [OF message_rows_left r] by simp_all
      show "yields (if rest \<noteq> [] then Ok (False, rw_sc w, (rw_sd w)\<lparr>sd_rows := Some rest\<rparr>)
        else obind (if folder_is_mapistore V then fetch_deleted V (rw_sc w) (rw_sd w) else Ok (rw_sd w)) (\<lambda>sd2.
          Ok (True, rw_sc w, sd2\<lparr>sd_rows := None\<rparr>))) (table_pushed sc sd)"
      proof (cases "rest = []")
        case True
        have g: "yields (if folder_is_mapistore V then fetch_deleted V (rw_sc w) (rw_sd w) else Ok (rw_sd w)) (\<lambda>sd2. sd_guid sd2 = sd_guid sd)"
          using core(2) by (simp add: yields_mono [OF fetch_deleted_kept])
        show ?thesis unfolding True if_not_P [OF not_not [THEN iffD2, OF refl]]
          by (rule yields_bind [OF g]) (use core in \<open>simp add: table_pushed_def\<close>)
      next
        case False
        then show ?thesis using core left rs by (auto simp: table_pushed_def)
      qed
    qed
  qed
qed

lemma push_messageChange_out:
  fixes sc :: "('a, 'b) synccontext"
  assumes "fx_laws (sy_lib V)" and "out_ok (sd_out sd)"
  shows "yields (oxcfxics_push_messageChange V sc sd) (\<lambda>(e, sc', sd'). out_ok (sd_out sd'))"
  unfolding oxcfxics_push_messageChange_def
proof (rule yields_bind_any, clarify)
  fix rows and sc1 :: "('a, 'b) synccontext"
  let ?w = "\<lparr>rw_sc = sc1, rw_sd = sd, rw_index = sd_prop_index sd, rw_changed = False, rw_guid = None\<rparr>"
  have w: "yields (message_rows V rows ?w) (\<lambda>(rest, w'). out_ok (row_out w'))" using assms by (simp add: message_rows_out)
  show "yields (obind (message_rows V rows ?w) (\<lambda>(rest, w).
      if rest \<noteq> [] then Ok (False, rw_sc w, (rw_sd w)\<lparr>sd_rows := Some rest\<rparr>)
      else obind (if folder_is_mapistore V then fetch_deleted V (rw_sc w) (rw_sd w) else Ok (rw_sd w)) (\<lambda>sd2.
        Ok (True, rw_sc w, sd2\<lparr>sd_rows := None\<rparr>)))) (\<lambda>(e, sc', sd'). out_ok (sd_out sd'))"
    by (rule yields_bind [OF w]) (auto intro!: yields_bind [OF fetch_deleted_kept])
qed

section \<open>The stages\<close>

text \<open>A stage is over, or it has made a chunk of full size and there are fewer rows left.\<close>

definition stage_left where
  "stage_left sd = (\<lambda>(sc' :: ('g, 'db) synccontext, sd'). \<exists>rest. sd_rows sd' = Some rest \<and> rest \<noteq> [] \<and>
     max_message_sync_size \<le> length (fx_bytes (sd_out sd')) \<and>
     (\<forall>rows. sd_rows sd = Some rows \<longrightarrow> length (fx_bytes (sd_out sd)) < max_message_sync_size \<longrightarrow> length rest < length rows))"

lemma push_table_left:
  "yields (push_table V tt sc sd) (\<lambda>(sc', sd'). sc_request sc' = sc_request sc \<and> sd_guid sd' = sd_guid sd \<and>
     (sync_stage sc' = (case tt of MAPISTORE_MESSAGE_TABLE \<Rightarrow> 2 | MAPISTORE_FAI_TABLE \<Rightarrow> 3) \<and> sd_rows sd' = None \<or>
      sync_stage sc' = sync_stage sc \<and> stage_left sd (sc', sd')))"
proof -
  define sd1 where "sd1 = (if sd_rows sd = None then sd\<lparr>sd_cnset_seen := [RAWIDSET_make (sy_samba V) False True], sd_table_type := tt\<rparr> else sd)"
  have sd1: "sd_rows sd1 = sd_rows sd" "sd_out sd1 = sd_out sd" "sd_guid sd1 = sd_guid sd" by (simp_all add: sd1_def)
  show ?thesis unfolding push_table_def Let_def sd1_def [symmetric]
  proof (rule yields_bind [OF push_messageChange_pushed], clarify)
    fix e sc2 sd2 assume p: "table_pushed sc sd1 (e, sc2, sd2)"
    then have c: "sc_core sc2 = sc_core sc" "sd_guid sd2 = sd_guid sd" by (simp_all add: table_pushed_def sd1)
    show "yields (if e then case tt of
            MAPISTORE_MESSAGE_TABLE \<Rightarrow> obind (IDSET_merge_idsets (sy_samba V) (cnset_seen sc2) (RAWIDSET_convert_to_idset (sy_samba V) (sd_cnset_seen sd2)))
              (\<lambda>m. Ok (sc2\<lparr>cnset_seen := m, sync_stage := 2\<rparr>, sd2))
          | MAPISTORE_FAI_TABLE \<Rightarrow> obind (IDSET_merge_idsets (sy_samba V) (cnset_seen_fai sc2) (RAWIDSET_convert_to_idset (sy_samba V) (sd_cnset_seen sd2)))
              (\<lambda>m. Ok (sc2\<lparr>cnset_seen_fai := m, sync_stage := 3\<rparr>, sd2))
        else Ok (sc2, sd2))
      (\<lambda>(sc', sd'). sc_request sc' = sc_request sc \<and> sd_guid sd' = sd_guid sd \<and>
         (sync_stage sc' = (case tt of MAPISTORE_MESSAGE_TABLE \<Rightarrow> 2 | MAPISTORE_FAI_TABLE \<Rightarrow> 3) \<and> sd_rows sd' = None \<or>
          sync_stage sc' = sync_stage sc \<and> stage_left sd (sc', sd')))"
    proof (cases e)
      case True
      then show ?thesis using p c sc_core_fields(1) [OF c(1)]
        by (cases tt) (auto simp: table_pushed_def intro!: yields_bind_any)
    next
      case False
      then show ?thesis using p c sc_core_fields(1,2) [OF c(1)] by (auto simp: table_pushed_def stage_left_def sd1)
    qed
  qed
qed

lemma push_table_out:
  fixes sc :: "('a, 'b) synccontext"
  assumes "fx_laws (sy_lib V)" and "out_ok (sd_out sd)"
  shows "yields (push_table V tt sc sd) (\<lambda>(sc', sd'). out_ok (sd_out sd'))"
proof -
  have o: "out_ok (sd_out (if sd_rows sd = None then sd\<lparr>sd_cnset_seen := [RAWIDSET_make (sy_samba V) False True], sd_table_type := tt\<rparr> else sd))"
    using assms(2) by simp
  show ?thesis unfolding push_table_def Let_def
    by (rule yields_bind [OF push_messageChange_out [OF assms(1) o]])
      (auto split: mapistore_table_type.splits intro!: yields_bind_any)
qed

lemma push_table_stage:
  "yields (push_table V tt sc sd) (\<lambda>(sc', sd'). sc_request sc' = sc_request sc \<and> sd_guid sd' = sd_guid sd \<and>
     (fx_laws (sy_lib V) \<longrightarrow> out_ok (sd_out sd) \<longrightarrow> out_ok (sd_out sd')) \<and>
     (sync_stage sc' = (case tt of MAPISTORE_MESSAGE_TABLE \<Rightarrow> 2 | MAPISTORE_FAI_TABLE \<Rightarrow> 3) \<and> sd_rows sd' = None \<or>
      sync_stage sc' = sync_stage sc \<and> stage_left sd (sc', sd')))"
  unfolding yields_def
proof (intro allI impI, clarify)
  fix sc' sd' assume p: "push_table V tt sc sd = Ok (sc', sd')"
  from yieldsD [OF push_table_left p] yieldsD [OF push_table_out p]
  show "sc_request sc' = sc_request sc \<and> sd_guid sd' = sd_guid sd \<and> (fx_laws (sy_lib V) \<longrightarrow> out_ok (sd_out sd) \<longrightarrow> out_ok (sd_out sd')) \<and>
     (sync_stage sc' = (case tt of MAPISTORE_MESSAGE_TABLE \<Rightarrow> 2 | MAPISTORE_FAI_TABLE \<Rightarrow> 3) \<and> sd_rows sd' = None \<or>
      sync_stage sc' = sync_stage sc \<and> stage_left sd (sc', sd'))" by simp
qed

lemma out_ok_marker: "fx_laws (sy_lib V) \<Longrightarrow> out_ok out \<Longrightarrow> out_ok (push_marker (sy_lib V) v out)"
  by (simp add: push_marker_delta out_ok_append delta_ok_def push_uint32_nonempty)

lemma marker_nonempty: "fx_laws G \<Longrightarrow> fx_bytes (push_marker G v out) \<noteq> []"
  by (simp add: push_marker_delta push_uint32_nonempty)

lemma out_ok_marked_idset: "fx_laws (sy_lib V) \<Longrightarrow> out_ok out \<Longrightarrow> out_ok (push_marked_idset V t ss out)"
  unfolding push_marked_idset_def
  by (intro out_ok_mark out_ok_bytes out_ok_marker) (simp_all add: push_marker_def push_uint32_nonempty)

lemma push_deletions_kept:
  "yields (push_deletions V sc sd) (\<lambda>(sc', sd'). sc_request sc' = sc_request sc \<and> sync_stage sc' = sync_stage sc \<and> cnset_seen sc' = cnset_seen sc \<and>
     cnset_seen_fai sc' = cnset_seen_fai sc \<and> sd_eid_set sd' = sd_eid_set sd \<and> (fx_laws (sy_lib V) \<longrightarrow> out_ok (sd_out sd) \<longrightarrow> out_ok (sd_out sd')))"
  unfolding push_deletions_def
  by (auto split: list.splits intro!: yields_bind_any out_ok_marked_idset out_ok_marker)

lemma push_state_kept:
  "yields (push_state V sc sd) (\<lambda>(sc', sd'). sc_request sc' = sc_request sc \<and> sync_stage sc' = sync_stage sc \<and>
     (fx_laws (sy_lib V) \<longrightarrow> out_ok (sd_out sd) \<longrightarrow> out_ok (sd_out sd')) \<and> (fx_laws (sy_lib V) \<longrightarrow> fx_bytes (sd_out sd') \<noteq> []))"
  unfolding push_state_def Let_def
  by (rule yields_bind_any)
    (auto intro!: out_ok_marker out_ok_bytes out_ok_marked_idset simp: marker_nonempty)

lemma stage_left_empty: "sd_out sd = out_empty \<Longrightarrow> stage_left sd (sc', sd') \<longleftrightarrow> (\<exists>rest. sd_rows sd' = Some rest \<and> rest \<noteq> [] \<and>
    max_message_sync_size \<le> length (fx_bytes (sd_out sd')) \<and> (\<forall>rows. sd_rows sd = Some rows \<longrightarrow> length rest < length rows))"
  by (simp add: stage_left_def out_empty_def max_message_sync_size_def)

lemma sync_normal_stage:
  "yields (sync_normal V (sc, sd)) (\<lambda>(sc', sd'). sc_request sc' = sc_request sc \<and> sd_guid sd' = sd_guid sd \<and>
     (fx_laws (sy_lib V) \<longrightarrow> out_ok (sd_out sd) \<longrightarrow> out_ok (sd_out sd')) \<and>
     (if sync_stage sc = 1 then sync_stage sc' = 2 \<or> sync_stage sc' = 1 \<and> stage_left sd (sc', sd') else sc' = sc \<and> sd' = sd))"
proof (cases "sync_stage sc = 1 \<and> req_normal (sc_request sc)")
  case True
  then have "sync_normal V (sc, sd) = push_table V MAPISTORE_MESSAGE_TABLE sc sd" by (simp add: sync_normal_def)
  then show ?thesis using True by (simp, intro yields_mono [OF push_table_stage]) auto
qed (auto simp: sync_normal_def)

lemma sync_fai_stage:
  "yields (sync_fai V (sc, sd)) (\<lambda>(sc', sd'). sc_request sc' = sc_request sc \<and> sd_guid sd' = sd_guid sd \<and>
     (fx_laws (sy_lib V) \<longrightarrow> out_ok (sd_out sd) \<longrightarrow> out_ok (sd_out sd')) \<and>
     (if sync_stage sc = 2 then sync_stage sc' = 3 \<or> sync_stage sc' = 2 \<and> stage_left sd (sc', sd') else sc' = sc \<and> sd' = sd))"
proof (cases "sync_stage sc = 2 \<and> req_fai (sc_request sc)")
  case True
  then have "sync_fai V (sc, sd) = push_table V MAPISTORE_FAI_TABLE sc sd" by (simp add: sync_fai_def)
  then show ?thesis using True by (simp, intro yields_mono [OF push_table_stage]) auto
qed (auto simp: sync_fai_def)

lemma sync_finish_stage:
  "yields (sync_finish V (sc, sd)) (\<lambda>(sc', sd'). sc_request sc' = sc_request sc \<and>
     (fx_laws (sy_lib V) \<longrightarrow> out_ok (sd_out sd) \<longrightarrow> out_ok (sd_out sd')) \<and>
     (if sync_stage sc = 3 then sync_stage sc' = 4 \<and> (fx_laws (sy_lib V) \<longrightarrow> fx_bytes (sd_out sd') \<noteq> []) else sc' = sc \<and> sd' = sd))"
proof (cases "sync_stage sc = 3")
  case True
  have "yields (obind (push_deletions V sc sd) (\<lambda>(sc', sd'). obind (push_state V sc' sd') (\<lambda>(sc'', sd''). Ok (sc''\<lparr>sync_stage := 4\<rparr>, sd''))))
    (\<lambda>(sc', sd'). sc_request sc' = sc_request sc \<and> (fx_laws (sy_lib V) \<longrightarrow> out_ok (sd_out sd) \<longrightarrow> out_ok (sd_out sd')) \<and>
      sync_stage sc' = 4 \<and> (fx_laws (sy_lib V) \<longrightarrow> fx_bytes (sd_out sd') \<noteq> []))"
    by (rule yields_bind [OF push_deletions_kept], clarify, rule yields_bind [OF push_state_kept]) auto
  then show ?thesis using True by (simp add: sync_finish_def)
qed (simp add: sync_finish_def)

text \<open>The start of a chunk.\<close>

definition chunk_start :: "('g, 'db, 'm) sync_env \<Rightarrow> ('g, 'db) synccontext \<Rightarrow> (('g, 'db) synccontext \<times> 'g oxcfxics_sync_data) outcome" where
  "chunk_start V sc0 =
     (if sync_stage sc0 = 0 then Ok (sc0\<lparr>sync_stage := 1\<rparr>, sync_start V sc0)
      else case sc_sync_data sc0 of None \<Rightarrow> Fault | Some sd \<Rightarrow> Ok (sc0, sd\<lparr>sd_out := out_empty\<rparr>))"

lemma chunk_start_result:
  "yields (chunk_start V sc0) (\<lambda>(sc, sd). sc_request sc = sc_request sc0 \<and> sd_out sd = out_empty \<and>
     sync_stage sc = (if sync_stage sc0 = 0 then 1 else sync_stage sc0) \<and>
     (sync_stage sc0 \<noteq> 0 \<longrightarrow> (\<exists>sd0. sc_sync_data sc0 = Some sd0 \<and> sd_rows sd = sd_rows sd0)))"
  by (auto simp: chunk_start_def sync_start_def split: option.splits)

lemma make_chunk_stages:
  assumes "make_chunk V sc0 = Ok (sc', out)"
  obtains sc1 sd1 sc2 sd2 sc3 sd3 sc4 sd4 where "chunk_start V sc0 = Ok (sc1, sd1)" and "sync_normal V (sc1, sd1) = Ok (sc2, sd2)"
    and "sync_fai V (sc2, sd2) = Ok (sc3, sd3)" and "sync_finish V (sc3, sd3) = Ok (sc4, sd4)"
    and "sc' = sc4\<lparr>sc_sync_data := (if sync_stage sc4 = 4 then None else Some sd4)\<rparr>" and "out = sd_out sd4"
  using assms by (fastforce simp: make_chunk_def chunk_start_def)

lemma make_chunk_out:
  assumes "make_chunk V sc0 = Ok (sc', out)"
  shows "fx_laws (sy_lib V) \<Longrightarrow> out_ok out" and "sc_request sc' = sc_request sc0"
proof -
  from assms obtain sc1 sd1 sc2 sd2 sc3 sd3 sc4 sd4 where c: "chunk_start V sc0 = Ok (sc1, sd1)" "sync_normal V (sc1, sd1) = Ok (sc2, sd2)"
    "sync_fai V (sc2, sd2) = Ok (sc3, sd3)" "sync_finish V (sc3, sd3) = Ok (sc4, sd4)"
    "sc' = sc4\<lparr>sc_sync_data := (if sync_stage sc4 = 4 then None else Some sd4)\<rparr>" "out = sd_out sd4" by (rule make_chunk_stages)
  note y = yieldsD [OF chunk_start_result c(1)] yieldsD [OF sync_normal_stage c(2)] yieldsD [OF sync_fai_stage c(3)]
    yieldsD [OF sync_finish_stage c(4)]
  show "fx_laws (sy_lib V) \<Longrightarrow> out_ok out" using y c(6) out_ok_empty by simp
  show "sc_request sc' = sc_request sc0" using y c(5) by simp
qed

text \<open>A chunk is the last one, or of full size with fewer rows behind it.\<close>

lemma make_chunk_progress:
  assumes "make_chunk V sc0 = Ok (sc', out)" and "sync_stage sc0 < 4"
  shows "sync_stage sc' = 4 \<and> (fx_laws (sy_lib V) \<longrightarrow> fx_bytes out \<noteq> []) \<or>
    sync_stage sc' \<in> {1, 2} \<and> sync_stage sc0 \<le> sync_stage sc' \<and> max_message_sync_size \<le> length (fx_bytes out) \<and>
    (\<exists>sd' rest. sc_sync_data sc' = Some sd' \<and> sd_rows sd' = Some rest \<and>
       (sync_stage sc' = sync_stage sc0 \<longrightarrow> (\<exists>sd0. sc_sync_data sc0 = Some sd0 \<and> (\<forall>rows. sd_rows sd0 = Some rows \<longrightarrow> length rest < length rows))))"
proof -
  from assms(1) obtain sc1 sd1 sc2 sd2 sc3 sd3 sc4 sd4 where c: "chunk_start V sc0 = Ok (sc1, sd1)" "sync_normal V (sc1, sd1) = Ok (sc2, sd2)"
    "sync_fai V (sc2, sd2) = Ok (sc3, sd3)" "sync_finish V (sc3, sd3) = Ok (sc4, sd4)"
    "sc' = sc4\<lparr>sc_sync_data := (if sync_stage sc4 = 4 then None else Some sd4)\<rparr>" "out = sd_out sd4" by (rule make_chunk_stages)
  have 1: "sd_out sd1 = out_empty" "sync_stage sc1 = (if sync_stage sc0 = 0 then 1 else sync_stage sc0)"
    "sync_stage sc0 \<noteq> 0 \<Longrightarrow> \<exists>sd0. sc_sync_data sc0 = Some sd0 \<and> sd_rows sd1 = sd_rows sd0" using yieldsD [OF chunk_start_result c(1)] by auto
  have 2: "if sync_stage sc1 = 1 then sync_stage sc2 = 2 \<or> sync_stage sc2 = 1 \<and> stage_left sd1 (sc2, sd2) else sc2 = sc1 \<and> sd2 = sd1"
    using yieldsD [OF sync_normal_stage c(2)] by (auto split: if_splits)
  have 3: "if sync_stage sc2 = 2 then sync_stage sc3 = 3 \<or> sync_stage sc3 = 2 \<and> stage_left sd2 (sc3, sd3) else sc3 = sc2 \<and> sd3 = sd2"
    using yieldsD [OF sync_fai_stage c(3)] by simp
  have 4: "if sync_stage sc3 = 3 then sync_stage sc4 = 4 \<and> (fx_laws (sy_lib V) \<longrightarrow> fx_bytes (sd_out sd4) \<noteq> []) else sc4 = sc3 \<and> sd4 = sd3"
    using yieldsD [OF sync_finish_stage c(4)] by simp
  consider (last) "sync_stage sc3 = 3" | (normal) "sync_stage sc1 = 1" "sync_stage sc3 = 1" "stage_left sd1 (sc3, sd3)"
    | (fai) "sync_stage sc2 = 2" "sync_stage sc3 = 2" "stage_left sd2 (sc3, sd3)"
    using assms(2) 1(2) 2 3 by (auto split: if_splits)
  then show ?thesis
  proof cases
    case last
    with 4 c(5,6) show ?thesis by simp
  next
    case normal
    from normal(3) obtain rest where r: "sd_rows sd3 = Some rest" "max_message_sync_size \<le> length (fx_bytes (sd_out sd3))"
      "\<forall>rows. sd_rows sd1 = Some rows \<longrightarrow> length rest < length rows" by (auto simp: stage_left_empty [OF 1(1)])
    have s: "sc4 = sc3" "sd4 = sd3" using 4 normal(2) by simp_all
    have "sync_stage sc0 \<le> 1" using 1(2) normal(1) by (metis le_refl zero_le)
    moreover have "\<exists>sd0. sc_sync_data sc0 = Some sd0 \<and> (\<forall>rows. sd_rows sd0 = Some rows \<longrightarrow> length rest < length rows)" if "sync_stage sc0 = 1"
      using 1(3) that r(3) by fastforce
    ultimately show ?thesis using r s normal(2) c(5,6) by simp
  next
    case fai
    from fai(3) obtain rest where r: "sd_rows sd3 = Some rest" "max_message_sync_size \<le> length (fx_bytes (sd_out sd3))"
      "sd_out sd2 = out_empty \<longrightarrow> (\<forall>rows. sd_rows sd2 = Some rows \<longrightarrow> length rest < length rows)"
      by (auto simp: stage_left_def out_empty_def max_message_sync_size_def)
    have s: "sc4 = sc3" "sd4 = sd3" using 4 fai(2) by simp_all
    have s2: "sc2 = sc1 \<and> sd2 = sd1" if "sync_stage sc0 = 2" using 1(2) 2 that by simp
    have "sync_stage sc0 \<le> 2" using 1(2) 2 fai(1) by (auto split: if_splits)
    moreover have "\<exists>sd0. sc_sync_data sc0 = Some sd0 \<and> (\<forall>rows. sd_rows sd0 = Some rows \<longrightarrow> length rest < length rows)" if "sync_stage sc0 = 2"
      using 1(1,3) s2 [OF that] that r(3) by fastforce
    ultimately show ?thesis using r s fai(2) c(5,6) by simp
  qed
qed

interpretation sync_source: chunk_source "make_chunk V" "fx_laws (sy_lib V)"
proof
  fix sc sc' :: "('a, 'b) synccontext" and out assume m: "make_chunk V sc = Ok (sc', out)"
  show "out_ok out" if "fx_laws (sy_lib V)" using make_chunk_out(1) [OF m that] .
  show "sc_request sc' = sc_request sc" using make_chunk_out(2) [OF m] .
  show "fx_bytes out \<noteq> []" if "fx_laws (sy_lib V)" "sync_stage sc < 4" "sync_stage sc' = 4"
    using make_chunk_progress [OF m that(2)] that(1,3) by auto
  show "2 ^ 16 \<le> length (fx_bytes out)" if "sync_stage sc < 4" "sync_stage sc' \<noteq> 4"
    using make_chunk_progress [OF m that(1)] that(2) by (auto simp: max_message_sync_size_def)
  show "0 < sync_stage sc' \<and> sync_stage sc' \<le> 4" if "sync_stage sc < 4"
    using make_chunk_progress [OF m that] by auto
qed

section \<open>There are finitely many chunks\<close>

definition rows_left :: "('g, 'db) synccontext \<Rightarrow> nat" where
  "rows_left sc = (case sc_sync_data sc of Some sd \<Rightarrow> (case sd_rows sd of Some rows \<Rightarrow> length rows | None \<Rightarrow> 0) | None \<Rightarrow> 0)"

definition in_progress :: "('g, 'db) synccontext \<Rightarrow> bool" where
  "in_progress sc \<longleftrightarrow> sync_stage sc = 0 \<or> sync_stage sc = 4 \<or>
     sync_stage sc < 4 \<and> (\<exists>sd rows. sc_sync_data sc = Some sd \<and> sd_rows sd = Some rows)"

lemma make_chunk_rank:
  assumes "make_chunk V sc = Ok (sc', out)" and "in_progress sc" and "sync_stage sc \<noteq> 4"
  shows "in_progress sc' \<and> (sync_stage sc' = 4 \<or>
    4 - sync_stage sc' < 4 - sync_stage sc \<or> 4 - sync_stage sc' = 4 - sync_stage sc \<and> rows_left sc' < rows_left sc)"
proof -
  have lt: "sync_stage sc < 4" using assms(2,3) by (auto simp: in_progress_def)
  show ?thesis
  proof (cases "sync_stage sc' = 4")
    case False
    with make_chunk_progress [OF assms(1) lt] obtain sd' rest where p: "sync_stage sc' \<in> {1, 2}" "sync_stage sc \<le> sync_stage sc'"
      "sc_sync_data sc' = Some sd'" "sd_rows sd' = Some rest" "sync_stage sc' = sync_stage sc \<Longrightarrow>
        \<exists>sd0. sc_sync_data sc = Some sd0 \<and> (\<forall>rows. sd_rows sd0 = Some rows \<longrightarrow> length rest < length rows)" by auto
    have "in_progress sc'" using p by (auto simp: in_progress_def)
    moreover have "rows_left sc' < rows_left sc" if "sync_stage sc' = sync_stage sc"
      using p(1,3,4) p(5) [OF that] assms(2) that by (auto simp: rows_left_def in_progress_def)
    ultimately show ?thesis using p(1,2) by (cases "sync_stage sc' = sync_stage sc") auto
  qed (simp add: in_progress_def)
qed

lemma sync_chunks_more:
  assumes "sync_stage sc \<noteq> 4" and "make_chunk V sc = Ok (sc', out)" and "\<exists>n r. sync_chunks (make_chunk V) n sc' = Some r"
  shows "\<exists>n r. sync_chunks (make_chunk V) n sc = Some r"
proof -
  from assms(3) obtain n r where "sync_chunks (make_chunk V) n sc' = Some r" by blast
  with assms(1,2) have "sync_chunks (make_chunk V) (Suc n) sc = Some (obind r (\<lambda>outs. Ok (out # outs)))"
    by (subst sync_chunks.simps) simp
  then show ?thesis by blast
qed

lemma sync_chunks_exist:
  assumes "in_progress sc" shows "\<exists>n r. sync_chunks (make_chunk V) n sc = Some r"
  using wf_measures [of "[\<lambda>sc. 4 - sync_stage sc, rows_left]"] assms
proof (induction sc rule: wf_induct_rule)
  case (less sc)
  show ?case
  proof (cases "sync_stage sc = 4")
    case True
    then have "sync_chunks (make_chunk V) 0 sc = Some (Ok [])" by (simp add: sync_chunks.simps)
    then show ?thesis by blast
  next
    case False
    show ?thesis
    proof (cases "make_chunk V sc")
      case (Ok x)
      obtain sc' out where x: "x = (sc', out)" by (cases x)
      with Ok have m: "make_chunk V sc = Ok (sc', out)" by simp
      note r = make_chunk_rank [OF m less.prems False]
      have "\<exists>n r. sync_chunks (make_chunk V) n sc' = Some r"
      proof (cases "sync_stage sc' = 4")
        case True
        then have "sync_chunks (make_chunk V) 0 sc' = Some (Ok [])" by (simp add: sync_chunks.simps)
        then show ?thesis by blast
      qed (use less.IH r in auto)
      with False m show ?thesis by (rule sync_chunks_more)
    qed (use False in \<open>auto intro: exI [of _ "Suc 0"] simp: sync_chunks.simps [of _ "Suc 0"]\<close>)
  qed
qed

section \<open>The download\<close>

text \<open>A context as \<open>RopSyncConfigure\<close> leaves it: nothing is in the stream.\<close>

definition sync_open :: "('g, 'db) synccontext \<Rightarrow> ('g, 'db) emsmdbp_object_synccontext" where
  "sync_open sc = \<lparr>sync_context = sc, sc_stream = \<lparr>spos = 0, sbuf = []\<rparr>, sc_cutmarks = [], sc_next_cutmark_idx = 0\<rparr>"

lemma fill_is_source: "oxcfxics_fill_synccontext_with_messageChange V = chunk_fill (make_chunk V)"
  by (rule ext) (simp add: oxcfxics_fill_synccontext_with_messageChange_def chunk_fill_def)

lemma sync_download_pieces:
  assumes G: "fx_laws (sy_lib V)" and "sync_inv x" and "rest_of (make_chunk V) (sync_context x) outs" and "list_all req_ok ns"
    and "sync_measure x outs < length ns"
  shows "\<exists>rs x'. sync_download V F depth f x ns = Ok (rs, x') \<and> rs \<noteq> [] \<and> TransferStatus (last rs) = TransferStatus_Done \<and>
    concat (map TransferBuffer rs) = pending x outs \<and> list_all2 (\<lambda>r n. length (TransferBuffer r) \<le> unat n) rs (take (length rs) ns)"
  using assms(2-)
proof (induction ns arbitrary: x outs)
  case (Cons n ns)
  have "responded (make_chunk V) n x outs
      (sync_buffer (chunk_fill (make_chunk V)) (oxcfxics_prepare_synccontext_with_folderChange V F depth f) n x)"
    using Cons.prems by (intro sync_source.sync_buffer [OF G]) simp_all
  then obtain fin bs x' outs' where
    b: "sync_buffer (chunk_fill (make_chunk V)) (oxcfxics_prepare_synccontext_with_folderChange V F depth f) n x = Ok (fin, bs, x')"
      "sync_inv x'" "rest_of (make_chunk V) (sync_context x') outs'" "length bs \<le> unat n" "bs @ pending x' outs' = pending x outs"
      "fin \<longrightarrow> pending x' outs' = []" "\<not> fin \<longrightarrow> sync_measure x' outs' < sync_measure x outs"
    unfolding responded_def by blast
  then obtain r where r: "oxcfxics_fill_synccontext_fasttransfer_response V F depth f n x = Ok (r, x')"
    "TransferBuffer r = bs" "TransferStatus r = (if fin then TransferStatus_Done else TransferStatus_Partial)"
    by (simp add: oxcfxics_fill_synccontext_fasttransfer_response_def fill_is_source)
  show ?case
  proof (cases fin)
    case True
    with r b show ?thesis by simp
  next
    case False
    with Cons.IH [OF b(2,3)] Cons.prems b(7) obtain rs x'' where ih: "sync_download V F depth f x' ns = Ok (rs, x'')" "rs \<noteq> []"
      "TransferStatus (last rs) = TransferStatus_Done" "concat (map TransferBuffer rs) = pending x' outs'"
      "list_all2 (\<lambda>r n. length (TransferBuffer r) \<le> unat n) rs (take (length rs) ns)" by auto
    with r b False show ?thesis by simp
  qed
qed simp

end
