(* ===== verification/Oxcfxics_Sample.thy ===== *)
theory Oxcfxics_Sample
  imports Oxcfxics_Chunks Oxcfxics_Download Replica_Map
begin

unbundle bit_operations_syntax

text \<open>
  A folder with one message, on which the theorems about synchronization are applied: the chunk that is
  made of it is evaluated here, step by step.
\<close>

section \<open>A folder with one message\<close>

text \<open>The folder of the examples: the message 5 of the mailbox's own replica, with change number 9.\<close>

definition sample_properties :: "u32 list" where
  "sample_properties =
     [PidTagMid, PidTagAssociated, PidTagMessageSize, PidTagChangeNumber, PidTagChangeKey, PidTagPredecessorChangeList,
      PidTagLastModificationTime, PidTagDisplayName]"

definition sample_values :: "128 word row_values" where
  "sample_values =
     [(MAPI_E_SUCCESS, FxI8 0x50001), (MAPI_E_SUCCESS, FxBoolean 0), (MAPI_E_SUCCESS, FxLong 77), (MAPI_E_SUCCESS, FxI8 0x90001),
      (MAPI_E_SUCCESS, FxBinary [1, 2]), (MAPI_E_NOT_FOUND, FxNullPtr), (MAPI_E_SUCCESS, FxSysTime (3, 4)), (MAPI_E_SUCCESS, FxString [72, 105])]"

definition sample_env :: "(128 word, (string \<times> string) list, unit) sync_env" where
  "sample_env =
     \<lparr>sy_lib = fxlib128, sy_nprops = (\<lambda>_. None), sy_replicas = env128, sy_owner = ''u'', unix_to_nt_time = (\<lambda>_. 0),
      folder_is_mapistore = True, table_is_mapistore = True, table_opens = (\<lambda>_. True),
      table_rows = (\<lambda>tt _ _. case tt of MAPISTORE_MESSAGE_TABLE \<Rightarrow> [Some (Some 0x50001, Some 0x90001)] | MAPISTORE_FAI_TABLE \<Rightarrow> []),
      message_open = (\<lambda>_. Some ((), None)), get_properties = (\<lambda>_ ts. if ts = sample_properties then Some sample_values else None),
      get_available_properties = (\<lambda>_. None), attachment_rows = (\<lambda>_ _. None), embedded_message = (\<lambda>_ _ _. None),
      deleted_fmids = (\<lambda>_ _. None)\<rparr>"

definition sample_request :: emsmdbp_syncconfigure_request where
  "sample_request =
     \<lparr>contents_mode = True, req_normal = True, req_fai = False, read_state = False, no_deletions = False, request_eid = True,
      request_message_size = True, request_cn = True, no_foreign_identifiers = False, order_by_delivery_time = False\<rparr>"

definition sample_context :: "(128 word, (string \<times> string) list) synccontext" where
  "sample_context =
     \<lparr>sc_request = sample_request, sent_objects = 0, skipped_objects = 0, total_objects = 0,
      idset_given = [], cnset_seen = [], cnset_seen_fai = [], cnset_read = [],
      sc_properties = sample_properties, sc_fai_properties = [], sync_stage = 0, sc_sync_data = None, sc_steps = 0, sc_total_steps = 0, sc_replicas = []\<rparr>"


lemma sample_env_fields [simp]:
  "sy_lib sample_env = fxlib128" "sy_nprops sample_env i = None" "sy_replicas sample_env = env128" "sy_owner sample_env = ''u''"
  "folder_is_mapistore sample_env" "table_is_mapistore sample_env" "table_opens sample_env tt"
  "table_rows sample_env MAPISTORE_MESSAGE_TABLE c b = [Some (Some 0x50001, Some 0x90001)]"
  "message_open sample_env e = Some ((), None)" "get_properties sample_env m sample_properties = Some sample_values"
  "attachment_rows sample_env m ts = None" "deleted_fmids sample_env tt d = None"
  by (simp_all add: sample_env_def)

lemma fxlib128_samba [simp]: "samba_lib.truncate fxlib128 = lib128"
  by (simp add: samba_lib.defs fxlib128_def lib128_def)

lemma push_first: "c AND 0xffff000000000000 = 0 \<Longrightarrow> c \<noteq> 0 \<Longrightarrow> RAWIDSET_push_guid_glob lib128 [RAWIDSET_make lib128 False b] 7 c =
    Ok [\<lparr>raw_repl = ReplGuid 7, raw_single = b, globcnts = [c], max_count = 256\<rparr>]"
  by (simp add: RAWIDSET_push_guid_glob_def RAWIDSET_make_def lib128_def RAWIDSET_find_by_GUID_def raw_append_at_def rd_def raw_append_def)

lemma sample_index: "message_index sample_properties no_index =
  \<lparr>ix_parent_fid = 0, ix_eid = 0, ix_change_number = 3, ix_change_key = 4, ix_predecessor_change_list = 5, ix_last_modification_time = 6,
   ix_display_name = 0, ix_associated = 1, ix_message_size = 2\<rparr>"
  by (simp add: message_index_def sample_properties_def find_or_def no_index_def)

lemma source_key: "emsmdbp_source_key_from_fmid env128 l u 0x50001 = (MAPISTORE_SUCCESS, l, Some (le_bytes 16 (7 :: 128 word) @ counter_bytes 6 5))"
    by (simp add: emsmdbp_source_key_from_fmid_def emsmdbp_replid_to_guid_def env128_def guid128_def)


definition sample_header :: "u8 list \<Rightarrow> (u32 \<times> MAPISTATUS \<times> 128 word fx_data) list" where
  "sample_header sk =
     [(PidTagSourceKey, MAPI_E_SUCCESS, FxBinary sk), (PidTagLastModificationTime, MAPI_E_SUCCESS, FxSysTime (3, 4)),
      (PidTagChangeKey, MAPI_E_SUCCESS, FxBinary [1, 2]), (PidTagPredecessorChangeList, MAPI_E_SUCCESS, FxBinary [2, 1, 2]),
      (PidTagAssociated, MAPI_E_SUCCESS, FxBoolean 0), (PidTagMid, MAPI_E_SUCCESS, FxI8 0x50001),
      (PidTagMessageSize, MAPI_E_SUCCESS, FxLong 77), (PidTagChangeNumber, MAPI_E_SUCCESS, FxI8 0x90001)]"

lemma header:
  "message_header sample_request (message_index sample_properties no_index) 0x50001 9 sk (FxSysTime (3, 4)) sample_values = Ok (sample_header sk)"
  by (simp add: message_header_def header_keys_def header_size_def sample_index rd_def sample_values_def sample_request_def sample_header_def)

lemmas push_eval = push_property_def push_value_def push_simps prop_type_def push_bytes_def push_mark_def

lemma fxlib128_strings: "ndr_push_utf16 fxlib128 s = concat (map (\<lambda>b. [b, 0]) s) @ [0, 0]" "strlen_m_ext fxlib128 = length"
  by (simp_all add: fxlib128_def)

lemma header_bytes:
  assumes "length sk = 22"
  obtains out' where "oxcfxics_ndr_push_properties fxlib128 n (sample_header sk) out = Ok out'"
    and "length (fx_bytes out') = length (fx_bytes out) + 101"
  using assms by (simp add: sample_header_def push_eval fxlib128_simps)

lemma sample_message:
  assumes "length sk = 22"
  obtains out where "push_message sample_env (sample_header sk) sample_properties sample_values sample_properties () None sd = Ok (sd\<lparr>sd_out := out\<rparr>)"
    and "length (fx_bytes out) = length (fx_bytes (sd_out sd)) + 139"
proof -
  obtain out1 where "oxcfxics_ndr_push_properties fxlib128 (sy_nprops sample_env) (sample_header sk) (push_marker fxlib128 IncrSyncChg (sd_out sd)) = Ok out1"
    "length (fx_bytes out1) = length (fx_bytes (push_marker fxlib128 IncrSyncChg (sd_out sd))) + 101" using header_bytes [OF assms] by blast
  then show thesis
    by (intro that) (simp add: push_message_def message_properties_shift_def sample_properties_def sample_values_def push_eval 
      push_marker_def push_tagged_def oxcfxics_push_messageChange_recipients_def
      oxcfxics_push_messageChange_attachments_def fxlib128_simps fxlib128_strings,
      simp add: push_marker_def push_eval fxlib128_simps)
qed

lemma sample_context_fields [simp]:
  "sc_request sample_context = sample_request" "cnset_seen sample_context = []" "idset_given sample_context = []" "sc_properties sample_context = sample_properties"
  "sc_replicas sample_context = []" "sent_objects sample_context = 0" "total_objects sample_context = 0" "sync_stage sample_context = 0"
  by (simp_all add: sample_context_def)

lemma sample_request_fields [simp]:
  "contents_mode sample_request" "req_normal sample_request" "\<not> req_fai sample_request" "\<not> read_state sample_request"
  by (simp_all add: sample_request_def)

lemma env128_owner [simp]: "MailboxReplica env128 u = (1, 7)"
  by (simp add: env128_def)

lemma env128_replid [simp]: "emsmdbp_replid_to_guid env128 l u 1 = (MAPI_E_SUCCESS, l, Some 7)"
  by (simp add: emsmdbp_replid_to_guid_def)

definition sample_sent :: "128 word rawidset list \<Rightarrow> fx_out \<Rightarrow> 128 word oxcfxics_sync_data" where
  "sample_sent cns out = (sync_start sample_env sample_context)
     \<lparr>sd_out := out, sd_eid_set := [\<lparr>raw_repl = ReplGuid 7, raw_single = False, globcnts = [5], max_count = 256\<rparr>],
      sd_cnset_seen := cns\<rparr>"

abbreviation "sample_cns \<equiv> [\<lparr>raw_repl = ReplGuid (7 :: 128 word), raw_single = True, globcnts = [9], max_count = 256\<rparr>]"

lemma sample_sent_fields [simp]:
  "sd_out (sample_sent cns out) = out" "sd_cnset_seen (sample_sent cns out) = cns" "sd_guid (sample_sent cns out) = 7"
  "sd_table_type (sample_sent cns out) = MAPISTORE_MESSAGE_TABLE" "sd_prop_index (sample_sent cns out) = message_index sample_properties no_index"
  "(sample_sent cns out)\<lparr>sd_cnset_seen := cns'\<rparr> = sample_sent cns' out" "(sample_sent cns out)\<lparr>sd_out := out'\<rparr> = sample_sent cns out'"
  by (simp_all add: sample_sent_def sync_start_def)

lemma sample_note:
  "note_eid sample_env 0x50001
      \<lparr>rw_sc = sample_context\<lparr>sync_stage := Suc 0, total_objects := 1\<rparr>, 
       rw_sd = (sync_start sample_env sample_context)\<lparr>sd_cnset_seen := cns\<rparr>, rw_index = ix, rw_changed = b, rw_guid = None\<rparr> =
   Ok \<lparr>rw_sc = sample_context\<lparr>sync_stage := Suc 0, total_objects := 1\<rparr>, rw_sd = sample_sent cns out_empty, rw_index = ix, rw_changed = b, rw_guid = Some 7\<rparr>"
  by (simp add: note_eid_def sync_start_def globcnt_of_def push_first sample_sent_def del: obind_eq_Ok_iff)

lemma is_sharing_sample: "is_sharing tt sample_properties vals = Ok False"
  by (simp add: is_sharing_def sample_properties_def del: obind_eq_Ok_iff)

lemma sample_message_values: "sc_properties (rw_sc w) = sample_properties \<Longrightarrow> sd_table_type (rw_sd w) = MAPISTORE_MESSAGE_TABLE \<Longrightarrow>
   message_values sample_env m w = Ok (Some (sample_properties, sample_values), w)"
  by (simp add: message_values_def table_properties_def is_sharing_sample del: obind_eq_Ok_iff)

lemma sample_message_change:
  obtains out where "message_change sample_env 0x50001 () None sample_properties sample_values
      \<lparr>rw_sc = sample_context\<lparr>sync_stage := 1, total_objects := 1\<rparr>, rw_sd = sample_sent [RAWIDSET_make lib128 False True] out_empty,
        rw_index = message_index sample_properties no_index, rw_changed = False, rw_guid = Some 7\<rparr> =
    Ok \<lparr>rw_sc = sample_context\<lparr>sync_stage := 1, total_objects := 1, sent_objects := 1\<rparr>, rw_sd = sample_sent sample_cns out,
        rw_index = message_index sample_properties no_index, rw_changed = False, rw_guid = Some 7\<rparr>"
    and "length (fx_bytes out) = 139"
proof -
  let ?sk = "le_bytes 16 (7 :: 128 word) @ counter_bytes 6 5"
  let ?sd = "sample_sent sample_cns out_empty"
  have "length ?sk = 22" by (simp add: eval_nat_numeral)
  then obtain out where out: "push_message sample_env (sample_header ?sk) sample_properties sample_values sample_properties () None ?sd =
    Ok (?sd\<lparr>sd_out := out\<rparr>)" "length (fx_bytes out) = length (fx_bytes (sd_out ?sd)) + 139" by (rule sample_message)
  have t: "header_time sample_env (message_index sample_properties no_index) sample_values = Ok (FxSysTime (3, 4))" "header_cn (message_index sample_properties no_index) sample_values = Ok 9"
    by (simp_all add: header_time_def header_cn_def sample_index sample_values_def rd_def globcnt_of_def)
  show thesis
  proof (rule that)
   show "length (fx_bytes out) = 139" using out(2) by (simp add: out_empty_def)
  qed (use out(1) t in \<open>simp add: message_change_def source_key Let_def original_cnset_seen_def IDSET_includes_guid_glob_def push_first header del: obind_eq_Ok_iff\<close>)
qed

lemma sample_table:
  obtains out where "oxcfxics_push_messageChange sample_env (sample_context\<lparr>sync_stage := 1\<rparr>)
    ((sync_start sample_env sample_context)\<lparr>sd_cnset_seen := [RAWIDSET_make lib128 False True]\<rparr>) =
     Ok (True, sample_context\<lparr>sync_stage := 1, total_objects := 1, sent_objects := 1\<rparr>, sample_sent sample_cns out)"
  and "length (fx_bytes out) = 139"
proof -
  obtain out where o: "message_change sample_env 0x50001 () None sample_properties sample_values
      \<lparr>rw_sc = sample_context\<lparr>sync_stage := 1, total_objects := 1\<rparr>, rw_sd = sample_sent [RAWIDSET_make lib128 False True] out_empty,
        rw_index = message_index sample_properties no_index, rw_changed = False, rw_guid = Some 7\<rparr> =
    Ok \<lparr>rw_sc = sample_context\<lparr>sync_stage := 1, total_objects := 1, sent_objects := 1\<rparr>, rw_sd = sample_sent sample_cns out,
        rw_index = message_index sample_properties no_index, rw_changed = False, rw_guid = Some 7\<rparr>"
    and l: "length (fx_bytes out) = 139" by (rule sample_message_change)
  have "message_row sample_env (0x50001, 0x90001) \<lparr>rw_sc = sample_context\<lparr>sync_stage := 1, total_objects := 1\<rparr>, 
       rw_sd = (sync_start sample_env sample_context)\<lparr>sd_cnset_seen := [RAWIDSET_make lib128 False True]\<rparr>, rw_index = message_index sample_properties no_index, rw_changed = False, rw_guid = None\<rparr> =
     Ok \<lparr>rw_sc = sample_context\<lparr>sync_stage := 1, total_objects := 1, sent_objects := 1\<rparr>, rw_sd = sample_sent sample_cns out,
        rw_index = message_index sample_properties no_index, rw_changed = False, rw_guid = Some 7\<rparr>"
    using o by (simp add: message_row_def sample_note sample_message_values original_cnset_seen_def IDSET_includes_guid_glob_def del: obind_eq_Ok_iff)
  then show thesis
    using l by (intro that [of out]) (simp_all add: oxcfxics_push_messageChange_def open_message_table_def oxcfxics_table_set_cn_restriction_def
       sync_start_def original_cnset_seen_def out_empty_def max_message_sync_size_def fetch_deleted_def sample_sent_def sample_context_def del: obind_eq_Ok_iff)
qed


lemma qsort_single: "qsort c [x] = [x]"
  by (simp add: qsort_def)

lemma convert_single: "GUID_all_zero lib128 g = (g = 0)"
  by (simp add: lib128_def)

definition seen_single :: "bool \<Rightarrow> u64 \<Rightarrow> 128 word idset list" where
  "seen_single s x = [\<lparr>repl = ReplGuid 7, single = s, range_count = 1, ranges = [\<lparr>low = x, high = x\<rparr>]\<rparr>]"

lemma conv: "RAWIDSET_convert_to_idset lib128 [\<lparr>raw_repl = ReplGuid (7 :: 128 word), raw_single = s, globcnts = [x], max_count = n\<rparr>] = seen_single s x"
  by (simp add: RAWIDSET_convert_to_idset_def IDSET_make_def qsort_single convert_single seen_single_def)
lemma merge: "IDSET_merge_idsets lib128 [] (seen_single s x) = Ok (seen_single s x)"
  by (simp add: IDSET_merge_idsets_def IDSET_clone_def seen_single_def)

lemma seen_bytes: "length (IDSET_serialize lib128 (seen_single s 9)) < 40" "length (IDSET_serialize lib128 (seen_single s 5)) < 40"
proof -
  have "length (GLOBSET_ndr_push_globset_range \<lparr>low = 9, high = 9\<rparr>) < 20" "length (GLOBSET_ndr_push_globset_range \<lparr>low = 5, high = 5\<rparr>) < 20" by code_simp+
  then show "length (IDSET_serialize lib128 (seen_single s 9)) < 40" "length (IDSET_serialize lib128 (seen_single s 5)) < 40" 
   by (simp_all add: IDSET_serialize_def seen_single_def GLOBSET_serialize_def lib128_def)
qed

lemma fxlib128_binary: "ndr_push_Binary_r fxlib128 bs = le_bytes 4 (of_nat (length bs) :: u32) @ bs"
  by (simp add: fxlib128_def)

lemma sample_chunk:
  obtains sc' out where "make_chunk sample_env sample_context = Ok (sc', out)" and "sync_stage sc' = 4" and "cnset_seen sc' = seen_single True 9"
    and "idset_given sc' = seen_single False 5" and "length (fx_bytes out) < 1000"
proof -
  let ?sc = "sample_context\<lparr>sync_stage := 1, total_objects := 1, sent_objects := 1\<rparr>"
  let ?sd = "(sync_start sample_env sample_context)\<lparr>sd_cnset_seen := [RAWIDSET_make lib128 False True]\<rparr>"
  obtain out where t: "oxcfxics_push_messageChange sample_env (sample_context\<lparr>sync_stage := 1\<rparr>) ?sd = Ok (True, ?sc, sample_sent sample_cns out)"
    and l: "length (fx_bytes out) = 139" by (rule sample_table)
  have "sd_rows (sync_start sample_env sample_context) = None" by (simp add: sync_start_def)
  have 1: "sync_normal sample_env (sample_context\<lparr>sync_stage := 1\<rparr>, sync_start sample_env sample_context) = 
     Ok (?sc\<lparr>cnset_seen := seen_single True 9, sync_stage := 2\<rparr>, sample_sent sample_cns out)"
    using t by (simp add: sync_normal_def push_table_def conv merge sync_start_def del: obind_eq_Ok_iff)
  have 2: "sync_fai sample_env (?sc\<lparr>cnset_seen := seen_single True 9, sync_stage := 2\<rparr>, sd) = Ok (?sc\<lparr>cnset_seen := seen_single True 9, sync_stage := 3\<rparr>, sd)" for sd
    by (simp add: sync_fai_def)
  have 3: "push_deletions sample_env sc (sample_sent sample_cns out) = Ok (sc, sample_sent sample_cns out)" for sc
    by (simp add: push_deletions_def raw_count_positive_def sample_sent_def sync_start_def RAWIDSET_make_def)
  have 4: "sd_eid_set (sample_sent sample_cns out) = [\<lparr>raw_repl = ReplGuid 7, raw_single = False, globcnts = [5], max_count = 256\<rparr>]" by (simp add: sample_sent_def)
  let ?sc2 = "?sc\<lparr>cnset_seen := seen_single True 9, sync_stage := 3\<rparr>"
  obtain out' where 5: "push_state sample_env ?sc2 (sample_sent sample_cns out) = Ok (?sc2\<lparr>idset_given := seen_single False 5\<rparr>, sample_sent sample_cns out')" and "length (fx_bytes out') < 1000"
    using l seen_bytes [of True] seen_bytes [of False] by (simp add: push_state_def 4 conv merge del: obind_eq_Ok_iff) (simp add: push_marker_def push_marked_idset_def ndr_push_idset_def push_bytes_def push_mark_def fxlib128_simps fxlib128_binary)
  with 1 2 3 show thesis
    by (intro that) (simp add: make_chunk_def sync_finish_def del: obind_eq_Ok_iff, simp_all)
qed

end
