(* ===== verification/Oxcfxics_Delivery.thy ===== *)
theory Oxcfxics_Delivery
  imports Oxcfxics_Sample
begin

text \<open>
  What a client gets from the download of a folder's changes
  (\<^verbatim>\<open>src/mapiproxy/servers/default/emsmdb/oxcfxics.c\<close>): the number of chunks is finite, and the
  buffers that it is sent are the chunks, in order and complete.
\<close>

section \<open>The number of chunks\<close>

text \<open>C18 The stages of a download end: however many messages there are and whatever the backends
  answer, finitely many chunks reach the last stage, or one of them fails.\<close>

theorem sync_chunks_end:
  assumes "sync_stage sc = 0"
  shows "\<exists>n r. sync_chunks (make_chunk V) n sc = Some r"
  using assms by (intro sync_chunks_exist) (simp add: in_progress_def)

theorem sync_chunks_end_witness:
  "sync_stage sample_context = 0 \<and> (\<exists>n r. sync_chunks (make_chunk sample_env) n sample_context = Some r)"
  using sync_chunks_end [of sample_context sample_env] by (simp add: sample_context_def)

section \<open>The buffers\<close>

text \<open>C3 A client that asks often enough, for any sizes that fit in 16 bits, gets all of the chunks:
  its buffers put together are the chunks put together, none is longer than asked for, and the last one says that the
  transfer is done. None of the \<^verbatim>\<open>abort()\<close> calls of the code that cuts the buffers is reached.\<close>

theorem sync_download_delivers:
  assumes "fx_laws (sy_lib V)" and "contents_mode (sc_request sc)" and "sync_stage sc = 0"
    and "sync_chunks (make_chunk V) k sc = Some (Ok outs)" and "list_all chunk_small outs"
    and "list_all req_ok ns" and "sum_list (map chunk_weight outs) < length ns"
  shows "\<exists>rs x'. sync_download V F depth f (sync_open sc) ns = Ok (rs, x') \<and> rs \<noteq> [] \<and>
    TransferStatus (last rs) = TransferStatus_Done \<and> concat (map TransferBuffer rs) = concat (map fx_bytes outs) \<and>
    list_all2 (\<lambda>r n. length (TransferBuffer r) \<le> unat n) rs (take (length rs) ns)"
proof -
  have "sync_inv (sync_open sc)" using assms(2,3) by (simp add: sync_inv_def sync_open_def)
  moreover have "rest_of (make_chunk V) (sync_context (sync_open sc)) outs"
    using sync_chunks_rest_of [OF assms(4,5)] by (simp add: sync_open_def)
  moreover have "sync_measure (sync_open sc) outs < length ns" using assms(7) by (simp add: sync_measure_def sync_open_def)
  ultimately show ?thesis
    using sync_download_pieces [OF assms(1) _ _ assms(6)] by (fastforce simp: pending_def sync_open_def)
qed

theorem sync_download_delivers_witness:
  "\<exists>outs ns. sync_chunks (make_chunk sample_env) 1 sample_context = Some (Ok outs) \<and> outs \<noteq> [] \<and>
    (\<forall>F :: (128 word, unit) folder_env. \<exists>rs x'. sync_download sample_env F 0 () (sync_open sample_context) ns = Ok (rs, x') \<and>
      concat (map TransferBuffer rs) = concat (map fx_bytes outs))"
proof -
  obtain sc' out where c: "make_chunk sample_env sample_context = Ok (sc', out)" "sync_stage sc' = 4" "length (fx_bytes out) < 1000"
    by (rule sample_chunk)
  have s: "sync_chunks (make_chunk sample_env) 1 sample_context = Some (Ok [out])"
    using c by (simp add: sync_chunks.simps)
  let ?ns = "replicate (chunk_weight out + 1) (100 :: u32)"
  have h: "fx_laws (sy_lib sample_env)" "contents_mode (sc_request sample_context)" "sync_stage sample_context = 0"
    by (simp_all add: fx_laws_fxlib128)
  have r: "list_all req_ok ?ns" by (simp add: list_all_iff req_ok_def)
  have w: "sum_list (map chunk_weight [out]) < length ?ns" by simp
  have o: "list_all chunk_small [out]" using c(3) by (simp add: chunk_small_def)
  have "\<exists>rs x'. sync_download sample_env F 0 () (sync_open sample_context) ?ns = Ok (rs, x') \<and>
      concat (map TransferBuffer rs) = concat (map fx_bytes [out])" for F :: "(128 word, unit) folder_env"
    using sync_download_delivers [OF h s o r w, of F 0 "()"] by blast
  with s show ?thesis by blast
qed

section \<open>Where it fails\<close>

lemma push_properties_fail:
  assumes "p \<in> set ps" and "\<And>out. yields (push_property G nprops p out) (\<lambda>out'. False)"
  shows "yields (oxcfxics_ndr_push_properties G nprops ps out) (\<lambda>out'. False)"
  using assms(1)
proof (induction ps arbitrary: out)
  case (Cons q ps)
  show ?case
  proof (cases "q = p")
    case True
    then show ?thesis using yields_bind [OF assms(2)] by simp
  next
    case False
    with Cons show ?thesis by (auto intro: yields_bind_any)
  qed
qed simp

text \<open>A message whose size is missing stops the server: the header takes the size for present when the identifier of the message
  is, and the null pointer in its place is followed.\<close>

theorem missing_size_stops:
  assumes "request_message_size (sc_request sc)" and "rd vals (ix_message_size ix) = Ok (MAPI_E_NOT_FOUND, FxNullPtr)"
    and "rd vals (ix_parent_fid ix) = Ok (MAPI_E_SUCCESS, v)" and "message_header (sc_request sc) ix eid cn source_key lm_time vals = Ok header"
  shows "\<forall>sd'. push_message V header ptags vals properties message msg sd \<noteq> Ok sd'"
proof -
  have m: "(PidTagMessageSize, MAPI_E_SUCCESS, FxNullPtr) \<in> set header"
    using assms by (auto simp: message_header_def header_size_def)
  have f: "yields (push_property (sy_lib V) (sy_nprops V) (PidTagMessageSize, MAPI_E_SUCCESS, FxNullPtr) out) (\<lambda>out'. False)" for out
    by (simp add: push_property_def push_value_def push_simps prop_type_def)
  have "yields (push_message V header ptags vals properties message msg sd) (\<lambda>sd'. False)"
    unfolding push_message_def Let_def by (rule yields_bind [OF push_properties_fail [OF m f]]) simp
  then show ?thesis by (simp add: yields_def)
qed

theorem missing_size_stops_witness:
  "\<exists>header. message_header sample_request (message_index sample_properties no_index) 0x50001 9 [] (FxSysTime (3, 4))
      (sample_values[2 := (MAPI_E_NOT_FOUND, FxNullPtr)]) = Ok header \<and>
    (\<forall>sd'. push_message sample_env header sample_properties (sample_values[2 := (MAPI_E_NOT_FOUND, FxNullPtr)]) sample_properties () None
      (sample_sent [] out_empty) \<noteq> Ok sd')"
proof -
  let ?vals = "sample_values[2 := (MAPI_E_NOT_FOUND, FxNullPtr)]"
  obtain header where "message_header sample_request (message_index sample_properties no_index) 0x50001 9 [] (FxSysTime (3, 4)) ?vals = Ok header"
    by (simp add: message_header_def header_keys_def header_size_def sample_index rd_def sample_values_def sample_request_def)
  then show ?thesis
    using missing_size_stops [of sample_context ?vals "message_index sample_properties no_index" "FxI8 0x50001" "0x50001" 9 "[]" "FxSysTime (3, 4)" header
        sample_env sample_properties sample_properties "()" None "sample_sent [] out_empty"]
    by (simp add: sample_index rd_def sample_values_def) (simp add: sample_request_def)
qed

text \<open>The cutmarks before the position are counted from it backwards.\<close>

lemma cutmark_loop_behind:
  assumes "\<forall>m \<in> set ms. snd m < lim" and "ms' = [] \<or> lim \<le> snd (hd ms')" and "lim < 2 ^ 32 - 1" and "ms' = [] \<or> snd (hd ms') < 2 ^ 32 - 1"
  shows "cutmark_loop (xs @ mark_array (ms @ ms')) pos (of_nat lim) (length xs + 1) b =
    Ok (length xs + 2 * length ms + 1, if ms = [] then b else of_nat (snd (last ms)) - of_nat pos)"
  using assms(1)
proof (induction ms arbitrary: xs b)
  case Nil
  have l: "unat (of_nat lim :: u32) = lim" using assms(3) by (simp add: unat_of_nat)
  show ?case
  proof (cases ms')
    case (Cons m ns)
    then have "unat (of_nat (snd m) :: u32) = snd m" "lim \<le> snd m" using assms(2,4) by (auto simp: unat_of_nat)
    then have "\<not> (of_nat (snd m) :: u32) < of_nat lim" using l by (simp add: word_less_nat_alt)
    with Cons show ?thesis by (subst cutmark_loop.simps) (auto simp: mark_array_def nth_append split: prod.splits)
  qed (subst cutmark_loop.simps, simp add: mark_array_def nth_append)
next
  case (Cons m ms)
  obtain a p where m: "m = (a, p)" by (cases m)
  have p: "p < lim" using Cons.prems m by simp
  have u: "unat (of_nat p :: u32) = p" "unat (of_nat lim :: u32) = lim" using p assms(3) by (simp_all add: unat_of_nat)
  then have lt: "(of_nat p :: u32) < of_nat lim" using p by (simp add: word_less_nat_alt)
  have "(of_nat p :: u32) \<noteq> 0xffffffff"
  proof
    assume "(of_nat p :: u32) = 0xffffffff"
    then have "unat (of_nat p :: u32) = unat (0xffffffff :: u32)" by simp
    then show False using u p assms(3) by simp
  qed
  then have "cutmark_loop (xs @ mark_array ((m # ms) @ ms')) pos (of_nat lim) (length xs + 1) b =
      cutmark_loop ((xs @ [a, of_nat p]) @ mark_array (ms @ ms')) pos (of_nat lim) (length (xs @ [a, of_nat p]) + 1) (of_nat p - of_nat pos)"
    using lt m by (subst cutmark_loop.simps) (simp add: mark_array_def nth_append)
  also have "\<dots> = Ok (length xs + 2 * length (m # ms) + 1, of_nat (snd (last (m # ms))) - of_nat pos)"
    using Cons.IH [of "xs @ [a, of_nat p]"] Cons.prems m by simp
  finally show ?case by simp
qed

text \<open>The first buffer of a hierarchy is cut without a look at the cutmarks. If it goes beyond a cutmark, and the next one is
  beyond the second buffer, the size of the second one is computed from the cutmark behind: it wraps, and the client gets
  everything that is left in one buffer, whatever size it asked for.\<close>

theorem hierarchy_overlong:
  assumes "\<not> contents_mode (sc_request (sync_context x))" and "sc_buf x = []" and "prepare x = Ok (send_chunk sc out)"
    and "\<not> contents_mode (sc_request sc)" and "length (fx_bytes out) < 2 ^ 31" and "unat r1 + unat r2 < length (fx_bytes out)"
    and "fx_marks out = concat (map (\<lambda>(m, p). [m, of_nat p]) (ms @ ms'))" and "ms \<noteq> []" and "\<forall>m \<in> set ms. snd m < unat r1"
    and "ms' = [] \<or> unat r1 + unat r2 \<le> snd (hd ms') \<and> snd (hd ms') < 2 ^ 31"
  shows "\<exists>x1 x2. sync_buffer fill prepare r1 x = Ok (False, take (unat r1) (fx_bytes out), x1) \<and>
    sync_buffer fill prepare r2 x1 = Ok (False, drop (unat r1) (fx_bytes out), x2) \<and> unat r2 < length (drop (unat r1) (fx_bytes out))"
proof -
  let ?y = "send_chunk sc out"
  let ?x1 = "?y\<lparr>sc_stream := (sc_stream ?y)\<lparr>spos := unat r1\<rparr>\<rparr>"
  let ?n = "of_nat (snd (last ms)) - of_nat (unat r1) :: u32"
  have r: "unat r1 < length (fx_bytes out)" "unat r1 + unat r2 < 2 ^ 31" using assms(5,6) by simp_all
  have first: "sync_buffer fill prepare r1 x = Ok (False, take (unat r1) (fx_bytes out), ?x1)"
    using assms(1-3,5) r(1) by (simp add: sync_buffer_def response_hierarchy_def sc_read)
  have marks: "sc_cutmarks ?x1 = mark_array (ms @ ms')" using assms(7) by (simp add: mark_array_def)
  have lim: "(of_nat (unat r1) + r2 :: u32) = of_nat (unat r1 + unat r2)" by simp
  have below: "\<forall>m \<in> set ms. snd m < unat r1 + unat r2" using assms(9) by fastforce
  have "cutmark_loop (mark_array (ms @ ms')) (unat r1) (of_nat (unat r1 + unat r2)) 1 r2 = Ok (2 * length ms + 1, ?n)"
    using cutmark_loop_behind [OF below, of ms' "[]" "unat r1" r2] assms(8,10) r(2) by auto
  moreover have big: "2 ^ 31 \<le> unat ?n"
  proof -
    have p: "snd (last ms) < unat r1" using assms(8,9) by simp
    then have "?n = of_nat (snd (last ms) + 2 ^ 32 - unat r1)" using r(2) by (simp add: of_nat_diff)
    then have "unat ?n = snd (last ms) + 2 ^ 32 - unat r1" using p r(2) by (simp only: unat_of_nat) simp
    then show ?thesis using r(2) by simp
  qed
  moreover have "\<not> ?n < r2" using big r(2) by (simp add: word_less_nat_alt)
  ultimately have cut: "cut_buffer (sc_cutmarks ?x1) 1 (unat r1) r2 = Ok (?n, 2 * length ms + 1)"
    unfolding marks cut_buffer_def lim by simp
  have len: "length (fx_bytes out) - unat r1 \<le> unat ?n" using big assms(5) by simp
  have "sync_buffer fill prepare r2 ?x1 = response_within r2 ?x1" using assms(6) by (simp add: sync_buffer_def)
  also have "\<dots> = obind (sc_read (?x1\<lparr>sc_next_cutmark_idx := 2 * length ms + 1\<rparr>) ?n) (\<lambda>(bs, x2). Ok (False, bs, x2))"
    using cut by (simp add: response_within_def oxcfxics_advance_cutmarks_def)
  also have "\<dots> = Ok (False, drop (unat r1) (fx_bytes out),
      (?x1\<lparr>sc_next_cutmark_idx := 2 * length ms + 1\<rparr>)\<lparr>sc_stream := (sc_stream ?y)\<lparr>spos := length (fx_bytes out)\<rparr>\<rparr>)"
    using r(1) assms(5) len by (subst sc_read) simp_all
  finally show ?thesis using first assms(6) by force
qed

text \<open>A stream of 100 bytes with cutmarks at 4 and 90, of which 10 and then 20 bytes are asked for.\<close>

theorem hierarchy_overlong_witness:
  "\<exists>x1 x2. sync_buffer (\<lambda>_. Abort)
      (\<lambda>_. Ok (send_chunk (sample_context\<lparr>sc_request := sample_request\<lparr>contents_mode := False\<rparr>\<rparr>) \<lparr>fx_bytes = replicate 100 7, fx_marks = [0, 4, 0, 90]\<rparr>))
      10 (sync_open (sample_context\<lparr>sc_request := sample_request\<lparr>contents_mode := False\<rparr>\<rparr>)) = Ok (False, replicate 10 7, x1) \<and>
    sync_buffer (\<lambda>_. Abort)
      (\<lambda>_. Ok (send_chunk (sample_context\<lparr>sc_request := sample_request\<lparr>contents_mode := False\<rparr>\<rparr>) \<lparr>fx_bytes = replicate 100 7, fx_marks = [0, 4, 0, 90]\<rparr>))
      20 x1 = Ok (False, replicate 90 7, x2)"
proof -
  let ?sc = "sample_context\<lparr>sc_request := sample_request\<lparr>contents_mode := False\<rparr>\<rparr>"
  have "\<exists>x1 x2. sync_buffer (\<lambda>_. Abort) (\<lambda>_. Ok (send_chunk ?sc \<lparr>fx_bytes = replicate 100 7, fx_marks = [0, 4, 0, 90]\<rparr>)) 10 (sync_open ?sc) =
      Ok (False, take (unat (10 :: u32)) (fx_bytes \<lparr>fx_bytes = replicate 100 7, fx_marks = [0, 4, 0, 90]\<rparr>), x1) \<and>
    sync_buffer (\<lambda>_. Abort) (\<lambda>_. Ok (send_chunk ?sc \<lparr>fx_bytes = replicate 100 7, fx_marks = [0, 4, 0, 90]\<rparr>)) 20 x1 =
      Ok (False, drop (unat (10 :: u32)) (fx_bytes \<lparr>fx_bytes = replicate 100 7, fx_marks = [0, 4, 0, 90]\<rparr>), x2) \<and>
    unat (20 :: u32) < length (drop (unat (10 :: u32)) (fx_bytes \<lparr>fx_bytes = replicate 100 7, fx_marks = [0, 4, 0, 90]\<rparr>))"
    by (rule hierarchy_overlong [where sc = ?sc and ms = "[(0, 4)]" and ms' = "[(0, 90)]"]) (simp_all add: sync_open_def)
  then show ?thesis by (simp del: send_chunk_fields)
qed

end
