(* ===== verification/Oxcfxics_Resync.thy ===== *)
theory Oxcfxics_Resync
  imports Oxcfxics_Sample Idset_Merge
begin

unbundle bit_operations_syntax

text \<open>
  What a client has seen (\<^verbatim>\<open>src/mapiproxy/servers/default/emsmdb/oxcfxics.c\<close>): the change numbers of the messages of a
  table are in the set of change numbers that the client is given at the end, and a synchronization with this set
  sends none of them again.
\<close>

section \<open>Sets of change numbers of one replica\<close>

text \<open>The sets of change numbers that are exchanged have one range, for the replica of the mailbox.\<close>

definition own_set :: "'g \<Rightarrow> 'g idset list \<Rightarrow> bool" where
  "own_set g ss \<longleftrightarrow> ss = [] \<or> (\<exists>s r. ss = [s] \<and> repl s = ReplGuid g \<and> single s \<and> range_count s = 1 \<and> ranges s = [r] \<and>
     wf_range r \<and> ordered r)"

lemma own_set_includes:
  assumes "samba_laws G" and "repl s = ReplGuid g"
  shows "IDSET_includes_guid_glob G [s] (Some g) x \<longleftrightarrow> ranges_include (ranges s) x"
  using assms by (auto simp: IDSET_includes_guid_glob_def samba_laws_def)

lemma includes_Nil [simp]: "\<not> IDSET_includes_guid_glob G [] g x"
  by (simp add: IDSET_includes_guid_glob_def)

lemma reorder_compact_pair:
  assumes "ranges s = [a, b]" and "range_count s = 2" and "single s" and wf: "wf_range a" "wf_range b" "ordered a" "ordered b"
  shows "\<exists>s' r. reorder_and_compact [s] = Ok [s'] \<and> repl s' = repl s \<and> single s' \<and> range_count s' = 1 \<and> ranges s' = [r] \<and>
    wf_range r \<and> ordered r \<and> (\<forall>x. ranges_include [a, b] x \<longrightarrow> in_range r x)"
proof -
  let ?q = "qsort IDSET_range_compar [a, b]"
  have "mset ?q = mset [a, b]" by (rule mset_qsort)
  then have q: "length ?q = 2" "set ?q = {a, b}" using mset_eq_length mset_eq_setD by fastforce+
  obtain c d where cd: "?q = [c, d]" by (cases "IDSET_range_compar a b \<le> 0") (simp_all add: qsort_def)
  have "in_range (compact_single c [d]) x" if "ranges_include [a, b] x" for x
  proof -
    have "ranges_include [c, d] x" using that q(2) unfolding cd ranges_include_iff by simp
    then show ?thesis by (rule compact_single_include)
  qed
  moreover have "wf_range (compact_single c [d]) \<and> ordered (compact_single c [d])"
  proof -
    have "c \<in> {a, b}" "d \<in> {a, b}" using q(2) unfolding cd by auto
    then have "wf_range c" "wf_range d" "ordered c" "ordered d" using wf by auto
    then show ?thesis by (auto simp: Let_def wf_range_def)
  qed
  ultimately show ?thesis using assms cd
    by (simp add: IDSET_reorder_ranges_def IDSET_compact_ranges_def)
qed

text \<open>Joining two such sets gives one that includes both.\<close>

lemma merge_own_sets:
  assumes G: "samba_laws G" and "own_set g l" and "own_set g r"
  shows "\<exists>m. IDSET_merge_idsets G l r = Ok m \<and> own_set g m \<and>
    (\<forall>x. IDSET_includes_guid_glob G l (Some g) x \<or> IDSET_includes_guid_glob G r (Some g) x \<longrightarrow> IDSET_includes_guid_glob G m (Some g) x)"
proof (cases "l = [] \<or> r = []")
  case True
  with assms(2,3) show ?thesis by (auto simp: IDSET_merge_idsets_def own_set_def)
next
  case False
  with assms(2,3) obtain s a t b where s: "l = [s]" "repl s = ReplGuid g" "single s" "range_count s = 1" "ranges s = [a]"
      "wf_range a" "ordered a"
    and t: "r = [t]" "repl t = ReplGuid g" "range_count t = 1" "ranges t = [b]" "wf_range b" "ordered b" by (auto simp: own_set_def)
  have q: "IDSET_reorder_idset G [s, t] = [s, t]"
    using samba_compare(1) [OF G, of g g] s(2) t(2) by (simp add: IDSET_reorder_idset_def qsort_def IDSET_GUID_compar_def)
  let ?u = "s\<lparr>range_count := 2, ranges := [a, b]\<rparr>"
  have "same_id G False (repl s) (repl t)" using G s(2) t(2) by (simp add: same_id_def samba_laws_def)
  then have "IDSET_merge_idsets G l r = reorder_and_compact [?u]"
    using s t q by (simp add: IDSET_merge_idsets_def Let_def)
  with reorder_compact_pair [of ?u a b] s t obtain s' c where
    "IDSET_merge_idsets G l r = Ok [s']" "repl s' = ReplGuid g" "single s'" "range_count s' = 1" "ranges s' = [c]" "wf_range c" "ordered c"
    "\<forall>x. ranges_include [a, b] x \<longrightarrow> in_range c x" by auto
  then show ?thesis using s t by (auto simp: own_set_def own_set_includes [OF G] in_range_def split: if_splits)
qed

section \<open>Collecting change numbers\<close>

definition own_raw :: "'g samba_lib \<Rightarrow> 'g \<Rightarrow> u64 list \<Rightarrow> 'g rawidset list \<Rightarrow> bool" where
  "own_raw G g xs raw \<longleftrightarrow> (\<exists>r. raw = [r] \<and> raw_single r \<and> globcnts r = xs \<and> length xs \<le> max_count r \<and>
     list_all (\<lambda>x. take_bit 48 x = x) xs \<and>
     (if xs = [] then raw_repl r = ReplGuid (GUID_zero G) else raw_repl r = ReplGuid g))"

lemma own_raw_make: "own_raw G g [] [RAWIDSET_make G False True]"
  by (simp add: own_raw_def RAWIDSET_make_def)

lemma raw_append_result: "length (globcnts r) \<le> max_count r \<Longrightarrow>
    \<exists>m. length (globcnts r) < m \<and> raw_append r x = Ok (r\<lparr>globcnts := globcnts r @ [x], max_count := m\<rparr>)"
  by (cases "max_count r < Suc (length (globcnts r))")
    (auto simp: raw_append_def Let_def intro: exI [of _ "max_count r + 256"] exI [of _ "max_count r"])

lemma counter_bits: "(x :: u64) AND 0xffff000000000000 = 0 \<Longrightarrow> take_bit 48 x = x"
proof -
  assume x: "x AND 0xffff000000000000 = 0"
  have "(0xffff000000000000 :: u64) = NOT (mask 48)" by (simp add: mask_eq_exp_minus_1)
  with x have "x AND NOT (mask 48) = 0" by simp
  moreover have "x = (x AND mask 48) OR (x AND NOT (mask 48))" by (rule bit_word_eqI) (auto simp: bit_simps)
  ultimately have "x = x AND mask 48" by (metis or.right_neutral)
  then show ?thesis by (simp add: take_bit_eq_mask)
qed

lemma own_raw_push:
  assumes "samba_laws G" and "own_raw G g xs raw"
  shows "yields (RAWIDSET_push_guid_glob G raw g x) (own_raw G g (xs @ [x]))"
proof -
  from assms(2) obtain r where r: "raw = [r]" "raw_single r" "globcnts r = xs" "length xs \<le> max_count r"
    "list_all (\<lambda>x. take_bit 48 x = x) xs" "if xs = [] then raw_repl r = ReplGuid (GUID_zero G) else raw_repl r = ReplGuid g" by (auto simp: own_raw_def)
  let ?r = "r\<lparr>raw_repl := ReplGuid g\<rparr>"
  obtain m where m: "length xs < m" "raw_append ?r x = Ok (?r\<lparr>globcnts := xs @ [x], max_count := m\<rparr>)"
    using raw_append_result [of ?r x] r by auto
  have eq: "GUID_equal G a b = (a = b)" for a b using assms(1) by (simp add: samba_laws_def)
  have "RAWIDSET_push_guid_glob G raw g x = Abort \<or> take_bit 48 x = x \<and> RAWIDSET_push_guid_glob G raw g x = raw_append_at [?r] 0 x"
    using r by (cases "GUID_zero G = g"; cases "xs = []"; cases r)
      (simp_all add: RAWIDSET_push_guid_glob_def RAWIDSET_find_by_GUID_def eq counter_bits)
  moreover have "raw_append_at [?r] 0 x = Ok [?r\<lparr>globcnts := xs @ [x], max_count := m\<rparr>]"
    using m(2) by (simp add: raw_append_at_def)
  moreover have "own_raw G g (xs @ [x]) [?r\<lparr>globcnts := xs @ [x], max_count := m\<rparr>]" if "take_bit 48 x = x"
    using r m(1) that by (simp add: own_raw_def)
  ultimately show ?thesis by fastforce
qed

lemma own_raw_convert:
  assumes G: "samba_laws G" and "own_raw G g xs raw" and "\<not> GUID_all_zero G g"
  shows "own_set g (RAWIDSET_convert_to_idset G raw) \<and>
    (\<forall>x \<in> set xs. IDSET_includes_guid_glob G (RAWIDSET_convert_to_idset G raw) (Some g) x)"
proof (cases "xs = []")
  case False
  with assms(2,3) obtain r where r: "raw = [r]" "raw_single r" "globcnts r = xs" "raw_repl r = ReplGuid g"
    "list_all (\<lambda>x. take_bit 48 x = x) xs" by (auto simp: own_raw_def)
  then have c: "RAWIDSET_convert_to_idset G raw = [IDSET_make (ReplGuid g) xs True]"
    using False assms(3) by (simp add: RAWIDSET_convert_to_idset_def)
  let ?w = "qsort IDSET_globcnt_compar xs"
  have "mset ?w = mset xs" by (rule mset_qsort)
  then have w: "?w \<noteq> []" "set ?w = set xs" using False mset_eq_setD by auto
  then have ends: "hd ?w \<in> set xs" "last ?w \<in> set xs" by (metis hd_in_set, metis last_in_set)
  have "exchange_globcnt (hd ?w) \<le> exchange_globcnt (last ?w)"
    using sorted_work_array [of xs] w(1) by (cases ?w) auto
  with ends r(5) have "own_set g [IDSET_make (ReplGuid g) xs True]"
    using False by (simp add: own_set_def IDSET_make_def Let_def wf_range_def list_all_iff)
  moreover have "IDSET_includes_guid_glob G [IDSET_make (ReplGuid g) xs True] (Some g) x" if "x \<in> set xs" for x
    using that False by (subst own_set_includes [OF G]) (simp_all add: IDSET_make_covers, simp add: IDSET_make_def Let_def)
  ultimately show ?thesis unfolding c by blast
qed (use assms(2) in \<open>auto simp: own_raw_def RAWIDSET_convert_to_idset_def own_set_def\<close>)

text \<open>Such a set is a span: it includes whatever is between two change numbers that it includes.\<close>

lemma own_set_span:
  assumes G: "samba_laws G" and "own_set g ss" and "IDSET_includes_guid_glob G ss (Some g) a" "IDSET_includes_guid_glob G ss (Some g) b"
    and between: "exchange_globcnt a \<le> exchange_globcnt x" "exchange_globcnt x \<le> exchange_globcnt b"
  shows "IDSET_includes_guid_glob G ss (Some g) x"
  using assms(2-4) between by (auto simp: own_set_def own_set_includes [OF G] in_range_def split: if_splits)

section \<open>The rows of a table\<close>

text \<open>A message whose values can be fetched, with the change number that the table says.\<close>

definition message_ready :: "('g, 'db, 'm) sync_env \<Rightarrow> u32 list \<Rightarrow> u64 \<times> u64 \<Rightarrow> bool" where
  "message_ready V ps = (\<lambda>(eid, row_cn). eid \<noteq> 0x7fffffffffffffff \<and> row_cn \<noteq> 0 \<and>
     (\<exists>message msg vals. message_open V eid = Some (message, msg) \<and> get_properties V message ps = Some vals \<and>
        is_sharing MAPISTORE_MESSAGE_TABLE ps vals = Ok False \<and> header_cn (message_index ps no_index) vals = Ok (globcnt_of row_cn)) \<and>
     (\<forall>l. snd (snd (emsmdbp_source_key_from_fmid (sy_replicas V) l (sy_owner V) eid)) \<noteq> None))"

text \<open>A message that cannot be opened is passed over.\<close>

definition row_ok :: "('g, 'db, 'm) sync_env \<Rightarrow> u32 list \<Rightarrow> u64 \<times> u64 \<Rightarrow> bool" where
  "row_ok V ps row \<longleftrightarrow> message_ready V ps row \<or> message_open V (fst row) = None"

definition opened :: "('g, 'db, 'm) sync_env \<Rightarrow> u32 list \<Rightarrow> (u64 \<times> u64) list \<Rightarrow> (u64 \<times> u64) list" where
  "opened V ps rows = filter (message_ready V ps) rows"

lemma opened_simps [simp]:
  "opened V ps [] = []" "opened V ps (row # rows) = (if message_ready V ps row then [row] else []) @ opened V ps rows"
  "opened V ps (rows @ rows') = opened V ps rows @ opened V ps rows'"
  by (simp_all add: opened_def)

lemma opened_all: "list_all (message_ready V ps) rows \<Longrightarrow> opened V ps rows = rows \<and> list_all (row_ok V ps) rows"
  by (induction rows) (simp_all add: opened_def row_ok_def)

definition row_seen :: "('g, 'db, 'm) sync_env \<Rightarrow> ('g, 'db) row_state \<Rightarrow> u64 \<Rightarrow> bool" where
  "row_seen V w x \<longleftrightarrow>
     IDSET_includes_guid_glob (sy_samba V) (original_cnset_seen (rw_sc w) (sd_table_type (rw_sd w))) (Some (sd_guid (rw_sd w))) x"

definition row_inv :: "('g, 'db, 'm) sync_env \<Rightarrow> 'g \<Rightarrow> u32 list \<Rightarrow> u64 list \<Rightarrow> ('g, 'db) row_state \<Rightarrow> bool" where
  "row_inv V g ps xs w \<longleftrightarrow> sd_table_type (rw_sd w) = MAPISTORE_MESSAGE_TABLE \<and> sd_guid (rw_sd w) = g \<and>
     sc_properties (rw_sc w) = ps \<and> own_raw (sy_samba V) g xs (sd_cnset_seen (rw_sd w)) \<and>
     rw_index w = message_index ps no_index \<and> sd_prop_index (rw_sd w) = message_index ps no_index \<and> \<not> rw_changed w"

lemma row_core_fields:
  assumes "row_core w = row_core w'"
  shows "row_seen V w = row_seen V w'" "sd_guid (rw_sd w) = sd_guid (rw_sd w')" "sd_table_type (rw_sd w) = sd_table_type (rw_sd w')"
    "sc_properties (rw_sc w) = sc_properties (rw_sc w')" "sd_prop_index (rw_sd w) = sd_prop_index (rw_sd w')"
proof -
  have c: "sc_core (rw_sc w) = sc_core (rw_sc w')" "sd_core (rw_sd w) = sd_core (rw_sd w')"
    using assms by (simp_all add: row_core_def)
  note f = sc_core_fields [OF c(1)] sd_core_fields [OF c(2)]
  have "original_cnset_seen (rw_sc w) tt = original_cnset_seen (rw_sc w') tt" for tt
    using f by (cases tt) (simp_all add: original_cnset_seen_def)
  then show "row_seen V w = row_seen V w'" using f by (simp add: fun_eq_iff row_seen_def)
  show "sd_guid (rw_sd w) = sd_guid (rw_sd w')" "sd_table_type (rw_sd w) = sd_table_type (rw_sd w')"
    "sc_properties (rw_sc w) = sc_properties (rw_sc w')" "sd_prop_index (rw_sd w) = sd_prop_index (rw_sd w')" using f by simp_all
qed

lemma row_inv_core:
  assumes "row_inv V g ps xs w" and "row_core w' = row_core w" and "own_raw (sy_samba V) g ys (sd_cnset_seen (rw_sd w'))"
    and "rw_index w' = rw_index w" and "\<not> rw_changed w'"
  shows "row_inv V g ps ys w'"
  using assms row_core_fields [OF assms(2)] by (simp add: row_inv_def)

lemma note_eid_keeps:
  "yields (note_eid V eid w) (\<lambda>w'. row_core w' = row_core w \<and> sd_cnset_seen (rw_sd w') = sd_cnset_seen (rw_sd w) \<and>
     rw_index w' = rw_index w \<and> rw_changed w' = rw_changed w \<and> row_out w' = row_out w)"
  by (auto simp: yields_def note_eid_def row_core_def split: prod.splits option.splits)

lemma skip_inv: "row_inv V g ps xs w \<Longrightarrow> row_inv V g ps xs (skip_object w)"
  by (simp add: row_inv_def skip_object_def)

text \<open>What becomes of a message whose values were fetched.\<close>

lemma ready_change:
  assumes G: "samba_laws (sy_samba V)" and inv: "row_inv V g ps xs w" and cn: "header_cn (message_index ps no_index) vals = Ok c"
    and key: "\<And>l. snd (snd (emsmdbp_source_key_from_fmid (sy_replicas V) l (sy_owner V) eid)) \<noteq> None"
  shows "yields (message_change V eid message msg ptags vals w) (\<lambda>w'. \<exists>ys. row_inv V g ps (xs @ ys) w' \<and> row_core w' = row_core w \<and>
    (row_seen V w c \<or> c \<in> set ys))"
proof -
  obtain st l k where k: "emsmdbp_source_key_from_fmid (sy_replicas V) (sc_replicas (rw_sc w)) (sy_owner V) eid = (st, l, Some k)"
    using key [of "sc_replicas (rw_sc w)"] by (cases "emsmdbp_source_key_from_fmid (sy_replicas V) (sc_replicas (rw_sc w)) (sy_owner V) eid") auto
  let ?w = "w\<lparr>rw_sc := (rw_sc w)\<lparr>sc_replicas := l\<rparr>\<rparr>"
  have c: "row_core ?w = row_core w" by (simp add: row_core_def)
  have w: "row_inv V g ps xs ?w" using inv by (intro row_inv_core [OF inv c]) (auto simp: row_inv_def)
  show ?thesis
  proof (cases "row_seen V w c")
    case True
    have "row_seen V ?w c" using True unfolding row_core_fields(1) [OF c] .
    then have *: "IDSET_includes_guid_glob (sy_samba V) (original_cnset_seen (rw_sc ?w) (sd_table_type (rw_sd w))) (Some (sd_guid (rw_sd w))) c"
      by (simp add: row_seen_def)
    have "\<exists>ys. row_inv V g ps (xs @ ys) (skip_object ?w) \<and> row_core (skip_object ?w) = row_core w"
      using skip_inv [OF w] c by (intro exI [of _ "[]"]) simp
    then show ?thesis using inv k cn True * unfolding message_change_def Let_def
      by (auto simp: row_inv_def intro!: yields_bind_any)
  next
    case False
    then have *: "\<not> IDSET_includes_guid_glob (sy_samba V) (original_cnset_seen (rw_sc ?w) (sd_table_type (rw_sd w))) (Some (sd_guid (rw_sd w))) c"
      using row_core_fields(1) [OF c, of V] by (simp add: row_seen_def fun_eq_iff)
    have raw: "own_raw (sy_samba V) g xs (sd_cnset_seen (rw_sd w))" "sd_guid (rw_sd w) = g" using inv by (simp_all add: row_inv_def)
    have step: "row_inv V g ps (xs @ [c]) (?w\<lparr>rw_sc := sc1, rw_sd := sd', rw_index := ix, rw_changed := False\<rparr>) \<and>
        row_core (?w\<lparr>rw_sc := sc1, rw_sd := sd', rw_index := ix, rw_changed := False\<rparr>) = row_core w"
      if "own_raw (sy_samba V) g (xs @ [c]) cns" "sd_kept sd' = sd_kept ((rw_sd w)\<lparr>sd_cnset_seen := cns\<rparr>)"
        "sc_core sc1 = sc_core (rw_sc w)" "ix = rw_index w" for cns sd' sc1 ix
    proof -
      let ?v = "?w\<lparr>rw_sc := sc1, rw_sd := sd', rw_index := ix, rw_changed := False\<rparr>"
      have rc: "row_core ?v = row_core w" using sd_kept_core(1) [OF that(2)] that(3) by (simp add: row_core_def)
      have "sd_cnset_seen sd' = cns" using sd_kept_core(2) [OF that(2)] by simp
      with that rc show ?thesis by (intro conjI row_inv_core [OF inv rc]) simp_all
    qed
    have ix: "rw_index w = message_index ps no_index" "sd_prop_index (rw_sd w) = rw_index w" "\<not> rw_changed w" using inv by (simp_all add: row_inv_def)
    show ?thesis unfolding yields_def
    proof (intro allI impI)
      fix w' assume "message_change V eid message msg ptags vals w = Ok w'"
      then obtain cns header sd' where p: "RAWIDSET_push_guid_glob (sy_samba V) (sd_cnset_seen (rw_sd w)) g c = Ok cns"
        "push_message V header ptags vals ps message msg ((rw_sd w)\<lparr>sd_cnset_seen := cns\<rparr>) = Ok sd'"
        "w' = ?w\<lparr>rw_sc := (rw_sc ?w)\<lparr>sent_objects := sent_objects (rw_sc w) + 1\<rparr>, rw_sd := sd', rw_index := rw_index w, rw_changed := False\<rparr>"
        using k cn * ix inv by (simp add: message_change_def row_inv_def Let_def) blast
      have "row_inv V g ps (xs @ [c]) w' \<and> row_core w' = row_core w"
        using step [OF yieldsD [OF own_raw_push [OF G raw(1)] p(1)] yieldsD [OF message_kept p(2)], of _ "rw_index w"] p(3) by simp
      then show "\<exists>ys. row_inv V g ps (xs @ ys) w' \<and> row_core w' = row_core w \<and> (row_seen V w c \<or> c \<in> set ys)"
        by (intro exI [of _ "[c]"]) simp
    qed
  qed
qed

lemma ready_row:
  assumes G: "samba_laws (sy_samba V)" and inv: "row_inv V g ps xs w" and ready: "message_ready V ps (eid, row_cn)"
  shows "yields (message_row V (eid, row_cn) w) (\<lambda>w'. \<exists>ys. row_inv V g ps (xs @ ys) w' \<and> row_core w' = row_core w \<and>
    (row_seen V w (globcnt_of row_cn) \<or> globcnt_of row_cn \<in> set ys))"
proof -
  from ready obtain message msg vals where r: "eid \<noteq> 0x7fffffffffffffff" "message_open V eid = Some (message, msg)"
    "get_properties V message ps = Some vals" "is_sharing MAPISTORE_MESSAGE_TABLE ps vals = Ok False"
    "header_cn (message_index ps no_index) vals = Ok (globcnt_of row_cn)"
    "\<And>l. snd (snd (emsmdbp_source_key_from_fmid (sy_replicas V) l (sy_owner V) eid)) \<noteq> None" by (auto simp: message_ready_def)
  let ?c = "globcnt_of row_cn"
  have "yields (let sc = rw_sc w1; sd = rw_sd w1 in
      if folder_is_mapistore V \<and> row_cn \<noteq> 0 \<and>
         IDSET_includes_guid_glob (sy_samba V) (original_cnset_seen sc (sd_table_type sd)) (Some (sd_guid sd)) ?c
      then Ok (skip_object w1)
      else case message_open V eid of None \<Rightarrow> Ok w1
        | Some (message, msg) \<Rightarrow> obind (message_values V message w1) (\<lambda>(r, w2).
            case r of None \<Rightarrow> Ok w2 | Some (ptags, vals) \<Rightarrow> message_change V eid message msg ptags vals w2))
    (\<lambda>w'. \<exists>ys. row_inv V g ps (xs @ ys) w' \<and> row_core w' = row_core w \<and> (row_seen V w ?c \<or> ?c \<in> set ys))"
    if "row_inv V g ps xs w1" "row_core w1 = row_core w" for w1
  proof (cases "folder_is_mapistore V \<and> row_cn \<noteq> 0 \<and> row_seen V w1 ?c")
    case True
    then have "row_seen V w ?c" using row_core_fields(1) [OF that(2), of V] by simp
    then show ?thesis using True that skip_inv [OF that(1)]
      by (auto simp: row_seen_def Let_def intro!: exI [of _ "[]"])
  next
    case False
    have v: "message_values V message w1 = Ok (Some (ps, vals), w1)"
      using that(1) r(3,4) by (simp add: message_values_def Let_def row_inv_def table_properties_def)
    have "yields (message_change V eid message msg ps vals w1) (\<lambda>w'. \<exists>ys. row_inv V g ps (xs @ ys) w' \<and> row_core w' = row_core w \<and>
        (row_seen V w ?c \<or> ?c \<in> set ys))"
      using ready_change [OF G that(1) r(5,6)] that(2) unfolding row_core_fields(1) [OF that(2), of V] by simp
    then show ?thesis using r(2) v unfolding Let_def row_seen_def [symmetric] if_not_P [OF False] by simp
  qed
  moreover have "yields (note_eid V eid w) (\<lambda>w1. row_inv V g ps xs w1 \<and> row_core w1 = row_core w)"
    by (rule yields_mono [OF note_eid_keeps], elim conjE, intro conjI, rule row_inv_core [OF inv])
      (use inv in \<open>simp_all add: row_inv_def\<close>)
  ultimately show ?thesis unfolding message_row_def using r(1) by (auto intro: yields_bind)
qed

lemma unopened_row:
  assumes "row_inv V g ps xs w" and "message_open V eid = None"
  shows "yields (message_row V (eid, row_cn) w) (\<lambda>w'. row_inv V g ps xs w' \<and> row_core w' = row_core w)"
proof -
  have noted: "yields (note_eid V eid w) (\<lambda>w1. row_inv V g ps xs w1 \<and> row_core w1 = row_core w)"
    by (rule yields_mono [OF note_eid_keeps], elim conjE, intro conjI, rule row_inv_core [OF assms(1)])
      (use assms(1) in \<open>simp_all add: row_inv_def\<close>)
  show ?thesis unfolding message_row_def using assms skip_inv
    by (auto simp: Let_def intro!: yields_bind [OF noted])
qed

lemma row_step:
  assumes G: "samba_laws (sy_samba V)" and inv: "row_inv V g ps xs w" and ok: "row_ok V ps (eid, row_cn)"
  shows "yields (message_row V (eid, row_cn) w) (\<lambda>w'. \<exists>ys. row_inv V g ps (xs @ ys) w' \<and> row_core w' = row_core w \<and>
    (message_ready V ps (eid, row_cn) \<longrightarrow> row_seen V w (globcnt_of row_cn) \<or> globcnt_of row_cn \<in> set ys))"
proof (cases "message_ready V ps (eid, row_cn)")
  case True
  show ?thesis by (rule yields_mono [OF ready_row [OF G inv True]]) blast
next
  case False
  with ok have "message_open V eid = None" by (simp add: row_ok_def)
  from unopened_row [OF inv this] show ?thesis by (rule yields_mono) (use False in \<open>simp add: exI [of _ "[]"]\<close>)
qed

lemma ready_rows:
  assumes G: "samba_laws (sy_samba V)" and "row_inv V g ps xs w" and "list_all (row_ok V ps) rows"
  shows "yields (message_rows V rows w) (\<lambda>(rest, w'). \<exists>sent ys. rows = sent @ rest \<and> row_inv V g ps (xs @ ys) w' \<and> row_core w' = row_core w \<and>
    (\<forall>c \<in> set (map snd (opened V ps sent)). row_seen V w (globcnt_of c) \<or> globcnt_of c \<in> set ys))"
  using assms(2,3)
proof (induction rows arbitrary: w xs)
  case Nil
  then show ?case by (auto intro!: exI [of _ "[]"])
next
  case (Cons row rows)
  obtain eid c where row: "row = (eid, c)" by (cases row)
  have "yields (obind (message_row V row w) (message_rows V rows)) (\<lambda>(rest, w'). \<exists>sent ys. row # rows = sent @ rest \<and> row_inv V g ps (xs @ ys) w' \<and>
      row_core w' = row_core w \<and> (\<forall>c \<in> set (map snd (opened V ps sent)). row_seen V w (globcnt_of c) \<or> globcnt_of c \<in> set ys))"
    unfolding row
  proof (rule yields_bind [OF row_step [OF G Cons.prems(1)]], goal_cases)
    case 1
    then show ?case using Cons.prems(2) row by simp
  next
    case (2 w1)
    then obtain ys where y: "row_inv V g ps (xs @ ys) w1" "row_core w1 = row_core w"
      "message_ready V ps (eid, c) \<longrightarrow> row_seen V w (globcnt_of c) \<or> globcnt_of c \<in> set ys" by blast
    have "list_all (row_ok V ps) rows" using Cons.prems(2) by simp
    from Cons.IH [OF y(1) this] show ?case unfolding row_core_fields(1) [OF y(2)] y(2)
    proof (rule yields_mono, clarify)
      fix rest w' zs and sent :: "(u64 \<times> u64) list"
      assume "row_inv V g ps ((xs @ ys) @ zs) w'" "row_core w' = row_core w"
        "\<forall>c \<in> set (map snd (opened V ps sent)). row_seen V w (globcnt_of c) \<or> globcnt_of c \<in> set zs"
      then show "\<exists>sent' ys'. (eid, c) # sent @ rest = sent' @ rest \<and> row_inv V g ps (xs @ ys') w' \<and> row_core w' = row_core w \<and>
          (\<forall>c \<in> set (map snd (opened V ps sent')). row_seen V w (globcnt_of c) \<or> globcnt_of c \<in> set ys')"
        using y(3) by (intro exI [of _ "(eid, c) # sent"] exI [of _ "ys @ zs"]) auto
    qed
  qed
  then show ?case using Cons.prems(1) by (auto intro!: exI [of _ "[]"])
qed

text \<open>Rows that the client has seen are skipped.\<close>

definition row_skipped where
  "row_skipped w w' \<longleftrightarrow> row_core w' = row_core w \<and> row_out w' = row_out w \<and> sd_cnset_seen (rw_sd w') = sd_cnset_seen (rw_sd w) \<and>
     sent_objects (rw_sc w') = sent_objects (rw_sc w)"

lemma seen_row:
  assumes "folder_is_mapistore V" and "row_cn \<noteq> 0" and "row_seen V w (globcnt_of row_cn)"
  shows "yields (message_row V (eid, row_cn) w) (row_skipped w)"
proof -
  have noted: "yields (note_eid V eid w) (row_skipped w)"
    by (auto simp: yields_def note_eid_def row_core_def row_skipped_def split: prod.splits option.splits)
  have "yields (if folder_is_mapistore V \<and> row_cn \<noteq> 0 \<and> row_seen V w1 (globcnt_of row_cn) then Ok (skip_object w1) else r) (row_skipped w)"
    if "row_skipped w w1" for w1 r
  proof -
    have "row_seen V w1 (globcnt_of row_cn)" using that assms(3) row_core_fields(1) [of w1 w V] by (simp add: row_skipped_def)
    moreover have "row_skipped w (skip_object w1)" using that skip_core [of w1] by (simp add: row_skipped_def) (simp add: skip_object_def)
    ultimately show ?thesis using assms(1,2) by simp
  qed
  then show ?thesis unfolding message_row_def Let_def row_seen_def
    by (auto simp: row_skipped_def [of w w] intro!: yields_bind [OF noted])
qed

lemma seen_rows:
  assumes "folder_is_mapistore V" and "\<forall>c \<in> set (map snd rows). c \<noteq> 0 \<and> row_seen V w (globcnt_of c)"
    and "length (fx_bytes (row_out w)) < max_message_sync_size"
  shows "yields (message_rows V rows w) (\<lambda>(rest, w'). rest = [] \<and> row_skipped w w')"
  using assms(2,3)
proof (induction rows arbitrary: w)
  case (Cons row rows)
  obtain eid c where row: "row = (eid, c)" by (cases row)
  have step: "yields (message_row V row w) (row_skipped w)"
    unfolding row using Cons.prems(1) row by (intro seen_row [OF assms(1)]) simp_all
  show ?case
  proof (simp add: Cons.prems(2), rule yields_bind [OF step])
    fix w1 assume w1: "row_skipped w w1"
    then have c: "row_core w1 = row_core w" by (simp add: row_skipped_def)
    have "yields (message_rows V rows w1) (\<lambda>(rest, w'). rest = [] \<and> row_skipped w1 w')"
      using Cons.IH [of w1] Cons.prems w1 row_core_fields(1) [OF c, of V] by (simp add: row_skipped_def)
    then show "yields (message_rows V rows w1) (\<lambda>(rest, w'). rest = [] \<and> row_skipped w w')"
      by (rule yields_mono) (use w1 in \<open>auto simp: row_skipped_def\<close>)
  qed
qed (simp add: row_skipped_def)

section \<open>The table in chunks\<close>

definition covers :: "('g, 'db, 'm) sync_env \<Rightarrow> 'g \<Rightarrow> 'g idset list \<Rightarrow> (u64 \<times> u64) list \<Rightarrow> bool" where
  "covers V g ss rows \<longleftrightarrow> (\<forall>c \<in> set (map snd rows). IDSET_includes_guid_glob (sy_samba V) ss (Some g) (globcnt_of c))"

text \<open>Between two chunks: of the rows \<open>T\<close> of the table some are sent, and their change numbers are collected or were seen before.\<close>

definition table_inv where
  "table_inv V g ps T sc sd \<longleftrightarrow> sd_table_type sd = MAPISTORE_MESSAGE_TABLE \<and> sd_guid sd = g \<and> sc_properties sc = ps \<and>
     sd_prop_index sd = message_index ps no_index \<and> own_set g (cnset_seen sc) \<and>
     (\<exists>sent rest xs. sd_rows sd = Some rest \<and> T = sent @ rest \<and> own_raw (sy_samba V) g xs (sd_cnset_seen sd) \<and>
        (\<forall>c \<in> set (map snd (opened V ps sent)). IDSET_includes_guid_glob (sy_samba V) (cnset_seen sc) (Some g) (globcnt_of c) \<or> globcnt_of c \<in> set xs))"

definition table_done where
  "table_done V g ps T sc sd \<longleftrightarrow> sd_guid sd = g \<and> own_set g (cnset_seen sc) \<and>
     (\<exists>xs. own_raw (sy_samba V) g xs (sd_cnset_seen sd) \<and>
        (\<forall>c \<in> set (map snd (opened V ps T)). IDSET_includes_guid_glob (sy_samba V) (cnset_seen sc) (Some g) (globcnt_of c) \<or> globcnt_of c \<in> set xs))"

lemma fetch_deleted_raw:
  assumes "samba_laws (sy_samba V)" and "own_raw (sy_samba V) (sd_guid sd) xs (sd_cnset_seen sd)"
  shows "yields (fetch_deleted V sc sd) (\<lambda>sd'. sd_guid sd' = sd_guid sd \<and> (\<exists>ys. own_raw (sy_samba V) (sd_guid sd) (xs @ ys) (sd_cnset_seen sd')))"
proof -
  have push: "yields (if b then RAWIDSET_push_guid_glob (sy_samba V) (sd_cnset_seen sd) (sd_guid sd) x else Ok (sd_cnset_seen sd))
      (\<lambda>cns. \<exists>ys. own_raw (sy_samba V) (sd_guid sd) (xs @ ys) cns)" for b x
  proof (cases b)
    case True
    then show ?thesis by (simp, intro yields_mono [OF own_raw_push [OF assms]]) blast
  qed (use assms(2) in \<open>auto intro: exI [of _ "[]"]\<close>)
  have "\<exists>ys. own_raw (sy_samba V) (sd_guid sd) (xs @ ys) (sd_cnset_seen sd)" using assms(2) by (intro exI [of _ "[]"]) simp
  then show ?thesis unfolding fetch_deleted_def Let_def
    by (intro yields_bind_any) (auto split: option.splits intro!: yields_bind_any yields_bind [OF push])
qed

text \<open>The rows that a call starts from, and what it leaves of them.\<close>

lemma push_rows:
  assumes G: "samba_laws (sy_samba V)" and "sd_table_type sd = MAPISTORE_MESSAGE_TABLE" and "sd_prop_index sd = message_index ps no_index"
    and "sc_properties sc = ps" and own: "own_set (sd_guid sd) (cnset_seen sc)" and raw: "own_raw (sy_samba V) (sd_guid sd) xs (sd_cnset_seen sd)"
    and "list_all (row_ok V ps) rows" and "sc_core sc = sc_core sc0"
    and "\<forall>c \<in> set (map snd (opened V ps sent0)). IDSET_includes_guid_glob (sy_samba V) (cnset_seen sc) (Some (sd_guid sd)) (globcnt_of c) \<or> globcnt_of c \<in> set xs"
  shows "yields (obind (message_rows V rows \<lparr>rw_sc = sc, rw_sd = sd, rw_index = sd_prop_index sd, rw_changed = False, rw_guid = None\<rparr>) (\<lambda>(rest, w).
      if rest \<noteq> [] then Ok (False, rw_sc w, (rw_sd w)\<lparr>sd_rows := Some rest\<rparr>)
      else obind (if folder_is_mapistore V then fetch_deleted V (rw_sc w) (rw_sd w) else Ok (rw_sd w)) (\<lambda>sd2.
        Ok (True, rw_sc w, sd2\<lparr>sd_rows := None\<rparr>))))
    (\<lambda>(e, sc', sd'). sc_core sc' = sc_core sc0 \<and>
      (if e then table_done V (sd_guid sd) ps (sent0 @ rows) sc' sd' else table_inv V (sd_guid sd) ps (sent0 @ rows) sc' sd'))"
proof (rule yields_bind [OF ready_rows [OF G, where g = "sd_guid sd" and ps = ps and xs = xs]], goal_cases)
  case 1
  show ?case using assms by (simp add: row_inv_def)
next
  case 2
  show ?case by fact
next
  case (3 x)
  let ?w = "\<lparr>rw_sc = sc, rw_sd = sd, rw_index = sd_prop_index sd, rw_changed = False, rw_guid = None\<rparr>"
  obtain rest w where x: "x = (rest, w)" by (cases x)
  with 3 obtain sent ys where r: "rows = sent @ rest" "row_inv V (sd_guid sd) ps (xs @ ys) w" "row_core w = row_core ?w"
    "\<forall>c \<in> set (map snd (opened V ps sent)). row_seen V ?w (globcnt_of c) \<or> globcnt_of c \<in> set ys" by auto
  have c: "sc_core (rw_sc w) = sc_core sc" "sd_core (rw_sd w) = sd_core sd" using r(3) by (simp_all add: row_core_def)
  note f = sc_core_fields(3,7) [OF c(1)] sd_core_fields(1-3) [OF c(2)]
  have seen: "row_seen V ?w y \<longleftrightarrow> IDSET_includes_guid_glob (sy_samba V) (cnset_seen sc) (Some (sd_guid sd)) y" for y
    using assms(2) by (simp add: row_seen_def original_cnset_seen_def)
  have all: "\<forall>c \<in> set (map snd (opened V ps (sent0 @ sent))). IDSET_includes_guid_glob (sy_samba V) (cnset_seen (rw_sc w)) (Some (sd_guid sd)) (globcnt_of c) \<or>
      globcnt_of c \<in> set (xs @ ys)"
    using r(4) assms(9) unfolding seen f by auto
  have raw': "own_raw (sy_samba V) (sd_guid sd) (xs @ ys) (sd_cnset_seen (rw_sd w))" using r(2) by (simp add: row_inv_def)
  show ?case
  proof (cases "rest = []")
    case True
    have d: "yields (if folder_is_mapistore V then fetch_deleted V (rw_sc w) (rw_sd w) else Ok (rw_sd w))
        (\<lambda>sd'. sd_guid sd' = sd_guid sd \<and> (\<exists>zs. own_raw (sy_samba V) (sd_guid sd) ((xs @ ys) @ zs) (sd_cnset_seen sd')))"
      using fetch_deleted_raw [OF G, of "rw_sd w" "xs @ ys" "rw_sc w"] raw' f(3) by (auto intro: exI [of _ "[]"])
    have "yields (obind (if folder_is_mapistore V then fetch_deleted V (rw_sc w) (rw_sd w) else Ok (rw_sd w)) (\<lambda>sd2.
        Ok (True, rw_sc w, sd2\<lparr>sd_rows := None\<rparr>)))
      (\<lambda>(e, sc', sd'). sc_core sc' = sc_core sc0 \<and>
        (if e then table_done V (sd_guid sd) ps (sent0 @ rows) sc' sd' else table_inv V (sd_guid sd) ps (sent0 @ rows) sc' sd'))"
    proof (rule yields_bind [OF d], elim conjE exE)
      fix sd2 zs assume z: "sd_guid sd2 = sd_guid sd" "own_raw (sy_samba V) (sd_guid sd) ((xs @ ys) @ zs) (sd_cnset_seen sd2)"
      have "table_done V (sd_guid sd) ps (sent0 @ rows) (rw_sc w) (sd2\<lparr>sd_rows := None\<rparr>)"
        unfolding table_done_def using z all own f(1) r(1) True by (auto intro!: exI [of _ "(xs @ ys) @ zs"])
      then show "yields (Ok (True, rw_sc w, sd2\<lparr>sd_rows := None\<rparr>))
        (\<lambda>(e, sc', sd'). sc_core sc' = sc_core sc0 \<and>
        (if e then table_done V (sd_guid sd) ps (sent0 @ rows) sc' sd' else table_inv V (sd_guid sd) ps (sent0 @ rows) sc' sd'))"
        using c(1) assms(8) by simp
    qed
    then show ?thesis unfolding x True by (simp only: prod.case simp_thms if_False)
  next
    case False
    have "table_inv V (sd_guid sd) ps (sent0 @ rows) (rw_sc w) ((rw_sd w)\<lparr>sd_rows := Some rest\<rparr>)"
      unfolding table_inv_def using f own raw' all r(1) assms(2-4)
      by (auto intro!: exI [of _ "sent0 @ sent"] exI [of _ "xs @ ys"])
    then show ?thesis using x False c(1) assms(8) by simp
  qed
qed

text \<open>A call starts with the whole table, or where the last one stopped.\<close>

definition table_start where
  "table_start V g ps T sc sd \<longleftrightarrow> sd_rows sd = None \<and> sd_guid sd = g \<and> sd_prop_index sd = message_index ps no_index \<and>
     sc_properties sc = ps \<and> own_set g (cnset_seen sc) \<and> yields (open_message_table V sc MAPISTORE_MESSAGE_TABLE) (\<lambda>(rows, sc'). rows = T)"

lemma push_messageChange_covers:
  fixes sc :: "('a, 'b) synccontext"
  assumes G: "samba_laws (sy_samba V)" and ready: "list_all (row_ok V ps) T"
    and "table_start V g ps T sc sd \<or> table_inv V g ps T sc sd"
    and sd1: "sd1 = (if sd_rows sd = None then sd\<lparr>sd_cnset_seen := [RAWIDSET_make (sy_samba V) False True], sd_table_type := MAPISTORE_MESSAGE_TABLE\<rparr> else sd)"
  shows "yields (oxcfxics_push_messageChange V sc sd1) (\<lambda>(e, sc', sd'). sc_core sc' = sc_core sc \<and>
    (if e then table_done V g ps T sc' sd' else table_inv V g ps T sc' sd'))"
  using assms(3)
proof
  assume s: "table_start V g ps T sc sd"
  have rows: "yields (open_message_table V sc MAPISTORE_MESSAGE_TABLE) (\<lambda>(rows, sc1). rows = T \<and> sc_core sc1 = sc_core sc)"
    unfolding yields_def using s yieldsD [OF open_table_core, of V sc] by (auto simp: table_start_def yields_def)
  have f: "sd_guid sd1 = g" "sd_table_type sd1 = MAPISTORE_MESSAGE_TABLE" "sd_prop_index sd1 = message_index ps no_index"
    "own_raw (sy_samba V) g [] (sd_cnset_seen sd1)" "sd_rows sd1 = None" using s own_raw_make by (simp_all add: table_start_def sd1)
  have o: "sc_properties sc = ps" "own_set g (cnset_seen sc)" using s by (simp_all add: table_start_def)
  have "yields (obind (message_rows V T \<lparr>rw_sc = sc1, rw_sd = sd1, rw_index = sd_prop_index sd1, rw_changed = False, rw_guid = None\<rparr>) (\<lambda>(rest, w).
      if rest \<noteq> [] then Ok (False, rw_sc w, (rw_sd w)\<lparr>sd_rows := Some rest\<rparr>)
      else obind (if folder_is_mapistore V then fetch_deleted V (rw_sc w) (rw_sd w) else Ok (rw_sd w)) (\<lambda>sd2.
        Ok (True, rw_sc w, sd2\<lparr>sd_rows := None\<rparr>)))) (\<lambda>(e, sc', sd'). sc_core sc' = sc_core sc \<and>
    (if e then table_done V g ps T sc' sd' else table_inv V g ps T sc' sd'))" if "sc_core sc1 = sc_core sc" for sc1
    by (rule push_rows [OF G f(2,3), of sc1 "[]" T sc "[]", unfolded append_Nil f(1)])
      (use f(4) o ready that sc_core_fields(3,7) [OF that] in simp_all)
  then show ?thesis unfolding oxcfxics_push_messageChange_def f(2,5) option.case
    by (intro yields_bind [OF rows]) (clarify, blast)
next
  assume i: "table_inv V g ps T sc sd"
  then obtain sent rest xs where r: "sd_rows sd = Some rest" "T = sent @ rest" "own_raw (sy_samba V) g xs (sd_cnset_seen sd)"
    "\<forall>c \<in> set (map snd (opened V ps sent)). IDSET_includes_guid_glob (sy_samba V) (cnset_seen sc) (Some g) (globcnt_of c) \<or> globcnt_of c \<in> set xs"
    by (auto simp: table_inv_def)
  have f: "sd_table_type sd = MAPISTORE_MESSAGE_TABLE" "sd_prop_index sd = message_index ps no_index" "sd_guid sd = g" "sd1 = sd"
    "sc_properties sc = ps" "own_set g (cnset_seen sc)" using i r(1) by (simp_all add: table_inv_def sd1)
  show ?thesis unfolding oxcfxics_push_messageChange_def f(4) r(1,2) option.case obind.simps prod.case
    by (rule push_rows [OF G f(1,2), of sc xs rest sc sent, unfolded f(3)]) (use f r ready in simp_all)
qed

lemma push_table_covers:
  assumes G: "samba_laws (sy_samba V)" and g: "\<not> GUID_all_zero (sy_samba V) g" and ready: "list_all (row_ok V ps) T"
    and start: "table_start V g ps T sc sd \<or> table_inv V g ps T sc sd"
  shows "yields (push_table V MAPISTORE_MESSAGE_TABLE sc sd) (\<lambda>(sc', sd'). sc_request sc' = sc_request sc \<and>
    (sync_stage sc' = 2 \<and> own_set g (cnset_seen sc') \<and> covers V g (cnset_seen sc') (opened V ps T) \<or> sync_stage sc' = sync_stage sc \<and> table_inv V g ps T sc' sd'))"
  unfolding push_table_def Let_def
proof (rule yields_bind [OF push_messageChange_covers [OF G ready start refl]], clarify)
  fix e sc2 sd2
  assume c: "sc_core sc2 = sc_core sc" and t: "if e then table_done V g ps T sc2 sd2 else table_inv V g ps T sc2 sd2"
  let ?new = "RAWIDSET_convert_to_idset (sy_samba V) (sd_cnset_seen sd2)"
  show "yields (if e then case MAPISTORE_MESSAGE_TABLE of
        MAPISTORE_MESSAGE_TABLE \<Rightarrow> obind (IDSET_merge_idsets (sy_samba V) (cnset_seen sc2) ?new) (\<lambda>m. Ok (sc2\<lparr>cnset_seen := m, sync_stage := 2\<rparr>, sd2))
      | MAPISTORE_FAI_TABLE \<Rightarrow> obind (IDSET_merge_idsets (sy_samba V) (cnset_seen_fai sc2) ?new) (\<lambda>m. Ok (sc2\<lparr>cnset_seen_fai := m, sync_stage := 3\<rparr>, sd2))
    else Ok (sc2, sd2)) (\<lambda>(sc', sd'). sc_request sc' = sc_request sc \<and>
      (sync_stage sc' = 2 \<and> own_set g (cnset_seen sc') \<and> covers V g (cnset_seen sc') (opened V ps T) \<or> sync_stage sc' = sync_stage sc \<and> table_inv V g ps T sc' sd'))"
  proof (cases e)
    case True
    with t obtain xs where x: "own_set g (cnset_seen sc2)" "own_raw (sy_samba V) g xs (sd_cnset_seen sd2)"
      "\<forall>c \<in> set (map snd (opened V ps T)). IDSET_includes_guid_glob (sy_samba V) (cnset_seen sc2) (Some g) (globcnt_of c) \<or> globcnt_of c \<in> set xs"
      by (auto simp: table_done_def)
    note n = own_raw_convert [OF G x(2) g]
    from merge_own_sets [OF G x(1)] n obtain m where m: "IDSET_merge_idsets (sy_samba V) (cnset_seen sc2) ?new = Ok m" "own_set g m"
      "\<And>y. IDSET_includes_guid_glob (sy_samba V) (cnset_seen sc2) (Some g) y \<or> IDSET_includes_guid_glob (sy_samba V) ?new (Some g) y \<Longrightarrow>
        IDSET_includes_guid_glob (sy_samba V) m (Some g) y" by blast
    have "covers V g m (opened V ps T)" unfolding covers_def using x(3) n m(3) by blast
    then show ?thesis using True m(1,2) sc_core_fields(1) [OF c] by simp
  next
    case False
    then show ?thesis using t sc_core_fields(1,2) [OF c] by simp
  qed
qed

section \<open>From one synchronization to the next\<close>

text \<open>The first download of a folder: its messages are to be, are being, or have been sent.\<close>

definition initial_sync where
  "initial_sync V ps T sc \<longleftrightarrow> sync_stage sc = 0 \<and> req_normal (sc_request sc) \<and> cnset_seen sc = [] \<and> sc_properties sc = ps \<and>
     table_is_mapistore V \<and> T = fetch_mids (table_rows V MAPISTORE_MESSAGE_TABLE None (order_by_delivery_time (sc_request sc)))"

definition sync_covered where
  "sync_covered V g ps T sc \<longleftrightarrow>
     initial_sync V ps T sc \<or>
     sync_stage sc = 1 \<and> req_normal (sc_request sc) \<and> (\<exists>sd. sc_sync_data sc = Some sd \<and> table_inv V g ps T sc sd) \<or>
     2 \<le> sync_stage sc \<and> own_set g (cnset_seen sc) \<and> covers V g (cnset_seen sc) (opened V ps T)"

lemma own_set_Nil [simp]: "own_set g []"
  by (simp add: own_set_def)

lemma table_start_initial:
  assumes "initial_sync V ps T sc"
  shows "table_start V (snd (MailboxReplica (sy_replicas V) (sy_owner V))) ps T (sc\<lparr>sync_stage := 1\<rparr>) (sync_start V sc)"
  using assms by (auto simp: table_start_def initial_sync_def sync_start_def open_message_table_def original_cnset_seen_def
      oxcfxics_table_set_cn_restriction_def yields_def Let_def)

lemma table_inv_out: "table_inv V g ps T sc (sd\<lparr>sd_out := out\<rparr>) = table_inv V g ps T sc sd"
  by (simp add: table_inv_def)

lemma fai_keeps_seen: "yields (sync_fai V (sc, sd)) (\<lambda>(sc', sd'). cnset_seen sc' = cnset_seen sc)"
proof -
  have m: "yields (oxcfxics_push_messageChange V sc sd1) (\<lambda>(e, sc', sd'). cnset_seen sc' = cnset_seen sc)" for sd1
    by (rule yields_mono [OF push_messageChange_pushed]) (auto simp: table_pushed_def dest: sc_core_fields(3))
  have "yields (push_table V MAPISTORE_FAI_TABLE sc sd) (\<lambda>(sc', sd'). cnset_seen sc' = cnset_seen sc)"
    unfolding push_table_def Let_def by (rule yields_bind [OF m]) (auto intro!: yields_bind_any)
  then show ?thesis by (simp add: sync_fai_def)
qed

lemma finish_keeps_seen: "yields (sync_finish V (sc, sd)) (\<lambda>(sc', sd'). cnset_seen sc' = cnset_seen sc \<and> sent_objects sc' = sent_objects sc)"
proof -
  have d: "yields (push_deletions V sc sd) (\<lambda>(sc', sd'). cnset_seen sc' = cnset_seen sc \<and> sent_objects sc' = sent_objects sc)" for sc sd
    unfolding push_deletions_def by (auto split: list.splits intro!: yields_bind_any)
  have s: "yields (push_state V sc sd) (\<lambda>(sc', sd'). cnset_seen sc' = cnset_seen sc \<and> sent_objects sc' = sent_objects sc)" for sc sd
    unfolding push_state_def Let_def by (auto intro!: yields_bind_any)
  have "yields (obind (push_deletions V sc sd) (\<lambda>(sc', sd'). obind (push_state V sc' sd') (\<lambda>(sc'', sd''). Ok (sc''\<lparr>sync_stage := 4\<rparr>, sd''))))
    (\<lambda>(sc', sd'). cnset_seen sc' = cnset_seen sc \<and> sent_objects sc' = sent_objects sc)"
    by (rule yields_bind [OF d], clarify, rule yields_bind [OF s]) auto
  then show ?thesis by (simp add: sync_finish_def)
qed

lemma make_chunk_covered:
  assumes G: "samba_laws (sy_samba V)" and g: "g = snd (MailboxReplica (sy_replicas V) (sy_owner V))" "\<not> GUID_all_zero (sy_samba V) g"
    and ready: "list_all (row_ok V ps) T" and inv: "sync_covered V g ps T sc0" and m: "make_chunk V sc0 = Ok (sc', out)"
  shows "sync_covered V g ps T sc'"
proof -
  from m obtain sc1 sd1 sc2 sd2 sc3 sd3 sc4 sd4 where c: "chunk_start V sc0 = Ok (sc1, sd1)" "sync_normal V (sc1, sd1) = Ok (sc2, sd2)"
    "sync_fai V (sc2, sd2) = Ok (sc3, sd3)" "sync_finish V (sc3, sd3) = Ok (sc4, sd4)"
    "sc' = sc4\<lparr>sc_sync_data := (if sync_stage sc4 = 4 then None else Some sd4)\<rparr>" "out = sd_out sd4" by (rule make_chunk_stages)
  have seen: "cnset_seen sc4 = cnset_seen sc2"
    using yieldsD [OF fai_keeps_seen c(3)] yieldsD [OF finish_keeps_seen c(4)] by simp
  have fai: "if sync_stage sc2 = 2 then sync_stage sc3 = 3 \<or> sync_stage sc3 = 2 else sc3 = sc2 \<and> sd3 = sd2"
    using yieldsD [OF sync_fai_stage c(3)] by (auto split: if_splits)
  have fin: "if sync_stage sc3 = 3 then sync_stage sc4 = 4 else sc4 = sc3 \<and> sd4 = sd3"
    using yieldsD [OF sync_finish_stage c(4)] by (auto split: if_splits)
  consider (normal) "sync_stage sc1 = 1" "req_normal (sc_request sc1)" "table_start V g ps T sc1 sd1 \<or> table_inv V g ps T sc1 sd1"
    | (later) "2 \<le> sync_stage sc1" "own_set g (cnset_seen sc1)" "covers V g (cnset_seen sc1) (opened V ps T)"
  proof -
    from inv consider "initial_sync V ps T sc0" | sd where "sync_stage sc0 = 1" "req_normal (sc_request sc0)" "sc_sync_data sc0 = Some sd"
        "table_inv V g ps T sc0 sd"
      | "2 \<le> sync_stage sc0" "own_set g (cnset_seen sc0)" "covers V g (cnset_seen sc0) (opened V ps T)" unfolding sync_covered_def by blast
    then show thesis
    proof cases
      case 1
      with c(1) table_start_initial [OF 1] show ?thesis by (intro that(1)) (auto simp: chunk_start_def initial_sync_def g(1))
    next
      case 2
      with c(1) show ?thesis by (intro that(1)) (auto simp: chunk_start_def table_inv_out)
    next
      case 3
      with c(1) show ?thesis by (intro that(2)) (auto simp: chunk_start_def split: option.splits)
    qed
  qed
  then show ?thesis
  proof cases
    case normal
    then have "push_table V MAPISTORE_MESSAGE_TABLE sc1 sd1 = Ok (sc2, sd2)" using c(2) by (simp add: sync_normal_def)
    from yieldsD [OF push_table_covers [OF G g(2) ready normal(3)] this] normal(1,2)
    have n: "req_normal (sc_request sc2)" "sync_stage sc2 = 2 \<and> own_set g (cnset_seen sc2) \<and> covers V g (cnset_seen sc2) (opened V ps T) \<or>
      sync_stage sc2 = 1 \<and> table_inv V g ps T sc2 sd2" by auto
    from n(2) show ?thesis
    proof
      assume "sync_stage sc2 = 2 \<and> own_set g (cnset_seen sc2) \<and> covers V g (cnset_seen sc2) (opened V ps T)"
      then show ?thesis using fai fin seen c(5) by (auto simp: sync_covered_def split: if_splits)
    next
      assume t: "sync_stage sc2 = 1 \<and> table_inv V g ps T sc2 sd2"
      then have "sc4 = sc2" "sd4 = sd2" using fai fin by auto
      then show ?thesis using t n(1) c(5) by (simp add: sync_covered_def table_inv_def)
    qed
  next
    case later
    then have "sc2 = sc1" using c(2) by (simp add: sync_normal_def)
    then show ?thesis using later fai fin seen c(5) by (auto simp: sync_covered_def split: if_splits)
  qed
qed

definition sync_step :: "('g, 'db, 'm) sync_env \<Rightarrow> ('g, 'db) synccontext \<Rightarrow> ('g, 'db) synccontext \<Rightarrow> bool" where
  "sync_step V sc sc' \<longleftrightarrow> sync_stage sc \<noteq> 4 \<and> (\<exists>out. make_chunk V sc = Ok (sc', out))"

lemma sync_run_covered:
  assumes "samba_laws (sy_samba V)" and "g = snd (MailboxReplica (sy_replicas V) (sy_owner V))" and "\<not> GUID_all_zero (sy_samba V) g"
    and "list_all (row_ok V ps) T" and "initial_sync V ps T sc" and run: "(sync_step V)\<^sup>*\<^sup>* sc sc'"
  shows "sync_covered V g ps T sc'"
  using run
proof (induction rule: rtranclp_induct)
  case base
  with assms(5) show ?case by (simp add: sync_covered_def)
next
  case (step y z)
  with make_chunk_covered [OF assms(1-4)] show ?case by (auto simp: sync_step_def)
qed

text \<open>A table of which everything was seen.\<close>

lemma seen_table:
  assumes "folder_is_mapistore V" and "sync_stage sc = 1" and "sd_rows sd = None" and "length (fx_bytes (sd_out sd)) < max_message_sync_size"
    and rows: "yields (open_message_table V sc MAPISTORE_MESSAGE_TABLE) (\<lambda>(rows, sc'). 0 \<notin> snd ` set rows \<and> covers V (sd_guid sd) (cnset_seen sc) rows)"
  shows "yields (push_table V MAPISTORE_MESSAGE_TABLE sc sd) (\<lambda>(sc', sd'). sync_stage sc' = 2 \<and> sd_out sd' = sd_out sd \<and> sent_objects sc' = sent_objects sc)"
proof -
  let ?sd = "sd\<lparr>sd_cnset_seen := [RAWIDSET_make (sy_samba V) False True], sd_table_type := MAPISTORE_MESSAGE_TABLE\<rparr>"
  have f: "sd_rows ?sd = None" "sd_table_type ?sd = MAPISTORE_MESSAGE_TABLE" using assms(3) by simp_all
  have "yields (oxcfxics_push_messageChange V sc ?sd) (\<lambda>(e, sc', sd'). e \<and> sd_out sd' = sd_out sd \<and> sent_objects sc' = sent_objects sc)"
    unfolding oxcfxics_push_messageChange_def f option.case
  proof (rule yields_bind_any, clarify)
    fix rows sc1 assume o: "open_message_table V sc MAPISTORE_MESSAGE_TABLE = Ok (rows, sc1)"
    let ?w = "\<lparr>rw_sc = sc1, rw_sd = ?sd, rw_index = sd_prop_index ?sd, rw_changed = False, rw_guid = None\<rparr>"
    have c: "cnset_seen sc1 = cnset_seen sc" using yieldsD [OF open_table_core o] by (auto dest: sc_core_fields(3))
    have n: "sent_objects sc1 = sent_objects sc" using o by (auto simp: open_message_table_def Let_def split: if_splits)
    have "\<forall>c \<in> set (map snd rows). c \<noteq> 0 \<and> row_seen V ?w (globcnt_of c)"
      using yieldsD [OF rows o] c by (auto simp: covers_def row_seen_def original_cnset_seen_def)
    from seen_rows [OF assms(1) this] assms(4) have r: "yields (message_rows V rows ?w) (\<lambda>(rest, w'). rest = [] \<and>
      sd_out (rw_sd w') = sd_out sd \<and> sent_objects (rw_sc w') = sent_objects sc)" using n by (auto simp: row_skipped_def elim: yields_mono)
    show "yields (obind (message_rows V rows ?w) (\<lambda>(rest, w).
        if rest \<noteq> [] then Ok (False, rw_sc w, (rw_sd w)\<lparr>sd_rows := Some rest\<rparr>)
        else obind (if folder_is_mapistore V then fetch_deleted V (rw_sc w) (rw_sd w) else Ok (rw_sd w)) (\<lambda>sd2.
          Ok (True, rw_sc w, sd2\<lparr>sd_rows := None\<rparr>)))) (\<lambda>(e, sc', sd'). e \<and> sd_out sd' = sd_out sd \<and> sent_objects sc' = sent_objects sc)"
      by (rule yields_bind [OF r]) (auto simp: assms(1) intro!: yields_bind [OF fetch_deleted_kept])
  qed
  then show ?thesis unfolding push_table_def Let_def assms(3)
    by (simp, elim yields_bind) (auto intro!: yields_bind_any)
qed

lemma open_table_rows: "yields (open_message_table V sc tt) (\<lambda>(rows, sc'). rows = [] \<or> (\<exists>cn b. rows = fetch_mids (table_rows V tt cn b)))"
  by (auto simp: yields_def open_message_table_def Let_def split: if_splits)

text \<open>A folder of which everything was seen: a synchronization sends no message.\<close>

lemma covered_sync_quiet:
  assumes folder: "folder_is_mapistore V" and cov: "covers V (snd (MailboxReplica (sy_replicas V) (sy_owner V))) (cnset_seen sc2) T"
    and nz: "0 \<notin> snd ` set T"
    and second: "sync_stage sc2 = 0" "req_normal (sc_request sc2)" "\<not> req_fai (sc_request sc2)"
    and unchanged: "\<And>cn b. set (fetch_mids (table_rows V MAPISTORE_MESSAGE_TABLE cn b)) \<subseteq> set T"
    and chunk: "make_chunk V sc2 = Ok (sc3, out)"
  shows "sync_stage sc3 = 4 \<and> sent_objects sc3 = sent_objects sc2 \<and>
    (\<exists>sc4 sd4 sc5 sd5. sd_out sd4 = out_empty \<and> sync_finish V (sc4, sd4) = Ok (sc5, sd5) \<and> out = sd_out sd5)"
proof -
  let ?g = "snd (MailboxReplica (sy_replicas V) (sy_owner V))" and ?sc = "sc2\<lparr>sync_stage := 1\<rparr>" and ?sd = "sync_start V sc2"
  have "yields (open_message_table V ?sc MAPISTORE_MESSAGE_TABLE) (\<lambda>(rows, sc'). 0 \<notin> snd ` set rows \<and> covers V (sd_guid ?sd) (cnset_seen ?sc) rows)"
  proof (rule yields_mono [OF open_table_rows], clarify)
    fix rows assume "rows = [] \<or> (\<exists>cn b. rows = fetch_mids (table_rows V MAPISTORE_MESSAGE_TABLE cn b))"
    then have "set rows \<subseteq> set T" using unchanged by auto
    then show "0 \<notin> snd ` set rows \<and> covers V (sd_guid ?sd) (cnset_seen ?sc) rows"
      using cov nz by (auto simp: covers_def sync_start_def)
  qed
  then have normal: "yields (sync_normal V (?sc, ?sd)) (\<lambda>(sc', sd'). sync_stage sc' = 2 \<and> sd_out sd' = out_empty \<and> sent_objects sc' = sent_objects sc2)"
    using seen_table [OF folder, of ?sc ?sd] second(2)
    by (simp add: sync_normal_def sync_start_def out_empty_def max_message_sync_size_def)
  from chunk obtain sc1 sd1 sca sda scb sdb scc sdc where c: "chunk_start V sc2 = Ok (sc1, sd1)" "sync_normal V (sc1, sd1) = Ok (sca, sda)"
    "sync_fai V (sca, sda) = Ok (scb, sdb)" "sync_finish V (scb, sdb) = Ok (scc, sdc)"
    "sc3 = scc\<lparr>sc_sync_data := (if sync_stage scc = 4 then None else Some sdc)\<rparr>" "out = sd_out sdc" by (rule make_chunk_stages)
  have 1: "sc1 = ?sc" "sd1 = ?sd" using c(1) second(1) by (simp_all add: chunk_start_def)
  have 2: "sync_stage sca = 2" "sd_out sda = out_empty" "sent_objects sca = sent_objects sc2" "\<not> req_fai (sc_request sca)"
    using yieldsD [OF normal] yieldsD [OF sync_normal_stage c(2)] c(2) second(3) unfolding 1 by auto
  then have 3: "scb = sca\<lparr>sync_stage := 3\<rparr>" "sdb = sda" using c(3) by (simp_all add: sync_fai_def)
  have 4: "sync_stage scc = 4" "sent_objects scc = sent_objects scb"
    using yieldsD [OF sync_finish_stage c(4)] yieldsD [OF finish_keeps_seen c(4)] 3 by simp_all
  show ?thesis using 2 3 4 c by auto
qed

text \<open>A folder that was downloaded completely, in any number of chunks, and has not changed: a second
  synchronization with the state of the first sends no message.\<close>

lemma second_sync_quiet:
  assumes G: "samba_laws (sy_samba V)" and g: "\<not> GUID_all_zero (sy_samba V) (snd (MailboxReplica (sy_replicas V) (sy_owner V)))"
    and folder: "folder_is_mapistore V" and first: "initial_sync V ps T sc" and ready: "list_all (message_ready V ps) T"
    and run: "(sync_step V)\<^sup>*\<^sup>* sc sc'" "sync_stage sc' = 4"
    and second: "sync_stage sc2 = 0" "req_normal (sc_request sc2)" "\<not> req_fai (sc_request sc2)" "cnset_seen sc2 = cnset_seen sc'"
    and unchanged: "\<And>cn b. set (fetch_mids (table_rows V MAPISTORE_MESSAGE_TABLE cn b)) \<subseteq> set T"
    and chunk: "make_chunk V sc2 = Ok (sc3, out)"
  shows "sync_stage sc3 = 4 \<and> sent_objects sc3 = sent_objects sc2 \<and>
    (\<exists>sc4 sd4 sc5 sd5. sd_out sd4 = out_empty \<and> sync_finish V (sc4, sd4) = Ok (sc5, sd5) \<and> out = sd_out sd5)"
proof (rule covered_sync_quiet [OF folder _ _ second(1-3) unchanged chunk])
  from sync_run_covered [OF G refl g _ first run(1)] run(2) second(4) opened_all [OF ready]
  show "covers V (snd (MailboxReplica (sy_replicas V) (sy_owner V))) (cnset_seen sc2) T"
    by (auto simp: sync_covered_def initial_sync_def)
  show "0 \<notin> snd ` set T" using ready by (auto simp: list_all_iff message_ready_def)
qed

text \<open>A message that could not be opened when the folder was downloaded, and whose change number is between those of two messages that were
  sent, is among the seen ones.\<close>

lemma unopened_covered:
  assumes G: "samba_laws (sy_samba V)" and g: "g = snd (MailboxReplica (sy_replicas V) (sy_owner V))" "\<not> GUID_all_zero (sy_samba V) g"
    and first: "initial_sync V ps T sc" and ok: "list_all (row_ok V ps) T"
    and run: "(sync_step V)\<^sup>*\<^sup>* sc sc'" "sync_stage sc' = 4"
    and sent: "(ea, a) \<in> set T" "message_ready V ps (ea, a)" "(eb, b) \<in> set T" "message_ready V ps (eb, b)"
    and between: "exchange_globcnt (globcnt_of a) \<le> exchange_globcnt x" "exchange_globcnt x \<le> exchange_globcnt (globcnt_of b)"
  shows "IDSET_includes_guid_glob (sy_samba V) (cnset_seen sc') (Some g) x"
proof -
  have own: "own_set g (cnset_seen sc')" "covers V g (cnset_seen sc') (opened V ps T)"
    using sync_run_covered [OF G g ok first run(1)] run(2) by (auto simp: sync_covered_def initial_sync_def)
  have "a \<in> set (map snd (opened V ps T))" "b \<in> set (map snd (opened V ps T))"
    using sent by (force simp: opened_def)+
  then show ?thesis using own(2) unfolding covers_def by (intro own_set_span [OF G own(1) _ _ between]) blast+
qed

end
