(* ===== verification/Oxcfxics_State.thy ===== *)
theory Oxcfxics_State
  imports Oxcfxics_Sync Mapi_Handles Idset_Wire
begin

unbundle bit_operations_syntax

text \<open>
  Uploading the state of a synchronization, from \<^verbatim>\<open>src/mapiproxy/servers/default/emsmdb/oxcfxics.c\<close>: the three calls
  with which a client hands back, piece by piece, the sets that it was given at the end of the last download, and
  \<^verbatim>\<open>emsmdbp_stream_write_buffer\<close> of \<^verbatim>\<open>emsmdbp_object.c\<close>. The objects of a session are kept in a store and are found
  through the handles.
\<close>

section \<open>Objects and streams\<close>

abbreviation "MAPI_E_INVALID_OBJECT \<equiv> MAPI_code 0x80040108"
abbreviation "MAPI_E_BAD_VALUE \<equiv> MAPI_code 0x80040301"

text \<open>The fields of a synchronization context that an upload uses; \<open>state_property\<close> is 0 while no set is being uploaded.\<close>

record ('g, 'db) sync_object =
  so_context :: "('g, 'db) synccontext"
  state_property :: u32
  state_stream :: emsmdbp_stream

datatype ('g, 'db) emsmdbp_object = EMSMDBP_OBJECT_SYNCCONTEXT "('g, 'db) sync_object" | EMSMDBP_OBJECT_OTHER

text \<open>The private data of a handle are the address of an object.\<close>

record ('h, 'g, 'db) emsmdbp_context =
  handles_ctx :: "('h, nat) mapi_handles_context"
  objects :: "nat \<Rightarrow> ('g, 'db) emsmdbp_object option"

text \<open>What the calls use of TDB, Samba and openchangedb; \<open>junk\<close> is what the uninitialised local variable of
  \<open>IDSET_parse\<close> holds.\<close>

record ('h, 'g) state_env =
  st_tdb :: "'h tdb_lib"
  st_lib :: "'g samba_lib"
  st_junk :: u32
  next_changeNumber :: "MAPISTATUS + u64"

text \<open>Bytes between the end of the buffer and a position behind it would be left uninitialised.\<close>

definition emsmdbp_stream_write_buffer :: "emsmdbp_stream \<Rightarrow> u8 list \<Rightarrow> emsmdbp_stream outcome" where
  "emsmdbp_stream_write_buffer s new_buffer =
     (let new_position = spos s + length new_buffer in
      if length (sbuf s) < spos s then Fault
      else Ok (s\<lparr>spos := new_position, sbuf := take (spos s) (sbuf s) @ new_buffer @ drop new_position (sbuf s)\<rparr>))"

section \<open>The calls\<close>

definition find_synccontext ::
  "'h tdb_lib \<Rightarrow> ('h, 'g, 'db) emsmdbp_context \<Rightarrow> u32 \<Rightarrow> (nat \<times> ('g, 'db) sync_object) option" where
  "find_synccontext T ctx h =
     (case mapi_handles_search T (handles_ctx ctx) h of
        (MAPI_E_SUCCESS, Some el) \<Rightarrow>
          (case snd (mapi_handles_get_private_data el) of
             None \<Rightarrow> None
           | Some p \<Rightarrow>
               (case objects ctx p of Some (EMSMDBP_OBJECT_SYNCCONTEXT so) \<Rightarrow> Some (p, so) | _ \<Rightarrow> None))
      | _ \<Rightarrow> None)"

text \<open>The frame that the three calls share: the handle is looked up, and the object changed in place.\<close>

definition with_synccontext ::
  "'h tdb_lib \<Rightarrow> ('h, 'g, 'db) emsmdbp_context \<Rightarrow> u32 list \<Rightarrow> nat \<Rightarrow>
     (('g, 'db) sync_object \<Rightarrow> (MAPISTATUS \<times> ('g, 'db) sync_object) outcome) \<Rightarrow>
     (MAPISTATUS \<times> ('h, 'g, 'db) emsmdbp_context) outcome" where
  "with_synccontext T ctx hs handle_idx f =
     obind (rd hs handle_idx) (\<lambda>h.
     case find_synccontext T ctx h of
       None \<Rightarrow> Ok (MAPI_E_INVALID_OBJECT, ctx)
     | Some (p, so) \<Rightarrow>
         obind (f so) (\<lambda>(error_code, so').
         Ok (error_code, ctx\<lparr>objects := (objects ctx)(p \<mapsto> EMSMDBP_OBJECT_SYNCCONTEXT so')\<rparr>)))"

definition upload_begin :: "u32 \<Rightarrow> ('g, 'db) sync_object \<Rightarrow> (MAPISTATUS \<times> ('g, 'db) sync_object) outcome" where
  "upload_begin property so =
     (if state_property so \<noteq> 0 then Ok (MAPI_E_NOT_INITIALIZED, so)
      else if property \<noteq> MetaTagIdsetGiven \<and> property \<noteq> MetaTagCnsetSeen \<and> property \<noteq> MetaTagCnsetSeenFAI \<and>
              property \<noteq> MetaTagCnsetRead then Ok (MAPI_E_INVALID_PARAMETER, so)
      else Ok (MAPI_E_SUCCESS, so\<lparr>state_property := property, state_stream := \<lparr>spos = 0, sbuf = []\<rparr>\<rparr>))"

definition upload_continue :: "u8 list \<Rightarrow> ('g, 'db) sync_object \<Rightarrow> (MAPISTATUS \<times> ('g, 'db) sync_object) outcome" where
  "upload_continue stream_data so =
     (if state_property so = 0 then Ok (MAPI_E_NOT_INITIALIZED, so)
      else
        obind (emsmdbp_stream_write_buffer (state_stream so) stream_data) (\<lambda>s.
        Ok (MAPI_E_SUCCESS, so\<lparr>state_stream := s\<rparr>)))"

text \<open>Only the first range of the set is looked at, also when there is none.\<close>

definition oxcfxics_check_cnset :: "('h, 'g) state_env \<Rightarrow> 'g idset list \<Rightarrow> MAPISTATUS outcome" where
  "oxcfxics_check_cnset E parsed_idset =
     (case parsed_idset of
        [] \<Rightarrow> Ok MAPI_E_SUCCESS
      | s # _ \<Rightarrow>
          (case next_changeNumber E of
             Inl retval \<Rightarrow> Ok retval
           | Inr next_cn \<Rightarrow>
               (case ranges s of
                  [] \<Rightarrow> Fault
                | r # _ \<Rightarrow>
                    Ok (if exchange_globcnt (high r) \<ge> exchange_globcnt (drop_bit 16 next_cn) then MAPI_E_BAD_VALUE else MAPI_E_SUCCESS))))"

definition mark_single :: "'g idset list \<Rightarrow> 'g idset list" where
  "mark_single ss = (case ss of [] \<Rightarrow> [] | s # rest \<Rightarrow> s\<lparr>single := True\<rparr> # rest)"

definition upload_store ::
  "('h, 'g) state_env \<Rightarrow> u32 \<Rightarrow> 'g idset list \<Rightarrow> ('g, 'db) synccontext \<Rightarrow> (MAPISTATUS \<times> ('g, 'db) synccontext) outcome" where
  "upload_store E property parsed_idset sc =
     (if property = MetaTagIdsetGiven then Ok (MAPI_E_SUCCESS, sc\<lparr>idset_given := parsed_idset\<rparr>)
      else
        let seen = mark_single parsed_idset in
        obind (oxcfxics_check_cnset E seen) (\<lambda>retval.
        Ok (retval,
            if retval \<noteq> MAPI_E_SUCCESS then sc
            else if property = MetaTagCnsetSeen then sc\<lparr>cnset_seen := seen\<rparr>
            else if property = MetaTagCnsetSeenFAI then sc\<lparr>cnset_seen_fai := seen\<rparr>
            else sc\<lparr>cnset_read := seen\<rparr>)))"

text \<open>The buffer is emptied; the position is left for the next \<^verbatim>\<open>RopSyncUploadStateStreamBegin\<close> to set back.\<close>

definition upload_end :: "('h, 'g) state_env \<Rightarrow> ('g, 'db) sync_object \<Rightarrow> (MAPISTATUS \<times> ('g, 'db) sync_object) outcome" where
  "upload_end E so =
     (if state_property so = 0 then Ok (MAPI_E_NOT_INITIALIZED, so)
      else
        let idle = so\<lparr>state_stream := (state_stream so)\<lparr>sbuf := []\<rparr>, state_property := 0\<rparr> in
        obind (IDSET_parse (st_lib E) (st_junk E) (sbuf (state_stream so)) False) (\<lambda>parsed_idset.
        if IDSET_check_ranges parsed_idset \<noteq> MAPI_E_SUCCESS then Ok (IDSET_check_ranges parsed_idset, idle)
        else
          obind (upload_store E (state_property so) parsed_idset (so_context so)) (\<lambda>(retval, sc).
          Ok (retval, idle\<lparr>so_context := sc\<rparr>))))"

definition EcDoRpc_RopSyncUploadStateStreamBegin where
  "EcDoRpc_RopSyncUploadStateStreamBegin E ctx hs handle_idx property =
     with_synccontext (st_tdb E) ctx hs handle_idx (upload_begin property)"

definition EcDoRpc_RopSyncUploadStateStreamContinue where
  "EcDoRpc_RopSyncUploadStateStreamContinue E ctx hs handle_idx stream_data =
     with_synccontext (st_tdb E) ctx hs handle_idx (upload_continue stream_data)"

definition EcDoRpc_RopSyncUploadStateStreamEnd where
  "EcDoRpc_RopSyncUploadStateStreamEnd E ctx hs handle_idx =
     with_synccontext (st_tdb E) ctx hs handle_idx (upload_end E)"

text \<open>A client that uploads a set in pieces; it stops at the first error.\<close>

definition proceed :: "(MAPISTATUS \<times> 'c) outcome \<Rightarrow> ('c \<Rightarrow> (MAPISTATUS \<times> 'c) outcome) \<Rightarrow> (MAPISTATUS \<times> 'c) outcome" where
  "proceed r f = obind r (\<lambda>(code, ctx). if code = MAPI_E_SUCCESS then f ctx else Ok (code, ctx))"

fun upload_pieces ::
  "('h, 'g) state_env \<Rightarrow> u32 list \<Rightarrow> nat \<Rightarrow> u8 list list \<Rightarrow> ('h, 'g, 'db) emsmdbp_context \<Rightarrow>
     (MAPISTATUS \<times> ('h, 'g, 'db) emsmdbp_context) outcome" where
  "upload_pieces E hs i [] ctx = EcDoRpc_RopSyncUploadStateStreamEnd E ctx hs i"
| "upload_pieces E hs i (p # ps) ctx = proceed (EcDoRpc_RopSyncUploadStateStreamContinue E ctx hs i p) (upload_pieces E hs i ps)"

definition upload_state ::
  "('h, 'g) state_env \<Rightarrow> u32 list \<Rightarrow> nat \<Rightarrow> u32 \<Rightarrow> u8 list list \<Rightarrow> ('h, 'g, 'db) emsmdbp_context \<Rightarrow>
     (MAPISTATUS \<times> ('h, 'g, 'db) emsmdbp_context) outcome" where
  "upload_state E hs i property pieces ctx =
     proceed (EcDoRpc_RopSyncUploadStateStreamBegin E ctx hs i property) (upload_pieces E hs i pieces)"

section \<open>The object behind a handle\<close>

definition put_object :: "nat \<Rightarrow> ('g, 'db) sync_object \<Rightarrow> ('h, 'g, 'db) emsmdbp_context \<Rightarrow> ('h, 'g, 'db) emsmdbp_context" where
  "put_object p so ctx = ctx\<lparr>objects := (objects ctx)(p \<mapsto> EMSMDBP_OBJECT_SYNCCONTEXT so)\<rparr>"

definition has_synccontext where
  "has_synccontext E ctx hs i p so \<longleftrightarrow> (\<exists>h. rd hs i = Ok h \<and> find_synccontext (st_tdb E) ctx h = Some (p, so))"

lemma put_put [simp]: "put_object p so' (put_object p so ctx) = put_object p so' ctx"
  by (simp add: put_object_def)

lemma find_synccontext_object: "find_synccontext T ctx h = Some (p, so) \<Longrightarrow> objects ctx p = Some (EMSMDBP_OBJECT_SYNCCONTEXT so)"
  by (auto simp: find_synccontext_def split: prod.splits MAPISTATUS.splits option.splits emsmdbp_object.splits)

lemma find_put:
  assumes "find_synccontext T ctx h = Some (p, so)" shows "find_synccontext T (put_object p so' ctx) h = Some (p, so')"
  using assms by (auto simp: find_synccontext_def put_object_def split: prod.splits MAPISTATUS.splits option.splits emsmdbp_object.splits)

lemma has_put: "has_synccontext E ctx hs i p so \<Longrightarrow> has_synccontext E (put_object p so' ctx) hs i p so'"
  by (auto simp: has_synccontext_def find_put)

lemma put_same: "has_synccontext E ctx hs i p so \<Longrightarrow> put_object p so ctx = ctx"
  by (auto simp: has_synccontext_def put_object_def fun_upd_idem dest: find_synccontext_object)

lemma with_found:
  assumes "has_synccontext E ctx hs i p so"
  shows "with_synccontext (st_tdb E) ctx hs i f = obind (f so) (\<lambda>(c, so'). Ok (c, put_object p so' ctx))"
  using assms by (auto simp: has_synccontext_def with_synccontext_def put_object_def)

lemmas upload_calls = EcDoRpc_RopSyncUploadStateStreamBegin_def EcDoRpc_RopSyncUploadStateStreamContinue_def EcDoRpc_RopSyncUploadStateStreamEnd_def

section \<open>A set in pieces\<close>

lemma write_at_end: "emsmdbp_stream_write_buffer \<lparr>spos = length bs, sbuf = bs\<rparr> cs = Ok \<lparr>spos = length (bs @ cs), sbuf = bs @ cs\<rparr>"
  by (simp add: emsmdbp_stream_write_buffer_def)

lemma upload_pieces_joined:
  assumes "has_synccontext E ctx hs i p so" and "state_property so \<noteq> 0" and "state_stream so = \<lparr>spos = length bs, sbuf = bs\<rparr>"
  shows "upload_pieces E hs i ps ctx =
    obind (upload_end E (so\<lparr>state_stream := \<lparr>spos = length (bs @ concat ps), sbuf = bs @ concat ps\<rparr>\<rparr>)) (\<lambda>(c, so'). Ok (c, put_object p so' ctx))"
  using assms
proof (induction ps arbitrary: bs so ctx)
  case Nil
  have e: "so\<lparr>state_stream := \<lparr>spos = length bs, sbuf = bs\<rparr>\<rparr> = so" using Nil(3) by (cases so) simp
  show ?case using Nil(1) by (simp add: upload_calls with_found e)
next
  case (Cons q ps)
  let ?so = "so\<lparr>state_stream := \<lparr>spos = length (bs @ q), sbuf = bs @ q\<rparr>\<rparr>"
  have "EcDoRpc_RopSyncUploadStateStreamContinue E ctx hs i q = Ok (MAPI_E_SUCCESS, put_object p ?so ctx)"
    using Cons.prems by (simp add: upload_calls with_found upload_continue_def write_at_end)
  then show ?case
    using Cons.IH [OF has_put [OF Cons.prems(1)], of ?so "bs @ q"] Cons.prems(2) by (simp add: proceed_def)
qed

definition state_tag :: "u32 \<Rightarrow> bool" where
  "state_tag t \<longleftrightarrow> t = MetaTagIdsetGiven \<or> t = MetaTagCnsetSeen \<or> t = MetaTagCnsetSeenFAI \<or> t = MetaTagCnsetRead"

lemma upload_state_joined:
  assumes "has_synccontext E ctx hs i p so" and "state_property so = 0" and "state_tag t"
  shows "upload_state E hs i t ps ctx =
    obind (upload_end E (so\<lparr>state_property := t, state_stream := \<lparr>spos = length (concat ps), sbuf = concat ps\<rparr>\<rparr>)) (\<lambda>(c, so'). Ok (c, put_object p so' ctx))"
proof -
  let ?so = "so\<lparr>state_property := t, state_stream := \<lparr>spos = 0, sbuf = []\<rparr>\<rparr>"
  have "EcDoRpc_RopSyncUploadStateStreamBegin E ctx hs i t = Ok (MAPI_E_SUCCESS, put_object p ?so ctx)"
    using assms by (auto simp: upload_calls with_found upload_begin_def state_tag_def)
  moreover have "t \<noteq> 0" using assms(3) by (auto simp: state_tag_def)
  ultimately show ?thesis
    using upload_pieces_joined [OF has_put [OF assms(1)], of ?so "[]" ps] by (simp add: upload_state_def proceed_def)
qed

section \<open>What an upload does\<close>

definition set_state :: "u32 \<Rightarrow> 'g idset list \<Rightarrow> ('g, 'db) synccontext \<Rightarrow> ('g, 'db) synccontext" where
  "set_state t ss sc =
     (if t = MetaTagIdsetGiven then sc\<lparr>idset_given := ss\<rparr> else if t = MetaTagCnsetSeen then sc\<lparr>cnset_seen := ss\<rparr>
      else if t = MetaTagCnsetSeenFAI then sc\<lparr>cnset_seen_fai := ss\<rparr> else sc\<lparr>cnset_read := ss\<rparr>)"

text \<open>The set is one that the server gives away: one replica, ranges in order, and no change number that is still to come.\<close>

definition state_ok :: "('h, 'g) state_env \<Rightarrow> 'g idset \<Rightarrow> bool" where
  "state_ok E s \<longleftrightarrow> counted s \<and> (\<exists>g. repl s = ReplGuid g) \<and> ranges s \<noteq> [] \<and> list_all (\<lambda>r. wf_range r \<and> ordered r) (ranges s) \<and>
     length (IDSET_serialize (st_lib E) [s]) < 2 ^ 32 \<and>
     (\<exists>cn. next_changeNumber E = Inr cn \<and> exchange_globcnt (high (hd (ranges s))) < exchange_globcnt (drop_bit 16 cn))"

lemma parse_own:
  assumes "samba_laws (st_lib E)" and "state_ok E s"
  shows "IDSET_parse (st_lib E) (st_junk E) (IDSET_serialize (st_lib E) [s]) False = Ok [s\<lparr>single := False\<rparr>]"
proof -
  from assms(2) obtain g where s: "counted s" "repl s = ReplGuid g" "\<forall>r \<in> set (ranges s). wf_range r"
    "length (IDSET_serialize (st_lib E) [s]) < 2 ^ 32" by (auto simp: state_ok_def list_all_iff)
  from IDSET_parse_serialize_one [OF assms(1) s(3,1,4)] s(2) show ?thesis by simp
qed

lemma upload_end_stored:
  assumes G: "samba_laws (st_lib E)" and s: "state_ok E s" and t: "state_tag t" "state_property so = t"
    and b: "sbuf (state_stream so) = IDSET_serialize (st_lib E) [s]"
  shows "upload_end E so = Ok (MAPI_E_SUCCESS,
    so\<lparr>so_context := set_state t [s\<lparr>single := t \<noteq> MetaTagIdsetGiven\<rparr>] (so_context so), state_property := 0,
       state_stream := (state_stream so)\<lparr>sbuf := []\<rparr>\<rparr>)"
proof -
  let ?s = "s\<lparr>single := False\<rparr>"
  have "IDSET_check_ranges [?s] = MAPI_E_SUCCESS"
    using s set_take_subset by (fastforce simp: state_ok_def counted_def check_ranges_iff list_all_iff unat_of_nat)
  moreover obtain r rs cn where r: "ranges s = r # rs" "next_changeNumber E = Inr cn" "exchange_globcnt (high r) < exchange_globcnt (drop_bit 16 cn)"
    using s by (auto simp: state_ok_def neq_Nil_conv)
  moreover have "oxcfxics_check_cnset E (mark_single [?s]) = Ok MAPI_E_SUCCESS"
    using r by (simp add: oxcfxics_check_cnset_def mark_single_def)
  ultimately show ?thesis using t b parse_own [OF G s]
    by (auto simp: upload_end_def upload_store_def state_tag_def set_state_def Let_def mark_single_def)
qed

lemma upload_end_refused:
  assumes "upload_end E so = Ok (c, so')" and "c \<noteq> MAPI_E_SUCCESS"
  shows "so_context so' = so_context so \<and> state_property so' = 0"
  using assms by (auto simp: upload_end_def upload_store_def Let_def split: if_splits)

text \<open>A set without ranges, which is a GUID and an empty GLOBSET.\<close>

lemma upload_end_empty:
  assumes G: "samba_laws (st_lib E)" and t: "state_tag (state_property so)" "state_property so \<noteq> MetaTagIdsetGiven"
    and b: "sbuf (state_stream so) = ndr_push_GUID (st_lib E) g @ [0]" and n: "next_changeNumber E = Inr cn"
  shows "upload_end E so = Fault"
proof -
  let ?s = "\<lparr>repl = ReplGuid g, single = False, range_count = 0, ranges = []\<rparr>"
  have e: "IDSET_serialize (st_lib E) [?s] = ndr_push_GUID (st_lib E) g @ [0]"
    by (simp add: IDSET_serialize_def GLOBSET_serialize_def)
  have "length (ndr_push_GUID (st_lib E) g @ [0]) < 2 ^ 32" using G by (simp add: samba_laws_def)
  then have "IDSET_parse (st_lib E) (st_junk E) (ndr_push_GUID (st_lib E) g @ [0]) False = Ok [?s]"
    using IDSET_parse_serialize_one [OF G, of ?s "st_junk E"] e by (simp add: counted_def)
  then show ?thesis using t b n
    by (auto simp: upload_end_def upload_store_def state_tag_def oxcfxics_check_cnset_def mark_single_def Let_def)
qed

end
