(* ===== verification/Oxcfxics_Cycle.thy ===== *)
theory Oxcfxics_Cycle
  imports Oxcfxics_Resync Oxcfxics_State
begin

unbundle bit_operations_syntax

text \<open>
  The state of a synchronization goes to the client at the end of a download and comes back before the next one. What the
  upload of a set does, and what it means for the next download.
\<close>

section \<open>The upload\<close>

text \<open>A session with one object, a context for the sample folder, behind the handle 1.\<close>

definition sample_object :: "(128 word, (string \<times> string) list) sync_object" where
  "sample_object = \<lparr>so_context = sample_context, state_property = 0, state_stream = \<lparr>spos = 0, sbuf = []\<rparr>\<rparr>"

definition sample_session :: "((string \<times> string) list, 128 word, (string \<times> string) list) emsmdbp_context" where
  "sample_session =
     \<lparr>handles_ctx = \<lparr>tdb_ctx = [(fmt_handle 1, MAPI_HANDLES_ROOT)], last_handle = 2,
        handles = [\<lparr>handle = 1, parent_handle = 0, private_data = Some 0\<rparr>]\<rparr>,
      objects = [0 \<mapsto> EMSMDBP_OBJECT_SYNCCONTEXT sample_object]\<rparr>"

definition sample_state_env :: "((string \<times> string) list, 128 word) state_env" where
  "sample_state_env = \<lparr>st_tdb = assoc_tdb, st_lib = lib128, st_junk = 99, next_changeNumber = Inr 0xA0000\<rparr>"

lemma sample_has: "has_synccontext sample_state_env sample_session [1] 0 0 sample_object"
  by (simp add: has_synccontext_def find_synccontext_def sample_session_def sample_state_env_def mapi_handles_search_def
      mapi_handles_get_private_data_def find_handle_def assoc_tdb_def MAPI_HANDLES_RESERVED_def rd_def)

lemma sample_state_ok: "state_ok sample_state_env (hd (seen_single True 9))"
proof -
  have "exchange_globcnt 9 < exchange_globcnt 0xA" by code_simp
  moreover have "wf_range \<lparr>low = 9, high = 9\<rparr>" by code_simp
  moreover have "length (IDSET_serialize lib128 (seen_single True 9)) < 2 ^ 32" using seen_bytes(1) [of True] by simp
  ultimately show ?thesis by (simp add: state_ok_def sample_state_env_def counted_def seen_single_def)
qed

lemma upload_stored:
  assumes "samba_laws (st_lib E)" and "has_synccontext E ctx hs i p so" and "state_property so = 0" and "state_tag t" and "state_ok E s"
    and "concat pieces = IDSET_serialize (st_lib E) [s]"
  shows "\<exists>n. upload_state E hs i t pieces ctx = Ok (MAPI_E_SUCCESS, put_object p
    (so\<lparr>so_context := set_state t [s\<lparr>single := t \<noteq> MetaTagIdsetGiven\<rparr>] (so_context so), state_stream := \<lparr>spos = n, sbuf = []\<rparr>\<rparr>) ctx)"
proof -
  let ?so = "so\<lparr>state_property := t, state_stream := \<lparr>spos = length (concat pieces), sbuf = concat pieces\<rparr>\<rparr>"
  have e: "so\<lparr>state_property := 0\<rparr> = so" using assms(3) by (cases so) simp
  have "upload_end E ?so = Ok (MAPI_E_SUCCESS, (so\<lparr>state_property := 0\<rparr>)\<lparr>so_context := set_state t [s\<lparr>single := t \<noteq> MetaTagIdsetGiven\<rparr>] (so_context so),
      state_stream := \<lparr>spos = length (concat pieces), sbuf = []\<rparr>\<rparr>)"
    using upload_end_stored [OF assms(1,5,4), of ?so] assms(6) by simp
  then show ?thesis using upload_state_joined [OF assms(2-4), of pieces] unfolding e by auto
qed

text \<open>C5 A set that is uploaded in any number of pieces is stored in the context as it was given away; the context
  is ready for the next set, and nothing else of it, and no other object, has changed.\<close>

theorem upload_state_roundtrip:
  assumes "samba_laws (st_lib E)" and "has_synccontext E ctx hs i p so" and "state_property so = 0" and "state_tag t" and "state_ok E s"
    and "concat pieces = IDSET_serialize (st_lib E) [s]"
  shows "\<exists>n. upload_state E hs i t pieces ctx = Ok (MAPI_E_SUCCESS, put_object p
    (so\<lparr>so_context := set_state t [s\<lparr>single := t \<noteq> MetaTagIdsetGiven\<rparr>] (so_context so), state_stream := \<lparr>spos = n, sbuf = []\<rparr>\<rparr>) ctx)"
  by (rule upload_stored [OF assms])

theorem upload_state_roundtrip_witness:
  "\<exists>n. upload_state sample_state_env [1] 0 MetaTagCnsetSeen [take 5 (IDSET_serialize lib128 (seen_single True 9)),
      drop 5 (IDSET_serialize lib128 (seen_single True 9))] sample_session =
    Ok (MAPI_E_SUCCESS, put_object 0 (sample_object\<lparr>so_context := sample_context\<lparr>cnset_seen := seen_single True 9\<rparr>,
      state_stream := \<lparr>spos = n, sbuf = []\<rparr>\<rparr>) sample_session)"
proof -
  have "concat [take 5 (IDSET_serialize lib128 (seen_single True 9)), drop 5 (IDSET_serialize lib128 (seen_single True 9))] =
      IDSET_serialize (st_lib sample_state_env) [hd (seen_single True 9)]"
    by (simp add: sample_state_env_def seen_single_def)
  from upload_state_roundtrip [OF _ sample_has _ _ sample_state_ok this, of MetaTagCnsetSeen]
  show ?thesis
    by (simp add: sample_state_env_def samba_laws_lib128 sample_object_def state_tag_def set_state_def seen_single_def)
qed

text \<open>C33 The calls keep to a protocol: while a set is being uploaded no other can be started; without one nothing can be
  added or ended; and a set that is refused at the end leaves the context as it was, ready for the next one.\<close>

theorem upload_protocol:
  assumes "has_synccontext E ctx hs i p so"
  shows "(state_property so \<noteq> 0 \<longrightarrow> EcDoRpc_RopSyncUploadStateStreamBegin E ctx hs i t = Ok (MAPI_E_NOT_INITIALIZED, ctx)) \<and>
    (state_property so = 0 \<longrightarrow> EcDoRpc_RopSyncUploadStateStreamContinue E ctx hs i bs = Ok (MAPI_E_NOT_INITIALIZED, ctx) \<and>
       EcDoRpc_RopSyncUploadStateStreamEnd E ctx hs i = Ok (MAPI_E_NOT_INITIALIZED, ctx)) \<and>
    (\<forall>c ctx'. EcDoRpc_RopSyncUploadStateStreamEnd E ctx hs i = Ok (c, ctx') \<longrightarrow> c \<noteq> MAPI_E_SUCCESS \<longrightarrow>
       (\<exists>so'. ctx' = put_object p so' ctx \<and> so_context so' = so_context so \<and> state_property so' = 0))"
proof -
  have "\<exists>so'. ctx' = put_object p so' ctx \<and> so_context so' = so_context so \<and> state_property so' = 0"
    if e: "EcDoRpc_RopSyncUploadStateStreamEnd E ctx hs i = Ok (c, ctx')" and c: "c \<noteq> MAPI_E_SUCCESS" for c ctx'
  proof -
    from e obtain so' where "upload_end E so = Ok (c, so')" "ctx' = put_object p so' ctx"
      using assms by (auto simp: upload_calls with_found)
    with upload_end_refused [OF _ c] show ?thesis by blast
  qed
  then show ?thesis using assms put_same [OF assms]
    by (auto simp: upload_calls with_found upload_begin_def upload_continue_def upload_end_def)
qed

theorem upload_protocol_witness:
  "EcDoRpc_RopSyncUploadStateStreamEnd sample_state_env sample_session [1] 0 = Ok (MAPI_E_NOT_INITIALIZED, sample_session)"
  using upload_protocol [OF sample_has] by (simp add: sample_object_def)

text \<open>A set without ranges brings the server down: the check of the change numbers follows the null pointer to
  the first range, whatever the pieces in which the GUID and the empty GLOBSET arrive.\<close>

theorem upload_empty_set_crash:
  assumes "samba_laws (st_lib E)" and "has_synccontext E ctx hs i p so" and "state_property so = 0" and "state_tag t" and "t \<noteq> MetaTagIdsetGiven"
    and "next_changeNumber E = Inr cn" and "concat pieces = ndr_push_GUID (st_lib E) g @ [0]"
  shows "upload_state E hs i t pieces ctx = Fault"
proof -
  let ?so = "so\<lparr>state_property := t, state_stream := \<lparr>spos = length (concat pieces), sbuf = concat pieces\<rparr>\<rparr>"
  have "upload_end E ?so = Fault" by (rule upload_end_empty [OF assms(1) _ _ _ assms(6)]) (use assms in simp_all)
  then show ?thesis using upload_state_joined [OF assms(2-4), of pieces] by simp
qed

theorem upload_empty_set_crash_witness:
  "upload_state sample_state_env [1] 0 MetaTagCnsetRead [le_bytes 16 (7 :: 128 word), [0]] sample_session = Fault"
  using upload_empty_set_crash [OF _ sample_has, of MetaTagCnsetRead "0xA0000" "[le_bytes 16 (7 :: 128 word), [0]]" 7]
  by (simp add: sample_state_env_def samba_laws_lib128 sample_object_def state_tag_def, simp add: lib128_def)

section \<open>From one download to the next\<close>

lemma own_set_state_ok:
  assumes "own_set g [s]" and "next_changeNumber E = Inr cn" and "exchange_globcnt (high (hd (ranges s))) < exchange_globcnt (drop_bit 16 cn)"
    and "length (IDSET_serialize (st_lib E) [s]) < 2 ^ 32"
  shows "state_ok E s \<and> s\<lparr>single := True\<rparr> = s"
  using assms by (cases s) (auto simp: own_set_def state_ok_def counted_def)

text \<open>The sample folder, synchronized a second time.\<close>

abbreviation sample_again :: "(128 word, (string \<times> string) list) synccontext" where
  "sample_again \<equiv> sample_context\<lparr>cnset_seen := seen_single True 9\<rparr>"

lemma seen_single_includes: "IDSET_includes_guid_glob lib128 (seen_single b x) (Some 7) x"
  by (simp add: seen_single_def own_set_includes [OF samba_laws_lib128])

lemma sample_again_rows:
  obtains sc where "oxcfxics_push_messageChange sample_env (sample_again\<lparr>sync_stage := Suc 0\<rparr>)
      ((sync_start sample_env sample_again)\<lparr>sd_cnset_seen := [RAWIDSET_make lib128 False True], sd_table_type := MAPISTORE_MESSAGE_TABLE\<rparr>) =
    Ok (True, sc, sample_sent [RAWIDSET_make lib128 False True] out_empty)"
    and "cnset_seen sc = seen_single True 9" and "idset_given sc = []" and "sc_request sc = sample_request"
proof -
  have "emsmdbp_guid_to_replid env128 l ''u'' 7 = (MAPI_E_SUCCESS, l, Some 1)" for l
    by (simp add: emsmdbp_guid_to_replid_def env128_def)
  then have o: "open_message_table sample_env (sample_again\<lparr>sync_stage := Suc 0\<rparr>) MAPISTORE_MESSAGE_TABLE =
      Ok ([(0x50001, 0x90001)], sample_again\<lparr>sync_stage := Suc 0, total_objects := 1\<rparr>)"
    by (simp add: open_message_table_def oxcfxics_table_set_cn_restriction_def original_cnset_seen_def) (simp add: seen_single_def sample_context_def)
  have s: "seen_single True 9 \<noteq> [] \<and> 0 < range_count (hd (seen_single True 9))" "ranges (hd (seen_single True 9)) = [\<lparr>low = 9, high = 9\<rparr>]"
    by (simp_all add: seen_single_def)
  show thesis
    by (rule that [of "sample_again\<lparr>sync_stage := Suc 0, total_objects := 1, skipped_objects := skipped_objects sample_context + 1\<rparr>"])
      (simp_all add: oxcfxics_push_messageChange_def o sync_start_def message_row_def note_eid_def globcnt_of_def push_first out_empty_def
       max_message_sync_size_def original_cnset_seen_def seen_single_includes skip_object_def fetch_deleted_def s sample_sent_def del: obind_eq_Ok_iff)
qed

lemma sample_again_chunk: obtains sc out where "make_chunk sample_env sample_again = Ok (sc, out)"
proof -
  obtain sc where r: "oxcfxics_push_messageChange sample_env (sample_again\<lparr>sync_stage := Suc 0\<rparr>)
      ((sync_start sample_env sample_again)\<lparr>sd_cnset_seen := [RAWIDSET_make lib128 False True], sd_table_type := MAPISTORE_MESSAGE_TABLE\<rparr>) =
    Ok (True, sc, sample_sent [RAWIDSET_make lib128 False True] out_empty)"
    and sc: "cnset_seen sc = seen_single True 9" "idset_given sc = []" "sc_request sc = sample_request" by (rule sample_again_rows)
  have n: "RAWIDSET_convert_to_idset lib128 [RAWIDSET_make lib128 False True] = []"
    by (simp add: RAWIDSET_convert_to_idset_def RAWIDSET_make_def)
  have m: "IDSET_merge_idsets lib128 (seen_single True 9) [] = Ok (seen_single True 9)"
    by (simp add: IDSET_merge_idsets_def seen_single_def)
  have 0: "sd_rows (sync_start sample_env sample_again) = None" by (simp add: sync_start_def)
  have 1: "sync_normal sample_env (sample_again\<lparr>sync_stage := 1\<rparr>, sync_start sample_env sample_again) =
      Ok (sc\<lparr>sync_stage := 2\<rparr>, sample_sent [RAWIDSET_make lib128 False True] out_empty)"
    using r sc(1) 0 by (simp add: sync_normal_def push_table_def n m del: obind_eq_Ok_iff)
  have 2: "sync_fai sample_env (sc\<lparr>sync_stage := 2\<rparr>, sd) = Ok (sc\<lparr>sync_stage := 3\<rparr>, sd)" for sd
    using sc(3) by (simp add: sync_fai_def)
  have 3: "push_deletions sample_env sc' (sample_sent cns out) = Ok (sc', sample_sent cns out)" for sc' cns out
    by (simp add: push_deletions_def raw_count_positive_def sample_sent_def sync_start_def RAWIDSET_make_def)
  have 4: "sd_eid_set (sample_sent cns out) = [\<lparr>raw_repl = ReplGuid 7, raw_single = False, globcnts = [5], max_count = 256\<rparr>]" for cns out
    by (simp add: sample_sent_def)
  obtain x where "push_state sample_env (sc\<lparr>sync_stage := 3\<rparr>) (sample_sent [RAWIDSET_make lib128 False True] out_empty) = Ok x"
    using sc by (simp add: push_state_def 4 conv merge del: obind_eq_Ok_iff)
  with 1 2 3 show thesis
    by (intro that) (simp add: make_chunk_def sync_finish_def split_beta del: obind_eq_Ok_iff)
qed

text \<open>C2 The state of a synchronization works: a folder is downloaded in any number of chunks, the client uploads the change
  numbers it was given at the end, in any number of pieces, into a new context, and downloads again. If the folder has not changed,
  the second download is one chunk, in which no message is sent, but only the deletions and the state.\<close>

theorem sync_state_cycle:
  assumes G: "samba_laws (sy_samba V)" and g: "\<not> GUID_all_zero (sy_samba V) (snd (MailboxReplica (sy_replicas V) (sy_owner V)))"
    and folder: "folder_is_mapistore V" "initial_sync V ps T sc" "list_all (message_ready V ps) T"
    and run: "(sync_step V)\<^sup>*\<^sup>* sc sc'" "sync_stage sc' = 4" "cnset_seen sc' = [s]"
    and unchanged: "\<And>cn b. set (fetch_mids (table_rows V MAPISTORE_MESSAGE_TABLE cn b)) \<subseteq> set T"
    and object: "has_synccontext E ctx hs i p so" "state_property so = 0" "st_lib E = sy_samba V"
    and issued: "next_changeNumber E = Inr cn" "exchange_globcnt (high (hd (ranges s))) < exchange_globcnt (drop_bit 16 cn)"
    and pieces: "concat pieces = IDSET_serialize (sy_samba V) (cnset_seen sc')" "length (concat pieces) < 2 ^ 32"
    and again: "sync_stage (so_context so) = 0" "req_normal (sc_request (so_context so))" "\<not> req_fai (sc_request (so_context so))"
  shows "\<exists>ctx' so'. upload_state E hs i MetaTagCnsetSeen pieces ctx = Ok (MAPI_E_SUCCESS, ctx') \<and> has_synccontext E ctx' hs i p so' \<and>
    so_context so' = (so_context so)\<lparr>cnset_seen := cnset_seen sc'\<rparr> \<and>
    yields (make_chunk V (so_context so')) (\<lambda>(sc3, out). sync_stage sc3 = 4 \<and> sent_objects sc3 = sent_objects (so_context so) \<and>
      (\<exists>sc4 sd4 sc5 sd5. sd_out sd4 = out_empty \<and> sync_finish V (sc4, sd4) = Ok (sc5, sd5) \<and> out = sd_out sd5))"
proof -
  let ?g = "snd (MailboxReplica (sy_replicas V) (sy_owner V))"
  have "own_set ?g [s]"
    using sync_run_covered [OF G refl g _ folder(2) run(1)] opened_all [OF folder(3)] run(2,3) by (auto simp: sync_covered_def initial_sync_def)
  from own_set_state_ok [OF this issued] pieces run(3) object(3) have s: "state_ok E s" "s\<lparr>single := True\<rparr> = s" by simp_all
  have "\<exists>n. upload_state E hs i MetaTagCnsetSeen pieces ctx = Ok (MAPI_E_SUCCESS, put_object p
    (so\<lparr>so_context := set_state MetaTagCnsetSeen [s\<lparr>single := MetaTagCnsetSeen \<noteq> MetaTagIdsetGiven\<rparr>] (so_context so), state_stream := \<lparr>spos = n, sbuf = []\<rparr>\<rparr>) ctx)"
    by (rule upload_stored [OF _ object(1,2) _ s(1)]) (use G pieces(1) run(3) object(3) in \<open>simp_all add: state_tag_def\<close>)
  then obtain n where u: "upload_state E hs i MetaTagCnsetSeen pieces ctx = Ok (MAPI_E_SUCCESS, put_object p
    (so\<lparr>so_context := (so_context so)\<lparr>cnset_seen := [s]\<rparr>, state_stream := \<lparr>spos = n, sbuf = []\<rparr>\<rparr>) ctx)"
    using s(2) by (auto simp: set_state_def)
  let ?so = "so\<lparr>so_context := (so_context so)\<lparr>cnset_seen := [s]\<rparr>, state_stream := \<lparr>spos = n, sbuf = []\<rparr>\<rparr>"
  have "yields (make_chunk V (so_context ?so)) (\<lambda>(sc3, out). sync_stage sc3 = 4 \<and> sent_objects sc3 = sent_objects (so_context so) \<and>
      (\<exists>sc4 sd4 sc5 sd5. sd_out sd4 = out_empty \<and> sync_finish V (sc4, sd4) = Ok (sc5, sd5) \<and> out = sd_out sd5))"
    unfolding yields_def
  proof (intro allI impI, clarify)
    fix sc3 out assume "make_chunk V (so_context ?so) = Ok (sc3, out)"
    from second_sync_quiet [OF G g folder run(1,2) _ _ _ _ unchanged this] again run(3)
    show "sync_stage sc3 = 4 \<and> sent_objects sc3 = sent_objects (so_context so) \<and>
      (\<exists>sc4 sd4 sc5 sd5. sd_out sd4 = out_empty \<and> sync_finish V (sc4, sd4) = Ok (sc5, sd5) \<and> out = sd_out sd5)" by simp
  qed
  moreover have "so_context ?so = (so_context so)\<lparr>cnset_seen := cnset_seen sc'\<rparr>" using run(3) by simp
  ultimately show ?thesis using u has_put [OF object(1)] by blast
qed

theorem sync_state_cycle_witness:
  "\<exists>sc' ctx' so' sc3 out. (sync_step sample_env)\<^sup>*\<^sup>* sample_context sc' \<and> sync_stage sc' = 4 \<and>
    upload_state sample_state_env [1] 0 MetaTagCnsetSeen [IDSET_serialize lib128 (cnset_seen sc')] sample_session = Ok (MAPI_E_SUCCESS, ctx') \<and>
    has_synccontext sample_state_env ctx' [1] 0 0 so' \<and>
    make_chunk sample_env (so_context so') = Ok (sc3, out) \<and> sync_stage sc3 = 4 \<and> sent_objects sc3 = 0"
proof -
  obtain sc' o1 where c: "make_chunk sample_env sample_context = Ok (sc', o1)" "sync_stage sc' = 4" "cnset_seen sc' = seen_single True 9"
    by (rule sample_chunk)
  then have run: "(sync_step sample_env)\<^sup>*\<^sup>* sample_context sc'" by (intro r_into_rtranclp) (auto simp: sync_step_def)
  have s: "cnset_seen sc' = [hd (seen_single True 9)]" "ranges (hd (seen_single True 9)) = [\<lparr>low = 9, high = 9\<rparr>]"
    using c(3) by (simp_all add: seen_single_def)
  have cn: "exchange_globcnt 9 < exchange_globcnt 0xA" by code_simp
  have "header_cn (message_index sample_properties no_index) sample_values = Ok 9"
    by (simp add: header_cn_def sample_index sample_values_def rd_def globcnt_of_def)
  then have r: "list_all (message_ready sample_env sample_properties) [(0x50001, 0x90001)]"
    by (simp add: message_ready_def is_sharing_sample source_key globcnt_of_def)
  have i: "initial_sync sample_env sample_properties [(0x50001, 0x90001)] sample_context"
    by (simp add: initial_sync_def)
  have "\<exists>ctx' so'. upload_state sample_state_env [1] 0 MetaTagCnsetSeen [IDSET_serialize lib128 (cnset_seen sc')] sample_session = Ok (MAPI_E_SUCCESS, ctx') \<and>
      has_synccontext sample_state_env ctx' [1] 0 0 so' \<and> so_context so' = (so_context sample_object)\<lparr>cnset_seen := cnset_seen sc'\<rparr> \<and>
      yields (make_chunk sample_env (so_context so')) (\<lambda>(sc3, out). sync_stage sc3 = 4 \<and> sent_objects sc3 = sent_objects (so_context sample_object) \<and>
        (\<exists>sc4 sd4 sc5 sd5. sd_out sd4 = out_empty \<and> sync_finish sample_env (sc4, sd4) = Ok (sc5, sd5) \<and> out = sd_out sd5))"
    by (rule sync_state_cycle [OF _ _ _ i r run c(2) s(1) _ sample_has, where cn = "0xA0000"])
      (use seen_bytes(1) [of True] cn in \<open>simp_all add: samba_laws_lib128 convert_single sample_object_def sample_state_env_def s(2) c(3)\<close>)
  then obtain ctx' so' where u: "upload_state sample_state_env [1] 0 MetaTagCnsetSeen [IDSET_serialize lib128 (cnset_seen sc')] sample_session = Ok (MAPI_E_SUCCESS, ctx')"
    "has_synccontext sample_state_env ctx' [1] 0 0 so'" "so_context so' = (so_context sample_object)\<lparr>cnset_seen := cnset_seen sc'\<rparr>"
    "yields (make_chunk sample_env (so_context so')) (\<lambda>(sc3, out). sync_stage sc3 = 4 \<and> sent_objects sc3 = sent_objects (so_context sample_object) \<and>
        (\<exists>sc4 sd4 sc5 sd5. sd_out sd4 = out_empty \<and> sync_finish sample_env (sc4, sd4) = Ok (sc5, sd5) \<and> out = sd_out sd5))" by blast
  obtain sc3 out where "make_chunk sample_env sample_again = Ok (sc3, out)" by (rule sample_again_chunk)
  then have m: "make_chunk sample_env (so_context so') = Ok (sc3, out)" using u(3) c(3) by (simp add: sample_object_def)
  from yieldsD [OF u(4) m] have "sync_stage sc3 = 4 \<and> sent_objects sc3 = 0" by (simp add: sample_object_def)
  with run c(2) u(1,2) m show ?thesis by blast
qed

end
