(* ===== verification/Oxcfxics_Unsent.thy ===== *)
theory Oxcfxics_Unsent
  imports Oxcfxics_Resync
begin

unbundle bit_operations_syntax

text \<open>
  A message that cannot be opened while a folder is synchronized (\<^verbatim>\<open>oxcfxics_push_messageChange\<close> of
  \<^verbatim>\<open>src/mapiproxy/servers/default/emsmdb/oxcfxics.c\<close>): it is passed over, but the set of seen change numbers has one range,
  which may span its change number. The folder of the example has three messages.
\<close>

lemma unopened_row_skipped:
  assumes "message_open V eid = None"
  shows "yields (message_row V (eid, row_cn) w) (row_skipped w)"
proof -
  have noted: "yields (note_eid V eid w) (row_skipped w)"
    by (auto simp: yields_def note_eid_def row_core_def row_skipped_def split: prod.splits option.splits)
  have "row_skipped w (skip_object w1)" if "row_skipped w w1" for w1
    using that skip_core [of w1] by (simp add: row_skipped_def) (simp add: skip_object_def)
  then show ?thesis unfolding message_row_def Let_def using assms
    by (auto simp: row_skipped_def [of w w] intro!: yields_bind [OF noted])
qed

section \<open>A folder with three messages\<close>

text \<open>The messages 5, 6 and 7 with the change numbers 8, 9 and 10, of which the second one opens or not.\<close>

abbreviation triple_rows :: "(u64 \<times> u64) list" where
  "triple_rows \<equiv> [(0x50001, 0x80001), (0x60001, 0x90001), (0x70001, 0xA0001)]"

definition triple_values :: "u64 \<Rightarrow> 128 word row_values" where
  "triple_values cn =
     [(MAPI_E_SUCCESS, FxI8 0), (MAPI_E_SUCCESS, FxBoolean 0), (MAPI_E_SUCCESS, FxLong 77), (MAPI_E_SUCCESS, FxI8 cn),
      (MAPI_E_SUCCESS, FxBinary [1, 2]), (MAPI_E_NOT_FOUND, FxNullPtr), (MAPI_E_SUCCESS, FxSysTime (3, 4)), (MAPI_E_SUCCESS, FxString [72, 105])]"

definition triple_env :: "bool \<Rightarrow> (128 word, (string \<times> string) list, u64) sync_env" where
  "triple_env opens =
     \<lparr>sy_lib = fxlib128, sy_nprops = (\<lambda>_. None), sy_replicas = env128, sy_owner = ''u'', unix_to_nt_time = (\<lambda>_. 0),
      folder_is_mapistore = True, table_is_mapistore = True, table_opens = (\<lambda>_. True),
      table_rows = (\<lambda>tt _ _. case tt of
         MAPISTORE_MESSAGE_TABLE \<Rightarrow> map (\<lambda>(e, c). Some (Some e, Some c)) triple_rows | MAPISTORE_FAI_TABLE \<Rightarrow> []),
      message_open = (\<lambda>e. if e = 0x60001 \<and> \<not> opens then None else Some (e + 0x30000, None)),
      get_properties = (\<lambda>m ts. if ts = sample_properties then Some (triple_values m) else None),
      get_available_properties = (\<lambda>_. None), attachment_rows = (\<lambda>_ _. None), embedded_message = (\<lambda>_ _ _. None),
      deleted_fmids = (\<lambda>_ _. None)\<rparr>"

lemma triple_env_fields [simp]:
  "sy_lib (triple_env b) = fxlib128" "sy_nprops (triple_env b) i = None" "sy_replicas (triple_env b) = env128" "sy_owner (triple_env b) = ''u''"
  "folder_is_mapistore (triple_env b)" "table_is_mapistore (triple_env b)" "table_opens (triple_env b) tt"
  "table_rows (triple_env b) MAPISTORE_MESSAGE_TABLE c d = map (\<lambda>(e, c). Some (Some e, Some c)) triple_rows"
  "message_open (triple_env b) e = (if e = 0x60001 \<and> \<not> b then None else Some (e + 0x30000, None))"
  "get_properties (triple_env b) m sample_properties = Some (triple_values m)"
  "attachment_rows (triple_env b) m ts = None" "deleted_fmids (triple_env b) tt n = None"
  by (simp_all add: triple_env_def)

abbreviation triple_index :: oxcfxics_prop_index where
  "triple_index \<equiv> message_index sample_properties no_index"

lemma triple_header: "header_time (triple_env b) triple_index (triple_values cn) = Ok (FxSysTime (3, 4))"
  "header_cn triple_index (triple_values cn) = Ok (globcnt_of cn)"
  by (simp_all add: header_time_def header_cn_def sample_index triple_values_def rd_def)

definition triple_head :: "u64 \<Rightarrow> u64 \<Rightarrow> u8 list \<Rightarrow> (u32 \<times> MAPISTATUS \<times> 128 word fx_data) list" where
  "triple_head e cn sk =
     [(PidTagSourceKey, MAPI_E_SUCCESS, FxBinary sk), (PidTagLastModificationTime, MAPI_E_SUCCESS, FxSysTime (3, 4)),
      (PidTagChangeKey, MAPI_E_SUCCESS, FxBinary [1, 2]), (PidTagPredecessorChangeList, MAPI_E_SUCCESS, FxBinary [2, 1, 2]),
      (PidTagAssociated, MAPI_E_SUCCESS, FxBoolean 0), (PidTagMid, MAPI_E_SUCCESS, FxI8 e),
      (PidTagMessageSize, MAPI_E_SUCCESS, FxLong 77), (PidTagChangeNumber, MAPI_E_SUCCESS, FxI8 (push_bit 16 cn OR (e AND 0xffff)))]"

lemma triple_message_header:
  "message_header sample_request triple_index e cn sk (FxSysTime (3, 4)) (triple_values c) = Ok (triple_head e cn sk)"
  by (simp add: message_header_def header_keys_def header_size_def sample_index rd_def triple_values_def sample_request_def triple_head_def)

lemma triple_message:
  assumes "length sk = 22"
  obtains out where "push_message (triple_env b) (triple_head e cn sk) sample_properties (triple_values c) sample_properties m None sd = Ok (sd\<lparr>sd_out := out\<rparr>)"
    and "length (fx_bytes out) = length (fx_bytes (sd_out sd)) + 139"
proof -
  obtain out1 where "oxcfxics_ndr_push_properties fxlib128 (sy_nprops (triple_env b)) (triple_head e cn sk) (push_marker fxlib128 IncrSyncChg (sd_out sd)) = Ok out1"
    "length (fx_bytes out1) = length (fx_bytes (push_marker fxlib128 IncrSyncChg (sd_out sd))) + 101"
    using assms by (simp add: triple_head_def push_eval fxlib128_simps)
  then show thesis
    by (intro that) (simp add: push_message_def message_properties_shift_def sample_properties_def triple_values_def push_eval
      push_marker_def push_tagged_def oxcfxics_push_messageChange_recipients_def
      oxcfxics_push_messageChange_attachments_def fxlib128_simps fxlib128_strings,
      simp add: push_marker_def push_eval fxlib128_simps)
qed

abbreviation raw_of :: "bool \<Rightarrow> u64 list \<Rightarrow> 128 word rawidset list" where
  "raw_of s xs \<equiv> [\<lparr>raw_repl = ReplGuid 7, raw_single = s, globcnts = xs, max_count = 256\<rparr>]"

lemma push_next: "c AND 0xffff000000000000 = 0 \<Longrightarrow> c \<noteq> 0 \<Longrightarrow> length xs < 256 \<Longrightarrow>
    RAWIDSET_push_guid_glob lib128 (raw_of s xs) 7 c = Ok (raw_of s (xs @ [c]))"
  by (simp add: RAWIDSET_push_guid_glob_def lib128_def RAWIDSET_find_by_GUID_def raw_append_at_def rd_def raw_append_def)

lemma triple_keys: "e \<in> {0x50001, 0x70001} \<Longrightarrow>
    emsmdbp_source_key_from_fmid env128 l u e = (MAPISTORE_SUCCESS, l, Some (le_bytes 16 (7 :: 128 word) @ counter_bytes 6 (globcnt_of e)))"
  by (auto simp: emsmdbp_source_key_from_fmid_def emsmdbp_replid_to_guid_def env128_def guid128_def globcnt_of_def)

lemma triple_sent:
  assumes "e \<in> {0x50001, 0x70001}" and "sc_request sc = sample_request" "cnset_seen sc = []" "sc_properties sc = sample_properties"
    and "sd_guid sd = 7" "sd_table_type sd = MAPISTORE_MESSAGE_TABLE"
    and "RAWIDSET_push_guid_glob lib128 (sd_eid_set sd) 7 (globcnt_of e) = Ok eids"
    and "RAWIDSET_push_guid_glob lib128 (sd_cnset_seen sd) 7 (globcnt_of (e + 0x30000)) = Ok cns"
  obtains out where "message_row (triple_env b) (e, e + 0x30000)
      \<lparr>rw_sc = sc, rw_sd = sd, rw_index = triple_index, rw_changed = False, rw_guid = g\<rparr> =
    Ok \<lparr>rw_sc = sc\<lparr>sent_objects := sent_objects sc + 1\<rparr>, rw_sd = sd\<lparr>sd_eid_set := eids, sd_cnset_seen := cns, sd_out := out\<rparr>,
      rw_index = triple_index, rw_changed = False, rw_guid = Some 7\<rparr>"
    and "length (fx_bytes out) = length (fx_bytes (sd_out sd)) + 139"
proof -
  let ?sk = "le_bytes 16 (7 :: 128 word) @ counter_bytes 6 (globcnt_of e)"
  let ?sd = "sd\<lparr>sd_eid_set := eids, sd_cnset_seen := cns\<rparr>"
  have "length ?sk = 22" by (simp add: eval_nat_numeral)
  then obtain out where out: "push_message (triple_env b) (triple_head e (globcnt_of (e + 0x30000)) ?sk) sample_properties (triple_values (e + 0x30000))
      sample_properties (e + 0x30000) None ?sd = Ok (?sd\<lparr>sd_out := out\<rparr>)" "length (fx_bytes out) = length (fx_bytes (sd_out ?sd)) + 139"
    by (rule triple_message)
  have e: "e \<noteq> 0x7fffffffffffffff" "ucast (e AND 0xffff) = (1 :: u16)" "e \<noteq> 0x60001" using assms(1) by auto
  have sc: "sc\<lparr>sc_replicas := sc_replicas sc\<rparr> = sc" by (cases sc) simp
  have v: "message_values (triple_env b) m w = Ok (Some (sample_properties, triple_values m), w)"
    if "sc_properties (rw_sc w) = sample_properties" "sd_table_type (rw_sd w) = MAPISTORE_MESSAGE_TABLE" for m w
    using that by (simp add: message_values_def table_properties_def is_sharing_sample del: obind_eq_Ok_iff)
  have n: "note_eid (triple_env b) e \<lparr>rw_sc = sc, rw_sd = sd, rw_index = triple_index, rw_changed = False, rw_guid = g\<rparr> =
      Ok \<lparr>rw_sc = sc, rw_sd = sd\<lparr>sd_eid_set := eids\<rparr>, rw_index = triple_index, rw_changed = False, rw_guid = Some 7\<rparr>"
    using assms(7) e(2) sc by (simp add: note_eid_def del: obind_eq_Ok_iff)
  have o: "original_cnset_seen sc MAPISTORE_MESSAGE_TABLE = []" using assms(3) by (simp add: original_cnset_seen_def)
  have "message_change (triple_env b) e (e + 0x30000) None sample_properties (triple_values (e + 0x30000))
      \<lparr>rw_sc = sc, rw_sd = sd\<lparr>sd_eid_set := eids\<rparr>, rw_index = triple_index, rw_changed = False, rw_guid = Some 7\<rparr> =
    Ok \<lparr>rw_sc = sc\<lparr>sent_objects := sent_objects sc + 1\<rparr>, rw_sd = ?sd\<lparr>sd_out := out\<rparr>, rw_index = triple_index, rw_changed = False, rw_guid = Some 7\<rparr>"
    using out(1) assms by (simp add: message_change_def triple_keys [OF assms(1)] Let_def sc o triple_header triple_message_header del: obind_eq_Ok_iff insert_iff)
  then show thesis using out(2) assms e
    by (intro that) (simp_all add: message_row_def n v o del: obind_eq_Ok_iff insert_iff)
qed

lemma triple_unopened:
  assumes "cnset_seen sc = []" "sd_table_type sd = MAPISTORE_MESSAGE_TABLE"
    and "RAWIDSET_push_guid_glob lib128 (sd_eid_set sd) 7 6 = Ok eids"
  shows "message_row (triple_env False) (0x60001, c) \<lparr>rw_sc = sc, rw_sd = sd, rw_index = i, rw_changed = ch, rw_guid = g\<rparr> =
    Ok \<lparr>rw_sc = sc, rw_sd = sd\<lparr>sd_eid_set := eids\<rparr>, rw_index = i, rw_changed = ch, rw_guid = Some 7\<rparr>"
proof -
  have sc: "sc\<lparr>sc_replicas := sc_replicas sc\<rparr> = sc" by (cases sc) simp
  show ?thesis using assms
    by (simp add: message_row_def note_eid_def globcnt_of_def sc original_cnset_seen_def IDSET_includes_guid_glob_def del: obind_eq_Ok_iff)
qed

lemma triple_table:
  obtains out where "oxcfxics_push_messageChange (triple_env False) (sample_context\<lparr>sync_stage := 1\<rparr>)
      ((sync_start (triple_env False) sample_context)\<lparr>sd_cnset_seen := [RAWIDSET_make lib128 False True], sd_table_type := MAPISTORE_MESSAGE_TABLE\<rparr>) =
    Ok (True, sample_context\<lparr>sync_stage := 1, total_objects := 3, sent_objects := 2\<rparr>, (sync_start (triple_env False) sample_context)
      \<lparr>sd_cnset_seen := raw_of True [8, 10], sd_eid_set := raw_of False [5, 6, 7], sd_out := out\<rparr>)"
proof -
  let ?sc = "\<lambda>n. sample_context\<lparr>sync_stage := 1, total_objects := 3, sent_objects := n\<rparr>"
  let ?sd = "(sync_start (triple_env False) sample_context)\<lparr>sd_cnset_seen := [RAWIDSET_make lib128 False True], sd_table_type := MAPISTORE_MESSAGE_TABLE\<rparr>"
  let ?w = "\<lambda>sc sd g. \<lparr>rw_sc = sc, rw_sd = sd, rw_index = triple_index, rw_changed = False, rw_guid = g\<rparr>"
  have n: "globcnt_of 0x50001 = 5" "globcnt_of 0x70001 = 7" "globcnt_of 0x80001 = 8" "globcnt_of 0xA0001 = 10" by (simp_all add: globcnt_of_def)
  have f: "sd_guid ?sd = 7" "sd_eid_set ?sd = [RAWIDSET_make lib128 False False]" "sd_out ?sd = out_empty" "sd_prop_index ?sd = triple_index"
    "sd_rows ?sd = None" by (simp_all add: sync_start_def)
  obtain o1 where 1: "message_row (triple_env False) (0x50001, 0x80001) (?w (?sc 0) ?sd None) =
      Ok (?w (?sc 1) (?sd\<lparr>sd_eid_set := raw_of False [5], sd_cnset_seen := raw_of True [8], sd_out := o1\<rparr>) (Some 7))" "length (fx_bytes o1) = 139"
    using triple_sent [of "0x50001" "?sc 0" ?sd "raw_of False [5]" "raw_of True [8]" False None] f
    by (auto simp: n push_first out_empty_def simp del: obind_eq_Ok_iff)
  let ?sd2 = "?sd\<lparr>sd_eid_set := raw_of False [5, 6], sd_cnset_seen := raw_of True [8], sd_out := o1\<rparr>"
  have 2: "message_row (triple_env False) (0x60001, 0x90001) (?w (?sc 1) (?sd\<lparr>sd_eid_set := raw_of False [5], sd_cnset_seen := raw_of True [8], sd_out := o1\<rparr>) (Some 7)) =
      Ok (?w (?sc 1) ?sd2 (Some 7))"
    by (subst triple_unopened) (simp_all add: push_next, simp add: sync_start_def)
  obtain o2 where 3: "message_row (triple_env False) (0x70001, 0xA0001) (?w (?sc 1) ?sd2 (Some 7)) =
      Ok (?w (?sc 2) (?sd\<lparr>sd_eid_set := raw_of False [5, 6, 7], sd_cnset_seen := raw_of True [8, 10], sd_out := o2\<rparr>) (Some 7))"
    using triple_sent [of "0x70001" "?sc 1" ?sd2 "raw_of False [5, 6, 7]" "raw_of True [8, 10]" False "Some 7"] f
    by (auto simp: n push_next simp del: obind_eq_Ok_iff)
  have rows: "message_rows (triple_env False) triple_rows (?w (?sc 0) ?sd None) =
      Ok ([], ?w (?sc 2) (?sd\<lparr>sd_eid_set := raw_of False [5, 6, 7], sd_cnset_seen := raw_of True [8, 10], sd_out := o2\<rparr>) (Some 7))"
    using f(3) 1 2 3 by (simp add: out_empty_def max_message_sync_size_def del: obind_eq_Ok_iff)
  have open_: "open_message_table (triple_env False) (sample_context\<lparr>sync_stage := 1\<rparr>) MAPISTORE_MESSAGE_TABLE = Ok (triple_rows, ?sc 0)"
    by (simp add: open_message_table_def oxcfxics_table_set_cn_restriction_def original_cnset_seen_def del: obind_eq_Ok_iff)
  show thesis
    using open_ rows f(4,5)
    by (intro that [of o2]) (simp add: oxcfxics_push_messageChange_def fetch_deleted_def original_cnset_seen_def del: obind_eq_Ok_iff message_rows.simps, simp add: sync_start_def)
qed

abbreviation triple_seen :: "128 word idset list" where
  "triple_seen \<equiv> [\<lparr>repl = ReplGuid 7, single = True, range_count = 1, ranges = [\<lparr>low = 8, high = 10\<rparr>]\<rparr>]"

lemma triple_order: "exchange_globcnt 8 < exchange_globcnt 9" "exchange_globcnt 9 < exchange_globcnt 0xA" "exchange_globcnt 8 \<le> exchange_globcnt 0xA"
  by code_simp+

lemma triple_convert: "RAWIDSET_convert_to_idset lib128 (raw_of True [8, 10]) = triple_seen"
proof -
  have "qsort IDSET_globcnt_compar [8, 10] = [8, 10]" using triple_order(3) by (simp add: qsort_def globcnt_compar_le)
  then show ?thesis by (simp add: RAWIDSET_convert_to_idset_def IDSET_make_def convert_single)
qed

lemma merge_first: "\<exists>m. IDSET_merge_idsets lib128 [] ss = Ok m"
  by (simp add: IDSET_merge_idsets_def)

text \<open>The end of a chunk without deletions.\<close>

lemma triple_finish:
  assumes "sync_stage sc = 2" "sc_request sc = sample_request" "idset_given sc = []" "sd_deleted_eid_set sd = [RAWIDSET_make lib128 False False]"
  obtains sc' sd' where "obind (sync_fai (triple_env b) (sc, sd)) (sync_finish (triple_env b)) = Ok (sc', sd')" "sync_stage sc' = 4"
    "cnset_seen sc' = cnset_seen sc"
proof -
  have 1: "sync_fai (triple_env b) (sc, sd) = Ok (sc\<lparr>sync_stage := 3\<rparr>, sd)" using assms(1,2) by (simp add: sync_fai_def)
  have 2: "push_deletions (triple_env b) (sc\<lparr>sync_stage := 3\<rparr>) sd = Ok (sc\<lparr>sync_stage := 3\<rparr>, sd)"
    using assms(4) by (simp add: push_deletions_def raw_count_positive_def RAWIDSET_make_def)
  obtain m where "IDSET_merge_idsets lib128 [] (RAWIDSET_convert_to_idset lib128 (sd_eid_set sd)) = Ok m" using merge_first by blast
  then obtain sd' where "push_state (triple_env b) (sc\<lparr>sync_stage := 3\<rparr>) sd = Ok (sc\<lparr>sync_stage := 3, idset_given := m\<rparr>, sd')"
    using assms(3) by (simp add: push_state_def Let_def del: obind_eq_Ok_iff)
  with 1 2 show thesis by (intro that [of "sc\<lparr>sync_stage := 4, idset_given := m\<rparr>" sd']) (simp_all add: sync_finish_def del: obind_eq_Ok_iff)
qed

lemma triple_chunk:
  obtains sc' out where "make_chunk (triple_env False) sample_context = Ok (sc', out)" "sync_stage sc' = 4" "cnset_seen sc' = triple_seen"
proof -
  obtain out where t: "oxcfxics_push_messageChange (triple_env False) (sample_context\<lparr>sync_stage := 1\<rparr>)
      ((sync_start (triple_env False) sample_context)\<lparr>sd_cnset_seen := [RAWIDSET_make lib128 False True], sd_table_type := MAPISTORE_MESSAGE_TABLE\<rparr>) =
    Ok (True, sample_context\<lparr>sync_stage := 1, total_objects := 3, sent_objects := 2\<rparr>, (sync_start (triple_env False) sample_context)
      \<lparr>sd_cnset_seen := raw_of True [8, 10], sd_eid_set := raw_of False [5, 6, 7], sd_out := out\<rparr>)" by (rule triple_table)
  let ?sd = "(sync_start (triple_env False) sample_context)\<lparr>sd_cnset_seen := raw_of True [8, 10], sd_eid_set := raw_of False [5, 6, 7], sd_out := out\<rparr>"
  let ?sc = "sample_context\<lparr>sync_stage := 2, total_objects := 3, sent_objects := 2, cnset_seen := triple_seen\<rparr>"
  have m: "IDSET_merge_idsets lib128 [] triple_seen = Ok triple_seen" by (simp add: IDSET_merge_idsets_def)
  have 0: "sd_rows (sync_start (triple_env False) sample_context) = None" "sd_deleted_eid_set (sync_start (triple_env False) sample_context) = [RAWIDSET_make lib128 False False]"
    by (simp_all add: sync_start_def)
  have 1: "sync_normal (triple_env False) (sample_context\<lparr>sync_stage := 1\<rparr>, sync_start (triple_env False) sample_context) = Ok (?sc, ?sd)"
    using t 0 by (simp add: sync_normal_def push_table_def triple_convert m del: obind_eq_Ok_iff)
  obtain sc' sd' where "obind (sync_fai (triple_env False) (?sc, ?sd)) (sync_finish (triple_env False)) = Ok (sc', sd')" "sync_stage sc' = 4"
    "cnset_seen sc' = triple_seen" by (rule triple_finish [of ?sc ?sd False]) (simp_all add: 0)
  with 1 show thesis by (intro that [of "sc'\<lparr>sc_sync_data := None\<rparr>" "sd_out sd'"]) (simp_all add: make_chunk_def obind_assoc [symmetric] del: obind_eq_Ok_iff)
qed

text \<open>The second synchronization, in which the message opens.\<close>

abbreviation triple_again :: "(128 word, (string \<times> string) list) synccontext" where
  "triple_again \<equiv> sample_context\<lparr>cnset_seen := triple_seen\<rparr>"

lemma triple_seen_row:
  assumes "e \<in> {0x50001, 0x60001, 0x70001}" "c = e + 0x30000" "cnset_seen sc = triple_seen" "sd_guid sd = 7" "sd_table_type sd = MAPISTORE_MESSAGE_TABLE"
    and "RAWIDSET_push_guid_glob lib128 (sd_eid_set sd) 7 (globcnt_of e) = Ok eids"
  shows "message_row (triple_env b) (e, c) \<lparr>rw_sc = sc, rw_sd = sd, rw_index = i, rw_changed = ch, rw_guid = g\<rparr> =
    Ok \<lparr>rw_sc = sc\<lparr>skipped_objects := skipped_objects sc + 1\<rparr>, rw_sd = sd\<lparr>sd_eid_set := eids\<rparr>, rw_index = i, rw_changed = ch, rw_guid = Some 7\<rparr>"
proof -
  have sc: "sc\<lparr>sc_replicas := sc_replicas sc\<rparr> = sc" by (cases sc) simp
  have e: "e \<noteq> 0x7fffffffffffffff" "ucast (e AND 0xffff) = (1 :: u16)" "c \<noteq> 0" using assms(1,2) by auto
  have "globcnt_of c \<in> {8, 9, 10}" using assms(1,2) by (auto simp: globcnt_of_def)
  then have "IDSET_includes_guid_glob lib128 triple_seen (Some 7) (globcnt_of c)"
    using triple_order by (auto simp: own_set_includes [OF samba_laws_lib128] in_range_def)
  then show ?thesis using assms e
    by (simp add: message_row_def note_eid_def sc original_cnset_seen_def skip_object_def del: obind_eq_Ok_iff insert_iff)
qed

lemma triple_again_chunk: obtains sc out where "make_chunk (triple_env b) triple_again = Ok (sc, out)"
proof -
  let ?sc = "\<lambda>n. triple_again\<lparr>sync_stage := 1, total_objects := 3, skipped_objects := n\<rparr>"
  let ?sd = "(sync_start (triple_env b) triple_again)\<lparr>sd_cnset_seen := [RAWIDSET_make lib128 False True], sd_table_type := MAPISTORE_MESSAGE_TABLE\<rparr>"
  let ?w = "\<lambda>sc sd g. \<lparr>rw_sc = sc, rw_sd = sd, rw_index = sd_prop_index ?sd, rw_changed = False, rw_guid = g\<rparr>"
  have n: "globcnt_of 0x50001 = 5" "globcnt_of 0x60001 = 6" "globcnt_of 0x70001 = 7" by (simp_all add: globcnt_of_def)
  have f: "sd_guid ?sd = 7" "sd_eid_set ?sd = [RAWIDSET_make lib128 False False]" "sd_out ?sd = out_empty" "sd_rows ?sd = None"
    "sd_deleted_eid_set ?sd = [RAWIDSET_make lib128 False False]" by (simp_all add: sync_start_def)
  have 1: "message_row (triple_env b) (0x50001, 0x80001) (?w (?sc 0) ?sd None) = Ok (?w (?sc 1) (?sd\<lparr>sd_eid_set := raw_of False [5]\<rparr>) (Some 7))"
    using f by (subst triple_seen_row [where eids = "raw_of False [5]"]) (simp_all add: n push_first)
  have 2: "message_row (triple_env b) (0x60001, 0x90001) (?w (?sc 1) (?sd\<lparr>sd_eid_set := raw_of False [5]\<rparr>) (Some 7)) =
      Ok (?w (?sc 2) (?sd\<lparr>sd_eid_set := raw_of False [5, 6]\<rparr>) (Some 7))"
    using f by (subst triple_seen_row [where eids = "raw_of False [5, 6]"]) (simp_all add: n push_next)
  have 3: "message_row (triple_env b) (0x70001, 0xA0001) (?w (?sc 2) (?sd\<lparr>sd_eid_set := raw_of False [5, 6]\<rparr>) (Some 7)) =
      Ok (?w (?sc 3) (?sd\<lparr>sd_eid_set := raw_of False [5, 6, 7]\<rparr>) (Some 7))"
    using f by (subst triple_seen_row [where eids = "raw_of False [5, 6, 7]"]) (simp_all add: n push_next)
  have rows: "message_rows (triple_env b) triple_rows (?w (?sc 0) ?sd None) = Ok ([], ?w (?sc 3) (?sd\<lparr>sd_eid_set := raw_of False [5, 6, 7]\<rparr>) (Some 7))"
    using f(3) 1 2 3 by (simp add: out_empty_def max_message_sync_size_def del: obind_eq_Ok_iff)
  have "emsmdbp_guid_to_replid env128 l ''u'' 7 = (MAPI_E_SUCCESS, l, Some 1)" for l
    by (simp add: emsmdbp_guid_to_replid_def env128_def)
  then have open_: "open_message_table (triple_env b) (triple_again\<lparr>sync_stage := 1\<rparr>) MAPISTORE_MESSAGE_TABLE = Ok (triple_rows, ?sc 0)"
    by (simp add: open_message_table_def oxcfxics_table_set_cn_restriction_def original_cnset_seen_def del: obind_eq_Ok_iff) (simp add: sample_context_def)
  have t: "oxcfxics_push_messageChange (triple_env b) (triple_again\<lparr>sync_stage := 1\<rparr>) ?sd = Ok (True, ?sc 3, ?sd\<lparr>sd_eid_set := raw_of False [5, 6, 7]\<rparr>)"
    using open_ rows f(4)
    by (simp add: oxcfxics_push_messageChange_def fetch_deleted_def original_cnset_seen_def del: obind_eq_Ok_iff message_rows.simps)
  have "RAWIDSET_convert_to_idset lib128 [RAWIDSET_make lib128 False True] = []" by (simp add: RAWIDSET_convert_to_idset_def RAWIDSET_make_def)
  moreover have "IDSET_merge_idsets lib128 triple_seen [] = Ok triple_seen" by (simp add: IDSET_merge_idsets_def)
  ultimately have s: "sync_normal (triple_env b) (triple_again\<lparr>sync_stage := 1\<rparr>, sync_start (triple_env b) triple_again) =
      Ok ((?sc 3)\<lparr>sync_stage := 2\<rparr>, ?sd\<lparr>sd_eid_set := raw_of False [5, 6, 7]\<rparr>)"
    using t f(4) by (simp add: sync_normal_def push_table_def del: obind_eq_Ok_iff)
  obtain sc' sd' where "obind (sync_fai (triple_env b) ((?sc 3)\<lparr>sync_stage := 2\<rparr>, ?sd\<lparr>sd_eid_set := raw_of False [5, 6, 7]\<rparr>)) (sync_finish (triple_env b)) = Ok (sc', sd')"
    by (rule triple_finish [of "(?sc 3)\<lparr>sync_stage := 2\<rparr>" "?sd\<lparr>sd_eid_set := raw_of False [5, 6, 7]\<rparr>" b]) (use f(5) in simp_all)
  with s show thesis by (intro that) (simp add: make_chunk_def obind_assoc [symmetric] del: obind_eq_Ok_iff)
qed

section \<open>What is lost\<close>

text \<open>C39 A message that cannot be opened while a folder is downloaded for the first time is lost for the client when its change number
  is between those of two messages that are sent. It is passed over without anything being sent of it, and the set that the client is given spans it:
  the next download with this set, in which the message may well open, sends no message at all if the folder has not changed.\<close>

theorem unsent_change_lost:
  assumes G: "samba_laws (sy_samba V)" and g: "\<not> GUID_all_zero (sy_samba V) (snd (MailboxReplica (sy_replicas V) (sy_owner V)))"
    and first: "initial_sync V ps T sc" "\<forall>row \<in> set T. row \<noteq> (e, c) \<longrightarrow> message_ready V ps row"
    and failed: "(e, c) \<in> set T" "message_open V e = None" "c \<noteq> 0"
    and sent: "(ea, a) \<in> set T" "(eb, b) \<in> set T" "exchange_globcnt (globcnt_of a) < exchange_globcnt (globcnt_of c)"
      "exchange_globcnt (globcnt_of c) < exchange_globcnt (globcnt_of b)"
    and run: "(sync_step V)\<^sup>*\<^sup>* sc sc'" "sync_stage sc' = 4"
    and later: "folder_is_mapistore W" "sy_samba W = sy_samba V" "sy_replicas W = sy_replicas V" "sy_owner W = sy_owner V"
      "\<And>cn d. set (fetch_mids (table_rows W MAPISTORE_MESSAGE_TABLE cn d)) \<subseteq> set T"
    and again: "sync_stage sc2 = 0" "req_normal (sc_request sc2)" "\<not> req_fai (sc_request sc2)" "cnset_seen sc2 = cnset_seen sc'"
  shows "yields (message_row V (e, c) w) (row_skipped w) \<and>
    yields (make_chunk W sc2) (\<lambda>(sc3, out). sync_stage sc3 = 4 \<and> sent_objects sc3 = sent_objects sc2 \<and>
      (\<exists>sc4 sd4 sc5 sd5. sd_out sd4 = out_empty \<and> sync_finish W (sc4, sd4) = Ok (sc5, sd5) \<and> out = sd_out sd5))"
proof (intro conjI)
  show "yields (message_row V (e, c) w) (row_skipped w)" by (rule unopened_row_skipped [OF failed(2)])
  let ?g = "snd (MailboxReplica (sy_replicas V) (sy_owner V))"
  have ok: "list_all (row_ok V ps) T" using first(2) failed(2) by (auto simp: list_all_iff row_ok_def)
  have ready: "message_ready V ps (ea, a)" "message_ready V ps (eb, b)" using first(2) sent by auto
  have "IDSET_includes_guid_glob (sy_samba V) (cnset_seen sc') (Some ?g) (globcnt_of c)"
    using sent(3,4) by (intro unopened_covered [OF G refl g first(1) ok run sent(1) ready(1) sent(2) ready(2)]) simp_all
  moreover have "covers V ?g (cnset_seen sc') (opened V ps T)"
    using sync_run_covered [OF G refl g ok first(1) run(1)] run(2) by (auto simp: sync_covered_def initial_sync_def)
  ultimately have cov: "covers W (snd (MailboxReplica (sy_replicas W) (sy_owner W))) (cnset_seen sc2) T"
    unfolding covers_def later(2-4) again(4) using first(2) by (force simp: opened_def)
  have nz: "0 \<notin> snd ` set T" using first(2) failed(3) by (fastforce simp: message_ready_def)
  show "yields (make_chunk W sc2) (\<lambda>(sc3, out). sync_stage sc3 = 4 \<and> sent_objects sc3 = sent_objects sc2 \<and>
      (\<exists>sc4 sd4 sc5 sd5. sd_out sd4 = out_empty \<and> sync_finish W (sc4, sd4) = Ok (sc5, sd5) \<and> out = sd_out sd5))"
    unfolding yields_def using covered_sync_quiet [OF later(1) cov nz again(1-3) later(5)] by blast
qed

theorem unsent_change_lost_witness:
  "\<exists>sc' sc3 out. (sync_step (triple_env False))\<^sup>*\<^sup>* sample_context sc' \<and> sync_stage sc' = 4 \<and> message_open (triple_env False) 0x60001 = None \<and>
    message_open (triple_env True) 0x60001 \<noteq> None \<and>
    make_chunk (triple_env True) (sample_context\<lparr>cnset_seen := cnset_seen sc'\<rparr>) = Ok (sc3, out) \<and> sync_stage sc3 = 4 \<and> sent_objects sc3 = 0"
proof -
  obtain sc' o1 where c: "make_chunk (triple_env False) sample_context = Ok (sc', o1)" "sync_stage sc' = 4" "cnset_seen sc' = triple_seen"
    by (rule triple_chunk)
  then have run: "(sync_step (triple_env False))\<^sup>*\<^sup>* sample_context sc'" by (intro r_into_rtranclp) (auto simp: sync_step_def)
  obtain sc3 out where m: "make_chunk (triple_env True) triple_again = Ok (sc3, out)" by (rule triple_again_chunk)
  have r: "\<forall>row \<in> set triple_rows. row \<noteq> (0x60001, 0x90001) \<longrightarrow> message_ready (triple_env False) sample_properties row"
    by (simp add: message_ready_def is_sharing_sample triple_keys triple_header globcnt_of_def)
  have i: "initial_sync (triple_env False) sample_properties triple_rows sample_context" by (simp add: initial_sync_def)
  have "yields (message_row (triple_env False) (0x60001, 0x90001) w) (row_skipped w) \<and>
      yields (make_chunk (triple_env True) triple_again) (\<lambda>(sc3, out). sync_stage sc3 = 4 \<and> sent_objects sc3 = sent_objects triple_again \<and>
      (\<exists>sc4 sd4 sc5 sd5. sd_out sd4 = out_empty \<and> sync_finish (triple_env True) (sc4, sd4) = Ok (sc5, sd5) \<and> out = sd_out sd5))" for w
    by (rule unsent_change_lost [OF _ _ i r _ _ _ _ _ _ _ run c(2), of "0x50001" "0x80001" "0x70001" "0xA0001"])
      (use triple_order c(3) in \<open>simp_all add: samba_laws_lib128 convert_single globcnt_of_def\<close>)
  then have "sync_stage sc3 = 4 \<and> sent_objects sc3 = 0" using m by (auto simp: yields_def)
  with run c m show ?thesis by auto
qed

end
