(* ===== verification/Indexing.thy ===== *)
theory Indexing
  imports Replica
begin

unbundle bit_operations_syntax

text \<open>
  The index of a mailbox, which maps the identifiers of folders and messages to the URIs of the backends:
  \<^verbatim>\<open>src/mapiproxy/libmapistore/backends/indexing_tdb.c\<close>. A record is stored under the text of its identifier,
  or, once it is deleted softly, under the same text with a tag in front; one more record counts the
  identifiers that were given out. TDB is an argument.
\<close>

section \<open>Keys\<close>

text \<open>The conversion \<^verbatim>\<open>"0x%.16"PRIx64\<close>, and \<^verbatim>\<open>strtoull(s, NULL, 16)\<close>, which stops at the largest value.\<close>

definition zero_padded :: "nat \<Rightarrow> nat \<Rightarrow> string" where
  "zero_padded k n = replicate (k - length (hex_digits n)) (CHR ''0'') @ hex_digits n"

definition fmt_fmid :: "u64 \<Rightarrow> string" where
  "fmt_fmid fmid = ''0x'' @ zero_padded 16 (unat fmid)"

definition strtoull16 :: "string \<Rightarrow> u64" where
  "strtoull16 s = (if strtol16 s < 2 ^ 64 then of_nat (strtol16 s) else 0xffffffffffffffff)"

definition MAPISTORE_SOFT_DELETED_TAG :: string where
  "MAPISTORE_SOFT_DELETED_TAG = ''SOFT_DELETED:''"

definition soft_key :: "u64 \<Rightarrow> string" where
  "soft_key fmid = MAPISTORE_SOFT_DELETED_TAG @ fmt_fmid fmid"

definition GlobalCount_key :: string where
  "GlobalCount_key = ''GlobalCount''"

definition MAPISTORE_SOFT_DELETE :: u8 where "MAPISTORE_SOFT_DELETE = 1"
definition MAPISTORE_PERMANENT_DELETE :: u8 where "MAPISTORE_PERMANENT_DELETE = 2"

section \<open>Records\<close>

text \<open>The status, and whether the record is softly deleted.\<close>

definition tdb_search_existing_fmid :: "'db tdb_lib \<Rightarrow> 'db \<Rightarrow> u64 \<Rightarrow> mapistore_error \<times> bool" where
  "tdb_search_existing_fmid T db fmid =
     (if fmid = 0 then (MAPISTORE_ERR_INVALID_PARAMETER, False)
      else if tdb_exists T db (fmt_fmid fmid) then (MAPISTORE_ERR_EXIST, False)
      else if tdb_exists T db (soft_key fmid) then (MAPISTORE_ERR_EXIST, True)
      else (MAPISTORE_SUCCESS, False))"

definition tdb_record_add :: "'db tdb_lib \<Rightarrow> 'db \<Rightarrow> u64 \<Rightarrow> string \<Rightarrow> mapistore_error \<times> 'db" where
  "tdb_record_add T db fmid mapistore_URI =
     (case tdb_search_existing_fmid T db fmid of
        (ret, _) \<Rightarrow>
          if ret \<noteq> MAPISTORE_SUCCESS then (ret, db)
          else case tdb_store T db (fmt_fmid fmid) mapistore_URI TDB_INSERT of
            None \<Rightarrow> (MAPISTORE_ERR_DATABASE_OPS, db)
          | Some db' \<Rightarrow> (MAPISTORE_SUCCESS, db'))"

definition tdb_record_update :: "'db tdb_lib \<Rightarrow> 'db \<Rightarrow> u64 \<Rightarrow> string \<Rightarrow> mapistore_error \<times> 'db" where
  "tdb_record_update T db fmid mapistore_URI =
     (if fmid = 0 then (MAPISTORE_ERR_INVALID_PARAMETER, db)
      else case tdb_store T db (fmt_fmid fmid) mapistore_URI TDB_MODIFY of
        None \<Rightarrow> (MAPISTORE_ERR_NOT_FOUND, db)
      | Some db' \<Rightarrow> (MAPISTORE_SUCCESS, db'))"

text \<open>A record that does not exist is reported as deleted. A soft deletion does not look at the results of TDB.\<close>

definition soft_delete :: "'db tdb_lib \<Rightarrow> 'db \<Rightarrow> u64 \<Rightarrow> 'db" where
  "soft_delete T db fmid =
     (let dbuf = (case tdb_fetch T db (fmt_fmid fmid) of None \<Rightarrow> [] | Some v \<Rightarrow> v);
          db1 = store_ignoring T (soft_key fmid) dbuf db
      in case tdb_delete T db1 (fmt_fmid fmid) of None \<Rightarrow> db1 | Some db2 \<Rightarrow> db2)"

definition tdb_record_del :: "'db tdb_lib \<Rightarrow> 'db \<Rightarrow> u64 \<Rightarrow> u8 \<Rightarrow> mapistore_error \<times> 'db" where
  "tdb_record_del T db fmid flags =
     (if fmid = 0 then (MAPISTORE_ERR_INVALID_PARAMETER, db)
      else case tdb_search_existing_fmid T db fmid of
        (ret, IsSoftDeleted) \<Rightarrow>
          if ret = MAPISTORE_SUCCESS then (MAPISTORE_SUCCESS, db)
          else if flags = MAPISTORE_SOFT_DELETE then
            (MAPISTORE_SUCCESS, if IsSoftDeleted then db else soft_delete T db fmid)
          else if flags = MAPISTORE_PERMANENT_DELETE then
            (case tdb_delete T db (if IsSoftDeleted then soft_key fmid else fmt_fmid fmid) of
               None \<Rightarrow> (MAPISTORE_ERR_DATABASE_OPS, db)
             | Some db' \<Rightarrow> (MAPISTORE_SUCCESS, db'))
          else (MAPISTORE_ERR_INVALID_PARAMETER, db))"

text \<open>The URI and whether it is softly deleted.\<close>

definition tdb_record_get_uri :: "'db tdb_lib \<Rightarrow> 'db \<Rightarrow> u64 \<Rightarrow> mapistore_error \<times> (string option \<times> bool) option" where
  "tdb_record_get_uri T db fmid =
     (if fmid = 0 then (MAPISTORE_ERR_INVALID_PARAMETER, None)
      else if tdb_exists T db (fmt_fmid fmid) then (MAPISTORE_SUCCESS, Some (tdb_fetch T db (fmt_fmid fmid), False))
      else if tdb_exists T db (soft_key fmid) then (MAPISTORE_SUCCESS, Some (tdb_fetch T db (soft_key fmid), True))
      else (MAPISTORE_ERR_NOT_FOUND, None))"

section \<open>From a URI to its identifier\<close>

text \<open>The byte in front of an empty string is read.\<close>

definition strip_slash :: "string \<Rightarrow> string outcome" where
  "strip_slash s = (if s = [] then Fault else Ok (if last s = CHR ''/'' then butlast s else s))"

definition tdb_get_fid_traverse :: "string \<Rightarrow> string \<Rightarrow> string \<Rightarrow> u64 option outcome" where
  "tdb_get_fid_traverse uri key v =
     obind (strip_slash v) (\<lambda>cmp_uri. Ok (if cmp_uri = uri then Some (strtoull16 key) else None))"

text \<open>\<open>startswith\<close> and \<open>endswith\<close> are null when the pattern has no wildcard. A URI that is shorter than \<open>endswith\<close> is
  compared from a position before its start.\<close>

definition tdb_get_fid_traverse_partial :: "(string \<times> string) option \<Rightarrow> string \<Rightarrow> string \<Rightarrow> u64 option outcome" where
  "tdb_get_fid_traverse_partial pat key v =
     obind (strip_slash v) (\<lambda>cmp_uri.
     case pat of
       None \<Rightarrow> Fault
     | Some (startswith, endswith) \<Rightarrow>
         if take (length startswith) cmp_uri \<noteq> startswith then Ok None
         else if length cmp_uri < length endswith then Fault
         else Ok (if drop (length cmp_uri - length endswith) cmp_uri = endswith then Some (strtoull16 key) else None))"

text \<open>A traversal ends at the first record for which the function returns nonzero.\<close>

fun tdb_traverse_read :: "'db tdb_lib \<Rightarrow> 'db \<Rightarrow> (string \<Rightarrow> string \<Rightarrow> 'a option outcome) \<Rightarrow> string list \<Rightarrow> 'a option outcome" where
  "tdb_traverse_read T db f [] = Ok None"
| "tdb_traverse_read T db f (k # ks) =
     (case tdb_fetch T db k of
        None \<Rightarrow> tdb_traverse_read T db f ks
      | Some v \<Rightarrow> obind (f k v) (\<lambda>r. if r \<noteq> None then Ok r else tdb_traverse_read T db f ks))"

text \<open>The identifier, and whether it is softly deleted, which is always reported as false. With a wildcard the pattern
  is what was given, with its trailing slash. The case without a wildcard sets \<open>partial\<close> to true where it means false.\<close>

definition fid_pattern :: "string \<Rightarrow> (string \<times> string) option" where
  "fid_pattern uri =
     (if filter (\<lambda>c. c = CHR ''*'') uri = []
      then None else Some (takeWhile (\<lambda>c. c \<noteq> CHR ''*'') uri, tl (dropWhile (\<lambda>c. c \<noteq> CHR ''*'') uri)))"

definition tdb_record_get_fmid :: "'db tdb_lib \<Rightarrow> 'db \<Rightarrow> string \<Rightarrow> bool \<Rightarrow> (mapistore_error \<times> (u64 \<times> bool) option) outcome" where
  "tdb_record_get_fmid T db uri partial =
     obind (strip_slash uri) (\<lambda>u.
     if partial \<and> 1 < length (filter (\<lambda>c. c = CHR ''*'') uri) then Ok (MAPISTORE_ERR_NOT_FOUND, None)
     else
       obind (tdb_traverse_read T db
               (if partial then tdb_get_fid_traverse_partial (fid_pattern uri) else tdb_get_fid_traverse u) (tdb_keys T db)) (\<lambda>r.
       Ok (case r of
             Some fmid \<Rightarrow> (MAPISTORE_SUCCESS, Some (fmid, False))
           | None \<Rightarrow> (MAPISTORE_ERR_NOT_FOUND, None))))"

section \<open>New identifiers\<close>

text \<open>The counter is stored without a terminating zero and read as a C string; \<open>beyond db\<close> is what is behind it in memory when
  it is read from \<open>db\<close>, any bytes, which may differ from one state to the next. The count is an \<^verbatim>\<open>int\<close>. The first identifier comes back also when the counter could not be stored.\<close>

definition stored_count :: "'db tdb_lib \<Rightarrow> ('db \<Rightarrow> string) \<Rightarrow> 'db \<Rightarrow> u64" where
  "stored_count T beyond db =
     (case tdb_fetch T db GlobalCount_key of
        None \<Rightarrow> 1
      | Some v \<Rightarrow> if v = [] then 1 else strtoull16 (v @ beyond db))"

definition tdb_record_allocate_fmids :: "'db tdb_lib \<Rightarrow> ('db \<Rightarrow> string) \<Rightarrow> 'db \<Rightarrow> u32 \<Rightarrow> mapistore_error \<times> 'db \<times> u64" where
  "tdb_record_allocate_fmids T beyond db n =
     (let GlobalCount = stored_count T beyond db in
      case tdb_store T db GlobalCount_key (fmt_fmid (GlobalCount + scast n)) TDB_REPLACE of
        None \<Rightarrow> (MAPISTORE_ERR_DATABASE_OPS, db, GlobalCount)
      | Some db' \<Rightarrow> (MAPISTORE_SUCCESS, db', GlobalCount))"

definition tdb_record_allocate_fmid :: "'db tdb_lib \<Rightarrow> ('db \<Rightarrow> string) \<Rightarrow> 'db \<Rightarrow> mapistore_error \<times> 'db \<times> u64" where
  "tdb_record_allocate_fmid T beyond db = tdb_record_allocate_fmids T beyond db 1"

section \<open>The operations of an index\<close>

record 'd indexing_context =
  add_fmid :: "'d \<Rightarrow> string \<Rightarrow> u64 \<Rightarrow> string \<Rightarrow> mapistore_error \<times> 'd"
  update_fmid :: "'d \<Rightarrow> string \<Rightarrow> u64 \<Rightarrow> string \<Rightarrow> mapistore_error \<times> 'd"
  del_fmid :: "'d \<Rightarrow> string \<Rightarrow> u64 \<Rightarrow> u8 \<Rightarrow> mapistore_error \<times> 'd"
  get_uri :: "'d \<Rightarrow> string \<Rightarrow> u64 \<Rightarrow> mapistore_error \<times> (string option \<times> bool) option"
  get_fmid :: "'d \<Rightarrow> string \<Rightarrow> string \<Rightarrow> bool \<Rightarrow> (mapistore_error \<times> (u64 \<times> bool) option) outcome"
  allocate_fmid :: "'d \<Rightarrow> string \<Rightarrow> mapistore_error \<times> 'd \<times> u64"
  allocate_fmids :: "'d \<Rightarrow> string \<Rightarrow> u32 \<Rightarrow> mapistore_error \<times> 'd \<times> u64"
  index_url :: string
  index_data :: 'd

text \<open>\<open>disk\<close> opens or creates the file of a user.\<close>

definition tdb_index :: "'db tdb_lib \<Rightarrow> ('db \<Rightarrow> string) \<Rightarrow> string \<Rightarrow> 'db \<Rightarrow> 'db indexing_context" where
  "tdb_index T beyond username db =
     \<lparr>add_fmid = (\<lambda>db _. tdb_record_add T db), update_fmid = (\<lambda>db _. tdb_record_update T db),
      del_fmid = (\<lambda>db _. tdb_record_del T db), get_uri = (\<lambda>db _. tdb_record_get_uri T db),
      get_fmid = (\<lambda>db _. tdb_record_get_fmid T db), allocate_fmid = (\<lambda>db _. tdb_record_allocate_fmid T beyond db),
      allocate_fmids = (\<lambda>db _. tdb_record_allocate_fmids T beyond db), index_url = username, index_data = db\<rparr>"

definition mapistore_indexing_tdb_init ::
  "'db tdb_lib \<Rightarrow> ('db \<Rightarrow> string) \<Rightarrow> (string \<Rightarrow> 'db option) \<Rightarrow> string \<Rightarrow> mapistore_error \<times> 'db indexing_context option" where
  "mapistore_indexing_tdb_init T beyond disk username =
     (case disk username of
        None \<Rightarrow> (MAPISTORE_ERR_DATABASE_INIT, None)
      | Some db \<Rightarrow> (MAPISTORE_SUCCESS, Some (tdb_index T beyond username db)))"

end
