(* ===== verification/Mapistore.thy ===== *)
theory Mapistore
  imports Indexing Globset
begin

unbundle bit_operations_syntax

text \<open>
  The storage layer between the server and its backends: the contexts of
  \<^verbatim>\<open>src/mapiproxy/libmapistore/mapistore_interface.c\<close>, \<^verbatim>\<open>mapistore_processing.c\<close> and \<^verbatim>\<open>mapistore_backend.c\<close>, which are
  found by number or by URI and counted, and the indices of the users in \<^verbatim>\<open>mapistore_indexing.c\<close>. The
  functions of the backends are arguments, and what they keep for themselves is not modelled.
\<close>

section \<open>Data\<close>

record 'o mapistore_backend =
  backend_name :: string
  backend_namespace :: "string option"
  create_context :: "string \<Rightarrow> mapistore_error \<times> 'o"
  create_root_folder :: "string \<Rightarrow> u32 \<Rightarrow> u64 \<Rightarrow> string \<Rightarrow> mapistore_error \<times> string option"
  get_root_folder :: "'o \<Rightarrow> u64 \<Rightarrow> mapistore_error \<times> 'o"
  get_path :: "'o \<Rightarrow> u64 \<Rightarrow> mapistore_error \<times> string option"

text \<open>Of the index only whether there is one is looked at.\<close>

record 'o backend_context =
  backend :: "'o mapistore_backend"
  backend_object :: "'o option"
  root_folder_object :: "'o option"
  indexing :: bool
  context_id :: u32
  ref_count :: u32
  context_uri :: "string option"

record processing_context =
  free_ctx :: "u32 list"
  last_context_id :: u32

record ('d, 'o) mapistore_context =
  processing_ctx :: processing_context
  context_list :: "'o backend_context list"
  indexing_list :: "'d indexing_context option list"
  conn_username :: string

text \<open>\<open>get_indexing_url\<close> is \<^verbatim>\<open>openchangedb_get_indexing_url\<close>, without a value where that fails.\<close>

record 'd indexing_env =
  get_indexing_url :: "string \<Rightarrow> string option"
  default_indexing_url :: "string option"
  indexing_tdb_init :: "string \<Rightarrow> mapistore_error \<times> 'd indexing_context option"
  indexing_mysql_init :: "string \<Rightarrow> string \<Rightarrow> mapistore_error \<times> 'd indexing_context option"

section \<open>Context identifiers\<close>

text \<open>The variable keeps its value \<open>old\<close> when no free identifier is different from 0.\<close>

definition mapistore_get_context_id :: "processing_context \<Rightarrow> u32 \<Rightarrow> u32 \<times> processing_context" where
  "mapistore_get_context_id pctx old =
     (if free_ctx pctx = [] then (last_context_id pctx + 1, pctx\<lparr>last_context_id := last_context_id pctx + 1\<rparr>)
      else case find (\<lambda>i. i \<noteq> 0) (free_ctx pctx) of
        Some i \<Rightarrow> (i, pctx\<lparr>free_ctx := remove1 i (free_ctx pctx)\<rparr>)
      | None \<Rightarrow> (old, pctx))"

definition mapistore_free_context_id :: "processing_context \<Rightarrow> u32 \<Rightarrow> mapistore_error \<times> processing_context" where
  "mapistore_free_context_id pctx i =
     (if i \<in> set (free_ctx pctx) then (MAPISTORE_ERR_CORRUPTED, pctx)
      else (MAPISTORE_SUCCESS, pctx\<lparr>free_ctx := free_ctx pctx @ [i]\<rparr>))"

section \<open>Backends\<close>

definition mapistore_backend_registered :: "'o mapistore_backend list \<Rightarrow> string \<Rightarrow> mapistore_error" where
  "mapistore_backend_registered backends name =
     (if name \<in> backend_name ` set backends then MAPISTORE_SUCCESS else MAPISTORE_ERR_NOT_FOUND)"

definition mapistore_backend_register ::
  "'o mapistore_backend list \<Rightarrow> 'o mapistore_backend \<Rightarrow> mapistore_error \<times> 'o mapistore_backend list" where
  "mapistore_backend_register backends b =
     (if backend_name b \<in> backend_name ` set backends then (MAPISTORE_SUCCESS, backends)
      else (MAPISTORE_SUCCESS, backends @ [b]))"

definition mapistore_backend_lookup_by_name :: "'o mapistore_backend list \<Rightarrow> string \<Rightarrow> 'o backend_context option" where
  "mapistore_backend_lookup_by_name backends name =
     map_option (\<lambda>b. \<lparr>backend = b, backend_object = None, root_folder_object = None, indexing = False, context_id = 0,
                      ref_count = 0, context_uri = None\<rparr>)
       (find (\<lambda>b. backend_name b = name) backends)"

text \<open>A backend that does not know the role lets the next one try.\<close>

fun mapistore_backend_create_root_folder ::
  "'o mapistore_backend list \<Rightarrow> string \<Rightarrow> u32 \<Rightarrow> u64 \<Rightarrow> string \<Rightarrow> mapistore_error \<times> string option" where
  "mapistore_backend_create_root_folder [] username ctx_role fid name = (MAPISTORE_ERR_NOT_FOUND, None)"
| "mapistore_backend_create_root_folder (b # bs) username ctx_role fid name =
     (case create_root_folder b username ctx_role fid name of
        (retval, urip) \<Rightarrow>
          if retval = MAPISTORE_ERR_NOT_FOUND \<and> bs \<noteq> [] then mapistore_backend_create_root_folder bs username ctx_role fid name
          else (retval, urip))"

definition mapistore_backend_create_context ::
  "'o mapistore_backend list \<Rightarrow> string \<Rightarrow> string \<Rightarrow> u64 \<Rightarrow> mapistore_error + 'o backend_context" where
  "mapistore_backend_create_context backends namespace uri fid =
     (case find (\<lambda>b. backend_namespace b = Some namespace) backends of
        None \<Rightarrow> Inl MAPISTORE_ERR_NOT_FOUND
      | Some b \<Rightarrow>
          (case create_context b uri of (retval, obj) \<Rightarrow>
             if retval \<noteq> MAPISTORE_SUCCESS then Inl retval
             else case get_root_folder b obj fid of (retval', root) \<Rightarrow>
               if retval' \<noteq> MAPISTORE_SUCCESS then Inl retval'
               else Inr \<lparr>backend = b, backend_object = Some obj, root_folder_object = Some root, indexing = False,
                         context_id = 0, ref_count = 1, context_uri = Some (namespace @ uri)\<rparr>))"

definition mapistore_backend_add_ref_count :: "'o backend_context \<Rightarrow> 'o backend_context" where
  "mapistore_backend_add_ref_count bctx = bctx\<lparr>ref_count := ref_count bctx + 1\<rparr>"

text \<open>The context is freed when the status is \<^verbatim>\<open>MAPISTORE_SUCCESS\<close>.\<close>

definition mapistore_backend_delete_context :: "'o backend_context \<Rightarrow> mapistore_error \<times> 'o backend_context" where
  "mapistore_backend_delete_context bctx =
     (let bctx' = bctx\<lparr>ref_count := ref_count bctx - 1\<rparr>
      in (if ref_count bctx' \<noteq> 0 then MAPISTORE_ERR_REF_COUNT else MAPISTORE_SUCCESS, bctx'))"

definition mapistore_backend_lookup :: "'o backend_context list \<Rightarrow> u32 \<Rightarrow> 'o backend_context option" where
  "mapistore_backend_lookup l i = find (\<lambda>c. context_id c = i) l"

definition mapistore_backend_lookup_by_uri :: "'o backend_context list \<Rightarrow> string \<Rightarrow> 'o backend_context option" where
  "mapistore_backend_lookup_by_uri l uri = find (\<lambda>c. context_uri c = Some uri) l"

definition mapistore_backend_get_path :: "'o backend_context \<Rightarrow> u64 \<Rightarrow> (mapistore_error \<times> string option) outcome" where
  "mapistore_backend_get_path bctx fmid =
     (case (backend_object bctx, backend_namespace (backend bctx)) of
        (Some obj, Some namespace) \<Rightarrow>
          (case get_path (backend bctx) obj fmid of
             (MAPISTORE_SUCCESS, None) \<Rightarrow> Ok (MAPISTORE_ERR_INVALID_DATA, None)
           | (MAPISTORE_SUCCESS, Some bpath) \<Rightarrow> Ok (MAPISTORE_SUCCESS, Some (namespace @ bpath))
           | (ret, _) \<Rightarrow> Ok (ret, None))
      | _ \<Rightarrow> Fault)"

section \<open>Indices\<close>

fun find_context :: "'d indexing_context option list \<Rightarrow> string \<Rightarrow> nat option" where
  "find_context [] username = None"
| "find_context (c # cs) username =
     (if map_option index_url c = Some username then Some 0 else map_option Suc (find_context cs username))"

text \<open>The position of the index in the list.\<close>

definition mapistore_indexing_search :: "('d, 'o) mapistore_context \<Rightarrow> string \<Rightarrow> nat option" where
  "mapistore_indexing_search m username = find_context (indexing_list m) username"

text \<open>
  The list starts with an element that \<^verbatim>\<open>talloc_zero\<close> made, which has no context and whose \<^verbatim>\<open>prev\<close> pointer is null, so
  that \<^verbatim>\<open>DLIST_ADD_END\<close> adds at the front. The status of the two functions that open an index is not looked at: an
  element without a context is added when they fail.
\<close>

definition mapistore_indexing_add ::
  "'d indexing_env \<Rightarrow> ('d, 'o) mapistore_context \<Rightarrow> string \<Rightarrow> mapistore_error \<times> ('d, 'o) mapistore_context \<times> nat option" where
  "mapistore_indexing_add E m username =
     (case mapistore_indexing_search m username of
        Some i \<Rightarrow> (MAPISTORE_SUCCESS, m, Some i)
      | None \<Rightarrow>
          let add = (\<lambda>c. (MAPISTORE_SUCCESS, m\<lparr>indexing_list := c # indexing_list m\<rparr>, map_option (\<lambda>_. 0) c));
              url = (case get_indexing_url E username of Some u \<Rightarrow> Some u | None \<Rightarrow> default_indexing_url E)
          in case url of
               None \<Rightarrow> add (snd (indexing_tdb_init E username))
             | Some u \<Rightarrow>
                 if take 8 u = ''mysql://'' then add (snd (indexing_mysql_init E username u))
                 else (MAPISTORE_ERROR, m, None))"

definition index_at :: "('d, 'o) mapistore_context \<Rightarrow> nat \<Rightarrow> 'd indexing_context outcome" where
  "index_at m i = (case rd (indexing_list m) i of Ok (Some c) \<Rightarrow> Ok c | _ \<Rightarrow> Fault)"

definition put_index :: "('d, 'o) mapistore_context \<Rightarrow> nat \<Rightarrow> 'd indexing_context \<Rightarrow> ('d, 'o) mapistore_context" where
  "put_index m i c = m\<lparr>indexing_list := (indexing_list m)[i := Some c]\<rparr>"

text \<open>What the functions on records have in common: the index of the user is found or opened, and used.\<close>

definition with_index ::
  "'d indexing_env \<Rightarrow> ('d, 'o) mapistore_context \<Rightarrow> string \<Rightarrow> mapistore_error \<Rightarrow>
     ('d indexing_context \<Rightarrow> (mapistore_error \<times> 'd \<times> 'a) outcome) \<Rightarrow> 'a \<Rightarrow>
     (mapistore_error \<times> ('d, 'o) mapistore_context \<times> 'a) outcome" where
  "with_index E m username err f a =
     (case mapistore_indexing_add E m username of
        (ret, m', ictx) \<Rightarrow>
          if ret \<noteq> MAPISTORE_SUCCESS then Ok (MAPISTORE_ERROR, m', a)
          else case ictx of
            None \<Rightarrow> Ok (err, m', a)
          | Some i \<Rightarrow>
              obind (index_at m' i) (\<lambda>c.
              obind (f c) (\<lambda>(ret', d, r).
              Ok (ret', put_index m' i (c\<lparr>index_data := d\<rparr>), r))))"

definition MAPISTORE_FOLDER :: nat where "MAPISTORE_FOLDER = 1"
definition MAPISTORE_MESSAGE :: nat where "MAPISTORE_MESSAGE = 2"

definition mapistore_indexing_record_add_fmid ::
  "'d indexing_env \<Rightarrow> ('d, 'o) mapistore_context \<Rightarrow> u32 \<Rightarrow> string \<Rightarrow> u64 \<Rightarrow> nat \<Rightarrow>
     (mapistore_error \<times> ('d, 'o) mapistore_context \<times> unit) outcome" where
  "mapistore_indexing_record_add_fmid E m ctx_id username fmid type =
     (if ctx_id = 0 \<or> fmid = 0 then Ok (MAPISTORE_ERROR, m, ())
      else if type \<noteq> MAPISTORE_FOLDER \<and> type \<noteq> MAPISTORE_MESSAGE then Ok (MAPISTORE_ERR_INVALID_PARAMETER, m, ())
      else case mapistore_backend_lookup (context_list m) ctx_id of
        None \<Rightarrow> Ok (MAPISTORE_ERR_INVALID_PARAMETER, m, ())
      | Some bctx \<Rightarrow>
          if \<not> indexing bctx then Ok (MAPISTORE_ERR_INVALID_PARAMETER, m, ())
          else
            with_index E m username MAPISTORE_ERROR (\<lambda>c.
              obind (mapistore_backend_get_path bctx fmid) (\<lambda>(ret, mapistore_URI).
              case (ret, mapistore_URI) of
                (MAPISTORE_SUCCESS, Some uri) \<Rightarrow>
                  Ok (case add_fmid c (index_data c) username fmid uri of (ret', d) \<Rightarrow> (ret', d, ()))
              | _ \<Rightarrow> Ok (MAPISTORE_ERROR, index_data c, ()))) ())"

definition mapistore_indexing_record_add_fmid_for_uri ::
  "'d indexing_env \<Rightarrow> ('d, 'o) mapistore_context \<Rightarrow> u32 \<Rightarrow> string \<Rightarrow> u64 \<Rightarrow> string \<Rightarrow>
     (mapistore_error \<times> ('d, 'o) mapistore_context \<times> unit) outcome" where
  "mapistore_indexing_record_add_fmid_for_uri E m ctx_id username fmid mapistore_uri =
     (if ctx_id = 0 \<or> fmid = 0 then Ok (MAPISTORE_ERR_INVALID_PARAMETER, m, ())
      else case mapistore_backend_lookup (context_list m) ctx_id of
        None \<Rightarrow> Ok (MAPISTORE_ERR_INVALID_PARAMETER, m, ())
      | Some bctx \<Rightarrow>
          if \<not> indexing bctx then Ok (MAPISTORE_ERR_INVALID_PARAMETER, m, ())
          else
            with_index E m username MAPISTORE_ERROR (\<lambda>c.
              Ok (case add_fmid c (index_data c) username fmid mapistore_uri of (ret', d) \<Rightarrow> (ret', d, ()))) ())"

definition mapistore_indexing_record_del_fmid ::
  "'d indexing_env \<Rightarrow> ('d, 'o) mapistore_context \<Rightarrow> u32 \<Rightarrow> string \<Rightarrow> u64 \<Rightarrow> u8 \<Rightarrow> nat \<Rightarrow>
     (mapistore_error \<times> ('d, 'o) mapistore_context \<times> unit) outcome" where
  "mapistore_indexing_record_del_fmid E m ctx_id username fmid flags type =
     (if ctx_id = 0 \<or> fmid = 0 then Ok (MAPISTORE_ERROR, m, ())
      else case mapistore_backend_lookup (context_list m) ctx_id of
        None \<Rightarrow> Ok (MAPISTORE_ERR_INVALID_PARAMETER, m, ())
      | Some bctx \<Rightarrow>
          if \<not> indexing bctx then Ok (MAPISTORE_ERR_INVALID_PARAMETER, m, ())
          else
            with_index E m username MAPISTORE_ERROR (\<lambda>c.
              if type = MAPISTORE_FOLDER \<or> type = MAPISTORE_MESSAGE
              then Ok (case del_fmid c (index_data c) username fmid flags of (ret', d) \<Rightarrow> (ret', d, ()))
              else Ok (MAPISTORE_ERR_INVALID_PARAMETER, index_data c, ())) ())"

definition mapistore_indexing_record_get_uri ::
  "'d indexing_env \<Rightarrow> ('d, 'o) mapistore_context \<Rightarrow> string \<Rightarrow> u64 \<Rightarrow>
     (mapistore_error \<times> ('d, 'o) mapistore_context \<times> (string option \<times> bool) option) outcome" where
  "mapistore_indexing_record_get_uri E m username fmid =
     with_index E m username MAPISTORE_ERROR
       (\<lambda>c. Ok (case get_uri c (index_data c) username fmid of (ret, r) \<Rightarrow> (ret, index_data c, r))) None"

definition mapistore_indexing_record_get_fmid ::
  "'d indexing_env \<Rightarrow> ('d, 'o) mapistore_context \<Rightarrow> string \<Rightarrow> string \<Rightarrow> bool \<Rightarrow>
     (mapistore_error \<times> ('d, 'o) mapistore_context \<times> (u64 \<times> bool) option) outcome" where
  "mapistore_indexing_record_get_fmid E m username uri partial =
     with_index E m username MAPISTORE_ERROR
       (\<lambda>c. obind (get_fmid c (index_data c) username uri partial) (\<lambda>(ret, r). Ok (ret, index_data c, r))) None"

definition mapistore_indexing_record_add_fid where
  "mapistore_indexing_record_add_fid E m ctx_id username fid = mapistore_indexing_record_add_fmid E m ctx_id username fid MAPISTORE_FOLDER"

definition mapistore_indexing_record_del_fid where
  "mapistore_indexing_record_del_fid E m ctx_id username fid flags =
     mapistore_indexing_record_del_fmid E m ctx_id username fid flags MAPISTORE_FOLDER"

definition mapistore_indexing_record_add_mid where
  "mapistore_indexing_record_add_mid E m ctx_id username mid = mapistore_indexing_record_add_fmid E m ctx_id username mid MAPISTORE_MESSAGE"

definition mapistore_indexing_record_del_mid where
  "mapistore_indexing_record_del_mid E m ctx_id username mid flags =
     mapistore_indexing_record_del_fmid E m ctx_id username mid flags MAPISTORE_MESSAGE"

section \<open>New identifiers\<close>

text \<open>The length of the range becomes an \<^verbatim>\<open>int\<close> where the index is called. \<open>None\<close> is an identifier that was not set.\<close>

definition mapistore_indexing_allocate_fid ::
  "'d indexing_env \<Rightarrow> ('d, 'o) mapistore_context \<Rightarrow> string \<Rightarrow> u64 \<Rightarrow>
     (mapistore_error \<times> ('d, 'o) mapistore_context \<times> u64 option) outcome" where
  "mapistore_indexing_allocate_fid E m username range_len =
     with_index E m username MAPISTORE_ERR_INVALID_PARAMETER
       (\<lambda>c. Ok (case allocate_fmids c (index_data c) username (ucast range_len) of (ret, d, fid) \<Rightarrow> (ret, d, Some fid))) None"

definition fid_of_counter :: "u64 \<Rightarrow> u64" where
  "fid_of_counter n = push_bit 16 (exchange_globcnt n) OR 1"

definition mapistore_indexing_get_new_folderID_as_user ::
  "'d indexing_env \<Rightarrow> ('d, 'o) mapistore_context \<Rightarrow> string \<Rightarrow> (mapistore_error \<times> ('d, 'o) mapistore_context \<times> u64 option) outcome" where
  "mapistore_indexing_get_new_folderID_as_user E m username =
     obind (mapistore_indexing_allocate_fid E m username 1) (\<lambda>(ret, m', fid).
     Ok (ret, m', if ret = MAPISTORE_SUCCESS then map_option fid_of_counter fid else fid))"

definition mapistore_indexing_get_new_folderID where
  "mapistore_indexing_get_new_folderID E m = mapistore_indexing_get_new_folderID_as_user E m (conn_username m)"

definition mapistore_indexing_get_new_folderIDs ::
  "'d indexing_env \<Rightarrow> ('d, 'o) mapistore_context \<Rightarrow> u64 \<Rightarrow> (mapistore_error \<times> ('d, 'o) mapistore_context \<times> u64 list) outcome" where
  "mapistore_indexing_get_new_folderIDs E m n =
     obind (mapistore_indexing_allocate_fid E m (conn_username m) n) (\<lambda>(ret, m', fid).
     Ok (ret, m',
         case fid of
           Some f \<Rightarrow> if ret = MAPISTORE_SUCCESS then map (\<lambda>i. fid_of_counter (f + of_nat i)) [0..<unat n] else []
         | None \<Rightarrow> []))"

definition mapistore_indexing_reserve_fmid_range ::
  "('d, 'o) mapistore_context \<Rightarrow> u64 \<Rightarrow> (mapistore_error \<times> ('d, 'o) mapistore_context \<times> u64 option) outcome" where
  "mapistore_indexing_reserve_fmid_range m range_len =
     (case mapistore_indexing_search m (conn_username m) of
        None \<Rightarrow> Ok (MAPISTORE_ERR_INVALID_PARAMETER, m, None)
      | Some i \<Rightarrow>
          obind (index_at m i) (\<lambda>c.
          case allocate_fmids c (index_data c) (conn_username m) (ucast range_len) of
            (ret, d, fmid) \<Rightarrow>
              Ok (ret, put_index m i (c\<lparr>index_data := d\<rparr>), if ret = MAPISTORE_SUCCESS then Some (fid_of_counter fmid) else None)))"

section \<open>Contexts\<close>

text \<open>A URI is a namespace that ends with \<^verbatim>\<open>://\<close> and what the backend makes of the rest.\<close>

definition split_uri :: "string \<Rightarrow> (string \<times> string) option" where
  "split_uri uri =
     (let pre = takeWhile (\<lambda>c. c \<noteq> CHR '':'') uri; rest = dropWhile (\<lambda>c. c \<noteq> CHR '':'') uri
      in if take 3 rest = ''://'' \<and> 3 < length rest then Some (pre @ take 3 rest, drop 3 rest) else None)"

definition mapistore_add_context ::
  "'d indexing_env \<Rightarrow> 'o mapistore_backend list \<Rightarrow> ('d, 'o) mapistore_context \<Rightarrow> string \<Rightarrow> string \<Rightarrow> u64 \<Rightarrow>
     mapistore_error \<times> ('d, 'o) mapistore_context \<times> (u32 \<times> 'o option) option" where
  "mapistore_add_context E backends m owner uri fid =
     (if length uri < 4 then (MAPISTORE_ERR_INVALID_NAMESPACE, m, None)
      else case split_uri uri of
        None \<Rightarrow> (MAPISTORE_ERR_INVALID_NAMESPACE, m, None)
      | Some (namespace, backend_uri) \<Rightarrow>
          (case mapistore_indexing_add E m owner of
             (_, m1, ictx) \<Rightarrow>
               (case mapistore_backend_create_context backends namespace backend_uri fid of
                  Inl retval \<Rightarrow> (retval, m1, None)
                | Inr ctx \<Rightarrow>
                    (case mapistore_get_context_id (processing_ctx m1) (context_id ctx) of
                       (i, pctx) \<Rightarrow>
                         let ctx' = ctx\<lparr>indexing := ictx \<noteq> None, context_id := i\<rparr>
                         in (MAPISTORE_SUCCESS, m1\<lparr>processing_ctx := pctx, context_list := context_list m1 @ [ctx']\<rparr>,
                             Some (i, root_folder_object ctx'))))))"

text \<open>The first context with the number is replaced or removed.\<close>

fun replace_context :: "u32 \<Rightarrow> 'o backend_context \<Rightarrow> 'o backend_context list \<Rightarrow> 'o backend_context list" where
  "replace_context i c [] = []"
| "replace_context i c (x # xs) = (if context_id x = i then c # xs else x # replace_context i c xs)"

fun drop_context :: "u32 \<Rightarrow> 'o backend_context list \<Rightarrow> 'o backend_context list" where
  "drop_context i [] = []"
| "drop_context i (x # xs) = (if context_id x = i then xs else x # drop_context i xs)"

definition mapistore_add_context_ref_count ::
  "('d, 'o) mapistore_context \<Rightarrow> u32 \<Rightarrow> (mapistore_error \<times> ('d, 'o) mapistore_context) outcome" where
  "mapistore_add_context_ref_count m i =
     (if context_list m = [] then Ok (MAPISTORE_ERR_NOT_INITIALIZED, m)
      else if i = 0xffffffff then Ok (MAPISTORE_ERROR, m)
      else case mapistore_backend_lookup (context_list m) i of
        None \<Rightarrow> Ok (MAPISTORE_ERR_INVALID_PARAMETER, m)
      | Some bctx \<Rightarrow>
          if \<not> indexing bctx then Abort
          else Ok (MAPISTORE_SUCCESS, m\<lparr>context_list := replace_context i (mapistore_backend_add_ref_count bctx) (context_list m)\<rparr>))"

definition mapistore_search_context_by_uri ::
  "('d, 'o) mapistore_context \<Rightarrow> string \<Rightarrow> mapistore_error \<times> (u32 \<times> 'o option) option" where
  "mapistore_search_context_by_uri m uri =
     (if context_list m = [] then (MAPISTORE_ERR_NOT_INITIALIZED, None)
      else case mapistore_backend_lookup_by_uri (context_list m) uri of
        None \<Rightarrow> (MAPISTORE_ERR_NOT_FOUND, None)
      | Some bctx \<Rightarrow> (MAPISTORE_SUCCESS, Some (context_id bctx, root_folder_object bctx)))"

definition mapistore_del_context :: "('d, 'o) mapistore_context \<Rightarrow> u32 \<Rightarrow> mapistore_error \<times> ('d, 'o) mapistore_context" where
  "mapistore_del_context m i =
     (if context_list m = [] then (MAPISTORE_ERR_NOT_INITIALIZED, m)
      else if i = 0xffffffff then (MAPISTORE_ERROR, m)
      else case mapistore_backend_lookup (context_list m) i of
        None \<Rightarrow> (MAPISTORE_ERR_INVALID_PARAMETER, m)
      | Some bctx \<Rightarrow>
          (case mapistore_backend_delete_context bctx of
             (MAPISTORE_SUCCESS, _) \<Rightarrow>
               (case mapistore_free_context_id (processing_ctx m) i of
                  (retval, pctx) \<Rightarrow> (retval, m\<lparr>context_list := drop_context i (context_list m), processing_ctx := pctx\<rparr>))
           | (_, bctx') \<Rightarrow> (MAPISTORE_SUCCESS, m\<lparr>context_list := replace_context i bctx' (context_list m)\<rparr>)))"

text \<open>The state after \<^verbatim>\<open>mapistore_init\<close> and \<^verbatim>\<open>mapistore_set_connection_info\<close>.\<close>

definition mapistore_start :: "string \<Rightarrow> ('d, 'o) mapistore_context" where
  "mapistore_start username =
     \<lparr>processing_ctx = \<lparr>free_ctx = [], last_context_id = 0\<rparr>, context_list = [], indexing_list = [None], conn_username = username\<rparr>"

end
