(* ===== verification/Mapistore_Contexts.thy ===== *)
theory Mapistore_Contexts
  imports Mapistore Mapi_Handles_Table
begin

unbundle bit_operations_syntax

text \<open>
  The numbers of the contexts of the storage layer (\<^verbatim>\<open>src/mapiproxy/libmapistore/mapistore_interface.c\<close> and
  \<^verbatim>\<open>mapistore_processing.c\<close>): a number belongs to one open context or is free, and a context is open as
  long as it is referred to.
\<close>

section \<open>Finding contexts\<close>

definition open_ids :: "('d, 'o) mapistore_context \<Rightarrow> u32 list" where
  "open_ids m = map context_id (context_list m)"

abbreviation "lookup_context m \<equiv> mapistore_backend_lookup (context_list m)"

lemma lookup_simps [simp]:
  "mapistore_backend_lookup [] i = None"
  "mapistore_backend_lookup (c # cs) i = (if context_id c = i then Some c else mapistore_backend_lookup cs i)"
  by (simp_all add: mapistore_backend_lookup_def)

lemma lookup_append: "mapistore_backend_lookup (cs @ ds) i = (case mapistore_backend_lookup cs i of None \<Rightarrow> mapistore_backend_lookup ds i | r \<Rightarrow> r)"
  by (induction cs) auto

lemma lookup_None_iff: "mapistore_backend_lookup cs i = None \<longleftrightarrow> i \<notin> context_id ` set cs"
  by (induction cs) auto

lemma lookup_id: "mapistore_backend_lookup cs i = Some c \<Longrightarrow> context_id c = i"
  by (induction cs) (auto split: if_splits)

lemma replace_context_ids: "context_id c = i \<Longrightarrow> map context_id (replace_context i c cs) = map context_id cs"
  by (induction cs) auto

lemma lookup_replace:
  "context_id c = i \<Longrightarrow> mapistore_backend_lookup (replace_context i c cs) j =
     (if j = i \<and> i \<in> context_id ` set cs then Some c else mapistore_backend_lookup cs j)"
  by (induction cs) auto

lemma drop_context_ids: "map context_id (drop_context i cs) = remove1 i (map context_id cs)"
  by (induction cs) auto

lemma lookup_drop: "j \<noteq> i \<Longrightarrow> mapistore_backend_lookup (drop_context i cs) j = mapistore_backend_lookup cs j"
  by (induction cs) auto

section \<open>The invariant\<close>

text \<open>Every number up to the last one that was made is given out once: to a context, or back to the free list.\<close>

definition contexts_inv :: "('d, 'o) mapistore_context \<Rightarrow> bool" where
  "contexts_inv m \<longleftrightarrow>
     mset (map unat (open_ids m @ free_ctx (processing_ctx m))) = mset [1..<Suc (unat (last_context_id (processing_ctx m)))]"

lemma contexts_inv_cong:
  "open_ids m' = open_ids m \<Longrightarrow> processing_ctx m' = processing_ctx m \<Longrightarrow> contexts_inv m \<Longrightarrow> contexts_inv m'"
  by (simp add: contexts_inv_def)

lemma contexts_invD:
  assumes "contexts_inv m"
  shows "distinct (open_ids m @ free_ctx (processing_ctx m))"
    "set (open_ids m @ free_ctx (processing_ctx m)) = {i. 1 \<le> i \<and> i \<le> last_context_id (processing_ctx m)}"
proof -
  let ?xs = "open_ids m @ free_ctx (processing_ctx m)" and ?n = "unat (last_context_id (processing_ctx m))"
  have e: "mset (map unat ?xs) = mset [1..<Suc ?n]" using assms by (simp add: contexts_inv_def)
  have "distinct (map unat ?xs)" using mset_eq_imp_distinct_iff [OF e] by simp
  then show "distinct ?xs" unfolding distinct_map by blast
  have s: "unat ` set ?xs = {1..?n}" using mset_eq_setD [OF e] by (simp only: set_map set_upt atLeastLessThanSuc_atLeastAtMost)
  have "i \<in> set ?xs \<longleftrightarrow> unat i \<in> unat ` set ?xs" for i by (metis (no_types, opaque_lifting) image_iff unsigned_word_eqI)
  also have "\<dots> i \<longleftrightarrow> 1 \<le> i \<and> i \<le> last_context_id (processing_ctx m)" for i
    unfolding s by (auto simp: word_le_nat_alt)
  finally show "set ?xs = {i. 1 \<le> i \<and> i \<le> last_context_id (processing_ctx m)}" by blast
qed

text \<open>A number for a new context.\<close>

lemma get_context_id_inv:
  assumes I: "contexts_inv m" and l: "last_context_id (processing_ctx m) \<noteq> 0xffffffff"
    and g: "mapistore_get_context_id (processing_ctx m) old = (i, pctx)"
  shows "i \<notin> set (open_ids m)" and "i \<noteq> 0"
    and "mset (map unat (open_ids m @ [i] @ free_ctx pctx)) = mset [1..<Suc (unat (last_context_id pctx))]"
proof -
  let ?p = "processing_ctx m" and ?l = "last_context_id (processing_ctx m)"
  have e: "mset (map unat (open_ids m @ free_ctx ?p)) = mset [1..<Suc (unat ?l)]" using I by (simp add: contexts_inv_def)
  have ids: "set (open_ids m @ free_ctx ?p) = {i. 1 \<le> i \<and> i \<le> ?l}" and d: "distinct (open_ids m @ free_ctx ?p)"
    using contexts_invD [OF I] by auto
  have "i \<notin> set (open_ids m) \<and> i \<noteq> 0 \<and> mset (map unat (open_ids m @ [i] @ free_ctx pctx)) = mset [1..<Suc (unat (last_context_id pctx))]"
  proof (cases "free_ctx ?p")
    case Nil
    have nz: "1 + ?l \<noteq> 0"
    proof
      assume "1 + ?l = 0"
      then have "?l = -1" by (simp add: eq_neg_iff_add_eq_0 add.commute)
      then show False using l by simp
    qed
    have u: "unat (?l + 1) = Suc (unat ?l)" using unatSuc [OF nz] by (simp add: add.commute)
    have "i = ?l + 1" "pctx = ?p\<lparr>last_context_id := ?l + 1\<rparr>" using g Nil by (auto simp: mapistore_get_context_id_def)
    moreover have "?l + 1 \<notin> set (open_ids m)" using ids Nil u by (auto simp: word_le_nat_alt)
    ultimately show ?thesis using e Nil u nz by (simp add: add.commute)
  next
    case (Cons j js)
    then have "j \<in> {i. 1 \<le> i \<and> i \<le> ?l}" unfolding ids [symmetric] by simp
    then have "j \<noteq> 0" by auto
    then have "i = j" "pctx = ?p\<lparr>free_ctx := js\<rparr>" using g Cons by (auto simp: mapistore_get_context_id_def)
    then show ?thesis using e Cons d \<open>j \<noteq> 0\<close> by simp
  qed
  then show "i \<notin> set (open_ids m)" "i \<noteq> 0" "mset (map unat (open_ids m @ [i] @ free_ctx pctx)) = mset [1..<Suc (unat (last_context_id pctx))]" by simp_all
qed

section \<open>The operations\<close>

lemma split_uri_parts: "split_uri uri = Some (ns, rest) \<Longrightarrow> ns @ rest = uri"
  by (auto simp: split_uri_def Let_def split: if_splits)
    (metis append_Cons append_Nil append_take_drop_id takeWhile_dropWhile_id)

lemma create_context_fields:
  "mapistore_backend_create_context B ns u fid = Inr c \<Longrightarrow> context_id c = 0 \<and> ref_count c = 1 \<and> context_uri c = Some (ns @ u)"
  by (auto simp: mapistore_backend_create_context_def split: option.splits prod.splits if_splits)

lemma indexing_add_contexts:
  "mapistore_indexing_add E m usr = (r, m', i) \<Longrightarrow> context_list m' = context_list m \<and> processing_ctx m' = processing_ctx m"
  by (auto simp: mapistore_indexing_add_def Let_def split: option.splits if_splits)

lemma with_index_contexts:
  assumes "with_index E m usr err f a = Ok (r, m', x)"
  shows "context_list m' = context_list m \<and> processing_ctx m' = processing_ctx m"
  using assms indexing_add_contexts [of E m usr]
  by (auto simp: with_index_def put_index_def split: prod.splits if_splits option.splits)

lemma add_context_result:
  assumes "mapistore_add_context E B m owner uri fid = (r, m', res)"
  obtains (refused) "context_list m' = context_list m" "processing_ctx m' = processing_ctx m" "res = None"
  | (added) i pctx c where "mapistore_get_context_id (processing_ctx m) 0 = (i, pctx)" "res = Some (i, root_folder_object c)" "r = MAPISTORE_SUCCESS"
      "context_list m' = context_list m @ [c]" "processing_ctx m' = pctx" "context_id c = i" "ref_count c = 1" "context_uri c = Some uri"
proof (cases "length uri < 4 \<or> split_uri uri = None")
  case True
  then show thesis using assms refused by (auto simp: mapistore_add_context_def split: if_splits)
next
  case False
  then obtain ns u where u: "split_uri uri = Some (ns, u)" by auto
  obtain r1 m1 ictx where a: "mapistore_indexing_add E m owner = (r1, m1, ictx)" by (metis prod_cases3)
  note same = indexing_add_contexts [OF a]
  show thesis
  proof (cases "mapistore_backend_create_context B ns u fid")
    case (Inl e)
    then show thesis using assms refused u a False same by (simp add: mapistore_add_context_def)
  next
    case (Inr c)
    note c = create_context_fields [OF Inr]
    obtain i pctx where g: "mapistore_get_context_id (processing_ctx m) 0 = (i, pctx)" by fastforce
    show thesis
      by (rule added [OF g, of "c\<lparr>indexing := ictx \<noteq> None, context_id := i\<rparr>"])
        (use assms u a Inr c g False same split_uri_parts [OF u] in \<open>auto simp: mapistore_add_context_def Let_def\<close>)
  qed
qed

lemma add_context_inv:
  assumes I: "contexts_inv m" and l: "last_context_id (processing_ctx m) \<noteq> 0xffffffff"
    and a: "mapistore_add_context E B m owner uri fid = (r, m', res)"
  shows "contexts_inv m'"
  using a
proof (cases rule: add_context_result)
  case refused
  with I show ?thesis by (simp add: contexts_inv_def open_ids_def)
next
  case (added i pctx c)
  then show ?thesis using get_context_id_inv(3) [OF I l added(1)] by (simp add: contexts_inv_def open_ids_def)
qed

lemma add_ref_count_result:
  assumes "mapistore_add_context_ref_count m i = Ok (r, m')"
  shows "open_ids m' = open_ids m \<and> processing_ctx m' = processing_ctx m"
  using assms by (auto simp: mapistore_add_context_ref_count_def open_ids_def mapistore_backend_add_ref_count_def
      replace_context_ids dest: lookup_id split: if_splits option.splits)

lemma del_context_cases:
  assumes c: "lookup_context m i = Some c" and i: "i \<noteq> 0xffffffff"
  shows "ref_count c \<noteq> 1 \<Longrightarrow> mapistore_del_context m i =
      (MAPISTORE_SUCCESS, m\<lparr>context_list := replace_context i (c\<lparr>ref_count := ref_count c - 1\<rparr>) (context_list m)\<rparr>)"
    and "ref_count c = 1 \<Longrightarrow> i \<notin> set (free_ctx (processing_ctx m)) \<Longrightarrow> mapistore_del_context m i =
      (MAPISTORE_SUCCESS, m\<lparr>context_list := drop_context i (context_list m),
         processing_ctx := (processing_ctx m)\<lparr>free_ctx := free_ctx (processing_ctx m) @ [i]\<rparr>\<rparr>)"
proof -
  have "context_list m \<noteq> []" using c by auto
  then show "ref_count c \<noteq> 1 \<Longrightarrow> mapistore_del_context m i =
      (MAPISTORE_SUCCESS, m\<lparr>context_list := replace_context i (c\<lparr>ref_count := ref_count c - 1\<rparr>) (context_list m)\<rparr>)"
    and "ref_count c = 1 \<Longrightarrow> i \<notin> set (free_ctx (processing_ctx m)) \<Longrightarrow> mapistore_del_context m i =
      (MAPISTORE_SUCCESS, m\<lparr>context_list := drop_context i (context_list m),
         processing_ctx := (processing_ctx m)\<lparr>free_ctx := free_ctx (processing_ctx m) @ [i]\<rparr>\<rparr>)"
    using c i by (simp_all add: mapistore_del_context_def mapistore_backend_delete_context_def mapistore_free_context_id_def)
qed

lemma del_context_inv:
  assumes I: "contexts_inv m" and d: "mapistore_del_context m i = (r, m')"
  shows "contexts_inv m'"
proof (cases "i \<noteq> 0xffffffff \<and> lookup_context m i \<noteq> None")
  case False
  then have "m' = m" using d by (auto simp: mapistore_del_context_def split: if_splits option.splits)
  with I show ?thesis by simp
next
  case True
  then obtain c where c: "lookup_context m i = Some c" and i: "i \<noteq> 0xffffffff" by auto
  have mem: "i \<in> set (open_ids m)" using c lookup_None_iff [of "context_list m" i] by (auto simp: open_ids_def)
  then have n: "i \<notin> set (free_ctx (processing_ctx m))" using contexts_invD(1) [OF I] by auto
  show ?thesis
  proof (cases "ref_count c = 1")
    case False
    then have "open_ids m' = open_ids m \<and> processing_ctx m' = processing_ctx m"
      using d del_context_cases(1) [OF c i False] lookup_id [OF c] by (auto simp: open_ids_def replace_context_ids)
    then show ?thesis using I by (simp add: contexts_inv_def)
  next
    case True
    have m': "m' = m\<lparr>context_list := drop_context i (context_list m),
        processing_ctx := (processing_ctx m)\<lparr>free_ctx := free_ctx (processing_ctx m) @ [i]\<rparr>\<rparr>"
      using d del_context_cases(2) [OF c i True n] by simp
    then have o: "open_ids m' = remove1 i (open_ids m)" by (simp add: open_ids_def drop_context_ids)
    have f: "free_ctx (processing_ctx m') = free_ctx (processing_ctx m) @ [i]" by (simp add: m')
    have "mset (open_ids m' @ free_ctx (processing_ctx m')) = mset (open_ids m @ free_ctx (processing_ctx m))"
      using mem by (simp add: o f)
    then have "mset (map unat (open_ids m' @ free_ctx (processing_ctx m'))) = mset (map unat (open_ids m @ free_ctx (processing_ctx m)))"
      by (simp only: mset_map)
    moreover have "last_context_id (processing_ctx m') = last_context_id (processing_ctx m)" by (simp add: m')
    ultimately show ?thesis using I unfolding contexts_inv_def by (simp only:)
  qed
qed

section \<open>Reachable states\<close>

inductive contexts_reachable :: "'d indexing_env \<Rightarrow> 'o mapistore_backend list \<Rightarrow> ('d, 'o) mapistore_context \<Rightarrow> bool" for E B where
  start: "contexts_reachable E B (mapistore_start usr)"
| add: "contexts_reachable E B m \<Longrightarrow> last_context_id (processing_ctx m) \<noteq> 0xffffffff \<Longrightarrow>
    mapistore_add_context E B m owner uri fid = (r, m', res) \<Longrightarrow> contexts_reachable E B m'"
| ref: "contexts_reachable E B m \<Longrightarrow> mapistore_add_context_ref_count m i = Ok (r, m') \<Longrightarrow> contexts_reachable E B m'"
| del: "contexts_reachable E B m \<Longrightarrow> mapistore_del_context m i = (r, m') \<Longrightarrow> contexts_reachable E B m'"
| index: "contexts_reachable E B m \<Longrightarrow> with_index E m usr err f (a :: u64 option) = Ok (r, m', x) \<Longrightarrow> contexts_reachable E B m'"

lemma contexts_reachable_inv: "contexts_reachable E B m \<Longrightarrow> contexts_inv m"
proof (induction rule: contexts_reachable.induct)
  case (start usr)
  then show ?case by (simp add: contexts_inv_def open_ids_def mapistore_start_def)
next
  case (add m owner uri fid r m' res)
  then show ?case by (blast intro: add_context_inv)
next
  case (ref m i r m')
  then show ?case using add_ref_count_result contexts_inv_cong by blast
next
  case (del m i r m')
  then show ?case by (blast intro: del_context_inv)
next
  case (index m usr err f a r m' x)
  then show ?case using with_index_contexts [OF index(2)] by (simp add: contexts_inv_def open_ids_def)
qed

section \<open>A storage for examples\<close>

definition sample_backend :: "string mapistore_backend" where
  "sample_backend =
     \<lparr>backend_name = ''sogo'', backend_namespace = Some ''sogo://'', create_context = (\<lambda>u. (MAPISTORE_SUCCESS, u)),
      create_root_folder = (\<lambda>_ _ _ _. (MAPISTORE_ERR_NOT_FOUND, None)), get_root_folder = (\<lambda>obj _. (MAPISTORE_SUCCESS, obj)),
      get_path = (\<lambda>obj _. (MAPISTORE_SUCCESS, Some obj))\<rparr>"

definition sample_indexing :: "(string \<times> string) list indexing_env" where
  "sample_indexing =
     \<lparr>get_indexing_url = (\<lambda>_. None), default_indexing_url = None,
      indexing_tdb_init = mapistore_indexing_tdb_init assoc_tdb (\<lambda>_. []) (\<lambda>_. Some []),
      indexing_mysql_init = (\<lambda>_ _. (MAPISTORE_ERR_DATABASE_INIT, None))\<rparr>"

definition sample_open :: "string list \<Rightarrow> ((string \<times> string) list, string) mapistore_context" where
  "sample_open uris =
     foldl (\<lambda>m uri. fst (snd (mapistore_add_context sample_indexing [sample_backend] m ''u'' uri 1))) (mapistore_start ''u'') uris"

lemmas sample_storage_simps = sample_open_def sample_indexing_def sample_backend_def mapistore_start_def mapistore_add_context_def
  split_uri_def mapistore_indexing_add_def mapistore_indexing_search_def mapistore_indexing_tdb_init_def mapistore_backend_create_context_def
  mapistore_get_context_id_def Let_def

lemma sample_open_two:
  "open_ids (sample_open [''sogo://a'', ''sogo://b'']) = [1, 2]" "last_context_id (processing_ctx (sample_open [''sogo://a''])) = 1"
  "last_context_id (processing_ctx (sample_open [''sogo://a'', ''sogo://b''])) = 2" "free_ctx (processing_ctx (sample_open [''sogo://a'', ''sogo://b''])) = []"
  "map_option ref_count (lookup_context (sample_open [''sogo://a'', ''sogo://b'']) 1) = Some 1"
  by (simp_all add: sample_storage_simps open_ids_def tdb_index_def)

lemma reachable_open:
  assumes "contexts_reachable sample_indexing [sample_backend] (sample_open us)" and "last_context_id (processing_ctx (sample_open us)) \<noteq> 0xffffffff"
  shows "contexts_reachable sample_indexing [sample_backend] (sample_open (us @ [u]))"
proof (cases "mapistore_add_context sample_indexing [sample_backend] (sample_open us) ''u'' u 1")
  case (fields r m' res)
  then show ?thesis using contexts_reachable.add [OF assms fields] by (simp add: sample_open_def)
qed

lemma sample_reachable: "contexts_reachable sample_indexing [sample_backend] (sample_open [''sogo://a'', ''sogo://b''])"
proof -
  have "contexts_reachable sample_indexing [sample_backend] (sample_open [])" by (simp add: sample_open_def contexts_reachable.start)
  then have "contexts_reachable sample_indexing [sample_backend] (sample_open ([] @ [''sogo://a'']))"
    by (rule reachable_open) (simp add: sample_open_def mapistore_start_def)
  then have "contexts_reachable sample_indexing [sample_backend] (sample_open ([''sogo://a''] @ [''sogo://b'']))"
    by (intro reachable_open) (simp_all add: sample_open_two)
  then show ?thesis by simp
qed

section \<open>Properties\<close>

text \<open>C11 In every state that opening, sharing and closing contexts leads to, each number up to the last one that was made belongs to exactly one open context
  or is in the list of free numbers, once: no number is given to two contexts, and none is lost.\<close>

theorem context_ids_partition:
  assumes "contexts_reachable E B m"
  shows "distinct (open_ids m @ free_ctx (processing_ctx m)) \<and>
    set (open_ids m @ free_ctx (processing_ctx m)) = {i. 1 \<le> i \<and> i \<le> last_context_id (processing_ctx m)}"
  using contexts_invD [OF contexts_reachable_inv [OF assms]] by blast

theorem context_ids_partition_witness:
  "contexts_reachable sample_indexing [sample_backend] (sample_open [''sogo://a'', ''sogo://b'']) \<and>
   set (open_ids (sample_open [''sogo://a'', ''sogo://b''])) = {i. 1 \<le> i \<and> i \<le> 2}"
  using context_ids_partition [OF sample_reachable] sample_reachable sample_open_two(3,4) by simp



section \<open>The life of a context\<close>

text \<open>Contexts are shared and closed, in any order.\<close>

datatype use = Share u32 | Close u32

fun use_contexts :: "('d, 'o) mapistore_context \<Rightarrow> use list \<Rightarrow> ('d, 'o) mapistore_context outcome" where
  "use_contexts m [] = Ok m"
| "use_contexts m (Share i # us) = obind (mapistore_add_context_ref_count m i) (\<lambda>(_, m'). use_contexts m' us)"
| "use_contexts m (Close i # us) = use_contexts (snd (mapistore_del_context m i)) us"

definition shares :: "u32 \<Rightarrow> use list \<Rightarrow> nat" where
  "shares i us = length (filter (\<lambda>u. u = Share i) us)"

definition closes :: "u32 \<Rightarrow> use list \<Rightarrow> nat" where
  "closes i us = length (filter (\<lambda>u. u = Close i) us)"

lemma shares_closes_simps [simp]:
  "shares i [] = 0" "closes i [] = 0" "shares i (u # us) = of_bool (u = Share i) + shares i us" "closes i (u # us) = of_bool (u = Close i) + closes i us"
  by (simp_all add: shares_def closes_def)

text \<open>Every context has an index, without which sharing it aborts.\<close>

definition all_indexed :: "('d, 'o) mapistore_context \<Rightarrow> bool" where
  "all_indexed m \<longleftrightarrow> (\<forall>c \<in> set (context_list m). indexing c)"

lemma lookup_set: "mapistore_backend_lookup cs i = Some c \<Longrightarrow> c \<in> set cs"
  by (induction cs) (auto split: if_splits)

lemma set_replace_context: "set (replace_context i c cs) \<subseteq> insert c (set cs)"
  by (induction cs) auto

lemma set_drop_context: "set (drop_context i cs) \<subseteq> set cs"
  by (induction cs) auto

lemma share_step:
  assumes I: "contexts_inv m" "all_indexed m" and c: "lookup_context m i = Some c" and i: "i \<noteq> 0xffffffff"
  shows "\<exists>r m'. mapistore_add_context_ref_count m j = Ok (r, m') \<and> contexts_inv m' \<and> all_indexed m' \<and>
    lookup_context m' i = Some (if j = i then c\<lparr>ref_count := ref_count c + 1\<rparr> else c)"
proof (cases "j = 0xffffffff \<or> lookup_context m j = None")
  case True
  have "context_list m \<noteq> []" using c by auto
  with True I c i show ?thesis by (auto simp: mapistore_add_context_ref_count_def)
next
  case False
  then obtain b where b: "lookup_context m j = Some b" "j \<noteq> 0xffffffff" by auto
  let ?m = "m\<lparr>context_list := replace_context j (b\<lparr>ref_count := ref_count b + 1\<rparr>) (context_list m)\<rparr>"
  have "indexing b" using I(2) lookup_set [OF b(1)] by (simp add: all_indexed_def)
  then have r: "mapistore_add_context_ref_count m j = Ok (MAPISTORE_SUCCESS, ?m)"
    using b c by (auto simp: mapistore_add_context_ref_count_def mapistore_backend_add_ref_count_def)
  have "contexts_inv ?m" using add_ref_count_result [OF r] I(1) contexts_inv_cong by blast
  moreover have "all_indexed ?m" using I(2) \<open>indexing b\<close> set_replace_context [of j _ "context_list m"] by (fastforce simp: all_indexed_def)
  moreover have "lookup_context ?m i = Some (if j = i then c\<lparr>ref_count := ref_count c + 1\<rparr> else c)"
    using b c lookup_id [OF b(1)] lookup_None_iff [of "context_list m" i] by (auto simp: lookup_replace)
  ultimately show ?thesis using r by blast
qed

lemma close_step:
  assumes I: "contexts_inv m" "all_indexed m" and c: "lookup_context m i = Some c" and i: "i \<noteq> 0xffffffff" and n: "j = i \<Longrightarrow> ref_count c \<noteq> 1"
  shows "contexts_inv (snd (mapistore_del_context m j)) \<and> all_indexed (snd (mapistore_del_context m j)) \<and>
    lookup_context (snd (mapistore_del_context m j)) i = Some (if j = i then c\<lparr>ref_count := ref_count c - 1\<rparr> else c)"
proof -
  let ?m = "snd (mapistore_del_context m j)"
  have inv: "contexts_inv ?m" by (rule del_context_inv [OF I(1) surjective_pairing])
  show ?thesis
  proof (cases "j = 0xffffffff \<or> lookup_context m j = None")
    case True
    then have "?m = m" by (auto simp: mapistore_del_context_def split: option.splits)
    with True I c i show ?thesis by auto
  next
    case False
    then obtain b where b: "lookup_context m j = Some b" "j \<noteq> 0xffffffff" by auto
    have ib: "indexing b" using I(2) lookup_set [OF b(1)] by (simp add: all_indexed_def)
    have "j \<in> set (open_ids m)" using b(1) lookup_None_iff [of "context_list m" j] by (auto simp: open_ids_def)
    then have f: "j \<notin> set (free_ctx (processing_ctx m))" using contexts_invD(1) [OF I(1)] by auto
    show ?thesis
    proof (cases "ref_count b = 1")
      case True
      then have "j \<noteq> i" using n b c by auto
      then show ?thesis using del_context_cases(2) [OF b True f] inv I(2) c set_drop_context [of j "context_list m"]
        by (auto simp: all_indexed_def lookup_drop)
    next
      case False
      then show ?thesis using del_context_cases(1) [OF b False] inv I(2) ib b c lookup_id [OF b(1)] lookup_None_iff [of "context_list m" i]
          set_replace_context [of j _ "context_list m"]
        by (fastforce simp: all_indexed_def lookup_replace)
    qed
  qed
qed

lemma uses_counted:
  assumes "contexts_inv m" and "all_indexed m" and "lookup_context m i = Some c" and "i \<noteq> 0xffffffff" and "ref_count c = of_nat n"
    and "\<forall>k \<le> length us. closes i (take k us) < n + shares i (take k us)" and "n + shares i us < 2 ^ 32"
  shows "\<exists>m' c'. use_contexts m us = Ok m' \<and> contexts_inv m' \<and> lookup_context m' i = Some c' \<and>
    c' = c\<lparr>ref_count := of_nat (n + shares i us - closes i us)\<rparr>"
  using assms
proof (induction us arbitrary: m c n)
  case Nil
  then show ?case by simp
next
  case (Cons u us)
  have held: "closes i (take k us) + of_bool (u = Close i) < n + of_bool (u = Share i) + shares i (take k us)" if "k \<le> length us" for k
    using Cons.prems(6) [rule_format, of "Suc k"] that by simp
  show ?case
  proof (cases u)
    case (Share j)
    obtain r m1 where 1: "mapistore_add_context_ref_count m j = Ok (r, m1)" "contexts_inv m1" "all_indexed m1"
      "lookup_context m1 i = Some (if j = i then c\<lparr>ref_count := ref_count c + 1\<rparr> else c)" using share_step [OF Cons.prems(1-4)] by blast
    have "\<exists>m' c'. use_contexts m1 us = Ok m' \<and> contexts_inv m' \<and> lookup_context m' i = Some c' \<and>
        c' = (if j = i then c\<lparr>ref_count := ref_count c + 1\<rparr> else c)\<lparr>ref_count := of_nat (n + of_bool (j = i) + shares i us - closes i us)\<rparr>"
      by (rule Cons.IH [OF 1(2-4) Cons.prems(4)]) (use Cons.prems(5,7) held Share in \<open>auto split: if_splits\<close>)
    then show ?thesis using Share 1(1) by (auto simp del: obind_eq_Ok_iff)
  next
    case (Close j)
    have "1 < n" if "j = i" using held [of 0] Close that by simp
    then have n1: "ref_count c \<noteq> 1" if "j = i"
      using Cons.prems(5,7) that by (auto simp: unat_of_nat dest!: arg_cong [of _ _ unat])
    note 1 = close_step [OF Cons.prems(1-4) n1]
    have "of_nat n - 1 = (of_nat (n - 1) :: u32)" if "j = i" using \<open>j = i \<Longrightarrow> 1 < n\<close> that by (cases n) auto
    then have rc: "ref_count (if j = i then c\<lparr>ref_count := ref_count c - 1\<rparr> else c) = of_nat (n - of_bool (j = i))" using Cons.prems(5) by auto
    have "\<exists>m' c'. use_contexts (snd (mapistore_del_context m j)) us = Ok m' \<and> contexts_inv m' \<and> lookup_context m' i = Some c' \<and>
        c' = (if j = i then c\<lparr>ref_count := ref_count c - 1\<rparr> else c)\<lparr>ref_count := of_nat (n - of_bool (j = i) + shares i us - closes i us)\<rparr>"
    proof (rule Cons.IH [OF _ _ _ Cons.prems(4) rc])
      show "\<forall>k \<le> length us. closes i (take k us) < n - of_bool (j = i) + shares i (take k us)" using held Close by fastforce
      show "n - of_bool (j = i) + shares i us < 2 ^ 32" using Cons.prems(7) Close by simp
    qed (use 1 in simp_all)
    moreover have "n - of_bool (j = i) + shares i us - closes i us = n + shares i (u # us) - closes i (u # us)"
      using held [of 0] Close by (cases "j = i") auto
    ultimately show ?thesis using Close by auto
  qed
qed

lemma last_close:
  assumes I: "contexts_inv m" and c: "lookup_context m i = Some c" "ref_count c = 1" and i: "i \<noteq> 0xffffffff"
  shows "lookup_context (snd (mapistore_del_context m i)) i = None \<and> i \<in> set (free_ctx (processing_ctx (snd (mapistore_del_context m i)))) \<and>
    (\<forall>j. j \<noteq> i \<longrightarrow> lookup_context (snd (mapistore_del_context m i)) j = lookup_context m j)"
proof -
  have o: "i \<in> set (open_ids m)" using c(1) lookup_None_iff [of "context_list m" i] by (auto simp: open_ids_def)
  then have n: "i \<notin> set (free_ctx (processing_ctx m))" using contexts_invD(1) [OF I] by auto
  have "distinct (open_ids m)" using contexts_invD(1) [OF I] by simp
  then have "lookup_context (m\<lparr>context_list := drop_context i (context_list m)\<rparr>) i = None"
    by (auto simp: lookup_None_iff open_ids_def drop_context_ids simp flip: set_map)
  with del_context_cases(2) [OF c(1) i c(2) n] show ?thesis by (simp add: lookup_drop)
qed

text \<open>C32 A context that was just opened has one reference. Whatever contexts are shared and closed from then on, in any order, it
  stays open, with its URI, as long as it has been closed no more often than it was shared, and its count is one more than the
  difference. When it has been closed as often as it was shared, closing it once more removes it and frees its number, for a new
  context, and leaves every other context as it is. All contexts have an index, without which sharing aborts, and there are fewer than
  \<open>2 ^ 32 - 1\<close> references.\<close>

theorem context_lifetime:
  assumes "contexts_reachable E B m" and "last_context_id (processing_ctx m) \<noteq> 0xffffffff"
    and a: "mapistore_add_context E B m owner uri fid = (MAPISTORE_SUCCESS, m0, Some (i, root))" and "i \<noteq> 0xffffffff" and "all_indexed m0"
    and "\<forall>k \<le> length us. closes i (take k us) \<le> shares i (take k us)" and "shares i us < 2 ^ 32 - 1"
  shows "\<exists>m1 c. use_contexts m0 us = Ok m1 \<and> lookup_context m1 i = Some c \<and> context_uri c = Some uri \<and>
    ref_count c = of_nat (1 + shares i us - closes i us) \<and>
    (shares i us = closes i us \<longrightarrow> (\<exists>m2. use_contexts m0 (us @ [Close i]) = Ok m2 \<and> lookup_context m2 i = None \<and>
       i \<in> set (free_ctx (processing_ctx m2)) \<and> (\<forall>j. j \<noteq> i \<longrightarrow> lookup_context m2 j = lookup_context m1 j)))"
  using a
proof (cases rule: add_context_result)
  case (added j pctx c)
  have I: "contexts_inv m0" by (rule add_context_inv [OF contexts_reachable_inv [OF assms(1)] assms(2) a])
  have "lookup_context m i = None"
    using get_context_id_inv(1) [OF contexts_reachable_inv [OF assms(1)] assms(2) added(1)] added(2) by (simp add: lookup_None_iff open_ids_def)
  then have c: "lookup_context m0 i = Some c" "ref_count c = of_nat 1" using added by (auto simp: lookup_append)
  have "\<forall>k \<le> length us. closes i (take k us) < 1 + shares i (take k us)" using assms(6) by (simp add: less_Suc_eq_le)
  from uses_counted [OF I assms(5) c(1) assms(4) c(2) this] assms(7) obtain m1 where
    m1: "use_contexts m0 us = Ok m1" "contexts_inv m1" "lookup_context m1 i = Some (c\<lparr>ref_count := of_nat (1 + shares i us - closes i us)\<rparr>)" by auto
  have more: "use_contexts m0 (us @ [Close i]) = Ok (snd (mapistore_del_context m1 i))"
    using m1(1) by (induction m0 us rule: use_contexts.induct) auto
  show ?thesis using m1 more added(8) last_close [OF m1(2,3) _ assms(4)] by (intro exI [of _ m1]) auto
qed simp

theorem context_lifetime_witness:
  "\<exists>m0 root m1 m2 c. mapistore_add_context sample_indexing [sample_backend] (sample_open [''sogo://a'', ''sogo://b'']) ''u'' ''sogo://c'' 1 =
     (MAPISTORE_SUCCESS, m0, Some (3, root)) \<and>
   use_contexts m0 [Share 3, Close 1, Close 3] = Ok m1 \<and> lookup_context m1 3 = Some c \<and> ref_count c = 1 \<and>
   use_contexts m0 [Share 3, Close 1, Close 3, Close 3] = Ok m2 \<and> lookup_context m2 3 = None"
proof -
  let ?add = "mapistore_add_context sample_indexing [sample_backend] (sample_open [''sogo://a'', ''sogo://b'']) ''u'' ''sogo://c'' 1"
  have l: "last_context_id (processing_ctx (sample_open [''sogo://a'', ''sogo://b''])) \<noteq> 0xffffffff" by (simp add: sample_open_two)
  have "fst ?add = MAPISTORE_SUCCESS" "map_option fst (snd (snd ?add)) = Some 3" and x: "all_indexed (fst (snd ?add))"
    by (simp_all add: sample_storage_simps tdb_index_def all_indexed_def)
  then obtain root where a: "?add = (MAPISTORE_SUCCESS, fst (snd ?add), Some (3, root))" by (cases ?add) auto
  have k: "\<forall>k \<le> length [Share 3, Close 1, Close 3]. closes 3 (take k [Share 3, Close 1, Close 3]) \<le> shares 3 (take k [Share 3, Close 1, Close 3])"
    by (auto simp: le_Suc_eq)
  have s: "shares 3 [Share 3, Close 1, Close 3] = 1" "closes 3 [Share 3, Close 1, Close 3] = 1" by simp_all
  obtain m1 m2 c where "use_contexts (fst (snd ?add)) [Share 3, Close 1, Close 3] = Ok m1" "lookup_context m1 3 = Some c" "ref_count c = 1"
    "use_contexts (fst (snd ?add)) ([Share 3, Close 1, Close 3] @ [Close 3]) = Ok m2" "lookup_context m2 3 = None"
    using context_lifetime [OF sample_reachable l a _ x k] unfolding s by auto
  with a show ?thesis unfolding append_Cons append_Nil by blast
qed

end
