(* ===== verification/Indexing_Map.thy ===== *)
theory Indexing_Map
  imports Indexing Replica_Map
begin

unbundle bit_operations_syntax

text \<open>
  The index of a mailbox as a map from identifiers to URIs, each live or softly deleted, with a counter of the identifiers
  that were given out (\<^verbatim>\<open>src/mapiproxy/libmapistore/backends/indexing_tdb.c\<close>). The locale \<open>fmid_index\<close> is what
  the rest of the storage layer relies on; the operations on TDB satisfy it.
\<close>

section \<open>Keys\<close>

lemma zero_padded_read:
  "hex_fold (zero_padded k n) = n" "list_all (\<lambda>c. hex_value c \<noteq> None) (zero_padded k n)"
  using hex_digits_read [of n] by (auto simp: zero_padded_def hex_fold_zeros hex_value_0 list_all_iff)

text \<open>The digits behind a number in memory continue it.\<close>

lemma fmt_fmid_past:
  "strtol16 (fmt_fmid f @ b) = foldl (\<lambda>n c. 16 * n + the (hex_value c)) (unat f) (takeWhile (\<lambda>c. hex_value c \<noteq> None) b)"
proof -
  have "takeWhile (\<lambda>c. hex_value c \<noteq> None) (zero_padded 16 (unat f) @ b) = zero_padded 16 (unat f) @ takeWhile (\<lambda>c. hex_value c \<noteq> None) b"
    using zero_padded_read(2) [of 16 "unat f"] by (simp add: takeWhile_append2 list_all_iff)
  then have "strtol16 (fmt_fmid f @ b) = hex_fold (zero_padded 16 (unat f) @ takeWhile (\<lambda>c. hex_value c \<noteq> None) b)"
    by (simp add: strtol16_def fmt_fmid_def hex_fold_def)
  then show ?thesis by (simp only: hex_fold_append zero_padded_read(1))
qed

lemma fmt_fmid_read: "stops b \<Longrightarrow> strtol16 (fmt_fmid f @ b) = unat f"
  by (simp only: fmt_fmid_past takeWhile_stops foldl_Nil)

lemma strtoull_fmt [simp]: "stops b \<Longrightarrow> strtoull16 (fmt_fmid f @ b) = f"
  using unsigned_less [of f, where 'a = nat] by (simp add: strtoull16_def fmt_fmid_read)

text \<open>Whatever digits stand behind the number, what is read is not less.\<close>

lemma hex_fold_grows: "m \<le> foldl (\<lambda>n c. 16 * n + the (hex_value c)) m ds"
proof (induction ds arbitrary: m)
  case (Cons c ds)
  have "m \<le> 16 * m + the (hex_value c)" by simp
  also note Cons.IH
  finally show ?case by simp
qed simp

lemma strtoull_grows: "f \<le> strtoull16 (fmt_fmid f @ b)"
proof (cases "strtol16 (fmt_fmid f @ b) < 2 ^ 64")
  case True
  then have "unat (strtoull16 (fmt_fmid f @ b)) = strtol16 (fmt_fmid f @ b)"
    by (simp add: strtoull16_def unsigned_of_nat take_bit_nat_eq_self)
  then show ?thesis using hex_fold_grows [of "unat f"] by (simp add: word_le_nat_alt fmt_fmid_past)
next
  case False
  then have "strtoull16 (fmt_fmid f @ b) = - 1" by (simp add: strtoull16_def)
  then show ?thesis by simp
qed

lemma strtoull_fmt_Nil [simp]: "strtoull16 (fmt_fmid f) = f"
  using strtoull_fmt [of "[]" f] by (simp add: stops_def)

lemma fmt_fmid_inj [simp]: "fmt_fmid f = fmt_fmid g \<longleftrightarrow> f = g"
  by (metis strtoull_fmt_Nil)

lemma soft_key_inj [simp]: "soft_key f = soft_key g \<longleftrightarrow> f = g"
  by (simp add: soft_key_def)

lemma fmid_keys [simp]:
  "fmt_fmid f \<noteq> soft_key g" "soft_key g \<noteq> fmt_fmid f" "fmt_fmid f \<noteq> GlobalCount_key" "GlobalCount_key \<noteq> fmt_fmid f"
  "soft_key f \<noteq> GlobalCount_key" "GlobalCount_key \<noteq> soft_key f" "fmt_fmid f \<noteq> []"
  by (simp_all add: fmt_fmid_def soft_key_def GlobalCount_key_def MAPISTORE_SOFT_DELETED_TAG_def)

text \<open>The other keys are read as 0.\<close>

lemma other_keys_read: "strtoull16 (soft_key f) = 0" "strtoull16 GlobalCount_key = 0"
  by (simp_all add: strtoull16_def strtol16_def soft_key_def MAPISTORE_SOFT_DELETED_TAG_def GlobalCount_key_def hex_value_def hex_alphabet_def upt_rec)

section \<open>The index as a map\<close>

type_synonym index_map = "u64 \<rightharpoonup> string \<times> bool"

definition index_of :: "'db tdb_lib \<Rightarrow> 'db \<Rightarrow> index_map" where
  "index_of T db f =
     (case tdb_fetch T db (fmt_fmid f) of
        Some u \<Rightarrow> Some (u, False)
      | None \<Rightarrow> map_option (\<lambda>u. (u, True)) (tdb_fetch T db (soft_key f)))"

definition index_inv :: "'db tdb_lib \<Rightarrow> 'db \<Rightarrow> bool" where
  "index_inv T db \<longleftrightarrow> (\<forall>f. tdb_fetch T db (fmt_fmid f) = None \<or> tdb_fetch T db (soft_key f) = None)"

text \<open>The number that is stored as the counter; there is none before the first allocation.\<close>

definition counter_of :: "'db tdb_lib \<Rightarrow> 'db \<Rightarrow> u64 option" where
  "counter_of T db = (case tdb_fetch T db GlobalCount_key of None \<Rightarrow> None | Some v \<Rightarrow> if v = [] then None else Some (strtoull16 v))"

definition counter_inv :: "'db tdb_lib \<Rightarrow> 'db \<Rightarrow> bool" where
  "counter_inv T db \<longleftrightarrow> (\<forall>v. tdb_fetch T db GlobalCount_key = Some v \<longrightarrow> v = [] \<or> (\<exists>c. v = fmt_fmid c))"

text \<open>What the stored number may be read as: the C string goes on behind the record.\<close>

definition read_past :: "('db \<Rightarrow> string) \<Rightarrow> u64 \<Rightarrow> u64 \<Rightarrow> bool" where
  "read_past b c r \<longleftrightarrow> (\<exists>db. r = strtoull16 (fmt_fmid c @ b db))"

lemma read_past_grows: "read_past b c r \<Longrightarrow> c \<le> r"
  by (auto simp: read_past_def strtoull_grows)

lemma read_past_exact: "(\<And>db. stops (b db)) \<Longrightarrow> read_past b c r \<longleftrightarrow> r = c"
  by (auto simp: read_past_def)

primrec counter_read :: "(u64 \<Rightarrow> u64 \<Rightarrow> bool) \<Rightarrow> u64 option \<Rightarrow> u64 \<Rightarrow> bool" where
  "counter_read R None r \<longleftrightarrow> r = 1"
| "counter_read R (Some c) r \<longleftrightarrow> R c r"

lemma stored_count_read: "counter_inv T db \<Longrightarrow> counter_read (read_past b) (counter_of T db) (stored_count T b db)"
  by (cases "tdb_fetch T db GlobalCount_key") (auto simp: counter_inv_def counter_of_def stored_count_def read_past_def)

definition spec_add :: "index_map \<Rightarrow> u64 \<Rightarrow> string \<Rightarrow> mapistore_error \<times> index_map" where
  "spec_add m f u =
     (if f = 0 then (MAPISTORE_ERR_INVALID_PARAMETER, m)
      else if m f \<noteq> None then (MAPISTORE_ERR_EXIST, m)
      else (MAPISTORE_SUCCESS, m(f \<mapsto> (u, False))))"

definition spec_update :: "index_map \<Rightarrow> u64 \<Rightarrow> string \<Rightarrow> mapistore_error \<times> index_map" where
  "spec_update m f u =
     (if f = 0 then (MAPISTORE_ERR_INVALID_PARAMETER, m)
      else case m f of Some (_, False) \<Rightarrow> (MAPISTORE_SUCCESS, m(f \<mapsto> (u, False))) | _ \<Rightarrow> (MAPISTORE_ERR_NOT_FOUND, m))"

definition spec_del :: "index_map \<Rightarrow> u64 \<Rightarrow> u8 \<Rightarrow> mapistore_error \<times> index_map" where
  "spec_del m f flags =
     (if f = 0 then (MAPISTORE_ERR_INVALID_PARAMETER, m)
      else case m f of
        None \<Rightarrow> (MAPISTORE_SUCCESS, m)
      | Some (u, _) \<Rightarrow>
          if flags = MAPISTORE_SOFT_DELETE then (MAPISTORE_SUCCESS, m(f \<mapsto> (u, True)))
          else if flags = MAPISTORE_PERMANENT_DELETE then (MAPISTORE_SUCCESS, m(f := None))
          else (MAPISTORE_ERR_INVALID_PARAMETER, m))"

definition spec_get_uri :: "index_map \<Rightarrow> u64 \<Rightarrow> mapistore_error \<times> (string option \<times> bool) option" where
  "spec_get_uri m f =
     (if f = 0 then (MAPISTORE_ERR_INVALID_PARAMETER, None)
      else case m f of None \<Rightarrow> (MAPISTORE_ERR_NOT_FOUND, None) | Some (u, soft) \<Rightarrow> (MAPISTORE_SUCCESS, Some (Some u, soft)))"

subsection \<open>The records\<close>

lemma index_of_cases:
  obtains (live) u where "tdb_fetch T db (fmt_fmid f) = Some u" "index_of T db f = Some (u, False)"
  | (soft) u where "tdb_fetch T db (fmt_fmid f) = None" "tdb_fetch T db (soft_key f) = Some u" "index_of T db f = Some (u, True)"
  | (none) "tdb_fetch T db (fmt_fmid f) = None" "tdb_fetch T db (soft_key f) = None" "index_of T db f = None"
  by (cases "tdb_fetch T db (fmt_fmid f)"; cases "tdb_fetch T db (soft_key f)") (auto simp: index_of_def)

lemma index_inv_live: "index_inv T db \<Longrightarrow> tdb_fetch T db (fmt_fmid f) = Some u \<Longrightarrow> tdb_fetch T db (soft_key f) = None"
  by (metis index_inv_def option.distinct(1))

lemma index_store_live:
  assumes "tdb_fetch T db' = (tdb_fetch T db)(fmt_fmid f \<mapsto> u)" and "index_inv T db" and "tdb_fetch T db (soft_key f) = None"
  shows "index_of T db' = (index_of T db)(f \<mapsto> (u, False)) \<and> index_inv T db' \<and> tdb_fetch T db' GlobalCount_key = tdb_fetch T db GlobalCount_key"
  using assms by (auto simp: index_of_def index_inv_def fun_eq_iff cong: option.case_cong)

lemma search_existing:
  assumes "tdb_laws T" and "f \<noteq> 0"
  shows "tdb_search_existing_fmid T db f =
    (case index_of T db f of None \<Rightarrow> (MAPISTORE_SUCCESS, False) | Some (u, soft) \<Rightarrow> (MAPISTORE_ERR_EXIST, soft))"
  using assms by (cases T db f rule: index_of_cases) (simp_all add: tdb_search_existing_fmid_def tdb_exists_iff)

text \<open>What an operation on the database does to the map, and to the counter.\<close>

definition changes_to ::
  "('d \<Rightarrow> index_map) \<Rightarrow> ('d \<Rightarrow> 'c) \<Rightarrow> ('d \<Rightarrow> bool) \<Rightarrow> 'd \<Rightarrow> mapistore_error \<times> 'd \<Rightarrow> mapistore_error \<times> index_map \<Rightarrow> bool" where
  "changes_to mp cnt ok d r s \<longleftrightarrow> fst r = fst s \<and> mp (snd r) = snd s \<and> ok (snd r) \<and> cnt (snd r) = cnt d"

abbreviation "index_does T \<equiv> changes_to (index_of T) (\<lambda>db. tdb_fetch T db GlobalCount_key) (index_inv T)"

lemma record_add:
  assumes T: "tdb_laws T" and I: "index_inv T db"
  shows "index_does T db (tdb_record_add T db f u) (spec_add (index_of T db) f u)"
proof (cases "f = 0")
  case True
  then show ?thesis using I by (simp add: changes_to_def spec_add_def tdb_record_add_def tdb_search_existing_fmid_def)
next
  case f: False
  show ?thesis
  proof (cases T db f rule: index_of_cases)
    case none
    obtain db' where "tdb_store T db (fmt_fmid f) u TDB_INSERT = Some db'" "tdb_fetch T db' = (tdb_fetch T db)(fmt_fmid f \<mapsto> u)"
      by (rule tdb_insert [OF T none(1)])
    then show ?thesis using index_store_live [of T db' db f u] none I f
      by (simp add: changes_to_def spec_add_def tdb_record_add_def search_existing [OF T])
  qed (use I f in \<open>simp_all add: changes_to_def spec_add_def tdb_record_add_def search_existing [OF T]\<close>)
qed

lemma tdb_modify_none: "tdb_laws T \<Longrightarrow> tdb_fetch T db k = None \<Longrightarrow> tdb_store T db k v TDB_MODIFY = None"
  by (simp add: tdb_laws_def)

lemma record_update:
  assumes T: "tdb_laws T" and I: "index_inv T db"
  shows "index_does T db (tdb_record_update T db f u) (spec_update (index_of T db) f u)"
proof (cases "f = 0")
  case True
  then show ?thesis using I by (simp add: changes_to_def spec_update_def tdb_record_update_def)
next
  case f: False
  show ?thesis
  proof (cases T db f rule: index_of_cases)
    case (live u')
    then obtain db' where "tdb_store T db (fmt_fmid f) u TDB_MODIFY = Some db'" "tdb_fetch T db' = (tdb_fetch T db)(fmt_fmid f \<mapsto> u)"
      using tdb_modify [OF T, of db "fmt_fmid f" u] by auto
    moreover have "tdb_fetch T db (soft_key f) = None" by (rule index_inv_live [OF I live(1)])
    ultimately show ?thesis using index_store_live [of T db' db f u] live I f
      by (simp add: changes_to_def spec_update_def tdb_record_update_def)
  qed (use I f in \<open>simp_all add: changes_to_def spec_update_def tdb_record_update_def tdb_modify_none [OF T]\<close>)
qed

lemma soft_delete_record:
  assumes T: "tdb_laws T" and I: "index_inv T db" and u: "tdb_fetch T db (fmt_fmid f) = Some u"
  shows "tdb_fetch T (soft_delete T db f) = (tdb_fetch T db)(soft_key f \<mapsto> u, fmt_fmid f := None)"
proof -
  have n: "tdb_fetch T db (soft_key f) = None" by (rule index_inv_live [OF I u])
  let ?db = "store_ignoring T (soft_key f) u db"
  have s: "tdb_fetch T ?db = (tdb_fetch T db)(soft_key f \<mapsto> u)" by (rule store_new [OF T n])
  then have "tdb_fetch T ?db (fmt_fmid f) \<noteq> None" using u by simp
  then obtain db' where "tdb_delete T ?db (fmt_fmid f) = Some db'" "tdb_fetch T db' = (tdb_fetch T ?db)(fmt_fmid f := None)"
    by (rule tdb_remove [OF T])
  then show ?thesis using u s by (simp add: soft_delete_def Let_def)
qed

lemma record_del:
  assumes T: "tdb_laws T" and I: "index_inv T db"
  shows "index_does T db (tdb_record_del T db f flags) (spec_del (index_of T db) f flags)"
proof (cases "f = 0 \<or> flags \<noteq> MAPISTORE_SOFT_DELETE \<and> flags \<noteq> MAPISTORE_PERMANENT_DELETE")
  case True
  then show ?thesis using I
    by (cases T db f rule: index_of_cases) (auto simp: changes_to_def spec_del_def tdb_record_del_def search_existing [OF T])
next
  case False
  then have f: "f \<noteq> 0" and fl: "flags = MAPISTORE_SOFT_DELETE \<or> flags = MAPISTORE_PERMANENT_DELETE" by auto
  have kinds: "MAPISTORE_SOFT_DELETE \<noteq> MAPISTORE_PERMANENT_DELETE"
    by (simp add: MAPISTORE_SOFT_DELETE_def MAPISTORE_PERMANENT_DELETE_def)
  have gone: "index_of T db' = (index_of T db)(f := None) \<and> index_inv T db' \<and> tdb_fetch T db' GlobalCount_key = tdb_fetch T db GlobalCount_key"
    if "tdb_fetch T db' = (tdb_fetch T db)(k := None)" "k = fmt_fmid f \<and> tdb_fetch T db (soft_key f) = None \<or> k = soft_key f \<and> tdb_fetch T db (fmt_fmid f) = None"
    for db' k using that I by (auto simp: index_of_def index_inv_def fun_eq_iff cong: option.case_cong)
  show ?thesis
  proof (cases T db f rule: index_of_cases)
    case (live u)
    then have n: "tdb_fetch T db (soft_key f) = None" using index_inv_live [OF I] by blast
    have "index_does T db (MAPISTORE_SUCCESS, soft_delete T db f) (MAPISTORE_SUCCESS, (index_of T db)(f \<mapsto> (u, True)))"
      using I n by (auto simp: changes_to_def soft_delete_record [OF T I live(1)] index_of_def index_inv_def fun_eq_iff cong: option.case_cong)
    moreover obtain db' where "tdb_delete T db (fmt_fmid f) = Some db'" "tdb_fetch T db' = (tdb_fetch T db)(fmt_fmid f := None)"
      using tdb_remove [OF T, of db "fmt_fmid f"] live by auto
    ultimately show ?thesis using fl f kinds live n gone [of db' "fmt_fmid f"]
      by (auto simp: changes_to_def spec_del_def tdb_record_del_def search_existing [OF T])
  next
    case (soft u)
    obtain db' where "tdb_delete T db (soft_key f) = Some db'" "tdb_fetch T db' = (tdb_fetch T db)(soft_key f := None)"
      using tdb_remove [OF T, of db "soft_key f"] soft by auto
    then show ?thesis using fl f kinds soft I gone [of db' "soft_key f"]
      by (auto simp: changes_to_def spec_del_def tdb_record_del_def search_existing [OF T] fun_upd_idem)
  qed (use I f in \<open>simp add: changes_to_def spec_del_def tdb_record_del_def search_existing [OF T]\<close>)
qed

lemma record_get_uri:
  assumes "tdb_laws T" shows "tdb_record_get_uri T db f = spec_get_uri (index_of T db) f"
  using assms by (cases T db f rule: index_of_cases) (simp_all add: tdb_record_get_uri_def spec_get_uri_def tdb_exists_iff)

lemma record_allocate:
  assumes T: "tdb_laws T" and I: "index_inv T db"
  shows "\<exists>db'. tdb_record_allocate_fmids T b db n = (MAPISTORE_SUCCESS, db', stored_count T b db) \<and>
    index_of T db' = index_of T db \<and> index_inv T db' \<and> tdb_fetch T db' GlobalCount_key = Some (fmt_fmid (stored_count T b db + scast n))"
proof -
  let ?c = "stored_count T b db"
  obtain db' where db': "tdb_store T db GlobalCount_key (fmt_fmid (?c + scast n)) TDB_REPLACE = Some db'"
    "tdb_fetch T db' = (tdb_fetch T db)(GlobalCount_key \<mapsto> fmt_fmid (?c + scast n))" by (rule tdb_replace [OF T])
  then have "index_of T db' = index_of T db" "index_inv T db'"
    using I by (auto simp: index_of_def index_inv_def fun_eq_iff cong: option.case_cong)
  with db' show ?thesis by (simp add: tdb_record_allocate_fmids_def Let_def)
qed

section \<open>The interface\<close>

datatype index_op = Add_fmid u64 string | Update_fmid u64 string | Del_fmid u64 u8 | Allocate_fmids u32

fun index_step :: "'d indexing_context \<Rightarrow> string \<Rightarrow> 'd \<Rightarrow> index_op \<Rightarrow> (mapistore_error \<times> u64 option) \<times> 'd" where
  "index_step C usr d (Add_fmid f u) = (case add_fmid C d usr f u of (e, d') \<Rightarrow> ((e, None), d'))"
| "index_step C usr d (Update_fmid f u) = (case update_fmid C d usr f u of (e, d') \<Rightarrow> ((e, None), d'))"
| "index_step C usr d (Del_fmid f fl) = (case del_fmid C d usr f fl of (e, d') \<Rightarrow> ((e, None), d'))"
| "index_step C usr d (Allocate_fmids n) = (case allocate_fmids C d usr n of (e, d', f) \<Rightarrow> ((e, Some f), d'))"

text \<open>The same on the map and the counter; what the counter is read as is chosen from the numbers that \<open>R\<close> allows.\<close>

inductive spec_step ::
  "(u64 \<Rightarrow> u64 \<Rightarrow> bool) \<Rightarrow> index_map \<times> u64 option \<Rightarrow> index_op \<Rightarrow> mapistore_error \<times> u64 option \<Rightarrow> index_map \<times> u64 option \<Rightarrow> bool"
  for R where
  Spec_Add: "spec_add m f u = (e, m') \<Longrightarrow> spec_step R (m, c) (Add_fmid f u) (e, None) (m', c)"
| Spec_Update: "spec_update m f u = (e, m') \<Longrightarrow> spec_step R (m, c) (Update_fmid f u) (e, None) (m', c)"
| Spec_Del: "spec_del m f fl = (e, m') \<Longrightarrow> spec_step R (m, c) (Del_fmid f fl) (e, None) (m', c)"
| Spec_Allocate: "counter_read R c r \<Longrightarrow> spec_step R (m, c) (Allocate_fmids n) (MAPISTORE_SUCCESS, Some r) (m, Some (r + scast n))"

inductive spec_run ::
  "(u64 \<Rightarrow> u64 \<Rightarrow> bool) \<Rightarrow> index_map \<times> u64 option \<Rightarrow> index_op list \<Rightarrow> (mapistore_error \<times> u64 option) list \<Rightarrow> index_map \<times> u64 option \<Rightarrow> bool"
  for R where
  Spec_End: "spec_run R s [] [] s"
| Spec_Next: "spec_step R s x r s' \<Longrightarrow> spec_run R s' xs rs s'' \<Longrightarrow> spec_run R s (x # xs) (r # rs) s''"

inductive_simps spec_step_simps [simp]:
  "spec_step R (m, c) (Add_fmid f u) r s" "spec_step R (m, c) (Update_fmid f u) r s" "spec_step R (m, c) (Del_fmid f fl) r s"
  "spec_step R (m, c) (Allocate_fmids n) r s"

inductive_simps spec_run_simps: "spec_run R s [] rs s'" "spec_run R s (x # xs) rs s'"

text \<open>The results of a sequence of operations, and the state after it.\<close>

fun run_steps :: "('s \<Rightarrow> 'o \<Rightarrow> 'r \<times> 's) \<Rightarrow> 's \<Rightarrow> 'o list \<Rightarrow> 'r list \<times> 's" where
  "run_steps step s [] = ([], s)"
| "run_steps step s (x # xs) = (case step s x of (r, s') \<Rightarrow> (case run_steps step s' xs of (rs, s'') \<Rightarrow> (r # rs, s'')))"

locale fmid_index =
  fixes C :: "'d indexing_context" and mp :: "'d \<Rightarrow> index_map" and cnt :: "'d \<Rightarrow> u64 option" and R :: "u64 \<Rightarrow> u64 \<Rightarrow> bool"
    and ok :: "'d \<Rightarrow> bool"
  assumes law_add: "ok d \<Longrightarrow> changes_to mp cnt ok d (add_fmid C d usr f u) (spec_add (mp d) f u)"
    and law_update: "ok d \<Longrightarrow> changes_to mp cnt ok d (update_fmid C d usr f u) (spec_update (mp d) f u)"
    and law_del: "ok d \<Longrightarrow> changes_to mp cnt ok d (del_fmid C d usr f fl) (spec_del (mp d) f fl)"
    and law_uri: "ok d \<Longrightarrow> get_uri C d usr f = spec_get_uri (mp d) f"
    and law_allocate: "ok d \<Longrightarrow> \<exists>d' r. allocate_fmids C d usr n = (MAPISTORE_SUCCESS, d', r) \<and> counter_read R (cnt d) r \<and>
      mp d' = mp d \<and> ok d' \<and> cnt d' = Some (r + scast n)"
    and law_read: "R c r \<Longrightarrow> c \<le> r"
begin

lemma step_refines:
  assumes "ok d"
  shows "\<exists>r d'. index_step C usr d x = (r, d') \<and> spec_step R (mp d, cnt d) x r (mp d', cnt d') \<and> ok d'"
proof (cases x)
  case (Allocate_fmids n)
  with law_allocate [OF assms, of usr n] show ?thesis by auto
qed (use law_add [OF assms] law_update [OF assms] law_del [OF assms] in \<open>auto simp: changes_to_def prod_eq_iff split: prod.splits\<close>; metis fst_conv snd_conv)+

lemma run_refines:
  assumes "ok d"
  shows "\<exists>rs d'. run_steps (index_step C usr) d xs = (rs, d') \<and> spec_run R (mp d, cnt d) xs rs (mp d', cnt d') \<and> ok d'"
  using assms
proof (induction xs arbitrary: d)
  case (Cons x xs)
  obtain r d1 where d1: "index_step C usr d x = (r, d1)" "spec_step R (mp d, cnt d) x r (mp d1, cnt d1)" "ok d1"
    using step_refines [OF Cons.prems] by blast
  obtain rs d2 where "run_steps (index_step C usr) d1 xs = (rs, d2)" "spec_run R (mp d1, cnt d1) xs rs (mp d2, cnt d2)" "ok d2"
    using Cons.IH [OF d1(3)] by blast
  with d1 show ?case by (auto intro: Spec_Next)
qed (simp add: Spec_End)

end

definition tdb_index_inv :: "'db tdb_lib \<Rightarrow> 'db \<Rightarrow> bool" where
  "tdb_index_inv T db \<longleftrightarrow> tdb_laws T \<and> index_inv T db \<and> counter_inv T db"

lemma index_does_counter:
  assumes "index_does T db r s" and "tdb_index_inv T db"
  shows "changes_to (index_of T) (counter_of T) (tdb_index_inv T) db r s"
  using assms by (simp add: changes_to_def tdb_index_inv_def counter_of_def counter_inv_def)

interpretation tdbx: fmid_index "tdb_index T b usr0 db0" "index_of T" "counter_of T" "read_past b" "tdb_index_inv T"
  for T b usr0 db0
proof
  fix db usr f u fl n
  assume ok: "tdb_index_inv T db"
  then have I: "tdb_laws T" "index_inv T db" "counter_inv T db" by (simp_all add: tdb_index_inv_def)
  note records = record_add [OF I(1,2)] record_update [OF I(1,2)] record_del [OF I(1,2)]
  show "changes_to (index_of T) (counter_of T) (tdb_index_inv T) db (add_fmid (tdb_index T b usr0 db0) db usr f u) (spec_add (index_of T db) f u)"
    "changes_to (index_of T) (counter_of T) (tdb_index_inv T) db (update_fmid (tdb_index T b usr0 db0) db usr f u) (spec_update (index_of T db) f u)"
    "changes_to (index_of T) (counter_of T) (tdb_index_inv T) db (del_fmid (tdb_index T b usr0 db0) db usr f fl) (spec_del (index_of T db) f fl)"
    by (rule index_does_counter [OF _ ok], simp add: tdb_index_def records)+
  show "get_uri (tdb_index T b usr0 db0) db usr f = spec_get_uri (index_of T db) f"
    by (simp add: tdb_index_def record_get_uri [OF I(1)])
  show "\<exists>d' r. allocate_fmids (tdb_index T b usr0 db0) db usr n = (MAPISTORE_SUCCESS, d', r) \<and> counter_read (read_past b) (counter_of T db) r \<and>
      index_of T d' = index_of T db \<and> tdb_index_inv T d' \<and> counter_of T d' = Some (r + scast n)"
    using record_allocate [OF I(1,2), of b n] I stored_count_read [OF I(3), of b]
    by (auto simp: tdb_index_def tdb_index_inv_def counter_inv_def counter_of_def)
qed (rule read_past_grows)

section \<open>Properties\<close>

text \<open>C7 The index in TDB is a map from identifiers to URIs, each live or softly deleted, and a counter: any sequence of
  additions, updates, deletions and allocations has results and an effect that it may have on the map and the counter, and the URI
  that is read for an identifier is that of the map. An allocation gives the stored number, continued by the hexadecimal digits that
  stand behind the record in memory, whatever they are: never a smaller number, and the number itself where no digit follows.\<close>

theorem index_refines:
  assumes "tdb_laws T" and "index_inv T db" and "counter_inv T db"
  shows "\<exists>rs db'. run_steps (index_step (tdb_index T b usr0 db0) usr) db ops = (rs, db') \<and>
    spec_run (read_past b) (index_of T db, counter_of T db) ops rs (index_of T db', counter_of T db') \<and>
    (\<forall>f. tdb_record_get_uri T db' f = spec_get_uri (index_of T db') f) \<and> index_inv T db' \<and> counter_inv T db' \<and>
    (\<forall>c r. read_past b c r \<longrightarrow> c \<le> r) \<and> ((\<forall>db. stops (b db)) \<longrightarrow> (\<forall>c r. read_past b c r \<longleftrightarrow> r = c))"
proof -
  obtain rs db' where r: "run_steps (index_step (tdb_index T b usr0 db0) usr) db ops = (rs, db')"
    "spec_run (read_past b) (index_of T db, counter_of T db) ops rs (index_of T db', counter_of T db')" "tdb_index_inv T db'"
    using tdbx.run_refines [of T db b usr0 db0 usr ops] assms by (auto simp: tdb_index_inv_def)
  have "(\<forall>c r. read_past b c r \<longrightarrow> c \<le> r) \<and> ((\<forall>db. stops (b db)) \<longrightarrow> (\<forall>c r. read_past b c r \<longleftrightarrow> r = c))"
    using read_past_grows read_past_exact by blast
  with r show ?thesis by (intro exI [of _ rs] exI [of _ db']) (simp add: tdb_index_inv_def record_get_uri)
qed

text \<open>The second allocation reads the 4 that is stored, with the 7 behind it, as 0x47.\<close>

theorem index_refines_witness:
  "tdb_laws assoc_tdb \<and> index_inv assoc_tdb [] \<and> counter_inv assoc_tdb [] \<and>
   (\<exists>db'. run_steps (index_step (tdb_index assoc_tdb (\<lambda>_. ''7'') ''u'' []) ''u'') []
       [Add_fmid 5 ''sogo://a'', Del_fmid 5 MAPISTORE_SOFT_DELETE, Add_fmid 5 ''sogo://b'', Allocate_fmids 3, Allocate_fmids 1] =
     ([(MAPISTORE_SUCCESS, None), (MAPISTORE_SUCCESS, None), (MAPISTORE_ERR_EXIST, None), (MAPISTORE_SUCCESS, Some 1), (MAPISTORE_SUCCESS, Some 0x47)], db') \<and>
     index_of assoc_tdb db' 5 = Some (''sogo://a'', True) \<and> counter_of assoc_tdb db' = Some 0x48)"
proof -
  have I: "index_inv assoc_tdb []" "counter_inv assoc_tdb []" by (simp_all add: index_inv_def counter_inv_def assoc_tdb_def)
  have e: "index_of assoc_tdb [] = Map.empty" "counter_of assoc_tdb [] = None"
    by (auto simp: index_of_def counter_of_def assoc_tdb_def fun_eq_iff)
  have r: "read_past (\<lambda>_ :: (string \<times> string) list. ''7'') 4 r \<longleftrightarrow> r = 0x47" for r
    by (simp add: read_past_def strtoull16_def fmt_fmid_past hex_value_def hex_alphabet_def upt_rec)
  obtain rs db' where d: "run_steps (index_step (tdb_index assoc_tdb (\<lambda>_. ''7'') ''u'' []) ''u'') []
      [Add_fmid 5 ''sogo://a'', Del_fmid 5 MAPISTORE_SOFT_DELETE, Add_fmid 5 ''sogo://b'', Allocate_fmids 3, Allocate_fmids 1] = (rs, db')"
    "spec_run (read_past (\<lambda>_ :: (string \<times> string) list. ''7'')) (Map.empty, None)
      [Add_fmid 5 ''sogo://a'', Del_fmid 5 MAPISTORE_SOFT_DELETE, Add_fmid 5 ''sogo://b'', Allocate_fmids 3, Allocate_fmids 1] rs
      (index_of assoc_tdb db', counter_of assoc_tdb db')"
    using index_refines [OF assoc_tdb_laws I, of "\<lambda>_. ''7''" "''u''" "[]" "''u''"] unfolding e by blast
  from d(2) have "rs = [(MAPISTORE_SUCCESS, None), (MAPISTORE_SUCCESS, None), (MAPISTORE_ERR_EXIST, None), (MAPISTORE_SUCCESS, Some 1), (MAPISTORE_SUCCESS, Some 0x47)] \<and>
      index_of assoc_tdb db' 5 = Some (''sogo://a'', True) \<and> counter_of assoc_tdb db' = Some 0x48"
    by (auto simp: spec_run_simps spec_add_def spec_del_def r ex_bool_eq dest: sym)
  with d(1) I assoc_tdb_laws show ?thesis by blast
qed

subsection \<open>Search by URI\<close>

text \<open>A trailing slash makes no difference.\<close>

definition unslashed :: "string \<Rightarrow> string" where
  "unslashed s = (if s \<noteq> [] \<and> last s = CHR ''/'' then butlast s else s)"

lemma strip_slash_eq: "s \<noteq> [] \<Longrightarrow> strip_slash s = Ok (unslashed s)"
  by (simp add: strip_slash_def unslashed_def)

definition only_record :: "'db tdb_lib \<Rightarrow> 'db \<Rightarrow> string \<Rightarrow> string \<Rightarrow> bool" where
  "only_record T db key uri \<longleftrightarrow>
     (\<exists>u. tdb_fetch T db key = Some u \<and> unslashed u = unslashed uri) \<and>
     (\<forall>k v. tdb_fetch T db k = Some v \<longrightarrow> v \<noteq> [] \<and> (unslashed v = unslashed uri \<longrightarrow> k = key))"

lemma only_recordD: "only_record T db key uri \<Longrightarrow> tdb_fetch T db k = Some v \<Longrightarrow> v \<noteq> [] \<and> (unslashed v = unslashed uri \<longleftrightarrow> k = key)"
  unfolding only_record_def by (metis option.inject)

lemma traverse_only:
  assumes o: "only_record T db key uri" and k: "set ks \<subseteq> dom (tdb_fetch T db)"
  shows "tdb_traverse_read T db (tdb_get_fid_traverse (unslashed uri)) ks = Ok (if key \<in> set ks then Some (strtoull16 key) else None)"
  using k
proof (induction ks)
  case (Cons k ks)
  then obtain v where v: "tdb_fetch T db k = Some v" by auto
  then have "v \<noteq> []" "unslashed v = unslashed uri \<longleftrightarrow> k = key" using only_recordD [OF o] by blast+
  with v Cons show ?case by (simp add: tdb_get_fid_traverse_def strip_slash_eq)
qed simp

lemma get_fmid_only:
  assumes T: "tdb_laws T" and o: "only_record T db key uri" and "uri \<noteq> []"
  shows "tdb_record_get_fmid T db uri False = Ok (MAPISTORE_SUCCESS, Some (strtoull16 key, False))"
proof -
  have "key \<in> set (tdb_keys T db)" using o by (auto simp: only_record_def tdb_keys_dom [OF T])
  then show ?thesis using traverse_only [OF o, of "tdb_keys T db"] assms(3)
    by (simp add: tdb_record_get_fmid_def strip_slash_eq tdb_keys_dom [OF T])
qed

text \<open>C28 The identifier of a record is found again from its URI, with or without a trailing slash, when no other record has the same URI.\<close>

theorem get_fmid_finds:
  assumes "tdb_laws T" and "only_record T db (fmt_fmid f) uri" and "uri \<noteq> []"
  shows "tdb_record_get_fmid T db uri False = Ok (MAPISTORE_SUCCESS, Some (f, False))"
  using get_fmid_only [OF assms] by simp

theorem get_fmid_finds_witness:
  "only_record assoc_tdb [(fmt_fmid 5, ''sogo://a''), (fmt_fmid 6, ''sogo://b/'')] (fmt_fmid 6) ''sogo://b'' \<and>
   tdb_record_get_fmid assoc_tdb [(fmt_fmid 5, ''sogo://a''), (fmt_fmid 6, ''sogo://b/'')] ''sogo://b'' False = Ok (MAPISTORE_SUCCESS, Some (6, False))"
proof -
  have "only_record assoc_tdb [(fmt_fmid 5, ''sogo://a''), (fmt_fmid 6, ''sogo://b/'')] (fmt_fmid 6) ''sogo://b''"
    by (auto simp: only_record_def assoc_tdb_def unslashed_def split: if_splits)
  then show ?thesis using get_fmid_finds [OF assoc_tdb_laws] by simp
qed

text \<open>C35 A softly deleted record is found by its URI as identifier 0, and is reported as not deleted: its key does not start
  with the number.\<close>

theorem soft_deleted_found:
  assumes T: "tdb_laws T" and I: "index_inv T db" and "only_record T db (fmt_fmid f) uri" and "uri \<noteq> []" and "f \<noteq> 0"
  shows "fst (tdb_record_del T db f MAPISTORE_SOFT_DELETE) = MAPISTORE_SUCCESS \<and>
    tdb_record_get_fmid T (snd (tdb_record_del T db f MAPISTORE_SOFT_DELETE)) uri False = Ok (MAPISTORE_SUCCESS, Some (0, False))"
proof -
  obtain u where u: "tdb_fetch T db (fmt_fmid f) = Some u" "unslashed u = unslashed uri" using assms(3) by (auto simp: only_record_def)
  then have i: "index_of T db f = Some (u, False)" by (simp add: index_of_def)
  have d: "tdb_record_del T db f MAPISTORE_SOFT_DELETE = (MAPISTORE_SUCCESS, soft_delete T db f)"
    using i assms(5) by (simp add: tdb_record_del_def search_existing [OF T])
  have "v \<noteq> [] \<and> (unslashed v = unslashed uri \<longrightarrow> k = soft_key f)" if "tdb_fetch T (soft_delete T db f) k = Some v" for k v
    using that only_recordD [OF assms(3), of k v] only_recordD [OF assms(3) u(1)]
    by (auto simp: soft_delete_record [OF T I u(1)] split: if_splits)
  then have "only_record T (soft_delete T db f) (soft_key f) uri"
    using u(2) by (simp add: only_record_def soft_delete_record [OF T I u(1)])
  then show ?thesis using get_fmid_only [OF T _ assms(4)] d by (simp add: other_keys_read)
qed

theorem soft_deleted_found_witness:
  "index_inv assoc_tdb [(fmt_fmid 5, ''sogo://a'')] \<and> only_record assoc_tdb [(fmt_fmid 5, ''sogo://a'')] (fmt_fmid 5) ''sogo://a'' \<and>
   tdb_record_get_fmid assoc_tdb (snd (tdb_record_del assoc_tdb [(fmt_fmid 5, ''sogo://a'')] 5 MAPISTORE_SOFT_DELETE)) ''sogo://a'' False =
     Ok (MAPISTORE_SUCCESS, Some (0, False))"
proof -
  have I: "index_inv assoc_tdb [(fmt_fmid 5, ''sogo://a'')]" by (auto simp: index_inv_def assoc_tdb_def)
  have o: "only_record assoc_tdb [(fmt_fmid 5, ''sogo://a'')] (fmt_fmid 5) ''sogo://a''"
    by (auto simp: only_record_def assoc_tdb_def split: if_splits)
  then show ?thesis using soft_deleted_found [OF assoc_tdb_laws I o] I by simp
qed

text \<open>A partial search without a wildcard follows a null pointer as soon as there is a record.\<close>

lemma partial_search_faults:
  assumes T: "tdb_laws T" and "uri \<noteq> []" and "CHR ''*'' \<notin> set uri" and "tdb_fetch T db k \<noteq> None"
  shows "tdb_record_get_fmid T db uri True = Fault"
proof -
  have "filter (\<lambda>c. c = CHR ''*'') uri = []" using assms(3) by (auto simp: filter_empty_conv)
  moreover have "tdb_keys T db \<noteq> []" using assms(4) tdb_keys_dom [OF T, of db] by auto
  moreover have "hd (tdb_keys T db) \<in> dom (tdb_fetch T db)" using calculation(2) tdb_keys_dom [OF T, of db] by (metis hd_in_set)
  then obtain v where "tdb_fetch T db (hd (tdb_keys T db)) = Some v" by auto
  ultimately show ?thesis using assms(2)
    by (cases "tdb_keys T db") (auto simp: tdb_record_get_fmid_def tdb_get_fid_traverse_partial_def strip_slash_def fid_pattern_def)
qed

end
