(* ===== verification/Mapistore_Ids.thy ===== *)
theory Mapistore_Ids
  imports Mapistore_Contexts Indexing_Map Idset_Sets
begin

unbundle bit_operations_syntax

text \<open>
  The identifiers that the storage layer gives out for new folders and messages
  (\<^verbatim>\<open>src/mapiproxy/libmapistore/mapistore_indexing.c\<close>): one at a time, in batches, or as a range that a client may use on its
  own. They come from the counter of the index of the user.
\<close>

section \<open>Identifiers of counters\<close>

definition ids_from :: "u64 \<Rightarrow> nat \<Rightarrow> u64 list" where
  "ids_from c n = map (\<lambda>i. fid_of_counter (c + of_nat i)) [0..<n]"

text \<open>The identifiers that belong to a reserved range: a client counts up from the first.\<close>

definition range_ids :: "u64 \<Rightarrow> nat \<Rightarrow> u64 list" where
  "range_ids first n = ids_from (exchange_globcnt (drop_bit 16 first)) n"

lemma fid_counter: "drop_bit 16 (fid_of_counter n) = exchange_globcnt n" "take_bit 16 (fid_of_counter n) = 1"
proof -
  have h: "bit (exchange_globcnt n) k \<Longrightarrow> k < 48" for k using bit_exchange_globcnt_high [of k n] by (metis not_le)
  show "drop_bit 16 (fid_of_counter n) = exchange_globcnt n"
    by (rule bit_word_eqI) (auto simp: fid_of_counter_def bit_simps bit_1_iff dest: h)
  show "take_bit 16 (fid_of_counter n) = 1"
    by (rule bit_word_eqI) (auto simp: fid_of_counter_def bit_simps bit_1_iff)
qed

lemma fid_of_counter_inj: "n < 2 ^ 48 \<Longrightarrow> k < 2 ^ 48 \<Longrightarrow> fid_of_counter n = fid_of_counter k \<longleftrightarrow> n = k"
  by (metis fid_counter(1) exchange_exchange)

lemma ids_from_append: "ids_from c (n + k) = ids_from c n @ ids_from (c + of_nat n) k"
proof -
  have "[n..<n + k] = map (\<lambda>i. n + i) [0..<k]" using map_add_upt [of n k] by (simp add: add.commute)
  then show ?thesis by (simp add: ids_from_def upt_add_eq_append [of 0 n k] add.assoc del: upt_Suc)
qed

lemma ids_from_distinct:
  assumes "unat c + n \<le> 2 ^ 48" shows "distinct (ids_from c n)"
proof -
  have u: "unat (c + of_nat i) = unat c + i" if "i < n" for i
  proof -
    have "unat c + i < 2 ^ 64" using assms that by simp
    then show ?thesis by (simp add: unat_word_ariths unat_of_nat)
  qed
  have lt: "c + of_nat i < 2 ^ 48" if "i < n" for i using u [OF that] assms that by (simp add: word_less_nat_alt)
  have "i = j" if "i < n" "j < n" "fid_of_counter (c + of_nat i) = fid_of_counter (c + of_nat j)" for i j
    using that(3) u [OF that(1)] u [OF that(2)] lt [OF that(1)] lt [OF that(2)] by (metis fid_of_counter_inj add_left_cancel)
  then show ?thesis by (auto simp: ids_from_def distinct_map inj_on_def)
qed

lemma ids_from_below:
  assumes "unat c + n < 2 ^ 48" and "i \<in> set (ids_from c n)"
  shows "\<exists>x. unat x < unat c + n \<and> x < 2 ^ 48 \<and> i = fid_of_counter x \<and> c \<le> x"
proof -
  obtain k where k: "k < n" "i = fid_of_counter (c + of_nat k)" using assms(2) by (auto simp: ids_from_def)
  have "unat c + k < 2 ^ 64" using assms(1) k(1) by simp
  then have "unat (c + of_nat k) = unat c + k" by (simp add: unat_word_ariths unat_of_nat)
  with k assms(1) show ?thesis by (intro exI [of _ "c + of_nat k"]) (auto simp: word_less_nat_alt word_le_nat_alt)
qed

lemma reserved_range: "c < 2 ^ 48 \<Longrightarrow> range_ids (fid_of_counter c) n = ids_from c n"
  by (simp add: range_ids_def fid_counter exchange_exchange)

section \<open>Requests\<close>

datatype id_request = New_folderID | New_folderIDs u64 | Reserve_range u64

primrec request_length :: "id_request \<Rightarrow> u64" where
  "request_length New_folderID = 1"
| "request_length (New_folderIDs n) = n"
| "request_length (Reserve_range n) = n"

text \<open>The identifiers that a request brings.\<close>

primrec serve :: "'d indexing_env \<Rightarrow> ('d, 'o) mapistore_context \<Rightarrow> id_request \<Rightarrow> (u64 list \<times> ('d, 'o) mapistore_context) outcome" where
  "serve E m New_folderID =
     obind (mapistore_indexing_get_new_folderID E m) (\<lambda>(ret, m', fid).
     Ok (if ret = MAPISTORE_SUCCESS then (case fid of Some f \<Rightarrow> [f] | None \<Rightarrow> []) else [], m'))"
| "serve E m (New_folderIDs n) = obind (mapistore_indexing_get_new_folderIDs E m n) (\<lambda>(ret, m', fids). Ok (fids, m'))"
| "serve E m (Reserve_range n) =
     obind (mapistore_indexing_reserve_fmid_range m n) (\<lambda>(ret, m', fid).
     Ok (case fid of Some f \<Rightarrow> range_ids f (unat n) | None \<Rightarrow> [], m'))"

fun serve_all :: "'d indexing_env \<Rightarrow> ('d, 'o) mapistore_context \<Rightarrow> id_request list \<Rightarrow> (u64 list list \<times> ('d, 'o) mapistore_context) outcome" where
  "serve_all E m [] = Ok ([], m)"
| "serve_all E m (r # rs) = obind (serve E m r) (\<lambda>(ids, m'). obind (serve_all E m' rs) (\<lambda>(idss, m''). Ok (ids # idss, m'')))"

lemma find_context_position:
  "find_context cs usr = Some i \<Longrightarrow> i < length cs \<and> (\<exists>c. cs ! i = Some c \<and> index_url c = usr)"
  by (induction cs arbitrary: i) (auto split: if_splits)

lemma find_context_update:
  "find_context cs usr = Some i \<Longrightarrow> index_url c = usr \<Longrightarrow> find_context (cs[i := Some c]) usr = Some i"
  by (induction cs arbitrary: i) (auto split: if_splits nat.split)

lemma small_count: "(n :: u64) < 2 ^ 31 \<Longrightarrow> (scast (ucast n :: u32) :: u64) = n"
proof -
  assume "n < 2 ^ 31"
  then have t: "take_bit 31 n = n" by (simp add: take_bit_eq_self_iff_less)
  have h: "k < 31" if "bit n k" for k using that by (subst (asm) t [symmetric]) (simp add: bit_take_bit_iff)
  show ?thesis by (rule bit_word_eqI) (auto simp: bit_simps min_def dest: h)
qed

text \<open>The index of the user is open.\<close>

definition index_ready :: "'d indexing_context \<Rightarrow> ('d, 'o) mapistore_context \<Rightarrow> 'd \<Rightarrow> bool" where
  "index_ready C m d \<longleftrightarrow>
     (\<exists>i. mapistore_indexing_search m (conn_username m) = Some i \<and>
        indexing_list m ! i = Some (C\<lparr>index_url := conn_username m, index_data := d\<rparr>))"

text \<open>The numbers of each request, when its turn comes, are below \<open>2 ^ 48\<close>.\<close>

fun counts_fit :: "'d indexing_context \<Rightarrow> string \<Rightarrow> 'd \<Rightarrow> id_request list \<Rightarrow> bool" where
  "counts_fit C usr d [] \<longleftrightarrow> True"
| "counts_fit C usr d (q # qs) \<longleftrightarrow>
     (case allocate_fmids C d usr (ucast (request_length q)) of
        (_, d', r) \<Rightarrow> unat r + unat (request_length q) < 2 ^ 48 \<and> counts_fit C usr d' qs)"

context fmid_index
begin

lemma ready_allocates:
  assumes d: "ok d" and m: "index_ready C m d"
  shows "\<exists>m' d' r. allocate_fmids C d (conn_username m) n = (MAPISTORE_SUCCESS, d', r) \<and> counter_read R (cnt d) r \<and> ok d' \<and> mp d' = mp d \<and>
    cnt d' = Some (r + scast (n :: u32)) \<and> index_ready C m' d' \<and> conn_username m' = conn_username m \<and>
    (\<forall>E k. ucast k = n \<longrightarrow> mapistore_indexing_allocate_fid E m (conn_username m) k = Ok (MAPISTORE_SUCCESS, m', Some r)) \<and>
    (\<forall>k. ucast k = n \<longrightarrow> mapistore_indexing_reserve_fmid_range m k = Ok (MAPISTORE_SUCCESS, m', Some (fid_of_counter r)))"
proof -
  obtain i where i: "mapistore_indexing_search m (conn_username m) = Some i" "indexing_list m ! i = Some (C\<lparr>index_url := conn_username m, index_data := d\<rparr>)"
    using m by (auto simp: index_ready_def)
  obtain d' r where d': "allocate_fmids C d (conn_username m) n = (MAPISTORE_SUCCESS, d', r)" "counter_read R (cnt d) r" "mp d' = mp d" "ok d'"
    "cnt d' = Some (r + scast n)" using law_allocate [OF d] by blast
  let ?m = "put_index m i (C\<lparr>index_url := conn_username m, index_data := d'\<rparr>)"
  have l: "i < length (indexing_list m)" using i(1) find_context_position by (auto simp: mapistore_indexing_search_def)
  have at: "index_at m i = Ok (C\<lparr>index_url := conn_username m, index_data := d\<rparr>)" using i(2) l by (simp add: index_at_def rd_def)
  have "index_ready C ?m d'"
    using i(1) l find_context_update [of "indexing_list m" "conn_username m" i] by (auto simp: index_ready_def put_index_def mapistore_indexing_search_def)
  moreover have "mapistore_indexing_allocate_fid E m (conn_username m) k = Ok (MAPISTORE_SUCCESS, ?m, Some r)" if "ucast k = n" for E k
    using i at d'(1) that by (simp add: mapistore_indexing_allocate_fid_def with_index_def mapistore_indexing_add_def)
  moreover have "mapistore_indexing_reserve_fmid_range m k = Ok (MAPISTORE_SUCCESS, ?m, Some (fid_of_counter r))" if "ucast k = n" for k
    using i at d'(1) that by (simp add: mapistore_indexing_reserve_fmid_range_def)
  ultimately show ?thesis using d' by (intro exI [of _ ?m] exI [of _ d'] exI [of _ r]) (simp add: put_index_def)
qed

text \<open>A request is served from what the counter is read as.\<close>

lemma ready_serves:
  assumes d: "ok d" and m: "index_ready C m d"
  shows "\<exists>m' d' r. allocate_fmids C d (conn_username m) (ucast (request_length q)) = (MAPISTORE_SUCCESS, d', r) \<and> counter_read R (cnt d) r \<and>
    ok d' \<and> cnt d' = Some (r + scast (ucast (request_length q) :: u32)) \<and> index_ready C m' d' \<and> conn_username m' = conn_username m \<and>
    (r < 2 ^ 48 \<longrightarrow> serve E m q = Ok (ids_from r (unat (request_length q)), m'))"
proof -
  obtain m' d' r where m': "allocate_fmids C d (conn_username m) (ucast (request_length q)) = (MAPISTORE_SUCCESS, d', r)" "counter_read R (cnt d) r" "ok d'"
    "cnt d' = Some (r + scast (ucast (request_length q) :: u32))" "index_ready C m' d'" "conn_username m' = conn_username m"
    "mapistore_indexing_allocate_fid E m (conn_username m) (request_length q) = Ok (MAPISTORE_SUCCESS, m', Some r)"
    "mapistore_indexing_reserve_fmid_range m (request_length q) = Ok (MAPISTORE_SUCCESS, m', Some (fid_of_counter r))"
    using ready_allocates [OF d m, of "ucast (request_length q)"] by metis
  have "serve E m q = Ok (ids_from r (unat (request_length q)), m')" if c: "r < 2 ^ 48"
    using m'(7,8) reserved_range [OF c]
    by (cases q) (simp_all add: mapistore_indexing_get_new_folderID_def mapistore_indexing_get_new_folderID_as_user_def
        mapistore_indexing_get_new_folderIDs_def ids_from_def del: obind_eq_Ok_iff)
  then show ?thesis using m'(1-6) by blast
qed

lemma ready_serves_all:
  assumes "ok d" and "index_ready C m d" and "\<forall>q \<in> set qs. request_length q < 2 ^ 31" and "counts_fit C (conn_username m) d qs"
  shows "\<exists>idss m'. serve_all E m qs = Ok (idss, m') \<and> map length idss = map (\<lambda>q. unat (request_length q)) qs \<and> distinct (concat idss) \<and>
    (\<forall>i \<in> set (concat idss). \<exists>x < 2 ^ 48. i = fid_of_counter x \<and> (\<forall>c. cnt d = Some c \<longrightarrow> c \<le> x))"
  using assms
proof (induction qs arbitrary: m d)
  case (Cons q qs)
  let ?n = "unat (request_length q)"
  obtain m1 d1 r where 1: "allocate_fmids C d (conn_username m) (ucast (request_length q)) = (MAPISTORE_SUCCESS, d1, r)" "counter_read R (cnt d) r"
    "ok d1" "cnt d1 = Some (r + scast (ucast (request_length q) :: u32))" "index_ready C m1 d1" "conn_username m1 = conn_username m"
    "r < 2 ^ 48 \<longrightarrow> serve E m q = Ok (ids_from r ?n, m1)" using ready_serves [OF Cons.prems(1,2), of q E] by blast
  have fit: "unat r + ?n < 2 ^ 48" "counts_fit C (conn_username m1) d1 qs" using Cons.prems(4) 1(1,6) by auto
  have c1: "cnt d1 = Some (r + request_length q)" using 1(4) small_count Cons.prems(3) by simp
  have u: "unat (r + request_length q) = unat r + ?n" using fit(1) by (simp add: unat_word_ariths)
  have r48: "r < 2 ^ 48" using fit(1) by (simp add: word_less_nat_alt)
  have above: "c \<le> r" if "cnt d = Some c" for c using 1(2) that law_read by simp
  obtain idss m' where i: "serve_all E m1 qs = Ok (idss, m')" "map length idss = map (\<lambda>q. unat (request_length q)) qs" "distinct (concat idss)"
    "\<forall>i \<in> set (concat idss). \<exists>x < 2 ^ 48. i = fid_of_counter x \<and> r + request_length q \<le> x"
    using Cons.IH [OF 1(3,5) _ fit(2)] Cons.prems(3) c1 by auto
  have block: "\<exists>x < r + request_length q. x < 2 ^ 48 \<and> i = fid_of_counter x \<and> r \<le> x" if "i \<in> set (ids_from r ?n)" for i
    using that ids_from_below [OF fit(1)] u by (auto simp: word_less_nat_alt)
  have "i \<notin> set (concat idss)" if "i \<in> set (ids_from r ?n)" for i
    using block [OF that] i(4) by (metis fid_of_counter_inj not_le)
  then have "distinct (ids_from r ?n @ concat idss)" using i(3) ids_from_distinct [of r ?n] fit(1) by (auto simp del: set_concat)
  moreover have "\<exists>x < 2 ^ 48. i = fid_of_counter x \<and> (\<forall>c. cnt d = Some c \<longrightarrow> c \<le> x)" if "i \<in> set (ids_from r ?n @ concat idss)" for i
  proof -
    have "r \<le> r + request_length q" using u by (simp add: word_le_nat_alt)
    then have "\<exists>x < 2 ^ 48. i = fid_of_counter x \<and> r \<le> x" if "i \<in> set (concat idss)" using i(4) that by (meson order_trans)
    then have "\<exists>x < 2 ^ 48. i = fid_of_counter x \<and> r \<le> x" using that block [of i] by (auto simp del: set_concat)
    then show ?thesis using above order_trans by blast
  qed
  moreover have "serve_all E m (q # qs) = Ok (ids_from r ?n # idss, m')" using i(1) 1(7) r48 by (simp del: obind_eq_Ok_iff)
  moreover have "length (ids_from r ?n) = ?n" by (simp add: ids_from_def)
  ultimately show ?case using i(2) by (intro exI [of _ "ids_from r ?n # idss"] exI [of _ m']) (simp del: set_concat)
qed simp

end

text \<open>The same for TDB, where the number is the one that is read.\<close>

lemma tdb_ready_serves:
  assumes I: "tdb_index_inv T db" and m: "index_ready (tdb_index T b usr0 db0) m db" and c: "stored_count T b db < 2 ^ 48"
  shows "\<exists>m' db'. serve E m q = Ok (ids_from (stored_count T b db) (unat (request_length q)), m') \<and> tdb_index_inv T db' \<and>
    counter_of T db' = Some (stored_count T b db + scast (ucast (request_length q) :: u32)) \<and> index_ready (tdb_index T b usr0 db0) m' db'"
proof -
  let ?C = "tdb_index T b usr0 db0"
  obtain m' db' r where s: "allocate_fmids ?C db (conn_username m) (ucast (request_length q)) = (MAPISTORE_SUCCESS, db', r)" "tdb_index_inv T db'"
    "counter_of T db' = Some (r + scast (ucast (request_length q) :: u32))" "index_ready ?C m' db'"
    "r < 2 ^ 48 \<longrightarrow> serve E m q = Ok (ids_from r (unat (request_length q)), m')" using tdbx.ready_serves [OF I m, of q E] by metis
  have "r = stored_count T b db" using s(1) by (auto simp: tdb_index_def tdb_record_allocate_fmids_def Let_def split: option.splits)
  then show ?thesis using s c by blast
qed

lemma large_count:
  assumes "2 ^ 31 \<le> (n :: u64)" and "n < 2 ^ 32" shows "(scast (ucast n :: u32) :: u64) = n - 2 ^ 32"
proof -
  have u: "2 ^ 31 \<le> uint n" "uint n < 2 ^ 32" using assms by (simp_all add: word_le_def word_less_def)
  then have "uint n div 2 ^ 31 = 1" by (simp add: div_pos_pos_trivial int_div_pos_eq)
  then have "signed_take_bit 31 (uint n) = uint n - 2 ^ 32"
    using u by (simp add: signed_take_bit_eq_take_bit_minus bit_iff_odd take_bit_int_eq_self)
  then have "sint (ucast n :: u32) = uint n - 2 ^ 32" by (simp add: sint_uint unsigned_ucast_eq signed_take_bit_take_bit)
  then show ?thesis by (simp add: scast_eq)
qed

lemma stored_count_exact: "counter_inv T db \<Longrightarrow> counter_of T db = Some c \<Longrightarrow> stops (b db) \<Longrightarrow> stored_count T b db = c"
  by (auto simp: counter_inv_def counter_of_def stored_count_def split: option.splits if_splits)

section \<open>Properties\<close>

text \<open>C8 The identifiers that are given out for new folders and messages, one by one, in batches or as ranges, are all different, and all
  belong to replica 1, whatever bytes stand behind the counter in memory when it is read, as long as each request is for fewer than
  \<open>2 ^ 31\<close> and the numbers that the requests get stay below \<open>2 ^ 48\<close>.\<close>

theorem new_ids_distinct:
  assumes "tdb_laws T" and "index_inv T db" and "counter_inv T db" and "index_ready (tdb_index T b usr0 db0) m db"
    and "\<forall>q \<in> set qs. request_length q < 2 ^ 31" and "counts_fit (tdb_index T b usr0 db0) (conn_username m) db qs"
  shows "\<exists>idss m'. serve_all E m qs = Ok (idss, m') \<and> map length idss = map (\<lambda>q. unat (request_length q)) qs \<and>
    distinct (concat idss) \<and> (\<forall>i \<in> set (concat idss). take_bit 16 i = 1)"
proof -
  have I: "tdb_index_inv T db" using assms(1-3) by (simp add: tdb_index_inv_def)
  obtain idss m' where s: "serve_all E m qs = Ok (idss, m')" "map length idss = map (\<lambda>q. unat (request_length q)) qs" "distinct (concat idss)"
    "\<forall>i \<in> set (concat idss). \<exists>x < 2 ^ 48. i = fid_of_counter x \<and> (\<forall>c. counter_of T db = Some c \<longrightarrow> c \<le> x)"
    using tdbx.ready_serves_all [OF I assms(4-6), of E] by blast
  moreover have "\<forall>i \<in> set (concat idss). take_bit 16 i = 1" using s(4) by (auto simp: fid_counter simp del: set_concat)
  ultimately show ?thesis by blast
qed

definition sample_ready :: "((string \<times> string) list, string) mapistore_context" where
  "sample_ready = (mapistore_start ''u'')\<lparr>indexing_list := [Some (tdb_index assoc_tdb (\<lambda>_. ''7'') ''u'' []), None]\<rparr>"

lemma sample_ready_index:
  "index_inv assoc_tdb []" "counter_inv assoc_tdb []" "stored_count assoc_tdb b [] = 1" "conn_username sample_ready = ''u''"
  "index_ready (tdb_index assoc_tdb (\<lambda>_. ''7'') ''u'' []) sample_ready []"
  by (simp_all add: index_inv_def counter_inv_def assoc_tdb_def stored_count_def index_ready_def sample_ready_def mapistore_start_def
      mapistore_indexing_search_def tdb_index_def)

lemma count_past_7: "strtoull16 (fmt_fmid c @ ''7'') = 16 * c + 7" if "c < 2 ^ 59"
proof -
  have "16 * unat c + 7 < 2 ^ 64" using that by (simp add: word_less_nat_alt)
  then show ?thesis by (simp add: strtoull16_def fmt_fmid_past hex_value_def hex_alphabet_def upt_rec)
qed

theorem new_ids_distinct_witness:
  "\<exists>idss m'. serve_all sample_indexing sample_ready [New_folderID, Reserve_range 0x10000, New_folderIDs 3] = Ok (idss, m') \<and>
     map length idss = [1, 65536, 3] \<and> distinct (concat idss)"
proof -
  let ?qs = "[New_folderID, Reserve_range 0x10000, New_folderIDs 3]"
  have "\<forall>q \<in> set ?qs. request_length q < 2 ^ 31"
    and "counts_fit (tdb_index assoc_tdb (\<lambda>_. ''7'') ''u'' []) (conn_username sample_ready) [] ?qs"
    by (simp_all add: tdb_index_def tdb_record_allocate_fmids_def stored_count_def assoc_tdb_def Let_def count_past_7)
  from new_ids_distinct [OF assoc_tdb_laws sample_ready_index(1,2,5) this, of sample_indexing]
  obtain idss m' where "serve_all sample_indexing sample_ready ?qs = Ok (idss, m')"
    "map length idss = map (\<lambda>q. unat (request_length q)) ?qs" "distinct (concat idss)" by blast
  then show ?thesis by (intro exI [of _ idss] exI [of _ m']) simp
qed

definition counted_ready :: "((string \<times> string) list, string) mapistore_context" where
  "counted_ready = (mapistore_start ''u'')\<lparr>indexing_list := [Some (tdb_index assoc_tdb (\<lambda>_. []) ''u'' [(GlobalCount_key, fmt_fmid 5)]), None]\<rparr>"

lemma counted_ready_index:
  "index_inv assoc_tdb [(GlobalCount_key, fmt_fmid 5)]" "counter_inv assoc_tdb [(GlobalCount_key, fmt_fmid 5)]"
  "index_ready (tdb_index assoc_tdb (\<lambda>_. []) ''u'' [(GlobalCount_key, fmt_fmid 5)]) counted_ready [(GlobalCount_key, fmt_fmid 5)]"
  by (auto simp: index_inv_def counter_inv_def assoc_tdb_def index_ready_def counted_ready_def mapistore_start_def mapistore_indexing_search_def tdb_index_def)

text \<open>C37 A range of \<open>n\<close> identifiers with \<open>2 ^ 31 \<le> n < 2 ^ 32\<close>, which a client may ask for, sets the counter back by \<open>2 ^ 32 - n\<close>,
  because its length becomes an \<^verbatim>\<open>int\<close>: the number that is stored is below the start of the range that was just given out. When no
  hexadecimal digit follows the record in memory, it is the number of the next identifier.\<close>

theorem huge_range_reissues:
  assumes "tdb_laws T" and "index_inv T db" and "counter_inv T db" and "index_ready (tdb_index T b usr0 db0) m db"
    and "2 ^ 31 \<le> n" and "n < 2 ^ 32" and "2 ^ 32 - n \<le> stored_count T b db" and "stored_count T b db < 2 ^ 48"
  shows "\<exists>m' db'. serve E m (Reserve_range n) = Ok (ids_from (stored_count T b db) (unat n), m') \<and> index_ready (tdb_index T b usr0 db0) m' db' \<and>
    counter_of T db' = Some (stored_count T b db - (2 ^ 32 - n)) \<and> stored_count T b db - (2 ^ 32 - n) < stored_count T b db \<and>
    (stops (b db') \<longrightarrow> (\<exists>m''. serve E m' New_folderID = Ok ([fid_of_counter (stored_count T b db - (2 ^ 32 - n))], m'')))"
proof -
  let ?c = "stored_count T b db" and ?C = "tdb_index T b usr0 db0"
  have I: "tdb_index_inv T db" using assms(1-3) by (simp add: tdb_index_inv_def)
  obtain m1 db1 where 1: "serve E m (Reserve_range n) = Ok (ids_from ?c (unat n), m1)" "tdb_index_inv T db1"
    "counter_of T db1 = Some (?c - (2 ^ 32 - n))" "index_ready ?C m1 db1"
    using tdb_ready_serves [OF I assms(4,8), of E "Reserve_range n"] large_count [OF assms(5,6)] by auto
  have "0 < 2 ^ 32 - n" using assms(6) by (simp add: word_neq_0_conv [symmetric])
  then have lt: "?c - (2 ^ 32 - n) < ?c" using assms(7) by (simp add: word_less_nat_alt word_le_nat_alt unat_sub)
  have "\<exists>m''. serve E m1 New_folderID = Ok ([fid_of_counter (?c - (2 ^ 32 - n))], m'')" if st: "stops (b db1)"
  proof -
    have c1: "stored_count T b db1 = ?c - (2 ^ 32 - n)" using 1(2,3) st by (simp add: stored_count_exact tdb_index_inv_def)
    then have "stored_count T b db1 < 2 ^ 48" using lt assms(8) by simp
    from tdb_ready_serves [OF 1(2,4) this, of E New_folderID] c1 show ?thesis by (auto simp: ids_from_def simp del: obind_eq_Ok_iff serve.simps)
  qed
  then show ?thesis using 1 lt by blast
qed

theorem huge_range_reissues_witness:
  "\<exists>m' m''. serve sample_indexing counted_ready (Reserve_range 0xfffffffd) = Ok (ids_from 5 0xfffffffd, m') \<and>
     serve sample_indexing m' New_folderID = Ok ([fid_of_counter 2], m'')"
proof -
  have c: "stored_count assoc_tdb (\<lambda>_. []) [(GlobalCount_key, fmt_fmid 5)] = 5" by (simp add: stored_count_def assoc_tdb_def)
  have k: "(2 ^ 31 :: u64) \<le> 0xfffffffd" "(0xfffffffd :: u64) < 2 ^ 32"
    "2 ^ 32 - 0xfffffffd \<le> stored_count assoc_tdb (\<lambda>_. []) [(GlobalCount_key, fmt_fmid 5)]"
    "stored_count assoc_tdb (\<lambda>_. []) [(GlobalCount_key, fmt_fmid 5)] < 2 ^ 48" by (simp_all add: c)
  have s: "stops ([] :: string)" by (simp add: stops_def)
  show ?thesis using huge_range_reissues [OF assoc_tdb_laws counted_ready_index k, of sample_indexing] s unfolding c
    by (simp del: obind_eq_Ok_iff serve.simps) blast
qed

end
