(* ===== verification/Freebusy.thy ===== *)
theory Freebusy
  imports Mapistore Property_Values
begin

text \<open>
  Free/busy data. The server (\<^verbatim>\<open>src/mapiproxy/libmapistore/mapistore_interface.c\<close>) marks the minutes of every month that
  the events of a calendar cover and publishes the runs of marked minutes; \<^verbatim>\<open>emsmdbp_object.c\<close> hands them out as
  properties; the client (\<^verbatim>\<open>src/libmapi/freebusy.c\<close>) looks a date up in them. The events are what the table of the
  calendar returns. Of Samba, the conversions between Unix and NT times are arguments; \<open>time_laws\<close> says what they do on whole
  seconds. Years and minutes are far from the limits of their types and are plain numbers here.
\<close>

section \<open>Calendar time of the C library\<close>

record tm =
  tm_sec :: int
  tm_min :: int
  tm_hour :: int
  tm_mday :: int
  tm_mon :: int
  tm_year :: int
  tm_wday :: int

definition leap :: "int \<Rightarrow> bool" where
  "leap y \<longleftrightarrow> y mod 4 = 0 \<and> (y mod 100 \<noteq> 0 \<or> y mod 400 = 0)"

definition year_days :: "int \<Rightarrow> nat" where
  "year_days y = (if leap y then 366 else 365)"

definition month_days :: "int \<Rightarrow> nat \<Rightarrow> nat" where
  "month_days y m = (if m = 1 then (if leap y then 29 else 28) else if m \<in> {3, 5, 8, 10} then 30 else 31)"

text \<open>The year and the day of the year, the month and the day of the month, both counted from 0.\<close>

function split_year :: "int \<Rightarrow> nat \<Rightarrow> int \<times> nat" where
  "split_year y d = (if d < year_days y then (y, d) else split_year (y + 1) (d - year_days y))"
  by pat_completeness auto
termination by (relation "measure snd") (auto simp: year_days_def split: if_splits)

function split_month :: "int \<Rightarrow> nat \<Rightarrow> nat \<Rightarrow> nat \<times> nat" where
  "split_month y m d = (if 11 \<le> m \<or> d < month_days y m then (m, d) else split_month y (Suc m) (d - month_days y m))"
  by pat_completeness auto
termination by (relation "measure (\<lambda>(y, m, d). 11 - m)") auto

declare split_year.simps [simp del] split_month.simps [simp del]

text \<open>The calendar repeats every 400 years, which are 146097 days.\<close>

definition gmtime :: "int \<Rightarrow> tm" where
  "gmtime t =
     (let days = t div 86400; secs = t mod 86400 in
      case split_year 1970 (nat (days mod 146097)) of
        (y, d) \<Rightarrow>
          (case split_month y 0 d of
             (m, d') \<Rightarrow>
               \<lparr>tm_sec = secs mod 60, tm_min = secs div 60 mod 60, tm_hour = secs div 3600, tm_mday = int d' + 1,
                tm_mon = int m, tm_year = y + 400 * (days div 146097) - 1900, tm_wday = (days + 4) mod 7\<rparr>))"

fun days_before_month :: "int \<Rightarrow> nat \<Rightarrow> nat" where
  "days_before_month y 0 = 0"
| "days_before_month y (Suc m) = days_before_month y m + month_days y m"

definition days_before_year :: "int \<Rightarrow> int" where
  "days_before_year y = 365 * (y - 1970) + ((y - 1) div 4 - 492) - ((y - 1) div 100 - 19) + ((y - 1) div 400 - 4)"

text \<open>\<^verbatim>\<open>mktime\<close> with the time zone UTC: the time, and the fields brought back into their ranges.\<close>

definition mktime :: "tm \<Rightarrow> int \<times> tm" where
  "mktime T =
     (let y = tm_year T + 1900 + tm_mon T div 12;
          days = days_before_year y + int (days_before_month y (nat (tm_mon T mod 12))) + tm_mday T - 1;
          t = 86400 * days + 3600 * tm_hour T + 60 * tm_min T + tm_sec T
      in (t, gmtime t))"

section \<open>Samba times\<close>

record time_lib =
  nt_time_to_unix :: "u64 \<Rightarrow> int"
  unix_to_nt_time :: "int \<Rightarrow> u64"

text \<open>100 ns units since 1601, for the times of the tables of 400 years above.\<close>

definition nt_of_unix :: "int \<Rightarrow> u64" where
  "nt_of_unix t = of_int ((t + 11644473600) * 10000000)"

definition time_limit :: int where
  "time_limit = 86400 * 146097"

definition time_laws :: "time_lib \<Rightarrow> bool" where
  "time_laws L \<longleftrightarrow>
     (\<forall>t. 0 \<le> t \<and> t < time_limit \<longrightarrow> unix_to_nt_time L t = nt_of_unix t \<and> nt_time_to_unix L (nt_of_unix t) = t)"

type_synonym FILETIME = "u32 \<times> u32"

definition filetime :: "u64 \<Rightarrow> FILETIME" where
  "filetime n = (ucast n, ucast (drop_bit 32 n))"

definition filetime_value :: "FILETIME \<Rightarrow> u64" where
  "filetime_value ft = push_bit 32 (ucast (snd ft)) OR ucast (fst ft)"

section \<open>Months\<close>

definition max_mdays :: "int list" where
  "max_mdays = [31, 28, 31, 30, 31, 30, 31, 31, 30, 31, 30, 31]"

definition mapistore_days_in_month :: "int \<Rightarrow> int \<Rightarrow> int outcome" where
  "mapistore_days_in_month month year =
     (if month = 1 then
        (let dec_year = year mod 100 in
         if (dec_year = 0 \<and> (year + 1900) div 100 mod 4 = 0) \<or> dec_year mod 4 = 0 then Ok 29
         else rd max_mdays (nat month))
      else if month < 0 then Fault
      else rd max_mdays (nat month))"

text \<open>A month is the number \<^verbatim>\<open>year << 4 | month\<close>, with months counted from 1.\<close>

definition mapistore_mins_in_ymon :: "int \<Rightarrow> nat outcome" where
  "mapistore_mins_in_ymon ymon =
     obind (mapistore_days_in_month (ymon mod 16 - 1) (ymon div 16)) (\<lambda>days. Ok (nat (days * 24 * 60)))"

definition mapistore_freebusy_make_range :: "int \<Rightarrow> (tm \<times> tm) outcome" where
  "mapistore_freebusy_make_range now =
     (let time_data = (gmtime now)\<lparr>tm_hour := 0, tm_min := 0, tm_sec := 0\<rparr>;
          month = tm_mon time_data;
          mw_delta = (if tm_mday time_data < 7 then tm_wday time_data + 1 - tm_mday time_data else 0)
      in obind
        (if tm_mday time_data < 7 \<and> mw_delta > 0 then
           (let previous =
              (if tm_mon time_data > 0 then time_data\<lparr>tm_mon := tm_mon time_data - 1\<rparr>
               else time_data\<lparr>tm_mon := 11, tm_year := tm_year time_data - 1\<rparr>)
            in obind (mapistore_days_in_month (tm_mon previous) (tm_year previous)) (\<lambda>days.
               Ok (previous\<lparr>tm_mday := days + 1 - mw_delta\<rparr>)))
         else Ok (time_data\<lparr>tm_mday := 1\<rparr>))
        (\<lambda>start_time.
          let last_month = start_time\<lparr>tm_mon := month + 2\<rparr>;
              end_month =
                (if tm_mon last_month > 11
                 then last_month\<lparr>tm_year := tm_year last_month + 1, tm_mon := tm_mon last_month - 12\<rparr> else last_month)
          in obind (mapistore_days_in_month (tm_mon end_month) (tm_year end_month)) (\<lambda>days.
             Ok (start_time, end_month\<lparr>tm_mday := days + 1 - mw_delta, tm_hour := 23, tm_min := 59, tm_sec := 59\<rparr>))))"

section \<open>The minutes of events\<close>

definition mapistore_freebusy_convert_filetime :: "time_lib \<Rightarrow> FILETIME \<Rightarrow> int \<times> nat" where
  "mapistore_freebusy_convert_filetime L ft =
     (let gm_time = gmtime (nt_time_to_unix L (filetime_value ft)) in
      (16 * (tm_year gm_time + 1900) + (tm_mon gm_time + 1),
       nat (tm_min gm_time + (tm_hour gm_time + (tm_mday gm_time - 1) * 24) * 60)))"

text \<open>The loop of the search from index \<open>i\<close> on: \<open>(uint16_t) -1\<close> where no month is the one looked for. The array may hold fewer
  months than \<^verbatim>\<open>nbr_months\<close> says.\<close>

function month_index :: "int \<Rightarrow> int list \<Rightarrow> u16 \<Rightarrow> nat \<Rightarrow> nat outcome" where
  "month_index ymon months_ranges nbr_months i =
     (if i < unat nbr_months then
        obind (rd months_ranges i) (\<lambda>m. if m = ymon then Ok i else month_index ymon months_ranges nbr_months (Suc i))
      else Ok 65535)"
  by pat_completeness auto
termination by (relation "measure (\<lambda>(_, _, n, i). unat n - i)") auto

declare month_index.simps [simp del]

text \<open>The second component is the flag \<^verbatim>\<open>overflow\<close>, \<open>None\<close> where it is not set.\<close>

definition mapistore_freebusy_find_month_range :: "int \<Rightarrow> int list \<Rightarrow> u16 \<Rightarrow> (nat \<times> bool option) outcome" where
  "mapistore_freebusy_find_month_range ymon months_ranges nbr_months =
     (if nbr_months > 0 then
        obind (rd months_ranges 0) (\<lambda>first.
        if first > ymon then Ok (0, Some True)
        else
          obind (rd months_ranges (unat nbr_months - 1)) (\<lambda>final.
          if final < ymon then Ok (unat nbr_months - 1, Some True)
          else obind (month_index ymon months_ranges nbr_months 0) (\<lambda>i. Ok (i, Some False))))
      else Ok (65535, None))"

text \<open>\<open>mark_minutes arr i a b\<close> is \<^verbatim>\<open>memset(arr[i] + a, 1, b - a)\<close>; where \<open>b\<close> is below \<open>a\<close> the length wraps to almost 4 GB.\<close>

definition mark_minutes :: "u8 list list \<Rightarrow> nat \<Rightarrow> nat \<Rightarrow> nat \<Rightarrow> u8 list list outcome" where
  "mark_minutes arr i a b =
     obind (rd arr i) (\<lambda>xs.
     if a \<le> b \<and> b \<le> length xs then Ok (arr[i := take a xs @ replicate (b - a) 1 @ drop b xs]) else Fault)"

function mark_months :: "u8 list list \<Rightarrow> int list \<Rightarrow> nat \<Rightarrow> nat \<Rightarrow> u8 list list outcome" where
  "mark_months arr months_ranges i end_mr_idx =
     (if i < end_mr_idx then
        obind (rd months_ranges i) (\<lambda>ymon.
        obind (mapistore_mins_in_ymon ymon) (\<lambda>mins.
        obind (mark_minutes arr i 0 mins) (\<lambda>arr'.
        mark_months arr' months_ranges (Suc i) end_mr_idx)))
      else Ok arr)"
  by pat_completeness auto
termination by (relation "measure (\<lambda>(_, _, i, e). e - i)") auto

declare mark_months.simps [simp del]

definition set_flag :: "bool option \<Rightarrow> bool outcome" where
  "set_flag f = (case f of None \<Rightarrow> Fault | Some b \<Rightarrow> Ok b)"

definition mapistore_freebusy_fill_fbarray ::
  "time_lib \<Rightarrow> u8 list list \<Rightarrow> int list \<Rightarrow> u16 \<Rightarrow> FILETIME \<Rightarrow> FILETIME \<Rightarrow> u8 list list outcome" where
  "mapistore_freebusy_fill_fbarray L minutes_array months_ranges nbr_months start finish =
     (case mapistore_freebusy_convert_filetime L start of (start_ymon, start_mins) \<Rightarrow>
      case mapistore_freebusy_convert_filetime L finish of (end_ymon, end_mins) \<Rightarrow>
      obind (mapistore_freebusy_find_month_range start_ymon months_ranges nbr_months) (\<lambda>(start_mr_idx, start_range_overflow).
      obind (set_flag start_range_overflow) (\<lambda>so.
      obind (mapistore_freebusy_find_month_range end_ymon months_ranges nbr_months) (\<lambda>(end_mr_idx, end_range_overflow).
      obind (set_flag end_range_overflow) (\<lambda>eo.
      obind (if eo then mapistore_mins_in_ymon end_ymon else Ok end_mins) (\<lambda>end_mins'.
      let start_mins' = (if so then 0 else start_mins) in
      if start_mr_idx < end_mr_idx then
        obind (mark_months minutes_array months_ranges (Suc start_mr_idx) end_mr_idx) (\<lambda>arr1.
        obind (mark_minutes arr1 end_mr_idx 0 end_mins') (\<lambda>arr2.
        obind (mapistore_mins_in_ymon start_ymon) (\<lambda>max.
        mark_minutes arr2 start_mr_idx start_mins' max)))
      else mark_minutes minutes_array start_mr_idx start_mins' end_mins'))))))"

section \<open>Runs of minutes\<close>

definition max_mins_per_month :: nat where
  "max_mins_per_month = 31 * 24 * 60"

text \<open>\<open>compile_loop ms i filled\<close> is the loop from minute \<open>i\<close> on, where \<open>ms\<close> is what is left of the array.\<close>

fun compile_loop :: "u8 list \<Rightarrow> nat \<Rightarrow> bool \<Rightarrow> u16 list" where
  "compile_loop [] i filled = (if filled then [of_nat (max_mins_per_month - 1)] else [])"
| "compile_loop (m # ms) i filled =
     (if filled \<and> m = 0 then of_nat (i - 1) # compile_loop ms (Suc i) False
      else if \<not> filled \<and> m \<noteq> 0 then of_nat i # compile_loop ms (Suc i) True
      else compile_loop ms (Suc i) filled)"

definition mapistore_freebusy_compile_fbarray :: "u8 list \<Rightarrow> u8 list outcome" where
  "mapistore_freebusy_compile_fbarray minutes_array =
     (if length minutes_array < max_mins_per_month then Fault
      else
        (let filled = (hd minutes_array \<noteq> 0);
             ms = take (max_mins_per_month - 1) (tl minutes_array)
         in Ok (concat (map (le_bytes 2) ((if filled then [0] else []) @ compile_loop ms 1 filled)))))"

definition mapistore_freebusy_merge_subarray :: "u8 list \<Rightarrow> u8 list \<Rightarrow> u8 list" where
  "mapistore_freebusy_merge_subarray minutes_array included_array =
     map (\<lambda>(m, i). if i \<noteq> 0 then 1 else m) (zip minutes_array included_array)"

section \<open>What is published\<close>

record mapistore_freebusy_properties =
  nbr_months :: u16
  months_ranges :: "int list"
  freebusy_free :: "u8 list list"
  freebusy_tentative :: "u8 list list"
  freebusy_busy :: "u8 list list"
  freebusy_away :: "u8 list list"
  freebusy_merged :: "u8 list list"
  publish_start :: u32
  publish_end :: u32
  fb_timestamp :: FILETIME

text \<open>The calendar: whether its table opens, and the rows it returns for a restriction to the events that end at the first
  time or later and start at the second one or earlier: start, end and status, or an error for each of them.\<close>

type_synonym event_row = "FILETIME option \<times> FILETIME option \<times> u32 option"

record fb_env =
  fb_time :: time_lib
  fb_now :: int
  fb_open :: mapistore_error
  fb_rows :: "u64 \<Rightarrow> u64 \<Rightarrow> event_row list"

definition olFree :: u32 where "olFree = 0"
definition olTentative :: u32 where "olTentative = 1"
definition olBusy :: u32 where "olBusy = 2"
definition olOutOfOffice :: u32 where "olOutOfOffice = 3"

record fb_arrays =
  free_array :: "u8 list list"
  tentative_array :: "u8 list list"
  busy_array :: "u8 list list"
  oof_array :: "u8 list list"

definition published_months :: "tm \<Rightarrow> tm \<Rightarrow> int \<times> int list" where
  "published_months start finish =
     (if tm_year start = tm_year finish then
        (tm_mon finish - tm_mon start + 1,
         map (\<lambda>i. 16 * (tm_year start + 1900) + (tm_mon start + 1 + int i)) [0..<nat (tm_mon finish - tm_mon start + 1)])
      else
        ((12 - tm_mon start) + tm_mon finish + 1,
         map (\<lambda>i. 16 * (tm_year start + 1900) + (tm_mon start + int i) + 1) [0..<nat (12 - tm_mon start)] @
         map (\<lambda>i. 16 * (tm_year finish + 1900) + int i + 1) [0..<nat (tm_mon finish + 1)]))"

definition event_minutes :: "fb_env \<Rightarrow> int list \<Rightarrow> u16 \<Rightarrow> event_row \<Rightarrow> fb_arrays \<Rightarrow> fb_arrays outcome" where
  "event_minutes E months nbr row A =
     (case row of
        (Some start, Some finish, Some status) \<Rightarrow>
          (let fill = (\<lambda>arr. mapistore_freebusy_fill_fbarray (fb_time E) arr months nbr start finish) in
           if status = olFree then obind (fill (free_array A)) (\<lambda>x. Ok (A\<lparr>free_array := x\<rparr>))
           else if status = olTentative then obind (fill (tentative_array A)) (\<lambda>x. Ok (A\<lparr>tentative_array := x\<rparr>))
           else if status = olBusy then obind (fill (busy_array A)) (\<lambda>x. Ok (A\<lparr>busy_array := x\<rparr>))
           else if status = olOutOfOffice then obind (fill (oof_array A)) (\<lambda>x. Ok (A\<lparr>oof_array := x\<rparr>))
           else Ok A)
      | _ \<Rightarrow> Ok A)"

fun event_rows :: "fb_env \<Rightarrow> int list \<Rightarrow> u16 \<Rightarrow> event_row list \<Rightarrow> fb_arrays \<Rightarrow> fb_arrays outcome" where
  "event_rows E months nbr [] A = Ok A"
| "event_rows E months nbr (r # rs) A = obind (event_minutes E months nbr r A) (event_rows E months nbr rs)"

fun compile_months :: "u8 list list \<Rightarrow> u8 list list outcome" where
  "compile_months [] = Ok []"
| "compile_months (x # xs) =
     obind (mapistore_freebusy_compile_fbarray x) (\<lambda>b. obind (compile_months xs) (\<lambda>bs. Ok (b # bs)))"

definition empty_arrays :: "nat \<Rightarrow> fb_arrays" where
  "empty_arrays n =
     (let zero = replicate n (replicate max_mins_per_month 0)
      in \<lparr>free_array = zero, tentative_array = zero, busy_array = zero, oof_array = zero\<rparr>)"

definition fb_minutes :: "time_lib \<Rightarrow> int \<Rightarrow> u64" where
  "fb_minutes L t = unix_to_nt_time L t div (60 * 10000000)"

text \<open>The number of months is an \<^verbatim>\<open>int\<close> here and a \<^verbatim>\<open>uint16_t\<close> where it is handed on and where it is published. A negative
  number gives no memory for the months: the arrays are \<^verbatim>\<open>NULL\<close>, here lists without elements.\<close>

definition fb_publish :: "fb_env \<Rightarrow> tm \<Rightarrow> tm \<Rightarrow> mapistore_freebusy_properties outcome" where
  "fb_publish E start_tm end_tm =
     (case mktime start_tm of (start_time, local_start) \<Rightarrow>
      case mktime end_tm of (end_time, local_end) \<Rightarrow>
      case published_months local_start local_end of (n, months) \<Rightarrow>
        (let L = fb_time E;
             rows = fb_rows E (unix_to_nt_time L start_time) (unix_to_nt_time L end_time)
         in obind (event_rows E months (of_int n) rows (empty_arrays (length months))) (\<lambda>A.
            obind (compile_months (free_array A)) (\<lambda>free.
            obind (compile_months (tentative_array A)) (\<lambda>tentative.
            obind (compile_months (busy_array A)) (\<lambda>busy.
            obind (compile_months (oof_array A)) (\<lambda>away.
            obind (compile_months (map2 mapistore_freebusy_merge_subarray (busy_array A) (oof_array A))) (\<lambda>merged.
            Ok \<lparr>nbr_months = of_int n, months_ranges = months, freebusy_free = free, freebusy_tentative = tentative,
                freebusy_busy = busy, freebusy_away = away, freebusy_merged = merged,
                publish_start = ucast (fb_minutes L start_time), publish_end = ucast (fb_minutes L end_time),
                fb_timestamp = filetime (unix_to_nt_time L (fb_now E))\<rparr>)))))))) "

definition mapistore_folder_fetch_freebusy_properties ::
  "fb_env \<Rightarrow> ('d, 'o) mapistore_context \<Rightarrow> u32 \<Rightarrow> (tm \<times> tm) option \<Rightarrow>
     (mapistore_error \<times> mapistore_freebusy_properties option) outcome" where
  "mapistore_folder_fetch_freebusy_properties E m ctx_id given =
     (if context_list m = [] then Ok (MAPISTORE_ERR_NOT_INITIALIZED, None)
      else if mapistore_backend_lookup (context_list m) ctx_id = None then Ok (MAPISTORE_ERR_INVALID_PARAMETER, None)
      else if fb_open E \<noteq> MAPISTORE_SUCCESS then Ok (fb_open E, None)
      else
        obind (case given of Some r \<Rightarrow> Ok r | None \<Rightarrow> mapistore_freebusy_make_range (fb_now E)) (\<lambda>(start_tm, end_tm).
        obind (fb_publish E start_tm end_tm) (\<lambda>fb. Ok (MAPISTORE_SUCCESS, Some fb))))"

section \<open>Free/busy properties of a message\<close>

abbreviation PR_SCHDINFO_MONTHS_MERGED :: u32 where "PR_SCHDINFO_MONTHS_MERGED \<equiv> 0x684F1003"
abbreviation PR_SCHDINFO_FREEBUSY_MERGED :: u32 where "PR_SCHDINFO_FREEBUSY_MERGED \<equiv> 0x68501102"
abbreviation PR_SCHDINFO_MONTHS_TENTATIVE :: u32 where "PR_SCHDINFO_MONTHS_TENTATIVE \<equiv> 0x68511003"
abbreviation PR_SCHDINFO_FREEBUSY_TENTATIVE :: u32 where "PR_SCHDINFO_FREEBUSY_TENTATIVE \<equiv> 0x68521102"
abbreviation PR_SCHDINFO_MONTHS_BUSY :: u32 where "PR_SCHDINFO_MONTHS_BUSY \<equiv> 0x68531003"
abbreviation PR_SCHDINFO_FREEBUSY_BUSY :: u32 where "PR_SCHDINFO_FREEBUSY_BUSY \<equiv> 0x68541102"
abbreviation PR_SCHDINFO_MONTHS_OOF :: u32 where "PR_SCHDINFO_MONTHS_OOF \<equiv> 0x68551003"
abbreviation PR_SCHDINFO_FREEBUSY_OOF :: u32 where "PR_SCHDINFO_FREEBUSY_OOF \<equiv> 0x68561102"
abbreviation PR_FREEBUSY_PUBLISH_START :: u32 where "PR_FREEBUSY_PUBLISH_START \<equiv> 0x68470003"
abbreviation PR_FREEBUSY_PUBLISH_END :: u32 where "PR_FREEBUSY_PUBLISH_END \<equiv> 0x68480003"
abbreviation PR_FREEBUSY_RANGE_TIMESTAMP :: u32 where "PR_FREEBUSY_RANGE_TIMESTAMP \<equiv> 0x68680040"
abbreviation PidTagFreeBusyMessageEmailAddress :: u32 where "PidTagFreeBusyMessageEmailAddress \<equiv> 0x6849001f"

text \<open>\<open>None\<close> is a tag that is looked up in openchangedb instead. The counts of the arrays are \<^verbatim>\<open>nbr_months\<close>, those of the lists
  in memory may be less: the value is that of a reader of the array, which reads outside it then.\<close>

definition counted :: "u16 \<Rightarrow> 'a list \<Rightarrow> 'a list outcome" where
  "counted n xs = (if unat n \<le> length xs then Ok (take (unat n) xs) else Fault)"

definition freebusy_property :: "mapistore_freebusy_properties \<Rightarrow> u8 list \<Rightarrow> u32 \<Rightarrow> prop_value option outcome" where
  "freebusy_property fb email tag =
     (let n = nbr_months fb;
          binaries = (\<lambda>bs. obind (counted n bs) (\<lambda>xs. Ok (Some (VMVBinary xs)))) in
      if tag \<in> {PR_SCHDINFO_MONTHS_TENTATIVE, PR_SCHDINFO_MONTHS_BUSY, PR_SCHDINFO_MONTHS_OOF, PR_SCHDINFO_MONTHS_MERGED}
      then obind (counted n (months_ranges fb)) (\<lambda>ms. Ok (Some (VMVLong (map of_int ms))))
      else if tag = PR_SCHDINFO_FREEBUSY_TENTATIVE then binaries (freebusy_tentative fb)
      else if tag = PR_SCHDINFO_FREEBUSY_BUSY then binaries (freebusy_busy fb)
      else if tag = PR_SCHDINFO_FREEBUSY_OOF then binaries (freebusy_away fb)
      else if tag = PR_SCHDINFO_FREEBUSY_MERGED then binaries (freebusy_merged fb)
      else if tag = PR_FREEBUSY_PUBLISH_START then Ok (Some (VLong (publish_start fb)))
      else if tag = PR_FREEBUSY_PUBLISH_END then Ok (Some (VLong (publish_end fb)))
      else if tag = PidTagFreeBusyMessageEmailAddress then Ok (Some (VUnicode email))
      else if tag = PR_FREEBUSY_RANGE_TIMESTAMP then Ok (Some (VSysTime (fb_timestamp fb)))
      else Ok None)"

section \<open>The client\<close>

text \<open>The properties that \<^verbatim>\<open>GetUserFreeBusyData\<close> asks for, and the row it gets where the transport loses nothing.\<close>

abbreviation PR_NORMALIZED_SUBJECT :: u32 where "PR_NORMALIZED_SUBJECT \<equiv> 0x0E1D001E"

definition freebusy_tags :: "u32 list" where
  "freebusy_tags = [PR_NORMALIZED_SUBJECT, PR_FREEBUSY_RANGE_TIMESTAMP, PR_FREEBUSY_PUBLISH_START, PR_FREEBUSY_PUBLISH_END,
     PR_SCHDINFO_MONTHS_MERGED, PR_SCHDINFO_FREEBUSY_MERGED, PR_SCHDINFO_MONTHS_TENTATIVE, PR_SCHDINFO_FREEBUSY_TENTATIVE,
     PR_SCHDINFO_MONTHS_BUSY, PR_SCHDINFO_FREEBUSY_BUSY, PR_SCHDINFO_MONTHS_OOF, PR_SCHDINFO_FREEBUSY_OOF]"

fun freebusy_row :: "mapistore_freebusy_properties \<Rightarrow> u8 list \<Rightarrow> (u32 \<Rightarrow> prop_value option) \<Rightarrow> u32 list \<Rightarrow> SRow outcome" where
  "freebusy_row fb email stored [] = Ok []"
| "freebusy_row fb email stored (t # ts) =
     obind (freebusy_property fb email t) (\<lambda>v.
     obind (freebusy_row fb email stored ts) (\<lambda>row.
     Ok (case (case v of None \<Rightarrow> stored t | Some x \<Rightarrow> Some x) of
           None \<Rightarrow> \<lparr>ulPropTag = prop_id t OR PT_ERROR, pvalue = VError 0x8004010F\<rparr> # row
         | Some x \<Rightarrow> \<lparr>ulPropTag = t, pvalue = x\<rparr> # row)))"

definition GetFreeBusyYear :: "time_lib \<Rightarrow> (int \<Rightarrow> tm) \<Rightarrow> u32 option \<Rightarrow> int" where
  "GetFreeBusyYear L localtime ps =
     (case ps of
        None \<Rightarrow> 0
      | Some p \<Rightarrow> tm_year (localtime (nt_time_to_unix L (ucast p * 60 * 10000000))) + 1900)"

fun conflict_scan :: "u8 list \<Rightarrow> nat \<Rightarrow> bool" where
  "conflict_scan (b0 # b1 # b2 # b3 # bs) t =
     ((unat (le_value [b0, b1] :: u32) \<le> t \<and> t \<le> unat (le_value [b2, b3] :: u32)) \<or> conflict_scan bs t)"
| "conflict_scan _ t = False"

fun month_position :: "int \<Rightarrow> int \<Rightarrow> u32 list \<Rightarrow> nat \<Rightarrow> nat option" where
  "month_position year fmonth [] i = None"
| "month_position year fmonth (m # ms) i =
     (if m - of_int (year * 16) = of_int fmonth then Some i else month_position year fmonth ms (Suc i))"

definition long_of :: "prop_ptr \<Rightarrow> u32 option" where
  "long_of p = (case p of PMember (VLong v) \<Rightarrow> Some v | _ \<Rightarrow> None)"

text \<open>\<open>row\<close> is what \<open>GetUserFreeBusyData\<close> returned. The first word of an array is its count, which is compared with
  \<^verbatim>\<open>MAPI_E_NOT_FOUND\<close> as well.\<close>

definition IsFreeBusyConflict ::
  "time_lib \<Rightarrow> (int \<Rightarrow> tm) \<Rightarrow> MAPISTATUS \<times> SRow \<Rightarrow> FILETIME \<Rightarrow> (MAPISTATUS \<times> bool) outcome" where
  "IsFreeBusyConflict L localtime data date =
     (case data of
        (MAPI_E_SUCCESS, row) \<Rightarrow>
          (case (find_SPropValue_data row PR_SCHDINFO_MONTHS_MERGED, find_SPropValue_data row PR_SCHDINFO_FREEBUSY_MERGED) of
             (PMember (VMVLong months), PMember (VMVBinary events)) \<Rightarrow>
               if length months = 0x8004010F \<or> length events = 0x8004010F then Ok (MAPI_E_SUCCESS, False)
               else
                 (let tm = localtime (nt_time_to_unix L (filetime_value date));
                      fmonth = tm_mon tm + 1;
                      fbusytime = nat ((tm_mday tm - 1) * 60 * 24 + tm_hour tm * 60);
                      year = GetFreeBusyYear L localtime (long_of (find_SPropValue_data row PR_FREEBUSY_PUBLISH_START))
                  in if year \<noteq> tm_year tm + 1900 then Ok (MAPI_E_SUCCESS, False)
                     else case month_position year fmonth months 0 of
                       None \<Rightarrow> Ok (MAPI_E_SUCCESS, False)
                     | Some idx \<Rightarrow>
                         obind (rd events idx) (\<lambda>bin.
                         if length bin mod 4 \<noteq> 0 then Ok (MAPI_E_INVALID_PARAMETER, False)
                         else Ok (MAPI_E_SUCCESS, conflict_scan bin fbusytime)))
           | _ \<Rightarrow> Ok (MAPI_E_SUCCESS, False))
      | (retval, _) \<Rightarrow> Ok (retval, False))"

end
