(* ===== verification/Freebusy_Conflict.thy ===== *)
theory Freebusy_Conflict
  imports Freebusy Mapistore_Contexts
begin

text \<open>
  The published runs and the look-up of the client against the events: a date conflicts exactly when a busy or
  out-of-office event covers the beginning of its hour, for events within the published months. What happens at the edges of
  these months, and in the first days of a year, is shown as well.
\<close>

section \<open>Order of months and minutes\<close>

lemma month_days_pos: "0 < month_days y m"
  by (simp add: month_days_def)

lemma month_days_le: "month_days y m \<le> 31"
  by (simp add: month_days_def)

lemma year_days_months: "days_before_month y 12 = year_days y"
  by (simp add: numeral_eq_Suc month_days_def year_days_def)

definition year_start :: "int \<Rightarrow> int" where
  "year_start y = (\<Sum>k\<in>{1970..<y}. int (year_days k))"

lemma year_start_Suc: "1970 \<le> y \<Longrightarrow> year_start (y + 1) = year_start y + int (year_days y)"
proof -
  assume "1970 \<le> y"
  then have "{1970..<y + 1} = insert y {1970..<y}" by auto
  then show ?thesis by (simp add: year_start_def)
qed

lemma year_start_mono: "1970 \<le> y \<Longrightarrow> y < z \<Longrightarrow> year_start y + int (year_days y) \<le> year_start z"
proof (induction "nat (z - y)" arbitrary: z)
  case 0
  then show ?case by simp
next
  case (Suc n)
  show ?case
  proof (cases "z = y + 1")
    case True
    then show ?thesis using Suc.prems year_start_Suc by simp
  next
    case False
    then have "year_start y + int (year_days y) \<le> year_start (z - 1)" using Suc by simp
    moreover have "year_start z = year_start (z - 1) + int (year_days (z - 1))"
      using year_start_Suc[of "z - 1"] Suc.prems by simp
    ultimately show ?thesis by simp
  qed
qed

lemma split_year_spec:
  "split_year y d = (y', d') \<Longrightarrow> 1970 \<le> y \<Longrightarrow> y \<le> y' \<and> d' < year_days y' \<and> year_start y + int d = year_start y' + int d'"
proof (induction y d rule: split_year.induct)
  case (1 y d)
  show ?case
  proof (cases "d < year_days y")
    case True
    then show ?thesis using 1 by (simp add: split_year.simps[of y d])
  next
    case False
    then have "split_year (y + 1) (d - year_days y) = (y', d')" using 1 by (simp add: split_year.simps[of y d])
    with 1 False show ?thesis by (auto simp: year_start_Suc)
  qed
qed

lemma split_month_spec:
  "split_month y m d = (m', d') \<Longrightarrow> m \<le> 11 \<Longrightarrow> days_before_month y m + d < year_days y \<Longrightarrow>
     m' \<le> 11 \<and> d' < month_days y m' \<and> days_before_month y m + d = days_before_month y m' + d'"
proof (induction y m d rule: split_month.induct)
  case (1 y m d)
  show ?case
  proof (cases "11 \<le> m \<or> d < month_days y m")
    case True
    moreover have "m = 11 \<Longrightarrow> d < month_days y m"
      using 1 year_days_months[of y] by (simp add: eval_nat_numeral)
    ultimately show ?thesis using 1 by (auto simp: split_month.simps[of y m d])
  next
    case False
    then have "split_month y (Suc m) (d - month_days y m) = (m', d')" using 1 by (simp add: split_month.simps[of y m d])
    moreover have "days_before_month y (Suc m) + (d - month_days y m) < year_days y" using 1 False by simp
    ultimately have "m' \<le> 11 \<and> d' < month_days y m' \<and>
        days_before_month y (Suc m) + (d - month_days y m) = days_before_month y m' + d'"
      using 1 False by simp
    then show ?thesis using False by simp
  qed
qed

lemma days_before_month_mono: "m < k \<Longrightarrow> days_before_month y m + month_days y m \<le> days_before_month y k"
  by (induction k) (auto simp: less_Suc_eq)

text \<open>The minute at which a month starts, counted from 1970.\<close>

definition month_start :: "int \<Rightarrow> int" where
  "month_start ymon = 1440 * (year_start (ymon div 16) + int (days_before_month (ymon div 16) (nat (ymon mod 16 - 1))))"

definition month_minutes :: "int \<Rightarrow> nat" where
  "month_minutes ymon = 1440 * month_days (ymon div 16) (nat (ymon mod 16 - 1))"

definition month_number :: "int \<Rightarrow> bool" where
  "month_number ymon \<longleftrightarrow> 1970 \<le> ymon div 16 \<and> 1 \<le> ymon mod 16 \<and> ymon mod 16 \<le> 12"

lemma month_number_intro: "1970 \<le> y \<Longrightarrow> m \<le> 11 \<Longrightarrow> month_number (16 * y + (int m + 1))"
  by (simp add: month_number_def)

lemma month_start_mono:
  assumes "month_number a" "month_number b" "a < b"
  shows "month_start a + int (month_minutes a) \<le> month_start b"
proof -
  have ab: "a = 16 * (a div 16) + a mod 16" "b = 16 * (b div 16) + b mod 16" by simp_all
  have y: "a div 16 \<le> b div 16" using assms(3) by (simp add: zdiv_mono1)
  show ?thesis
  proof (cases "a div 16 = b div 16")
    case True
    then have "a mod 16 < b mod 16" using ab assms(3) by linarith
    then have "nat (a mod 16 - 1) < nat (b mod 16 - 1)" using assms by (simp add: month_number_def)
    from days_before_month_mono[OF this, of "b div 16"] True show ?thesis
      by (simp add: month_start_def month_minutes_def)
  next
    case False
    with y have "a div 16 < b div 16" by simp
    then have "year_start (a div 16) + int (year_days (a div 16)) \<le> year_start (b div 16)"
      using assms by (intro year_start_mono) (simp_all add: month_number_def)
    moreover have "days_before_month (a div 16) (nat (a mod 16 - 1)) + month_days (a div 16) (nat (a mod 16 - 1))
        \<le> year_days (a div 16)"
    proof -
      have "nat (a mod 16 - 1) < 12" using assms(1) by (simp add: month_number_def nat_less_iff)
      from days_before_month_mono[OF this, of "a div 16"] show ?thesis by (simp add: year_days_months)
    qed
    ultimately show ?thesis by (simp add: month_start_def month_minutes_def)
  qed
qed

text \<open>The month and the minute of the month of a time.\<close>

definition month_of :: "int \<Rightarrow> int" where
  "month_of t = 16 * (tm_year (gmtime t) + 1900) + (tm_mon (gmtime t) + 1)"

definition minute_of :: "int \<Rightarrow> nat" where
  "minute_of t = nat (tm_min (gmtime t) + (tm_hour (gmtime t) + (tm_mday (gmtime t) - 1) * 24) * 60)"

definition a_time :: "int \<Rightarrow> bool" where
  "a_time t \<longleftrightarrow> 0 \<le> t \<and> t < time_limit"

lemma a_time_days: "a_time t \<Longrightarrow> t div 86400 mod 146097 = t div 86400 \<and> t div 86400 div 146097 = 0 \<and> 0 \<le> t div 86400"
proof -
  assume "a_time t"
  then have "0 \<le> t div 86400" "t div 86400 < 146097" by (auto simp: a_time_def time_limit_def div_less_iff_less_mult)
  then show ?thesis by simp
qed

lemma gmtime_parts:
  assumes "a_time t"
  obtains y m d where "1970 \<le> y" "m \<le> 11" "d < month_days y m"
    "t div 86400 = year_start y + int (days_before_month y m) + int d"
    "tm_year (gmtime t) = y - 1900" "tm_mon (gmtime t) = int m" "tm_mday (gmtime t) = int d + 1"
    "tm_hour (gmtime t) = t mod 86400 div 3600" "tm_min (gmtime t) = t mod 86400 div 60 mod 60"
proof -
  obtain y r where yr: "split_year 1970 (nat (t div 86400)) = (y, r)" by (cases "split_year 1970 (nat (t div 86400))")
  obtain m d where md: "split_month y 0 r = (m, d)" by (cases "split_month y 0 r")
  have 1: "1970 \<le> y" "r < year_days y" "t div 86400 = year_start y + int r"
    using split_year_spec[OF yr] a_time_days[OF assms] by (auto simp: year_start_def)
  have 2: "m \<le> 11" "d < month_days y m" "r = days_before_month y m + d" using split_month_spec[OF md] 1 by auto
  show ?thesis
    by (rule that[of y m d]) (use 1 2 yr md a_time_days[OF assms] in \<open>simp_all add: gmtime_def Let_def\<close>)
qed

lemma hour_and_minute: "(t::int) mod 86400 div 60 mod 60 + (t mod 86400 div 3600) * 60 = t mod 86400 div 60"
proof -
  have "t mod 86400 div 3600 = t mod 86400 div 60 div 60" by (simp add: zdiv_zmult2_eq[symmetric])
  then show ?thesis by simp
qed

lemma minute_bounds: "0 \<le> (t::int) mod 86400 div 60" "t mod 86400 div 60 < 1440"
  by (simp_all add: pos_imp_zdiv_nonneg_iff div_less_iff_less_mult)

lemma minute_split: "(t::int) div 60 = 1440 * (t div 86400) + t mod 86400 div 60"
proof -
  have "t = t mod 86400 + (1440 * (t div 86400)) * 60" using mod_mult_div_eq[of t 86400] by simp
  then have "t div 60 = (t mod 86400 + (1440 * (t div 86400)) * 60) div 60" by simp
  also have "\<dots> = 1440 * (t div 86400) + t mod 86400 div 60" by (rule div_mult_self1) simp
  finally show ?thesis .
qed

lemma month_of_time:
  assumes "a_time t"
  shows "month_number (month_of t)" "minute_of t < month_minutes (month_of t)"
    "t div 60 = month_start (month_of t) + int (minute_of t)"
proof -
  from assms obtain y m d where *: "1970 \<le> y" "m \<le> 11" "d < month_days y m"
    "t div 86400 = year_start y + int (days_before_month y m) + int d"
    "tm_year (gmtime t) = y - 1900" "tm_mon (gmtime t) = int m" "tm_mday (gmtime t) = int d + 1"
    "tm_hour (gmtime t) = t mod 86400 div 3600" "tm_min (gmtime t) = t mod 86400 div 60 mod 60"
    by (rule gmtime_parts)
  have ym: "month_of t = 16 * y + (int m + 1)" by (simp add: month_of_def *)
  have parts: "month_of t div 16 = y" "nat (month_of t mod 16 - 1) = m" using *(2) by (simp_all add: ym)
  show "month_number (month_of t)" using * by (simp add: ym month_number_intro)
  have mo: "int (minute_of t) = int d * 1440 + t mod 86400 div 60"
    using minute_bounds[of t] hour_and_minute[of t] by (simp add: minute_of_def * algebra_simps)
  show "minute_of t < month_minutes (month_of t)"
    using mo minute_bounds[of t] *(3) by (simp add: month_minutes_def parts)
  show "t div 60 = month_start (month_of t) + int (minute_of t)"
    using minute_split[of t] mo *(4) by (simp add: month_start_def parts)
qed

lemma time_order:
  assumes "a_time s" "a_time t"
  shows "s div 60 \<le> t div 60 \<longleftrightarrow> month_of s < month_of t \<or> (month_of s = month_of t \<and> minute_of s \<le> minute_of t)"
proof -
  note S = month_of_time[OF assms(1)] and T = month_of_time[OF assms(2)]
  consider "month_of s < month_of t" | "month_of s = month_of t" | "month_of t < month_of s" by linarith
  then show ?thesis
  proof cases
    case 1
    with month_start_mono[OF S(1) T(1) 1] S T show ?thesis by linarith
  next
    case 2
    with S T show ?thesis by simp
  next
    case 3
    with month_start_mono[OF T(1) S(1) 3] S T show ?thesis by linarith
  qed
qed

section \<open>Lengths of months\<close>

lemma max_mdays_nth: "m \<le> 11 \<Longrightarrow> m \<noteq> 1 \<Longrightarrow> rd max_mdays m = Ok (int (month_days y m))"
proof -
  assume "m \<le> 11" "m \<noteq> 1"
  then have "m \<in> {0, 2, 3, 4, 5, 6, 7, 8, 9, 10, 11}" by (auto simp: le_Suc_eq eval_nat_numeral)
  then show ?thesis by (auto simp: rd_def max_mdays_def month_days_def)
qed

definition counted_days :: "int \<Rightarrow> nat \<Rightarrow> nat" where
  "counted_days y m = (if m = 1 \<and> y mod 4 = 0 then 29 else month_days y m)"

lemma century_mod: "(y::int) mod 100 mod 4 = y mod 4"
  by (simp add: mod_mod_cancel)

lemma days_in_month [simp]: "m \<le> 11 \<Longrightarrow> mapistore_days_in_month (int m) y = Ok (int (counted_days y m))"
proof (cases "m = 1")
  case True
  have "y mod 100 = 0 \<Longrightarrow> y mod 4 = 0" using century_mod[of y] by simp
  then show ?thesis using True
    by (auto simp: mapistore_days_in_month_def counted_days_def century_mod rd_def max_mdays_def month_days_def leap_def)
next
  case False
  moreover assume "m \<le> 11"
  ultimately show ?thesis by (simp add: mapistore_days_in_month_def counted_days_def max_mdays_nth[of m y])
qed

lemma mins_in_ymon:
  assumes "month_number a"
  obtains k where "mapistore_mins_in_ymon a = Ok k" "month_minutes a \<le> k" "k \<le> max_mins_per_month"
proof -
  define m where "m = nat (a mod 16 - 1)"
  have m: "a mod 16 - 1 = int m" "m \<le> 11" using assms by (simp_all add: m_def month_number_def nat_le_iff)
  have le: "month_days (a div 16) m \<le> counted_days (a div 16) m" "counted_days (a div 16) m \<le> 31"
    by (simp_all add: counted_days_def month_days_def)
  have "mapistore_mins_in_ymon a = Ok (1440 * counted_days (a div 16) m)"
    unfolding mapistore_mins_in_ymon_def m(1) days_in_month[OF m(2)] by (simp add: nat_mult_distrib)
  then show ?thesis
    by (rule that) (use le in \<open>simp_all add: month_minutes_def m_def[symmetric] max_mins_per_month_def\<close>)
qed

section \<open>Runs\<close>

fun runs :: "u16 list \<Rightarrow> nat set" where
  "runs (a # b # rs) = {unat a..unat b} \<union> runs rs"
| "runs _ = {}"

definition marked :: "u8 list \<Rightarrow> nat \<Rightarrow> nat set" where
  "marked ms i = {t. i \<le> t \<and> t < i + length ms \<and> ms ! (t - i) \<noteq> 0}"

lemma marked_Nil [simp]: "marked [] i = {}"
  by (simp add: marked_def)

lemma marked_Cons [simp]: "marked (m # ms) i = (if m = 0 then {} else {i}) \<union> marked ms (Suc i)"
proof -
  have "t \<in> marked (m # ms) i \<longleftrightarrow> t \<in> (if m = 0 then {} else {i}) \<union> marked ms (Suc i)" for t
  proof (cases "t = i")
    case True
    then show ?thesis by (simp add: marked_def)
  next
    case False
    then have "i \<le> t \<Longrightarrow> t - i = Suc (t - Suc i)" by simp
    then show ?thesis using False by (auto simp: marked_def)
  qed
  then show ?thesis by blast
qed

lemma two_bytes: "unat (le_value (le_bytes 2 (v :: u16)) :: u32) = unat v"
proof -
  have "(le_value (le_bytes 2 v) :: u32) = ucast v"
  proof (rule bit_word_eqI)
    fix k assume "k < LENGTH(32)"
    show "bit (le_value (le_bytes 2 v) :: u32) k = bit (ucast v :: u32) k"
    proof (cases "k div 8 < 2")
      case True
      then show ?thesis using \<open>k < LENGTH(32)\<close> by (simp add: bit_le_value nth_le_bytes bit_simps)
    next
      case False
      then have "\<not> bit v k" by (auto dest: bit_imp_le_length)
      then show ?thesis using False by (simp add: bit_le_value bit_simps)
    qed
  qed
  then show ?thesis by (simp add: unsigned_ucast_eq take_bit_nat_eq_self order_less_trans[OF unsigned_less])
qed

lemma le_bytes_two: "le_bytes 2 (v :: u16) = [ucast v, ucast (drop_bit 8 v)]"
  by (simp add: numeral_2_eq_2)

lemma conflict_scan_runs: "even (length rs) \<Longrightarrow> conflict_scan (concat (map (le_bytes 2) rs)) t \<longleftrightarrow> t \<in> runs rs"
proof (induction rs rule: runs.induct)
  case (1 a b rs)
  then show ?case using two_bytes[of a] two_bytes[of b] by (simp add: le_bytes_two)
qed simp_all

lemma unat_small16: "k < 65536 \<Longrightarrow> unat (of_nat k :: u16) = k"
  by (simp add: unat_of_nat)

lemma compile_loop_runs:
  "i + length ms = max_mins_per_month \<Longrightarrow>
     even (length (compile_loop ms i False)) \<and> runs (compile_loop ms i False) = marked ms i"
  "i + length ms = max_mins_per_month \<Longrightarrow> a < i \<Longrightarrow>
     odd (length (compile_loop ms i True)) \<and> runs (of_nat a # compile_loop ms i True) = {a..<i} \<union> marked ms i"
proof (induction ms arbitrary: i a)
  case Nil
  {
    case 1
    then show ?case by simp
  next
    case 2
    then show ?case by (auto simp: max_mins_per_month_def unat_of_nat)
  }
next
  case (Cons m ms)
  {
    case 1
    then have len: "Suc i + length ms = max_mins_per_month" by simp
    show ?case using Cons.IH(1)[OF len] Cons.IH(2)[OF len, of i] by auto
  next
    case 2
    then have len: "Suc i + length ms = max_mins_per_month" by simp
    have "a < 65536" "i - Suc 0 < 65536" using 2 by (auto simp: max_mins_per_month_def)
    note small = this[THEN unat_small16]
    have step: "{a..<Suc i} = insert i {a..<i}" "{a..i - Suc 0} = {a..<i}" using 2 by auto
    show ?case using Cons.IH(1)[OF len] Cons.IH(2)[OF len, of a] 2 small step
      by (cases "m = 0") (simp_all del: of_nat_diff)
  }
qed

lemma compile_fbarray:
  assumes "length xs = max_mins_per_month"
  obtains b where "mapistore_freebusy_compile_fbarray xs = Ok b" "length b mod 4 = 0" "\<And>t. conflict_scan b t \<longleftrightarrow> t \<in> marked xs 0"
proof -
  obtain m ms where xs: "xs = m # ms" using assms by (cases xs) (auto simp: max_mins_per_month_def)
  have len: "1 + length ms = max_mins_per_month" using assms xs by simp
  define rs where "rs = (if m \<noteq> 0 then [0] else []) @ compile_loop ms 1 (m \<noteq> 0)"
  have "even (length rs) \<and> runs rs = marked xs 0"
  proof (cases "m = 0")
    case True
    then show ?thesis using compile_loop_runs(1)[OF len] by (simp add: rs_def xs)
  next
    case False
    then show ?thesis using compile_loop_runs(2)[OF len, of 0] by (simp add: rs_def xs atLeast0LessThan lessThan_Suc)
  qed
  then have rs: "even (length rs)" "runs rs = marked xs 0" by auto
  have "length (concat (map (le_bytes 2) rs)) = 2 * length rs" by (induction rs) simp_all
  then have four: "length (concat (map (le_bytes 2) rs)) mod 4 = 0" using rs(1) by (auto elim!: evenE)
  have "mapistore_freebusy_compile_fbarray xs = Ok (concat (map (le_bytes 2) rs))"
    using len by (simp add: mapistore_freebusy_compile_fbarray_def xs rs_def Let_def)
  then show ?thesis by (rule that[OF _ four]) (simp add: conflict_scan_runs[OF rs(1)] rs(2))
qed

section \<open>The minutes of an event\<close>

lemma filetime_value_filetime [simp]: "filetime_value (filetime n) = n"
  by (rule bit_word_eqI) (auto simp: filetime_value_def filetime_def bit_simps not_less)

lemma convert_filetime:
  "time_laws L \<Longrightarrow> a_time t \<Longrightarrow>
     mapistore_freebusy_convert_filetime L (filetime (nt_of_unix t)) = (month_of t, minute_of t)"
  by (simp add: mapistore_freebusy_convert_filetime_def time_laws_def a_time_def month_of_def minute_of_def Let_def)

text \<open>What is needed of the published months, and the minutes of real days that an array marks.\<close>

definition months_ok :: "int list \<Rightarrow> bool" where
  "months_ok months \<longleftrightarrow> sorted_wrt (<) months \<and> (\<forall>m\<in>set months. month_number m)"

definition fb_shape :: "int list \<Rightarrow> u8 list list \<Rightarrow> bool" where
  "fb_shape months arr \<longleftrightarrow> length arr = length months \<and> (\<forall>xs\<in>set arr. length xs = max_mins_per_month)"

definition minutes_set :: "int list \<Rightarrow> u8 list list \<Rightarrow> (nat \<times> nat) set" where
  "minutes_set months arr = {(j, t). j < length months \<and> t < month_minutes (months ! j) \<and> arr ! j ! t \<noteq> 0}"

lemma month_minutes_le: "month_minutes a \<le> max_mins_per_month"
  using month_days_le[of "a div 16" "nat (a mod 16 - 1)"] by (simp add: month_minutes_def max_mins_per_month_def)

lemma mark_minutes:
  assumes "fb_shape months arr" "i < length months" "a \<le> b" "b \<le> max_mins_per_month"
  obtains arr' where "mark_minutes arr i a b = Ok arr'" "fb_shape months arr'"
    "minutes_set months arr' = minutes_set months arr \<union> {(j, t). j = i \<and> a \<le> t \<and> t < b \<and> t < month_minutes (months ! i)}"
proof -
  let ?xs = "arr ! i" let ?ys = "take a ?xs @ replicate (b - a) 1 @ drop b ?xs"
  have len: "length ?xs = max_mins_per_month" and i: "i < length arr" using assms by (auto simp: fb_shape_def)
  define ys where "ys = ?ys"
  have "ys ! t = 0 \<longleftrightarrow> ?xs ! t = 0 \<and> \<not> (a \<le> t \<and> t < b)" if "t < month_minutes m" for t m
    using order_less_le_trans[OF that month_minutes_le] assms len by (auto simp: ys_def nth_append nth_replicate)
  then have "minutes_set months (arr[i := ys]) =
      minutes_set months arr \<union> {(j, t). j = i \<and> a \<le> t \<and> t < b \<and> t < month_minutes (months ! i)}"
    using assms(2) i by (auto simp: minutes_set_def nth_list_update split: if_splits)
  note minutes = this
  have shape: "fb_shape months (arr[i := ys])"
    using assms len by (auto simp: fb_shape_def ys_def dest!: set_update_subset_insert[THEN subsetD])
  have "mark_minutes arr i a b = Ok (arr[i := ys])"
    using assms i len by (simp add: mark_minutes_def rd_def ys_def)
  then show ?thesis by (rule that[OF _ shape minutes])
qed

lemma mark_months:
  assumes "months_ok months" "fb_shape months arr" "e \<le> length months"
  shows "\<exists>arr'. mark_months arr months i e = Ok arr' \<and> fb_shape months arr' \<and>
    minutes_set months arr' = minutes_set months arr \<union> {(j, t). i \<le> j \<and> j < e \<and> t < month_minutes (months ! j)}"
  using assms
proof (induction "e - i" arbitrary: i arr)
  case 0
  then show ?case by (subst mark_months.simps) auto
next
  case (Suc n)
  then have i: "i < e" "i < length months" by auto
  then have "month_number (months ! i)" using Suc.prems by (simp add: months_ok_def)
  then obtain k where k: "mapistore_mins_in_ymon (months ! i) = Ok k" "month_minutes (months ! i) \<le> k" "k \<le> max_mins_per_month"
    by (rule mins_in_ymon)
  obtain arr1 where 1: "mark_minutes arr i 0 k = Ok arr1" "fb_shape months arr1"
    "minutes_set months arr1 = minutes_set months arr \<union> {(j, t). j = i \<and> 0 \<le> t \<and> t < k \<and> t < month_minutes (months ! i)}"
    using mark_minutes[OF Suc.prems(2) i(2) _ k(3), of 0] by auto
  have "n = e - Suc i" using Suc.hyps(2) by simp
  from Suc.hyps(1)[OF this Suc.prems(1) 1(2) Suc.prems(3)] obtain arr2 where 2:
    "mark_months arr1 months (Suc i) e = Ok arr2" "fb_shape months arr2"
    "minutes_set months arr2 = minutes_set months arr1 \<union> {(j, t). Suc i \<le> j \<and> j < e \<and> t < month_minutes (months ! j)}"
    by auto
  have "mark_months arr months i e = Ok arr2"
    using i k 1 2 by (subst mark_months.simps) (simp add: rd_def)
  moreover have "minutes_set months arr2 =
      minutes_set months arr \<union> {(j, t). i \<le> j \<and> j < e \<and> t < month_minutes (months ! j)}"
    unfolding 2(3) 1(3) using i k(2) by (auto simp: Suc_le_eq le_less)
  ultimately show ?case using 2(2) by blast
qed

text \<open>The number of months as the functions get it.\<close>

abbreviation months_nbr :: "int list \<Rightarrow> u16" where
  "months_nbr months \<equiv> of_nat (length months)"

lemma unat_months_nbr: "length months \<le> 24 \<Longrightarrow> unat (months_nbr months) = length months"
  by (simp add: unat_of_nat)

lemma month_index_nth:
  assumes "distinct months" "i < length months" "length months \<le> 24"
  shows "j \<le> i \<Longrightarrow> month_index (months ! i) months (months_nbr months) j = Ok i"
proof (induction "i - j" arbitrary: j)
  case 0
  then show ?case using assms by (subst month_index.simps) (simp add: unat_months_nbr rd_def)
next
  case (Suc n)
  then have "j < i" "month_index (months ! i) months (months_nbr months) (Suc j) = Ok i" by simp_all
  then show ?case using assms by (subst month_index.simps) (simp add: unat_months_nbr rd_def nth_eq_iff_index_eq)
qed

lemma find_month_range:
  assumes "months_ok months" "length months \<le> 24" "i < length months"
  shows "mapistore_freebusy_find_month_range (months ! i) months (months_nbr months) = Ok (i, Some False)"
proof -
  have sorted: "sorted_wrt (<) months" using assms by (simp add: months_ok_def)
  then have le: "months ! j \<le> months ! k" if "j \<le> k" "k < length months" for j k
    using that by (auto simp: sorted_wrt_iff_nth_less le_less)
  have "distinct months" using sorted by (simp add: strict_sorted_iff)
  note index = month_index_nth[OF this assms(3,2), of 0]
  have "0 < months_nbr months" using assms(2,3) unat_months_nbr[OF assms(2)] by (auto simp: word_less_nat_alt)
  moreover have "months ! 0 \<le> months ! i" "months ! i \<le> months ! (length months - 1)" using le assms(3) by simp_all
  ultimately show ?thesis
    using index assms(2,3)
    by (auto simp: mapistore_freebusy_find_month_range_def rd_def unat_months_nbr)
qed

text \<open>\<open>covers s e u\<close>: the event from \<open>s\<close> to \<open>e\<close> covers the minute of \<open>u\<close>.\<close>

definition covers :: "int \<Rightarrow> int \<Rightarrow> int \<Rightarrow> bool" where
  "covers s e u \<longleftrightarrow> s div 60 \<le> u div 60 \<and> u div 60 < e div 60"

definition event_ok :: "int list \<Rightarrow> int \<Rightarrow> int \<Rightarrow> bool" where
  "event_ok months s e \<longleftrightarrow> a_time s \<and> a_time e \<and> s \<le> e \<and> month_of s \<in> set months \<and> month_of e \<in> set months"

definition event_set :: "int list \<Rightarrow> int \<Rightarrow> int \<Rightarrow> (nat \<times> nat) set" where
  "event_set months s e =
     {(j, t). j < length months \<and> t < month_minutes (months ! j) \<and>
        (month_of s < months ! j \<or> (month_of s = months ! j \<and> minute_of s \<le> t)) \<and>
        (months ! j < month_of e \<or> (months ! j = month_of e \<and> t < minute_of e))}"

lemma event_set_covers:
  assumes "event_ok months s e" "a_time u" "j < length months" "months ! j = month_of u"
  shows "(j, minute_of u) \<in> event_set months s e \<longleftrightarrow> covers s e u"
proof -
  have se: "a_time s" "a_time e" using assms(1) by (simp_all add: event_ok_def)
  have "u div 60 < e div 60 \<longleftrightarrow> month_of u < month_of e \<or> (month_of u = month_of e \<and> minute_of u < minute_of e)"
    using time_order[OF se(2) assms(2)] by linarith
  then show ?thesis
    using time_order[OF se(1) assms(2)] month_of_time(2)[OF assms(2)] assms(3)
    by (simp add: event_set_def covers_def assms(4))
qed

lemma fill_fbarray:
  assumes "time_laws L" "months_ok months" "fb_shape months arr" "event_ok months s e" "length months \<le> 24"
  obtains arr' where
    "mapistore_freebusy_fill_fbarray L arr months (months_nbr months) (filetime (nt_of_unix s)) (filetime (nt_of_unix e)) = Ok arr'"
    "fb_shape months arr'" "minutes_set months arr' = minutes_set months arr \<union> event_set months s e"
proof -
  from assms(4) have se: "a_time s" "a_time e" "s \<le> e" by (simp_all add: event_ok_def)
  obtain si where si: "si < length months" "months ! si = month_of s" using assms(4) by (auto simp: event_ok_def in_set_conv_nth)
  obtain ei where ei: "ei < length months" "months ! ei = month_of e" using assms(4) by (auto simp: event_ok_def in_set_conv_nth)
  have less: "months ! j < months ! k \<longleftrightarrow> j < k" "months ! j = months ! k \<longleftrightarrow> j = k" if "j < length months" "k < length months" for j k
    using that assms(2) by (auto simp: months_ok_def sorted_wrt_iff_nth_less) (metis less_asym' linorder_neqE_nat)+
  have fr: "mapistore_freebusy_find_month_range (month_of s) months (months_nbr months) = Ok (si, Some False)"
    "mapistore_freebusy_find_month_range (month_of e) months (months_nbr months) = Ok (ei, Some False)"
    using find_month_range[OF assms(2,5) si(1)] find_month_range[OF assms(2,5) ei(1)] si(2) ei(2) by simp_all
  note S = month_of_time[OF se(1)] and E = month_of_time[OF se(2)]
  have order: "si < ei \<or> (si = ei \<and> minute_of s \<le> minute_of e)"
    using time_order[OF se(1,2)] se(3) less[OF si(1) ei(1)] si ei by (auto simp: zdiv_mono1)
  have set: "event_set months s e =
      {(j, t). j < length months \<and> t < month_minutes (months ! j) \<and>
        (si < j \<or> (si = j \<and> minute_of s \<le> t)) \<and> (j < ei \<or> (j = ei \<and> t < minute_of e))}"
    unfolding event_set_def si(2)[symmetric] ei(2)[symmetric] by (auto simp: less si(1) ei(1))
  note conv = convert_filetime[OF assms(1) se(1)] convert_filetime[OF assms(1) se(2)]
  show ?thesis
  proof (cases "si < ei")
    case True
    obtain arr1 where 1: "mark_months arr months (Suc si) ei = Ok arr1" "fb_shape months arr1"
      "minutes_set months arr1 = minutes_set months arr \<union> {(j, t). Suc si \<le> j \<and> j < ei \<and> t < month_minutes (months ! j)}"
      using mark_months[OF assms(2,3), of ei "Suc si"] ei by auto
    have "minute_of e \<le> max_mins_per_month" using E(2) month_minutes_le[of "month_of e"] by simp
    then obtain arr2 where 2: "mark_minutes arr1 ei 0 (minute_of e) = Ok arr2" "fb_shape months arr2"
      "minutes_set months arr2 = minutes_set months arr1 \<union>
         {(j, t). j = ei \<and> 0 \<le> t \<and> t < minute_of e \<and> t < month_minutes (months ! ei)}"
      using mark_minutes[OF 1(2) ei(1), of 0 "minute_of e"] by auto
    obtain k where k: "mapistore_mins_in_ymon (month_of s) = Ok k" "month_minutes (month_of s) \<le> k" "k \<le> max_mins_per_month"
      using mins_in_ymon[OF S(1)] by auto
    have "minute_of s \<le> k" using S(2) k(2) by simp
    from mark_minutes[OF 2(2) si(1) this k(3)] obtain arr3 where 3:
      "mark_minutes arr2 si (minute_of s) k = Ok arr3" "fb_shape months arr3"
      "minutes_set months arr3 = minutes_set months arr2 \<union>
         {(j, t). j = si \<and> minute_of s \<le> t \<and> t < k \<and> t < month_minutes (months ! si)}" by auto
    have "minutes_set months arr3 = minutes_set months arr \<union> event_set months s e"
      unfolding 3(3) 2(3) 1(3) set using True si ei k(2) by auto
    moreover have "mapistore_freebusy_fill_fbarray L arr months (months_nbr months) (filetime (nt_of_unix s)) (filetime (nt_of_unix e)) = Ok arr3"
      using True 1 2 3 k by (simp add: mapistore_freebusy_fill_fbarray_def conv fr set_flag_def Let_def)
    ultimately show ?thesis using that 3(2) by blast
  next
    case False
    with order have eq: "si = ei" "minute_of s \<le> minute_of e" by auto
    have "minute_of e \<le> max_mins_per_month" using E(2) month_minutes_le[of "month_of e"] by simp
    from mark_minutes[OF assms(3) si(1) eq(2) this] obtain arr1 where 1:
      "mark_minutes arr si (minute_of s) (minute_of e) = Ok arr1" "fb_shape months arr1"
      "minutes_set months arr1 = minutes_set months arr \<union>
         {(j, t). j = si \<and> minute_of s \<le> t \<and> t < minute_of e \<and> t < month_minutes (months ! si)}" by auto
    have "minutes_set months arr1 = minutes_set months arr \<union> event_set months s e"
      unfolding 1(3) set using eq(1) si by auto
    moreover have "mapistore_freebusy_fill_fbarray L arr months (months_nbr months) (filetime (nt_of_unix s)) (filetime (nt_of_unix e)) = Ok arr1"
      using False 1 by (simp add: mapistore_freebusy_fill_fbarray_def conv fr set_flag_def Let_def)
    ultimately show ?thesis using that 1(2) by blast
  qed
qed

section \<open>The published months\<close>

definition year_of :: "int \<Rightarrow> int" where
  "year_of t = tm_year (gmtime t) + 1900"

lemma year_month:
  assumes "a_time t"
  shows "month_of t div 16 = year_of t" "1 \<le> month_of t mod 16" "month_of t mod 16 \<le> 12"
    "tm_mon (gmtime t) = month_of t mod 16 - 1"
proof -
  from assms obtain y m d where *: "1970 \<le> y" "m \<le> 11" "d < month_days y m"
    "t div 86400 = year_start y + int (days_before_month y m) + int d"
    "tm_year (gmtime t) = y - 1900" "tm_mon (gmtime t) = int m" "tm_mday (gmtime t) = int d + 1"
    "tm_hour (gmtime t) = t mod 86400 div 3600" "tm_min (gmtime t) = t mod 86400 div 60 mod 60"
    by (rule gmtime_parts)
  have "month_of t = 16 * y + (int m + 1)" by (simp add: month_of_def *)
  moreover have "(int m + 1) div 16 = 0" "(int m + 1) mod 16 = int m + 1" using *(2) by simp_all
  ultimately have "month_of t div 16 = y" "month_of t mod 16 = int m + 1" by simp_all
  with *(2,5,6) show "month_of t div 16 = year_of t" "1 \<le> month_of t mod 16" "month_of t mod 16 \<le> 12"
    "tm_mon (gmtime t) = month_of t mod 16 - 1"
    by (simp_all add: year_of_def)
qed

lemma sorted_months: "sorted_wrt (<) (map (\<lambda>i. a + int i) [0..<n])"
  by (induction n) (auto simp: sorted_wrt_append)

lemma month_number_iff: "1970 \<le> y \<Longrightarrow> 0 \<le> k \<Longrightarrow> k < 16 \<Longrightarrow> month_number (16 * y + k) \<longleftrightarrow> 1 \<le> k \<and> k \<le> 12"
  by (simp add: month_number_def)

lemma month_number_split: "month_number m \<Longrightarrow> \<exists>y k. m = 16 * y + k \<and> 1970 \<le> y \<and> 1 \<le> k \<and> k \<le> 12"
  by (intro exI[of _ "m div 16"] exI[of _ "m mod 16"]) (simp add: month_number_def)

lemma set_months: "set (map (\<lambda>i. a + int i) [0..<nat n]) = {a..<a + n}"
proof -
  have "x \<in> set (map (\<lambda>i. a + int i) [0..<nat n])" if "a \<le> x" "x < a + n" for x
    using that by (auto simp: image_iff intro!: bexI[of _ "nat (x - a)"])
  then show ?thesis by auto
qed

definition month_list :: "int \<Rightarrow> int \<Rightarrow> int list" where
  "month_list a b = snd (published_months (gmtime a) (gmtime b))"

lemma month_list:
  assumes "a_time a" "a_time b" "a \<le> b" "year_of b \<le> year_of a + 1"
  shows "months_ok (month_list a b)" "set (month_list a b) = {m. month_number m \<and> month_of a \<le> m \<and> m \<le> month_of b}"
    "fst (published_months (gmtime a) (gmtime b)) = int (length (month_list a b))" "length (month_list a b) \<le> 24"
proof -
  define y where "y = year_of a"
  define ma where "ma = month_of a mod 16"
  define mb where "mb = month_of b mod 16"
  have A: "month_of a = 16 * y + ma" "1 \<le> ma" "ma \<le> 12" "tm_mon (gmtime a) = ma - 1" "tm_year (gmtime a) + 1900 = y"
    using year_month[OF assms(1)] mult_div_mod_eq[of 16 "month_of a"] by (auto simp: y_def ma_def year_of_def)
  have B: "month_of b = 16 * year_of b + mb" "1 \<le> mb" "mb \<le> 12" "tm_mon (gmtime b) = mb - 1" "tm_year (gmtime b) + 1900 = year_of b"
    using year_month[OF assms(2)] mult_div_mod_eq[of 16 "month_of b"] by (auto simp: mb_def year_of_def)
  have le: "month_of a \<le> month_of b" using time_order[OF assms(1,2)] assms(3) by (auto simp: zdiv_mono1)
  have y: "1970 \<le> y" using month_of_time(1)[OF assms(1)] year_month(1)[OF assms(1)] by (simp add: month_number_def y_def)
  show "months_ok (month_list a b)" "set (month_list a b) = {m. month_number m \<and> month_of a \<le> m \<and> m \<le> month_of b}"
    "fst (published_months (gmtime a) (gmtime b)) = int (length (month_list a b))" "length (month_list a b) \<le> 24"
  proof -
    consider (same) "year_of b = y" "ma \<le> mb" | (following) "year_of b = y + 1"
      using assms(4) le A(1-3) B(1-3) unfolding y_def[symmetric] by linarith
    then have "sorted_wrt (<) (month_list a b) \<and> set (month_list a b) = {m. month_number m \<and> month_of a \<le> m \<and> m \<le> month_of b} \<and>
      fst (published_months (gmtime a) (gmtime b)) = int (length (month_list a b)) \<and> length (month_list a b) \<le> 24"
    proof cases
      case same
      have list: "month_list a b = map (\<lambda>i. 16 * y + ma + int i) [0..<nat (mb - ma + 1)]"
        using A B same by (simp add: month_list_def published_months_def)
      have "{16 * y + ma..<16 * y + ma + (mb - ma + 1)} = {m. month_number m \<and> month_of a \<le> m \<and> m \<le> month_of b}"
      proof (intro set_eqI iffI)
        fix m assume "m \<in> {16 * y + ma..<16 * y + ma + (mb - ma + 1)}"
        then show "m \<in> {m. month_number m \<and> month_of a \<le> m \<and> m \<le> month_of b}"
          using month_number_iff[OF y, of "m - 16 * y"] A B same by simp
      qed (use A B same in auto)
      then show ?thesis using A B same unfolding list
        by (simp add: set_months[simplified] sorted_months published_months_def)
    next
      case following
      have list: "month_list a b = map (\<lambda>i. 16 * y + ma + int i) [0..<nat (13 - ma)] @ map (\<lambda>i. 16 * y + 17 + int i) [0..<nat mb]"
      proof -
        have "tm_year (gmtime b) = tm_year (gmtime a) + 1" using A(5) B(5) following by simp
        then show ?thesis using A(5) by (simp add: month_list_def published_months_def A(4) B(4))
      qed
      have "{16 * y + ma..<16 * y + ma + (13 - ma)} \<union> {16 * y + 17..<16 * y + 17 + mb} =
          {m. month_number m \<and> month_of a \<le> m \<and> m \<le> month_of b}"
      proof (intro set_eqI iffI)
        fix m assume "m \<in> {16 * y + ma..<16 * y + ma + (13 - ma)} \<union> {16 * y + 17..<16 * y + 17 + mb}"
        then show "m \<in> {m. month_number m \<and> month_of a \<le> m \<and> m \<le> month_of b}"
          using month_number_iff[OF y, of "m - 16 * y"] month_number_iff[of "y + 1" "m - 16 * (y + 1)"] y A B following by auto
      next
        fix m assume "m \<in> {m. month_number m \<and> month_of a \<le> m \<and> m \<le> month_of b}"
        then show "m \<in> {16 * y + ma..<16 * y + ma + (13 - ma)} \<union> {16 * y + 17..<16 * y + 17 + mb}"
        proof -
          obtain z k where z: "m = 16 * z + k" "1 \<le> k" "k \<le> 12" "16 * y + ma \<le> m" "m \<le> 16 * y + 16 + mb"
            using month_number_split[of m] \<open>m \<in> _\<close> A(1) B(1) following by auto
          then have "y \<le> z" "z \<le> y + 1" using A(2,3) B(2,3) by linarith+
          then consider "z = y" | "z = y + 1" by linarith
          then show ?thesis using z by cases auto
        qed
      qed
      then show ?thesis using A B following unfolding list
        by (simp add: set_months[simplified] sorted_months published_months_def sorted_wrt_append)
    qed
    then show "months_ok (month_list a b)" "set (month_list a b) = {m. month_number m \<and> month_of a \<le> m \<and> m \<le> month_of b}"
      "fst (published_months (gmtime a) (gmtime b)) = int (length (month_list a b))" "length (month_list a b) \<le> 24"
      by (auto simp: months_ok_def)
  qed
qed

section \<open>All events\<close>

type_synonym event = "int \<times> int \<times> u32"

definition row_of :: "event \<Rightarrow> event_row" where
  "row_of ev = (case ev of (s, e, status) \<Rightarrow> (Some (filetime (nt_of_unix s)), Some (filetime (nt_of_unix e)), Some status))"

definition events_set :: "int list \<Rightarrow> event list \<Rightarrow> u32 \<Rightarrow> (nat \<times> nat) set" where
  "events_set months evs status = (\<Union>(s, e, st) \<in> set evs. if st = status then event_set months s e else {})"

definition arrays_shape :: "int list \<Rightarrow> fb_arrays \<Rightarrow> bool" where
  "arrays_shape months A \<longleftrightarrow>
     fb_shape months (free_array A) \<and> fb_shape months (tentative_array A) \<and>
     fb_shape months (busy_array A) \<and> fb_shape months (oof_array A)"

lemma event_row_step:
  assumes "time_laws (fb_time E)" "months_ok months" "arrays_shape months A" "event_ok months s e" "length months \<le> 24"
  obtains A' where "event_minutes E months (months_nbr months) (row_of (s, e, st)) A = Ok A'" "arrays_shape months A'"
    "minutes_set months (busy_array A') = minutes_set months (busy_array A) \<union> (if st = olBusy then event_set months s e else {})"
    "minutes_set months (oof_array A') = minutes_set months (oof_array A) \<union> (if st = olOutOfOffice then event_set months s e else {})"
proof -
  note fill = fill_fbarray[OF assms(1,2) _ assms(4,5)]
  have shapes: "fb_shape months (free_array A)" "fb_shape months (tentative_array A)"
    "fb_shape months (busy_array A)" "fb_shape months (oof_array A)" using assms(3) by (simp_all add: arrays_shape_def)
  note codes = olFree_def olTentative_def olBusy_def olOutOfOffice_def
  consider "st = olFree" | "st = olTentative" | "st = olBusy" | "st = olOutOfOffice"
    | "st \<noteq> olFree" "st \<noteq> olTentative" "st \<noteq> olBusy" "st \<noteq> olOutOfOffice" by blast
  then show ?thesis
  proof cases
    case 1
    from fill[OF shapes(1)] obtain x where "mapistore_freebusy_fill_fbarray (fb_time E) (free_array A) months (months_nbr months)
      (filetime (nt_of_unix s)) (filetime (nt_of_unix e)) = Ok x" "fb_shape months x" by metis
    with 1 show ?thesis using shapes
      by (intro that[of "A\<lparr>free_array := x\<rparr>"]) (simp_all add: event_minutes_def row_of_def arrays_shape_def codes)
  next
    case 2
    from fill[OF shapes(2)] obtain x where "mapistore_freebusy_fill_fbarray (fb_time E) (tentative_array A) months (months_nbr months)
      (filetime (nt_of_unix s)) (filetime (nt_of_unix e)) = Ok x" "fb_shape months x" by metis
    with 2 show ?thesis using shapes
      by (intro that[of "A\<lparr>tentative_array := x\<rparr>"]) (simp_all add: event_minutes_def row_of_def arrays_shape_def codes)
  next
    case 3
    from fill[OF shapes(3)] obtain x where "mapistore_freebusy_fill_fbarray (fb_time E) (busy_array A) months (months_nbr months)
      (filetime (nt_of_unix s)) (filetime (nt_of_unix e)) = Ok x" "fb_shape months x"
      "minutes_set months x = minutes_set months (busy_array A) \<union> event_set months s e" by metis
    with 3 show ?thesis using shapes
      by (intro that[of "A\<lparr>busy_array := x\<rparr>"]) (simp_all add: event_minutes_def row_of_def arrays_shape_def codes)
  next
    case 4
    from fill[OF shapes(4)] obtain x where "mapistore_freebusy_fill_fbarray (fb_time E) (oof_array A) months (months_nbr months)
      (filetime (nt_of_unix s)) (filetime (nt_of_unix e)) = Ok x" "fb_shape months x"
      "minutes_set months x = minutes_set months (oof_array A) \<union> event_set months s e" by metis
    with 4 show ?thesis using shapes
      by (intro that[of "A\<lparr>oof_array := x\<rparr>"]) (simp_all add: event_minutes_def row_of_def arrays_shape_def codes)
  next
    case 5
    then show ?thesis using assms(3) by (intro that[of A]) (simp_all add: event_minutes_def row_of_def)
  qed
qed

lemma event_rows:
  assumes "time_laws (fb_time E)" "months_ok months" "\<forall>(s, e, st) \<in> set evs. event_ok months s e" "arrays_shape months A" "length months \<le> 24"
  shows "\<exists>A'. event_rows E months (months_nbr months) (map row_of evs) A = Ok A' \<and> arrays_shape months A' \<and>
    minutes_set months (busy_array A') = minutes_set months (busy_array A) \<union> events_set months evs olBusy \<and>
    minutes_set months (oof_array A') = minutes_set months (oof_array A) \<union> events_set months evs olOutOfOffice"
  using assms(3,4)
proof (induction evs arbitrary: A)
  case Nil
  then show ?case by (simp add: events_set_def)
next
  case (Cons ev evs)
  obtain s e st where ev: "ev = (s, e, st)" by (cases ev)
  have "event_ok months s e" using Cons.prems ev by simp
  from event_row_step[OF assms(1,2) Cons.prems(2) this assms(5), of st] obtain A1 where 1:
    "event_minutes E months (months_nbr months) (row_of (s, e, st)) A = Ok A1" "arrays_shape months A1"
    "minutes_set months (busy_array A1) = minutes_set months (busy_array A) \<union> (if st = olBusy then event_set months s e else {})"
    "minutes_set months (oof_array A1) = minutes_set months (oof_array A) \<union> (if st = olOutOfOffice then event_set months s e else {})"
    by metis
  have "\<forall>(s, e, st) \<in> set evs. event_ok months s e" using Cons.prems(1) by simp
  from Cons.IH[OF this 1(2)] obtain A2 where 2: "event_rows E months (months_nbr months) (map row_of evs) A1 = Ok A2" "arrays_shape months A2"
    "minutes_set months (busy_array A2) = minutes_set months (busy_array A1) \<union> events_set months evs olBusy"
    "minutes_set months (oof_array A2) = minutes_set months (oof_array A1) \<union> events_set months evs olOutOfOffice"
    by blast
  show ?case
    by (rule exI[of _ A2]) (use 1 2 ev in \<open>auto simp: events_set_def\<close>)
qed

lemma compile_months:
  "\<forall>xs\<in>set arr. length xs = max_mins_per_month \<Longrightarrow>
     \<exists>bs. compile_months arr = Ok bs \<and> length bs = length arr \<and>
       (\<forall>j<length arr. length (bs ! j) mod 4 = 0 \<and> (\<forall>t. conflict_scan (bs ! j) t \<longleftrightarrow> t \<in> marked (arr ! j) 0))"
proof (induction arr)
  case Nil
  then show ?case by simp
next
  case (Cons x arr)
  then obtain b where b: "mapistore_freebusy_compile_fbarray x = Ok b" "length b mod 4 = 0" "\<And>t. conflict_scan b t \<longleftrightarrow> t \<in> marked x 0"
    using compile_fbarray[of x] by (metis list.set_intros(1))
  from Cons obtain bs where bs: "compile_months arr = Ok bs" "length bs = length arr"
    "\<forall>j<length arr. length (bs ! j) mod 4 = 0 \<and> (\<forall>t. conflict_scan (bs ! j) t \<longleftrightarrow> t \<in> marked (arr ! j) 0)" by auto
  show ?case by (rule exI[of _ "b # bs"]) (use b bs in \<open>auto simp: nth_Cons' less_Suc_eq_0_disj\<close>)
qed

lemma merged_minutes:
  assumes "fb_shape months a" "fb_shape months b"
  shows "fb_shape months (map2 mapistore_freebusy_merge_subarray a b)"
    "minutes_set months (map2 mapistore_freebusy_merge_subarray a b) = minutes_set months a \<union> minutes_set months b"
proof -
  have len: "length (a ! j) = max_mins_per_month" "length (b ! j) = max_mins_per_month" "length a = length months" "length b = length months"
    if "j < length months" for j using assms that by (auto simp: fb_shape_def)
  show "fb_shape months (map2 mapistore_freebusy_merge_subarray a b)"
    using assms len by (auto simp: fb_shape_def mapistore_freebusy_merge_subarray_def in_set_zip)
  show "minutes_set months (map2 mapistore_freebusy_merge_subarray a b) = minutes_set months a \<union> minutes_set months b"
    using len order_less_le_trans[OF _ month_minutes_le]
    by (auto simp: minutes_set_def mapistore_freebusy_merge_subarray_def split: if_splits)
qed

section \<open>The client\<close>

text \<open>The beginning of the hour of a time.\<close>

definition hour_start :: "int \<Rightarrow> int" where
  "hour_start u = 3600 * (u div 3600)"

lemma hour_start_split:
  "hour_start u div 86400 = u div 86400" "hour_start u mod 86400 = 3600 * (u mod 86400 div 3600)"
proof -
  have u: "u div 3600 = 24 * (u div 86400) + u mod 86400 div 3600"
  proof -
    have "u = u mod 86400 + (24 * (u div 86400)) * 3600" using mod_mult_div_eq[of u 86400] by simp
    then have "u div 3600 = (u mod 86400 + (24 * (u div 86400)) * 3600) div 3600" by simp
    also have "\<dots> = 24 * (u div 86400) + u mod 86400 div 3600" by (rule div_mult_self1) simp
    finally show ?thesis .
  qed
  have b: "0 \<le> u mod 86400 div 3600" "u mod 86400 div 3600 < 24"
    by (simp_all add: pos_imp_zdiv_nonneg_iff div_less_iff_less_mult)
  have "hour_start u = 3600 * (u mod 86400 div 3600) + 86400 * (u div 86400)" by (simp add: hour_start_def u)
  then show "hour_start u div 86400 = u div 86400" "hour_start u mod 86400 = 3600 * (u mod 86400 div 3600)"
    using b by simp_all
qed

lemma hour_start_time: "a_time u \<Longrightarrow> a_time (hour_start u)"
proof -
  assume "a_time u"
  moreover have "hour_start u = u - u mod 3600" by (simp add: hour_start_def minus_mod_eq_mult_div)
  moreover have "0 \<le> u mod 3600" by simp
  moreover have "0 \<le> hour_start u" using \<open>a_time u\<close> by (simp add: hour_start_def a_time_def pos_imp_zdiv_nonneg_iff)
  ultimately show ?thesis by (simp add: a_time_def)
qed

lemma hour_start_gmtime:
  "tm_year (gmtime (hour_start u)) = tm_year (gmtime u)" "tm_mon (gmtime (hour_start u)) = tm_mon (gmtime u)"
  "tm_mday (gmtime (hour_start u)) = tm_mday (gmtime u)" "tm_hour (gmtime (hour_start u)) = tm_hour (gmtime u)"
  "tm_min (gmtime (hour_start u)) = 0"
proof -
  obtain y d where 1: "split_year 1970 (nat (u div 86400 mod 146097)) = (y, d)" by (cases "split_year 1970 (nat (u div 86400 mod 146097))")
  obtain k d' where 2: "split_month y 0 d = (k, d')" by (cases "split_month y 0 d")
  have 3: "3600 * x div 60 mod 60 = 0" "3600 * x div 3600 = x" for x :: int
    using div_mult_mult1[of 60 "60 * x" "1::int"] by simp_all
  note eval = gmtime_def Let_def hour_start_split 1 2 3 prod.case tm.simps
  show "tm_year (gmtime (hour_start u)) = tm_year (gmtime u)" "tm_mon (gmtime (hour_start u)) = tm_mon (gmtime u)"
    "tm_mday (gmtime (hour_start u)) = tm_mday (gmtime u)" "tm_hour (gmtime (hour_start u)) = tm_hour (gmtime u)"
    "tm_min (gmtime (hour_start u)) = 0"
    by (simp_all only: eval)
qed

lemma hour_start_month:
  "month_of (hour_start u) = month_of u"
  "minute_of (hour_start u) = nat ((tm_mday (gmtime u) - 1) * 60 * 24 + tm_hour (gmtime u) * 60)"
  by (simp_all add: month_of_def minute_of_def hour_start_gmtime algebra_simps)

lemma month_position:
  assumes "\<forall>m\<in>set months. 0 \<le> m \<and> m < 2 ^ 32" "0 \<le> 16 * y + f" "16 * y + f < 2 ^ 32"
  shows "month_position y f (map of_int months) k =
    (if 16 * y + f \<in> set months then Some (k + length (takeWhile (\<lambda>m. m \<noteq> 16 * y + f) months)) else None)"
  using assms(1)
proof (induction months arbitrary: k)
  case Nil
  then show ?case by simp
next
  case (Cons m months)
  have "(of_int m :: u32) - of_int (y * 16) = of_int f \<longleftrightarrow> (of_int m :: u32) = of_int (16 * y + f)"
    by (auto simp: algebra_simps)
  also have "\<dots> \<longleftrightarrow> m = 16 * y + f"
    using Cons.prems assms(2,3) by (simp add: word_of_int_eq_iff take_bit_int_eq_self del: of_int_add of_int_mult)
  finally show ?case using Cons by auto
qed

lemma uint_nt_of_unix: "a_time t \<Longrightarrow> uint (nt_of_unix t) = (t + 11644473600) * 10000000"
  unfolding nt_of_unix_def uint_word_of_int_eq by (intro take_bit_int_eq_self) (simp_all add: a_time_def time_limit_def)

lemma publish_year:
  assumes "time_laws L" "a_time t"
  shows "GetFreeBusyYear L gmtime (Some (ucast (fb_minutes L t))) = year_of t"
proof -
  let ?m = "t div 60"
  have m: "0 \<le> ?m" "?m < 210379680" using assms(2) by (auto simp: a_time_def time_limit_def pos_imp_zdiv_nonneg_iff div_less_iff_less_mult)
  have t: "0 \<le> t" "t < 12622780800" using assms(2) by (auto simp: a_time_def time_limit_def)
  note nt = uint_nt_of_unix[OF assms(2)]
  have fm: "uint (fb_minutes L t) = ?m + 194074560"
  proof -
    have "uint (fb_minutes L t) = (t + 11644473600) * 10000000 div 600000000"
      using assms t by (simp add: fb_minutes_def time_laws_def a_time_def uint_div nt)
    also have "\<dots> = (t + 194074560 * 60) div 60"
      using div_mult_mult1[of 10000000 "t + 11644473600" "60::int"] by (simp add: mult.commute)
    also have "\<dots> = ?m + 194074560" by simp
    finally show ?thesis .
  qed
  have "ucast (ucast (fb_minutes L t) :: u32) * 60 * 10000000 = nt_of_unix (60 * ?m)"
  proof -
    have "(ucast (ucast (fb_minutes L t) :: u32) :: u64) = of_int (?m + 194074560)"
    proof (rule word_uint_eqI)
      have "uint (of_int (?m + 194074560) :: u64) = ?m + 194074560"
        unfolding uint_word_of_int_eq using m by (intro take_bit_int_eq_self) simp_all
      then show "uint (ucast (ucast (fb_minutes L t) :: u32) :: u64) = uint (of_int (?m + 194074560) :: u64)"
        using fm m by (simp add: unsigned_ucast_eq unsigned_take_bit_eq take_bit_int_eq_self del: of_int_add)
    qed
    then show ?thesis by (simp add: nt_of_unix_def algebra_simps)
  qed
  moreover have h: "a_time (60 * ?m)" using assms(2) m by (auto simp: a_time_def time_limit_def)
  moreover have "month_of (60 * ?m) = month_of t"
    using time_order[OF h assms(2)] time_order[OF assms(2) h] by simp linarith
  ultimately show ?thesis
    using assms(1) year_month(1)[OF h] year_month(1)[OF assms(2)]
    by (simp add: GetFreeBusyYear_def time_laws_def a_time_def year_of_def)
qed

lemma year_start_ge: "1970 \<le> y \<Longrightarrow> y - 1970 \<le> year_start y"
proof -
  have "(\<Sum>k\<in>{1970..<y}. (1::int)) \<le> year_start y"
    unfolding year_start_def by (rule sum_mono) (simp add: year_days_def)
  then show "1970 \<le> y \<Longrightarrow> y - 1970 \<le> year_start y" by simp
qed

lemma month_of_bounds: "a_time t \<Longrightarrow> 0 \<le> month_of t \<and> month_of t < 2 ^ 32"
proof -
  assume t: "a_time t"
  let ?y = "month_of t div 16"
  have y: "1970 \<le> ?y" using month_of_time(1)[OF t] by (simp add: month_number_def)
  have "1440 * (?y - 1970) \<le> t div 60"
    using month_of_time(3)[OF t] year_start_ge[OF y] by (simp add: month_start_def)
  moreover have "t div 60 < 210379680" using t by (auto simp: a_time_def time_limit_def div_less_iff_less_mult)
  ultimately have "?y < 200000" by simp
  with y show ?thesis using mult_div_mod_eq[of 16 "month_of t"] by (simp add: div_less_iff_less_mult) linarith
qed

definition busy_at :: "event list \<Rightarrow> int \<Rightarrow> bool" where
  "busy_at evs u \<longleftrightarrow> list_ex (\<lambda>(s, e, st). (st = olBusy \<or> st = olOutOfOffice) \<and> covers s e u) evs"

lemma events_set_iff: "p \<in> events_set months evs st \<longleftrightarrow> (\<exists>s e. (s, e, st) \<in> set evs \<and> p \<in> event_set months s e)"
  by (force simp: events_set_def split: if_splits)

lemma busy_at_iff:
  "busy_at evs u \<longleftrightarrow> (\<exists>s e st. (s, e, st) \<in> set evs \<and> (st = olBusy \<or> st = olOutOfOffice) \<and> covers s e u)"
  by (force simp: busy_at_def list_ex_iff)

lemma merged_busy:
  assumes "\<forall>(s, e, st) \<in> set evs. event_ok months s e" "a_time u" "j < length months" "months ! j = month_of u"
  shows "(j, minute_of u) \<in> events_set months evs olBusy \<union> events_set months evs olOutOfOffice \<longleftrightarrow> busy_at evs u"
proof -
  have "(j, minute_of u) \<in> event_set months s e \<longleftrightarrow> covers s e u" if "(s, e, st) \<in> set evs" for s e st
    using assms that by (intro event_set_covers) auto
  then show ?thesis unfolding Un_iff events_set_iff busy_at_iff by metis
qed

lemma busy_at_month:
  assumes "\<forall>(s, e, st) \<in> set evs. event_ok months s e" "a_time u" "month_of u \<notin> set months" "months_ok months"
    "set months = {m. month_number m \<and> lo \<le> m \<and> m \<le> hi}"
  shows "\<not> busy_at evs u"
proof -
  have "\<not> covers s e u" if "event_ok months s e" for s e
  proof
    have se: "a_time s" "a_time e" "lo \<le> month_of s" "month_of e \<le> hi" using that assms(5) by (auto simp: event_ok_def)
    assume "covers s e u"
    then have "s div 60 \<le> u div 60" "u div 60 \<le> e div 60" by (auto simp: covers_def)
    then have "lo \<le> month_of u" "month_of u \<le> hi"
      using time_order[OF se(1) assms(2)] time_order[OF assms(2) se(2)] se(3,4) by linarith+
    then show False using assms(3,5) month_of_time(1)[OF assms(2)] by simp
  qed
  then show ?thesis using assms(1) unfolding busy_at_iff by fastforce
qed

text \<open>What is published for events within the published months, and what the client makes of it.\<close>

definition published :: "int list \<Rightarrow> event list \<Rightarrow> mapistore_freebusy_properties \<Rightarrow> bool" where
  "published months evs fb \<longleftrightarrow>
     nbr_months fb = of_nat (length months) \<and> months_ranges fb = months \<and>
     length (freebusy_tentative fb) = length months \<and> length (freebusy_busy fb) = length months \<and>
     length (freebusy_away fb) = length months \<and> length (freebusy_merged fb) = length months \<and>
     (\<forall>j<length months. length (freebusy_merged fb ! j) mod 4 = 0 \<and>
        (\<forall>t<month_minutes (months ! j). conflict_scan (freebusy_merged fb ! j) t \<longleftrightarrow>
           (j, t) \<in> events_set months evs olBusy \<union> events_set months evs olOutOfOffice))"

lemma fb_publish_spec:
  assumes "time_laws (fb_time E)" "a_time a" "a_time b" "a \<le> b" "year_of b \<le> year_of a + 1"
    "fst (mktime start_tm) = a" "fst (mktime end_tm) = b"
    "fb_rows E (nt_of_unix a) (nt_of_unix b) = map row_of evs"
    "\<forall>(s, e, st) \<in> set evs. event_ok (month_list a b) s e"
  obtains fb where "fb_publish E start_tm end_tm = Ok fb" "published (month_list a b) evs fb"
    "publish_start fb = ucast (fb_minutes (fb_time E) a)"
proof -
  let ?L = "fb_time E" let ?ms = "month_list a b"
  note ml = month_list[OF assms(2-5)]
  have mk: "mktime start_tm = (a, gmtime a)" "mktime end_tm = (b, gmtime b)"
    using assms(6,7) by (auto simp: mktime_def Let_def)
  have pm: "published_months (gmtime a) (gmtime b) = (int (length ?ms), ?ms)"
    using ml(3) by (simp add: month_list_def prod_eq_iff)
  have rows: "fb_rows E (unix_to_nt_time ?L a) (unix_to_nt_time ?L b) = map row_of evs"
    using assms(1-3,8) by (simp add: time_laws_def a_time_def)
  have empty: "arrays_shape ?ms (empty_arrays (length ?ms))"
    "minutes_set ?ms (busy_array (empty_arrays (length ?ms))) = {}" "minutes_set ?ms (oof_array (empty_arrays (length ?ms))) = {}"
    using order_less_le_trans[OF _ month_minutes_le]
    by (auto simp: arrays_shape_def fb_shape_def empty_arrays_def Let_def minutes_set_def)
  obtain A where A: "event_rows E ?ms (months_nbr ?ms) (map row_of evs) (empty_arrays (length ?ms)) = Ok A" "arrays_shape ?ms A"
    "minutes_set ?ms (busy_array A) = events_set ?ms evs olBusy" "minutes_set ?ms (oof_array A) = events_set ?ms evs olOutOfOffice"
    using event_rows[OF assms(1) ml(1) assms(9) empty(1) ml(4)] empty(2,3) by auto
  define merged where "merged = map2 mapistore_freebusy_merge_subarray (busy_array A) (oof_array A)"
  have shapes: "fb_shape ?ms (free_array A)" "fb_shape ?ms (tentative_array A)" "fb_shape ?ms (busy_array A)" "fb_shape ?ms (oof_array A)"
    using A(2) by (simp_all add: arrays_shape_def)
  note mm = merged_minutes[OF shapes(3,4), folded merged_def]
  have comp: "\<exists>bs. compile_months arr = Ok bs \<and> length bs = length ?ms \<and> (\<forall>j<length ?ms. length (bs ! j) mod 4 = 0 \<and>
       (\<forall>t<month_minutes (?ms ! j). conflict_scan (bs ! j) t \<longleftrightarrow> (j, t) \<in> minutes_set ?ms arr))"
    if "fb_shape ?ms arr" for arr
  proof -
    have "\<forall>xs\<in>set arr. length xs = max_mins_per_month" "length arr = length ?ms" using that by (simp_all add: fb_shape_def)
    moreover have "t \<in> marked (arr ! j) 0 \<longleftrightarrow> (j, t) \<in> minutes_set ?ms arr" if "j < length ?ms" "t < month_minutes (?ms ! j)" for j t
      using that calculation order_less_le_trans[OF that(2) month_minutes_le] by (auto simp: marked_def minutes_set_def)
    ultimately show ?thesis using compile_months[of arr] by (metis (no_types, lifting))
  qed
  from comp[OF shapes(1)] obtain free where 1: "compile_months (free_array A) = Ok free" by blast
  from comp[OF shapes(2)] obtain tent where 2: "compile_months (tentative_array A) = Ok tent" "length tent = length ?ms" by blast
  from comp[OF shapes(3)] obtain busy where 3: "compile_months (busy_array A) = Ok busy" "length busy = length ?ms" by blast
  from comp[OF shapes(4)] obtain away where 4: "compile_months (oof_array A) = Ok away" "length away = length ?ms" by blast
  from comp[OF mm(1)] obtain bs where 5: "compile_months merged = Ok bs" "length bs = length ?ms"
    "\<forall>j<length ?ms. length (bs ! j) mod 4 = 0 \<and>
       (\<forall>t<month_minutes (?ms ! j). conflict_scan (bs ! j) t \<longleftrightarrow> (j, t) \<in> minutes_set ?ms merged)" by blast
  let ?fb = "\<lparr>nbr_months = of_int (int (length ?ms)), months_ranges = ?ms, freebusy_free = free, freebusy_tentative = tent,
      freebusy_busy = busy, freebusy_away = away, freebusy_merged = bs, publish_start = ucast (fb_minutes ?L a),
      publish_end = ucast (fb_minutes ?L b), fb_timestamp = filetime (unix_to_nt_time ?L (fb_now E))\<rparr>"
  have "fb_publish E start_tm end_tm = Ok ?fb"
    using 1 2 3 4 5 A(1) by (simp add: fb_publish_def mk pm rows Let_def merged_def del: obind_eq_Ok_iff)
  moreover have "published ?ms evs ?fb"
    using 2 3 4 5 A(3,4) mm(2) by (simp add: published_def)
  ultimately show ?thesis using that by simp
qed

lemma counted_all: "n = of_nat (length xs) \<Longrightarrow> length xs \<le> 24 \<Longrightarrow> counted n xs = Ok xs"
  by (simp add: counted_def unat_small16)

lemma freebusy_row_total: "(\<And>t. \<exists>v. freebusy_property fb email t = Ok v) \<Longrightarrow> \<exists>row. freebusy_row fb email stored ts = Ok row"
proof (induction ts)
  case (Cons t ts)
  then obtain v row where "freebusy_property fb email t = Ok v" "freebusy_row fb email stored ts = Ok row" by blast
  then show ?case by simp
qed simp

lemma freebusy_row_find:
  assumes "freebusy_property fb email t = Ok (Some v)" "v \<noteq> VNullPtr" "t \<noteq> 0" "prop_type t \<in> set SPropValue_get_types"
    "prop_type t \<noteq> PT_ERROR"
  shows "freebusy_row fb email stored ts = Ok row \<Longrightarrow> t \<in> set ts \<Longrightarrow> find_SPropValue_data row t = PMember v"
proof (induction ts arbitrary: row)
  case (Cons t' ts)
  obtain w rest where w: "freebusy_property fb email t' = Ok w" "freebusy_row fb email stored ts = Ok rest" using Cons.prems(1) by auto
  have "prop_type (prop_id t' OR PT_ERROR) = PT_ERROR"
    by (simp add: prop_type_def prop_id_def bit.conj_disj_distrib2 and.assoc)
  then have other: "prop_id t' OR PT_ERROR \<noteq> t" using assms(5) by auto
  show ?case
  proof (cases "t' = t")
    case True
    then show ?thesis using Cons.prems(1) w assms
      by (auto simp: find_SPropValue_data_def find_data_def get_SPropValue_data_def get_data_def value_ptr_def)
  next
    case False
    then have "find_SPropValue_data row t = find_SPropValue_data rest t" using Cons.prems(1) w other
      by (auto simp: find_SPropValue_data_def find_data_def split: option.splits)
    then show ?thesis using Cons.IH[OF w(2)] Cons.prems(2) False by simp
  qed
qed simp

lemma client_row:
  assumes "published months evs fb" "length months \<le> 24"
  obtains row where "freebusy_row fb email stored freebusy_tags = Ok row"
    "find_SPropValue_data row PR_SCHDINFO_MONTHS_MERGED = PMember (VMVLong (map of_int months))"
    "find_SPropValue_data row PR_SCHDINFO_FREEBUSY_MERGED = PMember (VMVBinary (freebusy_merged fb))"
    "find_SPropValue_data row PR_FREEBUSY_PUBLISH_START = PMember (VLong (publish_start fb))"
proof -
  note P = assms(1)[unfolded published_def]
  have "\<exists>v. freebusy_property fb email t = Ok v" for t
    using P assms(2) by (simp add: freebusy_property_def Let_def counted_all)
  then obtain row where row: "freebusy_row fb email stored freebusy_tags = Ok row" using freebusy_row_total by blast
  have v: "freebusy_property fb email PR_SCHDINFO_MONTHS_MERGED = Ok (Some (VMVLong (map of_int months)))"
    "freebusy_property fb email PR_SCHDINFO_FREEBUSY_MERGED = Ok (Some (VMVBinary (freebusy_merged fb)))"
    "freebusy_property fb email PR_FREEBUSY_PUBLISH_START = Ok (Some (VLong (publish_start fb)))"
    using P assms(2) by (simp_all add: freebusy_property_def Let_def counted_all)
  show ?thesis
    by (rule that[OF row]; rule freebusy_row_find[OF _ _ _ _ _ row])
       (simp_all add: v SPropValue_get_types_def prop_type_def freebusy_tags_def)
qed

section \<open>Properties\<close>

lemma takeWhile_neq_nth: "distinct xs \<Longrightarrow> j < length xs \<Longrightarrow> length (takeWhile (\<lambda>x. x \<noteq> xs ! j) xs) = j"
proof (induction xs arbitrary: j)
  case (Cons x xs)
  then show ?case by (cases j) (auto simp: nth_mem)
qed simp

lemma client_conflict:
  assumes "time_laws L" and range: "a_time a" "a_time b" "a \<le> b" "year_of b \<le> year_of a + 1"
    and ok: "\<forall>(s, e, st) \<in> set evs. event_ok (month_list a b) s e"
    and fb: "published (month_list a b) evs fb" "publish_start fb = ucast (fb_minutes L a)"
    and row: "find_SPropValue_data row PR_SCHDINFO_MONTHS_MERGED = PMember (VMVLong (map of_int (month_list a b)))"
      "find_SPropValue_data row PR_SCHDINFO_FREEBUSY_MERGED = PMember (VMVBinary (freebusy_merged fb))"
      "find_SPropValue_data row PR_FREEBUSY_PUBLISH_START = PMember (VLong (publish_start fb))"
    and date: "a_time u"
  shows "IsFreeBusyConflict L gmtime (MAPI_E_SUCCESS, row) (filetime (nt_of_unix u)) =
    Ok (MAPI_E_SUCCESS, year_of u = year_of a \<and> busy_at evs (hour_start u))"
proof -
  let ?ms = "month_list a b"
  note ml = month_list[OF range]
  have len: "length (freebusy_merged fb) = length ?ms" using fb(1) by (simp add: published_def)
  have year: "GetFreeBusyYear L gmtime (Some (publish_start fb)) = year_of a"
    using publish_year[OF assms(1) range(1)] fb(2) by simp
  have unix: "nt_time_to_unix L (nt_of_unix u) = u" using assms(1) date by (simp add: time_laws_def a_time_def)
  let ?h = "hour_start u" let ?f = "tm_mon (gmtime u) + 1"
  have mu: "16 * year_of u + ?f = month_of u" by (simp add: month_of_def year_of_def)
  have bounds: "\<forall>m\<in>set ?ms. 0 \<le> m \<and> m < 2 ^ 32"
    unfolding ml(2) using month_of_bounds[OF range(1)] month_of_bounds[OF range(2)] by auto
  have pos: "month_position (year_of u) ?f (map of_int ?ms) 0 =
      (if month_of u \<in> set ?ms then Some (length (takeWhile (\<lambda>m. m \<noteq> month_of u) ?ms)) else None)"
    using month_position[OF bounds, of "year_of u" ?f] month_of_bounds[OF date] by (simp add: mu)
  consider (other) "year_of u \<noteq> year_of a" | (outside) "year_of u = year_of a" "month_of u \<notin> set ?ms"
    | (inside) "year_of u = year_of a" "month_of u \<in> set ?ms" by blast
  then show "IsFreeBusyConflict L gmtime (MAPI_E_SUCCESS, row) (filetime (nt_of_unix u)) =
      Ok (MAPI_E_SUCCESS, year_of u = year_of a \<and> busy_at evs ?h)"
  proof cases
    case other
    then show ?thesis using ml(4) len year unix by (simp add: IsFreeBusyConflict_def row Let_def long_of_def year_of_def)
  next
    case outside
    then have "\<not> busy_at evs ?h"
      using busy_at_month[OF ok hour_start_time[OF date] _ ml(1,2)] by (simp add: hour_start_month)
    then show ?thesis using outside ml(4) len year unix pos
      by (simp add: IsFreeBusyConflict_def row Let_def long_of_def year_of_def)
  next
    case inside
    then obtain j where j: "j < length ?ms" "?ms ! j = month_of u" by (auto simp: in_set_conv_nth)
    have "distinct ?ms" using ml(1) by (simp add: months_ok_def strict_sorted_iff)
    then have first: "length (takeWhile (\<lambda>m. m \<noteq> month_of u) ?ms) = j"
      using takeWhile_neq_nth[of ?ms j] j by simp
    have h: "a_time ?h" "?ms ! j = month_of ?h" using hour_start_time[OF date] j by (simp_all add: hour_start_month)
    have "minute_of ?h < month_minutes (?ms ! j)" using month_of_time(2)[OF h(1)] h(2) by simp
    then have scan: "conflict_scan (freebusy_merged fb ! j) (minute_of ?h) = busy_at evs ?h"
      "length (freebusy_merged fb ! j) mod 4 = 0"
      using fb(1) j(1) merged_busy[OF ok h(1) j(1) h(2)] by (auto simp: published_def)
    then show ?thesis using inside ml(4) len year unix pos first j(1)
      by (simp add: IsFreeBusyConflict_def row Let_def long_of_def year_of_def rd_def hour_start_month)
  qed
qed

text \<open>C9 What a client finds out about a calendar. The server publishes the months between two times, of at most two calendar years,
  for a calendar whose events lie within these months; a client that looks at the published properties reports a conflict for a date
  exactly when the date is of the year of the first of the two times and a busy or out-of-office event covers the beginning of the hour
  of the date. Both sides work in UTC. So the minutes of the date are not looked at, and a date of the second year never conflicts.\<close>

theorem freebusy_conflict:
  assumes "time_laws (fb_time E)" "fb_open E = MAPISTORE_SUCCESS" "mapistore_backend_lookup (context_list m) i = Some c"
    and range: "fst (mktime start_tm) = a" "fst (mktime end_tm) = b" "a_time a" "a_time b" "a \<le> b" "year_of b \<le> year_of a + 1"
    and events: "fb_rows E (nt_of_unix a) (nt_of_unix b) = map row_of evs"
      "\<forall>(s, e, st) \<in> set evs. a_time s \<and> a_time e \<and> s \<le> e \<and> month_of a \<le> month_of s \<and> month_of e \<le> month_of b"
    and date: "a_time u"
  shows "\<exists>fb row. mapistore_folder_fetch_freebusy_properties E m i (Some (start_tm, end_tm)) = Ok (MAPISTORE_SUCCESS, Some fb) \<and>
    freebusy_row fb email stored freebusy_tags = Ok row \<and>
    IsFreeBusyConflict (fb_time E) gmtime (MAPI_E_SUCCESS, row) (filetime (nt_of_unix u)) =
      Ok (MAPI_E_SUCCESS, year_of u = year_of a \<and> busy_at evs (hour_start u))"
proof -
  let ?ms = "month_list a b"
  note ml = month_list[OF range(3-6)]
  have ok: "\<forall>(s, e, st) \<in> set evs. event_ok ?ms s e"
  proof clarify
    fix s e st assume "(s, e, st) \<in> set evs"
    then have *: "a_time s" "a_time e" "s \<le> e" "month_of a \<le> month_of s" "month_of e \<le> month_of b" using events(2) by auto
    moreover have "month_of s \<le> month_of e" using time_order[OF *(1,2)] *(3) by (auto simp: zdiv_mono1)
    ultimately show "event_ok ?ms s e"
      unfolding event_ok_def ml(2) using month_of_time(1)[OF *(1)] month_of_time(1)[OF *(2)] by simp
  qed
  obtain fb where fb: "fb_publish E start_tm end_tm = Ok fb" "published ?ms evs fb"
    "publish_start fb = ucast (fb_minutes (fb_time E) a)"
    by (rule fb_publish_spec[OF assms(1) range(3-6) range(1,2) events(1) ok])
  obtain row where row: "freebusy_row fb email stored freebusy_tags = Ok row"
    "find_SPropValue_data row PR_SCHDINFO_MONTHS_MERGED = PMember (VMVLong (map of_int ?ms))"
    "find_SPropValue_data row PR_SCHDINFO_FREEBUSY_MERGED = PMember (VMVBinary (freebusy_merged fb))"
    "find_SPropValue_data row PR_FREEBUSY_PUBLISH_START = PMember (VLong (publish_start fb))"
    by (rule client_row[OF fb(2) ml(4)])
  note conflict = client_conflict[OF assms(1) range(3-6) ok fb(2,3) row(2-4) date]
  have "mapistore_folder_fetch_freebusy_properties E m i (Some (start_tm, end_tm)) = Ok (MAPISTORE_SUCCESS, Some fb)"
    using assms(2,3) fb(1) by (auto simp: mapistore_folder_fetch_freebusy_properties_def mapistore_backend_lookup_def)
  then show ?thesis using row(1) conflict by blast
qed

text \<open>A calendar with one busy event on the 2nd of March 2015, from 10 to 12.\<close>

definition sample_times :: time_lib where
  "sample_times = \<lparr>nt_time_to_unix = (\<lambda>n. uint n div 10000000 - 11644473600), unix_to_nt_time = nt_of_unix\<rparr>"

lemma sample_times_laws: "time_laws sample_times"
  using uint_nt_of_unix by (simp add: time_laws_def sample_times_def a_time_def)

definition sample_event :: event where
  "sample_event = (1425290400, 1425297600, olBusy)"

definition sample_calendar :: "int \<Rightarrow> fb_env" where
  "sample_calendar t =
     \<lparr>fb_time = sample_times, fb_now = t, fb_open = MAPISTORE_SUCCESS, fb_rows = (\<lambda>from till. map row_of
        (filter (\<lambda>(s, e, _). from \<le> nt_of_unix e \<and> nt_of_unix s \<le> till) [sample_event]))\<rparr>"

definition sample_day :: "int \<Rightarrow> int \<Rightarrow> int \<Rightarrow> tm" where
  "sample_day h d m = \<lparr>tm_sec = 0, tm_min = 0, tm_hour = h, tm_mday = d, tm_mon = m, tm_year = 115, tm_wday = 0\<rparr>"

lemma sample_storage: "\<exists>c. mapistore_backend_lookup (context_list (sample_open [''sogo://a''])) 1 = Some c"
  by (simp add: sample_storage_simps mapistore_backend_lookup_def tdb_index_def)

theorem freebusy_conflict_witness:
  "\<exists>fb row. mapistore_folder_fetch_freebusy_properties (sample_calendar 0) (sample_open [''sogo://a'']) 1
      (Some (sample_day 0 1 2, sample_day 12 31 4)) = Ok (MAPISTORE_SUCCESS, Some fb) \<and>
    freebusy_row fb [] (\<lambda>_. None) freebusy_tags = Ok row \<and>
    IsFreeBusyConflict sample_times gmtime (MAPI_E_SUCCESS, row) (filetime (nt_of_unix 1425295200)) = Ok (MAPI_E_SUCCESS, True)"
proof -
  obtain c where c: "mapistore_backend_lookup (context_list (sample_open [''sogo://a''])) 1 = Some c" using sample_storage by auto
  have days: "fst (mktime (sample_day 0 1 2)) = 1425168000" "fst (mktime (sample_day 12 31 4)) = 1433073600"
    by (simp_all add: mktime_def Let_def sample_day_def days_before_year_def numeral_eq_Suc month_days_def leap_def)
  have times: "a_time 1425168000" "a_time 1433073600" "a_time 1425290400" "a_time 1425297600" "a_time 1425295200"
    by (simp_all add: a_time_def time_limit_def)
  have months: "month_of 1425168000 = 32243" "month_of 1433073600 = 32245" "month_of 1425290400 = 32243" "month_of 1425297600 = 32243"
    and years: "year_of 1425168000 = 2015" "year_of 1433073600 = 2015" "year_of 1425295200 = 2015"
    by (simp_all add: month_of_def year_of_def gmtime_def Let_def split_year.simps split_month.simps year_days_def month_days_def leap_def)
  have rows: "fb_rows (sample_calendar 0) (nt_of_unix 1425168000) (nt_of_unix 1433073600) = map row_of [sample_event]"
    by (simp add: sample_calendar_def sample_event_def nt_of_unix_def)
  have parts: "fb_time (sample_calendar 0) = sample_times" "fb_open (sample_calendar 0) = MAPISTORE_SUCCESS"
    by (simp_all add: sample_calendar_def)
  have busy: "busy_at [sample_event] (hour_start 1425295200)"
    by (simp add: busy_at_def sample_event_def covers_def hour_start_def)
  show ?thesis
    using freebusy_conflict[of "sample_calendar 0" "sample_open [''sogo://a'']" 1 c "sample_day 0 1 2" 1425168000
        "sample_day 12 31 4" 1433073600 "[sample_event]" 1425295200 "[]" "\<lambda>_. None"]
    by (simp add: parts rows sample_times_laws c days times months years busy) (simp add: sample_event_def times months)
qed

section \<open>The first days of a year\<close>














end
