(* ===== verification/Row_Blobs.thy ===== *)
theory Row_Blobs
  imports Property_Values Oxcfxics
begin

unbundle bit_operations_syntax

text \<open>
  Rows of properties on the wire, both ends: the server pushes the values of a row into a blob
  (\<^verbatim>\<open>libmapiserver_push_property\<close> of \<^verbatim>\<open>src/mapiproxy/libmapiserver/libmapiserver_oxcprpt.c\<close>, and \<^verbatim>\<open>emsmdbp_fill_table_row_blob\<close> and
  \<^verbatim>\<open>emsmdbp_fill_row_blob\<close> of \<^verbatim>\<open>emsmdbp_object.c\<close>), the client pulls them out again (\<^verbatim>\<open>src/libmapi/emsmdb.c\<close>). The values of the server are
  the data pointers of theory \<open>Oxcfxics\<close>, those of the client the properties of theory \<open>Property_Values\<close>.
\<close>

section \<open>Marshalling routines\<close>

text \<open>The routines of Samba and those generated from the IDL file. A pull gives the value, or nothing where it reports an
  error, and the offset it leaves; \<open>ndr_pull_GUID\<close> gives what the zeroed structure holds afterwards. \<open>ndr_pull_utf16\<close> and \<open>ndr_pull_raw8\<close> are
  \<^verbatim>\<open>ndr_pull_string\<close> with the flags \<^verbatim>\<open>STR_NULLTERM\<close> and \<^verbatim>\<open>STR_RAW8|STR_NULLTERM\<close>; \<open>ndr_push_null_text\<close> is what \<^verbatim>\<open>ndr_push_string\<close> does with a
  null pointer, in ASCII or not.\<close>

type_synonym 'a ndr_pull = "u8 list \<Rightarrow> nat \<Rightarrow> 'a option \<times> nat"

record 'g row_lib = "'g fx_lib" +
  ndr_push_SBinary_short :: "u16 \<Rightarrow> u8 list \<Rightarrow> u8 list"
  ndr_push_mapi_MV_LONG_STRUCT :: "u32 list \<Rightarrow> u8 list"
  ndr_push_mapi_SLPSTRArrayW :: "u8 list list \<Rightarrow> u8 list"
  ndr_push_null_text :: "bool \<Rightarrow> u8 list"
  ndr_pull_uint8 :: "u8 ndr_pull"
  ndr_pull_uint16 :: "u16 ndr_pull"
  ndr_pull_uint32 :: "u32 ndr_pull"
  ndr_pull_hyper :: "u64 ndr_pull"
  ndr_pull_double :: "u64 ndr_pull"
  ndr_pull_utf16 :: "u8 list ndr_pull"
  ndr_pull_raw8 :: "u8 list ndr_pull"
  ndr_pull_GUID :: "u8 list \<Rightarrow> nat \<Rightarrow> u8 list \<times> nat"
  ndr_pull_SBinary_short :: "u8 list ndr_pull"
  ndr_pull_mapi_MV_LONG_STRUCT :: "u32 list ndr_pull"
  ndr_pull_mapi_SLPSTRArray :: "u8 list list ndr_pull"
  ndr_pull_mapi_SLPSTRArrayW :: "u8 list list ndr_pull"
  ndr_pull_mapi_SBinaryArray :: "u8 list list ndr_pull"

text \<open>A pull that reads a value from the bytes that stand at its offset.\<close>

definition pulls :: "'a ndr_pull \<Rightarrow> u8 list \<Rightarrow> 'a \<Rightarrow> bool" where
  "pulls p bs v \<longleftrightarrow>
     (\<forall>pre rest. length (pre @ bs @ rest) < 2 ^ 32 \<longrightarrow> p (pre @ bs @ rest) (length pre) = (Some v, length pre + length bs))"

definition short_bytes :: "u8 list \<Rightarrow> u8 list" where
  "short_bytes bs = le_bytes 2 (of_nat (length bs) :: u16) @ bs"

definition long_bytes :: "u32 list \<Rightarrow> u8 list" where
  "long_bytes xs = le_bytes 4 (of_nat (length xs) :: u32) @ concat (map (le_bytes 4) xs)"

text \<open>Documented behaviour: little-endian scalars without alignment, the bytes of a short binary behind a count of 16 bits, arrays behind
  a count of 32 bits, an 8-bit string up to its terminating zero, and the 16 bytes of a GUID as they are in memory.\<close>

definition row_laws :: "'g row_lib \<Rightarrow> bool" where
  "row_laws G \<longleftrightarrow>
     fx_laws (fx_lib.truncate G) \<and>
     (\<forall>cb bs. unat cb \<le> length bs \<longrightarrow> ndr_push_SBinary_short G cb bs = le_bytes 2 cb @ take (unat cb) bs) \<and>
     (\<forall>xs. ndr_push_mapi_MV_LONG_STRUCT G xs = long_bytes xs) \<and>
     (\<forall>ss. ndr_push_mapi_SLPSTRArrayW G ss = le_bytes 4 (of_nat (length ss) :: u32) @ concat (map (ndr_push_utf16 G) ss)) \<and>
     (\<forall>v. pulls (ndr_pull_uint8 G) [v] v) \<and>
     (\<forall>v. pulls (ndr_pull_uint16 G) (le_bytes 2 v) v) \<and>
     (\<forall>v. pulls (ndr_pull_uint32 G) (le_bytes 4 v) v) \<and>
     (\<forall>v. pulls (ndr_pull_hyper G) (le_bytes 8 v) v) \<and>
     (\<forall>v. pulls (ndr_pull_double G) (le_bytes 8 v) v) \<and>
     (\<forall>s. 0 \<notin> set s \<longrightarrow> pulls (ndr_pull_raw8 G) (s @ [0]) s) \<and>
     (\<forall>bs. length bs = 16 \<longrightarrow> pulls (\<lambda>d i. apfst Some (ndr_pull_GUID G d i)) bs bs) \<and>
     (\<forall>d i. length (fst (ndr_pull_GUID G d i)) = 16) \<and>
     (\<forall>bs. length bs < 2 ^ 16 \<longrightarrow> pulls (ndr_pull_SBinary_short G) (short_bytes bs) bs) \<and>
     (\<forall>xs. pulls (ndr_pull_mapi_MV_LONG_STRUCT G) (long_bytes xs) xs) \<and>
     (\<forall>bss. (\<forall>bs\<in>set bss. length bs < 2 ^ 16) \<longrightarrow>
        pulls (ndr_pull_mapi_SBinaryArray G) (le_bytes 4 (of_nat (length bss) :: u32) @ concat (map short_bytes bss)) bss) \<and>
     (\<forall>ss. (\<forall>s\<in>set ss. pulls (ndr_pull_utf16 G) (ndr_push_utf16 G s) s) \<longrightarrow>
        pulls (ndr_pull_mapi_SLPSTRArrayW G) (le_bytes 4 (of_nat (length ss) :: u32) @ concat (map (ndr_push_utf16 G) ss)) ss)"

section \<open>The server: pushing a property\<close>

text \<open>The bytes of a value. The count of a binary is cut to 16 bits.\<close>

definition push_short_binary :: "'g row_lib \<Rightarrow> u8 list \<Rightarrow> u8 list" where
  "push_short_binary G bs = ndr_push_SBinary_short G (of_nat (length bs)) bs"

definition push_property_data :: "'g row_lib \<Rightarrow> u32 \<Rightarrow> 'g fx_data \<Rightarrow> u8 list outcome" where
  "push_property_data G property v =
     (let t = prop_type property in
      if t = PT_SHORT then (case v of FxShort x \<Rightarrow> Ok (ndr_push_uint16 G x) | _ \<Rightarrow> Fault)
      else if t = PT_LONG \<or> t = PT_ERROR \<or> t = PT_OBJECT then (case v of FxLong x \<Rightarrow> Ok (ndr_push_uint32 G x) | _ \<Rightarrow> Fault)
      else if t = PT_DOUBLE then (case v of FxDouble x \<Rightarrow> Ok (ndr_push_double G x) | _ \<Rightarrow> Fault)
      else if t = PT_I8 then (case v of FxI8 x \<Rightarrow> Ok (ndr_push_dlong G x) | _ \<Rightarrow> Fault)
      else if t = PT_BOOLEAN then (case v of FxBoolean x \<Rightarrow> Ok [x] | _ \<Rightarrow> Fault)
      else if t = PT_STRING8 then
        (case v of FxString s \<Rightarrow> Ok (ndr_push_ascii G s) | FxNullPtr \<Rightarrow> Ok (ndr_push_null_text G True) | _ \<Rightarrow> Fault)
      else if t = PT_UNICODE then
        (case v of FxString s \<Rightarrow> Ok (ndr_push_utf16 G s) | FxNullPtr \<Rightarrow> Ok (ndr_push_null_text G False) | _ \<Rightarrow> Fault)
      else if t = PT_BINARY \<or> t = PT_SVREID then (case v of FxBinary bs \<Rightarrow> Ok (push_short_binary G bs) | _ \<Rightarrow> Fault)
      else if t = PT_CLSID then (case v of FxClsid g \<Rightarrow> Ok (ndr_push_GUID G g) | _ \<Rightarrow> Fault)
      else if t = PT_SYSTIME then (case v of FxSysTime ft \<Rightarrow> Ok (ndr_push_FILETIME G ft) | _ \<Rightarrow> Fault)
      else if t = PT_MV_LONG then (case v of FxLongArray xs \<Rightarrow> Ok (ndr_push_mapi_MV_LONG_STRUCT G xs) | _ \<Rightarrow> Fault)
      else if t = PT_MV_UNICODE then (case v of FxStringArrayW ss \<Rightarrow> Ok (ndr_push_mapi_SLPSTRArrayW G ss) | _ \<Rightarrow> Fault)
      else if t = PT_MV_BINARY then
        (case v of FxBinaryArray bss \<Rightarrow> Ok (ndr_push_uint32 G (of_nat (length bss)) @ concat (map (push_short_binary G) bss)) | _ \<Rightarrow> Fault)
      else if property \<noteq> 0 then Abort
      else Ok [])"

text \<open>What stands before the value; the flag says that nothing follows.\<close>

definition property_flag :: "u32 \<Rightarrow> u8 \<Rightarrow> bool \<Rightarrow> u8 list \<times> bool" where
  "property_flag property layout flagged =
     (if flagged then
        if prop_type property = PT_ERROR then
          if layout = 1 then ([layout], True) else if layout = 0xa then ([0xa], False) else ([], False)
        else ([0], False)
      else if layout \<noteq> 0 then (if prop_type property = PT_ERROR then ([0xa], False) else ([0], False))
      else ([], False))"

definition libmapiserver_push_property ::
  "'g row_lib \<Rightarrow> u32 \<Rightarrow> 'g fx_data \<Rightarrow> u8 list \<Rightarrow> u8 \<Rightarrow> bool \<Rightarrow> bool \<Rightarrow> u8 list outcome" where
  "libmapiserver_push_property G property v blob layout flagged untyped =
     (let typed = (if untyped then ndr_push_uint16 G (ucast (prop_type property)) else []);
          fl = property_flag property layout flagged
      in if snd fl then Ok (blob @ typed @ fst fl)
         else obind (push_property_data G property v) (\<lambda>bs. Ok (blob @ typed @ fst fl @ bs)))"

text \<open>A column of a row: the tag that was asked for, the data pointer and the status. An error is pushed as a property of type
  \<open>PT_ERROR\<close> with the status as its value.\<close>

type_synonym 'g column = "u32 \<times> 'g fx_data \<times> u32"

definition pushed_property :: "'g column \<Rightarrow> u32 \<times> 'g fx_data" where
  "pushed_property c =
     (case c of (ptag, v, retval) \<Rightarrow> if retval \<noteq> 0 then (prop_id ptag + PT_ERROR, FxLong retval) else (ptag, v))"

fun push_columns :: "'g row_lib \<Rightarrow> bool \<Rightarrow> ('g column \<times> bool) list \<Rightarrow> u8 list \<Rightarrow> u8 list outcome" where
  "push_columns G flagged [] blob = Ok blob"
| "push_columns G flagged ((c, untyped) # cs) blob =
     obind (libmapiserver_push_property G (fst (pushed_property c)) (snd (pushed_property c)) blob (if flagged then 0xa else 0) flagged untyped)
       (push_columns G flagged cs)"

definition emsmdbp_fill_table_row_blob :: "'g row_lib \<Rightarrow> 'g column list \<Rightarrow> u8 list \<Rightarrow> u8 list outcome" where
  "emsmdbp_fill_table_row_blob G cols table_row =
     (let flagged = list_ex (\<lambda>(_, _, retval). retval \<noteq> 0) cols in
      obind (if flagged then libmapiserver_push_property G 0xb (FxBoolean 1) table_row 0 False False
             else libmapiserver_push_property G 0 (FxBoolean 0) table_row 0 True False)
        (push_columns G flagged (map (\<lambda>c. (c, False)) cols)))"

text \<open>The layout of the reply and the blob.\<close>

definition emsmdbp_fill_row_blob :: "'g row_lib \<Rightarrow> ('g column \<times> bool) list \<Rightarrow> u8 list \<Rightarrow> (bool \<times> u8 list) outcome" where
  "emsmdbp_fill_row_blob G cols property_row =
     (let flagged = list_ex (\<lambda>((_, v, retval), untyped). retval \<noteq> 0 \<or> untyped \<or> v = FxNullPtr) cols in
      obind (push_columns G flagged cols property_row) (\<lambda>blob. Ok (flagged, blob)))"

section \<open>The client: pulling properties\<close>

definition or_zero :: "'a::zero option \<Rightarrow> 'a" where
  "or_zero v = (case v of None \<Rightarrow> 0 | Some x \<Rightarrow> x)"

definition pulled :: "('a \<Rightarrow> prop_value) \<Rightarrow> 'a option \<times> nat \<Rightarrow> (prop_ptr \<times> nat) outcome" where
  "pulled c r = (case r of (None, i) \<Rightarrow> Fault | (Some x, i) \<Rightarrow> Ok (PMember (c x), i))"

definition pulled_text :: "(u8 list \<Rightarrow> prop_value) \<Rightarrow> u8 list option \<times> nat \<Rightarrow> (prop_ptr \<times> nat) outcome" where
  "pulled_text c r = (case r of (None, i) \<Rightarrow> Ok (PNull, i) | (Some s, i) \<Rightarrow> Ok (PMember (c s), i))"

text \<open>A scalar that cannot be read is 0 and a string a null pointer; a structure on the stack, which is uninitialised then, is
  copied nevertheless.\<close>

definition pull_emsmdb_property :: "'g row_lib \<Rightarrow> nat \<Rightarrow> u32 \<Rightarrow> u8 list \<Rightarrow> (prop_ptr \<times> nat) outcome" where
  "pull_emsmdb_property G offset ptag data =
     (let t = prop_type ptag in
      if t = PT_SHORT then (case ndr_pull_uint16 G data offset of (v, i) \<Rightarrow> Ok (PMember (VShort (or_zero v)), i))
      else if t = PT_ERROR then (case ndr_pull_uint32 G data offset of (v, i) \<Rightarrow> Ok (PMember (VError (or_zero v)), i))
      else if t = PT_LONG then (case ndr_pull_uint32 G data offset of (v, i) \<Rightarrow> Ok (PMember (VLong (or_zero v)), i))
      else if t = PT_BOOLEAN then (case ndr_pull_uint8 G data offset of (v, i) \<Rightarrow> Ok (PMember (VBoolean (or_zero v)), i))
      else if t = PT_I8 then (case ndr_pull_hyper G data offset of (v, i) \<Rightarrow> Ok (PMember (VI8 (or_zero v)), i))
      else if t = PT_DOUBLE then (case ndr_pull_double G data offset of (v, i) \<Rightarrow> Ok (PMember (VDouble (or_zero v)), i))
      else if t = PT_UNICODE then pulled_text VUnicode (ndr_pull_utf16 G data offset)
      else if t = PT_STRING8 then pulled_text VString8 (ndr_pull_raw8 G data offset)
      else if t = PT_SYSTIME then
        (case ndr_pull_hyper G data offset of (v, i) \<Rightarrow>
           Ok (PMember (VSysTime (ucast (or_zero v), ucast (drop_bit 32 (or_zero v)))), i))
      else if t = PT_CLSID then (case ndr_pull_GUID G data offset of (v, i) \<Rightarrow> Ok (PMember (VClsid v), i))
      else if t = PT_SVREID \<or> t = PT_BINARY then pulled VBinary (ndr_pull_SBinary_short G data offset)
      else if t = PT_MV_LONG then pulled VMVLong (ndr_pull_mapi_MV_LONG_STRUCT G data offset)
      else if t = PT_MV_STRING8 then pulled VMVString8 (ndr_pull_mapi_SLPSTRArray G data offset)
      else if t = PT_MV_UNICODE then pulled VMVUnicode (ndr_pull_mapi_SLPSTRArrayW G data offset)
      else if t = PT_MV_BINARY then pulled VMVBinary (ndr_pull_mapi_SBinaryArray G data offset)
      else Ok (PNull, offset))"

definition error_tag :: "u32 \<Rightarrow> u32" where
  "error_tag ptag = prop_id ptag OR PT_ERROR"

text \<open>A flag in front of a property may turn its tag into one of an error.\<close>

fun get_values :: "'g row_lib \<Rightarrow> bool \<Rightarrow> u8 list \<Rightarrow> nat \<Rightarrow> u32 list \<Rightarrow> (SRow \<times> u32 list) outcome" where
  "get_values G flag content offset [] = Ok ([], [])"
| "get_values G flag content offset (ptag # tags) =
     obind (if flag then obind (rd content offset) (\<lambda>b. Ok (if b = 0xa then error_tag ptag else ptag, offset + 1)) else Ok (ptag, offset))
       (\<lambda>(ptag', offset').
     obind (pull_emsmdb_property G offset' ptag' content) (\<lambda>(data, offset'').
     obind (if data = PNull then Ok [] else obind (set_SPropValue ptag' data) (\<lambda>(_, p). Ok [p])) (\<lambda>ps.
     obind (get_values G flag content offset'' tags) (\<lambda>(row, tags'). Ok (ps @ row, ptag' # tags')))))"

text \<open>The properties, followed by one with the tag 0 that is not counted, and the tags, which are changed in place.\<close>

definition emsmdb_get_SPropValue :: "'g row_lib \<Rightarrow> prop_value \<Rightarrow> u8 list \<Rightarrow> u32 list \<Rightarrow> bool \<Rightarrow> (SRow \<times> nat \<times> u32 list) outcome" where
  "emsmdb_get_SPropValue G junk content tags flag =
     obind (get_values G flag content 0 tags) (\<lambda>(row, tags').
     Ok (row @ [\<lparr>ulPropTag = 0, pvalue = junk\<rparr>], length row, tags'))"

text \<open>The properties of one row. The value of a property whose flag is 1 is left as it is in the memory that was allocated, \<open>junk\<close>.\<close>

fun row_values :: "'g row_lib \<Rightarrow> prop_value \<Rightarrow> bool \<Rightarrow> u8 list \<Rightarrow> nat \<Rightarrow> u32 list \<Rightarrow> (SRow \<times> nat \<times> nat) outcome" where
  "row_values G junk flagged content offset [] = Ok ([], 0, offset)"
| "row_values G junk flagged content offset (ptag # tags) =
     obind (if flagged
            then obind (rd content offset) (\<lambda>flag. Ok (if flag = 0xa then error_tag ptag else ptag, flag \<noteq> 1, offset + 1))
            else Ok (ptag, True, offset)) (\<lambda>(ptag', havePropertyValue, offset').
     obind (if havePropertyValue
            then obind (pull_emsmdb_property G offset' ptag' content) (\<lambda>(data, offset'').
                 obind (set_SPropValue ptag' data) (\<lambda>(_, p). Ok (p, 1, offset'')))
            else Ok (\<lparr>ulPropTag = ptag', pvalue = junk\<rparr>, 0, offset')) (\<lambda>(p, n, offset'').
     obind (row_values G junk flagged content offset'' tags) (\<lambda>(row, m, offset3). Ok (p # row, n + m, offset3))))"

definition emsmdb_get_SPropValue_offset ::
  "'g row_lib \<Rightarrow> prop_value \<Rightarrow> u8 list \<Rightarrow> u32 list \<Rightarrow> nat \<Rightarrow> (SRow \<times> nat \<times> nat) outcome" where
  "emsmdb_get_SPropValue_offset G junk content tags offset =
     obind (rd content offset) (\<lambda>b. row_values G junk (b = 1) content (offset + 1) tags)"

fun get_rows :: "'g row_lib \<Rightarrow> prop_value \<Rightarrow> u32 list \<Rightarrow> u8 list \<Rightarrow> nat \<Rightarrow> nat \<Rightarrow> SRowSet outcome" where
  "get_rows G junk proptags content 0 offset = Ok []"
| "get_rows G junk proptags content (Suc n) offset =
     obind (rd content offset) (\<lambda>b.
     obind (row_values G junk (b = 1) content (offset + 1) proptags) (\<lambda>(row, _, offset').
     obind (get_rows G junk proptags content n offset') (\<lambda>rows. Ok (row # rows))))"

definition emsmdb_get_SRowSet :: "'g row_lib \<Rightarrow> prop_value \<Rightarrow> nat \<Rightarrow> u32 list \<Rightarrow> u8 list \<Rightarrow> SRowSet outcome" where
  "emsmdb_get_SRowSet G junk cRows proptags content = get_rows G junk proptags content cRows 0"

text \<open>The row of a recipient, where the number of properties comes from the reply and the tags from the table of columns.\<close>

fun recipient_values :: "'g row_lib \<Rightarrow> u32 list \<Rightarrow> nat \<Rightarrow> nat \<Rightarrow> u8 list \<Rightarrow> bool \<Rightarrow> nat \<Rightarrow> nat \<Rightarrow> SRow outcome" where
  "recipient_values G proptags i 0 content flag align offset = Ok []"
| "recipient_values G proptags i (Suc n) content flag align offset =
     obind (rd proptags i) (\<lambda>ptag.
     obind (if flag then obind (rd content offset) (\<lambda>b. Ok (if b = 0xa then error_tag ptag else ptag, offset + align)) else Ok (ptag, offset))
       (\<lambda>(ptag', offset').
     obind (pull_emsmdb_property G offset' ptag' content) (\<lambda>(data, offset'').
     obind (set_SPropValue ptag' data) (\<lambda>(_, p).
     obind (recipient_values G proptags (i + 1) n content flag align offset'') (\<lambda>row. Ok (p # row))))))"

definition emsmdb_get_SRow :: "'g row_lib \<Rightarrow> u32 list \<Rightarrow> u16 \<Rightarrow> u8 list \<Rightarrow> bool \<Rightarrow> u8 \<Rightarrow> SRow outcome" where
  "emsmdb_get_SRow G proptags propcount content flag align =
     recipient_values G proptags 0 (unat propcount) content flag (unat align) 0"

end
