(* ===== verification/Tables.thy ===== *)
theory Tables
  imports Row_Blobs Mapi_Handles Replica
begin

unbundle bit_operations_syntax

text \<open>
  The table calls of the server, \<^verbatim>\<open>src/mapiproxy/servers/default/emsmdb/oxctabl.c\<close>: a table is a cursor on the rows of a folder. The
  rows come from a mapistore backend or from openchangedb, whose functions are fields of \<open>table_env\<close>; so are the rows of a table that shows a
  hierarchy in depth, and the subscription to notifications. The calls find the table through the handles of the session. At the
  end stands the call of the client (\<^verbatim>\<open>QueryRows\<close> of \<^verbatim>\<open>src/libmapi/IMAPITable.c\<close>).
\<close>

section \<open>Tables and their rows\<close>

datatype table_kind =
    MAPISTORE_FOLDER_TABLE | MAPISTORE_MESSAGE_TABLE | MAPISTORE_FAI_TABLE | MAPISTORE_RULE_TABLE
  | MAPISTORE_ATTACHMENT_TABLE | MAPISTORE_PERMISSIONS_TABLE

text \<open>The columns are a list; \<^verbatim>\<open>prop_count\<close> is its length.\<close>

record emsmdbp_object_table =
  ulType :: table_kind
  restricted :: bool
  columns :: "u32 list"
  numerator :: u32
  denominator :: u32
  table_flags :: u8
  subscription :: bool

text \<open>The object a table was opened on, with the identifier of its folder.\<close>

datatype table_parent = ParentMailbox u64 | ParentFolder u64 | ParentOther

record 'b table_object =
  tbl :: emsmdbp_object_table
  backend_object :: 'b
  is_mapistore :: bool
  parent_object :: table_parent

datatype 'b session_object = TableObject "'b table_object" | OtherObject

record ('h, 'b) table_session =
  tbl_handles :: "('h, nat) mapi_handles_context"
  tbl_objects :: "nat \<Rightarrow> 'b session_object option"

text \<open>The functions of a backend: \<open>'r\<close> are restrictions, \<open>'s\<close> sort orders. A row of mapistore gives for each column a data pointer and an error;
  \<open>odb_row\<close> gives those of openchangedb with their MAPI status. A row is asked for with or without the restriction that \<^verbatim>\<open>FindRow\<close> sets.\<close>

record ('h, 'b, 'r, 's, 'g) table_env =
  te_tdb :: "'h tdb_lib"
  te_lib :: "'g row_lib"
  set_columns :: "'b \<Rightarrow> u32 list \<Rightarrow> 'b"
  set_restrictions :: "'b \<Rightarrow> 'r option \<Rightarrow> mapistore_error \<times> u8 \<times> 'b"
  set_sort_order :: "'b \<Rightarrow> 's \<Rightarrow> mapistore_error \<times> u8 \<times> 'b"
  row_count :: "'b \<Rightarrow> u32 option"
  get_row :: "'b \<Rightarrow> bool \<Rightarrow> u32 \<Rightarrow> ('g fx_data \<times> mapistore_error) list option"
  odb_row :: "'b \<Rightarrow> table_parent \<Rightarrow> table_kind \<Rightarrow> u32 list \<Rightarrow> bool \<Rightarrow> u32 \<Rightarrow> ('g fx_data \<times> u32) list option"
  odb_set_restrictions :: "'b \<Rightarrow> 'r option \<Rightarrow> 'b"
  odb_set_sort_order :: "'b \<Rightarrow> 's \<Rightarrow> u32 \<times> 'b"
  depth_rows :: "'b table_object \<Rightarrow> int \<Rightarrow> u32 \<times> u8 list \<times> u32"
  subscribe :: "u32 \<Rightarrow> u16 \<Rightarrow> u64 \<Rightarrow> u32 list \<Rightarrow> mapistore_error"

abbreviation E_NOT_FOUND :: u32 where "E_NOT_FOUND \<equiv> 0x8004010F"
abbreviation E_NO_SUPPORT :: u32 where "E_NO_SUPPORT \<equiv> 0x80040102"
abbreviation E_UNKNOWN_FLAGS :: u32 where "E_UNKNOWN_FLAGS \<equiv> 0x80040106"
abbreviation E_INVALID_OBJECT :: u32 where "E_INVALID_OBJECT \<equiv> 0x80040108"

definition mapistore_error_to_mapi :: "mapistore_error \<Rightarrow> u32" where
  "mapistore_error_to_mapi e =
     (case e of
        MAPISTORE_SUCCESS \<Rightarrow> 0
      | MAPISTORE_ERROR \<Rightarrow> E_NO_SUPPORT
      | MAPISTORE_ERR_NO_MEMORY \<Rightarrow> 0x8007000E
      | MAPISTORE_ERR_ALREADY_INITIALIZED \<Rightarrow> 0x80040605
      | MAPISTORE_ERR_NOT_INITIALIZED \<Rightarrow> 0x80040605
      | MAPISTORE_ERR_CORRUPTED \<Rightarrow> 0x80040600
      | MAPISTORE_ERR_INVALID_PARAMETER \<Rightarrow> 0x80070057
      | MAPISTORE_ERR_NO_DIRECTORY \<Rightarrow> 0x80040116
      | MAPISTORE_ERR_DATABASE_INIT \<Rightarrow> 0x80040116
      | MAPISTORE_ERR_DATABASE_OPS \<Rightarrow> 0x80040116
      | MAPISTORE_ERR_BACKEND_REGISTER \<Rightarrow> 0x80040116
      | MAPISTORE_ERR_BACKEND_INIT \<Rightarrow> 0x80040116
      | MAPISTORE_ERR_CONTEXT_FAILED \<Rightarrow> 0x80040116
      | MAPISTORE_ERR_INVALID_NAMESPACE \<Rightarrow> 0x80040116
      | MAPISTORE_ERR_NOT_FOUND \<Rightarrow> E_NOT_FOUND
      | MAPISTORE_ERR_REF_COUNT \<Rightarrow> 0x80040604
      | MAPISTORE_ERR_EXIST \<Rightarrow> 0x80040604
      | MAPISTORE_ERR_INVALID_DATA \<Rightarrow> 0x80040116
      | MAPISTORE_ERR_MSG_SEND \<Rightarrow> 0x80040116
      | MAPISTORE_ERR_MSG_RCV \<Rightarrow> 0x80040116
      | MAPISTORE_ERR_DENIED \<Rightarrow> 0x80070005
      | MAPISTORE_ERR_NOT_IMPLEMENTED \<Rightarrow> 0x80040FFF
      | _ \<Rightarrow> 0x80070057)"

definition row_status :: "'g fx_data \<times> mapistore_error \<Rightarrow> 'g fx_data \<times> u32" where
  "row_status r =
     (case r of (v, err) \<Rightarrow>
        (v, if err \<noteq> MAPISTORE_SUCCESS then mapistore_error_to_mapi err else if v = FxNullPtr then E_NOT_FOUND else 0))"

text \<open>\<open>None\<close> is a null pointer: there is no such row. A backend that gives fewer values than there are columns is read beyond them.\<close>

definition emsmdbp_object_table_get_row_props ::
  "('h, 'b, 'r, 's, 'g) table_env \<Rightarrow> 'b table_object \<Rightarrow> u32 \<Rightarrow> bool \<Rightarrow> 'g column list option outcome" where
  "emsmdbp_object_table_get_row_props E ob row_id live =
     (case (if is_mapistore ob then map_option (map row_status) (get_row E (backend_object ob) live row_id)
           else odb_row E (backend_object ob) (parent_object ob) (ulType (tbl ob)) (columns (tbl ob)) live row_id) of
        None \<Rightarrow> Ok None
      | Some vs \<Rightarrow> if length vs < length (columns (tbl ob)) then Fault else Ok (Some (zip (columns (tbl ob)) vs)))"

section \<open>Finding the table\<close>

text \<open>The code for an object that is no table is an argument; the calls differ in it. The table is changed in place.\<close>

definition with_table ::
  "'h tdb_lib \<Rightarrow> ('h, 'b) table_session \<Rightarrow> u32 list \<Rightarrow> nat \<Rightarrow> u32 \<Rightarrow> 'a \<Rightarrow>
     (u32 \<Rightarrow> 'b table_object \<Rightarrow> (u32 \<times> 'a \<times> 'b table_object) outcome) \<Rightarrow> (u32 \<times> 'a \<times> ('h, 'b) table_session) outcome" where
  "with_table T ctx hs handle_idx no_table no_reply f =
     obind (rd hs handle_idx) (\<lambda>h.
     case mapi_handles_search T (tbl_handles ctx) h of
       (MAPI_E_SUCCESS, Some el) \<Rightarrow>
         (case snd (mapi_handles_get_private_data el) of
            None \<Rightarrow> Ok (E_NOT_FOUND, no_reply, ctx)
          | Some p \<Rightarrow>
              (case tbl_objects ctx p of
                 Some (TableObject ob) \<Rightarrow>
                   obind (f h ob) (\<lambda>(error_code, reply, ob').
                   Ok (error_code, reply, ctx\<lparr>tbl_objects := (tbl_objects ctx)(p \<mapsto> TableObject ob')\<rparr>))
               | _ \<Rightarrow> Ok (no_table, no_reply, ctx)))
     | _ \<Rightarrow> Ok (E_INVALID_OBJECT, no_reply, ctx))"

section \<open>The calls\<close>

text \<open>Whether the object is a table is not tested here: the union of another object is read as one.\<close>

definition table_set_columns ::
  "('h, 'b, 'r, 's, 'g) table_env \<Rightarrow> u32 list \<Rightarrow> 'b table_object \<Rightarrow> 'b table_object" where
  "table_set_columns E tags ob =
     (if ulType (tbl ob) = MAPISTORE_RULE_TABLE then ob
      else if tags = [] then ob
      else
        let ob1 = ob\<lparr>tbl := (tbl ob)\<lparr>columns := tags\<rparr>\<rparr> in
        if is_mapistore ob then ob1\<lparr>backend_object := set_columns E (backend_object ob) tags\<rparr> else ob1)"

definition EcDoRpc_RopSetColumns ::
  "('h, 'b, 'r, 's, 'g) table_env \<Rightarrow> ('h, 'b) table_session \<Rightarrow> u32 list \<Rightarrow> nat \<Rightarrow> u32 list \<Rightarrow> (u32 \<times> unit \<times> ('h, 'b) table_session) outcome" where
  "EcDoRpc_RopSetColumns E ctx hs handle_idx tags =
     obind (rd hs handle_idx) (\<lambda>h.
     case mapi_handles_search (te_tdb E) (tbl_handles ctx) h of
       (MAPI_E_SUCCESS, Some el) \<Rightarrow>
         (case snd (mapi_handles_get_private_data el) of
            None \<Rightarrow> Ok (E_NOT_FOUND, (), ctx)
          | Some p \<Rightarrow>
              (case tbl_objects ctx p of
                 Some (TableObject ob) \<Rightarrow> Ok (0, (), ctx\<lparr>tbl_objects := (tbl_objects ctx)(p \<mapsto> TableObject (table_set_columns E tags ob))\<rparr>)
               | _ \<Rightarrow> Fault))
     | _ \<Rightarrow> Ok (E_INVALID_OBJECT, (), ctx))"

definition table_sort :: "('h, 'b, 'r, 's, 'g) table_env \<Rightarrow> 's \<Rightarrow> 'b table_object \<Rightarrow> u32 \<times> u8 \<times> 'b table_object" where
  "table_sort E lpSortCriteria ob =
     (if ulType (tbl ob) \<noteq> MAPISTORE_MESSAGE_TABLE \<and> ulType (tbl ob) \<noteq> MAPISTORE_FAI_TABLE then (E_NO_SUPPORT, 0, ob)
      else
        let ob1 = ob\<lparr>tbl := (tbl ob)\<lparr>numerator := 0\<rparr>\<rparr> in
        if is_mapistore ob then
          (case set_sort_order E (backend_object ob) lpSortCriteria of (mretval, status, b) \<Rightarrow>
             if mretval \<noteq> MAPISTORE_SUCCESS then (mapistore_error_to_mapi mretval, 0, ob1\<lparr>backend_object := b\<rparr>)
             else (0, status, ob1\<lparr>backend_object := b\<rparr>))
        else (case odb_set_sort_order E (backend_object ob) lpSortCriteria of (retval, b) \<Rightarrow> (retval, 0, ob1\<lparr>backend_object := b\<rparr>)))"

abbreviation TBL_ASYNC :: u8 where "TBL_ASYNC \<equiv> 1"

definition EcDoRpc_RopSortTable where
  "EcDoRpc_RopSortTable E ctx hs handle_idx (SortTableFlags :: u8) lpSortCriteria =
     (if SortTableFlags AND TBL_ASYNC \<noteq> 0 then Ok (E_UNKNOWN_FLAGS, 0, ctx)
      else with_table (te_tdb E) ctx hs handle_idx E_INVALID_OBJECT 0 (\<lambda>_ ob. Ok (table_sort E lpSortCriteria ob)))"

definition update_count :: "('h, 'b, 'r, 's, 'g) table_env \<Rightarrow> 'b table_object \<Rightarrow> 'b table_object" where
  "update_count E ob = (case row_count E (backend_object ob) of None \<Rightarrow> ob | Some n \<Rightarrow> ob\<lparr>tbl := (tbl ob)\<lparr>denominator := n\<rparr>\<rparr>)"

fun position_of :: "'a \<Rightarrow> 'a list \<Rightarrow> nat" where
  "position_of x [] = 0"
| "position_of x (y # ys) = (if x = y then 0 else Suc (position_of x ys))"

text \<open>The numbers of the enumeration.\<close>

definition mapistore_errno :: "mapistore_error \<Rightarrow> u32" where
  "mapistore_errno e =
     of_nat (position_of e [MAPISTORE_SUCCESS, MAPISTORE_ERROR, MAPISTORE_ERR_NO_MEMORY, MAPISTORE_ERR_ALREADY_INITIALIZED,
       MAPISTORE_ERR_NOT_INITIALIZED, MAPISTORE_ERR_CORRUPTED, MAPISTORE_ERR_INVALID_PARAMETER, MAPISTORE_ERR_NO_DIRECTORY,
       MAPISTORE_ERR_DATABASE_INIT, MAPISTORE_ERR_DATABASE_OPS, MAPISTORE_ERR_BACKEND_REGISTER, MAPISTORE_ERR_BACKEND_INIT,
       MAPISTORE_ERR_CONTEXT_FAILED, MAPISTORE_ERR_INVALID_NAMESPACE, MAPISTORE_ERR_INVALID_URI, MAPISTORE_ERR_NOT_FOUND,
       MAPISTORE_ERR_REF_COUNT, MAPISTORE_ERR_EXIST, MAPISTORE_ERR_INVALID_DATA, MAPISTORE_ERR_MSG_SEND, MAPISTORE_ERR_MSG_RCV,
       MAPISTORE_ERR_DENIED, MAPISTORE_ERR_CONN_REFUSED, MAPISTORE_ERR_NOT_AVAILABLE, MAPISTORE_ERR_NOT_IMPLEMENTED])"

text \<open>The error of the backend is passed on by its number, without being translated.\<close>

definition table_restrict ::
  "('h, 'b, 'r, 's, 'g) table_env \<Rightarrow> 'r \<Rightarrow> 'b table_object \<Rightarrow> u32 \<times> u8 \<times> 'b table_object" where
  "table_restrict E restrictions ob =
     (let ob1 = ob\<lparr>tbl := (tbl ob)\<lparr>restricted := True\<rparr>\<rparr> in
      if ulType (tbl ob) = MAPISTORE_RULE_TABLE then (0, 0, ob1)
      else if is_mapistore ob then
        (case set_restrictions E (backend_object ob) (Some restrictions) of (mretval, status, b) \<Rightarrow>
           if mretval \<noteq> MAPISTORE_SUCCESS then (mapistore_errno mretval, 0, ob1\<lparr>backend_object := b\<rparr>)
           else (0, status, update_count E (ob1\<lparr>backend_object := b, tbl := (tbl ob1)\<lparr>numerator := 0\<rparr>\<rparr>)))
      else (0, 0, ob1))"

definition EcDoRpc_RopRestrict where
  "EcDoRpc_RopRestrict E ctx hs handle_idx restrictions =
     with_table (te_tdb E) ctx hs handle_idx E_INVALID_OBJECT 0 (\<lambda>_ ob. Ok (table_restrict E restrictions ob))"

subsection \<open>Reading rows\<close>

record QueryRows_req =
  NoAdvance :: bool
  ForwardRead :: bool
  RowCount :: u16

datatype bookmark = BOOKMARK_BEGINNING | BOOKMARK_CURRENT | BOOKMARK_END | BOOKMARK_USER

record QueryRows_repl =
  rows_origin :: bookmark
  rows_count :: u16
  rows_data :: "u8 list"

text \<open>Where reading stops. The sum is one of unsigned numbers and may wrap.\<close>

definition query_end :: "QueryRows_req \<Rightarrow> emsmdbp_object_table \<Rightarrow> int" where
  "query_end req t =
     (if ForwardRead req then min (uint (numerator t + ucast (RowCount req))) (uint (denominator t))
      else if numerator t < ucast (RowCount req) then -1
      else uint (numerator t) - uint (RowCount req))"

text \<open>The loop runs until the index is the end, or there is no row; then what was read is dropped. The index is a signed number of 64 bits.\<close>

function query_loop ::
  "('h, 'b, 'r, 's, 'g) table_env \<Rightarrow> 'b table_object \<Rightarrow> bool \<Rightarrow> int \<Rightarrow> int \<Rightarrow> u32 \<Rightarrow> u8 list \<Rightarrow> (int \<times> u32 \<times> u8 list) outcome" where
  "query_loop E ob forward stop i n blob =
     (if i = stop then Ok (i, n, blob)
      else
        obind (emsmdbp_object_table_get_row_props E ob (of_int i) False) (\<lambda>row.
        case row of
          None \<Rightarrow> Ok (i, 0, blob)
        | Some cols \<Rightarrow>
            obind (emsmdbp_fill_table_row_blob (te_lib E) cols blob) (\<lambda>blob'.
            if forward then (if 2 ^ 63 - 1 \<le> i then Fault else query_loop E ob forward stop (i + 1) (n + 1) blob')
            else if i \<le> - (2 ^ 63) then Fault else query_loop E ob forward stop (i - 1) (n + 1) blob')))"
  by pat_completeness auto
termination
  by (relation "measure (\<lambda>(E, ob, forward, stop, i, n, blob). if forward then nat (2 ^ 63 - i) else nat (i + 2 ^ 63))") auto

declare query_loop.simps [simp del]

abbreviation TableFlags_Depth :: u8 where "TableFlags_Depth \<equiv> 4"
abbreviation fnevTableModified :: u16 where "fnevTableModified \<equiv> 0x100"

definition is_depth :: "emsmdbp_object_table \<Rightarrow> bool" where
  "is_depth t \<longleftrightarrow> table_flags t AND TableFlags_Depth \<noteq> 0"

text \<open>The rows of a table in depth are read from its beginning, and its cursor stays there.\<close>

definition query_fetch ::
  "('h, 'b, 'r, 's, 'g) table_env \<Rightarrow> QueryRows_req \<Rightarrow> 'b table_object \<Rightarrow> (int \<times> u32 \<times> u8 list) outcome" where
  "query_fetch E req ob =
     (let t = tbl ob in
      if ulType t = MAPISTORE_RULE_TABLE then Ok (0, 0, [])
      else if is_depth t then
        (if numerator t = 0 then
           (case depth_rows E ob (query_end req t) of (retval, blob, n) \<Rightarrow> if retval \<noteq> 0 then Ok (0, 0, blob) else Ok (0, n, blob))
         else Ok (0, 0, []))
      else query_loop E ob (ForwardRead req) (query_end req t) (uint (numerator t)) 0 [])"

definition query_origin :: "QueryRows_req \<Rightarrow> emsmdbp_object_table \<Rightarrow> int \<Rightarrow> u32 \<Rightarrow> bookmark" where
  "query_origin req t i n =
     (let far = (if ForwardRead req then BOOKMARK_END else BOOKMARK_BEGINNING) in
      if n \<noteq> 0 then
        if n < ucast (RowCount req) then far
        else if denominator t - 2 < numerator t then BOOKMARK_END
        else if i < 0 then BOOKMARK_BEGINNING
        else BOOKMARK_CURRENT
      else if restricted t then BOOKMARK_BEGINNING
      else far)"

definition query_subscribe :: "('h, 'b, 'r, 's, 'g) table_env \<Rightarrow> u32 \<Rightarrow> 'b table_object \<Rightarrow> 'b table_object" where
  "query_subscribe E h ob =
     (let t = tbl ob;
          (fl, folderID) = (case parent_object ob of
              ParentMailbox fid \<Rightarrow> (if is_depth t then 1 else 0, fid)
            | ParentFolder fid \<Rightarrow> (0, fid)
            | ParentOther \<Rightarrow> (0, 0))
      in if folderID = 0 then ob
         else if subscribe E h (fl OR fnevTableModified) folderID (columns t) \<noteq> MAPISTORE_SUCCESS then ob
         else ob\<lparr>tbl := t\<lparr>subscription := True\<rparr>\<rparr>)"

definition table_query_rows ::
  "('h, 'b, 'r, 's, 'g) table_env \<Rightarrow> QueryRows_req \<Rightarrow> u32 \<Rightarrow> 'b table_object \<Rightarrow> (u32 \<times> QueryRows_repl \<times> 'b table_object) outcome" where
  "table_query_rows E req h ob =
     obind (query_fetch E req ob) (\<lambda>(i, n, blob).
     let t = (if NoAdvance req then tbl ob else (tbl ob)\<lparr>numerator := (if i < 0 then 0 else of_int i)\<rparr>);
         ob1 = ob\<lparr>tbl := t\<rparr>
     in Ok (0, \<lparr>rows_origin = query_origin req t i n, rows_count = ucast n, rows_data = (if n \<noteq> 0 then blob else [])\<rparr>,
            query_subscribe E h ob1))"

abbreviation no_rows :: QueryRows_repl where
  "no_rows \<equiv> \<lparr>rows_origin = BOOKMARK_BEGINNING, rows_count = 0, rows_data = []\<rparr>"

definition EcDoRpc_RopQueryRows where
  "EcDoRpc_RopQueryRows E ctx hs handle_idx req =
     with_table (te_tdb E) ctx hs handle_idx E_NOT_FOUND no_rows (table_query_rows E req)"

subsection \<open>The cursor\<close>

definition EcDoRpc_RopQueryPosition where
  "EcDoRpc_RopQueryPosition E ctx hs handle_idx =
     with_table (te_tdb E) ctx hs handle_idx E_NOT_FOUND (0, 0) (\<lambda>_ ob. Ok (0, (numerator (tbl ob), denominator (tbl ob)), ob))"

text \<open>The position is a signed number of 32 bits, the ends of the table are unsigned ones.\<close>

definition table_seek :: "bookmark \<Rightarrow> 32 word \<Rightarrow> bool \<Rightarrow> 'b table_object \<Rightarrow> u32 \<times> (bool \<times> 32 word) \<times> 'b table_object" where
  "table_seek origin offset WantRowMovedCount ob =
     (let t = tbl ob;
          target = (case origin of
              BOOKMARK_BEGINNING \<Rightarrow> Some offset
            | BOOKMARK_CURRENT \<Rightarrow> Some (numerator t + offset)
            | BOOKMARK_END \<Rightarrow> Some (denominator t - 1 + offset)
            | BOOKMARK_USER \<Rightarrow> None)
      in case target of
           None \<Rightarrow> (E_NOT_FOUND, (False, 0), ob)
         | Some next_position \<Rightarrow>
             let (next', HasSoughtLess) =
               (if sint next_position < 0 then (0, True)
                else if denominator t \<le> next_position then (denominator t - 1, True)
                else (next_position, False))
             in (0, (HasSoughtLess, if WantRowMovedCount then next' - numerator t else 0), ob\<lparr>tbl := t\<lparr>numerator := next'\<rparr>\<rparr>))"

definition EcDoRpc_RopSeekRow where
  "EcDoRpc_RopSeekRow E ctx hs handle_idx origin offset WantRowMovedCount =
     with_table (te_tdb E) ctx hs handle_idx E_INVALID_OBJECT (False, 0) (\<lambda>_ ob. Ok (table_seek origin offset WantRowMovedCount ob))"

subsection \<open>Looking for a row\<close>

text \<open>Only a property that was not found is sent as an error; with any other error the data pointer is followed.\<close>

definition found_property :: "'g column \<Rightarrow> u32 \<times> 'g fx_data" where
  "found_property c =
     (case c of (ptag, v, retval) \<Rightarrow> if retval = E_NOT_FOUND then (prop_id ptag + PT_ERROR, FxLong retval) else (ptag, v))"

fun push_found :: "'g row_lib \<Rightarrow> bool \<Rightarrow> 'g column list \<Rightarrow> u8 list \<Rightarrow> u8 list outcome" where
  "push_found G flagged [] blob = Ok blob"
| "push_found G flagged (c # cs) blob =
     obind (libmapiserver_push_property G (fst (found_property c)) (snd (found_property c)) blob (if flagged then 0xa else 0) flagged False)
       (push_found G flagged cs)"

definition found_row :: "'g row_lib \<Rightarrow> 'g column list \<Rightarrow> u8 list outcome" where
  "found_row G cols =
     (let flagged = list_ex (\<lambda>(_, _, retval). retval \<noteq> 0) cols in
      obind (if flagged then libmapiserver_push_property G 0xb (FxBoolean 1) [] 0 False False
             else libmapiserver_push_property G 0 (FxBoolean 0) [] 0 True False)
        (push_found G flagged cols))"

text \<open>The cursor moves until there is a row that the restriction lets through; the blob of the row, if any, and the cursor.\<close>

function find_loop ::
  "('h, 'b, 'r, 's, 'g) table_env \<Rightarrow> 'b table_object \<Rightarrow> u32 \<Rightarrow> (u8 list option \<times> u32) outcome" where
  "find_loop E ob i =
     (if i < denominator (tbl ob) then
        obind (emsmdbp_object_table_get_row_props E ob i True) (\<lambda>row.
        case row of
          Some cols \<Rightarrow> obind (found_row (te_lib E) cols) (\<lambda>blob. Ok (Some blob, i))
        | None \<Rightarrow> find_loop E ob (i + 1))
      else Ok (None, i))"
  by pat_completeness auto
termination
proof (relation "measure (\<lambda>(E, ob, i). unat (denominator (tbl ob) - i))", simp)
  fix E :: "('h, 'b, 'r, 's, 'g) table_env" and ob :: "'b table_object" and i :: u32
  assume "i < denominator (tbl ob)"
  then show "((E, ob, i + 1), E, ob, i) \<in> measure (\<lambda>(E, ob, i). unat (denominator (tbl ob) - i))"
    by (simp add: diff_diff_eq[symmetric]) (metis diff_eq_eq less_irrefl_nat unat_minus_one unat_gt_0 word_greater_zero_iff add.left_neutral diff_less zero_less_one word_less_nat_alt)
qed

declare find_loop.simps [simp del]

record 'r FindRow_req =
  find_backward :: bool
  find_res :: 'r
  find_origin :: bookmark

text \<open>The restriction is set for the time of the search; its status is ignored.\<close>

definition restrict_rows :: "('h, 'b, 'r, 's, 'g) table_env \<Rightarrow> 'r option \<Rightarrow> 'b table_object \<Rightarrow> 'b table_object" where
  "restrict_rows E res ob =
     ob\<lparr>backend_object :=
       (if is_mapistore ob then snd (snd (set_restrictions E (backend_object ob) res)) else odb_set_restrictions E (backend_object ob) res)\<rparr>"

definition table_find ::
  "('h, 'b, 'r, 's, 'g) table_env \<Rightarrow> 'r FindRow_req \<Rightarrow> 'b table_object \<Rightarrow> (u32 \<times> u8 list option \<times> 'b table_object) outcome" where
  "table_find E req ob =
     (if ulType (tbl ob) = MAPISTORE_RULE_TABLE then Ok (0, None, ob)
      else
        let start = (if find_origin req = BOOKMARK_BEGINNING \<or> find_backward req then 0 else numerator (tbl ob));
            ob1 = restrict_rows E (Some (find_res req)) (ob\<lparr>tbl := (tbl ob)\<lparr>numerator := start\<rparr>\<rparr>)
        in obind (find_loop E ob1 start) (\<lambda>(found, i).
           let ob2 = restrict_rows E None (ob1\<lparr>tbl := (tbl ob1)\<lparr>numerator := i\<rparr>\<rparr>) in
           Ok (if found = None then E_NOT_FOUND else 0, found, ob2)))"

definition EcDoRpc_RopFindRow where
  "EcDoRpc_RopFindRow E ctx hs handle_idx req =
     with_table (te_tdb E) ctx hs handle_idx E_INVALID_OBJECT None (\<lambda>_. table_find E req)"

subsection \<open>Starting over\<close>

text \<open>The cursor of a table that is not in mapistore stays where it is.\<close>

definition table_reset :: "('h, 'b, 'r, 's, 'g) table_env \<Rightarrow> 'b table_object \<Rightarrow> 'b table_object" where
  "table_reset E ob =
     (if ulType (tbl ob) = MAPISTORE_RULE_TABLE then ob
      else
        let ob1 = ob\<lparr>tbl := (tbl ob)\<lparr>columns := []\<rparr>\<rparr> in
        if is_mapistore ob then
          let ob2 = update_count E (ob1\<lparr>backend_object := snd (snd (set_restrictions E (backend_object ob) None))\<rparr>)
          in ob2\<lparr>tbl := (tbl ob2)\<lparr>numerator := 0\<rparr>\<rparr>
        else ob1)"

definition EcDoRpc_RopResetTable where
  "EcDoRpc_RopResetTable E ctx hs handle_idx =
     with_table (te_tdb E) ctx hs handle_idx E_INVALID_OBJECT () (\<lambda>_ ob. Ok (0, (), table_reset E ob))"

section \<open>The client\<close>

text \<open>The call fills the request, and reads as many rows as the reply says in the data, with the columns it has set itself.\<close>

definition QueryRows ::
  "('h, 'b, 'r, 's, 'g) table_env \<Rightarrow> prop_value \<Rightarrow> ('h, 'b) table_session \<Rightarrow> u32 \<Rightarrow> u32 list \<Rightarrow> QueryRows_req \<Rightarrow>
     (u32 \<times> SRowSet \<times> ('h, 'b) table_session) outcome" where
  "QueryRows E junk ctx h proptags req =
     obind (EcDoRpc_RopQueryRows E ctx [h] 0 req) (\<lambda>(retval, reply, ctx').
     if retval \<noteq> 0 then Ok (retval, [], ctx')
     else obind (emsmdb_get_SRowSet (te_lib E) junk (unat (rows_count reply)) proptags (rows_data reply)) (\<lambda>rows. Ok (0, rows, ctx')))"

end
