(* ===== verification/Row_Sample.thy ===== *)
theory Row_Sample
  imports Row_Blobs
begin

unbundle bit_operations_syntax

text \<open>
  Concrete marshalling routines that satisfy the laws of theory \<open>Row_Blobs\<close>: GUIDs are 128-bit numbers, strings ASCII.
\<close>

definition pull_bytes :: "nat \<Rightarrow> (u8 list \<Rightarrow> 'a) \<Rightarrow> 'a ndr_pull" where
  "pull_bytes n f d i = (if i + n \<le> length d then (Some (f (take n (drop i d))), i + n) else (None, i))"

lemma pulls_bytes: "length bs = n \<Longrightarrow> f bs = v \<Longrightarrow> pulls (pull_bytes n f) bs v"
  by (auto simp: pulls_def pull_bytes_def)

fun pull_many :: "'a ndr_pull \<Rightarrow> nat \<Rightarrow> 'a list ndr_pull" where
  "pull_many p 0 d i = (Some [], i)"
| "pull_many p (Suc n) d i =
     (case p d i of (None, j) \<Rightarrow> (None, j) | (Some x, j) \<Rightarrow> apfst (map_option ((#) x)) (pull_many p n d j))"

lemma pulls_many: "\<forall>x\<in>set xs. pulls p (e x) x \<Longrightarrow> pulls (pull_many p (length xs)) (concat (map e xs)) xs"
proof (induction xs)
  case (Cons x xs)
  have x: "pulls p (e x) x" and IH: "pulls (pull_many p (length xs)) (concat (map e xs)) xs" using Cons by simp_all
  show ?case
    unfolding pulls_def
  proof (intro allI impI)
    fix pre rest assume len: "length (pre @ concat (map e (x # xs)) @ rest) < 2 ^ 32"
    have "p (pre @ e x @ concat (map e xs) @ rest) (length pre) = (Some x, length (pre @ e x))"
      using x len by (simp add: pulls_def)
    moreover have "pull_many p (length xs) ((pre @ e x) @ concat (map e xs) @ rest) (length (pre @ e x)) =
        (Some xs, length (pre @ e x) + length (concat (map e xs)))"
      using IH[unfolded pulls_def, rule_format, of "pre @ e x" rest] len by simp
    ultimately show "pull_many p (length (x # xs)) (pre @ concat (map e (x # xs)) @ rest) (length pre) =
        (Some (x # xs), length pre + length (concat (map e (x # xs))))" by simp
  qed
qed (simp add: pulls_def)

definition pull_then :: "nat \<Rightarrow> (u8 list \<Rightarrow> nat) \<Rightarrow> (nat \<Rightarrow> 'a ndr_pull) \<Rightarrow> 'a ndr_pull" where
  "pull_then k f q d i = (case pull_bytes k f d i of (None, j) \<Rightarrow> (None, j) | (Some n, j) \<Rightarrow> q n d j)"

lemma pulls_then:
  assumes "length cs = k" "length bs < 2 ^ 32 \<Longrightarrow> f cs = n" "pulls (q n) bs v"
  shows "pulls (pull_then k f q) (cs @ bs) v"
  unfolding pulls_def
proof (intro allI impI)
  fix pre rest assume len: "length (pre @ (cs @ bs) @ rest) < 2 ^ 32"
  then have "f cs = n" by (intro assms(2)) simp
  then have "pull_bytes k f (pre @ cs @ bs @ rest) (length pre) = (Some n, length (pre @ cs))" using assms(1) by (simp add: pull_bytes_def)
  moreover have "q n ((pre @ cs) @ bs @ rest) (length (pre @ cs)) = (Some v, length (pre @ cs) + length bs)"
    using assms(3)[unfolded pulls_def, rule_format, of "pre @ cs" rest] len by simp
  ultimately show "pull_then k f q (pre @ (cs @ bs) @ rest) (length pre) = (Some v, length pre + length (cs @ bs))"
    by (simp add: pull_then_def)
qed

definition count16 :: "u8 list \<Rightarrow> nat" where
  "count16 cs = unat (le_value cs :: u16)"

definition count32 :: "u8 list \<Rightarrow> nat" where
  "count32 cs = unat (le_value cs :: u32)"

lemma le_value_self: "LENGTH('a) \<le> 8 * n \<Longrightarrow> le_value (le_bytes n v) = (v :: 'a::len word)"
  by (simp add: le_value_le_bytes take_bit_word_eq_self)

lemma count_bytes:
  "n < 2 ^ 32 \<Longrightarrow> count32 (le_bytes 4 (of_nat n :: u32)) = n"
  "n < 2 ^ 16 \<Longrightarrow> count16 (le_bytes 2 (of_nat n :: u16)) = n"
  by (simp_all add: count32_def count16_def le_value_self unat_of_nat)

lemma concat_length: "\<forall>x\<in>set xs. e x \<noteq> [] \<Longrightarrow> length xs \<le> length (concat (map e xs))"
proof (induction xs)
  case (Cons x xs)
  then show ?case by (cases "e x") auto
qed simp

lemma pulls_counted:
  assumes "\<forall>x\<in>set xs. pulls p (e x) x \<and> e x \<noteq> []"
  shows "pulls (pull_then 4 count32 (pull_many p)) (le_bytes 4 (of_nat (length xs) :: u32) @ concat (map e xs)) xs"
  using concat_length[of xs e] assms by (intro pulls_then[where n = "length xs"] pulls_many count_bytes(1)) auto

text \<open>Strings.\<close>

definition pull_raw8 :: "u8 list ndr_pull" where
  "pull_raw8 d i =
     (let s = takeWhile (\<lambda>b. b \<noteq> 0) (drop i d) in if i + length s < length d then (Some s, i + length s + 1) else (None, i))"

lemma pulls_raw8: "0 \<notin> set s \<Longrightarrow> pulls pull_raw8 (s @ [0]) s"
proof -
  assume "0 \<notin> set s"
  then have "takeWhile (\<lambda>b. b \<noteq> 0) (s @ 0 # rest) = s" for rest by (induction s) auto
  then show ?thesis by (simp add: pulls_def pull_raw8_def)
qed

fun wide :: "u8 list \<Rightarrow> u8 list option" where
  "wide (a # b # bs) = (if a = 0 \<and> b = 0 then Some [] else map_option ((#) a) (wide bs))"
| "wide bs = None"

definition pull_wide :: "u8 list ndr_pull" where
  "pull_wide d i = (case wide (drop i d) of None \<Rightarrow> (None, i) | Some s \<Rightarrow> (Some s, i + 2 * length s + 2))"

abbreviation push_wide :: "u8 list \<Rightarrow> u8 list" where
  "push_wide s \<equiv> concat (map (\<lambda>b. [b, 0]) s) @ [0, 0]"

lemma pulls_wide: "0 \<notin> set s \<Longrightarrow> pulls pull_wide (push_wide s) s"
proof -
  assume "0 \<notin> set s"
  then have "wide (push_wide s @ rest) = Some s" for rest by (induction s) auto
  moreover have "length (push_wide s) = 2 * length s + 2" by (induction s) auto
  ultimately show ?thesis by (simp add: pulls_def pull_wide_def)
qed

definition rowlib128 :: "128 word row_lib" where
  "rowlib128 =
     \<lparr>GUID_from_data_blob = le_value, ndr_push_GUID = le_bytes 16, ndr_push_uint16 = le_bytes 2,
      GUID_compare = (\<lambda>a b. if a < b then -1 else if a = b then 0 else 1),
      GUID_equal = (=), GUID_all_zero = (\<lambda>g. g = 0), GUID_zero = 0,
      ndr_push_uint32 = le_bytes 4, ndr_push_dlong = le_bytes 8, ndr_push_double = le_bytes 8,
      ndr_push_ascii = (\<lambda>s. s @ [0]), ndr_push_utf16 = push_wide, strlen_m_ext = length,
      ndr_push_Binary_r = (\<lambda>bs. le_bytes 4 (of_nat (length bs) :: u32) @ bs),
      ndr_push_FILETIME = (\<lambda>ft. le_bytes 4 (fst ft) @ le_bytes 4 (snd ft)),
      ndr_push_SBinary_short = (\<lambda>cb bs. le_bytes 2 cb @ take (unat cb) bs), ndr_push_mapi_MV_LONG_STRUCT = long_bytes,
      ndr_push_mapi_SLPSTRArrayW = (\<lambda>ss. le_bytes 4 (of_nat (length ss) :: u32) @ concat (map push_wide ss)),
      ndr_push_null_text = (\<lambda>a. if a then [0] else [0, 0]),
      ndr_pull_uint8 = pull_bytes 1 hd, ndr_pull_uint16 = pull_bytes 2 le_value, ndr_pull_uint32 = pull_bytes 4 le_value,
      ndr_pull_hyper = pull_bytes 8 le_value, ndr_pull_double = pull_bytes 8 le_value,
      ndr_pull_utf16 = pull_wide, ndr_pull_raw8 = pull_raw8,
      ndr_pull_GUID = (\<lambda>d i. if i + 16 \<le> length d then (take 16 (drop i d), i + 16) else (replicate 16 0, i)),
      ndr_pull_SBinary_short = pull_then 2 count16 (\<lambda>n. pull_bytes n id),
      ndr_pull_mapi_MV_LONG_STRUCT = pull_then 4 count32 (pull_many (pull_bytes 4 le_value)),
      ndr_pull_mapi_SLPSTRArray = pull_then 4 count32 (pull_many pull_raw8),
      ndr_pull_mapi_SLPSTRArrayW = pull_then 4 count32 (pull_many pull_wide),
      ndr_pull_mapi_SBinaryArray = pull_then 4 count32 (pull_many (pull_then 2 count16 (\<lambda>n. pull_bytes n id)))\<rparr>"

lemma pulls_short: "length bs < 2 ^ 16 \<Longrightarrow> pulls (pull_then 2 count16 (\<lambda>n. pull_bytes n id)) (short_bytes bs) bs"
  unfolding short_bytes_def by (rule pulls_then[where n = "length bs"]) (auto intro: count_bytes(2) pulls_bytes)

lemma rowlib128_fields:
  "ndr_push_GUID rowlib128 = le_bytes 16" "ndr_push_uint16 rowlib128 = le_bytes 2" "ndr_push_uint32 rowlib128 = le_bytes 4"
  "ndr_push_dlong rowlib128 = le_bytes 8" "ndr_push_double rowlib128 = le_bytes 8" "ndr_push_ascii rowlib128 = (\<lambda>s. s @ [0])"
  "ndr_push_utf16 rowlib128 = push_wide" "ndr_push_SBinary_short rowlib128 = (\<lambda>cb bs. le_bytes 2 cb @ take (unat cb) bs)"
  "ndr_push_mapi_MV_LONG_STRUCT rowlib128 = long_bytes"
  "ndr_push_mapi_SLPSTRArrayW rowlib128 = (\<lambda>ss. le_bytes 4 (of_nat (length ss) :: u32) @ concat (map push_wide ss))"
  "ndr_pull_uint8 rowlib128 = pull_bytes 1 hd" "ndr_pull_uint16 rowlib128 = pull_bytes 2 le_value" "ndr_pull_uint32 rowlib128 = pull_bytes 4 le_value"
  "ndr_pull_hyper rowlib128 = pull_bytes 8 le_value" "ndr_pull_double rowlib128 = pull_bytes 8 le_value"
  "ndr_pull_utf16 rowlib128 = pull_wide" "ndr_pull_raw8 rowlib128 = pull_raw8"
  "ndr_pull_GUID rowlib128 = (\<lambda>d i. if i + 16 \<le> length d then (take 16 (drop i d), i + 16) else (replicate 16 0, i))"
  "ndr_pull_SBinary_short rowlib128 = pull_then 2 count16 (\<lambda>n. pull_bytes n id)"
  "ndr_pull_mapi_MV_LONG_STRUCT rowlib128 = pull_then 4 count32 (pull_many (pull_bytes 4 le_value))"
  "ndr_pull_mapi_SLPSTRArrayW rowlib128 = pull_then 4 count32 (pull_many pull_wide)"
  "ndr_pull_mapi_SBinaryArray rowlib128 = pull_then 4 count32 (pull_many (pull_then 2 count16 (\<lambda>n. pull_bytes n id)))"
  by (simp_all add: rowlib128_def)

lemma le_bytes_nonempty: "0 < n \<Longrightarrow> le_bytes n v \<noteq> []"
  by (cases n) simp_all

lemma pulls_long_array: "pulls (pull_then 4 count32 (pull_many (pull_bytes 4 le_value))) (long_bytes xs) xs"
  unfolding long_bytes_def by (rule pulls_counted) (simp add: pulls_bytes le_value_self le_bytes_nonempty)

lemma pulls_short_array:
  assumes "\<forall>bs\<in>set bss. length bs < 2 ^ 16"
  shows "pulls (pull_then 4 count32 (pull_many (pull_then 2 count16 (\<lambda>n. pull_bytes n id))))
      (le_bytes 4 (of_nat (length bss) :: u32) @ concat (map short_bytes bss)) bss"
  by (rule pulls_counted) (use assms pulls_short in \<open>simp add: short_bytes_def le_bytes_nonempty\<close>)

lemma pulls_wide_array:
  assumes "\<forall>s\<in>set ss. pulls pull_wide (push_wide s) s"
  shows "pulls (pull_then 4 count32 (pull_many pull_wide)) (le_bytes 4 (of_nat (length ss) :: u32) @ concat (map push_wide ss)) ss"
  by (rule pulls_counted) (use assms in auto)

lemma row_laws_rowlib128: "row_laws rowlib128"
  unfolding row_laws_def
proof (intro conjI allI impI)
  show "fx_laws (fx_lib.truncate rowlib128)" by (simp add: fx_laws_def rowlib128_def fx_lib.truncate_def)
  show "pulls (\<lambda>d i. apfst Some (ndr_pull_GUID rowlib128 d i)) bs bs" if "length bs = 16" for bs
    using that by (simp add: pulls_def rowlib128_fields)
qed (simp_all add: rowlib128_fields pulls_short pulls_raw8 pulls_bytes le_value_self pulls_long_array pulls_short_array pulls_wide_array)

end
