(* ===== verification/Row_Roundtrip.thy ===== *)
theory Row_Roundtrip
  imports Row_Sample
begin

unbundle bit_operations_syntax

text \<open>
  What a client reads in the blobs of a server: for every type that both ends know the value that was pushed, with binaries cut to
  their length modulo 65536; errors as properties of type \<open>PT_ERROR\<close>. Whatever bytes a client is sent, the properties it reads are
  well typed.
\<close>

section \<open>Values\<close>

definition cut_binary :: "u8 list \<Rightarrow> u8 list" where
  "cut_binary bs = take (length bs mod 65536) bs"

lemma cut_binary_short [simp]: "length bs < 65536 \<Longrightarrow> cut_binary bs = bs"
  by (simp add: cut_binary_def)

text \<open>What the client sees of a value of the server.\<close>

definition seen :: "'g row_lib \<Rightarrow> u32 \<Rightarrow> 'g fx_data \<Rightarrow> prop_value option" where
  "seen G ptag v =
     (let t = prop_type ptag; give = (\<lambda>ts w. if t \<in> set ts then Some w else None) in
      case v of
        FxShort x \<Rightarrow> give [PT_SHORT] (VShort x)
      | FxLong x \<Rightarrow> if t = PT_ERROR then Some (VError x) else give [PT_LONG] (VLong x)
      | FxDouble x \<Rightarrow> give [PT_DOUBLE] (VDouble x)
      | FxI8 x \<Rightarrow> give [PT_I8] (VI8 x)
      | FxBoolean x \<Rightarrow> give [PT_BOOLEAN] (VBoolean x)
      | FxString s \<Rightarrow> if t = PT_STRING8 then Some (VString8 s) else give [PT_UNICODE] (VUnicode s)
      | FxBinary bs \<Rightarrow> give [PT_BINARY, PT_SVREID] (VBinary (cut_binary bs))
      | FxClsid g \<Rightarrow> give [PT_CLSID] (VClsid (ndr_push_GUID G g))
      | FxSysTime ft \<Rightarrow> give [PT_SYSTIME] (VSysTime ft)
      | FxLongArray xs \<Rightarrow> give [PT_MV_LONG] (VMVLong xs)
      | FxBinaryArray xs \<Rightarrow> give [PT_MV_BINARY] (VMVBinary (map cut_binary xs))
      | FxStringArrayW xs \<Rightarrow> give [PT_MV_UNICODE] (VMVUnicode xs)
      | _ \<Rightarrow> None)"

text \<open>Strings end at their first zero, and the conversion to UTF-16 and back keeps them.\<close>

fun texts_ok :: "'g row_lib \<Rightarrow> u32 \<Rightarrow> 'g fx_data \<Rightarrow> bool" where
  "texts_ok G ptag (FxString s) =
     (if prop_type ptag = PT_UNICODE then pulls (ndr_pull_utf16 G) (ndr_push_utf16 G s) s else 0 \<notin> set s)"
| "texts_ok G ptag (FxStringArrayW ss) = (\<forall>s\<in>set ss. pulls (ndr_pull_utf16 G) (ndr_push_utf16 G s) s)"
| "texts_ok G ptag v = True"

text \<open>A value is carried by bytes when they are what is pushed for it and the client reads it there.\<close>

definition row_carries :: "'g row_lib \<Rightarrow> u32 \<Rightarrow> 'g fx_data \<Rightarrow> prop_value \<Rightarrow> u8 list \<Rightarrow> bool" where
  "row_carries G ptag v w bs \<longleftrightarrow>
     push_property_data G ptag v = Ok bs \<and>
     (\<forall>pre rest. length (pre @ bs @ rest) < 2 ^ 32 \<longrightarrow>
        pull_emsmdb_property G (length pre) ptag (pre @ bs @ rest) = Ok (PMember w, length pre + length bs))"

lemma row_law_pushes:
  assumes "row_laws G"
  shows "ndr_push_uint16 G a = le_bytes 2 a" "ndr_push_uint32 G b = le_bytes 4 b" "ndr_push_dlong G c = le_bytes 8 c"
    "ndr_push_double G c = le_bytes 8 c" "ndr_push_ascii G s = s @ [0]"
    "ndr_push_FILETIME G ft = le_bytes 4 (fst ft) @ le_bytes 4 (snd ft)" "length (ndr_push_GUID G g) = 16"
  using assms by (cases ft; simp add: row_laws_def fx_laws_def fx_lib.truncate_def)+

lemma row_law_pulls:
  assumes "row_laws G"
  shows "pulls (ndr_pull_uint8 G) [x8] x8" "pulls (ndr_pull_uint16 G) (le_bytes 2 x16) x16" "pulls (ndr_pull_uint32 G) (le_bytes 4 x32) x32"
    "pulls (ndr_pull_hyper G) (le_bytes 8 x64) x64" "pulls (ndr_pull_double G) (le_bytes 8 x64) x64"
    "0 \<notin> set s \<Longrightarrow> pulls (ndr_pull_raw8 G) (s @ [0]) s" "length bs = 16 \<Longrightarrow> pulls (\<lambda>d i. apfst Some (ndr_pull_GUID G d i)) bs bs"
    "length bs < 65536 \<Longrightarrow> pulls (ndr_pull_SBinary_short G) (short_bytes bs) bs"
    "pulls (ndr_pull_mapi_MV_LONG_STRUCT G) (ndr_push_mapi_MV_LONG_STRUCT G xs) xs"
    "(\<And>bs. bs \<in> set bss \<Longrightarrow> length bs < 65536) \<Longrightarrow>
       pulls (ndr_pull_mapi_SBinaryArray G) (le_bytes 4 (of_nat (length bss) :: u32) @ concat (map short_bytes bss)) bss"
    "(\<forall>s\<in>set ss. pulls (ndr_pull_utf16 G) (ndr_push_utf16 G s) s) \<Longrightarrow>
       pulls (ndr_pull_mapi_SLPSTRArrayW G) (ndr_push_mapi_SLPSTRArrayW G ss) ss"
  using assms by (simp_all add: row_laws_def)

lemma pullsD: "pulls p bs v \<Longrightarrow> length (pre @ bs @ rest) < 2 ^ 32 \<Longrightarrow> p (pre @ bs @ rest) (length pre) = (Some v, length pre + length bs)"
  by (simp add: pulls_def)

text \<open>A FILETIME is read as one number of 64 bits.\<close>

lemma filetime_bytes: "le_bytes 4 lo @ le_bytes 4 hi = le_bytes 8 (ucast lo OR push_bit 32 (ucast hi) :: u64)" for lo hi :: u32
proof (rule nth_equalityI)
  fix i assume "i < length (le_bytes 4 lo @ le_bytes 4 hi)"
  then have i: "i < 8" by simp
  have lo: "\<not> bit lo (8 * j + 32 + n)" for j n using bit_imp_le_length[of lo] by fastforce
  show "(le_bytes 4 lo @ le_bytes 4 hi) ! i = le_bytes 8 (ucast lo OR push_bit 32 (ucast hi) :: u64) ! i"
  proof (cases "i < 4")
    case True
    then show ?thesis by (intro bit_word_eqI) (auto simp: nth_append nth_le_bytes bit_simps)
  next
    case False
    define j where "j = i - 4"
    have j: "i = j + 4" "j < 4" using False i by (simp_all add: j_def)
    have e: "8 * (j + 4) = 8 * j + 32" by simp
    show ?thesis unfolding j(1) using j(2) by (intro bit_word_eqI) (auto simp: nth_append nth_le_bytes bit_simps e lo)
  qed
qed simp

lemma filetime_words:
  "ucast (ucast lo OR push_bit 32 (ucast hi) :: u64) = (lo :: u32)"
  "ucast (drop_bit 32 (ucast lo OR push_bit 32 (ucast hi) :: u64)) = (hi :: u32)"
  "ucast (drop_bit 32 (ucast lo) OR drop_bit 32 (push_bit 32 (ucast hi)) :: u64) = hi"
  by (rule bit_word_eqI, auto simp: bit_simps dest: bit_imp_le_length)+

lemma short_binary_bytes: "row_laws G \<Longrightarrow> push_short_binary G bs = short_bytes (cut_binary bs)"
proof -
  assume G: "row_laws G"
  have u: "unat (of_nat (length bs) :: u16) = length bs mod 65536" by (simp add: unat_of_nat)
  have l: "length (cut_binary bs) = length bs mod 65536" by (simp add: cut_binary_def)
  have "(of_nat (length bs mod 65536) :: u16) = of_nat (length bs)"
    by (simp add: word_of_nat_eq_iff take_bit_eq_mod)
  moreover have "ndr_push_SBinary_short G cb bs = le_bytes 2 cb @ take (unat cb) bs" if "unat cb \<le> length bs" for cb
    using G that by (simp add: row_laws_def)
  ultimately show "push_short_binary G bs = short_bytes (cut_binary bs)"
    by (simp add: push_short_binary_def short_bytes_def l u) (simp add: cut_binary_def)
qed

lemma length_cut_binary: "length (cut_binary bs) < 65536"
proof -
  have "length (cut_binary bs) \<le> length bs mod 65536" by (simp add: cut_binary_def)
  then show ?thesis by (rule le_less_trans) simp
qed

lemmas row_value_simps = push_property_data_def pull_emsmdb_property_def Let_def pulled_def pulled_text_def or_zero_def

lemma row_carries_scalars:
  fixes ptag :: u32
  assumes "row_laws G"
  defines "t \<equiv> prop_type ptag"
  shows "t = PT_SHORT \<Longrightarrow> row_carries G ptag (FxShort a) (VShort a) (le_bytes 2 a)"
    "t = PT_LONG \<Longrightarrow> row_carries G ptag (FxLong b) (VLong b) (le_bytes 4 b)"
    "t = PT_ERROR \<Longrightarrow> row_carries G ptag (FxLong b) (VError b) (le_bytes 4 b)"
    "t = PT_DOUBLE \<Longrightarrow> row_carries G ptag (FxDouble c) (VDouble c) (le_bytes 8 c)"
    "t = PT_I8 \<Longrightarrow> row_carries G ptag (FxI8 c) (VI8 c) (le_bytes 8 c)"
    "t = PT_BOOLEAN \<Longrightarrow> row_carries G ptag (FxBoolean d) (VBoolean d) [d]"
    "t = PT_SYSTIME \<Longrightarrow> row_carries G ptag (FxSysTime ft) (VSysTime ft) (ndr_push_FILETIME G ft)"
proof -
  note P = row_law_pushes[OF assms(1)] and R = row_law_pulls[OF assms(1), THEN pullsD]
  show "t = PT_SHORT \<Longrightarrow> row_carries G ptag (FxShort a) (VShort a) (le_bytes 2 a)"
    "t = PT_LONG \<Longrightarrow> row_carries G ptag (FxLong b) (VLong b) (le_bytes 4 b)"
    "t = PT_ERROR \<Longrightarrow> row_carries G ptag (FxLong b) (VError b) (le_bytes 4 b)"
    "t = PT_DOUBLE \<Longrightarrow> row_carries G ptag (FxDouble c) (VDouble c) (le_bytes 8 c)"
    "t = PT_I8 \<Longrightarrow> row_carries G ptag (FxI8 c) (VI8 c) (le_bytes 8 c)"
    "t = PT_BOOLEAN \<Longrightarrow> row_carries G ptag (FxBoolean d) (VBoolean d) [d]"
    using P R(1-5) by (simp_all add: row_carries_def row_value_simps t_def)
  have ft: "ndr_push_FILETIME G ft = le_bytes 8 (ucast (fst ft) OR push_bit 32 (ucast (snd ft)) :: u64)"
    by (simp add: P filetime_bytes)
  show "t = PT_SYSTIME \<Longrightarrow> row_carries G ptag (FxSysTime ft) (VSysTime ft) (ndr_push_FILETIME G ft)"
    using R(4)[of _ "ucast (fst ft) OR push_bit 32 (ucast (snd ft))"] unfolding row_carries_def ft
    by (simp add: row_value_simps t_def ft filetime_words)
qed

lemma apfst_SomeD: "apfst Some p = (Some x, y) \<Longrightarrow> p = (x, y)"
  by (cases p) simp

lemma row_carries_strings:
  fixes ptag :: u32
  assumes "row_laws G"
  defines "t \<equiv> prop_type ptag"
  shows "t = PT_STRING8 \<Longrightarrow> 0 \<notin> set s \<Longrightarrow> row_carries G ptag (FxString s) (VString8 s) (s @ [0])"
    "t = PT_UNICODE \<Longrightarrow> pulls (ndr_pull_utf16 G) (ndr_push_utf16 G s) s \<Longrightarrow>
       row_carries G ptag (FxString s) (VUnicode s) (ndr_push_utf16 G s)"
    "t = PT_BINARY \<or> t = PT_SVREID \<Longrightarrow> row_carries G ptag (FxBinary bs) (VBinary (cut_binary bs)) (short_bytes (cut_binary bs))"
    "t = PT_CLSID \<Longrightarrow> row_carries G ptag (FxClsid g) (VClsid (ndr_push_GUID G g)) (ndr_push_GUID G g)"
proof -
  note P = row_law_pushes[OF assms(1)] and R = row_law_pulls[OF assms(1), THEN pullsD]
  show "t = PT_STRING8 \<Longrightarrow> 0 \<notin> set s \<Longrightarrow> row_carries G ptag (FxString s) (VString8 s) (s @ [0])"
    using P(5) R(6)[of s] by (simp add: row_carries_def row_value_simps t_def)
  show "t = PT_UNICODE \<Longrightarrow> pulls (ndr_pull_utf16 G) (ndr_push_utf16 G s) s \<Longrightarrow>
       row_carries G ptag (FxString s) (VUnicode s) (ndr_push_utf16 G s)"
    using pullsD[of "ndr_pull_utf16 G" "ndr_push_utf16 G s" s] by (simp add: row_carries_def row_value_simps t_def)
  show "t = PT_BINARY \<or> t = PT_SVREID \<Longrightarrow> row_carries G ptag (FxBinary bs) (VBinary (cut_binary bs)) (short_bytes (cut_binary bs))"
    using R(8)[OF length_cut_binary, of _ bs] short_binary_bytes[OF assms(1), of bs]
    by (auto simp: row_carries_def row_value_simps t_def)
  have "ndr_pull_GUID G (pre @ ndr_push_GUID G g @ rest) (length pre) = (ndr_push_GUID G g, length pre + 16)"
    if "length (pre @ ndr_push_GUID G g @ rest) < 2 ^ 32" for pre rest
    by (rule apfst_SomeD[OF trans[OF R(7)[OF P(7) that]]]) (simp add: P)
  then show "t = PT_CLSID \<Longrightarrow> row_carries G ptag (FxClsid g) (VClsid (ndr_push_GUID G g)) (ndr_push_GUID G g)"
    by (simp add: row_carries_def row_value_simps t_def P)
qed

lemma row_carries_arrays:
  fixes ptag :: u32
  assumes "row_laws G"
  defines "t \<equiv> prop_type ptag"
  shows "t = PT_MV_LONG \<Longrightarrow> row_carries G ptag (FxLongArray xs) (VMVLong xs) (ndr_push_mapi_MV_LONG_STRUCT G xs)"
    "t = PT_MV_UNICODE \<Longrightarrow> (\<forall>s\<in>set ss. pulls (ndr_pull_utf16 G) (ndr_push_utf16 G s) s) \<Longrightarrow>
       row_carries G ptag (FxStringArrayW ss) (VMVUnicode ss) (ndr_push_mapi_SLPSTRArrayW G ss)"
    "t = PT_MV_BINARY \<Longrightarrow> row_carries G ptag (FxBinaryArray bss) (VMVBinary (map cut_binary bss))
       (le_bytes 4 (of_nat (length bss) :: u32) @ concat (map (\<lambda>bs. short_bytes (cut_binary bs)) bss))"
proof -
  note P = row_law_pushes[OF assms(1)] and R = row_law_pulls[OF assms(1), THEN pullsD]
  show "t = PT_MV_LONG \<Longrightarrow> row_carries G ptag (FxLongArray xs) (VMVLong xs) (ndr_push_mapi_MV_LONG_STRUCT G xs)"
    using R(9)[of _ xs] by (simp add: row_carries_def row_value_simps t_def)
  show "t = PT_MV_UNICODE \<Longrightarrow> (\<forall>s\<in>set ss. pulls (ndr_pull_utf16 G) (ndr_push_utf16 G s) s) \<Longrightarrow>
       row_carries G ptag (FxStringArrayW ss) (VMVUnicode ss) (ndr_push_mapi_SLPSTRArrayW G ss)"
    using R(11)[of ss] by (simp add: row_carries_def row_value_simps t_def)
  let ?bs = "le_bytes 4 (of_nat (length bss) :: u32) @ concat (map (\<lambda>bs. short_bytes (cut_binary bs)) bss)"
  have "pulls (ndr_pull_mapi_SBinaryArray G) ?bs (map cut_binary bss)"
    using row_law_pulls(10)[OF assms(1), of "map cut_binary bss"] length_cut_binary by (fastforce simp: comp_def)
  note pullsD[OF this]
  moreover have "push_short_binary G = (\<lambda>bs. short_bytes (cut_binary bs))" using short_binary_bytes[OF assms(1)] by auto
  ultimately show "t = PT_MV_BINARY \<Longrightarrow> row_carries G ptag (FxBinaryArray bss) (VMVBinary (map cut_binary bss)) ?bs"
    by (simp add: row_carries_def row_value_simps t_def P)
qed

lemma seen_set:
  assumes "row_laws G" "seen G ptag v = Some w"
  shows "set_SPropValue ptag (PMember w) = Ok (True, \<lparr>ulPropTag = ptag, pvalue = w\<rparr>)"
proof -
  have "fits (prop_type ptag) w \<and> prop_type ptag \<in> set SPropValue_set_types"
    using assms(2) row_law_pushes(7)[OF assms(1)]
    by (cases v; simp add: seen_def Let_def SPropValue_set_types_def split: if_splits; fastforce)
  then show ?thesis by (simp add: set_SPropValue_def set_data_def)
qed

lemma seen_carried:
  assumes "row_laws G" "seen G ptag v = Some w" "texts_ok G ptag v"
  shows "\<exists>bs. row_carries G ptag v w bs"
  using assms(2,3)
  by (cases v; simp add: seen_def Let_def split: if_splits;
      blast intro: row_carries_scalars[OF assms(1)] row_carries_strings[OF assms(1)] row_carries_arrays[OF assms(1)])

section \<open>Columns\<close>

definition column_ok :: "'g row_lib \<Rightarrow> 'g column \<Rightarrow> bool" where
  "column_ok G c \<longleftrightarrow> (case c of (ptag, v, retval) \<Rightarrow> retval \<noteq> 0 \<or> seen G ptag v \<noteq> None \<and> texts_ok G ptag v)"

text \<open>The property a client reads in a column.\<close>

definition client_prop :: "'g row_lib \<Rightarrow> 'g column \<Rightarrow> SPropValue" where
  "client_prop G c =
     (case c of (ptag, v, retval) \<Rightarrow>
        if retval \<noteq> 0 then \<lparr>ulPropTag = error_tag ptag, pvalue = VError retval\<rparr>
        else \<lparr>ulPropTag = ptag, pvalue = the (seen G ptag v)\<rparr>)"

lemma error_tag_type: "prop_type (error_tag ptag) = PT_ERROR"
  by (simp add: error_tag_def prop_type_def prop_id_def bit.conj_disj_distrib2 and.assoc)

lemma error_tag_plus: "prop_id ptag + PT_ERROR = error_tag ptag"
proof -
  have "prop_id ptag AND PT_ERROR = 0" by (simp add: prop_id_def and.assoc)
  then show ?thesis using word_plus_and_or[of "prop_id ptag" PT_ERROR] by (simp add: error_tag_def)
qed

lemma error_tag_id: "prop_type ptag = PT_ERROR \<Longrightarrow> error_tag ptag = ptag"
proof -
  assume "prop_type ptag = PT_ERROR"
  moreover have "prop_id ptag OR prop_type ptag = ptag"
  proof -
    have "(0xFFFF0000 OR 0xFFFF :: u32) = -1" by simp
    then have "ptag AND (0xFFFF0000 OR 0xFFFF) = ptag" by (simp only: and.right_neutral)
    then show ?thesis by (simp only: prop_id_def prop_type_def bit.conj_disj_distrib)
  qed
  ultimately show ?thesis by (simp add: error_tag_def)
qed

lemma pushed_seen:
  assumes "column_ok G c"
  shows "fst (pushed_property c) = ulPropTag (client_prop G c)"
    "seen G (ulPropTag (client_prop G c)) (snd (pushed_property c)) = Some (pvalue (client_prop G c))"
    "texts_ok G (ulPropTag (client_prop G c)) (snd (pushed_property c))"
proof -
  obtain ptag v retval where c: "c = (ptag, v, retval)" by (cases c)
  show "fst (pushed_property c) = ulPropTag (client_prop G c)"
    by (simp add: c pushed_property_def client_prop_def error_tag_plus)
  show "seen G (ulPropTag (client_prop G c)) (snd (pushed_property c)) = Some (pvalue (client_prop G c))"
    using assms by (simp add: c column_ok_def pushed_property_def client_prop_def seen_def[of G "error_tag ptag"] error_tag_type)
  show "texts_ok G (ulPropTag (client_prop G c)) (snd (pushed_property c))"
    using assms by (simp add: c column_ok_def pushed_property_def client_prop_def)
qed

text \<open>The tag the client computes from the flag of a property is the one that was pushed.\<close>

definition column_flag :: "'g row_lib \<Rightarrow> 'g column \<Rightarrow> u8" where
  "column_flag G c = (if prop_type (ulPropTag (client_prop G c)) = PT_ERROR then 0xa else 0)"

lemma client_tag:
  assumes "column_ok G c"
  shows "(if column_flag G c = 0xa then error_tag (fst c) else fst c) = ulPropTag (client_prop G c)"
  by (cases c) (auto simp: column_flag_def client_prop_def error_tag_type error_tag_id)

lemma column_bytes:
  fixes junk :: prop_value
  assumes "row_laws G" "column_ok G c" "snd (snd c) \<noteq> 0 \<longrightarrow> flagged"
  obtains bs where
    "\<And>blob. libmapiserver_push_property G (fst (pushed_property c)) (snd (pushed_property c)) blob (if flagged then 0xa else 0) flagged False
       = Ok (blob @ bs)"
    "\<And>pre rest tags. length (pre @ bs @ rest) < 2 ^ 32 \<Longrightarrow>
       row_values G junk flagged (pre @ bs @ rest) (length pre) (fst c # tags) =
       obind (row_values G junk flagged (pre @ bs @ rest) (length pre + length bs) tags) (\<lambda>(row, m, i). Ok (client_prop G c # row, 1 + m, i))"
    "\<And>pre rest tags. length (pre @ bs @ rest) < 2 ^ 32 \<Longrightarrow>
       get_values G flagged (pre @ bs @ rest) (length pre) (fst c # tags) =
       obind (get_values G flagged (pre @ bs @ rest) (length pre + length bs) tags)
         (\<lambda>(row, ts). Ok (client_prop G c # row, ulPropTag (client_prop G c) # ts))"
proof -
  define T where "T = ulPropTag (client_prop G c)"
  define w where "w = pvalue (client_prop G c)"
  have p: "client_prop G c = \<lparr>ulPropTag = T, pvalue = w\<rparr>" by (simp add: T_def w_def)
  note S = pushed_seen[OF assms(2), folded T_def w_def]
  obtain bs where bs: "row_carries G T (snd (pushed_property c)) w bs" using seen_carried[OF assms(1) S(2,3)] by blast
  have set: "set_SPropValue T (PMember w) = Ok (True, client_prop G c)" using seen_set[OF assms(1) S(2)] by (simp add: p)
  have data: "push_property_data G T (snd (pushed_property c)) = Ok bs" using bs by (simp add: row_carries_def)
  define hd where "hd = (if flagged then [column_flag G c] else [])"
  have tag: "(if column_flag G c = 0xa then error_tag (fst c) else fst c) = T" unfolding T_def by (rule client_tag[OF assms(2)])
  have plain: "T = fst c" if "\<not> flagged" using assms(3) that by (cases c) (simp add: T_def client_prop_def)
  have head: "property_flag T (if flagged then 0xa else 0) flagged = (hd, False)"
    by (simp add: property_flag_def hd_def column_flag_def T_def)
  have pull: "pull_emsmdb_property G (length pre + length hd) T (pre @ (hd @ bs) @ rest) = Ok (PMember w, length pre + length (hd @ bs))"
    if "length (pre @ (hd @ bs) @ rest) < 2 ^ 32" for pre rest
  proof -
    have "\<forall>pre rest. length (pre @ bs @ rest) < 2 ^ 32 \<longrightarrow>
        pull_emsmdb_property G (length pre) T (pre @ bs @ rest) = Ok (PMember w, length pre + length bs)"
      using bs by (simp add: row_carries_def)
    from this[rule_format, of "pre @ hd" rest] that show ?thesis by simp
  qed
  show thesis
  proof (rule that[of "hd @ bs"])
    show "libmapiserver_push_property G (fst (pushed_property c)) (snd (pushed_property c)) blob (if flagged then 0xa else 0) flagged False
       = Ok (blob @ hd @ bs)" for blob
      by (simp add: libmapiserver_push_property_def S(1) head data del: obind_eq_Ok_iff)
    show "row_values G junk flagged (pre @ (hd @ bs) @ rest) (length pre) (fst c # tags) =
       obind (row_values G junk flagged (pre @ (hd @ bs) @ rest) (length pre + length (hd @ bs)) tags) (\<lambda>(row, m, i). Ok (client_prop G c # row, 1 + m, i))"
      if "length (pre @ (hd @ bs) @ rest) < 2 ^ 32" for pre rest tags
    proof (cases flagged)
      case True
      have "column_flag G c \<noteq> 1" by (simp add: column_flag_def)
      then show ?thesis using pull[OF that] True tag by (simp add: hd_def set del: obind_eq_Ok_iff)
    next
      case False
      then show ?thesis using pull[OF that] plain[symmetric] by (simp add: hd_def set del: obind_eq_Ok_iff)
    qed
    show "get_values G flagged (pre @ (hd @ bs) @ rest) (length pre) (fst c # tags) =
       obind (get_values G flagged (pre @ (hd @ bs) @ rest) (length pre + length (hd @ bs)) tags)
         (\<lambda>(row, ts). Ok (client_prop G c # row, ulPropTag (client_prop G c) # ts))"
      if "length (pre @ (hd @ bs) @ rest) < 2 ^ 32" for pre rest tags
    proof (cases flagged)
      case True
      then show ?thesis using pull[OF that] tag by (simp add: hd_def set T_def[symmetric] del: obind_eq_Ok_iff)
    next
      case False
      then show ?thesis using pull[OF that] plain[symmetric] by (simp add: hd_def set T_def[symmetric] del: obind_eq_Ok_iff)
    qed
  qed
qed

section \<open>Rows\<close>

lemma columns_bytes:
  assumes "row_laws G" "\<forall>c\<in>set cols. column_ok G c \<and> (snd (snd c) \<noteq> 0 \<longrightarrow> flagged)"
  shows "\<exists>bs. (\<forall>blob. push_columns G flagged (map (\<lambda>c. (c, False)) cols) blob = Ok (blob @ bs)) \<and>
    (\<forall>pre rest. length (pre @ bs @ rest) < 2 ^ 32 \<longrightarrow>
       row_values G junk flagged (pre @ bs @ rest) (length pre) (map fst cols) = Ok (map (client_prop G) cols, length cols, length pre + length bs) \<and>
       get_values G flagged (pre @ bs @ rest) (length pre) (map fst cols) =
         Ok (map (client_prop G) cols, map (ulPropTag \<circ> client_prop G) cols))"
  using assms(2)
proof (induction cols)
  case (Cons c cols)
  have "\<forall>c\<in>set cols. column_ok G c \<and> (snd (snd c) \<noteq> 0 \<longrightarrow> flagged)" using Cons.prems by simp
  from Cons.IH[OF this] obtain bs where bs:
    "\<forall>blob. push_columns G flagged (map (\<lambda>c. (c, False)) cols) blob = Ok (blob @ bs)"
    "\<And>pre rest. length (pre @ bs @ rest) < 2 ^ 32 \<Longrightarrow>
       row_values G junk flagged (pre @ bs @ rest) (length pre) (map fst cols) = Ok (map (client_prop G) cols, length cols, length pre + length bs) \<and>
       get_values G flagged (pre @ bs @ rest) (length pre) (map fst cols) =
         Ok (map (client_prop G) cols, map (ulPropTag \<circ> client_prop G) cols)"
    by blast
  have c: "column_ok G c" "snd (snd c) \<noteq> 0 \<longrightarrow> flagged" using Cons.prems by simp_all
  obtain cs where cs:
    "\<And>blob. libmapiserver_push_property G (fst (pushed_property c)) (snd (pushed_property c)) blob (if flagged then 0xa else 0) flagged False
       = Ok (blob @ cs)"
    "\<And>pre rest tags. length (pre @ cs @ rest) < 2 ^ 32 \<Longrightarrow>
       row_values G junk flagged (pre @ cs @ rest) (length pre) (fst c # tags) =
       obind (row_values G junk flagged (pre @ cs @ rest) (length pre + length cs) tags) (\<lambda>(row, m, i). Ok (client_prop G c # row, 1 + m, i))"
    "\<And>pre rest tags. length (pre @ cs @ rest) < 2 ^ 32 \<Longrightarrow>
       get_values G flagged (pre @ cs @ rest) (length pre) (fst c # tags) =
       obind (get_values G flagged (pre @ cs @ rest) (length pre + length cs) tags)
         (\<lambda>(row, ts). Ok (client_prop G c # row, ulPropTag (client_prop G c) # ts))"
    using column_bytes[OF assms(1) c, of junk] by blast
  have read: "row_values G junk flagged (pre @ (cs @ bs) @ rest) (length pre) (map fst (c # cols)) =
        Ok (map (client_prop G) (c # cols), length (c # cols), length pre + length (cs @ bs)) \<and>
      get_values G flagged (pre @ (cs @ bs) @ rest) (length pre) (map fst (c # cols)) =
        Ok (map (client_prop G) (c # cols), map (ulPropTag \<circ> client_prop G) (c # cols))"
    if "length (pre @ (cs @ bs) @ rest) < 2 ^ 32" for pre rest
    using that cs(2,3)[of pre "bs @ rest" "map fst cols"] bs(2)[of "pre @ cs" rest] by (simp add: add.assoc del: obind_eq_Ok_iff)
  show ?case
    by (rule exI[of _ "cs @ bs"]) (use cs(1) bs(1) read in \<open>simp del: obind_eq_Ok_iff\<close>)
qed (simp del: obind_eq_Ok_iff)

abbreviation row_flagged :: "'g column list \<Rightarrow> bool" where
  "row_flagged cols \<equiv> list_ex (\<lambda>(_, _, retval). retval \<noteq> 0) cols"

lemma row_bytes:
  assumes "row_laws G" "\<forall>c\<in>set cols. column_ok G c"
  obtains bs where "\<And>blob. emsmdbp_fill_table_row_blob G cols blob = Ok (blob @ (if row_flagged cols then 1 else 0) # bs)"
    "\<And>pre rest. length (pre @ bs @ rest) < 2 ^ 32 \<Longrightarrow>
       row_values G junk (row_flagged cols) (pre @ bs @ rest) (length pre) (map fst cols) =
         Ok (map (client_prop G) cols, length cols, length pre + length bs)"
proof -
  have "\<forall>c\<in>set cols. column_ok G c \<and> (snd (snd c) \<noteq> 0 \<longrightarrow> row_flagged cols)" using assms(2) by (force simp: list_ex_iff)
  from columns_bytes[OF assms(1) this, of junk] obtain bs where bs:
    "\<forall>blob. push_columns G (row_flagged cols) (map (\<lambda>c. (c, False)) cols) blob = Ok (blob @ bs)"
    "\<And>pre rest. length (pre @ bs @ rest) < 2 ^ 32 \<Longrightarrow>
       row_values G junk (row_flagged cols) (pre @ bs @ rest) (length pre) (map fst cols) =
         Ok (map (client_prop G) cols, length cols, length pre + length bs)" by blast
  have "prop_type 0xb = PT_BOOLEAN" "prop_type 0 = 0" by (simp_all add: prop_type_def)
  then have "libmapiserver_push_property G 0xb (FxBoolean 1) blob 0 False False = Ok (blob @ [1])"
    "libmapiserver_push_property G 0 (FxBoolean 0) blob 0 True False = Ok (blob @ [0])" for blob
    by (simp_all add: libmapiserver_push_property_def property_flag_def push_property_data_def Let_def)
  then have "emsmdbp_fill_table_row_blob G cols blob = Ok (blob @ (if row_flagged cols then 1 else 0) # bs)" for blob
    using bs(1) by (cases "row_flagged cols") (simp_all add: emsmdbp_fill_table_row_blob_def Let_def del: obind_eq_Ok_iff)
  then show thesis using bs(2) by (rule that)
qed

text \<open>Rows one after the other, as a table is read.\<close>

fun fill_rows :: "'g row_lib \<Rightarrow> 'g column list list \<Rightarrow> u8 list \<Rightarrow> u8 list outcome" where
  "fill_rows G [] blob = Ok blob"
| "fill_rows G (row # rows) blob = obind (emsmdbp_fill_table_row_blob G row blob) (fill_rows G rows)"

definition rows_ok :: "'g row_lib \<Rightarrow> u32 list \<Rightarrow> 'g column list list \<Rightarrow> bool" where
  "rows_ok G proptags rows \<longleftrightarrow> (\<forall>row\<in>set rows. map fst row = proptags \<and> (\<forall>c\<in>set row. column_ok G c))"

lemma rows_bytes:
  assumes "row_laws G" "rows_ok G proptags rows"
  shows "\<exists>bs. (\<forall>blob. fill_rows G rows blob = Ok (blob @ bs)) \<and>
    (\<forall>pre rest. length (pre @ bs @ rest) < 2 ^ 32 \<longrightarrow>
       get_rows G junk proptags (pre @ bs @ rest) (length rows) (length pre) = Ok (map (map (client_prop G)) rows))"
  using assms(2)
proof (induction rows)
  case (Cons row rows)
  then obtain bs where bs: "\<forall>blob. fill_rows G rows blob = Ok (blob @ bs)"
    "\<And>pre rest. length (pre @ bs @ rest) < 2 ^ 32 \<Longrightarrow>
       get_rows G junk proptags (pre @ bs @ rest) (length rows) (length pre) = Ok (map (map (client_prop G)) rows)"
    by (auto simp: rows_ok_def)
  have row: "\<forall>c\<in>set row. column_ok G c" "map fst row = proptags" using Cons.prems by (simp_all add: rows_ok_def)
  let ?b = "if row_flagged row then 1 else 0 :: u8"
  obtain cs where cs: "\<And>blob. emsmdbp_fill_table_row_blob G row blob = Ok (blob @ ?b # cs)"
    "\<And>pre rest. length (pre @ cs @ rest) < 2 ^ 32 \<Longrightarrow>
       row_values G junk (row_flagged row) (pre @ cs @ rest) (length pre) (map fst row) =
         Ok (map (client_prop G) row, length row, length pre + length cs)"
    using row_bytes[OF assms(1) row(1), of junk] by blast
  have "?b = 1 \<longleftrightarrow> row_flagged row" by simp
  then have "get_rows G junk proptags (pre @ (?b # cs @ bs) @ rest) (length (row # rows)) (length pre) = Ok (map (map (client_prop G)) (row # rows))"
    if "length (pre @ (?b # cs @ bs) @ rest) < 2 ^ 32" for pre rest
    using that cs(2)[of "pre @ [?b]" "bs @ rest"] bs(2)[of "pre @ ?b # cs" rest] row(2)
    by (simp add: add.assoc del: obind_eq_Ok_iff if_split)
  then show ?case
    by (intro exI[of _ "?b # cs @ bs"]) (use cs(1) bs(1) in \<open>simp del: obind_eq_Ok_iff if_split\<close>)
qed simp

section \<open>Types\<close>

lemma prop_id_error: "prop_id (error_tag ptag) = prop_id ptag" "prop_id (prop_id ptag OR PT_ERROR) = prop_id ptag"
  by (simp_all add: error_tag_def prop_id_def bit.conj_disj_distrib2 and.assoc)

text \<open>A property that was read: well typed, and with the identifier that was asked for.\<close>

definition read_as :: "u32 \<Rightarrow> SPropValue \<Rightarrow> bool" where
  "read_as ptag p \<longleftrightarrow> well_typed p \<and> prop_id (ulPropTag p) = prop_id ptag"

lemma set_SPropValue_typed: "yields (set_SPropValue ptag d) (\<lambda>(_, p). read_as ptag p)"
proof -
  have "read_as ptag (error_prop ptag)"
    using error_tag_type[of ptag] by (simp add: read_as_def well_typed_def error_prop_def prop_id_error error_tag_def)
  then show ?thesis
    by (cases d) (auto simp: set_SPropValue_def set_data_def read_as_def well_typed_def)
qed

text \<open>Or one that the server left out.\<close>

definition read_or_left :: "bool \<Rightarrow> prop_value \<Rightarrow> u32 \<Rightarrow> SPropValue \<Rightarrow> bool" where
  "read_or_left flagged junk ptag p \<longleftrightarrow> read_as ptag p \<or> flagged \<and> prop_id (ulPropTag p) = prop_id ptag \<and> pvalue p = junk"

lemma row_values_typed:
  "yields (row_values G junk flagged content offset tags)
     (\<lambda>(row, n, i). n \<le> length tags \<and> list_all2 (read_or_left flagged junk) tags row)"
proof (induction tags arbitrary: offset)
  case (Cons ptag tags)
  let ?tag = "\<lambda>x. case x of (t, h, i) \<Rightarrow> (t = ptag \<or> t = error_tag ptag) \<and> (h \<or> flagged)"
  let ?val = "\<lambda>x. case x of (p, n, i) \<Rightarrow> n \<le> (1::nat) \<and> read_or_left flagged junk ptag p"
  show ?case
    unfolding row_values.simps
  proof (rule yields_bind[where P = ?tag], goal_cases)
    case 1
    show ?case by (simp add: rd_def)
  next
    case (2 x)
    obtain t h i where x: "x = (t, h, i)" by (cases x)
    have t: "prop_id t = prop_id ptag" "h \<or> flagged" using 2 by (auto simp: x prop_id_error)
    moreover have "read_as ptag p" if "read_as t p" for p using that t(1) by (simp add: read_as_def)
    ultimately have val: "yields (if h then obind (pull_emsmdb_property G i t content) (\<lambda>(data, j).
          obind (set_SPropValue t data) (\<lambda>(_, p). Ok (p, 1, j))) else Ok (\<lparr>ulPropTag = t, pvalue = junk\<rparr>, 0, i)) ?val"
      using t(2) yieldsD[OF set_SPropValue_typed] by (auto simp: yields_def read_or_left_def split: prod.splits) 
    show ?case
      unfolding x prod.case
    proof (rule yields_bind[OF val], goal_cases)
      case (1 y)
      then show ?case by (cases y) (auto intro!: yields_bind[OF Cons.IH])
    qed
  qed
qed simp

lemma get_rows_typed:
  "yields (get_rows G junk proptags content n offset) (\<lambda>rows. length rows = n \<and> (\<forall>row\<in>set rows. list_all2 (read_or_left True junk) proptags row))"
proof (induction n arbitrary: offset)
  case (Suc n)
  have one: "yields (row_values G junk f content i proptags) (\<lambda>(row, _). list_all2 (read_or_left True junk) proptags row)" for f i
    by (rule yields_mono[OF row_values_typed]) (auto simp: read_or_left_def elim!: list_all2_mono)
  show ?case
    unfolding get_rows.simps
    by (rule yields_bind_any, rule yields_bind[OF one]) (auto intro!: yields_bind[OF Suc.IH])
qed simp

lemma get_values_typed:
  "yields (get_values G flag content offset tags)
     (\<lambda>(row, tags'). length tags' = length tags \<and> length row \<le> length tags \<and> (\<forall>p\<in>set row. well_typed p))"
proof (induction tags arbitrary: offset)
  case (Cons ptag tags)
  have one: "yields (if data = PNull then Ok [] else obind (set_SPropValue t data) (\<lambda>(_, p). Ok [p])) (\<lambda>ps. length ps \<le> 1 \<and> (\<forall>p\<in>set ps. well_typed p))"
    for t data
    using yieldsD[OF set_SPropValue_typed[of t data]] by (auto simp: yields_def read_as_def)
  show ?case
    unfolding get_values.simps
  proof (rule yields_bind_any, goal_cases)
    case (1 x)
    obtain t i where x: "x = (t, i)" by (cases x)
    show ?case
      unfolding x prod.case
    proof (rule yields_bind_any, goal_cases)
      case (1 y)
      obtain data j where y: "y = (data, j)" by (cases y)
      show ?case unfolding y prod.case by (rule yields_bind[OF one]) (auto intro!: yields_bind[OF Cons.IH])
    qed
  qed
qed simp

section \<open>Properties\<close>

text \<open>What is pulled for a tag is the member that the tag names, so that the setter, which does not check, stores it.\<close>

lemma pulled_fits:
  assumes "row_laws G" and "pull_emsmdb_property G i ptag content = Ok (PMember v, j)"
  shows "fits (prop_type ptag) v \<and> prop_type ptag \<in> set SPropValue_set_types"
proof -
  have "length (fst (ndr_pull_GUID G content i)) = 16" using assms(1) by (simp add: row_laws_def)
  then show ?thesis using assms(2)
    by (auto simp: pull_emsmdb_property_def pulled_def pulled_text_def Let_def SPropValue_set_types_def split: if_splits prod.splits option.splits)
qed

lemma pulled_member: "pull_emsmdb_property G i ptag content = Ok (d, j) \<Longrightarrow> d = PNull \<or> (\<exists>v. d = PMember v)"
  by (auto simp: pull_emsmdb_property_def pulled_def pulled_text_def Let_def split: if_splits prod.splits option.splits)

lemma pulled_stored:
  assumes "row_laws G" and "pull_emsmdb_property G i ptag content = Ok (d, j)"
  shows "d = PNull \<and> set_SPropValue ptag d = Ok (False, error_prop ptag) \<or>
    (\<exists>v. d = PMember v \<and> fits (prop_type ptag) v \<and> set_SPropValue ptag d = Ok (True, \<lparr>ulPropTag = ptag, pvalue = v\<rparr>))"
  using pulled_member [OF assms(2)] pulled_fits [OF assms(1)] assms(2) by (auto simp: set_SPropValue_def set_data_def)

text \<open>C30 Whatever bytes a client is sent, the value it decodes for a tag is of the type of the tag, so that the setter, which copies the
  member that the tag names without a check, stores it under the tag, or the error that it was not found when no value came. The rows have
  one property for each column, with the identifier of the column, and each is well typed, unless it is one that the flags
  say is left out, whose value is not set. The values of \<^verbatim>\<open>GetProps\<close> are all well typed.\<close>

theorem client_rows_typed:
  assumes "row_laws G"
  shows "(pull_emsmdb_property G i ptag bytes = Ok (d, j) \<longrightarrow>
      d = PNull \<and> set_SPropValue ptag d = Ok (False, error_prop ptag) \<or>
      (\<exists>v. d = PMember v \<and> fits (prop_type ptag) v \<and> set_SPropValue ptag d = Ok (True, \<lparr>ulPropTag = ptag, pvalue = v\<rparr>))) \<and>
   (emsmdb_get_SRowSet G junk n proptags content = Ok rows \<longrightarrow>
      length rows = n \<and> (\<forall>row\<in>set rows. list_all2 (read_or_left True junk) proptags row)) \<and>
   (emsmdb_get_SPropValue G junk reply tags flag = Ok (row, m, tags') \<longrightarrow>
      m \<le> length tags \<and> length row = Suc m \<and> length tags' = length tags \<and> (\<forall>p\<in>set (take m row). well_typed p))"
  using pulled_stored[OF assms, of i ptag bytes d j] yieldsD[OF get_rows_typed, of G junk proptags content n 0 rows]
    yieldsD[OF get_values_typed, of G flag reply 0 tags]
  by (fastforce simp: emsmdb_get_SRowSet_def emsmdb_get_SPropValue_def)

lemma le_bytes_four: "le_bytes 4 v = [ucast v, ucast (drop_bit 8 v), ucast (drop_bit 16 v), ucast (drop_bit 24 v)]" for v :: u32
  by (rule nth_equalityI) (auto simp: nth_le_bytes less_Suc_eq numeral_eq_Suc)

lemmas row_eval = rowlib128_fields row_value_simps set_SPropValue_def set_data_def SPropValue_set_types_def prop_type_def
  pull_bytes_def pull_wide_def rd_def le_bytes_four

definition sample_wire :: "u8 list" where
  "sample_wire = [1, 0xa, 0x0f, 1, 4, 0x80, 0, 7, 0, 0, 0]"

lemma sample_wire_read:
  "emsmdb_get_SRowSet rowlib128 VNullPtr 1 [0x0037001f, 0x0e080003] sample_wire =
     Ok [[\<lparr>ulPropTag = 0x0037000a, pvalue = VError 0x8004010f\<rparr>, \<lparr>ulPropTag = 0x0e080003, pvalue = VLong 7\<rparr>]]"
  "emsmdb_get_SPropValue rowlib128 VNullPtr [7, 0, 0, 0] [0x0e080003] False =
     Ok ([\<lparr>ulPropTag = 0x0e080003, pvalue = VLong 7\<rparr>, \<lparr>ulPropTag = 0, pvalue = VNullPtr\<rparr>], 1, [0x0e080003])"
  by (simp_all add: sample_wire_def emsmdb_get_SRowSet_def emsmdb_get_SPropValue_def row_eval error_tag_def prop_id_def del: obind_eq_Ok_iff)

theorem client_rows_typed_witness:
  "set_SPropValue 0x0e080003 (PMember (VLong 7)) = Ok (True, \<lparr>ulPropTag = 0x0e080003, pvalue = VLong 7\<rparr>) \<and>
   list_all2 (read_or_left True VNullPtr) [0x0037001f, 0x0e080003]
     [\<lparr>ulPropTag = 0x0037000a, pvalue = VError 0x8004010f\<rparr>, \<lparr>ulPropTag = 0x0e080003, pvalue = VLong 7\<rparr>] \<and>
   well_typed \<lparr>ulPropTag = 0x0e080003, pvalue = VLong 7\<rparr>"
proof -
  have "pull_emsmdb_property rowlib128 0 0x0e080003 [7, 0, 0, 0] = Ok (PMember (VLong 7), 4)" by (simp add: row_eval)
  then show ?thesis
    using client_rows_typed[OF row_laws_rowlib128, of 0 "0x0e080003" "[7, 0, 0, 0]" "PMember (VLong 7)" 4
        VNullPtr 1 "[0x0037001f, 0x0e080003]" sample_wire
        "[[\<lparr>ulPropTag = 0x0037000a, pvalue = VError 0x8004010f\<rparr>, \<lparr>ulPropTag = 0x0e080003, pvalue = VLong 7\<rparr>]]"
        "[7, 0, 0, 0]" "[0x0e080003]" False "[\<lparr>ulPropTag = 0x0e080003, pvalue = VLong 7\<rparr>, \<lparr>ulPropTag = 0, pvalue = VNullPtr\<rparr>]" 1 "[0x0e080003]"]
    by (simp add: sample_wire_read del: One_nat_def) simp
qed

text \<open>C6 The properties of an object, as a server answers a request for them, are those the client reads, in the order of the tags it asked
  for: the values, with binaries cut to their length modulo 65536, and for each property that could not be had the error.\<close>

theorem get_props_roundtrip:
  assumes "row_laws G" "\<forall>c\<in>set cols. column_ok G c"
  shows "\<exists>layout blob. emsmdbp_fill_row_blob G (map (\<lambda>c. (c, False)) cols) [] = Ok (layout, blob) \<and>
    (length blob < 2 ^ 32 \<longrightarrow>
       emsmdb_get_SPropValue G junk blob (map fst cols) layout =
         Ok (map (client_prop G) cols @ [\<lparr>ulPropTag = 0, pvalue = junk\<rparr>], length cols, map (ulPropTag \<circ> client_prop G) cols))"
proof -
  define fl where "fl = list_ex (\<lambda>((_, v, retval), untyped). retval \<noteq> 0 \<or> untyped \<or> v = FxNullPtr) (map (\<lambda>c. (c, False)) cols)"
  have "fl" if "c \<in> set cols" "snd (snd c) \<noteq> 0" for c
    unfolding fl_def list_ex_iff using that by (intro bexI[of _ "(c, False)"]) (auto split: prod.splits)
  then have "\<forall>c\<in>set cols. column_ok G c \<and> (snd (snd c) \<noteq> 0 \<longrightarrow> fl)" using assms(2) by blast
  from columns_bytes[OF assms(1) this, of junk] obtain bs where
    bs: "\<forall>blob. push_columns G fl (map (\<lambda>c. (c, False)) cols) blob = Ok (blob @ bs)"
      "\<And>pre rest. length (pre @ bs @ rest) < 2 ^ 32 \<Longrightarrow> get_values G fl (pre @ bs @ rest) (length pre) (map fst cols) =
         Ok (map (client_prop G) cols, map (ulPropTag \<circ> client_prop G) cols)" by blast
  show ?thesis
  proof (intro exI conjI impI)
    show "emsmdbp_fill_row_blob G (map (\<lambda>c. (c, False)) cols) [] = Ok (fl, bs)"
      unfolding emsmdbp_fill_row_blob_def fl_def[symmetric] Let_def using bs(1) by (simp del: obind_eq_Ok_iff)
    show "emsmdb_get_SPropValue G junk bs (map fst cols) fl =
         Ok (map (client_prop G) cols @ [\<lparr>ulPropTag = 0, pvalue = junk\<rparr>], length cols, map (ulPropTag \<circ> client_prop G) cols)"
      if "length bs < 2 ^ 32"
      using bs(2)[of "[]" "[]"] that by (simp add: emsmdb_get_SPropValue_def del: obind_eq_Ok_iff)
  qed
qed

definition sample_columns :: "128 word column list" where
  "sample_columns = [(0x0037001f, FxString [72, 105], 0), (0x0e080003, FxLong 7, 0), (0x10090102, FxNullPtr, 0x8004010f)]"

lemma sample_columns_ok: "\<forall>c\<in>set sample_columns. column_ok rowlib128 c"
  using pulls_wide[of "[72, 105]"] by (simp add: sample_columns_def column_ok_def seen_def prop_type_def rowlib128_fields)

theorem get_props_roundtrip_witness:
  "\<exists>layout blob. emsmdbp_fill_row_blob rowlib128 (map (\<lambda>c. (c, False)) sample_columns) [] = Ok (layout, blob) \<and>
     emsmdb_get_SPropValue rowlib128 VNullPtr blob (map fst sample_columns) layout =
       Ok ([\<lparr>ulPropTag = 0x0037001f, pvalue = VUnicode [72, 105]\<rparr>, \<lparr>ulPropTag = 0x0e080003, pvalue = VLong 7\<rparr>,
            \<lparr>ulPropTag = 0x1009000a, pvalue = VError 0x8004010f\<rparr>, \<lparr>ulPropTag = 0, pvalue = VNullPtr\<rparr>], 3,
           [0x0037001f, 0x0e080003, 0x1009000a])"
proof -
  have fill: "emsmdbp_fill_row_blob rowlib128 (map (\<lambda>c. (c, False)) sample_columns) [] =
      Ok (True, [0, 72, 0, 105, 0, 0, 0, 0, 7, 0, 0, 0, 0xa, 0x0f, 1, 4, 0x80])"
    by (simp add: sample_columns_def emsmdbp_fill_row_blob_def libmapiserver_push_property_def pushed_property_def property_flag_def
        row_eval prop_id_def del: obind_eq_Ok_iff)
  have "map (client_prop rowlib128) sample_columns = [\<lparr>ulPropTag = 0x0037001f, pvalue = VUnicode [72, 105]\<rparr>,
      \<lparr>ulPropTag = 0x0e080003, pvalue = VLong 7\<rparr>, \<lparr>ulPropTag = 0x1009000a, pvalue = VError 0x8004010f\<rparr>]"
    "length sample_columns = 3"
    by (simp_all add: sample_columns_def client_prop_def seen_def prop_type_def error_tag_def prop_id_def)
  moreover from this(1) have "map (ulPropTag \<circ> client_prop rowlib128) sample_columns = [0x0037001f, 0x0e080003, 0x1009000a]"
    by (simp add: sample_columns_def)
  ultimately show ?thesis
    using get_props_roundtrip[OF row_laws_rowlib128 sample_columns_ok, of VNullPtr] fill by simp
qed

end
