(* ===== verification/Table_Cursor.thy ===== *)
theory Table_Cursor
  imports Tables Row_Roundtrip Mapi_Handles_Table
begin

unbundle bit_operations_syntax

text \<open>
  Reading a table through its cursor: in which order the calls of theory \<open>Tables\<close> hand out the rows, and what the client reads in them.
\<close>

section \<open>Rows and their sizes\<close>

definition wire_size :: "'g row_lib \<Rightarrow> 'g column list \<Rightarrow> nat" where
  "wire_size G row = (case emsmdbp_fill_table_row_blob G row [] of Ok bs \<Rightarrow> length bs | _ \<Rightarrow> 0)"

abbreviation wire_sizes :: "'g row_lib \<Rightarrow> 'g column list list \<Rightarrow> nat" where
  "wire_sizes G rows \<equiv> sum_list (map (wire_size G) rows)"

lemma fill_row_size:
  assumes "row_laws G" "\<forall>c\<in>set row. column_ok G c" "emsmdbp_fill_table_row_blob G row blob = Ok bs"
  shows "length bs = length blob + wire_size G row"
proof (rule row_bytes[OF assms(1,2), of VNullPtr], goal_cases)
  case (1 cs)
  from 1(1)[of blob] 1(1)[of "[]"] show ?case using assms(3) by (simp add: wire_size_def)
qed

lemma fill_rows_size:
  assumes "row_laws G"
  shows "rows_ok G tags rows \<Longrightarrow> fill_rows G rows blob = Ok bs \<Longrightarrow> length bs = length blob + wire_sizes G rows"
proof (induction rows arbitrary: blob)
  case (Cons row rows)
  then obtain b1 where b1: "emsmdbp_fill_table_row_blob G row blob = Ok b1" "fill_rows G rows b1 = Ok bs" by auto
  have "\<forall>c\<in>set row. column_ok G c" "rows_ok G tags rows" using Cons.prems(1) by (simp_all add: rows_ok_def)
  then show ?case using fill_row_size[OF assms _ b1(1)] Cons.IH[OF _ b1(2)] by simp
qed simp

text \<open>What the client reads in the rows it is sent.\<close>

lemma rows_delivered:
  assumes "row_laws G" "rows_ok G tags rows" "wire_sizes G rows < 2 ^ 32"
  obtains bs where "fill_rows G rows [] = Ok bs" "emsmdb_get_SRowSet G junk (length rows) tags bs = Ok (map (map (client_prop G)) rows)"
proof -
  obtain bs where bs: "\<forall>blob. fill_rows G rows blob = Ok (blob @ bs)"
    "\<And>pre rest. length (pre @ bs @ rest) < 2 ^ 32 \<Longrightarrow>
       get_rows G junk tags (pre @ bs @ rest) (length rows) (length pre) = Ok (map (map (client_prop G)) rows)"
    using rows_bytes[OF assms(1,2), of junk] by blast
  have "length bs < 2 ^ 32" using fill_rows_size[OF assms(1,2), of "[]" bs] bs(1) assms(3) by simp
  then show thesis using that[of bs] bs(1) bs(2)[of "[]" "[]"] by (simp add: emsmdb_get_SRowSet_def)
qed

section \<open>Tables that serve rows\<close>

text \<open>The rows behind a table: every index below the number of rows gives a row, the others do not.\<close>

definition serves :: "('h, 'b, 'r, 's, 'g) table_env \<Rightarrow> 'b table_object \<Rightarrow> 'g column list list \<Rightarrow> bool" where
  "serves E ob rows \<longleftrightarrow>
     ulType (tbl ob) \<noteq> MAPISTORE_RULE_TABLE \<and> \<not> is_depth (tbl ob) \<and>
     length rows < 2 ^ 31 \<and> denominator (tbl ob) = of_nat (length rows) \<and>
     rows_ok (te_lib E) (columns (tbl ob)) rows \<and>
     (\<forall>k. emsmdbp_object_table_get_row_props E ob k False = Ok (if unat k < length rows then Some (rows ! unat k) else None))"

text \<open>The handle of a table.\<close>

definition opens :: "('h, 'b, 'r, 's, 'g) table_env \<Rightarrow> ('h, 'b) table_session \<Rightarrow> u32 \<Rightarrow> 'b table_object \<Rightarrow> bool" where
  "opens E ctx h ob \<longleftrightarrow>
     (\<exists>el p. mapi_handles_search (te_tdb E) (tbl_handles ctx) h = (MAPI_E_SUCCESS, Some el) \<and>
             mapi_handles_get_private_data el = (MAPI_E_SUCCESS, Some p) \<and> tbl_objects ctx p = Some (TableObject ob))"

lemma with_table_opens:
  assumes "opens E ctx h ob" "f h ob = Ok (e, r, ob')"
  obtains ctx' where "with_table (te_tdb E) ctx [h] 0 c d f = Ok (e, r, ctx')" "opens E ctx' h ob'"
proof -
  obtain el p where s: "mapi_handles_search (te_tdb E) (tbl_handles ctx) h = (MAPI_E_SUCCESS, Some el)"
    "mapi_handles_get_private_data el = (MAPI_E_SUCCESS, Some p)" "tbl_objects ctx p = Some (TableObject ob)"
    using assms(1) by (auto simp: opens_def)
  let ?ctx = "ctx\<lparr>tbl_objects := (tbl_objects ctx)(p \<mapsto> TableObject ob')\<rparr>"
  have "with_table (te_tdb E) ctx [h] 0 c d f = Ok (e, r, ?ctx)"
    by (simp add: with_table_def rd_def s assms(2) del: obind_eq_Ok_iff)
  moreover have "opens E ?ctx h ob'" using s by (auto simp: opens_def)
  ultimately show thesis by (rule that)
qed

text \<open>The cursor and the subscription make no difference to the rows.\<close>

lemma get_row_props_cursor:
  assumes "ulType t = ulType (tbl ob)" "columns t = columns (tbl ob)"
  shows "emsmdbp_object_table_get_row_props E (ob\<lparr>tbl := t\<rparr>) = emsmdbp_object_table_get_row_props E ob"
  by (intro ext) (simp add: emsmdbp_object_table_get_row_props_def assms split: option.splits)

lemma serves_table:
  assumes "ulType t = ulType (tbl ob)" "columns t = columns (tbl ob)" "table_flags t = table_flags (tbl ob)" "denominator t = denominator (tbl ob)"
  shows "serves E (ob\<lparr>tbl := t\<rparr>) rows \<longleftrightarrow> serves E ob rows"
  by (simp add: serves_def is_depth_def get_row_props_cursor[OF assms(1,2)] assms)

lemma serves_cursor: "serves E (ob\<lparr>tbl := (tbl ob)\<lparr>numerator := i\<rparr>\<rparr>) rows \<longleftrightarrow> serves E ob rows"
  and serves_subscribe: "serves E (query_subscribe E h ob) rows \<longleftrightarrow> serves E ob rows"
  by (simp_all add: serves_table query_subscribe_def Let_def split: prod.splits table_parent.splits)

lemma subscribe_cursor: "numerator (tbl (query_subscribe E h ob)) = numerator (tbl ob)"
  "columns (tbl (query_subscribe E h ob)) = columns (tbl ob)"
  by (simp_all add: query_subscribe_def Let_def split: prod.splits table_parent.splits)

section \<open>The loop\<close>

lemma serves_row: "serves E ob rows \<Longrightarrow> k < length rows \<Longrightarrow> emsmdbp_object_table_get_row_props E ob (of_nat k) False = Ok (Some (rows ! k))"
  by (simp add: serves_def unat_of_nat)

lemma query_loop_forward:
  assumes "serves E ob rows" "m \<le> length rows"
  shows "k \<le> m \<Longrightarrow> query_loop E ob True (int m) (int k) n blob =
    obind (fill_rows (te_lib E) (take (m - k) (drop k rows)) blob) (\<lambda>bs. Ok (int m, n + of_nat (m - k), bs))"
proof (induction "m - k" arbitrary: k n blob)
  case 0
  then show ?case by (simp add: query_loop.simps)
next
  case (Suc d)
  have k: "k < length rows" using Suc.hyps(2) assms(2) by simp
  moreover have "length rows < 2 ^ 31" using assms(1) by (simp add: serves_def)
  ultimately have small: "k < 2 ^ 31" by linarith
  have ne: "k \<noteq> m" using Suc.hyps(2) by auto
  have rows: "take (m - k) (drop k rows) = rows ! k # take (m - Suc k) (drop (Suc k) rows)"
    using Suc.hyps(2) k by (simp add: Cons_nth_drop_Suc[symmetric] take_Cons' diff_Suc split: nat.splits)
  have "query_loop E ob True (int m) (int k) n blob =
      obind (emsmdbp_fill_table_row_blob (te_lib E) (rows ! k) blob) (\<lambda>b. query_loop E ob True (int m) (int (Suc k)) (n + 1) b)"
    using serves_row[OF assms(1) k] ne small by (subst query_loop.simps) (simp add: add.commute del: obind_eq_Ok_iff)
  also have "\<dots> = obind (emsmdbp_fill_table_row_blob (te_lib E) (rows ! k) blob) (\<lambda>b.
      obind (fill_rows (te_lib E) (take (m - Suc k) (drop (Suc k) rows)) b) (\<lambda>bs. Ok (int m, n + 1 + of_nat (m - Suc k), bs)))"
    using Suc.hyps(1)[of "Suc k"] Suc.hyps(2) by (simp del: obind_eq_Ok_iff)
  also have "n + 1 + of_nat (m - Suc k) = n + (of_nat (m - k) :: u32)"
    using Suc.hyps(2) by (metis Suc_diff_Suc add.assoc of_nat_Suc zero_less_Suc zero_less_diff)
  finally show ?case unfolding rows by (simp add: obind_assoc del: obind_eq_Ok_iff)
qed

lemma query_loop_backward:
  assumes "serves E ob rows" "q \<le> length rows"
  shows "a \<le> q \<Longrightarrow> query_loop E ob False (int a - 1) (int q - 1) n blob =
    obind (fill_rows (te_lib E) (rev (take (q - a) (drop a rows))) blob) (\<lambda>bs. Ok (int a - 1, n + of_nat (q - a), bs))"
  using assms(2)
proof (induction "q - a" arbitrary: q n blob)
  case 0
  then show ?case by (simp add: query_loop.simps)
next
  case (Suc d)
  obtain r where r: "q = Suc r" "a \<le> r" using Suc.hyps(2) by (cases q) auto
  have k: "r < length rows" using Suc.prems(2) r by simp
  have rows: "rev (take (q - a) (drop a rows)) = rows ! r # rev (take (r - a) (drop a rows))"
    using r k by (simp add: Suc_diff_le take_Suc_conv_app_nth)
  have "of_int (int r) = (of_nat r :: u32)" by simp
  then have "query_loop E ob False (int a - 1) (int q - 1) n blob =
      obind (emsmdbp_fill_table_row_blob (te_lib E) (rows ! r) blob) (\<lambda>b. query_loop E ob False (int a - 1) (int r - 1) (n + 1) b)"
    using serves_row[OF assms(1) k] r by (subst query_loop.simps) (auto simp: add.commute simp del: obind_eq_Ok_iff)
  also have "\<dots> = obind (emsmdbp_fill_table_row_blob (te_lib E) (rows ! r) blob) (\<lambda>b.
      obind (fill_rows (te_lib E) (rev (take (r - a) (drop a rows))) b) (\<lambda>bs. Ok (int a - 1, n + 1 + of_nat (r - a), bs)))"
    using Suc.hyps(1)[of r] Suc.hyps(2) r k by (simp del: obind_eq_Ok_iff)
  also have "n + 1 + of_nat (r - a) = n + (of_nat (q - a) :: u32)" using r by (simp add: Suc_diff_le add.assoc)
  finally show ?case unfolding rows by (simp add: obind_assoc del: obind_eq_Ok_iff)
qed

section \<open>One call\<close>

text \<open>Whatever part of the rows the loop goes over, the client reads it.\<close>

lemma QueryRows_part:
  assumes "row_laws (te_lib E)" "serves E ob rows" "opens E ctx h ob"
    and fetch: "query_fetch E req ob = obind (fill_rows (te_lib E) part []) (\<lambda>bs. Ok (i, of_nat (length part), bs))"
    and part: "rows_ok (te_lib E) (columns (tbl ob)) part" "wire_sizes (te_lib E) part < 2 ^ 32" "length part < 2 ^ 16"
  obtains ctx' ob' where
    "QueryRows E junk ctx h (columns (tbl ob)) req = Ok (0, map (map (client_prop (te_lib E))) part, ctx')"
    "opens E ctx' h ob'" "serves E ob' rows" "columns (tbl ob') = columns (tbl ob)"
    "numerator (tbl ob') = (if NoAdvance req then numerator (tbl ob) else if i < 0 then 0 else of_int i)"
proof -
  obtain bs where bs: "fill_rows (te_lib E) part [] = Ok bs"
    "emsmdb_get_SRowSet (te_lib E) junk (length part) (columns (tbl ob)) bs = Ok (map (map (client_prop (te_lib E))) part)"
    using rows_delivered[OF assms(1) part(1,2), of junk] by blast
  define t where "t = (if NoAdvance req then tbl ob else (tbl ob)\<lparr>numerator := (if i < 0 then 0 else of_int i)\<rparr>)"
  define n where "n = (of_nat (length part) :: u32)"
  have un: "unat n = length part" using part(3) by (simp add: n_def unsigned_of_nat take_bit_nat_eq_self)
  then have n: "unat (ucast n :: u16) = length part" "n = 0 \<longleftrightarrow> part = []"
    using part(3) unsigned_eq_0_iff[of n] by (auto simp: unsigned_ucast_eq take_bit_nat_eq_self)
  obtain ob' where ob': "ob' = query_subscribe E h (ob\<lparr>tbl := t\<rparr>)" by simp
  obtain repl where repl: "table_query_rows E req h ob = Ok (0, repl, ob')" "rows_count repl = ucast n" "rows_data repl = (if n \<noteq> 0 then bs else [])"
    by (simp add: table_query_rows_def fetch bs(1) t_def[symmetric] n_def[symmetric] Let_def ob' del: obind_eq_Ok_iff)
  obtain ctx' where ctx': "EcDoRpc_RopQueryRows E ctx [h] 0 req = Ok (0, repl, ctx')" "opens E ctx' h ob'"
    unfolding EcDoRpc_RopQueryRows_def using with_table_opens[of E ctx h ob "table_query_rows E req", OF assms(3) repl(1)] by blast
  have "emsmdb_get_SRowSet (te_lib E) junk (unat (rows_count repl)) (columns (tbl ob)) (rows_data repl) = Ok (map (map (client_prop (te_lib E))) part)"
    using bs n by (cases "part = []") (simp_all add: repl emsmdb_get_SRowSet_def)
  then have "QueryRows E junk ctx h (columns (tbl ob)) req = Ok (0, map (map (client_prop (te_lib E))) part, ctx')"
    by (simp add: QueryRows_def ctx'(1) del: obind_eq_Ok_iff)
  moreover have "serves E ob' rows" using assms(2) by (simp add: ob' serves_subscribe t_def serves_cursor)
  moreover have "columns (tbl ob') = columns (tbl ob)" "numerator (tbl ob') = (if NoAdvance req then numerator (tbl ob) else if i < 0 then 0 else of_int i)"
    by (simp_all add: ob' subscribe_cursor t_def)
  ultimately show thesis using that ctx'(2) by blast
qed

lemma wire_sizes_part: "wire_sizes G (take a (drop b rows)) \<le> wire_sizes G rows"
proof -
  have "wire_sizes G rows = wire_sizes G (take b rows) + (wire_sizes G (take a (drop b rows)) + wire_sizes G (drop a (drop b rows)))"
    unfolding sum_list_append[symmetric] map_append[symmetric] append_take_drop_id ..
  then show ?thesis by simp
qed

lemma rows_ok_part: "rows_ok G tags rows \<Longrightarrow> rows_ok G tags (take a (drop b rows))" "rows_ok G tags rows \<Longrightarrow> rows_ok G tags (rev rows)"
  by (auto simp: rows_ok_def dest!: in_set_takeD in_set_dropD)

lemma QueryRows_forward:
  assumes "row_laws (te_lib E)" "serves E ob rows" "opens E ctx h ob" "wire_sizes (te_lib E) rows < 2 ^ 32"
    and k: "numerator (tbl ob) = of_nat k" "k \<le> length rows" and "ForwardRead req"
  obtains ctx' ob' where
    "QueryRows E junk ctx h (columns (tbl ob)) req = Ok (0, map (map (client_prop (te_lib E))) (take (unat (RowCount req)) (drop k rows)), ctx')"
    "opens E ctx' h ob'" "serves E ob' rows" "columns (tbl ob') = columns (tbl ob)"
    "numerator (tbl ob') = (if NoAdvance req then of_nat k else of_nat (min (k + unat (RowCount req)) (length rows)))"
proof -
  define c where "c = unat (RowCount req)"
  define m where "m = min (k + c) (length rows)"
  have "unat (RowCount req) < 2 ^ LENGTH(16)" by (rule unsigned_less)
  then have c: "c < 2 ^ 16" by (simp add: c_def)
  have len: "length rows < 2 ^ 31" "denominator (tbl ob) = of_nat (length rows)" using assms(2) by (simp_all add: serves_def)
  have u: "uint (of_nat j :: u32) = int j" if "j < 2 ^ 32" for j
    using that by (simp add: unsigned_of_nat take_bit_nat_eq_self)
  have "of_nat k + ucast (RowCount req) = (of_nat (k + c) :: u32)" by (simp add: c_def)
  moreover have "k + c < 2 ^ 32" using k(2) c len(1) by simp
  ultimately have "uint (numerator (tbl ob) + ucast (RowCount req)) = int (k + c)" using u[of "k + c"] by (simp only: k(1))
  moreover have "uint (denominator (tbl ob)) = int (length rows)" using len by (simp add: u)
  ultimately have stop: "query_end req (tbl ob) = int m" by (simp add: query_end_def assms(7) m_def)
  have mk: "m - k = length (take c (drop k rows))" "k \<le> m" "m \<le> length rows" using k(2) by (auto simp: m_def)
  have part: "take (m - k) (drop k rows) = take c (drop k rows)" unfolding mk(1) by (simp add: min_def)
  have "uint (numerator (tbl ob)) = int k" using k len(1) by (simp add: u)
  then have "query_fetch E req ob = obind (fill_rows (te_lib E) (take c (drop k rows)) []) (\<lambda>bs. Ok (int m, of_nat (length (take c (drop k rows))), bs))"
    using assms(2) query_loop_forward[OF assms(2) mk(3,2), of 0 "[]"]
    by (simp add: query_fetch_def serves_def stop assms(7) part mk(1)[symmetric] del: obind_eq_Ok_iff length_take)
  moreover have "length (take c (drop k rows)) < 2 ^ 16" using c by simp
  moreover have "wire_sizes (te_lib E) (take c (drop k rows)) < 2 ^ 32" using wire_sizes_part[of "te_lib E" c k rows] assms(4) by linarith
  moreover have "rows_ok (te_lib E) (columns (tbl ob)) (take c (drop k rows))" using assms(2) by (simp add: serves_def rows_ok_part)
  ultimately obtain ctx' ob' where
    "QueryRows E junk ctx h (columns (tbl ob)) req = Ok (0, map (map (client_prop (te_lib E))) (take c (drop k rows)), ctx')"
    "opens E ctx' h ob'" "serves E ob' rows" "columns (tbl ob') = columns (tbl ob)"
    "numerator (tbl ob') = (if NoAdvance req then numerator (tbl ob) else if int m < 0 then 0 else of_int (int m))"
    by (metis QueryRows_part[OF assms(1-3)])
  then show thesis using that k(1) by (simp add: c_def m_def)
qed

text \<open>Backwards, the row of the cursor is the first one.\<close>

lemma QueryRows_backward:
  assumes "row_laws (te_lib E)" "serves E ob rows" "opens E ctx h ob" "wire_sizes (te_lib E) rows < 2 ^ 32"
    and p: "numerator (tbl ob) = of_nat p" "p < length rows" and "\<not> ForwardRead req" "\<not> NoAdvance req"
  defines "a \<equiv> Suc p - unat (RowCount req)"
  obtains ctx' ob' where
    "QueryRows E junk ctx h (columns (tbl ob)) req = Ok (0, map (map (client_prop (te_lib E))) (rev (take (Suc p - a) (drop a rows))), ctx')"
    "opens E ctx' h ob'" "serves E ob' rows" "columns (tbl ob') = columns (tbl ob)" "numerator (tbl ob') = of_nat (a - 1)"
proof -
  define c where "c = unat (RowCount req)"
  have "unat (RowCount req) < 2 ^ LENGTH(16)" by (rule unsigned_less)
  then have c: "c < 2 ^ 16" by (simp add: c_def)
  have len: "length rows < 2 ^ 31" using assms(2) by (simp add: serves_def)
  have ac: "a = Suc p - c" "a \<le> Suc p" by (simp_all add: a_def c_def)
  have num: "uint (numerator (tbl ob)) = int p" "unat (numerator (tbl ob)) = p" using p len by (simp_all add: unsigned_of_nat take_bit_nat_eq_self)
  have "numerator (tbl ob) < ucast (RowCount req) \<longleftrightarrow> p < c"
    unfolding word_less_nat_alt num(2) using c by (simp add: c_def unsigned_ucast_eq take_bit_nat_eq_self)
  then have stop: "query_end req (tbl ob) = int a - 1"
    using assms(7) by (simp add: query_end_def num ac(1) c_def of_nat_diff)
  define part where "part = rev (take (Suc p - a) (drop a rows))"
  have lp: "length part = Suc p - a" using p(2) by (simp add: part_def)
  have "query_fetch E req ob = obind (fill_rows (te_lib E) part []) (\<lambda>bs. Ok (int a - 1, of_nat (length part), bs))"
    using assms(2,7) query_loop_backward[OF assms(2), of "Suc p" a 0 "[]"] p(2) ac(2)
    by (simp add: query_fetch_def serves_def stop num lp part_def[symmetric] del: obind_eq_Ok_iff)
  moreover have "length part < 2 ^ 16" using c by (simp add: lp ac(1))
  moreover have "wire_sizes (te_lib E) part < 2 ^ 32"
    using wire_sizes_part[of "te_lib E" "Suc p - a" a rows] assms(4) by (simp add: part_def rev_map[symmetric])
  moreover have "rows_ok (te_lib E) (columns (tbl ob)) part" using assms(2) by (simp add: serves_def rows_ok_part part_def)
  ultimately obtain ctx' ob' where
    "QueryRows E junk ctx h (columns (tbl ob)) req = Ok (0, map (map (client_prop (te_lib E))) part, ctx')"
    "opens E ctx' h ob'" "serves E ob' rows" "columns (tbl ob') = columns (tbl ob)"
    "numerator (tbl ob') = (if NoAdvance req then numerator (tbl ob) else if int a - 1 < 0 then 0 else of_int (int a - 1))"
    by (metis QueryRows_part[OF assms(1-3)])
  moreover have "(if int a - 1 < 0 then 0 else of_int (int a - 1)) = (of_nat (a - 1) :: u32)" by (cases a) simp_all
  ultimately show thesis using that[of ctx' ob'] assms(8) by (simp add: part_def)
qed

section \<open>Reading a whole table\<close>

definition forward_req :: "u16 \<Rightarrow> QueryRows_req" where
  "forward_req n = \<lparr>NoAdvance = False, ForwardRead = True, RowCount = n\<rparr>"

definition backward_req :: "u16 \<Rightarrow> QueryRows_req" where
  "backward_req n = \<lparr>NoAdvance = False, ForwardRead = False, RowCount = n\<rparr>"

text \<open>A client that asks again and again.\<close>

fun read_batches ::
  "('h, 'b, 'r, 's, 'g) table_env \<Rightarrow> prop_value \<Rightarrow> u32 \<Rightarrow> u32 list \<Rightarrow> QueryRows_req list \<Rightarrow> ('h, 'b) table_session \<Rightarrow>
     (SRowSet list \<times> ('h, 'b) table_session) outcome" where
  "read_batches E junk h tags [] ctx = Ok ([], ctx)"
| "read_batches E junk h tags (req # reqs) ctx =
     obind (QueryRows E junk ctx h tags req) (\<lambda>(_, rows, ctx').
     obind (read_batches E junk h tags reqs ctx') (\<lambda>(batches, ctx''). Ok (rows # batches, ctx'')))"

lemma read_forward:
  assumes "row_laws (te_lib E)" "wire_sizes (te_lib E) rows < 2 ^ 32"
  shows "serves E ob rows \<Longrightarrow> opens E ctx h ob \<Longrightarrow> columns (tbl ob) = tags \<Longrightarrow> numerator (tbl ob) = of_nat k \<Longrightarrow> k \<le> length rows \<Longrightarrow>
    \<exists>batches ctx' ob'. read_batches E junk h tags (map forward_req ns) ctx = Ok (batches, ctx') \<and>
      concat batches = map (map (client_prop (te_lib E))) (take (sum_list (map unat ns)) (drop k rows)) \<and>
      opens E ctx' h ob' \<and> numerator (tbl ob') = of_nat (min (k + sum_list (map unat ns)) (length rows))"
proof (induction ns arbitrary: ctx ob k)
  case Nil
  then show ?case by auto
next
  case (Cons n ns)
  let ?c = "unat n" and ?s = "sum_list (map unat ns)"
  have fw: "ForwardRead (forward_req n)" "RowCount (forward_req n) = n" "\<not> NoAdvance (forward_req n)" by (simp_all add: forward_req_def)
  obtain ctx1 ob1 where q:
    "QueryRows E junk ctx h tags (forward_req n) = Ok (0, map (map (client_prop (te_lib E))) (take ?c (drop k rows)), ctx1)"
    "opens E ctx1 h ob1" "serves E ob1 rows" "columns (tbl ob1) = tags" "numerator (tbl ob1) = of_nat (min (k + ?c) (length rows))"
    using QueryRows_forward[OF assms(1) Cons.prems(1,2) assms(2) Cons.prems(4,5) fw(1), of junk] fw Cons.prems(3) by metis
  obtain batches ctx' ob' where b: "read_batches E junk h tags (map forward_req ns) ctx1 = Ok (batches, ctx')"
    "concat batches = map (map (client_prop (te_lib E))) (take ?s (drop (min (k + ?c) (length rows)) rows))"
    "opens E ctx' h ob'" "numerator (tbl ob') = of_nat (min (min (k + ?c) (length rows) + ?s) (length rows))"
    using Cons.IH[OF q(3,2,4,5)] by auto
  have "take ?s (drop (min (k + ?c) (length rows)) rows) = take ?s (drop ?c (drop k rows))"
    by (simp add: min_def add.commute)
  then have "take ?c (drop k rows) @ take ?s (drop (min (k + ?c) (length rows)) rows) = take (?c + ?s) (drop k rows)"
    by (simp only: take_add)
  then have "concat (map (map (client_prop (te_lib E))) (take ?c (drop k rows)) # batches) =
      map (map (client_prop (te_lib E))) (take (sum_list (map unat (n # ns))) (drop k rows))"
    using b(2) by (simp flip: map_append)
  moreover have "min (min (k + ?c) (length rows) + ?s) (length rows) = min (k + sum_list (map unat (n # ns))) (length rows)" by simp
  moreover have "read_batches E junk h tags (map forward_req (n # ns)) ctx = Ok (map (map (client_prop (te_lib E))) (take ?c (drop k rows)) # batches, ctx')"
    using q(1) b(1) by (simp del: obind_eq_Ok_iff)
  ultimately show ?case using b(3,4) by (metis (no_types, lifting))
qed

lemma read_first_again:
  assumes "row_laws (te_lib E)" "wire_sizes (te_lib E) rows < 2 ^ 32" "rows \<noteq> []" "0 < m"
  shows "serves E ob rows \<Longrightarrow> opens E ctx h ob \<Longrightarrow> columns (tbl ob) = tags \<Longrightarrow> numerator (tbl ob) = 0 \<Longrightarrow>
    \<exists>ctx'. read_batches E junk h tags (replicate j (backward_req m)) ctx = Ok (replicate j [map (client_prop (te_lib E)) (rows ! 0)], ctx')"
proof (induction j arbitrary: ctx ob)
  case (Suc j)
  have bw: "\<not> ForwardRead (backward_req m)" "RowCount (backward_req m) = m" "\<not> NoAdvance (backward_req m)" by (simp_all add: backward_req_def)
  have "0 < unat m" using assms(4) by (simp add: word_less_nat_alt)
  then have a: "Suc 0 - unat m = 0" by simp
  have first: "rev (take (Suc 0) rows) = [rows ! 0]" using assms(3) by (cases rows) simp_all
  obtain ctx1 ob1 where q: "QueryRows E junk ctx h tags (backward_req m) = Ok (0, [map (client_prop (te_lib E)) (rows ! 0)], ctx1)"
    "opens E ctx1 h ob1" "serves E ob1 rows" "columns (tbl ob1) = tags" "numerator (tbl ob1) = 0"
    using QueryRows_backward[OF assms(1) Suc.prems(1,2) assms(2), of 0 "backward_req m" junk] Suc.prems(3,4) bw assms(3) a first
    by (auto simp: neq_Nil_conv)
  show ?case using Suc.IH[OF q(3,2,4,5)] q(1) by (auto simp del: obind_eq_Ok_iff)
qed simp

section \<open>Looking for a row\<close>

lemma find_loop_spec:
  assumes "\<And>k. emsmdbp_object_table_get_row_props E ob k True = Ok (live (unat k))"
  defines "den \<equiv> unat (denominator (tbl ob))"
  shows "find_loop E ob i =
    (case find (\<lambda>k. live k \<noteq> None) [unat i..<den] of
       None \<Rightarrow> Ok (None, max i (denominator (tbl ob)))
     | Some k \<Rightarrow> obind (found_row (te_lib E) (the (live k))) (\<lambda>blob. Ok (Some blob, of_nat k)))"
proof (induction "den - unat i" arbitrary: i)
  case 0
  then have "\<not> i < denominator (tbl ob)" by (simp add: den_def word_less_nat_alt)
  moreover from this have "max i (denominator (tbl ob)) = i" by (simp add: max_def)
  ultimately show ?case using 0 by (subst find_loop.simps) simp
next
  case (Suc d)
  then have lt: "i < denominator (tbl ob)" by (simp add: den_def word_less_nat_alt)
  have "i + 1 \<noteq> 0"
  proof
    assume "i + 1 = 0"
    then have "i = -1" by (simp add: eq_neg_iff_add_eq_0)
    with lt show False using word_order.extremum_strict[of "denominator (tbl ob)"] by simp
  qed
  then have u: "unat (i + 1) = Suc (unat i)" by (simp add: unatSuc add.commute)
  have split: "[unat i..<den] = unat i # [Suc (unat i)..<den]" using Suc.hyps(2) by (simp add: upt_conv_Cons)
  have m: "max (i + 1) (denominator (tbl ob)) = max i (denominator (tbl ob))"
    using lt by (simp add: max_def word_le_nat_alt word_less_nat_alt u)
  show ?case
  proof (cases "live (unat i)")
    case None
    have "d = den - unat (i + 1)" using Suc.hyps(2) u by simp
    from Suc.hyps(1)[OF this] None show ?thesis
      unfolding m u using lt assms(1)[of i] by (subst find_loop.simps) (simp add: split)
  next
    case (Some cols)
    then show ?thesis using lt assms(1)[of i] split by (subst find_loop.simps) (simp del: obind_eq_Ok_iff)
  qed
qed

lemma found_row_fill:
  assumes "\<forall>c\<in>set cols. snd (snd c) \<noteq> 0 \<longrightarrow> snd (snd c) = E_NOT_FOUND"
  shows "found_row G cols = emsmdbp_fill_table_row_blob G cols []"
proof -
  have "found_property c = pushed_property c" if "c \<in> set cols" for c
    using assms that by (cases c) (auto simp: found_property_def pushed_property_def)
  then have "push_found G fl cols = push_columns G fl (map (\<lambda>c. (c, False)) cols)" for fl
    by (induction cols) (auto simp del: obind_eq_Ok_iff)
  then show ?thesis by (simp only: found_row_def emsmdbp_fill_table_row_blob_def)
qed

section \<open>A sample table\<close>

text \<open>Messages with a subject and a size; the second one has no subject. A restriction is a size.\<close>

type_synonym sample_backend = "(128 word fx_data \<times> mapistore_error) list list \<times> u32 option"

definition sample_messages :: "(128 word fx_data \<times> mapistore_error) list list" where
  "sample_messages =
     [[(FxString [72, 105], MAPISTORE_SUCCESS), (FxLong 7, MAPISTORE_SUCCESS)],
      [(FxNullPtr, MAPISTORE_ERR_NOT_FOUND), (FxLong 9, MAPISTORE_SUCCESS)],
      [(FxString [72, 111], MAPISTORE_SUCCESS), (FxLong 11, MAPISTORE_SUCCESS)]]"

definition sample_get_row :: "sample_backend \<Rightarrow> bool \<Rightarrow> u32 \<Rightarrow> (128 word fx_data \<times> mapistore_error) list option" where
  "sample_get_row b live k =
     (if unat k < length (fst b) \<and> (live \<longrightarrow> snd b = None \<or> fst (fst b ! unat k ! 1) = FxLong (the (snd b)))
      then Some (fst b ! unat k) else None)"

definition sample_tables_env :: "((string \<times> string) list, sample_backend, u32, unit, 128 word) table_env" where
  "sample_tables_env =
     \<lparr>te_tdb = assoc_tdb, te_lib = rowlib128, set_columns = (\<lambda>b _. b), set_restrictions = (\<lambda>b r. (MAPISTORE_SUCCESS, 0, (fst b, r))),
      set_sort_order = (\<lambda>b _. (MAPISTORE_SUCCESS, 0, b)), row_count = (\<lambda>b. Some (of_nat (length (fst b)))), get_row = sample_get_row,
      odb_row = (\<lambda>_ _ _ _ _ _. None), odb_set_restrictions = (\<lambda>b _. b), odb_set_sort_order = (\<lambda>b _. (0, b)),
      depth_rows = (\<lambda>_ _. (0, [], 0)), subscribe = (\<lambda>_ _ _ _. MAPISTORE_SUCCESS)\<rparr>"

definition sample_table :: "u32 \<Rightarrow> sample_backend table_object" where
  "sample_table i =
     \<lparr>tbl = \<lparr>ulType = MAPISTORE_MESSAGE_TABLE, restricted = False, columns = [0x0037001f, 0x0e080003], numerator = i, denominator = 3,
         table_flags = 0, subscription = False\<rparr>,
      backend_object = (sample_messages, None), is_mapistore = True, parent_object = ParentFolder 5\<rparr>"

definition sample_tables :: "u32 \<Rightarrow> ((string \<times> string) list, sample_backend) table_session" where
  "sample_tables i =
     \<lparr>tbl_handles = \<lparr>tdb_ctx = [(fmt_handle 1, MAPI_HANDLES_ROOT)], last_handle = 2,
        handles = [\<lparr>handle = 1, parent_handle = 0, private_data = Some 0\<rparr>]\<rparr>,
      tbl_objects = [0 \<mapsto> TableObject (sample_table i)]\<rparr>"

definition sample_row :: "(128 word fx_data \<times> mapistore_error) list \<Rightarrow> 128 word column list" where
  "sample_row vs = zip [0x0037001f, 0x0e080003] (map row_status vs)"

lemma sample_opens: "opens sample_tables_env (sample_tables i) 1 (sample_table i)"
  by (simp add: opens_def sample_tables_env_def sample_tables_def mapi_handles_search_def mapi_handles_get_private_data_def
      find_handle_def assoc_tdb_def MAPI_HANDLES_RESERVED_def)

lemma sample_rows:
  "map sample_row sample_messages =
     [[(0x0037001f, FxString [72, 105], 0), (0x0e080003, FxLong 7, 0)],
      [(0x0037001f, FxNullPtr, E_NOT_FOUND), (0x0e080003, FxLong 9, 0)],
      [(0x0037001f, FxString [72, 111], 0), (0x0e080003, FxLong 11, 0)]]"
  by (simp add: sample_messages_def sample_row_def row_status_def mapistore_error_to_mapi_def)

lemma sample_rows_ok: "rows_ok rowlib128 [0x0037001f, 0x0e080003] (map sample_row sample_messages)"
  unfolding sample_rows using pulls_wide[of "[72, 105]"] pulls_wide[of "[72, 111]"]
  by (simp add: rows_ok_def column_ok_def seen_def prop_type_def rowlib128_fields)

lemma sample_serves: "serves sample_tables_env (sample_table i) (map sample_row sample_messages)"
proof -
  have len: "length sample_messages = 3" by (simp add: sample_messages_def)
  have two: "length (sample_messages ! k) = 2" if "k < 3" for k
    using that by (auto simp: sample_messages_def less_Suc_eq numeral_eq_Suc)
  have "emsmdbp_object_table_get_row_props sample_tables_env (sample_table i) k False =
      Ok (if unat k < length (map sample_row sample_messages) then Some (map sample_row sample_messages ! unat k) else None)" for k
    using two[of "unat k"]
    by (simp add: emsmdbp_object_table_get_row_props_def sample_tables_env_def sample_table_def sample_get_row_def sample_row_def len)
  then show ?thesis
    using sample_rows_ok len by (simp add: serves_def sample_table_def sample_tables_env_def is_depth_def)
qed

lemma sample_sizes: "wire_sizes rowlib128 (map sample_row sample_messages) < 2 ^ 32"
  unfolding sample_rows
  by (simp add: wire_size_def emsmdbp_fill_table_row_blob_def libmapiserver_push_property_def pushed_property_def property_flag_def
        row_eval prop_id_def del: obind_eq_Ok_iff)

lemma sample_client_rows:
  "map (map (client_prop rowlib128)) (map sample_row sample_messages) =
     [[\<lparr>ulPropTag = 0x0037001f, pvalue = VUnicode [72, 105]\<rparr>, \<lparr>ulPropTag = 0x0e080003, pvalue = VLong 7\<rparr>],
      [\<lparr>ulPropTag = 0x0037000a, pvalue = VError E_NOT_FOUND\<rparr>, \<lparr>ulPropTag = 0x0e080003, pvalue = VLong 9\<rparr>],
      [\<lparr>ulPropTag = 0x0037001f, pvalue = VUnicode [72, 111]\<rparr>, \<lparr>ulPropTag = 0x0e080003, pvalue = VLong 11\<rparr>]]"
  unfolding sample_rows by (simp add: client_prop_def seen_def prop_type_def error_tag_def prop_id_def)

lemma sample_env_lib: "te_lib sample_tables_env = rowlib128" "columns (tbl (sample_table i)) = [0x0037001f, 0x0e080003]"
  "numerator (tbl (sample_table i)) = i"
  by (simp_all add: sample_tables_env_def sample_table_def)

section \<open>Properties\<close>

text \<open>C10 Reading a table. Whatever numbers of rows a client asks for, one call after the other, it reads the rows of the table in their
  order, each of them once, with the values the backend gave; and the cursor is behind the last row that was read.\<close>

theorem table_read_forward:
  assumes "row_laws (te_lib E)" "serves E ob rows" "opens E ctx h ob" "wire_sizes (te_lib E) rows < 2 ^ 32" "numerator (tbl ob) = 0"
  shows "\<exists>batches ctx' ctx''. read_batches E junk h (columns (tbl ob)) (map forward_req ns) ctx = Ok (batches, ctx') \<and>
    concat batches = map (map (client_prop (te_lib E))) (take (sum_list (map unat ns)) rows) \<and>
    (\<exists>den. EcDoRpc_RopQueryPosition E ctx' [h] 0 = Ok (0, (of_nat (min (sum_list (map unat ns)) (length rows)), den), ctx''))"
proof -
  from read_forward[OF assms(1,4,2,3) refl, of 0 junk ns] assms(5) obtain batches ctx' ob' where
    b: "read_batches E junk h (columns (tbl ob)) (map forward_req ns) ctx = Ok (batches, ctx')"
      "concat batches = map (map (client_prop (te_lib E))) (take (sum_list (map unat ns)) rows)"
      "opens E ctx' h ob'" "numerator (tbl ob') = of_nat (min (sum_list (map unat ns)) (length rows))" by auto
  obtain ctx'' where "EcDoRpc_RopQueryPosition E ctx' [h] 0 = Ok (0, (numerator (tbl ob'), denominator (tbl ob')), ctx'')"
    unfolding EcDoRpc_RopQueryPosition_def
    using with_table_opens[of E ctx' h ob' "\<lambda>_ ob. Ok (0, (numerator (tbl ob), denominator (tbl ob)), ob)", OF b(3) refl] by blast
  then show ?thesis using b(1,2) unfolding b(4) by blast
qed

theorem table_read_forward_witness:
  "\<exists>batches ctx'. read_batches sample_tables_env VNullPtr 1 [0x0037001f, 0x0e080003] (map forward_req [1, 5]) (sample_tables 0) = Ok (batches, ctx') \<and>
    concat batches =
     [[\<lparr>ulPropTag = 0x0037001f, pvalue = VUnicode [72, 105]\<rparr>, \<lparr>ulPropTag = 0x0e080003, pvalue = VLong 7\<rparr>],
      [\<lparr>ulPropTag = 0x0037000a, pvalue = VError E_NOT_FOUND\<rparr>, \<lparr>ulPropTag = 0x0e080003, pvalue = VLong 9\<rparr>],
      [\<lparr>ulPropTag = 0x0037001f, pvalue = VUnicode [72, 111]\<rparr>, \<lparr>ulPropTag = 0x0e080003, pvalue = VLong 11\<rparr>]]"
proof -
  have "take (sum_list (map unat [1, 5 :: u16])) (map sample_row sample_messages) = map sample_row sample_messages"
    by (simp add: sample_messages_def)
  note all = this
  have "row_laws (te_lib sample_tables_env)" "wire_sizes (te_lib sample_tables_env) (map sample_row sample_messages) < 2 ^ 32"
    using row_laws_rowlib128 sample_sizes by (simp_all only: sample_env_lib)
  from table_read_forward[OF this(1) sample_serves sample_opens this(2), of 0 VNullPtr "[1, 5]"]
  show ?thesis unfolding sample_env_lib all sample_client_rows by blast
qed

text \<open>C36 Reading backwards does not end: a request that reaches the beginning of the table gives the rows up to the first, and leaves the cursor
  on the first row, so that every further request gives this row again.\<close>

theorem backward_repeats:
  assumes "row_laws (te_lib E)" "serves E ob rows" "opens E ctx h ob" "wire_sizes (te_lib E) rows < 2 ^ 32"
    and "numerator (tbl ob) = of_nat p" "p < length rows" "p < unat n" "0 < m"
  shows "\<exists>ctx'. read_batches E junk h (columns (tbl ob)) (backward_req n # replicate j (backward_req m)) ctx =
    Ok (map (map (client_prop (te_lib E))) (rev (take (Suc p) rows)) # replicate j [map (client_prop (te_lib E)) (rows ! 0)], ctx')"
proof -
  have bw: "\<not> ForwardRead (backward_req n)" "RowCount (backward_req n) = n" "\<not> NoAdvance (backward_req n)" by (simp_all add: backward_req_def)
  have a: "Suc p - unat n = 0" using assms(7) by simp
  obtain ctx1 ob1 where q: "QueryRows E junk ctx h (columns (tbl ob)) (backward_req n) = Ok (0, map (map (client_prop (te_lib E))) (rev (take (Suc p) rows)), ctx1)"
    "opens E ctx1 h ob1" "serves E ob1 rows" "columns (tbl ob1) = columns (tbl ob)" "numerator (tbl ob1) = 0"
    using QueryRows_backward[OF assms(1-6) bw(1,3), of junk] a bw(2) by auto
  have "rows \<noteq> []" using assms(6) by auto
  from read_first_again[OF assms(1,4) this assms(8) q(3,2,4,5), of junk j] show ?thesis using q(1) by (auto simp del: obind_eq_Ok_iff)
qed

theorem backward_repeats_witness:
  "\<exists>ctx'. read_batches sample_tables_env VNullPtr 1 [0x0037001f, 0x0e080003] [backward_req 4, backward_req 2, backward_req 2] (sample_tables 0) =
    Ok (replicate 3 [[\<lparr>ulPropTag = 0x0037001f, pvalue = VUnicode [72, 105]\<rparr>, \<lparr>ulPropTag = 0x0e080003, pvalue = VLong 7\<rparr>]], ctx')"
proof -
  have first: "rev (take (Suc 0) (map sample_row sample_messages)) = [map sample_row sample_messages ! 0]" "0 < length (map sample_row sample_messages)"
    by (simp_all add: sample_messages_def)
  have "map (client_prop rowlib128) (map sample_row sample_messages ! 0) =
      [\<lparr>ulPropTag = 0x0037001f, pvalue = VUnicode [72, 105]\<rparr>, \<lparr>ulPropTag = 0x0e080003, pvalue = VLong 7\<rparr>]"
    unfolding sample_rows by (simp add: client_prop_def seen_def prop_type_def)
  moreover have two: "replicate 2 x = [x, x]" "replicate 3 x = [x, x, x]" for x :: 'a by (simp_all add: numeral_eq_Suc)
  ultimately show ?thesis
    using backward_repeats[OF _ sample_serves sample_opens, of 0 0 4 2 VNullPtr 2] row_laws_rowlib128 sample_sizes first
    unfolding sample_env_lib two by simp
qed

text \<open>C29 Looking for a row. The client gets the first row, from the cursor or the beginning on, that the restriction lets through, and the
  cursor is on it; when there is none it is told so. Where a property of the row is missing it reads the error.\<close>

theorem find_row_first:
  assumes "row_laws (te_lib E)" "opens E ctx h ob" "ulType (tbl ob) \<noteq> MAPISTORE_RULE_TABLE"
    and live: "\<forall>k. emsmdbp_object_table_get_row_props E (restrict_rows E (Some (find_res req)) ob) k True = Ok (live (unat k))"
    and rows: "\<forall>k cols. live k = Some cols \<longrightarrow> map fst cols = columns (tbl ob) \<and> wire_size (te_lib E) cols < 2 ^ 32 \<and>
      (\<forall>c\<in>set cols. column_ok (te_lib E) c \<and> (snd (snd c) \<noteq> 0 \<longrightarrow> snd (snd c) = E_NOT_FOUND))"
  shows "case find (\<lambda>k. live k \<noteq> None)
        [(if find_origin req = BOOKMARK_BEGINNING \<or> find_backward req then 0 else unat (numerator (tbl ob)))..<unat (denominator (tbl ob))] of
      None \<Rightarrow> \<exists>ctx'. EcDoRpc_RopFindRow E ctx [h] 0 req = Ok (E_NOT_FOUND, None, ctx')
    | Some k \<Rightarrow> \<exists>blob ctx' ob'. EcDoRpc_RopFindRow E ctx [h] 0 req = Ok (0, Some blob, ctx') \<and>
        emsmdb_get_SRowSet (te_lib E) junk 1 (columns (tbl ob)) blob = Ok [map (client_prop (te_lib E)) (the (live k))] \<and>
        opens E ctx' h ob' \<and> numerator (tbl ob') = of_nat k"
proof -
  define start where "start = (if find_origin req = BOOKMARK_BEGINNING \<or> find_backward req then 0 else numerator (tbl ob))"
  define ob1 where "ob1 = restrict_rows E (Some (find_res req)) (ob\<lparr>tbl := (tbl ob)\<lparr>numerator := start\<rparr>\<rparr>)"
  have ob1: "ob1 = (restrict_rows E (Some (find_res req)) ob)\<lparr>tbl := (tbl ob)\<lparr>numerator := start\<rparr>\<rparr>" by (simp add: ob1_def restrict_rows_def)
  have "emsmdbp_object_table_get_row_props E ob1 = emsmdbp_object_table_get_row_props E (restrict_rows E (Some (find_res req)) ob)"
    unfolding ob1 by (rule get_row_props_cursor) (simp_all add: restrict_rows_def)
  then have live1: "emsmdbp_object_table_get_row_props E ob1 k True = Ok (live (unat k))" for k using live by simp
  have den: "denominator (tbl ob1) = denominator (tbl ob)" by (simp add: ob1)
  have s: "(if find_origin req = BOOKMARK_BEGINNING \<or> find_backward req then 0 else unat (numerator (tbl ob))) = unat start" by (simp add: start_def)
  note loop = find_loop_spec[of E ob1 live start, OF live1, unfolded den]
  have find: "table_find E req ob = obind (find_loop E ob1 start) (\<lambda>(found, i).
      Ok (if found = None then E_NOT_FOUND else 0, found, restrict_rows E None (ob1\<lparr>tbl := (tbl ob1)\<lparr>numerator := i\<rparr>\<rparr>)))"
    using assms(3) by (simp add: table_find_def start_def[symmetric] ob1_def[symmetric] Let_def)
  show ?thesis
    unfolding s
  proof (cases "find (\<lambda>k. live k \<noteq> None) [unat start..<unat (denominator (tbl ob))]")
    case None
    then obtain ob2 where "table_find E req ob = Ok (E_NOT_FOUND, None, ob2)" by (simp add: find loop)
    then obtain ctx' where "EcDoRpc_RopFindRow E ctx [h] 0 req = Ok (E_NOT_FOUND, None, ctx')"
      unfolding EcDoRpc_RopFindRow_def using with_table_opens[of E ctx h ob "\<lambda>_. table_find E req", OF assms(2)] by metis
    then show "case find (\<lambda>k. live k \<noteq> None) [unat start..<unat (denominator (tbl ob))] of
        None \<Rightarrow> \<exists>ctx'. EcDoRpc_RopFindRow E ctx [h] 0 req = Ok (E_NOT_FOUND, None, ctx')
      | Some k \<Rightarrow> \<exists>blob ctx' ob'. EcDoRpc_RopFindRow E ctx [h] 0 req = Ok (0, Some blob, ctx') \<and>
          emsmdb_get_SRowSet (te_lib E) junk 1 (columns (tbl ob)) blob = Ok [map (client_prop (te_lib E)) (the (live k))] \<and>
          opens E ctx' h ob' \<and> numerator (tbl ob') = of_nat k" using None by auto
  next
    case (Some k)
    then obtain cols where cols: "live k = Some cols" by (auto simp: find_Some_iff)
    have ok: "rows_ok (te_lib E) (columns (tbl ob)) [cols]" "wire_sizes (te_lib E) [cols] < 2 ^ 32"
      "\<forall>c\<in>set cols. snd (snd c) \<noteq> 0 \<longrightarrow> snd (snd c) = E_NOT_FOUND"
      using rows cols by (auto simp: rows_ok_def)
    obtain bs where bs: "fill_rows (te_lib E) [cols] [] = Ok bs"
      "emsmdb_get_SRowSet (te_lib E) junk (length [cols]) (columns (tbl ob)) bs = Ok (map (map (client_prop (te_lib E))) [cols])"
      by (rule rows_delivered[OF assms(1) ok(1,2), of junk])
    have fr: "found_row (te_lib E) cols = Ok bs" using bs(1) found_row_fill[OF ok(3), of "te_lib E"] by simp
    let ?ob2 = "restrict_rows E None (ob1\<lparr>tbl := (tbl ob1)\<lparr>numerator := of_nat k\<rparr>\<rparr>)"
    have "table_find E req ob = Ok (0, Some bs, ?ob2)" using Some cols fr by (simp add: find loop del: obind_eq_Ok_iff)
    then obtain ctx' where c: "EcDoRpc_RopFindRow E ctx [h] 0 req = Ok (0, Some bs, ctx')" "opens E ctx' h ?ob2"
      unfolding EcDoRpc_RopFindRow_def using with_table_opens[of E ctx h ob "\<lambda>_. table_find E req", OF assms(2)] by metis
    have "numerator (tbl ?ob2) = of_nat k" by (simp add: restrict_rows_def)
    then show "case find (\<lambda>k. live k \<noteq> None) [unat start..<unat (denominator (tbl ob))] of
        None \<Rightarrow> \<exists>ctx'. EcDoRpc_RopFindRow E ctx [h] 0 req = Ok (E_NOT_FOUND, None, ctx')
      | Some k \<Rightarrow> \<exists>blob ctx' ob'. EcDoRpc_RopFindRow E ctx [h] 0 req = Ok (0, Some blob, ctx') \<and>
          emsmdb_get_SRowSet (te_lib E) junk 1 (columns (tbl ob)) blob = Ok [map (client_prop (te_lib E)) (the (live k))] \<and>
          opens E ctx' h ob' \<and> numerator (tbl ob') = of_nat k" using Some c bs(2) cols by (simp del: obind_eq_Ok_iff) blast
  qed
qed

theorem find_row_first_witness:
  "\<exists>blob ctx' ob'. EcDoRpc_RopFindRow sample_tables_env (sample_tables 0) [1] 0
      \<lparr>find_backward = False, find_res = 9, find_origin = BOOKMARK_BEGINNING\<rparr> = Ok (0, Some blob, ctx') \<and>
    emsmdb_get_SRowSet rowlib128 VNullPtr 1 [0x0037001f, 0x0e080003] blob =
      Ok [[\<lparr>ulPropTag = 0x0037000a, pvalue = VError E_NOT_FOUND\<rparr>, \<lparr>ulPropTag = 0x0e080003, pvalue = VLong 9\<rparr>]] \<and>
    opens sample_tables_env ctx' 1 ob' \<and> numerator (tbl ob') = 1"
proof -
  define live where "live = (\<lambda>k::nat. if k = 1 then Some (sample_row (sample_messages ! 1)) else None)"
  let ?req = "\<lparr>find_backward = False, find_res = 9, find_origin = BOOKMARK_BEGINNING\<rparr> :: u32 FindRow_req"
  have fi: "find (\<lambda>k. live k \<noteq> None) [0..<unat (denominator (tbl (sample_table 0)))] = Some 1"
    by (simp add: sample_table_def live_def upt_conv_Cons)
  have row: "sample_row (sample_messages ! 1) = [(0x0037001f, FxNullPtr, E_NOT_FOUND), (0x0e080003, FxLong 9, 0)]"
    using arg_cong[OF sample_rows, of "\<lambda>xs. xs ! 1"] by (simp add: sample_messages_def)
  have get: "emsmdbp_object_table_get_row_props sample_tables_env (restrict_rows sample_tables_env (Some 9) (sample_table 0)) k True = Ok (live (unat k))" for k
  proof -
    have "unat k < 3 \<and> fst (sample_messages ! unat k ! 1) = FxLong 9 \<longleftrightarrow> unat k = 1"
      by (auto simp: sample_messages_def less_Suc_eq numeral_eq_Suc)
    moreover have "length (sample_messages ! 1) = 2" "length sample_messages = 3" by (simp_all add: sample_messages_def)
    ultimately show ?thesis
      by (auto simp: emsmdbp_object_table_get_row_props_def restrict_rows_def sample_tables_env_def sample_table_def sample_get_row_def sample_row_def live_def)
  qed
  have ok: "\<forall>k cols. live k = Some cols \<longrightarrow> map fst cols = columns (tbl (sample_table 0)) \<and> wire_size (te_lib sample_tables_env) cols < 2 ^ 32 \<and>
      (\<forall>c\<in>set cols. column_ok (te_lib sample_tables_env) c \<and> (snd (snd c) \<noteq> 0 \<longrightarrow> snd (snd c) = E_NOT_FOUND))"
    unfolding live_def row sample_env_lib
    by (simp add: column_ok_def seen_def prop_type_def wire_size_def emsmdbp_fill_table_row_blob_def libmapiserver_push_property_def
        pushed_property_def property_flag_def row_eval prop_id_def del: obind_eq_Ok_iff)
  have "map (client_prop rowlib128) (sample_row (sample_messages ! 1)) =
      [\<lparr>ulPropTag = 0x0037000a, pvalue = VError E_NOT_FOUND\<rparr>, \<lparr>ulPropTag = 0x0e080003, pvalue = VLong 9\<rparr>]"
    unfolding row by (simp add: client_prop_def seen_def prop_type_def error_tag_def prop_id_def)
  then show ?thesis
    using find_row_first[of sample_tables_env "sample_tables 0" 1 "sample_table 0" ?req live VNullPtr] row_laws_rowlib128 sample_opens fi get ok
    by (simp add: sample_env_lib live_def sample_table_def)
qed

end
