(* ===== verification/Spec2Isabelle.thy ===== *)
theory Spec2Isabelle
  imports Idset_Raw Mapi_Id_Array Lzfu_Roundtrip Fxparser_Stream Mapi_Handles_Table Property_Tags Property_Casts
    Oxcfxics_Download Replica_Map Oxcfxics_Delivery Oxcfxics_Cycle Oxcfxics_Unsent Mapistore_Ids Freebusy_Conflict Table_Cursor
begin

text \<open>
  Verification of parts of OpenChange, an implementation of the Exchange protocols in C.

  \<^bold>\<open>The program.\<close> \<^verbatim>\<open>src/libmapi\<close> is the MAPI client library, \<^verbatim>\<open>src/mapiproxy\<close> the server and its
  libraries, \<^verbatim>\<open>src/utils\<close> the tools. The code that computes something of its own, rather than
  marshalling requests through generated NDR code or storing through LDB, MySQL and TDB, is what
  these theories model: the sets of change numbers of the synchronisation protocol, both ends of fast
  transfer streams (the server that produces them and cuts them into buffers, the client that
  parses them), the synchronization of folders with the state that goes back and forth, the replica identifiers and source keys of folders and messages, the index of
  folders and messages and the contexts of the storage layer, the free/busy data of a calendar, the compression of
  RTF bodies, the handles of a session, the tables of a folder and the rows they are read in, and the property arrays, values and rows that all of these
  pass around. The linked lists of
  \<^verbatim>\<open>src/utils/dlinklist.h\<close> carry several of them.

  \<^bold>\<open>Conventions\<close> (theory \<open>OC_Prelude\<close>). A C call returns an \<open>outcome\<close>: a value, an \<^verbatim>\<open>abort()\<close> or failed
  assertion, a fault (an access outside an object, or of a union member that was not stored), or
  an endless loop. Integers have their C width where they can wrap; indices and pointers into
  buffers are natural numbers with explicit bounds. Loops are recursive functions with a
  termination proof. Memory allocation succeeds, unless a theorem says otherwise. Null arguments
  of public functions, which return an error at once, are modelled only where the code relies on
  them. Code outside the repository is an argument: GUID and NDR routines of Samba (\<open>samba_lib\<close>,
  \<open>fx_lib\<close>, \<open>guid_lib\<close>, \<open>guid_text\<close>), TDB (\<open>tdb_lib\<close>), the conversion of UTF-16 text and the stream that
  \<^verbatim>\<open>WrapCompressedRTFStream\<close> reads; what is relied on is stated by \<open>samba_laws\<close>, \<open>fx_laws\<close>, \<open>guid_laws\<close>,
  \<open>guid_text_laws\<close> and \<open>tdb_laws\<close>,
  and concrete instances show that the laws can hold.

  \<^bold>\<open>Theories.\<close>

  \<^item> \<open>Globset\<close>: the GLOBSET byte code of \<^verbatim>\<open>src/libmapi/idset.c\<close>, decoder stack machine and encoder. Decoding
    undoes encoding; the decoder stays within the buffer where it reports a length; hostile input
    makes it run forever or read outside its objects.
  \<^item> \<open>Idset\<close>, \<open>Idset_Sets\<close>, \<open>Idset_Merge\<close>, \<open>Idset_Wire\<close>, \<open>Idset_Raw\<close>: the IDSET and RAWIDSET operations of
    the same file. An idset stands for a set of identifiers; making, merging, compacting, removing
    and testing are set operations on it, with the exceptions that the theorems name; a serialised
    idset reads back, a chain of two does not. There the lists of ranges are plain lists.
  \<^item> \<open>Dlinklist\<close>: the DLIST macros over a store of nodes with their \<^verbatim>\<open>prev\<close> and \<^verbatim>\<open>next\<close> pointers. The locale
    \<open>dlist_iface\<close> is what the users of the macros rely on. The theory also shows what the range removal
    of \<^verbatim>\<open>idset.c\<close> does to the pointers of its list.
  \<^item> \<open>Mapi_Id_Array\<close>: the identifier arrays of \<^verbatim>\<open>src/libmapi/mapi_id_array.c\<close>, in memory, against lists.
  \<^item> \<open>Lzfu\<close>, \<open>Lzfu_Crc\<close>, \<open>Lzfu_Match\<close>, \<open>Lzfu_Roundtrip\<close>: \<^verbatim>\<open>src/libmapi/lzfu.c\<close>. The table-driven checksum is
    CRC-32; decompression undoes compression; the buffers of both are too small for some inputs.
  \<^item> \<open>Mapi_Prop\<close>: property types and values.
  \<^item> \<open>Fxparser\<close>, \<open>Fxparser_Pull\<close>, \<open>Fxparser_Parse\<close>, \<open>Fxparser_Stream\<close>: \<^verbatim>\<open>src/libmapi/fxparser.c\<close>. The locale
    \<open>puller\<close> is the contract of the functions that read from the buffer, and every one of them is
    shown to satisfy it. From it follow that the loop ends and that the result does not depend on
    how the stream is cut. Well-formed streams of every type are delivered element by element; only a marker at the very end is held back.
  \<^item> \<open>Mapi_Handles\<close>, \<open>Mapi_Handles_Table\<close>: \<^verbatim>\<open>src/mapiproxy/libmapiproxy/mapi_handles.c\<close>. The list of records and
    the TDB database agree in every state a session reaches; adding, searching and deleting are
    operations on the table of live handles, and a deletion takes the whole hierarchy.
  \<^item> \<open>Property_Tags\<close>, \<open>Property_Values\<close>, \<open>Property_Casts\<close>: \<^verbatim>\<open>src/libmapi/property.c\<close>. Counted tag arrays are lists
    (locale \<open>tag_array\<close>), rows are maps from tags to values, the conversions of properties undo each
    other but for binaries, whose lengths are cut to 16 bits, and for four types that abort, and the length of a converted string is that of its encoding.
  \<^item> \<open>Oxcfxics\<close>, \<open>Oxcfxics_Transfer\<close>, \<open>Oxcfxics_Download\<close>: the server side of fast transfer,
    \<^verbatim>\<open>src/mapiproxy/servers/default/emsmdb/oxcfxics.c\<close>. Properties are pushed into a stream with cutmarks,
    and the stream is sent in buffers whose sizes the client chooses. The buffers are the stream in
    order and the transfer ends; together with the theories on the parser, what was pushed is what
    the callbacks of the client see. A request of size 0 and a property name that is not known are
    where it fails.
  \<^item> \<open>Oxcfxics_Sync\<close>, \<open>Oxcfxics_Folders\<close>, \<open>Oxcfxics_Buffers\<close>: the change streams of a synchronization, in the same file.
    The tables and messages that the backends give are fields of \<open>sync_env\<close> and \<open>folder_env\<close>. A download of contents is made
    in chunks, one stage after the other; a hierarchy is walked to a given depth. The locale \<open>chunk_source\<close> is what the
    code that cuts the chunks into buffers relies on.
  \<^item> \<open>Oxcfxics_Emit\<close>, \<open>Oxcfxics_Chunks\<close>, \<open>Oxcfxics_Sample\<close>, \<open>Oxcfxics_Delivery\<close>: everything that writes a message only appends to
    the stream, with cutmarks in order; so the chunks are such a source, there are finitely many, and a client that asks often
    enough receives them whole. The exceptions are the first buffer of a hierarchy and messages without a size.
  \<^item> \<open>Oxcfxics_Resync\<close>, \<open>Oxcfxics_State\<close>, \<open>Oxcfxics_Cycle\<close>, \<open>Oxcfxics_Unsent\<close>: the set of change numbers that a client has seen, and the three calls
    with which it gives the set back. What is uploaded in pieces is what was downloaded, and a folder that has not changed
    is not sent a second time; a message that could not be opened is lost between two that could, because the set spans it.
  \<^item> \<open>Replica\<close>, \<open>Replica_Map\<close>: \<^verbatim>\<open>src/mapiproxy/libmapistore/mapistore_replica_mapping.c\<close> and the functions of
    \<^verbatim>\<open>emsmdbp.c\<close> and \<^verbatim>\<open>oxcfxics.c\<close> that use it. The database of a user is a bijection between GUIDs and identifiers
    that only grows; the locale \<open>replica_ids\<close> is what its clients rely on, and source keys lead back to the
    identifiers they were made from. Records are read as C strings although they have no terminating zero: the bytes that lie behind
    a record are an argument (\<open>env_beyond\<close>) about which nothing is assumed, and the theorems say what is returned when they continue the
    record and when they do not.
  \<^item> \<open>Row_Blobs\<close>, \<open>Row_Sample\<close>, \<open>Row_Roundtrip\<close>: rows of properties in the replies of a server, from \<^verbatim>\<open>libmapiserver_oxcprpt.c\<close> and
    \<^verbatim>\<open>emsmdbp_object.c\<close> to \<^verbatim>\<open>src/libmapi/emsmdb.c\<close>. What is pushed is what the client pulls, binaries cut to 16-bit lengths; what
    its decoder makes of any bytes for a tag is of the type of the tag, which the setter of rows relies on without a check. The NDR routines are fields of \<open>row_lib\<close> with the laws \<open>row_laws\<close>.
  \<^item> \<open>Tables\<close>, \<open>Table_Cursor\<close>: the table calls of \<^verbatim>\<open>src/mapiproxy/servers/default/emsmdb/oxctabl.c\<close> with the handles of the session, and
    \<^verbatim>\<open>QueryRows\<close> of the client. Reading forwards gives every row once and in order, looking for a row the first one that fits; reading
    backwards does not end. The rows of the backends are fields of \<open>table_env\<close>.
  \<^item> \<open>Indexing\<close>, \<open>Indexing_Map\<close>: \<^verbatim>\<open>src/mapiproxy/libmapistore/backends/indexing_tdb.c\<close>, the database that maps the identifiers
    of a user to the URIs of folders and messages and hands out new identifiers. The locale \<open>fmid_index\<close> is the
    contract of the functions an index is made of; under it any sequence of calls does what it does on a map and a counter. The
    counter is stored without a terminating zero, and is read with whatever digits lie behind it (the argument \<open>beyond\<close>, any
    function): then it is larger, never smaller. A
    search by URI finds a record that is alone under its URI, and takes one that was deleted for a live one.
  \<^item> \<open>Mapistore\<close>, \<open>Mapistore_Contexts\<close>, \<open>Mapistore_Ids\<close>: \<^verbatim>\<open>mapistore_interface.c\<close>, \<^verbatim>\<open>mapistore_backend.c\<close>, \<^verbatim>\<open>mapistore_processing.c\<close> and
    \<^verbatim>\<open>mapistore_indexing.c\<close> in the same directory. Contexts are numbered and counted: no number is used twice, and a context
    lives until it was closed once more than it was shared, whatever else is shared and closed in between. The identifiers that a user is given are all different
    until the counter leaves its 48 bits, unless one request asks for 2^31 of them or more, which sets the counter back. The functions of the backends, the
    MySQL index and the table of index URLs are arguments.
  \<^item> \<open>Freebusy\<close>, \<open>Freebusy_Conflict\<close>: what \<^verbatim>\<open>mapistore_interface.c\<close> publishes of a calendar, how \<^verbatim>\<open>emsmdbp_object.c\<close> shows it as
    properties of a message, and the check of \<^verbatim>\<open>src/libmapi/freebusy.c\<close> for a conflict. The client finds a conflict exactly
    when an event covers the beginning of the hour it asks for and the date is of the year in which the published range starts. The events of the calendar and the conversions
    of Samba between clocks are arguments (\<open>fb_env\<close>, \<open>time_laws\<close>); \<^verbatim>\<open>mktime\<close>, \<^verbatim>\<open>gmtime\<close> and \<^verbatim>\<open>localtime\<close> are those of the C
    library with UTC as the local time. In the first days of a January the number of months is negative and is published as
    65528 with no months in memory.

  \<^bold>\<open>Bounds and fuel.\<close> The parser theorems are for data below 4 GB less 16 bytes (\<open>small\<close>), so that the
  checks of constant size do not wrap; those on transfers for streams below 4 GB less 64 KB and requests
  that the 16-bit fields of the protocol can hold. Those on free/busy data are for times from 1970 on that the conversions of Samba keep
  (\<open>time_limit\<close>). A transfer takes at most one request for each
  byte and cutmark. The chunks of a synchronization are counted by fuel, and some number of chunks is shown to be enough;
  the walk down a hierarchy is given the depth to which the backends nest folders. The recursive deletion of handles has fuel for one level more
  than there are handles, which is enough because every level removes one. The decoder loop of
  \<open>Globset\<close> that may run forever is \<open>Hang\<close> by its loop condition, not by fuel.

  \<^bold>\<open>Not modelled.\<close> The calls of the client library that fill a request, send it and copy the reply;
  sessions, profiles and transport; the server end points but for those named above, and their storage; NDR marshalling, most
  of which is generated; the OCPF compiler (lex and yacc); the conversion to iCalendar, which works
  on an external library; the functions of mapistore that hand a call on to a backend, its notifications and named
  properties, and openchangedb, which are queries on LDB, MySQL and memcached; printing and logging; tools, bindings and tests. Of \<^verbatim>\<open>property.c\<close>, the setters
  of the wire form, dates, and the wrappers around generated code.
\<close>

end
